(* ===== verification/Prelude.thy ===== *)
theory Prelude
  imports Complex_Main "HOL-Library.Word" "HOL-Library.Multiset" "HOL-Library.Log_Nat"
    "HOL-Library.List_Lexorder" "HOL-Library.Char_ord"
begin

text \<open>
  Shared vocabulary of the development: names for the machine types, the pieces of Rust's
  standard library the sources use (saturating arithmetic, \<open>Vec::swap_remove\<close>,
  \<open>Iterator::min_by_key\<close>, decimal and debug formatting, single precision rounding), the
  fuelled loop combinator and the interface under which every \<open>loop\<close> of the
  sources is shown to terminate.

  Widths. \<open>u8\<close> and \<open>u32\<close> values are words, so that wrap-around is part of the model.
  Millisecond clocks, byte and article counters (\<open>u64\<close>, \<open>usize\<close>) are \<open>nat\<close>: they are
  incremented at most once per article or per elapsed millisecond and cannot reach
  \<open>2 ^ 64\<close> in the life of a process.  Arithmetic follows a release build (no overflow checks).
\<close>

section \<open>Names\<close>

type_synonym u8 = "8 word"
type_synonym u16 = "16 word"
type_synonym u32 = "32 word"
type_synonym millis = nat
type_synonym byte_string = "char list"
type_synonym bytes = "u8 list"
type_synonym path = byte_string

named_theorems frame_simps \<open>fields an operation leaves alone\<close>
named_theorems item_simps \<open>how operations move work items\<close>

section \<open>Saturating arithmetic\<close>

definition sat_add :: "u32 \<Rightarrow> u32 \<Rightarrow> u32" where
  "sat_add a b = (if unat a + unat b < 2 ^ 32 then a + b else - 1)"

definition sat_sub :: "u32 \<Rightarrow> u32 \<Rightarrow> u32" where
  "sat_sub a b = (if a < b then 0 else a - b)"

definition sat_mul :: "u32 \<Rightarrow> u32 \<Rightarrow> u32" where
  "sat_mul a b = (if unat a * unat b < 2 ^ 32 then a * b else - 1)"

lemma unat_sat_add: "unat (sat_add a b) = min (unat a + unat b) (2 ^ 32 - 1)"
proof (cases "unat a + unat b < 2 ^ 32")
  case True
  then show ?thesis by (simp add: sat_add_def unat_word_ariths)
next
  case False
  then show ?thesis by (simp add: sat_add_def unsigned_minus_1_eq_mask mask_eq_exp_minus_1)
qed

lemma unat_sat_sub: "unat (sat_sub a b) = unat a - unat b"
  by (auto simp: sat_sub_def word_less_nat_alt unat_sub_if_size)

section \<open>Vectors\<close>

text \<open>\<open>Vec::swap_remove(i)\<close> on an index in range: the last element takes the place of element \<open>i\<close>.\<close>

definition swap_remove :: "nat \<Rightarrow> 'a list \<Rightarrow> 'a list" where
  "swap_remove i xs = butlast (xs[i := last xs])"

lemma length_swap_remove [simp]: "length (swap_remove i xs) = length xs - 1"
  by (simp add: swap_remove_def)

lemma mset_swap_remove:
  assumes "i < length xs"
  shows "add_mset (xs ! i) (mset (swap_remove i xs)) = mset xs"
proof (cases xs rule: rev_cases)
  case Nil
  with assms show ?thesis by simp
next
  case (snoc ys y)
  show ?thesis
  proof (cases "i = length ys")
    case True
    then show ?thesis by (simp add: swap_remove_def snoc)
  next
    case False
    with assms snoc have i: "i < length ys" by simp
    then have "swap_remove i xs = ys[i := y]"
      by (simp add: swap_remove_def snoc list_update_append)
    with i show ?thesis
      by (simp add: snoc nth_append mset_update)
  qed
qed

lemma set_swap_remove: "i < length xs \<Longrightarrow> set (swap_remove i xs) \<subseteq> set xs"
  by (metis mset_swap_remove set_mset_add_mset_insert set_mset_mset subset_insertI)

lemma filter_swap_remove:
  "i < length xs \<Longrightarrow> \<not> P (xs ! i) \<Longrightarrow>
    filter_mset P (mset (swap_remove i xs)) = filter_mset P (mset xs)"
  by (metis filter_mset_add_mset mset_swap_remove)

text \<open>\<open>Iterator::position\<close>.\<close>

fun position :: "('a \<Rightarrow> bool) \<Rightarrow> 'a list \<Rightarrow> nat option" where
  "position P [] = None"
| "position P (x # xs) = (if P x then Some 0 else map_option Suc (position P xs))"

lemma position_Some:
  "position P xs = Some i \<longleftrightarrow> i < length xs \<and> P (xs ! i) \<and> (\<forall>j < i. \<not> P (xs ! j))"
proof (induction xs arbitrary: i)
  case (Cons x xs)
  show ?case
    by (cases i) (auto simp: Cons.IH All_less_Suc2)
qed simp

lemma position_None: "position P xs = None \<longleftrightarrow> (\<forall>x \<in> set xs. \<not> P x)"
  by (induction xs) auto

text \<open>\<open>Iterator::min_by_key\<close>: the first of the elements with the least key.\<close>

fun min_by_key :: "('a \<Rightarrow> nat) \<Rightarrow> 'a list \<Rightarrow> 'a option" where
  "min_by_key k [] = None"
| "min_by_key k (x # xs) =
     (case min_by_key k xs of None \<Rightarrow> Some x | Some y \<Rightarrow> if k x \<le> k y then Some x else Some y)"

lemma min_by_key_None_iff [simp]: "min_by_key k xs = None \<longleftrightarrow> xs = []"
  by (cases xs) (auto split: option.splits)

lemma min_by_key_Some: "min_by_key k xs = Some x \<Longrightarrow> x \<in> set xs \<and> (\<forall>y \<in> set xs. k x \<le> k y)"
  by (induction xs arbitrary: x) (auto split: option.splits if_splits)

text \<open>The idiom \<open>Some(match slot { Some(e) if e < d => e, _ => d })\<close>.\<close>

definition keep_min :: "nat option \<Rightarrow> nat \<Rightarrow> nat option" where
  "keep_min slot d = Some (case slot of Some e \<Rightarrow> if e < d then e else d | None \<Rightarrow> d)"

lemma keep_min_simps [simp]:
  "keep_min None d = Some d"
  "keep_min (Some e) d = Some (min e d)"
  by (auto simp: keep_min_def)

section \<open>Formatting\<close>

definition digit :: "nat \<Rightarrow> char" where
  "digit n = (''0123456789abcdef'' ! (n mod 16))"

fun show_base :: "nat \<Rightarrow> nat \<Rightarrow> byte_string" where
  "show_base b n = (if b < 2 \<or> n < b then [digit n] else show_base b (n div b) @ [digit (n mod b)])"

declare show_base.simps [simp del]

definition show_nat :: "nat \<Rightarrow> byte_string" where
  "show_nat n = show_base 10 n"

definition is_ascii_digit :: "char \<Rightarrow> bool" where
  "is_ascii_digit c \<longleftrightarrow> 48 \<le> (of_char c :: nat) \<and> (of_char c :: nat) \<le> 57"

text \<open>Decimal output is a string of digits that determines the number.\<close>

definition digits_value :: "byte_string \<Rightarrow> nat" where
  "digits_value s = foldl (\<lambda>a c. 10 * a + (of_char c - 48)) 0 s"

lemma digit_decimal: "n < 10 \<Longrightarrow> is_ascii_digit (digit n) \<and> of_char (digit n) - 48 = n"
proof -
  assume "n < 10"
  then have "n \<in> {0, 1, 2, 3, 4, 5, 6, 7, 8, 9}" by auto
  then show ?thesis by (auto simp: digit_def is_ascii_digit_def)
qed

lemma show_nat_digits: "list_all is_ascii_digit (show_nat n)"
  unfolding show_nat_def
proof (induction "10 :: nat" n rule: show_base.induct)
  case (1 n)
  then show ?case
    using digit_decimal [of n] digit_decimal [of "n mod 10"]
    by (subst show_base.simps) auto
qed

lemma digits_value_show_nat [simp]: "digits_value (show_nat n) = n"
  unfolding show_nat_def digits_value_def
proof (induction "10 :: nat" n rule: show_base.induct)
  case (1 n)
  then show ?case
    using digit_decimal [of n] digit_decimal [of "n mod 10"]
    by (subst show_base.simps) auto
qed

lemma show_nat_inject [simp]: "show_nat m = show_nat n \<longleftrightarrow> m = n"
  by (metis digits_value_show_nat)

text \<open>\<open>format!("{s:?}")\<close> on the ASCII range; bytes of multi-byte characters are kept.\<close>

definition debug_char :: "char \<Rightarrow> byte_string" where
  "debug_char c =
    (let n = (of_char c :: nat) in
     if n = 0 then [CHR 0x5C, CHR ''0'']
     else if n = 9 then [CHR 0x5C, CHR ''t'']
     else if n = 10 then [CHR 0x5C, CHR ''n'']
     else if n = 13 then [CHR 0x5C, CHR ''r'']
     else if n = 34 then [CHR 0x5C, CHR 0x22]
     else if n = 92 then [CHR 0x5C, CHR 0x5C]
     else if n < 32 \<or> n = 127 then [CHR 0x5C, CHR ''u'', CHR 0x7B] @ show_base 16 n @ [CHR 0x7D]
     else [c])"

definition debug_str :: "byte_string \<Rightarrow> byte_string" where
  "debug_str s = CHR 0x22 # concat (map debug_char s) @ [CHR 0x22]"

text \<open>\<open>u8::to_ascii_lowercase\<close> on every byte, and \<open>str::contains\<close>.\<close>

definition ascii_lower :: "char \<Rightarrow> char" where
  "ascii_lower c =
    (let n = (of_char c :: nat) in if 65 \<le> n \<and> n \<le> 90 then char_of (n + 32) else c)"

fun str_contains :: "byte_string \<Rightarrow> byte_string \<Rightarrow> bool" where
  "str_contains pat [] = (pat = [])"
| "str_contains pat (c # cs) = (take (length pat) (c # cs) = pat \<or> str_contains pat cs)"

text \<open>
  \<open>Path::join\<close> with a relative argument (an absolute one, which replaces the base in Rust, is outside the model: the
  callers join the names of files in the work directory of a job).
\<close>

definition path_join :: "path \<Rightarrow> byte_string \<Rightarrow> path" where
  "path_join base name =
    (if base = [] \<or> last base = CHR ''/'' then base @ name else base @ CHR ''/'' # name)"

text \<open>
  \<open>str::to_lowercase\<close> and \<open>str::to_ascii_lowercase\<close>, which agree up to the bytes of
  multi-byte characters (kept as they are), \<open>str::ends_with\<close> and \<open>[String]::join\<close>.
\<close>

definition lowercase :: "byte_string \<Rightarrow> byte_string" where
  "lowercase s = map ascii_lower s"

definition ends_with :: "byte_string \<Rightarrow> byte_string \<Rightarrow> bool" where
  "ends_with suf s \<longleftrightarrow> length suf \<le> length s \<and> drop (length s - length suf) s = suf"

fun join_strings :: "byte_string \<Rightarrow> byte_string list \<Rightarrow> byte_string" where
  "join_strings sep [] = []"
| "join_strings sep [s] = s"
| "join_strings sep (s # t # ts) = s @ sep @ join_strings sep (t # ts)"

lemma ends_with_append [simp]: "ends_with suf (s @ suf)"
  by (simp add: ends_with_def)

lemma length_lowercase [simp]: "length (lowercase s) = length s"
  by (simp add: lowercase_def)

section \<open>Single precision floating point\<close>

text \<open>
  A finite, non-negative \<open>f32\<close> is the rational it denotes.  \<open>f32_round\<close> is rounding to 24
  significant bits, ties to even, which is what \<open>as f32\<close>, division and multiplication
  do in the normal range (the sources only form ratios of \<open>u32\<close> counters times 100, or 0).
\<close>

definition round_half_even :: "rat \<Rightarrow> int" where
  "round_half_even x =
    (let f = \<lfloor>x\<rfloor>; r = x - of_int f in
     if r < 1 / 2 then f else if r > 1 / 2 then f + 1 else if even f then f else f + 1)"

definition pow2 :: "int \<Rightarrow> rat" where
  "pow2 e = (if 0 \<le> e then 2 ^ nat e else 1 / 2 ^ nat (- e))"

definition f32_round :: "rat \<Rightarrow> rat" where
  "f32_round x =
    (if x \<le> 0 then 0
     else
       let (p, q) = quotient_of x;
           e0 = int (floorlog 2 (nat p)) - int (floorlog 2 (nat q)) - 24;
           e = (if x / pow2 e0 < 2 ^ 24 then e0 else e0 + 1)
       in of_int (round_half_even (x / pow2 e)) * pow2 e)"

text \<open>A number in the binade of \<open>e\<close> rounds to the nearest multiple of \<open>2 ^ e\<close>.\<close>

lemma pow2_powi: "pow2 e = 2 powi e"
  by (simp add: pow2_def power_int_def power_one_over field_simps)

lemma binade_unique:
  fixes x :: rat
  assumes "2 ^ 23 * 2 powi e \<le> x" "x < 2 ^ 24 * 2 powi e"
    and "2 ^ 23 * 2 powi e' \<le> x" "x < 2 ^ 24 * 2 powi e'"
  shows "e = e'"
proof -
  have *: "\<not> (2 ^ 23 * 2 powi c \<le> x \<and> x < 2 ^ 24 * 2 powi d)" if "d < c" for c d :: int
  proof
    assume "2 ^ 23 * 2 powi c \<le> x \<and> x < 2 ^ 24 * 2 powi d"
    then have "2 ^ 23 * 2 powi c < 2 ^ 24 * (2 powi d :: rat)" by linarith
    moreover have "2 * 2 powi d = (2 powi (d + 1) :: rat)" by (simp add: power_int_add)
    moreover have "2 powi (d + 1) \<le> (2 powi c :: rat)"
      using that by (intro power_int_increasing) auto
    ultimately show False by simp
  qed
  show ?thesis using *[of e e'] *[of e' e] assms by linarith
qed

lemma floorlog_binade:
  fixes x :: rat
  assumes "0 < x" "quotient_of x = (p, q)"
  defines "e0 \<equiv> int (floorlog 2 (nat p)) - int (floorlog 2 (nat q)) - 24"
  shows "2 ^ 23 * 2 powi e0 \<le> x \<and> x < 2 ^ 25 * 2 powi e0"
proof -
  have q: "0 < q" using assms(2) by (rule quotient_of_denom_pos)
  have x: "x = of_int p / of_int q" using assms(2) by (rule quotient_of_div)
  have p: "0 < p" using x q assms(1) by (simp add: zero_less_divide_iff)
  define a b where "a = floorlog 2 (nat p)" and "b = floorlog 2 (nat q)"
  have a: "2 ^ (a - 1) \<le> nat p" "nat p < 2 ^ a" and b: "2 ^ (b - 1) \<le> nat q" "nat q < 2 ^ b"
    using floorlog_bounds [of "nat p" 2] floorlog_bounds [of "nat q" 2] p q by (auto simp: a_def b_def)
  have a0: "0 < a" "0 < b" using p q a b by (auto intro!: gr0I)
  have R: "of_int z = (of_nat (nat z) :: rat)" if "0 < z" for z using that by simp
  have P: "2 powi (int a - 1) \<le> (of_int p :: rat)" "of_int p < (2 powi int a :: rat)"
    and Q: "2 powi (int b - 1) \<le> (of_int q :: rat)" "of_int q < (2 powi int b :: rat)"
  proof -
    have c: "2 powi (int n - 1) = (of_nat (2 ^ (n - 1)) :: rat)" if "0 < n" for n
      using that by (simp add: power_int_def nat_diff_distrib)
    show "2 powi (int a - 1) \<le> (of_int p :: rat)" 
      unfolding c[OF a0(1)] R[OF p] by (simp only: of_nat_le_iff a)
    show "2 powi (int b - 1) \<le> (of_int q :: rat)"
      unfolding c[OF a0(2)] R[OF q] by (simp only: of_nat_le_iff b)
    have d: "2 powi int n = (of_nat (2 ^ n) :: rat)" for n by simp
    show "of_int p < (2 powi int a :: rat)"
      unfolding d R[OF p] by (simp only: of_nat_less_iff a)
    show "of_int q < (2 powi int b :: rat)"
      unfolding d R[OF q] by (simp only: of_nat_less_iff b)
  qed
  have qp: "0 < (of_int q :: rat)" using q by simp
  have "2 ^ 23 * 2 powi e0 * of_int q \<le> (2 ^ 23 * 2 powi e0 * 2 powi int b :: rat)"
    using Q(2) by (simp add: mult_left_mono)
  also have "\<dots> = 2 powi (int a - 1)"
    by (simp add: e0_def a_def [symmetric] b_def [symmetric] power_int_diff power_int_add field_simps)
  also note P(1)
  finally have l: "2 ^ 23 * 2 powi e0 * of_int q \<le> (of_int p :: rat)" .
  note P(2)
  also have "2 powi int a = (2 ^ 25 * 2 powi e0 * 2 powi (int b - 1) :: rat)"
    by (simp add: e0_def a_def [symmetric] b_def [symmetric] power_int_diff power_int_add field_simps)
  also have "\<dots> \<le> 2 ^ 25 * 2 powi e0 * of_int q"
    using Q(1) by (simp add: mult_left_mono)
  finally have u: "of_int p < (2 ^ 25 * 2 powi e0 * of_int q :: rat)" .
  show ?thesis using l u qp by (simp add: x field_simps)
qed

lemma f32_roundI:
  assumes "2 ^ 23 * pow2 e \<le> x" "x < 2 ^ 24 * pow2 e" "\<bar>x / pow2 e - of_int m\<bar> < 1 / 2"
  shows "f32_round x = of_int m * pow2 e"
proof -
  have pos: "0 < pow2 e" for e by (simp add: pow2_powi)
  have "0 < 2 ^ 23 * pow2 e" using pos [of e] by simp
  then have x0: "0 < x" using assms(1) by (rule less_le_trans)
  obtain p q where pq: "quotient_of x = (p, q)" by (cases "quotient_of x")
  define e0 where "e0 = int (floorlog 2 (nat p)) - int (floorlog 2 (nat q)) - 24"
  define e1 where "e1 = (if x / pow2 e0 < 2 ^ 24 then e0 else e0 + 1)"
  have b: "2 ^ 23 * 2 powi e0 \<le> x" "x < 2 ^ 25 * 2 powi e0"
    using floorlog_binade [OF x0 pq] by (auto simp: e0_def)
  have "2 ^ 23 * 2 powi e1 \<le> x \<and> x < 2 ^ 24 * 2 powi e1"
    using b pos [of e0] by (auto simp: e1_def pow2_powi power_int_add field_simps)
  then have "e1 = e" using assms(1,2) binade_unique [of e1 x e] by (simp add: pow2_powi)
  moreover have "round_half_even (x / pow2 e) = m"
  proof -
    define y where "y = x / pow2 e"
    have "\<bar>y - of_int m\<bar> < 1 / 2" using assms(3) by (simp add: y_def)
    then have "(\<lfloor>y\<rfloor> = m \<and> y - of_int m < 1/2) \<or> (\<lfloor>y\<rfloor> = m - 1 \<and> 1/2 < y - of_int (m - 1))"
      by (cases "of_int m \<le> y") (auto simp: floor_eq_iff abs_less_iff)
    then show ?thesis unfolding y_def [symmetric] round_half_even_def by (auto simp: Let_def)
  qed
  moreover have "f32_round x = of_int (round_half_even (x / pow2 e1)) * pow2 e1"
  proof -
    have "\<not> x \<le> 0" using x0 by simp
    then show ?thesis by (simp only: f32_round_def pq Let_def prod.case e1_def e0_def if_False)
  qed
  ultimately show ?thesis by simp
qed

lemma f32_round_0 [simp]: "f32_round 0 = 0"
  by (simp add: f32_round_def)

section \<open>Loops\<close>

text \<open>
  A Rust \<open>loop\<close> is a body that either goes round again (\<open>Inl\<close>) or leaves (\<open>Inr\<close>);
  \<open>run_loop\<close> runs it for at most the given number of rounds.
\<close>

fun run_loop :: "('s \<Rightarrow> 's + 'r) \<Rightarrow> nat \<Rightarrow> 's \<Rightarrow> 'r option" where
  "run_loop body 0 s = None"
| "run_loop body (Suc n) s = (case body s of Inl s' \<Rightarrow> run_loop body n s' | Inr r \<Rightarrow> Some r)"

lemma run_loop_mono: "run_loop body n s = Some r \<Longrightarrow> n \<le> m \<Longrightarrow> run_loop body m s = Some r"
proof (induction n arbitrary: s m)
  case (Suc n)
  then obtain m' where "m = Suc m'" by (cases m) auto
  with Suc show ?case by (auto split: sum.splits)
qed simp

lemma run_loop_det:
  assumes "run_loop body n s = Some r" "run_loop body m s = Some r'"
  shows "r = r'"
  using assms run_loop_mono [of body n s r "max n m"] run_loop_mono [of body m s r' "max n m"]
  by simp

text \<open>
  Interface of a loop: an invariant the body keeps and a well-founded order it descends.  Under it
  the loop returns, and what holds of every exit from an invariant state holds of the result.
\<close>

locale loop_body =
  fixes body :: "'s \<Rightarrow> 's + 'r"
    and inv :: "'s \<Rightarrow> bool"
    and mu :: "'s \<Rightarrow> nat"
  assumes body_inv: "inv s \<Longrightarrow> body s = Inl s' \<Longrightarrow> inv s'"
    and body_mu: "inv s \<Longrightarrow> body s = Inl s' \<Longrightarrow> mu s' < mu s"
begin

lemma returns: "inv s \<Longrightarrow> mu s < n \<Longrightarrow> \<exists>r. run_loop body n s = Some r"
proof (induction n arbitrary: s)
  case (Suc n)
  show ?case
  proof (cases "body s")
    case (Inl s')
    with Suc.prems have "inv s'" "mu s' < n"
      using body_inv [OF _ Inl] body_mu [OF _ Inl] by auto
    with Suc.IH Inl show ?thesis by simp
  qed simp
qed simp

lemma exit_state:
  assumes "run_loop body n s = Some r" "inv s"
  shows "\<exists>s'. inv s' \<and> body s' = Inr r"
  using assms
proof (induction n arbitrary: s)
  case (Suc n)
  then show ?case
    by (cases "body s") (auto dest: body_inv)
qed simp

end

text \<open>Partial correctness needs no measure.\<close>

lemma run_loop_invariant:
  assumes "run_loop body n s = Some r" "I s"
    and "\<And>s s'. I s \<Longrightarrow> body s = Inl s' \<Longrightarrow> I s'"
    and "\<And>s r. I s \<Longrightarrow> body s = Inr r \<Longrightarrow> Q r"
  shows "Q r"
  using assms(1,2)
proof (induction n arbitrary: s)
  case (Suc n)
  then show ?case
    by (cases "body s") (auto intro: assms(3,4))
qed simp

text \<open>A body that can only go round again from every invariant state never returns.\<close>

lemma run_loop_diverges:
  assumes "I s" and "\<And>s. I s \<Longrightarrow> \<exists>s'. body s = Inl s' \<and> I s'"
  shows "run_loop body n s = None"
  using assms(1)
proof (induction n arbitrary: s)
  case (Suc n)
  then show ?case using assms(2) [OF Suc.prems] by auto
qed simp

end
