(* ===== verification/Nntp_Error.thy ===== *)
theory Nntp_Error
  imports Prelude
begin

text \<open>
  The error type of the NNTP layer (\<open>crates/nzb-nntp/src/error.rs\<close>), its display text, and the
  classification of unexpected replies to an article command.  \<open>Io\<close> carries the display text
  of the \<open>std::io::Error\<close> it wraps.
\<close>

datatype nntp_error =
    Connection byte_string
  | Tls byte_string
  | Auth byte_string
  | AuthRequired byte_string
  | PermissionDenied byte_string
  | ServiceUnavailable byte_string
  | ArticleNotFound byte_string
  | NoSuchGroup byte_string
  | NoArticleSelected byte_string
  | Protocol byte_string
  | UnsupportedCommand byte_string
  | ResponseTooLarge byte_string
  | Io byte_string
  | NoConnectionsAvailable byte_string
  | Timeout byte_string
  | AllServersExhausted byte_string
  | Shutdown

fun nntp_error_display :: "nntp_error \<Rightarrow> byte_string" where
  "nntp_error_display (Connection m) = ''Connection error: '' @ m"
| "nntp_error_display (Tls m) = ''TLS error: '' @ m"
| "nntp_error_display (Auth m) = ''Authentication failed: '' @ m"
| "nntp_error_display (AuthRequired m) = ''Authentication required: '' @ m"
| "nntp_error_display (PermissionDenied m) = ''Permission denied: '' @ m"
| "nntp_error_display (ServiceUnavailable m) = ''Service unavailable: '' @ m"
| "nntp_error_display (ArticleNotFound m) = ''Article not found: '' @ m"
| "nntp_error_display (NoSuchGroup m) = ''No such group: '' @ m"
| "nntp_error_display (NoArticleSelected m) = ''No article selected: '' @ m"
| "nntp_error_display (Protocol m) = ''Protocol error: '' @ m"
| "nntp_error_display (UnsupportedCommand m) = ''Unsupported command: '' @ m"
| "nntp_error_display (ResponseTooLarge m) = ''Response too large: '' @ m"
| "nntp_error_display (Io m) = ''I/O error: '' @ m"
| "nntp_error_display (NoConnectionsAvailable m) = ''No connections available for server '' @ m"
| "nntp_error_display (Timeout m) = ''Timeout: '' @ m"
| "nntp_error_display (AllServersExhausted m) = ''All servers exhausted for article '' @ m"
| "nntp_error_display Shutdown = ''Downloader shut down''"

definition unexpected_article_response :: "nat \<Rightarrow> byte_string \<Rightarrow> nntp_error" where
  "unexpected_article_response code message =
    (let normalized = map ascii_lower message;
         expired_session = (code = 400 \<and>
           ((str_contains ''idle'' normalized \<and> str_contains ''timeout'' normalized) \<or>
            (str_contains ''session'' normalized \<and>
              (str_contains ''timeout'' normalized \<or> str_contains ''expired'' normalized \<or>
               str_contains ''closed'' normalized))))
     in if expired_session
        then Connection (''NNTP session expired ('' @ show_nat code @ ''): '' @ message)
        else Protocol (''Unexpected ARTICLE response '' @ show_nat code @ '': '' @ message))"

text \<open>\<open>clone_err\<close> of \<open>crates/nzb-news/src/downloader.rs\<close> rebuilds an error constructor by constructor.\<close>

fun clone_err :: "nntp_error \<Rightarrow> nntp_error" where
  "clone_err (Connection m) = Connection m"
| "clone_err (Tls m) = Tls m"
| "clone_err (Auth m) = Auth m"
| "clone_err (AuthRequired m) = AuthRequired m"
| "clone_err (PermissionDenied m) = PermissionDenied m"
| "clone_err (ServiceUnavailable m) = ServiceUnavailable m"
| "clone_err (ArticleNotFound m) = ArticleNotFound m"
| "clone_err (NoSuchGroup m) = NoSuchGroup m"
| "clone_err (NoArticleSelected m) = NoArticleSelected m"
| "clone_err (Protocol m) = Protocol m"
| "clone_err (UnsupportedCommand m) = UnsupportedCommand m"
| "clone_err (ResponseTooLarge m) = ResponseTooLarge m"
| "clone_err (Io m) = Io m"
| "clone_err (NoConnectionsAvailable m) = NoConnectionsAvailable m"
| "clone_err (Timeout m) = Timeout m"
| "clone_err (AllServersExhausted m) = AllServersExhausted m"
| "clone_err Shutdown = Shutdown"

lemma clone_err_id [simp]: "clone_err e = e"
  by (cases e) simp_all

text \<open>An error is article absence exactly when it is the 430 constructor.\<close>

definition is_not_found :: "nntp_error \<Rightarrow> bool" where
  "is_not_found e \<longleftrightarrow> (case e of ArticleNotFound _ \<Rightarrow> True | _ \<Rightarrow> False)"

lemma is_not_found_simps [simp]:
  "is_not_found (ArticleNotFound m)" "\<not> is_not_found (Connection m)" "\<not> is_not_found (Tls m)"
  "\<not> is_not_found (Auth m)" "\<not> is_not_found (AuthRequired m)"
  "\<not> is_not_found (PermissionDenied m)" "\<not> is_not_found (ServiceUnavailable m)"
  "\<not> is_not_found (NoSuchGroup m)" "\<not> is_not_found (NoArticleSelected m)"
  "\<not> is_not_found (Protocol m)" "\<not> is_not_found (UnsupportedCommand m)"
  "\<not> is_not_found (ResponseTooLarge m)" "\<not> is_not_found (Io m)"
  "\<not> is_not_found (NoConnectionsAvailable m)" "\<not> is_not_found (Timeout m)"
  "\<not> is_not_found (AllServersExhausted m)" "\<not> is_not_found Shutdown"
  by (simp_all add: is_not_found_def)

lemma unexpected_article_response_cases:
  "(\<exists>m. unexpected_article_response c s = Connection m) \<or>
   (\<exists>m. unexpected_article_response c s = Protocol m)"
  by (simp add: unexpected_article_response_def Let_def)

lemma unexpected_article_response_not_absence [simp]:
  "\<not> is_not_found (unexpected_article_response c s)"
  using unexpected_article_response_cases [of c s] by auto

end
