(* ===== verification/Nntp_Conn.thy ===== *)
theory Nntp_Conn
  imports Nntp_Error
begin

text \<open>
  The line level of an NNTP connection (\<open>crates/nzb-nntp/src/connection.rs\<close>): commands written,
  status lines parsed, multi-line bodies read with dot-unstuffing.  The socket is a
  script of what the peer does: each read consumes one event (a line, an I/O error, a timeout),
  each write or flush one outcome.  A read past the end of the script is a peer that sends
  nothing more, which the code's read timeout turns into an error.  Connection setup (TCP, TLS,
  authentication) is an input of the callers.
\<close>

datatype connection_state =
  Disconnected | Connecting | Authenticating | Ready | Busy | Error | PeerClosed

datatype rx_event = RxLine byte_string | RxIoErr byte_string | RxTimeout

record transport =
  tr_rx :: "rx_event list"
  tr_wr :: "byte_string option list"
  tr_sent :: "byte_string list"

record nntp_conn =
  conn_server_id :: byte_string
  conn_state :: connection_state
  conn_transport :: "transport option"

record nntp_response =
  resp_code :: nat
  resp_message :: byte_string
  resp_data :: "byte_string option"

abbreviation CR :: char where "CR \<equiv> CHR 0x0D"
abbreviation LF :: char where "LF \<equiv> CHR 0x0A"
abbreviation crlf :: byte_string where "crlf \<equiv> [CR, LF]"

definition resp_is_success :: "nntp_response \<Rightarrow> bool" where
  "resp_is_success r \<longleftrightarrow> 200 \<le> resp_code r \<and> resp_code r < 300"

definition resp_needs_auth :: "nntp_response \<Rightarrow> bool" where
  "resp_needs_auth r \<longleftrightarrow> resp_code r = 480"

section \<open>Status lines\<close>

definition trim_end_crlf :: "byte_string \<Rightarrow> byte_string" where
  "trim_end_crlf s = rev (dropWhile (\<lambda>c. c = CR \<or> c = LF) (rev s))"

text \<open>\<open>Chars::next\<close>: a lead byte takes its continuation bytes with it.\<close>

definition is_continuation :: "char \<Rightarrow> bool" where
  "is_continuation c \<longleftrightarrow> 128 \<le> (of_char c :: nat) \<and> (of_char c :: nat) < 192"

definition skip_utf8_char :: "byte_string \<Rightarrow> byte_string" where
  "skip_utf8_char s =
    (case s of [] \<Rightarrow> [] | c # cs \<Rightarrow> if (of_char c :: nat) < 128 then cs else dropWhile is_continuation cs)"

definition digit_value :: "char \<Rightarrow> nat" where
  "digit_value c = of_char c - 48"

definition parse_response_line :: "byte_string \<Rightarrow> nntp_error + nntp_response" where
  "parse_response_line line =
    (let trimmed = trim_end_crlf line in
     if length trimmed < 3 then Inl (Protocol (''Response line too short: '' @ debug_str trimmed))
     else if \<not> list_all is_ascii_digit (take 3 trimmed)
     then Inl (Protocol (''Invalid response code in: '' @ debug_str trimmed))
     else Inr \<lparr>resp_code = foldl (\<lambda>acc b. acc * 10 + digit_value b) 0 (take 3 trimmed),
               resp_message = skip_utf8_char (drop 3 trimmed), resp_data = None\<rparr>)"

section \<open>Reading and writing\<close>

fun next_rx :: "rx_event list \<Rightarrow> rx_event \<times> rx_event list" where
  "next_rx [] = (RxTimeout, [])"
| "next_rx (e # es) = (e, es)"

definition with_rx :: "nntp_conn \<Rightarrow> transport \<Rightarrow> rx_event list \<Rightarrow> nntp_conn" where
  "with_rx c t rx = c\<lparr>conn_transport := Some (t\<lparr>tr_rx := rx\<rparr>)\<rparr>"

definition read_response_line :: "nntp_conn \<Rightarrow> (nntp_error + nntp_response) \<times> nntp_conn" where
  "read_response_line c =
    (case conn_transport c of
       None \<Rightarrow> (Inl (Connection ''Not connected''), c)
     | Some t \<Rightarrow>
         (case next_rx (tr_rx t) of (ev, rx) \<Rightarrow>
           let c' = with_rx c t rx in
           (case ev of
              RxTimeout \<Rightarrow> (Inl (Io ''read_response_line timed out after 60s''), c')
            | RxIoErr e \<Rightarrow> (Inl (Io e), c')
            | RxLine l \<Rightarrow>
                if l = [] then (Inl (Connection ''Server closed connection''), c')
                else (parse_response_line l, c'))))"

fun read_body_lines ::
  "byte_string \<Rightarrow> nat option \<Rightarrow> rx_event list \<Rightarrow> (nntp_error + byte_string) \<times> rx_event list" where
  "read_body_lines out mx [] =
     (Inl (Io (''read_multiline_body timed out after 20s (received '' @ show_nat (length out) @
       '' bytes so far)'')), [])"
| "read_body_lines out mx (ev # rx) =
     (case ev of
        RxTimeout \<Rightarrow>
          (Inl (Io (''read_multiline_body timed out after 20s (received '' @ show_nat (length out) @
            '' bytes so far)'')), rx)
      | RxIoErr e \<Rightarrow> (Inl (Io e), rx)
      | RxLine raw \<Rightarrow>
          if raw = [] then (Inl (Connection ''Server closed connection during multi-line read''), rx)
          else if raw = CHR ''.'' # crlf \<or> raw = [CHR ''.'', LF] then (Inr out, rx)
          else
            let line = (if take 2 raw = ''..'' then drop 1 raw else raw) in
            if (case mx of None \<Rightarrow> False | Some m \<Rightarrow> m < length out + length line)
            then (Inl (ResponseTooLarge ''multi-line response exceeds its byte bound''), rx)
            else read_body_lines (out @ line) mx rx)"

definition read_multiline_body_into_bounded ::
  "nat option \<Rightarrow> nntp_conn \<Rightarrow> (nntp_error + byte_string) \<times> nntp_conn" where
  "read_multiline_body_into_bounded mx c =
    (case conn_transport c of
       None \<Rightarrow> (Inl (Connection ''Not connected''), c)
     | Some t \<Rightarrow> (case read_body_lines [] mx (tr_rx t) of (r, rx) \<Rightarrow> (r, with_rx c t rx)))"

definition read_multiline_body :: "nntp_conn \<Rightarrow> (nntp_error + byte_string) \<times> nntp_conn" where
  "read_multiline_body c = read_multiline_body_into_bounded None c"

definition read_multiline_body_bounded ::
  "nat \<Rightarrow> nntp_conn \<Rightarrow> (nntp_error + byte_string) \<times> nntp_conn" where
  "read_multiline_body_bounded m c = read_multiline_body_into_bounded (Some m) c"

fun take_write :: "transport \<Rightarrow> byte_string option \<times> transport" where
  "take_write t = (case tr_wr t of [] \<Rightarrow> (None, t) | w # ws \<Rightarrow> (w, t\<lparr>tr_wr := ws\<rparr>))"

definition send_command_no_flush :: "byte_string \<Rightarrow> nntp_conn \<Rightarrow> (nntp_error + unit) \<times> nntp_conn" where
  "send_command_no_flush cmd c =
    (case conn_transport c of
       None \<Rightarrow> (Inl (Connection ''Not connected''), c)
     | Some t \<Rightarrow>
         (case take_write t of
            (Some e, t') \<Rightarrow> (Inl (Io e), c\<lparr>conn_transport := Some t'\<rparr>)
          | (None, t') \<Rightarrow>
              (Inr (), c\<lparr>conn_transport := Some (t'\<lparr>tr_sent := tr_sent t' @ [cmd @ crlf]\<rparr>)\<rparr>)))"

definition conn_flush :: "nntp_conn \<Rightarrow> (nntp_error + unit) \<times> nntp_conn" where
  "conn_flush c =
    (case conn_transport c of
       None \<Rightarrow> (Inl (Connection ''Not connected''), c)
     | Some t \<Rightarrow>
         (case take_write t of
            (Some e, t') \<Rightarrow> (Inl (Io e), c\<lparr>conn_transport := Some t'\<rparr>)
          | (None, t') \<Rightarrow> (Inr (), c\<lparr>conn_transport := Some t'\<rparr>)))"

definition send_command :: "byte_string \<Rightarrow> nntp_conn \<Rightarrow> (nntp_error + unit) \<times> nntp_conn" where
  "send_command cmd c =
    (case send_command_no_flush cmd c of
       (Inl e, c') \<Rightarrow> (Inl e, c')
     | (Inr _, c') \<Rightarrow> conn_flush c')"

definition conn_quit :: "nntp_conn \<Rightarrow> (nntp_error + unit) \<times> nntp_conn" where
  "conn_quit c =
    (let c1 = (case conn_transport c of
         None \<Rightarrow> c
       | Some _ \<Rightarrow>
           (case send_command ''QUIT'' c of
              (Inl _, c') \<Rightarrow> c'
            | (Inr _, c') \<Rightarrow> snd (read_response_line c')))
     in (Inr (), c1\<lparr>conn_transport := None, conn_state := Disconnected\<rparr>))"

definition mark_peer_closed :: "nntp_conn \<Rightarrow> nntp_conn" where
  "mark_peer_closed c = c\<lparr>conn_state := PeerClosed\<rparr>"

definition conn_is_connected :: "nntp_conn \<Rightarrow> bool" where
  "conn_is_connected c \<longleftrightarrow> conn_transport c \<noteq> None \<and> conn_state c \<noteq> Disconnected"

section \<open>Message ids and article headers\<close>

definition starts_with_char :: "char \<Rightarrow> byte_string \<Rightarrow> bool" where
  "starts_with_char ch s \<longleftrightarrow> take 1 s = [ch]"

definition ends_with_char :: "char \<Rightarrow> byte_string \<Rightarrow> bool" where
  "ends_with_char ch s \<longleftrightarrow> take 1 (rev s) = [ch]"

definition normalize_message_id :: "byte_string \<Rightarrow> byte_string" where
  "normalize_message_id mid =
    (if starts_with_char CHR ''<'' mid \<and> ends_with_char CHR ''>'' mid then mid
     else CHR ''<'' # mid @ ''>'')"

fun strip_article_headers :: "byte_string \<Rightarrow> byte_string" where
  "strip_article_headers (a # b # rest) =
     (if a = CR \<and> b = LF then
        (case rest of
           c # d # body \<Rightarrow> if c = CR \<and> d = LF then body else strip_article_headers (b # rest)
         | _ \<Rightarrow> strip_article_headers (b # rest))
      else if a = LF \<and> b = LF then rest
      else strip_article_headers (b # rest))"
| "strip_article_headers _ = []"

section \<open>Reads leave the state word alone\<close>

lemma with_rx_state [simp, frame_simps]: "conn_state (with_rx c t rx) = conn_state c"
  by (simp add: with_rx_def)

lemma read_response_line_state [frame_simps]:
  "read_response_line c = (r, c') \<Longrightarrow> conn_state c' = conn_state c"
  by (auto simp: read_response_line_def Let_def
      split: option.splits prod.splits rx_event.splits if_splits)

lemma read_multiline_body_state [frame_simps]:
  "read_multiline_body c = (r, c') \<Longrightarrow> conn_state c' = conn_state c"
  by (auto simp: read_multiline_body_def read_multiline_body_into_bounded_def
      split: option.splits prod.splits)

section \<open>Round trips on the wire\<close>

text \<open>What a server sends: RFC 3977 status lines and dot-stuffed bodies.\<close>

definition status_line :: "nat \<Rightarrow> byte_string \<Rightarrow> byte_string" where
  "status_line code msg =
    [digit (code div 100), digit (code div 10 mod 10), digit (code mod 10), CHR '' ''] @ msg @ crlf"

definition dot_stuff :: "byte_string \<Rightarrow> byte_string" where
  "dot_stuff l = (if starts_with_char CHR ''.'' l then CHR ''.'' # l else l)"

definition body_events :: "byte_string list \<Rightarrow> rx_event list" where
  "body_events ls = map (RxLine \<circ> dot_stuff) ls @ [RxLine (CHR ''.'' # crlf)]"

definition article_text :: "byte_string list \<Rightarrow> byte_string \<Rightarrow> byte_string" where
  "article_text headers body = concat (map (\<lambda>h. h @ crlf) headers) @ crlf @ body"

lemma digit_less_10:
  assumes "n < 10"
  shows "is_ascii_digit (digit n)" and "digit_value (digit n) = n"
proof -
  have "n \<in> {0, 1, 2, 3, 4, 5, 6, 7, 8, 9}" using assms by auto
  then show "is_ascii_digit (digit n)" and "digit_value (digit n) = n"
    by (auto simp: digit_def is_ascii_digit_def digit_value_def)
qed

lemma trim_end_crlf_append:
  assumes "msg = [] \<or> last msg \<notin> {CR, LF}"
  shows "trim_end_crlf (a # b # c # d # msg @ crlf) =
    (if msg = [] \<and> d \<in> {CR, LF} then trim_end_crlf [a, b, c] else a # b # c # d # msg)"
  using assms by (cases msg rule: rev_cases) (auto simp: trim_end_crlf_def)

lemma parse_status_line:
  assumes "code < 1000" and "msg = [] \<or> last msg \<notin> {CR, LF}"
  shows "parse_response_line (status_line code msg) =
    Inr \<lparr>resp_code = code, resp_message = msg, resp_data = None\<rparr>"
proof -
  let ?a = "code div 100" and ?b = "code div 10 mod 10" and ?c = "code mod 10"
  have bnd: "?a < 10" "?b < 10" "?c < 10" using assms(1) by auto
  have "?a = code div 10 div 10" by (simp flip: div_mult2_eq)
  then have "?a * 10 + ?b = code div 10" by (simp add: div_mult_mod_eq)
  then have val: "(?a * 10 + ?b) * 10 + ?c = code" by (simp add: div_mult_mod_eq)
  have trim: "trim_end_crlf (status_line code msg) =
      [digit ?a, digit ?b, digit ?c, CHR '' ''] @ msg"
    using trim_end_crlf_append [OF assms(2), of "digit ?a" "digit ?b" "digit ?c" "CHR '' ''"]
    by (simp add: status_line_def)
  show ?thesis
    using bnd val
    by (simp add: parse_response_line_def trim digit_less_10 skip_utf8_char_def
        numeral_3_eq_3 algebra_simps)
qed

lemma parse_response_line_code_bound:
  assumes "parse_response_line l = Inr r"
  shows "resp_code r < 1000"
proof -
  let ?t = "trim_end_crlf l"
  from assms have len: "3 \<le> length ?t" and dig: "list_all is_ascii_digit (take 3 ?t)"
    and r: "resp_code r = foldl (\<lambda>acc b. acc * 10 + digit_value b) 0 (take 3 ?t)"
    by (auto simp: parse_response_line_def Let_def split: if_splits)
  from len obtain a b c rest where t: "?t = a # b # c # rest"
    by (cases ?t; cases "tl ?t"; cases "tl (tl ?t)") auto
  have v: "is_ascii_digit x \<Longrightarrow> digit_value x \<le> 9" for x
    by (auto simp: is_ascii_digit_def digit_value_def)
  from dig t have "digit_value a \<le> 9" "digit_value b \<le> 9" "digit_value c \<le> 9"
    by (auto simp: numeral_3_eq_3 intro: v)
  then show ?thesis by (simp add: r t numeral_3_eq_3)
qed

lemma take1_eq: "take (Suc 0) l = [c] \<longleftrightarrow> (\<exists>t. l = c # t)"
  by (cases l) auto

lemma read_body_lines_stuffed:
  assumes "[] \<notin> set ls"
  shows "read_body_lines out None (body_events ls @ rest) = (Inr (out @ concat ls), rest)"
  using assms
proof (induction ls arbitrary: out)
  case Nil
  then show ?case by (simp add: body_events_def)
next
  case (Cons l ls)
  have step: "read_body_lines out None (RxLine (dot_stuff l) # rx) = read_body_lines (out @ l) None rx"
    for rx
  proof (cases "starts_with_char CHR ''.'' l")
    case True
    then obtain t where "l = CHR ''.'' # t" by (auto simp: starts_with_char_def take1_eq)
    then show ?thesis by (simp add: dot_stuff_def starts_with_char_def)
  next
    case False
    with Cons.prems obtain c t where "l = c # t" "c \<noteq> CHR ''.''"
      by (cases l) (auto simp: starts_with_char_def)
    then show ?thesis by (simp add: dot_stuff_def starts_with_char_def)
  qed
  from Cons show ?case
    by (simp add: body_events_def step del: read_body_lines.simps)
qed

lemma strip_skip:
  assumes "CR \<notin> set h" "LF \<notin> set h" "rest \<noteq> []"
  shows "strip_article_headers (h @ rest) = strip_article_headers rest"
  using assms
proof (induction h)
  case (Cons a h)
  then show ?case
    by (cases "h @ rest") auto
qed simp

lemma strip_article_text:
  assumes "headers \<noteq> []" and "\<forall>h \<in> set headers. h \<noteq> [] \<and> CR \<notin> set h \<and> LF \<notin> set h"
  shows "strip_article_headers (article_text headers body) = body"
  using assms
proof (induction headers)
  case (Cons h hs)
  show ?case
  proof (cases hs)
    case Nil
    with Cons.prems show ?thesis by (simp add: article_text_def strip_skip)
  next
    case (Cons g gs)
    with Cons.prems obtain c t where g: "g = c # t" "c \<noteq> CR" "c \<noteq> LF" by (cases g) auto
    have "strip_article_headers (article_text (h # hs) body) =
        strip_article_headers (crlf @ article_text hs body)"
      using Cons.prems by (simp add: article_text_def strip_skip)
    also have "\<dots> = strip_article_headers (article_text hs body)"
      using g Cons by (cases t) (auto simp: article_text_def)
    finally show ?thesis using Cons.IH Cons.prems \<open>hs = g # gs\<close> by simp
  qed
qed simp

end
