(* ===== verification/Server_Config.thy ===== *)
theory Server_Config
  imports Prelude
begin

text \<open>
  Provider configuration (\<open>crates/nzb-nntp/src/config.rs\<close>), shared by the two download engines.
\<close>

type_synonym server_id = byte_string

record server_config =
  sc_id :: server_id
  sc_name :: byte_string
  sc_host :: byte_string
  sc_port :: u16
  sc_ssl :: bool
  sc_ssl_verify :: bool
  sc_username :: "byte_string option"
  sc_password :: "byte_string option"
  sc_connections :: u16
  sc_priority :: u8
  sc_enabled :: bool
  sc_retention :: u32
  sc_pipelining :: u8
  sc_optional :: bool
  sc_compress :: bool
  sc_ramp_up_delay_ms :: u32
  sc_recv_buffer_size :: u32
  sc_proxy_url :: "byte_string option"
  sc_trusted_fingerprint :: "byte_string option"
  sc_connect_timeout_secs :: u32

text \<open>The generated identifier of \<open>Default\<close> is an argument.\<close>

definition server_config_default :: "server_id \<Rightarrow> server_config" where
  "server_config_default uuid =
    \<lparr>sc_id = uuid, sc_name = [], sc_host = [], sc_port = 563, sc_ssl = True, sc_ssl_verify = True,
     sc_username = None, sc_password = None, sc_connections = 8, sc_priority = 0, sc_enabled = True,
     sc_retention = 0, sc_pipelining = 4, sc_optional = False, sc_compress = False,
     sc_ramp_up_delay_ms = 50, sc_recv_buffer_size = 2 * 1024 * 1024, sc_proxy_url = None,
     sc_trusted_fingerprint = None, sc_connect_timeout_secs = 30\<rparr>"

definition server_config_new :: "server_id \<Rightarrow> byte_string \<Rightarrow> server_config" where
  "server_config_new i host = (server_config_default [])\<lparr>sc_id := i, sc_host := host\<rparr>"

end
