(* ===== verification/News_Article.thy ===== *)
theory News_Article
  imports Server_Config
begin

text \<open>
  Try-lists (\<open>crates/nzb-news/src/trylist.rs\<close>) and the three-level hierarchy of article, file and
  job (\<open>crates/nzb-news/src/article.rs\<close>).  Articles, files and jobs are shared behind \<open>Arc\<close>: an \<open>Arc\<close>
  is an address into a \<open>heap\<close>, and the operations on one record are lifted to the heap.
\<close>

section \<open>Try-lists\<close>

type_synonym try_list = "server_id set"

definition tl_new :: try_list where
  "tl_new = {}"

definition tl_contains :: "try_list \<Rightarrow> server_id \<Rightarrow> bool" where
  "tl_contains tr s \<longleftrightarrow> s \<in> tr"

definition tl_add :: "server_id \<Rightarrow> try_list \<Rightarrow> bool \<times> try_list" where
  "tl_add s tr = (s \<notin> tr, insert s tr)"

definition tl_reset :: "try_list \<Rightarrow> try_list" where
  "tl_reset tr = {}"

definition tl_remove :: "server_id \<Rightarrow> try_list \<Rightarrow> bool \<times> try_list" where
  "tl_remove s tr = (s \<in> tr, tr - {s})"

definition tl_snapshot :: "try_list \<Rightarrow> server_id set" where
  "tl_snapshot tr = tr"

definition tl_len :: "try_list \<Rightarrow> nat" where
  "tl_len tr = card tr"

definition tl_is_empty :: "try_list \<Rightarrow> bool" where
  "tl_is_empty tr \<longleftrightarrow> tr = {}"

lemmas try_list_defs [simp] =
  tl_new_def tl_contains_def tl_add_def tl_reset_def tl_snapshot_def tl_is_empty_def

section \<open>Articles\<close>

record article =
  art_message_id :: byte_string
  art_file_id :: byte_string
  art_job_id :: byte_string
  art_bytes :: nat
  art_segment :: u32
  art_try_list :: try_list
  art_tries :: u8
  art_fetcher_priority :: u8
  art_serial :: nat
  art_confirmed_absent_only :: bool
  art_explicit_not_found :: try_list

definition article_new ::
  "byte_string \<Rightarrow> byte_string \<Rightarrow> byte_string \<Rightarrow> nat \<Rightarrow> u32 \<Rightarrow> nat \<Rightarrow> article" where
  "article_new mid fid jid bytes seg serial =
    \<lparr>art_message_id = mid, art_file_id = fid, art_job_id = jid, art_bytes = bytes, art_segment = seg,
     art_try_list = tl_new, art_tries = 0, art_fetcher_priority = - 1, art_serial = serial,
     art_confirmed_absent_only = True, art_explicit_not_found = tl_new\<rparr>"

definition art_mark_transient_failure :: "article \<Rightarrow> article" where
  "art_mark_transient_failure a = a\<lparr>art_confirmed_absent_only := False\<rparr>"

definition art_mark_server_not_found :: "server_id \<Rightarrow> article \<Rightarrow> article" where
  "art_mark_server_not_found s a =
    a\<lparr>art_try_list := snd (tl_add s (art_try_list a)),
      art_explicit_not_found := snd (tl_add s (art_explicit_not_found a))\<rparr>"

definition art_server_explicitly_not_found :: "article \<Rightarrow> server_id \<Rightarrow> bool" where
  "art_server_explicitly_not_found a s = tl_contains (art_explicit_not_found a) s"

definition art_explicit_not_found_servers :: "article \<Rightarrow> server_id list" where
  "art_explicit_not_found_servers a = sorted_list_of_set (tl_snapshot (art_explicit_not_found a))"

text \<open>\<open>fetch_add\<close> wraps at 256; the returned count is computed in the same width.\<close>

definition art_increment_tries :: "article \<Rightarrow> u8 \<times> article" where
  "art_increment_tries a = (art_tries a + 1, a\<lparr>art_tries := art_tries a + 1\<rparr>)"

definition art_reset_tries :: "article \<Rightarrow> article" where
  "art_reset_tries a = a\<lparr>art_tries := 0\<rparr>"

definition art_set_fetcher_priority :: "u8 \<Rightarrow> article \<Rightarrow> article" where
  "art_set_fetcher_priority p a = a\<lparr>art_fetcher_priority := p\<rparr>"

definition art_server_tried :: "article \<Rightarrow> server_id \<Rightarrow> bool" where
  "art_server_tried a s = tl_contains (art_try_list a) s"

definition art_mark_server_tried :: "server_id \<Rightarrow> article \<Rightarrow> article" where
  "art_mark_server_tried s a = a\<lparr>art_try_list := snd (tl_add s (art_try_list a))\<rparr>"

definition art_reset_try_list :: "article \<Rightarrow> article" where
  "art_reset_try_list a = a\<lparr>art_try_list := tl_reset (art_try_list a)\<rparr>"

section \<open>Files\<close>

record nzb_file =
  nf_id :: byte_string
  nf_job_id :: byte_string
  nf_display_name :: byte_string
  nf_article_count :: u32
  nf_completed_articles :: nat
  nf_try_list :: try_list

definition nzb_file_new :: "byte_string \<Rightarrow> byte_string \<Rightarrow> byte_string \<Rightarrow> u32 \<Rightarrow> nzb_file" where
  "nzb_file_new i jid name n =
    \<lparr>nf_id = i, nf_job_id = jid, nf_display_name = name, nf_article_count = n,
     nf_completed_articles = 0, nf_try_list = tl_new\<rparr>"

definition file_mark_article_completed :: "nzb_file \<Rightarrow> nat \<times> nzb_file" where
  "file_mark_article_completed f =
    (nf_completed_articles f + 1, f\<lparr>nf_completed_articles := nf_completed_articles f + 1\<rparr>)"

definition file_is_complete :: "nzb_file \<Rightarrow> bool" where
  "file_is_complete f \<longleftrightarrow> unat (nf_article_count f) \<le> nf_completed_articles f"

definition file_server_tried :: "nzb_file \<Rightarrow> server_id \<Rightarrow> bool" where
  "file_server_tried f s = tl_contains (nf_try_list f) s"

definition file_mark_server_tried :: "server_id \<Rightarrow> nzb_file \<Rightarrow> nzb_file" where
  "file_mark_server_tried s f = f\<lparr>nf_try_list := snd (tl_add s (nf_try_list f))\<rparr>"

definition file_reset_try_list :: "nzb_file \<Rightarrow> nzb_file" where
  "file_reset_try_list f = f\<lparr>nf_try_list := tl_reset (nf_try_list f)\<rparr>"

section \<open>Jobs\<close>

record nzb_object =
  no_id :: byte_string
  no_display_name :: byte_string
  no_article_count :: nat
  no_total_bytes :: nat
  no_articles_downloaded :: nat
  no_articles_failed :: nat
  no_bytes_downloaded :: nat
  no_try_list :: try_list
  no_files :: "nat list"

definition nzb_object_new :: "byte_string \<Rightarrow> byte_string \<Rightarrow> nat \<Rightarrow> nat \<Rightarrow> nat list \<Rightarrow> nzb_object" where
  "nzb_object_new i name n bytes files =
    \<lparr>no_id = i, no_display_name = name, no_article_count = n, no_total_bytes = bytes,
     no_articles_downloaded = 0, no_articles_failed = 0, no_bytes_downloaded = 0,
     no_try_list = tl_new, no_files = files\<rparr>"

definition job_record_article_downloaded :: "nat \<Rightarrow> nzb_object \<Rightarrow> nzb_object" where
  "job_record_article_downloaded bytes j =
    j\<lparr>no_articles_downloaded := no_articles_downloaded j + 1,
      no_bytes_downloaded := no_bytes_downloaded j + bytes\<rparr>"

definition job_record_article_failed :: "nzb_object \<Rightarrow> nzb_object" where
  "job_record_article_failed j = j\<lparr>no_articles_failed := no_articles_failed j + 1\<rparr>"

definition job_is_complete :: "nzb_object \<Rightarrow> bool" where
  "job_is_complete j \<longleftrightarrow> no_article_count j \<le> no_articles_downloaded j + no_articles_failed j"

definition job_server_tried :: "nzb_object \<Rightarrow> server_id \<Rightarrow> bool" where
  "job_server_tried j s = tl_contains (no_try_list j) s"

definition job_mark_server_tried :: "server_id \<Rightarrow> nzb_object \<Rightarrow> nzb_object" where
  "job_mark_server_tried s j = j\<lparr>no_try_list := snd (tl_add s (no_try_list j))\<rparr>"

definition job_reset_try_list :: "nzb_object \<Rightarrow> nzb_object" where
  "job_reset_try_list j = j\<lparr>no_try_list := tl_reset (no_try_list j)\<rparr>"

section \<open>The heap of shared objects\<close>

type_synonym aref = nat
type_synonym fref = nat
type_synonym jref = nat

record heap =
  h_art :: "aref \<Rightarrow> article"
  h_file :: "fref \<Rightarrow> nzb_file"
  h_job :: "jref \<Rightarrow> nzb_object"

definition upd_art :: "aref \<Rightarrow> (article \<Rightarrow> article) \<Rightarrow> heap \<Rightarrow> heap" where
  "upd_art r f h = h\<lparr>h_art := (h_art h)(r := f (h_art h r))\<rparr>"

definition upd_file :: "fref \<Rightarrow> (nzb_file \<Rightarrow> nzb_file) \<Rightarrow> heap \<Rightarrow> heap" where
  "upd_file r f h = h\<lparr>h_file := (h_file h)(r := f (h_file h r))\<rparr>"

definition upd_job :: "jref \<Rightarrow> (nzb_object \<Rightarrow> nzb_object) \<Rightarrow> heap \<Rightarrow> heap" where
  "upd_job r f h = h\<lparr>h_job := (h_job h)(r := f (h_job h r))\<rparr>"

lemma upd_art_simps [simp, frame_simps]:
  "h_art (upd_art r f h) x = (if x = r then f (h_art h r) else h_art h x)"
  "h_file (upd_art r f h) = h_file h" "h_job (upd_art r f h) = h_job h"
  by (simp_all add: upd_art_def)

lemma upd_file_simps [simp, frame_simps]:
  "h_file (upd_file r g h) x = (if x = r then g (h_file h r) else h_file h x)"
  "h_art (upd_file r g h) = h_art h" "h_job (upd_file r g h) = h_job h"
  by (simp_all add: upd_file_def)

lemma upd_job_simps [simp, frame_simps]:
  "h_job (upd_job r k h) x = (if x = r then k (h_job h r) else h_job h x)"
  "h_art (upd_job r k h) = h_art h" "h_file (upd_job r k h) = h_file h"
  by (simp_all add: upd_job_def)

text \<open>\<open>NzbObject::reset_all_try_lists\<close>: the job's own list and that of every file it holds.\<close>

definition reset_all_try_lists :: "jref \<Rightarrow> heap \<Rightarrow> heap" where
  "reset_all_try_lists j h =
    fold (\<lambda>f. upd_file f file_reset_try_list) (no_files (h_job h j)) (upd_job j job_reset_try_list h)"

section \<open>One contract for the three levels\<close>

text \<open>
  Article, file and job answer the same questions: has this server been tried, note that it has,
  forget everything.  The dispatcher relies on these laws only.
\<close>

locale server_exclusion =
  fixes tried :: "'o \<Rightarrow> server_id \<Rightarrow> bool"
    and mark :: "server_id \<Rightarrow> 'o \<Rightarrow> 'o"
    and reset :: "'o \<Rightarrow> 'o"
  assumes tried_mark: "tried (mark s x) t \<longleftrightarrow> t = s \<or> tried x t"
    and tried_reset: "\<not> tried (reset x) t"
begin

lemma tried_fold_mark: "tried (fold mark ss x) t \<longleftrightarrow> t \<in> set ss \<or> tried x t"
  by (induction ss arbitrary: x) (auto simp: tried_mark)

text \<open>Each new mark takes one server out of the candidates, so they run out.\<close>

lemma candidates_shrink:
  assumes "s \<in> set ids" "\<not> tried x s"
  shows "card {t \<in> set ids. \<not> tried (mark s x) t} < card {t \<in> set ids. \<not> tried x t}"
  by (rule psubset_card_mono) (use assms in \<open>auto simp: tried_mark\<close>)

lemma reset_restores: "{t \<in> set ids. \<not> tried (reset x) t} = set ids"
  by (auto simp: tried_reset)

end

interpretation art_excl: server_exclusion art_server_tried art_mark_server_tried art_reset_try_list
  by unfold_locales (auto simp: art_server_tried_def art_mark_server_tried_def art_reset_try_list_def)

interpretation file_excl: server_exclusion file_server_tried file_mark_server_tried file_reset_try_list
  by unfold_locales (auto simp: file_server_tried_def file_mark_server_tried_def file_reset_try_list_def)

interpretation job_excl: server_exclusion job_server_tried job_mark_server_tried job_reset_try_list
  by unfold_locales (auto simp: job_server_tried_def job_mark_server_tried_def job_reset_try_list_def)

lemma fold_reset_files_frame:
  "h_art (fold (\<lambda>f. upd_file f file_reset_try_list) fs h) = h_art h"
  "h_job (fold (\<lambda>f. upd_file f file_reset_try_list) fs h) = h_job h"
  by (induction fs arbitrary: h) auto

lemma fold_reset_files_tried:
  "file_server_tried (h_file (fold (\<lambda>f. upd_file f file_reset_try_list) fs h) x) s \<longleftrightarrow>
    x \<notin> set fs \<and> file_server_tried (h_file h x) s"
  by (induction fs arbitrary: h) (auto simp: file_excl.tried_reset)

lemma reset_all_try_lists_clears:
  "\<not> job_server_tried (h_job (reset_all_try_lists j h) j) s"
  "f \<in> set (no_files (h_job h j)) \<Longrightarrow> \<not> file_server_tried (h_file (reset_all_try_lists j h) f) s"
  "h_art (reset_all_try_lists j h) = h_art h"
  by (auto simp: reset_all_try_lists_def fold_reset_files_frame fold_reset_files_tried
      job_excl.tried_reset)

end
