(* ===== verification/News_Wrapper.thy ===== *)
theory News_Wrapper
  imports Nntp_Conn News_Article
begin

text \<open>
  \<open>NewsWrapper\<close> (\<open>crates/nzb-news/src/news_wrapper.rs\<close>): one connection with its in-flight record,
  idle clock and failure count.  The clock is an argument; a fresh connection is the outcome of
  \<open>NntpConnection::connect\<close>, passed in.  \<open>hard_reset\<close> sends QUIT best-effort on the
  connection it drops, which nothing observes afterwards.
\<close>

record news_wrapper =
  nw_server_id :: server_id
  nw_id :: u32
  nw_conn :: "nntp_conn option"
  nw_in_flight :: "byte_string option"
  nw_last_activity :: millis
  nw_activity_epoch :: millis
  nw_bytes_rx :: nat
  nw_bad_cons :: u32

definition wrapper_new :: "millis \<Rightarrow> server_id \<Rightarrow> u32 \<Rightarrow> news_wrapper" where
  "wrapper_new now sid i =
    \<lparr>nw_server_id = sid, nw_id = i, nw_conn = None, nw_in_flight = None, nw_last_activity = 0,
     nw_activity_epoch = now, nw_bytes_rx = 0, nw_bad_cons = 0\<rparr>"

definition wrapper_state :: "news_wrapper \<Rightarrow> connection_state" where
  "wrapper_state w = (case nw_conn w of None \<Rightarrow> Disconnected | Some c \<Rightarrow> conn_state c)"

definition wrapper_is_idle :: "news_wrapper \<Rightarrow> bool" where
  "wrapper_is_idle w \<longleftrightarrow> wrapper_state w = Ready"

definition wrapper_is_busy :: "news_wrapper \<Rightarrow> bool" where
  "wrapper_is_busy w \<longleftrightarrow> wrapper_state w = Busy"

definition wrapper_is_connected :: "news_wrapper \<Rightarrow> bool" where
  "wrapper_is_connected w \<longleftrightarrow> wrapper_state w \<in> {Ready, Busy, Authenticating}"

definition wrapper_idle_for :: "millis \<Rightarrow> news_wrapper \<Rightarrow> millis" where
  "wrapper_idle_for now w =
    (if nw_last_activity w = 0 then now - nw_activity_epoch w
     else (now - nw_activity_epoch w) - nw_last_activity w)"

definition touch_activity :: "millis \<Rightarrow> news_wrapper \<Rightarrow> news_wrapper" where
  "touch_activity now w = w\<lparr>nw_last_activity := max (now - nw_activity_epoch w) 1\<rparr>"

definition clear_bad_cons :: "news_wrapper \<Rightarrow> news_wrapper" where
  "clear_bad_cons w = w\<lparr>nw_bad_cons := 0\<rparr>"

definition bump_bad_cons :: "news_wrapper \<Rightarrow> u32 \<times> news_wrapper" where
  "bump_bad_cons w = (nw_bad_cons w + 1, w\<lparr>nw_bad_cons := nw_bad_cons w + 1\<rparr>)"

definition wrapper_connect ::
  "millis \<Rightarrow> nntp_error + nntp_conn \<Rightarrow> news_wrapper \<Rightarrow> (nntp_error + unit) \<times> news_wrapper" where
  "wrapper_connect now res w =
    (case res of
       Inl e \<Rightarrow> (Inl e, snd (bump_bad_cons w))
     | Inr c \<Rightarrow> (Inr (), touch_activity now (w\<lparr>nw_conn := Some c, nw_in_flight := None\<rparr>)))"

definition hard_reset :: "news_wrapper \<Rightarrow> news_wrapper" where
  "hard_reset w = w\<lparr>nw_conn := None, nw_in_flight := None\<rparr>"

definition soft_reset :: "news_wrapper \<Rightarrow> news_wrapper" where
  "soft_reset w =
    (case nw_conn w of
       None \<Rightarrow> w
     | Some c \<Rightarrow> (if conn_state c = Ready then w\<lparr>nw_in_flight := None\<rparr> else hard_reset w))"

definition on_fetch_error :: "nntp_error \<Rightarrow> news_wrapper \<Rightarrow> nntp_error \<times> news_wrapper" where
  "on_fetch_error err w =
    (let w1 = w\<lparr>nw_in_flight := None\<rparr> in
     (err,
      case err of
        Io _ \<Rightarrow> hard_reset (snd (bump_bad_cons w1))
      | Connection _ \<Rightarrow> hard_reset (snd (bump_bad_cons w1))
      | Tls _ \<Rightarrow> hard_reset (snd (bump_bad_cons w1))
      | AuthRequired _ \<Rightarrow> hard_reset (snd (bump_bad_cons w1))
      | PermissionDenied _ \<Rightarrow> hard_reset (snd (bump_bad_cons w1))
      | ServiceUnavailable _ \<Rightarrow> hard_reset (snd (bump_bad_cons w1))
      | Protocol _ \<Rightarrow> hard_reset (snd (bump_bad_cons w1))
      | UnsupportedCommand _ \<Rightarrow> hard_reset (snd (bump_bad_cons w1))
      | ResponseTooLarge _ \<Rightarrow> hard_reset (snd (bump_bad_cons w1))
      | Timeout _ \<Rightarrow> hard_reset (snd (bump_bad_cons w1))
      | _ \<Rightarrow> w1))"

definition on_fetch_success :: "millis \<Rightarrow> nat \<Rightarrow> news_wrapper \<Rightarrow> news_wrapper" where
  "on_fetch_success now bytes w =
    clear_bad_cons (touch_activity now (w\<lparr>nw_bytes_rx := nw_bytes_rx w + bytes\<rparr>))"

section \<open>Lemmas\<close>

lemma hard_reset_disconnects [simp]:
  "wrapper_state (hard_reset w) = Disconnected" "\<not> wrapper_is_connected (hard_reset w)"
  "nw_in_flight (hard_reset w) = None" "nw_bad_cons (hard_reset w) = nw_bad_cons w"
  by (simp_all add: hard_reset_def wrapper_state_def wrapper_is_connected_def)

lemma soft_reset_state:
  "wrapper_state (soft_reset w) = (if wrapper_state w = Ready then Ready else Disconnected)"
  by (auto simp: soft_reset_def wrapper_state_def hard_reset_def split: option.splits)

lemma touch_activity_frame [simp]:
  "nw_conn (touch_activity now w) = nw_conn w" "nw_in_flight (touch_activity now w) = nw_in_flight w"
  "nw_bad_cons (touch_activity now w) = nw_bad_cons w" "nw_id (touch_activity now w) = nw_id w"
  "0 < nw_last_activity (touch_activity now w)"
  by (simp_all add: touch_activity_def)

lemma wrapper_connect_ok:
  "wrapper_connect now res w = (Inr (), w') \<Longrightarrow> \<exists>c. res = Inr c \<and> nw_conn w' = Some c"
  by (auto simp: wrapper_connect_def split: sum.splits)

end
