(* ===== verification/News_Server.thy ===== *)
theory News_Server
  imports News_Wrapper Server_Config
begin

text \<open>
  Per-provider state (\<open>crates/nzb-news/src/server.rs\<close>) and the penalty decision
  (\<open>crates/nzb-news/src/penalty.rs\<close>).  Clocks are arguments in milliseconds; an operation
  reads the clock once.  \<open>is_penalised\<close> clears an expired window when it is asked, so it returns
  the server too.
\<close>

section \<open>Servers\<close>

definition BAD_CONS_THRESHOLD :: u32 where "BAD_CONS_THRESHOLD = 3"
definition DEFAULT_PENALTY :: millis where "DEFAULT_PENALTY = 10000"
definition PENALTY_502 :: millis where "PENALTY_502 = 5000"
definition PENALTY_AUTH :: millis where "PENALTY_AUTH = 60000"
definition PENALTY_CONNECTION :: millis where "PENALTY_CONNECTION = 5000"
definition PENALTY_TIMEOUT :: millis where "PENALTY_TIMEOUT = 10000"

record server =
  sv_config :: server_config
  sv_idle_wrappers :: "news_wrapper list"
  sv_busy_wrappers :: "news_wrapper list"
  sv_next_wrapper_id :: u32
  sv_bad_cons :: u32
  sv_penalty_until_ms :: millis
  sv_penalty_epoch :: millis
  sv_active :: bool
  sv_last_connect_ms :: millis
  sv_connect_epoch :: millis
  sv_active_wrappers :: u32
  sv_articles_attempted :: nat
  sv_articles_succeeded :: nat
  sv_articles_not_found :: nat
  sv_articles_transient_failed :: nat

record server_stats =
  ss_attempted :: nat
  ss_succeeded :: nat
  ss_not_found :: nat
  ss_transient_failed :: nat

definition server_new :: "millis \<Rightarrow> server_config \<Rightarrow> server" where
  "server_new now cfg =
    \<lparr>sv_config = cfg, sv_idle_wrappers = [], sv_busy_wrappers = [], sv_next_wrapper_id = 1,
     sv_bad_cons = 0, sv_penalty_until_ms = 0, sv_penalty_epoch = now, sv_active = sc_enabled cfg,
     sv_last_connect_ms = 0, sv_connect_epoch = now, sv_active_wrappers = 0,
     sv_articles_attempted = 0, sv_articles_succeeded = 0, sv_articles_not_found = 0,
     sv_articles_transient_failed = 0\<rparr>"

definition stats :: "server \<Rightarrow> server_stats" where
  "stats s = \<lparr>ss_attempted = sv_articles_attempted s, ss_succeeded = sv_articles_succeeded s,
     ss_not_found = sv_articles_not_found s, ss_transient_failed = sv_articles_transient_failed s\<rparr>"

definition record_attempt_success :: "server \<Rightarrow> server" where
  "record_attempt_success s =
    s\<lparr>sv_articles_attempted := sv_articles_attempted s + 1,
      sv_articles_succeeded := sv_articles_succeeded s + 1\<rparr>"

definition record_attempt_not_found :: "server \<Rightarrow> server" where
  "record_attempt_not_found s =
    s\<lparr>sv_articles_attempted := sv_articles_attempted s + 1,
      sv_articles_not_found := sv_articles_not_found s + 1\<rparr>"

definition record_attempt_transient_failed :: "server \<Rightarrow> server" where
  "record_attempt_transient_failed s =
    s\<lparr>sv_articles_attempted := sv_articles_attempted s + 1,
      sv_articles_transient_failed := sv_articles_transient_failed s + 1\<rparr>"

definition register_wrapper :: "server \<Rightarrow> u32 \<times> server" where
  "register_wrapper s = (sv_active_wrappers s + 1, s\<lparr>sv_active_wrappers := sv_active_wrappers s + 1\<rparr>)"

text \<open>The counter wraps; only the returned value saturates.\<close>

definition unregister_wrapper :: "server \<Rightarrow> u32 \<times> server" where
  "unregister_wrapper s =
    (sat_sub (sv_active_wrappers s) 1, s\<lparr>sv_active_wrappers := sv_active_wrappers s - 1\<rparr>)"

definition has_active_wrappers :: "server \<Rightarrow> bool" where
  "has_active_wrappers s \<longleftrightarrow> 0 < sv_active_wrappers s"

definition sv_id :: "server \<Rightarrow> server_id" where
  "sv_id s = sc_id (sv_config s)"

definition sv_priority :: "server \<Rightarrow> u8" where
  "sv_priority s = sc_priority (sv_config s)"

definition sv_connections :: "server \<Rightarrow> u16" where
  "sv_connections s = sc_connections (sv_config s)"

definition is_penalised :: "millis \<Rightarrow> server \<Rightarrow> bool \<times> server" where
  "is_penalised now s =
    (if sv_penalty_until_ms s = 0 then (False, s)
     else if sv_penalty_until_ms s \<le> now - sv_penalty_epoch s then (False, s\<lparr>sv_penalty_until_ms := 0\<rparr>)
     else (True, s))"

definition is_usable :: "millis \<Rightarrow> server \<Rightarrow> bool \<times> server" where
  "is_usable now s =
    (if \<not> sv_active s then (False, s)
     else case is_penalised now s of (pen, s') \<Rightarrow> (\<not> pen \<and> has_active_wrappers s', s'))"

definition set_active :: "bool \<Rightarrow> server \<Rightarrow> server" where
  "set_active a s = s\<lparr>sv_active := a\<rparr>"

text \<open>The priming loop: \<open>n\<close> fresh wrappers numbered from \<open>next_wrapper_id\<close>.\<close>

fun prime_loop :: "millis \<Rightarrow> nat \<Rightarrow> server \<Rightarrow> server" where
  "prime_loop now 0 s = s"
| "prime_loop now (Suc n) s =
     prime_loop now n
       (s\<lparr>sv_next_wrapper_id := sv_next_wrapper_id s + 1,
          sv_idle_wrappers := sv_idle_wrappers s @ [wrapper_new now (sv_id s) (sv_next_wrapper_id s)]\<rparr>)"

definition prime_wrapper_pool :: "millis \<Rightarrow> u16 \<Rightarrow> server \<Rightarrow> server" where
  "prime_wrapper_pool now cnt s =
    (if unat cnt \<le> length (sv_idle_wrappers s) then s
     else prime_loop now (unat cnt - length (sv_idle_wrappers s)) s)"

definition idle_count :: "server \<Rightarrow> nat" where
  "idle_count s = length (sv_idle_wrappers s)"

definition busy_count :: "server \<Rightarrow> nat" where
  "busy_count s = length (sv_busy_wrappers s)"

definition wrapper_count :: "server \<Rightarrow> nat" where
  "wrapper_count s = idle_count s + busy_count s"

definition rampup_blocked :: "millis \<Rightarrow> server \<Rightarrow> bool" where
  "rampup_blocked now s \<longleftrightarrow>
    (let delay = unat (sc_ramp_up_delay_ms (sv_config s)) in
     0 < delay \<and> sv_last_connect_ms s \<noteq> 0 \<and>
     (now - sv_connect_epoch s) - sv_last_connect_ms s < delay)"

definition take_idle_wrapper_inner :: "bool \<Rightarrow> millis \<Rightarrow> server \<Rightarrow> news_wrapper option \<times> server" where
  "take_idle_wrapper_inner bypass_rampup now s =
    (if \<not> sv_active s then (None, s)
     else
       (case is_penalised now s of (pen, s1) \<Rightarrow>
         if pen then (None, s1)
         else if \<not> bypass_rampup \<and> rampup_blocked now s1 then (None, s1)
         else
           (case sv_idle_wrappers s1 of
              [] \<Rightarrow> (None, s1)
            | w # ws \<Rightarrow>
                (Some w, s1\<lparr>sv_idle_wrappers := ws,
                            sv_last_connect_ms := max (now - sv_connect_epoch s1) 1\<rparr>))))"

definition take_idle_wrapper :: "millis \<Rightarrow> server \<Rightarrow> news_wrapper option \<times> server" where
  "take_idle_wrapper now s = take_idle_wrapper_inner False now s"

definition take_idle_wrapper_immediate :: "millis \<Rightarrow> server \<Rightarrow> news_wrapper option \<times> server" where
  "take_idle_wrapper_immediate now s = take_idle_wrapper_inner True now s"

definition rampup_wait :: "millis \<Rightarrow> server \<Rightarrow> millis" where
  "rampup_wait now s =
    (let delay = unat (sc_ramp_up_delay_ms (sv_config s)); lst = sv_last_connect_ms s;
         since = (now - sv_connect_epoch s) - lst
     in if delay = 0 then 0 else if lst = 0 then 0 else if delay \<le> since then 0 else delay - since)"

definition note_dispatch :: "millis \<Rightarrow> server \<Rightarrow> server" where
  "note_dispatch now s = s\<lparr>sv_last_connect_ms := max (now - sv_connect_epoch s) 1\<rparr>"

definition return_wrapper_busy :: "news_wrapper \<Rightarrow> server \<Rightarrow> server" where
  "return_wrapper_busy w s = s\<lparr>sv_busy_wrappers := sv_busy_wrappers s @ [w]\<rparr>"

definition return_wrapper_idle :: "millis \<Rightarrow> news_wrapper \<Rightarrow> server \<Rightarrow> server" where
  "return_wrapper_idle now w s =
    (let s1 = (if 0 < nw_bad_cons w then s\<lparr>sv_bad_cons := sv_bad_cons s + nw_bad_cons w\<rparr>
               else if 0 < sv_bad_cons s then s\<lparr>sv_bad_cons := sv_bad_cons s div 2\<rparr> else s)
     in s1\<lparr>sv_idle_wrappers := sv_idle_wrappers s1 @ [touch_activity now w]\<rparr>)"

definition evict_busy :: "u32 \<Rightarrow> server \<Rightarrow> news_wrapper option \<times> server" where
  "evict_busy wid s =
    (case position (\<lambda>w. nw_id w = wid) (sv_busy_wrappers s) of
       None \<Rightarrow> (None, s)
     | Some i \<Rightarrow>
         (Some (sv_busy_wrappers s ! i), s\<lparr>sv_busy_wrappers := swap_remove i (sv_busy_wrappers s)\<rparr>))"

definition apply_penalty :: "millis \<Rightarrow> millis \<Rightarrow> server \<Rightarrow> server" where
  "apply_penalty now penalty s =
    (let target = (now - sv_penalty_epoch s) + penalty in
     if sv_penalty_until_ms s < target then s\<lparr>sv_penalty_until_ms := target\<rparr> else s)"

definition maybe_trip_penalty :: "millis \<Rightarrow> millis \<Rightarrow> server \<Rightarrow> bool \<times> server" where
  "maybe_trip_penalty now penalty s =
    (if BAD_CONS_THRESHOLD \<le> sv_bad_cons s
     then (True, (apply_penalty now penalty s)\<lparr>sv_bad_cons := 0\<rparr>) else (False, s))"

definition clear_penalty :: "server \<Rightarrow> server" where
  "clear_penalty s = s\<lparr>sv_penalty_until_ms := 0, sv_bad_cons := 0\<rparr>"

definition penalty_remaining :: "millis \<Rightarrow> server \<Rightarrow> millis" where
  "penalty_remaining now s =
    (if sv_penalty_until_ms s = 0 then 0
     else sv_penalty_until_ms s - (now - sv_penalty_epoch s))"

definition register_failure :: "millis \<Rightarrow> millis \<Rightarrow> server \<Rightarrow> bool \<times> server" where
  "register_failure now penalty s =
    maybe_trip_penalty now penalty (s\<lparr>sv_bad_cons := sv_bad_cons s + 1\<rparr>)"

definition time_since_last_dispatch :: "millis \<Rightarrow> server \<Rightarrow> millis" where
  "time_since_last_dispatch now s =
    (if sv_last_connect_ms s = 0 then 0 else (now - sv_connect_epoch s) - sv_last_connect_ms s)"

text \<open>The wrappers taken out are hard-reset and dropped; they are returned as dropped.\<close>

definition drain_for_disable :: "server \<Rightarrow> news_wrapper list \<times> server" where
  "drain_for_disable s =
    (map hard_reset (sv_idle_wrappers s @ sv_busy_wrappers s),
     (set_active False s)\<lparr>sv_idle_wrappers := [], sv_busy_wrappers := [], sv_bad_cons := 0\<rparr>)"

section \<open>Penalties\<close>

datatype penalty_action = NoPenalty | Cooldown millis | BadCons millis

fun penalty_for_error :: "nntp_error \<Rightarrow> penalty_action" where
  "penalty_for_error (ArticleNotFound _) = NoPenalty"
| "penalty_for_error (NoSuchGroup _) = NoPenalty"
| "penalty_for_error (NoArticleSelected _) = NoPenalty"
| "penalty_for_error (AuthRequired _) = Cooldown PENALTY_AUTH"
| "penalty_for_error (Auth _) = Cooldown PENALTY_AUTH"
| "penalty_for_error (PermissionDenied _) = Cooldown PENALTY_AUTH"
| "penalty_for_error (ServiceUnavailable _) = Cooldown PENALTY_502"
| "penalty_for_error (Io _) = BadCons PENALTY_CONNECTION"
| "penalty_for_error (Connection _) = BadCons PENALTY_CONNECTION"
| "penalty_for_error (Tls _) = BadCons PENALTY_CONNECTION"
| "penalty_for_error (Timeout _) = BadCons PENALTY_TIMEOUT"
| "penalty_for_error (Protocol _) = BadCons PENALTY_TIMEOUT"
| "penalty_for_error (UnsupportedCommand _) = BadCons PENALTY_TIMEOUT"
| "penalty_for_error (ResponseTooLarge _) = BadCons PENALTY_TIMEOUT"
| "penalty_for_error (NoConnectionsAvailable _) = Cooldown DEFAULT_PENALTY"
| "penalty_for_error (AllServersExhausted _) = Cooldown DEFAULT_PENALTY"
| "penalty_for_error Shutdown = Cooldown DEFAULT_PENALTY"

section \<open>Frame\<close>

text \<open>Asking about the penalty only ever clears an expired window.\<close>

lemma is_penalised_frame [simp, frame_simps]:
  "sv_config (snd (is_penalised now s)) = sv_config s"
  "sv_active (snd (is_penalised now s)) = sv_active s"
  "sv_active_wrappers (snd (is_penalised now s)) = sv_active_wrappers s"
  "sv_idle_wrappers (snd (is_penalised now s)) = sv_idle_wrappers s"
  "sv_busy_wrappers (snd (is_penalised now s)) = sv_busy_wrappers s"
  "sv_last_connect_ms (snd (is_penalised now s)) = sv_last_connect_ms s"
  "sv_connect_epoch (snd (is_penalised now s)) = sv_connect_epoch s"
  "sv_bad_cons (snd (is_penalised now s)) = sv_bad_cons s"
  "stats (snd (is_penalised now s)) = stats s"
  by (simp_all add: is_penalised_def stats_def)

lemma is_penalised_observers [simp, frame_simps]:
  "sv_id (snd (is_penalised now s)) = sv_id s"
  "sv_priority (snd (is_penalised now s)) = sv_priority s"
  "sv_connections (snd (is_penalised now s)) = sv_connections s"
  "has_active_wrappers (snd (is_penalised now s)) = has_active_wrappers s"
  "rampup_wait t (snd (is_penalised now s)) = rampup_wait t s"
  "idle_count (snd (is_penalised now s)) = idle_count s"
  by (simp_all add: sv_id_def sv_priority_def sv_connections_def has_active_wrappers_def
      rampup_wait_def idle_count_def)

text \<open>Once asked, asking again at the same instant gives the same answer and changes nothing.\<close>

lemma is_penalised_idem [simp]:
  "is_penalised now (snd (is_penalised now s)) = is_penalised now s"
  by (simp add: is_penalised_def)

lemma apply_penalty_frame [simp, frame_simps]:
  "sv_config (apply_penalty now d s) = sv_config s"
  "sv_active (apply_penalty now d s) = sv_active s"
  "sv_active_wrappers (apply_penalty now d s) = sv_active_wrappers s"
  "sv_bad_cons (apply_penalty now d s) = sv_bad_cons s"
  "stats (apply_penalty now d s) = stats s"
  by (simp_all add: apply_penalty_def stats_def Let_def)

lemma register_failure_frame [simp, frame_simps]:
  "sv_config (snd (register_failure now d s)) = sv_config s"
  "sv_active (snd (register_failure now d s)) = sv_active s"
  "sv_active_wrappers (snd (register_failure now d s)) = sv_active_wrappers s"
  "stats (snd (register_failure now d s)) = stats s"
  by (simp_all add: register_failure_def maybe_trip_penalty_def apply_penalty_def stats_def Let_def)

lemma record_attempt_frame [simp, frame_simps]:
  "sv_config (record_attempt_success s) = sv_config s"
  "sv_config (record_attempt_not_found s) = sv_config s"
  "sv_config (record_attempt_transient_failed s) = sv_config s"
  "sv_active (record_attempt_success s) = sv_active s"
  "sv_active (record_attempt_not_found s) = sv_active s"
  "sv_active (record_attempt_transient_failed s) = sv_active s"
  "sv_active_wrappers (record_attempt_success s) = sv_active_wrappers s"
  "sv_active_wrappers (record_attempt_not_found s) = sv_active_wrappers s"
  "sv_active_wrappers (record_attempt_transient_failed s) = sv_active_wrappers s"
  by (simp_all add: record_attempt_success_def record_attempt_not_found_def
      record_attempt_transient_failed_def)

text \<open>The lifetime counters add up: every attempt is exactly one of the three results.\<close>

definition stats_balanced :: "server \<Rightarrow> bool" where
  "stats_balanced s \<longleftrightarrow>
    (let st = stats s in ss_attempted st = ss_succeeded st + ss_not_found st + ss_transient_failed st)"

lemma stats_balanced_cong: "stats s' = stats s \<Longrightarrow> stats_balanced s' = stats_balanced s"
  by (simp add: stats_balanced_def)

lemma stats_balanced_ops [simp]:
  "stats_balanced (server_new now cfg)"
  "stats_balanced (record_attempt_success s) = stats_balanced s"
  "stats_balanced (record_attempt_not_found s) = stats_balanced s"
  "stats_balanced (record_attempt_transient_failed s) = stats_balanced s"
  "stats_balanced (apply_penalty now d s) = stats_balanced s"
  "stats_balanced (snd (register_failure now d s)) = stats_balanced s"
  "stats_balanced (snd (is_penalised now s)) = stats_balanced s"
  by (simp_all add: stats_balanced_def)
    (auto simp: stats_def server_new_def record_attempt_success_def record_attempt_not_found_def
      record_attempt_transient_failed_def)

lemma rampup_blocked_iff: "rampup_blocked now s \<longleftrightarrow> 0 < rampup_wait now s"
  by (auto simp: rampup_blocked_def rampup_wait_def Let_def)

lemma take_idle_wrapper_inner_cases:
  "take_idle_wrapper_inner bypass now s =
    (if sv_active s \<and> \<not> fst (is_penalised now s) \<and> (bypass \<or> rampup_wait now s = 0) \<and>
        sv_idle_wrappers s \<noteq> []
     then (Some (hd (sv_idle_wrappers s)),
           (snd (is_penalised now s))\<lparr>sv_idle_wrappers := tl (sv_idle_wrappers s),
              sv_last_connect_ms := max (now - sv_connect_epoch s) 1\<rparr>)
     else (None, if sv_active s then snd (is_penalised now s) else s))"
  by (auto simp: take_idle_wrapper_inner_def rampup_blocked_iff split: prod.splits list.splits)
    (metis is_penalised_frame(4,7) is_penalised_observers(5) list.sel neq_Nil_conv snd_conv less_irrefl list.distinct(1))+

section \<open>Properties\<close>

text \<open>A penalty never shortens: after \<open>apply_penalty\<close> for \<open>d\<close> milliseconds the server is penalised at
  any later instant exactly while the old window or the new one is still open, and the remaining
  time it reports is the distance to the later of the two ends.\<close>

theorem penalty_window_exact:
  assumes "sv_penalty_epoch s \<le> now" "now \<le> t"
  shows "(fst (is_penalised t (apply_penalty now d s)) \<longleftrightarrow>
           t < max (sv_penalty_epoch s + sv_penalty_until_ms s) (now + d)) \<and>
    penalty_remaining t (apply_penalty now d s) =
      max (sv_penalty_epoch s + sv_penalty_until_ms s) (now + d) - t"
  using assms by (auto simp: is_penalised_def apply_penalty_def penalty_remaining_def Let_def max_def)

theorem penalty_window_exact_witness:
  "fst (is_penalised 9 (apply_penalty 5 10 (server_new 0 (server_config_default ''a'')))) \<longleftrightarrow>
    9 < max (0 + sv_penalty_until_ms (server_new 0 (server_config_default ''a''))) (5 + 10 :: nat)"
  using penalty_window_exact [of "server_new 0 (server_config_default ''a'')" 5 9 10]
  by (simp add: server_new_def)

text \<open>A run of failures: how many of them tripped the penalty.\<close>

fun register_failures :: "(millis \<times> millis) list \<Rightarrow> server \<Rightarrow> nat \<times> server" where
  "register_failures [] s = (0, s)"
| "register_failures ((now, d) # fs) s =
     (case register_failure now d s of (tripped, s1) \<Rightarrow>
        (case register_failures fs s1 of (n, s2) \<Rightarrow> ((if tripped then 1 else 0) + n, s2)))"

lemma register_failure_count:
  assumes "unat (sv_bad_cons s) < 3"
  shows "fst (register_failure now d s) \<longleftrightarrow> unat (sv_bad_cons s) = 2"
    and "unat (sv_bad_cons (snd (register_failure now d s))) = (unat (sv_bad_cons s) + 1) mod 3"
proof -
  have u: "unat (sv_bad_cons s + 1) = unat (sv_bad_cons s) + 1"
    using assms by (subst unat_word_ariths) simp
  show "fst (register_failure now d s) \<longleftrightarrow> unat (sv_bad_cons s) = 2"
    using u assms
    by (auto simp: register_failure_def maybe_trip_penalty_def BAD_CONS_THRESHOLD_def word_le_nat_alt)
  show "unat (sv_bad_cons (snd (register_failure now d s))) = (unat (sv_bad_cons s) + 1) mod 3"
  proof (cases "unat (sv_bad_cons s) = 2")
    case True
    with u show ?thesis
      by (simp add: register_failure_def maybe_trip_penalty_def BAD_CONS_THRESHOLD_def word_le_nat_alt)
  next
    case False
    with u assms show ?thesis
      by (simp add: register_failure_def maybe_trip_penalty_def BAD_CONS_THRESHOLD_def word_le_nat_alt)
  qed
qed

lemma register_failures_count:
  "unat (sv_bad_cons s) < 3 \<Longrightarrow>
    fst (register_failures fs s) = (unat (sv_bad_cons s) + length fs) div 3 \<and>
    unat (sv_bad_cons (snd (register_failures fs s))) = (unat (sv_bad_cons s) + length fs) mod 3"
proof (induction fs arbitrary: s)
  case (Cons f fs)
  obtain now d where f: "f = (now, d)" by (cases f)
  obtain tr s1 where r: "register_failure now d s = (tr, s1)" by (cases "register_failure now d s")
  have tr: "tr \<longleftrightarrow> unat (sv_bad_cons s) = 2" and b: "unat (sv_bad_cons s1) = (unat (sv_bad_cons s) + 1) mod 3"
    using register_failure_count [OF Cons.prems, of now d] r by auto
  with Cons.IH [of s1] have ih:
    "fst (register_failures fs s1) = (unat (sv_bad_cons s1) + length fs) div 3"
    "unat (sv_bad_cons (snd (register_failures fs s1))) = (unat (sv_bad_cons s1) + length fs) mod 3"
    by auto
  have "(if tr then 1 else 0) + (unat (sv_bad_cons s1) + length fs) div 3
      = (unat (sv_bad_cons s) + Suc (length fs)) div 3"
    using Cons.prems tr b by (cases "unat (sv_bad_cons s) = 2") auto
  moreover have "(unat (sv_bad_cons s1) + length fs) mod 3 = (unat (sv_bad_cons s) + Suc (length fs)) mod 3"
    using b by (simp add: mod_add_left_eq)
  ultimately show ?case using ih by (cases "register_failures fs s1") (simp add: f r)
qed simp

text \<open>The failure gauge: from a clear gauge, a run of \<open>n\<close> registered failures trips the penalty
  exactly \<open>n div 3\<close> times and leaves the gauge at \<open>n mod 3\<close>.\<close>

theorem register_failure_trips_every_third:
  assumes "sv_bad_cons s = 0"
  shows "fst (register_failures fs s) = length fs div 3 \<and>
    unat (sv_bad_cons (snd (register_failures fs s))) = length fs mod 3"
  using register_failures_count [of s fs] assms by simp

theorem register_failure_trips_every_third_witness:
  "fst (register_failures (replicate 7 (5, 10)) (server_new 0 (server_config_default ''a''))) = 2"
  using register_failure_trips_every_third
    [of "server_new 0 (server_config_default ''a'')" "replicate 7 (5, 10)"]
  by (simp add: server_new_def)

text \<open>Ramp-up: once \<open>take_idle_wrapper\<close> handed out a wrapper, no further one leaves the pool until
  the configured delay has passed, while \<open>take_idle_wrapper_immediate\<close> ignores the delay.\<close>

theorem take_idle_wrapper_rampup:
  assumes "take_idle_wrapper now s = (Some w, s1)"
    and "sv_connect_epoch s \<le> now" "now \<le> t" "t < now + unat (sc_ramp_up_delay_ms (sv_config s))"
  shows "fst (take_idle_wrapper t s1) = None \<and>
    (fst (take_idle_wrapper_immediate t s1) = None \<longleftrightarrow>
      fst (is_penalised t s1) \<or> sv_idle_wrappers s1 = [])"
proof -
  have s1: "s1 = (snd (is_penalised now s))\<lparr>sv_idle_wrappers := tl (sv_idle_wrappers s),
              sv_last_connect_ms := max (now - sv_connect_epoch s) 1\<rparr>" and act: "sv_active s"
    using assms(1) by (auto simp: take_idle_wrapper_def take_idle_wrapper_inner_cases split: if_splits)
  have "0 < rampup_wait t s1"
    using assms(2-4) by (auto simp: s1 rampup_wait_def Let_def)
  then show ?thesis using act s1
    by (auto simp: take_idle_wrapper_def take_idle_wrapper_immediate_def take_idle_wrapper_inner_cases)
qed

theorem take_idle_wrapper_rampup_witness:
  "fst (take_idle_wrapper 40 (snd (take_idle_wrapper 10
     (prime_wrapper_pool 0 2 (server_new 0 (server_config_default ''a'')))))) = None"
proof -
  let ?s = "prime_wrapper_pool 0 2 (server_new 0 (server_config_default ''a''))"
  have "fst (take_idle_wrapper 10 ?s) = Some (wrapper_new 0 ''a'' 1)"
    "sv_connect_epoch ?s \<le> 10" "(40::nat) < 10 + unat (sc_ramp_up_delay_ms (sv_config ?s))"
    by (code_simp+)
  then show ?thesis
    using take_idle_wrapper_rampup [of 10 ?s "wrapper_new 0 ''a'' 1" "snd (take_idle_wrapper 10 ?s)" 40]
    by (cases "take_idle_wrapper 10 ?s") auto
qed

text \<open>Pool accounting: handing a wrapper out and giving it back (as busy or as idle) neither loses nor
  duplicates one, and evicting removes exactly the wrapper named.\<close>

theorem wrapper_pool_conserved:
  "(case take_idle_wrapper_inner bypass now s of
      (None, s1) \<Rightarrow> wrapper_count s1 = wrapper_count s
    | (Some w, s1) \<Rightarrow>
        mset (sv_idle_wrappers s) = add_mset w (mset (sv_idle_wrappers s1)) \<and>
        sv_busy_wrappers s1 = sv_busy_wrappers s \<and>
        wrapper_count (return_wrapper_busy w s1) = wrapper_count s \<and>
        wrapper_count (return_wrapper_idle t w s1) = wrapper_count s) \<and>
   (case evict_busy i s of
      (None, s1) \<Rightarrow> s1 = s \<and> i \<notin> nw_id ` set (sv_busy_wrappers s)
    | (Some w, s1) \<Rightarrow> nw_id w = i \<and>
        mset (sv_busy_wrappers s) = add_mset w (mset (sv_busy_wrappers s1)) \<and>
        sv_idle_wrappers s1 = sv_idle_wrappers s)"
proof (rule conjI, goal_cases)
  case 1
  show ?case
    by (auto simp: take_idle_wrapper_inner_cases wrapper_count_def idle_count_def busy_count_def
        return_wrapper_busy_def return_wrapper_idle_def Let_def neq_Nil_conv)
next
  case 2
  show ?case
    by (auto simp: evict_busy_def mset_swap_remove position_None position_Some split: option.splits)
qed

end
