(* ===== verification/News_Dispatch.thy ===== *)
theory News_Dispatch
  imports News_Server
begin

text \<open>
  Server selection (\<open>crates/nzb-news/src/dispatch.rs\<close>).  The slice of servers is a list in
  ascending priority; the reference \<open>Selection::Server\<close> carries is an index into it.  Selection asks
  servers whether they are penalised, which clears expired windows, so it returns the
  list too.  The \<open>for\<close> loop is \<open>select_scan\<close>; its result is compared with a reference that
  reads the list once, without threading anything.
\<close>

datatype selection = Server nat | WaitRampup millis | CascadeReset | GiveUp

text \<open>The loop: index of the server returned (if any), \<open>any_candidate\<close>, \<open>wait_needed\<close>.\<close>

type_synonym scan_result = "(nat option \<times> bool \<times> millis option) \<times> server list"

text \<open>\<open>continue\<close>: the rest of the list decides, one index further on.\<close>

definition scan_skip :: "server \<Rightarrow> scan_result \<Rightarrow> scan_result" where
  "scan_skip s1 res = ((map_option Suc (fst (fst res)), snd (fst res)), s1 # snd res)"

fun select_scan ::
  "millis \<Rightarrow> (server_id \<Rightarrow> bool) \<Rightarrow> bool \<Rightarrow> millis option \<Rightarrow> server list \<Rightarrow> scan_result" where
  "select_scan now tried any wait [] = ((None, any, wait), [])"
| "select_scan now tried any wait (s # ss) =
     (let skip = (\<lambda>s1 any1 wait1. scan_skip s1 (select_scan now tried any1 wait1 ss))
      in if \<not> sv_active s \<or> \<not> has_active_wrappers s then skip s any wait
         else if tried (sv_id s) then skip s any wait
         else
           (case is_penalised now s of (pen, s1) \<Rightarrow>
             if pen then
               skip s1 True (if 0 < penalty_remaining now s1
                             then keep_min wait (penalty_remaining now s1) else wait)
             else if 0 < rampup_wait now s1 then skip s1 True (keep_min wait (rampup_wait now s1))
             else if idle_count s1 = 0 then skip s1 True (keep_min wait 10)
             else ((Some 0, True, wait), s1 # ss)))"

definition tried_somewhere :: "article \<Rightarrow> nzb_file \<Rightarrow> nzb_object \<Rightarrow> server_id \<Rightarrow> bool" where
  "tried_somewhere a f j i \<longleftrightarrow> art_server_tried a i \<or> file_server_tried f i \<or> job_server_tried j i"

definition select_server ::
  "millis \<Rightarrow> article \<Rightarrow> nzb_file \<Rightarrow> nzb_object \<Rightarrow> server list \<Rightarrow> selection \<times> server list" where
  "select_server now a f j servers =
    (case select_scan now (tried_somewhere a f j) False None servers of
       ((Some i, any_candidate, wait_needed), servers1) \<Rightarrow> (Server i, servers1)
     | ((None, any_candidate, wait_needed), servers1) \<Rightarrow>
         (if \<not> any_candidate then
            let eligible = filter sv_active servers1;
                explicit_global_absence =
                  (0 < length eligible \<and>
                   list_all (\<lambda>s. art_server_explicitly_not_found a (sv_id s)) eligible)
            in if explicit_global_absence then GiveUp
               else if \<not> art_confirmed_absent_only a then CascadeReset
               else WaitRampup 100
          else WaitRampup (case wait_needed of Some w \<Rightarrow> w | None \<Rightarrow> 10),
          servers1))"

text \<open>\<open>record_article_given_up\<close> and \<open>cascade_reset\<close> on the shared objects.\<close>

definition record_article_given_up :: "fref \<Rightarrow> jref \<Rightarrow> heap \<Rightarrow> heap" where
  "record_article_given_up f j h =
    upd_file f (\<lambda>x. snd (file_mark_article_completed x)) (upd_job j job_record_article_failed h)"

definition cascade_reset :: "aref \<Rightarrow> fref \<Rightarrow> jref \<Rightarrow> heap \<Rightarrow> heap" where
  "cascade_reset a f j h =
    (let h1 = upd_art a art_reset_try_list h;
         h2 = (if \<not> tl_is_empty (nf_try_list (h_file h1 f)) then upd_file f file_reset_try_list h1 else h1);
         h3 = (if \<not> tl_is_empty (no_try_list (h_job h2 j)) then upd_job j job_reset_try_list h2 else h2)
     in upd_art a (\<lambda>x. snd (art_increment_tries x)) h3)"

section \<open>What the scan computes\<close>

definition candidate :: "(server_id \<Rightarrow> bool) \<Rightarrow> server \<Rightarrow> bool" where
  "candidate tried s \<longleftrightarrow> sv_active s \<and> has_active_wrappers s \<and> \<not> tried (sv_id s)"

definition dispatchable :: "millis \<Rightarrow> (server_id \<Rightarrow> bool) \<Rightarrow> server \<Rightarrow> bool" where
  "dispatchable now tried s \<longleftrightarrow>
    candidate tried s \<and> \<not> fst (is_penalised now s) \<and> rampup_wait now s = 0 \<and> 0 < idle_count s"

definition server_wait :: "millis \<Rightarrow> server \<Rightarrow> millis" where
  "server_wait now s =
    (if fst (is_penalised now s) then penalty_remaining now s
     else if 0 < rampup_wait now s then rampup_wait now s else 10)"

text \<open>A server after a pass: unchanged or with its expired window cleared.\<close>

definition expired :: "millis \<Rightarrow> server \<Rightarrow> server \<Rightarrow> bool" where
  "expired now s s' \<longleftrightarrow> s' = s \<or> s' = snd (is_penalised now s)"

lemma expired_refl [simp]: "expired now s s"
  by (simp add: expired_def)

lemma expired_snd [simp]: "expired now s (snd (is_penalised now s))"
  by (simp add: expired_def)

lemma expired_frame:
  "expired now s s' \<Longrightarrow> sv_config s' = sv_config s"
  "expired now s s' \<Longrightarrow> sv_active s' = sv_active s"
  "expired now s s' \<Longrightarrow> sv_active_wrappers s' = sv_active_wrappers s"
  "expired now s s' \<Longrightarrow> sv_id s' = sv_id s"
  "expired now s s' \<Longrightarrow> has_active_wrappers s' = has_active_wrappers s"
  "expired now s s' \<Longrightarrow> stats s' = stats s"
  "expired now s s' \<Longrightarrow> candidate tried s' = candidate tried s"
  by (auto simp: expired_def candidate_def)

lemma is_penalised_fst_conv: "is_penalised now s = (p, s1) \<Longrightarrow> fst (is_penalised now s) = p"
  by simp

lemma penalised_remaining: "fst (is_penalised now s) \<Longrightarrow> 0 < penalty_remaining now s"
  by (auto simp: is_penalised_def penalty_remaining_def split: if_splits)

lemma penalised_unchanged: "fst (is_penalised now s) \<Longrightarrow> snd (is_penalised now s) = s"
  by (auto simp: is_penalised_def split: if_splits)

lemma server_wait_pos: "0 < server_wait now s"
  by (simp add: server_wait_def penalised_remaining)

text \<open>The scan in terms of the predicates above, one server at a time.\<close>

lemma select_scan_Cons:
  "select_scan now tried any wait (s # ss) =
    (if dispatchable now tried s then ((Some 0, True, wait), snd (is_penalised now s) # ss)
     else
       scan_skip (if candidate tried s then snd (is_penalised now s) else s)
         (select_scan now tried (any \<or> candidate tried s)
           (if candidate tried s then keep_min wait (server_wait now s) else wait) ss))"
proof (cases "candidate tried s")
  case False
  then show ?thesis by (auto simp: candidate_def dispatchable_def Let_def)
next
  case True
  then have *: "sv_active s" "has_active_wrappers s" "\<not> tried (sv_id s)" by (auto simp: candidate_def)
  obtain p s1 where p: "is_penalised now s = (p, s1)" by (cases "is_penalised now s")
  show ?thesis
  proof (cases p)
    case True
    with p have "s1 = s" "0 < penalty_remaining now s"
      using penalised_unchanged [of now s] penalised_remaining [of now s] by auto
    with * p True \<open>candidate tried s\<close> show ?thesis
      by (simp add: dispatchable_def server_wait_def)
  next
    case False
    from p have "rampup_wait now s1 = rampup_wait now s" "idle_count s1 = idle_count s"
      using is_penalised_observers(5) [of now now s] is_penalised_observers(6) [of now s] by simp_all
    with * p False \<open>candidate tried s\<close> show ?thesis
      by (simp add: dispatchable_def server_wait_def)
  qed
qed

declare select_scan.simps(2) [simp del]

lemma scan_skip_simps [simp]:
  "fst (fst (scan_skip s res)) = map_option Suc (fst (fst res))"
  "snd (fst (scan_skip s res)) = snd (fst res)"
  "snd (scan_skip s res) = s # snd res"
  by (simp_all add: scan_skip_def)

lemma select_scan_result:
  "fst (fst (select_scan now tried any wait ss)) = position (dispatchable now tried) ss"
  by (induction ss arbitrary: any wait) (auto simp: select_scan_Cons)

lemma select_scan_frame:
  "list_all2 (expired now) ss (snd (select_scan now tried any wait ss))"
  by (induction ss arbitrary: any wait) (auto simp: select_scan_Cons list_all2_refl)

text \<open>When nothing is dispatchable, the scan has seen every candidate and its wait.\<close>

definition fold_waits :: "millis option \<Rightarrow> millis list \<Rightarrow> millis option" where
  "fold_waits wait ws = fold (\<lambda>w acc. keep_min acc w) ws wait"

lemma select_scan_exhausted:
  assumes "position (dispatchable now tried) ss = None"
  shows "snd (fst (select_scan now tried any wait ss)) =
    (any \<or> (\<exists>s \<in> set ss. candidate tried s),
     fold_waits wait (map (server_wait now) (filter (candidate tried) ss)))"
  using assms
  by (induction ss arbitrary: any wait) (auto simp: select_scan_Cons fold_waits_def split: if_splits)

lemma fold_waits_Some: "fold_waits (Some v) ws = Some (Min (insert v (set ws)))"
proof (induction ws arbitrary: v)
  case (Cons w ws)
  have "fold_waits (Some v) (w # ws) = Some (Min (insert (min v w) (set ws)))"
    using Cons.IH [of "min v w"] by (simp add: fold_waits_def)
  then show ?case by (cases "set ws = {}") (simp_all add: min.assoc)
qed (simp add: fold_waits_def)

lemma fold_waits_None: "ws \<noteq> [] \<Longrightarrow> fold_waits None ws = Some (Min (set ws))"
  using fold_waits_Some by (cases ws) (auto simp: fold_waits_def)

section \<open>Reference and properties\<close>

definition absent_everywhere :: "article \<Rightarrow> server list \<Rightarrow> bool" where
  "absent_everywhere a ss \<longleftrightarrow>
    (\<exists>s \<in> set ss. sv_active s) \<and>
    (\<forall>s \<in> set ss. sv_active s \<longrightarrow> art_server_explicitly_not_found a (sv_id s))"

definition select_ref ::
  "millis \<Rightarrow> article \<Rightarrow> nzb_file \<Rightarrow> nzb_object \<Rightarrow> server list \<Rightarrow> selection" where
  "select_ref now a f j ss =
    (let tried = tried_somewhere a f j in
     case position (dispatchable now tried) ss of
       Some i \<Rightarrow> Server i
     | None \<Rightarrow>
         if \<exists>s \<in> set ss. candidate tried s
         then WaitRampup (Min (server_wait now ` {s \<in> set ss. candidate tried s}))
         else if absent_everywhere a ss then GiveUp
         else if art_confirmed_absent_only a then WaitRampup 100 else CascadeReset)"

lemma select_server_frame: "list_all2 (expired now) ss (snd (select_server now a f j ss))"
  using select_scan_frame [of now ss "tried_somewhere a f j" False None]
  by (auto simp: select_server_def split: prod.splits option.splits)

lemma absent_everywhere_expired:
  assumes "list_all2 (expired now) ss ss'"
  shows "absent_everywhere a ss' \<longleftrightarrow> absent_everywhere a ss"
proof -
  from assms have "map (\<lambda>s. (sv_active s, sv_id s)) ss' = map (\<lambda>s. (sv_active s, sv_id s)) ss"
    by (induction rule: list_all2_induct) (auto simp: expired_frame)
  moreover have "absent_everywhere a xs \<longleftrightarrow>
    (\<exists>p \<in> set (map (\<lambda>s. (sv_active s, sv_id s)) xs). fst p) \<and>
    (\<forall>p \<in> set (map (\<lambda>s. (sv_active s, sv_id s)) xs).
       fst p \<longrightarrow> art_server_explicitly_not_found a (snd p))" for xs
    by (auto simp: absent_everywhere_def)
  ultimately show ?thesis by (simp only:)
qed

lemma absent_everywhere_code:
  "absent_everywhere a ss \<longleftrightarrow>
    0 < length (filter sv_active ss) \<and>
    list_all (\<lambda>s. art_server_explicitly_not_found a (sv_id s)) (filter sv_active ss)"
  by (auto simp: absent_everywhere_def list_all_iff filter_empty_conv)

lemma select_server_eq:
  "fst (select_server now a f j ss) = select_ref now a f j ss"
proof -
  let ?t = "tried_somewhere a f j"
  obtain r any w ss1 where sc: "select_scan now ?t False None ss = ((r, any, w), ss1)"
    by (metis prod.collapse)
  have r: "r = position (dispatchable now ?t) ss"
    using select_scan_result [of now ?t False None ss] sc by simp
  have fr: "list_all2 (expired now) ss ss1"
    using select_scan_frame [of now ss ?t False None] sc by simp
  show ?thesis
  proof (cases r)
    case (Some i)
    with r have "position (dispatchable now ?t) ss = Some i" by simp
    with sc Some show ?thesis by (simp add: select_server_def select_ref_def)
  next
    case None
    with r have "(any, w) = (\<exists>s \<in> set ss. candidate ?t s,
        fold_waits None (map (server_wait now) (filter (candidate ?t) ss)))"
      using select_scan_exhausted [of now ?t ss False None] sc by simp
    then have any: "any \<longleftrightarrow> (\<exists>s \<in> set ss. candidate ?t s)"
      and w: "any \<Longrightarrow> w = Some (Min (server_wait now ` {s \<in> set ss. candidate ?t s}))"
      by (auto simp: fold_waits_None filter_empty_conv)
    have p: "position (dispatchable now ?t) ss = None" using r None by simp
    show ?thesis
    proof (cases any)
      case True
      with sc None p any w [OF True] show ?thesis
        by (simp add: select_server_def select_ref_def)
    next
      case False
      with sc None p any show ?thesis
        by (simp add: select_server_def select_ref_def Let_def absent_everywhere_code [symmetric]
            absent_everywhere_expired [OF fr] del: length_greater_0_conv)
    qed
  qed
qed

text \<open>The shape of each answer.\<close>

lemma select_server_ServerD:
  assumes "fst (select_server now a f j ss) = Server i"
  shows "i < length ss" "dispatchable now (tried_somewhere a f j) (ss ! i)"
    "\<forall>k < i. \<not> dispatchable now (tried_somewhere a f j) (ss ! k)"
  using assms
  by (auto simp: select_server_eq select_ref_def Let_def position_Some split: option.splits if_splits)

lemma select_server_GiveUp_iff:
  "fst (select_server now a f j ss) = GiveUp \<longleftrightarrow>
    absent_everywhere a ss \<and> \<not> (\<exists>s \<in> set ss. candidate (tried_somewhere a f j) s)"
  by (auto simp: select_server_eq select_ref_def Let_def position_None position_Some dispatchable_def
      split: option.splits)

lemma select_server_CascadeReset_iff:
  "fst (select_server now a f j ss) = CascadeReset \<longleftrightarrow>
    \<not> absent_everywhere a ss \<and> \<not> art_confirmed_absent_only a \<and>
    \<not> (\<exists>s \<in> set ss. candidate (tried_somewhere a f j) s)"
  by (auto simp: select_server_eq select_ref_def Let_def position_None position_Some dispatchable_def
      split: option.splits)

lemma cascade_reset_clears:
  "art_try_list (h_art (cascade_reset a f j h) a) = {}"
  "\<not> tried_somewhere (h_art (cascade_reset a f j h) a) (h_file (cascade_reset a f j h) f)
      (h_job (cascade_reset a f j h) j) s"
  by (auto simp: cascade_reset_def Let_def tried_somewhere_def art_server_tried_def
      file_server_tried_def job_server_tried_def art_increment_tries_def art_reset_try_list_def
      file_reset_try_list_def job_reset_try_list_def)

lemma cascade_reset_frame [simp]:
  "art_explicit_not_found (h_art (cascade_reset a f j h) x) = art_explicit_not_found (h_art h x)"
  "art_confirmed_absent_only (h_art (cascade_reset a f j h) x) = art_confirmed_absent_only (h_art h x)"
  "art_job_id (h_art (cascade_reset a f j h) x) = art_job_id (h_art h x)"
  by (auto simp: cascade_reset_def Let_def art_increment_tries_def art_reset_try_list_def)

section \<open>Properties\<close>

text \<open>C14. Server selection agrees with its reference: the first dispatchable server in
  priority order; failing that, while some live server is still untried, the shortest of the waits;
  failing that, give up exactly when every enabled provider answered 430, and otherwise reset or
  wait according to whether a transient failure was seen.\<close>

theorem select_server_refines:
  "fst (select_server now a f j ss) = select_ref now a f j ss"
  by (rule select_server_eq)

text \<open>Priority: the server selected is enabled, has live workers, was not tried at any of the three
  levels, is not penalised, is past its ramp-up and has an idle wrapper, and no server
  listed before it (of better or equal priority) has all of these.\<close>

theorem select_server_first_dispatchable:
  assumes "fst (select_server now a f j ss) = Server i"
  shows "i < length ss \<and> sv_active (ss ! i) \<and> has_active_wrappers (ss ! i) \<and>
    \<not> tried_somewhere a f j (sv_id (ss ! i)) \<and> \<not> fst (is_penalised now (ss ! i)) \<and>
    rampup_wait now (ss ! i) = 0 \<and> 0 < idle_count (ss ! i) \<and>
    (\<forall>k < i. \<not> dispatchable now (tried_somewhere a f j) (ss ! k))"
  using select_server_ServerD [OF assms] by (simp add: dispatchable_def candidate_def)

text \<open>Two providers, the better one penalised: the article goes to the second.\<close>

definition demo_server :: "server_id \<Rightarrow> u8 \<Rightarrow> server" where
  "demo_server i p =
    snd (register_wrapper (prime_wrapper_pool 0 1
      (server_new 0 ((server_config_new i ''host'')\<lparr>sc_priority := p, sc_connections := 1\<rparr>))))"

theorem select_server_first_dispatchable_witness:
  "fst (select_server 5 (article_new ''m'' ''f'' ''j'' 10 1 1) (nzb_file_new ''f'' ''j'' ''n'' 1)
      (nzb_object_new ''j'' ''n'' 1 10 [0]) [apply_penalty 0 10 (demo_server ''a'' 0), demo_server ''b'' 1])
     = Server 1 \<and>
   has_active_wrappers ([apply_penalty 0 10 (demo_server ''a'' 0), demo_server ''b'' 1] ! 1)"
proof -
  let ?sel = "select_server 5 (article_new ''m'' ''f'' ''j'' 10 1 1) (nzb_file_new ''f'' ''j'' ''n'' 1)
      (nzb_object_new ''j'' ''n'' 1 10 [0]) [apply_penalty 0 10 (demo_server ''a'' 0), demo_server ''b'' 1]"
  have "fst ?sel = Server 1" by code_simp
  with select_server_first_dispatchable [OF this] show ?thesis by blast
qed

text \<open>Absence needs evidence: selection gives up on an article exactly when at least one provider is
  enabled, every enabled provider has answered 430 for it, and no live provider is left
  untried.\<close>

theorem select_server_gives_up_iff:
  "fst (select_server now a f j ss) = GiveUp \<longleftrightarrow>
    (\<exists>s \<in> set ss. sv_active s) \<and>
    {sv_id s |s. s \<in> set ss \<and> sv_active s} \<subseteq> art_explicit_not_found a \<and>
    {s \<in> set ss. candidate (tried_somewhere a f j) s} = {}"
  by (auto simp: select_server_GiveUp_iff absent_everywhere_def art_server_explicitly_not_found_def)

text \<open>A cascade reset brings the providers back: if some enabled provider has live workers, selection
  right after the reset never asks for another reset and never gives up, and the reset keeps
  all evidence of absence.\<close>

theorem cascade_reset_makes_progress:
  assumes "s \<in> set ss" "sv_active s" "has_active_wrappers s"
  shows "let h' = cascade_reset a f j h;
             sel = fst (select_server now (h_art h' a) (h_file h' f) (h_job h' j) ss)
         in sel \<noteq> CascadeReset \<and> sel \<noteq> GiveUp \<and>
            art_explicit_not_found (h_art h' a) = art_explicit_not_found (h_art h a)"
  using assms cascade_reset_clears(2) [of a f j h]
  by (auto simp: Let_def select_server_CascadeReset_iff select_server_GiveUp_iff candidate_def)

theorem cascade_reset_makes_progress_witness:
  "let h = \<lparr>h_art = (\<lambda>_. art_mark_transient_failure (art_mark_server_tried ''a'' (article_new ''m'' ''f'' ''j'' 10 1 1))),
            h_file = (\<lambda>_. nzb_file_new ''f'' ''j'' ''n'' 1), h_job = (\<lambda>_. nzb_object_new ''j'' ''n'' 1 10 [0])\<rparr>;
       h' = cascade_reset 0 0 0 h
   in fst (select_server 5 (h_art h 0) (h_file h 0) (h_job h 0) [demo_server ''a'' 0]) = CascadeReset \<and>
      fst (select_server 5 (h_art h' 0) (h_file h' 0) (h_job h' 0) [demo_server ''a'' 0]) \<noteq> CascadeReset"
proof -
  have live: "sv_active (demo_server ''a'' 0)" "has_active_wrappers (demo_server ''a'' 0)"
    by code_simp+
  show ?thesis
    using cascade_reset_makes_progress [of "demo_server ''a'' 0" "[demo_server ''a'' 0]" 0 0 0 _ 5] live
    by (simp add: Let_def select_server_CascadeReset_iff absent_everywhere_def candidate_def)
      (code_simp)
qed

end
