(* ===== verification/News_Queue.thy ===== *)
theory News_Queue
  imports News_Dispatch
begin

text \<open>
  Work items, outcomes and the per-server queue of \<open>crates/nzb-news/src/downloader.rs\<close>
  (\<open>WorkItem\<close>, \<open>FetchOutcome\<close>, \<open>ServerQueue\<close>).  Each method that takes the mutex is one atomic
  operation; \<open>pop_batch\<close> answers \<open>None\<close> where the code parks on the notifier.  The last section
  splits \<open>pop_batch\<close> and \<open>push_many\<close> at their await points.
\<close>

section \<open>Work items and outcomes\<close>

type_synonym work_tag = nat

record work_item =
  wi_tag :: work_tag
  wi_article :: aref
  wi_file :: fref
  wi_job :: jref

datatype fetch_outcome =
    Success (fo_tag: work_tag) server_id byte_string nat
  | Failed (fo_tag: work_tag) "byte_string option" bool "server_id list"
  | Cancelled (fo_tag: work_tag)

definition item_job_id :: "heap \<Rightarrow> work_item \<Rightarrow> byte_string" where
  "item_job_id h it = art_job_id (h_art h (wi_article it))"

section \<open>The queue\<close>

record server_queue =
  sq_server :: nat
  sq_deque :: "work_item list"
  sq_closed :: bool
  sq_inflight :: nat

definition queue_new :: "nat \<Rightarrow> server_queue" where
  "queue_new server = \<lparr>sq_server = server, sq_deque = [], sq_closed = False, sq_inflight = 0\<rparr>"

definition push_many :: "work_item list \<Rightarrow> server_queue \<Rightarrow> server_queue" where
  "push_many items q = (if items = [] then q else q\<lparr>sq_deque := sq_deque q @ items\<rparr>)"

definition pop_batch :: "nat \<Rightarrow> server_queue \<Rightarrow> work_item list option \<times> server_queue" where
  "pop_batch mx q =
    (if sq_deque q \<noteq> [] then
       let n = min (length (sq_deque q)) mx; batch = take n (sq_deque q) in
       (Some batch, q\<lparr>sq_deque := drop n (sq_deque q), sq_inflight := sq_inflight q + length batch\<rparr>)
     else if sq_closed q then (Some [], q)
     else (None, q))"

definition queue_close :: "server_queue \<Rightarrow> server_queue" where
  "queue_close q = q\<lparr>sq_closed := True\<rparr>"

definition drain_all :: "server_queue \<Rightarrow> work_item list \<times> server_queue" where
  "drain_all q = (sq_deque q, q\<lparr>sq_deque := []\<rparr>)"

text \<open>\<open>retain\<close> visits the items in order; those of the job are moved out.\<close>

definition drain_job :: "heap \<Rightarrow> byte_string \<Rightarrow> server_queue \<Rightarrow> work_item list \<times> server_queue" where
  "drain_job h job q =
    (filter (\<lambda>it. item_job_id h it = job) (sq_deque q),
     q\<lparr>sq_deque := filter (\<lambda>it. item_job_id h it \<noteq> job) (sq_deque q)\<rparr>)"

text \<open>\<open>fetch_sub\<close>: callers return what they popped, so the difference is exact (see the system
  invariant).\<close>

definition note_completed :: "nat \<Rightarrow> server_queue \<Rightarrow> server_queue" where
  "note_completed n q = q\<lparr>sq_inflight := sq_inflight q - n\<rparr>"

definition queue_depth :: "server_queue \<Rightarrow> nat" where
  "queue_depth q = sq_inflight q"

lemma push_many_simps [simp, item_simps]:
  "sq_deque (push_many xs q) = sq_deque q @ xs" "sq_inflight (push_many xs q) = sq_inflight q"
  "sq_closed (push_many xs q) = sq_closed q" "sq_server (push_many xs q) = sq_server q"
  by (auto simp: push_many_def)

lemma queue_frame_simps [simp, item_simps]:
  "sq_deque (queue_close q) = sq_deque q" "sq_inflight (queue_close q) = sq_inflight q"
  "sq_deque (note_completed n q) = sq_deque q" "sq_inflight (note_completed n q) = sq_inflight q - n"
  "sq_inflight (snd (drain_all q)) = sq_inflight q" "sq_inflight (snd (drain_job h job q)) = sq_inflight q"
  by (simp_all add: queue_close_def note_completed_def drain_all_def drain_job_def)

lemma pop_batch_Some:
  assumes "pop_batch mx q = (Some batch, q')"
  shows "sq_deque q = batch @ sq_deque q'" "sq_inflight q' = sq_inflight q + length batch"
    "length batch \<le> mx" "batch = [] \<Longrightarrow> 0 < mx \<Longrightarrow> sq_closed q \<and> sq_deque q = []"
  using assms by (auto simp: pop_batch_def Let_def min_def split: if_splits)

lemma drain_job_mset [item_simps]:
  "mset (fst (drain_job h job q)) + mset (sq_deque (snd (drain_job h job q))) = mset (sq_deque q)"
  by (simp add: drain_job_def)

section \<open>First in, first out\<close>

text \<open>
  What the scheduler (producer) and the workers (consumers) rely on: pushing appends, popping takes
  a prefix.
\<close>

locale fifo =
  fixes items :: "'q \<Rightarrow> 'i list"
    and push :: "'i list \<Rightarrow> 'q \<Rightarrow> 'q"
    and pop :: "nat \<Rightarrow> 'q \<Rightarrow> 'i list option \<times> 'q"
  assumes items_push: "items (push xs q) = items q @ xs"
    and items_pop: "pop n q = (Some xs, q') \<Longrightarrow> items q = xs @ items q'"
    and items_park: "pop n q = (None, q') \<Longrightarrow> items q = [] \<and> q' = q"
    and pop_takes: "items q \<noteq> [] \<Longrightarrow> 0 < n \<Longrightarrow> fst (pop n q) \<noteq> Some []"
begin

text \<open>A schedule is a list of pushes (\<open>Inl\<close>) and pops (\<open>Inr\<close>).\<close>

fun run :: "('i list + nat) list \<Rightarrow> 'q \<Rightarrow> 'i list \<times> 'q" where
  "run [] q = ([], q)"
| "run (Inl xs # ops) q = run ops (push xs q)"
| "run (Inr n # ops) q =
     (case pop n q of
        (None, q1) \<Rightarrow> run ops q1
      | (Some ys, q1) \<Rightarrow> (case run ops q1 of (out, q2) \<Rightarrow> (ys @ out, q2)))"

fun pushed :: "('i list + nat) list \<Rightarrow> 'i list" where
  "pushed [] = []"
| "pushed (Inl xs # ops) = xs @ pushed ops"
| "pushed (Inr n # ops) = pushed ops"

lemma run_fifo: "fst (run ops q) @ items (snd (run ops q)) = items q @ pushed ops"
proof (induction ops q rule: run.induct)
  case (3 n ops q)
  show ?case
  proof (cases "pop n q")
    case (Pair r q1)
    then show ?thesis
      using 3 items_pop [of n q _ q1] items_park [of n q q1]
      by (cases r) (auto split: prod.splits)
  qed
qed (auto simp: items_push)

text \<open>Enough non-trivial pops empty the queue.\<close>

lemma run_pops_empty: "0 < n \<Longrightarrow> length (items q) \<le> k \<Longrightarrow> items (snd (run (replicate k (Inr n)) q)) = []"
proof (induction k arbitrary: q)
  case (Suc k)
  obtain r q1 where p: "pop n q = (r, q1)" by (cases "pop n q")
  show ?case
  proof (cases r)
    case None
    with p Suc.IH [of q1] Suc.prems items_park [of n q q1] show ?thesis by auto
  next
    case (Some ys)
    with p have i: "items q = ys @ items q1" using items_pop by simp
    have "length (items q1) \<le> k"
    proof (cases "items q = []")
      case False
      with pop_takes [OF False Suc.prems(1)] p Some have "ys \<noteq> []" by simp
      with i Suc.prems(2) show ?thesis by (cases ys) auto
    qed (use i in simp)
    with Suc.IH [of q1] Suc.prems(1) p Some show ?thesis
      by (cases "run (replicate k (Inr n)) q1") simp
  qed
qed simp

end

interpretation sq: fifo sq_deque push_many pop_batch
  by unfold_locales (auto simp: pop_batch_def Let_def split: if_splits)

text \<open>The same schedules on the model's queue.\<close>

fun queue_run :: "(work_item list + nat) list \<Rightarrow> server_queue \<Rightarrow> work_item list \<times> server_queue" where
  "queue_run [] q = ([], q)"
| "queue_run (Inl xs # ops) q = queue_run ops (push_many xs q)"
| "queue_run (Inr n # ops) q =
     (case pop_batch n q of
        (None, q1) \<Rightarrow> queue_run ops q1
      | (Some ys, q1) \<Rightarrow> (case queue_run ops q1 of (out, q2) \<Rightarrow> (ys @ out, q2)))"

lemma queue_run_eq: "queue_run ops q = sq.run ops q"
  by (induction ops q rule: queue_run.induct) (auto split: prod.splits option.splits)

text \<open>Per-server queue: whatever the interleaving of batched pushes and pops, the items come out in
  the order they went in, none lost and none twice, and enough pops drain the queue.\<close>

theorem server_queue_fifo:
  "fst (queue_run ops q) @ sq_deque (snd (queue_run ops q)) =
     sq_deque q @ concat (map (\<lambda>op. case op of Inl xs \<Rightarrow> xs | Inr _ \<Rightarrow> []) ops) \<and>
   sq_deque (snd (queue_run (replicate (length (sq_deque q)) (Inr (Suc n))) q)) = []"
proof -
  have "sq.pushed ops = concat (map (\<lambda>op. case op of Inl xs \<Rightarrow> xs | Inr _ \<Rightarrow> []) ops)"
    by (induction ops rule: sq.pushed.induct) auto
  then show ?thesis by (simp add: queue_run_eq sq.run_fifo sq.run_pops_empty)
qed

section \<open>Lost wake-ups\<close>

text \<open>
  \<open>pop_batch\<close> releases the mutex before it looks at \<open>closed\<close> and before it registers with the
  notifier, and \<open>Notify::notify_waiters\<close> wakes only those already registered.  The consumer's
  program points and the producer's two actions (extend under the mutex, then notify):
\<close>

datatype pop_pc = PopLock | PopClosedCheck | PopRegister | PopParked | PopReturned "work_item list"

record pop_state =
  ps_queue :: server_queue
  ps_pc :: pop_pc
  ps_to_notify :: bool

inductive pop_step :: "nat \<Rightarrow> pop_state \<Rightarrow> pop_state \<Rightarrow> bool" for mx where
  lock_take: "ps_pc s = PopLock \<Longrightarrow> sq_deque (ps_queue s) \<noteq> [] \<Longrightarrow>
    pop_batch mx (ps_queue s) = (Some b, q') \<Longrightarrow>
    pop_step mx s (s\<lparr>ps_queue := q', ps_pc := PopReturned b\<rparr>)"
| lock_empty: "ps_pc s = PopLock \<Longrightarrow> sq_deque (ps_queue s) = [] \<Longrightarrow>
    pop_step mx s (s\<lparr>ps_pc := PopClosedCheck\<rparr>)"
| check_closed: "ps_pc s = PopClosedCheck \<Longrightarrow>
    pop_step mx s (s\<lparr>ps_pc := (if sq_closed (ps_queue s) then PopReturned [] else PopRegister)\<rparr>)"
| register: "ps_pc s = PopRegister \<Longrightarrow> pop_step mx s (s\<lparr>ps_pc := PopParked\<rparr>)"
| extend: "xs \<noteq> [] \<Longrightarrow> \<not> ps_to_notify s \<Longrightarrow>
    pop_step mx s (s\<lparr>ps_queue := push_many xs (ps_queue s), ps_to_notify := True\<rparr>)"
| close: "\<not> ps_to_notify s \<Longrightarrow>
    pop_step mx s (s\<lparr>ps_queue := queue_close (ps_queue s), ps_to_notify := True\<rparr>)"
| notify: "ps_to_notify s \<Longrightarrow>
    pop_step mx s (s\<lparr>ps_to_notify := False,
      ps_pc := (if ps_pc s = PopParked then PopLock else ps_pc s)\<rparr>)"

text \<open>There is a schedule in which the consumer parks on a queue that holds work, with no
  notification outstanding: the push falls between the look at the empty deque and the registration.\<close>

theorem pop_batch_can_miss_push:
  "\<exists>s. (pop_step 4)\<^sup>*\<^sup>* \<lparr>ps_queue = queue_new 0, ps_pc = PopLock, ps_to_notify = False\<rparr> s \<and>
    ps_pc s = PopParked \<and> sq_deque (ps_queue s) = [\<lparr>wi_tag = 7, wi_article = 0, wi_file = 0, wi_job = 0\<rparr>] \<and>
    \<not> ps_to_notify s"
proof -
  define it where "it = \<lparr>wi_tag = 7, wi_article = 0, wi_file = 0, wi_job = 0\<rparr>"
  define s0 where "s0 = \<lparr>ps_queue = queue_new 0, ps_pc = PopLock, ps_to_notify = False\<rparr>"
  define s1 where "s1 = s0\<lparr>ps_pc := PopClosedCheck\<rparr>"
  define s2 where "s2 = s1\<lparr>ps_pc := PopRegister\<rparr>"
  define s3 where "s3 = s2\<lparr>ps_queue := push_many [it] (ps_queue s2), ps_to_notify := True\<rparr>"
  define s4 where "s4 = s3\<lparr>ps_to_notify := False, ps_pc := PopRegister\<rparr>"
  define s5 where "s5 = s4\<lparr>ps_pc := PopParked\<rparr>"
  note s = s0_def s1_def s2_def s3_def s4_def s5_def
  have "pop_step 4 s0 s1" unfolding s1_def by (rule lock_empty) (simp_all add: s queue_new_def)
  moreover have "pop_step 4 s1 s2"
    using check_closed [of s1 4] by (simp add: s queue_new_def)
  moreover have "pop_step 4 s2 s3" unfolding s3_def by (rule extend) (simp_all add: s)
  moreover have "pop_step 4 s3 s4" using notify [of s3 4] by (simp add: s)
  moreover have "pop_step 4 s4 s5" unfolding s5_def by (rule register) (simp add: s)
  ultimately have "(pop_step 4)\<^sup>*\<^sup>* s0 s5" by (blast intro: converse_rtranclp_into_rtranclp)
  moreover have "ps_pc s5 = PopParked" "sq_deque (ps_queue s5) = [it]" "\<not> ps_to_notify s5"
    by (simp_all add: s queue_new_def)
  ultimately show ?thesis unfolding s0_def it_def by blast
qed

end
