(* ===== verification/News_Probe.thy ===== *)
theory News_Probe
  imports News_Queue
begin

text \<open>
  Backup-server probing (\<open>ServerProbePolicy\<close>, \<open>ProbeState\<close>, \<open>rollback_probe_dispatch\<close>,
  \<open>update_probe_on_result\<close> of \<open>crates/nzb-news/src/downloader.rs\<close>).  Counters are 32-bit words and the
  hit rate is computed in single precision, as in the code.
\<close>

record server_probe_policy =
  pp_probe_count :: u32
  pp_min_hit_rate_pct :: rat

definition probe_policy_default :: server_probe_policy where
  "probe_policy_default = \<lparr>pp_probe_count = 10, pp_min_hit_rate_pct = 10\<rparr>"

datatype probe_status = Probing | Approved | Rejected

record probe_state =
  pr_sent :: u32
  pr_returned :: u32
  pr_hit :: u32
  pr_status :: probe_status

type_synonym probe_key = "byte_string \<times> server_id"
type_synonym probe_tracker = "probe_key \<rightharpoonup> probe_state"

definition probe_state_new :: probe_state where
  "probe_state_new = \<lparr>pr_sent = 0, pr_returned = 0, pr_hit = 0, pr_status = Probing\<rparr>"

definition u32_as_f32 :: "u32 \<Rightarrow> rat" where
  "u32_as_f32 n = f32_round (of_nat (unat n))"

definition probe_rate :: "probe_state \<Rightarrow> rat" where
  "probe_rate st =
    (if pr_sent st = 0 then 0
     else f32_round (f32_round (u32_as_f32 (pr_hit st) / u32_as_f32 (pr_sent st)) * 100))"

definition evaluate :: "server_probe_policy \<Rightarrow> probe_state \<Rightarrow> probe_state" where
  "evaluate policy st =
    st\<lparr>pr_status := (if pp_min_hit_rate_pct policy \<le> probe_rate st then Approved else Rejected)\<rparr>"

definition rollback_probe_dispatch ::
  "byte_string \<Rightarrow> server_id \<Rightarrow> work_tag \<Rightarrow> work_tag set \<Rightarrow> probe_tracker \<Rightarrow>
    bool \<times> work_tag set \<times> probe_tracker" where
  "rollback_probe_dispatch job sid tag tags tracker =
    (if tag \<notin> tags then (False, tags, tracker)
     else
       let key = (job, sid) in
       (True, tags - {tag},
        case tracker key of
          None \<Rightarrow> tracker
        | Some st \<Rightarrow>
            (let st1 = st\<lparr>pr_sent := sat_sub (pr_sent st) 1\<rparr> in
             if pr_sent st1 = 0 \<and> pr_returned st1 = 0 \<and> pr_hit st1 = 0
             then tracker(key := None) else tracker(key \<mapsto> st1))))"

definition update_probe_on_result ::
  "work_tag \<Rightarrow> byte_string \<Rightarrow> server_id \<Rightarrow> bool \<Rightarrow> server_probe_policy \<Rightarrow> work_tag set \<Rightarrow> probe_tracker \<Rightarrow>
    work_tag set \<times> probe_tracker" where
  "update_probe_on_result tag job sid success policy tags tracker =
    (if tag \<notin> tags then (tags, tracker)
     else
       let key = (job, sid) in
       (tags - {tag},
        case tracker key of
          None \<Rightarrow> tracker
        | Some st \<Rightarrow>
            (let st1 = st\<lparr>pr_returned := pr_returned st + 1\<rparr>;
                 st2 = (if success then st1\<lparr>pr_hit := pr_hit st1 + 1\<rparr> else st1);
                 batch_complete =
                   (pp_probe_count policy \<le> pr_returned st2 \<or>
                    (pr_sent st2 \<le> pr_returned st2 \<and> pp_probe_count policy \<le> pr_sent st2))
             in tracker(key \<mapsto> (if batch_complete \<and> pr_status st2 = Probing
                                then evaluate policy st2 else st2)))))"

section \<open>Lemmas and properties\<close>

text \<open>The second disjunct of \<open>batch_complete\<close> adds nothing.\<close>

lemma batch_complete_iff:
  "(c \<le> r \<or> (s \<le> r \<and> c \<le> s)) = (c \<le> (r::u32))"
  by auto

text \<open>The verdict falls with the \<open>probe_count\<close>-th result and not before: an outstanding probe's result
  moves a \<open>Probing\<close> entry out of \<open>Probing\<close> exactly when the results, this one included, have
  reached \<open>probe_count\<close>; in particular a job whose articles run out before \<open>probe_count\<close>
  probes were sent leaves the server in \<open>Probing\<close>.\<close>

theorem probe_verdict_timing:
  assumes "tag \<in> tags" "tracker (job, sid) = Some st" "pr_status st = Probing"
    and "unat (pr_returned st) + 1 < 2 ^ 32"
  shows "\<exists>st'. snd (update_probe_on_result tag job sid ok policy tags tracker) (job, sid) = Some st' \<and>
    (pr_status st' \<noteq> Probing \<longleftrightarrow> unat (pp_probe_count policy) \<le> unat (pr_returned st) + 1)"
proof -
  have "unat (pr_returned st + 1) = unat (pr_returned st) + 1"
    using assms(4) by (subst unat_word_ariths) simp
  then show ?thesis using assms(1-3)
    by (simp add: update_probe_on_result_def Let_def batch_complete_iff evaluate_def word_le_nat_alt)
qed

theorem probe_verdict_timing_witness:
  "\<exists>st'. snd (update_probe_on_result 1 ''j'' ''s'' True probe_policy_default {1}
      [(''j'', ''s'') \<mapsto> \<lparr>pr_sent = 1, pr_returned = 0, pr_hit = 0, pr_status = Probing\<rparr>]) (''j'', ''s'') = Some st' \<and>
    (pr_status st' \<noteq> Probing \<longleftrightarrow> unat (pp_probe_count probe_policy_default) \<le> 1)"
  using probe_verdict_timing [of 1 "{1}" "[(''j'', ''s'') \<mapsto> \<lparr>pr_sent = 1, pr_returned = 0, pr_hit = 0, pr_status = Probing\<rparr>]"
      "''j''" "''s''" "\<lparr>pr_sent = 1, pr_returned = 0, pr_hit = 0, pr_status = Probing\<rparr>" True probe_policy_default]
  by simp

text \<open>The single precision values a batch of ten can produce.\<close>

lemma f32_round_units:
  "f32_round 1 = 1"
  "f32_round 2 = 2"
  "f32_round 3 = 3"
  "f32_round 4 = 4"
  "f32_round 5 = 5"
  "f32_round 6 = 6"
  "f32_round 7 = 7"
  "f32_round 8 = 8"
  "f32_round 9 = 9"
  "f32_round 10 = 10"
  using f32_roundI [of "-23" "1" "8388608"]
    f32_roundI [of "-22" "2" "8388608"]
    f32_roundI [of "-22" "3" "12582912"]
    f32_roundI [of "-21" "4" "8388608"]
    f32_roundI [of "-21" "5" "10485760"]
    f32_roundI [of "-21" "6" "12582912"]
    f32_roundI [of "-21" "7" "14680064"]
    f32_roundI [of "-20" "8" "8388608"]
    f32_roundI [of "-20" "9" "9437184"]
    f32_roundI [of "-20" "10" "10485760"]
  by (simp_all add: pow2_def)

lemma f32_round_tenths:
  "f32_round (1/10) = 13421773/134217728"
  "f32_round (1/5) = 13421773/67108864"
  "f32_round (3/10) = 5033165/16777216"
  "f32_round (2/5) = 13421773/33554432"
  "f32_round (1/2) = 1/2"
  "f32_round (3/5) = 5033165/8388608"
  "f32_round (7/10) = 11744051/16777216"
  "f32_round (4/5) = 13421773/16777216"
  "f32_round (9/10) = 7549747/8388608"
  using f32_roundI [of "-27" "1/10" "13421773"]
    f32_roundI [of "-26" "1/5" "13421773"]
    f32_roundI [of "-25" "3/10" "10066330"]
    f32_roundI [of "-25" "2/5" "13421773"]
    f32_roundI [of "-24" "1/2" "8388608"]
    f32_roundI [of "-24" "3/5" "10066330"]
    f32_roundI [of "-24" "7/10" "11744051"]
    f32_roundI [of "-24" "4/5" "13421773"]
    f32_roundI [of "-24" "9/10" "15099494"]
  by (simp_all add: pow2_def)

lemma f32_round_percents:
  "f32_round (335544325/33554432) = 10"
  "f32_round (335544325/16777216) = 20"
  "f32_round (125829125/4194304) = 15728641/524288"
  "f32_round (335544325/8388608) = 40"
  "f32_round (50) = 50"
  "f32_round (125829125/2097152) = 15728641/262144"
  "f32_round (293601275/4194304) = 70"
  "f32_round (335544325/4194304) = 80"
  "f32_round (188743675/2097152) = 90"
  "f32_round (100) = 100"
  using f32_roundI [of "-20" "335544325/33554432" "10485760"]
    f32_roundI [of "-19" "335544325/16777216" "10485760"]
    f32_roundI [of "-19" "125829125/4194304" "15728641"]
    f32_roundI [of "-18" "335544325/8388608" "10485760"]
    f32_roundI [of "-18" "50" "13107200"]
    f32_roundI [of "-18" "125829125/2097152" "15728641"]
    f32_roundI [of "-17" "293601275/4194304" "9175040"]
    f32_roundI [of "-17" "335544325/4194304" "10485760"]
    f32_roundI [of "-17" "188743675/2097152" "11796480"]
    f32_roundI [of "-17" "100" "13107200"]
  by (simp_all add: pow2_def)

text \<open>Rounding does no harm to the default policy: with ten probes sent, one hit or more is
  approved and none is rejected, although the rate is computed in single precision.\<close>

theorem default_policy_verdict:
  "map (\<lambda>k. pr_status (evaluate probe_policy_default
      \<lparr>pr_sent = 10, pr_returned = 10, pr_hit = k, pr_status = Probing\<rparr>)) [0, 1, 2, 3, 4, 5, 6, 7, 8, 9, 10]
   = [Rejected, Approved, Approved, Approved, Approved, Approved, Approved, Approved, Approved, Approved, Approved]"
  by (simp add: evaluate_def probe_policy_default_def probe_rate_def u32_as_f32_def
      f32_round_units f32_round_tenths f32_round_percents)

text \<open>Recording a probe, as \<open>dispatch_pending\<close> does for an article it routes.\<close>

definition dispatch_probe ::
  "probe_key \<Rightarrow> work_tag \<Rightarrow> work_tag set \<Rightarrow> probe_tracker \<Rightarrow> work_tag set \<times> probe_tracker" where
  "dispatch_probe key tag tags tracker =
    (insert tag tags,
     tracker(key \<mapsto> (let st = (case tracker key of None \<Rightarrow> probe_state_new | Some st \<Rightarrow> st)
                      in st\<lparr>pr_sent := pr_sent st + 1\<rparr>)))"

lemma sat_sub_plus1: "unat (n::u32) + 1 < 2 ^ 32 \<Longrightarrow> sat_sub (n + 1) 1 = n"
  by (auto simp: sat_sub_def word_less_nat_alt unat_word_ariths)

lemma plus1_nonzero: "unat (n::u32) + 1 < 2 ^ 32 \<Longrightarrow> n + 1 \<noteq> 0"
proof (rule notI)
  assume b: "unat n + 1 < 2 ^ 32" and "n + 1 = 0"
  then have "unat (n + 1) = 0" by simp
  with b show False by (subst (asm) unat_word_ariths) simp
qed

text \<open>A probe that never ran leaves no trace: recording a probe for a job and server and rolling it
  back restores the tracker and the tag set, the state of every other job and server included.\<close>

theorem probe_rollback_roundtrip:
  assumes "tag \<notin> tags"
    and "tracker (job, sid) = None \<or>
      (\<exists>st. tracker (job, sid) = Some st \<and> unat (pr_sent st) + 1 < 2 ^ 32 \<and>
        (pr_sent st \<noteq> 0 \<or> pr_returned st \<noteq> 0 \<or> pr_hit st \<noteq> 0))"
  shows "(case dispatch_probe (job, sid) tag tags tracker of (tags1, tracker1) \<Rightarrow>
      rollback_probe_dispatch job sid tag tags1 tracker1) = (True, tags, tracker)"
  using assms
  by (auto simp: dispatch_probe_def rollback_probe_dispatch_def Let_def sat_sub_plus1 probe_state_new_def
      fun_upd_idem sat_sub_def plus1_nonzero split: option.splits)

theorem probe_rollback_roundtrip_witness:
  "(case dispatch_probe (''j'', ''s'') 3 {1} [(''j'', ''t'') \<mapsto> probe_state_new] of (tags1, tracker1) \<Rightarrow>
      rollback_probe_dispatch ''j'' ''s'' 3 tags1 tracker1) = (True, {1}, [(''j'', ''t'') \<mapsto> probe_state_new])"
  by (rule probe_rollback_roundtrip) simp_all

end
