(* ===== verification/News_Supervisor.thy ===== *)
theory News_Supervisor
  imports News_Probe
begin

text \<open>
  The per-server supervisor and the spawning of wrapper workers (\<open>ServerSupervisor\<close>,
  \<open>spawn_server_wrappers\<close> of \<open>crates/nzb-news/src/downloader.rs\<close>).  A supervisor refers to its server and
  its queue by index.  A spawned task is the wrapper it owns.
\<close>

definition SUPERVISOR_INITIAL_COOLDOWN :: millis where "SUPERVISOR_INITIAL_COOLDOWN = 30000"
definition SUPERVISOR_MAX_COOLDOWN :: millis where "SUPERVISOR_MAX_COOLDOWN = 600000"
definition SUPERVISOR_HEALTHY_RESET :: millis where "SUPERVISOR_HEALTHY_RESET = 300000"

record supervisor =
  su_server :: nat
  su_queue :: nat
  su_next_respawn_at :: "millis option"
  su_consecutive_offline :: u32
  su_last_healthy_at :: millis

definition supervisor_new :: "millis \<Rightarrow> nat \<Rightarrow> nat \<Rightarrow> supervisor" where
  "supervisor_new now s q =
    \<lparr>su_server = s, su_queue = q, su_next_respawn_at = None, su_consecutive_offline = 0,
     su_last_healthy_at = now\<rparr>"

text \<open>\<open>INITIAL.saturating_mul(1 << steps)\<close>, with \<open>steps\<close> at most 6, is far from the limit of a duration.\<close>

definition schedule_respawn :: "millis \<Rightarrow> supervisor \<Rightarrow> supervisor" where
  "schedule_respawn now sv =
    (let n = sat_add (su_consecutive_offline sv) 1;
         steps = min (sat_sub n 1) 6;
         cooldown = min (SUPERVISOR_INITIAL_COOLDOWN * 2 ^ unat steps) SUPERVISOR_MAX_COOLDOWN
     in sv\<lparr>su_consecutive_offline := n, su_next_respawn_at := Some (now + cooldown)\<rparr>)"

definition note_success :: "millis \<Rightarrow> supervisor \<Rightarrow> supervisor" where
  "note_success now sv =
    (if SUPERVISOR_HEALTHY_RESET \<le> now - su_last_healthy_at sv \<and> 0 < su_consecutive_offline sv
     then sv\<lparr>su_consecutive_offline := 0\<rparr> else sv)\<lparr>su_last_healthy_at := now\<rparr>"

fun spawn_loop :: "millis \<Rightarrow> u32 \<Rightarrow> nat \<Rightarrow> nat \<Rightarrow> server \<Rightarrow> news_wrapper list \<times> server" where
  "spawn_loop now id_offset i 0 s = ([], s)"
| "spawn_loop now id_offset i (Suc k) s =
     (let w = wrapper_new now (sv_id s) (id_offset + of_nat i);
          s1 = snd (register_wrapper s)
      in case spawn_loop now id_offset (Suc i) k s1 of (ws, s2) \<Rightarrow> (w # ws, s2))"

definition spawn_server_wrappers :: "millis \<Rightarrow> u16 \<Rightarrow> u32 \<Rightarrow> server \<Rightarrow> news_wrapper list \<times> server" where
  "spawn_server_wrappers now cnt id_offset s = spawn_loop now id_offset 0 (unat cnt) s"

section \<open>Lemmas\<close>

lemma register_wrapper_frame [simp, frame_simps]:
  "sv_config (snd (register_wrapper s)) = sv_config s" "sv_active (snd (register_wrapper s)) = sv_active s"
  "sv_id (snd (register_wrapper s)) = sv_id s" "stats (snd (register_wrapper s)) = stats s"
  by (simp_all add: register_wrapper_def sv_id_def stats_def)

lemma spawn_loop_all:
  "fst (spawn_loop now off i k s) = map (\<lambda>m. wrapper_new now (sv_id s) (off + of_nat m)) [i..<i + k] \<and>
   sv_active_wrappers (snd (spawn_loop now off i k s)) = sv_active_wrappers s + of_nat k \<and>
   sv_config (snd (spawn_loop now off i k s)) = sv_config s \<and>
   sv_active (snd (spawn_loop now off i k s)) = sv_active s \<and>
   stats (snd (spawn_loop now off i k s)) = stats s"
proof (induction k arbitrary: i s)
  case (Suc k)
  let ?s1 = "snd (register_wrapper s)"
  obtain ws s2 where p: "spawn_loop now off (Suc i) k ?s1 = (ws, s2)"
    by (cases "spawn_loop now off (Suc i) k ?s1")
  have u: "[i..<Suc (i + k)] = i # [Suc i..<Suc (i + k)]" by (simp add: upt_conv_Cons del: upt_Suc)
  have "sv_active_wrappers ?s1 = sv_active_wrappers s + 1" by (simp add: register_wrapper_def)
  then show ?case
    using Suc.IH [of "Suc i" ?s1] by (simp add: u p Let_def add.assoc del: upt_Suc)
qed simp

lemmas spawn_loop_spec =
  spawn_loop_all [THEN conjunct1]
  spawn_loop_all [THEN conjunct2, THEN conjunct1]
  spawn_loop_all [THEN conjunct2, THEN conjunct2, THEN conjunct1]
  spawn_loop_all [THEN conjunct2, THEN conjunct2, THEN conjunct2, THEN conjunct1]
  spawn_loop_all [THEN conjunct2, THEN conjunct2, THEN conjunct2, THEN conjunct2]

lemma spawn_server_wrappers_spec [simp]:
  "sv_active_wrappers (snd (spawn_server_wrappers now c off s)) = sv_active_wrappers s + of_nat (unat c)"
  "sv_config (snd (spawn_server_wrappers now c off s)) = sv_config s"
  "sv_active (snd (spawn_server_wrappers now c off s)) = sv_active s"
  "stats (snd (spawn_server_wrappers now c off s)) = stats s"
  "length (fst (spawn_server_wrappers now c off s)) = unat c"
  by (simp_all add: spawn_server_wrappers_def spawn_loop_spec)

text \<open>A run of outages, with no success in between.\<close>

fun outages :: "millis list \<Rightarrow> supervisor \<Rightarrow> supervisor" where
  "outages [] sv = sv"
| "outages (t # ts) sv = outages ts (schedule_respawn t sv)"

lemma outages_append: "outages (ts @ us) sv = outages us (outages ts sv)"
  by (induction ts arbitrary: sv) auto

lemma schedule_respawn_offline:
  "su_consecutive_offline (schedule_respawn t sv) = sat_add (su_consecutive_offline sv) 1"
  by (simp add: schedule_respawn_def Let_def)

lemma outages_offline:
  "unat (su_consecutive_offline sv) + length ts < 2 ^ 32 \<Longrightarrow>
    unat (su_consecutive_offline (outages ts sv)) = unat (su_consecutive_offline sv) + length ts"
proof (induction ts arbitrary: sv)
  case (Cons t ts)
  have "unat (su_consecutive_offline (schedule_respawn t sv)) = Suc (unat (su_consecutive_offline sv))"
    using Cons.prems by (simp add: schedule_respawn_offline unat_sat_add)
  with Cons.IH [of "schedule_respawn t sv"] Cons.prems show ?case by simp
qed simp

lemma backoff_steps: "min (30000 * 2 ^ min n 6) 600000 = min (30000 * 2 ^ n) (600000::nat)"
proof (cases "n \<le> 6")
  case False
  then have "(2::nat) ^ 6 \<le> 2 ^ n" by (intro power_increasing) auto
  with False show ?thesis by simp
qed simp

lemma schedule_respawn_at:
  "su_next_respawn_at (schedule_respawn t sv) =
    Some (t + min (30000 * 2 ^ (unat (sat_add (su_consecutive_offline sv) 1) - 1)) 600000)"
proof -
  have "unat (min a (6::u32)) = min (unat a) 6" for a
    by (auto simp: min_def word_le_nat_alt)
  then show ?thesis
    by (simp add: schedule_respawn_def Let_def SUPERVISOR_INITIAL_COOLDOWN_def
        SUPERVISOR_MAX_COOLDOWN_def unat_sat_sub backoff_steps)
qed

section \<open>Properties\<close>

text \<open>Exponential backoff: the respawn scheduled by the \<open>n\<close>-th outage in a row comes \<open>30 s * 2 ^ (n - 1)\<close>
  after it, but never more than ten minutes after it, and the first success after five healthy
  minutes starts over from the beginning.\<close>

theorem supervisor_backoff:
  assumes "length ts < 2 ^ 32 - 1"
  shows "su_next_respawn_at (outages (ts @ [t]) (supervisor_new now s q)) =
      Some (t + min (30000 * 2 ^ length ts) 600000) \<and>
    (let sv = outages (ts @ [t]) (supervisor_new now s q) in
     su_consecutive_offline (note_success (su_last_healthy_at sv + 300000) sv) = 0)"
proof -
  have "unat (su_consecutive_offline (outages ts (supervisor_new now s q))) = length ts"
    using outages_offline [of "supervisor_new now s q" ts] assms by (simp add: supervisor_new_def)
  then have "unat (sat_add (su_consecutive_offline (outages ts (supervisor_new now s q))) 1) = Suc (length ts)"
    using assms by (simp add: unat_sat_add)
  then show ?thesis
    by (simp add: outages_append schedule_respawn_at note_success_def SUPERVISOR_HEALTHY_RESET_def Let_def)
      (simp add: word_less_nat_alt unsigned_eq_0_iff)
qed

theorem supervisor_backoff_witness:
  "su_next_respawn_at (outages ([10, 20, 30] @ [40]) (supervisor_new 0 1 1)) = Some 240040"
  using supervisor_backoff [of "[10, 20, 30]" 40 0 1 1] by simp

text \<open>Respawning: the workers spawned are \<open>count\<close> fresh, disconnected wrappers with consecutive numbers,
  and every one of them is counted on the server before it runs.\<close>

theorem spawn_registers_every_worker:
  "map nw_id (fst (spawn_server_wrappers now c off s)) = map (\<lambda>m. off + of_nat m) [0..<unat c] \<and>
   list_all (\<lambda>w. nw_conn w = None \<and> nw_server_id w = sv_id s) (fst (spawn_server_wrappers now c off s)) \<and>
   sv_active_wrappers (snd (spawn_server_wrappers now c off s)) =
     sv_active_wrappers s + of_nat (length (fst (spawn_server_wrappers now c off s)))"
  by (simp add: spawn_server_wrappers_def spawn_loop_spec wrapper_new_def list_all_iff)

end
