(* ===== verification/News_Scheduler.thy ===== *)
theory News_Scheduler
  imports News_Supervisor
begin

text \<open>
  The scheduler task (\<open>scheduler_loop\<close> and the functions it calls, \<open>crates/nzb-news/src/downloader.rs\<close>): its
  local state together with the servers, queues and shared objects it mutates.  An \<open>Arc<Server>\<close>
  is an index into \<open>sd_servers\<close>; queues, caps and supervisors are parallel lists, as in the
  code.  Outcomes are logged in the order they are sent.  The dispatch pass is a
  loop that need not end, so it runs under \<open>run_loop\<close>; every round reads the clock anew.
\<close>

section \<open>State and messages\<close>

datatype scheduler_msg =
    FetchResult work_item nat "nntp_error + byte_string"
  | ReturnUnattempted "work_item list" nat byte_string
  | AllWrappersExited server_id

datatype control_msg = PauseJob byte_string | ResumeJob byte_string | PurgeJob byte_string

record sched =
  sd_servers :: "server list"
  sd_queues :: "server_queue list"
  sd_cap :: "nat list"
  sd_heap :: heap
  sd_pending :: "work_item list"
  sd_retry :: "millis option"
  sd_outcomes :: "fetch_outcome list"
  sd_policy :: "server_probe_policy option"
  sd_tracker :: probe_tracker
  sd_tags :: "work_tag set"
  sd_paused :: "byte_string set"
  sd_paused_shared :: "byte_string set"
  sd_supervisors :: "supervisor list"

definition per_server_cap :: "server_config \<Rightarrow> nat" where
  "per_server_cap cfg = max (unat (sc_connections cfg) * unat (max (sc_pipelining cfg) 1) * 2) 8"

definition sched_start :: "millis \<Rightarrow> server_probe_policy option \<Rightarrow> heap \<Rightarrow> server list \<Rightarrow> sched" where
  "sched_start now policy h servers =
    \<lparr>sd_servers = servers, sd_queues = map queue_new [0..<length servers],
     sd_cap = map (\<lambda>s. per_server_cap (sv_config s)) servers, sd_heap = h, sd_pending = [], sd_retry = None,
     sd_outcomes = [], sd_policy = policy, sd_tracker = Map.empty, sd_tags = {}, sd_paused = {},
     sd_paused_shared = {}, sd_supervisors = map (\<lambda>i. supervisor_new now i i) [0..<length servers]\<rparr>"

definition send_outcome :: "fetch_outcome \<Rightarrow> sched \<Rightarrow> sched" where
  "send_outcome out sd = sd\<lparr>sd_outcomes := sd_outcomes sd @ [out]\<rparr>"

definition upd_server :: "nat \<Rightarrow> (server \<Rightarrow> server) \<Rightarrow> sched \<Rightarrow> sched" where
  "upd_server i f sd = sd\<lparr>sd_servers := (sd_servers sd)[i := f (sd_servers sd ! i)]\<rparr>"

definition upd_heap :: "(heap \<Rightarrow> heap) \<Rightarrow> sched \<Rightarrow> sched" where
  "upd_heap f sd = sd\<lparr>sd_heap := f (sd_heap sd)\<rparr>"

definition push_pending :: "work_item list \<Rightarrow> sched \<Rightarrow> sched" where
  "push_pending its sd = sd\<lparr>sd_pending := sd_pending sd @ its\<rparr>"

definition bump_retry :: "millis \<Rightarrow> millis \<Rightarrow> sched \<Rightarrow> sched" where
  "bump_retry now d sd = sd\<lparr>sd_retry := keep_min (sd_retry sd) (now + d)\<rparr>"

definition item_article :: "sched \<Rightarrow> work_item \<Rightarrow> article" where
  "item_article sd it = h_art (sd_heap sd) (wi_article it)"

definition item_select :: "millis \<Rightarrow> work_item \<Rightarrow> sched \<Rightarrow> selection \<times> sched" where
  "item_select now it sd =
    (case select_server now (item_article sd it) (h_file (sd_heap sd) (wi_file it))
            (h_job (sd_heap sd) (wi_job it)) (sd_servers sd) of
       (sel, servers1) \<Rightarrow> (sel, sd\<lparr>sd_servers := servers1\<rparr>))"

section \<open>Dispatch\<close>

record dispatch =
  dp_sched :: sched
  dp_i :: nat
  dp_per_server :: "work_item list list"
  dp_give_ups :: "work_item list"
  dp_round :: nat

definition load_of :: "dispatch \<Rightarrow> nat \<Rightarrow> nat" where
  "load_of d j = queue_depth (sd_queues (dp_sched d) ! j) + length (dp_per_server d ! j)"

text \<open>
  Load balancing of fresh articles within the selected tier; asking the tier's servers about
  their penalty clears expired windows.
\<close>

definition load_balance :: "millis \<Rightarrow> nat \<Rightarrow> work_item \<Rightarrow> dispatch \<Rightarrow> nat \<times> dispatch" where
  "load_balance now idx it d =
    (let sd = dp_sched d; servers = sd_servers sd in
     if tl_is_empty (art_try_list (item_article sd it)) then
       let tier = sv_priority (servers ! idx);
           in_tier = (\<lambda>s. sv_priority s = tier \<and> sv_active s);
           choices = filter (\<lambda>j. in_tier (servers ! j) \<and> \<not> fst (is_penalised now (servers ! j)) \<and>
                          load_of d j < sd_cap sd ! j) [0..<length servers];
           score = (\<lambda>j. (load_of d j + 1) * 1000 div unat (max (sv_connections (servers ! j)) 1));
           servers1 = map (\<lambda>s. if in_tier s then snd (is_penalised now s) else s) servers
       in (case min_by_key score choices of Some j \<Rightarrow> j | None \<Rightarrow> idx,
           d\<lparr>dp_sched := sd\<lparr>sd_servers := servers1\<rparr>\<rparr>)
     else (idx, d))"

datatype gate = GateRejected | GateWait | GatePass bool

definition probe_gate :: "nat \<Rightarrow> work_item \<Rightarrow> sched \<Rightarrow> gate \<times> sched" where
  "probe_gate idx it sd =
    (case sd_policy sd of
       None \<Rightarrow> (GatePass False, sd)
     | Some policy \<Rightarrow>
         if tl_is_empty (art_try_list (item_article sd it)) then (GatePass False, sd)
         else
           let key = (item_job_id (sd_heap sd) it, sv_id (sd_servers sd ! idx));
               st = (case sd_tracker sd key of Some st \<Rightarrow> st | None \<Rightarrow> probe_state_new);
               sd1 = sd\<lparr>sd_tracker := (sd_tracker sd)(key \<mapsto> st)\<rparr>
           in (case pr_status st of
                 Rejected \<Rightarrow> (GateRejected, sd1)
               | Approved \<Rightarrow> (GatePass False, sd1)
               | Probing \<Rightarrow>
                   if pr_sent st < pp_probe_count policy
                   then (GatePass True,
                         sd1\<lparr>sd_tracker := (sd_tracker sd1)(key \<mapsto> st\<lparr>pr_sent := pr_sent st + 1\<rparr>)\<rparr>)
                   else (GateWait, sd1)))"

definition dp_advance :: "dispatch \<Rightarrow> dispatch" where
  "dp_advance d = d\<lparr>dp_i := dp_i d + 1\<rparr>"

definition dp_upd :: "(sched \<Rightarrow> sched) \<Rightarrow> dispatch \<Rightarrow> dispatch" where
  "dp_upd f d = d\<lparr>dp_sched := f (dp_sched d)\<rparr>"

text \<open>The arm \<open>Selection::Server\<close>: balance, gate, cap, route.\<close>

definition dispatch_to :: "millis \<Rightarrow> nat \<Rightarrow> work_item \<Rightarrow> dispatch \<Rightarrow> dispatch" where
  "dispatch_to now target it d0 =
    (case load_balance now target it d0 of (idx, d1) \<Rightarrow>
     case probe_gate idx it (dp_sched d1) of (g, sd1) \<Rightarrow>
       let d2 = d1\<lparr>dp_sched := sd1\<rparr>; server = sd_servers sd1 ! idx in
       (case g of
          GateRejected \<Rightarrow>
            dp_upd (upd_heap (upd_art (wi_article it) (art_mark_server_tried (sv_id server)))) d2
        | GateWait \<Rightarrow> dp_advance (dp_upd (bump_retry now 50) d2)
        | GatePass is_probe \<Rightarrow>
            if sd_cap sd1 ! idx \<le> load_of d2 idx
            then dp_advance (dp_upd (bump_retry now 25) d2)
            else
              (dp_upd (\<lambda>sd. upd_heap (upd_art (wi_article it) (art_set_fetcher_priority (sv_priority server)))
                  (sd\<lparr>sd_pending := swap_remove (dp_i d2) (sd_pending sd),
                      sd_tags := (if is_probe then insert (wi_tag it) (sd_tags sd) else sd_tags sd)\<rparr>)) d2)
              \<lparr>dp_per_server := (dp_per_server d2)[idx := dp_per_server d2 ! idx @ [it]]\<rparr>))"

text \<open>The arms of the match on the selection, and one round of the first pass.\<close>

fun dispatch_arm :: "millis \<Rightarrow> work_item \<Rightarrow> selection \<Rightarrow> dispatch \<Rightarrow> dispatch" where
  "dispatch_arm now it (Server target) d = dispatch_to now target it d"
| "dispatch_arm now it (WaitRampup w) d = dp_advance (dp_upd (bump_retry now w) d)"
| "dispatch_arm now it CascadeReset d =
     dp_upd (upd_heap (cascade_reset (wi_article it) (wi_file it) (wi_job it))) d"
| "dispatch_arm now it GiveUp d =
     (dp_upd (\<lambda>sd. upd_heap (record_article_given_up (wi_file it) (wi_job it))
        (sd\<lparr>sd_pending := swap_remove (dp_i d) (sd_pending sd)\<rparr>)) d)
     \<lparr>dp_give_ups := dp_give_ups d @ [it]\<rparr>"

definition dispatch_body :: "(nat \<Rightarrow> millis) \<Rightarrow> dispatch \<Rightarrow> dispatch + dispatch" where
  "dispatch_body clk d =
    (let sd = dp_sched d; i = dp_i d in
     if length (sd_pending sd) \<le> i then Inr d
     else
       let it = sd_pending sd ! i; now = clk (dp_round d); d1 = d\<lparr>dp_round := dp_round d + 1\<rparr> in
       if sd_paused sd \<noteq> {} \<and> item_job_id (sd_heap sd) it \<in> sd_paused sd then Inl (dp_advance d1)
       else
         (case item_select now it sd of
            (sel, sd1) \<Rightarrow> Inl (dispatch_arm now it sel (d1\<lparr>dp_sched := sd1\<rparr>))))"

definition dispatch_start :: "sched \<Rightarrow> dispatch" where
  "dispatch_start sd =
    \<lparr>dp_sched = sd, dp_i = 0, dp_per_server = replicate (length (sd_servers sd)) [], dp_give_ups = [],
     dp_round = 0\<rparr>"

definition failed_outcome :: "heap \<Rightarrow> work_item \<Rightarrow> fetch_outcome" where
  "failed_outcome h it =
    (let a = h_art h (wi_article it) in
     Failed (wi_tag it) (Some (''all servers exhausted for '' @ art_message_id a)) True
       (art_explicit_not_found_servers a))"

text \<open>Second pass: one push per queue, then the outcomes of the articles given up.\<close>

definition dispatch_finish :: "dispatch \<Rightarrow> sched" where
  "dispatch_finish d =
    (let sd = dp_sched d;
         sd1 = sd\<lparr>sd_queues := map2 push_many (dp_per_server d) (sd_queues sd)\<rparr>
     in fold (\<lambda>it. send_outcome (failed_outcome (sd_heap sd1) it)) (dp_give_ups d) sd1)"

definition dispatch_pending :: "(nat \<Rightarrow> millis) \<Rightarrow> nat \<Rightarrow> sched \<Rightarrow> sched option" where
  "dispatch_pending clk fuel sd =
    map_option dispatch_finish (run_loop (dispatch_body clk) fuel (dispatch_start sd))"

end
