(* ===== verification/News_Loop.thy ===== *)
theory News_Loop
  imports News_Scheduler
begin

text \<open>
  The rest of the scheduler task (\<open>crates/nzb-news/src/downloader.rs\<close>): worker messages
  (\<open>route_scheduler_msg\<close>, \<open>handle_scheduler_msg\<close>), control messages, the respawn timer, shutdown and
  one turn of \<open>scheduler_loop\<close> with its biased \<open>select!\<close>.  A handler reads the clock once.
\<close>

section \<open>Worker messages\<close>

definition update_probe :: "work_item \<Rightarrow> server_id \<Rightarrow> bool \<Rightarrow> sched \<Rightarrow> sched" where
  "update_probe it sid success sd =
    (case sd_policy sd of
       None \<Rightarrow> sd
     | Some policy \<Rightarrow>
         (case update_probe_on_result (wi_tag it) (item_job_id (sd_heap sd) it) sid success policy
                 (sd_tags sd) (sd_tracker sd) of
            (tags, tracker) \<Rightarrow> sd\<lparr>sd_tags := tags, sd_tracker := tracker\<rparr>))"

definition server_id_at :: "sched \<Rightarrow> nat \<Rightarrow> server_id" where
  "server_id_at sd i = sv_id (sd_servers sd ! i)"

definition handle_success :: "work_item \<Rightarrow> nat \<Rightarrow> byte_string \<Rightarrow> sched \<Rightarrow> sched" where
  "handle_success it server bytes sd =
    (let article_bytes = length bytes;
         sd1 = upd_heap (\<lambda>h. upd_file (wi_file it) (\<lambda>f. snd (file_mark_article_completed f))
                 (upd_job (wi_job it) (job_record_article_downloaded article_bytes) h)) sd;
         sd2 = upd_server server record_attempt_success sd1;
         sd3 = update_probe it (server_id_at sd2 server) True sd2
     in send_outcome (Success (wi_tag it) (server_id_at sd3 server) bytes article_bytes) sd3)"

definition note_failure :: "work_item \<Rightarrow> nat \<Rightarrow> nntp_error \<Rightarrow> sched \<Rightarrow> sched" where
  "note_failure it server err sd =
    (let sid = server_id_at sd server in
     if is_not_found err
     then upd_server server record_attempt_not_found
            (upd_heap (upd_art (wi_article it) (art_mark_server_not_found sid)) sd)
     else upd_server server record_attempt_transient_failed
            (upd_heap (upd_art (wi_article it) (\<lambda>a. art_mark_transient_failure (art_mark_server_tried sid a))) sd))"

definition penalise :: "millis \<Rightarrow> nat \<Rightarrow> nntp_error \<Rightarrow> sched \<Rightarrow> sched" where
  "penalise now server err sd =
    (case penalty_for_error err of
       NoPenalty \<Rightarrow> sd
     | Cooldown d \<Rightarrow> upd_server server (apply_penalty now d) sd
     | BadCons d \<Rightarrow> upd_server server (\<lambda>s. snd (register_failure now d s)) sd)"

definition handle_failure :: "millis \<Rightarrow> work_item \<Rightarrow> nat \<Rightarrow> nntp_error \<Rightarrow> sched \<Rightarrow> sched" where
  "handle_failure now it server err sd =
    (let sd1 = note_failure it server err sd;
         sd2 = update_probe it (server_id_at sd1 server) False sd1;
         sd3 = penalise now server err sd2
     in case item_select now it sd3 of (sel, sd4) \<Rightarrow>
          (case sel of
             GiveUp \<Rightarrow>
               let sd5 = upd_heap (record_article_given_up (wi_file it) (wi_job it)) sd4 in
               send_outcome
                 (Failed (wi_tag it) (Some (nntp_error_display err)) True
                   (art_explicit_not_found_servers (item_article sd5 it))) sd5
           | _ \<Rightarrow> push_pending [it] sd4))"

definition return_item :: "nat \<Rightarrow> work_item \<Rightarrow> sched \<Rightarrow> sched" where
  "return_item server it sd =
    (case rollback_probe_dispatch (item_job_id (sd_heap sd) it) (server_id_at sd server) (wi_tag it)
            (sd_tags sd) (sd_tracker sd) of
       (_, tags, tracker) \<Rightarrow>
         push_pending [it]
           (upd_heap (upd_art (wi_article it)
               (\<lambda>a. art_mark_transient_failure (art_mark_server_tried (server_id_at sd server) a)))
             (sd\<lparr>sd_tags := tags, sd_tracker := tracker\<rparr>)))"

fun handle_scheduler_msg :: "millis \<Rightarrow> scheduler_msg \<Rightarrow> sched \<Rightarrow> sched" where
  "handle_scheduler_msg now (AllWrappersExited sid) sd = sd"
| "handle_scheduler_msg now (FetchResult it server result) sd =
     (case result of
        Inr bytes \<Rightarrow> handle_success it server bytes sd
      | Inl err \<Rightarrow> handle_failure now it server err sd)"
| "handle_scheduler_msg now (ReturnUnattempted items server error) sd =
     fold (return_item server) items
       (upd_server server (\<lambda>s. snd (register_failure now DEFAULT_PENALTY s)) sd)"

text \<open>The first supervisor whose server has the given id.\<close>

definition upd_supervisor :: "server_id \<Rightarrow> (supervisor \<Rightarrow> supervisor) \<Rightarrow> sched \<Rightarrow> sched" where
  "upd_supervisor sid f sd =
    (case position (\<lambda>s. server_id_at sd (su_server s) = sid) (sd_supervisors sd) of
       None \<Rightarrow> sd
     | Some i \<Rightarrow> sd\<lparr>sd_supervisors := (sd_supervisors sd)[i := f (sd_supervisors sd ! i)]\<rparr>)"

fun route_scheduler_msg :: "millis \<Rightarrow> scheduler_msg \<Rightarrow> sched \<Rightarrow> sched" where
  "route_scheduler_msg now (AllWrappersExited sid) sd = upd_supervisor sid (schedule_respawn now) sd"
| "route_scheduler_msg now (FetchResult it server result) sd =
     handle_scheduler_msg now (FetchResult it server result)
       (case result of
          Inr _ \<Rightarrow> upd_supervisor (server_id_at sd server) (note_success now) sd
        | Inl _ \<Rightarrow> sd)"
| "route_scheduler_msg now (ReturnUnattempted items server error) sd =
     handle_scheduler_msg now (ReturnUnattempted items server error) sd"

section \<open>Control messages\<close>

text \<open>Draining a job from every queue in turn: what came out, in order.\<close>

definition drain_job_queues :: "byte_string \<Rightarrow> sched \<Rightarrow> work_item list \<times> sched" where
  "drain_job_queues job sd =
    (concat (map (\<lambda>q. fst (drain_job (sd_heap sd) job q)) (sd_queues sd)),
     sd\<lparr>sd_queues := map (\<lambda>q. snd (drain_job (sd_heap sd) job q)) (sd_queues sd)\<rparr>)"

definition send_cancelled :: "work_item list \<Rightarrow> sched \<Rightarrow> sched" where
  "send_cancelled its sd = fold (\<lambda>it. send_outcome (Cancelled (wi_tag it))) its sd"

definition do_pause :: "byte_string \<Rightarrow> sched \<Rightarrow> sched" where
  "do_pause job sd =
    (if job \<in> sd_paused sd then sd
     else
       (case drain_job_queues job (sd\<lparr>sd_paused := insert job (sd_paused sd),
                sd_paused_shared := insert job (sd_paused_shared sd)\<rparr>) of
          (its, sd1) \<Rightarrow> push_pending its sd1))"

definition do_resume :: "byte_string \<Rightarrow> sched \<Rightarrow> sched" where
  "do_resume job sd =
    (if job \<in> sd_paused sd
     then sd\<lparr>sd_paused := sd_paused sd - {job}, sd_paused_shared := sd_paused_shared sd - {job}, sd_retry := None\<rparr>
     else sd)"

text \<open>The arm of the first message of a burst.\<close>

definition purge_first :: "byte_string \<Rightarrow> sched \<Rightarrow> sched" where
  "purge_first job sd =
    (let gone = (\<lambda>it. item_job_id (sd_heap sd) it = job);
         sd1 = (send_cancelled (filter gone (sd_pending sd)) sd)
                 \<lparr>sd_pending := filter (\<lambda>it. \<not> gone it) (sd_pending sd)\<rparr>
     in case drain_job_queues job sd1 of
          (its, sd2) \<Rightarrow>
            let sd3 = send_cancelled its sd2 in
            sd3\<lparr>sd_tracker := (\<lambda>key. if fst key = job then None else sd_tracker sd3 key),
                sd_paused := sd_paused sd3 - {job}, sd_paused_shared := sd_paused_shared sd3 - {job}\<rparr>)"

text \<open>The arm of the later messages of a burst: no outcome for pending articles, probe state kept.\<close>

definition purge_extra :: "byte_string \<Rightarrow> sched \<Rightarrow> sched" where
  "purge_extra job sd =
    (case drain_job_queues job
            (sd\<lparr>sd_pending := filter (\<lambda>it. item_job_id (sd_heap sd) it \<noteq> job) (sd_pending sd)\<rparr>) of
       (its, sd1) \<Rightarrow>
         let sd2 = send_cancelled its sd1 in
         sd2\<lparr>sd_paused := sd_paused sd2 - {job}, sd_paused_shared := sd_paused_shared sd2 - {job}\<rparr>)"

fun control_first :: "control_msg \<Rightarrow> sched \<Rightarrow> sched" where
  "control_first (PauseJob job) sd = do_pause job sd"
| "control_first (ResumeJob job) sd = do_resume job sd"
| "control_first (PurgeJob job) sd = purge_first job sd"

fun control_extra :: "control_msg \<Rightarrow> sched \<Rightarrow> sched" where
  "control_extra (PauseJob job) sd = do_pause job sd"
| "control_extra (ResumeJob job) sd = do_resume job sd"
| "control_extra (PurgeJob job) sd = purge_extra job sd"

fun handle_control :: "control_msg list \<Rightarrow> sched \<Rightarrow> sched" where
  "handle_control [] sd = sd"
| "handle_control (m # burst) sd = fold control_extra burst (control_first m sd)"

section \<open>Respawn\<close>

definition respawn_due :: "millis \<Rightarrow> supervisor \<Rightarrow> bool" where
  "respawn_due now sv = (case su_next_respawn_at sv of Some t \<Rightarrow> t \<le> now | None \<Rightarrow> False)"

text \<open>One supervisor of the list (by position); the new workers are tagged with their server.\<close>

definition respawn_one :: "millis \<Rightarrow> nat \<Rightarrow> sched \<Rightarrow> (nat \<times> news_wrapper) list \<times> sched" where
  "respawn_one now k sd =
    (let sv = sd_supervisors sd ! k; server = sd_servers sd ! su_server sv in
     if \<not> respawn_due now sv then ([], sd)
     else
       let sd1 = sd\<lparr>sd_supervisors := (sd_supervisors sd)[k := sv\<lparr>su_next_respawn_at := None\<rparr>]\<rparr>;
           conns = max (sv_connections server) 1
       in if 0 < sv_active_wrappers server then ([], sd1)
          else
            (case spawn_server_wrappers now conns (1 + sat_mul (su_consecutive_offline sv) 1000) server of
               (ws, server1) \<Rightarrow>
                 (map (\<lambda>w. (su_server sv, w)) ws,
                  (upd_server (su_server sv) (\<lambda>_. server1) sd1)\<lparr>sd_retry := None\<rparr>)))"

fun respawn_from :: "millis \<Rightarrow> nat list \<Rightarrow> sched \<Rightarrow> (nat \<times> news_wrapper) list \<times> sched" where
  "respawn_from now [] sd = ([], sd)"
| "respawn_from now (k # ks) sd =
     (case respawn_one now k sd of (ws, sd1) \<Rightarrow>
        (case respawn_from now ks sd1 of (ws', sd2) \<Rightarrow> (ws @ ws', sd2)))"

definition respawn_tick :: "millis \<Rightarrow> sched \<Rightarrow> (nat \<times> news_wrapper) list \<times> sched" where
  "respawn_tick now sd = respawn_from now [0..<length (sd_supervisors sd)] sd"

section \<open>Shutdown\<close>

definition shutdown_begin :: "sched \<Rightarrow> sched" where
  "shutdown_begin sd =
    (send_cancelled (sd_pending sd) (sd\<lparr>sd_queues := map queue_close (sd_queues sd)\<rparr>))\<lparr>sd_pending := []\<rparr>"

text \<open>The final drain passes a fresh vector as \<open>pending\<close> for each message and drops it.\<close>

definition shutdown_msg :: "millis \<Rightarrow> scheduler_msg \<Rightarrow> sched \<Rightarrow> sched" where
  "shutdown_msg now m sd = (route_scheduler_msg now m (sd\<lparr>sd_pending := []\<rparr>))\<lparr>sd_pending := []\<rparr>"

section \<open>One turn of the loop\<close>

text \<open>What the \<open>select!\<close> can see: channel contents and whether the senders are alive.\<close>

record inputs =
  in_shutdown :: bool
  in_control :: "control_msg list"
  in_control_open :: bool
  in_work :: "work_item list"
  in_work_open :: bool
  in_msgs :: "scheduler_msg list"
  in_retry_due :: bool
  in_respawn_due :: bool

datatype branch = BrShutdown | BrControl | BrWork | BrMsgs | BrRetry | BrRespawn

definition select_branch :: "inputs \<Rightarrow> branch option" where
  "select_branch inp =
    (if in_shutdown inp then Some BrShutdown
     else if in_control inp \<noteq> [] \<or> \<not> in_control_open inp then Some BrControl
     else if in_work inp \<noteq> [] \<or> \<not> in_work_open inp then Some BrWork
     else if in_msgs inp \<noteq> [] then Some BrMsgs
     else if in_retry_due inp then Some BrRetry
     else if in_respawn_due inp then Some BrRespawn
     else None)"

text \<open>
  The selected branch: \<open>Inl\<close> goes round again, \<open>Inr\<close> leaves the loop.  Bursts are drained whole.
  New workers are the second component.
\<close>

definition run_branch ::
  "millis \<Rightarrow> branch \<Rightarrow> inputs \<Rightarrow> sched \<Rightarrow> ((inputs \<times> sched) + sched) \<times> (nat \<times> news_wrapper) list" where
  "run_branch now br inp sd =
    (case br of
       BrShutdown \<Rightarrow> (Inr sd, [])
     | BrControl \<Rightarrow> (Inl (inp\<lparr>in_control := []\<rparr>, handle_control (in_control inp) sd), [])
     | BrWork \<Rightarrow>
         (case in_work inp of
            [] \<Rightarrow> (if sd_pending sd = [] then Inr sd else Inl (inp, sd), [])
          | _ \<Rightarrow> (Inl (inp\<lparr>in_work := []\<rparr>, push_pending (in_work inp) sd), []))
     | BrMsgs \<Rightarrow> (Inl (inp\<lparr>in_msgs := []\<rparr>, fold (route_scheduler_msg now) (in_msgs inp) sd), [])
     | BrRetry \<Rightarrow> (Inl (inp\<lparr>in_retry_due := False\<rparr>, sd\<lparr>sd_retry := None\<rparr>), [])
     | BrRespawn \<Rightarrow> (case respawn_tick now sd of
                       (ws, sd1) \<Rightarrow> (Inl (inp\<lparr>in_respawn_due := False\<rparr>, sd1), ws)))"

definition scheduler_turn ::
  "(nat \<Rightarrow> millis) \<Rightarrow> nat \<Rightarrow> millis \<Rightarrow> inputs \<Rightarrow> sched \<Rightarrow>
    (((inputs \<times> sched) + sched) \<times> (nat \<times> news_wrapper) list) option" where
  "scheduler_turn clk fuel now inp sd =
    (case dispatch_pending clk fuel sd of
       None \<Rightarrow> None
     | Some sd1 \<Rightarrow>
         Some (case select_branch inp of
                 None \<Rightarrow> (Inl (inp, sd1), [])
               | Some br \<Rightarrow> run_branch now br inp sd1))"

end
