(* ===== verification/Pipeline.thy ===== *)
theory Pipeline
  imports Nntp_Conn
begin

text \<open>
  Request pipelining (\<open>crates/nzb-nntp/src/pipeline.rs\<close>): \<open>Pipeline\<close> keeps up to \<open>depth\<close>
  ARTICLE commands on the wire and pairs each reply with the oldest outstanding request;
  \<open>StatPipeline\<close> does the same for STAT in batches of 100.
\<close>

record pipeline_request =
  pr_message_id :: byte_string
  pr_tag :: nat

record pipeline_result =
  pres_request :: pipeline_request
  pres_result :: "nntp_error + nntp_response"

record pipeline =
  pl_depth :: nat
  pl_in_flight :: "pipeline_request list"
  pl_pending :: "pipeline_request list"

definition pipeline_new :: "u8 \<Rightarrow> pipeline" where
  "pipeline_new depth = \<lparr>pl_depth = max (unat depth) 1, pl_in_flight = [], pl_pending = []\<rparr>"

definition pipeline_submit :: "byte_string \<Rightarrow> nat \<Rightarrow> pipeline \<Rightarrow> pipeline" where
  "pipeline_submit mid tag p =
    p\<lparr>pl_pending := pl_pending p @ [\<lparr>pr_message_id = mid, pr_tag = tag\<rparr>]\<rparr>"

definition pipeline_in_flight_count :: "pipeline \<Rightarrow> nat" where
  "pipeline_in_flight_count p = length (pl_in_flight p)"

definition pipeline_pending_count :: "pipeline \<Rightarrow> nat" where
  "pipeline_pending_count p = length (pl_pending p)"

definition pipeline_is_empty :: "pipeline \<Rightarrow> bool" where
  "pipeline_is_empty p \<longleftrightarrow> pl_in_flight p = [] \<and> pl_pending p = []"

section \<open>Sending\<close>

definition article_command :: "pipeline_request \<Rightarrow> byte_string" where
  "article_command req =
    ''ARTICLE '' @
      (if starts_with_char CHR ''<'' (pr_message_id req) then pr_message_id req
       else CHR ''<'' # pr_message_id req @ ''>'')"

text \<open>The \<open>while\<close> of \<open>flush_sends\<close>; a request whose write fails has left the queue.\<close>

fun send_loop ::
  "nat \<Rightarrow> pipeline_request list \<Rightarrow> pipeline_request list \<Rightarrow> nat \<Rightarrow> nntp_conn \<Rightarrow>
   (nntp_error + nat) \<times> pipeline_request list \<times> pipeline_request list \<times> nntp_conn" where
  "send_loop d infl [] sent c = (Inr sent, infl, [], c)"
| "send_loop d infl (req # rest) sent c =
     (if length infl < d then
        (case send_command_no_flush (article_command req) c of
           (Inl e, c') \<Rightarrow> (Inl e, infl, rest, c'\<lparr>conn_state := Error\<rparr>)
         | (Inr _, c') \<Rightarrow> send_loop d (infl @ [req]) rest (Suc sent) c')
      else (Inr sent, infl, req # rest, c))"

definition flush_sends :: "pipeline \<Rightarrow> nntp_conn \<Rightarrow> (nntp_error + unit) \<times> pipeline \<times> nntp_conn" where
  "flush_sends p c =
    (case send_loop (pl_depth p) (pl_in_flight p) (pl_pending p) 0 c of
       (r, infl, pend, c1) \<Rightarrow>
         let p' = p\<lparr>pl_in_flight := infl, pl_pending := pend\<rparr> in
         (case r of
            Inl e \<Rightarrow> (Inl e, p', c1)
          | Inr sent \<Rightarrow>
              if 0 < sent then
                (case conn_flush c1 of
                   (Inl e, c2) \<Rightarrow> (Inl e, p', c2\<lparr>conn_state := Error\<rparr>)
                 | (Inr _, c2) \<Rightarrow> (Inr (), p', c2))
              else (Inr (), p', c1)))"

section \<open>Receiving\<close>

text \<open>The \<open>match status.code\<close> of \<open>receive_one\<close>.\<close>

definition article_reply ::
  "pipeline_request \<Rightarrow> nntp_response \<Rightarrow> nntp_conn \<Rightarrow> (nntp_error + nntp_response) \<times> nntp_conn" where
  "article_reply req status c =
    (let code = resp_code status; msg = resp_message status; bad = c\<lparr>conn_state := Error\<rparr> in
     if code = 220 then
       (case read_multiline_body c of
          (Inr data, c') \<Rightarrow>
            (Inr \<lparr>resp_code = code, resp_message = msg, resp_data = Some data\<rparr>, c')
        | (Inl e, c') \<Rightarrow> (Inl e, c'\<lparr>conn_state := Error\<rparr>))
     else if code = 430 then (Inl (ArticleNotFound (pr_message_id req)), c)
     else if code = 411 then (Inl (NoSuchGroup msg), c)
     else if code \<in> {412, 420, 423} then (Inl (NoArticleSelected msg), c)
     else if code = 403 then (Inl (PermissionDenied msg), bad)
     else if code = 480 then (Inl (AuthRequired msg), bad)
     else if code \<in> {481, 482} then
       (Inl (Auth (''ARTICLE rejected ('' @ show_nat code @ ''): '' @ msg)), bad)
     else if code = 502 then (Inl (ServiceUnavailable msg), bad)
     else (Inl (unexpected_article_response code msg), bad))"

definition receive_one ::
  "pipeline \<Rightarrow> nntp_conn \<Rightarrow> (nntp_error + pipeline_result option) \<times> pipeline \<times> nntp_conn" where
  "receive_one p c =
    (case pl_in_flight p of
       [] \<Rightarrow> (Inr None, p, c)
     | req # rest \<Rightarrow>
         let p' = p\<lparr>pl_in_flight := rest\<rparr> in
         (case read_response_line c of
            (Inl e, c1) \<Rightarrow> (Inl e, p', c1\<lparr>conn_state := Error\<rparr>)
          | (Inr status, c1) \<Rightarrow>
              (case article_reply req status c1 of (r, c2) \<Rightarrow>
                (Inr (Some \<lparr>pres_request = req, pres_result = r\<rparr>), p', c2))))"

section \<open>Send and receive until everything is answered\<close>

definition is_fatal_result :: "pipeline_result \<Rightarrow> bool" where
  "is_fatal_result r =
    (case pres_result r of
       Inl e \<Rightarrow>
         (case e of
            Auth _ \<Rightarrow> True | AuthRequired _ \<Rightarrow> True | PermissionDenied _ \<Rightarrow> True
          | ServiceUnavailable _ \<Rightarrow> True | Connection _ \<Rightarrow> True | Io _ \<Rightarrow> True | _ \<Rightarrow> False)
     | Inr _ \<Rightarrow> False)"

definition aborted_result :: "pipeline_request \<Rightarrow> pipeline_result" where
  "aborted_result req =
    \<lparr>pres_request = req, pres_result = Inl (Connection ''Pipeline aborted due to fatal error'')\<rparr>"

type_synonym pipe_state = "pipeline \<times> nntp_conn \<times> pipeline_result list"
type_synonym pipe_exit = "(nntp_error + pipeline_result list) \<times> pipeline \<times> nntp_conn"

fun process_body :: "pipe_state \<Rightarrow> pipe_state + pipe_exit" where
  "process_body (p, c, res) =
    (case flush_sends p c of
       (Inl e, p1, c1) \<Rightarrow> Inr (Inl e, p1, c1)
     | (Inr _, p1, c1) \<Rightarrow>
         if pl_in_flight p1 = [] then Inr (Inr res, p1, c1)
         else
           (case receive_one p1 c1 of
              (Inl e, p2, c2) \<Rightarrow> Inr (Inl e, p2, c2)
            | (Inr None, p2, c2) \<Rightarrow> Inl (p2, c2, res)
            | (Inr (Some r), p2, c2) \<Rightarrow>
                if is_fatal_result r then
                  Inr (Inr (res @ [r] @ map aborted_result (pl_in_flight p2)
                              @ map aborted_result (pl_pending p2)),
                       p2\<lparr>pl_in_flight := [], pl_pending := []\<rparr>, c2)
                else Inl (p2, c2, res @ [r])))"

declare process_body.simps [simp del]

text \<open>Every round answers one request, so the number of requests is fuel enough (\<open>process_all_returns\<close>).\<close>

definition process_all :: "pipeline \<Rightarrow> nntp_conn \<Rightarrow> pipe_exit option" where
  "process_all p c =
    run_loop process_body (Suc (length (pl_in_flight p) + length (pl_pending p))) (p, c, [])"

section \<open>STAT batches\<close>

record stat_result =
  sr_message_id :: byte_string
  sr_exists :: bool

definition STAT_BATCH_SIZE :: nat where
  "STAT_BATCH_SIZE = 100"

text \<open>A \<open>StatPipeline\<close> is its queue of message ids.\<close>

type_synonym stat_pipeline = "byte_string list"

definition stat_new :: stat_pipeline where
  "stat_new = []"

definition stat_add :: "byte_string \<Rightarrow> stat_pipeline \<Rightarrow> stat_pipeline" where
  "stat_add mid sp = sp @ [mid]"

fun stat_send :: "byte_string list \<Rightarrow> nntp_conn \<Rightarrow> (nntp_error + unit) \<times> nntp_conn" where
  "stat_send [] c =
     (case conn_flush c of
        (Inl e, c') \<Rightarrow> (Inl e, c'\<lparr>conn_state := Error\<rparr>)
      | (Inr _, c') \<Rightarrow> (Inr (), c'))"
| "stat_send (mid # mids) c =
     (case send_command_no_flush (''STAT '' @ normalize_message_id mid) c of
        (Inl e, c') \<Rightarrow> (Inl e, c'\<lparr>conn_state := Error\<rparr>)
      | (Inr _, c') \<Rightarrow> stat_send mids c')"

definition stat_reply :: "byte_string \<Rightarrow> nntp_response \<Rightarrow> nntp_error + stat_result" where
  "stat_reply mid resp =
    (let code = resp_code resp; msg = resp_message resp in
     if code = 223 then Inr \<lparr>sr_message_id = mid, sr_exists = True\<rparr>
     else if code = 430 then Inr \<lparr>sr_message_id = mid, sr_exists = False\<rparr>
     else if code = 480 then Inl (AuthRequired msg)
     else if code \<in> {481, 482} then
       Inl (Auth (''STAT rejected ('' @ show_nat code @ ''): '' @ msg))
     else if code = 502 then Inl (ServiceUnavailable msg)
     else Inl (Protocol (''Unexpected STAT response '' @ show_nat code @ '': '' @ msg)))"

fun stat_read ::
  "byte_string list \<Rightarrow> stat_result list \<Rightarrow> nntp_conn \<Rightarrow> (nntp_error + stat_result list) \<times> nntp_conn" where
  "stat_read [] res c = (Inr res, c)"
| "stat_read (mid # mids) res c =
     (case read_response_line c of
        (Inl e, c') \<Rightarrow> (Inl e, c'\<lparr>conn_state := Error\<rparr>)
      | (Inr resp, c') \<Rightarrow>
          (case stat_reply mid resp of
             Inl e \<Rightarrow> (Inl e, c'\<lparr>conn_state := Error\<rparr>)
           | Inr r \<Rightarrow> stat_read mids (res @ [r]) c'))"

text \<open>\<open>slice::chunks\<close>, for a positive chunk size.\<close>

function chunks :: "nat \<Rightarrow> 'a list \<Rightarrow> 'a list list" where
  "chunks n xs = (if xs = [] \<or> n = 0 then [] else take n xs # chunks n (drop n xs))"
  by pat_completeness auto
termination
  by (relation "measure (\<lambda>(n, xs). length xs)") auto

declare chunks.simps [simp del]

fun stat_batches ::
  "byte_string list list \<Rightarrow> stat_result list \<Rightarrow> nntp_conn \<Rightarrow>
   (nntp_error + stat_result list) \<times> nntp_conn" where
  "stat_batches [] res c = (Inr res, c)"
| "stat_batches (b # bs) res c =
     (case stat_send b (c\<lparr>conn_state := Busy\<rparr>) of
        (Inl e, c1) \<Rightarrow> (Inl e, c1)
      | (Inr _, c1) \<Rightarrow>
          (case stat_read b res c1 of
             (Inl e, c2) \<Rightarrow> (Inl e, c2)
           | (Inr res', c2) \<Rightarrow> stat_batches bs res' (c2\<lparr>conn_state := Ready\<rparr>)))"

definition stat_execute ::
  "stat_pipeline \<Rightarrow> nntp_conn \<Rightarrow> (nntp_error + stat_result list) \<times> stat_pipeline \<times> nntp_conn" where
  "stat_execute sp c =
    (case stat_batches (chunks STAT_BATCH_SIZE sp) [] c of (r, c') \<Rightarrow> (r, [], c'))"

section \<open>Requests are neither lost nor reordered\<close>

abbreviation requests :: "pipeline \<Rightarrow> pipeline_request list" where
  "requests p \<equiv> pl_in_flight p @ pl_pending p"

lemma send_loop_ok:
  "send_loop d infl pend sent c = (Inr k, infl', pend', c') \<Longrightarrow> infl' @ pend' = infl @ pend"
  by (induction d infl pend sent c rule: send_loop.induct)
    (auto split: if_splits sum.splits prod.splits)

lemma send_loop_depth:
  "send_loop d infl pend sent c = (r, infl', pend', c') \<Longrightarrow> length infl' \<le> max d (length infl)"
  by (induction d infl pend sent c rule: send_loop.induct)
    (fastforce split: if_splits sum.splits prod.splits)+

lemma send_loop_full:
  "send_loop d infl pend sent c = (Inr k, infl', pend', c') \<Longrightarrow> pend' = [] \<or> d \<le> length infl'"
  by (induction d infl pend sent c rule: send_loop.induct)
    (auto split: if_splits sum.splits prod.splits)

lemma flush_sends_ok:
  assumes "flush_sends p c = (Inr u, p', c')"
  shows "requests p' = requests p" and "pl_depth p' = pl_depth p"
    and "pl_pending p' = [] \<or> pl_depth p \<le> length (pl_in_flight p')"
  using assms
  by (auto simp: flush_sends_def Let_def split: if_splits sum.splits prod.splits
      dest: send_loop_ok send_loop_full)

lemma receive_one_ok:
  assumes "receive_one p c = (Inr (Some r), p', c')"
  shows "requests p = pres_request r # requests p'" and "pl_depth p' = pl_depth p"
  using assms
  by (auto simp: receive_one_def Let_def split: if_splits sum.splits prod.splits list.splits)

lemma receive_one_none:
  "receive_one p c = (Inr None, p', c') \<Longrightarrow> pl_in_flight p = []"
  by (auto simp: receive_one_def Let_def split: sum.splits prod.splits list.splits)

lemma process_body_continue:
  assumes "process_body (p, c, res) = Inl (p', c', res')"
  shows "\<exists>r. res' = res @ [r] \<and> requests p = pres_request r # requests p'"
  using assms
  by (auto simp: process_body.simps split: sum.splits prod.splits if_splits option.splits
      dest!: flush_sends_ok(1) receive_one_ok(1) receive_one_none)

lemma process_body_exit:
  assumes ex: "process_body (p, c, res) = Inr (Inr res', p', c')" and d: "0 < pl_depth p"
  shows "map pres_request res' = map pres_request res @ requests p" and "pipeline_is_empty p'"
proof -
  obtain fr p1 c1 where fl: "flush_sends p c = (fr, p1, c1)" by (cases "flush_sends p c") auto
  with ex obtain u where fr: "fr = Inr u" by (cases fr) (auto simp: process_body.simps)
  note ok = flush_sends_ok [OF fl [unfolded fr]]
  have "map pres_request res' = map pres_request res @ requests p \<and> pipeline_is_empty p'"
  proof (cases "pl_in_flight p1 = []")
    case True
    with ex fl fr ok d show ?thesis
      by (auto simp: process_body.simps pipeline_is_empty_def)
  next
    case False
    with ex fl fr obtain r p2 c2 where rc: "receive_one p1 c1 = (Inr (Some r), p2, c2)"
      and fin: "res' = res @ [r] @ map aborted_result (requests p2)"
        "p' = p2\<lparr>pl_in_flight := [], pl_pending := []\<rparr>"
      by (auto simp: process_body.simps split: sum.splits prod.splits if_splits option.splits)
    from receive_one_ok(1) [OF rc] ok(1) have "requests p = pres_request r # requests p2" by simp
    with fin show ?thesis
      by (simp add: pipeline_is_empty_def aborted_result_def comp_def)
  qed
  then show "map pres_request res' = map pres_request res @ requests p" "pipeline_is_empty p'"
    by auto
qed

lemma process_body_depth:
  "process_body (p, c, res) = Inl (p', c', res') \<Longrightarrow> pl_depth p' = pl_depth p"
  by (auto simp: process_body.simps split: sum.splits prod.splits if_splits option.splits
      dest!: flush_sends_ok(2) receive_one_ok(2) receive_one_none)

definition pipe_acc :: "pipeline_request list \<Rightarrow> pipe_state \<Rightarrow> bool" where
  "pipe_acc all st \<longleftrightarrow>
    (case st of (p, c, res) \<Rightarrow> map pres_request res @ requests p = all \<and> 0 < pl_depth p)"

definition pipe_size :: "pipe_state \<Rightarrow> nat" where
  "pipe_size st = (case st of (p, c, res) \<Rightarrow> length (requests p))"

interpretation pipe_loop: loop_body process_body "pipe_acc all" pipe_size for all
proof unfold_locales
  fix s s' :: pipe_state
  assume acc: "pipe_acc all s" and step: "process_body s = Inl s'"
  obtain p c res p' c' res' where s: "s = (p, c, res)" "s' = (p', c', res')"
    by (cases s; cases s') auto
  with process_body_continue step obtain r
    where r: "res' = res @ [r]" "requests p = pres_request r # requests p'" by blast
  from r acc s step process_body_depth [of p c res p' c' res']
  show "pipe_acc all s'" by (auto simp: pipe_acc_def)
  from r(2) have "length (requests p') < length (requests p)"
    by (metis length_Cons lessI)
  with s show "pipe_size s' < pipe_size s" by (simp add: pipe_size_def)
qed

section \<open>Absence is only ever read from a 430\<close>

lemma parse_response_line_error:
  "parse_response_line l = Inl e \<Longrightarrow> \<not> is_not_found e"
  by (auto simp: parse_response_line_def Let_def split: if_splits)

lemma read_response_line_error:
  "read_response_line c = (Inl e, c') \<Longrightarrow> \<not> is_not_found e"
  by (auto simp: read_response_line_def Let_def parse_response_line_error
      split: option.splits prod.splits rx_event.splits if_splits dest!: parse_response_line_error)

lemma read_body_lines_error:
  "read_body_lines out mx rx = (Inl e, rx') \<Longrightarrow> \<not> is_not_found e"
  by (induction out mx rx rule: read_body_lines.induct)
    (auto simp: Let_def split: rx_event.splits if_splits)

lemma read_multiline_body_error:
  "read_multiline_body c = (Inl e, c') \<Longrightarrow> \<not> is_not_found e"
  by (auto simp: read_multiline_body_def read_multiline_body_into_bounded_def
      split: option.splits prod.splits dest!: read_body_lines_error)

lemma article_reply_not_found:
  assumes "article_reply req status c = (Inl e, c')" "is_not_found e"
  shows "resp_code status = 430"
  using assms
  by (auto simp: article_reply_def Let_def split: if_splits sum.splits prod.splits
      dest!: read_multiline_body_error)

lemma article_reply_poison:
  assumes "article_reply req status c = (Inl e, c')" "resp_code status \<notin> {430, 411, 412, 420, 423}"
  shows "conn_state c' = Error"
  using assms
  by (auto simp: article_reply_def Let_def split: if_splits sum.splits prod.splits)

section \<open>STAT results\<close>

lemma chunks_Nil [simp]: "chunks n [] = []"
  by (simp add: chunks.simps)

lemma concat_chunks: "0 < n \<Longrightarrow> concat (chunks n xs) = xs"
proof (induction n xs rule: chunks.induct)
  case (1 n xs)
  then show ?case by (cases "xs = []") (auto simp: chunks.simps [of n xs])
qed

lemma stat_reply_id: "stat_reply mid resp = Inr r \<Longrightarrow> sr_message_id r = mid"
  by (auto simp: stat_reply_def Let_def split: if_splits)

lemma stat_read_ids:
  "stat_read b res c = (Inr res', c') \<Longrightarrow>
    map sr_message_id res' = map sr_message_id res @ b"
  by (induction b res c rule: stat_read.induct)
    (auto split: sum.splits prod.splits dest: stat_reply_id)

lemma stat_batches_ids:
  "stat_batches bs res c = (Inr res', c') \<Longrightarrow>
    map sr_message_id res' = map sr_message_id res @ concat bs"
  by (induction bs res c rule: stat_batches.induct)
    (auto split: sum.splits prod.splits dest: stat_read_ids)

section \<open>Properties\<close>

text \<open>\<open>process_all\<close> always returns, and when it reports success every request that was in flight
  or queued has exactly one result, in the order of submission, and the pipeline is empty.\<close>

theorem process_all_answers_in_order:
  assumes "0 < pl_depth p"
  shows "\<exists>out. process_all p c = Some out \<and>
    (\<forall>res p' c'. out = (Inr res, p', c') \<longrightarrow>
      map pres_request res = pl_in_flight p @ pl_pending p \<and> pipeline_is_empty p')"
proof -
  let ?all = "requests p" and ?s = "(p, c, [] :: pipeline_result list)"
  have inv: "pipe_acc ?all ?s" using assms by (simp add: pipe_acc_def)
  from pipe_loop.returns [OF inv] obtain out where out: "process_all p c = Some out"
    unfolding process_all_def by (fastforce simp: pipe_size_def simp del: run_loop.simps)
  obtain s' where s': "pipe_acc ?all s'" "process_body s' = Inr out"
    using pipe_loop.exit_state [OF out [unfolded process_all_def] inv] by blast
  obtain p1 c1 res1 where s1: "s' = (p1, c1, res1)" by (cases s') auto
  have "map pres_request res = ?all \<and> pipeline_is_empty p'" if "out = (Inr res, p', c')" for res p' c'
    using process_body_exit [of p1 c1 res1 res p' c'] s' s1 that by (auto simp: pipe_acc_def)
  with out show ?thesis by blast
qed

definition demo_request :: pipeline_request where
  "demo_request = \<lparr>pr_message_id = ''a@b'', pr_tag = 7\<rparr>"

definition demo_conn :: "rx_event list \<Rightarrow> nntp_conn" where
  "demo_conn rx = \<lparr>conn_server_id = ''s'', conn_state = Ready,
     conn_transport = Some \<lparr>tr_rx = rx, tr_wr = [], tr_sent = []\<rparr>\<rparr>"

lemma demo_status_430: "parse_response_line (status_line 430 ''no'') =
    Inr \<lparr>resp_code = 430, resp_message = ''no'', resp_data = None\<rparr>"
  by (rule parse_status_line) simp_all

lemmas pipeline_eval =
  pipeline_submit_def pipeline_new_def demo_request_def demo_conn_def flush_sends_def
  send_command_no_flush_def conn_flush_def receive_one_def read_response_line_def with_rx_def
  article_reply_def is_fatal_result_def article_command_def

lemma demo_status_nonempty: "status_line c m \<noteq> []"
  by (simp add: status_line_def)

theorem process_all_answers_in_order_witness:
  "\<exists>res p' c'. process_all (pipeline_submit ''a@b'' 7 (pipeline_new 4))
      (demo_conn [RxLine (status_line 430 ''no'')]) = Some (Inr res, p', c') \<and>
    map pres_request res = [demo_request] \<and> pipeline_is_empty p'"
proof -
  let ?p = "pipeline_submit ''a@b'' 7 (pipeline_new 4)"
  let ?c = "demo_conn [RxLine (status_line 430 ''no'')]"
  have d: "0 < pl_depth ?p" by (simp add: pipeline_eval)
  have "\<exists>res p' c'. process_all ?p ?c = Some (Inr res, p', c')"
    by (simp add: process_all_def process_body.simps pipeline_eval demo_status_430
        demo_status_nonempty numeral_2_eq_2)
  with process_all_answers_in_order [OF d, of ?c] show ?thesis
    by (auto simp: pipeline_eval)
qed

text \<open>Filling the pipeline never puts more than \<open>depth\<close> requests on the wire, and stops short
  of that only when nothing is left to send.\<close>

theorem flush_sends_fills_to_depth:
  assumes "flush_sends p c = (r, p', c')" and "length (pl_in_flight p) \<le> pl_depth p"
  shows "length (pl_in_flight p') \<le> pl_depth p \<and>
    (r = Inr () \<longrightarrow> pl_pending p' = [] \<or> length (pl_in_flight p') = pl_depth p)"
proof -
  have "length (pl_in_flight p') \<le> pl_depth p"
    using assms send_loop_depth [of "pl_depth p" "pl_in_flight p" "pl_pending p" 0 c]
    by (auto simp: flush_sends_def Let_def split: prod.splits sum.splits if_splits)
  with assms(1) flush_sends_ok(3) [of p c "()" p' c'] show ?thesis by fastforce
qed

theorem flush_sends_fills_to_depth_witness:
  "length (pl_in_flight (fst (snd (flush_sends
      (pipeline_submit ''b'' 2 (pipeline_submit ''a'' 1 (pipeline_new 1))) (demo_conn []))))) = 1"
proof -
  let ?p = "pipeline_submit ''b'' 2 (pipeline_submit ''a'' 1 (pipeline_new 1))"
  obtain p' c' where f: "flush_sends ?p (demo_conn []) = (Inr (), p', c')"
    by (simp add: pipeline_eval)
  have "length (pl_in_flight ?p) \<le> pl_depth ?p" by (simp add: pipeline_eval)
  note fill = flush_sends_fills_to_depth [OF f this]
  have two: "length (pl_in_flight p') + length (pl_pending p') = 2"
    using arg_cong [OF flush_sends_ok(1) [OF f], of length]
    by (simp add: pipeline_submit_def pipeline_new_def)
  have one: "pl_depth ?p = 1" by (simp add: pipeline_submit_def pipeline_new_def)
  from fill two one f show ?thesis by fastforce
qed

text \<open>An article is reported absent only when the server's status line for that very request was
  430: no transport failure, malformed line or body error is turned into absence.\<close>

theorem not_found_means_430:
  assumes "receive_one p c = (Inr (Some r), p', c')" and "pres_result r = Inl e" and "is_not_found e"
  shows "\<exists>status c1. read_response_line c = (Inr status, c1) \<and> resp_code status = 430 \<and>
    pl_in_flight p = pres_request r # pl_in_flight p' \<and> e = ArticleNotFound (pr_message_id (pres_request r))"
proof -
  from assms(1) obtain req rest status c1 x c2 where
    infl: "pl_in_flight p = req # rest" and rd: "read_response_line c = (Inr status, c1)"
    and rep: "article_reply req status c1 = (x, c2)"
    and r: "r = \<lparr>pres_request = req, pres_result = x\<rparr>" "p' = p\<lparr>pl_in_flight := rest\<rparr>"
    by (auto simp: receive_one_def Let_def split: list.splits sum.splits prod.splits)
  with assms(2,3) article_reply_not_found have code: "resp_code status = 430" by auto
  with rep r assms(2) have "e = ArticleNotFound (pr_message_id req)"
    by (simp add: article_reply_def)
  with infl rd r code show ?thesis by auto
qed

theorem not_found_means_430_witness:
  "fst (receive_one \<lparr>pl_depth = 1, pl_in_flight = [demo_request], pl_pending = []\<rparr>
      (demo_conn [RxLine (status_line 430 ''no'')])) =
     Inr (Some \<lparr>pres_request = demo_request, pres_result = Inl (ArticleNotFound ''a@b'')\<rparr>) \<and>
   (\<exists>status c1. read_response_line (demo_conn [RxLine (status_line 430 ''no'')]) = (Inr status, c1) \<and>
     resp_code status = 430)"
proof -
  let ?p = "\<lparr>pl_depth = 1, pl_in_flight = [demo_request], pl_pending = []\<rparr>"
  let ?c = "demo_conn [RxLine (status_line 430 ''no'')]"
  let ?r = "\<lparr>pres_request = demo_request, pres_result = Inl (ArticleNotFound ''a@b'')\<rparr>"
  have f: "fst (receive_one ?p ?c) = Inr (Some ?r)"
    by (simp add: pipeline_eval demo_status_430 demo_status_nonempty)
  then obtain p' c' where rc: "receive_one ?p ?c = (Inr (Some ?r), p', c')"
    by (metis prod.collapse)
  from not_found_means_430 [OF rc] f show ?thesis by auto
qed

text \<open>Round trip over the wire: when the server answers the oldest request with 220 and sends the
  article's lines dot-stuffed and terminated, the result carries exactly those lines, for that request,
  and the stream is positioned at whatever follows.\<close>

theorem article_wire_roundtrip:
  assumes "pl_in_flight p = req # rest'" and "conn_transport c = Some t"
    and "tr_rx t = RxLine (status_line 220 msg) # body_events ls @ rest"
    and "msg = [] \<or> last msg \<notin> {CR, LF}" and "[] \<notin> set ls"
  shows "receive_one p c =
    (Inr (Some \<lparr>pres_request = req, pres_result =
        Inr \<lparr>resp_code = 220, resp_message = msg, resp_data = Some (concat ls)\<rparr>\<rparr>),
     p\<lparr>pl_in_flight := rest'\<rparr>, with_rx c t rest)"
proof -
  have st: "read_response_line c =
      (Inr \<lparr>resp_code = 220, resp_message = msg, resp_data = None\<rparr>,
       with_rx c t (body_events ls @ rest))"
    using assms(2,3) parse_status_line [OF _ assms(4), of 220]
    by (simp add: read_response_line_def demo_status_nonempty)
  have bd: "read_multiline_body (with_rx c t (body_events ls @ rest)) = (Inr (concat ls), with_rx c t rest)"
    using read_body_lines_stuffed [OF assms(5), of "[]" rest]
    by (simp add: read_multiline_body_def read_multiline_body_into_bounded_def with_rx_def)
  show ?thesis
    by (simp add: receive_one_def assms(1) st article_reply_def bd)
qed

theorem article_wire_roundtrip_witness:
  "fst (receive_one \<lparr>pl_depth = 1, pl_in_flight = [demo_request], pl_pending = []\<rparr>
      (demo_conn (RxLine (status_line 220 ''ok'') # body_events [''.dot'' @ crlf] @ []))) =
   Inr (Some \<lparr>pres_request = demo_request, pres_result =
        Inr \<lparr>resp_code = 220, resp_message = ''ok'', resp_data = Some (''.dot'' @ crlf)\<rparr>\<rparr>)"
  using article_wire_roundtrip
    [of "\<lparr>pl_depth = 1, pl_in_flight = [demo_request], pl_pending = []\<rparr>" demo_request "[]"
      "demo_conn (RxLine (status_line 220 ''ok'') # body_events [''.dot'' @ crlf] @ [])"
      "\<lparr>tr_rx = RxLine (status_line 220 ''ok'') # body_events [''.dot'' @ crlf] @ [], tr_wr = [], tr_sent = []\<rparr>"
      "''ok''" "[''.dot'' @ crlf]" "[]"]
  by (simp add: demo_conn_def)

text \<open>A successful batch STAT check answers every queued message id once, in order, across any number
  of batches of 100.\<close>

theorem stat_execute_answers_in_order:
  assumes "stat_execute sp c = (Inr res, sp', c')"
  shows "map sr_message_id res = sp \<and> sp' = []"
  using assms stat_batches_ids [of "chunks STAT_BATCH_SIZE sp" "[]" c res]
  by (auto simp: stat_execute_def STAT_BATCH_SIZE_def concat_chunks split: prod.splits)

theorem stat_execute_answers_in_order_witness:
  "\<exists>res c'. stat_execute [''x''] (demo_conn [RxLine (status_line 430 ''no'')]) = (Inr res, [], c') \<and>
     map sr_message_id res = [''x''] \<and> map sr_exists res = [False]"
proof -
  have ev: "\<exists>c'. stat_execute [''x''] (demo_conn [RxLine (status_line 430 ''no'')]) =
      (Inr [\<lparr>sr_message_id = ''x'', sr_exists = False\<rparr>], [], c')"
    by (simp add: stat_execute_def STAT_BATCH_SIZE_def chunks.simps [of 100 "[''x'']"] pipeline_eval
        normalize_message_id_def starts_with_char_def stat_reply_def demo_status_430 demo_status_nonempty)
  then obtain c' where e: "stat_execute [''x''] (demo_conn [RxLine (status_line 430 ''no'')]) =
      (Inr [\<lparr>sr_message_id = ''x'', sr_exists = False\<rparr>], [], c')" by blast
  with stat_execute_answers_in_order [OF e] show ?thesis by auto
qed

end
