(* ===== verification/News_Worker.thy ===== *)
theory News_Worker
  imports News_Loop Pipeline
begin

text \<open>
  The wrapper workers (\<open>wrapper_worker\<close>, \<open>fetch_and_stream\<close>, \<open>crates/nzb-news/src/downloader.rs\<close>): one
  connection each, pulling batches from the server's queue, pipelining them and sending
  one message per answer to the scheduler.

  What the worker does not control is an argument: the paused set and the clock it reads in
  each round, the await point at which the batch timeout fires (if it does), the result of connecting, and
  the order in which \<open>HashMap::drain\<close> yields (\<open>ord\<close>, which the standard library leaves
  unspecified: some permutation).
\<close>

section \<open>Fetching a batch\<close>

text \<open>Where the timeout cancels the round: nowhere, or at one of its three awaits.\<close>

datatype cut = NoCut | CutFlush | CutReceive | CutSend

record fetch_env =
  fe_paused :: "nat \<Rightarrow> byte_string set"
  fe_clock :: "nat \<Rightarrow> millis"
  fe_cut :: "nat \<Rightarrow> cut"

record fetch_state =
  fs_wrapper :: news_wrapper
  fs_pipeline :: pipeline
  fs_pending :: "work_item list"
  fs_msgs :: "scheduler_msg list"
  fs_round :: nat

datatype fetch_exit = FetchDone | FetchPaused | FetchErr nntp_error | FetchTimeout

text \<open>The tag map: inserting replaces, removing takes the item out.\<close>

definition pend_insert :: "work_item \<Rightarrow> work_item list \<Rightarrow> work_item list" where
  "pend_insert it m = filter (\<lambda>x. wi_tag x \<noteq> wi_tag it) m @ [it]"

definition pend_lookup :: "work_tag \<Rightarrow> work_item list \<Rightarrow> work_item option" where
  "pend_lookup tag m = find (\<lambda>x. wi_tag x = tag) m"

definition pend_delete :: "work_tag \<Rightarrow> work_item list \<Rightarrow> work_item list" where
  "pend_delete tag m = filter (\<lambda>x. wi_tag x \<noteq> tag) m"

definition check_paused :: "heap \<Rightarrow> byte_string set \<Rightarrow> work_item list \<Rightarrow> bool" where
  "check_paused h paused pend \<longleftrightarrow> paused \<noteq> {} \<and> (\<exists>it \<in> set pend. item_job_id h it \<in> paused)"

definition fetch_start :: "heap \<Rightarrow> u8 \<Rightarrow> work_item list \<Rightarrow> news_wrapper \<Rightarrow> fetch_state" where
  "fetch_start h depth batch w =
    \<lparr>fs_wrapper = w,
     fs_pipeline = fold (\<lambda>it. pipeline_submit (art_message_id (h_art h (wi_article it))) (wi_tag it)) batch
       (pipeline_new depth),
     fs_pending = fold pend_insert batch [], fs_msgs = [], fs_round = 0\<rparr>"

text \<open>The payload of an answer; a success touches the wrapper.\<close>

fun answer_result ::
  "millis \<Rightarrow> nntp_error + nntp_response \<Rightarrow> news_wrapper \<Rightarrow> (nntp_error + byte_string) \<times> news_wrapper" where
  "answer_result now (Inl e) w = (Inl e, w)"
| "answer_result now (Inr resp) w =
     (let bytes = (case resp_data resp of Some b \<Rightarrow> b | None \<Rightarrow> []) in
      (Inr bytes, on_fetch_success now (length bytes) w))"

text \<open>The answer to one request: take the item out of the map and send its result.\<close>

definition fetch_answer :: "fetch_env \<Rightarrow> nat \<Rightarrow> pipeline_result \<Rightarrow> fetch_state \<Rightarrow> fetch_state + (fetch_exit \<times> fetch_state)" where
  "fetch_answer env server res fs =
    (case pend_lookup (pr_tag (pres_request res)) (fs_pending fs) of
       None \<Rightarrow> Inl (fs\<lparr>fs_round := fs_round fs + 1\<rparr>)
     | Some it \<Rightarrow>
         (case answer_result (fe_clock env (fs_round fs)) (pres_result res) (fs_wrapper fs) of
            (result, w) \<Rightarrow>
              let fs1 = fs\<lparr>fs_pending := pend_delete (pr_tag (pres_request res)) (fs_pending fs), fs_wrapper := w\<rparr>
              in if fe_cut env (fs_round fs) = CutSend then Inr (FetchTimeout, fs1)
                 else Inl (fs1\<lparr>fs_msgs := fs_msgs fs1 @ [FetchResult it server result],
                               fs_round := fs_round fs + 1\<rparr>)))"

definition fetch_body :: "heap \<Rightarrow> fetch_env \<Rightarrow> nat \<Rightarrow> fetch_state \<Rightarrow> fetch_state + (fetch_exit \<times> fetch_state)" where
  "fetch_body h env server fs =
    (let k = fs_round fs in
     if check_paused h (fe_paused env k) (fs_pending fs) then Inr (FetchPaused, fs)
     else
       (case nw_conn (fs_wrapper fs) of
          None \<Rightarrow> Inr (FetchErr (Connection ''Wrapper has no connection''), fs)
        | Some c \<Rightarrow>
            if fe_cut env k = CutFlush then Inr (FetchTimeout, fs)
            else
              (case flush_sends (fs_pipeline fs) c of
                 (Inl e, p1, c1) \<Rightarrow>
                   Inr (FetchErr e, fs\<lparr>fs_pipeline := p1, fs_wrapper := (fs_wrapper fs)\<lparr>nw_conn := Some c1\<rparr>\<rparr>)
               | (Inr _, p1, c1) \<Rightarrow>
                   let fs1 = fs\<lparr>fs_pipeline := p1, fs_wrapper := (fs_wrapper fs)\<lparr>nw_conn := Some c1\<rparr>\<rparr> in
                   if pipeline_is_empty p1 then Inr (FetchDone, fs1)
                   else if fe_cut env k = CutReceive then Inr (FetchTimeout, fs1)
                   else
                     (case receive_one p1 c1 of
                        (r, p2, c2) \<Rightarrow>
                          let fs2 = fs1\<lparr>fs_pipeline := p2, fs_wrapper := (fs_wrapper fs1)\<lparr>nw_conn := Some c2\<rparr>\<rparr> in
                          (case r of
                             Inl e \<Rightarrow> Inr (FetchErr e, fs2)
                           | Inr None \<Rightarrow> Inr (FetchDone, fs2)
                           | Inr (Some res) \<Rightarrow> fetch_answer env server res fs2)))))"

text \<open>After the loop.  The timeout is \<open>article_timeout * batch_len\<close> milliseconds.\<close>

definition fetch_finish ::
  "nat \<Rightarrow> (work_item list \<Rightarrow> work_item list) \<Rightarrow> millis \<Rightarrow> fetch_exit \<times> fetch_state \<Rightarrow> scheduler_msg list \<times> news_wrapper" where
  "fetch_finish server ord batch_timeout out =
    (case out of (ex, fs) \<Rightarrow>
       let w = fs_wrapper fs; remaining = ord (fs_pending fs);
           fail = (\<lambda>e. map (\<lambda>it. FetchResult it server (Inl (clone_err e))) remaining)
       in (case ex of
             FetchPaused \<Rightarrow>
               (fs_msgs fs @ (if remaining = [] then [] else [ReturnUnattempted remaining server ''paused'']), hard_reset w)
           | FetchDone \<Rightarrow> (fs_msgs fs, w)
           | FetchErr e \<Rightarrow> (fs_msgs fs @ fail e, hard_reset w)
           | FetchTimeout \<Rightarrow>
               (fs_msgs fs @
                  fail (Timeout (''batch timed out after '' @ show_nat (batch_timeout div 1000) @ ''s'')),
                hard_reset w)))"

definition fetch_and_stream ::
  "heap \<Rightarrow> fetch_env \<Rightarrow> (work_item list \<Rightarrow> work_item list) \<Rightarrow> millis \<Rightarrow> nat \<Rightarrow> server_config \<Rightarrow> work_item list \<Rightarrow>
    news_wrapper \<Rightarrow> (scheduler_msg list \<times> news_wrapper) option" where
  "fetch_and_stream h env ord article_timeout server cfg batch w =
    map_option (fetch_finish server ord (article_timeout * length batch))
      (run_loop (fetch_body h env server) (Suc (length batch))
        (fetch_start h (max (sc_pipelining cfg) 1) batch w))"

section \<open>The worker\<close>

definition MAX_CONSECUTIVE_CONNECT_FAILURES :: u32 where "MAX_CONSECUTIVE_CONNECT_FAILURES = 3"

definition terminal_class :: "nntp_error \<Rightarrow> bool" where
  "terminal_class e =
    (case e of Auth _ \<Rightarrow> True | AuthRequired _ \<Rightarrow> True | PermissionDenied _ \<Rightarrow> True | ServiceUnavailable _ \<Rightarrow> True
     | _ \<Rightarrow> False)"

record worker =
  wk_wrapper :: news_wrapper
  wk_server :: nat
  wk_failures :: u32

datatype worker_next = WorkerLoop | WorkerBackoff millis | WorkerRetire

definition worker_start :: "nat \<Rightarrow> news_wrapper \<Rightarrow> worker" where
  "worker_start server w = \<lparr>wk_wrapper = w, wk_server = server, wk_failures = 0\<rparr>"

text \<open>
  One round of the worker's loop on a batch it popped; the caller applies \<open>note_completed\<close> for the
  whole batch, on every path.
\<close>

definition worker_round ::
  "heap \<Rightarrow> fetch_env \<Rightarrow> (work_item list \<Rightarrow> work_item list) \<Rightarrow> millis \<Rightarrow> server_config \<Rightarrow> millis \<Rightarrow>
    nntp_error + nntp_conn \<Rightarrow> work_item list \<Rightarrow> worker \<Rightarrow> (scheduler_msg list \<times> worker \<times> worker_next) option" where
  "worker_round h env ord article_timeout cfg now conn_result batch wk =
    (let fetch = (\<lambda>wk1.
           map_option (\<lambda>(msgs, w). (msgs, wk1\<lparr>wk_wrapper := w\<rparr>, WorkerLoop))
             (fetch_and_stream h env ord article_timeout (wk_server wk1) cfg batch (wk_wrapper wk1)))
     in if batch = [] then Some ([], wk, WorkerRetire)
        else if wrapper_is_connected (wk_wrapper wk) then fetch wk
        else
          (case wrapper_connect now conn_result (wk_wrapper wk) of
             (Inr _, w1) \<Rightarrow> fetch (wk\<lparr>wk_wrapper := w1, wk_failures := 0\<rparr>)
           | (Inl e, w1) \<Rightarrow>
               let failures = wk_failures wk + 1; wk1 = wk\<lparr>wk_wrapper := w1, wk_failures := failures\<rparr> in
               Some ([ReturnUnattempted batch (wk_server wk) (nntp_error_display e)], wk1,
                     if terminal_class e \<and> MAX_CONSECUTIVE_CONNECT_FAILURES \<le> failures then WorkerRetire
                     else WorkerBackoff (500 * unat (min failures 6)))))"

text \<open>Retirement: the last worker of a server hands the queue back.\<close>

definition worker_retire ::
  "nat \<Rightarrow> server \<Rightarrow> server_queue \<Rightarrow> scheduler_msg list \<times> server \<times> server_queue" where
  "worker_retire idx s q =
    (case unregister_wrapper s of (remaining, s1) \<Rightarrow>
       if remaining = 0 then
         (case drain_all q of (stranded, q1) \<Rightarrow>
            ((if stranded = [] then [] else [ReturnUnattempted stranded idx ''all wrapper workers retired''])
               @ [AllWrappersExited (sv_id s1)], s1, q1))
       else ([], s1, q))"

section \<open>A batch is answered\<close>

lemma submit_fold_requests:
  "pl_pending (fold (\<lambda>it. pipeline_submit (m it) (wi_tag it)) batch p) =
     pl_pending p @ map (\<lambda>it. \<lparr>pr_message_id = m it, pr_tag = wi_tag it\<rparr>) batch"
  "pl_in_flight (fold (\<lambda>it. pipeline_submit (m it) (wi_tag it)) batch p) = pl_in_flight p"
  "pl_depth (fold (\<lambda>it. pipeline_submit (m it) (wi_tag it)) batch p) = pl_depth p"
  by (induction batch arbitrary: p) (simp_all add: pipeline_submit_def)

lemma pend_insert_fold:
  "distinct (map wi_tag (m @ batch)) \<Longrightarrow> fold pend_insert batch m = m @ batch"
proof (induction batch arbitrary: m)
  case (Cons it batch)
  then have "filter (\<lambda>x. wi_tag x \<noteq> wi_tag it) m = m"
    by (intro filter_True) (metis Un_iff distinct.simps(2) distinct_append image_eqI list.set_map list.simps(9) map_append disjoint_iff list.set_intros(1))
  then have "pend_insert it m = m @ [it]" by (simp add: pend_insert_def)
  with Cons.IH [of "m @ [it]"] Cons.prems show ?case by simp
qed simp

text \<open>
  Between rounds: the outstanding requests are those of the items still in the map, in order, and
  every other item of the batch has its message.
\<close>

definition fetch_inv :: "work_item list \<Rightarrow> fetch_state \<Rightarrow> bool" where
  "fetch_inv batch fs \<longleftrightarrow>
    map pr_tag (requests (fs_pipeline fs)) = map wi_tag (fs_pending fs) \<and>
    distinct (map wi_tag (fs_pending fs)) \<and> 0 < pl_depth (fs_pipeline fs) \<and>
    (\<exists>done. batch = done @ fs_pending fs \<and>
       list_all2 (\<lambda>it m. \<exists>s res. m = FetchResult it s res) done (fs_msgs fs))"

lemma fetch_inv_start:
  assumes "distinct (map wi_tag batch)"
  shows "fetch_inv batch (fetch_start h depth batch w)"
  using assms pend_insert_fold [of "[]" batch]
  by (simp add: fetch_inv_def fetch_start_def submit_fold_requests pipeline_new_def comp_def)

end
