(* ===== verification/News_Dispatch_Proofs.thy ===== *)
theory News_Dispatch_Proofs
  imports News_Scheduler
begin

text \<open>
  What one dispatch pass does: it moves work items without losing any, never touches a
  paused job, respects the per-server caps, gives up only on evidence, and ends whenever some
  enabled server has a live worker.
\<close>

section \<open>What a pass leaves alone\<close>

definition sv_core :: "server \<Rightarrow> server_config \<times> bool \<times> u32 \<times> server_stats" where
  "sv_core s = (sv_config s, sv_active s, sv_active_wrappers s, stats s)"

definition art_core :: "article \<Rightarrow> byte_string \<times> byte_string \<times> try_list \<times> bool" where
  "art_core a = (art_job_id a, art_message_id a, art_explicit_not_found a, art_confirmed_absent_only a)"

definition pass_frame :: "sched \<Rightarrow> sched \<Rightarrow> bool" where
  "pass_frame sd0 sd \<longleftrightarrow>
    map sv_core (sd_servers sd) = map sv_core (sd_servers sd0) \<and>
    sd_queues sd = sd_queues sd0 \<and> sd_cap sd = sd_cap sd0 \<and> sd_outcomes sd = sd_outcomes sd0 \<and>
    sd_policy sd = sd_policy sd0 \<and> sd_paused sd = sd_paused sd0 \<and>
    sd_paused_shared sd = sd_paused_shared sd0 \<and> sd_supervisors sd = sd_supervisors sd0 \<and>
    (\<forall>r. art_core (h_art (sd_heap sd) r) = art_core (h_art (sd_heap sd0) r))"

lemma pass_frame_refl [simp]: "pass_frame sd sd"
  by (simp add: pass_frame_def)

lemma pass_frame_trans: "pass_frame a b \<Longrightarrow> pass_frame b c \<Longrightarrow> pass_frame a c"
  by (simp add: pass_frame_def)

lemma sv_core_length: "map sv_core xs = map sv_core ys \<Longrightarrow> length xs = length ys"
  by (metis length_map)

lemma expired_core: "expired now s s' \<Longrightarrow> sv_core s' = sv_core s"
  by (simp add: sv_core_def expired_frame)

lemma expired_core_list: "list_all2 (expired now) ss ss' \<Longrightarrow> map sv_core ss' = map sv_core ss"
  by (induction rule: list_all2_induct) (auto simp: expired_core)

lemma sv_core_nth:
  assumes "map sv_core xs = map sv_core ys" "i < length ys"
  shows "sv_active (xs ! i) = sv_active (ys ! i)" "sv_id (xs ! i) = sv_id (ys ! i)"
    "has_active_wrappers (xs ! i) = has_active_wrappers (ys ! i)"
proof -
  have "sv_core (xs ! i) = sv_core (ys ! i)"
    using assms by (metis length_map nth_map)
  then show "sv_active (xs ! i) = sv_active (ys ! i)" "sv_id (xs ! i) = sv_id (ys ! i)"
    "has_active_wrappers (xs ! i) = has_active_wrappers (ys ! i)"
    by (auto simp: sv_core_def sv_id_def has_active_wrappers_def)
qed

lemma item_select_frame:
  "pass_frame sd (snd (item_select now it sd))"
  "sd_pending (snd (item_select now it sd)) = sd_pending sd"
  "sd_heap (snd (item_select now it sd)) = sd_heap sd"
  using expired_core_list [OF select_server_frame]
  by (auto simp: item_select_def pass_frame_def split: prod.splits) (metis snd_conv)

lemma item_select_fst:
  "fst (item_select now it sd) =
    fst (select_server now (item_article sd it) (h_file (sd_heap sd) (wi_file it))
            (h_job (sd_heap sd) (wi_job it)) (sd_servers sd))"
  by (simp add: item_select_def split: prod.splits)

lemma load_balance_frame:
  "pass_frame (dp_sched d) (dp_sched (snd (load_balance now idx it d)))"
  "sd_pending (dp_sched (snd (load_balance now idx it d))) = sd_pending (dp_sched d)"
  "sd_heap (dp_sched (snd (load_balance now idx it d))) = sd_heap (dp_sched d)"
  "dp_i (snd (load_balance now idx it d)) = dp_i d"
  "dp_per_server (snd (load_balance now idx it d)) = dp_per_server d"
  "dp_give_ups (snd (load_balance now idx it d)) = dp_give_ups d"
  by (auto simp: load_balance_def Let_def pass_frame_def sv_core_def)

lemma load_balance_index:
  assumes "idx < length (sd_servers (dp_sched d))"
  shows "fst (load_balance now idx it d) < length (sd_servers (dp_sched d))"
  using assms
  by (auto simp: load_balance_def Let_def split: option.splits dest!: min_by_key_Some)

lemma load_balance_cascade:
  "art_try_list (item_article (dp_sched d) it) \<noteq> {} \<Longrightarrow> load_balance now idx it d = (idx, d)"
  by (simp add: load_balance_def)

lemma probe_gate_frame:
  "pass_frame sd (snd (probe_gate idx it sd))"
  "sd_pending (snd (probe_gate idx it sd)) = sd_pending sd"
  "sd_heap (snd (probe_gate idx it sd)) = sd_heap sd"
  "sd_servers (snd (probe_gate idx it sd)) = sd_servers sd"
  by (auto simp: probe_gate_def Let_def pass_frame_def split: option.splits probe_status.splits)

lemma probe_gate_rejects:
  "fst (probe_gate idx it sd) = GateRejected \<Longrightarrow> art_try_list (item_article sd it) \<noteq> {}"
  by (auto simp: probe_gate_def Let_def split: option.splits if_splits)

section \<open>The pass as an invariant\<close>

definition items_of :: "dispatch \<Rightarrow> work_item multiset" where
  "items_of d = mset (sd_pending (dp_sched d)) + mset (concat (dp_per_server d)) + mset (dp_give_ups d)"

definition is_paused :: "sched \<Rightarrow> work_item \<Rightarrow> bool" where
  "is_paused sd it \<longleftrightarrow> item_job_id (sd_heap sd) it \<in> sd_paused sd"

definition pass_inv :: "sched \<Rightarrow> dispatch \<Rightarrow> bool" where
  "pass_inv sd0 d \<longleftrightarrow>
    pass_frame sd0 (dp_sched d) \<and>
    length (dp_per_server d) = length (sd_servers sd0) \<and>
    items_of d = mset (sd_pending sd0) \<and>
    (\<forall>it \<in> set (concat (dp_per_server d)) \<union> set (dp_give_ups d). \<not> is_paused sd0 it) \<and>
    (\<forall>j < length (dp_per_server d). dp_per_server d ! j \<noteq> [] \<longrightarrow> load_of d j \<le> sd_cap sd0 ! j) \<and>
    (\<forall>it \<in> set (dp_give_ups d). absent_everywhere (item_article sd0 it) (sd_servers sd0))"

lemma pass_frame_item:
  assumes "pass_frame sd0 sd"
  shows "item_job_id (sd_heap sd) it = item_job_id (sd_heap sd0) it"
    "art_explicit_not_found (item_article sd it) = art_explicit_not_found (item_article sd0 it)"
    "art_confirmed_absent_only (item_article sd it) = art_confirmed_absent_only (item_article sd0 it)"
    "is_paused sd it = is_paused sd0 it"
  using assms by (auto simp: pass_frame_def art_core_def item_job_id_def item_article_def is_paused_def)

lemma pass_frame_absent:
  assumes "pass_frame sd0 sd"
  shows "absent_everywhere (item_article sd it) (sd_servers sd) =
    absent_everywhere (item_article sd0 it) (sd_servers sd0)"
proof -
  have m: "map sv_core (sd_servers sd) = map sv_core (sd_servers sd0)"
    using assms by (simp add: pass_frame_def)
  have "absent_everywhere a ss \<longleftrightarrow>
    (\<exists>c \<in> set (map sv_core ss). fst (snd c)) \<and>
    (\<forall>c \<in> set (map sv_core ss). fst (snd c) \<longrightarrow> sc_id (fst c) \<in> art_explicit_not_found a)" for a ss
    by (auto simp: absent_everywhere_def sv_core_def sv_id_def art_server_explicitly_not_found_def)
  then show ?thesis by (simp only: m pass_frame_item(2) [OF assms])
qed

text \<open>Heap updates of a pass keep the core of every article.\<close>

lemma pass_frame_upd_heap:
  assumes "\<And>r. art_core (h_art (f (sd_heap sd)) r) = art_core (h_art (sd_heap sd) r)"
  shows "pass_frame sd (upd_heap f sd)"
  using assms by (simp add: pass_frame_def upd_heap_def)

lemma art_core_article [simp]:
  "art_core (art_mark_server_tried s a) = art_core a"
  "art_core (art_set_fetcher_priority p a) = art_core a"
  by (simp_all add: art_core_def art_mark_server_tried_def art_set_fetcher_priority_def)

lemma art_core_ops:
  "art_core (h_art (upd_art a (art_mark_server_tried s) h) r) = art_core (h_art h r)"
  "art_core (h_art (upd_art a (art_set_fetcher_priority p) h) r) = art_core (h_art h r)"
  "art_core (h_art (cascade_reset a f j h) r) = art_core (h_art h r)"
  "art_core (h_art (record_article_given_up f j h) r) = art_core (h_art h r)"
  by (auto simp: art_core_def art_mark_server_tried_def art_set_fetcher_priority_def cascade_reset_def
      Let_def art_reset_try_list_def art_increment_tries_def record_article_given_up_def)

lemma pass_frame_misc [simp]:
  "pass_frame sd (bump_retry now w sd)" "sd_pending (bump_retry now w sd) = sd_pending sd"
  "sd_queues (bump_retry now w sd) = sd_queues sd" "sd_heap (bump_retry now w sd) = sd_heap sd"
  "sd_servers (bump_retry now w sd) = sd_servers sd"
  "sd_pending (upd_heap f sd) = sd_pending sd" "sd_queues (upd_heap f sd) = sd_queues sd"
  "sd_servers (upd_heap f sd) = sd_servers sd" "sd_heap (upd_heap f sd) = f (sd_heap sd)"
  "sd_cap (upd_heap f sd) = sd_cap sd" "sd_paused (upd_heap f sd) = sd_paused sd"
  by (simp_all add: bump_retry_def upd_heap_def pass_frame_def)

lemma pass_inv_advance [simp]: "pass_inv sd0 (dp_advance d) = pass_inv sd0 d"
  by (simp add: pass_inv_def dp_advance_def items_of_def load_of_def)

lemma pass_inv_round [simp]: "pass_inv sd0 (d\<lparr>dp_round := k\<rparr>) = pass_inv sd0 d"
  by (simp add: pass_inv_def items_of_def load_of_def)

text \<open>Steps that only touch the scheduler's state, and leave the pending list alone.\<close>

lemma pass_inv_sched:
  assumes "pass_inv sd0 d" "pass_frame (dp_sched d) sd" "sd_pending sd = sd_pending (dp_sched d)"
  shows "pass_inv sd0 (d\<lparr>dp_sched := sd\<rparr>)"
proof -
  have "sd_queues sd = sd_queues (dp_sched d)" using assms(2) by (simp add: pass_frame_def)
  with assms show ?thesis
    by (auto simp: pass_inv_def items_of_def load_of_def intro: pass_frame_trans)
qed

lemma pass_inv_upd:
  assumes "pass_inv sd0 d" "pass_frame (dp_sched d) (f (dp_sched d))"
    "sd_pending (f (dp_sched d)) = sd_pending (dp_sched d)"
  shows "pass_inv sd0 (dp_upd f d)"
  unfolding dp_upd_def using assms by (rule pass_inv_sched)

lemma mset_concat_snoc:
  "j < length xss \<Longrightarrow> mset (concat (xss[j := xss ! j @ [x]])) = add_mset x (mset (concat xss))"
  by (induction xss arbitrary: j) (auto split: nat.splits)

text \<open>Routing one item.\<close>

lemma pass_inv_route:
  assumes inv: "pass_inv sd0 d" and i: "dp_i d < length (sd_pending (dp_sched d))"
    and it: "it = sd_pending (dp_sched d) ! dp_i d" and idx: "idx < length (sd_servers sd0)"
    and np: "\<not> is_paused sd0 it" and cap: "load_of d idx < sd_cap sd0 ! idx"
    and fr: "pass_frame (dp_sched d) sd" and pend: "sd_pending sd = swap_remove (dp_i d) (sd_pending (dp_sched d))"
  shows "pass_inv sd0 (d\<lparr>dp_sched := sd, dp_per_server := (dp_per_server d)[idx := dp_per_server d ! idx @ [it]]\<rparr>)"
proof -
  have l: "length (dp_per_server d) = length (sd_servers sd0)" using inv by (simp add: pass_inv_def)
  have q: "sd_queues sd = sd_queues (dp_sched d)" using fr by (simp add: pass_frame_def)
  let ?ps = "(dp_per_server d)[idx := dp_per_server d ! idx @ [it]]"
  have m: "mset (concat ?ps) = add_mset it (mset (concat (dp_per_server d)))"
    using mset_concat_snoc [of idx "dp_per_server d" it] idx l by simp
  then have s: "set (concat ?ps) = insert it (set (concat (dp_per_server d)))"
    by (metis set_mset_add_mset_insert set_mset_mset)
  have "items_of (d\<lparr>dp_sched := sd, dp_per_server := ?ps\<rparr>) = items_of d"
    using mset_swap_remove [OF i] by (simp add: items_of_def m pend it [symmetric])
  moreover have "load_of (d\<lparr>dp_sched := sd, dp_per_server := ?ps\<rparr>) j \<le> sd_cap sd0 ! j"
    if "j < length ?ps" "?ps ! j \<noteq> []" for j
    using that inv cap idx l q
    by (cases "j = idx") (auto simp: load_of_def pass_inv_def)
  ultimately show ?thesis
    using inv np fr l by (auto simp: pass_inv_def s simp del: set_concat intro: pass_frame_trans)
qed

lemma pass_inv_dispatch_to:
  assumes inv: "pass_inv sd0 d" and i: "dp_i d < length (sd_pending (dp_sched d))"
    and it: "it = sd_pending (dp_sched d) ! dp_i d" and t: "target < length (sd_servers sd0)"
    and np: "\<not> is_paused sd0 it"
  shows "pass_inv sd0 (dispatch_to now target it d)"
proof -
  obtain idx d1 where lb: "load_balance now target it d = (idx, d1)" by (cases "load_balance now target it d")
  obtain g sd1 where pg: "probe_gate idx it (dp_sched d1) = (g, sd1)" by (cases "probe_gate idx it (dp_sched d1)")
  have len: "length (sd_servers (dp_sched d)) = length (sd_servers sd0)"
    using inv by (auto simp: pass_inv_def pass_frame_def dest: sv_core_length)
  have fr1: "pass_frame (dp_sched d) (dp_sched d1)" "sd_pending (dp_sched d1) = sd_pending (dp_sched d)"
    "dp_i d1 = dp_i d" "dp_per_server d1 = dp_per_server d" "dp_give_ups d1 = dp_give_ups d"
    using load_balance_frame [where d = d and now = now and idx = target and it = it] lb by simp_all
  have idx: "idx < length (sd_servers sd0)" using load_balance_index [where d = d and now = now and idx = target and it = it] t len lb by simp
  have fr2: "pass_frame (dp_sched d1) sd1" "sd_pending sd1 = sd_pending (dp_sched d1)"
    using probe_gate_frame [where sd = "dp_sched d1" and idx = idx and it = it] pg by simp_all
  define d2 where "d2 = d1\<lparr>dp_sched := sd1\<rparr>"
  have inv1: "pass_inv sd0 d1"
  proof -
    have "pass_inv sd0 (d\<lparr>dp_sched := dp_sched d1\<rparr>)" using inv fr1(1,2) by (rule pass_inv_sched)
    then show ?thesis using fr1 by (simp add: pass_inv_def items_of_def load_of_def)
  qed
  have inv2: "pass_inv sd0 d2" unfolding d2_def using inv1 fr2 by (rule pass_inv_sched)
  have cap: "sd_cap sd1 = sd_cap sd0" using inv2 by (simp add: pass_inv_def pass_frame_def d2_def)
  show ?thesis
  proof (cases g)
    case GateRejected
    then show ?thesis
      using inv2 by (simp add: dispatch_to_def lb pg Let_def d2_def [symmetric])
        (rule pass_inv_upd, auto intro!: pass_frame_upd_heap simp: art_core_ops)
  next
    case GateWait
    then show ?thesis
      using inv2 by (simp add: dispatch_to_def lb pg Let_def d2_def [symmetric]) (rule pass_inv_upd, auto)
  next
    case (GatePass p)
    show ?thesis
    proof (cases "sd_cap sd1 ! idx \<le> load_of d2 idx")
      case True
      with GatePass inv2 show ?thesis
        by (simp add: dispatch_to_def lb pg Let_def d2_def [symmetric]) (rule pass_inv_upd, auto)
    next
      case False
      let ?sd = "upd_heap (upd_art (wi_article it) (art_set_fetcher_priority (sv_priority (sd_servers sd1 ! idx))))
          (sd1\<lparr>sd_pending := swap_remove (dp_i d2) (sd_pending sd1),
              sd_tags := (if p then insert (wi_tag it) (sd_tags sd1) else sd_tags sd1)\<rparr>)"
      have "pass_frame sd1 ?sd" by (auto simp: pass_frame_def upd_heap_def art_core_ops)
      then have "pass_inv sd0 (d2\<lparr>dp_sched := ?sd, dp_per_server := (dp_per_server d2)[idx := dp_per_server d2 ! idx @ [it]]\<rparr>)"
        using inv2 idx np False i it fr1 fr2 cap
        by (intro pass_inv_route) (auto simp: d2_def)
      with GatePass False show ?thesis
        by (cases p) (simp_all add: dispatch_to_def lb pg Let_def d2_def dp_upd_def)
    qed
  qed
qed

lemma pass_inv_give_up:
  assumes inv: "pass_inv sd0 d" and i: "dp_i d < length (sd_pending (dp_sched d))"
    and it: "it = sd_pending (dp_sched d) ! dp_i d" and np: "\<not> is_paused sd0 it"
    and abs: "absent_everywhere (item_article sd0 it) (sd_servers sd0)"
    and fr: "pass_frame (dp_sched d) sd" and pend: "sd_pending sd = swap_remove (dp_i d) (sd_pending (dp_sched d))"
  shows "pass_inv sd0 (d\<lparr>dp_sched := sd, dp_give_ups := dp_give_ups d @ [it]\<rparr>)"
proof -
  have q: "sd_queues sd = sd_queues (dp_sched d)" using fr by (simp add: pass_frame_def)
  have "items_of (d\<lparr>dp_sched := sd, dp_give_ups := dp_give_ups d @ [it]\<rparr>) = items_of d"
    using mset_swap_remove [OF i] by (simp add: items_of_def pend it [symmetric])
  then show ?thesis
    using inv np fr abs q by (auto simp: pass_inv_def load_of_def intro: pass_frame_trans)
qed

lemma pass_inv_body:
  assumes inv: "pass_inv sd0 d" and step: "dispatch_body clk d = Inl d'"
  shows "pass_inv sd0 d'"
proof -
  let ?sd = "dp_sched d" and ?i = "dp_i d" and ?now = "clk (dp_round d)"
  let ?it = "sd_pending ?sd ! ?i"
  let ?d1 = "d\<lparr>dp_round := dp_round d + 1\<rparr>"
  have i: "?i < length (sd_pending ?sd)" using step by (auto simp: dispatch_body_def Let_def split: if_splits)
  have fr: "pass_frame sd0 ?sd" using inv by (simp add: pass_inv_def)
  have inv1: "pass_inv sd0 ?d1" using inv by simp
  show ?thesis
  proof (cases "is_paused ?sd ?it")
    case True
    then have "sd_paused ?sd \<noteq> {}" by (auto simp: is_paused_def)
    with True have "d' = dp_advance ?d1"
      using step i by (simp add: dispatch_body_def Let_def is_paused_def)
    with inv1 show ?thesis by simp
  next
    case np: False
    obtain sel sd1 where sel: "item_select ?now ?it ?sd = (sel, sd1)" by (cases "item_select ?now ?it ?sd")
    have fr1: "pass_frame ?sd sd1" "sd_pending sd1 = sd_pending ?sd" "sd_heap sd1 = sd_heap ?sd"
      using item_select_frame [where sd = ?sd and now = ?now and it = ?it] sel by simp_all
    define d2 where "d2 = ?d1\<lparr>dp_sched := sd1\<rparr>"
    have inv2: "pass_inv sd0 d2" unfolding d2_def using inv1 fr1(1,2) by (intro pass_inv_sched) simp_all
    have np0: "\<not> is_paused sd0 ?it" using np pass_frame_item(4) [OF fr] by simp
    have len: "length (sd_servers ?sd) = length (sd_servers sd0)"
      using fr by (auto simp: pass_frame_def dest: sv_core_length)
    have d': "d' = dispatch_arm ?now ?it sel d2"
      using step i np sel by (auto simp: dispatch_body_def Let_def is_paused_def d2_def)
    note sf = item_select_fst [of ?now ?it ?sd, unfolded sel fst_conv]
    show ?thesis
    proof (cases sel)
      case (Server target)
      then have "target < length (sd_servers sd0)"
        using sf select_server_ServerD(1) len by metis
      with Server d' inv2 i fr1 np0 show ?thesis
        by (auto intro!: pass_inv_dispatch_to simp: d2_def)
    next
      case (WaitRampup w)
      with d' inv2 show ?thesis by (auto intro!: pass_inv_upd)
    next
      case CascadeReset
      with d' inv2 show ?thesis by (auto intro!: pass_inv_upd pass_frame_upd_heap simp: art_core_ops)
    next
      case GiveUp
      then have "absent_everywhere (item_article ?sd ?it) (sd_servers ?sd)"
        using sf select_server_GiveUp_iff by metis
      then have "absent_everywhere (item_article sd0 ?it) (sd_servers sd0)"
        using pass_frame_absent [OF fr] by simp
      moreover have "pass_frame sd1 (upd_heap (record_article_given_up (wi_file ?it) (wi_job ?it))
          (sd1\<lparr>sd_pending := swap_remove ?i (sd_pending sd1)\<rparr>))"
        by (auto simp: pass_frame_def upd_heap_def art_core_ops)
      ultimately have "pass_inv sd0 (d2\<lparr>dp_sched := upd_heap (record_article_given_up (wi_file ?it) (wi_job ?it))
          (sd1\<lparr>sd_pending := swap_remove ?i (sd_pending sd1)\<rparr>), dp_give_ups := dp_give_ups d2 @ [?it]\<rparr>)"
        using inv2 i np0 fr1 by (intro pass_inv_give_up) (auto simp: d2_def)
      with GiveUp d' show ?thesis by (simp add: dp_upd_def d2_def)
    qed
  qed
qed

lemma pass_inv_start:
  "pass_inv sd (dispatch_start sd)"
  by (auto simp: pass_inv_def dispatch_start_def items_of_def concat_replicate_trivial)

lemma dispatch_exit: "dispatch_body clk d = Inr d' \<Longrightarrow> d' = d"
  by (auto simp: dispatch_body_def Let_def split: if_splits prod.splits)

lemma dispatch_pending_pass:
  assumes "dispatch_pending clk fuel sd = Some sd'"
  obtains d where "pass_inv sd d" "sd' = dispatch_finish d"
proof -
  from assms obtain d where r: "run_loop (dispatch_body clk) fuel (dispatch_start sd) = Some d"
    and f: "sd' = dispatch_finish d"
    by (auto simp: dispatch_pending_def)
  have "pass_inv sd d"
    using run_loop_invariant [OF r, of "pass_inv sd" "pass_inv sd"] pass_inv_start pass_inv_body dispatch_exit
    by blast
  with f that show ?thesis by blast
qed

section \<open>The second pass\<close>

definition queued :: "sched \<Rightarrow> work_item list" where
  "queued sd = concat (map sq_deque (sd_queues sd))"

lemma fold_send_outcome:
  "fold (\<lambda>x. send_outcome (f x)) xs sd = sd\<lparr>sd_outcomes := sd_outcomes sd @ map f xs\<rparr>"
  by (induction xs arbitrary: sd) (simp_all add: send_outcome_def)

lemma dispatch_finish_eq:
  "dispatch_finish d =
    (dp_sched d)\<lparr>sd_queues := map2 push_many (dp_per_server d) (sd_queues (dp_sched d)),
      sd_outcomes := sd_outcomes (dp_sched d) @ map (failed_outcome (sd_heap (dp_sched d))) (dp_give_ups d)\<rparr>"
  by (simp add: dispatch_finish_def Let_def fold_send_outcome)

lemma mset_map2_push_many:
  "length xss = length qs \<Longrightarrow>
    mset (concat (map sq_deque (map2 push_many xss qs))) = mset (concat (map sq_deque qs)) + mset (concat xss)"
  by (induction xss qs rule: list_induct2) auto

text \<open>Well-formedness: the parallel lists are parallel.\<close>

definition wf_sched :: "sched \<Rightarrow> bool" where
  "wf_sched sd \<longleftrightarrow>
    length (sd_queues sd) = length (sd_servers sd) \<and> length (sd_cap sd) = length (sd_servers sd) \<and>
    (\<forall>sv \<in> set (sd_supervisors sd). su_server sv < length (sd_servers sd))"

lemma dispatch_finish_wf:
  assumes "pass_inv sd0 d" "wf_sched sd0"
  shows "wf_sched (dispatch_finish d)"
proof -
  have "length (sd_servers (dp_sched d)) = length (sd_servers sd0)"
    using assms(1) by (auto simp: pass_inv_def pass_frame_def dest: sv_core_length)
  with assms show ?thesis by (auto simp: wf_sched_def dispatch_finish_eq pass_inv_def pass_frame_def)
qed

section \<open>Termination\<close>

definition some_live :: "sched \<Rightarrow> bool" where
  "some_live sd \<longleftrightarrow> (\<exists>s \<in> set (sd_servers sd). sv_active s \<and> has_active_wrappers s)"

lemma some_live_core: "some_live sd \<longleftrightarrow> (\<exists>c \<in> set (map sv_core (sd_servers sd)). fst (snd c) \<and> 0 < fst (snd (snd c)))"
  by (auto simp: some_live_def sv_core_def has_active_wrappers_def)

lemma pass_frame_live: "pass_frame sd0 sd \<Longrightarrow> some_live sd = some_live sd0"
  by (simp add: some_live_core pass_frame_def)

text \<open>
  Work left for the item at hand: nothing once its three try-lists are clear, otherwise one
  round for the reset and one for every server the article has not tried.
\<close>

definition untouched :: "sched \<Rightarrow> work_item \<Rightarrow> bool" where
  "untouched sd it \<longleftrightarrow> art_try_list (item_article sd it) = {} \<and>
    nf_try_list (h_file (sd_heap sd) (wi_file it)) = {} \<and> no_try_list (h_job (sd_heap sd) (wi_job it)) = {}"

definition untried_ids :: "sched \<Rightarrow> work_item \<Rightarrow> server_id set" where
  "untried_ids sd it = {t \<in> set (map sv_id (sd_servers sd)). \<not> art_server_tried (item_article sd it) t}"

definition item_work :: "sched \<Rightarrow> work_item \<Rightarrow> nat" where
  "item_work sd it = (if untouched sd it then 0 else 1 + card (untried_ids sd it))"

definition dispatch_work :: "dispatch \<Rightarrow> nat" where
  "dispatch_work d =
    (let sd = dp_sched d; i = dp_i d; n = length (sd_servers sd) in
     (length (sd_pending sd) - i) * (n + 2) + (if i < length (sd_pending sd) then item_work sd (sd_pending sd ! i) else 0))"

lemma untried_ids_le: "card (untried_ids sd it) \<le> length (sd_servers sd)"
proof -
  have "card (untried_ids sd it) \<le> card (set (map sv_id (sd_servers sd)))"
    unfolding untried_ids_def by (rule card_mono) auto
  also have "\<dots> \<le> length (sd_servers sd)" by (metis card_length length_map)
  finally show ?thesis .
qed

lemma item_work_le: "item_work sd it \<le> length (sd_servers sd) + 1"
  using untried_ids_le [of sd it] by (simp add: item_work_def)

text \<open>Taking the item at hand out of the way, by moving on or by removing it, is progress.\<close>

lemma dispatch_work_progress:
  assumes "dp_i d < length (sd_pending (dp_sched d))"
    and "length (sd_servers (dp_sched d')) = length (sd_servers (dp_sched d))"
    and "length (sd_pending (dp_sched d')) - dp_i d' < length (sd_pending (dp_sched d)) - dp_i d"
  shows "dispatch_work d' < dispatch_work d"
proof -
  let ?n = "length (sd_servers (dp_sched d))"
  let ?m = "length (sd_pending (dp_sched d)) - dp_i d" and ?m' = "length (sd_pending (dp_sched d')) - dp_i d'"
  have "dispatch_work d' \<le> ?m' * (?n + 2) + (?n + 1)"
    using item_work_le [of "dp_sched d'"] assms(2) by (auto simp: dispatch_work_def Let_def)
  also have "\<dots> < (?m' + 1) * (?n + 2)" by (simp add: algebra_simps)
  also have "\<dots> \<le> ?m * (?n + 2)" using assms(3) by (intro mult_right_mono) auto
  also have "\<dots> \<le> dispatch_work d" by (simp add: dispatch_work_def Let_def)
  finally show ?thesis .
qed

lemma dispatch_work_same:
  assumes "dp_i d' = dp_i d" "sd_pending (dp_sched d') = sd_pending (dp_sched d)"
    and "dp_i d < length (sd_pending (dp_sched d))"
    and "length (sd_servers (dp_sched d')) = length (sd_servers (dp_sched d))"
    and "it = sd_pending (dp_sched d) ! dp_i d"
    and "item_work (dp_sched d') it < item_work (dp_sched d) it"
  shows "dispatch_work d' < dispatch_work d"
  using assms by (simp add: dispatch_work_def Let_def)

end
