(* ===== verification/News_Pass.thy ===== *)
theory News_Pass
  imports News_Dispatch_Proofs
begin

text \<open>
  Termination and properties of the dispatch pass (\<open>dispatch_pending\<close>,
  \<open>crates/nzb-news/src/downloader.rs\<close>).
\<close>

section \<open>Every round makes progress when a server is live\<close>

lemma sv_core_ids: "map sv_core xs = map sv_core ys \<Longrightarrow> map sv_id xs = map sv_id ys"
proof -
  assume a: "map sv_core xs = map sv_core ys"
  have "map sv_id zs = map (\<lambda>c. sc_id (fst c)) (map sv_core zs)" for zs
    by (simp add: sv_core_def sv_id_def)
  then show ?thesis using a by metis
qed

lemma item_work_cong:
  assumes "pass_frame sd sd'" "sd_heap sd' = sd_heap sd"
  shows "item_work sd' it = item_work sd it"
  using assms sv_core_ids [of "sd_servers sd'" "sd_servers sd"]
  by (simp add: item_work_def untouched_def untried_ids_def item_article_def pass_frame_def del: set_map)

lemma dispatch_work_cong:
  assumes "pass_frame (dp_sched d) sd'" "sd_heap sd' = sd_heap (dp_sched d)"
    "sd_pending sd' = sd_pending (dp_sched d)"
  shows "dispatch_work (d\<lparr>dp_sched := sd'\<rparr>) = dispatch_work d"
proof -
  have "length (sd_servers sd') = length (sd_servers (dp_sched d))"
    using assms(1) by (auto simp: pass_frame_def dest: sv_core_length)
  then show ?thesis using assms(3) by (simp add: dispatch_work_def Let_def item_work_cong [OF assms(1,2)])
qed

lemma dispatch_work_round [simp]: "dispatch_work (d\<lparr>dp_round := k\<rparr>) = dispatch_work d"
  by (simp add: dispatch_work_def)

lemma pass_frame_length: "pass_frame sd sd' \<Longrightarrow> length (sd_servers sd') = length (sd_servers sd)"
  by (auto simp: pass_frame_def dest: sv_core_length)

lemma item_work_mark:
  assumes "s \<in> set (map sv_id (sd_servers sd))" "\<not> art_server_tried (item_article sd it) s"
    and "art_try_list (item_article sd it) \<noteq> {}"
  shows "item_work (upd_heap (upd_art (wi_article it) (art_mark_server_tried s)) sd) it < item_work sd it"
proof -
  have "card (untried_ids (upd_heap (upd_art (wi_article it) (art_mark_server_tried s)) sd) it) < card (untried_ids sd it)"
    unfolding untried_ids_def
    using art_excl.candidates_shrink [OF assms(1,2)] by (simp add: item_article_def del: set_map)
  then show ?thesis using assms(3)
    by (auto simp: item_work_def untouched_def item_article_def art_mark_server_tried_def)
qed

lemma dispatch_to_work:
  assumes i: "dp_i d < length (sd_pending (dp_sched d))" and it: "it = sd_pending (dp_sched d) ! dp_i d"
    and t: "target < length (sd_servers (dp_sched d))"
    and u: "\<not> art_server_tried (item_article (dp_sched d) it) (sv_id (sd_servers (dp_sched d) ! target))"
  shows "dispatch_work (dispatch_to now target it d) < dispatch_work d"
proof -
  obtain idx d1 where lb: "load_balance now target it d = (idx, d1)" by (cases "load_balance now target it d")
  obtain g sd1 where pg: "probe_gate idx it (dp_sched d1) = (g, sd1)" by (cases "probe_gate idx it (dp_sched d1)")
  note f1 = load_balance_frame [where d = d and now = now and idx = target and it = it, unfolded lb snd_conv]
  note f2 = probe_gate_frame [where sd = "dp_sched d1" and idx = idx and it = it, unfolded pg snd_conv]
  have fr: "pass_frame (dp_sched d) sd1" "sd_pending sd1 = sd_pending (dp_sched d)" "sd_heap sd1 = sd_heap (dp_sched d)"
    using f1 f2 pass_frame_trans by simp_all
  have len: "length (sd_servers sd1) = length (sd_servers (dp_sched d))" using fr(1) by (rule pass_frame_length)
  show ?thesis
  proof (cases g)
    case GateRejected
    let ?s = "sv_id (sd_servers sd1 ! idx)"
    let ?sd = "upd_heap (upd_art (wi_article it) (art_mark_server_tried ?s)) sd1"
    have ne: "art_try_list (item_article (dp_sched d) it) \<noteq> {}"
      using probe_gate_rejects [of idx it "dp_sched d1"] pg GateRejected f1 by (simp add: item_article_def)
    then have [simp]: "idx = target" "d1 = d" using load_balance_cascade [OF ne] lb by auto
    have ids: "map sv_id (sd_servers sd1) = map sv_id (sd_servers (dp_sched d))" using f2(4) by simp
    have "item_work ?sd it < item_work sd1 it"
    proof (rule item_work_mark)
      show "?s \<in> set (map sv_id (sd_servers sd1))" using t len by simp
      show "\<not> art_server_tried (item_article sd1 it) ?s" using u f2 fr by (simp add: item_article_def)
      show "art_try_list (item_article sd1 it) \<noteq> {}" using ne fr by (simp add: item_article_def)
    qed
    also have "item_work sd1 it = item_work (dp_sched d) it" using fr(1,3) by (rule item_work_cong)
    finally have w: "item_work ?sd it < item_work (dp_sched d) it" .
    have e: "dispatch_to now target it d = d\<lparr>dp_sched := ?sd\<rparr>"
      using GateRejected lb pg by (simp add: dispatch_to_def Let_def dp_upd_def)
    show ?thesis unfolding e
      using w i it len fr(2) by (intro dispatch_work_same [where it = it]) simp_all
  next
    case GateWait
    have e: "dispatch_to now target it d = dp_advance (d1\<lparr>dp_sched := bump_retry now 50 sd1\<rparr>)"
      using GateWait lb pg by (simp add: dispatch_to_def Let_def dp_upd_def)
    show ?thesis unfolding e
      using i len fr f1 by (intro dispatch_work_progress) (simp_all add: dp_advance_def)
  next
    case (GatePass p)
    show ?thesis
    proof (cases "sd_cap sd1 ! idx \<le> load_of (d1\<lparr>dp_sched := sd1\<rparr>) idx")
      case True
      have e: "dispatch_to now target it d = dp_advance (d1\<lparr>dp_sched := bump_retry now 25 sd1\<rparr>)"
        using GatePass True lb pg by (simp add: dispatch_to_def Let_def dp_upd_def)
      show ?thesis unfolding e
        using i len fr f1 by (intro dispatch_work_progress) (simp_all add: dp_advance_def)
    next
      case False
      have e: "sd_servers (dp_sched (dispatch_to now target it d)) = sd_servers sd1"
        "length (sd_pending (dp_sched (dispatch_to now target it d))) = length (sd_pending sd1) - 1"
        "dp_i (dispatch_to now target it d) = dp_i d1"
        using GatePass False lb pg by (simp_all add: dispatch_to_def Let_def dp_upd_def)
      show ?thesis
        using i len fr f1 e by (intro dispatch_work_progress) simp_all
    qed
  qed
qed

lemma dispatch_arm_work:
  assumes i: "dp_i d < length (sd_pending (dp_sched d))" and it: "it = sd_pending (dp_sched d) ! dp_i d"
    and live: "some_live sd" and sel: "sel = fst (item_select now it sd)"
    and fr: "pass_frame sd (dp_sched d)" and hp: "sd_heap (dp_sched d) = sd_heap sd"
  shows "dispatch_work (dispatch_arm now it sel d) < dispatch_work d"
proof (cases sel)
  case (Server target)
  note D = select_server_ServerD [OF trans [OF sel [unfolded item_select_fst, symmetric] Server]]
  have c: "map sv_core (sd_servers (dp_sched d)) = map sv_core (sd_servers sd)"
    using fr by (simp add: pass_frame_def)
  have "\<not> art_server_tried (item_article (dp_sched d) it) (sv_id (sd_servers (dp_sched d) ! target))"
    using D(2) sv_core_nth(2) [OF c D(1)] hp
    by (simp add: dispatchable_def candidate_def tried_somewhere_def item_article_def)
  then show ?thesis unfolding Server dispatch_arm.simps
    using i it D(1) pass_frame_length [OF fr] by (intro dispatch_to_work) simp_all
next
  case (WaitRampup w)
  have e: "dispatch_arm now it sel d = dp_advance (d\<lparr>dp_sched := bump_retry now w (dp_sched d)\<rparr>)"
    using WaitRampup by (simp add: dp_upd_def)
  show ?thesis unfolding e using i by (intro dispatch_work_progress) (simp_all add: dp_advance_def)
next
  case CascadeReset
  let ?sd = "upd_heap (cascade_reset (wi_article it) (wi_file it) (wi_job it)) (dp_sched d)"
  have nc: "\<not> (\<exists>s \<in> set (sd_servers sd). candidate (tried_somewhere (item_article sd it)
      (h_file (sd_heap sd) (wi_file it)) (h_job (sd_heap sd) (wi_job it))) s)"
    using CascadeReset sel unfolding item_select_fst by (metis select_server_CascadeReset_iff)
  have "\<not> untouched (dp_sched d) it"
    using nc live hp by (auto simp: some_live_def candidate_def untouched_def tried_somewhere_def
        art_server_tried_def file_server_tried_def job_server_tried_def item_article_def)
  moreover have "untouched ?sd it"
    by (auto simp: untouched_def item_article_def cascade_reset_def Let_def art_reset_try_list_def
        art_increment_tries_def file_reset_try_list_def job_reset_try_list_def)
  ultimately have w: "item_work ?sd it < item_work (dp_sched d) it" by (simp add: item_work_def)
  have e: "dispatch_arm now it sel d = d\<lparr>dp_sched := ?sd\<rparr>" using CascadeReset by (simp add: dp_upd_def)
  show ?thesis unfolding e
    using w i it by (intro dispatch_work_same [where it = it]) simp_all
next
  case GiveUp
  have e: "sd_servers (dp_sched (dispatch_arm now it sel d)) = sd_servers (dp_sched d)"
    "length (sd_pending (dp_sched (dispatch_arm now it sel d))) = length (sd_pending (dp_sched d)) - 1"
    "dp_i (dispatch_arm now it sel d) = dp_i d"
    using GiveUp by (simp_all add: dp_upd_def)
  show ?thesis using i e by (intro dispatch_work_progress) simp_all
qed

text \<open>A round in general.\<close>

lemma dispatch_body_cases:
  assumes "dispatch_body clk d = Inl d'"
  obtains (paused) "dp_i d < length (sd_pending (dp_sched d))" "is_paused (dp_sched d) (sd_pending (dp_sched d) ! dp_i d)"
      "d' = dp_advance (d\<lparr>dp_round := dp_round d + 1\<rparr>)"
  | (select) sel sd1 where "dp_i d < length (sd_pending (dp_sched d))"
      "\<not> is_paused (dp_sched d) (sd_pending (dp_sched d) ! dp_i d)"
      "item_select (clk (dp_round d)) (sd_pending (dp_sched d) ! dp_i d) (dp_sched d) = (sel, sd1)"
      "d' = dispatch_arm (clk (dp_round d)) (sd_pending (dp_sched d) ! dp_i d) sel
              (d\<lparr>dp_round := dp_round d + 1, dp_sched := sd1\<rparr>)"
  using assms by (auto simp: dispatch_body_def Let_def is_paused_def split: if_splits prod.splits)

lemma dispatch_body_work:
  assumes live: "some_live (dp_sched d)" and step: "dispatch_body clk d = Inl d'"
  shows "dispatch_work d' < dispatch_work d"
  using step
proof (cases rule: dispatch_body_cases)
  case paused
  then show ?thesis by (intro dispatch_work_progress) (simp_all add: dp_advance_def)
next
  case (select sel sd1)
  let ?now = "clk (dp_round d)" and ?it = "sd_pending (dp_sched d) ! dp_i d"
  let ?d2 = "d\<lparr>dp_round := dp_round d + 1, dp_sched := sd1\<rparr>"
  note f = item_select_frame [where sd = "dp_sched d" and now = ?now and it = ?it, unfolded select(3) snd_conv]
  have "dispatch_work (dispatch_arm ?now ?it sel ?d2) < dispatch_work ?d2"
    using select(1,3) live f by (intro dispatch_arm_work [where sd = "dp_sched d"]) simp_all
  also have "dispatch_work ?d2 = dispatch_work (d\<lparr>dp_round := dp_round d + 1\<rparr>)"
    using dispatch_work_cong [of "d\<lparr>dp_round := dp_round d + 1\<rparr>" sd1] f by simp
  finally show ?thesis using select(4) by simp
qed

interpretation pass_loop: loop_body "dispatch_body clk" "\<lambda>d. some_live sd0 \<and> pass_inv sd0 d" dispatch_work
  for clk sd0
proof unfold_locales
  fix d d' :: dispatch
  assume "some_live sd0 \<and> pass_inv sd0 d" and "dispatch_body clk d = Inl d'"
  moreover from this have "some_live (dp_sched d)"
    by (auto simp: pass_inv_def pass_frame_live)
  ultimately show "some_live sd0 \<and> pass_inv sd0 d'" "dispatch_work d' < dispatch_work d"
    using pass_inv_body dispatch_body_work by blast+
qed

text \<open>Rounds that are always enough.\<close>

definition dispatch_fuel :: "sched \<Rightarrow> nat" where
  "dispatch_fuel sd = (length (sd_pending sd) + 1) * (length (sd_servers sd) + 2)"

lemma dispatch_work_start: "dispatch_work (dispatch_start sd) < dispatch_fuel sd"
  using item_work_le [of sd "sd_pending sd ! 0"]
  by (auto simp: dispatch_work_def dispatch_start_def dispatch_fuel_def Let_def)

section \<open>Properties\<close>

text \<open>A small scheduler state for the witnesses: one live provider, one article.\<close>

definition demo_heap :: heap where
  "demo_heap = \<lparr>h_art = (\<lambda>_. article_new ''m'' ''f'' ''j'' 10 1 1),
    h_file = (\<lambda>_. nzb_file_new ''f'' ''j'' ''n'' 1), h_job = (\<lambda>_. nzb_object_new ''j'' ''n'' 1 10 [0])\<rparr>"

definition demo_item :: work_item where
  "demo_item = \<lparr>wi_tag = 7, wi_article = 0, wi_file = 0, wi_job = 0\<rparr>"

definition demo_sched :: sched where
  "demo_sched = (sched_start 0 (Some probe_policy_default) demo_heap [demo_server ''a'' 0])
    \<lparr>sd_pending := [demo_item]\<rparr>"

lemma demo_live: "some_live demo_sched"
proof -
  have "sv_active (demo_server ''a'' 0)" "has_active_wrappers (demo_server ''a'' 0)" by code_simp+
  then show ?thesis by (simp add: some_live_def demo_sched_def sched_start_def)
qed

lemma demo_wf: "wf_sched demo_sched"
  by (simp add: wf_sched_def demo_sched_def sched_start_def supervisor_new_def)

lemma dispatch_returns:
  assumes "some_live sd"
  shows "\<exists>sd'. \<forall>k. dispatch_pending clk (dispatch_fuel sd + k) sd = Some sd'"
proof -
  obtain d where "run_loop (dispatch_body clk) (dispatch_fuel sd) (dispatch_start sd) = Some d"
    using pass_loop.returns [OF _ dispatch_work_start, of sd sd clk] assms pass_inv_start by blast
  then have "run_loop (dispatch_body clk) (dispatch_fuel sd + k) (dispatch_start sd) = Some d" for k
    by (rule run_loop_mono) simp
  then show ?thesis by (auto simp: dispatch_pending_def)
qed

text \<open>C7. The dispatch pass ends: whenever some enabled server has a live worker, the pass returns within
  (pending + 1) * (servers + 2) rounds, whatever the clock does meanwhile, and allowing it more
  rounds does not change the result.\<close>

theorem dispatch_pass_terminates:
  assumes "\<exists>s \<in> set (sd_servers sd). sv_active s \<and> has_active_wrappers s"
  shows "\<exists>sd'. \<forall>k. dispatch_pending clk ((length (sd_pending sd) + 1) * (length (sd_servers sd) + 2) + k) sd = Some sd'"
  using dispatch_returns [of sd clk] assms by (simp add: some_live_def dispatch_fuel_def)

theorem dispatch_pass_terminates_witness:
  "\<exists>sd'. dispatch_pending (\<lambda>n. 5 * n) 6 demo_sched = Some sd'"
proof -
  have l: "(length (sd_pending demo_sched) + 1) * (length (sd_servers demo_sched) + 2) + 0 = 6"
    by (simp add: demo_sched_def sched_start_def)
  have "\<exists>sd'. dispatch_pending (\<lambda>n. 5 * n)
      ((length (sd_pending demo_sched) + 1) * (length (sd_servers demo_sched) + 2) + 0) demo_sched = Some sd'"
    using dispatch_pass_terminates [OF demo_live [unfolded some_live_def], of "\<lambda>n. 5 * n"] by blast
  then show ?thesis by (simp only: l)
qed

text \<open>The tags a scheduler state answers for: waiting, queued, or already reported.\<close>

definition accounted :: "sched \<Rightarrow> work_tag multiset" where
  "accounted sd =
    image_mset wi_tag (mset (sd_pending sd) + mset (queued sd)) + mset (map fo_tag (sd_outcomes sd))"

lemma dispatch_finish_accounted:
  assumes "pass_inv sd d" "wf_sched sd"
  shows "accounted (dispatch_finish d) = accounted sd"
proof -
  have l: "length (dp_per_server d) = length (sd_queues (dp_sched d))" "sd_queues (dp_sched d) = sd_queues sd"
    "sd_outcomes (dp_sched d) = sd_outcomes sd"
    using assms by (auto simp: pass_inv_def pass_frame_def wf_sched_def)
  have q: "mset (queued (dispatch_finish d)) = mset (queued sd) + mset (concat (dp_per_server d))"
    using mset_map2_push_many [OF l(1)] l(2) by (simp add: queued_def dispatch_finish_eq)
  have f: "fo_tag \<circ> failed_outcome h = wi_tag" for h
    by (simp add: fun_eq_iff failed_outcome_def Let_def)
  have "accounted (dispatch_finish d) =
      image_mset wi_tag (mset (sd_pending (dp_sched d)) + mset (queued (dispatch_finish d)) + mset (dp_give_ups d))
      + mset (map fo_tag (sd_outcomes sd))"
    using f by (simp add: accounted_def dispatch_finish_eq l(3))
  also have "mset (sd_pending (dp_sched d)) + mset (queued (dispatch_finish d)) + mset (dp_give_ups d)
      = items_of d + mset (queued sd)"
    by (simp add: q items_of_def)
  also have "items_of d = mset (sd_pending sd)" using assms(1) by (simp add: pass_inv_def)
  finally show ?thesis by (simp add: accounted_def)
qed

text \<open>C2. Nothing is lost in dispatch: a pass moves every pending article to exactly one of the pending
  list, a server queue, or a reported failure, and touches no other article.\<close>

theorem dispatch_pass_conserves:
  assumes "dispatch_pending clk fuel sd = Some sd'" "wf_sched sd"
  shows "accounted sd' = accounted sd \<and> wf_sched sd'"
  using assms(1)
proof (rule dispatch_pending_pass)
  fix d assume "pass_inv sd d" "sd' = dispatch_finish d"
  then show ?thesis using assms(2) dispatch_finish_accounted dispatch_finish_wf by simp
qed

theorem dispatch_pass_conserves_witness:
  "\<exists>sd'. dispatch_pending (\<lambda>n. 5 * n) (dispatch_fuel demo_sched) demo_sched = Some sd' \<and>
    accounted sd' = accounted demo_sched"
proof -
  obtain sd' where "dispatch_pending (\<lambda>n. 5 * n) (dispatch_fuel demo_sched + 0) demo_sched = Some sd'"
    using dispatch_returns [OF demo_live] by blast
  with dispatch_pass_conserves [OF this demo_wf] show ?thesis by simp
qed

lemma filter_mset_none: "(\<forall>x \<in># M. \<not> P x) \<Longrightarrow> filter_mset P M = {#}"
  by (metis filter_mset_False filter_mset_cong)

text \<open>Paused jobs stand still: a pass leaves every pending article of a paused job pending, and only
  appends articles of other jobs to the queues.\<close>

theorem dispatch_pass_respects_pause:
  assumes "dispatch_pending clk fuel sd = Some sd'" "wf_sched sd"
  shows "filter_mset (is_paused sd) (mset (sd_pending sd')) = filter_mset (is_paused sd) (mset (sd_pending sd)) \<and>
    filter_mset (is_paused sd) (mset (queued sd')) = filter_mset (is_paused sd) (mset (queued sd)) \<and>
    sd_paused sd' = sd_paused sd"
  using assms(1)
proof (rule dispatch_pending_pass)
  fix d assume inv: "pass_inv sd d" and sd': "sd' = dispatch_finish d"
  have l: "length (dp_per_server d) = length (sd_queues (dp_sched d))" "sd_queues (dp_sched d) = sd_queues sd"
    using inv assms(2) by (auto simp: pass_inv_def pass_frame_def wf_sched_def)
  have q: "mset (queued sd') = mset (queued sd) + mset (concat (dp_per_server d))"
    using mset_map2_push_many [OF l(1)] l(2) by (simp add: sd' queued_def dispatch_finish_eq)
  have n: "filter_mset (is_paused sd) (mset (concat (dp_per_server d))) = {#}"
    "filter_mset (is_paused sd) (mset (dp_give_ups d)) = {#}"
    using inv by (auto intro!: filter_mset_none simp: pass_inv_def)
  have "filter_mset (is_paused sd) (items_of d) = filter_mset (is_paused sd) (mset (sd_pending sd))"
    using inv by (simp add: pass_inv_def)
  then show ?thesis using n q inv
    by (simp add: items_of_def sd' dispatch_finish_eq pass_inv_def pass_frame_def del: mset_concat)
qed

theorem dispatch_pass_respects_pause_witness:
  "\<exists>sd'. dispatch_pending (\<lambda>n. 5 * n) (dispatch_fuel (demo_sched\<lparr>sd_paused := {''j''}\<rparr>))
      (demo_sched\<lparr>sd_paused := {''j''}\<rparr>) = Some sd' \<and>
    filter_mset (is_paused (demo_sched\<lparr>sd_paused := {''j''}\<rparr>)) (mset (sd_pending sd')) = {#demo_item#}"
proof -
  let ?sd = "demo_sched\<lparr>sd_paused := {''j''}\<rparr>"
  have live: "some_live ?sd" using demo_live by (simp add: some_live_def)
  have wf: "wf_sched ?sd" using demo_wf by (simp add: wf_sched_def)
  obtain sd' where r: "dispatch_pending (\<lambda>n. 5 * n) (dispatch_fuel ?sd + 0) ?sd = Some sd'"
    using dispatch_returns [OF live] by blast
  have "filter_mset (is_paused ?sd) (mset (sd_pending ?sd)) = {#demo_item#}"
    by (simp add: is_paused_def demo_sched_def sched_start_def demo_heap_def demo_item_def
        item_job_id_def article_new_def)
  with r dispatch_pass_respects_pause [OF r wf] show ?thesis by auto
qed

lemma map2_push_many_nth:
  "length xss = length qs \<Longrightarrow> j < length qs \<Longrightarrow> map2 push_many xss qs ! j = push_many (xss ! j) (qs ! j)"
  by simp

text \<open>Back-pressure: a pass appends to each server queue, and where it appends at all, the articles in
  flight on that server together with the newly queued ones stay within the server's cap
  (connections * pipelining * 2, at least 8).\<close>

theorem dispatch_pass_respects_cap:
  assumes "dispatch_pending clk fuel sd = Some sd'" "wf_sched sd" "j < length (sd_queues sd)"
  shows "\<exists>new. sq_deque (sd_queues sd' ! j) = sq_deque (sd_queues sd ! j) @ new \<and>
    (new = [] \<or> queue_depth (sd_queues sd ! j) + length new \<le> sd_cap sd ! j)"
  using assms(1)
proof (rule dispatch_pending_pass)
  fix d assume inv: "pass_inv sd d" and sd': "sd' = dispatch_finish d"
  have l: "length (dp_per_server d) = length (sd_queues sd)" "sd_queues (dp_sched d) = sd_queues sd"
    using inv assms(2) by (auto simp: pass_inv_def pass_frame_def wf_sched_def)
  have "sq_deque (sd_queues sd' ! j) = sq_deque (sd_queues sd ! j) @ dp_per_server d ! j"
    using l assms(3) by (simp add: sd' dispatch_finish_eq)
  moreover have "dp_per_server d ! j = [] \<or> queue_depth (sd_queues sd ! j) + length (dp_per_server d ! j) \<le> sd_cap sd ! j"
    using inv l assms(3) by (auto simp: pass_inv_def load_of_def)
  ultimately show ?thesis by blast
qed

theorem dispatch_pass_respects_cap_witness:
  "\<exists>sd' new. dispatch_pending (\<lambda>n. 5 * n) (dispatch_fuel demo_sched) demo_sched = Some sd' \<and>
    sq_deque (sd_queues sd' ! 0) = sq_deque (sd_queues demo_sched ! 0) @ new \<and>
    (new = [] \<or> queue_depth (sd_queues demo_sched ! 0) + length new \<le> sd_cap demo_sched ! 0)"
proof -
  obtain sd' where r: "dispatch_pending (\<lambda>n. 5 * n) (dispatch_fuel demo_sched + 0) demo_sched = Some sd'"
    using dispatch_returns [OF demo_live] by blast
  have "0 < length (sd_queues demo_sched)" by (simp add: demo_sched_def sched_start_def)
  from dispatch_pass_respects_cap [OF r demo_wf this] r show ?thesis by auto
qed

text \<open>C8. No false absence: every outcome a pass emits is a failure flagged as global absence, and every
  enabled provider is among the servers it lists as having answered 430 for that article.\<close>

theorem dispatch_pass_failures_have_evidence:
  assumes "dispatch_pending clk fuel sd = Some sd'"
    and "\<forall>r. finite (art_explicit_not_found (h_art (sd_heap sd) r))"
  shows "\<exists>gone. sd_outcomes sd' = sd_outcomes sd @ gone \<and>
    (\<forall>out \<in> set gone. \<exists>t m ids. out = Failed t (Some m) True ids \<and>
       {sv_id s |s. s \<in> set (sd_servers sd) \<and> sv_active s} \<subseteq> set ids)"
  using assms(1)
proof (rule dispatch_pending_pass)
  fix d assume inv: "pass_inv sd d" and sd': "sd' = dispatch_finish d"
  have fr: "pass_frame sd (dp_sched d)" using inv by (simp add: pass_inv_def)
  have ev: "\<exists>t m ids. failed_outcome (sd_heap (dp_sched d)) it = Failed t (Some m) True ids \<and>
       {sv_id s |s. s \<in> set (sd_servers sd) \<and> sv_active s} \<subseteq> set ids"
    if "it \<in> set (dp_give_ups d)" for it
  proof -
    have "absent_everywhere (item_article sd it) (sd_servers sd)" using inv that by (simp add: pass_inv_def)
    moreover have "art_explicit_not_found (item_article (dp_sched d) it) = art_explicit_not_found (item_article sd it)"
      using fr by (rule pass_frame_item)
    moreover have "finite (art_explicit_not_found (item_article sd it))" using assms(2) by (simp add: item_article_def)
    ultimately show ?thesis
      by (auto simp: failed_outcome_def Let_def art_explicit_not_found_servers_def absent_everywhere_def
          art_server_explicitly_not_found_def item_article_def)
  qed
  have "sd_outcomes sd' = sd_outcomes sd @ map (failed_outcome (sd_heap (dp_sched d))) (dp_give_ups d)"
    using fr by (simp add: sd' dispatch_finish_eq pass_frame_def)
  then show ?thesis using ev by (intro exI [of _ "map (failed_outcome (sd_heap (dp_sched d))) (dp_give_ups d)"]) auto
qed

theorem dispatch_pass_failures_have_evidence_witness:
  "\<exists>sd' gone. dispatch_pending (\<lambda>n. 5 * n) (dispatch_fuel demo_sched) demo_sched = Some sd' \<and>
    sd_outcomes sd' = sd_outcomes demo_sched @ gone"
proof -
  obtain sd' where r: "dispatch_pending (\<lambda>n. 5 * n) (dispatch_fuel demo_sched + 0) demo_sched = Some sd'"
    using dispatch_returns [OF demo_live] by blast
  have "\<forall>r. finite (art_explicit_not_found (h_art (sd_heap demo_sched) r))"
    by (simp add: demo_sched_def sched_start_def demo_heap_def article_new_def)
  from dispatch_pass_failures_have_evidence [OF r this] r show ?thesis by auto
qed

section \<open>When no server is live\<close>

text \<open>An article the pass can neither route nor give up on.\<close>

definition unresolvable :: "sched \<Rightarrow> work_item \<Rightarrow> bool" where
  "unresolvable sd it \<longleftrightarrow> \<not> is_paused sd it \<and> \<not> art_confirmed_absent_only (item_article sd it) \<and>
    \<not> absent_everywhere (item_article sd it) (sd_servers sd)"

lemma unresolvable_frame: "pass_frame sd0 sd \<Longrightarrow> unresolvable sd it = unresolvable sd0 it"
  by (simp add: unresolvable_def pass_frame_item pass_frame_absent)

lemma swap_remove_keeps:
  assumes "i \<le> k" "k < length xs" "i < length xs" "xs ! k \<noteq> xs ! i"
  shows "\<exists>k'. i \<le> k' \<and> k' < length (swap_remove i xs) \<and> swap_remove i xs ! k' = xs ! k"
proof (cases "k = length xs - 1")
  case True
  have "i < length xs - 1" using assms True by (cases "i = k") auto
  then have "swap_remove i xs ! i = last xs" by (simp add: swap_remove_def nth_butlast)
  moreover have "xs \<noteq> []" using assms(2) by auto
  then have "last xs = xs ! k" using True by (simp add: last_conv_nth)
  ultimately show ?thesis using \<open>i < length xs - 1\<close> by (intro exI [of _ i]) simp
next
  case False
  with assms have "k < length xs - 1" "k \<noteq> i" by auto
  then have "swap_remove i xs ! k = xs ! k" by (simp add: swap_remove_def nth_butlast)
  with \<open>k < length xs - 1\<close> assms(1) show ?thesis by (intro exI [of _ k]) simp
qed

text \<open>The pass never ends when no enabled server has a live worker and some unpaused pending
  article has seen a transient failure without being absent everywhere: the reset changes nothing selection
  looks at, so the loop resets the same article for ever.\<close>

theorem dispatch_pass_diverges:
  assumes "\<not> (\<exists>s \<in> set (sd_servers sd). sv_active s \<and> has_active_wrappers s)"
    and "it \<in> set (sd_pending sd)" "unresolvable sd it"
  shows "dispatch_pending clk fuel sd = None"
proof -
  let ?I = "\<lambda>d. pass_inv sd d \<and>
    (\<exists>k. dp_i d \<le> k \<and> k < length (sd_pending (dp_sched d)) \<and> unresolvable sd (sd_pending (dp_sched d) ! k))"
  have step: "\<exists>d'. dispatch_body clk d = Inl d' \<and> ?I d'" if I: "?I d" for d
  proof -
    obtain k where k: "dp_i d \<le> k" "k < length (sd_pending (dp_sched d))" "unresolvable sd (sd_pending (dp_sched d) ! k)"
      using I by blast
    have fr: "pass_frame sd (dp_sched d)" using I by (simp add: pass_inv_def)
    have i: "dp_i d < length (sd_pending (dp_sched d))" using k by simp
    then obtain d' where d': "dispatch_body clk d = Inl d'"
      by (cases "dispatch_body clk d") (auto simp: dispatch_body_def Let_def split: if_splits prod.splits)
    have inv': "pass_inv sd d'" using I d' pass_inv_body by blast
    have dead: "\<not> some_live (dp_sched d)" using assms(1) pass_frame_live [OF fr] by (simp add: some_live_def)
    have u: "unresolvable (dp_sched d) = unresolvable sd" using unresolvable_frame [OF fr] by blast
    have "?I d'" using d'
    proof (cases rule: dispatch_body_cases)
      case paused
      then have "\<not> unresolvable sd (sd_pending (dp_sched d) ! dp_i d)"
        using u by (metis unresolvable_def)
      with k have "dp_i d < k" by (cases "dp_i d = k") auto
      with paused k inv' show ?thesis by (auto simp: dp_advance_def intro!: exI [of _ k])
    next
      case (select sel sd1)
      note f = item_select_frame [where sd = "dp_sched d" and now = "clk (dp_round d)" and
          it = "sd_pending (dp_sched d) ! dp_i d", unfolded select(3) snd_conv]
      have sel: "sel = fst (item_select (clk (dp_round d)) (sd_pending (dp_sched d) ! dp_i d) (dp_sched d))"
        using select(3) by simp
      show ?thesis
      proof (cases sel)
        case (Server target)
        note D = select_server_ServerD [OF trans [OF sel [unfolded item_select_fst, symmetric] Server]]
        have "some_live (dp_sched d)"
          using D(1,2) by (auto simp: some_live_def dispatchable_def candidate_def intro!: bexI [OF _ nth_mem])
        with dead show ?thesis by simp
      next
        case (WaitRampup w)
        have "\<not> unresolvable sd (sd_pending (dp_sched d) ! dp_i d)"
        proof
          assume "unresolvable sd (sd_pending (dp_sched d) ! dp_i d)"
          then have "fst (item_select (clk (dp_round d)) (sd_pending (dp_sched d) ! dp_i d) (dp_sched d)) = CascadeReset"
            using dead unfolding item_select_fst select_server_CascadeReset_iff u [symmetric]
            by (auto simp: unresolvable_def some_live_def candidate_def)
          with sel WaitRampup show False by simp
        qed
        with k have "dp_i d < k" by (cases "dp_i d = k") auto
        with WaitRampup select k inv' f show ?thesis
          by (auto simp: dp_advance_def dp_upd_def intro!: exI [of _ k])
      next
        case CascadeReset
        with select k inv' f show ?thesis by (auto simp: dp_upd_def intro!: exI [of _ k])
      next
        case GiveUp
        then have "\<not> unresolvable sd (sd_pending (dp_sched d) ! dp_i d)"
          using sel unfolding item_select_fst u [symmetric] by (metis select_server_GiveUp_iff unresolvable_def)
        then have ne: "sd_pending (dp_sched d) ! k \<noteq> sd_pending (dp_sched d) ! dp_i d" using k(3) by metis
        have p: "sd_pending (dp_sched d') = swap_remove (dp_i d) (sd_pending (dp_sched d))" "dp_i d' = dp_i d"
          using GiveUp select(4) f by (simp_all add: dp_upd_def)
        with swap_remove_keeps [OF k(1,2) i ne] k(3) inv' show ?thesis by auto
      qed
    qed
    with d' show ?thesis by blast
  qed
  have "?I (dispatch_start sd)"
    using assms(2,3) pass_inv_start by (auto simp: dispatch_start_def in_set_conv_nth)
  then have "run_loop (dispatch_body clk) fuel (dispatch_start sd) = None"
    using step by (rule run_loop_diverges)
  then show ?thesis by (simp add: dispatch_pending_def)
qed

text \<open>One provider whose workers have all retired, one article that met a connection error on it.\<close>

definition stuck_sched :: sched where
  "stuck_sched = (sched_start 0 (Some probe_policy_default)
      (upd_art 0 (\<lambda>a. art_mark_transient_failure (art_mark_server_tried ''a'' a)) demo_heap)
      [snd (unregister_wrapper (demo_server ''a'' 0))])\<lparr>sd_pending := [demo_item]\<rparr>"

theorem dispatch_pass_diverges_witness:
  "dispatch_pending (\<lambda>n. 5 * n) 1000000 stuck_sched = None"
proof (rule dispatch_pass_diverges [of _ demo_item])
  have dead: "\<not> has_active_wrappers (snd (unregister_wrapper (demo_server ''a'' 0)))"
    by code_simp
  then show "\<not> (\<exists>s \<in> set (sd_servers stuck_sched). sv_active s \<and> has_active_wrappers s)"
    by (simp add: stuck_sched_def sched_start_def)
  show "demo_item \<in> set (sd_pending stuck_sched)" by (simp add: stuck_sched_def)
  show "unresolvable stuck_sched demo_item"
    by (simp add: unresolvable_def is_paused_def stuck_sched_def sched_start_def item_article_def demo_item_def
        demo_heap_def article_new_def art_mark_transient_failure_def art_mark_server_tried_def
        absent_everywhere_def art_server_explicitly_not_found_def)
qed

end
