(* ===== verification/News_Loop_Proofs.thy ===== *)
theory News_Loop_Proofs
  imports News_Loop News_Pass
begin

text \<open>
  Properties of message handling, control messages, respawning and the turn of
  \<open>scheduler_loop\<close> (\<open>crates/nzb-news/src/downloader.rs\<close>).
\<close>

section \<open>Frame\<close>

lemma upd_server_frame [simp, frame_simps]:
  "sd_pending (upd_server i f sd) = sd_pending sd" "sd_queues (upd_server i f sd) = sd_queues sd"
  "sd_outcomes (upd_server i f sd) = sd_outcomes sd" "sd_heap (upd_server i f sd) = sd_heap sd"
  "sd_supervisors (upd_server i f sd) = sd_supervisors sd" "sd_cap (upd_server i f sd) = sd_cap sd"
  "length (sd_servers (upd_server i f sd)) = length (sd_servers sd)"
  "sd_paused (upd_server i f sd) = sd_paused sd" "sd_policy (upd_server i f sd) = sd_policy sd"
  "sd_tags (upd_server i f sd) = sd_tags sd" "sd_tracker (upd_server i f sd) = sd_tracker sd"
  by (simp_all add: upd_server_def)

lemma upd_server_nth:
  "i < length (sd_servers sd) \<Longrightarrow>
    sd_servers (upd_server i f sd) ! j = (if j = i then f (sd_servers sd ! i) else sd_servers sd ! j)"
  by (simp add: upd_server_def nth_list_update)

lemma upd_heap_frame [simp, frame_simps]:
  "sd_outcomes (upd_heap f sd) = sd_outcomes sd" "sd_supervisors (upd_heap f sd) = sd_supervisors sd"
  "sd_policy (upd_heap f sd) = sd_policy sd" "sd_tags (upd_heap f sd) = sd_tags sd"
  "sd_tracker (upd_heap f sd) = sd_tracker sd"
  by (simp_all add: upd_heap_def)

lemma update_probe_frame [simp, frame_simps]:
  "sd_pending (update_probe it sid ok sd) = sd_pending sd" "sd_queues (update_probe it sid ok sd) = sd_queues sd"
  "sd_outcomes (update_probe it sid ok sd) = sd_outcomes sd" "sd_heap (update_probe it sid ok sd) = sd_heap sd"
  "sd_supervisors (update_probe it sid ok sd) = sd_supervisors sd"
  "sd_servers (update_probe it sid ok sd) = sd_servers sd" "sd_cap (update_probe it sid ok sd) = sd_cap sd"
  "sd_paused (update_probe it sid ok sd) = sd_paused sd"
  by (simp_all add: update_probe_def split: option.splits prod.splits)

lemma upd_supervisor_frame [simp, frame_simps]:
  "sd_pending (upd_supervisor sid f sd) = sd_pending sd" "sd_queues (upd_supervisor sid f sd) = sd_queues sd"
  "sd_outcomes (upd_supervisor sid f sd) = sd_outcomes sd" "sd_heap (upd_supervisor sid f sd) = sd_heap sd"
  "sd_servers (upd_supervisor sid f sd) = sd_servers sd" "sd_cap (upd_supervisor sid f sd) = sd_cap sd"
  "sd_paused (upd_supervisor sid f sd) = sd_paused sd"
  by (simp_all add: upd_supervisor_def split: option.splits)

lemma send_outcome_frame [simp, frame_simps]:
  "sd_pending (send_outcome out sd) = sd_pending sd" "sd_queues (send_outcome out sd) = sd_queues sd"
  "sd_outcomes (send_outcome out sd) = sd_outcomes sd @ [out]" "sd_heap (send_outcome out sd) = sd_heap sd"
  "sd_servers (send_outcome out sd) = sd_servers sd" "sd_cap (send_outcome out sd) = sd_cap sd"
  "sd_supervisors (send_outcome out sd) = sd_supervisors sd" "sd_paused (send_outcome out sd) = sd_paused sd"
  by (simp_all add: send_outcome_def)

lemma push_pending_frame [simp, frame_simps]:
  "sd_pending (push_pending its sd) = sd_pending sd @ its" "sd_queues (push_pending its sd) = sd_queues sd"
  "sd_outcomes (push_pending its sd) = sd_outcomes sd" "sd_heap (push_pending its sd) = sd_heap sd"
  "sd_servers (push_pending its sd) = sd_servers sd" "sd_cap (push_pending its sd) = sd_cap sd"
  "sd_supervisors (push_pending its sd) = sd_supervisors sd" "sd_paused (push_pending its sd) = sd_paused sd"
  by (simp_all add: push_pending_def)

lemma note_failure_frame [simp, frame_simps]:
  "sd_pending (note_failure it s e sd) = sd_pending sd" "sd_queues (note_failure it s e sd) = sd_queues sd"
  "sd_outcomes (note_failure it s e sd) = sd_outcomes sd" "sd_supervisors (note_failure it s e sd) = sd_supervisors sd"
  "length (sd_servers (note_failure it s e sd)) = length (sd_servers sd)"
  "sd_cap (note_failure it s e sd) = sd_cap sd"
  by (simp_all add: note_failure_def Let_def)

lemma penalise_frame [simp, frame_simps]:
  "sd_pending (penalise now s e sd) = sd_pending sd" "sd_queues (penalise now s e sd) = sd_queues sd"
  "sd_outcomes (penalise now s e sd) = sd_outcomes sd" "sd_supervisors (penalise now s e sd) = sd_supervisors sd"
  "sd_heap (penalise now s e sd) = sd_heap sd"
  "length (sd_servers (penalise now s e sd)) = length (sd_servers sd)" "sd_cap (penalise now s e sd) = sd_cap sd"
  by (simp_all add: penalise_def split: penalty_action.splits)

lemma item_select_frames [simp, frame_simps]:
  "sd_queues (snd (item_select now it sd)) = sd_queues sd"
  "sd_outcomes (snd (item_select now it sd)) = sd_outcomes sd"
  "sd_supervisors (snd (item_select now it sd)) = sd_supervisors sd"
  "sd_cap (snd (item_select now it sd)) = sd_cap sd"
  "length (sd_servers (snd (item_select now it sd))) = length (sd_servers sd)"
  using item_select_frame(1) [of sd now it] pass_frame_length [OF item_select_frame(1) [of sd now it]]
  by (simp_all add: pass_frame_def)

lemmas item_select_kept [simp] = item_select_frame(2,3)

section \<open>Conservation\<close>

fun msg_tags :: "scheduler_msg \<Rightarrow> work_tag multiset" where
  "msg_tags (FetchResult it server result) = {#wi_tag it#}"
| "msg_tags (ReturnUnattempted items server error) = image_mset wi_tag (mset items)"
| "msg_tags (AllWrappersExited sid) = {#}"

lemma accounted_frame [simp]:
  "accounted (upd_server i f sd) = accounted sd" "accounted (upd_heap g sd) = accounted sd"
  "accounted (update_probe it sid ok sd) = accounted sd" "accounted (upd_supervisor sid k sd) = accounted sd"
  "accounted (note_failure it s e sd) = accounted sd" "accounted (penalise now s e sd) = accounted sd"
  "accounted (snd (item_select now it sd)) = accounted sd"
  by (simp_all add: accounted_def queued_def)

lemma accounted_send: "accounted (send_outcome out sd) = add_mset (fo_tag out) (accounted sd)"
  by (simp add: accounted_def queued_def)

lemma accounted_push: "accounted (push_pending its sd) = accounted sd + image_mset wi_tag (mset its)"
  by (simp add: accounted_def queued_def)

lemma accounted_success: "accounted (handle_success it s bytes sd) = add_mset (wi_tag it) (accounted sd)"
  by (simp add: handle_success_def Let_def accounted_send)

lemma handle_failure_cases:
  obtains (given_up) sd1 where
      "fst (item_select now it (penalise now s e (update_probe it (server_id_at (note_failure it s e sd) s) False (note_failure it s e sd)))) = GiveUp"
      "handle_failure now it s e sd = send_outcome
        (Failed (wi_tag it) (Some (nntp_error_display e)) True (art_explicit_not_found_servers (item_article sd1 it))) sd1"
      "sd1 = upd_heap (record_article_given_up (wi_file it) (wi_job it)) (snd (item_select now it
        (penalise now s e (update_probe it (server_id_at (note_failure it s e sd) s) False (note_failure it s e sd)))))"
  | (requeued) "fst (item_select now it (penalise now s e (update_probe it (server_id_at (note_failure it s e sd) s) False (note_failure it s e sd)))) \<noteq> GiveUp"
      "handle_failure now it s e sd = push_pending [it] (snd (item_select now it
        (penalise now s e (update_probe it (server_id_at (note_failure it s e sd) s) False (note_failure it s e sd)))))"
proof -
  define sd3 where "sd3 = penalise now s e (update_probe it (server_id_at (note_failure it s e sd) s) False (note_failure it s e sd))"
  obtain sel sd4 where sel: "item_select now it sd3 = (sel, sd4)" by (cases "item_select now it sd3")
  have h: "handle_failure now it s e sd = (case sel of
             GiveUp \<Rightarrow>
               let sd5 = upd_heap (record_article_given_up (wi_file it) (wi_job it)) sd4 in
               send_outcome
                 (Failed (wi_tag it) (Some (nntp_error_display e)) True
                   (art_explicit_not_found_servers (item_article sd5 it))) sd5
           | _ \<Rightarrow> push_pending [it] sd4)"
    using sel by (simp add: handle_failure_def Let_def sd3_def)
  show thesis
  proof (cases "sel = GiveUp")
    case True
    with h sel show thesis by (intro given_up) (simp_all add: sd3_def [symmetric] Let_def)
  next
    case False
    with h sel show thesis by (intro requeued) (cases sel; simp add: sd3_def [symmetric])+
  qed
qed

lemma accounted_failure: "accounted (handle_failure now it s e sd) = add_mset (wi_tag it) (accounted sd)"
  by (rule handle_failure_cases [where now = now and it = it and s = s and e = e and sd = sd])
    (simp_all add: accounted_send accounted_push)

lemma return_item_frame:
  "sd_pending (return_item s it sd) = sd_pending sd @ [it]" "sd_queues (return_item s it sd) = sd_queues sd"
  "sd_outcomes (return_item s it sd) = sd_outcomes sd" "sd_servers (return_item s it sd) = sd_servers sd"
  "sd_supervisors (return_item s it sd) = sd_supervisors sd" "sd_cap (return_item s it sd) = sd_cap sd"
  by (simp_all add: return_item_def split: prod.splits)

lemma return_items_frame:
  "sd_pending (fold (return_item s) its sd) = sd_pending sd @ its"
  "sd_queues (fold (return_item s) its sd) = sd_queues sd"
  "sd_outcomes (fold (return_item s) its sd) = sd_outcomes sd"
  "sd_servers (fold (return_item s) its sd) = sd_servers sd"
  "sd_supervisors (fold (return_item s) its sd) = sd_supervisors sd"
  "sd_cap (fold (return_item s) its sd) = sd_cap sd"
  by (induction its arbitrary: sd) (simp_all add: return_item_frame)

lemma accounted_msg: "accounted (route_scheduler_msg now m sd) = accounted sd + msg_tags m"
proof (cases m)
  case (FetchResult it s res)
  then show ?thesis
    by (cases res) (simp_all add: accounted_success accounted_failure)
next
  case (ReturnUnattempted its s e)
  then show ?thesis by (simp add: accounted_def queued_def return_items_frame)
next
  case (AllWrappersExited sid)
  then show ?thesis by simp
qed

lemma accounted_msgs:
  "accounted (fold (route_scheduler_msg now) ms sd) = accounted sd + \<Sum>\<^sub># (mset (map msg_tags ms))"
  by (induction ms arbitrary: sd) (simp_all add: accounted_msg add.assoc)

lemma send_cancelled_eq:
  "send_cancelled its sd = sd\<lparr>sd_outcomes := sd_outcomes sd @ map (\<lambda>it. Cancelled (wi_tag it)) its\<rparr>"
  by (simp add: send_cancelled_def fold_send_outcome)

lemma drain_job_queues_mset:
  "mset (fst (drain_job_queues job sd)) + mset (queued (snd (drain_job_queues job sd))) = mset (queued sd)"
proof -
  have "mset (concat (map (\<lambda>q. fst (drain_job h job q)) qs)) + mset (concat (map sq_deque (map (\<lambda>q. snd (drain_job h job q)) qs)))
      = mset (concat (map sq_deque qs))" for h qs
  proof (induction qs)
    case (Cons q qs)
    have "mset (sq_deque q) = mset (fst (drain_job h job q)) + mset (sq_deque (snd (drain_job h job q)))"
      by (simp add: drain_job_mset)
    with Cons.IH show ?case by (simp add: ac_simps)
  qed simp
  then show ?thesis by (simp add: drain_job_queues_def queued_def comp_def)
qed

lemma drain_job_queues_frame [simp]:
  "sd_pending (snd (drain_job_queues job sd)) = sd_pending sd"
  "sd_outcomes (snd (drain_job_queues job sd)) = sd_outcomes sd"
  "sd_heap (snd (drain_job_queues job sd)) = sd_heap sd"
  "sd_paused (snd (drain_job_queues job sd)) = sd_paused sd"
  "sd_servers (snd (drain_job_queues job sd)) = sd_servers sd"
  by (simp_all add: drain_job_queues_def)

text \<open>The articles a message carries.\<close>

fun msg_items :: "scheduler_msg \<Rightarrow> work_item multiset" where
  "msg_items (FetchResult it s res) = {#it#}"
| "msg_items (ReturnUnattempted its s e) = mset its"
| "msg_items (AllWrappersExited sid) = {#}"

text \<open>From one state to the next, articles are appended to the pending list or reported, and nothing else moves.\<close>

definition settles :: "work_item multiset \<Rightarrow> sched \<Rightarrow> sched \<Rightarrow> bool" where
  "settles M sd sd' \<longleftrightarrow>
    (\<exists>back settled reports.
      sd_pending sd' = sd_pending sd @ back \<and> sd_queues sd' = sd_queues sd \<and>
      sd_outcomes sd' = sd_outcomes sd @ reports \<and> map fo_tag reports = map wi_tag settled \<and>
      mset back + mset settled = M)"

lemma settles_none: "sd_pending sd' = sd_pending sd \<Longrightarrow> sd_queues sd' = sd_queues sd \<Longrightarrow>
    sd_outcomes sd' = sd_outcomes sd \<Longrightarrow> settles {#} sd sd'"
  by (simp add: settles_def)

lemma settles_trans:
  assumes "settles M sd sd1" "settles N sd1 sd2"
  shows "settles (M + N) sd sd2"
proof -
  obtain b t r where 1: "sd_pending sd1 = sd_pending sd @ b" "sd_queues sd1 = sd_queues sd" "sd_outcomes sd1 = sd_outcomes sd @ r"
    "map fo_tag r = map wi_tag t" "mset b + mset t = M" using assms(1) unfolding settles_def by blast
  obtain b' t' r' where 2: "sd_pending sd2 = sd_pending sd1 @ b'" "sd_queues sd2 = sd_queues sd1" "sd_outcomes sd2 = sd_outcomes sd1 @ r'"
    "map fo_tag r' = map wi_tag t'" "mset b' + mset t' = N" using assms(2) unfolding settles_def by blast
  show ?thesis
    unfolding settles_def using 1 2
    by (intro exI[of _ "b @ b'"] exI[of _ "t @ t'"] exI[of _ "r @ r'"]) (auto simp: ac_simps)
qed

lemma settles_report:
  assumes "sd_pending sd' = sd_pending sd" "sd_queues sd' = sd_queues sd" "sd_outcomes sd' = sd_outcomes sd @ [out]"
    "fo_tag out = wi_tag it"
  shows "settles {#it#} sd sd'"
  unfolding settles_def using assms
  by (intro exI[of _ "[]"] exI[of _ "[it]"] exI[of _ "[out]"]) simp

lemma settles_return:
  assumes "sd_pending sd' = sd_pending sd @ its" "sd_queues sd' = sd_queues sd" "sd_outcomes sd' = sd_outcomes sd"
  shows "settles (mset its) sd sd'"
  unfolding settles_def using assms by (intro exI[of _ its] exI[of _ "[]"]) simp

lemma msg_settles: "settles (msg_items m) sd (route_scheduler_msg now m sd)"
proof (cases m)
  case (FetchResult it s res)
  show ?thesis
  proof (cases res)
    case (Inl e)
    have "settles {#it#} sd (handle_failure now it s e sd)"
    proof (rule handle_failure_cases [where now = now and it = it and s = s and e = e and sd = sd])
      assume "handle_failure now it s e sd = push_pending [it] (snd (item_select now it
        (penalise now s e (update_probe it (server_id_at (note_failure it s e sd) s) False (note_failure it s e sd)))))"
      then show ?thesis using settles_return[of "handle_failure now it s e sd" sd "[it]"] by simp
    qed (auto intro!: settles_report)
    then show ?thesis by (simp add: FetchResult Inl)
  next
    case (Inr bytes)
    then show ?thesis
      by (auto simp: FetchResult handle_success_def Let_def intro!: settles_report)
  qed
next
  case (ReturnUnattempted its s e)
  then show ?thesis by (auto simp: return_items_frame intro!: settles_return)
next
  case (AllWrappersExited sid)
  then show ?thesis by (simp add: settles_none)
qed

lemma msgs_settle: "settles (\<Sum>\<^sub># (mset (map msg_items ms))) sd (fold (route_scheduler_msg now) ms sd)"
proof (induction ms arbitrary: sd)
  case Nil
  show ?case by (simp add: settles_none)
next
  case (Cons m ms)
  then show ?case using settles_trans[OF msg_settles Cons.IH] by simp
qed

text \<open>C12. In the running loop every message from a worker is settled exactly once: of the articles the messages carry,
  some are appended to the pending list and the others reported, each once, in one outcome with its tag; the articles that were
  pending stay pending, what was reported stays reported, and no server queue changes.  (The final drain of a
  shutdown drops what it would make pending.)\<close>

theorem message_conserved:
  "\<exists>back settled reports.
    sd_pending (fold (route_scheduler_msg now) ms sd) = sd_pending sd @ back \<and>
    sd_queues (fold (route_scheduler_msg now) ms sd) = sd_queues sd \<and>
    sd_outcomes (fold (route_scheduler_msg now) ms sd) = sd_outcomes sd @ reports \<and>
    map fo_tag reports = map wi_tag settled \<and>
    mset back + mset settled = \<Sum>\<^sub># (mset (map msg_items ms))"
  using msgs_settle unfolding settles_def .

section \<open>Failures and evidence\<close>

lemma item_article_heap: "sd_heap sd' = sd_heap sd \<Longrightarrow> item_article sd' it = item_article sd it"
  by (simp add: item_article_def)

lemma handle_failure_heap:
  "h_art (sd_heap (handle_failure now it s e sd)) = h_art (sd_heap (note_failure it s e sd))"
  by (rule handle_failure_cases [where now = now and it = it and s = s and e = e and sd = sd])
    (simp_all add: record_article_given_up_def)

lemma note_failure_article:
  "item_article (note_failure it s e sd) it =
    (if is_not_found e then art_mark_server_not_found (server_id_at sd s) (item_article sd it)
     else art_mark_transient_failure (art_mark_server_tried (server_id_at sd s) (item_article sd it)))"
  by (simp add: note_failure_def item_article_def Let_def)

text \<open>Only a 430 is evidence of absence: a failed fetch marks the server tried; a 430 adds it to the
  servers that explicitly lack the article and nothing else, and any other error leaves that set
  alone and records that a transient failure was seen.\<close>

theorem fetch_error_evidence:
  "let a = item_article sd it; a' = item_article (handle_failure now it s e sd) it; sid = server_id_at sd s in
   art_try_list a' = insert sid (art_try_list a) \<and>
   art_explicit_not_found a' = (if is_not_found e then insert sid (art_explicit_not_found a) else art_explicit_not_found a) \<and>
   art_confirmed_absent_only a' = (is_not_found e \<and> art_confirmed_absent_only a)"
proof -
  have "item_article (handle_failure now it s e sd) it = item_article (note_failure it s e sd) it"
    by (simp add: item_article_def handle_failure_heap)
  then show ?thesis
    by (simp add: note_failure_article art_mark_server_not_found_def art_mark_transient_failure_def
        art_mark_server_tried_def)
qed

lemma failure_servers_core:
  assumes "s < length (sd_servers sd)"
  shows "{sv_id x |x. x \<in> set (sd_servers (penalise now s e (update_probe it sid ok (note_failure it s e sd)))) \<and> sv_active x}
    = {sv_id x |x. x \<in> set (sd_servers sd) \<and> sv_active x}"
proof -
  let ?c = "\<lambda>x. (sc_id (sv_config x), sv_active x)"
  have u: "map ?c (sd_servers (upd_server s f sd')) = map ?c (sd_servers sd')"
    if "\<And>x. ?c (f x) = ?c x" for f sd'
  proof -
    have "map ?c ((sd_servers sd')[s := f (sd_servers sd' ! s)]) = map ?c ((sd_servers sd')[s := sd_servers sd' ! s])"
      unfolding map_update by (simp only: that)
    then show ?thesis by (simp add: upd_server_def)
  qed
  have "map ?c (sd_servers (penalise now s e (update_probe it sid ok (note_failure it s e sd)))) = map ?c (sd_servers sd)"
    by (simp add: penalise_def note_failure_def Let_def u split: penalty_action.splits)
  then have "set (map ?c (sd_servers (penalise now s e (update_probe it sid ok (note_failure it s e sd))))) = set (map ?c (sd_servers sd))"
    by (rule arg_cong)
  moreover have "{sv_id x |x. x \<in> set xs \<and> sv_active x} = fst ` {c \<in> set (map ?c xs). snd c}" for xs
    by (force simp: sv_id_def)
  ultimately show ?thesis by simp
qed

text \<open>C11. A failed fetch either puts the article back or reports it, and it is reported as failed only when
  every enabled provider has answered 430 for it, the error text being that of the last
  fetch.\<close>

theorem fetch_error_resolution:
  assumes "s < length (sd_servers sd)"
  shows "let sd' = handle_failure now it s e sd in
    (sd_pending sd' = sd_pending sd @ [it] \<and> sd_outcomes sd' = sd_outcomes sd) \<or>
    (sd_pending sd' = sd_pending sd \<and>
     {sv_id x |x. x \<in> set (sd_servers sd) \<and> sv_active x} \<subseteq> art_explicit_not_found (item_article sd' it) \<and>
     sd_outcomes sd' = sd_outcomes sd @
       [Failed (wi_tag it) (Some (nntp_error_display e)) True (art_explicit_not_found_servers (item_article sd' it))])"
proof (rule handle_failure_cases [where now = now and it = it and s = s and e = e and sd = sd], goal_cases)
  case (1 sd1)
  let ?sd3 = "penalise now s e (update_probe it (server_id_at (note_failure it s e sd) s) False (note_failure it s e sd))"
  have "absent_everywhere (item_article ?sd3 it) (sd_servers ?sd3)"
    using 1(1) unfolding item_select_fst by (metis select_server_GiveUp_iff)
  moreover have "item_article sd1 it = item_article ?sd3 it"
    using 1(3) by (simp add: item_article_def record_article_given_up_def)
  ultimately have "{sv_id x |x. x \<in> set (sd_servers ?sd3) \<and> sv_active x} \<subseteq> art_explicit_not_found (item_article sd1 it)"
    by (auto simp: absent_everywhere_def art_server_explicitly_not_found_def)
  then have "{sv_id x |x. x \<in> set (sd_servers sd) \<and> sv_active x} \<subseteq> art_explicit_not_found (item_article sd1 it)"
    using failure_servers_core [OF assms] by simp
  moreover have "item_article (handle_failure now it s e sd) it = item_article sd1 it"
    using 1(2) by (simp add: item_article_def)
  ultimately show ?case using 1(2,3) by (simp add: Let_def)
next
  case 2
  then show ?case by (simp add: Let_def)
qed

theorem fetch_error_resolution_witness:
  "{sv_id x |x. x \<in> set (sd_servers demo_sched) \<and> sv_active x} = {''a''} \<and>
   sd_outcomes (handle_failure 5 demo_item 0 (Io ''reset'') demo_sched) = []"
proof -
  have ids: "{sv_id x |x. x \<in> set (sd_servers demo_sched) \<and> sv_active x} = {''a''}"
    by (auto simp: demo_sched_def sched_start_def) (code_simp)+
  have "art_explicit_not_found (item_article (handle_failure 5 demo_item 0 (Io ''reset'') demo_sched) demo_item) = {}"
    using fetch_error_evidence [of demo_sched demo_item 5 0 "Io ''reset''"]
    by (simp add: Let_def) (simp add: item_article_def demo_sched_def sched_start_def demo_heap_def article_new_def)
  moreover have "sd_outcomes demo_sched = []" "0 < length (sd_servers demo_sched)"
    by (simp_all add: demo_sched_def sched_start_def)
  ultimately show ?thesis
    using fetch_error_resolution [of 0 demo_sched 5 demo_item "Io ''reset''"] ids by (auto simp: Let_def)
qed

section \<open>Control messages\<close>

lemma queued_drain: "filter (\<lambda>it. item_job_id (sd_heap sd) it = job) (queued (snd (drain_job_queues job sd))) = []"
proof -
  have "filter (\<lambda>it. item_job_id h it = job) (concat (map sq_deque (map (\<lambda>q. snd (drain_job h job q)) qs))) = []" for h qs
    by (induction qs) (auto simp: drain_job_def)
  then show ?thesis by (simp add: drain_job_queues_def queued_def)
qed

lemma queued_drain_others:
  "filter (\<lambda>it. item_job_id (sd_heap sd) it \<noteq> job) (queued (snd (drain_job_queues job sd))) =
   filter (\<lambda>it. item_job_id (sd_heap sd) it \<noteq> job) (queued sd)"
proof -
  have "filter (\<lambda>it. item_job_id h it \<noteq> job) (concat (map sq_deque (map (\<lambda>q. snd (drain_job h job q)) qs))) =
    filter (\<lambda>it. item_job_id h it \<noteq> job) (concat (map sq_deque qs))" for h qs
    by (induction qs) (auto simp: drain_job_def)
  then show ?thesis by (simp add: drain_job_queues_def queued_def comp_def)
qed

lemma drained_items: "fst (drain_job_queues job sd) = filter (\<lambda>it. item_job_id (sd_heap sd) it = job) (queued sd)"
proof -
  have "concat (map (\<lambda>q. fst (drain_job h job q)) qs) = filter (\<lambda>it. item_job_id h it = job) (concat (map sq_deque qs))" for h qs
    by (induction qs) (auto simp: drain_job_def)
  then show ?thesis by (simp add: drain_job_queues_def queued_def)
qed

lemma queued_after_drain:
  "queued (snd (drain_job_queues job sd)) = filter (\<lambda>it. item_job_id (sd_heap sd) it \<noteq> job) (queued sd)"
proof -
  have "filter (\<lambda>it. item_job_id (sd_heap sd) it \<noteq> job) (queued (snd (drain_job_queues job sd))) =
      queued (snd (drain_job_queues job sd))"
    using queued_drain [where sd = sd and job = job] by (auto simp: filter_id_conv filter_empty_conv)
  then show ?thesis using queued_drain_others by metis
qed

text \<open>Pausing takes the job's articles back: they leave every server queue and join the end of the pending
  list in queue order; articles of other jobs keep their places, and nothing is reported.\<close>

theorem pause_takes_queued_back:
  assumes "job \<notin> sd_paused sd"
  shows "let sd' = control_first (PauseJob job) sd; mine = (\<lambda>it. item_job_id (sd_heap sd) it = job) in
    sd_pending sd' = sd_pending sd @ filter mine (queued sd) \<and>
    queued sd' = filter (\<lambda>it. \<not> mine it) (queued sd) \<and>
    job \<in> sd_paused sd' \<and> sd_outcomes sd' = sd_outcomes sd \<and> accounted sd' = accounted sd"
proof -
  let ?sd = "sd\<lparr>sd_paused := insert job (sd_paused sd), sd_paused_shared := insert job (sd_paused_shared sd)\<rparr>"
  obtain its sd1 where d: "drain_job_queues job ?sd = (its, sd1)" by (cases "drain_job_queues job ?sd")
  have q: "queued ?sd = queued sd" by (simp add: queued_def)
  have 1: "its = filter (\<lambda>it. item_job_id (sd_heap sd) it = job) (queued sd)"
    using drained_items [of job ?sd] d q by simp
  have 2: "queued sd1 = filter (\<lambda>it. item_job_id (sd_heap sd) it \<noteq> job) (queued sd)"
    using queued_after_drain [of job ?sd] d q by simp
  have 3: "sd_pending sd1 = sd_pending sd" "sd_outcomes sd1 = sd_outcomes sd" "sd_paused sd1 = insert job (sd_paused sd)"
    using drain_job_queues_frame [where job = job and sd = ?sd] d by simp_all
  have m: "mset its + mset (queued sd1) = mset (queued sd)"
    using drain_job_queues_mset [of job ?sd] d q by simp
  have "queued (push_pending its sd1) = queued sd1" by (simp add: queued_def)
  moreover have "accounted (push_pending its sd1) = accounted sd"
    unfolding accounted_push using 3 by (simp add: accounted_def m [symmetric] ac_simps)
  ultimately show ?thesis using assms d 1 2 3 by (simp add: do_pause_def Let_def)
qed

theorem pause_takes_queued_back_witness:
  "sd_pending (control_first (PauseJob ''j'')
     (demo_sched\<lparr>sd_pending := [], sd_queues := [push_many [demo_item] (queue_new 0)]\<rparr>)) = [demo_item]"
  using pause_takes_queued_back [of "''j''" "demo_sched\<lparr>sd_pending := [], sd_queues := [push_many [demo_item] (queue_new 0)]\<rparr>"]
  by (simp add: Let_def queued_def demo_sched_def sched_start_def queue_new_def item_job_id_def demo_heap_def
      demo_item_def article_new_def)

lemma purge_first_parts:
  fixes job sd
  defines "mine \<equiv> (\<lambda>it. item_job_id (sd_heap sd) it = job)"
  shows "sd_pending (purge_first job sd) = filter (\<lambda>it. \<not> mine it) (sd_pending sd)"
    "queued (purge_first job sd) = filter (\<lambda>it. \<not> mine it) (queued sd)"
    "sd_outcomes (purge_first job sd) = sd_outcomes sd @
      map (\<lambda>it. Cancelled (wi_tag it)) (filter mine (sd_pending sd) @ filter mine (queued sd))"
    "sd_paused (purge_first job sd) = sd_paused sd - {job}"
    "sd_tracker (purge_first job sd) (job, sid) = None"
proof -
  let ?sd = "(send_cancelled (filter mine (sd_pending sd)) sd)\<lparr>sd_pending := filter (\<lambda>it. \<not> mine it) (sd_pending sd)\<rparr>"
  obtain its sd1 where d: "drain_job_queues job ?sd = (its, sd1)" by (cases "drain_job_queues job ?sd")
  have h: "sd_heap ?sd = sd_heap sd" "queued ?sd = queued sd"
    by (simp_all add: send_cancelled_eq queued_def)
  have 1: "its = filter mine (queued sd)"
    using drained_items [of job ?sd] d h by (simp add: mine_def)
  have 2: "queued sd1 = filter (\<lambda>it. \<not> mine it) (queued sd)"
    using queued_after_drain [of job ?sd] d h by (simp add: mine_def)
  note 3 = drain_job_queues_frame [where job = job and sd = ?sd, unfolded d snd_conv]
  have p: "purge_first job sd = (send_cancelled its sd1)
      \<lparr>sd_tracker := (\<lambda>key. if fst key = job then None else sd_tracker (send_cancelled its sd1) key),
       sd_paused := sd_paused (send_cancelled its sd1) - {job},
       sd_paused_shared := sd_paused_shared (send_cancelled its sd1) - {job}\<rparr>"
    using d by (simp add: purge_first_def mine_def Let_def)
  show "sd_pending (purge_first job sd) = filter (\<lambda>it. \<not> mine it) (sd_pending sd)"
    "queued (purge_first job sd) = filter (\<lambda>it. \<not> mine it) (queued sd)"
    "sd_outcomes (purge_first job sd) = sd_outcomes sd @
      map (\<lambda>it. Cancelled (wi_tag it)) (filter mine (sd_pending sd) @ filter mine (queued sd))"
    "sd_paused (purge_first job sd) = sd_paused sd - {job}"
    "sd_tracker (purge_first job sd) (job, sid) = None"
    using 1 2 3 by (simp_all add: p send_cancelled_eq queued_def)
qed

lemma mset_filter_split: "mset (filter P xs) + mset (filter (\<lambda>x. \<not> P x) xs) = mset xs"
  by (simp add: multiset_partition [symmetric])

lemma mset_filter_split2:
  "mset (filter (\<lambda>x. \<not> P x) xs) + mset (filter (\<lambda>x. \<not> P x) ys) + mset (filter P xs) + mset (filter P ys)
    = mset xs + mset ys"
  unfolding mset_filter_split [of P xs, symmetric] mset_filter_split [of P ys, symmetric]
  by (simp only: ac_simps)

lemma accounted_purge_first: "accounted (purge_first job sd) = accounted sd"
proof -
  let ?P = "\<lambda>it. item_job_id (sd_heap sd) it = job"
  have c: "map fo_tag (map (\<lambda>it. Cancelled (wi_tag it)) its) = map wi_tag its" for its by simp
  have "accounted (purge_first job sd) =
      image_mset wi_tag (mset (filter (\<lambda>x. \<not> ?P x) (sd_pending sd)) + mset (filter (\<lambda>x. \<not> ?P x) (queued sd))
        + mset (filter ?P (sd_pending sd)) + mset (filter ?P (queued sd))) + mset (map fo_tag (sd_outcomes sd))"
    unfolding accounted_def purge_first_parts by (simp add: c del: mset_filter filter_append map_map)
  also have "mset (filter (\<lambda>x. \<not> ?P x) (sd_pending sd)) + mset (filter (\<lambda>x. \<not> ?P x) (queued sd))
        + mset (filter ?P (sd_pending sd)) + mset (filter ?P (queued sd)) = mset (sd_pending sd) + mset (queued sd)"
    by (rule mset_filter_split2)
  finally show ?thesis by (simp add: accounted_def)
qed

text \<open>Purging a job (as the first message of a burst) removes its articles from the pending list and from
  every queue, reports each of them as cancelled, in order, and touches no other job's articles; its
  probe state and its pause flag are gone.\<close>

theorem purge_cancels_everything:
  "let sd' = control_first (PurgeJob job) sd; mine = (\<lambda>it. item_job_id (sd_heap sd) it = job) in
    sd_pending sd' = filter (\<lambda>it. \<not> mine it) (sd_pending sd) \<and>
    queued sd' = filter (\<lambda>it. \<not> mine it) (queued sd) \<and>
    sd_outcomes sd' = sd_outcomes sd @
      map (\<lambda>it. Cancelled (wi_tag it)) (filter mine (sd_pending sd) @ filter mine (queued sd)) \<and>
    accounted sd' = accounted sd \<and> job \<notin> sd_paused sd' \<and> sd_tracker sd' (job, sid) = None"
  by (simp add: Let_def purge_first_parts accounted_purge_first)

lemma purge_extra_parts:
  fixes job sd
  defines "mine \<equiv> (\<lambda>it. item_job_id (sd_heap sd) it = job)"
  shows "sd_pending (purge_extra job sd) = filter (\<lambda>it. \<not> mine it) (sd_pending sd)"
    "queued (purge_extra job sd) = filter (\<lambda>it. \<not> mine it) (queued sd)"
    "sd_outcomes (purge_extra job sd) = sd_outcomes sd @ map (\<lambda>it. Cancelled (wi_tag it)) (filter mine (queued sd))"
    "sd_tracker (purge_extra job sd) = sd_tracker sd"
proof -
  let ?sd = "sd\<lparr>sd_pending := filter (\<lambda>it. \<not> mine it) (sd_pending sd)\<rparr>"
  obtain its sd1 where d: "drain_job_queues job ?sd = (its, sd1)" by (cases "drain_job_queues job ?sd")
  have h: "queued ?sd = queued sd" by (simp add: queued_def)
  have 1: "its = filter mine (queued sd)"
    using drained_items [of job ?sd] d h by (simp add: mine_def)
  have 2: "queued sd1 = filter (\<lambda>it. \<not> mine it) (queued sd)"
    using queued_after_drain [of job ?sd] d h by (simp add: mine_def)
  note 3 = drain_job_queues_frame [where job = job and sd = ?sd, unfolded d snd_conv]
  have 4: "sd_tracker sd1 = sd_tracker sd" using d by (auto simp: drain_job_queues_def)
  have p: "purge_extra job sd = (send_cancelled its sd1)
      \<lparr>sd_paused := sd_paused (send_cancelled its sd1) - {job},
       sd_paused_shared := sd_paused_shared (send_cancelled its sd1) - {job}\<rparr>"
    using d by (simp add: purge_extra_def mine_def Let_def)
  show "sd_pending (purge_extra job sd) = filter (\<lambda>it. \<not> mine it) (sd_pending sd)"
    "queued (purge_extra job sd) = filter (\<lambda>it. \<not> mine it) (queued sd)"
    "sd_outcomes (purge_extra job sd) = sd_outcomes sd @ map (\<lambda>it. Cancelled (wi_tag it)) (filter mine (queued sd))"
    "sd_tracker (purge_extra job sd) = sd_tracker sd"
    using 1 2 3 4 by (simp_all add: p send_cancelled_eq queued_def)
qed

text \<open>Purging a job later in a burst loses its pending articles without a word: the same message as the
  second of a burst reports only the queued articles, so exactly the tags of the job's pending
  articles go unaccounted for, and the job's probe state survives.\<close>

theorem purge_in_burst_drops_pending:
  "let sd' = handle_control [ResumeJob other, PurgeJob job] sd; mine = (\<lambda>it. item_job_id (sd_heap sd) it = job) in
    accounted sd' + image_mset wi_tag (mset (filter mine (sd_pending sd))) = accounted sd \<and>
    sd_pending sd' = filter (\<lambda>it. \<not> mine it) (sd_pending sd) \<and> sd_tracker sd' = sd_tracker sd"
proof -
  let ?sd = "do_resume other sd"
  let ?P = "\<lambda>it. item_job_id (sd_heap sd) it = job"
  have r: "sd_pending ?sd = sd_pending sd" "sd_heap ?sd = sd_heap sd" "queued ?sd = queued sd"
    "sd_outcomes ?sd = sd_outcomes sd" "sd_tracker ?sd = sd_tracker sd"
    by (simp_all add: do_resume_def queued_def)
  have c: "map fo_tag (map (\<lambda>it. Cancelled (wi_tag it)) its) = map wi_tag its" for its by simp
  have "accounted (purge_extra job ?sd) + image_mset wi_tag (mset (filter ?P (sd_pending sd))) =
      image_mset wi_tag (mset (filter (\<lambda>x. \<not> ?P x) (sd_pending sd)) + mset (filter (\<lambda>x. \<not> ?P x) (queued sd))
        + mset (filter ?P (sd_pending sd)) + mset (filter ?P (queued sd))) + mset (map fo_tag (sd_outcomes sd))"
    unfolding accounted_def purge_extra_parts r by (simp add: c del: mset_filter map_map)
  also have "mset (filter (\<lambda>x. \<not> ?P x) (sd_pending sd)) + mset (filter (\<lambda>x. \<not> ?P x) (queued sd))
        + mset (filter ?P (sd_pending sd)) + mset (filter ?P (queued sd)) = mset (sd_pending sd) + mset (queued sd)"
    by (rule mset_filter_split2)
  finally have "accounted (purge_extra job ?sd) + image_mset wi_tag (mset (filter ?P (sd_pending sd))) = accounted sd"
    by (simp add: accounted_def)
  then show ?thesis by (simp add: Let_def purge_extra_parts r del: mset_filter)
qed

end
