(* ===== verification/News_Turn.thy ===== *)
theory News_Turn
  imports News_Loop_Proofs
begin

text \<open>
  Attempt counters under message handling, the respawn timer, the final drain and the biased
  \<open>select!\<close> of \<open>scheduler_loop\<close> (\<open>crates/nzb-news/src/downloader.rs\<close>).
\<close>

section \<open>Attempt counters\<close>

fun result_of :: "nat \<Rightarrow> scheduler_msg \<Rightarrow> bool" where
  "result_of i (FetchResult it s res) = (s = i)"
| "result_of i (ReturnUnattempted its s e) = False"
| "result_of i (AllWrappersExited sid) = False"

definition attempted_at :: "sched \<Rightarrow> nat \<Rightarrow> nat" where
  "attempted_at sd i = ss_attempted (stats (sd_servers sd ! i))"

lemma stats_upd_server:
  "i < length (sd_servers sd) \<Longrightarrow> (\<And>s. stats (f s) = stats s) \<Longrightarrow>
    stats (sd_servers (upd_server k f sd) ! i) = stats (sd_servers sd ! i)"
  by (cases "k < length (sd_servers sd)") (simp_all add: upd_server_def nth_list_update)

lemma stats_item_select:
  assumes "i < length (sd_servers sd)"
  shows "stats (sd_servers (snd (item_select now it sd)) ! i) = stats (sd_servers sd ! i)"
proof -
  have "map sv_core (sd_servers (snd (item_select now it sd))) = map sv_core (sd_servers sd)"
    using item_select_frame(1) [of sd now it] by (simp add: pass_frame_def)
  then have "sv_core (sd_servers (snd (item_select now it sd)) ! i) = sv_core (sd_servers sd ! i)"
    using assms by (metis length_map nth_map)
  then show ?thesis by (simp add: sv_core_def)
qed

lemma stats_penalise:
  "i < length (sd_servers sd) \<Longrightarrow> stats (sd_servers (penalise now s e sd) ! i) = stats (sd_servers sd ! i)"
  by (simp add: penalise_def stats_upd_server split: penalty_action.splits)

lemma record_attempt_counts [simp]:
  "ss_attempted (stats (record_attempt_success s)) = ss_attempted (stats s) + 1"
  "ss_attempted (stats (record_attempt_not_found s)) = ss_attempted (stats s) + 1"
  "ss_attempted (stats (record_attempt_transient_failed s)) = ss_attempted (stats s) + 1"
  by (simp_all add: stats_def record_attempt_success_def record_attempt_not_found_def
      record_attempt_transient_failed_def)

lemma note_failure_servers:
  "sd_servers (note_failure it s e sd) = (sd_servers sd)[s :=
    (if is_not_found e then record_attempt_not_found (sd_servers sd ! s)
     else record_attempt_transient_failed (sd_servers sd ! s))]"
  by (simp add: note_failure_def Let_def upd_server_def)

lemma stats_note_failure:
  assumes "i < length (sd_servers sd)"
  shows "ss_attempted (stats (sd_servers (note_failure it s e sd) ! i)) =
      ss_attempted (stats (sd_servers sd ! i)) + (if s = i then 1 else 0)"
    "stats_balanced (sd_servers (note_failure it s e sd) ! i) = stats_balanced (sd_servers sd ! i)"
  using assms by (cases "s = i"; simp add: note_failure_servers)+

lemma handle_failure_servers:
  "sd_servers (handle_failure now it s e sd) = sd_servers (snd (item_select now it
     (penalise now s e (update_probe it (server_id_at (note_failure it s e sd) s) False (note_failure it s e sd)))))"
  by (rule handle_failure_cases [where now = now and it = it and s = s and e = e and sd = sd]) simp_all

lemma route_attempts:
  assumes "i < length (sd_servers sd)"
  shows "attempted_at (route_scheduler_msg now m sd) i = attempted_at sd i + (if result_of i m then 1 else 0) \<and>
    stats_balanced (sd_servers (route_scheduler_msg now m sd) ! i) = stats_balanced (sd_servers sd ! i)"
proof (cases m)
  case (FetchResult it s res)
  show ?thesis
  proof (cases res)
    case (Inl e)
    have "stats (sd_servers (handle_failure now it s e sd) ! i) = stats (sd_servers (note_failure it s e sd) ! i)"
      using assms by (simp add: handle_failure_servers stats_item_select stats_penalise)
    with stats_note_failure [OF assms, of it s e] FetchResult Inl show ?thesis
      by (simp add: attempted_at_def stats_balanced_def)
  next
    case (Inr bytes)
    have "sd_servers (handle_success it s bytes sd') = sd_servers (upd_server s record_attempt_success sd')" for sd'
      by (simp add: handle_success_def Let_def upd_server_def)
    with FetchResult Inr assms show ?thesis
      by (cases "s = i") (simp_all add: attempted_at_def upd_server_def)
  qed
next
  case (ReturnUnattempted its s e)
  with assms show ?thesis
    by (simp add: attempted_at_def return_items_frame stats_upd_server stats_balanced_def)
qed (simp add: attempted_at_def)

lemma route_servers_length [simp]:
  "length (sd_servers (route_scheduler_msg now m sd)) = length (sd_servers sd)"
proof (cases m)
  case (FetchResult it s res)
  then show ?thesis
    by (cases res) (simp_all add: handle_failure_servers, simp add: handle_success_def Let_def)
qed (simp_all add: return_items_frame)

text \<open>Provider statistics: after any batch of messages, a server's attempt counter has grown by exactly the
  number of its fetch results, and if the counters added up (attempted = succeeded + not found +
  transient) they still do.\<close>

theorem attempts_count_fetch_results:
  assumes "i < length (sd_servers sd)"
  shows "attempted_at (fold (route_scheduler_msg now) ms sd) i =
      attempted_at sd i + length (filter (result_of i) ms) \<and>
    stats_balanced (sd_servers (fold (route_scheduler_msg now) ms sd) ! i) = stats_balanced (sd_servers sd ! i)"
  using assms
proof (induction ms arbitrary: sd)
  case (Cons m ms)
  with route_attempts [OF Cons.prems, of now m] Cons.IH [of "route_scheduler_msg now m sd"] show ?case
    by simp
qed simp

theorem attempts_count_fetch_results_witness:
  "attempted_at (fold (route_scheduler_msg 5)
     [FetchResult demo_item 0 (Inl (ArticleNotFound ''m'')), AllWrappersExited ''a''] demo_sched) 0 =
   attempted_at demo_sched 0 + 1"
  using attempts_count_fetch_results [of 0 demo_sched 5 "[FetchResult demo_item 0 (Inl (ArticleNotFound ''m'')), AllWrappersExited ''a'']"]
  by (simp add: demo_sched_def sched_start_def)

section \<open>Respawn\<close>

text \<open>What the timer does to one server, given its supervisor.\<close>

definition revived :: "millis \<Rightarrow> supervisor \<Rightarrow> server \<Rightarrow> server" where
  "revived now sv s =
    (if respawn_due now sv \<and> sv_active_wrappers s = 0
     then snd (spawn_server_wrappers now (max (sv_connections s) 1) (1 + sat_mul (su_consecutive_offline sv) 1000) s)
     else s)"

definition own_servers :: "sched \<Rightarrow> bool" where
  "own_servers sd \<longleftrightarrow> map su_server (sd_supervisors sd) = [0..<length (sd_servers sd)]"

lemma own_servers_nth:
  assumes "own_servers sd" "k < length (sd_servers sd)"
  shows "su_server (sd_supervisors sd ! k) = k" "length (sd_supervisors sd) = length (sd_servers sd)"
proof -
  have l: "length (sd_supervisors sd) = length (sd_servers sd)"
    using arg_cong [OF assms(1) [unfolded own_servers_def], of length] by simp
  have "map su_server (sd_supervisors sd) ! k = k" using assms by (simp add: own_servers_def)
  with assms(2) l show "su_server (sd_supervisors sd ! k) = k" by simp
  show "length (sd_supervisors sd) = length (sd_servers sd)" by (rule l)
qed

lemma respawn_one_effect:
  assumes "own_servers sd" "k < length (sd_servers sd)"
  shows "sd_servers (snd (respawn_one now k sd)) = (sd_servers sd)[k := revived now (sd_supervisors sd ! k) (sd_servers sd ! k)]"
    "sd_supervisors (snd (respawn_one now k sd)) =
      (sd_supervisors sd)[k := (if respawn_due now (sd_supervisors sd ! k)
        then (sd_supervisors sd ! k)\<lparr>su_next_respawn_at := None\<rparr> else sd_supervisors sd ! k)]"
    "own_servers (snd (respawn_one now k sd))"
    "accounted (snd (respawn_one now k sd)) = accounted sd"
proof -
  note o = own_servers_nth [OF assms]
  have z: "(0 < sv_active_wrappers s) = (sv_active_wrappers s \<noteq> 0)" for s
    by (simp add: word_neq_0_conv)
  show 1: "sd_servers (snd (respawn_one now k sd)) = (sd_servers sd)[k := revived now (sd_supervisors sd ! k) (sd_servers sd ! k)]"
    by (auto simp: respawn_one_def Let_def o upd_server_def revived_def z split: prod.splits)
  show 2: "sd_supervisors (snd (respawn_one now k sd)) =
      (sd_supervisors sd)[k := (if respawn_due now (sd_supervisors sd ! k)
        then (sd_supervisors sd ! k)\<lparr>su_next_respawn_at := None\<rparr> else sd_supervisors sd ! k)]"
    by (auto simp: respawn_one_def Let_def split: prod.splits)
  have "map su_server ((sd_supervisors sd)[k := (if respawn_due now (sd_supervisors sd ! k)
        then (sd_supervisors sd ! k)\<lparr>su_next_respawn_at := None\<rparr> else sd_supervisors sd ! k)]) =
    (map su_server (sd_supervisors sd))[k := map su_server (sd_supervisors sd) ! k]"
    using assms o by (simp add: map_update)
  then show "own_servers (snd (respawn_one now k sd))"
    using assms(1) 1 2 by (simp add: own_servers_def)
  show "accounted (snd (respawn_one now k sd)) = accounted sd"
    by (auto simp: respawn_one_def Let_def accounted_def queued_def split: prod.splits)
qed

lemma respawn_from_effect:
  "own_servers sd \<Longrightarrow> distinct ks \<Longrightarrow> set ks \<subseteq> {..<length (sd_servers sd)} \<Longrightarrow> j < length (sd_servers sd) \<Longrightarrow>
    length (sd_servers (snd (respawn_from now ks sd))) = length (sd_servers sd) \<and>
    sd_servers (snd (respawn_from now ks sd)) ! j =
      (if j \<in> set ks then revived now (sd_supervisors sd ! j) (sd_servers sd ! j) else sd_servers sd ! j) \<and>
    accounted (snd (respawn_from now ks sd)) = accounted sd"
proof (induction ks arbitrary: sd)
  case (Cons k ks)
  obtain ws sd1 where r: "respawn_one now k sd = (ws, sd1)" by (cases "respawn_one now k sd")
  obtain ws' sd2 where r2: "respawn_from now ks sd1 = (ws', sd2)" by (cases "respawn_from now ks sd1")
  have k: "k < length (sd_servers sd)" "k \<notin> set ks" using Cons.prems by auto
  note e = respawn_one_effect [OF Cons.prems(1) k(1), of now, unfolded r snd_conv]
  have l: "length (sd_servers sd1) = length (sd_servers sd)" by (simp add: e)
  have "j \<noteq> k \<Longrightarrow> sd_supervisors sd1 ! j = sd_supervisors sd ! j" "j \<noteq> k \<Longrightarrow> sd_servers sd1 ! j = sd_servers sd ! j"
    "sd_servers sd1 ! k = revived now (sd_supervisors sd ! k) (sd_servers sd ! k)"
    using k by (simp_all add: e)
  with Cons.IH [OF e(3)] Cons.prems l k e(4) show ?case
    by (cases "j = k") (auto simp: r r2)
qed simp

text \<open>Recovery: the respawn timer gives every server whose cooldown is over and whose workers have all
  retired a fresh pool of \<open>max connections 1\<close> workers, so that it is live again, leaves every other
  server as it is, and moves no work item.\<close>

theorem respawn_revives_due_servers:
  assumes "own_servers sd" "i < length (sd_servers sd)"
  shows "let s = sd_servers sd ! i; s' = sd_servers (snd (respawn_tick now sd)) ! i in
    (if respawn_due now (sd_supervisors sd ! i) \<and> sv_active_wrappers s = 0
     then sv_active_wrappers s' = of_nat (unat (max (sv_connections s) 1)) \<and> has_active_wrappers s' \<and>
          sv_config s' = sv_config s \<and> sv_active s' = sv_active s
     else s' = s) \<and>
    accounted (snd (respawn_tick now sd)) = accounted sd"
proof -
  have n: "unat (max (sv_connections s) 1) < 2 ^ 16" "0 < unat (max (sv_connections s) 1)" for s
    using unsigned_less [of "max (sv_connections s) 1"]
    by (auto simp: max_def word_le_nat_alt not_le word_less_nat_alt)
  have "unat (of_nat (unat (max (sv_connections s) 1)) :: u32) = unat (max (sv_connections s) 1)" for s
    using n(1) [of s] by (simp add: unsigned_ucast_eq take_bit_nat_eq_self)
  then have pos: "0 < (of_nat (unat (max (sv_connections s) 1)) :: u32)" for s
    using n(2) [of s] by (simp add: word_less_nat_alt)
  have "length (sd_supervisors sd) = length (sd_servers sd)" using own_servers_nth(2) [OF assms] .
  then have "sd_servers (snd (respawn_tick now sd)) ! i = revived now (sd_supervisors sd ! i) (sd_servers sd ! i)"
    and "accounted (snd (respawn_tick now sd)) = accounted sd"
    using respawn_from_effect [OF assms(1) distinct_upt _ assms(2), of 0 "length (sd_servers sd)" now] assms(2)
    by (simp_all add: respawn_tick_def lessThan_atLeast0)
  then show ?thesis
    using pos [of "sd_servers sd ! i"]
    by (cases "respawn_due now (sd_supervisors sd ! i) \<and> sv_active_wrappers (sd_servers sd ! i) = 0")
      (auto simp: revived_def Let_def has_active_wrappers_def)
qed

theorem respawn_revives_due_servers_witness:
  "has_active_wrappers (sd_servers (snd (respawn_tick 30000
     (route_scheduler_msg 0 (AllWrappersExited ''a'') stuck_sched))) ! 0)"
proof -
  let ?sd = "route_scheduler_msg 0 (AllWrappersExited ''a'') stuck_sched"
  have id: "sv_id (snd (unregister_wrapper (demo_server ''a'' 0))) = ''a''"
    "sv_active_wrappers (snd (unregister_wrapper (demo_server ''a'' 0))) = 0" by code_simp+
  have sup: "sd_supervisors ?sd = [schedule_respawn 0 (supervisor_new 0 0 0)]"
    by (simp add: upd_supervisor_def stuck_sched_def sched_start_def server_id_at_def supervisor_new_def id)
  have srv: "sd_servers ?sd = [snd (unregister_wrapper (demo_server ''a'' 0))]"
    by (simp add: stuck_sched_def sched_start_def)
  have own: "own_servers ?sd"
    unfolding own_servers_def sup srv by (simp add: schedule_respawn_def supervisor_new_def Let_def)
  have "respawn_due 30000 (schedule_respawn 0 (supervisor_new 0 0 0))"
    by (simp add: respawn_due_def schedule_respawn_at unat_sat_add supervisor_new_def)
  moreover have "0 < length (sd_servers ?sd)" unfolding srv by simp
  note respawn_revives_due_servers [OF own this, of 30000, unfolded sup srv Let_def]
  ultimately show ?thesis using id(2) by (simp del: route_scheduler_msg.simps)
qed

section \<open>The biased select\<close>

fun run_turns :: "(nat \<Rightarrow> millis) \<Rightarrow> nat \<Rightarrow> millis list \<Rightarrow> inputs \<times> sched \<Rightarrow> ((inputs \<times> sched) + sched) option" where
  "run_turns clk fuel [] st = Some (Inl st)"
| "run_turns clk fuel (now # nows) (inp, sd) =
     (case scheduler_turn clk fuel now inp sd of
        None \<Rightarrow> None
      | Some (Inr sd1, ws) \<Rightarrow> Some (Inr sd1)
      | Some (Inl st, ws) \<Rightarrow> run_turns clk fuel nows st)"

text \<open>Once every control sender is gone (the handle was dropped), the closed control channel wins every
  turn: however many turns run, no submitted work, no worker message, no timer and not the closed
  work channel is ever looked at, and the loop does not leave.\<close>

theorem closed_control_channel_starves:
  assumes "\<not> in_shutdown inp" "in_control inp = []" "\<not> in_control_open inp"
    and "run_turns clk fuel nows (inp, sd) = Some r"
  shows "\<exists>sd'. r = Inl (inp, sd')"
  using assms(4)
proof (induction nows arbitrary: sd)
  case (Cons now nows)
  have inp: "inp\<lparr>in_control := []\<rparr> = inp" using assms(2) by simp
  have "select_branch inp = Some BrControl" using assms(1,3) by (simp add: select_branch_def)
  with Cons.prems obtain sd1 where "run_turns clk fuel nows (inp, sd1) = Some r"
    by (auto simp: scheduler_turn_def run_branch_def inp assms(2) split: option.splits)
  then show ?case by (rule Cons.IH)
qed auto

definition dropped_handle :: inputs where
  "dropped_handle = \<lparr>in_shutdown = False, in_control = [], in_control_open = False, in_work = [demo_item],
    in_work_open = False, in_msgs = [], in_retry_due = False, in_respawn_due = False\<rparr>"

theorem closed_control_channel_starves_witness:
  "\<exists>sd'. run_turns (\<lambda>n. 0) 10 [1, 2, 3] (dropped_handle, demo_sched\<lparr>sd_pending := []\<rparr>) = Some (Inl (dropped_handle, sd'))"
proof -
  let ?sd = "demo_sched\<lparr>sd_pending := []\<rparr>"
  have d: "dispatch_pending (\<lambda>n. 0) 10 sd = Some (dispatch_finish (dispatch_start sd))" if "sd_pending sd = []" for sd
    using that by (simp add: dispatch_pending_def numeral_eq_Suc dispatch_body_def dispatch_start_def Let_def)
  have p: "sd_pending (dispatch_finish (dispatch_start sd)) = sd_pending sd" for sd
    by (simp add: dispatch_finish_eq dispatch_start_def)
  have t: "scheduler_turn (\<lambda>n. 0) 10 now dropped_handle sd =
      Some (Inl (dropped_handle, dispatch_finish (dispatch_start sd)), [])" if "sd_pending sd = []" for now sd
    using d [OF that] by (simp add: scheduler_turn_def select_branch_def run_branch_def dropped_handle_def)
  have "\<exists>r. run_turns (\<lambda>n. 0) 10 [1, 2, 3] (dropped_handle, ?sd) = Some r"
    by (simp add: t p)
  then obtain r where r: "run_turns (\<lambda>n. 0) 10 [1, 2, 3] (dropped_handle, ?sd) = Some r" ..
  moreover have "\<exists>sd'. r = Inl (dropped_handle, sd')"
    by (rule closed_control_channel_starves [OF _ _ _ r]) (simp_all add: dropped_handle_def)
  ultimately show ?thesis by auto
qed

section \<open>Shutdown\<close>

text \<open>Shutdown reports every pending article as cancelled, but an article a worker hands back during the
  final drain is dropped: the drain leaves the outcomes as they are and keeps the article nowhere.\<close>

theorem shutdown_drops_returned_items:
  "sd_outcomes (shutdown_begin sd) = sd_outcomes sd @ map (\<lambda>it. Cancelled (wi_tag it)) (sd_pending sd) \<and>
   sd_pending (shutdown_begin sd) = [] \<and>
   sd_outcomes (shutdown_msg now (ReturnUnattempted its s e) sd) = sd_outcomes sd \<and>
   sd_pending (shutdown_msg now (ReturnUnattempted its s e) sd) = [] \<and>
   queued (shutdown_msg now (ReturnUnattempted its s e) sd) = queued sd"
  by (simp add: shutdown_begin_def send_cancelled_eq shutdown_msg_def return_items_frame queued_def)

end
