(* ===== verification/News_Worker_Proofs.thy ===== *)
theory News_Worker_Proofs
  imports News_Worker News_Turn
begin

text \<open>
  Properties of the wrapper workers: a batch ends, every article of it is answered, absence is only
  ever read off the wire, and a retiring last worker strands nothing.
\<close>

section \<open>One round\<close>

abbreviation answers :: "work_item list \<Rightarrow> scheduler_msg list \<Rightarrow> bool" where
  "answers \<equiv> list_all2 (\<lambda>it m. \<exists>s res. m = FetchResult it s res)"

definition fetch_out :: "work_item list \<Rightarrow> fetch_env \<Rightarrow> fetch_exit \<times> fetch_state \<Rightarrow> bool" where
  "fetch_out batch env out \<longleftrightarrow>
    (case out of (ex, fs) \<Rightarrow>
      \<exists>ok lost. batch = ok @ lost @ fs_pending fs \<and> answers ok (fs_msgs fs) \<and>
        (lost \<noteq> [] \<longrightarrow> ex = FetchTimeout \<and> length lost = 1 \<and> (\<exists>k. fe_cut env k = CutSend)) \<and>
        (ex = FetchDone \<longrightarrow> fs_pending fs = []))"

lemma fetch_inv_conn:
  "fetch_inv batch (fs\<lparr>fs_wrapper := w\<rparr>) = fetch_inv batch fs"
  by (simp add: fetch_inv_def)

lemma fetch_inv_out:
  assumes "fetch_inv batch fs" "fs_pending fs' = fs_pending fs" "fs_msgs fs' = fs_msgs fs"
    "ex = FetchDone \<Longrightarrow> fs_pending fs = []"
  shows "fetch_out batch env (ex, fs')"
proof -
  obtain ok where "batch = ok @ fs_pending fs" "answers ok (fs_msgs fs)"
    using assms(1) by (auto simp: fetch_inv_def)
  then have "batch = ok @ [] @ fs_pending fs' \<and> answers ok (fs_msgs fs') \<and>
      ([] \<noteq> ([] :: work_item list) \<longrightarrow> ex = FetchTimeout \<and> length ([] :: work_item list) = 1 \<and> (\<exists>k. fe_cut env k = CutSend)) \<and>
      (ex = FetchDone \<longrightarrow> fs_pending fs' = [])"
    using assms(2-4) by simp
  then show ?thesis unfolding fetch_out_def prod.case by blast
qed

lemma pend_head:
  assumes "map pr_tag rs = map wi_tag pend" "rs = r # rs'" "distinct (map wi_tag pend)"
  obtains it rest where "pend = it # rest" "pend_lookup (pr_tag r) pend = Some it"
    "pend_delete (pr_tag r) pend = rest" "map pr_tag rs' = map wi_tag rest"
proof -
  obtain it rest where p: "pend = it # rest" "wi_tag it = pr_tag r" "map pr_tag rs' = map wi_tag rest"
    using assms(1,2) by (cases pend) auto
  have "filter (\<lambda>x. wi_tag x \<noteq> pr_tag r) rest = rest"
    using assms(3) p by (intro filter_True) force
  with p that show thesis by (simp add: pend_lookup_def pend_delete_def)
qed

lemma fetch_answer_step:
  assumes inv: "map pr_tag (pres_request res # requests (fs_pipeline fs)) = map wi_tag (fs_pending fs)"
    "distinct (map wi_tag (fs_pending fs))" "0 < pl_depth (fs_pipeline fs)"
    and acc: "batch = ok @ fs_pending fs" "answers ok (fs_msgs fs)"
  shows "case fetch_answer env server res fs of
      Inl fs' \<Rightarrow> fetch_inv batch fs' \<and> fs_pipeline fs' = fs_pipeline fs
    | Inr out \<Rightarrow> fetch_out batch env out"
proof -
  obtain it rest where p: "fs_pending fs = it # rest" "pend_lookup (pr_tag (pres_request res)) (fs_pending fs) = Some it"
    "pend_delete (pr_tag (pres_request res)) (fs_pending fs) = rest" "map pr_tag (requests (fs_pipeline fs)) = map wi_tag rest"
    using pend_head [OF inv(1) refl inv(2)] by blast
  obtain r w where rw: "answer_result (fe_clock env (fs_round fs)) (pres_result res) (fs_wrapper fs) = (r, w)"
    by (cases "answer_result (fe_clock env (fs_round fs)) (pres_result res) (fs_wrapper fs)")
  let ?fs2 = "fs\<lparr>fs_pending := rest, fs_wrapper := w\<rparr>"
  have e: "fetch_answer env server res fs =
      (if fe_cut env (fs_round fs) = CutSend then Inr (FetchTimeout, ?fs2)
       else Inl (?fs2\<lparr>fs_msgs := fs_msgs ?fs2 @ [FetchResult it server r], fs_round := fs_round fs + 1\<rparr>))"
    using p rw by (simp add: fetch_answer_def Let_def)
  show ?thesis
  proof (cases "fe_cut env (fs_round fs) = CutSend")
    case True
    have "batch = ok @ [it] @ fs_pending ?fs2 \<and> answers ok (fs_msgs ?fs2) \<and>
        ([it] \<noteq> [] \<longrightarrow> FetchTimeout = FetchTimeout \<and> length [it] = 1 \<and> (\<exists>k. fe_cut env k = CutSend)) \<and>
        (FetchTimeout = FetchDone \<longrightarrow> fs_pending ?fs2 = [])"
      using acc p(1) True by auto
    then have "fetch_out batch env (FetchTimeout, ?fs2)" unfolding fetch_out_def prod.case by blast
    with True show ?thesis by (simp add: e)
  next
    case False
    have "fetch_inv batch (?fs2\<lparr>fs_msgs := fs_msgs ?fs2 @ [FetchResult it server r], fs_round := fs_round fs + 1\<rparr>)"
    proof -
      have "batch = (ok @ [it]) @ rest" "answers (ok @ [it]) (fs_msgs fs @ [FetchResult it server r])"
        using acc p(1) by (auto intro: list_all2_appendI)
      moreover have "distinct (map wi_tag rest)" using inv(2) p(1) by simp
      ultimately show ?thesis
        using inv(3) p(4) unfolding fetch_inv_def by (simp del: map_append)
    qed
    with False show ?thesis by (simp add: e)
  qed
qed

lemma fetch_body_step:
  assumes inv: "fetch_inv batch fs"
  shows "case fetch_body h env server fs of
      Inl fs' \<Rightarrow> fetch_inv batch fs' \<and> length (requests (fs_pipeline fs')) < length (requests (fs_pipeline fs))
    | Inr out \<Rightarrow> fetch_out batch env out"
proof (cases "check_paused h (fe_paused env (fs_round fs)) (fs_pending fs)")
  case True
  then show ?thesis by (auto simp: fetch_body_def intro!: fetch_inv_out [OF inv])
next
  case np: False
  show ?thesis
  proof (cases "nw_conn (fs_wrapper fs)")
    case None
    with np show ?thesis by (auto simp: fetch_body_def intro!: fetch_inv_out [OF inv])
  next
    case (Some c)
    show ?thesis
    proof (cases "fe_cut env (fs_round fs) = CutFlush")
      case True
      with np Some show ?thesis by (auto simp: fetch_body_def intro!: fetch_inv_out [OF inv])
    next
      case nf: False
      obtain fr p1 c1 where fl: "flush_sends (fs_pipeline fs) c = (fr, p1, c1)"
        by (cases "flush_sends (fs_pipeline fs) c") auto
      show ?thesis
      proof (cases fr)
        case (Inl e)
        with np Some nf fl show ?thesis
          by (auto simp: fetch_body_def intro!: fetch_inv_out [OF inv])
      next
        case (Inr u)
        note ok = flush_sends_ok [OF fl [unfolded Inr]]
        define fs1 where "fs1 = fs\<lparr>fs_pipeline := p1, fs_wrapper := (fs_wrapper fs)\<lparr>nw_conn := Some c1\<rparr>\<rparr>"
        have r1: "map pr_tag (requests p1) = map wi_tag (fs_pending fs)" "0 < pl_depth p1"
          "distinct (map wi_tag (fs_pending fs))"
          using inv ok(1,2) by (simp_all add: fetch_inv_def)
        obtain "ok" where acc: "batch = ok @ fs_pending fs" "answers ok (fs_msgs fs)"
          using inv by (auto simp: fetch_inv_def)
        show ?thesis
        proof (cases "pipeline_is_empty p1")
          case True
          with r1(1) have "fs_pending fs = []" by (simp add: pipeline_is_empty_def)
          with np Some nf fl Inr True show ?thesis
            by (auto simp: fetch_body_def Let_def intro!: fetch_inv_out [OF inv])
        next
          case ne: False
          show ?thesis
          proof (cases "fe_cut env (fs_round fs) = CutReceive")
            case True
            with np Some nf fl Inr ne show ?thesis
              by (auto simp: fetch_body_def Let_def intro!: fetch_inv_out [OF inv])
          next
            case nr: False
            obtain rr p2 c2 where rc: "receive_one p1 c1 = (rr, p2, c2)"
              by (cases "receive_one p1 c1") auto
            define fs2 where "fs2 = fs1\<lparr>fs_pipeline := p2, fs_wrapper := (fs_wrapper fs1)\<lparr>nw_conn := Some c2\<rparr>\<rparr>"
            have f2: "fs2 = fs\<lparr>fs_pipeline := p2, fs_wrapper := (fs_wrapper fs)\<lparr>nw_conn := Some c2\<rparr>\<rparr>"
              by (simp add: fs1_def fs2_def)
            have body: "fetch_body h env server fs = (case rr of
                Inl e \<Rightarrow> Inr (FetchErr e, fs2)
              | Inr None \<Rightarrow> Inr (FetchDone, fs2)
              | Inr (Some res) \<Rightarrow> fetch_answer env server res fs2)"
              unfolding f2 using np Some nf fl Inr ne nr rc by (simp add: fetch_body_def Let_def)
            have keep: "fs_pending fs2 = fs_pending fs" "fs_msgs fs2 = fs_msgs fs" "fs_pipeline fs2 = p2"
              by (simp_all add: fs1_def fs2_def)
            show ?thesis
            proof (cases rr)
              case (Inl e)
              then show ?thesis using keep by (auto simp: body intro!: fetch_inv_out [OF inv])
            next
              case rr: (Inr x)
              show ?thesis
              proof (cases x)
                case None
                have i0: "pl_in_flight p1 = []" using receive_one_none rc rr None by blast
                have "pl_pending p1 = []" using ok(3) i0 r1(2) ok(2) by auto
                with i0 ne have False by (simp add: pipeline_is_empty_def)
                then show ?thesis ..
              next
                case (Some res)
                note rok = receive_one_ok [OF rc [unfolded rr Some]]
                have "map pr_tag (pres_request res # requests (fs_pipeline fs2)) = map wi_tag (fs_pending fs2)"
                  using r1(1) rok(1) keep by simp
                note step = fetch_answer_step [OF this _ _ _ _, of batch "ok" env server]
                have "length (requests p2) < length (requests (fs_pipeline fs))"
                  using ok(1) rok(1) by (metis length_Cons lessI)
                with step r1 rok acc keep show ?thesis
                  by (auto simp: body rr Some split: sum.splits)
              qed
            qed
          qed
        qed
      qed
    qed
  qed
qed

interpretation fetch_loop: loop_body "fetch_body h env server" "fetch_inv batch"
  "\<lambda>fs. length (requests (fs_pipeline fs))" for h env server batch
  using fetch_body_step by unfold_locales (force split: sum.splits)+

lemma fetch_run:
  assumes "distinct (map wi_tag batch)"
  obtains out where "run_loop (fetch_body h env server) (Suc (length batch)) (fetch_start h depth batch w) = Some out"
    "fetch_out batch env out"
proof -
  have inv: "fetch_inv batch (fetch_start h depth batch w)" using assms by (rule fetch_inv_start)
  have "length (requests (fs_pipeline (fetch_start h depth batch w))) < Suc (length batch)"
    by (simp add: fetch_start_def submit_fold_requests pipeline_new_def)
  from fetch_loop.returns [OF inv this] obtain out
    where out: "run_loop (fetch_body h env server) (Suc (length batch)) (fetch_start h depth batch w) = Some out"
    by blast
  from fetch_loop.exit_state [OF out inv] obtain fs where "fetch_inv batch fs" "fetch_body h env server fs = Inr out"
    by blast
  with fetch_body_step [where batch = batch and fs = fs and h = h and env = env and server = server] have "fetch_out batch env out" by simp
  with out that show thesis by blast
qed

section \<open>Properties\<close>

lemma answers_items: "answers xs ms \<Longrightarrow> \<Sum>\<^sub># (mset (map msg_items ms)) = mset xs"
  by (induction rule: list_all2_induct) auto

lemma result_items: "\<Sum>\<^sub># (mset (map msg_items (map (\<lambda>it. FetchResult it s r) its))) = mset its"
  by (induction its) auto

lemma fetch_finish_items:
  assumes "fetch_out batch env out" "\<And>xs. mset (ord xs) = mset xs"
  shows "\<exists>lost. \<Sum>\<^sub># (mset (map msg_items (fst (fetch_finish server ord t out)))) + mset lost = mset batch \<and>
    (lost = [] \<or> (length lost = 1 \<and> (\<exists>k. fe_cut env k = CutSend)))"
proof -
  obtain ex fs where out: "out = (ex, fs)" by (cases out)
  with assms(1) obtain ok lost where o: "batch = ok @ lost @ fs_pending fs" "answers ok (fs_msgs fs)"
    "lost \<noteq> [] \<longrightarrow> ex = FetchTimeout \<and> length lost = 1 \<and> (\<exists>k. fe_cut env k = CutSend)"
    "ex = FetchDone \<longrightarrow> fs_pending fs = []"
    by (auto simp: fetch_out_def)
  have e: "(ord (fs_pending fs) = []) = (fs_pending fs = [])"
    using assms(2) [of "fs_pending fs"] by (metis mset_zero_iff)
  have "\<Sum>\<^sub># (mset (map msg_items (fst (fetch_finish server ord t out)))) = mset ok + mset (fs_pending fs)"
    using answers_items [OF o(2)] o(4) result_items e assms(2)
    by (cases ex) (simp_all add: fetch_finish_def out Let_def del: map_map)
  with o show ?thesis by (intro exI [of _ lost]) auto
qed

text \<open>C13. A batch always ends, and every article of it is answered by exactly one message (its own result, or
  a place in the list handed back), provided the tags are distinct and the timeout does not
  fire while a result is being handed over.\<close>

theorem fetch_and_stream_conserves:
  assumes "distinct (map wi_tag batch)" "\<And>xs. mset (ord xs) = mset xs" "\<And>k. fe_cut env k \<noteq> CutSend"
  shows "\<exists>msgs w'. fetch_and_stream h env ord article_timeout server cfg batch w = Some (msgs, w') \<and>
    \<Sum>\<^sub># (mset (map msg_items msgs)) = mset batch"
proof -
  obtain out where r: "run_loop (fetch_body h env server) (Suc (length batch))
      (fetch_start h (max (sc_pipelining cfg) 1) batch w) = Some out" and o: "fetch_out batch env out"
    using fetch_run [OF assms(1)] .
  obtain lost where l: "\<Sum>\<^sub># (mset (map msg_items (fst (fetch_finish server ord (article_timeout * length batch) out)))) + mset lost = mset batch"
    "lost = [] \<or> (length lost = 1 \<and> (\<exists>k. fe_cut env k = CutSend))"
    using fetch_finish_items [OF o assms(2)] by blast
  from l(2) assms(3) have "lost = []" by blast
  with l(1) r show ?thesis
    by (cases "fetch_finish server ord (article_timeout * length batch) out") (simp add: fetch_and_stream_def)
qed

definition demo_env :: fetch_env where
  "demo_env = \<lparr>fe_paused = (\<lambda>_. {}), fe_clock = (\<lambda>k. k), fe_cut = (\<lambda>_. NoCut)\<rparr>"

definition demo_wrapper :: news_wrapper where
  "demo_wrapper = (wrapper_new 0 ''a'' 1)\<lparr>nw_conn := Some (demo_conn [RxLine (status_line 430 ''no'')])\<rparr>"

theorem fetch_and_stream_conserves_witness:
  "\<exists>msgs w'. fetch_and_stream demo_heap demo_env rev 60000 0 (server_config_default ''a'') [demo_item] demo_wrapper
      = Some (msgs, w') \<and> \<Sum>\<^sub># (mset (map msg_items msgs)) = {#demo_item#}"
  using fetch_and_stream_conserves [of "[demo_item]" rev demo_env demo_heap 60000 0 "server_config_default ''a''" demo_wrapper]
  by (simp add: demo_env_def)

text \<open>A result can be lost: when the batch timeout fires while the answer of the only article is being
  handed to the scheduler, the batch ends without any message for it.\<close>

theorem fetch_timeout_can_lose_result:
  "\<exists>w'. fetch_and_stream demo_heap (demo_env\<lparr>fe_cut := \<lambda>_. CutSend\<rparr>) rev 60000 0 (server_config_default ''a'')
      [demo_item] demo_wrapper = Some ([], w') \<and> \<not> wrapper_is_connected w'"
proof -
  have m: "max (4::u8) 1 = 4" by code_simp
  show ?thesis
    by (simp add: fetch_and_stream_def fetch_start_def fetch_body_def check_paused_def demo_env_def demo_wrapper_def
        wrapper_new_def demo_item_def demo_heap_def article_new_def pipeline_eval pend_insert_def pend_lookup_def
        pend_delete_def pipeline_is_empty_def demo_status_430 demo_status_nonempty fetch_answer_def
        fetch_finish_def server_config_default_def m Let_def)
qed

section \<open>Absence comes off the wire\<close>

definition rx_of :: "nntp_conn \<Rightarrow> rx_event list" where
  "rx_of c = (case conn_transport c of None \<Rightarrow> [] | Some t \<Rightarrow> tr_rx t)"

text \<open>
  The replies in the script of what the connection will read: the code of the status line it starts with, and the
  script after one reply, the body of a 220 included.
\<close>

definition reply_code :: "rx_event list \<Rightarrow> nat option" where
  "reply_code rx =
    (case rx of
       RxLine l # _ \<Rightarrow> if l = [] then None else (case parse_response_line l of Inr r \<Rightarrow> Some (resp_code r) | Inl _ \<Rightarrow> None)
     | _ \<Rightarrow> None)"

definition skip_reply :: "rx_event list \<Rightarrow> rx_event list" where
  "skip_reply rx = (if reply_code rx = Some 220 then snd (read_body_lines [] None (tl rx)) else tl rx)"

lemma rx_of_state [simp]: "rx_of (c\<lparr>conn_state := st\<rparr>) = rx_of c"
  by (simp add: rx_of_def)

lemma rx_of_with_rx [simp]: "rx_of (with_rx c t rx) = rx"
  by (simp add: rx_of_def with_rx_def)

lemma read_response_line_event:
  assumes "read_response_line c = (Inr status, c')"
  shows "reply_code (rx_of c) = Some (resp_code status)" "rx_of c' = tl (rx_of c)"
  using assms
  by (cases "conn_transport c"; cases "tr_rx (the (conn_transport c))";
      auto simp: read_response_line_def Let_def rx_of_def with_rx_def reply_code_def split: rx_event.splits if_splits)+

lemma article_reply_rx:
  assumes "article_reply req status c = (r, c')"
  shows "rx_of c' = (if resp_code status = 220 then snd (read_body_lines [] None (rx_of c)) else rx_of c)"
  using assms
  by (cases "conn_transport c")
    (auto simp: article_reply_def Let_def read_multiline_body_def read_multiline_body_into_bounded_def rx_of_def with_rx_def
      split: if_splits sum.splits prod.splits)

text \<open>One reply is read and paired with the oldest request; it is an absence only if its code is 430.\<close>

lemma receive_one_reply:
  assumes "receive_one p c = (Inr (Some res), p', c')"
  shows "rx_of c' = skip_reply (rx_of c)"
    "pres_result res = Inl e \<Longrightarrow> is_not_found e \<Longrightarrow> reply_code (rx_of c) = Some 430"
proof -
  obtain req status c1 r where rd: "read_response_line c = (Inr status, c1)" and rp: "article_reply req status c1 = (r, c')"
    and res: "pres_result res = r"
    using assms by (auto simp: receive_one_def Let_def split: list.splits sum.splits prod.splits)
  note ev = read_response_line_event [OF rd]
  show "rx_of c' = skip_reply (rx_of c)" using article_reply_rx [OF rp] ev by (simp add: skip_reply_def)
  show "pres_result res = Inl e \<Longrightarrow> is_not_found e \<Longrightarrow> reply_code (rx_of c) = Some 430"
    using article_reply_not_found rp res ev(1) by auto
qed

lemma receive_one_fatal: "receive_one p c = (Inl e, p', c') \<Longrightarrow> \<not> is_not_found e"
  by (auto simp: receive_one_def Let_def split: list.splits sum.splits prod.splits dest: read_response_line_error)

lemma send_command_no_flush_rx:
  assumes "send_command_no_flush cmd c = (r, c')"
  shows "rx_of c' = rx_of c" "r = Inl e \<Longrightarrow> \<not> is_not_found e"
  using assms by (auto simp: send_command_no_flush_def rx_of_def split: option.splits list.splits)

lemma conn_flush_rx:
  assumes "conn_flush c = (r, c')"
  shows "rx_of c' = rx_of c" "r = Inl e \<Longrightarrow> \<not> is_not_found e"
  using assms by (auto simp: conn_flush_def rx_of_def split: option.splits list.splits)

lemma send_loop_rx:
  "send_loop d infl pend sent c = (r, infl', pend', c') \<Longrightarrow>
    rx_of c' = rx_of c \<and> (\<forall>e. r = Inl e \<longrightarrow> \<not> is_not_found e)"
proof (induction d infl pend sent c rule: send_loop.induct)
  case (2 d infl req rest sent c)
  obtain x c1 where s: "send_command_no_flush (article_command req) c = (x, c1)"
    by (cases "send_command_no_flush (article_command req) c")
  note r = send_command_no_flush_rx [OF s]
  show ?case
  proof (cases "length infl < d")
    case True
    show ?thesis
    proof (cases x)
      case (Inl e)
      with "2.prems" True s r show ?thesis by auto
    next
      case (Inr u)
      with "2.prems" True s have "send_loop d (infl @ [req]) rest (Suc sent) c1 = (r, infl', pend', c')" by simp
      with "2.IH" [OF True s [symmetric, unfolded Inr]] r(1) Inr show ?thesis by auto
    qed
  qed (use "2.prems" in auto)
qed auto

lemma flush_sends_rx:
  assumes "flush_sends p c = (r, p', c')"
  shows "rx_of c' = rx_of c" "r = Inl e \<Longrightarrow> \<not> is_not_found e"
proof -
  obtain r1 infl pend c1 where s: "send_loop (pl_depth p) (pl_in_flight p) (pl_pending p) 0 c = (r1, infl, pend, c1)"
    by (cases "send_loop (pl_depth p) (pl_in_flight p) (pl_pending p) 0 c") auto
  note l = send_loop_rx [OF s]
  obtain f c2 where fl: "conn_flush c1 = (f, c2)" by (cases "conn_flush c1")
  note cf = conn_flush_rx [OF fl]
  show "rx_of c' = rx_of c"
    using assms s l fl cf by (auto simp: flush_sends_def Let_def split: sum.splits if_splits)
  show "r = Inl e \<Longrightarrow> \<not> is_not_found e"
    using assms s l fl cf by (auto simp: flush_sends_def Let_def split: sum.splits if_splits)
qed

definition claims_absence :: "scheduler_msg \<Rightarrow> bool" where
  "claims_absence m \<longleftrightarrow> (\<exists>it s e. m = FetchResult it s (Inl e) \<and> is_not_found e)"

text \<open>Between rounds as many replies have been read as messages sent, and every absence sent was a 430 of its own.\<close>

definition absences_read :: "rx_event list \<Rightarrow> scheduler_msg list \<Rightarrow> bool" where
  "absences_read rx ms \<longleftrightarrow> (\<forall>k < length ms. claims_absence (ms ! k) \<longrightarrow> reply_code ((skip_reply ^^ k) rx) = Some 430)"

definition wire_at :: "rx_event list \<Rightarrow> nat \<Rightarrow> fetch_state \<Rightarrow> bool" where
  "wire_at rx n fs \<longleftrightarrow> (\<forall>c. nw_conn (fs_wrapper fs) = Some c \<longrightarrow> rx_of c = (skip_reply ^^ n) rx)"

definition wire_inv :: "rx_event list \<Rightarrow> work_item list \<Rightarrow> fetch_state \<Rightarrow> bool" where
  "wire_inv rx batch fs \<longleftrightarrow> fetch_inv batch fs \<and> absences_read rx (fs_msgs fs) \<and> wire_at rx (length (fs_msgs fs)) fs"

lemma answer_result_conn: "answer_result now x w = (r, w') \<Longrightarrow> nw_conn w' = nw_conn w"
  by (cases x) (auto simp: Let_def on_fetch_success_def clear_bad_cons_def)

lemma fetch_answer_wire:
  assumes rd: "absences_read rx (fs_msgs fs)" "wire_at rx (Suc (length (fs_msgs fs))) fs"
    and it: "pend_lookup (pr_tag (pres_request res)) (fs_pending fs) = Some it"
    and abs: "\<And>e. pres_result res = Inl e \<Longrightarrow> is_not_found e \<Longrightarrow> reply_code ((skip_reply ^^ length (fs_msgs fs)) rx) = Some 430"
  shows "case fetch_answer env server res fs of
      Inl fs' \<Rightarrow> absences_read rx (fs_msgs fs') \<and> wire_at rx (length (fs_msgs fs')) fs'
    | Inr (ex, fs') \<Rightarrow> absences_read rx (fs_msgs fs') \<and> ex = FetchTimeout"
proof -
  obtain r w where rw: "answer_result (fe_clock env (fs_round fs)) (pres_result res) (fs_wrapper fs) = (r, w)"
    by (cases "answer_result (fe_clock env (fs_round fs)) (pres_result res) (fs_wrapper fs)")
  have "claims_absence (FetchResult it server r) \<Longrightarrow> reply_code ((skip_reply ^^ length (fs_msgs fs)) rx) = Some 430"
    using rw abs by (cases "pres_result res") (auto simp: claims_absence_def Let_def)
  then have "absences_read rx (fs_msgs fs @ [FetchResult it server r])"
    using rd(1) by (auto simp: absences_read_def nth_append less_Suc_eq)
  with it rw rd answer_result_conn [OF rw] show ?thesis
    by (auto simp: fetch_answer_def Let_def wire_at_def)
qed

definition wire_out :: "rx_event list \<Rightarrow> work_item list \<Rightarrow> fetch_env \<Rightarrow> fetch_exit \<times> fetch_state \<Rightarrow> bool" where
  "wire_out rx batch env out \<longleftrightarrow> fetch_out batch env out \<and>
    (case out of (ex, fs) \<Rightarrow> absences_read rx (fs_msgs fs) \<and> (case ex of FetchErr e \<Rightarrow> \<not> is_not_found e | _ \<Rightarrow> True))"

lemma fetch_body_wire:
  assumes inv: "wire_inv rx batch fs"
  shows "case fetch_body h env server fs of Inl fs' \<Rightarrow> wire_inv rx batch fs' | Inr out \<Rightarrow> wire_out rx batch env out"
proof -
  have inv0: "fetch_inv batch fs" "absences_read rx (fs_msgs fs)" using inv by (simp_all add: wire_inv_def)
  have step: "case fetch_body h env server fs of Inl fs' \<Rightarrow> fetch_inv batch fs' | Inr out \<Rightarrow> fetch_out batch env out"
    using fetch_body_step [OF inv0(1), where h = h and env = env and server = server] by (auto split: sum.splits)
  have "case fetch_body h env server fs of
      Inl fs' \<Rightarrow> absences_read rx (fs_msgs fs') \<and> wire_at rx (length (fs_msgs fs')) fs'
    | Inr (ex, fs') \<Rightarrow> absences_read rx (fs_msgs fs') \<and> (case ex of FetchErr e \<Rightarrow> \<not> is_not_found e | _ \<Rightarrow> True)"
  proof (cases "check_paused h (fe_paused env (fs_round fs)) (fs_pending fs) \<or> nw_conn (fs_wrapper fs) = None \<or>
      fe_cut env (fs_round fs) = CutFlush")
    case True
    with inv0 show ?thesis
      by (cases "check_paused h (fe_paused env (fs_round fs)) (fs_pending fs)"; cases "nw_conn (fs_wrapper fs)")
        (simp_all add: fetch_body_def Let_def)
  next
    case False
    then obtain c where c: "nw_conn (fs_wrapper fs) = Some c" by auto
    have rx: "rx_of c = (skip_reply ^^ length (fs_msgs fs)) rx" using inv c by (simp add: wire_inv_def wire_at_def)
    obtain fr p1 c1 where fl: "flush_sends (fs_pipeline fs) c = (fr, p1, c1)"
      by (cases "flush_sends (fs_pipeline fs) c") auto
    note f = flush_sends_rx [OF fl]
    obtain rr p2 c2 where rc: "receive_one p1 c1 = (rr, p2, c2)" by (cases "receive_one p1 c1") auto
    define fs1 where "fs1 = fs\<lparr>fs_pipeline := p1, fs_wrapper := (fs_wrapper fs)\<lparr>nw_conn := Some c1\<rparr>\<rparr>"
    define fs2 where "fs2 = fs\<lparr>fs_pipeline := p2, fs_wrapper := (fs_wrapper fs)\<lparr>nw_conn := Some c2\<rparr>\<rparr>"
    have m: "fs_msgs fs1 = fs_msgs fs" "fs_msgs fs2 = fs_msgs fs" "fs_pending fs2 = fs_pending fs"
      "nw_conn (fs_wrapper fs2) = Some c2" by (simp_all add: fs1_def fs2_def)
    have body: "fetch_body h env server fs = (case fr of
        Inl e \<Rightarrow> Inr (FetchErr e, fs1)
      | Inr _ \<Rightarrow>
          if pipeline_is_empty p1 then Inr (FetchDone, fs1)
          else if fe_cut env (fs_round fs) = CutReceive then Inr (FetchTimeout, fs1)
          else (case rr of
                  Inl e \<Rightarrow> Inr (FetchErr e, fs2)
                | Inr None \<Rightarrow> Inr (FetchDone, fs2)
                | Inr (Some res) \<Rightarrow> fetch_answer env server res fs2))"
      unfolding fs1_def fs2_def using False c fl rc by (cases fr) (simp_all add: fetch_body_def Let_def)
    show ?thesis
    proof (cases "\<exists>res. fr = Inr () \<and> rr = Inr (Some res) \<and> \<not> pipeline_is_empty p1 \<and> fe_cut env (fs_round fs) \<noteq> CutReceive")
      case False
      have fatal: "\<not> is_not_found e" if "rr = Inl e" for e using receive_one_fatal rc that by simp
      show ?thesis
      proof (cases fr)
        case (Inl e)
        with f(2) inv0 show ?thesis by (simp add: body m)
      next
        case (Inr u)
        show ?thesis
        proof (cases rr)
          case (Inl e)
          with Inr fatal inv0 show ?thesis by (simp add: body m)
        next
          case x: (Inr x)
          with Inr False inv0 show ?thesis by (cases x) (auto simp: body m)
        qed
      qed
    next
      case True
      then obtain res where t: "fr = Inr ()" "rr = Inr (Some res)" "\<not> pipeline_is_empty p1" "fe_cut env (fs_round fs) \<noteq> CutReceive"
        by blast
      note rep = receive_one_reply [OF rc [unfolded t(2)]]
      have "map pr_tag (requests p1) = map wi_tag (fs_pending fs)" "distinct (map wi_tag (fs_pending fs))"
        using inv0(1) flush_sends_ok(1) [OF fl [unfolded t(1)]] by (simp_all add: fetch_inv_def)
      then obtain it where it: "pend_lookup (pr_tag (pres_request res)) (fs_pending fs2) = Some it"
        using pend_head [OF _ receive_one_ok(1) [OF rc [unfolded t(2)]], of "fs_pending fs"] m(3) by metis
      have "wire_at rx (Suc (length (fs_msgs fs2))) fs2"
        using rep(1) f(1) rx by (simp add: wire_at_def m)
      moreover have "reply_code ((skip_reply ^^ length (fs_msgs fs2)) rx) = Some 430"
        if "pres_result res = Inl e" "is_not_found e" for e
        using rep(2) [OF that] f(1) rx by (simp add: m)
      ultimately have "case fetch_answer env server res fs2 of
          Inl fs' \<Rightarrow> absences_read rx (fs_msgs fs') \<and> wire_at rx (length (fs_msgs fs')) fs'
        | Inr (ex, fs') \<Rightarrow> absences_read rx (fs_msgs fs') \<and> ex = FetchTimeout"
        using inv0(2) it by (intro fetch_answer_wire) (simp_all add: m)
      then show ?thesis using t by (auto simp: body split: sum.splits)
    qed
  qed
  with step show ?thesis by (auto simp: wire_inv_def wire_out_def split: sum.splits)
qed

text \<open>C10. Absence comes off the wire.  When a message of a batch reports an article as not found, it is the answer to
  the article at its own place in the batch, and the reply the server sent in that place, after the replies to the
  articles before it with their bodies, has the status code 430.  So neither a timeout, a reset, a protocol error, a pause, a line of a body
  nor the 430 of another article turns into an absence (the tags of a batch being distinct).\<close>

theorem fetch_absence_needs_430:
  assumes "fetch_and_stream h env ord article_timeout server cfg batch w = Some (msgs, w')"
    and "distinct (map wi_tag batch)" "nw_conn w = Some c"
    and "k < length msgs" "msgs ! k = FetchResult it s (Inl e)" "is_not_found e"
  shows "k < length batch \<and> it = batch ! k \<and> reply_code ((skip_reply ^^ k) (rx_of c)) = Some 430"
proof -
  obtain out where run: "run_loop (fetch_body h env server) (Suc (length batch))
      (fetch_start h (max (sc_pipelining cfg) 1) batch w) = Some out"
    and fin: "fetch_finish server ord (article_timeout * length batch) out = (msgs, w')"
    using assms(1) by (auto simp: fetch_and_stream_def)
  have "wire_inv (rx_of c) batch (fetch_start h (max (sc_pipelining cfg) 1) batch w)"
    using assms(3) fetch_inv_start [OF assms(2)]
    by (simp add: wire_inv_def absences_read_def wire_at_def) (simp add: fetch_start_def)
  then have o: "wire_out (rx_of c) batch env out"
    by (rule run_loop_invariant [OF run]) (use fetch_body_wire in \<open>force split: sum.splits\<close>)+
  obtain ex fs where out: "out = (ex, fs)" by (cases out)
  obtain ms where ms: "msgs = fs_msgs fs @ ms" "\<forall>m \<in> set ms. \<not> claims_absence m"
    using fin o by (cases ex) (auto simp: out fetch_finish_def Let_def wire_out_def claims_absence_def split: if_splits)
  have ab: "claims_absence (msgs ! k)" using assms(5,6) by (auto simp: claims_absence_def)
  have k: "k < length (fs_msgs fs)"
  proof (rule ccontr)
    assume "\<not> k < length (fs_msgs fs)"
    then have "msgs ! k \<in> set ms" using assms(4) ms(1) by (simp add: nth_append)
    with ms(2) ab show False by blast
  qed
  obtain ok lost where b: "batch = ok @ lost @ fs_pending fs" "answers ok (fs_msgs fs)"
    using o by (auto simp: out wire_out_def fetch_out_def)
  have "k < length ok" "\<exists>s res. fs_msgs fs ! k = FetchResult (ok ! k) s res"
    using b(2) k by (auto simp: list_all2_conv_all_nth)
  then have "k < length batch \<and> it = batch ! k" using b(1) ms(1) k assms(5) by (auto simp: nth_append)
  moreover have "reply_code ((skip_reply ^^ k) (rx_of c)) = Some 430"
    using o k ab ms(1) by (simp add: out wire_out_def absences_read_def nth_append)
  ultimately show ?thesis by simp
qed

definition demo_items :: "work_item list" where
  "demo_items = [demo_item, demo_item\<lparr>wi_tag := 8\<rparr>]"

text \<open>A body that contains a line like a 430, and then a 430 for the second article.\<close>

definition demo_script :: "rx_event list" where
  "demo_script = [RxLine (status_line 220 ''ok''), RxLine (status_line 430 ''no''), RxLine (CHR ''.'' # crlf),
     RxLine (status_line 430 ''no'')]"

lemma demo_status_220: "parse_response_line (status_line 220 ''ok'') =
    Inr \<lparr>resp_code = 220, resp_message = ''ok'', resp_data = None\<rparr>"
  by (rule parse_status_line) simp_all

lemma demo_body: "read_body_lines [] None [RxLine (status_line 430 ''no''), RxLine (CHR ''.'' # crlf), ev] =
    (Inr (status_line 430 ''no''), [ev])"
  by (simp add: status_line_def digit_def)

theorem fetch_absence_needs_430_witness:
  "\<exists>msgs w'. fetch_and_stream demo_heap demo_env rev 60000 0 (server_config_default ''a'') demo_items
       (demo_wrapper\<lparr>nw_conn := Some (demo_conn demo_script)\<rparr>) = Some (msgs, w') \<and>
     msgs ! 1 = FetchResult (demo_items ! 1) 0 (Inl (ArticleNotFound ''m'')) \<and>
     reply_code (skip_reply demo_script) = Some 430"
proof -
  have m: "max (4::u8) 1 = 4" by code_simp
  obtain w' where f: "fetch_and_stream demo_heap demo_env rev 60000 0 (server_config_default ''a'') demo_items
      (demo_wrapper\<lparr>nw_conn := Some (demo_conn demo_script)\<rparr>) =
      Some ([FetchResult demo_item 0 (Inr (status_line 430 ''no'')), FetchResult (demo_items ! 1) 0 (Inl (ArticleNotFound ''m''))], w')"
    by (simp add: fetch_and_stream_def fetch_start_def fetch_body_def check_paused_def demo_env_def demo_wrapper_def
        wrapper_new_def demo_item_def demo_heap_def article_new_def pipeline_eval pend_insert_def pend_lookup_def
        pend_delete_def pipeline_is_empty_def demo_status_430 demo_status_220 demo_body demo_status_nonempty fetch_answer_def
        fetch_finish_def server_config_default_def m Let_def demo_items_def demo_script_def on_fetch_success_def clear_bad_cons_def
        read_multiline_body_def read_multiline_body_into_bounded_def del: read_body_lines.simps)
  have "reply_code ((skip_reply ^^ 1) (rx_of (demo_conn demo_script))) = Some 430"
    using fetch_absence_needs_430 [OF f, where k = 1] by (simp add: demo_items_def demo_item_def)
  with f show ?thesis by (auto simp: rx_of_def demo_conn_def)
qed

end
