(* ===== verification/Core_Models.thy ===== *)
theory Core_Models
  imports Server_Config
begin

text \<open>
  The data model of \<open>crates/nzb-core/src/models.rs\<close>: the status of a job, its failure code and
  priority, the article, file and job records, the slice map summary and the stages of
  post-processing.  A \<open>u64\<close> or \<open>usize\<close> is a natural number, with the wrap-around or the saturation
  written out where it is used; a time is in milliseconds.
\<close>

section \<open>Status, failure code and priority\<close>

datatype job_status =
    JS_Queued | JS_Downloading | JS_Paused | JS_Verifying | JS_Repairing | JS_Extracting
  | JS_PostProcessing | JS_Completed | JS_Failed

fun job_status_display :: "job_status \<Rightarrow> byte_string" where
  "job_status_display JS_Queued = ''Queued''"
| "job_status_display JS_Downloading = ''Downloading''"
| "job_status_display JS_Paused = ''Paused''"
| "job_status_display JS_Verifying = ''Verifying''"
| "job_status_display JS_Repairing = ''Repairing''"
| "job_status_display JS_Extracting = ''Extracting''"
| "job_status_display JS_PostProcessing = ''PostProcessing''"
| "job_status_display JS_Completed = ''Completed''"
| "job_status_display JS_Failed = ''Failed''"

datatype job_failure_code =
    FC_ArticlesUnavailable | FC_RepairFailed | FC_ArchivePasswordRequired | FC_ArchiveInvalid | FC_StorageUnavailable
  | FC_DownloadFailed

fun failure_code_display :: "job_failure_code \<Rightarrow> byte_string" where
  "failure_code_display FC_ArticlesUnavailable = ''articles_unavailable''"
| "failure_code_display FC_RepairFailed = ''repair_failed''"
| "failure_code_display FC_ArchivePasswordRequired = ''archive_password_required''"
| "failure_code_display FC_ArchiveInvalid = ''archive_invalid''"
| "failure_code_display FC_StorageUnavailable = ''storage_unavailable''"
| "failure_code_display FC_DownloadFailed = ''download_failed''"

definition failure_code_from_str :: "byte_string \<Rightarrow> byte_string + job_failure_code" where
  "failure_code_from_str v =
    (if v = ''articles_unavailable'' then Inr FC_ArticlesUnavailable
     else if v = ''repair_failed'' then Inr FC_RepairFailed
     else if v = ''archive_password_required'' then Inr FC_ArchivePasswordRequired
     else if v = ''archive_invalid'' then Inr FC_ArchiveInvalid
     else if v = ''storage_unavailable'' then Inr FC_StorageUnavailable
     else if v = ''download_failed'' then Inr FC_DownloadFailed
     else Inl v)"

lemma failure_code_parse_display: "failure_code_from_str (failure_code_display c) = Inr c"
  by (cases c) (simp_all add: failure_code_from_str_def)

datatype priority = Pri_Low | Pri_Normal | Pri_High | Pri_Force

fun priority_value :: "priority \<Rightarrow> nat" where
  "priority_value Pri_Low = 0"
| "priority_value Pri_Normal = 1"
| "priority_value Pri_High = 2"
| "priority_value Pri_Force = 3"

definition priority_try_from :: "u8 \<Rightarrow> u8 + priority" where
  "priority_try_from v =
    (if v = 0 then Inr Pri_Low else if v = 1 then Inr Pri_Normal else if v = 2 then Inr Pri_High
     else if v = 3 then Inr Pri_Force else Inl v)"

instantiation priority :: linorder
begin

definition less_eq_priority :: "priority \<Rightarrow> priority \<Rightarrow> bool" where
  "less_eq_priority a b \<longleftrightarrow> priority_value a \<le> priority_value b"

definition less_priority :: "priority \<Rightarrow> priority \<Rightarrow> bool" where
  "less_priority a b \<longleftrightarrow> priority_value a < priority_value b"

instance
proof
  fix x y z :: priority
  show "x < y \<longleftrightarrow> x \<le> y \<and> \<not> y \<le> x" by (auto simp: less_eq_priority_def less_priority_def)
  show "x \<le> x" by (simp add: less_eq_priority_def)
  show "x \<le> y \<Longrightarrow> y \<le> z \<Longrightarrow> x \<le> z" by (simp add: less_eq_priority_def)
  show "x \<le> y \<Longrightarrow> y \<le> x \<Longrightarrow> x = y" by (cases x; cases y) (simp_all add: less_eq_priority_def)
  show "x \<le> y \<or> y \<le> x" by (auto simp: less_eq_priority_def)
qed

end

section \<open>Slice map\<close>

datatype slice_verdict = SV_Unknown | SV_Verified | SV_Damaged

record slice_map_summary =
  sm_states :: "slice_verdict list"
  sm_recovery_block_count :: u32
  sm_damaged :: nat
  sm_unknown :: nat

section \<open>Jobs\<close>

record server_article_stats =
  ss_server_id :: server_id
  ss_server_name :: byte_string
  ss_articles_downloaded :: nat
  ss_articles_failed :: nat
  ss_bytes_downloaded :: nat

record nzb_article =
  na_message_id :: byte_string
  na_segment_number :: u32
  na_bytes :: nat
  na_downloaded :: bool
  na_data_begin :: "nat option"
  na_data_size :: "nat option"
  na_crc32 :: "u32 option"
  na_tried_servers :: "server_id list"
  na_tries :: u32

record job_file =
  jf_id :: byte_string
  jf_filename :: byte_string
  jf_bytes :: nat
  jf_bytes_downloaded :: nat
  jf_is_par2 :: bool
  jf_par2_setname :: "byte_string option"
  jf_par2_vol :: "u32 option"
  jf_par2_blocks :: "u32 option"
  jf_assembled :: bool
  jf_groups :: "byte_string list"
  jf_articles :: "nzb_article list"

record nzb_job =
  nj_id :: byte_string
  nj_name :: byte_string
  nj_category :: byte_string
  nj_status :: job_status
  nj_priority :: priority
  nj_total_bytes :: nat
  nj_downloaded_bytes :: nat
  nj_file_count :: nat
  nj_files_completed :: nat
  nj_article_count :: nat
  nj_articles_downloaded :: nat
  nj_articles_failed :: nat
  nj_added_at :: millis
  nj_completed_at :: "millis option"
  nj_work_dir :: path
  nj_output_dir :: path
  nj_password :: "byte_string option"
  nj_error_message :: "byte_string option"
  nj_speed_bps :: nat
  nj_server_stats :: "server_article_stats list"
  nj_pp_override :: "u8 option"
  nj_delete_archives :: "bool option"
  nj_slice_map :: "slice_map_summary option"
  nj_held_par2_bytes :: nat
  nj_files :: "job_file list"

text \<open>A job without files and an undownloaded article, from which others are built by updates.\<close>

definition plain_article :: "byte_string \<Rightarrow> u32 \<Rightarrow> nat \<Rightarrow> nzb_article" where
  "plain_article mid seg n =
    \<lparr>na_message_id = mid, na_segment_number = seg, na_bytes = n, na_downloaded = False, na_data_begin = None,
     na_data_size = None, na_crc32 = None, na_tried_servers = [], na_tries = 0\<rparr>"

definition plain_file :: "byte_string \<Rightarrow> byte_string \<Rightarrow> nat \<Rightarrow> nzb_article list \<Rightarrow> job_file" where
  "plain_file fid name n arts =
    \<lparr>jf_id = fid, jf_filename = name, jf_bytes = n, jf_bytes_downloaded = 0, jf_is_par2 = False,
     jf_par2_setname = None, jf_par2_vol = None, jf_par2_blocks = None, jf_assembled = False, jf_groups = [],
     jf_articles = arts\<rparr>"

definition plain_job :: "byte_string \<Rightarrow> path \<Rightarrow> nat \<Rightarrow> job_file list \<Rightarrow> nzb_job" where
  "plain_job jid dir n files =
    \<lparr>nj_id = jid, nj_name = jid, nj_category = [], nj_status = JS_Queued, nj_priority = Pri_Normal,
     nj_total_bytes = n, nj_downloaded_bytes = 0, nj_file_count = length files, nj_files_completed = 0,
     nj_article_count = length (concat (map jf_articles files)), nj_articles_downloaded = 0,
     nj_articles_failed = 0, nj_added_at = 0, nj_completed_at = None, nj_work_dir = dir, nj_output_dir = dir,
     nj_password = None, nj_error_message = None, nj_speed_bps = 0, nj_server_stats = [], nj_pp_override = None,
     nj_delete_archives = None, nj_slice_map = None, nj_held_par2_bytes = 0, nj_files = files\<rparr>"

section \<open>Post-processing stages\<close>

datatype stage_status = Stage_Success | Stage_Failed | Stage_Skipped

record stage_result =
  sr_name :: byte_string
  sr_status :: stage_status
  sr_message :: "byte_string option"
  sr_duration :: millis

end
