(* ===== verification/Queue_Pause.thy ===== *)
theory Queue_Pause
  imports Core_Models
begin

text \<open>
  Why the queue is paused (\<open>PauseReason\<close> and \<open>PauseHolds\<close> of
  \<open>crates/nzb-web/src/queue_manager.rs\<close>): the holds of the user, the disk guard and the schedule,
  how each operation changes them, and the settings in which they outlive a restart.  A window
  occurrence is a string \<open>rule@date\<close>; a time is in milliseconds.
\<close>

section \<open>Holds\<close>

datatype pause_reason = PR_Manual | PR_Global | PR_DiskSpace | PR_Server | PR_Schedule

record pause_holds =
  ph_user :: bool
  ph_disk :: "millis option"
  ph_schedule :: bool
  ph_open_windows :: "byte_string list"
  ph_triggered_windows :: "byte_string list"
  ph_resumed_windows :: "byte_string list"
  ph_user_paused_over :: "byte_string list"

definition holds_default :: pause_holds where
  "holds_default =
    \<lparr>ph_user = False, ph_disk = None, ph_schedule = False, ph_open_windows = [], ph_triggered_windows = [],
     ph_resumed_windows = [], ph_user_paused_over = []\<rparr>"

definition holds_any :: "pause_holds \<Rightarrow> bool" where
  "holds_any h \<longleftrightarrow> ph_user h \<or> ph_disk h \<noteq> None \<or> ph_schedule h"

definition holds_reason :: "pause_holds \<Rightarrow> pause_reason option" where
  "holds_reason h =
    (if ph_user h then Some PR_Global
     else if ph_disk h \<noteq> None then Some PR_DiskSpace
     else if ph_schedule h then Some PR_Schedule
     else None)"

text \<open>\<open>sort(); dedup()\<close>.\<close>

definition sort_dedup :: "byte_string list \<Rightarrow> byte_string list" where
  "sort_dedup ws = remdups_adj (sort ws)"

definition occurrences :: "byte_string list \<Rightarrow> byte_string list" where
  "occurrences windows = sort_dedup windows"

definition newly_opened :: "pause_holds \<Rightarrow> byte_string list \<Rightarrow> byte_string list" where
  "newly_opened h windows = filter (\<lambda>w. w \<notin> set (ph_triggered_windows h)) windows"

definition held_occurrences :: "pause_holds \<Rightarrow> byte_string list \<Rightarrow> byte_string list" where
  "held_occurrences h windows =
    filter (\<lambda>w. w \<in> set (ph_triggered_windows h) \<and> w \<notin> set (ph_resumed_windows h) \<and>
      w \<notin> set (ph_user_paused_over h)) windows"

definition retain_open :: "byte_string list \<Rightarrow> pause_holds \<Rightarrow> pause_holds" where
  "retain_open windows h =
    h\<lparr>ph_open_windows := windows,
      ph_triggered_windows := filter (\<lambda>w. w \<in> set windows) (ph_triggered_windows h),
      ph_resumed_windows := filter (\<lambda>w. w \<in> set windows) (ph_resumed_windows h),
      ph_user_paused_over := filter (\<lambda>w. w \<in> set windows) (ph_user_paused_over h)\<rparr>"

section \<open>What the operations do to them\<close>

text \<open>\<open>pause_all\<close> and \<open>pause_all_with_hold\<close>, then what \<open>pause_for_hold\<close> adds.\<close>

definition hold_user :: "pause_holds \<Rightarrow> pause_holds" where
  "hold_user h = h\<lparr>ph_user := True\<rparr>"

definition hold_disk :: "millis option \<Rightarrow> pause_holds \<Rightarrow> pause_holds" where
  "hold_disk since h = (case since of Some t \<Rightarrow> h\<lparr>ph_disk := Some t\<rparr> | None \<Rightarrow> h)"

definition cover_windows :: "pause_holds \<Rightarrow> pause_holds" where
  "cover_windows h =
    (if ph_user h then h\<lparr>ph_user_paused_over := ph_open_windows h, ph_schedule := False\<rparr> else h)"

text \<open>The decision of \<open>apply_schedule\<close> as a list of occurrences, and \<open>apply_schedule_hold\<close> on the holds.\<close>

definition decided_windows :: "bool \<Rightarrow> byte_string list \<Rightarrow> byte_string list" where
  "decided_windows pause pause_windows =
    (let windows = occurrences pause_windows
     in if pause \<and> windows = [] then [''anonymous''] else windows)"

definition schedule_hold :: "byte_string list \<Rightarrow> pause_holds \<Rightarrow> pause_holds" where
  "schedule_hold windows h =
    (let h1 = retain_open windows
                (h\<lparr>ph_triggered_windows := sort_dedup (ph_triggered_windows h @ newly_opened h windows)\<rparr>)
     in h1\<lparr>ph_schedule := held_occurrences h1 windows \<noteq> [] \<and> \<not> ph_user h1\<rparr>)"

text \<open>\<open>expire_user_hold\<close>, \<open>resume_all\<close> and \<open>clear_disk_hold\<close> on the holds.\<close>

definition expire_hold :: "pause_holds \<Rightarrow> pause_holds" where
  "expire_hold h =
    (let h1 = h\<lparr>ph_user := False, ph_user_paused_over := []\<rparr>
     in h1\<lparr>ph_schedule := held_occurrences h1 (ph_open_windows h1) \<noteq> [] \<and> \<not> ph_user h1\<rparr>)"

definition lift_all :: "pause_holds \<Rightarrow> pause_holds" where
  "lift_all h =
    h\<lparr>ph_user := False, ph_disk := None,
      ph_resumed_windows := sort_dedup (ph_resumed_windows h @ ph_triggered_windows h),
      ph_schedule := False, ph_user_paused_over := []\<rparr>"

definition lift_disk :: "pause_holds \<Rightarrow> pause_holds" where
  "lift_disk h = h\<lparr>ph_disk := None\<rparr>"

section \<open>Settings\<close>

text \<open>
  The rows of the settings table that describe the pause; \<open>None\<close> is a row that was never written.
  The RFC 3339 text of a time and the JSON text of a list are read back as what was written, and an
  empty time as none.
\<close>

record pause_settings =
  ps_globally_paused :: "bool option"
  ps_user_hold :: "bool option"
  ps_schedule_hold :: "bool option"
  ps_disk_hold :: "millis option option"
  ps_owner :: "byte_string option"
  ps_windows :: "byte_string list option"
  ps_triggered :: "byte_string list option"
  ps_resumed :: "byte_string list option"
  ps_user_paused :: "byte_string list option"
  ps_global_jobs :: "byte_string set option"

definition PAUSE_OWNER_USER :: byte_string where "PAUSE_OWNER_USER = ''user''"
definition PAUSE_OWNER_DISK :: byte_string where "PAUSE_OWNER_DISK = ''disk_space''"
definition PAUSE_OWNER_SCHEDULE :: byte_string where "PAUSE_OWNER_SCHEDULE = ''schedule''"

definition no_settings :: pause_settings where
  "no_settings =
    \<lparr>ps_globally_paused = None, ps_user_hold = None, ps_schedule_hold = None, ps_disk_hold = None, ps_owner = None,
     ps_windows = None, ps_triggered = None, ps_resumed = None, ps_user_paused = None, ps_global_jobs = None\<rparr>"

definition persist_holds :: "pause_holds \<Rightarrow> pause_settings \<Rightarrow> pause_settings" where
  "persist_holds h s =
    s\<lparr>ps_globally_paused := Some (holds_any h),
      ps_user_hold := Some (ph_user h),
      ps_schedule_hold := Some (ph_schedule h),
      ps_disk_hold := Some (ph_disk h),
      ps_owner := Some (if ph_user h then PAUSE_OWNER_USER
                        else if ph_schedule h then PAUSE_OWNER_SCHEDULE
                        else if ph_disk h \<noteq> None then PAUSE_OWNER_DISK
                        else []),
      ps_windows := Some (ph_open_windows h),
      ps_triggered := Some (ph_triggered_windows h),
      ps_resumed := Some (ph_resumed_windows h),
      ps_user_paused := Some (ph_user_paused_over h)\<rparr>"

definition flag_of :: "bool option \<Rightarrow> bool" where "flag_of v \<longleftrightarrow> v = Some True"

definition list_of :: "byte_string list option \<Rightarrow> byte_string list" where
  "list_of v = (case v of Some ws \<Rightarrow> ws | None \<Rightarrow> [])"

text \<open>The holds a restart reads back; they are live only when the queue was paused.\<close>

definition restore_holds :: "pause_settings \<Rightarrow> pause_holds" where
  "restore_holds s =
    (let was_paused = flag_of (ps_globally_paused s);
         disk = (case ps_disk_hold s of Some d \<Rightarrow> d | None \<Rightarrow> None);
         owner = (case ps_owner s of Some p \<Rightarrow> p | None \<Rightarrow> []);
         legacy = (ps_user_hold s = None \<and> ps_schedule_hold s = None);
         user = (if legacy then owner = PAUSE_OWNER_USER \<or> (owner = [] \<and> disk = None)
                 else flag_of (ps_user_hold s));
         schedule = (if legacy then owner = PAUSE_OWNER_SCHEDULE else flag_of (ps_schedule_hold s))
     in \<lparr>ph_user = was_paused \<and> user,
         ph_disk = (if was_paused then disk else None),
         ph_schedule = was_paused \<and> schedule,
         ph_open_windows = list_of (ps_windows s),
         ph_triggered_windows = list_of (ps_triggered s),
         ph_resumed_windows = list_of (ps_resumed s),
         ph_user_paused_over = list_of (ps_user_paused s)\<rparr>)"

section \<open>Lemmas\<close>

lemma set_sort_dedup [simp]: "set (sort_dedup ws) = set ws"
  by (simp add: sort_dedup_def)

lemma holds_reason_None: "holds_reason h = None \<longleftrightarrow> \<not> holds_any h"
  by (simp add: holds_reason_def holds_any_def)

end
