(* ===== verification/Damage_Ledger.thy ===== *)
theory Damage_Ledger
  imports Queue_Pause "HOL-Library.AList"
begin

text \<open>
  The damage ledger (\<open>crates/nzb-core/src/damage_ledger.rs\<close>) and the recorder that feeds it from the engine's
  outcomes (\<open>crates/nzb-web/src/damage_recorder.rs\<close>).  A time is in nanoseconds.  The table is an association
  list from the primary key to a row; the JSON of the evidence is kept as the list it encodes, the state as its
  text.  Whether a statement of the database succeeds is an argument; one that fails changes nothing.
\<close>

section \<open>Records\<close>

datatype ledger_state = L_Unknown | L_ProvisionalMissing | L_ConfirmedMissing | L_Present | L_UnservableFile

definition ledger_state_as_str :: "ledger_state \<Rightarrow> byte_string" where
  "ledger_state_as_str s =
    (case s of L_Unknown \<Rightarrow> ''unknown'' | L_ProvisionalMissing \<Rightarrow> ''provisional_missing''
     | L_ConfirmedMissing \<Rightarrow> ''confirmed_missing'' | L_Present \<Rightarrow> ''present'' | L_UnservableFile \<Rightarrow> ''unservable_file'')"

definition ledger_state_from_str :: "byte_string \<Rightarrow> ledger_state" where
  "ledger_state_from_str s =
    (if s = ''provisional_missing'' then L_ProvisionalMissing
     else if s = ''confirmed_missing'' then L_ConfirmedMissing
     else if s = ''present'' then L_Present
     else if s = ''unservable_file'' then L_UnservableFile
     else L_Unknown)"

record article_key =
  ak_scope_id :: byte_string
  ak_file_index :: nat
  ak_segment_number :: nat

datatype ledger_outcome = O_Present | O_Refused byte_string | O_Transport byte_string

datatype evidence_kind = E_Refused | E_Transport

record server_evidence =
  ev_server :: byte_string
  ev_kind :: evidence_kind
  ev_at :: int

record ledger_record =
  lr_key :: article_key
  lr_message_id :: byte_string
  lr_state :: ledger_state
  lr_evidence :: "server_evidence list"
  lr_first_refused_at :: "int option"
  lr_confirmed_at :: "int option"
  lr_expires_at :: "int option"
  lr_server_fingerprint :: byte_string

definition ledger_record_new :: "article_key \<Rightarrow> byte_string \<Rightarrow> ledger_record" where
  "ledger_record_new key message_id =
    \<lparr>lr_key = key, lr_message_id = message_id, lr_state = L_Unknown, lr_evidence = [], lr_first_refused_at = None,
     lr_confirmed_at = None, lr_expires_at = None, lr_server_fingerprint = []\<rparr>"

definition refused_servers :: "ledger_record \<Rightarrow> byte_string set" where
  "refused_servers r = set (map ev_server (filter (\<lambda>e. ev_kind e = E_Refused) (lr_evidence r)))"

definition NANOS :: int where "NANOS = 1000000000"
definition HOLE_TTL_SECS :: int where "HOLE_TTL_SECS = 24 * 60 * 60"
definition HOLE_CONFIRM_DELAY_SECS :: int where "HOLE_CONFIRM_DELAY_SECS = 1"

section \<open>One outcome\<close>

fun join_comma :: "byte_string list \<Rightarrow> byte_string" where
  "join_comma [] = []"
| "join_comma [s] = s"
| "join_comma (s # t # ts) = s @ '','' @ join_comma (t # ts)"

definition server_fingerprint :: "byte_string list \<Rightarrow> byte_string" where
  "server_fingerprint servers = join_comma (sort_dedup servers)"

fun put_evidence :: "server_evidence list \<Rightarrow> server_evidence \<Rightarrow> server_evidence list" where
  "put_evidence [] e = [e]"
| "put_evidence (x # xs) e =
    (if ev_server x = ev_server e then x\<lparr>ev_kind := ev_kind e, ev_at := ev_at e\<rparr> # xs else x # put_evidence xs e)"

definition record_evidence :: "byte_string \<Rightarrow> evidence_kind \<Rightarrow> int \<Rightarrow> ledger_record \<Rightarrow> ledger_record" where
  "record_evidence server kind now r =
    r\<lparr>lr_evidence := put_evidence (lr_evidence r) \<lparr>ev_server = server, ev_kind = kind, ev_at = now\<rparr>\<rparr>"

text \<open>The first part of \<open>apply_outcome\<close>: a record of another set of servers starts over.\<close>

definition check_fingerprint :: "byte_string list \<Rightarrow> ledger_record \<Rightarrow> ledger_record" where
  "check_fingerprint enabled r =
    (if lr_server_fingerprint r \<noteq> server_fingerprint enabled
     then r\<lparr>lr_state := L_Unknown, lr_evidence := [], lr_first_refused_at := None, lr_confirmed_at := None,
            lr_expires_at := None, lr_server_fingerprint := server_fingerprint enabled\<rparr>
     else r)"

definition apply_refusal :: "byte_string \<Rightarrow> int \<Rightarrow> byte_string list \<Rightarrow> ledger_record \<Rightarrow> ledger_record \<times> bool" where
  "apply_refusal server now enabled r =
    (let r1 = record_evidence server E_Refused now r in
     if lr_state r1 = L_Present \<or> lr_state r1 = L_ConfirmedMissing then (r1, False)
     else
       let first = (case lr_first_refused_at r1 of None \<Rightarrow> now | Some f \<Rightarrow> f);
           r2 = r1\<lparr>lr_first_refused_at := Some first, lr_state := L_ProvisionalMissing\<rparr>;
           all_refused = (enabled \<noteq> [] \<and> list_all (\<lambda>s. s \<in> refused_servers r2) enabled);
           elapsed_ok = (now - first \<ge> HOLE_CONFIRM_DELAY_SECS * NANOS)
       in if all_refused \<and> elapsed_ok
          then (r2\<lparr>lr_state := L_ConfirmedMissing, lr_confirmed_at := Some now,
                   lr_expires_at := Some (now + HOLE_TTL_SECS * NANOS)\<rparr>, False)
          else (r2, True))"

definition apply_outcome :: "ledger_record \<Rightarrow> ledger_outcome \<Rightarrow> int \<Rightarrow> byte_string list \<Rightarrow> ledger_record \<times> bool" where
  "apply_outcome r outcome now enabled =
    (let r0 = check_fingerprint enabled r in
     case outcome of
       O_Present \<Rightarrow>
         (r0\<lparr>lr_state := L_Present, lr_first_refused_at := None, lr_confirmed_at := None, lr_expires_at := None\<rparr>, False)
     | O_Transport server \<Rightarrow> (record_evidence server E_Transport now r0, False)
     | O_Refused server \<Rightarrow> apply_refusal server now enabled r0)"

record consult_advice =
  cn_skip :: bool
  cn_reprobe :: bool

definition consult :: "ledger_record option \<Rightarrow> int \<Rightarrow> consult_advice" where
  "consult r now =
    (case map_option (\<lambda>r. (lr_state r, lr_expires_at r)) r of
       Some (state, expires) \<Rightarrow>
         if state = L_ConfirmedMissing \<or> state = L_UnservableFile then
           (case expires of
              Some e \<Rightarrow> if e \<le> now then \<lparr>cn_skip = False, cn_reprobe = True\<rparr> else \<lparr>cn_skip = True, cn_reprobe = False\<rparr>
            | None \<Rightarrow> \<lparr>cn_skip = True, cn_reprobe = False\<rparr>)
         else \<lparr>cn_skip = False, cn_reprobe = False\<rparr>
     | None \<Rightarrow> \<lparr>cn_skip = False, cn_reprobe = False\<rparr>)"

definition held_provisionally :: "ledger_record option \<Rightarrow> bool" where
  "held_provisionally r \<longleftrightarrow> map_option lr_state r = Some L_ProvisionalMissing"

section \<open>The table\<close>

record ledger_row =
  rw_message_id :: byte_string
  rw_state :: byte_string
  rw_evidence :: "server_evidence list"
  rw_first_refused_at :: "int option"
  rw_confirmed_at :: "int option"
  rw_expires_at :: "int option"
  rw_server_fingerprint :: byte_string

type_synonym ledger_table = "(article_key \<times> ledger_row) list"

definition row_record :: "article_key \<Rightarrow> ledger_row \<Rightarrow> ledger_record" where
  "row_record key w =
    \<lparr>lr_key = key, lr_message_id = rw_message_id w, lr_state = ledger_state_from_str (rw_state w),
     lr_evidence = rw_evidence w, lr_first_refused_at = rw_first_refused_at w, lr_confirmed_at = rw_confirmed_at w,
     lr_expires_at = rw_expires_at w, lr_server_fingerprint = rw_server_fingerprint w\<rparr>"

definition record_row :: "ledger_record \<Rightarrow> ledger_row" where
  "record_row r =
    \<lparr>rw_message_id = lr_message_id r, rw_state = ledger_state_as_str (lr_state r), rw_evidence = lr_evidence r,
     rw_first_refused_at = lr_first_refused_at r, rw_confirmed_at = lr_confirmed_at r,
     rw_expires_at = lr_expires_at r, rw_server_fingerprint = lr_server_fingerprint r\<rparr>"

definition ledger_get :: "article_key \<Rightarrow> ledger_table \<Rightarrow> ledger_record option" where
  "ledger_get key db = map_option (row_record key) (map_of db key)"

definition ledger_upsert :: "ledger_record \<Rightarrow> ledger_table \<Rightarrow> ledger_table" where
  "ledger_upsert r db = AList.update (lr_key r) (record_row r) db"

definition ledger_note ::
  "article_key \<Rightarrow> byte_string \<Rightarrow> ledger_outcome \<Rightarrow> byte_string list \<Rightarrow> int \<Rightarrow> ledger_table \<Rightarrow> bool \<times> ledger_table" where
  "ledger_note key message_id outcome enabled now db =
    (let r0 = (case ledger_get key db of Some r \<Rightarrow> r | None \<Rightarrow> ledger_record_new key message_id);
         r1 = (if lr_message_id r0 = [] then r0\<lparr>lr_message_id := message_id\<rparr> else r0);
         (r2, confirm) = apply_outcome r1 outcome now enabled
     in (confirm, ledger_upsert r2 db))"

record ledger_entry =
  le_key :: article_key
  le_message_id :: byte_string
  le_outcome :: ledger_outcome
  le_at :: int

fun note_all :: "ledger_entry list \<Rightarrow> byte_string list \<Rightarrow> ledger_table \<Rightarrow> bool list \<times> ledger_table" where
  "note_all [] enabled db = ([], db)"
| "note_all (n # ns) enabled db =
    (let (c, db1) = ledger_note (le_key n) (le_message_id n) (le_outcome n) enabled (le_at n) db;
         (cs, db2) = note_all ns enabled db1
     in (c # cs, db2))"

text \<open>One transaction: \<open>ok\<close> says whether every statement and the commit succeed; otherwise it is rolled back.\<close>

definition ledger_note_batch ::
  "bool \<Rightarrow> ledger_entry list \<Rightarrow> byte_string list \<Rightarrow> ledger_table \<Rightarrow> bool list option \<times> ledger_table" where
  "ledger_note_batch ok notes enabled db =
    (if ok then (let (cs, db') = note_all notes enabled db in (Some cs, db')) else (None, db))"

definition ledger_consult :: "article_key \<Rightarrow> int \<Rightarrow> ledger_table \<Rightarrow> consult_advice" where
  "ledger_consult key now db = consult (ledger_get key db) now"

definition ledger_held_provisionally :: "article_key \<Rightarrow> ledger_table \<Rightarrow> bool" where
  "ledger_held_provisionally key db \<longleftrightarrow> held_provisionally (ledger_get key db)"

definition ledger_load_file :: "byte_string \<Rightarrow> nat \<Rightarrow> ledger_table \<Rightarrow> ledger_record list" where
  "ledger_load_file scope_id file_index db =
    sort_key (\<lambda>r. ak_segment_number (lr_key r))
      (map (\<lambda>(key, w). row_record key w)
        (filter (\<lambda>(key, w). ak_scope_id key = scope_id \<and> ak_file_index key = file_index) db))"

text \<open>The confirmed and all recorded articles of a file; \<open>ledger_file_gone_ratio\<close> returns their quotient, or 0 for no record.\<close>

definition ledger_gone_counts :: "byte_string \<Rightarrow> nat \<Rightarrow> ledger_table \<Rightarrow> nat \<times> nat" where
  "ledger_gone_counts scope_id file_index db =
    (let rows = filter (\<lambda>(key, w). ak_scope_id key = scope_id \<and> ak_file_index key = file_index) db in
     (length (filter (\<lambda>(key, w). rw_state w \<in> {''confirmed_missing'', ''unservable_file''}) rows), length rows))"

text \<open>\<open>julian\<close> is SQLite's \<open>julianday\<close> of a time.\<close>

definition ledger_prune ::
  "(int \<Rightarrow> int) \<Rightarrow> byte_string list \<Rightarrow> byte_string list \<Rightarrow> int \<Rightarrow> ledger_table \<Rightarrow> nat \<times> ledger_table" where
  "ledger_prune julian queue_ids history_ids now db =
    (let gone = (\<lambda>(key, w).
           ak_scope_id key \<notin> set queue_ids \<and>
           (ak_scope_id key \<notin> set history_ids \<or>
            (rw_state w = ''confirmed_missing'' \<and>
             (case rw_expires_at w of Some e \<Rightarrow> julian e \<le> julian now | None \<Rightarrow> False))))
     in (length (filter gone db), filter (\<lambda>x. \<not> gone x) db))"

definition ledger_drop_orphans :: "byte_string list \<Rightarrow> byte_string list \<Rightarrow> ledger_table \<Rightarrow> nat \<times> ledger_table" where
  "ledger_drop_orphans queue_ids history_ids db =
    (let gone = (\<lambda>(key, w). ak_scope_id key \<notin> set queue_ids \<and> ak_scope_id key \<notin> set history_ids)
     in (length (filter gone db), filter (\<lambda>x. \<not> gone x) db))"

section \<open>The recorder\<close>

record pending_outcome =
  po_file_id :: byte_string
  po_segment_number :: nat
  po_message_id :: byte_string
  po_outcome :: ledger_outcome
  po_at :: int

record ledger_recorder =
  rc_pending :: "pending_outcome list"
  rc_file_index :: "byte_string \<rightharpoonup> nat"

definition BATCH_SIZE :: nat where "BATCH_SIZE = 256"

definition recorder_push :: "int \<Rightarrow> byte_string \<Rightarrow> nat \<Rightarrow> byte_string \<Rightarrow> ledger_outcome \<Rightarrow> ledger_recorder \<Rightarrow> ledger_recorder" where
  "recorder_push now file_id segment_number message_id outcome rc =
    rc\<lparr>rc_pending := rc_pending rc @
      [\<lparr>po_file_id = file_id, po_segment_number = segment_number, po_message_id = message_id, po_outcome = outcome,
        po_at = now\<rparr>]\<rparr>"

definition recorder_is_empty :: "ledger_recorder \<Rightarrow> bool" where "recorder_is_empty rc \<longleftrightarrow> rc_pending rc = []"
definition recorder_is_full :: "ledger_recorder \<Rightarrow> bool" where "recorder_is_full rc \<longleftrightarrow> BATCH_SIZE \<le> length (rc_pending rc)"

definition needs_file_index :: "ledger_recorder \<Rightarrow> bool" where
  "needs_file_index rc \<longleftrightarrow> list_ex (\<lambda>p. rc_file_index rc (po_file_id p) = None) (rc_pending rc)"

text \<open>Collecting pairs into a hash map: the last position of an identifier counts.\<close>

definition set_file_order :: "byte_string list \<Rightarrow> ledger_recorder \<Rightarrow> ledger_recorder" where
  "set_file_order file_ids rc = rc\<lparr>rc_file_index := map_of (rev (zip file_ids [0..<length file_ids]))\<rparr>"

definition pending_entry :: "byte_string \<Rightarrow> (byte_string \<rightharpoonup> nat) \<Rightarrow> pending_outcome \<Rightarrow> ledger_entry option" where
  "pending_entry job_id index p =
    (case index (po_file_id p) of
       None \<Rightarrow> None
     | Some i \<Rightarrow> Some \<lparr>le_key = \<lparr>ak_scope_id = job_id, ak_file_index = i, ak_segment_number = po_segment_number p\<rparr>,
         le_message_id = po_message_id p, le_outcome = po_outcome p, le_at = po_at p\<rparr>)"

definition recorder_flush ::
  "bool \<Rightarrow> byte_string \<Rightarrow> byte_string list \<Rightarrow> ledger_recorder \<Rightarrow> ledger_table \<Rightarrow> ledger_recorder \<times> ledger_table" where
  "recorder_flush ok job_id enabled rc db =
    (let notes = List.map_filter (pending_entry job_id (rc_file_index rc)) (rc_pending rc)
     in (rc\<lparr>rc_pending := []\<rparr>, snd (ledger_note_batch ok notes enabled db)))"

end
