(* ===== verification/Damage_Ledger_Proofs.thy ===== *)
theory Damage_Ledger_Proofs
  imports Damage_Ledger
begin

text \<open>
  A confirmed hole rests on refusals of every enabled server, at least a second apart and after the last change
  of the servers; the table keeps every article's own history of outcomes; an expired hole is never believed again.
\<close>

section \<open>The history of an article\<close>

type_synonym ledger_event = "ledger_outcome \<times> int \<times> byte_string list"

definition event_step :: "ledger_event \<Rightarrow> ledger_record \<Rightarrow> ledger_record" where
  "event_step ev r = (case ev of (oc, now, enabled) \<Rightarrow> fst (apply_outcome r oc now enabled))"

definition event_print :: "ledger_event \<Rightarrow> byte_string" where
  "event_print ev = server_fingerprint (snd (snd ev))"

text \<open>What a server said last in a history.\<close>

fun last_said :: "byte_string \<Rightarrow> ledger_event list \<Rightarrow> evidence_kind option" where
  "last_said s [] = None"
| "last_said s ((oc, now, enabled) # es) =
    (case last_said s es of
       Some k \<Rightarrow> Some k
     | None \<Rightarrow> (case oc of O_Refused t \<Rightarrow> if t = s then Some E_Refused else None
                | O_Transport t \<Rightarrow> if t = s then Some E_Transport else None
                | O_Present \<Rightarrow> None))"

lemma last_said_snoc:
  "last_said s (es @ [(oc, now, enabled)]) =
    (case oc of O_Refused t \<Rightarrow> if t = s then Some E_Refused else last_said s es
     | O_Transport t \<Rightarrow> if t = s then Some E_Transport else last_said s es
     | O_Present \<Rightarrow> last_said s es)"
  by (induction es) (auto split: ledger_outcome.splits option.splits)

definition kind_of :: "server_evidence list \<Rightarrow> byte_string \<Rightarrow> evidence_kind option" where
  "kind_of es s = map_option ev_kind (find (\<lambda>e. ev_server e = s) es)"

lemma kind_of_put: "kind_of (put_evidence es e) s = (if s = ev_server e then Some (ev_kind e) else kind_of es s)"
  by (induction es e rule: put_evidence.induct) (auto simp: kind_of_def)

lemma servers_put: "map ev_server (put_evidence es e) =
    map ev_server es @ (if ev_server e \<in> set (map ev_server es) then [] else [ev_server e])"
  by (induction es e rule: put_evidence.induct) auto

lemma refused_kind:
  assumes "distinct (map ev_server (lr_evidence r))"
  shows "s \<in> refused_servers r \<longleftrightarrow> kind_of (lr_evidence r) s = Some E_Refused"
proof -
  have "distinct (map ev_server es) \<Longrightarrow>
      s \<in> set (map ev_server (filter (\<lambda>e. ev_kind e = E_Refused) es)) \<longleftrightarrow> kind_of es s = Some E_Refused" for es
    by (induction es) (auto simp: kind_of_def)
  then show ?thesis using assms by (simp add: refused_servers_def)
qed

text \<open>The reason for a confirmed hole: a history up to the confirming refusal.\<close>

definition confirms :: "ledger_event list \<Rightarrow> ledger_record \<Rightarrow> bool" where
  "confirms es r \<longleftrightarrow>
    (\<exists>server now enabled first f_server f_enabled.
      es \<noteq> [] \<and> last es = (O_Refused server, now, enabled) \<and> enabled \<noteq> [] \<and>
      (\<forall>s \<in> set enabled. last_said s es = Some E_Refused) \<and>
      (O_Refused f_server, first, f_enabled) \<in> set es \<and> first + HOLE_CONFIRM_DELAY_SECS * NANOS \<le> now \<and>
      lr_confirmed_at r = Some now \<and> lr_expires_at r = Some (now + HOLE_TTL_SECS * NANOS))"

definition no_present :: "ledger_event list \<Rightarrow> bool" where
  "no_present es \<longleftrightarrow> (\<forall>ev \<in> set es. fst ev \<noteq> O_Present)"

text \<open>What the record knows of the outcomes \<open>era\<close> noted under its present set of servers.\<close>

definition era_ok :: "ledger_event list \<Rightarrow> ledger_record \<Rightarrow> bool" where
  "era_ok era r \<longleftrightarrow>
    (\<forall>ev \<in> set era. event_print ev = lr_server_fingerprint r) \<and>
    distinct (map ev_server (lr_evidence r)) \<and>
    (\<forall>s. kind_of (lr_evidence r) s = last_said s era) \<and>
    (\<forall>f. lr_first_refused_at r = Some f \<longrightarrow> (\<exists>s en. (O_Refused s, f, en) \<in> set era)) \<and>
    (lr_state r \<noteq> L_Present \<longrightarrow> no_present era) \<and>
    lr_state r \<noteq> L_UnservableFile \<and>
    (lr_state r = L_ConfirmedMissing \<longrightarrow> (\<exists>e e'. era = e @ e' \<and> confirms e r))"

lemma era_new: "era_ok [] (ledger_record_new key m)"
  by (simp add: era_ok_def ledger_record_new_def kind_of_def no_present_def)

lemma era_check:
  assumes "era_ok era r"
  shows "\<exists>era'. era_ok era' (check_fingerprint enabled r) \<and>
    lr_server_fingerprint (check_fingerprint enabled r) = server_fingerprint enabled \<and> (era' = era \<or> era' = [])"
proof (cases "lr_server_fingerprint r = server_fingerprint enabled")
  case True
  then show ?thesis using assms by (auto simp: check_fingerprint_def)
next
  case False
  then have "era_ok [] (check_fingerprint enabled r)"
    by (simp add: check_fingerprint_def era_ok_def kind_of_def no_present_def)
  then show ?thesis using False by (auto simp: check_fingerprint_def)
qed

lemma evidence_put:
  assumes "era_ok era r"
  shows "distinct (map ev_server (lr_evidence (record_evidence t k now r))) \<and>
    (\<forall>s. kind_of (lr_evidence (record_evidence t k now r)) s = (if s = t then Some k else last_said s era))"
  using assms by (auto simp: era_ok_def record_evidence_def kind_of_put servers_put)

lemma confirms_cong:
  "lr_confirmed_at r' = lr_confirmed_at r \<Longrightarrow> lr_expires_at r' = lr_expires_at r \<Longrightarrow> confirms e r' = confirms e r"
  by (simp add: confirms_def)

text \<open>An outcome that only touches the evidence.\<close>

lemma era_keep:
  assumes "era_ok era r" "event_print ev = lr_server_fingerprint r" "fst ev \<noteq> O_Present"
    and "lr_state r' = lr_state r" "lr_first_refused_at r' = lr_first_refused_at r"
      "lr_server_fingerprint r' = lr_server_fingerprint r" "\<And>e. confirms e r' = confirms e r"
    and "distinct (map ev_server (lr_evidence r'))" "\<And>s. kind_of (lr_evidence r') s = last_said s (era @ [ev])"
  shows "era_ok (era @ [ev]) r'"
proof -
  have "\<exists>s en. (O_Refused s, f, en) \<in> set (era @ [ev])" if "lr_first_refused_at r = Some f" for f
    using assms(1) that unfolding era_ok_def by auto
  moreover have "\<exists>e e'. era @ [ev] = e @ e' \<and> confirms e r" if st: "lr_state r = L_ConfirmedMissing"
  proof -
    obtain e e' where "era = e @ e'" "confirms e r" using assms(1) st unfolding era_ok_def by blast
    then show ?thesis by (intro exI[of _ e] exI[of _ "e' @ [ev]"]) simp
  qed
  moreover have "no_present (era @ [ev])" if "lr_state r \<noteq> L_Present"
    using assms(1,3) that by (auto simp: era_ok_def no_present_def)
  moreover have "\<forall>x \<in> set (era @ [ev]). event_print x = lr_server_fingerprint r" "lr_state r \<noteq> L_UnservableFile"
    using assms(1,2) by (auto simp: era_ok_def)
  ultimately show ?thesis using assms(8,9) unfolding era_ok_def assms(4-7) by blast
qed

lemma era_transport:
  assumes "era_ok era r" "lr_server_fingerprint r = server_fingerprint enabled"
  shows "era_ok (era @ [(O_Transport t, now, enabled)]) (record_evidence t E_Transport now r)"
  using evidence_put[OF assms(1), of t E_Transport now]
  by (intro era_keep[OF assms(1)])
    (simp_all add: assms(2) event_print_def record_evidence_def confirms_def last_said_snoc)

lemma era_present:
  assumes "era_ok era r" "lr_server_fingerprint r = server_fingerprint enabled"
  shows "era_ok (era @ [(O_Present, now, enabled)])
    (r\<lparr>lr_state := L_Present, lr_first_refused_at := None, lr_confirmed_at := None, lr_expires_at := None\<rparr>)"
  using assms by (auto simp: era_ok_def last_said_snoc event_print_def)

lemma era_refusal:
  assumes "era_ok era r" "lr_server_fingerprint r = server_fingerprint enabled"
  shows "era_ok (era @ [(O_Refused t, now, enabled)]) (fst (apply_refusal t now enabled r))"
proof -
  let ?ev = "(O_Refused t, now, enabled)"
  define r1 where "r1 = record_evidence t E_Refused now r"
  have f: "lr_state r1 = lr_state r" "lr_first_refused_at r1 = lr_first_refused_at r"
    "lr_server_fingerprint r1 = lr_server_fingerprint r" "confirms e r1 = confirms e r" for e
    by (simp_all add: r1_def record_evidence_def confirms_def)
  have k: "distinct (map ev_server (lr_evidence r1))" "kind_of (lr_evidence r1) s = last_said s (era @ [?ev])" for s
    using evidence_put[OF assms(1), of t E_Refused now] by (auto simp: r1_def last_said_snoc)
  have fp: "\<forall>ev \<in> set (era @ [?ev]). event_print ev = lr_server_fingerprint r"
    using assms by (auto simp: era_ok_def event_print_def)
  show ?thesis
  proof (cases "lr_state r = L_Present \<or> lr_state r = L_ConfirmedMissing")
    case True
    then have "fst (apply_refusal t now enabled r) = r1" by (simp add: apply_refusal_def r1_def[symmetric] f Let_def)
    moreover have "era_ok (era @ [?ev]) r1"
      by (rule era_keep[OF assms(1)]) (simp_all add: f k assms(2) event_print_def)
    ultimately show ?thesis by simp
  next
    case False
    define first where "first = (case lr_first_refused_at r of None \<Rightarrow> now | Some f \<Rightarrow> f)"
    define r2 where "r2 = r1\<lparr>lr_first_refused_at := Some first, lr_state := L_ProvisionalMissing\<rparr>"
    have e2: "lr_evidence r2 = lr_evidence r1" by (simp add: r2_def)
    have np: "no_present (era @ [?ev])" using assms(1) False by (auto simp: era_ok_def no_present_def)
    have fst_in: "\<exists>s en. (O_Refused s, first, en) \<in> set (era @ [?ev])"
    proof (cases "lr_first_refused_at r")
      case None
      then show ?thesis by (auto simp: first_def)
    next
      case (Some f)
      then obtain s en where "(O_Refused s, f, en) \<in> set era" using assms(1) unfolding era_ok_def by blast
      then show ?thesis using Some by (intro exI[of _ s] exI[of _ en]) (simp add: first_def)
    qed
    have ok2: "era_ok (era @ [?ev]) r2"
      using k fp np fst_in unfolding era_ok_def by (simp add: r2_def f)
    let ?c = "enabled \<noteq> [] \<and> list_all (\<lambda>s. s \<in> refused_servers r2) enabled \<and> now - first \<ge> HOLE_CONFIRM_DELAY_SECS * NANOS"
    let ?r3 = "r2\<lparr>lr_state := L_ConfirmedMissing, lr_confirmed_at := Some now, lr_expires_at := Some (now + HOLE_TTL_SECS * NANOS)\<rparr>"
    have a: "fst (apply_refusal t now enabled r) = (if ?c then ?r3 else r2)"
      using False by (simp add: apply_refusal_def r1_def[symmetric] f Let_def first_def[symmetric] r2_def[symmetric])
    show ?thesis
    proof (cases ?c)
      case True
      then have "\<forall>s \<in> set enabled. last_said s (era @ [?ev]) = Some E_Refused"
        using refused_kind[of r2] k by (simp add: e2 list_all_iff)
      then have "confirms (era @ [?ev]) ?r3"
        using True fst_in unfolding confirms_def by (simp add: algebra_simps) blast
      then have "era_ok (era @ [?ev]) ?r3"
        using ok2 np unfolding era_ok_def by (auto intro: exI[of _ "[]"])
      then show ?thesis unfolding a if_P[OF True] .
    next
      case False
      show ?thesis unfolding a if_not_P[OF False] by (rule ok2)
    qed
  qed
qed

lemma era_step:
  assumes "era_ok era r"
  shows "\<exists>era'. era_ok (era' @ [ev]) (event_step ev r) \<and> (era' = era \<or> era' = [])"
proof -
  obtain oc now enabled where ev: "ev = (oc, now, enabled)" by (cases ev)
  obtain era' where e: "era_ok era' (check_fingerprint enabled r)" "era' = era \<or> era' = []"
    "lr_server_fingerprint (check_fingerprint enabled r) = server_fingerprint enabled"
    using era_check[OF assms] by blast
  have "era_ok (era' @ [ev]) (event_step ev r)"
    using era_transport[OF e(1,3)] era_present[OF e(1,3)] era_refusal[OF e(1,3)]
    by (cases oc) (simp_all add: ev event_step_def apply_outcome_def Let_def)
  then show ?thesis using e(2) by blast
qed

lemma era_fold: "\<exists>past era. es = past @ era \<and> era_ok era (fold event_step es (ledger_record_new key m))"
proof (induction es rule: rev_induct)
  case Nil
  show ?case using era_new by simp
next
  case (snoc ev es)
  then obtain past era where e: "es = past @ era" "era_ok era (fold event_step es (ledger_record_new key m))" by blast
  obtain era' where s: "era_ok (era' @ [ev]) (event_step ev (fold event_step es (ledger_record_new key m)))" "era' = era \<or> era' = []"
    using era_step[OF e(2)] by blast
  have "\<exists>past'. es @ [ev] = past' @ era' @ [ev]" using s(2) e(1) by auto
  then obtain past' where "es @ [ev] = past' @ era' @ [ev]" by blast
  then show ?case using s(1) by (intro exI[of _ past'] exI[of _ "era' @ [ev]"]) (simp del: append_assoc)
qed

text \<open>An article is taken for missing only on evidence.  When, after any history of outcomes, the ledger says to skip an
  article, then since the last change of the set of servers nothing but refusals and transport failures has been
  noted, and at some point of that time every enabled server had refused the article, as the last thing it
  said, at least a second after a first refusal; and that point is less than a day ago.\<close>

theorem skipped_hole_has_evidence:
  assumes "cn_skip (consult (Some (fold event_step es (ledger_record_new key m))) now)"
  shows "\<exists>past e rest server seen enabled first f_server f_enabled.
    es = past @ e @ rest \<and> no_present (e @ rest) \<and> (\<forall>ev \<in> set (e @ rest). event_print ev = server_fingerprint enabled) \<and>
    e \<noteq> [] \<and> last e = (O_Refused server, seen, enabled) \<and> enabled \<noteq> [] \<and>
    (\<forall>s \<in> set enabled. last_said s e = Some E_Refused) \<and>
    (O_Refused f_server, first, f_enabled) \<in> set e \<and> first + HOLE_CONFIRM_DELAY_SECS * NANOS \<le> seen \<and>
    now < seen + HOLE_TTL_SECS * NANOS"
proof -
  let ?r = "fold event_step es (ledger_record_new key m)"
  obtain past era where e: "es = past @ era" "era_ok era ?r" using era_fold by blast
  have st: "lr_state ?r = L_ConfirmedMissing" "\<And>x. lr_expires_at ?r = Some x \<Longrightarrow> now < x"
    using assms e(2) by (auto simp: consult_def era_ok_def split: if_splits option.splits)
  obtain a b where ab: "era = a @ b" "confirms a ?r" using e(2) st(1) unfolding era_ok_def by blast
  obtain server seen enabled first fs fe where c: "a \<noteq> []" "last a = (O_Refused server, seen, enabled)" "enabled \<noteq> []"
    "\<forall>s \<in> set enabled. last_said s a = Some E_Refused" "(O_Refused fs, first, fe) \<in> set a"
    "first + HOLE_CONFIRM_DELAY_SECS * NANOS \<le> seen" "lr_expires_at ?r = Some (seen + HOLE_TTL_SECS * NANOS)"
    using ab(2) unfolding confirms_def by blast
  have np: "no_present (a @ b)" using e(2) st(1) ab(1) by (simp add: era_ok_def)
  have all: "\<forall>ev \<in> set (a @ b). event_print ev = lr_server_fingerprint ?r" using e(2) ab(1) by (simp add: era_ok_def)
  have "event_print (last a) = lr_server_fingerprint ?r" using all c(1) by simp
  then have pr: "\<forall>ev \<in> set (a @ b). event_print ev = server_fingerprint enabled" using all c(2) by (simp add: event_print_def)
  have es: "es = past @ a @ b" using e(1) ab(1) by simp
  show ?thesis using es np pr c(1-6) st(2)[OF c(7)] by blast
qed

section \<open>Holes that expire\<close>

lemma confirmed_stays:
  assumes "lr_state r = L_ConfirmedMissing" "lr_server_fingerprint r = server_fingerprint enabled"
    "\<forall>(oc, tm, en) \<in> set es. oc \<noteq> O_Present \<and> server_fingerprint en = server_fingerprint enabled"
  shows "lr_state (fold event_step es r) = L_ConfirmedMissing \<and> lr_expires_at (fold event_step es r) = lr_expires_at r"
  using assms
proof (induction es arbitrary: r)
  case (Cons ev es)
  obtain oc tm en where ev: "ev = (oc, tm, en)" by (cases ev)
  have "lr_state (event_step ev r) = L_ConfirmedMissing \<and> lr_expires_at (event_step ev r) = lr_expires_at r \<and>
      lr_server_fingerprint (event_step ev r) = server_fingerprint enabled"
    using Cons.prems
    by (cases oc) (simp_all add: ev event_step_def apply_outcome_def check_fingerprint_def apply_refusal_def
        record_evidence_def Let_def)
  then show ?case using Cons.IH[of "event_step ev r"] Cons.prems by simp
qed simp

text \<open>A fault.  A hole that has expired is never believed again: however often every server refuses the article
  afterwards, the record keeps its old expiry, and the ledger asks for another probe each time.\<close>

theorem expired_hole_never_renewed:
  assumes "lr_state r = L_ConfirmedMissing" "lr_expires_at r = Some t" "t \<le> now"
    and "lr_server_fingerprint r = server_fingerprint enabled"
    and "\<forall>(oc, tm, en) \<in> set es. oc \<noteq> O_Present \<and> server_fingerprint en = server_fingerprint enabled"
  shows "consult (Some (fold event_step es r)) now = \<lparr>cn_skip = False, cn_reprobe = True\<rparr>"
  using confirmed_stays[OF assms(1,4,5)] assms(2,3) by (simp add: consult_def)

section \<open>The table\<close>

lemma state_text [simp]: "ledger_state_from_str (ledger_state_as_str s) = s"
  by (cases s) (simp_all add: ledger_state_as_str_def ledger_state_from_str_def)

lemma row_record_row: "row_record (lr_key r) (record_row r) = r"
  by (simp add: row_record_def record_row_def)

lemma get_upsert: "ledger_get key (ledger_upsert r db) = (if key = lr_key r then Some r else ledger_get key db)"
  by (simp add: ledger_get_def ledger_upsert_def update_conv' row_record_row)

lemma get_key: "ledger_get key db = Some r \<Longrightarrow> lr_key r = key"
  by (auto simp: ledger_get_def row_record_def)

lemma apply_key: "lr_key (fst (apply_outcome r oc now en)) = lr_key r"
  by (auto simp: apply_outcome_def check_fingerprint_def apply_refusal_def record_evidence_def Let_def
      split: ledger_outcome.splits option.splits)

text \<open>The record an entry starts from.\<close>

definition base_record :: "ledger_entry \<Rightarrow> ledger_record option \<Rightarrow> ledger_record" where
  "base_record n r =
    (let r0 = (case r of Some r \<Rightarrow> r | None \<Rightarrow> ledger_record_new (le_key n) (le_message_id n)) in
     if lr_message_id r0 = [] then r0\<lparr>lr_message_id := le_message_id n\<rparr> else r0)"

definition entry_step :: "byte_string list \<Rightarrow> ledger_entry \<Rightarrow> ledger_record option \<Rightarrow> ledger_record option" where
  "entry_step enabled n r = Some (event_step (le_outcome n, le_at n, enabled) (base_record n r))"

lemma get_note:
  "ledger_get key (snd (ledger_note (le_key n) (le_message_id n) (le_outcome n) enabled (le_at n) db)) =
    (if key = le_key n then entry_step enabled n (ledger_get key db) else ledger_get key db)"
proof -
  have "lr_key (base_record n (ledger_get (le_key n) db)) = le_key n"
    by (auto simp: base_record_def Let_def ledger_record_new_def dest: get_key split: option.splits)
  then show ?thesis
    by (auto simp: ledger_note_def Let_def split_beta get_upsert entry_step_def event_step_def base_record_def apply_key)
qed

lemma get_note_all:
  "ledger_get key (snd (note_all ns enabled db)) =
    fold (entry_step enabled) (filter (\<lambda>n. le_key n = key) ns) (ledger_get key db)"
  by (induction ns arbitrary: db) (simp_all add: Let_def split_beta get_note)

text \<open>The table refines one state machine per article.  After a batch that is committed, the record of an article is the
  result of its own outcomes of the batch, in the order they were given, applied to the record it had, whatever
  the batch says of other articles; a batch that fails changes nothing.\<close>

theorem ledger_batch_refines:
  "ledger_get key (snd (ledger_note_batch ok notes enabled db)) =
    (if ok then fold (entry_step enabled) (filter (\<lambda>n. le_key n = key) notes) (ledger_get key db) else ledger_get key db)"
  by (simp add: ledger_note_batch_def Let_def split_beta get_note_all)

text \<open>A flush notes the buffered outcomes of known files and empties the buffer.\<close>

lemma flush_exact:
  "rc_pending (fst (recorder_flush ok job enabled rc db)) = [] \<and>
   ledger_get key (snd (recorder_flush True job enabled rc db)) =
     fold (entry_step enabled)
       (filter (\<lambda>n. le_key n = key) (List.map_filter (pending_entry job (rc_file_index rc)) (rc_pending rc)))
       (ledger_get key db)"
  by (simp add: recorder_flush_def ledger_note_batch_def Let_def split_beta get_note_all)

section \<open>Concrete histories\<close>

definition ledger_demo :: "ledger_event list" where
  "ledger_demo = [(O_Refused ''a'', 0, [''a'', ''b'']), (O_Transport ''b'', 1, [''a'', ''b'']),
     (O_Refused ''b'', 2000000000, [''b'', ''a''])]"

definition demo_article :: article_key where
  "demo_article = \<lparr>ak_scope_id = ''j'', ak_file_index = 0, ak_segment_number = 1\<rparr>"

lemma demo_confirmed:
  "consult (Some (fold event_step ledger_demo (ledger_record_new demo_article ''m''))) 3000000000 =
    \<lparr>cn_skip = True, cn_reprobe = False\<rparr>"
  by code_simp

theorem skipped_hole_has_evidence_witness:
  "consult (Some (fold event_step ledger_demo (ledger_record_new demo_article ''m''))) 3000000000 =
     \<lparr>cn_skip = True, cn_reprobe = False\<rparr> \<and>
   (\<exists>past e rest. ledger_demo = past @ e @ rest \<and> e \<noteq> [] \<and> no_present (e @ rest))"
proof -
  have "cn_skip (consult (Some (fold event_step ledger_demo (ledger_record_new demo_article ''m''))) 3000000000)"
    by (simp add: demo_confirmed)
  from skipped_hole_has_evidence[OF this] show ?thesis using demo_confirmed by blast
qed

definition demo_hole :: ledger_record where
  "demo_hole = fold event_step ledger_demo (ledger_record_new demo_article ''m'')"

definition day_later :: "ledger_event list" where
  "day_later = [(O_Refused ''a'', 90000000000000, [''a'', ''b'']), (O_Refused ''b'', 90002000000000, [''a'', ''b''])]"

theorem expired_hole_never_renewed_witness:
  "consult (Some (fold event_step day_later demo_hole)) 90003000000000 = \<lparr>cn_skip = False, cn_reprobe = True\<rparr>"
proof -
  have "lr_state demo_hole = L_ConfirmedMissing" "lr_expires_at demo_hole = Some 86402000000000"
    "lr_server_fingerprint demo_hole = server_fingerprint [''a'', ''b'']"
    by (code_simp, code_simp, code_simp)
  then show ?thesis
    using expired_hole_never_renewed[of demo_hole 86402000000000 90003000000000 "[''a'', ''b'']" day_later]
    by (simp add: day_later_def)
qed

end
