(* ===== verification/Repair_Fold.thy ===== *)
theory Repair_Fold
  imports Prelude
begin

unbundle bit_operations_syntax

text \<open>
  The in-flight PAR2 repair fold (\<open>crates/nzb-decode/src/repair_fold.rs\<close>): accumulator rows of intact slices, rows
  added while slices keep arriving, and the solve for the damaged slices.  The arithmetic of the field (crate
  \<open>rust-par2\<close>: the constants of the slices, powers, \<open>mul_add_multi\<close>, the inverse of a matrix) is a parameter, as is
  reading a slice from disk.
\<close>

section \<open>Parameters\<close>

record gf_ops =
  gf_input_constants :: "nat \<Rightarrow> u16 list"
  gf_pow :: "u16 \<Rightarrow> nat \<Rightarrow> u16"
  gf_mul_add_multi :: "bytes \<Rightarrow> bytes list \<Rightarrow> u16 list \<Rightarrow> bytes"
  gf_invert :: "u16 list list \<Rightarrow> u16 list list option"

type_synonym slice_reader = "nat \<Rightarrow> byte_string + bytes"

definition MAX_REPAIR_ROW_BYTES :: nat where "MAX_REPAIR_ROW_BYTES = 256 * 1024 * 1024"
definition MAX_FOLD_SLICE_SIZE :: nat where "MAX_FOLD_SLICE_SIZE = 32 * 1024 * 1024"
definition MAX_REPAIR_BATCH :: nat where "MAX_REPAIR_BATCH = 8"
definition MAX_BATCH_BYTES :: nat where "MAX_BATCH_BYTES = 48 * 1024 * 1024"

section \<open>State\<close>

datatype fold_error =
  FE_SliceTooLarge nat | FE_NoRows | FE_Poisoned | FE_NotEnoughRows nat nat | FE_OutOfRange nat | FE_Singular
| FE_Read nat byte_string

record growth =
  gr_start :: nat
  gr_pending :: "nat set"

record growth_ticket =
  gt_generation :: nat
  gt_slices :: "nat list"

record repair_fold =
  rf_slice_size :: nat
  rf_constants :: "u16 list"
  rf_exponents :: "nat list"
  rf_rows :: "bytes list"
  rf_fed :: "bool list"
  rf_fed_count :: nat
  rf_poisoned :: bool
  rf_growth :: "growth option"
  rf_generation :: nat
  rf_disk_fed :: nat
  rf_disk_read :: "bool list"
  rf_disk_reads :: nat
  rf_disk_rereads :: nat
  rf_disk_read_bytes :: nat
  rf_max_rows :: nat

definition max_rows :: "nat \<Rightarrow> nat" where
  "max_rows slice_size =
    (if slice_size = 0 \<or> MAX_FOLD_SLICE_SIZE < slice_size then 0 else MAX_REPAIR_ROW_BYTES div slice_size)"

definition batch_len :: "nat \<Rightarrow> nat" where
  "batch_len slice_size = min MAX_REPAIR_BATCH (max 1 (MAX_BATCH_BYTES div max 1 slice_size))"

definition repair_fold_new :: "gf_ops \<Rightarrow> nat \<Rightarrow> nat \<Rightarrow> nat list \<Rightarrow> fold_error + repair_fold" where
  "repair_fold_new G total_slices slice_size exponents =
    (if MAX_FOLD_SLICE_SIZE < slice_size then Inl (FE_SliceTooLarge slice_size)
     else if exponents = [] \<or> max_rows slice_size < length exponents then Inl FE_NoRows
     else Inr \<lparr>rf_slice_size = slice_size, rf_constants = gf_input_constants G total_slices, rf_exponents = exponents,
       rf_rows = map (\<lambda>_. replicate slice_size 0) exponents, rf_fed = replicate total_slices False, rf_fed_count = 0,
       rf_poisoned = False, rf_growth = None, rf_generation = 0, rf_disk_fed = 0,
       rf_disk_read = replicate total_slices False, rf_disk_reads = 0, rf_disk_rereads = 0, rf_disk_read_bytes = 0,
       rf_max_rows = max_rows slice_size\<rparr>)"

definition with_row_limit :: "nat \<Rightarrow> repair_fold \<Rightarrow> repair_fold" where
  "with_row_limit rows F = F\<lparr>rf_max_rows := min rows (max_rows (rf_slice_size F))\<rparr>"

definition row_limit :: "repair_fold \<Rightarrow> nat" where
  "row_limit F = min (rf_max_rows F) (max_rows (rf_slice_size F))"

definition row_bytes :: "repair_fold \<Rightarrow> nat" where
  "row_bytes F = length (rf_rows F) * rf_slice_size F"

definition note_disk_fed :: "nat \<Rightarrow> repair_fold \<Rightarrow> repair_fold" where
  "note_disk_fed n F = F\<lparr>rf_disk_fed := rf_disk_fed F + n\<rparr>"

definition note_disk_read :: "nat \<Rightarrow> nat \<Rightarrow> repair_fold \<Rightarrow> repair_fold" where
  "note_disk_read index len F =
    (let F1 = (if index < length (rf_disk_read F) \<and> \<not> rf_disk_read F ! index
               then F\<lparr>rf_disk_read := (rf_disk_read F)[index := True]\<rparr>
               else F\<lparr>rf_disk_rereads := rf_disk_rereads F + 1\<rparr>)
     in F1\<lparr>rf_disk_reads := rf_disk_reads F1 + 1, rf_disk_read_bytes := rf_disk_read_bytes F1 + len\<rparr>)"

definition is_fed :: "repair_fold \<Rightarrow> nat \<Rightarrow> bool" where
  "is_fed F index \<longleftrightarrow> index < length (rf_fed F) \<and> rf_fed F ! index"

definition note_corrupt :: "nat \<Rightarrow> repair_fold \<Rightarrow> repair_fold" where
  "note_corrupt index F = (if is_fed F index then F\<lparr>rf_poisoned := True\<rparr> else F)"

definition complete_rows :: "repair_fold \<Rightarrow> nat" where
  "complete_rows F = (case rf_growth F of None \<Rightarrow> length (rf_rows F) | Some g \<Rightarrow> gr_start g)"

definition growing :: "repair_fold \<Rightarrow> bool" where
  "growing F \<longleftrightarrow> rf_growth F \<noteq> None"

section \<open>Folding slices\<close>

text \<open>A short slice is padded with zeros; of a long one the first bytes count.\<close>

definition pad_slice :: "nat \<Rightarrow> bytes \<Rightarrow> bytes" where
  "pad_slice n b = (if length b < n then b @ replicate (n - length b) 0 else take n b)"

definition fold_into ::
  "gf_ops \<Rightarrow> bytes list \<Rightarrow> nat list \<Rightarrow> u16 list \<Rightarrow> nat \<Rightarrow> (nat \<times> bytes) list \<Rightarrow> bytes list" where
  "fold_into G rows exponents constants slice_size slices =
    (let srcs = map (\<lambda>(_, b). pad_slice slice_size b) slices in
     map2 (\<lambda>row e. gf_mul_add_multi G row srcs (map (\<lambda>(i, _). gf_pow G (constants ! i) e) slices)) rows exponents)"

fun fresh_slices :: "nat set \<Rightarrow> (nat \<times> bytes) list \<Rightarrow> (nat \<times> bytes) list" where
  "fresh_slices seen [] = []"
| "fresh_slices seen ((i, b) # ss) =
    (if i \<in> seen then fresh_slices seen ss else (i, b) # fresh_slices (insert i seen) ss)"

definition fed_indices :: "repair_fold \<Rightarrow> nat list" where
  "fed_indices F = filter (\<lambda>i. rf_fed F ! i) [0..<length (rf_fed F)]"

definition feed_batch :: "gf_ops \<Rightarrow> (nat \<times> bytes) list \<Rightarrow> repair_fold \<Rightarrow> (fold_error + nat) \<times> repair_fold" where
  "feed_batch G slices F =
    (case find (\<lambda>(i, _). length (rf_fed F) \<le> i) slices of
       Some (i, _) \<Rightarrow> (Inl (FE_OutOfRange i), F)
     | None \<Rightarrow>
         let fresh = fresh_slices (set (fed_indices F)) slices in
         if fresh = [] then (Inr 0, F)
         else (Inr (length fresh),
               F\<lparr>rf_rows := fold_into G (rf_rows F) (rf_exponents F) (rf_constants F) (rf_slice_size F) fresh,
                 rf_fed := fold (\<lambda>(i, _) fs. fs[i := True]) fresh (rf_fed F),
                 rf_fed_count := rf_fed_count F + length fresh\<rparr>))"

definition feed_one :: "gf_ops \<Rightarrow> nat \<Rightarrow> bytes \<Rightarrow> repair_fold \<Rightarrow> (fold_error + bool) \<times> repair_fold" where
  "feed_one G index b F =
    (case feed_batch G [(index, b)] F of (Inl e, F') \<Rightarrow> (Inl e, F') | (Inr n, F') \<Rightarrow> (Inr (n = 1), F'))"

text \<open>Reading in batches; a batch is applied once all of it is read.\<close>

function batch_chunks :: "nat \<Rightarrow> 'a list \<Rightarrow> 'a list list" where
  "batch_chunks k xs = (if k = 0 \<or> xs = [] then [] else take k xs # batch_chunks k (drop k xs))"
  by pat_completeness auto

termination by (relation "measure (\<lambda>(k, xs). length xs)") auto

declare batch_chunks.simps [simp del]

fun read_batch :: "slice_reader \<Rightarrow> nat list \<Rightarrow> fold_error + (nat \<times> bytes) list" where
  "read_batch rd [] = Inr []"
| "read_batch rd (i # is) =
    (case rd i of
       Inl msg \<Rightarrow> Inl (FE_Read i msg)
     | Inr b \<Rightarrow> (case read_batch rd is of Inl e \<Rightarrow> Inl e | Inr bs \<Rightarrow> Inr ((i, b) # bs)))"

fun apply_batches ::
  "slice_reader \<Rightarrow> ((nat \<times> bytes) list \<Rightarrow> 's \<Rightarrow> 's) \<Rightarrow> nat list list \<Rightarrow> 's \<Rightarrow> fold_error option \<times> 's" where
  "apply_batches rd f [] s = (None, s)"
| "apply_batches rd f (c # cs) s =
    (case read_batch rd c of Inl e \<Rightarrow> (Some e, s) | Inr bs \<Rightarrow> apply_batches rd f cs (f bs s))"

definition for_each_batch ::
  "nat list \<Rightarrow> nat \<Rightarrow> slice_reader \<Rightarrow> ((nat \<times> bytes) list \<Rightarrow> 's \<Rightarrow> 's) \<Rightarrow> 's \<Rightarrow> fold_error option \<times> 's" where
  "for_each_batch indices slice_size rd f s = apply_batches rd f (batch_chunks (batch_len slice_size) indices) s"

text \<open>The slices that are neither fed nor damaged, read and fed batch by batch.\<close>

definition feed_missing_step :: "gf_ops \<Rightarrow> (nat \<times> bytes) list \<Rightarrow> repair_fold \<times> nat \<times> fold_error option \<Rightarrow>
    repair_fold \<times> nat \<times> fold_error option" where
  "feed_missing_step G batch s =
    (case s of (F, fed, err) \<Rightarrow>
      (case feed_batch G batch F of
         (Inr n, F') \<Rightarrow> (F', fed + n, err)
       | (Inl e, F') \<Rightarrow> (F', fed, Some e)))"

definition feed_missing :: "gf_ops \<Rightarrow> nat list \<Rightarrow> slice_reader \<Rightarrow> repair_fold \<Rightarrow> (fold_error + nat) \<times> repair_fold" where
  "feed_missing G damaged rd F =
    (case find (\<lambda>j. length (rf_fed F) \<le> j) damaged of
       Some j \<Rightarrow> (Inl (FE_OutOfRange j), F)
     | None \<Rightarrow>
         let todo = filter (\<lambda>i. \<not> rf_fed F ! i \<and> i \<notin> set damaged) [0..<length (rf_fed F)] in
         (case for_each_batch todo (rf_slice_size F) rd (feed_missing_step G) (F, 0, None) of
            (Some e, F', _, _) \<Rightarrow> (Inl e, F')
          | (None, F', fed, Some e) \<Rightarrow> (Inl e, F')
          | (None, F', fed, None) \<Rightarrow> (Inr fed, F'\<lparr>rf_disk_fed := rf_disk_fed F' + fed\<rparr>)))"

section \<open>Rows added later\<close>

definition abandon_growth :: "repair_fold \<Rightarrow> repair_fold" where
  "abandon_growth F =
    (case rf_growth F of
       None \<Rightarrow> F
     | Some g \<Rightarrow> F\<lparr>rf_growth := None, rf_rows := take (gr_start g) (rf_rows F),
                   rf_exponents := take (gr_start g) (rf_exponents F), rf_generation := rf_generation F + 1\<rparr>)"

definition abandon_growth_of :: "nat \<Rightarrow> repair_fold \<Rightarrow> repair_fold" where
  "abandon_growth_of generation F = (if generation = rf_generation F then abandon_growth F else F)"

text \<open>Folding slices into the rows from \<open>start\<close> on.\<close>

definition fold_tail :: "gf_ops \<Rightarrow> nat \<Rightarrow> (nat \<times> bytes) list \<Rightarrow> repair_fold \<Rightarrow> repair_fold" where
  "fold_tail G start slices F =
    F\<lparr>rf_rows := take start (rf_rows F) @
        fold_into G (drop start (rf_rows F)) (drop start (rf_exponents F)) (rf_constants F) (rf_slice_size F) slices\<rparr>"

definition add_rows :: "nat list \<Rightarrow> repair_fold \<Rightarrow> repair_fold" where
  "add_rows es F =
    F\<lparr>rf_exponents := rf_exponents F @ es, rf_rows := rf_rows F @ map (\<lambda>_. replicate (rf_slice_size F) 0) es\<rparr>"

definition extend_rows :: "gf_ops \<Rightarrow> nat list \<Rightarrow> slice_reader \<Rightarrow> repair_fold \<Rightarrow> (fold_error + nat) \<times> repair_fold" where
  "extend_rows G exponents rd F0 =
    (let F = abandon_growth F0;
         es = filter (\<lambda>e. e \<notin> set (rf_exponents F)) exponents in
     if es = [] then (Inr 0, F)
     else if row_limit F < length (rf_rows F) + length es then (Inl FE_NoRows, F)
     else
       let start = length (rf_rows F) in
       (case for_each_batch (fed_indices F) (rf_slice_size F) rd (fold_tail G start) (add_rows es F) of
          (None, F') \<Rightarrow> (Inr (length es), F')
        | (Some e, F') \<Rightarrow>
            (Inl e, F'\<lparr>rf_rows := take start (rf_rows F'), rf_exponents := take start (rf_exponents F')\<rparr>)))"

definition begin_growth :: "nat list \<Rightarrow> repair_fold \<Rightarrow> (fold_error + growth_ticket option) \<times> repair_fold" where
  "begin_growth exponents F =
    (if rf_growth F \<noteq> None then (Inr None, F)
     else
       let es = filter (\<lambda>e. e \<notin> set (rf_exponents F)) exponents in
       if es = [] then (Inr None, F)
       else if row_limit F < length (rf_rows F) + length es then (Inl FE_NoRows, F)
       else
         let start = length (rf_rows F);
             slices = fed_indices F;
             F1 = add_rows es F;
             F2 = (if slices = [] then F1\<lparr>rf_growth := None, rf_generation := rf_generation F1 + 1\<rparr>
                   else F1\<lparr>rf_growth := Some \<lparr>gr_start = start, gr_pending = set slices\<rparr>\<rparr>)
         in (Inr (Some \<lparr>gt_generation = rf_generation F2, gt_slices = slices\<rparr>), F2))"

text \<open>The slices that were still pending, in order; each is removed as it is met.\<close>

fun take_pending :: "nat set \<Rightarrow> (nat \<times> bytes) list \<Rightarrow> (nat \<times> bytes) list \<times> nat set" where
  "take_pending P [] = ([], P)"
| "take_pending P ((i, b) # ss) =
    (if i \<in> P then (case take_pending (P - {i}) ss of (fs, P') \<Rightarrow> ((i, b) # fs, P')) else take_pending P ss)"

definition backfill :: "gf_ops \<Rightarrow> nat \<Rightarrow> (nat \<times> bytes) list \<Rightarrow> repair_fold \<Rightarrow> bool \<times> repair_fold" where
  "backfill G generation slices F =
    (if generation \<noteq> rf_generation F then (False, F)
     else (case rf_growth F of
             None \<Rightarrow> (False, F)
           | Some g \<Rightarrow>
               let (fresh, P) = take_pending (gr_pending g) slices;
                   F1 = fold_tail G (gr_start g) fresh F
               in (True, if P = {} then F1\<lparr>rf_growth := None, rf_generation := rf_generation F1 + 1\<rparr>
                         else F1\<lparr>rf_growth := Some (g\<lparr>gr_pending := P\<rparr>)\<rparr>)))"

section \<open>Solving\<close>

definition usable_rows :: "repair_fold \<Rightarrow> (nat \<rightharpoonup> bytes) \<Rightarrow> nat \<Rightarrow> nat list" where
  "usable_rows F recovery d =
    take d (filter (\<lambda>r. case recovery (rf_exponents F ! r) of Some x \<Rightarrow> length x = rf_slice_size F | None \<Rightarrow> False)
      [0..<complete_rows F])"

definition decode_matrix :: "gf_ops \<Rightarrow> repair_fold \<Rightarrow> nat list \<Rightarrow> nat list \<Rightarrow> u16 list list" where
  "decode_matrix G F usable damaged =
    map (\<lambda>r. map (\<lambda>j. gf_pow G (rf_constants F ! j) (rf_exponents F ! r)) damaged) usable"

definition solve :: "gf_ops \<Rightarrow> repair_fold \<Rightarrow> nat list \<Rightarrow> (nat \<rightharpoonup> bytes) \<Rightarrow> fold_error + (nat \<times> bytes) list" where
  "solve G F damaged recovery =
    (let d = length damaged; usable = usable_rows F recovery d in
     if rf_poisoned F \<or> list_ex (is_fed F) damaged then Inl FE_Poisoned
     else (case find (\<lambda>j. length (rf_fed F) \<le> j) damaged of
       Some j \<Rightarrow> Inl (FE_OutOfRange j)
     | None \<Rightarrow>
         if rf_fed_count F + d \<noteq> length (rf_fed F) then Inl (FE_NotEnoughRows d 0)
         else if d = 0 then Inr []
         else if length usable < d then Inl (FE_NotEnoughRows d (length usable))
         else (case gf_invert G (decode_matrix G F usable damaged) of
                 None \<Rightarrow> Inl FE_Singular
               | Some minv \<Rightarrow>
                   let rows = map (\<lambda>r. rf_rows F ! r) usable;
                       recs = map (\<lambda>r. the (recovery (rf_exponents F ! r))) usable
                   in Inr (map2 (\<lambda>j coeffs.
                        (j, gf_mul_add_multi G (gf_mul_add_multi G (replicate (rf_slice_size F) 0) rows coeffs) recs coeffs))
                        damaged (map (\<lambda>j. map (\<lambda>e. minv ! j ! e) [0..<d]) [0..<d])))))"

end
