(* ===== verification/Repair_Fold_Rows.thy ===== *)
theory Repair_Fold_Rows
  imports Repair_Fold
begin

unbundle bit_operations_syntax

text \<open>
  What the rows hold: the sum of the slices that are folded into them, whatever the order and however rows were added
  meanwhile.
\<close>

section \<open>Vectors of bytes\<close>

definition bxor :: "bytes \<Rightarrow> bytes \<Rightarrow> bytes" where
  "bxor x y = map2 (XOR) x y"

lemma length_bxor [simp]: "length (bxor x y) = min (length x) (length y)"
  by (simp add: bxor_def)

lemma nth_bxor [simp]: "i < length x \<Longrightarrow> i < length y \<Longrightarrow> bxor x y ! i = x ! i XOR y ! i"
  by (simp add: bxor_def)

lemma bxor_commute: "bxor x y = bxor y x"
  by (rule nth_equalityI) (auto simp: xor.commute)

lemma bxor_assoc: "bxor (bxor x y) z = bxor x (bxor y z)"
  by (rule nth_equalityI) (auto simp: xor.assoc)

lemma bxor_left_commute: "bxor x (bxor y z) = bxor y (bxor x z)"
  by (metis bxor_assoc bxor_commute)

lemmas bxor_ac = bxor_assoc bxor_commute bxor_left_commute

lemma bxor_zero [simp]: "length x = n \<Longrightarrow> bxor (replicate n 0) x = x" "length x = n \<Longrightarrow> bxor x (replicate n 0) = x"
  by (auto intro: nth_equalityI)

lemma bxor_self: "bxor x x = replicate (length x) 0"
  by (rule nth_equalityI) auto

text \<open>The sum of vectors of a length.\<close>

definition bsum :: "nat \<Rightarrow> bytes list \<Rightarrow> bytes" where
  "bsum n xs = foldr bxor xs (replicate n 0)"

lemma bsum_simps [simp]: "bsum n [] = replicate n 0" "bsum n (x # xs) = bxor x (bsum n xs)"
  by (simp_all add: bsum_def)

lemma length_bsum [simp]: "\<forall>x \<in> set xs. length x = n \<Longrightarrow> length (bsum n xs) = n"
  by (induction xs) auto

lemma bsum_append: "\<forall>x \<in> set xs. length x = n \<Longrightarrow> \<forall>y \<in> set ys. length y = n \<Longrightarrow>
    bsum n (xs @ ys) = bxor (bsum n xs) (bsum n ys)"
  by (induction xs) (auto simp: bxor_assoc)

lemma foldl_bxor: "foldl bxor r xs = bxor r (bsum (length r) xs)" if "\<forall>x \<in> set xs. length x = length r"
  using that by (induction xs arbitrary: r) (auto simp: bxor_assoc)

lemma bsum_split:
  assumes "\<And>i. i \<in> set is \<Longrightarrow> length (f i) = n" "\<And>i. i \<in> set is \<Longrightarrow> length (g i) = n"
  shows "bsum n (map (\<lambda>i. bxor (f i) (g i)) is) = bxor (bsum n (map f is)) (bsum n (map g is))"
  using assms by (induction "is") (auto simp: bxor_ac)

lemma bsum_swap:
  assumes "\<And>i j. i \<in> set is \<Longrightarrow> j \<in> set js \<Longrightarrow> length (f i j) = n"
  shows "bsum n (map (\<lambda>i. bsum n (map (f i) js)) is) = bsum n (map (\<lambda>j. bsum n (map (\<lambda>i. f i j) is)) js)"
  using assms
proof (induction "is")
  case Nil
  show ?case by (induction js) auto
next
  case (Cons i "is")
  have "bsum n (map (\<lambda>j. bxor (f i j) (bsum n (map (\<lambda>i. f i j) is))) js) =
      bxor (bsum n (map (f i) js)) (bsum n (map (\<lambda>j. bsum n (map (\<lambda>i. f i j) is)) js))"
    by (rule bsum_split) (auto intro!: length_bsum simp: Cons.prems)
  then show ?case using Cons by simp
qed

lemma bsum_single:
  assumes "j < d" "length x = n"
  shows "bsum n (map (\<lambda>k. if j = k then x else replicate n 0) [0..<d]) = x"
proof -
  have z: "bsum n (map (\<lambda>k. if j = k then x else replicate n 0) ks) = replicate n 0" if "j \<notin> set ks" for ks
    using that by (induction ks) auto
  have s: "bsum n (map (\<lambda>k. if j = k then x else replicate n 0) ks) = x" if "distinct ks" "j \<in> set ks" for ks
    using that by (induction ks) (auto simp: z assms(2))
  show ?thesis by (rule s) (use assms(1) in auto)
qed

text \<open>Sums over the slices with a property.\<close>

definition sum_where :: "nat \<Rightarrow> nat \<Rightarrow> (nat \<Rightarrow> bool) \<Rightarrow> (nat \<Rightarrow> bytes) \<Rightarrow> bytes" where
  "sum_where n k P f = bsum n (map (\<lambda>i. if P i then f i else replicate n 0) [0..<k])"

lemma length_sum_where [simp]: "(\<And>i. i < k \<Longrightarrow> length (f i) = n) \<Longrightarrow> length (sum_where n k P f) = n"
  unfolding sum_where_def by (rule length_bsum) auto

lemma sum_where_xor:
  assumes "\<And>i. i < k \<Longrightarrow> length (f i) = n"
  shows "bxor (sum_where n k P f) (sum_where n k Q f) = sum_where n k (\<lambda>i. P i \<noteq> Q i) f"
proof -
  have "bxor (sum_where n k P f) (sum_where n k Q f) =
      bsum n (map (\<lambda>i. bxor (if P i then f i else replicate n 0) (if Q i then f i else replicate n 0)) [0..<k])"
    unfolding sum_where_def by (rule bsum_split[symmetric]) (auto simp: assms)
  also have "\<dots> = sum_where n k (\<lambda>i. P i \<noteq> Q i) f"
    unfolding sum_where_def by (rule arg_cong[where f = "bsum n"], rule map_cong) (auto simp: assms bxor_self)
  finally show ?thesis .
qed

lemma sum_where_cong: "(\<And>i. i < k \<Longrightarrow> P i = Q i) \<Longrightarrow> sum_where n k P f = sum_where n k Q f"
  unfolding sum_where_def by (rule arg_cong[where f = "bsum n"]) auto

lemma bsum_mset:
  assumes "mset xs = mset ys"
  shows "bsum n xs = bsum n ys"
proof -
  have "fold bxor (rev xs) = fold bxor (rev ys)"
    using assms by (intro fold_multiset_equiv) (auto simp: fun_eq_iff bxor_left_commute)
  then show ?thesis by (simp add: bsum_def foldr_conv_fold)
qed

lemma sum_where_list:
  assumes "\<And>i. i < k \<Longrightarrow> length (f i) = n" "distinct is" "set is = {i. i < k \<and> P i}"
  shows "sum_where n k P f = bsum n (map f is)"
proof -
  have "bsum n (map (\<lambda>i. if P i then f i else replicate n 0) js) = bsum n (map f (filter P js))"
    if "\<forall>j \<in> set js. length (f j) = n" for js
    using that by (induction js) (auto intro!: bxor_zero(1) length_bsum)
  then have "sum_where n k P f = bsum n (map f (filter P [0..<k]))" unfolding sum_where_def using assms(1) by simp
  moreover have "mset (filter P [0..<k]) = mset is"
    using assms(2,3) by (subst set_eq_iff_mset_eq_distinct[symmetric]) auto
  ultimately show ?thesis using bsum_mset[of "map f (filter P [0..<k])" "map f is"] by simp
qed

section \<open>What the field does\<close>

text \<open>
  The laws of the field's operations on vectors of the size of a slice: \<open>scale\<close> multiplies a vector of bytes by a constant, \<open>mul\<close> multiplies
  constants; \<open>mul_add_multi\<close> adds multiples to a row, and a matrix that has an inverse times it is the unit matrix.
\<close>

definition csum :: "u16 list \<Rightarrow> u16" where
  "csum cs = foldr (XOR) cs 0"

definition gf_laws :: "nat \<Rightarrow> gf_ops \<Rightarrow> (u16 \<Rightarrow> bytes \<Rightarrow> bytes) \<Rightarrow> (u16 \<Rightarrow> u16 \<Rightarrow> u16) \<Rightarrow> bool" where
  "gf_laws sz G scale mul \<longleftrightarrow>
    (\<forall>row srcs coeffs. length row = sz \<longrightarrow> length coeffs = length srcs \<longrightarrow> (\<forall>s \<in> set srcs. length s = sz) \<longrightarrow>
       gf_mul_add_multi G row srcs coeffs = foldl bxor row (map2 scale coeffs srcs)) \<and>
    (\<forall>c x. length x = sz \<longrightarrow> length (scale c x) = sz) \<and>
    (\<forall>c x y. length x = sz \<longrightarrow> length y = sz \<longrightarrow> scale c (bxor x y) = bxor (scale c x) (scale c y)) \<and>
    (\<forall>c d x. length x = sz \<longrightarrow> scale (c XOR d) x = bxor (scale c x) (scale d x)) \<and>
    (\<forall>c d x. length x = sz \<longrightarrow> scale (mul c d) x = scale c (scale d x)) \<and>
    (\<forall>x. length x = sz \<longrightarrow> scale 1 x = x) \<and>
    (\<forall>M minv j k. (\<forall>row \<in> set M. length row = length M) \<longrightarrow> gf_invert G M = Some minv \<longrightarrow> j < length M \<longrightarrow>
       k < length M \<longrightarrow> csum (map (\<lambda>e. mul (minv ! j ! e) (M ! e ! k)) [0..<length M]) = (if j = k then 1 else 0))"

lemma gf_lawsD:
  assumes "gf_laws sz G scale mul"
  shows "length x = sz \<Longrightarrow> length (scale c x) = sz"
    "length x = sz \<Longrightarrow> length y = sz \<Longrightarrow> scale c (bxor x y) = bxor (scale c x) (scale c y)"
    "length x = sz \<Longrightarrow> scale (c XOR d) x = bxor (scale c x) (scale d x)"
    "length x = sz \<Longrightarrow> scale (mul c d) x = scale c (scale d x)" "length x = sz \<Longrightarrow> scale 1 x = x"
    "length row = sz \<Longrightarrow> length coeffs = length srcs \<Longrightarrow> (\<forall>s \<in> set srcs. length s = sz) \<Longrightarrow>
       gf_mul_add_multi G row srcs coeffs = foldl bxor row (map2 scale coeffs srcs)"
    "(\<forall>row \<in> set M. length row = length M) \<Longrightarrow> gf_invert G M = Some minv \<Longrightarrow> j < length M \<Longrightarrow> k < length M \<Longrightarrow>
       csum (map (\<lambda>e. mul (minv ! j ! e) (M ! e ! k)) [0..<length M]) = (if j = k then 1 else 0)"
proof -
  note L = assms[unfolded gf_laws_def]
  show "length x = sz \<Longrightarrow> length (scale c x) = sz" using L by (elim conjE) simp
  show "length x = sz \<Longrightarrow> length y = sz \<Longrightarrow> scale c (bxor x y) = bxor (scale c x) (scale c y)"
    using L by (elim conjE) simp
  show "length x = sz \<Longrightarrow> scale (c XOR d) x = bxor (scale c x) (scale d x)" using L by (elim conjE) simp
  show "length x = sz \<Longrightarrow> scale (mul c d) x = scale c (scale d x)" using L by (elim conjE) simp
  show "length x = sz \<Longrightarrow> scale 1 x = x" using L by (elim conjE) simp
  show "length row = sz \<Longrightarrow> length coeffs = length srcs \<Longrightarrow> (\<forall>s \<in> set srcs. length s = sz) \<Longrightarrow>
      gf_mul_add_multi G row srcs coeffs = foldl bxor row (map2 scale coeffs srcs)"
    using L by (elim conjE) simp
  show "(\<forall>row \<in> set M. length row = length M) \<Longrightarrow> gf_invert G M = Some minv \<Longrightarrow> j < length M \<Longrightarrow> k < length M \<Longrightarrow>
      csum (map (\<lambda>e. mul (minv ! j ! e) (M ! e ! k)) [0..<length M]) = (if j = k then 1 else 0)"
    using L by (elim conjE) blast
qed

lemma scale_zero: "gf_laws sz G scale mul \<Longrightarrow> length x = sz \<Longrightarrow> scale 0 x = replicate sz 0"
  using gf_lawsD(3)[of sz G scale mul x 0 0] bxor_self[of "scale 0 x"] gf_lawsD(1)[of sz G scale mul x 0] by simp

lemma scale_zeros: "gf_laws sz G scale mul \<Longrightarrow> scale c (replicate sz 0) = replicate sz 0"
  using gf_lawsD(2)[of sz G scale mul "replicate sz 0" "replicate sz 0" c] bxor_self[of "scale c (replicate sz 0)"]
    gf_lawsD(1)[of sz G scale mul "replicate sz 0" c] by (simp add: bxor_self)

lemma scale_bsum:
  assumes "gf_laws sz G scale mul" "\<forall>x \<in> set xs. length x = sz"
  shows "scale c (bsum sz xs) = bsum sz (map (scale c) xs)"
  using assms(2) by (induction xs) (auto simp: scale_zeros[OF assms(1)] gf_lawsD(2)[OF assms(1)])

lemma scale_csum:
  assumes "gf_laws sz G scale mul" "length x = sz"
  shows "scale (csum cs) x = bsum sz (map (\<lambda>c. scale c x) cs)"
  by (induction cs) (simp_all add: csum_def scale_zero[OF assms] gf_lawsD(3)[OF assms])

lemma mul_add_sum:
  assumes "gf_laws sz G scale mul" "length row = sz" "length coeffs = length srcs" "\<forall>s \<in> set srcs. length s = sz"
  shows "gf_mul_add_multi G row srcs coeffs = bxor row (bsum sz (map2 scale coeffs srcs))"
proof -
  have "\<forall>x \<in> set (map2 scale coeffs srcs). length x = length row"
    using assms(2,4) by (auto simp: gf_lawsD(1)[OF assms(1)] dest!: set_zip_rightD)
  then show ?thesis using foldl_bxor[of "map2 scale coeffs srcs" row] assms(2)
    by (simp add: gf_lawsD(6)[OF assms])
qed

section \<open>What the rows hold\<close>

definition pending_of :: "repair_fold \<Rightarrow> nat set" where
  "pending_of F = (case rf_growth F of None \<Rightarrow> {} | Some g \<Rightarrow> gr_pending g)"

text \<open>The share of slice \<open>i\<close> in the row of an exponent, and which slices a row has.\<close>

definition term_of :: "gf_ops \<Rightarrow> (u16 \<Rightarrow> bytes \<Rightarrow> bytes) \<Rightarrow> nat \<Rightarrow> (nat \<Rightarrow> bytes) \<Rightarrow> nat \<Rightarrow> nat \<Rightarrow> bytes" where
  "term_of G scale n D e i = scale (gf_pow G (gf_input_constants G n ! i) e) (D i)"

definition row_has :: "repair_fold \<Rightarrow> nat \<Rightarrow> nat \<Rightarrow> bool" where
  "row_has F r i \<longleftrightarrow> is_fed F i \<and> (r < complete_rows F \<or> i \<notin> pending_of F)"

definition rows_hold :: "gf_ops \<Rightarrow> (u16 \<Rightarrow> bytes \<Rightarrow> bytes) \<Rightarrow> nat \<Rightarrow> nat \<Rightarrow> (nat \<Rightarrow> bytes) \<Rightarrow> repair_fold \<Rightarrow> bool" where
  "rows_hold G scale n sz D F \<longleftrightarrow>
    (\<forall>r < length (rf_rows F). rf_rows F ! r = sum_where sz n (row_has F r) (term_of G scale n D (rf_exponents F ! r)))"

definition fold_shape :: "gf_ops \<Rightarrow> nat \<Rightarrow> nat \<Rightarrow> repair_fold \<Rightarrow> bool" where
  "fold_shape G n sz F \<longleftrightarrow>
    rf_slice_size F = sz \<and> length (rf_fed F) = n \<and> rf_constants F = gf_input_constants G n \<and>
    length (rf_exponents F) = length (rf_rows F) \<and> rf_fed_count F = card {i. is_fed F i} \<and>
    complete_rows F \<le> length (rf_rows F) \<and> pending_of F \<subseteq> {i. is_fed F i}"

text \<open>Slices and readers that give the bytes the set was made of.\<close>

definition honest :: "nat \<Rightarrow> (nat \<Rightarrow> bytes) \<Rightarrow> (nat \<times> bytes) list \<Rightarrow> bool" where
  "honest sz D slices \<longleftrightarrow> (\<forall>(i, b) \<in> set slices. pad_slice sz b = D i)"

definition honest_reader :: "nat \<Rightarrow> (nat \<Rightarrow> bytes) \<Rightarrow> slice_reader \<Rightarrow> bool" where
  "honest_reader sz D rd \<longleftrightarrow> (\<forall>i b. rd i = Inr b \<longrightarrow> pad_slice sz b = D i)"

lemma length_pad [simp]: "length (pad_slice n b) = n"
  by (simp add: pad_slice_def)

lemma length_fold_into [simp]:
  "length es = length rows \<Longrightarrow> length (fold_into G rows es cs sz slices) = length rows"
  by (simp add: fold_into_def)

lemma fold_into_nth:
  assumes "gf_laws sz G scale mul" "r < length rows" "length es = length rows" "length (rows ! r) = sz"
  shows "fold_into G rows es cs sz slices ! r =
    bxor (rows ! r) (bsum sz (map (\<lambda>(i, b). scale (gf_pow G (cs ! i) (es ! r)) (pad_slice sz b)) slices))"
proof -
  have m: "map2 scale (map (\<lambda>(i, _). gf_pow G (cs ! i) e) slices) (map (\<lambda>(_, b). pad_slice sz b) slices) =
      map (\<lambda>(i, b). scale (gf_pow G (cs ! i) e) (pad_slice sz b)) slices" for e
    by (induction slices) auto
  have "gf_mul_add_multi G (rows ! r) (map (\<lambda>(_, b). pad_slice sz b) slices) (map (\<lambda>(i, _). gf_pow G (cs ! i) (es ! r)) slices) =
      bxor (rows ! r) (bsum sz (map2 scale (map (\<lambda>(i, _). gf_pow G (cs ! i) (es ! r)) slices)
        (map (\<lambda>(_, b). pad_slice sz b) slices)))"
    by (rule mul_add_sum[OF assms(1)]) (auto simp: assms(4))
  then show ?thesis using assms(2,3) by (simp add: fold_into_def m assms(4))
qed

lemma fold_row:
  assumes laws: "gf_laws sz G scale mul" and r: "r < length rows" "length es = length rows"
    and D: "\<And>i. i < n \<Longrightarrow> length (D i) = sz"
    and h: "honest sz D slices" "distinct (map fst slices)" "fst ` set slices \<subseteq> {..<n}"
    and row: "rows ! r = sum_where sz n P (term_of G scale n D (es ! r))" and new: "\<And>i. i \<in> fst ` set slices \<Longrightarrow> \<not> P i"
  shows "fold_into G rows es (gf_input_constants G n) sz slices ! r =
    sum_where sz n (\<lambda>i. P i \<or> i \<in> fst ` set slices) (term_of G scale n D (es ! r))"
proof -
  let ?t = "term_of G scale n D (es ! r)" and ?Q = "\<lambda>i. i \<in> fst ` set slices"
  have t: "length (?t i) = sz" if "i < n" for i using that D by (simp add: term_of_def gf_lawsD(1)[OF laws])
  have len: "length (rows ! r) = sz" using row t by simp
  have m1: "map (\<lambda>(i, b). scale (gf_pow G (gf_input_constants G n ! i) (es ! r)) (pad_slice sz b)) slices = map ?t (map fst slices)"
    using h(1) by (auto simp: honest_def term_of_def)
  have m2: "sum_where sz n ?Q ?t = bsum sz (map ?t (map fst slices))"
    using h(2,3) t by (intro sum_where_list) auto
  have "fold_into G rows es (gf_input_constants G n) sz slices ! r = bxor (sum_where sz n P ?t) (sum_where sz n ?Q ?t)"
    unfolding fold_into_nth[OF laws r len] m1 m2 row ..
  also have "\<dots> = sum_where sz n (\<lambda>i. P i \<noteq> ?Q i) ?t" by (rule sum_where_xor) (rule t)
  also have "\<dots> = sum_where sz n (\<lambda>i. P i \<or> ?Q i) ?t" using new by (intro sum_where_cong) auto
  finally show ?thesis .
qed

section \<open>Feeding\<close>

lemma fed_indices_facts: "distinct (fed_indices F)" "set (fed_indices F) = {i. is_fed F i}"
  by (auto simp: fed_indices_def is_fed_def)

lemma fresh_facts:
  "distinct (map fst (fresh_slices S ss)) \<and> set (fresh_slices S ss) \<subseteq> set ss \<and>
   fst ` set (fresh_slices S ss) = fst ` set ss - S"
  by (induction S ss rule: fresh_slices.induct) (auto simp: image_iff)

lemma nth_set_True: "j < length fs \<Longrightarrow> fs[i := True] ! j \<longleftrightarrow> i = j \<or> fs ! j"
  by (cases "i = j") auto

lemma fed_update:
  "length (fold (\<lambda>(i, _) fs. fs[i := True]) ss fs) = length fs \<and>
   (j < length fs \<longrightarrow> (fold (\<lambda>(i, _) fs. fs[i := True]) ss fs ! j \<longleftrightarrow> fs ! j \<or> j \<in> fst ` set ss))"
proof (induction ss arbitrary: fs)
  case (Cons a ss)
  show ?case using Cons.IH[of "fs[fst a := True]"] by (cases a) (auto simp: nth_set_True)
qed simp

lemma feed_keeps:
  assumes laws: "gf_laws sz G scale mul" and D: "\<And>i. i < n \<Longrightarrow> length (D i) = sz"
    and inv: "fold_shape G n sz F" "rows_hold G scale n sz D F" and h: "honest sz D slices"
  shows "fold_shape G n sz (snd (feed_batch G slices F)) \<and> rows_hold G scale n sz D (snd (feed_batch G slices F))"
proof (cases "find (\<lambda>(i, _). length (rf_fed F) \<le> i) slices = None \<and> fresh_slices {i. is_fed F i} slices \<noteq> []")
  case False
  then have "snd (feed_batch G slices F) = F" by (auto simp: feed_batch_def fed_indices_facts Let_def split: option.splits)
  then show ?thesis using inv by simp
next
  case True
  define fresh where "fresh = fresh_slices {i. is_fed F i} slices"
  define F' where "F' = F\<lparr>rf_rows := fold_into G (rf_rows F) (rf_exponents F) (rf_constants F) (rf_slice_size F) fresh,
      rf_fed := fold (\<lambda>(i, _) fs. fs[i := True]) fresh (rf_fed F), rf_fed_count := rf_fed_count F + length fresh\<rparr>"
  have F': "snd (feed_batch G slices F) = F'" using True by (simp add: feed_batch_def fed_indices_facts fresh_def F'_def Let_def)
  note s = inv(1)[unfolded fold_shape_def]
  have idx: "fst ` set slices \<subseteq> {..<n}" using True s by (auto simp: find_None_iff)
  have fr: "distinct (map fst fresh)" "set fresh \<subseteq> set slices" "fst ` set fresh = fst ` set slices - {i. is_fed F i}"
    using fresh_facts[of "{i. is_fed F i}" slices] by (auto simp: fresh_def)
  have fed: "is_fed F' j \<longleftrightarrow> is_fed F j \<or> j \<in> fst ` set fresh" for j
    using fed_update[of fresh "rf_fed F" j] idx fr(3) s by (auto simp: F'_def is_fed_def)
  have "{i. is_fed F' i} = {i. is_fed F i} \<union> fst ` set fresh" using fed by auto
  moreover have "finite {i. is_fed F i}" by (rule finite_subset[of _ "{..<length (rf_fed F)}"]) (auto simp: is_fed_def)
  moreover have "card (fst ` set fresh) = length fresh" using fr(1) by (metis distinct_card length_map list.set_map)
  moreover have "{i. is_fed F i} \<inter> fst ` set fresh = {}" using fr(3) by auto
  ultimately have card: "card {i. is_fed F' i} = rf_fed_count F + length fresh" using s by (simp add: card_Un_disjoint)
  have same: "complete_rows F' = complete_rows F" "pending_of F' = pending_of F" "length (rf_rows F') = length (rf_rows F)"
    using s by (auto simp: F'_def complete_rows_def pending_of_def split: option.splits)
  have sh: "fold_shape G n sz F'"
    unfolding fold_shape_def same card using s fed fed_update[of fresh "rf_fed F"] by (auto simp: F'_def)
  have h': "honest sz D fresh" using h fr(2) by (auto simp: honest_def)
  have "rf_rows F' ! r = sum_where sz n (row_has F' r) (term_of G scale n D (rf_exponents F' ! r))" if r: "r < length (rf_rows F)" for r
  proof -
    have "rf_rows F' ! r = fold_into G (rf_rows F) (rf_exponents F) (gf_input_constants G n) sz fresh ! r"
      using s by (simp add: F'_def)
    also have "\<dots> = sum_where sz n (\<lambda>i. row_has F r i \<or> i \<in> fst ` set fresh) (term_of G scale n D (rf_exponents F ! r))"
    proof (rule fold_row[OF laws r _ D h' fr(1)])
      show "rf_rows F ! r = sum_where sz n (row_has F r) (term_of G scale n D (rf_exponents F ! r))"
        using inv(2) r by (simp add: rows_hold_def)
    qed (use s idx fr(3) in \<open>auto simp: row_has_def\<close>)
    also have "\<dots> = sum_where sz n (row_has F' r) (term_of G scale n D (rf_exponents F ! r))"
      using s fr(3) by (intro sum_where_cong) (auto simp: row_has_def same fed)
    finally show ?thesis by (simp add: F'_def)
  qed
  then show ?thesis using sh by (simp add: F' rows_hold_def same)
qed

end
