(* ===== verification/Repair_Fold_Proofs.thy ===== *)
theory Repair_Fold_Proofs
  imports Repair_Fold_Rows
begin

unbundle bit_operations_syntax

text \<open>
  Every operation of the fold keeps the invariant of its rows, in whatever order slices arrive and rows are added, and
  the solve gives back the bytes of the damaged slices.
\<close>

section \<open>The invariant\<close>

definition fold_inv :: "gf_ops \<Rightarrow> (u16 \<Rightarrow> bytes \<Rightarrow> bytes) \<Rightarrow> nat \<Rightarrow> nat \<Rightarrow> (nat \<Rightarrow> bytes) \<Rightarrow> repair_fold \<Rightarrow> bool" where
  "fold_inv G scale n sz D F \<longleftrightarrow> fold_shape G n sz F \<and> rows_hold G scale n sz D F"

text \<open>Only these fields matter.\<close>

lemma fold_inv_cong:
  assumes "rf_slice_size F' = rf_slice_size F" "rf_constants F' = rf_constants F" "rf_exponents F' = rf_exponents F"
    "rf_rows F' = rf_rows F" "rf_fed F' = rf_fed F" "rf_fed_count F' = rf_fed_count F" "rf_growth F' = rf_growth F"
  shows "fold_inv G scale n sz D F' = fold_inv G scale n sz D F"
proof -
  have "is_fed F' = is_fed F" "complete_rows F' = complete_rows F" "pending_of F' = pending_of F"
    using assms by (simp_all add: fun_eq_iff is_fed_def complete_rows_def pending_of_def split: option.splits)
  moreover from this have "row_has F' = row_has F" by (simp add: fun_eq_iff row_has_def)
  ultimately show ?thesis using assms by (simp add: fold_inv_def fold_shape_def rows_hold_def)
qed

lemma fold_inv_fields [simp]:
  "fold_inv G scale n sz D (F\<lparr>rf_disk_fed := a\<rparr>) = fold_inv G scale n sz D F"
  "fold_inv G scale n sz D (F\<lparr>rf_poisoned := b\<rparr>) = fold_inv G scale n sz D F"
  "fold_inv G scale n sz D (F\<lparr>rf_max_rows := a\<rparr>) = fold_inv G scale n sz D F"
  by (intro fold_inv_cong; simp)+

section \<open>Batches\<close>

lemma read_batch_facts:
  "read_batch rd is = Inr bs \<Longrightarrow> honest_reader sz D rd \<Longrightarrow> map fst bs = is \<and> honest sz D bs"
  by (induction "is" arbitrary: bs) (auto simp: honest_reader_def honest_def split: sum.splits)

lemma concat_batches: "0 < k \<Longrightarrow> concat (batch_chunks k xs) = xs"
proof (induction k xs rule: batch_chunks.induct)
  case (1 k xs)
  then show ?case by (subst batch_chunks.simps) auto
qed

lemma batch_len_pos: "0 < batch_len sz"
  by (simp add: batch_len_def MAX_REPAIR_BATCH_def)

lemma apply_batches_keeps:
  assumes "\<And>bs s. honest sz D bs \<Longrightarrow> Q s \<Longrightarrow> Q (f bs s)" "honest_reader sz D rd" "Q s"
  shows "Q (snd (apply_batches rd f cs s))"
  using assms(3)
proof (induction cs arbitrary: s)
  case (Cons c cs)
  show ?case
  proof (cases "read_batch rd c")
    case (Inr bs)
    then have "Q (f bs s)" using read_batch_facts[OF Inr assms(2)] assms(1) Cons.prems by blast
    then show ?thesis using Cons.IH Inr by simp
  qed (use Cons.prems in simp)
qed simp

lemma feed_missing_keeps:
  assumes "gf_laws sz G scale mul" "\<And>i. i < n \<Longrightarrow> length (D i) = sz"
    and "fold_inv G scale n sz D F" "honest_reader sz D rd"
  shows "fold_inv G scale n sz D (snd (feed_missing G damaged rd F))"
proof -
  define Q where "Q s \<longleftrightarrow> fold_inv G scale n sz D (fst s)" for s :: "repair_fold \<times> nat \<times> fold_error option"
  have step: "Q (feed_missing_step G bs s)" if "honest sz D bs" "Q s" for bs s
  proof -
    obtain F1 k e where s: "s = (F1, k, e)" by (cases s)
    have "fold_inv G scale n sz D (snd (feed_batch G bs F1))"
      using feed_keeps[OF assms(1,2) _ _ that(1), where F = F1] that(2) by (simp add: Q_def fold_inv_def s)
    then show ?thesis by (auto simp: Q_def feed_missing_step_def s split: prod.splits sum.splits)
  qed
  have "Q (snd (apply_batches rd (feed_missing_step G) cs (F, 0, None)))" for cs
    by (rule apply_batches_keeps[where Q = Q, OF step assms(4)]) (simp_all add: Q_def assms(3))
  then have q: "Q (snd (for_each_batch is k rd (feed_missing_step G) (F, 0, None)))" for "is" k
    by (simp add: for_each_batch_def)
  show ?thesis
    using assms(3) q[of "filter (\<lambda>i. \<not> rf_fed F ! i \<and> i \<notin> set damaged) [0..<length (rf_fed F)]" "rf_slice_size F"]
    by (auto simp: feed_missing_def Let_def Q_def split: option.splits prod.splits)
qed

section \<open>Rows added later\<close>

lemma sum_where_none: "sum_where sz n (\<lambda>_. False) f = replicate sz 0"
proof -
  have "bsum sz (map (\<lambda>i. replicate sz 0) is) = replicate sz 0" for "is" :: "nat list" by (induction "is") auto
  then show ?thesis by (simp add: sum_where_def)
qed

text \<open>The rows from \<open>start\<close> on hold the slices of a set, and nothing else has changed.\<close>

definition tail_holds :: "gf_ops \<Rightarrow> (u16 \<Rightarrow> bytes \<Rightarrow> bytes) \<Rightarrow> nat \<Rightarrow> nat \<Rightarrow> (nat \<Rightarrow> bytes) \<Rightarrow> nat \<Rightarrow> repair_fold \<Rightarrow>
    nat set \<Rightarrow> repair_fold \<Rightarrow> bool" where
  "tail_holds G scale n sz D start F P F' \<longleftrightarrow>
    F\<lparr>rf_rows := rf_rows F'\<rparr> = F' \<and> length (rf_rows F') = length (rf_rows F) \<and>
    (\<forall>r < start. rf_rows F' ! r = rf_rows F ! r) \<and>
    (\<forall>r. start \<le> r \<longrightarrow> r < length (rf_rows F) \<longrightarrow>
       rf_rows F' ! r = sum_where sz n (\<lambda>i. i \<in> P) (term_of G scale n D (rf_exponents F ! r)))"

lemma tail_step:
  assumes laws: "gf_laws sz G scale mul" and D: "\<And>i. i < n \<Longrightarrow> length (D i) = sz"
    and F: "rf_slice_size F = sz" "rf_constants F = gf_input_constants G n" "length (rf_exponents F) = length (rf_rows F)"
      "start \<le> length (rf_rows F)"
    and t: "tail_holds G scale n sz D start F P F'"
    and h: "honest sz D bs" "distinct (map fst bs)" "fst ` set bs \<subseteq> {..<n}" "P \<inter> fst ` set bs = {}"
  shows "tail_holds G scale n sz D start F (P \<union> fst ` set bs) (fold_tail G start bs F')"
proof -
  note t' = t[unfolded tail_holds_def]
  obtain rs where rs: "F' = F\<lparr>rf_rows := rs\<rparr>" using t' by metis
  have e: "rf_exponents F' = rf_exponents F" "rf_slice_size F' = sz" "rf_constants F' = gf_input_constants G n"
    using F by (simp_all add: rs)
  have "rf_rows (fold_tail G start bs F') ! r = sum_where sz n (\<lambda>i. i \<in> P \<union> fst ` set bs) (term_of G scale n D (rf_exponents F ! r))"
    if r: "start \<le> r" "r < length (rf_rows F)" for r
  proof -
    have "rf_rows (fold_tail G start bs F') ! r =
        fold_into G (drop start (rf_rows F')) (drop start (rf_exponents F)) (gf_input_constants G n) sz bs ! (r - start)"
      using r t' by (simp add: fold_tail_def nth_append e)
    also have "\<dots> = sum_where sz n (\<lambda>i. i \<in> P \<or> i \<in> fst ` set bs) (term_of G scale n D (drop start (rf_exponents F) ! (r - start)))"
      using r t' F h by (intro fold_row[OF laws _ _ D h(1,2,3)]) auto
    finally show ?thesis using r F by simp
  qed
  moreover have "length (rf_rows (fold_tail G start bs F')) = length (rf_rows F)"
    using t' F by (simp add: fold_tail_def e)
  moreover have "\<forall>r < start. rf_rows (fold_tail G start bs F') ! r = rf_rows F ! r"
    using t' F by (simp add: fold_tail_def nth_append)
  moreover have "F\<lparr>rf_rows := rf_rows (fold_tail G start bs F')\<rparr> = fold_tail G start bs F'"
    by (simp add: fold_tail_def rs)
  ultimately show ?thesis unfolding tail_holds_def by blast
qed

lemma tail_batches:
  assumes "gf_laws sz G scale mul" "\<And>i. i < n \<Longrightarrow> length (D i) = sz"
    and "rf_slice_size F = sz" "rf_constants F = gf_input_constants G n" "length (rf_exponents F) = length (rf_rows F)"
      "start \<le> length (rf_rows F)"
    and rd: "honest_reader sz D rd"
    and "tail_holds G scale n sz D start F P F'" "distinct (concat cs)" "set (concat cs) \<subseteq> {..<n}" "P \<inter> set (concat cs) = {}"
    and "apply_batches rd (fold_tail G start) cs F' = (r, F'')"
  shows "(\<exists>Q. tail_holds G scale n sz D start F Q F'') \<and>
    (r = None \<longrightarrow> tail_holds G scale n sz D start F (P \<union> set (concat cs)) F'')"
  using assms(8-)
proof (induction cs arbitrary: P F')
  case (Cons c cs)
  show ?case
  proof (cases "read_batch rd c")
    case (Inl e)
    then show ?thesis using Cons.prems by auto
  next
    case (Inr bs)
    note bs = read_batch_facts[OF Inr rd]
    have set: "fst ` set bs = set c" using bs by (metis list.set_map)
    have "tail_holds G scale n sz D start F (P \<union> fst ` set bs) (fold_tail G start bs F')"
      by (rule tail_step[OF assms(1-6)]) (use Cons.prems bs set in auto)
    then have "(\<exists>Q. tail_holds G scale n sz D start F Q F'') \<and>
        (r = None \<longrightarrow> tail_holds G scale n sz D start F ((P \<union> set c) \<union> set (concat cs)) F'')"
      using Cons.prems Inr set by (intro Cons.IH[of "P \<union> set c" "fold_tail G start bs F'"]) auto
    then show ?thesis by (simp add: Un_assoc)
  qed
qed auto

lemma abandon_keeps:
  assumes "fold_inv G scale n sz D F"
  shows "fold_inv G scale n sz D (abandon_growth F) \<and> rf_growth (abandon_growth F) = None"
proof (cases "rf_growth F")
  case None
  then show ?thesis using assms by (simp add: abandon_growth_def)
next
  case (Some g)
  define F' where "F' = abandon_growth F"
  have F': "F' = F\<lparr>rf_growth := None, rf_rows := take (gr_start g) (rf_rows F),
      rf_exponents := take (gr_start g) (rf_exponents F), rf_generation := rf_generation F + 1\<rparr>"
    by (simp add: F'_def abandon_growth_def Some)
  have s: "gr_start g \<le> length (rf_rows F)" using assms Some by (simp add: fold_inv_def fold_shape_def complete_rows_def)
  have fed: "is_fed F' = is_fed F" by (simp add: F' fun_eq_iff is_fed_def)
  have has: "row_has F' r = row_has F r" if "r < gr_start g" for r
    using that Some s by (simp add: fun_eq_iff row_has_def fed) (simp add: F' complete_rows_def pending_of_def)
  have "fold_shape G n sz F'"
    using assms Some by (simp add: fold_inv_def fold_shape_def fed) (simp add: F' complete_rows_def pending_of_def)
  moreover have "rows_hold G scale n sz D F'"
    using assms s has by (simp add: fold_inv_def rows_hold_def F')
  ultimately show ?thesis by (simp add: fold_inv_def F'_def[symmetric]) (simp add: F')
qed

lemma add_rows_fields [simp]:
  "rf_slice_size (add_rows es F) = rf_slice_size F" "rf_constants (add_rows es F) = rf_constants F"
  "rf_fed (add_rows es F) = rf_fed F" "rf_growth (add_rows es F) = rf_growth F"
  "rf_fed_count (add_rows es F) = rf_fed_count F" "rf_exponents (add_rows es F) = rf_exponents F @ es"
  "rf_rows (add_rows es F) = rf_rows F @ map (\<lambda>_. replicate (rf_slice_size F) 0) es" "is_fed (add_rows es F) = is_fed F"
  by (simp_all add: add_rows_def fun_eq_iff is_fed_def)

text \<open>Rows of a set of slices appended to complete ones.\<close>

lemma grown_inv:
  assumes inv: "fold_inv G scale n sz D F" "rf_growth F = None"
    and F': "rf_slice_size F' = sz" "rf_constants F' = rf_constants F" "rf_fed F' = rf_fed F" "rf_fed_count F' = rf_fed_count F"
      "rf_exponents F' = rf_exponents F @ es" "length (rf_rows F') = length (rf_rows F) + length es"
    and old: "\<And>r. r < length (rf_rows F) \<Longrightarrow> rf_rows F' ! r = rf_rows F ! r"
    and new: "\<And>r. length (rf_rows F) \<le> r \<Longrightarrow> r < length (rf_rows F) + length es \<Longrightarrow>
      rf_rows F' ! r = sum_where sz n (\<lambda>i. is_fed F i \<and> i \<notin> P) (term_of G scale n D (rf_exponents F' ! r))"
    and g: "rf_growth F' = (if P = {} then None else Some \<lparr>gr_start = length (rf_rows F), gr_pending = P\<rparr>)" "P \<subseteq> {i. is_fed F i}"
  shows "fold_inv G scale n sz D F'"
proof -
  have fed: "is_fed F' = is_fed F" by (simp add: fun_eq_iff is_fed_def F')
  have cp: "pending_of F' = P" "complete_rows F' = (if P = {} then length (rf_rows F) + length es else length (rf_rows F))"
    using g by (auto simp: pending_of_def complete_rows_def F')
  have sh: "fold_shape G n sz F'"
    using inv(1) g(2) by (simp add: fold_inv_def fold_shape_def fed cp F')
  have has: "row_has F' r = (\<lambda>i. is_fed F i \<and> (r < length (rf_rows F) \<or> i \<notin> P))" if "r < length (rf_rows F')" for r
    using that by (auto simp: fun_eq_iff row_has_def fed cp F')
  have hasF: "row_has F r = is_fed F" if "r < length (rf_rows F)" for r
    using that inv(2) by (simp add: fun_eq_iff row_has_def complete_rows_def)
  have len: "length (rf_exponents F) = length (rf_rows F)" using inv(1) by (simp add: fold_inv_def fold_shape_def)
  have "rf_rows F' ! r = sum_where sz n (row_has F' r) (term_of G scale n D (rf_exponents F' ! r))"
    if r: "r < length (rf_rows F')" for r
  proof (cases "r < length (rf_rows F)")
    case True
    then have "rf_rows F ! r = sum_where sz n (row_has F r) (term_of G scale n D (rf_exponents F ! r))"
      using inv(1) by (simp add: fold_inv_def rows_hold_def)
    then show ?thesis using True r has[OF r] hasF[OF True] len by (simp add: old F' nth_append)
  next
    case False
    then show ?thesis using r has[OF r] new[of r] by (simp add: F')
  qed
  then show ?thesis using sh by (simp add: fold_inv_def rows_hold_def)
qed

lemma tail_start:
  assumes "rf_slice_size F = sz"
  shows "tail_holds G scale n sz D (length (rf_rows F)) (add_rows es F) {} (add_rows es F)"
  by (simp add: tail_holds_def nth_append sum_where_none assms)

lemma extend_keeps:
  assumes laws: "gf_laws sz G scale mul" and D: "\<And>i. i < n \<Longrightarrow> length (D i) = sz"
    and inv0: "fold_inv G scale n sz D F0" and rd: "honest_reader sz D rd"
  shows "fold_inv G scale n sz D (snd (extend_rows G exponents rd F0))"
proof -
  define F where "F = abandon_growth F0"
  have inv: "fold_inv G scale n sz D F" "rf_growth F = None" using abandon_keeps[OF inv0] by (simp_all add: F_def)
  define es where "es = filter (\<lambda>e. e \<notin> set (rf_exponents F)) exponents"
  define start where "start = length (rf_rows F)"
  define A where "A = add_rows es F"
  obtain r F' where run: "for_each_batch (fed_indices F) (rf_slice_size F) rd (fold_tail G start) A = (r, F')" by fastforce
  note s = inv(1)[unfolded fold_inv_def fold_shape_def]
  define cs where "cs = batch_chunks (batch_len (rf_slice_size F)) (fed_indices F)"
  have c: "concat cs = fed_indices F" unfolding cs_def by (rule concat_batches) (rule batch_len_pos)
  have sub: "{i. is_fed F i} \<subseteq> {..<n}" using s by (auto simp: is_fed_def)
  have "(\<exists>Q. tail_holds G scale n sz D start A Q F') \<and>
      (r = None \<longrightarrow> tail_holds G scale n sz D start A ({} \<union> set (concat cs)) F')"
  proof (rule tail_batches[OF laws D _ _ _ _ rd])
    show "tail_holds G scale n sz D start A {} A" unfolding start_def A_def by (rule tail_start) (use s in simp)
    show "apply_batches rd (fold_tail G start) cs A = (r, F')"
      using run by (simp add: for_each_batch_def cs_def)
  qed (unfold c, use s sub in \<open>simp_all add: A_def start_def fed_indices_facts\<close>)
  then obtain Q where q: "tail_holds G scale n sz D start A Q F'"
    and t: "r = None \<Longrightarrow> tail_holds G scale n sz D start A {i. is_fed F i} F'"
    unfolding c by (auto simp: fed_indices_facts)
  obtain rs where rs: "F' = A\<lparr>rf_rows := rs\<rparr>" using q unfolding tail_holds_def by metis
  have old: "rs ! i = rf_rows F ! i" if "i < start" for i
    using q that by (simp add: tail_holds_def rs A_def start_def nth_append)
  have len: "length rs = start + length es" using q by (simp add: tail_holds_def rs A_def start_def)
  show ?thesis
  proof (cases "es = [] \<or> row_limit F < length (rf_rows F) + length es")
    case True
    then show ?thesis using inv by (auto simp: extend_rows_def Let_def F_def[symmetric] es_def[symmetric])
  next
    case big: False
    show ?thesis
    proof (cases r)
      case None
      have "fold_inv G scale n sz D F'"
      proof (rule grown_inv[OF inv, where es = es and P = "{}"])
        fix k assume "length (rf_rows F) \<le> k" "k < length (rf_rows F) + length es"
        then show "rf_rows F' ! k = sum_where sz n (\<lambda>i. is_fed F i \<and> i \<notin> {}) (term_of G scale n D (rf_exponents F' ! k))"
          using t[OF None] by (simp add: tail_holds_def start_def A_def rs)
      qed (use s inv(2) old len in \<open>simp_all add: rs A_def start_def\<close>)
      then show ?thesis
        using big run None by (simp add: extend_rows_def Let_def F_def[symmetric] es_def[symmetric] start_def A_def)
    next
      case (Some e)
      have "fold_inv G scale n sz D (F'\<lparr>rf_rows := take start (rf_rows F'), rf_exponents := take start (rf_exponents F')\<rparr>) =
          fold_inv G scale n sz D F"
        using s old len by (intro fold_inv_cong) (auto simp: rs A_def start_def intro: nth_equalityI)
      then show ?thesis
        using big run Some inv by (simp add: extend_rows_def Let_def F_def[symmetric] es_def[symmetric] start_def A_def)
    qed
  qed
qed

lemma begin_keeps:
  assumes inv: "fold_inv G scale n sz D F"
  shows "fold_inv G scale n sz D (snd (begin_growth exponents F))"
proof (cases "rf_growth F = None")
  case False
  then show ?thesis using inv by (simp add: begin_growth_def)
next
  case none: True
  define es where "es = filter (\<lambda>e. e \<notin> set (rf_exponents F)) exponents"
  define F2 where "F2 = (if fed_indices F = [] then (add_rows es F)\<lparr>rf_growth := None, rf_generation := rf_generation (add_rows es F) + 1\<rparr>
    else (add_rows es F)\<lparr>rf_growth := Some \<lparr>gr_start = length (rf_rows F), gr_pending = set (fed_indices F)\<rparr>\<rparr>)"
  have e: "fed_indices F = [] \<longleftrightarrow> {i. is_fed F i} = {}" using fed_indices_facts(2)[of F] by (metis set_empty)
  note s = inv[unfolded fold_inv_def fold_shape_def]
  have "fold_inv G scale n sz D F2"
  proof (rule grown_inv[OF inv none, where es = es and P = "{i. is_fed F i}"])
    show "rf_growth F2 = (if {i. is_fed F i} = {} then None else Some \<lparr>gr_start = length (rf_rows F), gr_pending = {i. is_fed F i}\<rparr>)"
      unfolding F2_def e by (simp add: fed_indices_facts)
  qed (use s in \<open>simp_all add: F2_def nth_append sum_where_none\<close>)
  then show ?thesis
    using none inv by (auto simp: begin_growth_def Let_def es_def[symmetric] F2_def)
qed

lemma take_pending_facts:
  "take_pending P ss = (fs, P') \<Longrightarrow>
    distinct (map fst fs) \<and> set fs \<subseteq> set ss \<and> fst ` set fs = P \<inter> fst ` set ss \<and> P' = P - fst ` set ss"
proof (induction P ss arbitrary: fs P' rule: take_pending.induct)
  case (2 P i b ss)
  show ?case
  proof (cases "i \<in> P")
    case True
    then obtain f0 where f0: "take_pending (P - {i}) ss = (f0, P')" "fs = (i, b) # f0" using 2 by (auto split: prod.splits)
    have "distinct (map fst f0)" "set f0 \<subseteq> set ss" and e: "fst ` set f0 = (P - {i}) \<inter> fst ` set ss" "P' = (P - {i}) - fst ` set ss"
      using 2(1)[OF True f0(1)] by blast+
    moreover have "i \<notin> set (map fst f0)" using e(1) by (metis Diff_iff IntD1 insertI1 list.set_map)
    moreover have "fst ` set fs = insert i (fst ` set f0)" by (simp add: f0)
    ultimately show ?thesis using True unfolding e by (simp add: f0(2)) blast
  next
    case False
    then have "take_pending P ss = (fs, P')" using 2 by simp
    then have f: "distinct (map fst fs)" "set fs \<subseteq> set ss" "fst ` set fs = P \<inter> fst ` set ss" "P' = P - fst ` set ss"
      using 2(2)[OF False] by blast+
    then show ?thesis unfolding f(3,4) using False by (simp add: f(3)) blast
  qed
qed simp

lemma backfill_keeps:
  assumes laws: "gf_laws sz G scale mul" and D: "\<And>i. i < n \<Longrightarrow> length (D i) = sz"
    and inv: "fold_inv G scale n sz D F" and h: "honest sz D slices"
  shows "fold_inv G scale n sz D (snd (backfill G generation slices F))"
proof (cases "generation = rf_generation F \<and> rf_growth F \<noteq> None")
  case False
  then show ?thesis using inv by (auto simp: backfill_def)
next
  case True
  then obtain g where g: "rf_growth F = Some g" by auto
  obtain fs P where tp: "take_pending (gr_pending g) slices = (fs, P)" by fastforce
  note f = take_pending_facts[OF tp]
  note s = inv[unfolded fold_inv_def fold_shape_def]
  define start where "start = gr_start g"
  have st: "complete_rows F = start" "pending_of F = gr_pending g" by (simp_all add: g complete_rows_def pending_of_def start_def)
  have pend: "gr_pending g \<subseteq> {i. is_fed F i}" "start \<le> length (rf_rows F)" using s st by auto
  have row: "rf_rows F ! r = sum_where sz n (row_has F r) (term_of G scale n D (rf_exponents F ! r))" if "r < length (rf_rows F)" for r
    using inv that by (simp add: fold_inv_def rows_hold_def)
  have hasF: "row_has F r = (\<lambda>i. is_fed F i \<and> (r < start \<or> i \<notin> gr_pending g))" for r
    by (simp add: fun_eq_iff row_has_def st)
  have "tail_holds G scale n sz D start F {i. is_fed F i \<and> i \<notin> gr_pending g} F"
    using row by (auto simp: tail_holds_def hasF)
  then have t: "tail_holds G scale n sz D start F ({i. is_fed F i \<and> i \<notin> gr_pending g} \<union> fst ` set fs) (fold_tail G start fs F)"
  proof (rule tail_step[OF laws D, rotated -5])
    show "honest sz D fs" using h f by (auto simp: honest_def)
    show "fst ` set fs \<subseteq> {..<n}" using f pend s by (auto simp: is_fed_def)
  qed (use s f pend in auto)
  define F' where "F' = (if P = {} then (fold_tail G start fs F)\<lparr>rf_growth := None, rf_generation := rf_generation F + 1\<rparr>
    else (fold_tail G start fs F)\<lparr>rf_growth := Some (g\<lparr>gr_pending := P\<rparr>)\<rparr>)"
  have rows: "rf_rows F' = rf_rows (fold_tail G start fs F)" by (simp add: F'_def)
  have fields: "rf_slice_size F' = rf_slice_size F" "rf_constants F' = rf_constants F" "rf_fed F' = rf_fed F"
    "rf_fed_count F' = rf_fed_count F" "rf_exponents F' = rf_exponents F"
    by (simp_all add: F'_def fold_tail_def)
  have fed: "is_fed F' = is_fed F" by (simp add: fun_eq_iff is_fed_def fields)
  have len: "length (rf_rows F') = length (rf_rows F)" using t by (simp add: tail_holds_def rows)
  have cp: "pending_of F' = P" "complete_rows F' = (if P = {} then length (rf_rows F) else start)"
  proof -
    show "pending_of F' = P" by (simp add: pending_of_def F'_def)
    show "complete_rows F' = (if P = {} then length (rf_rows F) else start)"
      using len by (cases "P = {}") (simp_all add: complete_rows_def F'_def start_def)
  qed
  have P: "P = gr_pending g - fst ` set fs" using f by auto
  have sh: "fold_shape G n sz F'" using s pend f by (auto simp: fold_shape_def fed cp fields len)
  have "rf_rows F' ! r = sum_where sz n (row_has F' r) (term_of G scale n D (rf_exponents F' ! r))"
    if r: "r < length (rf_rows F')" for r
  proof (cases "r < start")
    case True
    then have "rf_rows F' ! r = rf_rows F ! r" using t by (simp add: tail_holds_def rows)
    moreover have "row_has F' r = row_has F r" using True pend by (auto simp: fun_eq_iff row_has_def fed cp st)
    ultimately show ?thesis using row r len by (simp add: fields)
  next
    case False
    have "rf_rows F' ! r = sum_where sz n (\<lambda>i. i \<in> {i. is_fed F i \<and> i \<notin> gr_pending g} \<union> fst ` set fs) (term_of G scale n D (rf_exponents F ! r))"
      using t False r len by (simp add: tail_holds_def rows)
    also have "\<dots> = sum_where sz n (row_has F' r) (term_of G scale n D (rf_exponents F ! r))"
      using False pend f by (intro sum_where_cong) (auto simp: row_has_def fed cp P)
    finally show ?thesis by (simp add: fields)
  qed
  then have "fold_inv G scale n sz D F'" using sh by (simp add: fold_inv_def rows_hold_def)
  then show ?thesis
    using True g tp by (cases "P = {}") (simp_all add: backfill_def F'_def start_def fold_tail_def Let_def)
qed

section \<open>Every history\<close>

text \<open>
  The states a fold can get into when the slices that are fed, backfilled and read from disk are those of the set.  A fed slice
  that is later found corrupt poisons the fold.
\<close>

inductive fold_reach :: "gf_ops \<Rightarrow> nat \<Rightarrow> nat \<Rightarrow> (nat \<Rightarrow> bytes) \<Rightarrow> repair_fold \<Rightarrow> bool"
  for G n sz D where
  start: "repair_fold_new G n sz exponents = Inr F \<Longrightarrow> fold_reach G n sz D F"
| limit: "fold_reach G n sz D F \<Longrightarrow> fold_reach G n sz D (with_row_limit rows F)"
| feed: "fold_reach G n sz D F \<Longrightarrow> honest sz D slices \<Longrightarrow> fold_reach G n sz D (snd (feed_batch G slices F))"
| missing: "fold_reach G n sz D F \<Longrightarrow> honest_reader sz D rd \<Longrightarrow> fold_reach G n sz D (snd (feed_missing G damaged rd F))"
| extend: "fold_reach G n sz D F \<Longrightarrow> honest_reader sz D rd \<Longrightarrow> fold_reach G n sz D (snd (extend_rows G exponents rd F))"
| grow: "fold_reach G n sz D F \<Longrightarrow> fold_reach G n sz D (snd (begin_growth exponents F))"
| fill: "fold_reach G n sz D F \<Longrightarrow> honest sz D slices \<Longrightarrow> fold_reach G n sz D (snd (backfill G generation slices F))"
| abandon: "fold_reach G n sz D F \<Longrightarrow> fold_reach G n sz D (abandon_growth F)"
| abandon_of: "fold_reach G n sz D F \<Longrightarrow> fold_reach G n sz D (abandon_growth_of generation F)"
| corrupt: "fold_reach G n sz D F \<Longrightarrow> fold_reach G n sz D (note_corrupt index F)"
| disk_fed: "fold_reach G n sz D F \<Longrightarrow> fold_reach G n sz D (note_disk_fed k F)"
| disk_read: "fold_reach G n sz D F \<Longrightarrow> fold_reach G n sz D (note_disk_read index k F)"

lemma new_inv:
  assumes "repair_fold_new G n sz exponents = Inr F"
  shows "fold_inv G scale n sz D F"
proof -
  have F: "rf_slice_size F = sz" "rf_constants F = gf_input_constants G n" "rf_exponents F = exponents"
    "rf_rows F = map (\<lambda>_. replicate sz 0) exponents" "rf_fed F = replicate n False" "rf_fed_count F = 0" "rf_growth F = None"
    using assms by (auto simp: repair_fold_new_def split: if_splits)
  have fed: "is_fed F = (\<lambda>_. False)" by (auto simp: fun_eq_iff is_fed_def F)
  then have "row_has F r = (\<lambda>_. False)" for r by (simp add: fun_eq_iff row_has_def)
  then show ?thesis
    by (simp add: fold_inv_def fold_shape_def rows_hold_def fed F complete_rows_def pending_of_def sum_where_none)
qed

lemma fold_reach_inv:
  assumes "fold_reach G n sz D F" "gf_laws sz G scale mul" "\<And>i. i < n \<Longrightarrow> length (D i) = sz"
  shows "fold_inv G scale n sz D F"
  using assms(1)
proof induction
  case (start exponents F)
  then show ?case by (rule new_inv)
next
  case (feed F slices)
  then show ?case using feed_keeps[OF assms(2,3), where F = F] by (simp add: fold_inv_def)
next
  case (missing F rd damaged)
  then show ?case by (intro feed_missing_keeps[OF assms(2,3)])
next
  case (extend F rd exponents)
  then show ?case by (intro extend_keeps[OF assms(2,3)])
next
  case (fill F slices generation)
  then show ?case by (intro backfill_keeps[OF assms(2,3)])
next
  case (disk_read F index k)
  have "fold_inv G scale n sz D (note_disk_read index k F) = fold_inv G scale n sz D F"
    by (intro fold_inv_cong) (simp_all add: note_disk_read_def Let_def)
  then show ?case using disk_read.IH by simp
qed (simp_all add: with_row_limit_def note_corrupt_def note_disk_fed_def abandon_growth_of_def begin_keeps abandon_keeps)

end
