(* ===== verification/Repair_Fold_Solve.thy ===== *)
theory Repair_Fold_Solve
  imports Repair_Fold_Proofs
begin

unbundle bit_operations_syntax

text \<open>The solve gives back the damaged slices, whatever happened to the fold before.\<close>

text \<open>What a recovery slice holds by the format: the shares of all slices of the set.\<close>

definition recovery_slice :: "gf_ops \<Rightarrow> (u16 \<Rightarrow> bytes \<Rightarrow> bytes) \<Rightarrow> nat \<Rightarrow> nat \<Rightarrow> (nat \<Rightarrow> bytes) \<Rightarrow> nat \<Rightarrow> bytes" where
  "recovery_slice G scale n sz D e = sum_where sz n (\<lambda>_. True) (term_of G scale n D e)"

text \<open>An invertible matrix times its inverse gives back a vector of slices.\<close>

lemma inverse_solves:
  assumes laws: "gf_laws sz G scale mul" and M: "length M = d" "\<forall>row \<in> set M. length row = d" "gf_invert G M = Some minv"
    and x: "\<And>k. k < d \<Longrightarrow> length (x k) = sz" and j: "j < d"
  shows "bsum sz (map (\<lambda>e. scale (minv ! j ! e) (bsum sz (map (\<lambda>k. scale (M ! e ! k) (x k)) [0..<d]))) [0..<d]) = x j"
proof -
  have len: "length (scale c (x k)) = sz" if "k < d" for c k by (rule gf_lawsD(1)[OF laws]) (use x that in simp)
  have "scale (minv ! j ! e) (bsum sz (map (\<lambda>k. scale (M ! e ! k) (x k)) [0..<d])) =
      bsum sz (map (\<lambda>k. scale (mul (minv ! j ! e) (M ! e ! k)) (x k)) [0..<d])" for e
  proof -
    have "scale (minv ! j ! e) (bsum sz (map (\<lambda>k. scale (M ! e ! k) (x k)) [0..<d])) =
        bsum sz (map (scale (minv ! j ! e)) (map (\<lambda>k. scale (M ! e ! k) (x k)) [0..<d]))"
      by (rule scale_bsum[OF laws]) (auto simp: len)
    also have "\<dots> = bsum sz (map (\<lambda>k. scale (mul (minv ! j ! e) (M ! e ! k)) (x k)) [0..<d])"
      by (rule arg_cong[where f = "bsum sz"]) (auto simp: gf_lawsD(4)[OF laws] x)
    finally show ?thesis .
  qed
  then have "bsum sz (map (\<lambda>e. scale (minv ! j ! e) (bsum sz (map (\<lambda>k. scale (M ! e ! k) (x k)) [0..<d]))) [0..<d]) =
      bsum sz (map (\<lambda>e. bsum sz (map (\<lambda>k. scale (mul (minv ! j ! e) (M ! e ! k)) (x k)) [0..<d])) [0..<d])" by simp
  also have "\<dots> = bsum sz (map (\<lambda>k. bsum sz (map (\<lambda>e. scale (mul (minv ! j ! e) (M ! e ! k)) (x k)) [0..<d])) [0..<d])"
    by (rule bsum_swap) (use len in simp)
  also have "\<dots> = bsum sz (map (\<lambda>k. if j = k then x j else replicate sz 0) [0..<d])"
  proof (rule arg_cong[where f = "bsum sz"], rule map_cong[OF refl])
    fix k assume "k \<in> set [0..<d]"
    then have k: "k < d" by simp
    have "bsum sz (map (\<lambda>e. scale (mul (minv ! j ! e) (M ! e ! k)) (x k)) [0..<d]) =
        scale (csum (map (\<lambda>e. mul (minv ! j ! e) (M ! e ! k)) [0..<d])) (x k)"
      by (simp add: scale_csum[OF laws x[OF k]] comp_def)
    also have "csum (map (\<lambda>e. mul (minv ! j ! e) (M ! e ! k)) [0..<d]) = (if j = k then 1 else 0)"
      using gf_lawsD(7)[OF laws _ M(3), of j k] M(1,2) j k by simp
    finally show "bsum sz (map (\<lambda>e. scale (mul (minv ! j ! e) (M ! e ! k)) (x k)) [0..<d]) = (if j = k then x j else replicate sz 0)"
      using x[OF k] by (simp add: gf_lawsD(5)[OF laws] scale_zero[OF laws])
  qed
  also have "\<dots> = x j" by (rule bsum_single) (use j x in auto)
  finally show ?thesis .
qed

text \<open>A matrix with two equal columns has no inverse.\<close>

lemma invertible_distinct:
  assumes laws: "gf_laws sz G scale mul" and M: "M = map (\<lambda>r. map (f r) js) U" "length U = length js" "gf_invert G M = Some minv"
  shows "distinct js"
proof (rule ccontr)
  assume "\<not> distinct js"
  then obtain j k where jk: "j < length js" "k < length js" "j \<noteq> k" "js ! j = js ! k" by (auto simp: distinct_conv_nth)
  have eq: "map (\<lambda>e. mul (minv ! j ! e) (M ! e ! j)) [0..<length M] = map (\<lambda>e. mul (minv ! j ! e) (M ! e ! k)) [0..<length M]"
    using jk by (simp add: M(1))
  have sq: "\<forall>row \<in> set M. length row = length M" "length M = length js" by (simp_all add: M(1,2))
  have one: "csum (map (\<lambda>e. mul (minv ! j ! e) (M ! e ! j)) [0..<length M]) = 1"
    using gf_lawsD(7)[OF laws sq(1) M(3), of j j] jk sq(2) by simp
  have zero: "csum (map (\<lambda>e. mul (minv ! j ! e) (M ! e ! k)) [0..<length M]) = 0"
    using gf_lawsD(7)[OF laws sq(1) M(3), of j k] jk sq(2) by simp
  show False using trans[OF sym[OF one[unfolded eq]] zero] by simp
qed

text \<open>One repaired slice.\<close>

lemma solved_slice:
  assumes laws: "gf_laws sz G scale mul" and D: "\<And>i. i < n \<Longrightarrow> length (D i) = sz"
    and inv: "fold_inv G scale n sz D F"
    and dam: "distinct damaged" "\<And>i. i < n \<Longrightarrow> is_fed F i \<longleftrightarrow> i \<notin> set damaged" "set damaged \<subseteq> {..<n}"
    and U: "length U = length damaged" "\<And>r. r \<in> set U \<Longrightarrow> r < complete_rows F \<and> rec r = recovery_slice G scale n sz D (rf_exponents F ! r)"
    and minv: "gf_invert G (decode_matrix G F U damaged) = Some minv" and j: "j < length damaged"
  shows "gf_mul_add_multi G (gf_mul_add_multi G (replicate sz 0) (map (\<lambda>r. rf_rows F ! r) U) (map (\<lambda>e. minv ! j ! e) [0..<length damaged]))
      (map rec U) (map (\<lambda>e. minv ! j ! e) [0..<length damaged]) = D (damaged ! j)"
proof -
  define d where "d = length damaged"
  define M where "M = decode_matrix G F U damaged"
  define row where "row e = rf_rows F ! (U ! e)" for e
  define rc where "rc e = rec (U ! e)" for e
  note s = inv[unfolded fold_inv_def fold_shape_def]
  have t: "length (term_of G scale n D x i) = sz" if "i < n" for x i
    using that D by (simp add: term_of_def gf_lawsD(1)[OF laws])
  have lt: "U ! e < length (rf_rows F)" "U ! e < complete_rows F" if "e < d" for e
    using U(2)[of "U ! e"] U(1) that s by (simp_all add: d_def)
  have rc: "rc e = sum_where sz n (\<lambda>_. True) (term_of G scale n D (rf_exponents F ! (U ! e)))" if "e < d" for e
    using U(2)[of "U ! e"] U(1) that by (simp add: rc_def d_def recovery_slice_def)
  have row: "row e = sum_where sz n (is_fed F) (term_of G scale n D (rf_exponents F ! (U ! e)))" if "e < d" for e
  proof -
    have "row_has F (U ! e) = is_fed F" using lt(2)[OF that] by (simp add: fun_eq_iff row_has_def)
    then show ?thesis using s lt(1)[OF that] by (simp add: rows_hold_def row_def)
  qed
  have len: "length (row e) = sz" "length (rc e) = sz" if "e < d" for e
    using row[OF that] rc[OF that] t by simp_all
  have lenS: "length (scale c (row e)) = sz" "length (scale c (rc e)) = sz" if "e < d" for c e
    by (rule gf_lawsD(1)[OF laws], rule len[OF that])+
  have maps: "map (\<lambda>r. rf_rows F ! r) U = map row [0..<d]" "map rec U = map rc [0..<d]"
    using U(1) by (auto simp: row_def rc_def d_def intro!: nth_equalityI)
  have w: "bxor (row e) (rc e) = bsum sz (map (\<lambda>k. scale (M ! e ! k) (D (damaged ! k))) [0..<d])" if "e < d" for e
  proof -
    let ?t = "term_of G scale n D (rf_exponents F ! (U ! e))"
    have "bxor (row e) (rc e) = sum_where sz n (\<lambda>i. is_fed F i \<noteq> True) ?t"
      unfolding row[OF that] rc[OF that] by (rule sum_where_xor) (rule t)
    also have "\<dots> = bsum sz (map ?t damaged)" using dam t by (intro sum_where_list) auto
    also have "map ?t damaged = map (\<lambda>k. scale (M ! e ! k) (D (damaged ! k))) [0..<d]"
      using that U(1) s by (intro nth_equalityI) (simp_all add: d_def M_def decode_matrix_def term_of_def)
    finally show ?thesis .
  qed
  have zip: "map2 scale (map (\<lambda>e. minv ! j ! e) [0..<d]) (map f [0..<d]) = map (\<lambda>e. scale (minv ! j ! e) (f e)) [0..<d]" for f
    by (auto intro!: nth_equalityI)
  have a: "gf_mul_add_multi G x (map f [0..<d]) (map (\<lambda>e. minv ! j ! e) [0..<d]) =
      bxor x (bsum sz (map (\<lambda>e. scale (minv ! j ! e) (f e)) [0..<d]))"
    if "length x = sz" "\<And>e. e < d \<Longrightarrow> length (f e) = sz" for x f
    unfolding zip[symmetric] by (rule mul_add_sum[OF laws that(1)]) (use that(2) in auto)
  have lb: "length (bsum sz (map (\<lambda>e. scale (minv ! j ! e) (row e)) [0..<d])) = sz" by (rule length_bsum) (auto simp: lenS)
  have "gf_mul_add_multi G (gf_mul_add_multi G (replicate sz 0) (map row [0..<d]) (map (\<lambda>e. minv ! j ! e) [0..<d]))
      (map rc [0..<d]) (map (\<lambda>e. minv ! j ! e) [0..<d]) =
    bxor (bsum sz (map (\<lambda>e. scale (minv ! j ! e) (row e)) [0..<d])) (bsum sz (map (\<lambda>e. scale (minv ! j ! e) (rc e)) [0..<d]))"
    by (simp add: a len lb)
  also have "\<dots> = bsum sz (map (\<lambda>e. bxor (scale (minv ! j ! e) (row e)) (scale (minv ! j ! e) (rc e))) [0..<d])"
    by (rule bsum_split[symmetric]) (auto simp: lenS)
  also have "\<dots> = bsum sz (map (\<lambda>e. scale (minv ! j ! e) (bsum sz (map (\<lambda>k. scale (M ! e ! k) (D (damaged ! k))) [0..<d]))) [0..<d])"
    by (rule arg_cong[where f = "bsum sz"]) (auto simp: w[symmetric] gf_lawsD(2)[OF laws] len)
  also have "\<dots> = D (damaged ! j)"
    by (rule inverse_solves[OF laws, where x = "\<lambda>k. D (damaged ! k)" and d = d and M = M])
      (use U(1) minv j dam(3) in \<open>auto simp: M_def decode_matrix_def d_def subset_iff intro!: D\<close>)
  finally show ?thesis unfolding maps d_def[symmetric] .
qed

text \<open>When the solve returns slices, the fold has every slice but the damaged ones.\<close>

lemma solve_result:
  assumes laws: "gf_laws sz G scale mul" and inv: "fold_inv G scale n sz D F" and r: "solve G F damaged recovery = Inr repaired"
  obtains "damaged = []" "repaired = []"
  | minv where "distinct damaged" "\<And>i. i < n \<Longrightarrow> is_fed F i \<longleftrightarrow> i \<notin> set damaged" "set damaged \<subseteq> {..<n}"
    "length (usable_rows F recovery (length damaged)) = length damaged"
    "gf_invert G (decode_matrix G F (usable_rows F recovery (length damaged)) damaged) = Some minv"
    "length repaired = length damaged"
    "\<And>j. j < length damaged \<Longrightarrow> repaired ! j = (damaged ! j,
      gf_mul_add_multi G (gf_mul_add_multi G (replicate sz 0) (map (\<lambda>r. rf_rows F ! r) (usable_rows F recovery (length damaged)))
          (map (\<lambda>e. minv ! j ! e) [0..<length damaged]))
        (map (\<lambda>r. the (recovery (rf_exponents F ! r))) (usable_rows F recovery (length damaged)))
        (map (\<lambda>e. minv ! j ! e) [0..<length damaged]))"
proof (cases "damaged = []")
  case True
  then have "repaired = []" using r by (auto simp: solve_def Let_def split: if_splits)
  then show ?thesis using True that(1) by blast
next
  case False
  define U where "U = usable_rows F recovery (length damaged)"
  note s = inv[unfolded fold_inv_def fold_shape_def]
  have nf: "\<not> list_ex (is_fed F) damaged" and out: "find (\<lambda>j. length (rf_fed F) \<le> j) damaged = None"
    and cnt: "rf_fed_count F + length damaged = n" and big: "\<not> length U < length damaged"
    using r False s by (auto simp: solve_def Let_def U_def split: if_splits option.splits)
  have sub: "set damaged \<subseteq> {..<n}" using out s by (auto simp: find_None_iff not_le)
  have len: "length U = length damaged" using big by (simp add: U_def usable_rows_def)
  obtain minv where m: "gf_invert G (decode_matrix G F U damaged) = Some minv"
    and rep: "repaired = map2 (\<lambda>j coeffs. (j, gf_mul_add_multi G (gf_mul_add_multi G (replicate sz 0) (map (\<lambda>r. rf_rows F ! r) U) coeffs)
        (map (\<lambda>r. the (recovery (rf_exponents F ! r))) U) coeffs))
      damaged (map (\<lambda>j. map (\<lambda>e. minv ! j ! e) [0..<length damaged]) [0..<length damaged])"
    using r False s nf out cnt big by (auto simp: solve_def Let_def U_def[symmetric] split: option.splits if_splits)
  have dist: "distinct damaged"
    by (rule invertible_distinct[OF laws _ _ m, where U = U and f = "\<lambda>r j. gf_pow G (rf_constants F ! j) (rf_exponents F ! r)"]) (simp_all add: decode_matrix_def len)
  have fin: "{i. is_fed F i} \<subseteq> {..<n}" using s by (auto simp: is_fed_def)
  have disj: "{i. is_fed F i} \<inter> set damaged = {}" using nf by (auto simp: list_ex_iff)
  have "card ({i. is_fed F i} \<union> set damaged) = n"
    using s cnt dist disj finite_subset[OF fin] by (simp add: card_Un_disjoint distinct_card)
  then have "{i. is_fed F i} \<union> set damaged = {..<n}" using fin sub by (intro card_subset_eq) auto
  then have fed: "\<And>i. i < n \<Longrightarrow> is_fed F i \<longleftrightarrow> i \<notin> set damaged" using disj by blast
  show ?thesis
    by (rule that(2)[OF dist fed sub len[unfolded U_def] m[unfolded U_def]]) (simp_all add: rep U_def)
qed

text \<open>C15. Repair in flight gives back the original bytes.  Take a fold after any history: slices fed in any order and any number of
  times, from the network or from disk, short ones padded, failing reads, rows added all at once or while slices keep arriving,
  backfilled in batches or abandoned.  The slices that went in are those of the set and the recovery data are its recovery
  slices.  Then whatever the solve returns is exactly the damaged slices in the order asked for; and it does return
  them when the fold is not poisoned, every other slice was fed, as many complete rows as damaged slices have recovery data, and their
  matrix has an inverse.  (The field is a parameter, with its laws on vectors of the slice size.)\<close>

theorem repair_recovers_damaged_slices:
  assumes laws: "gf_laws sz G scale mul" and D: "\<And>i. i < n \<Longrightarrow> length (D i) = sz"
    and reach: "fold_reach G n sz D F"
    and rec: "\<And>e x. recovery e = Some x \<Longrightarrow> length x = sz \<Longrightarrow> x = recovery_slice G scale n sz D e"
  shows "(solve G F damaged recovery = Inr repaired \<longrightarrow> repaired = map (\<lambda>j. (j, D j)) damaged) \<and>
    (\<not> rf_poisoned F \<and> distinct damaged \<and> set damaged = {i. i < n \<and> \<not> is_fed F i} \<and>
      length (usable_rows F recovery (length damaged)) = length damaged \<and>
      gf_invert G (decode_matrix G F (usable_rows F recovery (length damaged)) damaged) \<noteq> None
      \<longrightarrow> solve G F damaged recovery = Inr (map (\<lambda>j. (j, D j)) damaged))"
proof -
  have inv: "fold_inv G scale n sz D F" by (rule fold_reach_inv[OF reach laws D])
  note s = inv[unfolded fold_inv_def fold_shape_def]
  have sound: "rs = map (\<lambda>j. (j, D j)) damaged" if r: "solve G F damaged recovery = Inr rs" for rs
  proof (rule solve_result[OF laws inv r])
    fix minv
    let ?U = "usable_rows F recovery (length damaged)"
    assume h: "distinct damaged" "\<And>i. i < n \<Longrightarrow> is_fed F i \<longleftrightarrow> i \<notin> set damaged" "set damaged \<subseteq> {..<n}" "length ?U = length damaged"
      "gf_invert G (decode_matrix G F ?U damaged) = Some minv"
    have U: "r < complete_rows F \<and> the (recovery (rf_exponents F ! r)) = recovery_slice G scale n sz D (rf_exponents F ! r)"
      if "r \<in> set ?U" for r
    proof -
      have "r \<in> set (filter (\<lambda>r. case recovery (rf_exponents F ! r) of Some x \<Rightarrow> length x = rf_slice_size F | None \<Rightarrow> False)
          [0..<complete_rows F])"
        using that unfolding usable_rows_def by (rule in_set_takeD)
      then obtain x where x: "recovery (rf_exponents F ! r) = Some x" "length x = sz" "r < complete_rows F"
        using s by (auto split: option.splits)
      then show ?thesis using rec[OF x(1,2)] by simp
    qed
    assume "length rs = length damaged" and
      "\<And>j. j < length damaged \<Longrightarrow> rs ! j = (damaged ! j,
        gf_mul_add_multi G (gf_mul_add_multi G (replicate sz 0) (map (\<lambda>r. rf_rows F ! r) ?U) (map (\<lambda>e. minv ! j ! e) [0..<length damaged]))
          (map (\<lambda>r. the (recovery (rf_exponents F ! r))) ?U) (map (\<lambda>e. minv ! j ! e) [0..<length damaged]))"
    then show ?thesis
      by (intro nth_equalityI) (simp_all add: solved_slice[OF laws D inv h(1,2,3,4) U h(5)])
  qed simp
  moreover have "\<exists>rs. solve G F damaged recovery = Inr rs"
    if h: "\<not> rf_poisoned F" "distinct damaged" "set damaged = {i. i < n \<and> \<not> is_fed F i}"
      "length (usable_rows F recovery (length damaged)) = length damaged"
      "gf_invert G (decode_matrix G F (usable_rows F recovery (length damaged)) damaged) \<noteq> None"
  proof -
    have fin: "{i. is_fed F i} \<subseteq> {..<n}" using s by (auto simp: is_fed_def)
    have "card {i. is_fed F i} + card (set damaged) = card ({i. is_fed F i} \<union> set damaged)"
      using h(3) finite_subset[OF fin] by (subst card_Un_disjoint) auto
    also have "{i. is_fed F i} \<union> set damaged = {..<n}" using h(3) fin by auto
    finally have "rf_fed_count F + length damaged = length (rf_fed F)" using s h(2) by (simp add: distinct_card)
    moreover have "find (\<lambda>j. length (rf_fed F) \<le> j) damaged = None" using h(3) s by (auto simp: find_None_iff)
    moreover have "\<not> list_ex (is_fed F) damaged" using h(3) by (auto simp: list_ex_iff)
    ultimately show ?thesis using h by (auto simp: solve_def Let_def)
  qed
  ultimately show ?thesis by blast
qed

text \<open>
  A set of three slices over the field of two elements: one slice is fed short, a row is added and backfilled, the
  other two slices are repaired.
\<close>

definition bit_scale :: "u16 \<Rightarrow> bytes \<Rightarrow> bytes" where
  "bit_scale c x = (if bit c 0 then x else replicate (length x) 0)"

definition bit_field :: gf_ops where
  "bit_field =
    \<lparr>gf_input_constants = (\<lambda>n. map (\<lambda>i. of_nat (i + 1)) [0..<n]), gf_pow = (\<lambda>c e. drop_bit e c AND 1),
     gf_mul_add_multi = (\<lambda>row srcs coeffs. foldl bxor row (map2 bit_scale coeffs srcs)),
     gf_invert = (\<lambda>M. if M = [[1, 1], [0, 1]] then Some [[1, 1], [0, 1]] else None)\<rparr>"

lemma bit_field_laws: "gf_laws sz bit_field bit_scale (AND)"
  unfolding gf_laws_def
proof (intro conjI allI impI)
  fix M minv and j k :: nat
  assume "gf_invert bit_field M = Some minv"
  then have M: "M = [[1, 1], [0, 1]]" "minv = [[1, 1], [0, 1]]" by (auto simp: bit_field_def split: if_splits)
  assume "j < length M" "k < length M"
  then have "j \<in> {0, 1}" "k \<in> {0, 1}" by (auto simp: M)
  then show "csum (map (\<lambda>e. minv ! j ! e AND M ! e ! k) [0..<length M]) = (if j = k then 1 else 0)"
    by (auto simp: M csum_def upt_rec)
next
  fix row coeffs and srcs :: "bytes list"
  show "gf_mul_add_multi bit_field row srcs coeffs = foldl bxor row (map2 bit_scale coeffs srcs)" by (simp add: bit_field_def)
qed (auto simp: bit_scale_def bit_xor_iff bit_and_iff bxor_self)

definition demo_slice :: "nat \<Rightarrow> bytes" where
  "demo_slice i = [[1, 2], [3, 0], [7, 8]] ! i"

definition demo_empty :: repair_fold where
  "demo_empty =
    \<lparr>rf_slice_size = 2, rf_constants = [1, 2, 3], rf_exponents = [0], rf_rows = [[0, 0]], rf_fed = [False, False, False],
     rf_fed_count = 0, rf_poisoned = False, rf_growth = None, rf_generation = 0, rf_disk_fed = 0,
     rf_disk_read = [False, False, False], rf_disk_reads = 0, rf_disk_rereads = 0, rf_disk_read_bytes = 0,
     rf_max_rows = max_rows 2\<rparr>"

definition demo_fed :: repair_fold where
  "demo_fed = demo_empty\<lparr>rf_fed := [False, True, False], rf_fed_count := 1\<rparr>"

definition demo_grown :: repair_fold where
  "demo_grown = demo_fed\<lparr>rf_exponents := [0, 1], rf_rows := [[0, 0], [0, 0]], rf_growth := Some \<lparr>gr_start = 1, gr_pending = {1}\<rparr>\<rparr>"

definition demo_fold :: repair_fold where
  "demo_fold = demo_fed\<lparr>rf_exponents := [0, 1], rf_rows := [[0, 0], [3, 0]], rf_generation := 1\<rparr>"

definition demo_recovery :: "nat \<rightharpoonup> bytes" where
  "demo_recovery = [0 \<mapsto> [6, 10], 1 \<mapsto> [4, 8]]"

lemmas demo_defs = demo_empty_def demo_fed_def demo_grown_def demo_fold_def bit_field_def

lemma demo_fold_reached: "fold_reach bit_field 3 2 demo_slice demo_fold"
proof -
  have h: "honest 2 demo_slice [(1, [3])]" by (simp add: honest_def pad_slice_def demo_slice_def)
  have z: "replicate 2 (0 :: 8 word) = [0, 0]" "replicate 3 False = [False, False, False]"
    by (simp_all add: numeral_2_eq_2 numeral_3_eq_3)
  then have "repair_fold_new bit_field 3 2 [0] = Inr demo_empty"
    by (simp add: repair_fold_new_def demo_defs max_rows_def MAX_FOLD_SLICE_SIZE_def MAX_REPAIR_ROW_BYTES_def upt_rec)
  moreover have "snd (feed_batch bit_field [(1, [3])] demo_empty) = demo_fed"
    by (simp add: feed_batch_def fed_indices_def demo_defs fold_into_def bit_scale_def bxor_def upt_rec numeral_2_eq_2)
  moreover have "snd (begin_growth [0, 1] demo_fed) = demo_grown"
    by (simp add: begin_growth_def fed_indices_def demo_defs add_rows_def row_limit_def max_rows_def MAX_FOLD_SLICE_SIZE_def
        MAX_REPAIR_ROW_BYTES_def upt_rec Let_def z)
  moreover have "snd (backfill bit_field 0 [(1, [3])] demo_grown) = demo_fold"
    by (simp add: backfill_def demo_defs fold_tail_def fold_into_def bit_scale_def bxor_def pad_slice_def Let_def)
  ultimately show ?thesis
    using fold_reach.fill[OF fold_reach.grow[OF fold_reach.feed[OF fold_reach.start h]] h] by metis
qed

theorem repair_recovers_damaged_slices_witness:
  "solve bit_field demo_fold [0, 2] demo_recovery = Inr [(0, [1, 2]), (2, [7, 8])]"
proof -
  have l: "length (demo_slice i) = 2" if "i < 3" for i
    using that by (auto simp: demo_slice_def less_Suc_eq numeral_3_eq_3)
  have r: "x = recovery_slice bit_field bit_scale 3 2 demo_slice e" if "demo_recovery e = Some x" for e x
  proof -
    have "e = 0 \<and> x = [6, 10] \<or> e = 1 \<and> x = [4, 8]" using that by (auto simp: demo_recovery_def split: if_splits)
    moreover have "recovery_slice bit_field bit_scale 3 2 demo_slice 0 = [6, 10]" by code_simp
    moreover have "recovery_slice bit_field bit_scale 3 2 demo_slice 1 = [4, 8]" by code_simp
    ultimately show ?thesis by auto
  qed
  have u: "usable_rows demo_fold demo_recovery (length [0, 2 :: nat]) = [0, 1]"
    by (simp add: usable_rows_def complete_rows_def demo_defs demo_recovery_def upt_rec)
  have f: "\<not> is_fed demo_fold 0" "is_fed demo_fold 1" "\<not> is_fed demo_fold 2"
    by (simp_all add: is_fed_def demo_defs)
  have "i < 3 \<and> \<not> is_fed demo_fold i \<longleftrightarrow> i = 0 \<or> i = 2" for i
    using f by (auto simp: less_Suc_eq numeral_3_eq_3 numeral_2_eq_2)
  then have "set [0, 2] = {i. i < 3 \<and> \<not> is_fed demo_fold i}" by auto
  moreover have "\<not> rf_poisoned demo_fold" "distinct [0, 2 :: nat]" by (simp_all add: demo_defs)
  moreover have "length (usable_rows demo_fold demo_recovery (length [0, 2 :: nat])) = length [0, 2 :: nat]"
    unfolding u by simp
  moreover have "gf_invert bit_field (decode_matrix bit_field demo_fold (usable_rows demo_fold demo_recovery (length [0, 2 :: nat])) [0, 2]) \<noteq> None"
    unfolding u by (simp add: decode_matrix_def demo_defs)
  ultimately have "solve bit_field demo_fold [0, 2] demo_recovery = Inr (map (\<lambda>j. (j, demo_slice j)) [0, 2])"
    using repair_recovers_damaged_slices[OF bit_field_laws l demo_fold_reached r, where damaged = "[0, 2]"] by blast
  then show ?thesis by (simp add: demo_slice_def)
qed

end
