(* ===== verification/Conn_Budget.thy ===== *)
theory Conn_Budget
  imports Prelude
begin

text \<open>
  The per-server connection budget (\<open>crates/nzb-nntp/src/budget.rs\<close>): permits handed out by
  tier under two floors.  A waiter is the identity of its oneshot sender; whether its
  receiver has been dropped is decided by the environment: \<open>clsd\<close> is what
  \<open>tx.is_closed()\<close> answers when the queues are pruned, \<open>gone\<close> what a later \<open>tx.send\<close> finds.
\<close>

datatype budget_tier = Playback | Import | Download | Repair

definition tier_all :: "budget_tier list" where
  "tier_all = [Playback, Import, Download, Repair]"

fun tier_idx :: "budget_tier \<Rightarrow> nat" where
  "tier_idx Playback = 0"
| "tier_idx Import = 1"
| "tier_idx Download = 2"
| "tier_idx Repair = 3"

record budget_policy =
  playback_reserve_pct :: u8
  repair_reserve_pct :: u8

definition DEFAULT_PLAYBACK_RESERVE_PCT :: u8 where
  "DEFAULT_PLAYBACK_RESERVE_PCT = 25"

definition DEFAULT_REPAIR_RESERVE_PCT :: u8 where
  "DEFAULT_REPAIR_RESERVE_PCT = 25"

definition default_budget_policy :: budget_policy where
  "default_budget_policy =
    \<lparr>playback_reserve_pct = 0, repair_reserve_pct = DEFAULT_REPAIR_RESERVE_PCT\<rparr>"

definition div_ceil :: "nat \<Rightarrow> nat \<Rightarrow> nat" where
  "div_ceil a b = (a + b - 1) div b"

definition policy_floors :: "budget_policy \<Rightarrow> nat \<Rightarrow> nat \<times> nat" where
  "policy_floors pol tot =
    (if tot < 2 then (0, 0)
     else
       let mx = tot - 1;
           pct = (\<lambda>p :: u8. div_ceil (tot * min (unat p) 100) 100);
           playback = min (pct (playback_reserve_pct pol)) mx;
           repair = min (pct (repair_reserve_pct pol)) (mx - playback)
       in (playback, repair))"

record budget_state =
  bs_total :: nat
  bs_playback_floor :: nat
  bs_repair_floor :: nat
  bs_held :: "budget_tier \<Rightarrow> nat"
  bs_waiters :: "budget_tier \<Rightarrow> nat list"

definition held_total :: "budget_state \<Rightarrow> nat" where
  "held_total st = sum_list (map (bs_held st) tier_all)"

definition bs_free :: "budget_state \<Rightarrow> nat" where
  "bs_free st = bs_total st - held_total st"

definition waiting :: "budget_state \<Rightarrow> budget_tier \<Rightarrow> bool" where
  "waiting st t \<longleftrightarrow> bs_waiters st t \<noteq> []"

definition unmet_playback :: "budget_state \<Rightarrow> nat" where
  "unmet_playback st = bs_playback_floor st - (bs_held st Playback + bs_held st Import)"

definition prune :: "(nat \<Rightarrow> bool) \<Rightarrow> budget_state \<Rightarrow> budget_state" where
  "prune clsd st = st\<lparr>bs_waiters := (\<lambda>t. filter (\<lambda>tx. \<not> clsd tx) (bs_waiters st t))\<rparr>"

definition unmet_repair :: "budget_state \<Rightarrow> nat" where
  "unmet_repair st =
    (if 0 < bs_held st Repair \<or> waiting st Repair then bs_repair_floor st - bs_held st Repair else 0)"

definition next_grantable :: "budget_state \<Rightarrow> budget_tier option" where
  "next_grantable st =
    (let free = bs_free st; up = unmet_playback st in
     if free = 0 then None
     else if waiting st Playback then Some Playback
     else if waiting st Import \<and> unmet_repair st < free then Some Import
     else if waiting st Repair \<and> bs_held st Repair < bs_repair_floor st \<and> up < free then Some Repair
     else if waiting st Download \<and> up + unmet_repair st < free then Some Download
     else if waiting st Repair \<and> up < free then Some Repair
     else None)"

text \<open>The loop of \<open>dispatch\<close>; a grant is a permit sent to a waiter that is still there.\<close>

type_synonym grant = "budget_tier \<times> nat"

definition add_held :: "budget_tier \<Rightarrow> budget_state \<Rightarrow> budget_state" where
  "add_held t st = st\<lparr>bs_held := (bs_held st)(t := Suc (bs_held st t))\<rparr>"

definition pop_waiter :: "budget_tier \<Rightarrow> budget_state \<Rightarrow> budget_state" where
  "pop_waiter t st = st\<lparr>bs_waiters := (bs_waiters st)(t := tl (bs_waiters st t))\<rparr>"

definition waiter_count :: "budget_state \<Rightarrow> nat" where
  "waiter_count st = sum_list (map (\<lambda>t. length (bs_waiters st t)) tier_all)"

function grant_loop :: "(nat \<Rightarrow> bool) \<Rightarrow> budget_state \<Rightarrow> grant list \<Rightarrow> budget_state \<times> grant list" where
  "grant_loop gone st gs =
    (case next_grantable st of
       None \<Rightarrow> (st, gs)
     | Some t \<Rightarrow>
         (case bs_waiters st t of
            [] \<Rightarrow> (st, gs)
          | tx # _ \<Rightarrow>
              if gone tx then grant_loop gone (pop_waiter t st) gs
              else grant_loop gone (add_held t (pop_waiter t st)) (gs @ [(t, tx)])))"
  by pat_completeness auto

lemma waiter_count_pop:
  "bs_waiters st t = tx # rest \<Longrightarrow> waiter_count (pop_waiter t st) < waiter_count st"
  "waiter_count (add_held t st) = waiter_count st"
  by (cases t; simp add: waiter_count_def pop_waiter_def tier_all_def)
    (simp add: waiter_count_def add_held_def)

termination grant_loop
  by (relation "measure (\<lambda>(gone, st, gs). waiter_count st)") (auto simp: waiter_count_pop)

declare grant_loop.simps [simp del]

definition budget_dispatch ::
  "(nat \<Rightarrow> bool) \<Rightarrow> (nat \<Rightarrow> bool) \<Rightarrow> budget_state \<Rightarrow> budget_state \<times> grant list" where
  "budget_dispatch clsd gone st = grant_loop gone (prune clsd st) []"

section \<open>The shared budget\<close>

record server_budget =
  sb_state :: budget_state
  sb_contended :: nat
  sb_pools :: nat

definition budget_new :: "nat \<Rightarrow> budget_policy \<Rightarrow> server_budget" where
  "budget_new tot pol =
    (case policy_floors pol tot of (pf, rf) \<Rightarrow>
      \<lparr>sb_state = \<lparr>bs_total = tot, bs_playback_floor = pf, bs_repair_floor = rf,
                   bs_held = (\<lambda>_. 0), bs_waiters = (\<lambda>_. [])\<rparr>,
       sb_contended = 0, sb_pools = 0\<rparr>)"

text \<open>One round of \<open>acquire\<close> up to the await: enqueue, dispatch, wake idle holders if unserved.\<close>

definition budget_acquire ::
  "(nat \<Rightarrow> bool) \<Rightarrow> (nat \<Rightarrow> bool) \<Rightarrow> budget_tier \<Rightarrow> nat \<Rightarrow> server_budget \<Rightarrow> server_budget \<times> grant list" where
  "budget_acquire clsd gone t tx b =
    (let st0 = sb_state b;
         st1 = st0\<lparr>bs_waiters := (bs_waiters st0)(t := bs_waiters st0 t @ [tx])\<rparr>
     in case budget_dispatch clsd gone st1 of (st2, gs) \<Rightarrow>
       (b\<lparr>sb_state := st2,
          sb_contended := (if waiting st2 t then Suc (sb_contended b) else sb_contended b)\<rparr>, gs))"

definition budget_set_total ::
  "(nat \<Rightarrow> bool) \<Rightarrow> (nat \<Rightarrow> bool) \<Rightarrow> nat \<Rightarrow> budget_policy \<Rightarrow> server_budget \<Rightarrow> server_budget \<times> grant list" where
  "budget_set_total clsd gone tot pol b =
    (case policy_floors pol tot of (pf, rf) \<Rightarrow>
      (case budget_dispatch clsd gone
              ((sb_state b)\<lparr>bs_total := tot, bs_playback_floor := pf, bs_repair_floor := rf\<rparr>) of
         (st, gs) \<Rightarrow> (b\<lparr>sb_state := st\<rparr>, gs)))"

definition others_waiting :: "(nat \<Rightarrow> bool) \<Rightarrow> budget_tier \<Rightarrow> server_budget \<Rightarrow> bool" where
  "others_waiting clsd t b =
    list_ex (\<lambda>u. list_ex (\<lambda>tx. \<not> clsd tx) (bs_waiters (sb_state b) u)) (filter (\<lambda>u. u \<noteq> t) tier_all)"

definition sub_held :: "budget_tier \<Rightarrow> budget_state \<Rightarrow> budget_state" where
  "sub_held t st = st\<lparr>bs_held := (bs_held st)(t := bs_held st t - 1)\<rparr>"

definition wanted_elsewhere :: "(nat \<Rightarrow> bool) \<Rightarrow> budget_tier \<Rightarrow> server_budget \<Rightarrow> bool \<times> server_budget" where
  "wanted_elsewhere clsd t b =
    (if bs_held (sb_state b) t = 0 then (False, b)
     else
       let st = prune clsd (sb_state b) in
       (case next_grantable (sub_held t st) of None \<Rightarrow> False | Some u \<Rightarrow> u \<noteq> t,
        b\<lparr>sb_state := add_held t (sub_held t st)\<rparr>))"

definition budget_release ::
  "(nat \<Rightarrow> bool) \<Rightarrow> (nat \<Rightarrow> bool) \<Rightarrow> budget_tier \<Rightarrow> server_budget \<Rightarrow> server_budget \<times> grant list" where
  "budget_release clsd gone t b =
    (case budget_dispatch clsd gone (sub_held t (sb_state b)) of (st, gs) \<Rightarrow> (b\<lparr>sb_state := st\<rparr>, gs))"

definition budget_has_pools :: "server_budget \<Rightarrow> bool" where
  "budget_has_pools b \<longleftrightarrow> 0 < sb_pools b"

definition attach_pool :: "server_budget \<Rightarrow> server_budget" where
  "attach_pool b = b\<lparr>sb_pools := Suc (sb_pools b)\<rparr>"

definition detach_pool :: "server_budget \<Rightarrow> server_budget" where
  "detach_pool b = b\<lparr>sb_pools := sb_pools b - 1\<rparr>"

section \<open>The registry\<close>

record budget_registry =
  br_policy :: budget_policy
  br_budgets :: "(byte_string \<times> server_budget) list"

definition registry_new :: "budget_policy \<Rightarrow> budget_registry" where
  "registry_new pol = \<lparr>br_policy = pol, br_budgets = []\<rparr>"

definition registry_set_policy ::
  "(nat \<Rightarrow> bool) \<Rightarrow> (nat \<Rightarrow> bool) \<Rightarrow> budget_policy \<Rightarrow> budget_registry \<Rightarrow>
   budget_registry \<times> (byte_string \<times> grant list) list" where
  "registry_set_policy clsd gone pol r =
    (let upd = (\<lambda>b. budget_set_total clsd gone (bs_total (sb_state b)) pol b) in
     (r\<lparr>br_policy := pol, br_budgets := map (\<lambda>(i, b). (i, fst (upd b))) (br_budgets r)\<rparr>,
      map (\<lambda>(i, b). (i, snd (upd b))) (br_budgets r)))"

definition registry_ensure ::
  "(nat \<Rightarrow> bool) \<Rightarrow> (nat \<Rightarrow> bool) \<Rightarrow> byte_string \<Rightarrow> nat \<Rightarrow> budget_registry \<Rightarrow>
   budget_registry \<times> server_budget \<times> grant list" where
  "registry_ensure clsd gone sid conns r =
    (case map_of (br_budgets r) sid of
       Some b \<Rightarrow>
         (case budget_set_total clsd gone conns (br_policy r) b of (b', gs) \<Rightarrow>
           (r\<lparr>br_budgets := map (\<lambda>(i, x). (i, if i = sid then b' else x)) (br_budgets r)\<rparr>, b', gs))
     | None \<Rightarrow>
         let b = budget_new conns (br_policy r) in
         (r\<lparr>br_budgets := br_budgets r @ [(sid, b)]\<rparr>, b, []))"

definition registry_get :: "byte_string \<Rightarrow> budget_registry \<Rightarrow> server_budget option" where
  "registry_get sid r = map_of (br_budgets r) sid"

section \<open>Arithmetic of one grant\<close>

lemma held_total_tiers:
  "held_total st = bs_held st Playback + bs_held st Import + bs_held st Download + bs_held st Repair"
  by (simp add: held_total_def tier_all_def)

lemma pop_waiter_frame [simp, frame_simps]:
  "bs_total (pop_waiter t st) = bs_total st" "bs_held (pop_waiter t st) = bs_held st"
  "bs_playback_floor (pop_waiter t st) = bs_playback_floor st"
  "bs_repair_floor (pop_waiter t st) = bs_repair_floor st"
  "held_total (pop_waiter t st) = held_total st" "bs_free (pop_waiter t st) = bs_free st"
  "unmet_playback (pop_waiter t st) = unmet_playback st"
  by (simp_all add: pop_waiter_def held_total_def bs_free_def unmet_playback_def)

lemma prune_frame [simp, frame_simps]:
  "bs_total (prune q st) = bs_total st" "bs_held (prune q st) = bs_held st"
  "bs_playback_floor (prune q st) = bs_playback_floor st"
  "bs_repair_floor (prune q st) = bs_repair_floor st"
  "held_total (prune q st) = held_total st" "bs_free (prune q st) = bs_free st"
  "unmet_playback (prune q st) = unmet_playback st"
  by (simp_all add: prune_def held_total_def bs_free_def unmet_playback_def)

lemma add_held_frame [simp, frame_simps]:
  "bs_total (add_held t st) = bs_total st" "bs_waiters (add_held t st) = bs_waiters st"
  "bs_playback_floor (add_held t st) = bs_playback_floor st"
  "bs_repair_floor (add_held t st) = bs_repair_floor st"
  "bs_held (add_held t st) t = Suc (bs_held st t)"
  "u \<noteq> t \<Longrightarrow> bs_held (add_held t st) u = bs_held st u"
  by (simp_all add: add_held_def)

lemma held_total_add [simp]: "held_total (add_held t st) = Suc (held_total st)"
  by (cases t) (simp_all add: held_total_tiers)

lemma free_add [simp]: "bs_free (add_held t st) = bs_free st - 1"
  by (simp add: bs_free_def)

lemma next_grantable_waiting: "next_grantable st = Some t \<Longrightarrow> waiting st t \<and> 0 < bs_free st"
  by (auto simp: next_grantable_def Let_def split: if_splits)

lemma next_grantable_low_tier:
  "next_grantable st = Some t \<Longrightarrow> t \<in> {Download, Repair} \<Longrightarrow> unmet_playback st < bs_free st"
  by (auto simp: next_grantable_def Let_def split: if_splits)

lemma unmet_playback_add:
  "unmet_playback (add_held t st) =
    (if t \<in> {Playback, Import} then unmet_playback st - 1 else unmet_playback st)"
  by (cases t) (auto simp: unmet_playback_def)

text \<open>What one grant keeps: the allowance, and the share set aside for WebDAV.\<close>

definition within_budget :: "budget_state \<Rightarrow> bool" where
  "within_budget st \<longleftrightarrow> held_total st \<le> bs_total st \<and> unmet_playback st \<le> bs_free st"

lemma within_budget_grant:
  assumes "within_budget st" "next_grantable st = Some t"
  shows "within_budget (add_held t (pop_waiter t st))"
proof -
  have free: "0 < bs_free st" using next_grantable_waiting [OF assms(2)] by simp
  have "t \<in> {Playback, Import} \<or> unmet_playback st < bs_free st"
    using next_grantable_low_tier [OF assms(2)] by (cases t) auto
  with assms(1) free show ?thesis
    by (auto simp: within_budget_def unmet_playback_add bs_free_def)
qed

section \<open>The dispatch loop\<close>

lemma grant_loop_invariant:
  assumes "grant_loop gone st gs = (st', gs')" and "I st gs"
    and "\<And>st gs t tx rest. I st gs \<Longrightarrow> next_grantable st = Some t \<Longrightarrow>
          bs_waiters st t = tx # rest \<Longrightarrow> gone tx \<Longrightarrow> I (pop_waiter t st) gs"
    and "\<And>st gs t tx rest. I st gs \<Longrightarrow> next_grantable st = Some t \<Longrightarrow>
          bs_waiters st t = tx # rest \<Longrightarrow> \<not> gone tx \<Longrightarrow>
          I (add_held t (pop_waiter t st)) (gs @ [(t, tx)])"
  shows "I st' gs'"
  using assms
proof (induction gone st gs rule: grant_loop.induct)
  case (1 gone st gs)
  show ?case
  proof (cases "next_grantable st")
    case None
    with "1.prems" show ?thesis by (simp add: grant_loop.simps [of gone st])
  next
    case (Some t)
    then obtain tx rest where w: "bs_waiters st t = tx # rest"
      using next_grantable_waiting by (fastforce simp: waiting_def neq_Nil_conv)
    show ?thesis
    proof (cases "gone tx")
      case True
      with "1.prems" Some w have "grant_loop gone (pop_waiter t st) gs = (st', gs')"
        by (simp add: grant_loop.simps [of gone st])
      then show ?thesis
        using "1.IH"(1) [OF Some w True] "1.prems"(3) [OF "1.prems"(2) Some w True] "1.prems"(3,4)
        by blast
    next
      case False
      with "1.prems" Some w
      have "grant_loop gone (add_held t (pop_waiter t st)) (gs @ [(t, tx)]) = (st', gs')"
        by (simp add: grant_loop.simps [of gone st])
      then show ?thesis
        using "1.IH"(2) [OF Some w False] "1.prems"(4) [OF "1.prems"(2) Some w False] "1.prems"(3,4)
        by blast
    qed
  qed
qed

lemma grant_loop_exhausts:
  "grant_loop gone st gs = (st', gs') \<Longrightarrow> next_grantable st' = None"
proof (induction gone st gs rule: grant_loop.induct)
  case (1 gone st gs)
  show ?case
  proof (cases "next_grantable st")
    case None
    with "1.prems" show ?thesis by (simp add: grant_loop.simps [of gone st])
  next
    case (Some t)
    then obtain tx rest where "bs_waiters st t = tx # rest"
      using next_grantable_waiting by (fastforce simp: waiting_def neq_Nil_conv)
    with Some "1.prems" "1.IH" show ?thesis
      by (auto simp: grant_loop.simps [of gone st] split: if_splits)
  qed
qed

lemma dispatch_frame [frame_simps]:
  assumes "budget_dispatch q gone st = (st', gs)"
  shows "bs_total st' = bs_total st" and "bs_playback_floor st' = bs_playback_floor st"
    and "bs_repair_floor st' = bs_repair_floor st"
  using grant_loop_invariant [OF assms [unfolded budget_dispatch_def], where
      I = "\<lambda>s _. bs_total s = bs_total st \<and> bs_playback_floor s = bs_playback_floor st \<and>
        bs_repair_floor s = bs_repair_floor st"]
  by auto

lemma dispatch_within_budget:
  "budget_dispatch q gone st = (st', gs) \<Longrightarrow> within_budget st \<Longrightarrow> within_budget st'"
  unfolding budget_dispatch_def
  by (erule grant_loop_invariant [where I = "\<lambda>s _. within_budget s"])
    (auto simp: within_budget_def [of "prune q st"] within_budget_def [of "pop_waiter _ _"]
      within_budget_def [of st] within_budget_grant, auto simp: within_budget_def)

definition grants_at :: "budget_tier \<Rightarrow> grant list \<Rightarrow> nat" where
  "grants_at t gs = length (filter (\<lambda>g. fst g = t) gs)"

lemma dispatch_held:
  "budget_dispatch q gone st = (st', gs) \<Longrightarrow> bs_held st' t = bs_held st t + grants_at t gs"
  unfolding budget_dispatch_def
  by (erule grant_loop_invariant [where I = "\<lambda>s g. bs_held s t = bs_held st t + grants_at t g"])
    (auto simp: grants_at_def add_held_def)

lemma dispatch_exhausts: "budget_dispatch q gone st = (st', gs) \<Longrightarrow> next_grantable st' = None"
  unfolding budget_dispatch_def by (rule grant_loop_exhausts)

lemma grant_loop_prefix: "\<exists>ys. snd (grant_loop gone st gs) = gs @ ys"
proof (induction gone st gs rule: grant_loop.induct)
  case (1 gone st gs)
  then show ?case
    by (subst grant_loop.simps) (fastforce split: option.splits list.splits)
qed

lemma dispatch_first_grant:
  assumes "budget_dispatch q (\<lambda>_. False) st = (st', gs)"
  shows "map_option fst (case gs of [] \<Rightarrow> None | g # _ \<Rightarrow> Some g) = next_grantable (prune q st)"
proof (cases "next_grantable (prune q st)")
  case None
  with assms show ?thesis by (auto simp: budget_dispatch_def grant_loop.simps)
next
  case (Some t)
  then obtain tx rest where w: "bs_waiters (prune q st) t = tx # rest"
    using next_grantable_waiting by (fastforce simp: waiting_def neq_Nil_conv)
  with assms Some have "snd (grant_loop (\<lambda>_. False) (add_held t (pop_waiter t (prune q st))) [(t, tx)]) = gs"
    by (simp add: budget_dispatch_def grant_loop.simps [of _ "prune q st"])
  with grant_loop_prefix [of "\<lambda>_. False" "add_held t (pop_waiter t (prune q st))" "[(t, tx)]"]
  show ?thesis by (auto simp: Some)
qed

section \<open>Floors\<close>

lemma div_ceil_100: "div_ceil a 100 = (a + 99) div 100"
  by (simp add: div_ceil_def)

lemma policy_floors_sum:
  assumes "policy_floors pol tot = (pf, rf)"
  shows "pf + rf \<le> tot - 1"
proof (cases "tot < 2")
  case True
  with assms show ?thesis by (simp add: policy_floors_def)
next
  case False
  with assms have "pf \<le> tot - 1" and "rf \<le> tot - 1 - pf"
    by (auto simp: policy_floors_def Let_def)
  then show ?thesis by simp
qed

lemma policy_playback_positive:
  assumes "policy_floors pol tot = (pf, rf)" "2 \<le> tot" "0 < playback_reserve_pct pol"
  shows "1 \<le> pf"
proof -
  have "1 \<le> unat (playback_reserve_pct pol)"
    using assms(3) by (simp add: word_less_nat_alt)
  then have "1 \<le> tot * min (unat (playback_reserve_pct pol)) 100"
    using assms(2) by (simp add: mult_le_mono)
  then have "100 div 100 \<le> div_ceil (tot * min (unat (playback_reserve_pct pol)) 100) 100"
    unfolding div_ceil_100 by (intro div_le_mono) simp
  moreover have "pf = min (div_ceil (tot * min (unat (playback_reserve_pct pol)) 100) 100) (tot - 1)"
    using assms(1,2) by (auto simp: policy_floors_def Let_def)
  ultimately show ?thesis using assms(2) by simp
qed

section \<open>Runs\<close>

text \<open>
  What the consumers of one budget do, in any order: ask for a permit, give one back, ask
  whether theirs is wanted.  Each step has its own picture of which waiters have left.
\<close>

inductive budget_step :: "server_budget \<Rightarrow> server_budget \<Rightarrow> bool" where
  acquire: "budget_step b (fst (budget_acquire q gone t tx b))"
| release: "0 < bs_held (sb_state b) t \<Longrightarrow> budget_step b (fst (budget_release q gone t b))"
| ask: "budget_step b (snd (wanted_elsewhere q t b))"

inductive budget_reachable :: "nat \<Rightarrow> budget_policy \<Rightarrow> server_budget \<Rightarrow> bool"
  for tot :: nat and pol :: budget_policy where
  start: "budget_reachable tot pol (budget_new tot pol)"
| step: "budget_reachable tot pol b \<Longrightarrow> budget_step b b' \<Longrightarrow> budget_reachable tot pol b'"

lemma held_total_sub: "0 < bs_held st t \<Longrightarrow> Suc (held_total (sub_held t st)) = held_total st"
  by (cases t) (simp_all add: sub_held_def held_total_tiers)

lemma within_budget_sub:
  assumes "within_budget st" "0 < bs_held st t"
  shows "within_budget (sub_held t st)"
proof -
  have "unmet_playback (sub_held t st) \<le> Suc (unmet_playback st)"
    by (cases t) (auto simp: unmet_playback_def sub_held_def)
  moreover have "bs_total (sub_held t st) = bs_total st" by (simp add: sub_held_def)
  ultimately show ?thesis
    using assms held_total_sub [OF assms(2)]
    by (auto simp: within_budget_def bs_free_def)
qed

lemma add_sub_held: "0 < bs_held st t \<Longrightarrow> add_held t (sub_held t st) = st"
  by (simp add: add_held_def sub_held_def)

lemma budget_step_inv:
  assumes "budget_step b b'" "within_budget (sb_state b)"
  shows "within_budget (sb_state b') \<and> bs_total (sb_state b') = bs_total (sb_state b) \<and>
    bs_playback_floor (sb_state b') = bs_playback_floor (sb_state b)"
  using assms
proof (induction rule: budget_step.induct)
  case (acquire b q gone t tx)
  let ?st = "(sb_state b)\<lparr>bs_waiters := (bs_waiters (sb_state b))(t := bs_waiters (sb_state b) t @ [tx])\<rparr>"
  obtain st2 gs where d: "budget_dispatch q gone ?st = (st2, gs)" by fastforce
  have "within_budget ?st" using acquire
    by (simp add: within_budget_def held_total_def bs_free_def unmet_playback_def)
  with dispatch_within_budget [OF d] dispatch_frame [OF d] d show ?case
    by (simp add: budget_acquire_def Let_def)
next
  case (release b t q gone)
  obtain st2 gs where d: "budget_dispatch q gone (sub_held t (sb_state b)) = (st2, gs)" by fastforce
  from dispatch_within_budget [OF d] within_budget_sub [OF release(2,1)] dispatch_frame [OF d] d
  show ?case by (simp add: budget_release_def sub_held_def)
next
  case (ask b q t)
  then show ?case
    by (auto simp: wanted_elsewhere_def Let_def add_sub_held within_budget_def)
qed

lemma within_budget_new: "within_budget (sb_state (budget_new tot pol))"
  using policy_floors_sum [of pol tot]
  by (auto simp: budget_new_def within_budget_def held_total_def tier_all_def bs_free_def
      unmet_playback_def split: prod.splits)

lemma budget_reachable_inv:
  "budget_reachable tot pol b \<Longrightarrow> within_budget (sb_state b) \<and> bs_total (sb_state b) = tot \<and>
    bs_playback_floor (sb_state b) = fst (policy_floors pol tot)"
proof (induction rule: budget_reachable.induct)
  case start
  show ?case using within_budget_new by (simp add: budget_new_def split: prod.splits)
next
  case (step b b')
  then show ?case using budget_step_inv by auto
qed

section \<open>Progress\<close>

lemma next_grantable_idle:
  assumes held: "\<And>t. bs_held st t = 0"
    and floors: "bs_playback_floor st + bs_repair_floor st < bs_total st" and w: "waiting st t"
  shows "next_grantable st \<noteq> None"
proof -
  have free: "bs_free st = bs_total st"
    by (simp add: bs_free_def held_total_tiers held)
  have up: "unmet_playback st = bs_playback_floor st" by (simp add: unmet_playback_def held)
  have ur: "unmet_repair st \<le> bs_repair_floor st" by (simp add: unmet_repair_def)
  have ur0: "\<not> waiting st Repair \<Longrightarrow> unmet_repair st = 0" by (simp add: unmet_repair_def held)
  show ?thesis
    using w floors ur ur0 unfolding next_grantable_def Let_def free up
    by (cases t) (auto simp: held)
qed

section \<open>Properties\<close>

text \<open>For every split policy and every allowance of at least two connections, the two floors
  together leave the download tier at least one connection, and a playback reserve that was
  asked for is not rounded away.\<close>

theorem budget_floors_leave_download:
  assumes "policy_floors pol tot = (pf, rf)" and "2 \<le> tot"
  shows "pf + rf \<le> tot - 1 \<and> (0 < playback_reserve_pct pol \<longrightarrow> 1 \<le> pf)"
  using policy_floors_sum [OF assms(1)] policy_playback_positive [OF assms] by auto

theorem budget_floors_leave_download_witness:
  "policy_floors \<lparr>playback_reserve_pct = 25, repair_reserve_pct = 25\<rparr> 10 = (3, 3) \<and>
   (3::nat) + 3 \<le> 10 - 1 \<and> 1 \<le> (3::nat)"
proof -
  let ?pol = "\<lparr>playback_reserve_pct = 25, repair_reserve_pct = 25\<rparr>"
  have f: "policy_floors ?pol 10 = (3, 3)"
    by (simp add: policy_floors_def div_ceil_def)
  from budget_floors_leave_download [OF f] f show ?thesis by simp
qed

text \<open>Whatever the consumers of a server's budget do, in whatever order, the permits held at all
  tiers together never exceed the server's allowance, and the part of the playback floor
  that WebDAV does not hold yet is still free.\<close>

theorem budget_never_overallocated:
  assumes "budget_reachable tot pol b"
  shows "held_total (sb_state b) \<le> tot \<and>
    fst (policy_floors pol tot) - (bs_held (sb_state b) Playback + bs_held (sb_state b) Import)
      \<le> tot - held_total (sb_state b)"
  using budget_reachable_inv [OF assms]
  by (auto simp: within_budget_def unmet_playback_def bs_free_def)

theorem budget_never_overallocated_witness:
  "held_total (sb_state (fst (budget_acquire (\<lambda>_. False) (\<lambda>_. False) Download 7
      (budget_new 4 default_budget_policy)))) \<le> 4 \<and>
   bs_held (sb_state (fst (budget_acquire (\<lambda>_. False) (\<lambda>_. False) Download 7
      (budget_new 4 default_budget_policy)))) Download = 1"
proof -
  have "budget_reachable 4 default_budget_policy
      (fst (budget_acquire (\<lambda>_. False) (\<lambda>_. False) Download 7 (budget_new 4 default_budget_policy)))"
    by (rule budget_reachable.step [OF budget_reachable.start budget_step.acquire])
  from budget_never_overallocated [OF this] show ?thesis
    by (simp add: budget_acquire_def budget_dispatch_def budget_new_def default_budget_policy_def
        policy_floors_def div_ceil_def DEFAULT_REPAIR_RESERVE_PCT_def grant_loop.simps next_grantable_def
        bs_free_def held_total_def tier_all_def waiting_def unmet_playback_def unmet_repair_def
        prune_def pop_waiter_def add_held_def)
qed

text \<open>When a permit comes back, every waiter the floors allow is served before the lock is
  released: no further grant is possible, and each tier's count grew by exactly the permits sent to it.\<close>

theorem budget_release_serves_waiters:
  assumes "budget_release q gone t b = (b', gs)" and "0 < bs_held (sb_state b) t"
  shows "next_grantable (sb_state b') = None \<and>
    (\<forall>u. bs_held (sb_state b') u =
      bs_held (sb_state b) u - (if u = t then 1 else 0) + grants_at u gs)"
proof -
  obtain st where d: "budget_dispatch q gone (sub_held t (sb_state b)) = (st, gs)"
    and b': "b' = b\<lparr>sb_state := st\<rparr>"
    using assms(1) by (auto simp: budget_release_def split: prod.splits)
  from dispatch_exhausts [OF d] dispatch_held [OF d] b' show ?thesis
    by (simp add: sub_held_def)
qed

definition busy_budget :: server_budget where
  "busy_budget = \<lparr>sb_state = \<lparr>bs_total = 1, bs_playback_floor = 0, bs_repair_floor = 0,
     bs_held = (\<lambda>t. if t = Download then 1 else 0),
     bs_waiters = (\<lambda>t. if t = Playback then [5] else [])\<rparr>, sb_contended = 0, sb_pools = 0\<rparr>"

lemmas budget_eval =
  busy_budget_def budget_release_def budget_dispatch_def wanted_elsewhere_def sub_held_def prune_def
  grant_loop.simps next_grantable_def bs_free_def held_total_def tier_all_def waiting_def
  unmet_playback_def unmet_repair_def pop_waiter_def add_held_def grants_at_def Let_def

lemma busy_budget_release:
  "snd (budget_release (\<lambda>_. False) (\<lambda>_. False) Download busy_budget) = [(Playback, 5)]"
  by (simp add: budget_eval)

theorem budget_release_serves_waiters_witness:
  "next_grantable (sb_state (fst (budget_release (\<lambda>_. False) (\<lambda>_. False) Download busy_budget))) = None
   \<and> bs_held (sb_state (fst (budget_release (\<lambda>_. False) (\<lambda>_. False) Download busy_budget))) Playback = 1"
proof -
  obtain b' where r: "budget_release (\<lambda>_. False) (\<lambda>_. False) Download busy_budget = (b', [(Playback, 5)])"
    using busy_budget_release by (metis prod.collapse)
  have h: "0 < bs_held (sb_state busy_budget) Download" by (simp add: busy_budget_def)
  from budget_release_serves_waiters [OF r h] r show ?thesis
    by (simp add: busy_budget_def grants_at_def)
qed

text \<open>\<open>wanted_elsewhere\<close> answers exactly whether giving the permit back now would hand it to a
  waiter at another tier, and asking changes no count.\<close>

theorem wanted_elsewhere_exact:
  assumes "0 < bs_held (sb_state b) t"
  shows "(fst (wanted_elsewhere q t b) \<longleftrightarrow>
      (\<exists>g gs. snd (budget_release q (\<lambda>_. False) t b) = g # gs \<and> fst g \<noteq> t)) \<and>
    bs_held (sb_state (snd (wanted_elsewhere q t b))) = bs_held (sb_state b)"
proof -
  obtain st gs where d: "budget_dispatch q (\<lambda>_. False) (sub_held t (sb_state b)) = (st, gs)"
    by fastforce
  have "prune q (sub_held t (sb_state b)) = sub_held t (prune q (sb_state b))"
    by (simp add: prune_def sub_held_def)
  with dispatch_first_grant [OF d] assms d have "fst (wanted_elsewhere q t b) \<longleftrightarrow>
      (\<exists>g gs. snd (budget_release q (\<lambda>_. False) t b) = g # gs \<and> fst g \<noteq> t)"
    by (cases gs) (auto simp: wanted_elsewhere_def budget_release_def Let_def split: option.splits)
  then show ?thesis
    using assms by (simp add: wanted_elsewhere_def Let_def add_sub_held)
qed

theorem wanted_elsewhere_exact_witness:
  "fst (wanted_elsewhere (\<lambda>_. False) Download busy_budget)"
proof -
  have h: "0 < bs_held (sb_state busy_budget) Download" by (simp add: busy_budget_def)
  show ?thesis using wanted_elsewhere_exact [OF h, of "\<lambda>_. False"] busy_budget_release by simp
qed

text \<open>No deadlock: in a budget of a positive allowance with nothing held, a request at any tier is
  granted a permit at once.\<close>

theorem budget_idle_acquire_grants:
  assumes "0 < tot" and "b = budget_new tot pol"
  shows "snd (budget_acquire (\<lambda>_. False) (\<lambda>_. False) t tx b) = [(t, tx)]"
proof -
  let ?st = "(sb_state b)\<lparr>bs_waiters := (bs_waiters (sb_state b))(t := bs_waiters (sb_state b) t @ [tx])\<rparr>"
  obtain pf rf where pf: "policy_floors pol tot = (pf, rf)" by fastforce
  have fl: "pf + rf < tot" using policy_floors_sum [OF pf] assms(1) by simp
  have w: "bs_waiters (prune (\<lambda>_. False) ?st) = (\<lambda>u. if u = t then [tx] else [])"
    using assms(2) pf by (auto simp: budget_new_def prune_def)
  have "next_grantable (prune (\<lambda>_. False) ?st) \<noteq> None"
    by (rule next_grantable_idle [where t = t])
      (use assms(2) pf fl w in \<open>auto simp: budget_new_def waiting_def\<close>)
  then obtain u where u: "next_grantable (prune (\<lambda>_. False) ?st) = Some u" by auto
  with next_grantable_waiting [OF u] w have "u = t" by (auto simp: waiting_def split: if_splits)
  have stop: "next_grantable (add_held t (pop_waiter t (prune (\<lambda>_. False) ?st))) = None"
    using w by (auto simp: next_grantable_def waiting_def pop_waiter_def Let_def)
  from u \<open>u = t\<close> w stop
  have "snd (grant_loop (\<lambda>_. False) (prune (\<lambda>_. False) ?st) []) = [(t, tx)]"
    by (simp add: grant_loop.simps [of _ "prune (\<lambda>_. False) ?st"]
        grant_loop.simps [of _ "add_held t (pop_waiter t (prune (\<lambda>_. False) ?st))"])
  then show ?thesis by (auto simp: budget_acquire_def budget_dispatch_def Let_def split: prod.splits)
qed

theorem budget_idle_acquire_grants_witness:
  "snd (budget_acquire (\<lambda>_. False) (\<lambda>_. False) Repair 9 (budget_new 1 default_budget_policy)) = [(Repair, 9)]"
  using budget_idle_acquire_grants [of 1 "budget_new 1 default_budget_policy" default_budget_policy Repair 9]
  by simp

end
