(* ===== verification/Article_Cache.thy ===== *)
theory Article_Cache
  imports Prelude "HOL-Library.AList"
begin

text \<open>
  The bounded article cache of \<open>crates/nzb-decode/src/cache.rs\<close> (\<open>ArticleCache\<close>).  Every public
  method takes the lock for its whole body, so each is one function of the cache and the file
  system.  The hash maps are association lists (their iteration order is unspecified in Rust; no
  operation depends on it).  The file system is a map from paths to contents; whether a write
  succeeds is a parameter \<open>env\<close>: \<open>None\<close> for success, \<open>Some None\<close> for a failure before the file
  is created, \<open>Some (Some n)\<close> for a failure after \<open>n\<close> bytes.
\<close>

section \<open>Keys, entries, paths\<close>

type_synonym file_system = "path \<Rightarrow> byte_string option"

record cache_key =
  ck_job :: byte_string
  ck_file :: byte_string
  ck_segment :: u32

datatype entry_location = Memory byte_string | Disk path

record cache_entry =
  ce_location :: entry_location
  ce_size :: nat

record cache =
  ca_entries :: "(cache_key \<times> cache_entry) list"
  ca_order :: "cache_key list"
  ca_memory :: nat
  ca_max :: nat
  ca_work_dirs :: "(byte_string \<times> path) list"
  ca_hits :: nat
  ca_misses :: nat
  ca_spills :: nat

record cache_env =
  env_temp_dir :: path
  env_write :: "path \<Rightarrow> byte_string \<Rightarrow> file_system \<Rightarrow> nat option option"

definition cache_new :: "nat \<Rightarrow> cache" where
  "cache_new max_bytes =
    \<lparr>ca_entries = [], ca_order = [], ca_memory = 0, ca_max = max_bytes, ca_work_dirs = [],
     ca_hits = 0, ca_misses = 0, ca_spills = 0\<rparr>"

definition register_work_dir :: "byte_string \<Rightarrow> path \<Rightarrow> cache \<Rightarrow> cache" where
  "register_work_dir job dir c = c\<lparr>ca_work_dirs := AList.update job dir (ca_work_dirs c)\<rparr>"

definition spill_name :: "cache_key \<Rightarrow> byte_string" where
  "spill_name k = ''.cache_'' @ ck_file k @ ''_'' @ show_nat (unat (ck_segment k)) @ ''.tmp''"

definition spill_path :: "cache_env \<Rightarrow> (byte_string \<times> path) list \<Rightarrow> cache_key \<Rightarrow> path" where
  "spill_path env dirs k =
    path_join (case map_of dirs (ck_job k) of Some d \<Rightarrow> d | None \<Rightarrow> env_temp_dir env) (spill_name k)"

definition write_spill :: "cache_env \<Rightarrow> path \<Rightarrow> byte_string \<Rightarrow> file_system \<Rightarrow> bool \<times> file_system" where
  "write_spill env p d fs =
    (case env_write env p d fs of
       None \<Rightarrow> (True, fs(p \<mapsto> d))
     | Some None \<Rightarrow> (False, fs)
     | Some (Some n) \<Rightarrow> (False, fs(p \<mapsto> take n d)))"

text \<open>An unreadable spill file is the error \<open>CacheError::Io\<close>.\<close>

datatype cache_error = Cache_Io

definition read_spill :: "path \<Rightarrow> file_system \<Rightarrow> cache_error + byte_string" where
  "read_spill p fs = (case fs p of Some d \<Rightarrow> Inr d | None \<Rightarrow> Inl Cache_Io)"

section \<open>Store\<close>

definition forget_old :: "cache_key \<Rightarrow> cache \<Rightarrow> cache" where
  "forget_old k c =
    (case map_of (ca_entries c) k of
       None \<Rightarrow> c
     | Some old \<Rightarrow>
         c\<lparr>ca_entries := AList.delete k (ca_entries c),
           ca_memory := (case ce_location old of
               Memory _ \<Rightarrow> ca_memory c - ce_size old | Disk _ \<Rightarrow> ca_memory c),
           ca_order := filter (\<lambda>x. x \<noteq> k) (ca_order c)\<rparr>)"

definition spill_entry ::
  "cache_env \<Rightarrow> cache_key \<Rightarrow> cache_key list \<Rightarrow> cache_entry \<Rightarrow> cache \<times> file_system
    \<Rightarrow> (cache \<times> file_system) + (cache \<times> file_system)" where
  "spill_entry env k rest e s =
    (case s of (c, fs) \<Rightarrow>
      (case ce_location e of
         Disk _ \<Rightarrow> Inl (c\<lparr>ca_order := rest @ [k]\<rparr>, fs)
       | Memory d \<Rightarrow>
           (let p = spill_path env (ca_work_dirs c) k in
            case write_spill env p d fs of
              (False, fs') \<Rightarrow> Inr (c\<lparr>ca_order := k # rest\<rparr>, fs')
            | (True, fs') \<Rightarrow>
                Inl (c\<lparr>ca_entries := AList.update k (e\<lparr>ce_location := Disk p\<rparr>) (ca_entries c),
                       ca_memory := ca_memory c - ce_size e,
                       ca_spills := ca_spills c + 1,
                       ca_order := rest @ [k]\<rparr>, fs'))))"

definition spill_body ::
  "cache_env \<Rightarrow> nat \<Rightarrow> cache \<times> file_system \<Rightarrow> (cache \<times> file_system) + (cache \<times> file_system)" where
  "spill_body env len s =
    (case s of (c, fs) \<Rightarrow>
      if ca_memory c + len > ca_max c \<and> ca_order c \<noteq> [] then
        (let k = hd (ca_order c); rest = List.tl (ca_order c) in
         case map_of (ca_entries c) k of
           None \<Rightarrow> Inl (c\<lparr>ca_order := rest\<rparr>, fs)
         | Some e \<Rightarrow> spill_entry env k rest e (c, fs))
      else Inr (c, fs))"

definition insert_entry :: "cache_key \<Rightarrow> byte_string \<Rightarrow> cache \<Rightarrow> cache" where
  "insert_entry k d c =
    c\<lparr>ca_memory := ca_memory c + length d,
      ca_entries := AList.update k \<lparr>ce_location = Memory d, ce_size = length d\<rparr> (ca_entries c),
      ca_order := ca_order c @ [k]\<rparr>"

text \<open>\<open>fuel\<close> bounds the rounds of the \<open>while\<close> loop; \<open>None\<close> is a loop that has not come to an end.\<close>

definition cache_store ::
  "cache_env \<Rightarrow> nat \<Rightarrow> cache_key \<Rightarrow> byte_string \<Rightarrow> cache \<times> file_system \<Rightarrow> (cache \<times> file_system) option" where
  "cache_store env fuel k d s =
    map_option (apfst (insert_entry k d))
      (run_loop (spill_body env (length d)) fuel (apfst (forget_old k) s))"

section \<open>The other operations\<close>

definition cache_load :: "cache_key \<Rightarrow> cache \<times> file_system \<Rightarrow> (cache_error + byte_string option) \<times> cache" where
  "cache_load k s =
    (case s of (c, fs) \<Rightarrow>
      (case map_of (ca_entries c) k of
         Some e \<Rightarrow>
           (case ce_location e of
              Memory d \<Rightarrow> (Inr (Some d), c\<lparr>ca_hits := ca_hits c + 1\<rparr>)
            | Disk p \<Rightarrow>
                (case read_spill p fs of
                   Inl err \<Rightarrow> (Inl err, c\<lparr>ca_hits := ca_hits c + 1\<rparr>)
                 | Inr d \<Rightarrow> (Inr (Some d), c\<lparr>ca_hits := ca_hits c + 1\<rparr>)))
       | None \<Rightarrow> (Inr None, c\<lparr>ca_misses := ca_misses c + 1\<rparr>)))"

text \<open>What \<open>remove\<close> and \<open>clear_job\<close> do with one entry; the result of \<open>remove_file\<close> is ignored.\<close>

definition release_entry :: "cache_key \<Rightarrow> cache \<times> file_system \<Rightarrow> cache \<times> file_system" where
  "release_entry k s =
    (case s of (c, fs) \<Rightarrow>
      (case map_of (ca_entries c) k of
         None \<Rightarrow> (c, fs)
       | Some e \<Rightarrow>
           (let c1 = c\<lparr>ca_entries := AList.delete k (ca_entries c)\<rparr> in
            case ce_location e of
              Memory _ \<Rightarrow> (c1\<lparr>ca_memory := ca_memory c - ce_size e\<rparr>, fs)
            | Disk p \<Rightarrow> (c1, fs(p := None)))))"

definition cache_remove :: "cache_key \<Rightarrow> cache \<times> file_system \<Rightarrow> cache \<times> file_system" where
  "cache_remove k s =
    (if map_of (ca_entries (fst s)) k = None then s
     else apfst (\<lambda>c. c\<lparr>ca_order := filter (\<lambda>x. x \<noteq> k) (ca_order c)\<rparr>) (release_entry k s))"

definition cache_clear_job :: "byte_string \<Rightarrow> cache \<times> file_system \<Rightarrow> cache \<times> file_system" where
  "cache_clear_job job s =
    (let keys = filter (\<lambda>k. ck_job k = job) (map fst (ca_entries (fst s))) in
     apfst (\<lambda>c. c\<lparr>ca_order := filter (\<lambda>k. ck_job k \<noteq> job) (ca_order c),
                  ca_work_dirs := AList.delete job (ca_work_dirs c)\<rparr>)
       (fold release_entry keys s))"

definition cache_size :: "cache \<Rightarrow> nat" where
  "cache_size c = ca_memory c"

definition cache_set_limit :: "nat \<Rightarrow> cache \<Rightarrow> cache" where
  "cache_set_limit bytes c = c\<lparr>ca_max := bytes\<rparr>"

definition cache_stats :: "cache \<Rightarrow> nat \<times> nat \<times> nat" where
  "cache_stats c = (ca_hits c, ca_misses c, ca_spills c)"

end
