(* ===== verification/Article_Cache_Proofs.thy ===== *)
theory Article_Cache_Proofs
  imports Article_Cache
begin

text \<open>
  Correctness of the article cache: the accounting invariant, the refinement to a finite map from
  keys to contents (through the interface \<open>map_store\<close>), the memory bound, and exactly when
  \<open>store\<close> returns.
\<close>

section \<open>The invariant\<close>

definition entry_mem :: "(cache_key \<times> cache_entry) list \<Rightarrow> cache_key \<Rightarrow> nat" where
  "entry_mem es k =
    (case map_of es k of None \<Rightarrow> 0
     | Some e \<Rightarrow> (case ce_location e of Memory _ \<Rightarrow> ce_size e | Disk _ \<Rightarrow> 0))"

definition in_memory :: "(cache_key \<times> cache_entry) list \<Rightarrow> cache_key \<Rightarrow> bool" where
  "in_memory es k =
    (case map_of es k of None \<Rightarrow> False
     | Some e \<Rightarrow> (case ce_location e of Memory _ \<Rightarrow> True | Disk _ \<Rightarrow> False))"

definition cache_ok :: "cache \<Rightarrow> bool" where
  "cache_ok c \<longleftrightarrow>
    distinct (ca_order c) \<and> distinct (map fst (ca_entries c)) \<and>
    set (ca_order c) = fst ` set (ca_entries c) \<and>
    ca_memory c = sum_list (map (entry_mem (ca_entries c)) (ca_order c))"

definition spilled_entry_ok :: "cache_env \<Rightarrow> cache \<times> file_system \<Rightarrow> cache_key \<Rightarrow> bool" where
  "spilled_entry_ok env s k =
    (case s of (c, fs) \<Rightarrow>
      (case map_of (ca_entries c) k of None \<Rightarrow> True
       | Some e \<Rightarrow> (case ce_location e of Memory _ \<Rightarrow> True
           | Disk p \<Rightarrow> p = spill_path env (ca_work_dirs c) k \<and> fs p \<noteq> None)))"

definition spilled_ok :: "cache_env \<Rightarrow> cache \<times> file_system \<Rightarrow> bool" where
  "spilled_ok env s \<longleftrightarrow> list_all (spilled_entry_ok env s) (ca_order (fst s))"

text \<open>No two of the keys \<open>ks\<close> share a spill file.\<close>

definition apart :: "cache_env \<Rightarrow> cache \<Rightarrow> cache_key set \<Rightarrow> bool" where
  "apart env c ks = inj_on (spill_path env (ca_work_dirs c)) ks"

text \<open>What the cache holds, as a map from keys to contents.\<close>

definition cache_view :: "cache \<times> file_system \<Rightarrow> cache_key \<Rightarrow> byte_string option" where
  "cache_view s k =
    (case s of (c, fs) \<Rightarrow>
      (case map_of (ca_entries c) k of None \<Rightarrow> None
       | Some e \<Rightarrow> (case ce_location e of Memory d \<Rightarrow> Some d | Disk p \<Rightarrow> fs p)))"

definition cache_wf :: "cache_env \<Rightarrow> cache \<times> file_system \<Rightarrow> bool" where
  "cache_wf env s \<longleftrightarrow> cache_ok (fst s) \<and> spilled_ok env s \<and> apart env (fst s) (set (ca_order (fst s)))"

lemma map_of_delete: "map_of (AList.delete k es) = (map_of es)(k := None)"
  by (simp add: AList.delete_conv')

lemma map_of_update: "map_of (AList.update k v es) = (map_of es)(k \<mapsto> v)"
  by (simp add: AList.update_conv')

lemma entry_mem_simps [simp]:
  "entry_mem (AList.delete k es) x = (if x = k then 0 else entry_mem es x)"
  "entry_mem (AList.update k e es) x =
    (if x = k then (case ce_location e of Memory _ \<Rightarrow> ce_size e | Disk _ \<Rightarrow> 0) else entry_mem es x)"
  by (simp_all add: entry_mem_def map_of_delete map_of_update)

lemma in_memory_simps [simp]:
  "in_memory (AList.delete k es) x \<longleftrightarrow> x \<noteq> k \<and> in_memory es x"
  "in_memory (AList.update k e es) x \<longleftrightarrow>
    (if x = k then (case ce_location e of Memory _ \<Rightarrow> True | Disk _ \<Rightarrow> False) else in_memory es x)"
  by (simp_all add: in_memory_def map_of_delete map_of_update)

lemma sum_filter_out:
  "distinct xs \<Longrightarrow> sum_list (map f (filter (\<lambda>x. x \<noteq> k) xs)) = sum_list (map f xs) - (if k \<in> set xs then f k else (0::nat))"
proof (induction xs)
  case (Cons x xs)
  have "k \<in> set xs \<Longrightarrow> f k \<le> sum_list (map f xs)" by (simp add: member_le_sum_list)
  with Cons show ?case by (auto simp: filter_id_conv)
qed simp

lemma keys_update: "fst ` set (AList.update k v es) = insert k (fst ` set es)"
  using AList.dom_update [of k v es] by (simp add: dom_map_of_conv_image_fst)

lemma keys_delete: "fst ` set (AList.delete k es) = fst ` set es - {k}"
  by (metis AList.delete_keys image_set set_filter set_minus_filter_out list.set_map removeAll_filter_not_eq set_removeAll)

lemma cache_new_wf: "cache_wf env (cache_new n, fs)"
  by (simp add: cache_wf_def cache_ok_def cache_new_def spilled_ok_def apart_def)

lemma ok_key:
  assumes "cache_ok c"
  shows "map_of (ca_entries c) k = None \<longleftrightarrow> k \<notin> set (ca_order c)"
  using assms by (auto simp: cache_ok_def map_of_eq_None_iff)


lemma ok_head:
  assumes "cache_ok c" "ca_order c = k # rest"
  obtains e where "map_of (ca_entries c) k = Some e"
  using ok_key [OF assms(1), of k] assms(2) by (cases "map_of (ca_entries c) k") auto

lemma sum_entry_mem_cong:
  "(\<And>x. x \<in> set xs \<Longrightarrow> f x = g x) \<Longrightarrow> sum_list (map f xs) = (sum_list (map g xs) :: nat)"
  by (metis map_eq_conv)

section \<open>One round of the spill loop\<close>

text \<open>What the loop leaves alone: the view, the keys, the limit and the work directories.\<close>

definition same_content :: "cache_env \<Rightarrow> cache \<times> file_system \<Rightarrow> cache \<times> file_system \<Rightarrow> bool" where
  "same_content env s s' \<longleftrightarrow>
    cache_view s' = cache_view s \<and> set (ca_order (fst s')) = set (ca_order (fst s)) \<and>
    ca_work_dirs (fst s') = ca_work_dirs (fst s) \<and> ca_max (fst s') = ca_max (fst s)"

lemma same_content_trans: "same_content env s s' \<Longrightarrow> same_content env s' s'' \<Longrightarrow> same_content env s s''"
  by (simp add: same_content_def)

lemma same_content_refl: "same_content env s s"
  by (simp add: same_content_def)

lemma cache_wf_iff:
  "cache_wf env (c, fs) \<longleftrightarrow>
    distinct (ca_order c) \<and> distinct (map fst (ca_entries c)) \<and>
    (\<forall>x. x \<in> set (ca_order c) \<longleftrightarrow> x \<in> fst ` set (ca_entries c)) \<and>
    ca_memory c = sum_list (map (entry_mem (ca_entries c)) (ca_order c)) \<and>
    (\<forall>x \<in> set (ca_order c). spilled_entry_ok env (c, fs) x) \<and>
    inj_on (spill_path env (ca_work_dirs c)) (set (ca_order c))"
  unfolding cache_wf_def cache_ok_def spilled_ok_def list_all_iff apart_def by auto

lemma spilled_entry_ok_order [simp]:
  "spilled_entry_ok env (c\<lparr>ca_order := ks\<rparr>, fs) = spilled_entry_ok env (c, fs)"
  by (auto simp: spilled_entry_ok_def fun_eq_iff split: option.splits entry_location.splits)

lemma rotate_wf:
  assumes wf: "cache_wf env (c, fs)" and ord: "ca_order c = k # rest"
  defines "c' \<equiv> c\<lparr>ca_order := rest @ [k]\<rparr>"
  shows "cache_wf env (c', fs) \<and> same_content env (c, fs) (c', fs)"
proof -
  have "cache_wf env (c', fs)"
    using wf ord unfolding cache_wf_iff c'_def by auto
  then show ?thesis
    by (auto simp: c'_def ord same_content_def cache_view_def fun_eq_iff)
qed

lemma disk_elsewhere:
  assumes wf: "cache_wf env (c, fs)" and inj: "inj_on (spill_path env (ca_work_dirs c)) (insert k (set (ca_order c)))"
    and x: "map_of (ca_entries c) x = Some e'" "ce_location e' = Disk q" "x \<noteq> k"
  shows "q \<noteq> spill_path env (ca_work_dirs c) k"
proof
  assume q: "q = spill_path env (ca_work_dirs c) k"
  have xo: "x \<in> set (ca_order c)" using wf x unfolding cache_wf_iff by (force dest: map_of_SomeD)
  then have "spilled_entry_ok env (c, fs) x" using wf unfolding cache_wf_iff by blast
  then have "spill_path env (ca_work_dirs c) x = spill_path env (ca_work_dirs c) k"
    using x q by (simp add: spilled_entry_ok_def)
  then show False using inj xo x(3) by (meson inj_onD insertCI)
qed

lemma spill_wf:
  assumes wf: "cache_wf env (c, fs)" and ord: "ca_order c = k # rest"
    and e: "map_of (ca_entries c) k = Some e" "ce_location e = Memory d"
  defines "p \<equiv> spill_path env (ca_work_dirs c) k"
  defines "c' \<equiv> c\<lparr>ca_entries := AList.update k (e\<lparr>ce_location := Disk p\<rparr>) (ca_entries c),
       ca_memory := ca_memory c - ce_size e, ca_spills := ca_spills c + 1, ca_order := rest @ [k]\<rparr>"
  shows "cache_wf env (c', fs(p \<mapsto> d)) \<and> same_content env (c, fs) (c', fs(p \<mapsto> d))"
proof -
  have d: "distinct (k # rest)" and dk: "distinct (map fst (ca_entries c))"
    and keys: "\<And>x. x \<in> set (k # rest) \<longleftrightarrow> x \<in> fst ` set (ca_entries c)"
    and mem: "ca_memory c = sum_list (map (entry_mem (ca_entries c)) (k # rest))"
    and sp: "\<And>x. x \<in> set (k # rest) \<Longrightarrow> spilled_entry_ok env (c, fs) x"
    and inj: "inj_on (spill_path env (ca_work_dirs c)) (set (k # rest))"
    using wf unfolding cache_wf_iff ord by auto
  have ek: "entry_mem (ca_entries c) k = ce_size e" using e by (simp add: entry_mem_def)
  have "sum_list (map (entry_mem (ca_entries c')) (rest @ [k])) = sum_list (map (entry_mem (ca_entries c)) rest)"
    using d by (auto simp: c'_def intro!: sum_entry_mem_cong)
  then have mem': "ca_memory c' = sum_list (map (entry_mem (ca_entries c')) (ca_order c'))"
    using mem ek by (simp add: c'_def)
  have other: "ce_location e' = Disk q \<Longrightarrow> map_of (ca_entries c) x = Some e' \<Longrightarrow> x \<noteq> k \<Longrightarrow> q \<noteq> p" for x e' q
    using disk_elsewhere [OF wf, of k x e' q] inj unfolding ord p_def by simp
  have "spilled_entry_ok env (c', fs(p \<mapsto> d)) x" if "x \<in> set (k # rest)" for x
    using sp [OF that] other [of _ _ x] 
    by (auto simp: spilled_entry_ok_def c'_def map_of_update p_def
        split: option.splits entry_location.splits)
  then have "cache_wf env (c', fs(p \<mapsto> d))"
    unfolding cache_wf_iff mem'
    using d dk keys inj by (auto simp: c'_def keys_update distinct_update)
  moreover have "cache_view (c', fs(p \<mapsto> d)) x = cache_view (c, fs) x" for x
    using other [of _ _ x] e
    by (auto simp: cache_view_def c'_def map_of_update split: option.splits entry_location.splits)
  ultimately show ?thesis
    by (auto simp: same_content_def c'_def ord fun_eq_iff)
qed

lemma spill_fail_wf:
  assumes wf: "cache_wf env (c, fs)" and ord: "ca_order c = k # rest"
    and e: "map_of (ca_entries c) k = Some e" "ce_location e = Memory d"
  defines "p \<equiv> spill_path env (ca_work_dirs c) k"
  defines "c' \<equiv> c\<lparr>ca_order := k # rest\<rparr>"
  shows "cache_wf env (c', fs(p \<mapsto> d')) \<and> same_content env (c, fs) (c', fs(p \<mapsto> d'))"
proof -
  have c': "c' = c" by (simp add: c'_def ord [symmetric])
  have keys: "\<And>x. x \<in> set (k # rest) \<longleftrightarrow> x \<in> fst ` set (ca_entries c)"
    and sp: "\<And>x. x \<in> set (k # rest) \<Longrightarrow> spilled_entry_ok env (c, fs) x"
    and inj: "inj_on (spill_path env (ca_work_dirs c)) (set (k # rest))"
    using wf unfolding cache_wf_iff ord by auto
  have other: "q \<noteq> p" if x: "map_of (ca_entries c) x = Some e'" "ce_location e' = Disk q" for x e' q
    using disk_elsewhere [OF wf, of k x e' q] inj e x unfolding ord p_def by (cases "x = k") auto
  have "spilled_entry_ok env (c, fs(p \<mapsto> d')) x = spilled_entry_ok env (c, fs) x"
    "cache_view (c, fs(p \<mapsto> d')) x = cache_view (c, fs) x" for x
    using other [of x] by (auto simp: spilled_entry_ok_def cache_view_def split: option.splits entry_location.splits)
  then show ?thesis using wf by (auto simp: c' cache_wf_iff same_content_def)
qed

lemma spill_body_wf:
  assumes wf: "cache_wf env s" and r: "spill_body env len s = Inl s' \<or> spill_body env len s = Inr s'"
  shows "cache_wf env s' \<and> same_content env s s'"
proof (cases s)
  case (Pair c fs)
  show ?thesis
  proof (cases "ca_memory c + len > ca_max c \<and> ca_order c \<noteq> []")
    case False
    then show ?thesis using wf r by (auto simp: Pair spill_body_def same_content_refl)
  next
    case True
    then obtain k rest where ord: "ca_order c = k # rest" by (cases "ca_order c") auto
    have wf': "cache_wf env (c, fs)" using wf Pair by simp
    obtain e where e: "map_of (ca_entries c) k = Some e"
      using ok_head [OF _ ord] wf' by (auto simp: cache_wf_def)
    have r': "spill_entry env k rest e (c, fs) = Inl s' \<or> spill_entry env k rest e (c, fs) = Inr s'"
      using r True e by (simp add: Pair spill_body_def ord)
    show ?thesis
    proof (cases "ce_location e")
      case (Disk p)
      then show ?thesis using r' rotate_wf [OF wf' ord] by (auto simp: spill_entry_def Pair)
    next
      case (Memory d)
      have frame: "cache_wf env (c\<lparr>ca_order := k # rest\<rparr>, fs)" "same_content env (c, fs) (c\<lparr>ca_order := k # rest\<rparr>, fs)"
        using wf' by (simp_all add: ord [symmetric] same_content_refl)
      show ?thesis
        using r' Memory spill_wf [OF wf' ord e Memory] spill_fail_wf [OF wf' ord e Memory] frame
        by (auto simp: spill_entry_def write_spill_def Pair Let_def split: option.splits)
    qed
  qed
qed

lemma spill_loop_wf:
  assumes "run_loop (spill_body env len) fuel s = Some s'" "cache_wf env s"
  shows "cache_wf env s' \<and> same_content env s s'"
proof -
  let ?I = "\<lambda>t. cache_wf env t \<and> same_content env s t"
  have "?I s" using assms(2) by (simp add: same_content_refl)
  from run_loop_invariant [where Q = ?I and I = ?I, OF assms(1) this] show ?thesis
    using spill_body_wf same_content_trans by blast
qed

section \<open>Dropping and adding one key\<close>

definition drop_key :: "cache_key \<Rightarrow> cache \<Rightarrow> cache" where
  "drop_key k c = c\<lparr>ca_entries := AList.delete k (ca_entries c),
     ca_memory := ca_memory c - entry_mem (ca_entries c) k,
     ca_order := filter (\<lambda>x. x \<noteq> k) (ca_order c)\<rparr>"

lemma drop_key_absent:
  assumes "cache_ok c" "map_of (ca_entries c) k = None"
  shows "drop_key k c = c"
proof -
  have "k \<notin> set (ca_order c)" "k \<notin> fst ` set (ca_entries c)"
    using assms ok_key [OF assms(1), of k] by (auto simp: map_of_eq_None_iff)
  then have "filter (\<lambda>x. x \<noteq> k) (ca_order c) = ca_order c" "AList.delete k (ca_entries c) = ca_entries c"
    "entry_mem (ca_entries c) k = 0"
    using assms(2) by (auto simp: filter_id_conv AList.delete_id entry_mem_def)
  then show ?thesis by (simp add: drop_key_def)
qed

lemma forget_old_eq: "cache_ok c \<Longrightarrow> forget_old k c = drop_key k c"
  by (cases "map_of (ca_entries c) k")
    (auto simp: drop_key_absent forget_old_def, auto simp: drop_key_def entry_mem_def split: entry_location.splits)

lemma spilled_entry_ok_drop:
  "spilled_entry_ok env (drop_key k c, fs) x = (x = k \<or> spilled_entry_ok env (c, fs) x)"
  by (auto simp: spilled_entry_ok_def drop_key_def map_of_delete split: option.splits entry_location.splits)

lemma drop_key_wf:
  assumes "cache_wf env (c, fs)"
  shows "cache_wf env (drop_key k c, fs)" "cache_view (drop_key k c, fs) = (cache_view (c, fs))(k := None)"
proof -
  have d: "distinct (ca_order c)" and dk: "distinct (map fst (ca_entries c))"
    and keys: "\<And>x. x \<in> set (ca_order c) \<longleftrightarrow> x \<in> fst ` set (ca_entries c)"
    and mem: "ca_memory c = sum_list (map (entry_mem (ca_entries c)) (ca_order c))"
    and sp: "\<And>x. x \<in> set (ca_order c) \<Longrightarrow> spilled_entry_ok env (c, fs) x"
    and inj: "inj_on (spill_path env (ca_work_dirs c)) (set (ca_order c))"
    using assms unfolding cache_wf_iff by auto
  have "sum_list (map (entry_mem (ca_entries (drop_key k c))) (ca_order (drop_key k c))) =
      sum_list (map (entry_mem (ca_entries c)) (filter (\<lambda>x. x \<noteq> k) (ca_order c)))"
    by (auto simp: drop_key_def intro!: sum_entry_mem_cong)
  also have "\<dots> = ca_memory (drop_key k c)"
  proof (cases "k \<in> set (ca_order c)")
    case False
    then have "map_of (ca_entries c) k = None" using keys [of k] by (simp add: map_of_eq_None_iff)
    then have "entry_mem (ca_entries c) k = 0" by (simp add: entry_mem_def)
    then show ?thesis using False d mem by (simp add: sum_filter_out drop_key_def)
  qed (use d mem in \<open>simp add: sum_filter_out drop_key_def\<close>)
  finally have mem': "ca_memory (drop_key k c) =
      sum_list (map (entry_mem (ca_entries (drop_key k c))) (ca_order (drop_key k c)))" by simp
  have k2: "set (ca_order (drop_key k c)) = set (ca_order c) - {k}"
    "fst ` set (ca_entries (drop_key k c)) = fst ` set (ca_entries c) - {k}"
    by (auto simp: drop_key_def keys_delete)
  show "cache_wf env (drop_key k c, fs)"
    unfolding cache_wf_iff k2 spilled_entry_ok_drop mem'
    using d dk keys sp inj by (auto simp: drop_key_def distinct_delete inj_on_diff)
  show "cache_view (drop_key k c, fs) = (cache_view (c, fs))(k := None)"
    by (auto simp: cache_view_def drop_key_def map_of_delete fun_eq_iff split: option.splits)
qed

lemma drop_key_frame [simp]:
  "ca_work_dirs (drop_key k c) = ca_work_dirs c" "ca_max (drop_key k c) = ca_max c"
  "ca_order (drop_key k c) = filter (\<lambda>x. x \<noteq> k) (ca_order c)"
  by (simp_all add: drop_key_def)

lemma insert_entry_wf:
  assumes wf: "cache_wf env (c, fs)" and k: "k \<notin> set (ca_order c)"
    and inj: "apart env c (insert k (set (ca_order c)))"
  shows "cache_wf env (insert_entry k d c, fs)"
    "cache_view (insert_entry k d c, fs) = (cache_view (c, fs))(k \<mapsto> d)"
proof -
  have dd: "distinct (ca_order c)" and dk: "distinct (map fst (ca_entries c))"
    and keys: "\<And>x. x \<in> set (ca_order c) \<longleftrightarrow> x \<in> fst ` set (ca_entries c)"
    and mem: "ca_memory c = sum_list (map (entry_mem (ca_entries c)) (ca_order c))"
    and sp: "\<And>x. x \<in> set (ca_order c) \<Longrightarrow> spilled_entry_ok env (c, fs) x"
    using wf unfolding cache_wf_iff by auto
  let ?c = "insert_entry k d c"
  have "sum_list (map (entry_mem (ca_entries ?c)) (ca_order c)) = ca_memory c"
    unfolding mem using k by (auto simp: insert_entry_def intro!: sum_entry_mem_cong)
  then have mem': "ca_memory ?c = sum_list (map (entry_mem (ca_entries ?c)) (ca_order ?c))"
    by (simp add: insert_entry_def)
  have sp': "spilled_entry_ok env (?c, fs) x = (x = k \<or> spilled_entry_ok env (c, fs) x)" for x
    by (auto simp: spilled_entry_ok_def insert_entry_def map_of_update split: option.splits entry_location.splits)
  have k2: "set (ca_order ?c) = insert k (set (ca_order c))"
    "fst ` set (ca_entries ?c) = insert k (fst ` set (ca_entries c))"
    by (auto simp: insert_entry_def keys_update)
  show "cache_wf env (?c, fs)"
    unfolding cache_wf_iff k2 sp' mem'
    using dd dk keys sp inj k by (auto simp: insert_entry_def distinct_update apart_def)
  show "cache_view (?c, fs) = (cache_view (c, fs))(k \<mapsto> d)"
    by (auto simp: cache_view_def insert_entry_def map_of_update fun_eq_iff split: option.splits)
qed

section \<open>The operations on the map\<close>

lemma store_view:
  assumes wf: "cache_wf env s" and ap: "apart env (fst s) (insert k (set (ca_order (fst s))))"
    and st: "cache_store env fuel k d s = Some s'"
  shows "cache_wf env s' \<and> cache_view s' = (cache_view s)(k \<mapsto> d) \<and>
    set (ca_order (fst s')) = insert k (set (ca_order (fst s))) \<and>
    ca_work_dirs (fst s') = ca_work_dirs (fst s) \<and> ca_max (fst s') = ca_max (fst s)"
proof (cases s)
  case (Pair c fs)
  have wf': "cache_wf env (c, fs)" and ok: "cache_ok c" using wf Pair by (auto simp: cache_wf_def)
  obtain c2 fs2 where loop: "run_loop (spill_body env (length d)) fuel (drop_key k c, fs) = Some (c2, fs2)"
    and s': "s' = (insert_entry k d c2, fs2)"
    using st by (auto simp: cache_store_def Pair forget_old_eq [OF ok])
  have l: "cache_wf env (c2, fs2)" "same_content env (drop_key k c, fs) (c2, fs2)"
    using spill_loop_wf [OF loop] drop_key_wf(1) [OF wf'] by auto
  then have k: "k \<notin> set (ca_order c2)" by (simp add: same_content_def)
  have ap2: "apart env c2 (insert k (set (ca_order c2)))"
    using ap l(2) by (auto simp: apart_def same_content_def Pair intro: inj_on_subset)
  show ?thesis
    using insert_entry_wf [OF l(1) k ap2, of d] l(2) drop_key_wf(2) [OF wf', of k]
    by (auto simp: s' Pair same_content_def insert_entry_def)
qed

lemma load_view:
  assumes "cache_wf env s"
  shows "fst (cache_load k s) = Inr (cache_view s k)"
proof (cases s)
  case (Pair c fs)
  then show ?thesis
  proof (cases "map_of (ca_entries c) k")
    case (Some e)
    then have "k \<in> set (ca_order c)" using assms ok_key [of c k] by (auto simp: cache_wf_def Pair)
    then have "spilled_entry_ok env (c, fs) k" using assms by (auto simp: cache_wf_iff Pair)
    with Some show ?thesis
      by (auto simp: Pair cache_load_def cache_view_def spilled_entry_ok_def read_spill_def split: entry_location.splits)
  qed (simp add: cache_load_def cache_view_def)
qed

lemma file_change:
  assumes "cache_wf env (c, fs)"
    and "\<And>x e q. map_of (ca_entries c) x = Some e \<Longrightarrow> ce_location e = Disk q \<Longrightarrow> fs' q = fs q"
  shows "cache_wf env (c, fs') \<and> cache_view (c, fs') = cache_view (c, fs)"
proof -
  have "spilled_entry_ok env (c, fs') x = spilled_entry_ok env (c, fs) x"
    "cache_view (c, fs') x = cache_view (c, fs) x" for x
    using assms(2) [of x] by (auto simp: spilled_entry_ok_def cache_view_def split: option.splits entry_location.splits)
  then show ?thesis using assms(1) by (auto simp: cache_wf_iff)
qed

lemma remove_view:
  assumes wf: "cache_wf env s"
  shows "cache_wf env (cache_remove k s) \<and> cache_view (cache_remove k s) = (cache_view s)(k := None) \<and>
    fst (cache_remove k s) = drop_key k (fst s)"
proof (cases s)
  case (Pair c fs)
  have wf': "cache_wf env (c, fs)" and ok: "cache_ok c" using wf Pair by (auto simp: cache_wf_def)
  show ?thesis
  proof (cases "map_of (ca_entries c) k")
    case None
    then show ?thesis using wf'
      by (auto simp: Pair cache_remove_def drop_key_absent [OF ok] cache_view_def fun_eq_iff)
  next
    case (Some e)
    show ?thesis
    proof (cases "ce_location e")
      case (Memory d)
      then have "cache_remove k s = (drop_key k c, fs)"
        using Some by (simp add: Pair cache_remove_def release_entry_def drop_key_def entry_mem_def Let_def)
      then show ?thesis using drop_key_wf [OF wf'] by (simp add: Pair)
    next
      case (Disk p)
      then have eq: "cache_remove k s = (drop_key k c, fs(p := None))"
        using Some by (simp add: Pair cache_remove_def release_entry_def drop_key_def entry_mem_def Let_def)
      have kin: "k \<in> set (ca_order c)" using ok_key [OF ok, of k] Some by auto
      then have "spilled_entry_ok env (c, fs) k" using wf' unfolding cache_wf_iff by blast
      then have p: "p = spill_path env (ca_work_dirs c) k"
        using Some Disk by (simp add: spilled_entry_ok_def)
      have "q \<noteq> p" if "map_of (ca_entries (drop_key k c)) x = Some e'" "ce_location e' = Disk q" for x e' q
        using disk_elsewhere [OF wf', of k x e' q] that kin wf' p
        by (auto simp: drop_key_def map_of_delete cache_wf_iff insert_absorb split: if_splits)
      then show ?thesis
        using file_change [OF drop_key_wf(1) [OF wf'], of k "fs(p := None)"] drop_key_wf(2) [OF wf', of k] eq
        by (auto simp: Pair)
    qed
  qed
qed

lemma release_entry_order:
  "release_entry k (c\<lparr>ca_order := ks\<rparr>, fs) = apfst (\<lambda>c. c\<lparr>ca_order := ks\<rparr>) (release_entry k (c, fs))"
  by (auto simp: release_entry_def Let_def split: option.splits entry_location.splits)

lemma release_remove:
  "cache_ok (fst s) \<Longrightarrow> release_entry k s = apfst (\<lambda>c. c\<lparr>ca_order := ca_order (fst s)\<rparr>) (cache_remove k s)"
  by (cases s; cases "map_of (ca_entries (fst s)) k")
    (auto simp: release_entry_def cache_remove_def Let_def split: entry_location.splits)

lemma fold_release:
  "cache_wf env s \<Longrightarrow>
    fold release_entry ks (apfst (\<lambda>c. c\<lparr>ca_order := os\<rparr>) s) =
      apfst (\<lambda>c. c\<lparr>ca_order := os\<rparr>) (fold cache_remove ks s)"
proof (induction ks arbitrary: s)
  case (Cons k ks)
  obtain c fs where s: "s = (c, fs)" by (cases s)
  have "release_entry k (apfst (\<lambda>c. c\<lparr>ca_order := os\<rparr>) s) = apfst (\<lambda>c. c\<lparr>ca_order := os\<rparr>) (cache_remove k s)"
    using release_remove [of s k] Cons.prems
    by (cases "cache_remove k s") (auto simp: s release_entry_order cache_wf_def)
  then show ?case using Cons.IH [of "cache_remove k s"] remove_view [OF Cons.prems] by simp
qed simp

lemma fold_remove_view:
  "cache_wf env s \<Longrightarrow>
    cache_wf env (fold cache_remove ks s) \<and>
    cache_view (fold cache_remove ks s) = (\<lambda>k. if k \<in> set ks then None else cache_view s k) \<and>
    ca_order (fst (fold cache_remove ks s)) = filter (\<lambda>k. k \<notin> set ks) (ca_order (fst s)) \<and>
    ca_work_dirs (fst (fold cache_remove ks s)) = ca_work_dirs (fst s)"
proof (induction ks arbitrary: s)
  case (Cons k ks)
  have [simp]: "filter (\<lambda>x. x \<notin> set ks \<and> x \<noteq> k) = filter (\<lambda>x. x \<noteq> k \<and> x \<notin> set ks)"
    by (rule ext, rule filter_cong) auto
  show ?case
    using Cons.IH [of "cache_remove k s"] remove_view [OF Cons.prems, of k]
    by (auto simp: fun_eq_iff)
qed simp

lemma clear_view:
  assumes wf: "cache_wf env s"
  shows "cache_wf env (cache_clear_job job s) \<and>
    cache_view (cache_clear_job job s) = (\<lambda>k. if ck_job k = job then None else cache_view s k) \<and>
    set (ca_order (fst (cache_clear_job job s))) = {k \<in> set (ca_order (fst s)). ck_job k \<noteq> job}"
proof -
  define ks where "ks = filter (\<lambda>k. ck_job k = job) (map fst (ca_entries (fst s)))"
  define t where "t = fold cache_remove ks s"
  obtain c fs where t: "t = (c, fs)" by (cases t)
  have keys: "set ks = {k \<in> set (ca_order (fst s)). ck_job k = job}"
    using wf by (auto simp: ks_def cache_wf_def cache_ok_def)
  have v: "cache_wf env (c, fs)" "cache_view (c, fs) = (\<lambda>k. if k \<in> set ks then None else cache_view s k)"
    "ca_order c = filter (\<lambda>k. k \<notin> set ks) (ca_order (fst s))" "ca_work_dirs c = ca_work_dirs (fst s)"
    using fold_remove_view [OF wf, of ks] by (simp_all add: t_def [symmetric] t)
  have ord: "filter (\<lambda>k. ck_job k \<noteq> job) (ca_order (fst s)) = ca_order c"
    unfolding v(3) using keys by (auto intro!: filter_cong)
  have eq: "cache_clear_job job s = (c\<lparr>ca_work_dirs := AList.delete job (ca_work_dirs c)\<rparr>, fs)"
  proof -
    have "apfst (\<lambda>c. c\<lparr>ca_order := ca_order (fst s)\<rparr>) s = s" by (cases s) simp
    then have "fold release_entry ks s = apfst (\<lambda>c. c\<lparr>ca_order := ca_order (fst s)\<rparr>) t"
      using fold_release [OF wf, of ks "ca_order (fst s)"] by (simp add: t_def)
    then show ?thesis by (simp add: cache_clear_job_def ks_def [symmetric] t ord)
  qed
  let ?c = "c\<lparr>ca_work_dirs := AList.delete job (ca_work_dirs c)\<rparr>"
  have job: "ck_job k \<noteq> job" if "k \<in> set (ca_order c)" for k using that v(3) keys by auto
  then have sp: "spill_path env (ca_work_dirs ?c) k = spill_path env (ca_work_dirs c) k" if "k \<in> set (ca_order c)" for k
    using that by (auto simp: spill_path_def map_of_delete fun_upd_def)
  have "spilled_entry_ok env (?c, fs) k" if "k \<in> set (ca_order c)" for k
    using that v(1) sp [OF that]
    by (auto simp: cache_wf_iff spilled_entry_ok_def split: option.splits entry_location.splits)
  then have wf': "cache_wf env (?c, fs)"
    using v(1) inj_on_cong [of "set (ca_order c)", OF sp] unfolding cache_wf_iff by auto
  have "cache_view (?c, fs) = cache_view (c, fs)"
    by (simp add: cache_view_def fun_eq_iff)
  moreover have "cache_view s k = None" if "k \<notin> set (ca_order (fst s))" for k
    using that wf ok_key [of "fst s" k] by (cases s) (auto simp: cache_view_def cache_wf_def)
  ultimately show ?thesis
    using wf' v(2,3) keys by (auto simp: eq fun_eq_iff)
qed

section \<open>The interface of a store of contents\<close>

text \<open>
  What a client of the cache relies on.  \<open>put\<close> may fail to return; \<open>room\<close> is the side condition
  under which it may be called.
\<close>

locale map_store =
  fixes ok :: "'s \<Rightarrow> bool"
    and view :: "'s \<Rightarrow> 'k \<Rightarrow> 'v option"
    and room :: "'k \<Rightarrow> bool"
    and put :: "'k \<Rightarrow> 'v \<Rightarrow> 's \<Rightarrow> 's option"
    and del :: "'k \<Rightarrow> 's \<Rightarrow> 's"
    and get :: "'k \<Rightarrow> 's \<Rightarrow> 'e + 'v option"
  assumes put_law: "ok s \<Longrightarrow> room k \<Longrightarrow> put k v s = Some s' \<Longrightarrow> ok s' \<and> view s' = (view s)(k \<mapsto> v)"
    and del_law: "ok s \<Longrightarrow> ok (del k s) \<and> view (del k s) = (view s)(k := None)"
    and get_law: "ok s \<Longrightarrow> get k s = Inr (view s k)"
begin

text \<open>A history: \<open>(k, Some v)\<close> puts, \<open>(k, None)\<close> deletes.\<close>

fun replay :: "('k \<times> 'v option) list \<Rightarrow> 's \<Rightarrow> 's option" where
  "replay [] s = Some s"
| "replay ((k, None) # ops) s = replay ops (del k s)"
| "replay ((k, Some v) # ops) s = (case put k v s of None \<Rightarrow> None | Some s' \<Rightarrow> replay ops s')"

lemma replay_view:
  "ok s \<Longrightarrow> list_all (\<lambda>(k, v). room k) ops \<Longrightarrow> replay ops s = Some s' \<Longrightarrow>
    ok s' \<and> view s' = fold (\<lambda>(k, v) m. m(k := v)) ops (view s)"
proof (induction ops s rule: replay.induct)
  case (2 k ops s)
  then show ?case using del_law [OF 2(2), of k] by auto
next
  case (3 k v ops s)
  then show ?case using put_law [OF 3(2), of k v] by (auto split: option.splits)
qed auto

lemma replay_get:
  assumes "ok s" "list_all (\<lambda>(k, v). room k) ops" "replay ops s = Some s'"
  shows "get k s' = Inr (fold (\<lambda>(k, v) m. m(k := v)) ops (view s) k)"
  using replay_view [OF assms] get_law by simp

end

definition cache_in :: "cache_env \<Rightarrow> cache_key set \<Rightarrow> (byte_string \<times> path) list \<Rightarrow> cache \<times> file_system \<Rightarrow> bool" where
  "cache_in env ks dirs s \<longleftrightarrow>
    cache_wf env s \<and> ca_work_dirs (fst s) = dirs \<and> set (ca_order (fst s)) \<subseteq> ks \<and> inj_on (spill_path env dirs) ks"

interpretation cs: map_store "cache_in env ks dirs" cache_view "\<lambda>k. k \<in> ks" "cache_store env fuel"
  cache_remove "\<lambda>k s. fst (cache_load k s)" for env ks dirs fuel
proof unfold_locales
  fix s s' :: "cache \<times> file_system" and k d
  assume s: "cache_in env ks dirs s"
  show "fst (cache_load k s) = Inr (cache_view s k)"
    using s load_view [of env s k] by (simp add: cache_in_def)
  show "cache_in env ks dirs (cache_remove k s) \<and> cache_view (cache_remove k s) = (cache_view s)(k := None)"
    using s remove_view [of env s k] by (auto simp: cache_in_def)
  assume k: "k \<in> ks" and st: "cache_store env fuel k d s = Some s'"
  have "apart env (fst s) (insert k (set (ca_order (fst s))))"
    using s k unfolding cache_in_def apart_def by (metis inj_on_subset insert_subset)
  from store_view [OF _ this st] s k
  show "cache_in env ks dirs s' \<and> cache_view s' = (cache_view s)(k \<mapsto> d)"
    by (auto simp: cache_in_def)
qed

text \<open>The history of a cache, written out.\<close>

fun cache_replay ::
  "cache_env \<Rightarrow> nat \<Rightarrow> (cache_key \<times> byte_string option) list \<Rightarrow> cache \<times> file_system \<Rightarrow> (cache \<times> file_system) option" where
  "cache_replay env fuel [] s = Some s"
| "cache_replay env fuel ((k, None) # ops) s = cache_replay env fuel ops (cache_remove k s)"
| "cache_replay env fuel ((k, Some d) # ops) s =
     (case cache_store env fuel k d s of None \<Rightarrow> None | Some s' \<Rightarrow> cache_replay env fuel ops s')"

lemma cache_replay_eq: "cache_replay env fuel ops s = cs.replay env fuel ops s"
  by (induction ops s rule: cs.replay.induct) (auto split: option.splits)

section \<open>When store returns\<close>

definition disk_accepts :: "cache_env \<Rightarrow> bool" where
  "disk_accepts env \<longleftrightarrow> env_write env = (\<lambda>p d fs. None)"

definition held_in_memory :: "cache \<Rightarrow> nat" where
  "held_in_memory c = length (filter (in_memory (ca_entries c)) (ca_order c))"

definition spill_work :: "cache \<times> file_system \<Rightarrow> nat" where
  "spill_work s =
    held_in_memory (fst s) * Suc (length (ca_order (fst s))) +
    length (takeWhile (\<lambda>k. \<not> in_memory (ca_entries (fst s)) k) (ca_order (fst s)))"

lemma entry_mem_in_memory: "0 < entry_mem es k \<Longrightarrow> in_memory es k"
  by (auto simp: entry_mem_def in_memory_def split: option.splits entry_location.splits)

lemma takeWhile_rotate:
  assumes "\<not> P k" "\<exists>x \<in> set rest. P x"
  shows "length (takeWhile (\<lambda>x. \<not> P x) (rest @ [k])) < length (takeWhile (\<lambda>x. \<not> P x) (k # rest))"
  using assms by (auto simp: takeWhile_append1)

lemma spill_body_work:
  assumes wf: "cache_wf env s" and len: "len \<le> ca_max (fst s)" and b: "spill_body env len s = Inl s'"
  shows "spill_work s' < spill_work s"
proof -
  obtain c fs where s: "s = (c, fs)" by (cases s)
  have over: "ca_memory c + len > ca_max c" and "ca_order c \<noteq> []"
    using b by (auto simp: s spill_body_def split: if_splits)
  then obtain k rest where ord: "ca_order c = k # rest" by (cases "ca_order c") auto
  have wf': "cache_wf env (c, fs)" using wf s by simp
  obtain e where e: "map_of (ca_entries c) k = Some e"
    using ok_head [OF _ ord] wf' by (auto simp: cache_wf_def)
  have dist: "k \<notin> set rest" using wf' ord by (simp add: cache_wf_iff)
  have "0 < ca_memory c" using over len by (simp add: s)
  then have "\<exists>x \<in> set (k # rest). 0 < entry_mem (ca_entries c) x"
    using wf' sum_list_eq_0_iff [of "map (entry_mem (ca_entries c)) (k # rest)"]
    unfolding cache_wf_iff ord by (metis gr0I image_eqI list.set_map not_gr_zero imageE)
  then have some: "\<exists>x \<in> set (k # rest). in_memory (ca_entries c) x" using entry_mem_in_memory by blast
  have b': "spill_entry env k rest e (c, fs) = Inl s'"
    using b over by (simp add: s spill_body_def ord e)
  show ?thesis
  proof (cases "ce_location e")
    case (Disk p)
    then have nm: "\<not> in_memory (ca_entries c) k" using e by (simp add: in_memory_def)
    have s': "s' = (c\<lparr>ca_order := rest @ [k]\<rparr>, fs)" using b' Disk by (simp add: spill_entry_def)
    have "length (takeWhile (\<lambda>x. \<not> in_memory (ca_entries c) x) (rest @ [k]))
        < length (takeWhile (\<lambda>x. \<not> in_memory (ca_entries c) x) (k # rest))"
      using takeWhile_rotate [of "in_memory (ca_entries c)" k rest] some nm by auto
    then show ?thesis by (simp add: s s' spill_work_def held_in_memory_def ord nm)
  next
    case (Memory d)
    then have im: "in_memory (ca_entries c) k" using e by (simp add: in_memory_def)
    let ?es = "AList.update k (e\<lparr>ce_location := Disk (spill_path env (ca_work_dirs c) k)\<rparr>) (ca_entries c)"
    have f: "filter (in_memory ?es) rest = filter (in_memory (ca_entries c)) rest"
      using dist by (intro filter_cong) auto
    obtain fs' where s': "ca_order (fst s') = rest @ [k]" "ca_entries (fst s') = ?es"
      using b' Memory by (auto simp: spill_entry_def write_spill_def Let_def split: option.splits)
    have h: "held_in_memory c = Suc (held_in_memory (fst s'))"
      by (simp add: held_in_memory_def ord im s' f)
    have "length (takeWhile (\<lambda>x. \<not> in_memory ?es x) (rest @ [k])) \<le> length (rest @ [k])"
      by (rule length_takeWhile_le)
    then have "spill_work s' \<le> held_in_memory (fst s') * (length rest + 2) + (length rest + 1)"
      unfolding spill_work_def s' by simp
    also have "\<dots> < Suc (held_in_memory (fst s')) * (length rest + 2)" by simp
    also have "\<dots> \<le> spill_work s"
      by (simp add: spill_work_def s h ord)
    finally show ?thesis .
  qed
qed

interpretation spill_loop: loop_body "spill_body env len"
  "\<lambda>s. cache_wf env s \<and> len \<le> ca_max (fst s)" spill_work for env len
proof unfold_locales
  fix s s' :: "cache \<times> file_system"
  assume s: "cache_wf env s \<and> len \<le> ca_max (fst s)" and b: "spill_body env len s = Inl s'"
  show "cache_wf env s' \<and> len \<le> ca_max (fst s')"
    using spill_body_wf [of env s len s'] s b by (simp add: same_content_def)
  show "spill_work s' < spill_work s" using spill_body_work s b by blast
qed

lemma spill_body_alone: "ca_order (fst s) = [] \<Longrightarrow> spill_body env len s = Inr s"
  by (cases s) (simp add: spill_body_def)

lemma spill_work_bound: "spill_work s \<le> length (ca_order (fst s)) * (length (ca_order (fst s)) + 2)"
proof -
  let ?n = "length (ca_order (fst s))"
  have "held_in_memory (fst s) * Suc ?n \<le> ?n * Suc ?n"
    by (intro mult_le_mono1) (simp add: held_in_memory_def)
  moreover have "length (takeWhile (\<lambda>k. \<not> in_memory (ca_entries (fst s)) k) (ca_order (fst s))) \<le> ?n"
    by (rule length_takeWhile_le)
  ultimately show ?thesis by (simp add: spill_work_def algebra_simps)
qed

lemma cache_store_run:
  assumes "cache_wf env (c, fs)"
  shows "cache_store env fuel k d (c, fs) =
    map_option (apfst (insert_entry k d)) (run_loop (spill_body env (length d)) fuel (drop_key k c, fs))"
  using assms by (simp add: cache_store_def forget_old_eq cache_wf_def)

lemma store_returns:
  assumes wf: "cache_wf env (c, fs)" and len: "length d \<le> ca_max c \<or> set (ca_order c) \<subseteq> {k}"
    and fuel: "length (ca_order c) * (length (ca_order c) + 2) < fuel"
  shows "\<exists>s'. cache_store env fuel k d (c, fs) = Some s'"
proof (cases "filter (\<lambda>x. x \<noteq> k) (ca_order c) = []")
  case True
  obtain n where "fuel = Suc n" using fuel by (cases fuel) auto
  then show ?thesis
    using spill_body_alone [of "(drop_key k c, fs)" env "length d"] True by (simp add: cache_store_run [OF wf])
next
  case False
  then have "length d \<le> ca_max c" using len by (auto simp: filter_empty_conv)
  moreover have l: "length (filter (\<lambda>x. x \<noteq> k) (ca_order c)) \<le> length (ca_order c)" by (rule length_filter_le)
  have "spill_work (drop_key k c, fs) < fuel"
    using le_less_trans [OF le_trans [OF spill_work_bound [of "(drop_key k c, fs)"]] fuel]
      mult_le_mono [OF l add_le_mono1 [OF l, of 2]] by simp
  ultimately show ?thesis
    using spill_loop.returns [of env "(drop_key k c, fs)" "length d" fuel] drop_key_wf(1) [OF wf]
    by (auto simp: cache_store_run [OF wf])
qed

text \<open>A round of the loop that cannot be the last one.\<close>

lemma spill_body_again:
  assumes wf: "cache_wf env s" and acc: "disk_accepts env"
    and s: "ca_max (fst s) < len" "ca_order (fst s) \<noteq> []"
  shows "\<exists>s'. spill_body env len s = Inl s'"
proof -
  obtain c fs where sp: "s = (c, fs)" by (cases s)
  obtain k rest where ord: "ca_order c = k # rest" using s(2) sp by (cases "ca_order c") auto
  obtain e where e: "map_of (ca_entries c) k = Some e"
    using ok_head [OF _ ord] wf by (auto simp: cache_wf_def sp)
  show ?thesis
    using acc s e by (cases "ce_location e")
      (auto simp: sp spill_body_def ord spill_entry_def write_spill_def disk_accepts_def Let_def)
qed

lemma store_hangs:
  assumes wf: "cache_wf env (c, fs)" and acc: "disk_accepts env"
    and big: "ca_max c < length d" and other: "x \<in> set (ca_order c)" "x \<noteq> k"
  shows "cache_store env fuel k d (c, fs) = None"
proof -
  let ?I = "\<lambda>s. cache_wf env s \<and> ca_max (fst s) < length d \<and> ca_order (fst s) \<noteq> []"
  have "run_loop (spill_body env (length d)) fuel (drop_key k c, fs) = None"
  proof (rule run_loop_diverges [where I = ?I])
    show "?I (drop_key k c, fs)"
      using wf big other by (auto simp: drop_key_wf(1) filter_empty_conv)
  next
    fix s
    assume s: "?I s"
    then obtain s' where b: "spill_body env (length d) s = Inl s'" using spill_body_again [of env s "length d"] acc by blast
    have "cache_wf env s' \<and> same_content env s s'" using spill_body_wf [of env s] s b by blast
    then have "?I s'" using s by (auto simp: same_content_def set_empty [symmetric] simp del: set_empty)
    with b show "\<exists>s'. spill_body env (length d) s = Inl s' \<and> ?I s'" by blast
  qed
  then show ?thesis by (simp add: cache_store_run [OF wf])
qed

lemma spill_exit:
  assumes "spill_body env len s = Inr s'" "cache_wf env s" "disk_accepts env"
  shows "s' = s \<and> (ca_memory (fst s) + len \<le> ca_max (fst s) \<or> ca_memory (fst s) = 0)"
proof -
  obtain c fs where s: "s = (c, fs)" by (cases s)
  show ?thesis
  proof (cases "ca_memory c + len > ca_max c \<and> ca_order c \<noteq> []")
    case True
    then obtain k rest where ord: "ca_order c = k # rest" by (cases "ca_order c") auto
    obtain e where "map_of (ca_entries c) k = Some e"
      using ok_head [OF _ ord] assms(2) by (auto simp: cache_wf_def s)
    then have False
      using assms(1,3) True by (cases "ce_location e")
        (auto simp: s spill_body_def ord spill_entry_def write_spill_def disk_accepts_def Let_def)
    then show ?thesis ..
  next
    case False
    then show ?thesis using assms(1,2) by (auto simp: s spill_body_def cache_wf_iff)
  qed
qed

lemma spill_loop_exit:
  assumes "run_loop (spill_body env len) fuel s = Some s'" "cache_wf env s" "disk_accepts env"
  shows "ca_memory (fst s') + len \<le> max (ca_max (fst s')) len"
proof -
  have "(\<lambda>r. ca_memory (fst r) + len \<le> max (ca_max (fst r)) len) s'"
    using assms(1,2)
  proof (rule run_loop_invariant [where I = "cache_wf env"])
    fix s s' assume "cache_wf env s" "spill_body env len s = Inl s'"
    then show "cache_wf env s'" using spill_body_wf by blast
  next
    fix s r assume "cache_wf env s" "spill_body env len s = Inr r"
    from spill_exit [OF this(2,1) assms(3)]
    show "ca_memory (fst r) + len \<le> max (ca_max (fst r)) len" by auto
  qed
  then show ?thesis .
qed

section \<open>Spill files\<close>

lemma split_at_last:
  assumes "xs @ c # ys = xs' @ c # ys'" "c \<notin> set ys" "c \<notin> set ys'"
  shows "xs = xs' \<and> ys = ys'"
proof -
  have tw: "takeWhile (\<lambda>x. x \<noteq> c) (rev zs @ c # r) = rev zs" if "c \<notin> set zs" for zs r
    using that by (subst takeWhile_append2) auto
  have "rev ys @ c # rev xs = rev ys' @ c # rev xs'" using arg_cong [OF assms(1), of rev] by simp
  then have "rev ys = rev ys'" using tw [OF assms(2), of "rev xs"] tw [OF assms(3), of "rev xs'"] by simp
  with assms(1) show ?thesis by simp
qed

lemma underscore_not_digit: "CHR ''_'' \<notin> set (show_nat n)"
  using show_nat_digits [of n] by (auto simp: list_all_iff is_ascii_digit_def)

lemma spill_name_inject:
  "spill_name k = spill_name k' \<longleftrightarrow> ck_file k = ck_file k' \<and> ck_segment k = ck_segment k'"
proof
  assume "spill_name k = spill_name k'"
  then have "ck_file k @ CHR ''_'' # (show_nat (unat (ck_segment k)) @ ''.tmp'') =
      ck_file k' @ CHR ''_'' # (show_nat (unat (ck_segment k')) @ ''.tmp'')"
    by (simp add: spill_name_def)
  from split_at_last [OF this] underscore_not_digit
  have "ck_file k = ck_file k' \<and> show_nat (unat (ck_segment k)) = show_nat (unat (ck_segment k'))" by auto
  then show "ck_file k = ck_file k' \<and> ck_segment k = ck_segment k'" by (simp add: word_unat_eq_iff)
qed (simp add: spill_name_def)

lemma path_join_inject: "path_join b x = path_join b y \<longleftrightarrow> x = y"
  by (simp add: path_join_def)

lemma spill_path_in_job:
  "ck_job k = ck_job k' \<Longrightarrow> spill_path env dirs k = spill_path env dirs k' \<longleftrightarrow> k = k'"
  by (auto simp: spill_path_def path_join_inject spill_name_inject)

section \<open>Properties\<close>

text \<open>C18. After any history of stores and removals that comes to an end, loading a key gives
  exactly what a finite map would: the data stored last, also when it was spilled to disk in
  between, and nothing for a removed key.  The keys in use must not share spill files.\<close>

theorem cache_refines_map:
  assumes "cache_in env ks dirs s" "list_all (\<lambda>(k, v). k \<in> ks) ops"
    and "cache_replay env fuel ops s = Some s'"
  shows "fst (cache_load k s') = Inr (fold (\<lambda>(k, v) m. m(k := v)) ops (cache_view s) k)"
  using cs.replay_get [OF assms(1,2)] assms(3) by (simp add: cache_replay_eq)

definition demo_key :: "byte_string \<Rightarrow> nat \<Rightarrow> cache_key" where
  "demo_key job n = \<lparr>ck_job = job, ck_file = ''f'', ck_segment = of_nat n\<rparr>"

definition cache_demo_env :: cache_env where
  "cache_demo_env = \<lparr>env_temp_dir = ''/tmp'', env_write = (\<lambda>p d fs. None)\<rparr>"

definition demo_history :: "(cache_key \<times> byte_string option) list" where
  "demo_history = [(demo_key ''j'' 1, Some ''ab''), (demo_key ''j'' 2, Some ''cd''), (demo_key ''j'' 3, Some ''ef''),
     (demo_key ''j'' 2, None)]"

definition demo_run :: "(cache \<times> file_system) option" where
  "demo_run = cache_replay cache_demo_env 20 demo_history (cache_new 4, \<lambda>p. None)"

lemma demo_run_ends: "demo_run \<noteq> None"
  by code_simp

theorem cache_refines_map_witness:
  "fst (cache_load (demo_key ''j'' 1) (the demo_run)) = Inr (Some ''ab'') \<and>
   fst (cache_load (demo_key ''j'' 2) (the demo_run)) = Inr None"
proof -
  have in0: "cache_in cache_demo_env {k. ck_job k = ''j''} [] (cache_new 4, \<lambda>p. None)"
    using cache_new_wf [of cache_demo_env 4] by (auto simp: cache_in_def cache_new_def spill_path_in_job intro: inj_onI)
  have ks: "list_all (\<lambda>(k, v). k \<in> {k. ck_job k = ''j''}) demo_history"
    by (simp add: demo_history_def demo_key_def)
  have run: "cache_replay cache_demo_env 20 demo_history (cache_new 4, \<lambda>p. None) = Some (the demo_run)"
    using demo_run_ends by (auto simp: demo_run_def)
  show ?thesis
    using cache_refines_map [OF in0 ks run, of "demo_key ''j'' 1"] cache_refines_map [OF in0 ks run, of "demo_key ''j'' 2"]
    by (simp add: demo_history_def demo_key_def)
qed

text \<open>With a disk that takes every write, \<open>store\<close> returns exactly when the article fits the
  limit by itself or no other key is cached.  Otherwise the eviction loop never ends: every entry
  goes to disk, is pushed to the back of the order again, and the limit is still exceeded; the
  write lock is held for ever.\<close>

theorem cache_store_returns_iff:
  assumes "cache_wf env (c, fs)" "disk_accepts env"
    and "length (ca_order c) * (length (ca_order c) + 2) < fuel"
  shows "(\<exists>s'. cache_store env fuel k d (c, fs) = Some s') \<longleftrightarrow>
    length d \<le> ca_max c \<or> set (ca_order c) \<subseteq> {k}"
proof (cases "length d \<le> ca_max c \<or> set (ca_order c) \<subseteq> {k}")
  case True
  then show ?thesis using store_returns [OF assms(1) _ assms(3)] by blast
next
  case False
  then obtain x where "x \<in> set (ca_order c)" "x \<noteq> k" "ca_max c < length d" by auto
  from store_hangs [OF assms(1,2) this(3,1,2), of fuel] False show ?thesis by simp
qed

definition demo_cache :: cache where
  "demo_cache = insert_entry (demo_key ''j'' 1) ''a'' (cache_new 1)"

lemma demo_cache_wf: "cache_wf cache_demo_env (demo_cache, \<lambda>p. None)"
  unfolding demo_cache_def
  by (rule insert_entry_wf(1) [OF cache_new_wf]) (simp_all add: cache_new_def apart_def)

theorem cache_store_returns_iff_witness:
  "\<not> (\<exists>s'. cache_store cache_demo_env 100 (demo_key ''j'' 2) ''bc'' (demo_cache, \<lambda>p. None) = Some s')"
proof -
  have "disk_accepts cache_demo_env" by (simp add: disk_accepts_def cache_demo_env_def)
  from cache_store_returns_iff [OF demo_cache_wf this, of 100 "demo_key ''j'' 2" "''bc''"] show ?thesis
    by (simp add: demo_cache_def insert_entry_def cache_new_def demo_key_def)
qed

text \<open>With such a disk the accounted memory after a \<open>store\<close> is the size of the new article plus
  what is left in memory, and at most the larger of the limit and that article.\<close>

theorem cache_memory_bounded:
  assumes "cache_wf env (c, fs)" "disk_accepts env" "apart env c (insert k (set (ca_order c)))"
    and "cache_store env fuel k d (c, fs) = Some (c', fs')"
  shows "cache_size c' \<le> max (ca_max c) (length d) \<and>
    cache_size c' = sum_list (map (entry_mem (ca_entries c')) (ca_order c')) \<and> ca_max c' = ca_max c"
proof -
  obtain c2 where loop: "run_loop (spill_body env (length d)) fuel (drop_key k c, fs) = Some (c2, fs')"
    and c': "c' = insert_entry k d c2"
    using assms(4) by (auto simp: cache_store_run [OF assms(1)])
  have "ca_memory c2 + length d \<le> max (ca_max c2) (length d)"
    using spill_loop_exit [OF loop drop_key_wf(1) [OF assms(1)] assms(2)] by simp
  moreover have "cache_wf env (c', fs') \<and> ca_max c' = ca_max c"
    using store_view [of env "(c, fs)" k fuel d "(c', fs')"] assms by simp
  ultimately show ?thesis by (simp add: c' cache_size_def cache_wf_iff insert_entry_def)
qed

theorem cache_memory_bounded_witness:
  "cache_size (fst (the (cache_store cache_demo_env 20 (demo_key ''j'' 2) ''b'' (demo_cache, \<lambda>p. None)))) \<le> 1"
proof -
  let ?r = "cache_store cache_demo_env 20 (demo_key ''j'' 2) ''b'' (demo_cache, \<lambda>p. None)"
  have "?r \<noteq> None" by code_simp
  then obtain c' fs' where r: "?r = Some (c', fs')" by auto
  have acc: "disk_accepts cache_demo_env" by (simp add: disk_accepts_def cache_demo_env_def)
  have ap: "apart cache_demo_env demo_cache (insert (demo_key ''j'' 2) (set (ca_order demo_cache)))"
    by (simp add: apart_def spill_path_in_job demo_cache_def insert_entry_def cache_new_def demo_key_def)
  show ?thesis
    using cache_memory_bounded [OF demo_cache_wf acc ap r]
    by (simp add: r) (simp add: demo_cache_def insert_entry_def cache_new_def)
qed

text \<open>Clearing a job forgets all of its articles and no other, in memory, on disk and in the
  accounting.\<close>

theorem cache_clear_job_exact:
  assumes "cache_wf env s"
  shows "cache_wf env (cache_clear_job job s) \<and>
    (\<forall>k. fst (cache_load k (cache_clear_job job s)) =
       Inr (if ck_job k = job then None else cache_view s k))"
  using clear_view [OF assms, of job] load_view [of env "cache_clear_job job s"] by simp

theorem cache_clear_job_exact_witness:
  "fst (cache_load (demo_key ''j'' 1) (cache_clear_job ''j'' (demo_cache, \<lambda>p. None))) = Inr None"
  using cache_clear_job_exact [OF demo_cache_wf, of "''j''"] by (simp add: demo_key_def)

text \<open>The spill file of a key is unique within its job, but jobs that have no registered work
  directory share the temporary directory, and the file name leaves the job out: the second article
  spilled overwrites the first, and loading the first gives the data of the other job.\<close>

theorem cache_spill_collision:
  "(ck_job k = ck_job k' \<longrightarrow> (spill_path env dirs k = spill_path env dirs k' \<longleftrightarrow> k = k')) \<and>
   map_option (\<lambda>s. fst (cache_load (demo_key ''a'' 1) s))
     (cache_replay cache_demo_env 20
        [(demo_key ''a'' 1, Some ''x''), (demo_key ''b'' 1, Some ''y''), (demo_key ''c'' 2, Some ''z'')]
        (cache_new 1, \<lambda>p. None)) = Some (Inr (Some ''y''))"
proof
  show "ck_job k = ck_job k' \<longrightarrow> (spill_path env dirs k = spill_path env dirs k' \<longleftrightarrow> k = k')"
    using spill_path_in_job by blast
qed code_simp

theorem cache_spill_collision_witness:
  "spill_path cache_demo_env [] (demo_key ''j'' 1) \<noteq> spill_path cache_demo_env [] (demo_key ''j'' 2)"
proof -
  have "demo_key ''j'' 1 \<noteq> demo_key ''j'' 2" by (simp add: demo_key_def)
  then show ?thesis
    using cache_spill_collision [of "demo_key ''j'' 1" "demo_key ''j'' 2" cache_demo_env "[]"]
    by (simp add: demo_key_def)
qed

end
