(* ===== verification/Slice_Map.thy ===== *)
theory Slice_Map
  imports Prelude
begin

text \<open>
  In-flight PAR2 slice verification, \<open>crates/nzb-decode/src/slice_map.rs\<close> (\<open>SliceVerifier\<close>).
  MD5 and CRC32 come from third-party crates: they are the parameter \<open>hashes\<close>.  Offsets and
  lengths (\<open>u64\<close>) are naturals.  An index out of range, which panics in Rust, is \<open>None\<close>.
\<close>

section \<open>Layout and state\<close>


datatype slice_state = Unknown | Verified | Damaged

record slice_digest =
  dg_md5 :: bytes
  dg_crc32 :: u32

record file_slices =
  fsl_size :: nat
  fsl_slices :: "slice_digest list"

record slice_layout =
  lay_slice_size :: nat
  lay_files :: "file_slices list"

record slice_cell =
  sc_file :: nat
  sc_start :: nat
  sc_len :: nat
  sc_filled :: nat
  sc_expected :: slice_digest
  sc_state :: slice_state

record slice_verifier =
  vf_slice_size :: nat
  vf_cells :: "slice_cell list"
  vf_bounds :: "nat list"

record hashes =
  hash_md5 :: "bytes \<Rightarrow> bytes"
  hash_crc32 :: "bytes \<Rightarrow> u32"

definition overlap :: "nat \<Rightarrow> nat \<Rightarrow> nat \<Rightarrow> nat \<Rightarrow> nat" where
  "overlap a0 a1 b0 b1 = min a1 b1 - max a0 b0"

section \<open>Operations\<close>

text \<open>
  Offsets and lengths are natural numbers.  The code multiplies and adds them as \<open>u64\<close>, which is the same while the
  size of a file rounded up to whole slices, and the end of a write, stay below \<open>2 ^ 64\<close>; a forged layout beyond that
  is outside the model.
\<close>

definition new_cell :: "nat \<Rightarrow> nat \<Rightarrow> nat \<Rightarrow> nat \<Rightarrow> slice_digest \<Rightarrow> slice_cell" where
  "new_cell slice_size file_index fsize i digest =
    (let start = i * slice_size in
     \<lparr>sc_file = file_index, sc_start = start, sc_len = min (fsize - start) slice_size,
      sc_filled = 0, sc_expected = digest, sc_state = Unknown\<rparr>)"

definition file_cells :: "nat \<Rightarrow> nat \<times> file_slices \<Rightarrow> slice_cell list" where
  "file_cells slice_size f =
    map (\<lambda>(i, digest). new_cell slice_size (fst f) (fsl_size (snd f)) i digest)
      (enumerate 0 (fsl_slices (snd f)))"

definition add_file :: "nat \<Rightarrow> nat \<times> file_slices \<Rightarrow> slice_cell list \<times> nat list \<Rightarrow> slice_cell list \<times> nat list" where
  "add_file slice_size f acc = (fst acc @ file_cells slice_size f, snd acc @ [length (fst acc)])"

definition verifier_new :: "slice_layout \<Rightarrow> slice_verifier" where
  "verifier_new layout =
    (case fold (add_file (lay_slice_size layout)) (enumerate 0 (lay_files layout)) ([], []) of
       (cells, bounds) \<Rightarrow>
         \<lparr>vf_slice_size = lay_slice_size layout, vf_cells = cells, vf_bounds = bounds @ [length cells]\<rparr>)"

text \<open>One cell of the loop of \<open>mark_written\<close>; the flag says whether the slice is reported.\<close>

definition fill_cell :: "nat \<Rightarrow> nat \<Rightarrow> slice_cell \<Rightarrow> slice_cell \<times> bool" where
  "fill_cell w0 w1 c =
    (if sc_state c \<noteq> Unknown then (c, False)
     else
       let ov = overlap (sc_start c) (sc_start c + sc_len c) w0 w1 in
       if ov = 0 then (c, False)
       else
         let filled = min (sc_filled c + ov) (sc_len c) in
         (c\<lparr>sc_filled := filled\<rparr>, filled = sc_len c \<and> 0 < sc_len c))"

fun fill_range :: "nat \<Rightarrow> nat \<Rightarrow> nat list \<Rightarrow> slice_cell list \<Rightarrow> slice_cell list \<times> nat list" where
  "fill_range w0 w1 [] cells = (cells, [])"
| "fill_range w0 w1 (gi # gis) cells =
    (case fill_cell w0 w1 (cells ! gi) of (c, full) \<Rightarrow>
     (case fill_range w0 w1 gis (cells[gi := c]) of (cells', completed) \<Rightarrow>
       (cells', if full then gi # completed else completed)))"

definition mark_written ::
  "nat \<Rightarrow> nat \<Rightarrow> nat \<Rightarrow> slice_verifier \<Rightarrow> (nat list \<times> slice_verifier) option" where
  "mark_written file_index offset len v =
    (if length (vf_bounds v) \<le> file_index then Some ([], v)
     else if length (vf_bounds v) \<le> file_index + 1 then None
     else
       (case fill_range offset (offset + len)
           [vf_bounds v ! file_index ..< vf_bounds v ! (file_index + 1)] (vf_cells v) of
          (cells, completed) \<Rightarrow> Some (completed, v\<lparr>vf_cells := cells\<rparr>)))"

definition slice_range :: "nat \<Rightarrow> slice_verifier \<Rightarrow> (nat \<times> nat \<times> nat) option" where
  "slice_range gi v =
    (if gi < length (vf_cells v)
     then let c = vf_cells v ! gi in Some (sc_file c, sc_start c, sc_len c) else None)"

text \<open>\<open>Vec::resize\<close>.\<close>

definition resize :: "nat \<Rightarrow> 'a \<Rightarrow> 'a list \<Rightarrow> 'a list" where
  "resize n x xs = take n xs @ replicate (n - length xs) x"

definition verify :: "hashes \<Rightarrow> nat \<Rightarrow> bytes \<Rightarrow> slice_verifier \<Rightarrow> slice_state \<times> slice_verifier" where
  "verify h gi data v =
    (if length (vf_cells v) \<le> gi then (Unknown, v)
     else
       let padded = resize (vf_slice_size v) 0 data;
           c = vf_cells v ! gi;
           st = (if hash_md5 h padded = dg_md5 (sc_expected c) \<and> hash_crc32 h padded = dg_crc32 (sc_expected c)
                 then Verified else Damaged)
       in (st, v\<lparr>vf_cells := (vf_cells v)[gi := c\<lparr>sc_state := st\<rparr>]\<rparr>))"

definition mark_damaged :: "nat \<Rightarrow> slice_verifier \<Rightarrow> slice_verifier" where
  "mark_damaged gi v =
    (if gi < length (vf_cells v)
     then v\<lparr>vf_cells := (vf_cells v)[gi := (vf_cells v ! gi)\<lparr>sc_state := Damaged\<rparr>]\<rparr> else v)"

definition states :: "slice_verifier \<Rightarrow> slice_state list" where
  "states v = map sc_state (vf_cells v)"

definition total_slices :: "slice_verifier \<Rightarrow> nat" where
  "total_slices v = length (vf_cells v)"

definition damaged_count :: "slice_verifier \<Rightarrow> nat" where
  "damaged_count v = length (filter (\<lambda>c. sc_state c = Damaged) (vf_cells v))"

definition verifier_is_complete :: "slice_verifier \<Rightarrow> bool" where
  "verifier_is_complete v = list_all (\<lambda>c. sc_state c \<noteq> Unknown) (vf_cells v)"

section \<open>The geometry of a new verifier\<close>

definition all_cells :: "slice_layout \<Rightarrow> slice_cell list" where
  "all_cells layout = concat (map (file_cells (lay_slice_size layout)) (enumerate 0 (lay_files layout)))"

definition first_cell :: "slice_layout \<Rightarrow> nat \<Rightarrow> nat" where
  "first_cell layout n = sum_list (map (length \<circ> fsl_slices) (take n (lay_files layout)))"

lemma length_file_cells [simp]: "length (file_cells k f) = length (fsl_slices (snd f))"
  by (simp add: file_cells_def)

lemma add_file_pair: "add_file k f (cells, bs) = (cells @ file_cells k f, bs @ [length cells])"
  by (simp add: add_file_def)

lemma fold_add_file:
  "fold (add_file k) fs (cells, bs) =
    (cells @ concat (map (file_cells k) fs),
     bs @ map (\<lambda>n. length cells + sum_list (map (length \<circ> fsl_slices \<circ> snd) (take n fs))) [0..<length fs])"
proof (induction fs arbitrary: cells bs)
  case (Cons f fs)
  have "[0..<length (f # fs)] = 0 # map Suc [0..<length fs]"
    by (simp add: upt_conv_Cons map_Suc_upt del: upt_Suc)
  then show ?case by (simp add: Cons.IH add_file_pair add.assoc del: upt_Suc)
qed simp

lemma map_snd_enumerate_take: "map (g \<circ> snd) (take n (enumerate m xs)) = map g (take n xs)"
  by (metis map_map map_snd_enumerate take_map)

lemma verifier_new_eq:
  "verifier_new layout =
    \<lparr>vf_slice_size = lay_slice_size layout, vf_cells = all_cells layout,
     vf_bounds = map (first_cell layout) [0..<Suc (length (lay_files layout))]\<rparr>"
proof -
  have "length (all_cells layout) = first_cell layout (length (lay_files layout))"
    using map_snd_enumerate_take [of "length \<circ> fsl_slices" "length (lay_files layout)" 0 "lay_files layout"]
    by (simp add: all_cells_def first_cell_def length_concat comp_def)
  then show ?thesis
    using map_snd_enumerate_take [of "length \<circ> fsl_slices" _ 0 "lay_files layout"]
    by (simp add: verifier_new_def fold_add_file all_cells_def first_cell_def comp_assoc)
qed

end
