(* ===== verification/Slice_Map_Proofs.thy ===== *)
theory Slice_Map_Proofs
  imports Slice_Map
begin

text \<open>
  What the slice verifier promises: the slices of a file tile its bytes; along any history of
  non-overlapping writes and verdicts the fill of an undecided slice is the number of its bytes that
  are on disk, so a slice is reported exactly when its last byte arrives.  Overlapping writes are
  counted twice.
\<close>

section \<open>Geometry\<close>

lemma nth_file_cells:
  "i < length (fsl_slices (snd f)) \<Longrightarrow>
    file_cells k f ! i = new_cell k (fst f) (fsl_size (snd f)) i (fsl_slices (snd f) ! i)"
  by (simp add: file_cells_def nth_enumerate_eq)

lemma file_of_cell_aux:
  assumes "n < length fs" "g < length (concat (map (file_cells k) (enumerate m fs)))"
  shows "sum_list (map (length \<circ> fsl_slices) (take n fs)) \<le> g \<and>
      g < sum_list (map (length \<circ> fsl_slices) (take (Suc n) fs)) \<longleftrightarrow>
    sc_file (concat (map (file_cells k) (enumerate m fs)) ! g) = m + n"
  using assms
proof (induction fs arbitrary: n m g)
  case (Cons f fs)
  have low: "m < sc_file (concat (map (file_cells k) (enumerate (Suc m) fs)) ! i)"
    if "i < length (concat (map (file_cells k) (enumerate (Suc m) fs)))" for i
  proof -
    have "concat (map (file_cells k) (enumerate (Suc m) fs)) ! i \<in> set (concat (map (file_cells k) (enumerate (Suc m) fs)))"
      using that by (rule nth_mem)
    then show ?thesis
      by (auto simp: file_cells_def new_cell_def Let_def in_set_enumerate_eq)
  qed
  show ?case
  proof (cases "g < length (fsl_slices f)")
    case True
    then have "sc_file (concat (map (file_cells k) (enumerate m (f # fs))) ! g) = m"
      by (simp add: nth_append nth_file_cells new_cell_def Let_def)
    then show ?thesis using True by (cases n) auto
  next
    case False
    then obtain g' where g: "g = length (fsl_slices f) + g'" using le_Suc_ex not_less by blast
    then have g': "g' < length (concat (map (file_cells k) (enumerate (Suc m) fs)))" using Cons.prems(2) by simp
    show ?thesis
    proof (cases n)
      case 0
      then show ?thesis using low [OF g'] by (simp add: g nth_append)
    next
      case (Suc n')
      then show ?thesis using Cons.IH [of n' g' "Suc m"] Cons.prems(1) g' by (simp add: g nth_append)
    qed
  qed
qed simp

lemma file_of_cell:
  assumes "n < length (lay_files layout)" "g < length (all_cells layout)"
  shows "g \<in> set [first_cell layout n ..< first_cell layout (Suc n)] \<longleftrightarrow> sc_file (all_cells layout ! g) = n"
  using file_of_cell_aux [of n "lay_files layout" g "lay_slice_size layout" 0] assms
  by (auto simp: all_cells_def first_cell_def)

lemma first_cell_le: "first_cell layout n \<le> length (all_cells layout)"
proof -
  have "sum_list (map (length \<circ> fsl_slices) (take n fs)) \<le> sum_list (map (length \<circ> fsl_slices) fs)" for fs
    by (metis append_take_drop_id le_add1 map_append sum_list_append)
  moreover have "length (all_cells layout) = sum_list (map (length \<circ> fsl_slices) (lay_files layout))"
    using map_snd_enumerate_take [of "length \<circ> fsl_slices" "length (lay_files layout)" 0 "lay_files layout"]
    by (simp add: all_cells_def length_concat comp_def)
  ultimately show ?thesis by (simp add: first_cell_def)
qed

section \<open>Bytes on disk\<close>

type_synonym file_write = "nat \<times> nat \<times> nat"

definition write_set :: "file_write \<Rightarrow> (nat \<times> nat) set" where
  "write_set w = (case w of (f, off, len) \<Rightarrow> {f} \<times> {off..<off + len})"

definition on_disk :: "file_write list \<Rightarrow> (nat \<times> nat) set" where
  "on_disk ws = (\<Union>w \<in> set ws. write_set w)"

definition cell_set :: "slice_cell \<Rightarrow> (nat \<times> nat) set" where
  "cell_set c = {sc_file c} \<times> {sc_start c..<sc_start c + sc_len c}"

lemma finite_cell_set [simp]: "finite (cell_set c)"
  by (simp add: cell_set_def)

lemma card_cell_set [simp]: "card (cell_set c) = sc_len c"
  by (simp add: cell_set_def)

lemma on_disk_simps [simp]: "on_disk [] = {}" "on_disk (ws @ [w]) = on_disk ws \<union> write_set w"
  by (auto simp: on_disk_def)

lemma card_overlap:
  "card (cell_set c \<inter> write_set (f, off, len)) =
    (if f = sc_file c then overlap (sc_start c) (sc_start c + sc_len c) off (off + len) else 0)"
proof (cases "f = sc_file c")
  case True
  then have "cell_set c \<inter> write_set (f, off, len) =
      {f} \<times> {max (sc_start c) off..<min (sc_start c + sc_len c) (off + len)}"
    by (auto simp: cell_set_def write_set_def)
  then show ?thesis using True by (simp add: overlap_def)
next
  case False
  then have "cell_set c \<inter> write_set (f, off, len) = {}" by (auto simp: cell_set_def write_set_def)
  then show ?thesis using False by simp
qed

section \<open>The loop of mark\_written\<close>

lemma fill_range_spec:
  assumes "distinct gis" "\<forall>g \<in> set gis. g < length cells"
  shows "fill_range w0 w1 gis cells =
    (map (\<lambda>g. if g \<in> set gis then fst (fill_cell w0 w1 (cells ! g)) else cells ! g) [0..<length cells],
     filter (\<lambda>g. snd (fill_cell w0 w1 (cells ! g))) gis)"
  using assms
proof (induction gis arbitrary: cells)
  case Nil
  then show ?case by (simp add: map_nth)
next
  case (Cons gi gis)
  obtain c full where fc: "fill_cell w0 w1 (cells ! gi) = (c, full)" by fastforce
  have ne: "g \<in> set gis \<Longrightarrow> cells[gi := c] ! g = cells ! g" for g
    using Cons.prems(1) by (metis distinct.simps(2) nth_list_update_neq)
  have f: "filter (\<lambda>g. snd (fill_cell w0 w1 (cells[gi := c] ! g))) gis =
      filter (\<lambda>g. snd (fill_cell w0 w1 (cells ! g))) gis"
    using ne by (intro filter_cong) auto
  have m: "map (\<lambda>g. if g \<in> set gis then fst (fill_cell w0 w1 (cells[gi := c] ! g)) else cells[gi := c] ! g) [0..<length cells]
    = map (\<lambda>g. if g \<in> set (gi # gis) then fst (fill_cell w0 w1 (cells ! g)) else cells ! g) [0..<length cells]"
    using Cons.prems fc by (intro map_cong) (auto simp: nth_list_update)
  show ?case
    using Cons.IH [of "cells[gi := c]"] Cons.prems fc f m by simp
qed

definition undecided :: "slice_cell \<Rightarrow> bool" where
  "undecided c \<longleftrightarrow> sc_state c = Unknown"

text \<open>\<open>c0\<close> is the cell of a fresh verifier; \<open>d\<close> the bytes on disk.\<close>

definition cell_ok :: "(nat \<times> nat) set \<Rightarrow> slice_cell \<Rightarrow> slice_cell \<Rightarrow> bool" where
  "cell_ok d c0 c \<longleftrightarrow>
    sc_file c = sc_file c0 \<and> sc_start c = sc_start c0 \<and> sc_len c = sc_len c0 \<and> sc_expected c = sc_expected c0 \<and>
    (undecided c \<longrightarrow> sc_filled c = card (cell_set c0 \<inter> d))"

definition tracked :: "slice_layout \<Rightarrow> file_write list \<Rightarrow> slice_verifier \<Rightarrow> bool" where
  "tracked layout ws v \<longleftrightarrow>
    vf_slice_size v = lay_slice_size layout \<and>
    vf_bounds v = map (first_cell layout) [0..<Suc (length (lay_files layout))] \<and>
    list_all2 (cell_ok (on_disk ws)) (all_cells layout) (vf_cells v)"

lemma all_cells_fresh: "c \<in> set (all_cells layout) \<Longrightarrow> sc_filled c = 0 \<and> sc_state c = Unknown"
  by (auto simp: all_cells_def file_cells_def new_cell_def Let_def)

lemma tracked_new: "tracked layout [] (verifier_new layout)"
  by (auto simp: tracked_def verifier_new_eq list_all2_same cell_ok_def all_cells_fresh)

lemma cell_set_cong:
  "cell_ok d c0 c \<Longrightarrow> cell_set c = cell_set c0"
  by (simp add: cell_ok_def cell_set_def)

lemma fill_cell_ok:
  assumes ok: "cell_ok d c0 c" and f: "sc_file c0 = f" and disj: "d \<inter> write_set (f, off, len) = {}"
  shows "cell_ok (d \<union> write_set (f, off, len)) c0 (fst (fill_cell off (off + len) c))"
    "snd (fill_cell off (off + len) c) \<longleftrightarrow>
      undecided c \<and> cell_set c0 \<inter> write_set (f, off, len) \<noteq> {} \<and> cell_set c0 \<subseteq> d \<union> write_set (f, off, len)"
proof -
  let ?w = "write_set (f, off, len)"
  let ?ov = "overlap (sc_start c) (sc_start c + sc_len c) off (off + len)"
  have cs: "cell_set c = cell_set c0" using cell_set_cong [OF ok] .
  have ov: "card (cell_set c0 \<inter> ?w) = ?ov" using card_overlap [of c f off len] ok f by (simp add: cs cell_ok_def)
  have split: "cell_set c0 \<inter> (d \<union> ?w) = (cell_set c0 \<inter> d) \<union> (cell_set c0 \<inter> ?w)" by blast
  have card: "card (cell_set c0 \<inter> (d \<union> ?w)) = card (cell_set c0 \<inter> d) + ?ov"
    unfolding split ov [symmetric] using disj by (intro card_Un_disjoint) auto
  have le: "card (cell_set c0 \<inter> (d \<union> ?w)) \<le> sc_len c0"
    using card_mono [of "cell_set c0" "cell_set c0 \<inter> (d \<union> ?w)"] by simp
  have full: "card (cell_set c0 \<inter> (d \<union> ?w)) = sc_len c0 \<longleftrightarrow> cell_set c0 \<subseteq> d \<union> ?w"
    using card_subset_eq [of "cell_set c0" "cell_set c0 \<inter> (d \<union> ?w)"] by (auto simp: Int_absorb2)
  have ov0: "?ov = 0 \<longleftrightarrow> cell_set c0 \<inter> ?w = {}"
    unfolding ov [symmetric] by simp
  have pos: "?ov \<noteq> 0 \<Longrightarrow> 0 < sc_len c0" using card_mono [of "cell_set c0" "cell_set c0 \<inter> ?w"] ov by simp
  show "cell_ok (d \<union> ?w) c0 (fst (fill_cell off (off + len) c))"
    using ok card le ov0 by (auto simp: fill_cell_def cell_ok_def undecided_def Let_def)
  show "snd (fill_cell off (off + len) c) \<longleftrightarrow>
      undecided c \<and> cell_set c0 \<inter> ?w \<noteq> {} \<and> cell_set c0 \<subseteq> d \<union> ?w"
    using ok card le ov0 full pos by (auto simp: fill_cell_def cell_ok_def undecided_def Let_def)
qed

lemma fill_cell_geometry:
  "sc_file (fst (fill_cell a b c)) = sc_file c"
  by (simp add: fill_cell_def Let_def)

lemma tracked_bounds:
  assumes "tracked layout ws v" "f < length (lay_files layout)"
  shows "vf_bounds v ! f = first_cell layout f" "vf_bounds v ! (f + 1) = first_cell layout (Suc f)"
    "length (vf_bounds v) = Suc (length (lay_files layout))"
  using assms by (auto simp: tracked_def nth_map [where xs = "[0..<Suc (length (lay_files layout))]"] nth_upt less_SucI simp del: upt_Suc)

lemma mark_written_tracked:
  assumes tr: "tracked layout ws v" and f: "f < length (lay_files layout)"
    and disj: "on_disk ws \<inter> write_set (f, off, len) = {}"
  shows "\<exists>reported v'. mark_written f off len v = Some (reported, v') \<and> tracked layout (ws @ [(f, off, len)]) v' \<and>
    (\<forall>g. g \<in> set reported \<longleftrightarrow> g < length (vf_cells v) \<and> undecided (vf_cells v ! g) \<and>
       cell_set (vf_cells v ! g) \<inter> write_set (f, off, len) \<noteq> {} \<and>
       cell_set (vf_cells v ! g) \<subseteq> on_disk (ws @ [(f, off, len)]))"
proof -
  let ?gis = "[first_cell layout f..<first_cell layout (Suc f)]"
  let ?w1 = "off + len"
  have cells: "list_all2 (cell_ok (on_disk ws)) (all_cells layout) (vf_cells v)"
    using tr by (simp add: tracked_def)
  have n: "length (vf_cells v) = length (all_cells layout)" using cells by (simp add: list_all2_lengthD)
  have ok: "cell_ok (on_disk ws) (all_cells layout ! g) (vf_cells v ! g)" if "g < length (vf_cells v)" for g
    using cells that n by (simp add: list_all2_nthD2)
  have range: "distinct ?gis" "\<forall>g \<in> set ?gis. g < length (vf_cells v)"
    using first_cell_le [of layout "Suc f"] by (auto simp: n)
  define new where "new = (\<lambda>g. if g \<in> set ?gis then fst (fill_cell off ?w1 (vf_cells v ! g)) else vf_cells v ! g)"
  define rep where "rep = filter (\<lambda>g. snd (fill_cell off ?w1 (vf_cells v ! g))) ?gis"
  have mw: "mark_written f off len v =
      Some (rep, v\<lparr>vf_cells := map new [0..<length (vf_cells v)]\<rparr>)"
    using f tracked_bounds [OF tr f] fill_range_spec [OF range, of off ?w1]
    by (simp add: mark_written_def rep_def new_def del: upt_Suc)
  have mine: "g \<in> set ?gis \<longleftrightarrow> sc_file (all_cells layout ! g) = f" if "g < length (vf_cells v)" for g
    using file_of_cell [of f layout g] f that n by simp
  have keep: "cell_ok (on_disk (ws @ [(f, off, len)])) c0 c" if "cell_ok (on_disk ws) c0 c" "sc_file c0 \<noteq> f" for c0 c
  proof -
    have "cell_set c0 \<inter> write_set (f, off, len) = {}" using that(2) by (auto simp: cell_set_def write_set_def)
    then have "cell_set c0 \<inter> on_disk (ws @ [(f, off, len)]) = cell_set c0 \<inter> on_disk ws" by auto
    then show ?thesis using that(1) by (simp add: cell_ok_def)
  qed
  have new_ok: "cell_ok (on_disk (ws @ [(f, off, len)])) (all_cells layout ! g) (new g)"
    if g: "g < length (vf_cells v)" for g
    using mine [OF g] fill_cell_ok(1) [OF ok [OF g] _ disj] keep [OF ok [OF g]] by (simp add: new_def)
  then have "tracked layout (ws @ [(f, off, len)]) (v\<lparr>vf_cells := map new [0..<length (vf_cells v)]\<rparr>)"
    using tr by (auto simp: tracked_def n list_all2_conv_all_nth)
  moreover have "g \<in> set rep \<longleftrightarrow> g < length (vf_cells v) \<and> undecided (vf_cells v ! g) \<and>
       cell_set (vf_cells v ! g) \<inter> write_set (f, off, len) \<noteq> {} \<and>
       cell_set (vf_cells v ! g) \<subseteq> on_disk (ws @ [(f, off, len)])" (is "_ \<longleftrightarrow> ?rhs") for g
  proof (cases "g < length (vf_cells v)")
    case True
    note cs = cell_set_cong [OF ok [OF True]]
    show ?thesis
    proof (cases "sc_file (all_cells layout ! g) = f")
      case f: True
      then show ?thesis
        using fill_cell_ok(2) [OF ok [OF True] f disj] mine [OF True] True by (auto simp: rep_def cs)
    next
      case False
      then have "cell_set (all_cells layout ! g) \<inter> write_set (f, off, len) = {}"
        by (auto simp: cell_set_def write_set_def)
      then show ?thesis using mine [OF True] False by (auto simp: rep_def cs)
    qed
  next
    case False
    then show ?thesis using range(2) by (auto simp: rep_def)
  qed
  ultimately show ?thesis unfolding mw by blast
qed

section \<open>Histories\<close>

datatype slice_event = Write nat nat nat | Verify nat bytes | Damage nat

fun slice_run :: "hashes \<Rightarrow> slice_event list \<Rightarrow> slice_verifier \<Rightarrow> slice_verifier option" where
  "slice_run h [] v = Some v"
| "slice_run h (Write f off len # es) v =
     (case mark_written f off len v of None \<Rightarrow> None | Some (_, v') \<Rightarrow> slice_run h es v')"
| "slice_run h (Verify g data # es) v = slice_run h es (snd (verify h g data v))"
| "slice_run h (Damage g # es) v = slice_run h es (mark_damaged g v)"

fun writes_of :: "slice_event list \<Rightarrow> file_write list" where
  "writes_of [] = []"
| "writes_of (Write f off len # es) = (f, off, len) # writes_of es"
| "writes_of (_ # es) = writes_of es"

text \<open>Writes go to files of the layout and do not overlap.\<close>

fun apart_writes :: "nat \<Rightarrow> file_write list \<Rightarrow> bool" where
  "apart_writes n [] = True"
| "apart_writes n ((f, off, len) # ws) =
     (f < n \<and> list_all (\<lambda>(f', off', len'). f' \<noteq> f \<or> overlap off (off + len) off' (off' + len') = 0) ws \<and>
      apart_writes n ws)"

lemma write_set_disjoint:
  "write_set (f, off, len) \<inter> write_set (f', off', len') = {} \<longleftrightarrow>
    f' \<noteq> f \<or> overlap off (off + len) off' (off' + len') = 0"
proof (cases "f' = f")
  case True
  have "write_set (f, off, len) \<inter> write_set (f, off', len') =
      {f} \<times> ({off..<off + len} \<inter> {off'..<off' + len'})"
    by (auto simp: write_set_def)
  moreover have "overlap off (off + len) off' (off' + len') = 0 \<longleftrightarrow>
      {max off off'..<min (off + len) (off' + len')} = {}"
    unfolding overlap_def by (simp only: diff_is_0_eq atLeastLessThan_empty_iff not_less)
  ultimately show ?thesis unfolding True Int_atLeastLessThan by simp
next
  case False
  then show ?thesis by (auto simp: write_set_def)
qed

lemma apart_writes_iff:
  "apart_writes n (w # ws) \<longleftrightarrow>
    fst w < n \<and> (\<forall>x \<in> set ws. write_set w \<inter> write_set x = {}) \<and> apart_writes n ws"
proof -
  obtain f off len where w: "w = (f, off, len)" by (cases w)
  have "write_set (f, off, len) \<inter> write_set x = {} \<longleftrightarrow>
      (case x of (f', off', len') \<Rightarrow> f' \<noteq> f \<or> overlap off (off + len) off' (off' + len') = 0)" for x
    by (cases x) (simp add: write_set_disjoint)
  then show ?thesis by (simp add: w list_all_iff)
qed

lemma tracked_decide:
  assumes tr: "tracked layout ws v" and st: "st \<noteq> Unknown"
  shows "tracked layout ws (v\<lparr>vf_cells := (vf_cells v)[g := (vf_cells v ! g)\<lparr>sc_state := st\<rparr>]\<rparr>)"
proof (cases "g < length (vf_cells v)")
  case True
  have l: "list_all2 (cell_ok (on_disk ws)) (all_cells layout) (vf_cells v)" using tr by (simp add: tracked_def)
  then have "cell_ok (on_disk ws) (all_cells layout ! g) (vf_cells v ! g)"
    using True by (simp add: list_all2_nthD2)
  then have "cell_ok (on_disk ws) (all_cells layout ! g) ((vf_cells v ! g)\<lparr>sc_state := st\<rparr>)"
    using st by (simp add: cell_ok_def undecided_def)
  from list_all2_update_cong [OF l this, of g] tr show ?thesis by (simp add: tracked_def)
next
  case False
  then show ?thesis using tr by (simp add: tracked_def list_update_beyond)
qed

lemma tracked_verify: "tracked layout ws v \<Longrightarrow> tracked layout ws (snd (verify h g data v))"
  by (simp add: verify_def Let_def tracked_decide)

lemma tracked_damage: "tracked layout ws v \<Longrightarrow> tracked layout ws (mark_damaged g v)"
  by (simp add: mark_damaged_def tracked_decide)

lemma slice_run_tracked:
  assumes "tracked layout ws v" "apart_writes (length (lay_files layout)) (writes_of es)"
    and "\<forall>w \<in> set (writes_of es). on_disk ws \<inter> write_set w = {}"
  shows "\<exists>v'. slice_run h es v = Some v' \<and> tracked layout (ws @ writes_of es) v'"
  using assms
proof (induction h es v arbitrary: ws rule: slice_run.induct)
  case (2 h f off len es v)
  then obtain reported v' where v': "mark_written f off len v = Some (reported, v')"
      "tracked layout (ws @ [(f, off, len)]) v'"
    using mark_written_tracked [of layout ws v f off len] by auto
  have "\<forall>w \<in> set (writes_of es). on_disk (ws @ [(f, off, len)]) \<inter> write_set w = {}"
    using "2.prems"(2,3) unfolding writes_of.simps apart_writes_iff by auto
  from "2.IH" [OF v'(1) refl v'(2) _ this] "2.prems"(2) v'(1) show ?case by simp
next
  case (3 h g data es v)
  then show ?case using tracked_verify by simp
next
  case (4 h g es v)
  then show ?case using tracked_damage by simp
qed simp

section \<open>Writing and verifying\<close>

text \<open>
  The caller's loop (\<open>record_write\<close> of the slice tracker): every slice a write reports is read back
  and verified at once.  \<open>rd g\<close> is what the file holds for slice \<open>g\<close>.
\<close>

definition verify_all :: "hashes \<Rightarrow> (nat \<Rightarrow> bytes) \<Rightarrow> nat list \<Rightarrow> slice_verifier \<Rightarrow> slice_verifier" where
  "verify_all h rd gs v = fold (\<lambda>g v. snd (verify h g (rd g) v)) gs v"

fun feed :: "hashes \<Rightarrow> (nat \<Rightarrow> bytes) \<Rightarrow> file_write list \<Rightarrow> slice_verifier \<Rightarrow> slice_verifier option" where
  "feed h rd [] v = Some v"
| "feed h rd ((f, off, len) # ws) v =
     (case mark_written f off len v of
        None \<Rightarrow> None
      | Some (reported, v') \<Rightarrow> feed h rd ws (verify_all h rd reported v'))"

definition matches :: "hashes \<Rightarrow> slice_layout \<Rightarrow> nat \<Rightarrow> bytes \<Rightarrow> bool" where
  "matches h layout g data \<longleftrightarrow>
    (let padded = resize (lay_slice_size layout) 0 data; d = sc_expected (all_cells layout ! g) in
     hash_md5 h padded = dg_md5 d \<and> hash_crc32 h padded = dg_crc32 d)"

lemma tracked_length: "tracked layout ws v \<Longrightarrow> length (vf_cells v) = length (all_cells layout)"
  by (auto simp: tracked_def dest: list_all2_lengthD)

lemma tracked_cell:
  "tracked layout ws v \<Longrightarrow> g < length (all_cells layout) \<Longrightarrow>
    cell_ok (on_disk ws) (all_cells layout ! g) (vf_cells v ! g)"
  by (auto simp: tracked_def intro: list_all2_nthD)

lemma verify_states:
  assumes "tracked layout ws v" "g < length (all_cells layout)"
  shows "states (snd (verify h g data v)) = (states v)[g := if matches h layout g data then Verified else Damaged]"
  using assms tracked_length [OF assms(1)] tracked_cell [OF assms]
  by (simp add: verify_def Let_def states_def map_update matches_def tracked_def cell_ok_def)

lemma verify_all_states:
  assumes "tracked layout ws v" "\<forall>g \<in> set gs. g < length (all_cells layout) \<and> matches h layout g (rd g)"
  shows "tracked layout ws (verify_all h rd gs v) \<and>
    states (verify_all h rd gs v) = map (\<lambda>g. if g \<in> set gs then Verified else states v ! g) [0..<length (states v)]"
  using assms
proof (induction gs arbitrary: v)
  case Nil
  then show ?case by (simp add: verify_all_def map_nth)
next
  case (Cons g gs)
  let ?v = "snd (verify h g (rd g) v)"
  have tr: "tracked layout ws ?v" using Cons.prems(1) by (rule tracked_verify)
  have st: "states ?v = (states v)[g := Verified]"
    using verify_states [OF Cons.prems(1), of g h "rd g"] Cons.prems(2) by simp
  have "g < length (states v)" using Cons.prems tracked_length [OF Cons.prems(1)] by (simp add: states_def)
  then have "map (\<lambda>x. if x \<in> set gs then Verified else states ?v ! x) [0..<length (states ?v)] =
      map (\<lambda>x. if x \<in> set (g # gs) then Verified else states v ! x) [0..<length (states v)]"
    unfolding st by (intro map_cong) (auto simp: nth_list_update)
  then show ?case using Cons.IH [OF tr] Cons.prems(2) by (simp add: verify_all_def)
qed

text \<open>A slice is verified once it is on disk, and undecided before.\<close>

definition settled :: "slice_layout \<Rightarrow> file_write list \<Rightarrow> slice_verifier \<Rightarrow> bool" where
  "settled layout ws v \<longleftrightarrow>
    states v = map (\<lambda>g. if cell_set (all_cells layout ! g) \<subseteq> on_disk ws then Verified else Unknown)
      [0..<length (all_cells layout)]"

lemma mark_written_states:
  assumes "mark_written f off len v = Some (reported, v')" "tracked layout ws v" "f < length (lay_files layout)"
  shows "states v' = states v"
proof -
  let ?gis = "[first_cell layout f..<first_cell layout (Suc f)]"
  have n: "length (vf_cells v) = length (all_cells layout)" using assms(2) by (rule tracked_length)
  have range: "distinct ?gis" "\<forall>g \<in> set ?gis. g < length (vf_cells v)"
    using first_cell_le [of layout "Suc f"] by (auto simp: n)
  have "vf_cells v' = map (\<lambda>g. if g \<in> set ?gis then fst (fill_cell off (off + len) (vf_cells v ! g)) else vf_cells v ! g)
      [0..<length (vf_cells v)]"
    using assms(1,3) tracked_bounds [OF assms(2,3)] fill_range_spec [OF range, of off "off + len"]
    by (auto simp: mark_written_def simp del: upt_Suc)
  moreover have "sc_state (fst (fill_cell a b c)) = sc_state c" for a b c
    by (simp add: fill_cell_def Let_def)
  ultimately show ?thesis
    by (auto simp: states_def intro!: nth_equalityI)
qed

lemma feed_settled:
  assumes "tracked layout done_ws v" "settled layout done_ws v"
    and "apart_writes (length (lay_files layout)) ws" "\<forall>w \<in> set ws. on_disk done_ws \<inter> write_set w = {}"
    and good: "\<forall>g < length (all_cells layout). matches h layout g (rd g)"
  shows "\<exists>v'. feed h rd ws v = Some v' \<and> settled layout (done_ws @ ws) v'"
  using assms(1-4)
proof (induction ws arbitrary: done_ws v)
  case (Cons w ws)
  obtain f off len where w: "w = (f, off, len)" by (cases w)
  let ?ws = "done_ws @ [(f, off, len)]"
  have f: "f < length (lay_files layout)" and disj: "on_disk done_ws \<inter> write_set (f, off, len) = {}"
    using Cons.prems(3,4) by (auto simp: w)
  obtain reported v' where mw: "mark_written f off len v = Some (reported, v')" "tracked layout ?ws v'"
    and rep: "\<And>g. g \<in> set reported \<longleftrightarrow> g < length (vf_cells v) \<and> undecided (vf_cells v ! g) \<and>
       cell_set (vf_cells v ! g) \<inter> write_set (f, off, len) \<noteq> {} \<and> cell_set (vf_cells v ! g) \<subseteq> on_disk ?ws"
    using mark_written_tracked [OF Cons.prems(1) f disj] by blast
  have n: "length (vf_cells v) = length (all_cells layout)" using Cons.prems(1) by (rule tracked_length)
  have st: "states v' = states v" by (rule mark_written_states [OF mw(1) Cons.prems(1) f])
  have "\<forall>g \<in> set reported. g < length (all_cells layout) \<and> matches h layout g (rd g)" using rep good n by simp
  from verify_all_states [OF mw(2) this]
  have va: "tracked layout ?ws (verify_all h rd reported v')"
    "states (verify_all h rd reported v') =
      map (\<lambda>g. if g \<in> set reported then Verified else states v ! g) [0..<length (states v)]"
    by (simp_all add: st)
  have "(if g \<in> set reported then Verified else states v ! g) =
      (if cell_set (all_cells layout ! g) \<subseteq> on_disk ?ws then Verified else Unknown)"
    if g: "g < length (all_cells layout)" for g
  proof -
    have cs: "cell_set (vf_cells v ! g) = cell_set (all_cells layout ! g)"
      using cell_set_cong [OF tracked_cell [OF Cons.prems(1) g]] .
    have s: "states v ! g = (if cell_set (all_cells layout ! g) \<subseteq> on_disk done_ws then Verified else Unknown)"
      using Cons.prems(2) g by (simp add: settled_def)
    then have u: "undecided (vf_cells v ! g) \<longleftrightarrow> \<not> cell_set (all_cells layout ! g) \<subseteq> on_disk done_ws"
      using g n by (auto simp: states_def undecided_def split: if_splits)
    show ?thesis unfolding rep cs u s using g n by auto
  qed
  then have set': "settled layout ?ws (verify_all h rd reported v')"
    unfolding settled_def va(2) using n by (auto simp: states_def)
  have rest: "apart_writes (length (lay_files layout)) ws" "\<forall>x \<in> set ws. on_disk ?ws \<inter> write_set x = {}"
    using Cons.prems(3,4) unfolding apart_writes_iff w by auto
  from Cons.IH [OF va(1) set' rest] mw(1) show ?case by (simp add: w)
qed simp

lemma nth_all_cells:
  assumes "f < length (lay_files layout)" "i < length (fsl_slices (lay_files layout ! f))"
  shows "first_cell layout f + i < length (all_cells layout)"
    "all_cells layout ! (first_cell layout f + i) =
      new_cell (lay_slice_size layout) f (fsl_size (lay_files layout ! f)) i (fsl_slices (lay_files layout ! f) ! i)"
proof -
  have "sum_list (map (length \<circ> fsl_slices) (take f fs)) + i < length (concat (map (file_cells k) (enumerate m fs))) \<and>
    concat (map (file_cells k) (enumerate m fs)) ! (sum_list (map (length \<circ> fsl_slices) (take f fs)) + i) =
      new_cell k (m + f) (fsl_size (fs ! f)) i (fsl_slices (fs ! f) ! i)"
    if "f < length fs" "i < length (fsl_slices (fs ! f))" for f k m and fs :: "file_slices list"
    using that
  proof (induction fs arbitrary: f m)
    case (Cons x fs)
    then show ?case by (cases f) (auto simp: nth_append nth_file_cells)
  qed simp
  from this [of f "lay_files layout" "lay_slice_size layout" 0] assms
  show "first_cell layout f + i < length (all_cells layout)"
    "all_cells layout ! (first_cell layout f + i) =
      new_cell (lay_slice_size layout) f (fsl_size (lay_files layout ! f)) i (fsl_slices (lay_files layout ! f) ! i)"
    by (auto simp: first_cell_def all_cells_def)
qed

section \<open>Properties\<close>

text \<open>The slices of a file tile it: when the file has slices enough for its size, the byte at
  offset \<open>x\<close> belongs to slice \<open>x div slice_size\<close> and to no other, and no slice reaches past
  the end.\<close>

theorem slices_tile_file:
  assumes "f < length (lay_files layout)" "i < length (fsl_slices (lay_files layout ! f))"
    and "x < fsl_size (lay_files layout ! f)" "0 < lay_slice_size layout"
  shows "\<exists>start len. slice_range (first_cell layout f + i) (verifier_new layout) = Some (f, start, len) \<and>
    (start \<le> x \<and> x < start + len \<longleftrightarrow> i = x div lay_slice_size layout) \<and>
    (0 < len \<longrightarrow> start + len \<le> fsl_size (lay_files layout ! f))"
proof -
  let ?k = "lay_slice_size layout" and ?n = "fsl_size (lay_files layout ! f)"
  have in_slice: "i * ?k \<le> x \<and> x < i * ?k + min (?n - i * ?k) ?k \<longleftrightarrow> i = x div ?k"
  proof
    assume "i * ?k \<le> x \<and> x < i * ?k + min (?n - i * ?k) ?k"
    then have "?k * i \<le> x" "x < ?k * Suc i" by (auto simp: mult.commute)
    then show "i = x div ?k" using div_nat_eqI [of ?k i x] by simp
  next
    assume i: "i = x div ?k"
    have "x div ?k * ?k \<le> x" "x < x div ?k * ?k + ?k"
      using mod_less_divisor [OF assms(4), of x] div_mult_mod_eq [of x ?k] by linarith+
    then show "i * ?k \<le> x \<and> x < i * ?k + min (?n - i * ?k) ?k" using assms(3) i by (auto simp: min_def)
  qed
  have "slice_range (first_cell layout f + i) (verifier_new layout) = Some (f, i * ?k, min (?n - i * ?k) ?k)"
    using nth_all_cells [OF assms(1,2)] by (simp add: slice_range_def verifier_new_eq new_cell_def Let_def)
  then show ?thesis using in_slice by auto
qed

definition demo_layout :: slice_layout where
  "demo_layout = \<lparr>lay_slice_size = 4, lay_files =
     [\<lparr>fsl_size = 3, fsl_slices = [\<lparr>dg_md5 = [1], dg_crc32 = 1\<rparr>]\<rparr>,
      \<lparr>fsl_size = 6, fsl_slices = [\<lparr>dg_md5 = [2], dg_crc32 = 2\<rparr>, \<lparr>dg_md5 = [3], dg_crc32 = 3\<rparr>]\<rparr>]\<rparr>"

theorem slices_tile_file_witness:
  "\<exists>start len. slice_range 2 (verifier_new demo_layout) = Some (1, start, len) \<and> start \<le> 5 \<and> 5 < start + len"
proof -
  have "1 < length (lay_files demo_layout)" "1 < length (fsl_slices (lay_files demo_layout ! 1))"
    "5 < fsl_size (lay_files demo_layout ! 1)" "0 < lay_slice_size demo_layout"
    "first_cell demo_layout 1 + 1 = 2" "1 = 5 div lay_slice_size demo_layout"
    by (simp_all add: demo_layout_def first_cell_def)
  then show ?thesis using slices_tile_file [of 1 demo_layout 1 5] by (metis (no_types, lifting))
qed

text \<open>C19. Along any history of verdicts and non-overlapping writes from a fresh verifier, no index is
  out of range, and a further write that overlaps none of them reports exactly the undecided slices
  it touches whose bytes are now all on disk.\<close>

theorem slice_reported_when_full:
  assumes "apart_writes (length (lay_files layout)) (writes_of (es @ [Write f off len]))"
  shows "\<exists>v reported v'. slice_run h es (verifier_new layout) = Some v \<and> mark_written f off len v = Some (reported, v') \<and>
    (\<forall>g. g \<in> set reported \<longleftrightarrow> g < total_slices v \<and> states v ! g = Unknown \<and>
       cell_set (all_cells layout ! g) \<inter> write_set (f, off, len) \<noteq> {} \<and>
       cell_set (all_cells layout ! g) \<subseteq> on_disk (writes_of (es @ [Write f off len])))"
proof -
  have wa: "writes_of (es @ es') = writes_of es @ writes_of es'" for es es'
    by (induction es rule: writes_of.induct) auto
  have split: "apart_writes n (ws @ [w]) \<longleftrightarrow> apart_writes n ws \<and> fst w < n \<and> on_disk ws \<inter> write_set w = {}" for n ws w
    by (induction ws) (auto simp: apart_writes_iff on_disk_def simp del: apart_writes.simps(2))
  have ap: "apart_writes (length (lay_files layout)) (writes_of es)" "f < length (lay_files layout)"
    "on_disk (writes_of es) \<inter> write_set (f, off, len) = {}"
    using assms by (simp_all add: wa split)
  obtain v where v: "slice_run h es (verifier_new layout) = Some v" "tracked layout (writes_of es) v"
    using slice_run_tracked [OF tracked_new ap(1)] by auto
  have n: "length (vf_cells v) = length (all_cells layout)" using v(2) by (rule tracked_length)
  have cs: "cell_set (vf_cells v ! g) = cell_set (all_cells layout ! g)" if "g < length (all_cells layout)" for g
    using cell_set_cong [OF tracked_cell [OF v(2) that]] .
  obtain reported v' where mw: "mark_written f off len v = Some (reported, v')"
    and rep: "\<And>g. g \<in> set reported \<longleftrightarrow> g < length (vf_cells v) \<and> undecided (vf_cells v ! g) \<and>
       cell_set (vf_cells v ! g) \<inter> write_set (f, off, len) \<noteq> {} \<and>
       cell_set (vf_cells v ! g) \<subseteq> on_disk (writes_of es @ [(f, off, len)])"
    using mark_written_tracked [OF v(2) ap(2,3)] by blast
  have "\<forall>g. g \<in> set reported \<longleftrightarrow> g < total_slices v \<and> states v ! g = Unknown \<and>
       cell_set (all_cells layout ! g) \<inter> write_set (f, off, len) \<noteq> {} \<and>
       cell_set (all_cells layout ! g) \<subseteq> on_disk (writes_of (es @ [Write f off len]))"
    using rep cs n by (auto simp: total_slices_def states_def undecided_def wa)
  with v(1) mw show ?thesis by blast
qed

theorem slice_reported_when_full_witness:
  "\<exists>v reported v'. slice_run \<lparr>hash_md5 = id, hash_crc32 = (\<lambda>_. 0)\<rparr> [Write 1 2 2] (verifier_new demo_layout) = Some v \<and>
    mark_written 1 0 2 v = Some (reported, v') \<and> 1 \<in> set reported \<and> 2 \<notin> set reported"
proof -
  have ap: "apart_writes (length (lay_files demo_layout)) (writes_of ([Write 1 2 2] @ [Write 1 0 2]))"
    by (simp add: demo_layout_def overlap_def)
  have cells: "all_cells demo_layout = [new_cell 4 0 3 0 \<lparr>dg_md5 = [1], dg_crc32 = 1\<rparr>,
      new_cell 4 1 6 0 \<lparr>dg_md5 = [2], dg_crc32 = 2\<rparr>, new_cell 4 1 6 1 \<lparr>dg_md5 = [3], dg_crc32 = 3\<rparr>]"
    by (simp add: all_cells_def demo_layout_def file_cells_def)
  obtain v reported v' where r: "slice_run \<lparr>hash_md5 = id, hash_crc32 = (\<lambda>_. 0)\<rparr> [Write 1 2 2] (verifier_new demo_layout) = Some v"
      "mark_written 1 0 2 v = Some (reported, v')"
    and rep: "\<And>g. g \<in> set reported \<longleftrightarrow> g < total_slices v \<and> states v ! g = Unknown \<and>
       cell_set (all_cells demo_layout ! g) \<inter> write_set (1, 0, 2) \<noteq> {} \<and>
       cell_set (all_cells demo_layout ! g) \<subseteq> on_disk [(1, 2, 2), (1, 0, 2)]"
    using slice_reported_when_full [OF ap, of "\<lparr>hash_md5 = id, hash_crc32 = (\<lambda>_. 0)\<rparr>"] by auto
  obtain r0 where mw: "mark_written 1 2 2 (verifier_new demo_layout) = Some (r0, v)"
    using r(1) by (auto split: option.splits)
  have "states v = states (verifier_new demo_layout)"
    by (rule mark_written_states [OF mw tracked_new]) (simp add: demo_layout_def)
  then have st: "states v = [Unknown, Unknown, Unknown]"
    by (simp add: states_def verifier_new_eq cells new_cell_def)
  then have "total_slices v = 3" by (metis One_nat_def Suc_eq_plus1 length_Cons length_map list.size(3) numeral_3_eq_3 states_def total_slices_def)
  have d: "on_disk [(1, 2, 2), (1, 0, 2)] = {1} \<times> {0..<4}" "write_set (1, 0, 2) = {1} \<times> {0..<2}"
    by (auto simp: on_disk_def write_set_def)
  have c: "cell_set (all_cells demo_layout ! 1) = {1} \<times> {0..<4}" "cell_set (all_cells demo_layout ! 2) = {1} \<times> {4..<6}"
    by (simp_all add: cells new_cell_def cell_set_def)
  have "1 \<in> set reported"
    unfolding rep c d using st \<open>total_slices v = 3\<close> by (auto simp: set_eq_iff intro!: exI [of _ 0])
  moreover have "2 \<notin> set reported"
    unfolding rep c d by (auto simp: set_eq_iff)
  ultimately show ?thesis using r by blast
qed

text \<open>C17. When a job's writes are disjoint and together cover every slice, and each reported slice
  reads back as bytes with the expected checksums, the verifier ends with every slice \<open>Verified\<close>:
  nothing is left undecided and nothing is damaged.\<close>

theorem clean_download_verifies:
  assumes "apart_writes (length (lay_files layout)) ws"
    and "\<forall>g < length (all_cells layout). matches h layout g (rd g)"
    and "\<forall>c \<in> set (all_cells layout). 0 < sc_len c \<and> cell_set c \<subseteq> on_disk ws"
  shows "\<exists>v. feed h rd ws (verifier_new layout) = Some v \<and>
    states v = replicate (length (all_cells layout)) Verified \<and> verifier_is_complete v \<and> damaged_count v = 0"
proof -
  have "\<not> cell_set (all_cells layout ! g) \<subseteq> on_disk []" if "g < length (all_cells layout)" for g
    using assms(3) nth_mem [OF that] by (auto simp: cell_set_def)
  then have "settled layout [] (verifier_new layout)"
    by (auto simp: settled_def states_def verifier_new_eq all_cells_fresh [OF nth_mem] intro!: nth_equalityI)
  from feed_settled [OF tracked_new this assms(1) _ assms(2)]
  obtain v where v: "feed h rd ws (verifier_new layout) = Some v" "settled layout ws v" by auto
  have st: "states v = replicate (length (all_cells layout)) Verified"
    using v(2) assms(3) by (auto simp: settled_def intro!: nth_equalityI)
  then have "\<forall>c \<in> set (vf_cells v). sc_state c = Verified"
    by (metis imageI in_set_replicate list.set_map states_def)
  then show ?thesis using v(1) st
    by (auto simp: verifier_is_complete_def damaged_count_def list_all_iff filter_empty_conv)
qed

theorem clean_download_verifies_witness:
  "\<exists>v. feed \<lparr>hash_md5 = id, hash_crc32 = (\<lambda>_. 7)\<rparr> (\<lambda>g. [5, 6])
      [(0, 1, 1), (0, 0, 1)] (verifier_new \<lparr>lay_slice_size = 2, lay_files =
        [\<lparr>fsl_size = 2, fsl_slices = [\<lparr>dg_md5 = [5, 6], dg_crc32 = 7\<rparr>]\<rparr>]\<rparr>) = Some v \<and> damaged_count v = 0"
proof -
  let ?layout = "\<lparr>lay_slice_size = 2, lay_files = [\<lparr>fsl_size = 2, fsl_slices = [\<lparr>dg_md5 = [5, 6], dg_crc32 = 7\<rparr>]\<rparr>]\<rparr>"
  have cells: "all_cells ?layout = [new_cell 2 0 2 0 \<lparr>dg_md5 = [5, 6], dg_crc32 = 7\<rparr>]"
    by (simp add: all_cells_def file_cells_def)
  have "apart_writes (length (lay_files ?layout)) [(0, 1, 1), (0, 0, 1)]"
    by (simp add: overlap_def)
  moreover have "\<forall>g < length (all_cells ?layout). matches \<lparr>hash_md5 = id, hash_crc32 = (\<lambda>_. 7)\<rparr> ?layout g [5, 6]"
    by (simp add: cells matches_def resize_def new_cell_def)
  moreover have "\<forall>c \<in> set (all_cells ?layout). 0 < sc_len c \<and> cell_set c \<subseteq> on_disk [(0, 1, 1), (0, 0, 1)]"
    by (auto simp: cells new_cell_def cell_set_def on_disk_def write_set_def)
  ultimately show ?thesis
    using clean_download_verifies [of ?layout "[(0, 1, 1), (0, 0, 1)]" "\<lparr>hash_md5 = id, hash_crc32 = (\<lambda>_. 7)\<rparr>" "\<lambda>g. [5, 6]"]
    by blast
qed

text \<open>Overlapping writes are counted twice: when the first half of a slice is written a second
  time the slice is reported although its second half is still missing, the read-back then fails,
  and the verdict \<open>Damaged\<close> stays when the missing half arrives.\<close>

theorem slice_overlap_counts_twice:
  assumes "0 < m" "hash_md5 h stale \<noteq> dg_md5 d" "length stale = 2 * m"
  shows "\<exists>v1 v2 v3. slice_run h [Write 0 0 m]
      (verifier_new \<lparr>lay_slice_size = 2 * m, lay_files = [\<lparr>fsl_size = 2 * m, fsl_slices = [d]\<rparr>]\<rparr>) = Some v1 \<and>
    mark_written 0 0 m v1 = Some ([0], v2) \<and>
    slice_run h [Verify 0 stale, Write 0 m m] v2 = Some v3 \<and> states v3 = [Damaged]"
  using assms
  by (simp add: verifier_new_eq all_cells_def file_cells_def new_cell_def first_cell_def mark_written_def
      fill_cell_def overlap_def verify_def resize_def states_def Let_def upt_rec)

theorem slice_overlap_counts_twice_witness:
  "\<exists>v1 v2. mark_written 0 0 1 v1 = Some ([0], v2)"
  using slice_overlap_counts_twice [of 1 "\<lparr>hash_md5 = id, hash_crc32 = (\<lambda>_. 0)\<rparr>" "[5, 0]" "\<lparr>dg_md5 = [5, 6], dg_crc32 = 0\<rparr>"]
  by auto

end
