(* ===== verification/Assembler.thy ===== *)
theory Assembler
  imports Prelude "HOL-Library.AList"
begin

text \<open>
  The file assembler, \<open>crates/nzb-decode/src/assembler.rs\<close>: registration of output files, the
  checks and the positional write of one article, the bitmap of written segments.  File contents are
  a map from paths to bytes; the outcome of the system calls is the parameter \<open>io\<close>.  The last
  section splits \<open>assemble_article\<close> at its atomic operations for threads that share a file.
\<close>

section \<open>Errors and state\<close>


datatype assembler_error =
    Assembler_Io
  | FileNotRegistered byte_string byte_string
  | SegmentOutOfRange u32 u32
  | EmptySegmentData u32
  | WriteBeyondDeclaredSize u32 nat nat nat

record file_state =
  as_path :: path
  as_total :: u32
  as_numbers :: "u32 list option"
  as_declared :: "nat option"
  as_written :: "bool list"
  as_count :: u32

type_synonym file_key = "byte_string \<times> byte_string"

record assembler =
  asm_files :: "(file_key \<times> file_state) list"
  asm_disk :: "path \<Rightarrow> bytes option"

text \<open>
  \<open>io_open p\<close>: creating the parent directory and opening the file succeed.  \<open>io_write p off d\<close>:
  \<open>None\<close> when \<open>write_all_at\<close> succeeds, \<open>Some n\<close> when it fails after \<open>n\<close> bytes.
\<close>

record io_env =
  io_open :: "path \<Rightarrow> bool"
  io_write :: "path \<Rightarrow> nat \<Rightarrow> bytes \<Rightarrow> nat option"

definition asm_new :: "(path \<Rightarrow> bytes option) \<Rightarrow> assembler" where
  "asm_new disk = \<lparr>asm_files = [], asm_disk = disk\<rparr>"

section \<open>The per-file state\<close>

definition index_of :: "u32 \<Rightarrow> file_state \<Rightarrow> nat option" where
  "index_of seg s =
    (case as_numbers s of
       None \<Rightarrow> if seg \<noteq> 0 \<and> seg \<le> as_total s then Some (unat (seg - 1)) else None
     | Some numbers \<Rightarrow> position (\<lambda>x. x = seg) numbers)"

text \<open>The two atomic operations of \<open>mark_written\<close>: \<open>swap(1)\<close> on the flag, \<open>fetch_add(1)\<close> on the counter.\<close>

definition swap_flag :: "nat \<Rightarrow> file_state \<Rightarrow> bool \<times> file_state" where
  "swap_flag i s = (as_written s ! i, s\<lparr>as_written := (as_written s)[i := True]\<rparr>)"

definition add_count :: "file_state \<Rightarrow> u32 \<times> file_state" where
  "add_count s = (as_count s + 1, s\<lparr>as_count := as_count s + 1\<rparr>)"

definition asm_mark_written :: "u32 \<Rightarrow> file_state \<Rightarrow> bool \<times> file_state" where
  "asm_mark_written seg s =
    (case index_of seg s of
       None \<Rightarrow> (False, s)
     | Some i \<Rightarrow>
         (case swap_flag i s of (prev, s1) \<Rightarrow>
            if prev then (False, s1)
            else (case add_count s1 of (n, s2) \<Rightarrow> (n = as_total s2, s2))))"

definition file_state_new ::
  "path \<Rightarrow> u32 list option \<Rightarrow> u32 \<Rightarrow> u32 list \<Rightarrow> nat option \<Rightarrow> file_state" where
  "file_state_new p numbers tot completed declared =
    fold (\<lambda>seg s. snd (asm_mark_written seg s)) completed
      \<lparr>as_path = p, as_total = tot, as_numbers = numbers, as_declared = declared,
       as_written = replicate (unat tot) False, as_count = 0\<rparr>"

definition asm_is_complete :: "file_state \<Rightarrow> bool" where
  "asm_is_complete s \<longleftrightarrow> as_count s = as_total s"

definition progress :: "file_state \<Rightarrow> u32 \<times> u32" where
  "progress s = (as_count s, as_total s)"

definition segment_at :: "file_state \<Rightarrow> nat \<Rightarrow> u32" where
  "segment_at s i = (case as_numbers s of None \<Rightarrow> of_nat (i + 1) | Some numbers \<Rightarrow> numbers ! i)"

definition state_missing_segments :: "file_state \<Rightarrow> u32 list" where
  "state_missing_segments s =
    map (segment_at s) (filter (\<lambda>i. \<not> as_written s ! i) [0..<length (as_written s)])"

section \<open>Registration\<close>

definition register_inner ::
  "io_env \<Rightarrow> file_key \<Rightarrow> path \<Rightarrow> u32 list option \<Rightarrow> u32 \<Rightarrow> u32 list \<Rightarrow> nat option \<Rightarrow> assembler
    \<Rightarrow> (assembler_error + unit) \<times> assembler" where
  "register_inner io key p numbers tot completed declared a =
    (if \<not> io_open io p then (Inl Assembler_Io, a)
     else
       (Inr (),
        a\<lparr>asm_files := AList.update key (file_state_new p numbers tot completed declared) (asm_files a),
          asm_disk := (case asm_disk a p of Some _ \<Rightarrow> asm_disk a | None \<Rightarrow> (asm_disk a)(p \<mapsto> []))\<rparr>))"

definition register_file_with_completed_segments ::
  "io_env \<Rightarrow> file_key \<Rightarrow> path \<Rightarrow> u32 \<Rightarrow> u32 list \<Rightarrow> assembler \<Rightarrow> (assembler_error + unit) \<times> assembler" where
  "register_file_with_completed_segments io key p tot completed a =
    register_inner io key p None tot completed None a"

definition register_file ::
  "io_env \<Rightarrow> file_key \<Rightarrow> path \<Rightarrow> u32 \<Rightarrow> assembler \<Rightarrow> (assembler_error + unit) \<times> assembler" where
  "register_file io key p tot a = register_file_with_completed_segments io key p tot [] a"

definition expected_numbers :: "u32 list \<Rightarrow> u32 list" where
  "expected_numbers numbers = remdups_adj (sort (filter (\<lambda>n. n \<noteq> 0) numbers))"

definition is_contiguous :: "u32 list \<Rightarrow> bool" where
  "is_contiguous numbers \<longleftrightarrow> numbers = [] \<or> last numbers = of_nat (length numbers)"

definition register_file_with_segment_numbers ::
  "io_env \<Rightarrow> file_key \<Rightarrow> path \<Rightarrow> u32 list \<Rightarrow> u32 list \<Rightarrow> nat option \<Rightarrow> assembler
    \<Rightarrow> (assembler_error + unit) \<times> assembler" where
  "register_file_with_segment_numbers io key p segment_numbers completed declared a =
    (let numbers = expected_numbers segment_numbers in
     register_inner io key p (if is_contiguous numbers then None else Some numbers)
       (of_nat (length numbers)) completed declared a)"

section \<open>Queries\<close>

definition declared_bytes :: "file_key \<Rightarrow> assembler \<Rightarrow> nat option" where
  "declared_bytes key a = Option.bind (map_of (asm_files a) key) as_declared"

definition segment_gap :: "file_key \<Rightarrow> assembler \<Rightarrow> (u32 \<times> u32) option" where
  "segment_gap key a =
    (case map_of (asm_files a) key of
       None \<Rightarrow> None
     | Some s \<Rightarrow>
         (case as_numbers s of
            None \<Rightarrow> None
          | Some numbers \<Rightarrow> Some (as_total s, if numbers = [] then 0 else last numbers)))"

definition is_file_complete :: "file_key \<Rightarrow> assembler \<Rightarrow> bool" where
  "is_file_complete key a = (case map_of (asm_files a) key of None \<Rightarrow> False | Some s \<Rightarrow> asm_is_complete s)"

definition get_file_progress :: "file_key \<Rightarrow> assembler \<Rightarrow> u32 \<times> u32" where
  "get_file_progress key a = (case map_of (asm_files a) key of None \<Rightarrow> (0, 0) | Some s \<Rightarrow> progress s)"

definition missing_segments :: "file_key \<Rightarrow> assembler \<Rightarrow> u32 list" where
  "missing_segments key a = (case map_of (asm_files a) key of None \<Rightarrow> [] | Some s \<Rightarrow> state_missing_segments s)"

definition asm_clear_job :: "byte_string \<Rightarrow> assembler \<Rightarrow> assembler" where
  "asm_clear_job job a = a\<lparr>asm_files := filter (\<lambda>(k, _). fst k \<noteq> job) (asm_files a)\<rparr>"

section \<open>Writing an article\<close>

text \<open>\<open>pwrite\<close>: a write past the end fills the gap with zeros.\<close>

definition pwrite :: "bytes \<Rightarrow> nat \<Rightarrow> bytes \<Rightarrow> bytes" where
  "pwrite d off c = take off c @ replicate (off - length c) 0 @ d @ drop (off + length d) c"

definition u64_max :: nat where
  "u64_max = 2 ^ 64 - 1"

definition article_end :: "nat \<Rightarrow> bytes \<Rightarrow> nat" where
  "article_end begin_at d = min (begin_at + length d) u64_max"

text \<open>The checks that precede the write.\<close>

definition check_article :: "u32 \<Rightarrow> nat \<Rightarrow> bytes \<Rightarrow> file_state \<Rightarrow> assembler_error option" where
  "check_article seg begin_at d s =
    (if index_of seg s = None then Some (SegmentOutOfRange seg (as_total s))
     else if d = [] then Some (EmptySegmentData seg)
     else
       (case as_declared s of
          None \<Rightarrow> None
        | Some declared \<Rightarrow>
            if declared < article_end begin_at d
            then Some (WriteBeyondDeclaredSize seg begin_at (article_end begin_at d) declared)
            else None))"

definition disk_write :: "path \<Rightarrow> nat \<Rightarrow> bytes \<Rightarrow> assembler \<Rightarrow> assembler" where
  "disk_write p off d a =
    a\<lparr>asm_disk := (asm_disk a)(p \<mapsto> pwrite d off (case asm_disk a p of Some c \<Rightarrow> c | None \<Rightarrow> []))\<rparr>"

definition assemble_article ::
  "io_env \<Rightarrow> file_key \<Rightarrow> u32 \<Rightarrow> nat \<Rightarrow> bytes \<Rightarrow> assembler \<Rightarrow> (assembler_error + bool) \<times> assembler" where
  "assemble_article io key seg begin_at d a =
    (case map_of (asm_files a) key of
       None \<Rightarrow> (Inl (FileNotRegistered (fst key) (snd key)), a)
     | Some s \<Rightarrow>
         (case check_article seg begin_at d s of
            Some err \<Rightarrow> (Inl err, a)
          | None \<Rightarrow>
              (case io_write io (as_path s) begin_at d of
                 Some n \<Rightarrow> (Inl Assembler_Io, disk_write (as_path s) begin_at (take n d) a)
               | None \<Rightarrow>
                   (case asm_mark_written seg s of (now, s') \<Rightarrow>
                     (Inr now,
                      (disk_write (as_path s) begin_at d a)
                        \<lparr>asm_files := AList.update key s' (asm_files a)\<rparr>)))))"

section \<open>Threads on one file\<close>

text \<open>
  A thread inside \<open>assemble_article\<close> after the checks: about to write, about to mark its flag, about
  to count (only when the flag was clear), or returned.
\<close>

datatype asm_thread =
    Write_Next u32 nat bytes
  | Swap_Next u32
  | Add_Next u32
  | Returned u32 bool

type_synonym asm_world = "file_state \<times> bytes \<times> asm_thread list"

inductive asm_step :: "asm_world \<Rightarrow> asm_world \<Rightarrow> bool" where
  do_write: "i < length ts \<Longrightarrow> ts ! i = Write_Next seg off d \<Longrightarrow>
    asm_step (s, c, ts) (s, pwrite d off c, ts[i := Swap_Next seg])"
| do_swap_first: "i < length ts \<Longrightarrow> ts ! i = Swap_Next seg \<Longrightarrow> index_of seg s = Some k \<Longrightarrow>
    swap_flag k s = (False, s') \<Longrightarrow> asm_step (s, c, ts) (s', c, ts[i := Add_Next seg])"
| do_swap_again: "i < length ts \<Longrightarrow> ts ! i = Swap_Next seg \<Longrightarrow> index_of seg s = Some k \<Longrightarrow>
    swap_flag k s = (True, s') \<Longrightarrow> asm_step (s, c, ts) (s', c, ts[i := Returned seg False])"
| do_add: "i < length ts \<Longrightarrow> ts ! i = Add_Next seg \<Longrightarrow> add_count s = (n, s') \<Longrightarrow>
    asm_step (s, c, ts) (s', c, ts[i := Returned seg (n = as_total s')])"

end
