(* ===== verification/Assembler_Proofs.thy ===== *)
theory Assembler_Proofs
  imports Assembler
begin

text \<open>
  Correctness of the assembler: positional writes (read-back, order independence, the declared
  size), the set of expected segments of a registration, and the threads that share a file: the
  completion is reported once and only when everything is on disk.
\<close>

section \<open>Positional writes\<close>

lemma length_pwrite: "length (pwrite d off c) = max (length c) (off + length d)"
  by (auto simp: pwrite_def)

lemma nth_pwrite:
  "x < length (pwrite d off c) \<Longrightarrow>
    pwrite d off c ! x =
      (if off \<le> x \<and> x < off + length d then d ! (x - off) else if x < length c then c ! x else 0)"
proof -
  assume x: "x < length (pwrite d off c)"
  define p where "p = take off c @ replicate (off - length c) 0"
  have l: "length p = off" "length (p @ d) = off + length d" by (simp_all add: p_def)
  have "pwrite d off c = (p @ d) @ drop (off + length d) c" by (simp add: pwrite_def p_def)
  then have "pwrite d off c ! x =
      (if x < off then p ! x
       else if x < off + length d then d ! (x - off) else drop (off + length d) c ! (x - (off + length d)))"
    using nth_append [of p d x] nth_append [of "p @ d" _ x] l by simp
  then show ?thesis using x by (auto simp: p_def nth_append length_pwrite)
qed

lemma pwrite_readback: "take (length d) (drop off (pwrite d off c)) = d"
  by (rule nth_equalityI) (auto simp: nth_pwrite length_pwrite)

lemma pwrite_elsewhere:
  assumes "off' + n \<le> length c" "off' + n \<le> off \<or> off + length d \<le> off'"
  shows "take n (drop off' (pwrite d off c)) = take n (drop off' c)"
  using assms by (intro nth_equalityI) (auto simp: nth_pwrite length_pwrite)

lemma pwrite_commute:
  assumes "off + length d \<le> off' \<or> off' + length d' \<le> off"
  shows "pwrite d' off' (pwrite d off c) = pwrite d off (pwrite d' off' c)"
  using assms by (intro nth_equalityI) (auto simp: length_pwrite nth_pwrite)

section \<open>The expected segments\<close>

lemma distinct_dedup: "sorted xs \<Longrightarrow> distinct (remdups_adj xs)"
proof (induction xs rule: remdups_adj.induct)
  case (3 x y xs)
  then show ?case by (cases "x = y") (force simp: remdups_adj_set)+
qed simp_all

lemma sorted_distinct_expected: "sorted (expected_numbers ns)" "distinct (expected_numbers ns)"
  "set (expected_numbers ns) = {n \<in> set ns. n \<noteq> 0}"
  using distinct_dedup [of "sort (filter (\<lambda>n. n \<noteq> 0) ns)"] by (auto simp: expected_numbers_def)

lemma position_nth:
  "distinct xs \<Longrightarrow> i < length xs \<Longrightarrow> position (\<lambda>x. x = xs ! i) xs = Some i"
  by (auto simp: position_Some nth_eq_iff_index_eq)

lemma sorted_distinct_words_ge:
  assumes "sorted xs" "distinct xs" "0 \<notin> set xs" "i < length (xs :: u32 list)"
  shows "i + 1 \<le> unat (xs ! i)"
  using assms(4)
proof (induction i)
  case 0
  then have "xs ! 0 \<noteq> 0" using assms(3) by (metis nth_mem)
  then show ?case by (simp add: Suc_le_eq unat_gt_0)
next
  case (Suc i)
  have "xs ! i < xs ! Suc i"
    using assms(1,2) Suc.prems sorted_nth_mono [of xs i "Suc i"] nth_eq_iff_index_eq [of xs i "Suc i"] by force
  then show ?case using Suc by (simp add: word_less_nat_alt)
qed

lemma unat_lt32: "unat (w :: u32) < 2 ^ 32"
  using unsigned_less [of w] by simp

lemma length_expected: "length (expected_numbers ns) < 2 ^ 32"
proof (cases "expected_numbers ns = []")
  case False
  let ?xs = "expected_numbers ns"
  have "length ?xs - 1 + 1 \<le> unat (?xs ! (length ?xs - 1))"
    using False by (intro sorted_distinct_words_ge) (auto simp: sorted_distinct_expected)
  then show ?thesis using unat_lt32 [of "?xs ! (length ?xs - 1)"] False by simp
qed simp

lemma contiguous_nth:
  assumes "is_contiguous (expected_numbers ns)" "i < length (expected_numbers ns)"
  shows "unat (expected_numbers ns ! i) = i + 1"
proof -
  let ?xs = "expected_numbers ns" and ?n = "length (expected_numbers ns)"
  have ge: "j + 1 \<le> unat (?xs ! j)" if "j < ?n" for j
    using that by (intro sorted_distinct_words_ge) (auto simp: sorted_distinct_expected)
  have ne: "?xs \<noteq> []" using assms(2) by auto
  have last: "unat (?xs ! (?n - 1)) = ?n"
    using assms(1) ne length_expected [of ns] by (simp add: is_contiguous_def last_conv_nth unat_of_nat)
  have mono: "unat (?xs ! j) + 1 \<le> unat (?xs ! Suc j)" if "Suc j < ?n" for j
  proof -
    have "?xs ! j < ?xs ! Suc j"
      using that sorted_distinct_expected(1,2) [of ns] sorted_nth_mono [of ?xs j "Suc j"]
        nth_eq_iff_index_eq [of ?xs j "Suc j"] by force
    then show ?thesis by (simp add: word_less_nat_alt)
  qed
  have "unat (?xs ! (?n - 1 - k)) + k \<le> ?n" if "k < ?n" for k
    using that
  proof (induction k)
    case 0
    then show ?case using last by simp
  next
    case (Suc k)
    have "Suc (?n - 1 - Suc k) = ?n - 1 - k" using Suc.prems by simp
    moreover have "?n - 1 - k < ?n" using Suc.prems by simp
    ultimately show ?case using mono [of "?n - 1 - Suc k"] Suc by simp
  qed
  from this [of "?n - 1 - i"] have "unat (?xs ! i) + (?n - 1 - i) \<le> ?n" using assms(2) by simp
  then show ?thesis using ge [OF assms(2)] assms(2) by linarith
qed

text \<open>The list of expected segments a state stands for.\<close>

definition expected :: "file_state \<Rightarrow> u32 list" where
  "expected s = map (segment_at s) [0..<unat (as_total s)]"

definition numbers_ok :: "nat \<Rightarrow> u32 list option \<Rightarrow> bool" where
  "numbers_ok n numbers =
    (case numbers of None \<Rightarrow> True | Some ns \<Rightarrow> length ns = n \<and> distinct ns \<and> 0 \<notin> set ns)"

lemma numbers_ok_simps [simp]:
  "numbers_ok n None" "numbers_ok n (Some ns) \<longleftrightarrow> length ns = n \<and> distinct ns \<and> 0 \<notin> set ns"
  by (simp_all add: numbers_ok_def)

definition file_ok :: "file_state \<Rightarrow> bool" where
  "file_ok s \<longleftrightarrow>
    length (as_written s) = unat (as_total s) \<and>
    numbers_ok (unat (as_total s)) (as_numbers s) \<and>
    unat (as_count s) = length (filter id (as_written s))"

lemma unat_minus_1: "w \<noteq> 0 \<Longrightarrow> unat (w - 1 :: u32) = unat w - 1"
  by (simp add: unat_sub word_le_nat_alt unat_gt_0 Suc_leI)

lemma index_of_range:
  assumes "file_ok s" "index_of seg s = Some i"
  shows "i < length (as_written s)" "segment_at s i = seg"
proof -
  have "i < length (as_written s) \<and> segment_at s i = seg"
  proof (cases "as_numbers s")
    case None
    then have seg: "seg \<noteq> 0" "unat seg \<le> unat (as_total s)" "i = unat seg - 1"
      using assms(2) by (auto simp: index_of_def unat_minus_1 word_le_nat_alt split: if_splits)
    moreover have "0 < unat seg" using seg(1) by (simp add: unat_gt_0)
    ultimately show ?thesis using assms(1) None by (simp add: file_ok_def segment_at_def)
  next
    case (Some ns)
    then show ?thesis using assms by (auto simp: index_of_def file_ok_def segment_at_def position_Some)
  qed
  then show "i < length (as_written s)" "segment_at s i = seg" by simp_all
qed

section \<open>Marking\<close>

lemma count_flags_set:
  "i < length bs \<Longrightarrow> \<not> bs ! i \<Longrightarrow> length (filter id (bs[i := True])) = Suc (length (filter id bs))"
proof (induction bs arbitrary: i)
  case (Cons b bs)
  then show ?case by (cases i) auto
qed simp

lemma count_flags_le: "length (filter id bs) \<le> length bs"
  by (rule length_filter_le)

lemma count_flags_full: "length (filter id bs) = length bs \<longleftrightarrow> (\<forall>i < length bs. bs ! i)"
  by (metis filter_id_conv id_apply in_set_conv_nth length_filter_less less_irrefl nth_mem)

lemma count_inc:
  assumes "unat (w :: u32) < unat (t :: u32)"
  shows "unat (w + 1) = Suc (unat w)"
  using assms unat_lt32 [of t] by (simp add: unat_word_ariths)

lemma index_of_swap [simp]: "index_of seg (snd (swap_flag i s)) = index_of seg s"
  by (simp add: index_of_def swap_flag_def)

lemma index_of_add [simp]: "index_of seg (snd (add_count s)) = index_of seg s"
  by (simp add: index_of_def add_count_def)

lemma asm_mark_written_ok:
  assumes ok: "file_ok s"
  shows "file_ok (snd (asm_mark_written seg s)) \<and>
    as_written (snd (asm_mark_written seg s)) =
      (case index_of seg s of None \<Rightarrow> as_written s | Some i \<Rightarrow> (as_written s)[i := True]) \<and>
    as_total (snd (asm_mark_written seg s)) = as_total s \<and> as_numbers (snd (asm_mark_written seg s)) = as_numbers s \<and>
    as_declared (snd (asm_mark_written seg s)) = as_declared s \<and> as_path (snd (asm_mark_written seg s)) = as_path s"
proof (cases "index_of seg s")
  case None
  then show ?thesis using ok by (simp add: asm_mark_written_def)
next
  case (Some i)
  have i: "i < length (as_written s)" using index_of_range [OF ok Some] by simp
  show ?thesis
  proof (cases "as_written s ! i")
    case True
    then have "(as_written s)[i := True] = as_written s" by (metis list_update_id)
    then show ?thesis using ok Some True by (auto simp: asm_mark_written_def swap_flag_def file_ok_def)
  next
    case False
    have l: "length (filter id ((as_written s)[i := True])) = Suc (unat (as_count s))"
      using count_flags_set [OF i False] ok by (simp add: file_ok_def)
    then have "unat (as_count s) < unat (as_total s)"
      using count_flags_le [of "(as_written s)[i := True]"] ok by (simp add: file_ok_def)
    then have "unat (as_count s + 1) = Suc (unat (as_count s))" by (rule count_inc)
    then show ?thesis using ok Some False l
      by (auto simp: asm_mark_written_def swap_flag_def add_count_def file_ok_def)
  qed
qed

lemma index_of_mark [simp]: "index_of x (snd (asm_mark_written seg s)) = index_of x s"
  by (auto simp: asm_mark_written_def swap_flag_def add_count_def index_of_def split: option.splits)

definition blank_state :: "path \<Rightarrow> u32 list option \<Rightarrow> u32 \<Rightarrow> nat option \<Rightarrow> file_state" where
  "blank_state p numbers tot declared =
    \<lparr>as_path = p, as_total = tot, as_numbers = numbers, as_declared = declared,
     as_written = replicate (unat tot) False, as_count = 0\<rparr>"

lemma file_state_new_fold:
  "file_state_new p numbers tot completed declared =
    fold (\<lambda>seg s. snd (asm_mark_written seg s)) completed (blank_state p numbers tot declared)"
  by (simp add: file_state_new_def blank_state_def)

lemma blank_state_ok: "numbers_ok (unat tot) numbers \<Longrightarrow> file_ok (blank_state p numbers tot declared)"
  by (simp add: blank_state_def file_ok_def)

lemma file_state_new_ok:
  assumes "numbers_ok (unat tot) numbers"
  shows "file_ok (file_state_new p numbers tot completed declared)"
proof -
  have "file_ok s \<Longrightarrow> file_ok (fold (\<lambda>seg s. snd (asm_mark_written seg s)) completed s)" for s
    by (induction completed arbitrary: s) (simp_all add: asm_mark_written_ok)
  then show ?thesis using blank_state_ok [OF assms] by (simp add: file_state_new_fold)
qed

lemma file_state_new_frame:
  "as_total (file_state_new p numbers tot completed declared) = tot"
  "as_numbers (file_state_new p numbers tot completed declared) = numbers"
proof -
  have *: "as_total (snd (asm_mark_written x s)) = as_total s \<and> as_numbers (snd (asm_mark_written x s)) = as_numbers s" for x s
    by (auto simp: asm_mark_written_def swap_flag_def add_count_def split: option.splits)
  have "as_total (fold (\<lambda>seg s. snd (asm_mark_written seg s)) xs s) = as_total s \<and>
      as_numbers (fold (\<lambda>seg s. snd (asm_mark_written seg s)) xs s) = as_numbers s" for xs s
    by (induction xs arbitrary: s) (simp_all add: *)
  then show "as_total (file_state_new p numbers tot completed declared) = tot"
    "as_numbers (file_state_new p numbers tot completed declared) = numbers"
    by (simp_all add: file_state_new_def)
qed

text \<open>A registration by numbers expects exactly the listed numbers.\<close>

definition numbers_state :: "path \<Rightarrow> u32 list \<Rightarrow> u32 list \<Rightarrow> nat option \<Rightarrow> file_state" where
  "numbers_state p ns completed declared =
    file_state_new p (if is_contiguous (expected_numbers ns) then None else Some (expected_numbers ns))
      (of_nat (length (expected_numbers ns))) completed declared"

lemma total_expected: "unat (of_nat (length (expected_numbers ns)) :: u32) = length (expected_numbers ns)"
  using length_expected [of ns] by (simp add: unat_of_nat)

lemma numbers_state_ok: "file_ok (numbers_state p ns completed declared)"
  unfolding numbers_state_def using sorted_distinct_expected [of ns]
  by (intro file_state_new_ok) (auto simp: total_expected)

lemma expected_numbers_state: "expected (numbers_state p ns completed declared) = expected_numbers ns"
proof (rule nth_equalityI)
  show len: "length (expected (numbers_state p ns completed declared)) = length (expected_numbers ns)"
    by (simp add: expected_def numbers_state_def file_state_new_frame total_expected)
  fix i assume "i < length (expected (numbers_state p ns completed declared))"
  then have i: "i < length (expected_numbers ns)" using len by simp
  show "expected (numbers_state p ns completed declared) ! i = expected_numbers ns ! i"
  proof (cases "is_contiguous (expected_numbers ns)")
    case True
    then have "expected_numbers ns ! i = of_nat (i + 1)"
      using contiguous_nth [OF True i] by (metis of_nat_unat ucast_id)
    then show ?thesis using i True
      by (simp add: expected_def segment_at_def numbers_state_def file_state_new_frame total_expected)
  next
    case False
    then show ?thesis using i
      by (simp add: expected_def segment_at_def numbers_state_def file_state_new_frame total_expected)
  qed
qed

lemma index_of_expected:
  assumes "file_ok s"
  shows "index_of seg s \<noteq> None \<longleftrightarrow> seg \<in> set (expected s)"
proof
  assume "index_of seg s \<noteq> None"
  then obtain i where "index_of seg s = Some i" by auto
  from index_of_range [OF assms this] assms show "seg \<in> set (expected s)"
    by (auto simp: expected_def file_ok_def)
next
  assume "seg \<in> set (expected s)"
  then obtain i where i: "i < unat (as_total s)" "seg = segment_at s i" by (auto simp: expected_def)
  show "index_of seg s \<noteq> None"
  proof (cases "as_numbers s")
    case None
    have "unat (of_nat (i + 1) :: u32) = i + 1"
      using i(1) unat_lt32 [of "as_total s"] by (simp add: unat_of_nat del: of_nat_Suc)
    then have "unat seg = i + 1" using i(2) None by (simp add: segment_at_def)
    then show ?thesis using None i(1) by (auto simp: index_of_def word_le_nat_alt)
  next
    case (Some ns)
    then have "seg \<in> set ns" using i assms by (simp add: segment_at_def file_ok_def)
    then show ?thesis using Some by (auto simp: index_of_def position_None)
  qed
qed

section \<open>Threads\<close>

fun thread_seg :: "asm_thread \<Rightarrow> u32" where
  "thread_seg (Write_Next seg _ _) = seg"
| "thread_seg (Swap_Next seg) = seg"
| "thread_seg (Add_Next seg) = seg"
| "thread_seg (Returned seg _) = seg"

fun is_waiting :: "asm_thread \<Rightarrow> bool" where
  "is_waiting (Write_Next _ _ _) = True"
| "is_waiting _ = False"

fun is_adding :: "asm_thread \<Rightarrow> bool" where
  "is_adding (Add_Next _) = True"
| "is_adding _ = False"

fun has_marked :: "asm_thread \<Rightarrow> bool" where
  "has_marked (Add_Next _) = True"
| "has_marked (Returned _ _) = True"
| "has_marked _ = False"

fun announces :: "asm_thread \<Rightarrow> bool" where
  "announces (Returned _ b) = b"
| "announces _ = False"

fun has_returned :: "asm_thread \<Rightarrow> bool" where
  "has_returned (Returned _ _) = True"
| "has_returned _ = False"

inductive_cases asm_stepE: "asm_step (s, c, ts) w"

definition tally :: "('a \<Rightarrow> bool) \<Rightarrow> 'a list \<Rightarrow> nat" where
  "tally P xs = length (filter P xs)"

lemma tally_update:
  "i < length xs \<Longrightarrow> tally P (xs[i := x]) + of_bool (P (xs ! i)) = tally P xs + of_bool (P x)"
  unfolding tally_def
proof (induction xs arbitrary: i)
  case (Cons y xs)
  then show ?case by (cases i) auto
qed simp

lemma tally_pos: "i < length xs \<Longrightarrow> P (xs ! i) \<Longrightarrow> 0 < tally P xs"
  by (auto simp: tally_def filter_empty_conv)

lemma swap_set_flag: "swap_flag k s = (True, s') \<Longrightarrow> s' = s"
  using list_update_id [of "as_written s" k] by (auto simp: swap_flag_def)

text \<open>The counter runs behind the flags by the threads about to count.\<close>

definition counters_ok :: "file_state \<Rightarrow> asm_world \<Rightarrow> bool" where
  "counters_ok s0 w =
    (case w of (s, c, ts) \<Rightarrow>
      as_total s = as_total s0 \<and> as_numbers s = as_numbers s0 \<and>
      length (as_written s) = unat (as_total s) \<and>
      unat (as_count s) + tally is_adding ts = tally id (as_written s) \<and>
      unat (as_count s0) \<le> unat (as_count s) \<and>
      tally announces ts = (if as_count s = as_total s \<and> as_count s0 \<noteq> as_total s0 then 1 else 0))"

lemma counters_index: "counters_ok s0 (s, c, ts) \<Longrightarrow> index_of seg s = index_of seg s0"
  by (simp add: counters_ok_def index_of_def)

lemma counters_step:
  assumes ok0: "file_ok s0" and inv: "counters_ok s0 w" and step: "asm_step w w'"
  shows "counters_ok s0 w'"
  using step inv
proof (cases rule: asm_step.cases)
  case (do_write i ts seg off d s c)
  then show ?thesis
    using inv tally_update [of i ts is_adding "Swap_Next seg"] tally_update [of i ts announces "Swap_Next seg"]
    by (simp add: counters_ok_def)
next
  case (do_swap_first i ts seg s k s' c)
  then have k: "index_of seg s0 = Some k" using inv counters_index by simp
  have kl: "k < length (as_written s)"
    using index_of_range [OF ok0 k] inv ok0 do_swap_first by (simp add: counters_ok_def file_ok_def)
  have s': "s' = s\<lparr>as_written := (as_written s)[k := True]\<rparr>" "\<not> as_written s ! k"
    using do_swap_first by (simp_all add: swap_flag_def)
  show ?thesis
    using inv do_swap_first s' tally_update [of i ts is_adding "Add_Next seg"]
      tally_update [of i ts announces "Add_Next seg"] tally_update [OF kl, of id True]
    by (simp add: counters_ok_def)
next
  case (do_swap_again i ts seg s k s' c)
  then have "s' = s" using swap_set_flag by blast
  then show ?thesis
    using inv do_swap_again tally_update [of i ts is_adding "Returned seg False"]
      tally_update [of i ts announces "Returned seg False"]
    by (simp add: counters_ok_def)
next
  case (do_add i ts seg s n s' c)
  have add: "0 < tally is_adding ts" using tally_pos [of i ts is_adding] do_add by simp
  have "tally id (as_written s) \<le> unat (as_total s)"
    using inv do_add count_flags_le [of "as_written s"] by (simp add: counters_ok_def tally_def)
  then have lt: "unat (as_count s) < unat (as_total s)" using inv add do_add by (simp add: counters_ok_def)
  then have inc: "unat (as_count s + 1) = Suc (unat (as_count s))" by (rule count_inc)
  have s': "s' = s\<lparr>as_count := as_count s + 1\<rparr>" "n = as_count s + 1" using do_add by (auto simp: add_count_def)
  have "as_count s0 \<noteq> as_total s0" using inv lt do_add by (auto simp: counters_ok_def)
  then show ?thesis
    using inv do_add s' inc lt tally_update [of i ts is_adding "Returned seg (n = as_total s')"]
      tally_update [of i ts announces "Returned seg (n = as_total s')"]
    by (auto simp: counters_ok_def)
qed

text \<open>Every thread keeps its segment, waits with its own data or has it on disk, and every flag set
  on the way belongs to a thread past its write.\<close>

definition thread_ok :: "asm_thread \<Rightarrow> bytes \<Rightarrow> asm_thread \<Rightarrow> bool" where
  "thread_ok t0 c t \<longleftrightarrow>
    thread_seg t = thread_seg t0 \<and>
    (t = t0 \<or> \<not> is_waiting t \<and>
      (case t0 of Write_Next seg off d \<Rightarrow> off + length d \<le> length c \<and> take (length d) (drop off c) = d | _ \<Rightarrow> True))"

definition marks_ok :: "file_state \<Rightarrow> file_state \<Rightarrow> asm_thread list \<Rightarrow> bool" where
  "marks_ok s0 s ts \<longleftrightarrow>
    (\<forall>k < length (as_written s). as_written s ! k \<longrightarrow>
      as_written s0 ! k \<or> (\<exists>t \<in> set ts. has_marked t \<and> index_of (thread_seg t) s0 = Some k))"

fun apart_threads :: "asm_thread \<Rightarrow> asm_thread \<Rightarrow> bool" where
  "apart_threads (Write_Next _ off d) (Write_Next _ off' d') \<longleftrightarrow> off + length d \<le> off' \<or> off' + length d' \<le> off"
| "apart_threads _ _ = True"

definition threads_ready :: "file_state \<Rightarrow> asm_thread list \<Rightarrow> bool" where
  "threads_ready s ts \<longleftrightarrow>
    list_all (\<lambda>t. is_waiting t \<and> index_of (thread_seg t) s \<noteq> None) ts \<and> sorted_wrt apart_threads ts"

lemma apart_threads_sym: "apart_threads t u \<Longrightarrow> apart_threads u t"
  by (cases t; cases u) auto

lemma threads_ready_apart:
  assumes "threads_ready s ts" "i < length ts" "j < length ts" "i \<noteq> j"
  shows "apart_threads (ts ! i) (ts ! j)"
  using assms sorted_wrt_nth_less [of apart_threads ts i j] sorted_wrt_nth_less [of apart_threads ts j i]
  by (cases "i < j") (auto simp: threads_ready_def intro: apart_threads_sym)

lemma thread_ok_pwrite:
  assumes "thread_ok t0 c t" "apart_threads (Write_Next seg off d) t0"
  shows "thread_ok t0 (pwrite d off c) t"
  using assms pwrite_elsewhere by (cases t0) (auto simp: thread_ok_def length_pwrite)

definition world_ok :: "file_state \<Rightarrow> asm_thread list \<Rightarrow> asm_world \<Rightarrow> bool" where
  "world_ok s0 ts0 w = (case w of (s, c, ts) \<Rightarrow> list_all2 (\<lambda>t0 t. thread_ok t0 c t) ts0 ts \<and> marks_ok s0 s ts)"

lemma threads_update:
  assumes "list_all2 (\<lambda>t0 t. thread_ok t0 c t) ts0 ts" "i < length ts" "thread_ok (ts0 ! i) c t"
  shows "list_all2 (\<lambda>t0 t. thread_ok t0 c t) ts0 (ts[i := t])"
  using assms by (auto simp: list_all2_conv_all_nth nth_list_update)

lemma thread_advance:
  assumes "threads_ready s0 ts0" "list_all2 (\<lambda>t0 t. thread_ok t0 c t) ts0 ts" "i < length ts"
    and "\<not> is_waiting (ts ! i)" "\<not> is_waiting t" "thread_seg t = thread_seg (ts ! i)"
  shows "thread_ok (ts0 ! i) c t"
proof -
  have "is_waiting (ts0 ! i)"
    using assms(1,3) list_all2_lengthD [OF assms(2)] by (simp add: threads_ready_def list_all_length)
  then have "ts ! i \<noteq> ts0 ! i" using assms(4) by auto
  moreover have "thread_ok (ts0 ! i) c (ts ! i)" using list_all2_nthD2 [OF assms(2,3)] .
  ultimately show ?thesis using assms(4-6) by (simp add: thread_ok_def)
qed

lemma marks_update:
  assumes "marks_ok s0 s ts" "i < length ts" "thread_seg t = thread_seg (ts ! i)" "has_marked (ts ! i) \<longrightarrow> has_marked t"
  shows "marks_ok s0 s (ts[i := t])"
proof -
  have "\<exists>u \<in> set (ts[i := t]). has_marked u \<and> thread_seg u = thread_seg v" if v: "v \<in> set ts" "has_marked v" for v
  proof -
    obtain j where j: "j < length ts" "v = ts ! j" using v(1) by (auto simp: in_set_conv_nth)
    show ?thesis
    proof (cases "j = i")
      case True
      then show ?thesis using assms j v(2) by (intro bexI [of _ t]) (auto simp: set_update_memI)
    next
      case False
      then have "v \<in> set (ts[i := t])" using j by (metis length_list_update nth_list_update_neq nth_mem)
      then show ?thesis using v(2) by blast
    qed
  qed
  then show ?thesis using assms(1) unfolding marks_ok_def by metis
qed

lemma world_step:
  assumes ok0: "file_ok s0" and rdy: "threads_ready s0 ts0"
    and cnt: "counters_ok s0 w" and inv: "world_ok s0 ts0 w" and step: "asm_step w w'"
  shows "world_ok s0 ts0 w'"
  using step
proof (cases rule: asm_step.cases)
  case (do_write i ts seg off d s c)
  have l: "list_all2 (\<lambda>t0 t. thread_ok t0 c t) ts0 ts" and m: "marks_ok s0 s ts"
    using inv do_write by (simp_all add: world_ok_def)
  have len: "length ts0 = length ts" using l by (rule list_all2_lengthD)
  have t0: "ts0 ! i = Write_Next seg off d"
    using list_all2_nthD2 [OF l do_write(3)] do_write(4) by (auto simp: thread_ok_def)
  have "thread_ok (ts0 ! j) (pwrite d off c) (ts[i := Swap_Next seg] ! j)" if j: "j < length ts" for j
  proof (cases "j = i")
    case True
    then show ?thesis using t0 do_write(3) by (simp add: thread_ok_def length_pwrite pwrite_readback)
  next
    case False
    then show ?thesis
      using thread_ok_pwrite [OF list_all2_nthD2 [OF l j], of seg off d] threads_ready_apart [OF rdy, of i j] t0 j do_write(3) len
      by simp
  qed
  then show ?thesis
    using do_write len marks_update [OF m do_write(3), of "Swap_Next seg"]
    by (simp add: world_ok_def list_all2_conv_all_nth)
next
  case (do_swap_first i ts seg s k s' c)
  have l: "list_all2 (\<lambda>t0 t. thread_ok t0 c t) ts0 ts" and m: "marks_ok s0 s ts"
    using inv do_swap_first by (simp_all add: world_ok_def)
  have k: "index_of seg s0 = Some k" using do_swap_first cnt counters_index by simp
  have s': "s' = s\<lparr>as_written := (as_written s)[k := True]\<rparr>" using do_swap_first by (simp add: swap_flag_def)
  have "thread_ok (ts0 ! i) c (Add_Next seg)"
    using thread_advance [OF rdy l do_swap_first(3)] do_swap_first(4) by simp
  then have l': "list_all2 (\<lambda>t0 t. thread_ok t0 c t) ts0 (ts[i := Add_Next seg])"
    by (rule threads_update [OF l do_swap_first(3)])
  have m1: "marks_ok s0 s (ts[i := Add_Next seg])"
    using marks_update [OF m do_swap_first(3), of "Add_Next seg"] do_swap_first(4) by simp
  have "Add_Next seg \<in> set (ts[i := Add_Next seg])" using do_swap_first(3) by (rule set_update_memI)
  then have "marks_ok s0 s' (ts[i := Add_Next seg])"
    using m1 k unfolding marks_ok_def s' by (auto simp: nth_list_update split: if_splits) force+
  then show ?thesis using l' do_swap_first by (simp add: world_ok_def)
next
  case (do_swap_again i ts seg s k s' c)
  have l: "list_all2 (\<lambda>t0 t. thread_ok t0 c t) ts0 ts" and m: "marks_ok s0 s ts"
    using inv do_swap_again by (simp_all add: world_ok_def)
  have s': "s' = s" using do_swap_again swap_set_flag by blast
  have "thread_ok (ts0 ! i) c (Returned seg False)"
    using thread_advance [OF rdy l do_swap_again(3)] do_swap_again(4) by simp
  from threads_update [OF l do_swap_again(3) this] marks_update [OF m do_swap_again(3), of "Returned seg False"]
  show ?thesis using do_swap_again s' by (simp add: world_ok_def)
next
  case (do_add i ts seg s n s' c)
  have l: "list_all2 (\<lambda>t0 t. thread_ok t0 c t) ts0 ts" and m: "marks_ok s0 s ts"
    using inv do_add by (simp_all add: world_ok_def)
  have s': "as_written s' = as_written s" using do_add by (auto simp: add_count_def)
  let ?t = "Returned seg (n = as_total s')"
  have "thread_ok (ts0 ! i) c ?t"
    using thread_advance [OF rdy l do_add(3)] do_add(4) by simp
  from threads_update [OF l do_add(3) this] marks_update [OF m do_add(3), of ?t]
  show ?thesis using do_add s' by (simp add: world_ok_def marks_ok_def)
qed

lemma threads_invariant:
  assumes "file_ok s0" "threads_ready s0 ts0" "asm_step\<^sup>*\<^sup>* (s0, c0, ts0) w"
  shows "counters_ok s0 w \<and> world_ok s0 ts0 w"
  using assms(3)
proof (induction rule: rtranclp_induct)
  case base
  have w: "\<forall>t \<in> set ts0. is_waiting t" using assms(2) by (simp add: threads_ready_def list_all_iff)
  have wa: "is_waiting t \<Longrightarrow> \<not> is_adding t \<and> \<not> announces t" for t by (cases t) auto
  have "tally is_adding ts0 = 0" "tally announces ts0 = 0"
    using w wa by (auto simp: tally_def filter_empty_conv)
  then show ?case
    using assms(1) by (auto simp: counters_ok_def world_ok_def marks_ok_def file_ok_def tally_def thread_ok_def list_all2_same)
next
  case (step w w')
  then show ?case using counters_step [OF assms(1)] world_step [OF assms(1,2)] by blast
qed

section \<open>Properties\<close>

text \<open>A file registered with the segment numbers of its NZB accepts exactly the listed non-zero
  numbers, whether or not they run from 1 without gaps, and starts with exactly those of them missing
  that the resume did not mark as written, in ascending order.\<close>

theorem registered_segments_exact:
  assumes "io_open io p"
  shows "\<exists>s. map_of (asm_files (snd (register_file_with_segment_numbers io key p ns done_before declared a))) key = Some s \<and>
    (\<forall>seg. index_of seg s \<noteq> None \<longleftrightarrow> seg \<in> set ns \<and> seg \<noteq> 0) \<and>
    state_missing_segments s = filter (\<lambda>seg. seg \<notin> set done_before) (expected_numbers ns)"
proof -
  let ?s = "numbers_state p ns done_before declared"
  have ok: "file_ok ?s" by (rule numbers_state_ok)
  have acc: "index_of seg ?s \<noteq> None \<longleftrightarrow> seg \<in> set ns \<and> seg \<noteq> 0" for seg
    using index_of_expected [OF ok] by (simp add: expected_numbers_state sorted_distinct_expected)
  define numbers where "numbers = (if is_contiguous (expected_numbers ns) then None else Some (expected_numbers ns))"
  define s0 where "s0 = blank_state p numbers (of_nat (length (expected_numbers ns))) declared"
  have fold_flags: "as_written (fold (\<lambda>seg s. snd (asm_mark_written seg s)) xs s) ! i \<longleftrightarrow>
      as_written s ! i \<or> (\<exists>x \<in> set xs. index_of x s = Some i)" if "i < length (as_written s)" "file_ok s" for xs s i
    using that
  proof (induction xs arbitrary: s)
    case (Cons x xs)
    have f: "file_ok (snd (asm_mark_written x s))"
      "as_written (snd (asm_mark_written x s)) =
        (case index_of x s of None \<Rightarrow> as_written s | Some i \<Rightarrow> (as_written s)[i := True])"
      using asm_mark_written_ok [OF Cons.prems(2)] by simp_all
    have "as_written (snd (asm_mark_written x s)) ! i \<longleftrightarrow> as_written s ! i \<or> index_of x s = Some i"
      using f(2) Cons.prems index_of_range(1) [OF Cons.prems(2), of x]
      by (cases "index_of x s") (auto simp: nth_list_update)
    moreover have "i < length (as_written (snd (asm_mark_written x s)))"
      using f(2) Cons.prems(1) by (auto split: option.splits)
    ultimately show ?case using Cons.IH [of "snd (asm_mark_written x s)"] f(1) by auto
  qed simp
  have new: "?s = fold (\<lambda>seg s. snd (asm_mark_written seg s)) done_before s0"
    by (simp add: s0_def numbers_def numbers_state_def file_state_new_fold)
  have frame: "as_total ?s = as_total s0" "as_numbers ?s = as_numbers s0"
    by (simp_all add: s0_def blank_state_def numbers_def numbers_state_def file_state_new_frame)
  have idx0: "index_of x s0 = index_of x ?s" for x by (simp add: index_of_def frame)
  have ok0: "file_ok s0"
    unfolding s0_def using ok frame by (intro blank_state_ok) (simp add: file_ok_def s0_def blank_state_def)
  have flag: "as_written ?s ! i \<longleftrightarrow> (\<exists>x \<in> set done_before. index_of x ?s = Some i)" if "i < length (as_written ?s)" for i
  proof -
    have "i < length (as_written s0)" using that ok ok0 by (simp add: file_ok_def frame)
    moreover from this have "\<not> as_written s0 ! i" by (simp add: s0_def blank_state_def)
    ultimately show ?thesis using fold_flags [OF _ ok0, of i done_before] by (simp add: new [symmetric] idx0)
  qed
  have ex: "expected ?s = expected_numbers ns" by (rule expected_numbers_state)
  have len: "length (as_written ?s) = unat (as_total ?s)" using ok by (simp add: file_ok_def)
  have dist: "distinct (expected ?s)" by (simp add: ex sorted_distinct_expected)
  have flag': "as_written ?s ! i \<longleftrightarrow> segment_at ?s i \<in> set done_before" if i: "i < length (as_written ?s)" for i
  proof
    assume "as_written ?s ! i"
    then obtain x where "x \<in> set done_before" "index_of x ?s = Some i" using flag [OF i] by auto
    then show "segment_at ?s i \<in> set done_before" using index_of_range [OF ok] by blast
  next
    assume d: "segment_at ?s i \<in> set done_before"
    have "segment_at ?s i \<in> set (expected ?s)" using i len by (auto simp: expected_def)
    then obtain j where j: "index_of (segment_at ?s i) ?s = Some j" using index_of_expected [OF ok] by blast
    then have "j < length (as_written ?s)" "segment_at ?s j = segment_at ?s i" using index_of_range [OF ok] by blast+
    then have "j = i" using dist i len by (auto simp: expected_def distinct_map inj_on_def)
    then show "as_written ?s ! i" using flag [OF i] d j by blast
  qed
  have "state_missing_segments ?s = map (segment_at ?s) (filter (\<lambda>i. segment_at ?s i \<notin> set done_before) [0..<length (as_written ?s)])"
    unfolding state_missing_segments_def using flag' by (intro arg_cong [of _ _ "map (segment_at ?s)"] filter_cong) auto
  also have "\<dots> = filter (\<lambda>seg. seg \<notin> set done_before) (expected ?s)"
    by (simp add: expected_def filter_map len comp_def)
  finally have miss: "state_missing_segments ?s = filter (\<lambda>seg. seg \<notin> set done_before) (expected_numbers ns)"
    by (simp add: ex)
  show ?thesis
    using assms acc miss
    by (auto simp: register_file_with_segment_numbers_def Let_def register_inner_def AList.update_conv' numbers_state_def)
qed

definition demo_io :: io_env where
  "demo_io = \<lparr>io_open = (\<lambda>_. True), io_write = (\<lambda>_ _ _. None)\<rparr>"

theorem registered_segments_exact_witness:
  "\<exists>s. map_of (asm_files (snd (register_file_with_segment_numbers demo_io (''j'', ''f'') ''p'' [7, 3, 0, 3, 1] [3] None
      (asm_new (\<lambda>_. None))))) (''j'', ''f'') = Some s \<and> index_of 7 s \<noteq> None \<and> index_of 2 s = None"
proof -
  have "io_open demo_io ''p''" by (simp add: demo_io_def)
  from registered_segments_exact [OF this, of "(''j'', ''f'')" "[7, 3, 0, 3, 1]" "[3]" None "asm_new (\<lambda>_. None)"]
  obtain s where s: "map_of (asm_files (snd (register_file_with_segment_numbers demo_io (''j'', ''f'') ''p'' [7, 3, 0, 3, 1] [3] None
      (asm_new (\<lambda>_. None))))) (''j'', ''f'') = Some s"
    and acc: "\<And>seg. index_of seg s \<noteq> None \<longleftrightarrow> seg \<in> set [7, 3, 0, 3, 1] \<and> seg \<noteq> 0" by blast
  have "index_of 7 s \<noteq> None" "index_of 2 s = None" using acc [of 7] acc [of 2] by simp_all
  then show ?thesis using s by blast
qed

text \<open>C16. Threads assembling articles of one file with disjoint ranges, interleaved in any way at
  their atomic operations: at most one call reports the file complete; when one does, every expected
  segment is marked and the data of every thread whose segment was still missing is in the file at its
  offset; and when all calls have returned, one has reported completion exactly if the file became
  complete through them.\<close>

theorem completion_reported_once:
  assumes ok: "file_ok s0" and rdy: "threads_ready s0 ts0" and run: "asm_step\<^sup>*\<^sup>* (s0, c0, ts0) (s, c, ts)"
  shows "tally announces ts \<le> 1 \<and>
    (tally announces ts = 1 \<longrightarrow> state_missing_segments s = [] \<and>
      list_all (\<lambda>k. as_written s0 ! k \<or>
        list_ex (\<lambda>(t0, t). index_of (thread_seg t0) s0 = Some k \<and> (case t0 of Write_Next seg off d \<Rightarrow>
          take (length d) (drop off c) = d | _ \<Rightarrow> False)) (zip ts0 ts)) [0..<length (as_written s)]) \<and>
    (list_all has_returned ts \<longrightarrow>
      (tally announces ts = 1 \<longleftrightarrow> asm_is_complete s \<and> \<not> asm_is_complete s0))"
proof -
  have inv: "counters_ok s0 (s, c, ts)" "world_ok s0 ts0 (s, c, ts)" using threads_invariant [OF assms] by auto
  have tot: "as_total s = as_total s0" and cnt: "tally announces ts = (if as_count s = as_total s \<and> as_count s0 \<noteq> as_total s0 then 1 else 0)"
    and bal: "unat (as_count s) + tally is_adding ts = tally id (as_written s)"
    and len: "length (as_written s) = unat (as_total s)"
    using inv(1) by (auto simp: counters_ok_def)
  have l: "list_all2 (\<lambda>t0 t. thread_ok t0 c t) ts0 ts" and m: "marks_ok s0 s ts"
    using inv(2) by (auto simp: world_ok_def)
  have one: "state_missing_segments s = [] \<and> (\<forall>k < length (as_written s). as_written s0 ! k \<or>
      (\<exists>i < length ts. index_of (thread_seg (ts0 ! i)) s0 = Some k \<and>
         (case ts0 ! i of Write_Next seg off d \<Rightarrow> take (length d) (drop off c) = d | _ \<Rightarrow> False)))"
    if "tally announces ts = 1"
  proof -
    have "as_count s = as_total s" using that cnt by (metis zero_neq_one)
    then have "tally id (as_written s) = length (as_written s)"
      using bal len count_flags_le [of "as_written s"] by (simp add: tally_def)
    then have full: "\<forall>k < length (as_written s). as_written s ! k" using count_flags_full by (auto simp: tally_def)
    have "as_written s0 ! k \<or> (\<exists>i < length ts. index_of (thread_seg (ts0 ! i)) s0 = Some k \<and>
         (case ts0 ! i of Write_Next seg off d \<Rightarrow> take (length d) (drop off c) = d | _ \<Rightarrow> False))"
      if k: "k < length (as_written s)" for k
    proof (cases "as_written s0 ! k")
      case False
      then obtain i where i: "i < length ts" "has_marked (ts ! i)" "index_of (thread_seg (ts ! i)) s0 = Some k"
        using m full k unfolding marks_ok_def by (metis in_set_conv_nth)
      have "\<not> is_waiting (ts ! i)" using i(2) by (cases "ts ! i") auto
      moreover have "is_waiting (ts0 ! i)"
        using rdy i(1) list_all2_lengthD [OF l] by (simp add: threads_ready_def list_all_length)
      moreover from this \<open>\<not> is_waiting (ts ! i)\<close> have "ts ! i \<noteq> ts0 ! i" by auto
      moreover have "thread_ok (ts0 ! i) c (ts ! i)" using list_all2_nthD2 [OF l i(1)] .
      ultimately have "thread_seg (ts0 ! i) = thread_seg (ts ! i) \<and>
          (case ts0 ! i of Write_Next seg off d \<Rightarrow> take (length d) (drop off c) = d | _ \<Rightarrow> False)"
        by (cases "ts0 ! i") (auto simp: thread_ok_def)
      then show ?thesis using i by auto
    qed simp
    moreover have "state_missing_segments s = []"
      using full by (auto simp: state_missing_segments_def filter_empty_conv)
    ultimately show ?thesis by blast
  qed
  have "list_all has_returned ts \<Longrightarrow> tally is_adding ts = 0"
  proof -
    assume "list_all has_returned ts"
    then have "\<not> is_adding t" if "t \<in> set ts" for t using that by (cases t) (auto simp: list_all_iff)
    then show "tally is_adding ts = 0" by (auto simp: tally_def filter_empty_conv)
  qed
  have ex: "(\<exists>i < length ts. Q (ts0 ! i)) = list_ex (\<lambda>(t0, t). Q t0) (zip ts0 ts)" for Q
    using list_all2_lengthD [OF l] by (auto simp: list_ex_length)
  have every: "list_all (\<lambda>k. as_written s0 ! k \<or>
        list_ex (\<lambda>(t0, t). index_of (thread_seg t0) s0 = Some k \<and> (case t0 of Write_Next seg off d \<Rightarrow>
          take (length d) (drop off c) = d | _ \<Rightarrow> False)) (zip ts0 ts)) [0..<length (as_written s)]"
    if "tally announces ts = 1"
    unfolding list_all_iff
  proof
    fix k assume "k \<in> set [0..<length (as_written s)]"
    then show "as_written s0 ! k \<or>
        list_ex (\<lambda>(t0, t). index_of (thread_seg t0) s0 = Some k \<and> (case t0 of Write_Next seg off d \<Rightarrow>
          take (length d) (drop off c) = d | _ \<Rightarrow> False)) (zip ts0 ts)"
      using one [OF that] ex [of "\<lambda>t0. index_of (thread_seg t0) s0 = Some k \<and> (case t0 of Write_Next seg off d \<Rightarrow>
          take (length d) (drop off c) = d | _ \<Rightarrow> False)"] by auto
  qed
  have ret: "tally announces ts = 1 \<longleftrightarrow> asm_is_complete s \<and> \<not> asm_is_complete s0"
    using cnt tot by (auto simp: asm_is_complete_def)
  have le: "tally announces ts \<le> 1" using cnt by simp
  show ?thesis using le one every ret by blast
qed

definition demo_state :: file_state where
  "demo_state = file_state_new ''p'' None 2 [] None"

lemma demo_threads:
  "file_ok demo_state" "threads_ready demo_state [Write_Next 1 0 [5], Write_Next 2 1 [6]]"
proof -
  show "file_ok demo_state" unfolding demo_state_def by (rule file_state_new_ok) simp
  show "threads_ready demo_state [Write_Next 1 0 [5], Write_Next 2 1 [6]]"
    by (simp add: threads_ready_def index_of_def demo_state_def file_state_new_frame)
qed

theorem completion_reported_once_witness:
  "\<exists>s c ts. asm_step\<^sup>*\<^sup>* (demo_state, [], [Write_Next 1 0 [5], Write_Next 2 1 [6]]) (s, c, ts) \<and> tally announces ts \<le> 1 \<and>
    ts = [Write_Next 1 0 [5], Swap_Next 2]"
proof -
  have "asm_step (demo_state, [], [Write_Next 1 0 [5], Write_Next 2 1 [6]])
      (demo_state, pwrite [6] 1 [], [Write_Next 1 0 [5], Write_Next 2 1 [6]][1 := Swap_Next 2])"
    by (rule asm_step.do_write) simp_all
  then have run: "asm_step\<^sup>*\<^sup>* (demo_state, [], [Write_Next 1 0 [5], Write_Next 2 1 [6]])
      (demo_state, pwrite [6] 1 [], [Write_Next 1 0 [5], Swap_Next 2])"
    by (simp add: r_into_rtranclp)
  from completion_reported_once [OF demo_threads run] run show ?thesis by blast
qed

text \<open>Every call of \<open>assemble_article\<close> answers by its checks in order (unknown file, unknown
  segment, empty data, a range past the declared size), and whatever the outcome, a failed write
  included, the file never grows past the larger of its old size and the declared size.\<close>

theorem assemble_article_guards:
  assumes "map_of (asm_files a) key = Some s"
  shows "(index_of seg s = None \<longrightarrow> assemble_article io key seg off d a = (Inl (SegmentOutOfRange seg (as_total s)), a)) \<and>
    (index_of seg s \<noteq> None \<and> d = [] \<longrightarrow> assemble_article io key seg off d a = (Inl (EmptySegmentData seg), a)) \<and>
    (index_of seg s \<noteq> None \<and> d \<noteq> [] \<and> as_declared s = Some n \<and> n < article_end off d \<longrightarrow>
      assemble_article io key seg off d a = (Inl (WriteBeyondDeclaredSize seg off (article_end off d) n), a)) \<and>
    (as_declared s = Some n \<and> n < u64_max \<and> asm_disk a (as_path s) = Some c \<longrightarrow>
      (\<exists>c'. asm_disk (snd (assemble_article io key seg off d a)) (as_path s) = Some c' \<and> length c' \<le> max (length c) n))"
proof -
  have "\<exists>c'. asm_disk (snd (assemble_article io key seg off d a)) (as_path s) = Some c' \<and> length c' \<le> max (length c) n"
    if decl: "as_declared s = Some n" "n < u64_max" "asm_disk a (as_path s) = Some c"
  proof (cases "check_article seg off d s")
    case (Some err)
    then show ?thesis using assms that by (simp add: assemble_article_def)
  next
    case None
    then have e: "off + length d \<le> n"
      using decl by (auto simp: check_article_def article_end_def split: if_splits)
    show ?thesis
    proof (cases "io_write io (as_path s) off d")
      case wr: None
      then show ?thesis using assms None decl e
        by (simp add: assemble_article_def disk_write_def length_pwrite split: prod.splits)
    next
      case (Some k)
      then show ?thesis using assms None decl e
        by (simp add: assemble_article_def disk_write_def length_pwrite)
    qed
  qed
  then show ?thesis using assms
    by (auto simp: assemble_article_def check_article_def)
qed

theorem assemble_article_guards_witness:
  "fst (assemble_article demo_io (''j'', ''f'') 1 3 [9, 9] \<lparr>asm_files = [((''j'', ''f''), file_state_new ''p'' None 2 [] (Some 4))],
      asm_disk = [''p'' \<mapsto> []]\<rparr>) = Inl (WriteBeyondDeclaredSize 1 3 5 4)"
proof -
  let ?s = "file_state_new ''p'' None 2 [] (Some 4)"
  let ?a = "\<lparr>asm_files = [((''j'', ''f''), ?s)], asm_disk = [''p'' \<mapsto> []]\<rparr>"
  have "map_of (asm_files ?a) (''j'', ''f'') = Some ?s" by simp
  from assemble_article_guards [OF this, of 1 demo_io 3 "[9, 9]" 4] show ?thesis
    by (simp add: index_of_def file_state_new_def article_end_def u64_max_def)
qed

type_synonym article_write = "u32 \<times> nat \<times> bytes"

definition asm_run :: "io_env \<Rightarrow> file_key \<Rightarrow> article_write list \<Rightarrow> assembler \<Rightarrow> assembler" where
  "asm_run io key xs a = fold (\<lambda>(seg, off, d) a. snd (assemble_article io key seg off d a)) xs a"

definition article_effect :: "file_state \<Rightarrow> article_write \<Rightarrow> bytes \<times> bool list \<Rightarrow> bytes \<times> bool list" where
  "article_effect s x cf =
    (case x of (seg, off, d) \<Rightarrow> (pwrite d off (fst cf), (snd cf)[the (index_of seg s) := True]))"

definition disjoint_articles :: "article_write \<Rightarrow> article_write \<Rightarrow> bool" where
  "disjoint_articles x y =
    (case (x, y) of ((_, off, d), (_, off', d')) \<Rightarrow> off + length d \<le> off' \<or> off' + length d' \<le> off)"

lemma update_same_swap: "xs[i := v, j := v] = xs[j := v, i := v]"
  by (cases "i = j") (auto simp: list_update_swap)

lemma article_effect_commute:
  "disjoint_articles x y \<Longrightarrow> article_effect s x \<circ> article_effect s y = article_effect s y \<circ> article_effect s x"
  using update_same_swap [of _ _ True]
  by (cases x; cases y) (auto simp: fun_eq_iff article_effect_def disjoint_articles_def pwrite_commute)

lemma check_article_mark:
  assumes "file_ok s"
  shows "check_article x off d (snd (asm_mark_written seg s)) = check_article x off d s"
  using asm_mark_written_ok [OF assms, of seg] by (simp add: check_article_def)

lemma asm_run_effect:
  assumes "map_of (asm_files a) key = Some s" "file_ok s" "asm_disk a (as_path s) = Some c"
    and "io_write io = (\<lambda>_ _ _. None)" "\<forall>(seg, off, d) \<in> set xs. check_article seg off d s = None"
  shows "\<exists>s'. map_of (asm_files (asm_run io key xs a)) key = Some s' \<and> file_ok s' \<and>
    as_total s' = as_total s \<and> as_numbers s' = as_numbers s \<and>
    asm_disk (asm_run io key xs a) (as_path s) = Some (fst (fold (article_effect s) xs (c, as_written s))) \<and>
    as_written s' = snd (fold (article_effect s) xs (c, as_written s))"
  using assms
proof (induction xs arbitrary: a s c)
  case Nil
  then show ?case by (simp add: asm_run_def)
next
  case (Cons x xs)
  obtain seg off d where x: "x = (seg, off, d)" by (cases x)
  let ?s = "snd (asm_mark_written seg s)" and ?a = "snd (assemble_article io key seg off d a)"
  have chk: "check_article seg off d s = None" using Cons.prems(5) x by simp
  then obtain i where i: "index_of seg s = Some i" by (auto simp: check_article_def split: if_splits)
  have mk: "file_ok ?s" "as_written ?s = (as_written s)[i := True]" "as_total ?s = as_total s" "as_numbers ?s = as_numbers s"
    "as_path ?s = as_path s"
    using asm_mark_written_ok [OF Cons.prems(2), of seg] i by simp_all
  have a: "map_of (asm_files ?a) key = Some ?s" "asm_disk ?a (as_path ?s) = Some (pwrite d off c)"
    using Cons.prems chk mk(5) by (auto simp: assemble_article_def disk_write_def AList.update_conv' split: prod.splits)
  have "\<forall>(seg, off, d) \<in> set xs. check_article seg off d ?s = None"
    using Cons.prems(5) check_article_mark [OF Cons.prems(2)] by auto
  from Cons.IH [OF a(1) mk(1) a(2) Cons.prems(4) this] obtain s' where s':
    "map_of (asm_files (asm_run io key xs ?a)) key = Some s'" "file_ok s'" "as_total s' = as_total ?s" "as_numbers s' = as_numbers ?s"
    "asm_disk (asm_run io key xs ?a) (as_path ?s) = Some (fst (fold (article_effect ?s) xs (pwrite d off c, as_written ?s)))"
    "as_written s' = snd (fold (article_effect ?s) xs (pwrite d off c, as_written ?s))" by blast
  have eff: "article_effect ?s = article_effect s"
    by (simp add: article_effect_def fun_eq_iff)
  have "asm_run io key (x # xs) a = asm_run io key xs ?a" by (simp add: asm_run_def x)
  moreover have "fold (article_effect s) (x # xs) (c, as_written s) =
      fold (article_effect s) xs (pwrite d off c, as_written ?s)"
    by (simp add: article_effect_def x i mk)
  ultimately show ?case using s' mk eff by auto
qed

text \<open>The order in which the articles of a file arrive does not matter: accepted articles with
  disjoint ranges leave the same file content, the same missing segments and the same progress in
  every order.\<close>

theorem articles_any_order:
  assumes "map_of (asm_files a) key = Some s" "file_ok s" "asm_disk a (as_path s) = Some c"
    and "io_write io = (\<lambda>_ _ _. None)" "list_all (\<lambda>(seg, off, d). check_article seg off d s = None) xs"
    and "sorted_wrt disjoint_articles xs" "mset xs = mset ys"
  shows "asm_disk (asm_run io key xs a) (as_path s) = asm_disk (asm_run io key ys a) (as_path s) \<and>
    missing_segments key (asm_run io key xs a) = missing_segments key (asm_run io key ys a) \<and>
    get_file_progress key (asm_run io key xs a) = get_file_progress key (asm_run io key ys a)"
proof -
  have sym: "disjoint_articles x y \<Longrightarrow> disjoint_articles y x" for x y
    by (auto simp: disjoint_articles_def)
  have comm: "article_effect s x \<circ> article_effect s y = article_effect s y \<circ> article_effect s x"
    if xy: "x \<in> set xs" "y \<in> set xs" for x y
  proof (cases "x = y")
    case False
    obtain i j where ij: "i < length xs" "x = xs ! i" "j < length xs" "y = xs ! j"
      using xy by (metis in_set_conv_nth)
    then have "i \<noteq> j" using False by auto
    then have "disjoint_articles x y"
      using sorted_wrt_nth_less [OF assms(6), of i j] sorted_wrt_nth_less [OF assms(6), of j i] ij sym
      by (cases "i < j") auto
    then show ?thesis by (rule article_effect_commute)
  qed simp
  have same: "fold (article_effect s) xs = fold (article_effect s) ys"
    by (rule fold_multiset_equiv [OF comm assms(7)])
  have cx: "\<forall>(seg, off, d) \<in> set xs. check_article seg off d s = None" using assms(5) by (simp add: list_all_iff)
  moreover have "set xs = set ys" using assms(7) by (rule mset_eq_setD)
  ultimately have cy: "\<forall>(seg, off, d) \<in> set ys. check_article seg off d s = None" by simp
  obtain s1 where s1: "map_of (asm_files (asm_run io key xs a)) key = Some s1" "file_ok s1"
    "as_total s1 = as_total s" "as_numbers s1 = as_numbers s"
    "asm_disk (asm_run io key xs a) (as_path s) = Some (fst (fold (article_effect s) xs (c, as_written s)))"
    "as_written s1 = snd (fold (article_effect s) xs (c, as_written s))"
    using asm_run_effect [OF assms(1-4) cx] by blast
  obtain s2 where s2: "map_of (asm_files (asm_run io key ys a)) key = Some s2" "file_ok s2"
    "as_total s2 = as_total s" "as_numbers s2 = as_numbers s"
    "asm_disk (asm_run io key ys a) (as_path s) = Some (fst (fold (article_effect s) ys (c, as_written s)))"
    "as_written s2 = snd (fold (article_effect s) ys (c, as_written s))"
    using asm_run_effect [OF assms(1-4) cy] by blast
  have w: "as_written s1 = as_written s2" using s1(6) s2(6) same by simp
  then have "as_count s1 = as_count s2" using s1(2) s2(2) by (simp add: file_ok_def word_unat_eq_iff)
  moreover have "state_missing_segments s1 = state_missing_segments s2"
    using s1(4) s2(4) w by (simp add: state_missing_segments_def segment_at_def)
  ultimately show ?thesis
    using s1 s2 same by (simp add: missing_segments_def get_file_progress_def progress_def)
qed

theorem articles_any_order_witness:
  "asm_disk (asm_run demo_io (''j'', ''f'') [(1, 0, [5]), (2, 1, [6])]
      \<lparr>asm_files = [((''j'', ''f''), demo_state)], asm_disk = [''p'' \<mapsto> []]\<rparr>) ''p'' =
   asm_disk (asm_run demo_io (''j'', ''f'') [(2, 1, [6]), (1, 0, [5])]
      \<lparr>asm_files = [((''j'', ''f''), demo_state)], asm_disk = [''p'' \<mapsto> []]\<rparr>) ''p''"
proof -
  let ?a = "\<lparr>asm_files = [((''j'', ''f''), demo_state)], asm_disk = [''p'' \<mapsto> []]\<rparr>"
  have p: "as_path demo_state = ''p''" by (simp add: demo_state_def file_state_new_def)
  have 1: "map_of (asm_files ?a) (''j'', ''f'') = Some demo_state" by simp
  have 3: "asm_disk ?a (as_path demo_state) = Some []" by (simp add: p)
  have 4: "io_write demo_io = (\<lambda>_ _ _. None)" by (simp add: demo_io_def)
  have 5: "list_all (\<lambda>(seg, off, d). check_article seg off d demo_state = None) [(1, 0, [5]), (2, 1, [6])]"
    by (simp add: check_article_def index_of_def demo_state_def file_state_new_def)
  have 6: "sorted_wrt disjoint_articles [(1, 0, [5]), (2, 1, [6])]" by (simp add: disjoint_articles_def)
  have 7: "mset [(1, 0, [5]), (2, 1, [6])] = mset [(2, 1, [6]), (1, 0, [5 :: u8])]" by simp
  from articles_any_order [OF 1 demo_threads(1) 3 4 5 6 7] show ?thesis by (simp add: p)
qed

end
