(* ===== verification/Engine_Types.thy ===== *)
theory Engine_Types
  imports Core_Models Nntp_Error "HOL-Library.AList"
begin

text \<open>
  Data of the job download engine (\<open>crates/nzb-dispatch\<close>): the failure taxonomy
  (\<open>article_failure.rs\<close>), the work item, the progress messages and the bounded progress channel
  (\<open>download_engine.rs\<close>) and the attempt outcome of the damage ledger.  Hash maps are association
  lists.
\<close>

section \<open>Failure taxonomy\<close>

datatype failure_kind =
    FK_NotFound
  | FK_ServerDown
  | FK_AuthFailed
  | FK_PermissionDenied
  | FK_DecodeError
  | FK_Timeout
  | FK_ConnectionClosed
  | FK_Protocol
  | FK_Other

definition is_per_server :: "failure_kind \<Rightarrow> bool" where
  "is_per_server k \<longleftrightarrow>
    k \<in> {FK_NotFound, FK_ServerDown, FK_AuthFailed, FK_PermissionDenied, FK_Timeout,
         FK_ConnectionClosed, FK_Protocol}"

definition counts_toward_hopeless :: "failure_kind \<Rightarrow> bool" where
  "counts_toward_hopeless k \<longleftrightarrow> k \<in> {FK_NotFound, FK_DecodeError}"

definition should_break_server :: "failure_kind \<Rightarrow> bool" where
  "should_break_server k \<longleftrightarrow> k \<in> {FK_AuthFailed, FK_PermissionDenied}"

fun failure_kind_str :: "failure_kind \<Rightarrow> byte_string" where
  "failure_kind_str FK_NotFound = ''not_found''"
| "failure_kind_str FK_ServerDown = ''server_down''"
| "failure_kind_str FK_AuthFailed = ''auth_failed''"
| "failure_kind_str FK_PermissionDenied = ''permission_denied''"
| "failure_kind_str FK_DecodeError = ''decode_error''"
| "failure_kind_str FK_Timeout = ''timeout''"
| "failure_kind_str FK_ConnectionClosed = ''connection_closed''"
| "failure_kind_str FK_Protocol = ''protocol''"
| "failure_kind_str FK_Other = ''other''"

record article_failure =
  af_kind :: failure_kind
  af_server_id :: server_id
  af_message :: byte_string

fun failure_kind_of :: "nntp_error \<Rightarrow> failure_kind" where
  "failure_kind_of (ArticleNotFound _) = FK_NotFound"
| "failure_kind_of (ServiceUnavailable _) = FK_ServerDown"
| "failure_kind_of (Auth _) = FK_AuthFailed"
| "failure_kind_of (AuthRequired _) = FK_AuthFailed"
| "failure_kind_of (PermissionDenied _) = FK_PermissionDenied"
| "failure_kind_of (Connection _) = FK_ConnectionClosed"
| "failure_kind_of (Io _) = FK_ConnectionClosed"
| "failure_kind_of (Timeout _) = FK_Timeout"
| "failure_kind_of (Protocol _) = FK_Protocol"
| "failure_kind_of (UnsupportedCommand _) = FK_Protocol"
| "failure_kind_of (ResponseTooLarge _) = FK_Protocol"
| "failure_kind_of (NoSuchGroup _) = FK_Protocol"
| "failure_kind_of (NoArticleSelected _) = FK_Protocol"
| "failure_kind_of (NoConnectionsAvailable _) = FK_Other"
| "failure_kind_of (AllServersExhausted _) = FK_Other"
| "failure_kind_of (Tls _) = FK_Other"
| "failure_kind_of Shutdown = FK_Other"

definition failure_from_nntp :: "nntp_error \<Rightarrow> server_id \<Rightarrow> article_failure" where
  "failure_from_nntp e sid =
    \<lparr>af_kind = failure_kind_of e, af_server_id = sid, af_message = nntp_error_display e\<rparr>"

definition failure_decode_error :: "server_id \<Rightarrow> byte_string \<Rightarrow> article_failure" where
  "failure_decode_error sid msg = \<lparr>af_kind = FK_DecodeError, af_server_id = sid, af_message = msg\<rparr>"

definition failure_not_found_anywhere :: "server_id \<Rightarrow> byte_string \<Rightarrow> article_failure" where
  "failure_not_found_anywhere sid outcomes =
    \<lparr>af_kind = FK_NotFound, af_server_id = sid,
     af_message = ''Article explicitly not found on every eligible provider; outcomes: '' @ outcomes\<rparr>"

definition failure_other :: "server_id \<Rightarrow> byte_string \<Rightarrow> article_failure" where
  "failure_other sid msg = \<lparr>af_kind = FK_Other, af_server_id = sid, af_message = msg\<rparr>"

definition failure_display :: "article_failure \<Rightarrow> byte_string" where
  "failure_display f =
    ''['' @ failure_kind_str (af_kind f) @ ''] '' @ af_message f @ '' ('' @ af_server_id f @ '')''"

lemma failure_kind_str_inject: "failure_kind_str a = failure_kind_str b \<longleftrightarrow> a = b"
  by (cases a; cases b) simp_all

section \<open>Collecting maps\<close>

text \<open>Collecting key-value pairs into a map: a later pair replaces an earlier one of its key.\<close>

definition collect_map :: "('k \<times> 'v) list \<Rightarrow> ('k \<times> 'v) list" where
  "collect_map kvs = fold (\<lambda>(k, v). AList.update k v) kvs []"

lemma map_of_fold_update:
  "map_of (fold (\<lambda>(k, v). AList.update k v) kvs m) k =
    (case map_of (rev kvs) k of None \<Rightarrow> map_of m k | Some v \<Rightarrow> Some v)"
  by (induction kvs arbitrary: m) (auto simp: update_conv map_add_def split: option.splits)

lemma map_of_collect_map: "map_of (collect_map kvs) k = map_of (rev kvs) k"
  by (simp add: collect_map_def map_of_fold_update split: option.splits)

lemma distinct_collect_map [simp]: "distinct (map fst (collect_map kvs))"
proof -
  have "distinct (map fst (fold (\<lambda>(k, v). AList.update k v) kvs m))" if "distinct (map fst m)" for m
    using that by (induction kvs arbitrary: m) (auto simp: distinct_update)
  then show ?thesis by (simp add: collect_map_def)
qed

section \<open>Work items\<close>

record engine_item =
  ei_job_id :: byte_string
  ei_file_id :: byte_string
  ei_filename :: byte_string
  ei_message_id :: byte_string
  ei_segment_number :: u32
  ei_tried_servers :: "server_id list"
  ei_provider_outcomes :: "(server_id \<times> failure_kind) list"
  ei_tries_on_current :: u32
  ei_outage_tries :: u32
  ei_confirm_rounds :: u32

section \<open>Progress messages\<close>

datatype attempt_outcome = Present | Refused server_id | Transport server_id

text \<open>
  Times are in milliseconds; the repair fold that \<open>JobFinished\<close> carries beside the slice map is
  not modelled.
\<close>

datatype progress_update =
    WaitingForProviders byte_string byte_string
  | ProvidersAvailable byte_string
  | ArticleComplete byte_string byte_string u32 nat bool "server_id option" "byte_string option"
  | ArticleFailed byte_string byte_string u32 article_failure
  | ArticleOutcome byte_string byte_string u32 byte_string attempt_outcome
  | JobFinished byte_string bool nat millis "slice_map_summary option" "byte_string option"
  | JobAborted byte_string byte_string nat millis

text \<open>
  The per-job channel.  \<open>pc_buffer\<close> holds the messages sent and not yet received; \<open>pc_received\<close>
  those the queue layer has taken out, in order.
\<close>

record progress_channel =
  pc_buffer :: "progress_update list"
  pc_received :: "progress_update list"
  pc_closed :: bool

definition PROGRESS_CHANNEL_CAPACITY :: nat where
  "PROGRESS_CHANNEL_CAPACITY = 10000"

definition try_send_progress :: "progress_update \<Rightarrow> progress_channel \<Rightarrow> progress_channel" where
  "try_send_progress u ch =
    (if pc_closed ch then ch
     else if PROGRESS_CHANNEL_CAPACITY \<le> length (pc_buffer ch) then ch
     else ch\<lparr>pc_buffer := pc_buffer ch @ [u]\<rparr>)"

text \<open>Everything ever accepted by the channel.\<close>

definition channel_log :: "progress_channel \<Rightarrow> progress_update list" where
  "channel_log ch = pc_received ch @ pc_buffer ch"

definition channel_room :: "progress_channel \<Rightarrow> bool" where
  "channel_room ch \<longleftrightarrow> \<not> pc_closed ch \<and> length (pc_buffer ch) < PROGRESS_CHANNEL_CAPACITY"

lemma channel_log_send:
  "channel_log (try_send_progress u ch) = channel_log ch @ (if channel_room ch then [u] else [])"
  by (simp add: channel_log_def try_send_progress_def channel_room_def)

lemma try_send_closed [simp]: "pc_closed (try_send_progress u ch) = pc_closed ch"
  by (simp add: try_send_progress_def)

lemma try_send_received [simp]: "pc_received (try_send_progress u ch) = pc_received ch"
  by (simp add: try_send_progress_def)

lemma try_send_bounded:
  "length (pc_buffer ch) \<le> PROGRESS_CHANNEL_CAPACITY \<Longrightarrow>
    length (pc_buffer (try_send_progress u ch)) \<le> PROGRESS_CHANNEL_CAPACITY"
  by (simp add: try_send_progress_def)

section \<open>PAR2 names\<close>

definition par2_sort_key :: "byte_string \<Rightarrow> nat" where
  "par2_sort_key filename =
    (let lower = lowercase filename in
     if ends_with ''.par2'' lower then if str_contains ''.vol'' lower then 1 else 0 else 2)"

definition is_par2_index :: "byte_string \<Rightarrow> bool" where
  "is_par2_index filename =
    (let lower = lowercase filename in ends_with ''.par2'' lower \<and> \<not> str_contains ''.vol'' lower)"

lemma is_par2_index_sort_key: "is_par2_index f \<longleftrightarrow> par2_sort_key f = 0"
  by (simp add: is_par2_index_def par2_sort_key_def Let_def)

end
