(* ===== verification/Engine_Queue.thy ===== *)
theory Engine_Queue
  imports Engine_Types
begin

text \<open>
  The shared work queue and the circuit breaker of \<open>crates/nzb-dispatch/src/download_engine.rs\<close>:
  \<open>SharedWorkQueue\<close> (every method holds the lock for its whole body), \<open>ServerHealth\<close>, and the
  decisions the pool takes from the server list and the health map.  Instants are milliseconds.
\<close>

section \<open>The queue\<close>

record queue_state =
  qs_items :: "engine_item list"
  qs_last_served :: "(server_id \<times> byte_string) list"

definition shared_queue_new :: queue_state where
  "shared_queue_new = \<lparr>qs_items = [], qs_last_served = []\<rparr>"

definition submit_items :: "engine_item list \<Rightarrow> queue_state \<Rightarrow> queue_state" where
  "submit_items items q =
    q\<lparr>qs_items := qs_items q @ sort_key (\<lambda>it. par2_sort_key (ei_filename it)) items\<rparr>"

definition push_front :: "engine_item \<Rightarrow> queue_state \<Rightarrow> queue_state" where
  "push_front it q = q\<lparr>qs_items := it # qs_items q\<rparr>"

definition push_back :: "engine_item \<Rightarrow> queue_state \<Rightarrow> queue_state" where
  "push_back it q = q\<lparr>qs_items := qs_items q @ [it]\<rparr>"

definition is_eligible :: "server_id \<Rightarrow> server_id list \<Rightarrow> engine_item \<Rightarrow> bool" where
  "is_eligible sid hp it \<longleftrightarrow>
    \<not> list_ex (\<lambda>s. s = sid) (ei_tried_servers it) \<and>
    list_all (\<lambda>server. server \<in> set (ei_tried_servers it)) hp"

definition workable_count_for :: "server_id \<Rightarrow> server_id list \<Rightarrow> queue_state \<Rightarrow> nat \<times> nat" where
  "workable_count_for sid hp q =
    (length (filter (\<lambda>i. list_all (\<lambda>h. h \<in> set (ei_tried_servers i)) hp)
       (filter (\<lambda>i. \<not> list_ex (\<lambda>s. s = sid) (ei_tried_servers i)) (qs_items q))),
     length (qs_items q))"

definition select_index :: "server_id \<Rightarrow> server_id list \<Rightarrow> queue_state \<Rightarrow> nat option" where
  "select_index sid hp q =
    (case (case map_of (qs_last_served q) sid of
             None \<Rightarrow> None
           | Some last_job \<Rightarrow>
               position (\<lambda>it. is_eligible sid hp it \<and> ei_job_id it \<noteq> last_job) (qs_items q)) of
       Some i \<Rightarrow> Some i
     | None \<Rightarrow> position (is_eligible sid hp) (qs_items q))"

definition pop_workable ::
  "server_id \<Rightarrow> server_id list \<Rightarrow> queue_state \<Rightarrow> engine_item option \<times> queue_state" where
  "pop_workable sid hp q =
    (case select_index sid hp q of
       None \<Rightarrow> (None, q)
     | Some i \<Rightarrow>
         let it = qs_items q ! i in
         (Some it,
          \<lparr>qs_items = take i (qs_items q) @ drop (Suc i) (qs_items q),
           qs_last_served = AList.update sid (ei_job_id it) (qs_last_served q)\<rparr>))"

text \<open>The loop of \<open>drain_job\<close> moves every item to one of two lists.\<close>

fun drain_items ::
  "byte_string \<Rightarrow> engine_item list \<Rightarrow> engine_item list \<Rightarrow> engine_item list \<Rightarrow> engine_item list \<times> engine_item list" where
  "drain_items job [] kept drained = (kept, drained)"
| "drain_items job (it # its) kept drained =
    (if ei_job_id it = job then drain_items job its kept (drained @ [it])
     else drain_items job its (kept @ [it]) drained)"

definition queue_drain_job :: "byte_string \<Rightarrow> queue_state \<Rightarrow> engine_item list \<times> queue_state" where
  "queue_drain_job job q =
    (case drain_items job (qs_items q) [] [] of
       (kept, drained) \<Rightarrow> (drained, q\<lparr>qs_items := kept\<rparr>))"

function take_items ::
  "('a \<Rightarrow> bool) \<Rightarrow> nat \<Rightarrow> 'a list \<Rightarrow> 'a list \<Rightarrow> 'a list \<times> 'a list" where
  "take_items P index items taken =
    (if index < length items then
       if P (items ! index)
       then take_items P index (take index items @ drop (Suc index) items) (taken @ [items ! index])
       else take_items P (index + 1) items taken
     else (taken, items))"
  by auto
termination by (relation "measure (\<lambda>(P, index, items, taken). length items - index)") auto

declare take_items.simps [simp del]

definition take_where :: "(engine_item \<Rightarrow> bool) \<Rightarrow> queue_state \<Rightarrow> engine_item list \<times> queue_state" where
  "take_where P q =
    (case take_items P 0 (qs_items q) [] of (taken, items) \<Rightarrow> (taken, q\<lparr>qs_items := items\<rparr>))"

definition queue_len :: "queue_state \<Rightarrow> nat" where
  "queue_len q = length (qs_items q)"

text \<open>\<open>requeue_all\<close>: the hash map is drained in no particular order, so the drained list is the argument.\<close>

definition requeue_all :: "engine_item list \<Rightarrow> queue_state \<Rightarrow> queue_state" where
  "requeue_all items q = fold push_front items q"

section \<open>Circuit breaker\<close>

definition MAX_TRIES_PER_SERVER :: u32 where "MAX_TRIES_PER_SERVER = 3"
definition MAX_OUTAGE_TRIES_PER_SERVER :: u32 where "MAX_OUTAGE_TRIES_PER_SERVER = 10"
definition MAX_RECONNECT_ATTEMPTS :: nat where "MAX_RECONNECT_ATTEMPTS = 5"
definition CIRCUIT_BREAK_THRESHOLD :: u32 where "CIRCUIT_BREAK_THRESHOLD = 3"
definition AUTH_FAILURE_COOLDOWN :: millis where "AUTH_FAILURE_COOLDOWN = 120000"
definition TRANSIENT_FAILURE_COOLDOWN :: millis where "TRANSIENT_FAILURE_COOLDOWN = 30000"
definition CONFIRM_ASKS_PER_SERVER :: u32 where "CONFIRM_ASKS_PER_SERVER = 2"

record server_health =
  sh_consecutive_failures :: u32
  sh_disabled_until :: "millis option"
  sh_reason :: "byte_string option"
  sh_is_auth_failure :: bool

type_synonym health_map = "(server_id \<times> server_health) list"

definition health_new :: server_health where
  "health_new = \<lparr>sh_consecutive_failures = 0, sh_disabled_until = None, sh_reason = None, sh_is_auth_failure = False\<rparr>"

definition health_available :: "millis \<Rightarrow> server_health \<Rightarrow> bool" where
  "health_available now h = (case sh_disabled_until h of None \<Rightarrow> True | Some until \<Rightarrow> until \<le> now)"

definition record_failure :: "millis \<Rightarrow> bool \<Rightarrow> byte_string \<Rightarrow> server_health \<Rightarrow> server_health" where
  "record_failure now is_auth reason h =
    (let h1 = h\<lparr>sh_consecutive_failures := sh_consecutive_failures h + 1,
                sh_is_auth_failure := is_auth, sh_reason := Some reason\<rparr>
     in if is_auth \<or> CIRCUIT_BREAK_THRESHOLD \<le> sh_consecutive_failures h1
        then h1\<lparr>sh_disabled_until :=
               Some (now + (if is_auth then AUTH_FAILURE_COOLDOWN else TRANSIENT_FAILURE_COOLDOWN))\<rparr>
        else h1)"

definition record_success :: "server_health \<Rightarrow> server_health" where
  "record_success h = health_new"

text \<open>\<open>entry(id).or_default()\<close> followed by an update of the entry.\<close>

definition health_entry :: "server_id \<Rightarrow> health_map \<Rightarrow> server_health" where
  "health_entry sid hm = (case map_of hm sid of None \<Rightarrow> health_new | Some h \<Rightarrow> h)"

definition update_health :: "server_id \<Rightarrow> (server_health \<Rightarrow> server_health) \<Rightarrow> health_map \<Rightarrow> health_map" where
  "update_health sid f hm = AList.update sid (f (health_entry sid hm)) hm"

definition circuit_open :: "millis \<Rightarrow> health_map \<Rightarrow> server_id \<Rightarrow> bool" where
  "circuit_open now hm sid \<longleftrightarrow>
    (case map_of hm sid of None \<Rightarrow> False | Some h \<Rightarrow> \<not> health_available now h)"

section \<open>Decisions over the server list\<close>

definition higher_priority_servers ::
  "millis \<Rightarrow> server_config list \<Rightarrow> health_map \<Rightarrow> u8 \<Rightarrow> server_id \<Rightarrow> server_id list" where
  "higher_priority_servers now servers health my_priority my_id =
    map sc_id (filter (\<lambda>s. \<not> circuit_open now health (sc_id s))
      (filter (\<lambda>s. sc_enabled s \<and> sc_priority s < my_priority \<and> sc_id s \<noteq> my_id) servers))"

definition provider_unavailable_message ::
  "millis \<Rightarrow> server_config list \<Rightarrow> health_map \<Rightarrow> byte_string option" where
  "provider_unavailable_message now servers health =
    (let enabled = filter sc_enabled servers in
     if enabled = []
     then Some ''Waiting for providers: no enabled NNTP servers are configured.''
     else if list_all (\<lambda>s. circuit_open now health (sc_id s)) enabled
     then Some ''Waiting for providers: every enabled server is temporarily unavailable. rustnzb will retry automatically.''
     else None)"

definition all_enabled_providers_definitive ::
  "millis \<Rightarrow> server_config list \<Rightarrow> health_map \<Rightarrow> (server_id \<times> failure_kind) list \<Rightarrow> bool" where
  "all_enabled_providers_definitive now servers health outcomes \<longleftrightarrow>
    list_all (\<lambda>s. map_of outcomes (sc_id s) \<noteq> None)
      (filter (\<lambda>s. \<not> (sc_optional s \<and> circuit_open now health (sc_id s)))
        (filter sc_enabled servers))"

fun counts_against_circuit_breaker :: "nntp_error \<Rightarrow> bool" where
  "counts_against_circuit_breaker (Connection _) = True"
| "counts_against_circuit_breaker (Io _) = True"
| "counts_against_circuit_breaker (Tls _) = True"
| "counts_against_circuit_breaker (Auth _) = True"
| "counts_against_circuit_breaker (AuthRequired _) = True"
| "counts_against_circuit_breaker (PermissionDenied _) = True"
| "counts_against_circuit_breaker (ServiceUnavailable _) = True"
| "counts_against_circuit_breaker (Timeout _) = True"
| "counts_against_circuit_breaker _ = False"

text \<open>
  \<open>connect_with_retry\<close>.  The health map is shared: \<open>ct_before\<close> and \<open>ct_during\<close> are what other
  workers did to it before this attempt took the lock and while its connect was under way.  The two
  clock readings are those of the two availability tests.
\<close>

record connect_attempt =
  ct_before :: "health_map \<Rightarrow> health_map"
  ct_start :: millis
  ct_result :: "nntp_error + unit"
  ct_during :: "health_map \<Rightarrow> health_map"
  ct_end :: millis

definition is_auth_error :: "nntp_error \<Rightarrow> bool" where
  "is_auth_error e = (case e of Auth _ \<Rightarrow> True | ServiceUnavailable _ \<Rightarrow> True | _ \<Rightarrow> False)"

definition broken_reason :: "server_id \<Rightarrow> health_map \<Rightarrow> byte_string" where
  "broken_reason sid health =
    (case sh_reason (health_entry sid health) of Some r \<Rightarrow> r | None \<Rightarrow> ''unknown'')"

fun connect_attempts ::
  "server_id \<Rightarrow> (nat \<Rightarrow> connect_attempt) \<Rightarrow> nat list \<Rightarrow> health_map \<Rightarrow>
    (byte_string + unit) \<times> health_map" where
  "connect_attempts sid connect [] health = (Inl ''Connect retry loop exited unexpectedly'', health)"
| "connect_attempts sid connect (attempt # attempts) health =
    (let c = connect attempt;
         h0 = ct_before c health
     in if circuit_open (ct_start c) h0 sid
        then (Inl (''Server circuit-broken: '' @ broken_reason sid h0), h0)
        else
          let h1 = ct_during c h0 in
          (case ct_result c of
             Inr _ \<Rightarrow> (Inr (), update_health sid record_success h1)
           | Inl e \<Rightarrow>
               let is_auth = is_auth_error e;
                   h2 = update_health sid (record_failure (ct_end c) is_auth (nntp_error_display e)) h1
               in if circuit_open (ct_end c) h2 sid
                  then (Inl (''Server circuit-broken: '' @ nntp_error_display e), h2)
                  else if is_auth
                  then (Inl (''Auth/permission failure: '' @ nntp_error_display e), h2)
                  else if attempt < MAX_RECONNECT_ATTEMPTS
                  then connect_attempts sid connect attempts h2
                  else (Inl (''All '' @ show_nat MAX_RECONNECT_ATTEMPTS @ '' connect attempts failed: '' @
                          nntp_error_display e), h2)))"

definition connect_with_retry ::
  "server_id \<Rightarrow> (nat \<Rightarrow> connect_attempt) \<Rightarrow> health_map \<Rightarrow> (byte_string + unit) \<times> health_map" where
  "connect_with_retry sid connect health =
    connect_attempts sid connect [1..<Suc MAX_RECONNECT_ATTEMPTS] health"

end
