(* ===== verification/Engine_Queue_Proofs.thy ===== *)
theory Engine_Queue_Proofs
  imports Engine_Queue
begin

text \<open>
  What the shared queue and the circuit breaker promise: a pop returns an item exactly when one is
  workable, never the job served last while another job has work for the server, and moves nothing
  else; draining splits the queue; the breaker is open exactly for the cooldown after the third
  consecutive failure.  Preferring any other job is not round robin: two busy jobs starve a third.
\<close>

section \<open>Moving items\<close>

lemma drain_items_filter:
  "drain_items job its kept drained =
    (kept @ filter (\<lambda>i. ei_job_id i \<noteq> job) its, drained @ filter (\<lambda>i. ei_job_id i = job) its)"
  by (induction its arbitrary: kept drained) auto

lemma queue_drain_job_filter:
  "queue_drain_job job q =
    (filter (\<lambda>i. ei_job_id i = job) (qs_items q),
     q\<lparr>qs_items := filter (\<lambda>i. ei_job_id i \<noteq> job) (qs_items q)\<rparr>)"
  by (simp add: queue_drain_job_def drain_items_filter)

lemma take_items_filter:
  "index \<le> length items \<Longrightarrow>
    take_items P index items taken =
      (taken @ filter P (drop index items), take index items @ filter (\<lambda>x. \<not> P x) (drop index items))"
proof (induction P index items taken rule: take_items.induct)
  case (1 P index items taken)
  show ?case
  proof (cases "index < length items")
    case True
    have d: "drop index items = items ! index # drop (Suc index) items"
      using True by (rule Cons_nth_drop_Suc [symmetric])
    show ?thesis
    proof (cases "P (items ! index)")
      case P: True
      have "take_items P index items taken =
          take_items P index (take index items @ drop (Suc index) items) (taken @ [items ! index])"
        using True P by (subst take_items.simps) simp
      also have "\<dots> = (taken @ filter P (drop index items),
          take index items @ filter (\<lambda>x. \<not> P x) (drop index items))"
        using 1(1) [OF True P] True P by (simp add: d)
      finally show ?thesis .
    next
      case nP: False
      have "take_items P index items taken = take_items P (index + 1) items taken"
        using True nP by (subst take_items.simps) simp
      also have "\<dots> = (taken @ filter P (drop index items),
          take index items @ filter (\<lambda>x. \<not> P x) (drop index items))"
        using 1(2) [OF True nP] True nP by (simp add: d take_Suc_conv_app_nth)
      finally show ?thesis .
    qed
  next
    case False
    with 1(3) show ?thesis by (subst take_items.simps) simp
  qed
qed

lemma take_where_filter:
  "take_where P q = (filter P (qs_items q), q\<lparr>qs_items := filter (\<lambda>x. \<not> P x) (qs_items q)\<rparr>)"
  by (simp add: take_where_def take_items_filter)

lemma requeue_all_items: "requeue_all items q = q\<lparr>qs_items := rev items @ qs_items q\<rparr>"
  by (induction items arbitrary: q) (simp_all add: requeue_all_def push_front_def)

text \<open>The queue as a multiset of items.\<close>

definition queue_items :: "queue_state \<Rightarrow> engine_item multiset" where
  "queue_items q = mset (qs_items q)"

lemma queue_items_simps [item_simps]:
  "queue_items (push_front it q) = add_mset it (queue_items q)"
  "queue_items (push_back it q) = add_mset it (queue_items q)"
  "queue_items (submit_items its q) = mset its + queue_items q"
  "queue_items (requeue_all its q) = mset its + queue_items q"
  by (simp_all add: queue_items_def push_front_def push_back_def submit_items_def requeue_all_items)

lemma queue_items_drain [item_simps]:
  "queue_items (snd (queue_drain_job job q)) = filter_mset (\<lambda>i. ei_job_id i \<noteq> job) (queue_items q)"
  "mset (fst (queue_drain_job job q)) = filter_mset (\<lambda>i. ei_job_id i = job) (queue_items q)"
  by (simp_all add: queue_items_def queue_drain_job_filter)

lemma queue_items_take_where [item_simps]:
  "queue_items (snd (take_where P q)) = filter_mset (\<lambda>i. \<not> P i) (queue_items q)"
  "mset (fst (take_where P q)) = filter_mset P (queue_items q)"
  by (simp_all add: queue_items_def take_where_filter)

section \<open>Popping\<close>

lemma workable_count_for_eq:
  "fst (workable_count_for sid hp q) = length (filter (is_eligible sid hp) (qs_items q))"
  by (simp add: workable_count_for_def is_eligible_def [abs_def])

lemma select_index_None:
  assumes "select_index sid hp q = None" "it \<in> set (qs_items q)"
  shows "\<not> is_eligible sid hp it"
proof -
  have "position (is_eligible sid hp) (qs_items q) = None"
    using assms(1) by (auto simp: select_index_def split: option.splits)
  with assms(2) show ?thesis by (simp add: position_None)
qed

lemma select_index_Some:
  assumes "select_index sid hp q = Some i"
  shows "i < length (qs_items q)" and "is_eligible sid hp (qs_items q ! i)"
    and "j < i \<Longrightarrow> is_eligible sid hp (qs_items q ! j) \<Longrightarrow>
      map_of (qs_last_served q) sid = Some (ei_job_id (qs_items q ! j))"
    and "map_of (qs_last_served q) sid = Some (ei_job_id (qs_items q ! i)) \<Longrightarrow>
      x \<in> set (qs_items q) \<Longrightarrow> is_eligible sid hp x \<Longrightarrow> ei_job_id x = ei_job_id (qs_items q ! i)"
proof -
  let ?other = "\<lambda>last it. is_eligible sid hp it \<and> ei_job_id it \<noteq> last"
  consider (any) "position (is_eligible sid hp) (qs_items q) = Some i"
        "\<forall>last. map_of (qs_last_served q) sid = Some last \<longrightarrow> position (?other last) (qs_items q) = None"
    | (other) last where "map_of (qs_last_served q) sid = Some last" "position (?other last) (qs_items q) = Some i"
    using assms by (auto simp: select_index_def split: option.splits)
  then have "i < length (qs_items q) \<and> is_eligible sid hp (qs_items q ! i) \<and>
      (j < i \<longrightarrow> is_eligible sid hp (qs_items q ! j) \<longrightarrow>
        map_of (qs_last_served q) sid = Some (ei_job_id (qs_items q ! j))) \<and>
      (map_of (qs_last_served q) sid = Some (ei_job_id (qs_items q ! i)) \<longrightarrow>
        x \<in> set (qs_items q) \<longrightarrow> is_eligible sid hp x \<longrightarrow> ei_job_id x = ei_job_id (qs_items q ! i))"
  proof cases
    case any
    note p = any(1) [unfolded position_Some]
    have "ei_job_id x = ei_job_id (qs_items q ! i)"
      if "map_of (qs_last_served q) sid = Some (ei_job_id (qs_items q ! i))" "x \<in> set (qs_items q)"
        "is_eligible sid hp x"
      using any(2) [rule_format, OF that(1), unfolded position_None] that(2,3) by blast
    with p show ?thesis by blast
  next
    case other
    note p = other(2) [unfolded position_Some]
    have "ei_job_id (qs_items q ! i) \<noteq> last" using p by blast
    moreover have "j < i \<Longrightarrow> is_eligible sid hp (qs_items q ! j) \<Longrightarrow> ei_job_id (qs_items q ! j) = last"
      using p by blast
    ultimately show ?thesis using p other(1) by (simp; blast)
  qed
  then show "i < length (qs_items q)" "is_eligible sid hp (qs_items q ! i)"
    "j < i \<Longrightarrow> is_eligible sid hp (qs_items q ! j) \<Longrightarrow>
      map_of (qs_last_served q) sid = Some (ei_job_id (qs_items q ! j))"
    "map_of (qs_last_served q) sid = Some (ei_job_id (qs_items q ! i)) \<Longrightarrow>
      x \<in> set (qs_items q) \<Longrightarrow> is_eligible sid hp x \<Longrightarrow> ei_job_id x = ei_job_id (qs_items q ! i)"
    by blast+
qed

lemma pop_workable_None:
  assumes "pop_workable sid hp q = (None, q')"
  shows "q' = q" and "it \<in> set (qs_items q) \<Longrightarrow> \<not> is_eligible sid hp it"
proof -
  have "select_index sid hp q = None \<and> q' = q"
    using assms by (auto simp: pop_workable_def Let_def split: option.splits)
  then show "q' = q" "it \<in> set (qs_items q) \<Longrightarrow> \<not> is_eligible sid hp it"
    using select_index_None by auto
qed

lemma pop_workable_Some:
  assumes "pop_workable sid hp q = (Some it, q')"
  shows "\<exists>xs ys. qs_items q = xs @ it # ys \<and> qs_items q' = xs @ ys \<and> is_eligible sid hp it \<and>
      (\<forall>x \<in> set xs. is_eligible sid hp x \<longrightarrow> map_of (qs_last_served q) sid = Some (ei_job_id x))"
    and "map_of (qs_last_served q') = (map_of (qs_last_served q))(sid \<mapsto> ei_job_id it)"
    and "map_of (qs_last_served q) sid = Some (ei_job_id it) \<Longrightarrow> x \<in> set (qs_items q) \<Longrightarrow>
      is_eligible sid hp x \<Longrightarrow> ei_job_id x = ei_job_id it"
proof -
  obtain i where i: "select_index sid hp q = Some i"
    and it: "it = qs_items q ! i"
    and q': "q' = \<lparr>qs_items = take i (qs_items q) @ drop (Suc i) (qs_items q),
           qs_last_served = AList.update sid (ei_job_id it) (qs_last_served q)\<rparr>"
    using assms by (auto simp: pop_workable_def Let_def split: option.splits)
  note sel = select_index_Some [OF i]
  have "qs_items q = take i (qs_items q) @ it # drop (Suc i) (qs_items q)"
    using sel(1) by (simp add: it id_take_nth_drop)
  moreover have "qs_items q' = take i (qs_items q) @ drop (Suc i) (qs_items q)" by (simp add: q')
  moreover have "\<forall>x \<in> set (take i (qs_items q)). is_eligible sid hp x \<longrightarrow>
      map_of (qs_last_served q) sid = Some (ei_job_id x)"
  proof (intro ballI impI)
    fix x assume "x \<in> set (take i (qs_items q))" and e: "is_eligible sid hp x"
    then obtain j where "j < i" "x = qs_items q ! j" by (auto simp: in_set_conv_nth)
    with e show "map_of (qs_last_served q) sid = Some (ei_job_id x)" using sel(3) by simp
  qed
  moreover have "is_eligible sid hp it" using sel(2) by (simp add: it)
  ultimately show "\<exists>xs ys. qs_items q = xs @ it # ys \<and> qs_items q' = xs @ ys \<and> is_eligible sid hp it \<and>
      (\<forall>x \<in> set xs. is_eligible sid hp x \<longrightarrow> map_of (qs_last_served q) sid = Some (ei_job_id x))"
    by blast
  show "map_of (qs_last_served q') = (map_of (qs_last_served q))(sid \<mapsto> ei_job_id it)"
    by (simp add: q' update_conv')
  show "map_of (qs_last_served q) sid = Some (ei_job_id it) \<Longrightarrow> x \<in> set (qs_items q) \<Longrightarrow>
      is_eligible sid hp x \<Longrightarrow> ei_job_id x = ei_job_id it"
    using sel(4) by (simp add: it)
qed

lemma pop_workable_items:
  assumes "pop_workable sid hp q = (r, q')"
  shows "queue_items q = (case r of None \<Rightarrow> {#} | Some it \<Rightarrow> {#it#}) + queue_items q'"
proof (cases r)
  case None
  with assms pop_workable_None(1) [of sid hp q q'] show ?thesis by (simp add: queue_items_def)
next
  case (Some it)
  with assms pop_workable_Some(1) [of sid hp q it q'] show ?thesis by (auto simp: queue_items_def)
qed

definition demo_engine_item :: "byte_string \<Rightarrow> byte_string \<Rightarrow> engine_item" where
  "demo_engine_item job mid =
    \<lparr>ei_job_id = job, ei_file_id = ''f'', ei_filename = ''a.rar'', ei_message_id = mid,
     ei_segment_number = 1, ei_tried_servers = [], ei_provider_outcomes = [],
     ei_tries_on_current = 0, ei_outage_tries = 0, ei_confirm_rounds = 0\<rparr>"

text \<open>\<open>pop_workable\<close> returns an item exactly when \<open>workable_count_for\<close> is positive.  It then takes one
  eligible item out and keeps the order of the others; eligible items it jumped over belong to the
  job the server served last, and an item of that job is returned only when no other job has an
  eligible item.\<close>

theorem pop_workable_exact:
  "case pop_workable sid hp q of
     (None, q') \<Rightarrow> q' = q \<and> fst (workable_count_for sid hp q) = 0
   | (Some it, q') \<Rightarrow>
       (\<exists>xs ys. qs_items q = xs @ it # ys \<and> qs_items q' = xs @ ys \<and> is_eligible sid hp it \<and>
          (\<forall>x \<in> set xs. is_eligible sid hp x \<longrightarrow> map_of (qs_last_served q) sid = Some (ei_job_id x))) \<and>
       map_of (qs_last_served q') = (map_of (qs_last_served q))(sid \<mapsto> ei_job_id it) \<and>
       (map_of (qs_last_served q) sid = Some (ei_job_id it) \<longrightarrow>
          (\<forall>x \<in> set (qs_items q). is_eligible sid hp x \<longrightarrow> ei_job_id x = ei_job_id it))"
proof (cases "pop_workable sid hp q")
  case (Pair r q')
  show ?thesis
  proof (cases r)
    case None
    with Pair have p: "pop_workable sid hp q = (None, q')" by simp
    then show ?thesis using pop_workable_None [OF p] by (simp add: workable_count_for_eq filter_empty_conv)
  next
    case (Some it)
    with Pair have p: "pop_workable sid hp q = (Some it, q')" by simp
    show ?thesis unfolding p prod.case option.case
      using pop_workable_Some [OF p] by blast
  qed
qed

theorem pop_workable_exact_witness:
  "case pop_workable ''s'' [] \<lparr>qs_items = [demo_engine_item ''a'' ''1'', demo_engine_item ''b'' ''2''],
        qs_last_served = [(''s'', ''a'')]\<rparr> of
     (r, q') \<Rightarrow> map_option ei_job_id r = Some ''b'' \<and> length (qs_items q') = 1 \<and>
       map_of (qs_last_served q') ''s'' = Some ''b''"
  using pop_workable_exact [where sid = "''s''" and hp = "[]" and q = "\<lparr>qs_items = [demo_engine_item ''a'' ''1'', demo_engine_item ''b'' ''2''],
        qs_last_served = [(''s'', ''a'')]\<rparr>"]
  by (simp add: pop_workable_def select_index_def is_eligible_def demo_engine_item_def)

text \<open>An item of a higher-priority gate: nothing is popped before every listed server has tried it.\<close>

lemma pop_workable_respects_priority:
  "pop_workable sid hp q = (Some it, q') \<Longrightarrow>
    sid \<notin> set (ei_tried_servers it) \<and> set hp \<subseteq> set (ei_tried_servers it)"
  by (drule pop_workable_Some(1)) (auto simp: is_eligible_def list_all_iff list_ex_iff)

section \<open>Order of a submission\<close>

lemma filter_key_filter_key:
  "filter (\<lambda>y. k y = c) (filter (\<lambda>y. k y = d) xs) = (if c = d then filter (\<lambda>y. k y = c) xs else [])"
  by (induction xs) auto

lemma sort_key_three:
  fixes k :: "'a \<Rightarrow> nat"
  assumes "\<forall>x \<in> set xs. k x < 3"
  shows "sort_key k xs = filter (\<lambda>x. k x = 0) xs @ filter (\<lambda>x. k x = 1) xs @ filter (\<lambda>x. k x = 2) xs"
    (is "_ = ?r")
proof (rule properties_for_sort_key)
  have k: "k x = 0 \<or> k x = 1 \<or> k x = 2" if "x \<in> set xs" for x
    using assms that by (metis One_nat_def Suc_1 less_2_cases_iff less_Suc_eq numeral_3_eq_3)
  show "mset ?r = mset xs"
    using k
  proof (induction xs)
    case (Cons x xs)
    then have "mset (filter (\<lambda>x. k x = 0) xs @ filter (\<lambda>x. k x = 1) xs @ filter (\<lambda>x. k x = 2) xs) = mset xs"
      by simp
    moreover have "k x = 0 \<or> k x = 1 \<or> k x = 2" using Cons.prems by simp
    ultimately show ?case by (elim disjE) simp_all
  qed simp
  show "filter (\<lambda>y. k x = k y) ?r = filter (\<lambda>y. k x = k y) xs" if "x \<in> set ?r" for x
  proof -
    have e: "(\<lambda>y. k x = k y) = (\<lambda>y. k y = k x)" by (rule ext) (rule eq_commute)
    have "k x = 0 \<or> k x = 1 \<or> k x = 2" using that by auto
    then show ?thesis
      unfolding e filter_append filter_key_filter_key by (elim disjE) simp_all
  qed
  show "sorted (map k ?r)"
  proof -
    have "sorted (map k (filter (\<lambda>x. k x = c) xs))" for c by (induction xs) auto
    then show ?thesis by (auto simp: sorted_append)
  qed
qed

lemma par2_sort_key_bound: "par2_sort_key f < 3"
  by (simp add: par2_sort_key_def Let_def)

text \<open>\<open>submit_items\<close> appends the batch behind whatever is queued: its PAR2 index files first, then
  its recovery volumes, then the data files, each class in the order of the batch.\<close>

theorem submit_items_par2_first:
  "qs_items (submit_items items q) =
    qs_items q @
    filter (\<lambda>it. is_par2_index (ei_filename it)) items @
    filter (\<lambda>it. par2_sort_key (ei_filename it) = 1) items @
    filter (\<lambda>it. \<not> ends_with ''.par2'' (lowercase (ei_filename it))) items"
proof -
  have "par2_sort_key f = 2 \<longleftrightarrow> \<not> ends_with ''.par2'' (lowercase f)" for f
    by (simp add: par2_sort_key_def Let_def)
  then show ?thesis
    using sort_key_three [of items "\<lambda>it. par2_sort_key (ei_filename it)"] par2_sort_key_bound
    by (simp add: submit_items_def is_par2_index_sort_key)
qed

section \<open>Fairness\<close>

text \<open>One server popping \<open>n\<close> times in a row.\<close>

fun pop_many :: "nat \<Rightarrow> server_id \<Rightarrow> queue_state \<Rightarrow> engine_item list \<times> queue_state" where
  "pop_many 0 sid q = ([], q)"
| "pop_many (Suc n) sid q =
    (case pop_workable sid [] q of
       (None, q') \<Rightarrow> ([], q')
     | (Some it, q') \<Rightarrow> (case pop_many n sid q' of (its, q'') \<Rightarrow> (it # its, q'')))"

fun alternate :: "'a list \<Rightarrow> 'a list \<Rightarrow> 'a list" where
  "alternate (x # xs) (y # ys) = x # y # alternate xs ys"
| "alternate _ _ = []"

definition fresh_for :: "server_id \<Rightarrow> byte_string \<Rightarrow> engine_item list \<Rightarrow> bool" where
  "fresh_for sid job its \<longleftrightarrow> (\<forall>it \<in> set its. ei_job_id it = job \<and> sid \<notin> set (ei_tried_servers it))"

lemma fresh_for_simps [simp]:
  "fresh_for sid job []"
  "fresh_for sid job (it # its) \<longleftrightarrow>
    ei_job_id it = job \<and> sid \<notin> set (ei_tried_servers it) \<and> fresh_for sid job its"
  by (auto simp: fresh_for_def)

lemma is_eligible_fresh: "sid \<notin> set (ei_tried_servers it) \<Longrightarrow> is_eligible sid [] it"
  by (auto simp: is_eligible_def list_ex_iff)

lemma pop_first:
  assumes "map_of (qs_last_served q) sid = None \<or>
      (\<exists>last. map_of (qs_last_served q) sid = Some last \<and> last \<noteq> ei_job_id it \<and>
        (\<forall>x \<in> set xs. ei_job_id x = last))"
    and "map_of (qs_last_served q) sid = None \<Longrightarrow> xs = []"
    and "qs_items q = xs @ it # ys" "sid \<notin> set (ei_tried_servers it)"
  shows "\<exists>m. pop_workable sid [] q = (Some it, \<lparr>qs_items = xs @ ys, qs_last_served = m\<rparr>) \<and>
      map_of m sid = Some (ei_job_id it)"
proof -
  have e: "is_eligible sid [] it" using assms(4) by (rule is_eligible_fresh)
  have "select_index sid [] q = Some (length xs)"
  proof (cases "map_of (qs_last_served q) sid")
    case None
    then show ?thesis using assms(2,3) e by (simp add: select_index_def)
  next
    case (Some last)
    then have l: "last \<noteq> ei_job_id it" "\<forall>x \<in> set xs. ei_job_id x = last" using assms(1) by auto
    have "position (\<lambda>x. is_eligible sid [] x \<and> ei_job_id x \<noteq> last) (xs @ it # ys) = Some (length xs)"
      using l e by (auto simp: position_Some nth_append)
    with Some assms(3) show ?thesis by (simp add: select_index_def)
  qed
  then show ?thesis using assms(3) by (simp add: pop_workable_def Let_def update_conv')
qed

lemma alternate_pops:
  assumes "length xs = length ys" "fresh_for sid a xs" "fresh_for sid b ys" "a \<noteq> b"
    and "map_of (qs_last_served q) sid = Some b" "qs_items q = xs @ ys @ zs"
  shows "\<exists>q'. pop_many (2 * length xs) sid q = (alternate xs ys, q') \<and> qs_items q' = zs"
  using assms
proof (induction xs ys arbitrary: q rule: list_induct2)
  case Nil
  then show ?case by simp
next
  case (Cons x xs y ys)
  have "\<exists>m. pop_workable sid [] q = (Some x, \<lparr>qs_items = [] @ (xs @ (y # ys) @ zs), qs_last_served = m\<rparr>) \<and>
      map_of m sid = Some (ei_job_id x)"
    using Cons.prems by (intro pop_first) auto
  then obtain m where m: "pop_workable sid [] q = (Some x, \<lparr>qs_items = xs @ y # ys @ zs, qs_last_served = m\<rparr>)"
    "map_of m sid = Some a" using Cons.prems by auto
  let ?q1 = "\<lparr>qs_items = xs @ y # ys @ zs, qs_last_served = m\<rparr>"
  have "\<exists>m'. pop_workable sid [] ?q1 = (Some y, \<lparr>qs_items = xs @ ys @ zs, qs_last_served = m'\<rparr>) \<and>
      map_of m' sid = Some (ei_job_id y)"
    using Cons.prems m(2) by (intro pop_first) (auto simp: fresh_for_def)
  then obtain m' where m': "pop_workable sid [] ?q1 = (Some y, \<lparr>qs_items = xs @ ys @ zs, qs_last_served = m'\<rparr>)"
    "map_of m' sid = Some b" using Cons.prems by auto
  obtain q' where "pop_many (2 * length xs) sid \<lparr>qs_items = xs @ ys @ zs, qs_last_served = m'\<rparr> =
      (alternate xs ys, q')" "qs_items q' = zs"
    using Cons.IH [of "\<lparr>qs_items = xs @ ys @ zs, qs_last_served = m'\<rparr>"] Cons.prems m'(2) by auto
  then show ?case using m m' by simp
qed

text \<open>The fair choice is between the job served last and the others, not round robin: with the backlog
  of two jobs ahead of it, a third job gets nothing from a server until both are drained.  Every
  pop in between alternates between the two.\<close>

theorem two_jobs_starve_a_third:
  assumes "length xs = length ys" "fresh_for sid a xs" "fresh_for sid b ys" "fresh_for sid c zs"
    and "a \<noteq> b" "c \<noteq> a" "c \<noteq> b"
    and "map_of (qs_last_served q) sid \<in> {None, Some b}" "qs_items q = xs @ ys @ zs"
  shows "\<exists>q'. pop_many (2 * length xs) sid q = (alternate xs ys, q') \<and> qs_items q' = zs"
proof (cases "map_of (qs_last_served q) sid")
  case (Some l)
  with assms show ?thesis using alternate_pops [of xs ys sid a b q zs] by simp
next
  case None
  show ?thesis
  proof (cases xs)
    case Nil
    with assms show ?thesis by simp
  next
    case (Cons x xs')
    then obtain y ys' where ys: "ys = y # ys'" using assms(1) by (cases ys) auto
    have "\<exists>m. pop_workable sid [] q = (Some x, \<lparr>qs_items = [] @ (xs' @ (y # ys') @ zs), qs_last_served = m\<rparr>) \<and>
        map_of m sid = Some (ei_job_id x)"
      using assms None Cons ys by (intro pop_first) auto
    then obtain m where m: "pop_workable sid [] q = (Some x, \<lparr>qs_items = xs' @ y # ys' @ zs, qs_last_served = m\<rparr>)"
      "map_of m sid = Some a" using assms Cons by auto
    let ?q1 = "\<lparr>qs_items = xs' @ y # ys' @ zs, qs_last_served = m\<rparr>"
    have "\<exists>m'. pop_workable sid [] ?q1 = (Some y, \<lparr>qs_items = xs' @ ys' @ zs, qs_last_served = m'\<rparr>) \<and>
        map_of m' sid = Some (ei_job_id y)"
      using assms m(2) Cons ys by (intro pop_first) (auto simp: fresh_for_def)
    then obtain m' where m': "pop_workable sid [] ?q1 = (Some y, \<lparr>qs_items = xs' @ ys' @ zs, qs_last_served = m'\<rparr>)"
      "map_of m' sid = Some b" using assms ys by auto
    obtain q' where "pop_many (2 * length xs') sid \<lparr>qs_items = xs' @ ys' @ zs, qs_last_served = m'\<rparr> =
        (alternate xs' ys', q')" "qs_items q' = zs"
      using alternate_pops [of xs' ys' sid a b "\<lparr>qs_items = xs' @ ys' @ zs, qs_last_served = m'\<rparr>" zs]
        assms m'(2) Cons ys by auto
    then show ?thesis using m m' Cons ys by simp
  qed
qed

theorem two_jobs_starve_a_third_witness:
  "\<exists>q'. pop_many 4 ''s''
      \<lparr>qs_items = [demo_engine_item ''a'' ''1'', demo_engine_item ''a'' ''2'', demo_engine_item ''b'' ''3'',
         demo_engine_item ''b'' ''4'', demo_engine_item ''c'' ''5''], qs_last_served = []\<rparr> =
      ([demo_engine_item ''a'' ''1'', demo_engine_item ''b'' ''3'', demo_engine_item ''a'' ''2'',
        demo_engine_item ''b'' ''4''], q') \<and> qs_items q' = [demo_engine_item ''c'' ''5'']"
  using two_jobs_starve_a_third [of "[demo_engine_item ''a'' ''1'', demo_engine_item ''a'' ''2'']"
      "[demo_engine_item ''b'' ''3'', demo_engine_item ''b'' ''4'']" "''s''" "''a''" "''b''" "''c''"
      "[demo_engine_item ''c'' ''5'']"
      "\<lparr>qs_items = [demo_engine_item ''a'' ''1'', demo_engine_item ''a'' ''2'', demo_engine_item ''b'' ''3'',
         demo_engine_item ''b'' ''4'', demo_engine_item ''c'' ''5''], qs_last_served = []\<rparr>"]
  by (simp add: demo_engine_item_def)

section \<open>Circuit breaker\<close>

lemma circuit_open_update [simp]:
  "circuit_open now (update_health sid f hm) sid' =
    (if sid' = sid then \<not> health_available now (f (health_entry sid hm)) else circuit_open now hm sid')"
  by (simp add: circuit_open_def update_health_def update_conv')

lemma health_entry_update [simp]:
  "health_entry sid' (update_health sid f hm) = (if sid' = sid then f (health_entry sid hm) else health_entry sid' hm)"
  by (simp add: health_entry_def update_health_def update_conv')

lemma circuit_open_entry: "circuit_open now hm sid = (\<not> health_available now (health_entry sid hm))"
  by (simp add: circuit_open_def health_entry_def health_available_def health_new_def split: option.splits)

text \<open>A failure: its time, whether it is an authentication failure, its reason.\<close>

type_synonym failure_event = "millis \<times> bool \<times> byte_string"

definition after_failures :: "failure_event list \<Rightarrow> server_health" where
  "after_failures es = fold (\<lambda>(t, auth, r). record_failure t auth r) es health_new"

lemma after_failures_snoc:
  "after_failures (es @ [(t, auth, r)]) = record_failure t auth r (after_failures es)"
  by (simp add: after_failures_def)

lemma after_failures_count:
  "length es < 2 ^ 32 \<Longrightarrow> unat (sh_consecutive_failures (after_failures es)) = length es"
proof (induction es rule: rev_induct)
  case Nil
  then show ?case by (simp add: after_failures_def health_new_def)
next
  case (snoc e es)
  obtain t auth r where e: "e = (t, auth, r)" by (cases e)
  have "unat (sh_consecutive_failures (after_failures es) + 1) = Suc (length es)"
    using snoc by (simp add: unat_word_ariths)
  then show ?case by (simp add: e after_failures_snoc record_failure_def Let_def)
qed

lemma CIRCUIT_BREAK_le: "CIRCUIT_BREAK_THRESHOLD \<le> w \<longleftrightarrow> 3 \<le> unat w"
  by (simp add: CIRCUIT_BREAK_THRESHOLD_def word_le_nat_alt)

text \<open>The breaker: the first two consecutive transient failures leave it as it was, every later one
  opens it for thirty seconds, an authentication failure for two minutes whatever the count.  The
  count survives the cooldown, so after it a single failure opens the breaker again.\<close>

theorem breaker_window:
  assumes "length es < 2 ^ 32 - 1"
  shows "health_available now (after_failures (es @ [(t, auth, r)])) \<longleftrightarrow>
    (if auth then t + 120000 \<le> now
     else if 2 \<le> length es then t + 30000 \<le> now
     else health_available now (after_failures es))"
proof -
  have "unat (sh_consecutive_failures (after_failures es) + 1) = Suc (length es)"
    using assms after_failures_count [of es] by (simp add: unat_word_ariths)
  then have "CIRCUIT_BREAK_THRESHOLD \<le> sh_consecutive_failures (after_failures es) + 1 \<longleftrightarrow> 2 \<le> length es"
    by (simp add: CIRCUIT_BREAK_le)
  then show ?thesis
    by (auto simp: after_failures_snoc record_failure_def Let_def health_available_def
        AUTH_FAILURE_COOLDOWN_def TRANSIENT_FAILURE_COOLDOWN_def)
qed

theorem breaker_window_witness:
  "\<not> health_available 30004 (after_failures [(1, False, ''a''), (2, False, ''b''), (5, False, ''c'')])"
  using breaker_window [of "[(1, False, ''a''), (2, False, ''b'')]" 30004 5 False "''c''"] by simp

text \<open>A worker alone with a server that refuses its connections makes three connection attempts, not the
  five of \<open>MAX_RECONNECT_ATTEMPTS\<close>: the third failure opens the circuit breaker and the loop leaves
  there, so the message about all attempts having failed is never produced.\<close>

theorem connect_gives_up_after_three:
  assumes "health_entry sid health = health_new"
    and "\<And>i. ct_before (connect i) = id" "\<And>i. ct_during (connect i) = id"
    and "\<And>i. ct_result (connect i) = Inl (err i)" "\<And>i. \<not> is_auth_error (err i)"
  shows "connect_with_retry sid connect health =
    (Inl (''Server circuit-broken: '' @ nntp_error_display (err 3)),
     update_health sid (record_failure (ct_end (connect 3)) False (nntp_error_display (err 3)))
       (update_health sid (record_failure (ct_end (connect 2)) False (nntp_error_display (err 2)))
         (update_health sid (record_failure (ct_end (connect 1)) False (nntp_error_display (err 1))) health)))"
proof -
  have "[1..<Suc MAX_RECONNECT_ATTEMPTS] = [1, 2, 3, 4, 5]"
    by (simp add: MAX_RECONNECT_ATTEMPTS_def upt_rec)
  then show ?thesis
    using assms
    by (simp add: connect_with_retry_def Let_def circuit_open_entry record_failure_def health_available_def
        health_new_def CIRCUIT_BREAK_THRESHOLD_def word_le_nat_alt TRANSIENT_FAILURE_COOLDOWN_def MAX_RECONNECT_ATTEMPTS_def)
qed

theorem connect_gives_up_after_three_witness:
  "fst (connect_with_retry ''s'' (\<lambda>i. \<lparr>ct_before = id, ct_start = 0, ct_result = Inl (Io ''refused''),
      ct_during = id, ct_end = 0\<rparr>) []) = Inl ''Server circuit-broken: I/O error: refused''"
  using connect_gives_up_after_three [of "''s''" "[]" "\<lambda>i. \<lparr>ct_before = id, ct_start = 0,
      ct_result = Inl (Io ''refused''), ct_during = id, ct_end = 0\<rparr>" "\<lambda>i. Io ''refused''"]
  by (simp add: health_entry_def is_auth_error_def)

end
