(* ===== verification/Par2_Match.thy ===== *)
theory Par2_Match
  imports Slice_Map "HOL-Library.AList"
begin

text \<open>
  Mapping NZB files to the files of a PAR2 set (\<open>crates/nzb-core/src/par2_match.rs\<close>) and the
  slice layout of a parsed set (\<open>crates/nzb-dispatch/src/slice_layout.rs\<close>).  The parser is the
  third-party crate \<open>rust_par2\<close>; \<open>par2_set\<close> holds the fields of its result that are used.
\<close>

section \<open>Matching\<close>

definition PAR2_HASH_16K_LEN :: nat where "PAR2_HASH_16K_LEN = 16384"

record 'p par2_ref =
  pf_id :: 'p
  pf_name :: byte_string
  pf_hash_16k :: bytes
  pf_size :: nat

record 'n match_candidate =
  cn_id :: 'n
  cn_name :: byte_string
  cn_first_16k_md5 :: "bytes option"
  cn_size :: "nat option"

text \<open>One candidate of the first pass and of the second; the state is the set of claimed positions and the result.\<close>

definition match_name ::
  "'p par2_ref list \<Rightarrow> 'n match_candidate \<Rightarrow> nat set \<times> ('n \<times> 'p) list \<Rightarrow> nat set \<times> ('n \<times> 'p) list" where
  "match_name par2 cand acc =
    (case acc of (claimed, out) \<Rightarrow>
      (case position (\<lambda>p. pf_name p = cn_name cand) par2 of
         None \<Rightarrow> (claimed, out)
       | Some px \<Rightarrow>
           if px \<in> claimed then (claimed, out)
           else (insert px claimed, AList.update (cn_id cand) (pf_id (par2 ! px)) out)))"

definition md5_fits :: "nat set \<Rightarrow> 'n match_candidate \<Rightarrow> bytes \<Rightarrow> nat \<times> 'p par2_ref \<Rightarrow> bool" where
  "md5_fits claimed cand md5 e \<longleftrightarrow>
    fst e \<notin> claimed \<and> pf_hash_16k (snd e) = md5 \<and>
    (case cn_size cand of None \<Rightarrow> True | Some s \<Rightarrow> s = pf_size (snd e))"

definition match_md5 ::
  "'p par2_ref list \<Rightarrow> 'n match_candidate \<Rightarrow> nat set \<times> ('n \<times> 'p) list \<Rightarrow> nat set \<times> ('n \<times> 'p) list" where
  "match_md5 par2 cand acc =
    (case acc of (claimed, out) \<Rightarrow>
      if map_of out (cn_id cand) \<noteq> None then (claimed, out)
      else
        (case cn_first_16k_md5 cand of
           None \<Rightarrow> (claimed, out)
         | Some md5 \<Rightarrow>
             (case position (md5_fits claimed cand md5) (enumerate 0 par2) of
                None \<Rightarrow> (claimed, out)
              | Some px \<Rightarrow> (insert px claimed, AList.update (cn_id cand) (pf_id (par2 ! px)) out))))"

definition match_files_by_hash16k :: "'p par2_ref list \<Rightarrow> 'n match_candidate list \<Rightarrow> ('n \<times> 'p) list" where
  "match_files_by_hash16k par2 cands =
    snd (fold (match_md5 par2) cands (fold (match_name par2) cands ({}, [])))"

text \<open>
  The result claims every PAR2 file at most once: candidates go to positions, positions are
  distinct, and every claimed position is taken by one candidate.
\<close>

definition matching :: "'p par2_ref list \<Rightarrow> nat set \<times> ('n \<times> 'p) list \<Rightarrow> ('n \<rightharpoonup> nat) \<Rightarrow> bool" where
  "matching par2 acc pos \<longleftrightarrow>
    ran pos = fst acc \<and> fst acc \<subseteq> {..<length par2} \<and> inj_on pos (dom pos) \<and>
    map_of (snd acc) = (\<lambda>n. map_option (\<lambda>px. pf_id (par2 ! px)) (pos n))"

lemma matching_claim:
  assumes "matching par2 (claimed, out) pos" "px < length par2" "px \<notin> claimed" "pos n = None"
  shows "matching par2 (insert px claimed, AList.update n (pf_id (par2 ! px)) out) (pos(n \<mapsto> px))"
proof -
  have r: "ran pos = claimed" and i: "inj_on pos (dom pos)"
    using assms(1) by (auto simp: matching_def)
  have "ran (pos(n \<mapsto> px)) = insert px claimed" using r assms(4) by simp
  moreover have "inj_on (pos(n \<mapsto> px)) (dom (pos(n \<mapsto> px)))"
    using i r assms(3,4) by (auto simp: inj_on_def ran_def dom_def)
  ultimately show ?thesis
    using assms(1,2) by (auto simp: matching_def update_conv' fun_eq_iff)
qed

lemma position_lt: "position P xs = Some i \<Longrightarrow> i < length xs"
  by (simp add: position_Some)

lemma match_name_matching:
  assumes "matching par2 acc pos" "pos (cn_id cand) = None"
  shows "\<exists>pos'. matching par2 (match_name par2 cand acc) pos' \<and> dom pos' \<subseteq> insert (cn_id cand) (dom pos)"
proof -
  obtain claimed out where a: "acc = (claimed, out)" by (cases acc)
  show ?thesis
  proof (cases "\<exists>px. position (\<lambda>p. pf_name p = cn_name cand) par2 = Some px \<and> px \<notin> claimed")
    case True
    then obtain px where p: "position (\<lambda>p. pf_name p = cn_name cand) par2 = Some px" "px \<notin> claimed" by auto
    have "matching par2 (match_name par2 cand acc) (pos(cn_id cand \<mapsto> px))"
      using matching_claim [OF assms(1) [unfolded a] position_lt [OF p(1)] p(2) assms(2)] p
      by (simp add: match_name_def a)
    then show ?thesis by (intro exI [of _ "pos(cn_id cand \<mapsto> px)"]) auto
  next
    case False
    then have "match_name par2 cand acc = acc"
      by (auto simp: match_name_def a split: option.splits)
    then show ?thesis using assms(1) by auto
  qed
qed

lemma match_md5_matching:
  assumes "matching par2 acc pos"
  shows "\<exists>pos'. matching par2 (match_md5 par2 cand acc) pos' \<and> dom pos' \<subseteq> insert (cn_id cand) (dom pos)"
proof -
  obtain claimed out where a: "acc = (claimed, out)" by (cases acc)
  show ?thesis
  proof (cases "match_md5 par2 cand acc = acc")
    case True
    then show ?thesis using assms by auto
  next
    case False
    obtain md5 px where n: "map_of out (cn_id cand) = None"
      and p: "position (md5_fits claimed cand md5) (enumerate 0 par2) = Some px"
      and eq: "match_md5 par2 cand acc = (insert px claimed, AList.update (cn_id cand) (pf_id (par2 ! px)) out)"
      using False by (auto simp: match_md5_def a split: option.splits if_splits)
    have "px < length par2" "px \<notin> claimed"
      using p by (auto simp: position_Some nth_enumerate_eq md5_fits_def)
    moreover have "pos (cn_id cand) = None" using n assms by (auto simp: matching_def a)
    ultimately have "matching par2 (match_md5 par2 cand acc) (pos(cn_id cand \<mapsto> px))"
      unfolding eq using assms by (intro matching_claim) (auto simp: a)
    then show ?thesis by (intro exI [of _ "pos(cn_id cand \<mapsto> px)"]) auto
  qed
qed

lemma match_files_matching:
  assumes "distinct (map cn_id cands)"
  shows "\<exists>claimed pos. matching par2 (claimed, match_files_by_hash16k par2 cands) pos \<and>
    dom pos \<subseteq> set (map cn_id cands)"
proof -
  have 1: "\<exists>pos'. matching par2 (fold (match_name par2) cs acc) pos' \<and> dom pos' \<subseteq> dom pos \<union> set (map cn_id cs)"
    if "matching par2 acc pos" "distinct (map cn_id cs)" "dom pos \<inter> set (map cn_id cs) = {}" for cs acc pos
    using that
  proof (induction cs arbitrary: acc pos)
    case (Cons c cs)
    obtain pos1 where p: "matching par2 (match_name par2 c acc) pos1" "dom pos1 \<subseteq> insert (cn_id c) (dom pos)"
      using match_name_matching [OF Cons.prems(1), of c] Cons.prems(3) by (auto simp: domIff)
    have "dom pos1 \<inter> set (map cn_id cs) = {}"
    proof -
      have "cn_id c \<notin> set (map cn_id cs)" "dom pos \<inter> set (map cn_id cs) = {}"
        using Cons.prems(2,3) by auto
      then show ?thesis using p(2) by blast
    qed
    then obtain pos2 where "matching par2 (fold (match_name par2) cs (match_name par2 c acc)) pos2"
      and d: "dom pos2 \<subseteq> dom pos1 \<union> set (map cn_id cs)"
      using Cons.IH [OF p(1)] Cons.prems(2) by auto
    moreover have "dom pos2 \<subseteq> dom pos \<union> set (map cn_id (c # cs))" using d p(2) by auto
    ultimately show ?case by auto
  qed auto
  have 2: "\<exists>pos'. matching par2 (fold (match_md5 par2) cs acc) pos' \<and> dom pos' \<subseteq> dom pos \<union> set (map cn_id cs)"
    if "matching par2 acc pos" for cs acc pos
    using that
  proof (induction cs arbitrary: acc pos)
    case (Cons c cs)
    obtain pos1 where p: "matching par2 (match_md5 par2 c acc) pos1" "dom pos1 \<subseteq> insert (cn_id c) (dom pos)"
      using match_md5_matching [OF Cons.prems(1), of c] by auto
    obtain pos2 where "matching par2 (fold (match_md5 par2) cs (match_md5 par2 c acc)) pos2"
      and d: "dom pos2 \<subseteq> dom pos1 \<union> set (map cn_id cs)"
      using Cons.IH [OF p(1)] by auto
    moreover have "dom pos2 \<subseteq> dom pos \<union> set (map cn_id (c # cs))" using d p(2) by auto
    ultimately show ?case by auto
  qed auto
  have "matching par2 ({}, []) Map.empty" by (simp add: matching_def)
  from 1 [OF this assms] obtain pos1 where
    p1: "matching par2 (fold (match_name par2) cands ({}, [])) pos1" "dom pos1 \<subseteq> set (map cn_id cands)" by auto
  obtain pos2 where p2: "matching par2 (fold (match_md5 par2) cands (fold (match_name par2) cands ({}, []))) pos2"
    "dom pos2 \<subseteq> set (map cn_id cands)" using 2 [OF p1(1), of cands] p1(2) by (metis Un_least order_refl subset_trans)
  then show ?thesis
    by (metis match_files_by_hash16k_def prod.collapse)
qed

section \<open>Layout\<close>

record par2_file =
  p2_filename :: byte_string
  p2_hash_16k :: bytes
  p2_size :: nat
  p2_slices :: "slice_digest list"

record par2_set =
  ps_file_order :: "bytes list"
  ps_files :: "(bytes \<times> par2_file) list"
  ps_slice_size :: nat
  ps_recovery_block_count :: u32

definition ordered_files :: "par2_set \<Rightarrow> par2_file list" where
  "ordered_files s = List.map_filter (map_of (ps_files s)) (ps_file_order s)"

definition slice_layout_from_par2 :: "par2_set \<Rightarrow> slice_layout" where
  "slice_layout_from_par2 s =
    \<lparr>lay_slice_size = ps_slice_size s,
     lay_files = map (\<lambda>f. \<lparr>fsl_size = p2_size f, fsl_slices = p2_slices f\<rparr>) (ordered_files s)\<rparr>"

lemma length_layout [simp]: "length (lay_files (slice_layout_from_par2 s)) = length (ordered_files s)"
  by (simp add: slice_layout_from_par2_def)

end
