(* ===== verification/Slice_Tracker.thy ===== *)
theory Slice_Tracker
  imports Par2_Match Engine_Types
begin

text \<open>
  Per-job slice tracking, \<open>crates/nzb-dispatch/src/slice_tracker.rs\<close> (\<open>JobSlices\<close>): writes are
  buffered until the PAR2 index has been parsed, then drive the slice verifier; failed articles
  decide the slices left over.  What it does with the repair fold is not modelled.  A panic is \<open>None\<close>; offsets and
  lengths (\<open>u64\<close>) are naturals.  The environment holds what third-party code and the file system
  answer: the PAR2 parser on a path, the read-back of a byte range, the checksums.
\<close>

section \<open>State\<close>

type_synonym file_id = byte_string

record file_span =
  fw_offset :: nat
  fw_len :: nat

record pending_slice =
  pd_global_index :: nat
  pd_path :: path
  pd_offset :: nat
  pd_len :: nat

record tracked_set =
  tk_verifier :: slice_verifier
  tk_files :: "(file_id \<times> nat \<times> path) list"
  tk_untracked :: "nat set"
  tk_recovery_block_count :: u32
  tk_par2_files :: "(bytes \<times> nat) list"
  tk_claimed :: "nat set"
  tk_unmatched :: "(file_id \<times> file_span list) list"
  tk_hashed :: "(file_id \<times> nat) set"

datatype tracker_state =
    TS_Disabled
  | TS_Pending "(file_id \<times> file_span list) list" bool
  | TS_Ready tracked_set

record job_slices =
  js_work_dir :: path
  js_filenames :: "(file_id \<times> byte_string) list"
  js_resumed :: "file_id set"
  js_index_on_disk :: "file_id option"
  js_state :: tracker_state
  js_failures :: "(file_id \<times> bool) list"
  js_confirmed_missing :: nat
  js_damaged_seen :: nat
  js_recovery_exponents :: "u32 list"

record tracker_env =
  te_parse :: "path \<Rightarrow> par2_set option"
  te_read :: "path \<Rightarrow> nat \<Rightarrow> nat \<Rightarrow> bytes option"
  te_hashes :: hashes

section \<open>Construction\<close>

definition recovery_exponents :: "nzb_job \<Rightarrow> u32 list" where
  "recovery_exponents job =
    remdups_adj (sort (concat (map
      (\<lambda>f. case (jf_par2_vol f, jf_par2_blocks f) of
             (Some vol, Some blocks) \<Rightarrow> map word_of_nat [unat vol ..< unat (sat_add vol blocks)]
           | _ \<Rightarrow> [])
      (nj_files job))))"

fun option_list :: "'a option list \<Rightarrow> 'a list option" where
  "option_list [] = Some []"
| "option_list (None # xs) = None"
| "option_list (Some x # xs) = map_option (Cons x) (option_list xs)"

definition article_span :: "nzb_article \<Rightarrow> file_span option" where
  "article_span a =
    (case (na_data_begin a, na_data_size a) of
       (Some begin, Some sz) \<Rightarrow> Some \<lparr>fw_offset = begin, fw_len = sz\<rparr>
     | _ \<Rightarrow> None)"

definition seed_file ::
  "job_file \<Rightarrow> (file_id \<times> file_span list) list \<times> file_id set \<Rightarrow> (file_id \<times> file_span list) list \<times> file_id set" where
  "seed_file f acc =
    (case acc of (seeded, resumed) \<Rightarrow>
      let finished = filter na_downloaded (jf_articles f) in
      if finished = [] then (seeded, resumed)
      else (case option_list (map article_span finished) of
              Some writes \<Rightarrow> (AList.update (jf_id f) writes seeded, resumed)
            | None \<Rightarrow> (seeded, insert (jf_id f) resumed)))"

definition job_slices_new :: "nzb_job \<Rightarrow> job_slices" where
  "job_slices_new job =
    (let has_index = list_ex (\<lambda>f. is_par2_index (jf_filename f)) (nj_files job);
         seeds = fold seed_file (nj_files job) ([], {});
         index_on_disk = map_option jf_id (List.find (\<lambda>f. is_par2_index (jf_filename f) \<and>
           jf_articles f \<noteq> [] \<and> list_all na_downloaded (jf_articles f)) (nj_files job))
     in \<lparr>js_work_dir = nj_work_dir job,
         js_filenames = collect_map (map (\<lambda>f. (jf_id f, jf_filename f)) (nj_files job)),
         js_resumed = snd seeds,
         js_index_on_disk = index_on_disk,
         js_state = (if has_index then TS_Pending (fst seeds) False else TS_Disabled),
         js_failures = [], js_confirmed_missing = 0, js_damaged_seen = 0,
         js_recovery_exponents = recovery_exponents job\<rparr>)"

section \<open>Writes\<close>

definition pending_for :: "slice_verifier \<Rightarrow> path \<Rightarrow> nat list \<Rightarrow> pending_slice list" where
  "pending_for v p completed =
    List.map_filter (\<lambda>gi. map_option (\<lambda>(_, offset, len).
      \<lparr>pd_global_index = gi, pd_path = p, pd_offset = offset, pd_len = len\<rparr>) (slice_range gi v)) completed"

definition push_write :: "file_id \<Rightarrow> file_span \<Rightarrow> (file_id \<times> file_span list) list \<Rightarrow> (file_id \<times> file_span list) list" where
  "push_write f w m = AList.update f ((case map_of m f of None \<Rightarrow> [] | Some ws \<Rightarrow> ws) @ [w]) m"

text \<open>The writes of one file, in order, through the verifier.\<close>

fun replay_writes ::
  "nat \<Rightarrow> path \<Rightarrow> file_span list \<Rightarrow> tracked_set \<Rightarrow> (pending_slice list \<times> tracked_set) option" where
  "replay_writes index p [] tk = Some ([], tk)"
| "replay_writes index p (w # ws) tk =
    (case mark_written index (fw_offset w) (fw_len w) (tk_verifier tk) of
       None \<Rightarrow> None
     | Some (completed, v) \<Rightarrow>
         map_option (\<lambda>(pending, tk'). (pending_for v p completed @ pending, tk'))
           (replay_writes index p ws (tk\<lparr>tk_verifier := v\<rparr>)))"

definition tracker_mark ::
  "file_id \<Rightarrow> nat \<Rightarrow> nat \<Rightarrow> job_slices \<Rightarrow> (pending_slice list \<times> bool \<times> job_slices) option" where
  "tracker_mark f offset len js =
    (let w = \<lparr>fw_offset = offset, fw_len = len\<rparr> in
     case js_state js of
       TS_Disabled \<Rightarrow> Some ([], False, js)
     | TS_Pending writes installing \<Rightarrow>
         Some ([], False, js\<lparr>js_state := TS_Pending (push_write f w writes) installing\<rparr>)
     | TS_Ready tk \<Rightarrow>
         (case map_of (tk_unmatched tk) f of
            Some writes \<Rightarrow>
              Some ([], offset < PAR2_HASH_16K_LEN,
                js\<lparr>js_state := TS_Ready (tk\<lparr>tk_unmatched := AList.update f (writes @ [w]) (tk_unmatched tk)\<rparr>)\<rparr>)
          | None \<Rightarrow>
              (case map_of (tk_files tk) f of
                 None \<Rightarrow> Some ([], False, js)
               | Some (index, p) \<Rightarrow>
                   if index \<in> tk_untracked tk then Some ([], False, js)
                   else map_option (\<lambda>(pending, tk'). (pending, False, js\<lparr>js_state := TS_Ready tk'\<rparr>))
                          (replay_writes index p [w] tk))))"

section \<open>Failures\<close>

definition tracker_record_failure :: "file_id \<Rightarrow> bool \<Rightarrow> job_slices \<Rightarrow> job_slices" where
  "tracker_record_failure f confirmed js =
    js\<lparr>js_confirmed_missing := js_confirmed_missing js + (if confirmed then 1 else 0),
       js_failures := AList.update f
         ((case map_of (js_failures js) f of None \<Rightarrow> True | Some b \<Rightarrow> b) \<and> confirmed) (js_failures js)\<rparr>"

definition damage_hint :: "job_slices \<Rightarrow> nat" where
  "damage_hint js = js_damaged_seen js + js_confirmed_missing js"

section \<open>Installing the index\<close>

definition claim_install :: "job_slices \<Rightarrow> bool \<times> job_slices" where
  "claim_install js =
    (case js_state js of
       TS_Pending writes False \<Rightarrow> (True, js\<lparr>js_state := TS_Pending writes True\<rparr>)
     | _ \<Rightarrow> (False, js))"

text \<open>Indexing a hash map panics on a missing key; \<open>filename_of\<close> is only asked for keys of the map.\<close>

definition filename_of :: "job_slices \<Rightarrow> file_id \<Rightarrow> byte_string" where
  "filename_of js f = (case map_of (js_filenames js) f of Some n \<Rightarrow> n | None \<Rightarrow> [])"

definition is_par2_file :: "byte_string \<Rightarrow> bool" where
  "is_par2_file name = ends_with ''.par2'' (lowercase name)"

definition par2_refs :: "par2_set \<Rightarrow> nat par2_ref list" where
  "par2_refs s =
    map (\<lambda>(i, f). \<lparr>pf_id = i, pf_name = p2_filename f, pf_hash_16k = p2_hash_16k f, pf_size = p2_size f\<rparr>)
      (enumerate 0 (ordered_files s))"

definition install_candidates :: "job_slices \<Rightarrow> file_id match_candidate list" where
  "install_candidates js =
    map (\<lambda>(f, name). \<lparr>cn_id = f, cn_name = name, cn_first_16k_md5 = None, cn_size = None\<rparr>)
      (filter (\<lambda>(_, name). \<not> is_par2_file name) (js_filenames js))"

definition install_tracked :: "par2_set \<Rightarrow> job_slices \<Rightarrow> tracked_set" where
  "install_tracked s js =
    (let layout = slice_layout_from_par2 s;
         refs = par2_refs s;
         matched = match_files_by_hash16k refs (install_candidates js);
         claimed = set (map snd matched)
     in \<lparr>tk_verifier = verifier_new layout,
         tk_files = map (\<lambda>(f, index). (f, index, path_join (js_work_dir js) (filename_of js f))) matched,
         tk_untracked = set (map snd (filter (\<lambda>(f, _). f \<in> js_resumed js) matched)) \<union>
           set (filter (\<lambda>i. i \<notin> claimed) [0..<length (lay_files layout)]),
         tk_recovery_block_count = ps_recovery_block_count s,
         tk_par2_files = map (\<lambda>r. (pf_hash_16k r, pf_size r)) refs,
         tk_claimed = claimed,
         tk_unmatched = map (\<lambda>(f, _). (f, []))
           (filter (\<lambda>(f, name). \<not> is_par2_file name \<and> map_of matched f = None \<and> f \<notin> js_resumed js)
             (js_filenames js)),
         tk_hashed = {}\<rparr>)"

text \<open>The replay of the buffered writes; the files to be matched by hash are collected on the way.\<close>

fun install_replay ::
  "(file_id \<times> file_span list) list \<Rightarrow> tracked_set \<Rightarrow> (pending_slice list \<times> file_id list \<times> tracked_set) option" where
  "install_replay [] tk = Some ([], [], tk)"
| "install_replay ((f, writes) # buffered) tk =
    (case map_of (tk_unmatched tk) f of
       Some held \<Rightarrow>
         map_option (\<lambda>(pending, to_match, tk'). (pending, f # to_match, tk'))
           (install_replay buffered (tk\<lparr>tk_unmatched := AList.update f (held @ writes) (tk_unmatched tk)\<rparr>))
     | None \<Rightarrow>
         (case map_of (tk_files tk) f of
            None \<Rightarrow> install_replay buffered tk
          | Some (index, p) \<Rightarrow>
              if index \<in> tk_untracked tk then install_replay buffered tk
              else
                (case replay_writes index p writes tk of
                   None \<Rightarrow> None
                 | Some (pending, tk1) \<Rightarrow>
                     map_option (\<lambda>(more, to_match, tk'). (pending @ more, to_match, tk'))
                       (install_replay buffered tk1))))"

section \<open>Matching by hash\<close>

text \<open>The loop leaves at the first write past the covered prefix.\<close>

fun extend_prefix :: "nat \<Rightarrow> file_span list \<Rightarrow> nat" where
  "extend_prefix e [] = e"
| "extend_prefix e (w # ws) =
    (if e < fw_offset w then e else extend_prefix (max e (fw_offset w + fw_len w)) ws)"

definition covered_prefix :: "file_span list \<Rightarrow> nat" where
  "covered_prefix writes = extend_prefix 0 (sort_key fw_offset writes)"

definition prefix_lens :: "tracked_set \<Rightarrow> file_span list \<Rightarrow> nat list" where
  "prefix_lens tk writes =
    remdups_adj (sort
      (filter (\<lambda>len. 0 < len \<and> len \<le> covered_prefix writes)
        (map (\<lambda>(_, (_, size)). min size PAR2_HASH_16K_LEN)
          (filter (\<lambda>(i, _). i \<notin> tk_claimed tk) (enumerate 0 (tk_par2_files tk))))))"

definition find_prefix :: "tracked_set \<Rightarrow> bytes \<Rightarrow> nat \<Rightarrow> nat option" where
  "find_prefix tk digest len =
    position (\<lambda>(i, (h, s)). i \<notin> tk_claimed tk \<and> h = digest \<and> min s PAR2_HASH_16K_LEN = len)
      (enumerate 0 (tk_par2_files tk))"

text \<open>
  One prefix length: read, hash, look the digest up.  The flag says that the loop over the lengths
  ends, because the file was matched or is no longer unmatched.
\<close>

definition match_len ::
  "tracker_env \<Rightarrow> file_id \<Rightarrow> path \<Rightarrow> nat \<Rightarrow> tracked_set \<Rightarrow> (bool \<times> pending_slice list \<times> tracked_set) option" where
  "match_len env f p len tk =
    (case te_read env p 0 len of
       None \<Rightarrow> Some (False, [], tk)
     | Some b \<Rightarrow>
         (case find_prefix tk (hash_md5 (te_hashes env) b) len of
            None \<Rightarrow> Some (False, [], tk)
          | Some index \<Rightarrow>
              (case map_of (tk_unmatched tk) f of
                 None \<Rightarrow> Some (True, [], tk)
               | Some writes \<Rightarrow>
                   map_option (Pair True)
                     (replay_writes index p writes
                       (tk\<lparr>tk_unmatched := AList.delete f (tk_unmatched tk),
                           tk_claimed := insert index (tk_claimed tk),
                           tk_untracked := tk_untracked tk - {index},
                           tk_files := AList.update f (index, p) (tk_files tk)\<rparr>)))))"

fun match_lens ::
  "tracker_env \<Rightarrow> file_id \<Rightarrow> path \<Rightarrow> nat list \<Rightarrow> tracked_set \<Rightarrow> (pending_slice list \<times> tracked_set) option" where
  "match_lens env f p [] tk = Some ([], tk)"
| "match_lens env f p (len # lens) tk =
    (case match_len env f p len tk of
       None \<Rightarrow> None
     | Some (finished, pending, tk') \<Rightarrow>
         if finished then Some (pending, tk') else match_lens env f p lens tk')"

text \<open>The critical section before the loop picks the lengths not tried yet and notes them.\<close>

definition pick_lens :: "file_id \<Rightarrow> file_span list \<Rightarrow> tracked_set \<Rightarrow> nat list \<times> tracked_set" where
  "pick_lens f writes tk =
    (let lens = filter (\<lambda>len. (f, len) \<notin> tk_hashed tk) (prefix_lens tk writes) in
     (lens, tk\<lparr>tk_hashed := tk_hashed tk \<union> set (map (Pair f) lens)\<rparr>))"

definition match_file ::
  "tracker_env \<Rightarrow> job_slices \<Rightarrow> file_id \<Rightarrow> tracked_set \<Rightarrow> (pending_slice list \<times> tracked_set) option" where
  "match_file env js f tk =
    (case map_of (tk_unmatched tk) f of
       None \<Rightarrow> Some ([], tk)
     | Some writes \<Rightarrow>
         (case pick_lens f writes tk of
            (lens, tk') \<Rightarrow> match_lens env f (path_join (js_work_dir js) (filename_of js f)) lens tk'))"

fun match_files ::
  "tracker_env \<Rightarrow> job_slices \<Rightarrow> file_id list \<Rightarrow> tracked_set \<Rightarrow> (pending_slice list \<times> tracked_set) option" where
  "match_files env js [] tk = Some ([], tk)"
| "match_files env js (f # fs) tk =
    (case match_file env js f tk of
       None \<Rightarrow> None
     | Some (pending, tk1) \<Rightarrow>
         map_option (\<lambda>(more, tk'). (pending @ more, tk')) (match_files env js fs tk1))"

definition match_by_hash ::
  "tracker_env \<Rightarrow> file_id list \<Rightarrow> job_slices \<Rightarrow> (pending_slice list \<times> job_slices) option" where
  "match_by_hash env fs js =
    (case js_state js of
       TS_Ready tk \<Rightarrow>
         map_option (\<lambda>(pending, tk'). (pending, js\<lparr>js_state := TS_Ready tk'\<rparr>)) (match_files env js fs tk)
     | _ \<Rightarrow> Some ([], js))"

definition install_state ::
  "tracker_env \<Rightarrow> file_id \<Rightarrow> job_slices \<Rightarrow> (pending_slice list \<times> file_id list \<times> job_slices) option" where
  "install_state env index_file js =
    (case map_of (js_filenames js) index_file of
       None \<Rightarrow> Some ([], [], js\<lparr>js_state := TS_Disabled\<rparr>)
     | Some name \<Rightarrow>
         (case te_parse env (path_join (js_work_dir js) name) of
            None \<Rightarrow> Some ([], [], js\<lparr>js_state := TS_Disabled\<rparr>)
          | Some s \<Rightarrow>
              map_option (\<lambda>(pending, to_match, tk). (pending, to_match, js\<lparr>js_state := TS_Ready tk\<rparr>))
                (install_replay (case js_state js of TS_Pending writes _ \<Rightarrow> writes | _ \<Rightarrow> [])
                  (install_tracked s js))))"

definition tracker_install ::
  "tracker_env \<Rightarrow> file_id \<Rightarrow> job_slices \<Rightarrow> (pending_slice list \<times> job_slices) option" where
  "tracker_install env index_file js =
    (case install_state env index_file js of
       None \<Rightarrow> None
     | Some (pending, to_match, js1) \<Rightarrow>
         map_option (\<lambda>(more, js'). (pending @ more, js')) (match_by_hash env to_match js1))"

section \<open>Verification\<close>

definition verify_pending :: "tracker_env \<Rightarrow> pending_slice \<Rightarrow> job_slices \<Rightarrow> job_slices" where
  "verify_pending env sl js =
    (case te_read env (pd_path sl) (pd_offset sl) (pd_len sl) of
       None \<Rightarrow> js
     | Some b \<Rightarrow>
         (case js_state js of
            TS_Ready tk \<Rightarrow>
              (case verify (te_hashes env) (pd_global_index sl) b (tk_verifier tk) of
                 (verdict, v) \<Rightarrow>
                   js\<lparr>js_state := TS_Ready (tk\<lparr>tk_verifier := v\<rparr>),
                      js_damaged_seen := js_damaged_seen js + (if verdict = Damaged then 1 else 0)\<rparr>)
          | _ \<Rightarrow> js))"

definition verify_slices :: "tracker_env \<Rightarrow> pending_slice list \<Rightarrow> job_slices \<Rightarrow> job_slices" where
  "verify_slices env pending js = fold (verify_pending env) pending js"

text \<open>\<open>record_write\<close> of one worker, with no other worker between its steps.\<close>

definition tracker_record_write ::
  "tracker_env \<Rightarrow> file_id \<Rightarrow> nat \<Rightarrow> nat \<Rightarrow> bool \<Rightarrow> job_slices \<Rightarrow> job_slices option" where
  "tracker_record_write env f offset len file_complete js =
    (case tracker_mark f offset len js of
       None \<Rightarrow> None
     | Some (pending, try_match, js1) \<Rightarrow>
         let completed_index =
               (if file_complete \<and> (case map_of (js_filenames js1) f of Some n \<Rightarrow> is_par2_index n | None \<Rightarrow> False)
                then Some f else js_index_on_disk js1)
         in
         (case (case completed_index of
                  None \<Rightarrow> Some (pending, js1)
                | Some index_id \<Rightarrow>
                    (case claim_install js1 of
                       (False, js2) \<Rightarrow> Some (pending, js2)
                     | (True, js2) \<Rightarrow>
                         map_option (\<lambda>(more, js3). (pending @ more, js3)) (tracker_install env index_id js2))) of
            None \<Rightarrow> None
          | Some (pending2, js3) \<Rightarrow>
              if try_match
              then map_option (\<lambda>(more, js4). verify_slices env (pending2 @ more) js4) (match_by_hash env [f] js3)
              else Some (verify_slices env pending2 js3)))"

section \<open>Summary\<close>

definition confirmed_files :: "job_slices \<Rightarrow> tracked_set \<Rightarrow> nat set" where
  "confirmed_files js tk =
    set (map (\<lambda>(_, index, _). index)
      (filter (\<lambda>(f, index, _). map_of (js_failures js) f = Some True \<and> index \<notin> tk_untracked tk) (tk_files tk)))"

definition decide_slice :: "nat set \<Rightarrow> nat \<times> slice_state \<Rightarrow> slice_verifier \<Rightarrow> slice_verifier" where
  "decide_slice confirmed s v =
    (if snd s \<noteq> Unknown then v
     else (case slice_range (fst s) v of
             None \<Rightarrow> v
           | Some (index, _, _) \<Rightarrow> if index \<in> confirmed then mark_damaged (fst s) v else v))"

fun verdict_of :: "slice_state \<Rightarrow> slice_verdict" where
  "verdict_of Unknown = SV_Unknown"
| "verdict_of Verified = SV_Verified"
| "verdict_of Damaged = SV_Damaged"

definition tracker_summary :: "job_slices \<Rightarrow> slice_map_summary option \<times> job_slices" where
  "tracker_summary js =
    (case js_state js of
       TS_Ready tk \<Rightarrow>
         let v = fold (decide_slice (confirmed_files js tk)) (enumerate 0 (states (tk_verifier tk))) (tk_verifier tk);
             verdicts = map verdict_of (states v)
         in (Some \<lparr>sm_states = verdicts, sm_recovery_block_count = tk_recovery_block_count tk,
                sm_damaged = length (filter (\<lambda>s. s = SV_Damaged) verdicts),
                sm_unknown = length (filter (\<lambda>s. s = SV_Unknown) verdicts)\<rparr>,
             js\<lparr>js_state := TS_Ready (tk\<lparr>tk_verifier := v\<rparr>)\<rparr>)
     | _ \<Rightarrow> (None, js))"

end
