(* ===== verification/Slice_Tracker_Proofs.thy ===== *)
theory Slice_Tracker_Proofs
  imports Slice_Tracker Slice_Map_Proofs
begin

text \<open>
  What slice tracking promises, whatever the order in which workers take its lock: no index of the
  verifier is out of range, every PAR2 file belongs to at most one NZB file, and the verifier has
  been given exactly the writes recorded for the files it tracks, those before the index arrived
  included.  The summary decides the slices whose gaps are confirmed.
\<close>

section \<open>Runs of the verifier\<close>

definition span_write :: "nat \<Rightarrow> file_span \<Rightarrow> slice_event" where
  "span_write i w = Write i (fw_offset w) (fw_len w)"

definition span_of :: "nat \<Rightarrow> file_span \<Rightarrow> file_write" where
  "span_of i w = (i, fw_offset w, fw_len w)"

lemma slice_run_append:
  "slice_run h (es @ es') v = (case slice_run h es v of None \<Rightarrow> None | Some v' \<Rightarrow> slice_run h es' v')"
  by (induction h es v rule: slice_run.induct) (auto split: option.splits prod.splits)

lemma writes_of_append [simp]: "writes_of (es @ es') = writes_of es @ writes_of es'"
  by (induction es rule: writes_of.induct) auto

lemma writes_of_spans [simp]: "writes_of (map (span_write i) ws) = map (span_of i) ws"
  by (induction ws) (simp_all add: span_write_def span_of_def)

lemma mark_written_bounds: "mark_written i off len v = Some (r, v') \<Longrightarrow> vf_bounds v' = vf_bounds v"
  by (auto simp: mark_written_def split: if_splits prod.splits)

lemma mark_written_in_range: "Suc i < length (vf_bounds v) \<Longrightarrow> mark_written i off len v \<noteq> None"
  by (simp add: mark_written_def split: prod.splits)

lemma verify_bounds [simp]: "vf_bounds (snd (verify h g d v)) = vf_bounds v"
  by (simp add: verify_def Let_def)

lemma mark_damaged_bounds [simp]: "vf_bounds (mark_damaged g v) = vf_bounds v"
  by (simp add: mark_damaged_def)

lemma slice_run_bounds: "slice_run h es v = Some v' \<Longrightarrow> vf_bounds v' = vf_bounds v"
  by (induction h es v rule: slice_run.induct)
    (auto split: option.splits prod.splits dest: mark_written_bounds)

lemma verifier_new_bounds: "length (vf_bounds (verifier_new layout)) = Suc (length (lay_files layout))"
  by (simp add: verifier_new_eq del: upt_Suc)

lemma replay_writes_run:
  "replay_writes i p ws tk = Some (pending, tk') \<Longrightarrow>
    \<exists>v. slice_run h (map (span_write i) ws) (tk_verifier tk) = Some v \<and> tk' = tk\<lparr>tk_verifier := v\<rparr>"
  by (induction i p ws tk arbitrary: pending tk' rule: replay_writes.induct)
    (auto simp: span_write_def split: option.splits prod.splits)

lemma replay_writes_in_range:
  "Suc i < length (vf_bounds (tk_verifier tk)) \<Longrightarrow> replay_writes i p ws tk \<noteq> None"
proof (induction i p ws tk rule: replay_writes.induct)
  case (2 i p w ws tk)
  then obtain r v where m: "mark_written i (fw_offset w) (fw_len w) (tk_verifier tk) = Some (r, v)"
    using mark_written_in_range by fastforce
  then show ?case using "2.IH" [OF m refl] "2.prems" mark_written_bounds [OF m] by simp
qed simp

section \<open>The invariant\<close>

text \<open>The log of writes recorded so far, and the part of one file.\<close>

type_synonym write_log = "(file_id \<times> file_span) list"

definition logged :: "write_log \<Rightarrow> file_id \<Rightarrow> file_span list" where
  "logged lg f = map snd (filter (\<lambda>e. fst e = f) lg)"

lemma logged_simps [simp]:
  "logged [] f = []"
  "logged (lg @ [(g, w)]) f = logged lg f @ (if g = f then [w] else [])"
  by (simp_all add: logged_def)

definition indices :: "(file_id \<times> nat \<times> path) list \<Rightarrow> nat list" where
  "indices files = map (\<lambda>e. fst (snd e)) files"

definition writes_to :: "nat \<Rightarrow> slice_event list \<Rightarrow> file_write list" where
  "writes_to i es = filter (\<lambda>w. fst w = i) (writes_of es)"

lemma writes_to_append [simp]: "writes_to i (es @ es') = writes_to i es @ writes_to i es'"
  by (simp add: writes_to_def)

lemma writes_to_spans [simp]:
  "writes_to i (map (span_write j) ws) = (if j = i then map (span_of i) ws else [])"
  by (induction ws) (auto simp: writes_to_def span_of_def span_write_def)

text \<open>Everything but the log: geometry and the injective assignment of PAR2 files.\<close>

definition files_ok :: "tracked_set \<Rightarrow> bool" where
  "files_ok tk \<longleftrightarrow>
    distinct (map fst (tk_files tk)) \<and> distinct (indices (tk_files tk)) \<and>
    set (indices (tk_files tk)) = tk_claimed tk \<and>
    tk_claimed tk \<subseteq> {..<length (tk_par2_files tk)} \<and>
    {..<length (tk_par2_files tk)} - tk_claimed tk \<subseteq> tk_untracked tk \<and>
    length (vf_bounds (tk_verifier tk)) = Suc (length (tk_par2_files tk)) \<and>
    (\<forall>f. map_of (tk_unmatched tk) f \<noteq> None \<longrightarrow> map_of (tk_files tk) f = None) \<and>
    distinct (map fst (tk_unmatched tk))"

text \<open>\<open>seen f\<close>: the writes of \<open>f\<close> that are accounted for, in the verifier or in the list of an unmatched file.\<close>

definition accounts :: "slice_event list \<Rightarrow> (file_id \<Rightarrow> file_span list) \<Rightarrow> tracked_set \<Rightarrow> bool" where
  "accounts es seen tk \<longleftrightarrow>
    (\<forall>f i p. map_of (tk_files tk) f = Some (i, p) \<longrightarrow> i \<notin> tk_untracked tk \<longrightarrow>
       writes_to i es = map (span_of i) (seen f)) \<and>
    (\<forall>i \<in> tk_untracked tk. writes_to i es = []) \<and>
    (\<forall>f ws. map_of (tk_unmatched tk) f = Some ws \<longrightarrow> ws = seen f)"

definition ran :: "hashes \<Rightarrow> slice_layout \<Rightarrow> slice_event list \<Rightarrow> tracked_set \<Rightarrow> bool" where
  "ran h layout es tk \<longleftrightarrow> slice_run h es (verifier_new layout) = Some (tk_verifier tk)"

lemma files_ok_index:
  assumes "files_ok tk" "map_of (tk_files tk) f = Some (i, p)"
  shows "i < length (tk_par2_files tk)" and "i \<in> tk_claimed tk"
proof -
  have "(f, i, p) \<in> set (tk_files tk)" using assms(2) by (rule map_of_SomeD)
  then show "i \<in> tk_claimed tk" using assms(1) by (force simp: files_ok_def indices_def)
  then show "i < length (tk_par2_files tk)" using assms(1) by (auto simp: files_ok_def)
qed

lemma files_ok_inj:
  assumes "files_ok tk" "map_of (tk_files tk) f = Some (i, p)" "map_of (tk_files tk) g = Some (i, q)"
  shows "f = g"
proof -
  have d: "distinct (indices (tk_files tk))" using assms(1) by (simp add: files_ok_def)
  obtain a b where a: "a < length (tk_files tk)" "tk_files tk ! a = (f, i, p)"
    and b: "b < length (tk_files tk)" "tk_files tk ! b = (g, i, q)"
    using assms(2,3) by (auto dest!: map_of_SomeD simp: in_set_conv_nth)
  have "indices (tk_files tk) ! a = indices (tk_files tk) ! b"
    using a b by (simp add: indices_def)
  moreover have "length (indices (tk_files tk)) = length (tk_files tk)" by (simp add: indices_def)
  ultimately have "a = b" using nth_eq_iff_index_eq [OF d] a(1) b(1) by simp
  then show ?thesis using a b by simp
qed

text \<open>Writes of a tracked file go through to the verifier.\<close>

lemma replay_ok:
  assumes ok: "files_ok tk" and i: "i < length (tk_par2_files tk)" and run: "ran h layout es tk"
  shows "\<exists>pending v. replay_writes i p ws tk = Some (pending, tk\<lparr>tk_verifier := v\<rparr>) \<and>
    files_ok (tk\<lparr>tk_verifier := v\<rparr>) \<and> ran h layout (es @ map (span_write i) ws) (tk\<lparr>tk_verifier := v\<rparr>)"
proof -
  have "Suc i < length (vf_bounds (tk_verifier tk))"
    using i ok by (simp add: files_ok_def)
  from replay_writes_in_range [OF this, of p ws]
  obtain pending tk0 where m: "replay_writes i p ws tk = Some (pending, tk0)" by fastforce
  obtain v where v: "slice_run h (map (span_write i) ws) (tk_verifier tk) = Some v" "tk0 = tk\<lparr>tk_verifier := v\<rparr>"
    using replay_writes_run [OF m] by blast
  have "vf_bounds v = vf_bounds (tk_verifier tk)" using v(1) by (rule slice_run_bounds)
  then have "files_ok (tk\<lparr>tk_verifier := v\<rparr>)" using ok by (simp add: files_ok_def)
  moreover have "ran h layout (es @ map (span_write i) ws) (tk\<lparr>tk_verifier := v\<rparr>)"
    using run v(1) by (simp add: ran_def slice_run_append)
  ultimately show ?thesis using m v(2) by blast
qed

lemma accounts_replay:
  assumes ok: "files_ok tk" and a: "accounts es seen tk"
    and f: "map_of (tk_files tk) f = Some (i, p)" "i \<notin> tk_untracked tk"
  shows "accounts (es @ map (span_write i) ws) (seen(f := seen f @ ws)) (tk\<lparr>tk_verifier := v\<rparr>)"
proof -
  have u: "map_of (tk_unmatched tk) f = None"
  proof (rule ccontr)
    assume "map_of (tk_unmatched tk) f \<noteq> None"
    then have "map_of (tk_files tk) f = None" using ok by (simp add: files_ok_def)
    with f(1) show False by simp
  qed
  have "writes_to j (es @ map (span_write i) ws) = map (span_of j) ((seen(f := seen f @ ws)) g)"
    if g: "map_of (tk_files tk) g = Some (j, q)" "j \<notin> tk_untracked tk" for g j q
  proof (cases "g = f")
    case True
    then show ?thesis using a f g by (simp add: accounts_def)
  next
    case False
    then have "j \<noteq> i" using files_ok_inj [OF ok f(1)] g(1) by blast
    then show ?thesis using False a g by (simp add: accounts_def)
  qed
  moreover have "writes_to j (es @ map (span_write i) ws) = []" if "j \<in> tk_untracked tk" for j
    using a f(2) that by (auto simp: accounts_def)
  moreover have "ws' = (seen(f := seen f @ ws)) g" if "map_of (tk_unmatched tk) g = Some ws'" for g ws'
    using a u that by (auto simp: accounts_def)
  ultimately show ?thesis by (simp add: accounts_def)
qed

lemma accounts_unmatched:
  assumes "files_ok tk" "accounts es seen tk" "map_of (tk_unmatched tk) f = Some held"
  shows "accounts es (seen(f := seen f @ ws)) (tk\<lparr>tk_unmatched := AList.update f (held @ ws) (tk_unmatched tk)\<rparr>)"
    and "files_ok (tk\<lparr>tk_unmatched := AList.update f (held @ ws) (tk_unmatched tk)\<rparr>)"
proof -
  have "map_of (tk_files tk) f = None" using assms(1,3) by (auto simp: files_ok_def)
  then show "accounts es (seen(f := seen f @ ws)) (tk\<lparr>tk_unmatched := AList.update f (held @ ws) (tk_unmatched tk)\<rparr>)"
    using assms(2,3) by (auto simp: accounts_def update_conv')
  show "files_ok (tk\<lparr>tk_unmatched := AList.update f (held @ ws) (tk_unmatched tk)\<rparr>)"
    using assms(1,3) by (auto simp: files_ok_def update_conv' distinct_update)
qed

text \<open>A write of a file that is neither tracked nor waiting to be matched is not looked at.\<close>

lemma accounts_ignored:
  assumes "accounts es seen tk" "map_of (tk_unmatched tk) f = None"
    and "\<And>i p. map_of (tk_files tk) f = Some (i, p) \<Longrightarrow> i \<in> tk_untracked tk"
  shows "accounts es (seen(f := ws)) tk"
  using assms by (auto simp: accounts_def)

lemma verdict_accounts:
  assumes "writes_of es' = []" "ran h layout es tk" "slice_run h es' (tk_verifier tk) = Some v"
    "files_ok tk" "accounts es seen tk"
  shows "ran h layout (es @ es') (tk\<lparr>tk_verifier := v\<rparr>)" "files_ok (tk\<lparr>tk_verifier := v\<rparr>)"
    "accounts (es @ es') seen (tk\<lparr>tk_verifier := v\<rparr>)"
  using assms slice_run_bounds [OF assms(3)]
  by (simp_all add: ran_def slice_run_append files_ok_def accounts_def writes_to_def)

section \<open>Matching by hash\<close>

lemma alist_update_new: "k \<notin> fst ` set al \<Longrightarrow> AList.update k v al = al @ [(k, v)]"
  by (induction al) auto

lemma find_prefix_unclaimed:
  "find_prefix tk d len = Some i \<Longrightarrow> i < length (tk_par2_files tk) \<and> i \<notin> tk_claimed tk"
  by (auto simp: find_prefix_def position_Some nth_enumerate_eq split: prod.splits)

definition adopt_file :: "file_id \<Rightarrow> nat \<Rightarrow> path \<Rightarrow> tracked_set \<Rightarrow> tracked_set" where
  "adopt_file f i p tk =
    tk\<lparr>tk_unmatched := AList.delete f (tk_unmatched tk), tk_claimed := insert i (tk_claimed tk),
       tk_untracked := tk_untracked tk - {i}, tk_files := AList.update f (i, p) (tk_files tk)\<rparr>"

lemma adopt_file_ok:
  assumes ok: "files_ok tk" and a: "accounts es seen tk"
    and i: "i < length (tk_par2_files tk)" "i \<notin> tk_claimed tk"
    and f: "map_of (tk_unmatched tk) f = Some ws"
  shows "files_ok (adopt_file f i p tk)" and "accounts es (seen(f := [])) (adopt_file f i p tk)"
proof -
  have nf: "map_of (tk_files tk) f = None" using ok f by (simp add: files_ok_def)
  then have new: "f \<notin> fst ` set (tk_files tk)" by (simp add: map_of_eq_None_iff)
  have idx: "indices (AList.update f (i, p) (tk_files tk)) = indices (tk_files tk) @ [i]"
    using new by (simp add: alist_update_new indices_def)
  show "files_ok (adopt_file f i p tk)"
    using ok i by (auto simp: files_ok_def adopt_file_def idx update_conv' delete_conv' distinct_update distinct_delete)
  have iu: "i \<in> tk_untracked tk" using ok i by (auto simp: files_ok_def)
  show "accounts es (seen(f := [])) (adopt_file f i p tk)"
    unfolding accounts_def
  proof (intro conjI allI impI ballI)
    fix g j q
    assume g: "map_of (tk_files (adopt_file f i p tk)) g = Some (j, q)"
      and j: "j \<notin> tk_untracked (adopt_file f i p tk)"
    show "writes_to j es = map (span_of j) ((seen(f := [])) g)"
    proof (cases "g = f")
      case True
      then show ?thesis using g a iu by (simp add: adopt_file_def update_conv' accounts_def)
    next
      case False
      then have g': "map_of (tk_files tk) g = Some (j, q)" using g by (simp add: adopt_file_def update_conv')
      then have "j \<noteq> i" using files_ok_index(2) [OF ok g'] i(2) by blast
      then show ?thesis using False g' j a by (simp add: accounts_def adopt_file_def)
    qed
  qed (use a in \<open>auto simp: accounts_def adopt_file_def delete_conv'\<close>)
qed

lemma match_len_ok:
  assumes ok: "files_ok tk" and run: "ran h layout es tk" and a: "accounts es seen tk"
  shows "\<exists>fin pending tk' es'. match_len env f p len tk = Some (fin, pending, tk') \<and>
    files_ok tk' \<and> ran h layout es' tk' \<and> accounts es' seen tk'"
proof -
  have triv: ?thesis if "match_len env f p len tk = Some (fin, [], tk)" for fin
    using that assms by blast
  show ?thesis
  proof (cases "te_read env p 0 len")
    case None
    then show ?thesis by (intro triv [of False]) (simp add: match_len_def)
  next
    case (Some b)
    note rd = this
    show ?thesis
    proof (cases "find_prefix tk (hash_md5 (te_hashes env) b) len")
      case None
      with rd show ?thesis by (intro triv [of False]) (simp add: match_len_def)
    next
      case (Some i)
      note fp = this
      show ?thesis
      proof (cases "map_of (tk_unmatched tk) f")
        case None
        with rd fp show ?thesis by (intro triv [of True]) (simp add: match_len_def)
      next
        case (Some ws)
        have i: "i < length (tk_par2_files tk)" "i \<notin> tk_claimed tk" using find_prefix_unclaimed [OF fp] by auto
        note ad = adopt_file_ok [OF ok a i Some, of p]
        have run1: "ran h layout es (adopt_file f i p tk)" using run by (simp add: ran_def adopt_file_def)
        have i1: "i < length (tk_par2_files (adopt_file f i p tk))" using i by (simp add: adopt_file_def)
        obtain pending v where r: "replay_writes i p ws (adopt_file f i p tk) =
            Some (pending, (adopt_file f i p tk)\<lparr>tk_verifier := v\<rparr>)"
          and r2: "files_ok ((adopt_file f i p tk)\<lparr>tk_verifier := v\<rparr>)"
            "ran h layout (es @ map (span_write i) ws) ((adopt_file f i p tk)\<lparr>tk_verifier := v\<rparr>)"
          using replay_ok [OF ad(1) i1 run1] by blast
        have "ws = seen f" using a Some by (simp add: accounts_def)
        moreover have "map_of (tk_files (adopt_file f i p tk)) f = Some (i, p)" "i \<notin> tk_untracked (adopt_file f i p tk)"
          by (simp_all add: adopt_file_def update_conv')
        ultimately have "accounts (es @ map (span_write i) ws) seen ((adopt_file f i p tk)\<lparr>tk_verifier := v\<rparr>)"
          using accounts_replay [OF ad(1) ad(2), of f i p ws v] by simp
        moreover have "match_len env f p len tk = Some (True, pending, (adopt_file f i p tk)\<lparr>tk_verifier := v\<rparr>)"
          using rd fp Some r by (simp add: match_len_def adopt_file_def)
        ultimately show ?thesis using r2 by blast
      qed
    qed
  qed
qed

section \<open>Installing the index\<close>

lemma install_replay_ok:
  assumes "files_ok tk" "ran h layout es tk" "accounts es seen tk"
    and "distinct (map fst buffered)" "\<forall>f \<in> fst ` set buffered. seen f = []"
  shows "\<exists>pending to_match tk' es'. install_replay buffered tk = Some (pending, to_match, tk') \<and>
    files_ok tk' \<and> ran h layout es' tk' \<and>
    accounts es' (\<lambda>f. case map_of buffered f of None \<Rightarrow> seen f | Some ws \<Rightarrow> ws) tk'"
  using assms
proof (induction buffered arbitrary: tk es seen)
  case Nil
  then show ?case by auto
next
  case (Cons e buffered)
  obtain f ws where e: "e = (f, ws)" by (cases e)
  let ?seen = "seen(f := ws)"
  have sf: "seen f = []" using Cons.prems(5) by (simp add: e)
  have fnew: "f \<notin> fst ` set buffered" using Cons.prems(4) by (simp add: e)
  have rest: "distinct (map fst buffered)" "\<forall>f \<in> fst ` set buffered. ?seen f = []"
    using Cons.prems(4,5) fnew by (auto simp: e)
  have fn: "map_of buffered f = None" using fnew by (simp add: map_of_eq_None_iff)
  have goal: "(\<lambda>g. case map_of (e # buffered) g of None \<Rightarrow> seen g | Some ws \<Rightarrow> ws) =
      (\<lambda>g. case map_of buffered g of None \<Rightarrow> ?seen g | Some ws \<Rightarrow> ws)"
    using fn by (auto simp: e fun_eq_iff split: option.split)
  show ?case
  proof (cases "map_of (tk_unmatched tk) f")
    case (Some held)
    let ?tk = "tk\<lparr>tk_unmatched := AList.update f (held @ ws) (tk_unmatched tk)\<rparr>"
    have "files_ok ?tk" "accounts es ?seen ?tk" "ran h layout es ?tk"
      using accounts_unmatched [OF Cons.prems(1,3) Some, of ws] sf Cons.prems(2) by (simp_all add: ran_def)
    from Cons.IH [OF this(1) this(3) this(2) rest] Some show ?thesis
      unfolding goal by (auto simp: e)
  next
    case None
    note un = this
    show ?thesis
    proof (cases "\<exists>i p. map_of (tk_files tk) f = Some (i, p) \<and> i \<notin> tk_untracked tk")
      case True
      then obtain i p where f: "map_of (tk_files tk) f = Some (i, p)" "i \<notin> tk_untracked tk" by blast
      obtain pending v where r: "replay_writes i p ws tk = Some (pending, tk\<lparr>tk_verifier := v\<rparr>)"
        and ok: "files_ok (tk\<lparr>tk_verifier := v\<rparr>)" and run: "ran h layout (es @ map (span_write i) ws) (tk\<lparr>tk_verifier := v\<rparr>)"
        using replay_ok [OF Cons.prems(1) files_ok_index(1) [OF Cons.prems(1) f(1)] Cons.prems(2)] by blast
      have "accounts (es @ map (span_write i) ws) ?seen (tk\<lparr>tk_verifier := v\<rparr>)"
        using accounts_replay [OF Cons.prems(1,3) f, of ws v] sf by simp
      from Cons.IH [OF ok run this rest] r f un show ?thesis
        unfolding goal by (auto simp: e)
    next
      case False
      have "accounts es ?seen tk" using accounts_ignored [OF Cons.prems(3) un] False by blast
      from Cons.IH [OF Cons.prems(1,2) this rest] obtain pending to_match tk' es' where
        ih: "install_replay buffered tk = Some (pending, to_match, tk')" "files_ok tk'" "ran h layout es' tk'"
          "accounts es' (\<lambda>f. case map_of buffered f of None \<Rightarrow> ?seen f | Some ws \<Rightarrow> ws) tk'" by blast
      have "install_replay (e # buffered) tk = install_replay buffered tk"
        using un False by (auto simp: e split: option.splits)
      then show ?thesis using ih unfolding goal by auto
    qed
  qed
qed

lemma distinct_match_files: "distinct (map fst (match_files_by_hash16k par2 cands))"
proof -
  have 1: "distinct (map fst (snd (match_name par2 c acc)))" if "distinct (map fst (snd acc))" for c :: "'a match_candidate" and acc
    using that by (cases acc) (auto simp: match_name_def distinct_update split: option.splits)
  have 2: "distinct (map fst (snd (match_md5 par2 c acc)))" if "distinct (map fst (snd acc))" for c :: "'a match_candidate" and acc
    using that by (cases acc) (auto simp: match_md5_def distinct_update split: option.splits)
  have "distinct (map fst (snd (fold (match_name par2) cs acc)))" if "distinct (map fst (snd acc))" for cs :: "'a match_candidate list" and acc
    using that by (induction cs arbitrary: acc) (simp_all add: 1)
  moreover have "distinct (map fst (snd (fold (match_md5 par2) cs acc)))" if "distinct (map fst (snd acc))" for cs :: "'a match_candidate list" and acc
    using that by (induction cs arbitrary: acc) (simp_all add: 2)
  ultimately show ?thesis by (simp add: match_files_by_hash16k_def)
qed

lemma install_matched:
  fixes s :: par2_set and js :: job_slices
  assumes "distinct (map fst (js_filenames js))"
  defines "matched \<equiv> match_files_by_hash16k (par2_refs s) (install_candidates js)"
  shows "distinct (map fst matched)" "distinct (map snd matched)"
    "set (map snd matched) \<subseteq> {..<length (ordered_files s)}"
proof -
  let ?par2 = "par2_refs s"
  show dm: "distinct (map fst matched)" unfolding matched_def by (rule distinct_match_files)
  have "map cn_id (install_candidates js) = map fst (filter (\<lambda>(_, name). \<not> is_par2_file name) (js_filenames js))"
    by (simp add: install_candidates_def comp_def case_prod_beta)
  then have "distinct (map cn_id (install_candidates js))"
    using assms(1) by (simp add: distinct_map_filter)
  from match_files_matching [OF this, of ?par2] obtain claimed pos where
    m: "matching ?par2 (claimed, matched) pos" unfolding matched_def by blast
  have len: "length ?par2 = length (ordered_files s)" by (simp add: par2_refs_def)
  have idp: "pf_id (?par2 ! i) = i" if "i < length ?par2" for i
    using that by (simp add: par2_refs_def nth_enumerate_eq case_prod_beta)
  have lt: "i < length ?par2" if "pos n = Some i" for n i
    using m ranI [of pos n i, OF that] by (auto simp: matching_def)
  have pm: "map_of matched n = pos n" for n
    using m idp lt by (cases "pos n") (auto simp: matching_def)
  have e: "(n, i) \<in> set matched \<longleftrightarrow> pos n = Some i" for n i
    using dm pm by (metis map_of_eq_Some_iff)
  have "inj_on snd (set matched)"
  proof (rule inj_onI)
    fix x y assume x: "x \<in> set matched" and y: "y \<in> set matched" and eq: "snd x = snd y"
    have px: "pos (fst x) = Some (snd x)" using x e [of "fst x" "snd x"] by simp
    have "pos (fst y) = Some (snd x)" using y e [of "fst y" "snd y"] by (simp add: eq)
    with px have "fst x = fst y" using m by (auto simp: matching_def inj_on_def dom_def)
    then show "x = y" using eq by (simp add: prod_eq_iff)
  qed
  moreover have "distinct matched" using dm by (simp add: distinct_map)
  ultimately show "distinct (map snd matched)" by (simp add: distinct_map)
  show "set (map snd matched) \<subseteq> {..<length (ordered_files s)}"
    using e lt len by auto
qed

lemma install_tracked_ok:
  assumes "distinct (map fst (js_filenames js))"
  shows "files_ok (install_tracked s js)" "accounts [] (\<lambda>_. []) (install_tracked s js)"
    "ran h (slice_layout_from_par2 s) [] (install_tracked s js)"
proof -
  note m = install_matched [OF assms, of s]
  let ?matched = "match_files_by_hash16k (par2_refs s) (install_candidates js)"
  let ?tk = "install_tracked s js"
  have keys: "map fst (tk_files ?tk) = map fst ?matched" "indices (tk_files ?tk) = map snd ?matched"
    by (simp_all add: install_tracked_def Let_def indices_def comp_def case_prod_beta)
  have len: "length (tk_par2_files ?tk) = length (ordered_files s)"
    by (simp add: install_tracked_def Let_def par2_refs_def)
  have un: "map_of (tk_files ?tk) f = None" if "map_of (tk_unmatched ?tk) f \<noteq> None" for f
  proof -
    have "f \<in> fst ` set (tk_unmatched ?tk)" using that by (metis map_of_eq_None_iff)
    then have "map_of ?matched f = None" by (auto simp: install_tracked_def Let_def)
    then have "f \<notin> set (map fst ?matched)" by (simp add: map_of_eq_None_iff)
    then show ?thesis by (metis keys(1) list.set_map map_of_eq_None_iff)
  qed
  have du: "distinct (map fst (tk_unmatched ?tk))"
    using assms by (simp add: install_tracked_def Let_def comp_def case_prod_beta distinct_map_filter)
  have cl: "tk_claimed ?tk = set (map snd ?matched)" by (simp add: install_tracked_def Let_def)
  have ut: "{..<length (ordered_files s)} - tk_claimed ?tk \<subseteq> tk_untracked ?tk"
    by (auto simp: install_tracked_def Let_def)
  have vb: "length (vf_bounds (tk_verifier ?tk)) = Suc (length (ordered_files s))"
    by (simp add: install_tracked_def Let_def verifier_new_bounds)
  show "files_ok ?tk"
    unfolding files_ok_def len keys using m un du cl ut vb by simp
  have "ws = []" if "map_of (tk_unmatched ?tk) f = Some ws" for f ws
    using map_of_SomeD [OF that] by (auto simp: install_tracked_def Let_def)
  then show "accounts [] (\<lambda>_. []) ?tk" by (simp add: accounts_def writes_to_def)
  show "ran h (slice_layout_from_par2 s) [] ?tk" by (simp add: ran_def install_tracked_def Let_def)
qed

definition ready_ok :: "hashes \<Rightarrow> write_log \<Rightarrow> tracked_set \<Rightarrow> bool" where
  "ready_ok h lg tk \<longleftrightarrow> files_ok tk \<and> (\<exists>layout es. ran h layout es tk \<and> accounts es (logged lg) tk)"

definition pending_ok :: "write_log \<Rightarrow> (file_id \<times> file_span list) list \<Rightarrow> bool" where
  "pending_ok lg writes \<longleftrightarrow>
    distinct (map fst writes) \<and> logged lg = (\<lambda>f. case map_of writes f of None \<Rightarrow> [] | Some ws \<Rightarrow> ws)"

definition tracker_inv :: "hashes \<Rightarrow> write_log \<Rightarrow> job_slices \<Rightarrow> bool" where
  "tracker_inv h lg js \<longleftrightarrow>
    distinct (map fst (js_filenames js)) \<and>
    (case js_state js of
       TS_Disabled \<Rightarrow> True
     | TS_Pending writes _ \<Rightarrow> pending_ok lg writes
     | TS_Ready tk \<Rightarrow> ready_ok h lg tk)"

lemma install_state_ok:
  assumes inv: "tracker_inv h lg js" and st: "js_state js = TS_Pending writes b"
  shows "\<exists>pending to_match js'. install_state env f js = Some (pending, to_match, js') \<and> tracker_inv h lg js'"
proof (cases "\<exists>name s. map_of (js_filenames js) f = Some name \<and> te_parse env (path_join (js_work_dir js) name) = Some s")
  case False
  then have "install_state env f js = Some ([], [], js\<lparr>js_state := TS_Disabled\<rparr>)"
    by (auto simp: install_state_def split: option.splits)
  then show ?thesis using inv by (simp add: tracker_inv_def)
next
  case True
  then obtain name s where n: "map_of (js_filenames js) f = Some name"
    "te_parse env (path_join (js_work_dir js) name) = Some s" by blast
  have d: "distinct (map fst (js_filenames js))" and p: "pending_ok lg writes"
    using inv st by (auto simp: tracker_inv_def)
  have dw: "distinct (map fst writes)"
    and l: "logged lg = (\<lambda>f. case map_of writes f of None \<Rightarrow> [] | Some ws \<Rightarrow> ws)"
    using p by (simp_all add: pending_ok_def)
  note t = install_tracked_ok(1,2) [OF d, of s] install_tracked_ok(3) [OF d, of h s]
  obtain pending to_match tk' es' where r: "install_replay writes (install_tracked s js) = Some (pending, to_match, tk')"
    "files_ok tk'" "ran h (slice_layout_from_par2 s) es' tk'" and
    a: "accounts es' (\<lambda>f. case map_of writes f of None \<Rightarrow> [] | Some ws \<Rightarrow> ws) tk'"
    using install_replay_ok [OF t(1) t(3) t(2) dw] by blast
  have "ready_ok h lg tk'" using r(2,3) a unfolding ready_ok_def l by blast
  moreover have "install_state env f js = Some (pending, to_match, js\<lparr>js_state := TS_Ready tk'\<rparr>)"
    using n r(1) st by (simp add: install_state_def)
  ultimately show ?thesis using d by (simp add: tracker_inv_def)
qed

section \<open>Workers sharing a tracker\<close>

text \<open>
  One step per acquisition of the tracker's lock, by any worker, in any order.  The log grows by the
  write of a \<open>mark\<close>; it starts with the writes the job carries from before a restart.  Which
  lengths and slices a worker goes on with it got from earlier steps; here they may be any.
\<close>

inductive tracker_step ::
  "hashes \<Rightarrow> write_log \<times> job_slices \<Rightarrow> write_log \<times> job_slices \<Rightarrow> bool" for h where
  mark: "tracker_mark f offset len js = Some (pending, try_match, js') \<Longrightarrow>
    tracker_step h (lg, js) (lg @ [(f, \<lparr>fw_offset = offset, fw_len = len\<rparr>)], js')"
| claim: "claim_install js = (won, js') \<Longrightarrow> tracker_step h (lg, js) (lg, js')"
| install: "js_state js = TS_Pending writes True \<Longrightarrow>
    install_state env f js = Some (pending, to_match, js') \<Longrightarrow> tracker_step h (lg, js) (lg, js')"
| abandon: "tracker_step h (lg, js) (lg, js\<lparr>js_state := TS_Disabled\<rparr>)"
| pick: "js_state js = TS_Ready tk \<Longrightarrow> map_of (tk_unmatched tk) f = Some writes \<Longrightarrow>
    pick_lens f writes tk = (lens, tk') \<Longrightarrow> tracker_step h (lg, js) (lg, js\<lparr>js_state := TS_Ready tk'\<rparr>)"
| match: "js_state js = TS_Ready tk \<Longrightarrow> match_len env f p len tk = Some (fin, pending, tk') \<Longrightarrow>
    tracker_step h (lg, js) (lg, js\<lparr>js_state := TS_Ready tk'\<rparr>)"
| verify: "te_hashes env = h \<Longrightarrow> tracker_step h (lg, js) (lg, verify_pending env sl js)"
| failure: "tracker_step h (lg, js) (lg, tracker_record_failure f confirmed js)"
| summary: "tracker_summary js = (summary, js') \<Longrightarrow> tracker_step h (lg, js) (lg, js')"

definition seed_log :: "job_slices \<Rightarrow> write_log" where
  "seed_log js =
    (case js_state js of
       TS_Pending writes _ \<Rightarrow> concat (map (\<lambda>(f, ws). map (Pair f) ws) writes)
     | _ \<Rightarrow> [])"

inductive tracker_reach :: "hashes \<Rightarrow> nzb_job \<Rightarrow> write_log \<Rightarrow> job_slices \<Rightarrow> bool" for h job where
  start: "tracker_reach h job (seed_log (job_slices_new job)) (job_slices_new job)"
| step: "tracker_reach h job lg js \<Longrightarrow> tracker_step h (lg, js) (lg', js') \<Longrightarrow> tracker_reach h job lg' js'"

lemma distinct_seeds: "distinct (map fst (fst (fold seed_file fs ([], {}))))"
proof -
  have "distinct (map fst (fst (seed_file f acc)))" if "distinct (map fst (fst acc))" for f acc
    using that by (cases acc) (auto simp: seed_file_def Let_def distinct_update split: option.splits)
  then have "distinct (map fst (fst (fold seed_file fs acc)))" if "distinct (map fst (fst acc))" for acc
    using that by (induction fs arbitrary: acc) simp_all
  then show ?thesis by simp
qed

lemma logged_seeds:
  "distinct (map fst writes) \<Longrightarrow> logged (concat (map (\<lambda>(f, ws). map (Pair f) ws) writes)) =
    (\<lambda>f. case map_of writes f of None \<Rightarrow> [] | Some ws \<Rightarrow> ws)"
proof (induction writes)
  case Nil
  then show ?case by (simp add: logged_def fun_eq_iff)
next
  case (Cons e writes)
  obtain g ws where e: "e = (g, ws)" by (cases e)
  have g: "map_of writes g = None" using Cons.prems by (simp add: e map_of_eq_None_iff)
  have "logged (map (Pair g) ws @ l) f = (if f = g then ws else []) @ logged l f" for l f
    by (auto simp: logged_def comp_def)
  then show ?case using Cons g by (auto simp: e fun_eq_iff)
qed

lemma tracker_inv_new: "tracker_inv h (seed_log (job_slices_new job)) (job_slices_new job)"
  using logged_seeds [OF distinct_seeds] distinct_seeds
  by (simp add: tracker_inv_def job_slices_new_def Let_def seed_log_def pending_ok_def)

lemma logged_push: "logged (lg @ [(f, w)]) = (logged lg)(f := logged lg f @ [w])"
  by (simp add: fun_eq_iff)

lemma mark_ok:
  assumes inv: "tracker_inv h lg js"
  shows "\<exists>pending try_match js'. tracker_mark f offset len js = Some (pending, try_match, js') \<and>
    tracker_inv h (lg @ [(f, \<lparr>fw_offset = offset, fw_len = len\<rparr>)]) js'"
proof -
  let ?w = "\<lparr>fw_offset = offset, fw_len = len\<rparr>"
  have d: "distinct (map fst (js_filenames js))" using inv by (simp add: tracker_inv_def)
  show ?thesis
  proof (cases "js_state js")
    case TS_Disabled
    then have "tracker_mark f offset len js = Some ([], False, js)" by (simp add: tracker_mark_def)
    then show ?thesis using TS_Disabled d by (auto simp: tracker_inv_def)
  next
    case (TS_Pending writes b)
    then have "pending_ok lg writes" using inv by (simp add: tracker_inv_def)
    then have "pending_ok (lg @ [(f, ?w)]) (push_write f ?w writes)"
      by (auto simp: pending_ok_def push_write_def distinct_update update_conv' logged_push fun_eq_iff split: option.split)
    moreover have "tracker_mark f offset len js = Some ([], False, js\<lparr>js_state := TS_Pending (push_write f ?w writes) b\<rparr>)"
      using TS_Pending by (simp add: tracker_mark_def)
    ultimately show ?thesis using d by (auto simp: tracker_inv_def)
  next
    case (TS_Ready tk)
    then have ok: "files_ok tk" and "ready_ok h lg tk" using inv by (simp_all add: tracker_inv_def ready_ok_def)
    then obtain layout es where run: "ran h layout es tk" and a: "accounts es (logged lg) tk"
      by (auto simp: ready_ok_def)
    show ?thesis
    proof (cases "map_of (tk_unmatched tk) f")
      case (Some held)
      have "ready_ok h (lg @ [(f, ?w)]) (tk\<lparr>tk_unmatched := AList.update f (held @ [?w]) (tk_unmatched tk)\<rparr>)"
        using accounts_unmatched [OF ok a Some, of "[?w]"] run unfolding ready_ok_def logged_push
        by (auto simp: ran_def)
      then show ?thesis using TS_Ready Some d by (auto simp: tracker_mark_def tracker_inv_def)
    next
      case None
      note un = this
      show ?thesis
      proof (cases "\<exists>i p. map_of (tk_files tk) f = Some (i, p) \<and> i \<notin> tk_untracked tk")
        case True
        then obtain i p where fi: "map_of (tk_files tk) f = Some (i, p)" "i \<notin> tk_untracked tk" by blast
        obtain pending v where r: "replay_writes i p [?w] tk = Some (pending, tk\<lparr>tk_verifier := v\<rparr>)"
          "files_ok (tk\<lparr>tk_verifier := v\<rparr>)" "ran h layout (es @ map (span_write i) [?w]) (tk\<lparr>tk_verifier := v\<rparr>)"
          using replay_ok [OF ok files_ok_index(1) [OF ok fi(1)] run] by blast
        have "ready_ok h (lg @ [(f, ?w)]) (tk\<lparr>tk_verifier := v\<rparr>)"
          using r(2,3) accounts_replay [OF ok a fi, of "[?w]" v] unfolding ready_ok_def logged_push by blast
        moreover have "tracker_mark f offset len js =
            Some (pending, False, js\<lparr>js_state := TS_Ready (tk\<lparr>tk_verifier := v\<rparr>)\<rparr>)"
          using TS_Ready un fi r(1) by (simp add: tracker_mark_def)
        ultimately show ?thesis using d by (auto simp: tracker_inv_def)
      next
        case False
        have "ready_ok h (lg @ [(f, ?w)]) tk"
          using ok run accounts_ignored [OF a un] False unfolding ready_ok_def logged_push by blast
        moreover have "tracker_mark f offset len js = Some ([], False, js)"
          using TS_Ready un False by (auto simp: tracker_mark_def split: option.splits)
        ultimately show ?thesis using TS_Ready d by (auto simp: tracker_inv_def)
      qed
    qed
  qed
qed

lemma ready_verdicts:
  assumes "ready_ok h lg tk" "writes_of es' = []" "slice_run h es' (tk_verifier tk) = Some v"
  shows "ready_ok h lg (tk\<lparr>tk_verifier := v\<rparr>)"
  using assms verdict_accounts [OF assms(2) _ assms(3)] unfolding ready_ok_def by blast

lemma decide_slices_run:
  "\<exists>es. writes_of es = [] \<and> slice_run h es v = Some (fold (decide_slice confirmed) xs v)"
proof (induction xs arbitrary: v)
  case Nil
  have "writes_of [] = [] \<and> slice_run h [] v = Some (fold (decide_slice confirmed) [] v)" by simp
  then show ?case by blast
next
  case (Cons x xs)
  obtain es where es: "writes_of es = []"
    "slice_run h es (decide_slice confirmed x v) = Some (fold (decide_slice confirmed) (x # xs) v)"
    using Cons [of "decide_slice confirmed x v"] by auto
  have "decide_slice confirmed x v = v \<or> decide_slice confirmed x v = mark_damaged (fst x) v"
    by (auto simp: decide_slice_def split: option.splits)
  then have "slice_run h es v = Some (fold (decide_slice confirmed) (x # xs) v) \<or>
      slice_run h (Damage (fst x) # es) v = Some (fold (decide_slice confirmed) (x # xs) v)"
    using es(2) by auto
  then show ?case using es(1) by (metis writes_of.simps(4))
qed

lemma tracker_step_inv:
  assumes "tracker_step h (lg, js) (lg', js')" "tracker_inv h lg js"
  shows "tracker_inv h lg' js'"
  using assms
proof (cases rule: tracker_step.cases)
  case (mark f offset len pending try_match)
  then show ?thesis using mark_ok [OF assms(2), of f offset len] by auto
next
  case (claim won)
  then show ?thesis using assms(2)
    by (auto simp: claim_install_def tracker_inv_def split: tracker_state.splits bool.splits)
next
  case (install writes env f pending to_match)
  then show ?thesis using install_state_ok [OF assms(2) install(2), of env f] by auto
next
  case abandon
  then show ?thesis using assms(2) by (simp add: tracker_inv_def)
next
  case (pick tk f writes lens tk')
  then have "ready_ok h lg tk" using assms(2) by (simp add: tracker_inv_def)
  moreover obtain H where "tk' = tk\<lparr>tk_hashed := H\<rparr>" using pick by (auto simp: pick_lens_def Let_def)
  moreover have "ready_ok h lg (tk\<lparr>tk_hashed := H\<rparr>) = ready_ok h lg tk" for H
    unfolding ready_ok_def files_ok_def ran_def accounts_def by simp
  ultimately have "ready_ok h lg tk'" by simp
  then show ?thesis using pick assms(2) by (simp add: tracker_inv_def)
next
  case (match tk env f p len fin pending tk')
  then have "ready_ok h lg tk" using assms(2) by (simp add: tracker_inv_def)
  then obtain layout es where "files_ok tk" "ran h layout es tk" "accounts es (logged lg) tk"
    by (auto simp: ready_ok_def)
  from match_len_ok [OF this, of env f p len] match have "ready_ok h lg tk'" by (auto simp: ready_ok_def)
  then show ?thesis using match assms(2) by (simp add: tracker_inv_def)
next
  case (verify env sl)
  have "ready_ok h lg (tk\<lparr>tk_verifier := snd (verify h g b (tk_verifier tk))\<rparr>)" if "ready_ok h lg tk" for tk g b
    using ready_verdicts [OF that, of "[Verify g b]"] by simp
  then have "ready_ok h lg (tk\<lparr>tk_verifier := v\<rparr>)"
    if "ready_ok h lg tk" "verify h g b (tk_verifier tk) = (verdict, v)" for tk g b verdict v
    using that by (metis snd_conv)
  then show ?thesis using verify assms(2)
    by (auto simp: verify_pending_def tracker_inv_def split: option.splits tracker_state.splits prod.splits)
next
  case (failure f confirmed)
  then show ?thesis using assms(2) by (simp add: tracker_inv_def tracker_record_failure_def)
next
  case (summary sm)
  show ?thesis
  proof (cases "js_state js")
    case (TS_Ready tk)
    then have "ready_ok h lg tk" using assms(2) by (simp add: tracker_inv_def)
    then have "ready_ok h lg (tk\<lparr>tk_verifier := fold (decide_slice C) xs (tk_verifier tk)\<rparr>)" for C xs
      using decide_slices_run [of h "tk_verifier tk" C xs] ready_verdicts by blast
    then show ?thesis using summary TS_Ready assms(2) by (auto simp: tracker_summary_def Let_def tracker_inv_def)
  qed (use summary assms(2) in \<open>auto simp: tracker_summary_def tracker_inv_def\<close>)
qed

lemma tracker_reach_inv: "tracker_reach h job lg js \<Longrightarrow> tracker_inv h lg js"
  by (induction rule: tracker_reach.induct) (auto intro: tracker_inv_new tracker_step_inv)

section \<open>The worker's sequence\<close>

text \<open>\<open>record_write\<close> is a sequence of such steps and never panics.\<close>

lemma same_state [simp]: "js_state js = st \<Longrightarrow> js\<lparr>js_state := st\<rparr> = (js :: job_slices)"
  by (cases js) simp

lemma match_lens_reach:
  assumes "tracker_reach h job lg js" "js_state js = TS_Ready tk"
  shows "\<exists>pending tk'. match_lens env f p lens tk = Some (pending, tk') \<and>
    tracker_reach h job lg (js\<lparr>js_state := TS_Ready tk'\<rparr>)"
  using assms
proof (induction lens arbitrary: tk js)
  case Nil
  then show ?case by simp
next
  case (Cons len lens)
  have "ready_ok h lg tk" using tracker_reach_inv [OF Cons.prems(1)] Cons.prems(2) by (simp add: tracker_inv_def)
  then obtain fin pending tk1 where m: "match_len env f p len tk = Some (fin, pending, tk1)"
    using match_len_ok [of tk h _ _ _ env f p len] unfolding ready_ok_def by blast
  have r: "tracker_reach h job lg (js\<lparr>js_state := TS_Ready tk1\<rparr>)"
    using tracker_reach.step [OF Cons.prems(1) tracker_step.match [OF Cons.prems(2) m]] .
  show ?case
  proof (cases fin)
    case True
    then show ?thesis using m r by simp
  next
    case False
    then show ?thesis using m Cons.IH [OF r] by simp
  qed
qed

lemma match_files_reach:
  assumes "tracker_reach h job lg js" "js_state js = TS_Ready tk" "js_work_dir js0 = js_work_dir js" "js_filenames js0 = js_filenames js"
  shows "\<exists>pending tk'. match_files env js0 fs tk = Some (pending, tk') \<and>
    tracker_reach h job lg (js\<lparr>js_state := TS_Ready tk'\<rparr>)"
  using assms
proof (induction fs arbitrary: tk js)
  case Nil
  then show ?case by simp
next
  case (Cons f fs)
  obtain pending tk1 where m: "match_file env js0 f tk = Some (pending, tk1)"
    and r: "tracker_reach h job lg (js\<lparr>js_state := TS_Ready tk1\<rparr>)"
  proof (cases "map_of (tk_unmatched tk) f")
    case None
    show ?thesis using None Cons.prems(1,2) by (intro that [of "[]" tk]) (simp_all add: match_file_def)
  next
    case (Some writes)
    obtain lens tk0 where p: "pick_lens f writes tk = (lens, tk0)" by fastforce
    have r0: "tracker_reach h job lg (js\<lparr>js_state := TS_Ready tk0\<rparr>)"
      using tracker_reach.step [OF Cons.prems(1) tracker_step.pick [OF Cons.prems(2) Some p]] .
    show ?thesis
      using match_lens_reach [OF r0, of tk0 env f _ lens] Some p that by (auto simp: match_file_def)
  qed
  show ?case using Cons.IH [OF r] Cons.prems(3,4) m by (auto simp: ) 
qed

lemma match_by_hash_reach:
  assumes "tracker_reach h job lg js"
  shows "\<exists>pending js'. match_by_hash env fs js = Some (pending, js') \<and> tracker_reach h job lg js'"
proof (cases "js_state js")
  case (TS_Ready tk)
  then show ?thesis using match_files_reach [OF assms TS_Ready refl refl, of env fs]
    by (auto simp: match_by_hash_def)
qed (use assms in \<open>simp_all add: match_by_hash_def\<close>)

lemma verify_slices_reach:
  "tracker_reach h job lg js \<Longrightarrow> te_hashes env = h \<Longrightarrow> tracker_reach h job lg (verify_slices env pending js)"
proof (induction pending arbitrary: js)
  case (Cons sl pending)
  then have "tracker_reach h job lg (verify_pending env sl js)"
    using tracker_reach.step [OF Cons.prems(1) tracker_step.verify [OF Cons.prems(2)]] by simp
  from Cons.IH [OF this Cons.prems(2)] show ?case by (simp add: verify_slices_def)
qed (simp add: verify_slices_def)

lemma tracker_install_reach:
  assumes "tracker_reach h job lg js" "js_state js = TS_Pending writes True"
  shows "\<exists>pending js'. tracker_install env f js = Some (pending, js') \<and> tracker_reach h job lg js'"
proof -
  obtain pending to_match js1 where i: "install_state env f js = Some (pending, to_match, js1)"
    using install_state_ok [OF tracker_reach_inv [OF assms(1)] assms(2), of env f] by blast
  have r: "tracker_reach h job lg js1"
    using tracker_reach.step [OF assms(1) tracker_step.install [OF assms(2) i]] .
  obtain more js2 where m: "match_by_hash env to_match js1 = Some (more, js2)" and r2: "tracker_reach h job lg js2"
    using match_by_hash_reach [OF r] by blast
  show ?thesis using i m r2 by (simp add: tracker_install_def)
qed

lemma record_write_reach:
  assumes r: "tracker_reach h job lg js" and h: "te_hashes env = h"
  shows "\<exists>js'. tracker_record_write env f offset len file_complete js = Some js' \<and>
    tracker_reach h job (lg @ [(f, \<lparr>fw_offset = offset, fw_len = len\<rparr>)]) js'"
proof -
  let ?lg = "lg @ [(f, \<lparr>fw_offset = offset, fw_len = len\<rparr>)]"
  obtain pending try_match js1 where m: "tracker_mark f offset len js = Some (pending, try_match, js1)"
    using mark_ok [OF tracker_reach_inv [OF r]] by blast
  have r1: "tracker_reach h job ?lg js1"
    using tracker_reach.step [OF r tracker_step.mark [OF m]] .
  define idx where "idx = (if file_complete \<and> (case map_of (js_filenames js1) f of Some n \<Rightarrow> is_par2_index n | None \<Rightarrow> False)
                then Some f else js_index_on_disk js1)"
  define mid where "mid = (case idx of
                  None \<Rightarrow> Some (pending, js1)
                | Some index_id \<Rightarrow>
                    (case claim_install js1 of
                       (False, js2) \<Rightarrow> Some (pending, js2)
                     | (True, js2) \<Rightarrow>
                         map_option (\<lambda>(more, js3). (pending @ more, js3)) (tracker_install env index_id js2)))"
  have "\<exists>pending2 js3. mid = Some (pending2, js3) \<and> tracker_reach h job ?lg js3"
  proof (cases idx)
    case None
    then show ?thesis using r1 by (simp add: mid_def)
  next
    case (Some index_id)
    obtain won js2 where c: "claim_install js1 = (won, js2)" by fastforce
    have r2: "tracker_reach h job ?lg js2" using tracker_reach.step [OF r1 tracker_step.claim [OF c]] .
    show ?thesis
    proof (cases won)
      case False
      then show ?thesis using Some c r2 by (simp add: mid_def)
    next
      case True
      then obtain writes where "js_state js2 = TS_Pending writes True"
        using c by (auto simp: claim_install_def split: tracker_state.splits bool.splits)
      from tracker_install_reach [OF r2 this, of env index_id] show ?thesis
        using Some c True by (auto simp: mid_def)
    qed
  qed
  then obtain pending2 js3 where mid: "mid = Some (pending2, js3)" and r3: "tracker_reach h job ?lg js3" by blast
  have e: "tracker_record_write env f offset len file_complete js =
      (if try_match then map_option (\<lambda>(more, js4). verify_slices env (pending2 @ more) js4) (match_by_hash env [f] js3)
       else Some (verify_slices env pending2 js3))"
    using m mid by (simp add: tracker_record_write_def Let_def mid_def idx_def)
  obtain more js4 where "match_by_hash env [f] js3 = Some (more, js4)" "tracker_reach h job ?lg js4"
    using match_by_hash_reach [OF r3] by blast
  then show ?thesis
    using verify_slices_reach [OF r3 h, of pending2] verify_slices_reach [OF _ h, of job ?lg js4 "pending2 @ more"]
    by (simp add: e)
qed

section \<open>Properties\<close>

text \<open>However workers interleave, no operation of the tracker indexes the verifier out of range: from
  every reachable state \<open>record_write\<close> returns, in a reachable state with the write logged, and two NZB
  files are never assigned to the same PAR2 file.\<close>

theorem tracker_never_panics:
  assumes "tracker_reach h job lg js" "te_hashes env = h"
  shows "(\<exists>js'. tracker_record_write env f offset len file_complete js = Some js' \<and>
        tracker_reach h job (lg @ [(f, \<lparr>fw_offset = offset, fw_len = len\<rparr>)]) js') \<and>
    (\<forall>tk a b i p q. js_state js = TS_Ready tk \<longrightarrow> map_of (tk_files tk) a = Some (i, p) \<longrightarrow>
      map_of (tk_files tk) b = Some (i, q) \<longrightarrow> a = b)"
proof -
  have "a = b" if "js_state js = TS_Ready tk" "map_of (tk_files tk) a = Some (i, p)"
      "map_of (tk_files tk) b = Some (i, q)" for tk a b i p q
  proof -
    have "files_ok tk" using tracker_reach_inv [OF assms(1)] that(1) by (simp add: tracker_inv_def ready_ok_def)
    then show ?thesis using that(2,3) by (rule files_ok_inj)
  qed
  then show ?thesis using record_write_reach [OF assms] by blast
qed

definition demo_tracker_job :: nzb_job where
  "demo_tracker_job =
    plain_job ''j'' ''/w'' 8 [plain_file ''d'' ''a.rar'' 4 [], plain_file ''x'' ''a.par2'' 4 []]"

definition demo_tracker_env :: tracker_env where
  "demo_tracker_env =
    \<lparr>te_parse = (\<lambda>p. Some \<lparr>ps_file_order = [[1]], ps_files = [([1], \<lparr>p2_filename = ''a.rar'', p2_hash_16k = [7],
         p2_size = 4, p2_slices = [\<lparr>dg_md5 = [1, 2, 3, 4], dg_crc32 = 0\<rparr>]\<rparr>)], ps_slice_size = 4, ps_recovery_block_count = 1\<rparr>),
     te_read = (\<lambda>p off len. Some (take len (drop off [1, 2, 3, 4]))),
     te_hashes = \<lparr>hash_md5 = id, hash_crc32 = (\<lambda>_. 0)\<rparr>\<rparr>"

theorem tracker_never_panics_witness:
  "\<exists>js'. tracker_record_write demo_tracker_env ''d'' 0 4 False (job_slices_new demo_tracker_job) = Some js'"
proof -
  have "tracker_reach (te_hashes demo_tracker_env) demo_tracker_job
      (seed_log (job_slices_new demo_tracker_job)) (job_slices_new demo_tracker_job)"
    by (rule tracker_reach.start)
  from tracker_never_panics [OF this refl] show ?thesis by blast
qed

text \<open>C20. The verifier is given every write of the files it tracks, in order and once, wherever the PAR2
  index arrives among them: it is the result of a run of a fresh verifier in which the writes to the
  index of a tracked file are exactly the writes logged for that file since the job started (those
  of an earlier session included), and an untracked index is never written.\<close>

theorem tracker_counts_every_write:
  assumes "tracker_reach h job lg js" "js_state js = TS_Ready tk"
  shows "\<exists>layout es. slice_run h es (verifier_new layout) = Some (tk_verifier tk) \<and>
    (\<forall>f i p. map_of (tk_files tk) f = Some (i, p) \<longrightarrow> i \<notin> tk_untracked tk \<longrightarrow>
       filter (\<lambda>w. fst w = i) (writes_of es) = map (\<lambda>w. (i, fw_offset w, fw_len w)) (logged lg f)) \<and>
    (\<forall>i \<in> tk_untracked tk. \<forall>w \<in> set (writes_of es). fst w \<noteq> i)"
proof -
  have "ready_ok h lg tk" using tracker_reach_inv [OF assms(1)] assms(2) by (simp add: tracker_inv_def)
  then obtain layout es where "ran h layout es tk" and a: "accounts es (logged lg) tk"
    by (auto simp: ready_ok_def)
  moreover have "span_of i = (\<lambda>w. (i, fw_offset w, fw_len w))" for i by (rule ext) (rule span_of_def)
  ultimately show ?thesis
    by (intro exI [of _ layout] exI [of _ es]) (auto simp: ran_def accounts_def writes_to_def filter_empty_conv)
qed

definition demo_late_index :: "job_slices option" where
  "demo_late_index =
    (case tracker_record_write demo_tracker_env ''d'' 0 4 False (job_slices_new demo_tracker_job) of
       None \<Rightarrow> None
     | Some js \<Rightarrow> tracker_record_write demo_tracker_env ''x'' 0 4 True js)"

lemma demo_late_index_ready:
  "case demo_late_index of None \<Rightarrow> False
   | Some js \<Rightarrow> (case js_state js of
       TS_Ready tk \<Rightarrow> map_of (tk_files tk) ''d'' = Some (0, ''/w/a.rar'') \<and> 0 \<notin> tk_untracked tk \<and>
         states (tk_verifier tk) = [Verified]
     | _ \<Rightarrow> False)"
  by code_simp

theorem tracker_counts_every_write_witness:
  "\<exists>(js :: job_slices) tk layout es. js_state js = TS_Ready tk \<and> map_of (tk_files tk) ''d'' = Some (0, ''/w/a.rar'') \<and>
    slice_run (te_hashes demo_tracker_env) es (verifier_new layout) = Some (tk_verifier tk) \<and>
    filter (\<lambda>w. fst w = 0) (writes_of es) = [(0, 0, 4)]"
proof -
  obtain js2 tk where d: "demo_late_index = Some js2"
    and tk: "js_state js2 = TS_Ready tk" "map_of (tk_files tk) ''d'' = Some (0, ''/w/a.rar'')" "0 \<notin> tk_untracked tk"
    using demo_late_index_ready by (auto split: option.splits tracker_state.splits)
  then obtain js1 where
    1: "tracker_record_write demo_tracker_env ''d'' 0 4 False (job_slices_new demo_tracker_job) = Some js1"
    and 2: "tracker_record_write demo_tracker_env ''x'' 0 4 True js1 = Some js2"
    by (auto simp: demo_late_index_def split: option.splits)
  let ?h = "te_hashes demo_tracker_env"
  have l: "seed_log (job_slices_new demo_tracker_job) = []" by code_simp
  have "tracker_reach ?h demo_tracker_job [] (job_slices_new demo_tracker_job)"
    using tracker_reach.start [of ?h demo_tracker_job] by (simp add: l)
  from record_write_reach [OF this refl, of "''d''" 0 4 False] 1
  have "tracker_reach ?h demo_tracker_job [(''d'', \<lparr>fw_offset = 0, fw_len = 4\<rparr>)] js1" by auto
  from record_write_reach [OF this refl, of "''x''" 0 4 True] 2
  have r: "tracker_reach ?h demo_tracker_job [(''d'', \<lparr>fw_offset = 0, fw_len = 4\<rparr>), (''x'', \<lparr>fw_offset = 0, fw_len = 4\<rparr>)] js2"
    by auto
  obtain layout es where es: "slice_run ?h es (verifier_new layout) = Some (tk_verifier tk)"
    and w: "\<forall>f i p. map_of (tk_files tk) f = Some (i, p) \<longrightarrow> i \<notin> tk_untracked tk \<longrightarrow>
       filter (\<lambda>w. fst w = i) (writes_of es) = map (\<lambda>w. (i, fw_offset w, fw_len w))
         (logged [(''d'', \<lparr>fw_offset = 0, fw_len = 4\<rparr>), (''x'', \<lparr>fw_offset = 0, fw_len = 4\<rparr>)] f)"
    using tracker_counts_every_write [OF r tk(1)] by blast
  have "filter (\<lambda>w. fst w = 0) (writes_of es) = [(0, 0, 4)]"
    using w [rule_format, OF tk(2,3)] by (simp add: logged_def)
  with tk(1,2) es show ?thesis by blast
qed

section \<open>Summary\<close>

lemma length_states [simp]: "length (states v) = length (vf_cells v)"
  by (simp add: states_def)

lemma states_mark_damaged: "states (mark_damaged g v) = (states v)[g := Damaged]"
  by (simp add: states_def mark_damaged_def map_update list_update_beyond)

lemma slice_range_mark_damaged [simp]: "slice_range g (mark_damaged g' v) = slice_range g v"
  by (cases "g = g'") (simp_all add: slice_range_def mark_damaged_def Let_def)

text \<open>The index of the file a slice belongs to.\<close>

definition slice_file :: "slice_verifier \<Rightarrow> nat \<Rightarrow> nat" where
  "slice_file v g = sc_file (vf_cells v ! g)"

lemma decide_slice_states:
  assumes "g < length (vf_cells v)"
  shows "decide_slice confirmed (g, st) v =
    (if st = Unknown \<and> slice_file v g \<in> confirmed then mark_damaged g v else v)"
  using assms by (auto simp: decide_slice_def slice_range_def slice_file_def Let_def)

lemma slice_file_mark_damaged [simp]: "slice_file (mark_damaged g' v) g = slice_file v g"
  by (cases "g = g'") (simp_all add: slice_file_def mark_damaged_def)

lemma length_mark_damaged [simp]: "length (vf_cells (mark_damaged g v)) = length (vf_cells v)"
  by (simp add: mark_damaged_def)

lemma decide_slices_states:
  assumes "n + length sts \<le> length (vf_cells v)"
  shows "states (fold (decide_slice confirmed) (enumerate n sts) v) =
    map (\<lambda>g. if n \<le> g \<and> g < n + length sts \<and> sts ! (g - n) = Unknown \<and> slice_file v g \<in> confirmed
             then Damaged else states v ! g) [0..<length (vf_cells v)]"
  using assms
proof (induction sts arbitrary: n v)
  case Nil
  then show ?case by (auto simp: states_def intro!: nth_equalityI)
next
  case (Cons st sts)
  let ?v = "decide_slice confirmed (n, st) v"
  have n: "n < length (vf_cells v)" using Cons.prems by simp
  have v: "?v = (if st = Unknown \<and> slice_file v n \<in> confirmed then mark_damaged n v else v)"
    using decide_slice_states [OF n] .
  have l: "length (vf_cells ?v) = length (vf_cells v)" and sf: "slice_file ?v = slice_file v"
    by (auto simp: v fun_eq_iff)
  have st: "states ?v ! g = (if g = n \<and> st = Unknown \<and> slice_file v n \<in> confirmed then Damaged else states v ! g)"
    if "g < length (vf_cells v)" for g
    using that by (auto simp: v states_mark_damaged nth_list_update)
  have "states (fold (decide_slice confirmed) (enumerate n (st # sts)) v) =
      states (fold (decide_slice confirmed) (enumerate (Suc n) sts) ?v)" by simp
  also have "\<dots> = map (\<lambda>g. if Suc n \<le> g \<and> g < Suc n + length sts \<and> sts ! (g - Suc n) = Unknown \<and> slice_file v g \<in> confirmed
             then Damaged else states ?v ! g) [0..<length (vf_cells v)]"
    using Cons.IH [of "Suc n" ?v] Cons.prems by (simp add: l sf)
  also have "\<dots> = map (\<lambda>g. if n \<le> g \<and> g < n + length (st # sts) \<and> (st # sts) ! (g - n) = Unknown \<and> slice_file v g \<in> confirmed
             then Damaged else states v ! g) [0..<length (vf_cells v)]"
  proof (intro map_cong refl)
    fix g assume "g \<in> set [0..<length (vf_cells v)]"
    then have g: "g < length (vf_cells v)" by simp
    consider "g < n" | "g = n" | m where "g = Suc (n + m)" by (metis less_imp_Suc_add linorder_neqE_nat)
    then show "(if Suc n \<le> g \<and> g < Suc n + length sts \<and> sts ! (g - Suc n) = Unknown \<and> slice_file v g \<in> confirmed
             then Damaged else states ?v ! g) =
        (if n \<le> g \<and> g < n + length (st # sts) \<and> (st # sts) ! (g - n) = Unknown \<and> slice_file v g \<in> confirmed
             then Damaged else states v ! g)"
      by cases (use st [OF g] in auto)
  qed
  finally show ?case .
qed

text \<open>The failures of a job so far, with whether each was confirmed by every server.\<close>

definition after_article_failures :: "(file_id \<times> bool) list \<Rightarrow> job_slices \<Rightarrow> job_slices" where
  "after_article_failures fs js = fold (\<lambda>(f, c). tracker_record_failure f c) fs js"

lemma after_article_failures_map:
  assumes "js_failures js = []"
  shows "map_of (js_failures (after_article_failures fs js)) f =
    (if f \<in> fst ` set fs then Some (\<forall>(g, c) \<in> set fs. g = f \<longrightarrow> c) else None)"
proof (induction fs rule: rev_induct)
  case Nil
  then show ?case using assms by (simp add: after_article_failures_def)
next
  case (snoc e fs)
  obtain g c where e: "e = (g, c)" by (cases e)
  have "after_article_failures (fs @ [e]) js = tracker_record_failure g c (after_article_failures fs js)"
    by (simp add: after_article_failures_def e)
  moreover have "h \<in> fst ` set fs" if "(h, b) \<in> set fs" for h b using that by force
  ultimately show ?case using snoc
    by (auto simp: tracker_record_failure_def update_conv' e split: option.split if_splits)
qed

lemma after_article_failures_state [simp]:
  "js_state (after_article_failures fs js) = js_state js"
  by (induction fs arbitrary: js) (auto simp: after_article_failures_def tracker_record_failure_def)

text \<open>The summary keeps every verdict of a checksum.  It declares an undecided slice damaged exactly when
  its file is tracked, has a failed article, and every failed article of that file was refused by
  every server; a file with one unconfirmed failure, or none, keeps its undecided slices \<open>Unknown\<close>.  The
  three kinds add up, and asking again changes nothing.\<close>

theorem tracker_summary_exact:
  fixes fs :: "(file_id \<times> bool) list"
  assumes "js_state js0 = TS_Ready tk" "js_failures js0 = []" "distinct (map fst (tk_files tk))"
  defines "js \<equiv> after_article_failures fs js0" and "v \<equiv> tk_verifier tk"
  shows "\<exists>sm js'. tracker_summary js = (Some sm, js') \<and> tracker_summary js' = (Some sm, js') \<and>
    length (sm_states sm) = total_slices v \<and>
    sm_damaged sm + sm_unknown sm + length (filter (\<lambda>s. s = SV_Verified) (sm_states sm)) = total_slices v \<and>
    (\<forall>g < total_slices v. sm_states sm ! g =
      (if states v ! g = Unknown \<and>
          (\<exists>f p. map_of (tk_files tk) f = Some (slice_file v g, p) \<and> slice_file v g \<notin> tk_untracked tk \<and>
             f \<in> fst ` set fs \<and> (\<forall>(f', c) \<in> set fs. f' = f \<longrightarrow> c))
       then SV_Damaged else verdict_of (states v ! g)))"
proof -
  let ?C = "confirmed_files js tk"
  let ?v = "fold (decide_slice ?C) (enumerate 0 (states v)) v"
  have st: "js_state js = TS_Ready tk" using assms(1) by (simp add: js_def)
  have C: "i \<in> ?C \<longleftrightarrow> (\<exists>f p. map_of (tk_files tk) f = Some (i, p) \<and> i \<notin> tk_untracked tk \<and>
      f \<in> fst ` set fs \<and> (\<forall>(f', c) \<in> set fs. f' = f \<longrightarrow> c))" for i
    using assms(3) after_article_failures_map [OF assms(2), of fs]
    by (auto simp: confirmed_files_def js_def image_iff split: if_splits)
  have sv: "states ?v = map (\<lambda>g. if states v ! g = Unknown \<and> slice_file v g \<in> ?C then Damaged else states v ! g)
      [0..<length (vf_cells v)]"
    using decide_slices_states [of 0 "states v" v ?C] by simp
  define sm where "sm = \<lparr>sm_states = map verdict_of (states ?v), sm_recovery_block_count = tk_recovery_block_count tk,
                sm_damaged = length (filter (\<lambda>s. s = SV_Damaged) (map verdict_of (states ?v))),
                sm_unknown = length (filter (\<lambda>s. s = SV_Unknown) (map verdict_of (states ?v)))\<rparr>"
  define js' where "js' = js\<lparr>js_state := TS_Ready (tk\<lparr>tk_verifier := ?v\<rparr>)\<rparr>"
  have 1: "tracker_summary js = (Some sm, js')"
    by (simp add: tracker_summary_def st Let_def sm_def js'_def v_def)
  have same: "confirmed_files js' (tk\<lparr>tk_verifier := ?v\<rparr>) = ?C"
    by (simp add: confirmed_files_def js'_def)
  have sf: "slice_file (fold (decide_slice D) xs w) = slice_file w" for D xs w
  proof (induction xs arbitrary: w)
    case (Cons x xs)
    have "slice_file (decide_slice D x w) = slice_file w"
      by (auto simp: decide_slice_def fun_eq_iff split: option.splits)
    then show ?case using Cons by simp
  qed simp
  have idle: "fold (decide_slice ?C) xs w = w"
    if "\<forall>(g, s) \<in> set xs. s = Unknown \<longrightarrow> slice_file w g \<notin> ?C \<and> g < length (vf_cells w)" for xs w
    using that
  proof (induction xs)
    case (Cons x xs)
    obtain g s where x: "x = (g, s)" by (cases x)
    have "decide_slice ?C x w = w"
      using Cons.prems decide_slice_states [of g w ?C s] by (cases "s = Unknown") (auto simp: x decide_slice_def)
    then show ?case using Cons by simp
  qed simp
  have len: "length (vf_cells ?v) = length (vf_cells v)" 
  proof -
    have "length (states ?v) = length (vf_cells v)" unfolding sv by simp
    then show ?thesis by (simp add: states_def)
  qed
  have "\<forall>(g, s) \<in> set (enumerate 0 (states ?v)). s = Unknown \<longrightarrow> slice_file ?v g \<notin> ?C \<and> g < length (vf_cells ?v)"
    by (auto simp: in_set_enumerate_eq sf sv len split: if_splits)
  note stable = idle [OF this]
  define w where "w = ?v"
  define tk2 where "tk2 = tk\<lparr>tk_verifier := w\<rparr>"
  have tk2: "tk_verifier tk2 = w" "tk_recovery_block_count tk2 = tk_recovery_block_count tk" "tk2\<lparr>tk_verifier := w\<rparr> = tk2"
    by (simp_all add: tk2_def)
  have js2: "js_state js' = TS_Ready tk2" by (simp add: js'_def tk2_def w_def)
  have "confirmed_files js' tk2 = ?C" using same by (simp only: tk2_def w_def)
  moreover have "fold (decide_slice ?C) (enumerate 0 (states w)) w = w" using stable by (simp only: w_def)
  moreover have "sm = \<lparr>sm_states = map verdict_of (states w), sm_recovery_block_count = tk_recovery_block_count tk2,
                sm_damaged = length (filter (\<lambda>s. s = SV_Damaged) (map verdict_of (states w))),
                sm_unknown = length (filter (\<lambda>s. s = SV_Unknown) (map verdict_of (states w)))\<rparr>"
    by (simp only: sm_def w_def tk2(2) [unfolded w_def])
  ultimately have 2: "tracker_summary js' = (Some sm, js')"
    by (simp add: tracker_summary_def js2 Let_def tk2)
  have "length (filter (\<lambda>s. s = SV_Damaged) xs) + length (filter (\<lambda>s. s = SV_Unknown) xs) +
      length (filter (\<lambda>s. s = SV_Verified) xs) = length xs" for xs
  proof (induction xs)
    case (Cons x xs)
    then show ?case by (cases x) simp_all
  qed simp
  from this [of "sm_states sm"]
  have 3: "sm_damaged sm + sm_unknown sm + length (filter (\<lambda>s. s = SV_Verified) (sm_states sm)) = total_slices v"
    unfolding sm_def slice_map_summary.select_convs by (simp only: length_map total_slices_def len length_states)
  have 4: "length (sm_states sm) = total_slices v" by (simp add: sm_def total_slices_def len)
  have 5: "sm_states sm ! g =
      (if states v ! g = Unknown \<and>
          (\<exists>f p. map_of (tk_files tk) f = Some (slice_file v g, p) \<and> slice_file v g \<notin> tk_untracked tk \<and>
             f \<in> fst ` set fs \<and> (\<forall>(f', c) \<in> set fs. f' = f \<longrightarrow> c))
       then SV_Damaged else verdict_of (states v ! g))" if "g < total_slices v" for g
  proof -
    have "sm_states sm ! g = (if states v ! g = Unknown \<and> slice_file v g \<in> ?C then SV_Damaged else verdict_of (states v ! g))"
      using that by (simp add: sm_def sv total_slices_def)
    then show ?thesis unfolding C .
  qed
  show ?thesis using 1 2 3 4 5 by blast
qed

text \<open>Two undecided one-byte slices; the only failure of their file was refused everywhere.\<close>

definition demo_summary_tracker :: job_slices where
  "demo_summary_tracker = (job_slices_new demo_tracker_job)
     \<lparr>js_state := TS_Ready \<lparr>tk_verifier = verifier_new \<lparr>lay_slice_size = 1, lay_files =
          [\<lparr>fsl_size = 2, fsl_slices = [\<lparr>dg_md5 = [1], dg_crc32 = 1\<rparr>, \<lparr>dg_md5 = [2], dg_crc32 = 2\<rparr>]\<rparr>]\<rparr>,
        tk_files = [(''d'', 0, ''/w/a.rar'')], tk_untracked = {}, tk_recovery_block_count = 1,
        tk_par2_files = [([7], 2)], tk_claimed = {0}, tk_unmatched = [], tk_hashed = {}\<rparr>\<rparr>"

theorem tracker_summary_exact_witness:
  "\<exists>sm js'. tracker_summary (after_article_failures [(''d'', True)] demo_summary_tracker) = (Some sm, js') \<and>
     sm_states sm ! 0 = SV_Damaged"
proof -
  obtain tk where tk: "js_state demo_summary_tracker = TS_Ready tk" "tk_files tk = [(''d'', 0, ''/w/a.rar'')]"
    "tk_untracked tk = {}" and v: "tk_verifier tk = verifier_new \<lparr>lay_slice_size = 1, lay_files =
          [\<lparr>fsl_size = 2, fsl_slices = [\<lparr>dg_md5 = [1], dg_crc32 = 1\<rparr>, \<lparr>dg_md5 = [2], dg_crc32 = 2\<rparr>]\<rparr>]\<rparr>"
    by (simp add: demo_summary_tracker_def)
  have f: "js_failures demo_summary_tracker = []" by (simp add: demo_summary_tracker_def job_slices_new_def Let_def)
  have cell: "total_slices (tk_verifier tk) = 2" "states (tk_verifier tk) ! 0 = Unknown" "slice_file (tk_verifier tk) 0 = 0"
    by (simp_all add: v verifier_new_eq all_cells_def file_cells_def new_cell_def total_slices_def states_def slice_file_def)
  show ?thesis
    using tracker_summary_exact [OF tk(1) f, of "[(''d'', True)]"] cell tk(2,3) by (auto simp: image_iff)
qed

end
