(* ===== verification/Engine_Names.thy ===== *)
theory Engine_Names
  imports Engine_Types
begin

text \<open>
  File naming at the end of a job (\<open>download_engine.rs\<close>): known extensions, RAR volume names, the
  choice between the NZB name and the name of the yEnc header (\<open>plan_deobfuscation\<close>), and the
  renames on disk.  Names are byte strings, \<open>BTreeMap\<close> and \<open>sort\<close> order them lexicographically.
\<close>

section \<open>Pieces of names\<close>

text \<open>\<open>str::rsplit_once\<close>, \<open>str::split\<close> and \<open>str::rfind\<close>.\<close>

definition rsplit_once :: "char \<Rightarrow> byte_string \<Rightarrow> (byte_string \<times> byte_string) option" where
  "rsplit_once c s =
    (case position (\<lambda>x. x = c) (rev s) of
       None \<Rightarrow> None
     | Some i \<Rightarrow> Some (take (length s - Suc i) s, drop (length s - i) s))"

fun split_on :: "char \<Rightarrow> byte_string \<Rightarrow> byte_string list" where
  "split_on c [] = [[]]"
| "split_on c (x # xs) =
    (if x = c then [] # split_on c xs
     else (case split_on c xs of [] \<Rightarrow> [[x]] | w # ws \<Rightarrow> (x # w) # ws))"

definition rfind_str :: "byte_string \<Rightarrow> byte_string \<Rightarrow> nat option" where
  "rfind_str pat s = List.find (\<lambda>i. take (length pat) (drop i s) = pat) (rev [0..<Suc (length s)])"

definition is_ascii_alpha :: "char \<Rightarrow> bool" where
  "is_ascii_alpha c \<longleftrightarrow>
    65 \<le> (of_char c :: nat) \<and> (of_char c :: nat) \<le> 90 \<or> 97 \<le> (of_char c :: nat) \<and> (of_char c :: nat) \<le> 122"

definition strip_suffix :: "byte_string \<Rightarrow> byte_string \<Rightarrow> byte_string option" where
  "strip_suffix suf s = (if ends_with suf s then Some (take (length s - length suf) s) else None)"

text \<open>
  \<open>Path::file_name\<close>: the last component, with empty and \<open>.\<close> components skipped; none when it is
  \<open>..\<close> or there is none.
\<close>

definition path_file_name :: "path \<Rightarrow> byte_string option" where
  "path_file_name p =
    (let comps = filter (\<lambda>w. w \<noteq> [] \<and> w \<noteq> ''.'') (split_on (CHR ''/'') p) in
     if comps = [] \<or> last comps = ''..'' then None else Some (last comps))"

section \<open>Extensions\<close>

definition is_r_to_z :: "char \<Rightarrow> bool" where
  "is_r_to_z c \<longleftrightarrow> 114 \<le> (of_char c :: nat) \<and> (of_char c :: nat) \<le> 122"

definition is_archive_volume_ext :: "byte_string \<Rightarrow> bool" where
  "is_archive_volume_ext b \<longleftrightarrow>
    length b = 3 \<and> is_ascii_digit (b ! 1) \<and> is_ascii_digit (b ! 2) \<and>
    (is_ascii_digit (b ! 0) \<or> is_r_to_z (b ! 0))"

definition known_extensions :: "byte_string list" where
  "known_extensions =
    [''rar'', ''zip'', ''7z'', ''gz'', ''bz2'', ''xz'', ''tar'', ''mkv'', ''mp4'', ''avi'', ''wmv'', ''ts'',
     ''m4v'', ''mov'', ''mpg'', ''mpeg'', ''mp3'', ''flac'', ''ogg'', ''m4a'', ''aac'', ''wav'', ''srt'', ''sub'',
     ''idx'', ''ass'', ''ssa'', ''sup'', ''nfo'', ''jpg'', ''jpeg'', ''png'', ''gif'', ''bmp'', ''par2'']"

definition has_known_extension :: "byte_string \<Rightarrow> bool" where
  "has_known_extension name =
    (case rsplit_once (CHR ''.'') (lowercase name) of
       None \<Rightarrow> False
     | Some (_, ext) \<Rightarrow> is_archive_volume_ext ext \<or> ext \<in> set known_extensions)"

definition rar_volume :: "byte_string \<Rightarrow> (byte_string \<times> bool) option" where
  "rar_volume name =
    (let lower = lowercase name in
     case strip_suffix ''.rar'' lower of
       Some stem \<Rightarrow>
         (case rfind_str ''.part'' stem of
            Some i \<Rightarrow>
              let n = drop (i + 5) stem in
              if n \<noteq> [] \<and> list_all is_ascii_digit n then Some (take i name, digits_value n \<le> 1)
              else Some (take (length stem) name, True)
          | None \<Rightarrow> Some (take (length stem) name, True))
     | None \<Rightarrow>
         let ext = (case rsplit_once (CHR ''.'') lower of None \<Rightarrow> lower | Some (_, e) \<Rightarrow> e) in
         if length lower < 4 then None
         else
           let dot = length lower - 4 in
           if lower ! dot = CHR ''.'' \<and> length ext = 3 \<and> is_r_to_z (ext ! 0) \<and> is_archive_volume_ext ext
           then Some (take dot name, False) else None)"

definition is_par2_name :: "byte_string \<Rightarrow> bool" where
  "is_par2_name name = ends_with ''.par2'' (lowercase name)"

definition file_stem :: "byte_string \<Rightarrow> byte_string" where
  "file_stem name = hd (split_on (CHR ''.'') name)"

definition looks_obfuscated :: "byte_string \<Rightarrow> bool" where
  "looks_obfuscated stem \<longleftrightarrow>
    16 \<le> length stem \<and>
    list_all (\<lambda>c. is_ascii_alpha c \<or> is_ascii_digit c \<or> c = CHR ''-'') stem \<and>
    list_ex is_ascii_digit stem \<and>
    \<not> list_ex (\<lambda>word. 3 \<le> length word \<and> list_all is_ascii_alpha word) (split_on (CHR ''-'') stem)"

section \<open>The plan\<close>

text \<open>The loop over the file ids: the yEnc name of one file, when it is to replace the NZB name.\<close>

definition deobfuscation_candidate ::
  "(byte_string \<times> byte_string) list \<Rightarrow> byte_string \<times> byte_string \<Rightarrow> (byte_string \<times> byte_string) option" where
  "deobfuscation_candidate nzb_filenames e =
    (case e of (file_id, yenc_name) \<Rightarrow>
     (case map_of nzb_filenames file_id of
        None \<Rightarrow> None
      | Some nzb_name \<Rightarrow>
          if nzb_name = yenc_name then None
          else
            let clean_yenc = (case path_file_name yenc_name of None \<Rightarrow> yenc_name | Some n \<Rightarrow> n) in
            if clean_yenc = [] \<or> nzb_name = clean_yenc then None
            else if \<not> has_known_extension clean_yenc then None
            else if is_par2_name nzb_name then None
            else if has_known_extension nzb_name \<and> \<not> looks_obfuscated (file_stem nzb_name) \<and>
                    looks_obfuscated (file_stem clean_yenc) then None
            else Some (nzb_name, clean_yenc)))"

definition deobfuscation_candidates ::
  "(byte_string \<times> byte_string) list \<Rightarrow> (byte_string \<times> byte_string) list \<Rightarrow> (byte_string \<times> byte_string) list" where
  "deobfuscation_candidates nzb_filenames yenc_names =
    List.map_filter (deobfuscation_candidate nzb_filenames) (sort_key fst yenc_names)"

text \<open>A numbered extension counts only beside a \<open>.001\<close> volume.\<close>

definition lone_number :: "byte_string set \<Rightarrow> byte_string \<Rightarrow> bool" where
  "lone_number lower_targets name =
    (case rsplit_once (CHR ''.'') (lowercase name) of
       None \<Rightarrow> False
     | Some (stem, ext) \<Rightarrow>
         length ext = 3 \<and> list_all is_ascii_digit ext \<and> stem @ ''.001'' \<notin> lower_targets)"

type_synonym rename_group = "(byte_string \<times> byte_string) list"
type_synonym volume_sets = "(byte_string \<times> byte_string \<times> rename_group) list"

definition add_volume :: "byte_string \<Rightarrow> byte_string \<times> byte_string \<Rightarrow> volume_sets \<Rightarrow> volume_sets" where
  "add_volume set_name pair sets =
    (let key = lowercase set_name in
     case map_of sets key of
       None \<Rightarrow> AList.update key (set_name, [pair]) sets
     | Some (n, vols) \<Rightarrow> AList.update key (n, vols @ [pair]) sets)"

definition group_pair ::
  "byte_string set \<Rightarrow> byte_string \<times> byte_string \<Rightarrow> rename_group list \<times> volume_sets \<Rightarrow> rename_group list \<times> volume_sets" where
  "group_pair lower_targets pair acc =
    (case acc of (groups, sets) \<Rightarrow>
      if lone_number lower_targets (snd pair) then (groups, sets)
      else (case rar_volume (snd pair) of
              Some (set_name, _) \<Rightarrow> (groups, add_volume set_name pair sets)
            | None \<Rightarrow> (groups @ [[pair]], sets)))"

text \<open>The first volume of a set with old-style volumes is renamed to \<open>set.rar\<close>.\<close>

definition rename_first_volume :: "byte_string \<Rightarrow> byte_string \<times> byte_string \<Rightarrow> byte_string \<times> byte_string" where
  "rename_first_volume set_name pair =
    (case pair of (old, new) \<Rightarrow>
      if ends_with ''.rar'' (lowercase new) \<and> (case rar_volume new of Some (_, first) \<Rightarrow> first | None \<Rightarrow> False)
      then (old, set_name @ ''.rar'') else pair)"

definition finish_set :: "byte_string \<times> byte_string \<times> rename_group \<Rightarrow> rename_group" where
  "finish_set e =
    (case e of (_, set_name, volumes) \<Rightarrow>
      if list_ex (\<lambda>(_, new). \<not> ends_with ''.rar'' (lowercase new)) volumes
      then map (rename_first_volume set_name) volumes else volumes)"

definition claims :: "rename_group list \<Rightarrow> byte_string list" where
  "claims groups = map (\<lambda>(_, new). lowercase new) (concat groups)"

definition plan_deobfuscation ::
  "(byte_string \<times> byte_string) list \<Rightarrow> (byte_string \<times> byte_string) list \<Rightarrow> rename_group list" where
  "plan_deobfuscation nzb_filenames yenc_names =
    (let candidates = deobfuscation_candidates nzb_filenames yenc_names;
         lower_targets = set (map (\<lambda>(_, n). lowercase n) candidates);
         grouped = fold (group_pair lower_targets) candidates ([], []);
         groups = fst grouped @ map finish_set (sort_key fst (snd grouped))
     in filter (list_all (\<lambda>(_, n). count_list (claims groups) (lowercase n) = 1)) groups)"

section \<open>Renaming\<close>

text \<open>
  \<open>std::fs::rename\<close> on a map from paths to contents.  \<open>ok\<close> is the system's answer to one call; a
  missing source always fails, an existing target is replaced.
\<close>

type_synonym disk = "path \<Rightarrow> bytes option"

definition fs_rename :: "bool \<Rightarrow> path \<Rightarrow> path \<Rightarrow> disk \<Rightarrow> bool \<times> disk" where
  "fs_rename ok src dst d =
    (case d src of
       None \<Rightarrow> (False, d)
     | Some c \<Rightarrow> if ok then (True, (d(src := None))(dst := Some c)) else (False, d))"

text \<open>Undoing the renames already made; failures are ignored.  The oracle is asked with the number of the call.\<close>

fun undo_renames :: "(nat \<Rightarrow> bool) \<Rightarrow> nat \<Rightarrow> path \<Rightarrow> rename_group \<Rightarrow> disk \<Rightarrow> disk" where
  "undo_renames ok n dir [] d = d"
| "undo_renames ok n dir ((old, new) # ps) d =
    undo_renames ok (Suc n) dir ps (snd (fs_rename (ok n) (path_join dir new) (path_join dir old) d))"

fun rename_loop :: "(nat \<Rightarrow> bool) \<Rightarrow> path \<Rightarrow> rename_group \<Rightarrow> rename_group \<Rightarrow> disk \<Rightarrow> bool \<times> disk" where
  "rename_loop ok dir finished [] d = (True, d)"
| "rename_loop ok dir finished ((old, new) # ps) d =
    (case fs_rename (ok (length finished)) (path_join dir old) (path_join dir new) d of
       (True, d') \<Rightarrow> rename_loop ok dir (finished @ [(old, new)]) ps d'
     | (False, d') \<Rightarrow> (False, undo_renames ok (Suc (length finished)) dir (rev finished) d'))"

definition rename_all_or_none :: "(nat \<Rightarrow> bool) \<Rightarrow> path \<Rightarrow> rename_group \<Rightarrow> disk \<Rightarrow> bool \<times> disk" where
  "rename_all_or_none ok dir grp d = rename_loop ok dir [] grp d"

text \<open>The loop of \<open>deobfuscate_files\<close>; each group has its own sequence of answers.\<close>

definition group_ready :: "path \<Rightarrow> disk \<Rightarrow> rename_group \<Rightarrow> bool" where
  "group_ready dir d grp =
    list_all (\<lambda>(old, new). d (path_join dir old) \<noteq> None \<and> d (path_join dir new) = None) grp"

fun rename_groups :: "(nat \<Rightarrow> nat \<Rightarrow> bool) \<Rightarrow> nat \<Rightarrow> path \<Rightarrow> rename_group list \<Rightarrow> disk \<Rightarrow> disk" where
  "rename_groups ok i dir [] d = d"
| "rename_groups ok i dir (g # gs) d =
    rename_groups ok (Suc i) dir gs
      (if group_ready dir d g then snd (rename_all_or_none (ok i) dir g d) else d)"

definition deobfuscate_disk ::
  "(nat \<Rightarrow> nat \<Rightarrow> bool) \<Rightarrow> path \<Rightarrow> (byte_string \<times> byte_string) list \<Rightarrow> (byte_string \<times> byte_string) list \<Rightarrow> disk \<Rightarrow> disk" where
  "deobfuscate_disk ok dir nzb_filenames yenc_names d =
    rename_groups ok 0 dir (plan_deobfuscation nzb_filenames yenc_names) d"

end
