(* ===== verification/Engine_Names_Proofs.thy ===== *)
theory Engine_Names_Proofs
  imports Engine_Names
begin

text \<open>
  What the renames of a finished job may do: no target is claimed twice, a group is applied entirely
  or undone, and no file content is lost or overwritten whatever the file system answers.
\<close>

section \<open>The plan\<close>

lemma mset_claims_filter: "mset (claims (filter P gs)) \<subseteq># mset (claims gs)"
  unfolding claims_def by (induction gs) (auto simp: subset_mset.add_increasing)

lemma claims_filter_distinct:
  assumes "list_all (\<lambda>g. list_all (\<lambda>(_, n). count_list (claims gs) (lowercase n) = 1) g) hs"
    and "mset (claims hs) \<subseteq># mset (claims gs)"
  shows "distinct (claims hs)"
proof (rule distinct_count_atmost_1 [THEN iffD2], rule allI)
  fix x
  show "count (mset (claims hs)) x = (if x \<in> set (claims hs) then 1 else 0)"
  proof (cases "x \<in> set (claims hs)")
    case True
    then obtain g old n where "g \<in> set hs" "(old, n) \<in> set g" "x = lowercase n"
      by (auto simp: claims_def)
    then have "count_list (claims gs) x = 1"
      using assms(1) by (fastforce simp: list_all_iff)
    then have 1: "count (mset (claims gs)) x = 1" by (simp add: count_mset)
    have 2: "count (mset (claims hs)) x \<le> count (mset (claims gs)) x"
      using assms(2) by (rule mset_subset_eq_count)
    have 3: "count (mset (claims hs)) x \<noteq> 0" using True by (simp add: count_eq_zero_iff)
    have "count (mset (claims hs)) x = 1" using 1 2 3 by linarith
    then show ?thesis using True by simp
  next
    case False
    then show ?thesis by (simp add: not_in_iff)
  qed
qed

lemma plan_claims_distinct: "distinct (claims (plan_deobfuscation nz ye))"
proof -
  define gs where "gs = fst (fold (group_pair (set (map (\<lambda>(_, n). lowercase n) (deobfuscation_candidates nz ye))))
    (deobfuscation_candidates nz ye) ([], [])) @ map finish_set (sort_key fst (snd (fold (group_pair
      (set (map (\<lambda>(_, n). lowercase n) (deobfuscation_candidates nz ye)))) (deobfuscation_candidates nz ye) ([], []))))"
  have p: "plan_deobfuscation nz ye = filter (list_all (\<lambda>(_, n). count_list (claims gs) (lowercase n) = 1)) gs"
    by (simp add: plan_deobfuscation_def gs_def Let_def)
  show ?thesis unfolding p
    by (rule claims_filter_distinct [where gs = gs]) (auto simp: list_all_iff mset_claims_filter)
qed

text \<open>Sources come from the candidates: grouping and the first-volume rule only touch targets.\<close>

definition set_olds :: "volume_sets \<Rightarrow> byte_string set" where
  "set_olds sets = (\<Union>(_, _, g) \<in> set sets. fst ` set g)"

lemma set_olds_add_volume: "set_olds (add_volume s pair sets) \<subseteq> insert (fst pair) (set_olds sets)"
proof -
  have u: "set (AList.update k v m) \<subseteq> insert (k, v) (set m)" for k v and m :: volume_sets
    by (induction m) auto
  show ?thesis
  proof (cases "map_of sets (lowercase s)")
    case None
    then show ?thesis using u [of "lowercase s" "(s, [pair])" sets]
      by (force simp: add_volume_def set_olds_def)
  next
    case (Some e)
    obtain n vols where e: "e = (n, vols)" by (cases e)
    have m: "(lowercase s, n, vols) \<in> set sets" using Some e by (simp add: map_of_SomeD)
    show ?thesis using u [of "lowercase s" "(n, vols @ [pair])" sets] m
      by (force simp: add_volume_def set_olds_def Some e)
  qed
qed

lemma group_pair_olds:
  "fst ` set (concat (fst (fold (group_pair T) cs acc))) \<union> set_olds (snd (fold (group_pair T) cs acc))
    \<subseteq> fst ` set cs \<union> fst ` set (concat (fst acc)) \<union> set_olds (snd acc)"
proof (induction cs arbitrary: acc)
  case (Cons c cs)
  have 1: "fst ` set (concat (fst (group_pair T c acc))) \<union> set_olds (snd (group_pair T c acc))
      \<subseteq> insert (fst c) (fst ` set (concat (fst acc)) \<union> set_olds (snd acc))"
  proof (cases "lone_number T (snd c) \<or> rar_volume (snd c) = None")
    case True
    then show ?thesis by (auto simp: group_pair_def split: prod.splits option.splits)
  next
    case False
    then obtain s b where "rar_volume (snd c) = Some (s, b)" "\<not> lone_number T (snd c)" by auto
    then have "group_pair T c acc = (fst acc, add_volume s c (snd acc))"
      by (simp add: group_pair_def split: prod.splits)
    then show ?thesis using set_olds_add_volume [of s c "snd acc"] by auto
  qed
  have 2: "fold (group_pair T) (c # cs) acc = fold (group_pair T) cs (group_pair T c acc)" by simp
  have 3: "fst ` set (c # cs) = insert (fst c) (fst ` set cs)" by simp
  show ?case unfolding 2 3 using Cons.IH [of "group_pair T c acc"] 1 by blast
qed simp

lemma fst_rename_first [simp]: "fst (rename_first_volume s p) = fst p"
  by (auto simp: rename_first_volume_def split: prod.splits)

lemma finish_set_olds: "fst ` set (finish_set (k, s, g)) = fst ` set g"
  by (auto simp: finish_set_def image_image)

lemma plan_olds:
  "fst ` set (concat (plan_deobfuscation nz ye)) \<subseteq> fst ` set (deobfuscation_candidates nz ye)"
proof -
  define T where "T = set (map (\<lambda>(_, n). lowercase n) (deobfuscation_candidates nz ye))"
  define G where "G = fold (group_pair T) (deobfuscation_candidates nz ye) ([], [])"
  have s: "fst ` set (concat (map finish_set (sort_key fst (snd G)))) \<subseteq> set_olds (snd G)"
  proof
    fix x
    assume "x \<in> fst ` set (concat (map finish_set (sort_key fst (snd G))))"
    then obtain e where e: "e \<in> set (snd G)" "x \<in> fst ` set (finish_set e)" by auto
    obtain k s g where k: "e = (k, s, g)" by (cases e)
    from e k have m: "(k, s, g) \<in> set (snd G)" and x: "x \<in> fst ` set (finish_set (k, s, g))" by auto
    from x have "x \<in> fst ` set g" unfolding finish_set_olds .
    with m show "x \<in> set_olds (snd G)" unfolding set_olds_def by force
  qed
  have "fst ` set (concat (plan_deobfuscation nz ye)) \<subseteq>
      fst ` set (concat (fst G)) \<union> fst ` set (concat (map finish_set (sort_key fst (snd G))))"
    by (auto simp: plan_deobfuscation_def Let_def G_def T_def)
  also have "\<dots> \<subseteq> fst ` set (concat (fst G)) \<union> set_olds (snd G)"
    by (rule Un_mono [OF order_refl s])
  also have "\<dots> \<subseteq> fst ` set (deobfuscation_candidates nz ye)"
    using group_pair_olds [of T "deobfuscation_candidates nz ye" "([], [])"] by (auto simp: G_def set_olds_def)
  finally show ?thesis .
qed

lemma set_candidates:
  "set (deobfuscation_candidates nz ye) = {p. \<exists>e \<in> set ye. deobfuscation_candidate nz e = Some p}"
  by (force simp: deobfuscation_candidates_def List.map_filter_def)

text \<open>The planned renames claim every target at most once, whatever the letter case, and every
  source is the NZB name of a file with another yEnc name; PAR2 files are left alone.\<close>

theorem plan_deobfuscation_sound:
  "distinct (claims (plan_deobfuscation nzb_filenames yenc_names)) \<and>
    (\<forall>(old, new) \<in> set (concat (plan_deobfuscation nzb_filenames yenc_names)).
      \<not> is_par2_name old \<and>
      (\<exists>(f, yenc_name) \<in> set yenc_names. map_of nzb_filenames f = Some old \<and> yenc_name \<noteq> old))"
proof -
  have "\<not> is_par2_name old \<and> (\<exists>(f, y) \<in> set yenc_names. map_of nzb_filenames f = Some old \<and> y \<noteq> old)"
    if "(old, new) \<in> set (concat (plan_deobfuscation nzb_filenames yenc_names))" for old new
  proof -
    from that have "old \<in> fst ` set (concat (plan_deobfuscation nzb_filenames yenc_names))" by force
    with plan_olds have "old \<in> fst ` set (deobfuscation_candidates nzb_filenames yenc_names)" by blast
    then obtain f y p where "(f, y) \<in> set yenc_names"
      "deobfuscation_candidate nzb_filenames (f, y) = Some p" "old = fst p"
      by (auto simp: set_candidates)
    moreover from this(2) have "map_of nzb_filenames f = Some (fst p) \<and> \<not> is_par2_name (fst p) \<and> y \<noteq> fst p"
      by (auto simp: deobfuscation_candidate_def Let_def split: option.splits if_splits)
    ultimately show ?thesis by blast
  qed
  then show ?thesis using plan_claims_distinct by blast
qed

section \<open>One group on disk\<close>

lemma path_join_same_dir [simp]: "path_join d a = path_join d b \<longleftrightarrow> a = b"
  by (simp add: path_join_def)

text \<open>Two disks hold the same files when their contents correspond one to one.\<close>

definition same_files :: "disk \<Rightarrow> disk \<Rightarrow> bool" where
  "same_files d d' \<longleftrightarrow> (\<exists>f. bij_betw f (dom d) (dom d') \<and> (\<forall>p \<in> dom d. d' (f p) = d p))"

lemma same_files_refl [simp]: "same_files d d"
  unfolding same_files_def by (rule exI [of _ id]) auto

lemma same_files_trans: "same_files a b \<Longrightarrow> same_files b c \<Longrightarrow> same_files a c"
proof -
  assume "same_files a b" "same_files b c"
  then obtain f g where f: "bij_betw f (dom a) (dom b)" "\<forall>p \<in> dom a. b (f p) = a p"
    and g: "bij_betw g (dom b) (dom c)" "\<forall>p \<in> dom b. c (g p) = b p" by (auto simp: same_files_def)
  have "f p \<in> dom b" if "p \<in> dom a" for p using f(1) that unfolding bij_betw_def by blast
  then show "same_files a c"
    unfolding same_files_def using f g
    by (intro exI [of _ "g \<circ> f"] conjI bij_betw_trans [OF f(1) g(1)]) auto
qed

lemma fs_rename_fresh:
  assumes "d dst = None"
  shows "same_files d (snd (fs_rename ok src dst d))"
proof (cases "d src = None \<or> \<not> ok")
  case True
  then show ?thesis by (auto simp: fs_rename_def split: option.splits)
next
  case False
  then obtain c where c: "d src = Some c" and ok by auto
  then have r: "snd (fs_rename ok src dst d) = (d(src := None))(dst := Some c)" by (simp add: fs_rename_def)
  have ne: "src \<noteq> dst" using c assms by auto
  have "bij_betw (id(src := dst)) (dom d) (dom ((d(src := None))(dst := Some c)))"
    unfolding bij_betw_def
  proof
    show "inj_on (id(src := dst)) (dom d)" using assms by (auto simp: inj_on_def domIff)
    show "(id(src := dst)) ` dom d = dom ((d(src := None))(dst := Some c))"
      using c assms ne by (auto simp: image_iff domIff split: if_splits)
  qed
  then show ?thesis
    unfolding same_files_def r using c assms ne
    by (intro exI [of _ "id(src := dst)"]) (auto simp: domIff)
qed

lemma fs_rename_absent:
  assumes "d q = None" "q \<noteq> dst"
  shows "snd (fs_rename ok src dst d) q = None"
  using assms by (auto simp: fs_rename_def split: option.splits)

lemma undo_same_files:
  assumes "distinct (map fst ps)" "\<forall>(old, new) \<in> set ps. d (path_join dir old) = None"
  shows "same_files d (undo_renames ok n dir ps d)"
  using assms
proof (induction ps arbitrary: n d)
  case (Cons p ps)
  obtain old new where p: "p = (old, new)" by (cases p)
  define d1 where "d1 = snd (fs_rename (ok n) (path_join dir new) (path_join dir old) d)"
  have "\<forall>(o2, n2) \<in> set ps. d1 (path_join dir o2) = None"
  proof (clarify)
    fix o2 n2
    assume m: "(o2, n2) \<in> set ps"
    then have "o2 \<noteq> old" using Cons.prems(1) by (force simp: p)
    moreover have "d (path_join dir o2) = None" using Cons.prems(2) m by auto
    ultimately show "d1 (path_join dir o2) = None" unfolding d1_def by (intro fs_rename_absent) auto
  qed
  then have "same_files d1 (undo_renames ok (Suc n) dir ps d1)"
    using Cons.IH Cons.prems(1) by (simp add: p)
  moreover have "same_files d d1"
    unfolding d1_def using Cons.prems(2) by (intro fs_rename_fresh) (auto simp: p)
  ultimately show ?case by (simp add: p d1_def [symmetric] same_files_trans)
qed simp

lemma rename_loop_same_files:
  assumes "distinct (map fst finished)" "\<forall>(old, new) \<in> set finished. d (path_join dir old) = None"
    and "distinct (map snd ps)" "\<forall>(old, new) \<in> set ps. d (path_join dir new) = None"
    and "fst ` set (finished @ ps) \<inter> snd ` set ps = {}"
  shows "same_files d (snd (rename_loop ok dir finished ps d))"
  using assms
proof (induction ps arbitrary: finished d)
  case (Cons p ps)
  obtain old new where p: "p = (old, new)" by (cases p)
  obtain b d1 where r: "fs_rename (ok (length finished)) (path_join dir old) (path_join dir new) d = (b, d1)"
    by (cases "fs_rename (ok (length finished)) (path_join dir old) (path_join dir new) d")
  have s: "same_files d d1"
    using fs_rename_fresh [of d "path_join dir new" "ok (length finished)" "path_join dir old"] Cons.prems(4) r
    by (simp add: p)
  show ?case
  proof (cases b)
    case False
    then have "d1 = d" using r by (auto simp: fs_rename_def split: option.splits if_splits)
    moreover have "same_files d (undo_renames ok (Suc (length finished)) dir (rev finished) d)"
      using Cons.prems(1,2) by (intro undo_same_files) (auto simp: rev_map [symmetric])
    ultimately show ?thesis using r False by (simp add: p)
  next
    case True
    then obtain c where c: "d (path_join dir old) = Some c"
      and d1: "d1 = (d(path_join dir old := None))(path_join dir new := Some c)"
      using r by (auto simp: fs_rename_def split: option.splits if_splits)
    have fresh: "old \<notin> fst ` set finished" using Cons.prems(2) c by force
    have ne: "old \<noteq> new" "new \<notin> fst ` set finished" "new \<notin> snd ` set ps"
      using Cons.prems(3,5) by (auto simp: p)
    have 1: "distinct (map fst (finished @ [(old, new)]))" using Cons.prems(1) fresh by auto
    have 2: "\<forall>(o2, n2) \<in> set (finished @ [(old, new)]). d1 (path_join dir o2) = None"
    proof (clarify)
      fix o2 n2
      assume m: "(o2, n2) \<in> set (finished @ [(old, new)])"
      show "d1 (path_join dir o2) = None"
      proof (cases "(o2, n2) \<in> set finished")
        case True
        then have "o2 \<in> fst ` set finished" by force
        with True show ?thesis using Cons.prems(2) ne(2) by (auto simp: d1)
      next
        case False
        with m ne(1) show ?thesis by (simp add: d1)
      qed
    qed
    have 3: "\<forall>(o2, n2) \<in> set ps. d1 (path_join dir n2) = None"
    proof (clarify)
      fix o2 n2
      assume m: "(o2, n2) \<in> set ps"
      then have "n2 \<in> snd ` set ps" by force
      with m show "d1 (path_join dir n2) = None" using Cons.prems(4) ne(3) by (auto simp: d1 p)
    qed
    have 4: "fst ` set ((finished @ [(old, new)]) @ ps) \<inter> snd ` set ps = {}"
      using Cons.prems(5) by (auto simp: p)
    have "same_files d1 (snd (rename_loop ok dir (finished @ [(old, new)]) ps d1))"
      using Cons.prems(3) by (intro Cons.IH [OF 1 2 _ 3 4]) (simp add: p)
    then show ?thesis using r True s by (simp add: p same_files_trans)
  qed
qed simp

lemma ready_disjoint: "group_ready dir d g \<Longrightarrow> fst ` set g \<inter> snd ` set g = {}"
proof (rule ccontr)
  assume r: "group_ready dir d g" and "fst ` set g \<inter> snd ` set g \<noteq> {}"
  then obtain p q where "p \<in> set g" "q \<in> set g" "fst p = snd q" by blast
  with r show False
    unfolding group_ready_def list_all_iff by (metis (mono_tags, lifting) case_prod_beta)
qed

lemma rename_group_same_files:
  assumes "group_ready dir d g" "distinct (map snd g)"
  shows "same_files d (snd (rename_all_or_none ok dir g d))"
  unfolding rename_all_or_none_def
  using assms ready_disjoint [OF assms(1)]
  by (intro rename_loop_same_files) (auto simp: group_ready_def list_all_iff)

text \<open>The disk after a group has been applied.\<close>

definition renamed :: "path \<Rightarrow> rename_group \<Rightarrow> disk \<Rightarrow> disk" where
  "renamed dir g d q =
    (case map_of (map (\<lambda>(old, new). (path_join dir new, old)) g) q of
       Some old \<Rightarrow> d (path_join dir old)
     | None \<Rightarrow> if q \<in> path_join dir ` fst ` set g then None else d q)"

lemma renamed_Cons:
  assumes "d (path_join dir old) = Some c" "old \<notin> fst ` set ps" "new \<notin> snd ` set ps"
    and "new \<noteq> old" "new \<notin> fst ` set ps"
  shows "renamed dir ps ((d(path_join dir old := None))(path_join dir new := Some c)) = renamed dir ((old, new) # ps) d"
proof
  fix q
  let ?m = "map_of (map (\<lambda>(old, new). (path_join dir new, old)) ps)"
  have n: "?m (path_join dir new) = None"
    using assms(3) by (force simp: map_of_eq_None_iff)
  have nn: "(new, b) \<notin> set ps" "(old, b) \<notin> set ps" for b using assms(2,5) by force+
  have o: "o' \<in> fst ` set ps" if "?m q = Some o'" for o'
    using map_of_SomeD [OF that] by force
  show "renamed dir ps ((d(path_join dir old := None))(path_join dir new := Some c)) q = renamed dir ((old, new) # ps) d q"
  proof (cases "q = path_join dir new")
    case True
    then show ?thesis using n nn assms by (auto simp: renamed_def)
  next
    case False
    show ?thesis
    proof (cases "?m q")
      case None
      then show ?thesis using False by (auto simp: renamed_def)
    next
      case (Some o')
      then have "o' \<in> fst ` set ps" by (rule o)
      then show ?thesis using Some False assms by (auto simp: renamed_def)
    qed
  qed
qed

lemma rename_loop_exact:
  assumes "distinct (map fst ps)" "distinct (map snd ps)" "fst ` set ps \<inter> snd ` set ps = {}"
    and "\<forall>(old, new) \<in> set ps. d (path_join dir old) \<noteq> None \<and> d (path_join dir new) = None"
    and undo: "\<And>k. (\<forall>n \<ge> k. ok n) \<Longrightarrow> undo_renames ok k dir (rev finished) d = d0"
    and once: "\<And>i j. \<not> ok i \<Longrightarrow> i < j \<Longrightarrow> ok j"
  shows "rename_loop ok dir finished ps d =
    (if \<forall>i < length ps. ok (length finished + i) then (True, renamed dir ps d) else (False, d0))"
  using assms(1-5)
proof (induction ps arbitrary: finished d)
  case Nil
  then show ?case by (simp add: renamed_def fun_eq_iff)
next
  case (Cons p ps)
  obtain old new where p: "p = (old, new)" by (cases p)
  obtain c where c: "d (path_join dir old) = Some c" using Cons.prems(4) by (auto simp: p)
  have ndst: "d (path_join dir new) = None" using Cons.prems(4) by (auto simp: p)
  have f: "old \<notin> fst ` set ps" "new \<notin> snd ` set ps" "new \<noteq> old" "new \<notin> fst ` set ps" "old \<notin> snd ` set ps"
    using Cons.prems(1-3) by (auto simp: p)
  show ?case
  proof (cases "ok (length finished)")
    case False
    have "undo_renames ok (Suc (length finished)) dir (rev finished) d = d0"
      using once [OF False] by (intro Cons.prems(5)) auto
    moreover have "\<not> (\<forall>i < length (p # ps). ok (length finished + i))" using False by force
    ultimately show ?thesis using False c by (simp add: p fs_rename_def)
  next
    case True
    define d1 where "d1 = (d(path_join dir old := None))(path_join dir new := Some c)"
    have r: "fs_rename (ok (length finished)) (path_join dir old) (path_join dir new) d = (True, d1)"
      using True c by (simp add: fs_rename_def d1_def)
    have undone: "fs_rename True (path_join dir new) (path_join dir old) d1 = (True, d)"
      using c ndst f(3) by (auto simp: fs_rename_def d1_def fun_eq_iff)
    have u: "undo_renames ok k dir (rev (finished @ [(old, new)])) d1 = d0" if "\<forall>n \<ge> k. ok n" for k
      using that undone Cons.prems(5) [of "Suc k"] by simp
    have e: "\<forall>(o2, n2) \<in> set ps. d1 (path_join dir o2) \<noteq> None \<and> d1 (path_join dir n2) = None"
    proof (clarify)
      fix o2 n2
      assume m: "(o2, n2) \<in> set ps"
      then have "o2 \<in> fst ` set ps" "n2 \<in> snd ` set ps" by force+
      then have "o2 \<noteq> old" "o2 \<noteq> new" "n2 \<noteq> new" using f by auto
      moreover have "d (path_join dir o2) \<noteq> None \<and> d (path_join dir n2) = None" using Cons.prems(4) m by auto
      ultimately show "d1 (path_join dir o2) \<noteq> None \<and> d1 (path_join dir n2) = None" by (auto simp: d1_def)
    qed
    have "rename_loop ok dir (finished @ [(old, new)]) ps d1 =
        (if \<forall>i < length ps. ok (length (finished @ [(old, new)]) + i) then (True, renamed dir ps d1) else (False, d0))"
      using Cons.prems(1-3) by (intro Cons.IH [OF _ _ _ e u]) (auto simp: p)
    moreover have "renamed dir ps d1 = renamed dir (p # ps) d"
      unfolding d1_def p by (rule renamed_Cons [where d = d]) (use c f in simp_all)
    moreover have "(\<forall>i < length ps. ok (length (finished @ [(old, new)]) + i)) \<longleftrightarrow>
        (\<forall>i < length (p # ps). ok (length finished + i))"
      using True by (auto simp: All_less_Suc2)
    ultimately show ?thesis using r by (simp add: p)
  qed
qed

text \<open>\<open>rename_all_or_none\<close> on a ready group either moves every file of the group to its new name or,
  when one rename fails and the undoing ones do not, leaves the disk exactly as it was.\<close>

theorem rename_all_or_none_exact:
  assumes "group_ready dir d grp" "distinct (map fst grp)" "distinct (map snd grp)"
    and "\<And>i j. \<not> ok i \<Longrightarrow> i < j \<Longrightarrow> ok j"
  shows "rename_all_or_none ok dir grp d =
    (if \<forall>i < length grp. ok i then (True, renamed dir grp d) else (False, d))"
  using rename_loop_exact [of grp d dir ok "[]" d] assms ready_disjoint [OF assms(1)]
  by (simp add: rename_all_or_none_def group_ready_def list_all_iff)

text \<open>C21. Whatever the file system answers, the renames at the end of a job lose and overwrite no
  file: the contents before and after correspond one to one.\<close>

theorem deobfuscation_keeps_every_file:
  "\<exists>f. bij_betw f (dom d) (dom (deobfuscate_disk ok dir nzb_filenames yenc_names d)) \<and>
    (\<forall>p \<in> dom d. deobfuscate_disk ok dir nzb_filenames yenc_names d (f p) = d p)"
proof -
  have "same_files d (rename_groups ok i dir gs d)" if "distinct (claims gs)" for gs i d
    using that
  proof (induction gs arbitrary: i d)
    case (Cons g gs)
    have "distinct (map snd g)"
      using Cons.prems by (auto simp: claims_def distinct_map inj_on_def split_beta)
    then have "same_files d (if group_ready dir d g then snd (rename_all_or_none (ok i) dir g d) else d)"
      by (simp add: rename_group_same_files)
    then have "same_files d (rename_groups ok (Suc i) dir gs
        (if group_ready dir d g then snd (rename_all_or_none (ok i) dir g d) else d))"
      using Cons.prems by (intro same_files_trans [OF _ Cons.IH]) (simp_all add: claims_def)
    then show ?case by simp
  qed simp
  then have "same_files d (deobfuscate_disk ok dir nzb_filenames yenc_names d)"
    by (simp add: deobfuscate_disk_def plan_claims_distinct)
  then show ?thesis by (simp add: same_files_def)
qed

theorem deobfuscation_keeps_every_file_witness:
  "let d = [''w/a'' \<mapsto> [1], ''w/b'' \<mapsto> [2]];
       d' = deobfuscate_disk (\<lambda>_ _. True) ''w'' [(''f'', ''a'')] [(''f'', ''movie.mkv'')] d
   in d' ''w/movie.mkv'' = Some [1] \<and> (\<exists>f. bij_betw f (dom d) (dom d'))"
proof -
  have "deobfuscate_disk (\<lambda>_ _. True) ''w'' [(''f'', ''a'')] [(''f'', ''movie.mkv'')] [''w/a'' \<mapsto> [1], ''w/b'' \<mapsto> [2]]
      ''w/movie.mkv'' = Some [1]"
    by code_simp
  then show ?thesis
    using deobfuscation_keeps_every_file [of "[''w/a'' \<mapsto> [1], ''w/b'' \<mapsto> [2]]" "\<lambda>_ _. True" "''w''"
      "[(''f'', ''a'')]" "[(''f'', ''movie.mkv'')]"]
    by (auto simp: Let_def)
qed

theorem rename_all_or_none_exact_witness:
  "rename_all_or_none (\<lambda>i. i \<noteq> 1) ''w'' [(''a'', ''x''), (''b'', ''y'')] [''w/a'' \<mapsto> [1], ''w/b'' \<mapsto> [2]] =
    (False, [''w/a'' \<mapsto> [1], ''w/b'' \<mapsto> [2]])"
  using rename_all_or_none_exact [of "''w''" "[''w/a'' \<mapsto> [1], ''w/b'' \<mapsto> [2]]" "[(''a'', ''x''), (''b'', ''y'')]"
      "\<lambda>i. i \<noteq> 1"]
  by (simp add: group_ready_def path_join_def)

theorem plan_deobfuscation_sound_witness:
  "let g = plan_deobfuscation [(''f'', ''a''), (''g'', ''b.par2'')] [(''f'', ''movie.r00''), (''g'', ''b.rar'')] in
    g = [[(''a'', ''movie.r00'')]] \<and> distinct (claims g) \<and> list_all (\<lambda>(old, _). \<not> is_par2_name old) (concat g)"
proof -
  have "plan_deobfuscation [(''f'', ''a''), (''g'', ''b.par2'')] [(''f'', ''movie.r00''), (''g'', ''b.rar'')] =
      [[(''a'', ''movie.r00'')]]"
    by code_simp
  then show ?thesis
    using plan_deobfuscation_sound [of "[(''f'', ''a''), (''g'', ''b.par2'')]" "[(''f'', ''movie.r00''), (''g'', ''b.rar'')]"]
    by simp
qed

end
