(* ===== verification/Engine_Decode.thy ===== *)
theory Engine_Decode
  imports Assembler Slice_Tracker
begin

text \<open>
  One fetched article on its way to disk (\<open>download_engine.rs\<close>): the classification of fetch
  errors, the choice of the write offset, the record of the \<open>=ybegin size=\<close> values and the write
  itself.  The yEnc decoder (crate \<open>yenc-simd\<close>) is a parameter; so are the clock, the text of an
  I/O error and the answers of the system calls.
\<close>

section \<open>Environment\<close>

text \<open>The fields of the decoder's result that are used; sizes and offsets are \<open>u64\<close>.\<close>

record yenc_decoded =
  yd_data :: bytes
  yd_filename :: "byte_string option"
  yd_file_size :: "nat option"
  yd_part_begin :: "nat option"
  yd_part_end :: "nat option"

text \<open>\<open>en_decode\<close> answers \<open>None\<close> when the decode task panics.\<close>

record engine_env =
  en_tracker :: tracker_env
  en_decode :: "bytes \<Rightarrow> (byte_string + yenc_decoded) option"
  en_io :: io_env
  en_io_text :: byte_string
  en_join_text :: byte_string
  en_rename :: "nat \<Rightarrow> nat \<Rightarrow> bool"
  en_nfc :: "byte_string \<Rightarrow> byte_string"
  en_now :: millis
  en_decode_us :: nat
  en_assemble_us :: nat

section \<open>Results and errors\<close>

record process_result =
  dr_decoded_bytes :: nat
  dr_write_offset :: nat
  dr_file_complete :: bool
  dr_yenc_filename :: "byte_string option"
  dr_decode_us :: nat
  dr_assemble_us :: nat

datatype article_error =
    AE_NotFound
  | AE_ConnectionLost byte_string
  | AE_ServerError failure_kind byte_string
  | AE_ProviderUnavailable failure_kind byte_string
  | AE_DecodeError byte_string
  | AE_AssemblyError byte_string
  | AE_IncompleteNzb byte_string
  | AE_Cancelled

definition show_u32 :: "u32 \<Rightarrow> byte_string" where
  "show_u32 n = show_nat (unat n)"

fun assembler_error_display :: "engine_env \<Rightarrow> assembler_error \<Rightarrow> byte_string" where
  "assembler_error_display env Assembler_Io = ''I/O error writing file: '' @ en_io_text env"
| "assembler_error_display env (FileNotRegistered job f) = ''File not registered: job='' @ job @ '', file='' @ f"
| "assembler_error_display env (SegmentOutOfRange seg tot) =
    ''Segment number '' @ show_u32 seg @ '' is not one of the file's '' @ show_u32 tot @ '' expected segments''"
| "assembler_error_display env (EmptySegmentData seg) =
    ''Empty segment data for segment '' @ show_u32 seg @ '' '' @ [CHR 0xE2, CHR 0x80, CHR 0x94] @
    '' decoded to zero bytes''"
| "assembler_error_display env (WriteBeyondDeclaredSize seg b e d) =
    ''Segment '' @ show_u32 seg @ '' writes bytes '' @ show_nat b @ ''..'' @ show_nat e @
    '', past the NZB-declared file size of '' @ show_nat d @ '' bytes''"

section \<open>Fetch errors\<close>

text \<open>\<open>attempt\<close> is \<open>tries_on_current + 1\<close>.\<close>

fun classify_fetch_error :: "u32 \<Rightarrow> nntp_error \<Rightarrow> article_error" where
  "classify_fetch_error attempt (ArticleNotFound _) = AE_NotFound"
| "classify_fetch_error attempt (NoSuchGroup _) = AE_NotFound"
| "classify_fetch_error attempt (NoArticleSelected _) = AE_NotFound"
| "classify_fetch_error attempt (Connection m) = AE_ConnectionLost
    (''Connection error on attempt '' @ show_u32 attempt @ '': '' @ nntp_error_display (Connection m))"
| "classify_fetch_error attempt (Io m) = AE_ConnectionLost
    (''Connection error on attempt '' @ show_u32 attempt @ '': '' @ nntp_error_display (Io m))"
| "classify_fetch_error attempt (Tls m) = AE_ConnectionLost (''TLS error: '' @ nntp_error_display (Tls m))"
| "classify_fetch_error attempt (ServiceUnavailable m) =
    AE_ProviderUnavailable FK_ServerDown (nntp_error_display (ServiceUnavailable m))"
| "classify_fetch_error attempt (AuthRequired m) =
    AE_ProviderUnavailable FK_AuthFailed (nntp_error_display (AuthRequired m))"
| "classify_fetch_error attempt (Auth m) = AE_ProviderUnavailable FK_AuthFailed (nntp_error_display (Auth m))"
| "classify_fetch_error attempt (PermissionDenied m) =
    AE_ProviderUnavailable FK_PermissionDenied (nntp_error_display (PermissionDenied m))"
| "classify_fetch_error attempt e =
    AE_ServerError (af_kind (failure_from_nntp e [])) (nntp_error_display e)"

section \<open>The write offset\<close>

text \<open>\<open>Option::or\<close>.\<close>

definition or_else :: "'a option \<Rightarrow> 'a option \<Rightarrow> 'a option" where
  "or_else a b = (case a of Some x \<Rightarrow> Some x | None \<Rightarrow> b)"

text \<open>The checks against a bound; \<open>checked_add\<close> fails when the end does not fit in 64 bits.\<close>

definition check_bound :: "nat \<Rightarrow> nat option \<Rightarrow> nat \<Rightarrow> nat \<Rightarrow> byte_string option" where
  "check_bound begin_at part_end data_len size_bound =
    (if size_bound = 0 then Some ''declared file size is 0''
     else if size_bound \<le> begin_at
     then Some (''=ypart begin '' @ show_nat begin_at @ '' is past the declared file size '' @ show_nat size_bound)
     else if begin_at + data_len \<le> u64_max \<and> begin_at + data_len \<le> size_bound
     then (case part_end of
             Some e \<Rightarrow>
               if e \<noteq> begin_at + data_len
               then Some (''=ypart end '' @ show_nat e @ '' does not match the decoded bytes ending at '' @
                      show_nat (begin_at + data_len))
               else None
           | None \<Rightarrow> None)
     else Some (''part range begin='' @ show_nat begin_at @ '' len='' @ show_nat data_len @
            '' exceeds declared file size '' @ show_nat size_bound))"

definition validated_write_offset ::
  "u32 \<Rightarrow> yenc_decoded \<Rightarrow> nat \<Rightarrow> nat option \<Rightarrow> nat option \<Rightarrow> byte_string + nat" where
  "validated_write_offset seg decoded data_len declared pinned =
    (let size_bound = or_else declared pinned in
     if size_bound = None \<and> \<not> seg \<le> 1
     then Inl (''no declared file size for multi-segment file (segment '' @ show_u32 seg @ '')'')
     else
       (case (case yd_part_begin decoded of
                Some b \<Rightarrow> Some b
              | None \<Rightarrow> if seg \<le> 1 then Some 0 else None) of
          None \<Rightarrow> Inl (''no =ypart header on segment '' @ show_u32 seg @ '' of a multi-part file'')
        | Some b \<Rightarrow>
            (case Option.bind size_bound (check_bound b (yd_part_end decoded) data_len) of
               Some reason \<Rightarrow> Inl reason
             | None \<Rightarrow> Inr b)))"

section \<open>The record of sizes\<close>

type_synonym yenc_size_range = "nat \<times> nat \<times> nat \<times> bool"
type_synonym pinned_sizes = "(byte_string \<times> yenc_size_range) list"

text \<open>\<open>None\<close> stands for a call without the record.\<close>

definition pin_size :: "byte_string \<Rightarrow> nat option \<Rightarrow> pinned_sizes option \<Rightarrow> nat option \<times> pinned_sizes option" where
  "pin_size f file_size sizes =
    (case (sizes, file_size) of
       (Some m, Some s) \<Rightarrow>
         (case map_of m f of
            Some (fst0, lo, hi, logged) \<Rightarrow>
              let widened = s < lo \<or> hi < s in
              (Some fst0,
               Some (if widened \<or> \<not> logged
                     then AList.update f (fst0, min lo s, max hi s, logged \<or> widened) m else m))
          | None \<Rightarrow> (Some s, Some (AList.update f (s, s, s, False) m)))
     | (Some m, None) \<Rightarrow> (map_option fst (map_of m f), Some m)
     | (None, s) \<Rightarrow> (s, None))"

section \<open>Decoding and writing\<close>

text \<open>Only a write past the cap of a file with left-out segments is final.\<close>

definition past_cap :: "nat option \<Rightarrow> nat option \<Rightarrow> nat \<Rightarrow> bool" where
  "past_cap declared part_begin data_len \<longleftrightarrow>
    (case declared of
       None \<Rightarrow> False
     | Some cap \<Rightarrow>
         (case part_begin of
            None \<Rightarrow> False
          | Some b \<Rightarrow> cap \<le> b \<or> cap < min (b + data_len) u64_max))"

definition place_error ::
  "engine_item \<Rightarrow> nat option \<Rightarrow> (u32 \<times> u32) option \<Rightarrow> nat option \<Rightarrow> nat \<Rightarrow> byte_string \<Rightarrow> article_error" where
  "place_error it declared gap part_begin data_len reason =
    (case gap of
       Some (listed, highest) \<Rightarrow>
         if past_cap declared part_begin data_len
         then AE_IncompleteNzb (''NZB lists '' @ show_u32 listed @ '' of '' @ show_u32 highest @ '' segments for '' @
           ei_filename it @ ''; seg '' @ show_u32 (ei_segment_number it) @ '' not placed: '' @ reason)
         else AE_DecodeError (''Corrupt yEnc article for '' @ ei_filename it @ '' seg '' @
           show_u32 (ei_segment_number it) @ '': '' @ reason)
     | None \<Rightarrow> AE_DecodeError (''Corrupt yEnc article for '' @ ei_filename it @ '' seg '' @
           show_u32 (ei_segment_number it) @ '': '' @ reason))"

definition item_key :: "engine_item \<Rightarrow> file_key" where
  "item_key it = (ei_job_id it, ei_file_id it)"

type_synonym decode_state = "pinned_sizes option \<times> assembler"

definition assemble_decoded ::
  "engine_env \<Rightarrow> engine_item \<Rightarrow> yenc_decoded \<Rightarrow> decode_state \<Rightarrow> (article_error + process_result) \<times> decode_state" where
  "assemble_decoded env it decoded st =
    (case st of (sizes, a) \<Rightarrow>
     let declared = declared_bytes (item_key it) a in
     (case pin_size (ei_file_id it) (yd_file_size decoded) sizes of (pinned, sizes') \<Rightarrow>
      let gap = segment_gap (item_key it) a;
          pinned_bound = (if declared \<noteq> None then None else pinned);
          data_len = length (yd_data decoded) in
      (case validated_write_offset (ei_segment_number it) decoded data_len declared pinned_bound of
         Inl reason \<Rightarrow> (Inl (place_error it declared gap (yd_part_begin decoded) data_len reason), (sizes', a))
       | Inr data_begin \<Rightarrow>
           (case assemble_article (en_io env) (item_key it) (ei_segment_number it) data_begin (yd_data decoded) a of
              (Inl e, a') \<Rightarrow>
                (Inl (AE_AssemblyError (''Assembly failed for '' @ ei_filename it @ '' seg '' @
                   show_u32 (ei_segment_number it) @ '': '' @ assembler_error_display env e)), (sizes', a'))
            | (Inr file_complete, a') \<Rightarrow>
                (Inr \<lparr>dr_decoded_bytes = data_len, dr_write_offset = data_begin, dr_file_complete = file_complete,
                      dr_yenc_filename = yd_filename decoded, dr_decode_us = en_decode_us env,
                      dr_assemble_us = en_assemble_us env\<rparr>, (sizes', a'))))))"

definition decode_and_assemble ::
  "engine_env \<Rightarrow> engine_item \<Rightarrow> bytes \<Rightarrow> decode_state \<Rightarrow> ((article_error + process_result) \<times> decode_state) option" where
  "decode_and_assemble env it raw st =
    (case en_decode env raw of
       None \<Rightarrow> None
     | Some (Inl e) \<Rightarrow>
         Some (Inl (AE_DecodeError (''yEnc decode failed for '' @ ei_filename it @ '' seg '' @
           show_u32 (ei_segment_number it) @ '': '' @ e)), st)
     | Some (Inr decoded) \<Rightarrow> Some (assemble_decoded env it decoded st))"

definition decode_and_assemble_offloaded ::
  "engine_env \<Rightarrow> engine_item \<Rightarrow> bytes \<Rightarrow> decode_state \<Rightarrow> (article_error + process_result) \<times> decode_state" where
  "decode_and_assemble_offloaded env it raw st =
    (case decode_and_assemble env it raw st of
       Some r \<Rightarrow> r
     | None \<Rightarrow>
         (Inl (AE_AssemblyError (''decode task failed for '' @ ei_filename it @ '' seg '' @
            show_u32 (ei_segment_number it) @ '': '' @ en_join_text env)), st))"

text \<open>The outcome of \<open>conn.fetch_article\<close> is an argument; \<open>cancelled\<close> is the flag read after it.\<close>

definition fetch_article_with_retry ::
  "engine_env \<Rightarrow> engine_item \<Rightarrow> bool \<Rightarrow> nntp_error + bytes \<Rightarrow> decode_state
    \<Rightarrow> (article_error + process_result) \<times> decode_state" where
  "fetch_article_with_retry env it cancelled reply st =
    (case reply of
       Inr raw \<Rightarrow>
         if cancelled then (Inl AE_Cancelled, st) else decode_and_assemble_offloaded env it raw st
     | Inl e \<Rightarrow> (Inl (classify_fetch_error (ei_tries_on_current it + 1) e), st))"

end
