(* ===== verification/Engine_Decode_Proofs.thy ===== *)
theory Engine_Decode_Proofs
  imports Engine_Decode Assembler_Proofs
begin

text \<open>
  Where a decoded article may land: the bound on the write, what a rejected article leaves behind,
  and which rejections are final.
\<close>

lemma validated_write_offset_Inr:
  "validated_write_offset seg dec len declared pinned = Inr b \<longleftrightarrow>
    (yd_part_begin dec = Some b \<or> yd_part_begin dec = None \<and> seg \<le> 1 \<and> b = 0) \<and>
    (case or_else declared pinned of
       None \<Rightarrow> seg \<le> 1
     | Some s \<Rightarrow> b < s \<and> b + len \<le> s \<and> b + len \<le> u64_max \<and>
         (yd_part_end dec = None \<or> yd_part_end dec = Some (b + len)))"
  by (cases "or_else declared pinned"; cases "yd_part_begin dec"; cases "yd_part_end dec")
    (auto simp: validated_write_offset_def check_bound_def Let_def)

text \<open>The bound handed to the check is the first size in the record after the call.\<close>

lemma pin_size_first:
  assumes "pin_size f fs (Some m) = (p, sizes')"
  shows "\<exists>m'. sizes' = Some m' \<and> p = map_option fst (map_of m' f) \<and>
    (\<forall>v. map_of m f = Some v \<longrightarrow> map_option fst (map_of m' f) = Some (fst v)) \<and>
    (\<forall>g. g \<noteq> f \<longrightarrow> map_of m' g = map_of m g)"
proof (cases fs)
  case None
  with assms show ?thesis by (auto simp: pin_size_def)
next
  case (Some s)
  show ?thesis
  proof (cases "map_of m f")
    case None
    with assms Some show ?thesis by (auto simp: pin_size_def update_conv')
  next
    case (Some v)
    obtain a lo hi lg where v: "v = (a, lo, hi, lg)" by (cases v)
    have "sizes' = Some m \<or> sizes' = Some (AList.update f (a, min lo s, max hi s, lg \<or> s < lo \<or> hi < s) m)"
      and "p = Some a"
      using assms \<open>fs = Some s\<close> Some v by (auto simp: pin_size_def Let_def)
    then show ?thesis using Some v by (auto simp: update_conv')
  qed
qed

lemma length_pwrite_le:
  assumes "off + length d \<le> cap"
  shows "length (pwrite d off c) \<le> max (length c) cap"
  using assms by (auto simp: pwrite_def)

lemma assemble_article_disk:
  assumes "assemble_article io key seg b d a = (r, a')" "map_of (asm_files a) key = Some s"
    and "asm_disk a (as_path s) = Some c"
  shows "asm_disk a' = asm_disk a \<or>
    (\<exists>n. asm_disk a' = (asm_disk a)(as_path s \<mapsto> pwrite (take n d) b c))"
proof -
  have t: "d = take (length d) d" by simp
  show ?thesis
    using assms
    by (auto simp: assemble_article_def disk_write_def split: option.splits prod.splits)
      (metis t)
qed

lemma decode_and_assemble_split:
  assumes "decode_and_assemble_offloaded env it raw st = (r, st')"
  obtains (rejected) m where "st' = st" "r = Inl (AE_DecodeError m) \<or> r = Inl (AE_AssemblyError m)"
  | (decoded) dec where "en_decode env raw = Some (Inr dec)" "assemble_decoded env it dec st = (r, st')"
  using assms
  by (auto simp: decode_and_assemble_offloaded_def decode_and_assemble_def split: option.splits sum.splits)

text \<open>C6. The bytes of an article stay inside the bound of its file, the size the NZB declares or, without
  one, the first \<open>=ybegin size=\<close> recorded, whatever the decoder and the system calls answer; no other
  file of the job changes.\<close>

theorem decoded_bytes_stay_in_bound:
  assumes "decode_and_assemble_offloaded env it raw (Some sizes, a) = (r, sizes', a')"
    and "map_of (asm_files a) (item_key it) = Some s"
    and "asm_disk a (as_path s) = Some c"
    and "or_else (as_declared s) (map_option fst (Option.bind sizes' (\<lambda>m. map_of m (ei_file_id it)))) = Some cap"
  shows "\<exists>c'. asm_disk a' = (asm_disk a)(as_path s \<mapsto> c') \<and> length c' \<le> max (length c) cap"
  using assms(1)
proof (cases rule: decode_and_assemble_split)
  case (rejected m)
  then show ?thesis using assms(3) by (intro exI [of _ c]) (auto simp: fun_upd_idem)
next
  case (decoded dec)
  obtain p sz where pin: "pin_size (ei_file_id it) (yd_file_size dec) (Some sizes) = (p, sz)"
    by (cases "pin_size (ei_file_id it) (yd_file_size dec) (Some sizes)")
  obtain m' where m': "sz = Some m'" "p = map_option fst (map_of m' (ei_file_id it))"
    using pin_size_first [OF pin] by blast
  define len where "len = length (yd_data dec)"
  define off where "off = validated_write_offset (ei_segment_number it) dec len (as_declared s)
    (if as_declared s \<noteq> None then None else p)"
  have d: "declared_bytes (item_key it) a = as_declared s" using assms(2) by (simp add: declared_bytes_def)
  show ?thesis
  proof (cases off)
    case (Inl reason)
    then have "a' = a"
      using decoded(2) pin d by (auto simp: assemble_decoded_def Let_def off_def len_def split: if_splits)
    then show ?thesis using assms(3) by (intro exI [of _ c]) (auto simp: fun_upd_idem)
  next
    case (Inr b)
    obtain r1 a1 where asm: "assemble_article (en_io env) (item_key it) (ei_segment_number it) b (yd_data dec) a = (r1, a1)"
      by (cases "assemble_article (en_io env) (item_key it) (ei_segment_number it) b (yd_data dec) a")
    have a': "a' = a1" "sizes' = sz"
      using decoded(2) pin d Inr asm
      by (auto simp: assemble_decoded_def Let_def off_def len_def split: if_splits sum.splits)
    have "or_else (as_declared s) (if as_declared s \<noteq> None then None else p) = Some cap"
      using assms(4) m' a'(2) by (auto simp: or_else_def split: option.splits)
    then have fit: "b + len \<le> cap"
      using Inr unfolding off_def validated_write_offset_Inr by simp
    from assemble_article_disk [OF asm assms(2,3)] show ?thesis
    proof
      assume "asm_disk a1 = asm_disk a"
      then show ?thesis using assms(3) a' by (intro exI [of _ c]) (auto simp: fun_upd_idem)
    next
      assume "\<exists>n. asm_disk a1 = (asm_disk a)(as_path s \<mapsto> pwrite (take n (yd_data dec)) b c)"
      then obtain n where n: "asm_disk a1 = (asm_disk a)(as_path s \<mapsto> pwrite (take n (yd_data dec)) b c)" ..
      have "length (pwrite (take n (yd_data dec)) b c) \<le> max (length c) cap"
        using fit by (intro length_pwrite_le) (simp add: len_def)
      then show ?thesis using n a' by auto
    qed
  qed
qed

text \<open>An article whose rejection is final (\<open>IncompleteNzb\<close>) belongs to a file with left-out segments,
  its header claims bytes past the registered cap, and nothing was written.\<close>

theorem final_rejection_needs_gap:
  assumes "decode_and_assemble_offloaded env it raw (sizes, a) = (Inl (AE_IncompleteNzb m), sizes', a')"
  shows "a' = a \<and>
    (\<exists>dec cap b. en_decode env raw = Some (Inr dec) \<and> segment_gap (item_key it) a \<noteq> None \<and>
      declared_bytes (item_key it) a = Some cap \<and> yd_part_begin dec = Some b \<and>
      (cap \<le> b \<or> cap < min (b + length (yd_data dec)) u64_max))"
  using assms
proof (cases rule: decode_and_assemble_split)
  case (rejected m')
  then show ?thesis by auto
next
  case (decoded dec)
  then show ?thesis
    by (auto simp: assemble_decoded_def place_error_def past_cap_def Let_def
        split: prod.splits sum.splits option.splits if_splits)
qed

text \<open>The first segment of a file has no bound at all when neither the NZB nor an article gave a
  size: a single article puts its bytes at whatever offset its \<open>=ypart begin\<close> names, and the file grows
  to that offset.\<close>

theorem first_segment_unbounded:
  assumes "en_decode env raw = Some (Inr dec)" "yd_part_begin dec = Some b" "yd_file_size dec = None"
    and "yd_data dec \<noteq> []"
    and "map_of (asm_files a) (item_key it) = Some s" "as_declared s = None"
    and "map_of sizes (ei_file_id it) = None" "ei_segment_number it = 1" "index_of 1 s \<noteq> None"
    and "io_write (en_io env) (as_path s) b (yd_data dec) = None"
  shows "case decode_and_assemble_offloaded env it raw (Some sizes, a) of (r, _, a') \<Rightarrow>
    (case r of Inr res \<Rightarrow> dr_write_offset res = b | Inl _ \<Rightarrow> False) \<and>
    (case asm_disk a' (as_path s) of Some c \<Rightarrow> b + length (yd_data dec) \<le> length c | None \<Rightarrow> False)"
proof -
  have "pin_size (ei_file_id it) (yd_file_size dec) (Some sizes) = (None, Some sizes)"
    using assms(3,7) by (simp add: pin_size_def)
  moreover have "validated_write_offset (ei_segment_number it) dec (length (yd_data dec)) None None = Inr b"
    using assms(2,8) by (simp add: validated_write_offset_Inr or_else_def)
  moreover have "declared_bytes (item_key it) a = None" using assms(5,6) by (simp add: declared_bytes_def)
  moreover have "check_article 1 b (yd_data dec) s = None" using assms(4,6,9) by (simp add: check_article_def)
  ultimately show ?thesis
    using assms(1,5,8,10)
    by (simp add: decode_and_assemble_offloaded_def decode_and_assemble_def assemble_decoded_def Let_def
        assemble_article_def disk_write_def length_pwrite split: prod.splits)
qed

section \<open>Witnesses\<close>

definition dec_env :: engine_env where
  "dec_env =
    \<lparr>en_tracker = \<lparr>te_parse = \<lambda>_. None, te_read = \<lambda>_ _ _. None,
        te_hashes = \<lparr>hash_md5 = \<lambda>b. b, hash_crc32 = \<lambda>_. 0\<rparr>\<rparr>,
     en_decode = \<lambda>raw. Some (if raw = [] then Inl ''empty''
        else Inr \<lparr>yd_data = tl raw, yd_filename = None, yd_file_size = None,
          yd_part_begin = Some (unat (hd raw)), yd_part_end = None\<rparr>),
     en_io = \<lparr>io_open = \<lambda>_. True, io_write = \<lambda>_ _ _. None\<rparr>,
     en_io_text = [], en_join_text = [], en_rename = \<lambda>_ _. True, en_nfc = id, en_now = 0,
     en_decode_us = 0, en_assemble_us = 0\<rparr>"

definition dec_item :: "byte_string \<Rightarrow> byte_string \<Rightarrow> u32 \<Rightarrow> engine_item" where
  "dec_item job file seg =
    \<lparr>ei_job_id = job, ei_file_id = file, ei_filename = ''a.rar'', ei_message_id = ''m'',
     ei_segment_number = seg, ei_tried_servers = [], ei_provider_outcomes = [],
     ei_tries_on_current = 0, ei_outage_tries = 0, ei_confirm_rounds = 0\<rparr>"

definition demo_files :: "u32 list option \<Rightarrow> u32 \<Rightarrow> nat option \<Rightarrow> assembler" where
  "demo_files numbers tot declared =
    \<lparr>asm_files = [((''j'', ''f''), file_state_new ''w/f'' numbers tot [] declared)], asm_disk = [''w/f'' \<mapsto> []]\<rparr>"

lemma demo_files_lookup:
  "map_of (asm_files (demo_files numbers tot declared)) (item_key (dec_item ''j'' ''f'' seg)) =
    Some (file_state_new ''w/f'' numbers tot [] declared)"
  by (simp add: demo_files_def item_key_def dec_item_def)

lemma demo_file_fields:
  "as_path (file_state_new p numbers tot [] declared) = p"
  "as_declared (file_state_new p numbers tot [] declared) = declared"
  "as_numbers (file_state_new p numbers tot [] declared) = numbers"
  "as_total (file_state_new p numbers tot [] declared) = tot"
  by (simp_all add: file_state_new_def)

lemmas demo_decode_simps =
  decode_and_assemble_offloaded_def decode_and_assemble_def assemble_decoded_def Let_def dec_env_def
  pin_size_def validated_write_offset_def check_bound_def or_else_def assemble_article_def
  check_article_def article_end_def u64_max_def item_key_def dec_item_def demo_files_def
  declared_bytes_def demo_file_fields index_of_def asm_mark_written_def swap_flag_def add_count_def
  disk_write_def pwrite_def segment_gap_def place_error_def past_cap_def

lemma demo_decode_2:
  "fst (decode_and_assemble_offloaded dec_env (dec_item ''j'' ''f'' 2) [4, 1, 2] (Some [], demo_files None 2 (Some 6))) =
    Inr \<lparr>dr_decoded_bytes = 2, dr_write_offset = 4, dr_file_complete = False, dr_yenc_filename = None,
      dr_decode_us = 0, dr_assemble_us = 0\<rparr>"
  by (simp add: demo_decode_simps) (simp add: file_state_new_def)

lemma demo_decode_gap:
  "case decode_and_assemble_offloaded dec_env (dec_item ''j'' ''f'' 5) [9, 1] (Some [], demo_files (Some [1, 5]) 2 (Some 6)) of
     (Inl (AE_IncompleteNzb m), _) \<Rightarrow> True | _ \<Rightarrow> False"
  by (simp add: demo_decode_simps)

theorem decoded_bytes_stay_in_bound_witness:
  "case decode_and_assemble_offloaded dec_env (dec_item ''j'' ''f'' 2) [4, 1, 2] (Some [], demo_files None 2 (Some 6)) of
    (r, sizes', a') \<Rightarrow> r = Inr \<lparr>dr_decoded_bytes = 2, dr_write_offset = 4, dr_file_complete = False,
        dr_yenc_filename = None, dr_decode_us = 0, dr_assemble_us = 0\<rparr> \<and>
      (case asm_disk a' ''w/f'' of Some c \<Rightarrow> length c \<le> 6 | None \<Rightarrow> False)"
proof -
  obtain r sizes' a' where e: "decode_and_assemble_offloaded dec_env (dec_item ''j'' ''f'' 2) [4, 1, 2]
      (Some [], demo_files None 2 (Some 6)) = (r, sizes', a')"
    by (metis prod_cases3)
  have "\<exists>c'. asm_disk a' = (asm_disk (demo_files None 2 (Some 6)))(''w/f'' \<mapsto> c') \<and>
      length c' \<le> max (length ([] :: bytes)) 6"
    using decoded_bytes_stay_in_bound [OF e demo_files_lookup, of "[]" 6]
    by (simp add: demo_file_fields) (simp add: demo_files_def or_else_def)
  then show ?thesis using e demo_decode_2 by auto
qed

theorem final_rejection_needs_gap_witness:
  "case decode_and_assemble_offloaded dec_env (dec_item ''j'' ''f'' 5) [9, 1] (Some [], demo_files (Some [1, 5]) 2 (Some 6)) of
    (Inl (AE_IncompleteNzb m), _, a') \<Rightarrow> a' = demo_files (Some [1, 5]) 2 (Some 6)
  | _ \<Rightarrow> False"
proof -
  obtain m sizes' a' where e: "decode_and_assemble_offloaded dec_env (dec_item ''j'' ''f'' 5) [9, 1]
      (Some [], demo_files (Some [1, 5]) 2 (Some 6)) = (Inl (AE_IncompleteNzb m), sizes', a')"
    using demo_decode_gap by (auto split: prod.splits sum.splits article_error.splits)
  then show ?thesis using final_rejection_needs_gap [OF e] by simp
qed

theorem first_segment_unbounded_witness:
  "case decode_and_assemble_offloaded dec_env (dec_item ''j'' ''f'' 1) [200, 1, 2] (Some [], demo_files None 1 None) of
    (r, _, a') \<Rightarrow> case asm_disk a' ''w/f'' of Some c \<Rightarrow> 202 \<le> length c | None \<Rightarrow> False"
proof -
  have "case decode_and_assemble_offloaded dec_env (dec_item ''j'' ''f'' 1) [200, 1, 2]
      (Some [], demo_files None 1 None) of (r, _, a') \<Rightarrow>
        (case r of Inr res \<Rightarrow> dr_write_offset res = 200 | Inl _ \<Rightarrow> False) \<and>
        (case asm_disk a' (as_path (file_state_new ''w/f'' None 1 [] None)) of
           Some c \<Rightarrow> 200 + length [1 :: u8, 2] \<le> length c | None \<Rightarrow> False)"
    by (rule first_segment_unbounded [where s = "file_state_new ''w/f'' None 1 [] None" and
          dec = "\<lparr>yd_data = [1, 2], yd_filename = None, yd_file_size = None, yd_part_begin = Some 200,
            yd_part_end = None\<rparr>", simplified yenc_decoded.simps])
      (simp_all add: dec_env_def demo_files_lookup demo_file_fields dec_item_def demo_files_def item_key_def index_of_def)
  then show ?thesis by (auto simp: demo_file_fields split: option.splits)
qed

end
