(* ===== verification/Engine_Held.thy ===== *)
theory Engine_Held
  imports Engine_Queue
begin

text \<open>
  Recovery volumes held back from the queue, \<open>crates/nzb-dispatch/src/held_volumes.rs\<close>.  The queue
  they are released to is the pool's one queue; \<open>hd_queue\<close> says whether \<open>hold\<close> has stored it.  Volumes
  of one first exponent come out of a hash map in any order; here they keep the order in which the
  items named them.
\<close>

definition REPAIR_MARGIN :: nat where "REPAIR_MARGIN = 8"

record held_volume =
  hv_file_id :: byte_string
  hv_first_exponent :: u32
  hv_blocks :: u32
  hv_items :: "engine_item list"

record held_volumes =
  hd_held :: "held_volume list"
  hd_released_blocks :: nat
  hd_queue :: bool

definition held_default :: held_volumes where
  "held_default = \<lparr>hd_held = [], hd_released_blocks = 0, hd_queue = False\<rparr>"

type_synonym volume_map = "(byte_string \<times> u32 \<times> u32) list"

definition push_volume ::
  "byte_string \<Rightarrow> u32 \<times> u32 \<Rightarrow> engine_item \<Rightarrow> (byte_string \<times> held_volume) list \<Rightarrow> (byte_string \<times> held_volume) list" where
  "push_volume f vol it by_file =
    (let v = (case map_of by_file f of
                Some v \<Rightarrow> v
              | None \<Rightarrow> \<lparr>hv_file_id = f, hv_first_exponent = fst vol, hv_blocks = snd vol, hv_items = []\<rparr>)
     in AList.update f (v\<lparr>hv_items := hv_items v @ [it]\<rparr>) by_file)"

fun split_volumes ::
  "volume_map \<Rightarrow> engine_item list \<Rightarrow> (byte_string \<times> held_volume) list \<Rightarrow> engine_item list
    \<Rightarrow> (byte_string \<times> held_volume) list \<times> engine_item list" where
  "split_volumes volumes [] by_file now = (by_file, now)"
| "split_volumes volumes (it # its) by_file now =
    (case map_of volumes (ei_file_id it) of
       Some vol \<Rightarrow> split_volumes volumes its (push_volume (ei_file_id it) vol it by_file) now
     | None \<Rightarrow> split_volumes volumes its by_file (now @ [it]))"

definition hold :: "engine_item list \<Rightarrow> volume_map \<Rightarrow> held_volumes \<Rightarrow> engine_item list \<times> held_volumes" where
  "hold items volumes h =
    (case split_volumes volumes items [] [] of
       (by_file, now) \<Rightarrow>
         (now, h\<lparr>hd_held := sort_key (\<lambda>v. unat (hv_first_exponent v)) (map snd by_file), hd_queue := True\<rparr>))"

definition held_is_empty :: "held_volumes \<Rightarrow> bool" where
  "held_is_empty h \<longleftrightarrow> hd_held h = []"

text \<open>The loop of \<open>release_for\<close>.\<close>

fun release_loop ::
  "nat \<Rightarrow> held_volume list \<Rightarrow> nat \<Rightarrow> engine_item list \<Rightarrow> engine_item list \<times> held_volume list \<times> nat" where
  "release_loop need [] blocks items = (items, [], blocks)"
| "release_loop need (v # vs) blocks items =
    (if blocks < need then release_loop need vs (blocks + unat (hv_blocks v)) (items @ hv_items v)
     else (items, v # vs, blocks))"

definition release_for :: "nat \<Rightarrow> held_volumes \<Rightarrow> engine_item list option \<times> held_volumes" where
  "release_for need h =
    (case release_loop need (hd_held h) (hd_released_blocks h) [] of
       (items, held, blocks) \<Rightarrow>
         let h' = h\<lparr>hd_held := held, hd_released_blocks := blocks\<rparr> in
         (if items = [] then None else if hd_queue h then Some items else None, h'))"

definition usize_max :: nat where "usize_max = 2 ^ 64 - 1"

definition release_all :: "held_volumes \<Rightarrow> engine_item list option \<times> held_volumes" where
  "release_all h = release_for usize_max h"

definition held_file_ids :: "held_volumes \<Rightarrow> byte_string list" where
  "held_file_ids h = map hv_file_id (hd_held h)"

definition total_blocks :: "held_volumes \<Rightarrow> nat" where
  "total_blocks h = hd_released_blocks h + sum_list (map (\<lambda>v. unat (hv_blocks v)) (hd_held h))"

end
