(* ===== verification/Engine_Job.thy ===== *)
theory Engine_Job
  imports Engine_Held Engine_Decode Engine_Names
begin

text \<open>
  The per-job context of \<open>download_engine.rs\<close>: construction from a job, the outage notices, the
  pause clock, the count of unresolved articles, the release of held recovery volumes and the
  terminal message.  One call runs without another worker in between; the operations that reach the
  shared queue take and return it.  The repair fold, the tracing span and the log lines are left out.
\<close>

section \<open>State\<close>

text \<open>\<open>jc_assembler\<close> carries the disk; \<open>jc_remaining\<close> is the \<open>usize\<close> counter of unresolved articles.\<close>

record job_context =
  jc_job_id :: byte_string
  jc_work_dir :: path
  jc_assembler :: assembler
  jc_channel :: progress_channel
  jc_yenc_names :: "(byte_string \<times> byte_string) list"
  jc_nzb_filenames :: "(byte_string \<times> byte_string) list"
  jc_remaining :: nat
  jc_failed :: nat
  jc_paused :: bool
  jc_cancelled :: bool
  jc_abort_reason :: "byte_string option"
  jc_decode_us :: nat
  jc_assemble_us :: nat
  jc_decoded :: nat
  jc_engine_start :: millis
  jc_active_started :: "millis option"
  jc_active_elapsed :: millis
  jc_total_bytes :: nat
  jc_pinned_sizes :: pinned_sizes
  jc_incomplete_nzb :: "byte_string option"
  jc_finished :: bool
  jc_waiting_reported :: bool
  jc_slices :: job_slices
  jc_par2_volumes :: volume_map
  jc_held :: held_volumes

text \<open>\<open>fetch_sub\<close> on a \<open>usize\<close> wraps below zero.\<close>

definition usize_sub :: "nat \<Rightarrow> nat \<Rightarrow> nat" where
  "usize_sub a b = (if b \<le> a then a - b else 2 ^ 64 - (b - a))"

section \<open>Construction\<close>

definition nzb_segment_gap :: "u32 list \<Rightarrow> (u32 \<times> u32) option" where
  "nzb_segment_gap segment_numbers =
    (let numbers = remdups_adj (sort (filter (\<lambda>n. n \<noteq> 0) segment_numbers));
         listed = word_of_nat (length numbers) in
     if numbers = [] then None
     else if last numbers \<noteq> listed then Some (listed, last numbers) else None)"

definition INCOMPLETE_NZB_MAX_SPREAD :: u32 where "INCOMPLETE_NZB_MAX_SPREAD = 2"

definition incomplete_nzb_size_cap :: "u32 \<Rightarrow> u32 \<Rightarrow> nat \<Rightarrow> nat" where
  "incomplete_nzb_size_cap listed highest_segment largest_segment_bytes =
    (let counted = min highest_segment (sat_mul listed INCOMPLETE_NZB_MAX_SPREAD);
         raw = min (unat counted * largest_segment_bytes) u64_max
     in min (raw + raw div 10) u64_max)"

definition file_segment_numbers :: "job_file \<Rightarrow> u32 list" where
  "file_segment_numbers f = map na_segment_number (jf_articles f)"

definition incomplete_nzb_reason :: "nzb_job \<Rightarrow> byte_string option" where
  "incomplete_nzb_reason job =
    (let gaps = List.map_filter (\<lambda>f. map_option (\<lambda>(listed, highest).
           jf_filename f @ '' ('' @ show_u32 listed @ '' of '' @ show_u32 highest @ '')'')
           (nzb_segment_gap (file_segment_numbers f))) (nj_files job)
     in if gaps = [] then None
        else Some (''Incomplete NZB: segments missing from the NZB for '' @ join_strings '', '' gaps))"

text \<open>The loop over the volumes; one without exponent or block count turns deferral off.\<close>

fun collect_volumes :: "job_file list \<Rightarrow> volume_map \<Rightarrow> volume_map" where
  "collect_volumes [] volumes = volumes"
| "collect_volumes (f # fs) volumes =
    (if par2_sort_key (jf_filename f) \<noteq> 1 then collect_volumes fs volumes
     else (case (jf_par2_vol f, jf_par2_blocks f) of
             (Some vol, Some blocks) \<Rightarrow> collect_volumes fs (AList.update (jf_id f) (vol, blocks) volumes)
           | _ \<Rightarrow> []))"

definition deferrable_volumes :: "nzb_job \<Rightarrow> volume_map" where
  "deferrable_volumes job =
    (if \<not> list_ex (\<lambda>f. is_par2_index (jf_filename f)) (nj_files job) then []
     else collect_volumes (nj_files job) [])"

definition job_context_new :: "engine_env \<Rightarrow> nzb_job \<Rightarrow> assembler \<Rightarrow> progress_channel \<Rightarrow> nat \<Rightarrow> job_context" where
  "job_context_new env job a ch total_articles =
    \<lparr>jc_job_id = nj_id job, jc_work_dir = nj_work_dir job, jc_assembler = a, jc_channel = ch,
     jc_yenc_names = [], jc_nzb_filenames = collect_map (map (\<lambda>f. (jf_id f, jf_filename f)) (nj_files job)),
     jc_remaining = total_articles, jc_failed = 0, jc_paused = False, jc_cancelled = False,
     jc_abort_reason = None, jc_decode_us = 0, jc_assemble_us = 0, jc_decoded = 0,
     jc_engine_start = en_now env, jc_active_started = Some (en_now env), jc_active_elapsed = 0,
     jc_total_bytes = nj_total_bytes job, jc_pinned_sizes = [],
     jc_incomplete_nzb = incomplete_nzb_reason job, jc_finished = False, jc_waiting_reported = False,
     jc_slices = job_slices_new job, jc_par2_volumes = deferrable_volumes job, jc_held = held_default\<rparr>"

section \<open>Building a submission\<close>

definition file_declared_bytes :: "job_file \<Rightarrow> nat option" where
  "file_declared_bytes f =
    (let all_sized = list_all (\<lambda>a. 0 < na_bytes a) (jf_articles f) in
     case nzb_segment_gap (file_segment_numbers f) of
       Some (listed, highest) \<Rightarrow>
         if all_sized
         then Some (incomplete_nzb_size_cap listed highest (fold max (map na_bytes (jf_articles f)) 0))
         else None
     | None \<Rightarrow> if all_sized then Some (jf_bytes f) else None)"

definition register_job_file :: "engine_env \<Rightarrow> nzb_job \<Rightarrow> job_file \<Rightarrow> assembler \<Rightarrow> assembler" where
  "register_job_file env job f a =
    snd (register_file_with_segment_numbers (en_io env) (nj_id job, jf_id f)
      (path_join (nj_work_dir job) (jf_filename f)) (file_segment_numbers f)
      (map na_segment_number (filter na_downloaded (jf_articles f))) (file_declared_bytes f) a)"

definition is_previously_failed :: "server_id list \<Rightarrow> nzb_article \<Rightarrow> bool" where
  "is_previously_failed enabled art \<longleftrightarrow>
    \<not> na_downloaded art \<and> enabled \<noteq> [] \<and> list_all (\<lambda>s. list_ex (\<lambda>t. t = s) (na_tried_servers art)) enabled"

definition article_item :: "nzb_job \<Rightarrow> job_file \<Rightarrow> nzb_article \<Rightarrow> engine_item" where
  "article_item job f art =
    \<lparr>ei_job_id = nj_id job, ei_file_id = jf_id f, ei_filename = jf_filename f,
     ei_message_id = na_message_id art, ei_segment_number = na_segment_number art,
     ei_tried_servers = na_tried_servers art, ei_provider_outcomes = [],
     ei_tries_on_current = 0, ei_outage_tries = 0, ei_confirm_rounds = 0\<rparr>"

definition job_work_items :: "nzb_job \<Rightarrow> server_id list \<Rightarrow> engine_item list" where
  "job_work_items job enabled =
    concat (map (\<lambda>f. map (article_item job f)
      (filter (\<lambda>art. \<not> na_downloaded art \<and> \<not> is_previously_failed enabled art) (jf_articles f))) (nj_files job))"

definition build_job_submission ::
  "engine_env \<Rightarrow> nzb_job \<Rightarrow> progress_channel \<Rightarrow> server_id list \<Rightarrow> disk \<Rightarrow> job_context \<times> engine_item list" where
  "build_job_submission env job ch enabled disk =
    (let a = fold (register_job_file env job) (nj_files job) (asm_new disk);
         previously_failed = length (filter (is_previously_failed enabled) (concat (map jf_articles (nj_files job))));
         work_items = job_work_items job enabled;
         ctx = job_context_new env job a ch (length work_items)
     in (ctx\<lparr>jc_failed := previously_failed\<rparr>, work_items))"

section \<open>Notices and the clock\<close>

definition send_to_job :: "progress_update \<Rightarrow> job_context \<Rightarrow> job_context" where
  "send_to_job u ctx = ctx\<lparr>jc_channel := try_send_progress u (jc_channel ctx)\<rparr>"

definition report_waiting_for_providers :: "byte_string \<Rightarrow> job_context \<Rightarrow> job_context" where
  "report_waiting_for_providers msg ctx =
    (if jc_waiting_reported ctx then ctx
     else send_to_job (WaitingForProviders (jc_job_id ctx) msg) (ctx\<lparr>jc_waiting_reported := True\<rparr>))"

definition report_providers_available :: "job_context \<Rightarrow> job_context" where
  "report_providers_available ctx =
    (if jc_waiting_reported ctx
     then send_to_job (ProvidersAvailable (jc_job_id ctx)) (ctx\<lparr>jc_waiting_reported := False\<rparr>)
     else ctx)"

definition pause_clock :: "millis \<Rightarrow> job_context \<Rightarrow> job_context" where
  "pause_clock now ctx =
    (case jc_active_started ctx of
       None \<Rightarrow> ctx
     | Some t \<Rightarrow> ctx\<lparr>jc_active_started := None, jc_active_elapsed := jc_active_elapsed ctx + (now - t)\<rparr>)"

definition resume_clock :: "millis \<Rightarrow> job_context \<Rightarrow> job_context" where
  "resume_clock now ctx =
    (if jc_active_started ctx = None then ctx\<lparr>jc_active_started := Some now\<rparr> else ctx)"

definition active_elapsed :: "millis \<Rightarrow> job_context \<Rightarrow> millis" where
  "active_elapsed now ctx =
    jc_active_elapsed ctx + (case jc_active_started ctx of None \<Rightarrow> 0 | Some t \<Rightarrow> now - t)"

text \<open>The attempts reported to the damage ledger: \<open>send_outcome\<close>, \<open>transport\<close> and \<open>refused\<close>.\<close>

definition send_attempt :: "engine_item \<Rightarrow> attempt_outcome \<Rightarrow> job_context \<Rightarrow> job_context" where
  "send_attempt it outcome ctx =
    send_to_job (ArticleOutcome (ei_job_id it) (ei_file_id it) (ei_segment_number it) (ei_message_id it) outcome) ctx"

definition transport_attempt :: "server_config \<Rightarrow> attempt_outcome" where
  "transport_attempt server = Transport (sc_id server)"

definition refused_attempt :: "server_config \<Rightarrow> attempt_outcome" where
  "refused_attempt server = Refused (sc_id server)"

section \<open>The end of a job\<close>

definition deobfuscate_files :: "engine_env \<Rightarrow> job_context \<Rightarrow> job_context" where
  "deobfuscate_files env ctx =
    ctx\<lparr>jc_assembler := (jc_assembler ctx)\<lparr>asm_disk :=
      deobfuscate_disk (en_rename env) (jc_work_dir ctx) (jc_nzb_filenames ctx) (jc_yenc_names ctx)
        (asm_disk (jc_assembler ctx))\<rparr>\<rparr>"

definition emit_terminal :: "engine_env \<Rightarrow> job_context \<Rightarrow> job_context" where
  "emit_terminal env ctx =
    (if jc_finished ctx then ctx
     else
       let ctx1 = deobfuscate_files env (ctx\<lparr>jc_finished := True\<rparr>);
           elapsed = active_elapsed (en_now env) ctx1
       in (case jc_abort_reason ctx1 of
             Some reason \<Rightarrow> send_to_job (JobAborted (jc_job_id ctx1) reason (jc_failed ctx1) elapsed) ctx1
           | None \<Rightarrow>
               (case tracker_summary (jc_slices ctx1) of
                  (slice_map, js) \<Rightarrow>
                    send_to_job
                      (JobFinished (jc_job_id ctx1) (jc_failed ctx1 = 0 \<and> jc_incomplete_nzb ctx1 = None)
                        (jc_failed ctx1) elapsed slice_map (jc_incomplete_nzb ctx1))
                      (ctx1\<lparr>jc_slices := js\<rparr>))))"

text \<open>What \<open>release_held\<close> asks of the held volumes; the summary decides slices as a side effect.\<close>

definition wanted_volumes :: "bool \<Rightarrow> job_context \<Rightarrow> engine_item list option \<times> job_context" where
  "wanted_volumes at_data_end ctx =
    (if at_data_end
     then (case tracker_summary (jc_slices ctx) of
             (Some sm, js) \<Rightarrow>
               let damage = sm_damaged sm + sm_unknown sm in
               if damage = 0 then (None, ctx\<lparr>jc_slices := js\<rparr>)
               else (case release_for (damage + REPAIR_MARGIN) (jc_held ctx) of
                       (items, h) \<Rightarrow> (items, ctx\<lparr>jc_slices := js, jc_held := h\<rparr>))
           | (None, js) \<Rightarrow>
               (case release_all (jc_held ctx) of (items, h) \<Rightarrow> (items, ctx\<lparr>jc_slices := js, jc_held := h\<rparr>)))
     else
       let damage = damage_hint (jc_slices ctx) in
       if damage = 0 then (None, ctx)
       else (case release_for (damage + REPAIR_MARGIN) (jc_held ctx) of
               (items, h) \<Rightarrow> (items, ctx\<lparr>jc_held := h\<rparr>)))"

definition release_held :: "bool \<Rightarrow> job_context \<Rightarrow> queue_state \<Rightarrow> bool \<times> job_context \<times> queue_state" where
  "release_held at_data_end ctx q =
    (if held_is_empty (jc_held ctx) \<or> jc_cancelled ctx \<or> jc_abort_reason ctx \<noteq> None then (False, ctx, q)
     else (case wanted_volumes at_data_end ctx of
             (None, ctx') \<Rightarrow> (False, ctx', q)
           | (Some items, ctx') \<Rightarrow>
               (True, ctx'\<lparr>jc_remaining := jc_remaining ctx' + length items\<rparr>, submit_items items q)))"

definition resolve_one :: "engine_env \<Rightarrow> job_context \<Rightarrow> queue_state \<Rightarrow> job_context \<times> queue_state" where
  "resolve_one env ctx q =
    (case release_held False ctx q of
       (_, ctx1, q1) \<Rightarrow>
         let prev = jc_remaining ctx1;
             ctx2 = ctx1\<lparr>jc_remaining := usize_sub prev 1\<rparr>
         in if prev \<noteq> 1 then (ctx2, q1)
            else (case release_held True ctx2 q1 of
                    (True, ctx3, q3) \<Rightarrow> (ctx3, q3)
                  | (False, ctx3, q3) \<Rightarrow> (emit_terminal env ctx3, q3)))"

end
