(* ===== verification/Engine_Pool.thy ===== *)
theory Engine_Pool
  imports Engine_Job
begin

text \<open>
  The worker pool of \<open>download_engine.rs\<close> on the state its workers share: the queue, the health
  map, the registered job contexts, the articles asleep before a confirm round.  Contexts are
  reference counted, so they live in a heap and are named by their position; a worker may hold one
  that is no longer registered.  A handler runs without another worker in between.
\<close>

section \<open>State\<close>

record pool =
  po_servers :: "server_config list"
  po_health :: health_map
  po_queue :: queue_state
  po_delayed :: "engine_item list"
  po_jobs :: "(byte_string \<times> nat) list"
  po_ctxs :: "job_context list"
  po_defer :: bool

definition pool_new :: "server_config list \<Rightarrow> pool" where
  "pool_new servers =
    \<lparr>po_servers = servers, po_health = [], po_queue = shared_queue_new, po_delayed = [], po_jobs = [],
     po_ctxs = [], po_defer = True\<rparr>"

definition ctx_at :: "pool \<Rightarrow> nat \<Rightarrow> job_context" where
  "ctx_at po a = po_ctxs po ! a"

definition upd_ctx :: "nat \<Rightarrow> (job_context \<Rightarrow> job_context) \<Rightarrow> pool \<Rightarrow> pool" where
  "upd_ctx a f po = po\<lparr>po_ctxs := (po_ctxs po)[a := f (ctx_at po a)]\<rparr>"

definition upd_queue :: "(queue_state \<Rightarrow> queue_state) \<Rightarrow> pool \<Rightarrow> pool" where
  "upd_queue f po = po\<lparr>po_queue := f (po_queue po)\<rparr>"

text \<open>\<open>ctx.resolve_one()\<close>, which may submit held volumes to the shared queue.\<close>

definition resolve_at :: "engine_env \<Rightarrow> nat \<Rightarrow> pool \<Rightarrow> pool" where
  "resolve_at env a po =
    (case resolve_one env (ctx_at po a) (po_queue po) of
       (ctx, q) \<Rightarrow> po\<lparr>po_ctxs := (po_ctxs po)[a := ctx], po_queue := q\<rparr>)"

section \<open>Outage notices\<close>

definition for_jobs :: "(job_context \<Rightarrow> job_context) \<Rightarrow> pool \<Rightarrow> pool" where
  "for_jobs f po = fold (\<lambda>(_, a). upd_ctx a f) (po_jobs po) po"

definition report_provider_outage :: "engine_env \<Rightarrow> pool \<Rightarrow> pool" where
  "report_provider_outage env po =
    (case provider_unavailable_message (en_now env) (po_servers po) (po_health po) of
       None \<Rightarrow> po
     | Some msg \<Rightarrow> for_jobs (report_waiting_for_providers msg) po)"

definition pool_providers_available :: "pool \<Rightarrow> pool" where
  "pool_providers_available po = for_jobs report_providers_available po"

section \<open>Jobs\<close>

text \<open>\<open>submit_job\<close>; the context is already allocated at \<open>a\<close>.\<close>

definition submit_job :: "engine_env \<Rightarrow> nat \<Rightarrow> engine_item list \<Rightarrow> pool \<Rightarrow> pool" where
  "submit_job env a items po =
    (if items = [] then upd_ctx a (emit_terminal env) po
     else
       let po1 = po\<lparr>po_jobs := AList.update (jc_job_id (ctx_at po a)) a (po_jobs po)\<rparr>;
           (now, po2) =
             (if po_defer po1 \<and> jc_par2_volumes (ctx_at po1 a) \<noteq> []
              then (case hold items (jc_par2_volumes (ctx_at po1 a)) (jc_held (ctx_at po1 a)) of
                      (now, h) \<Rightarrow>
                        (now, upd_ctx a (\<lambda>ctx. ctx\<lparr>jc_held := h,
                           jc_remaining := usize_sub (jc_remaining ctx) (length items - length now)\<rparr>) po1))
              else (items, po1))
       in if now = []
          then (case release_held True (ctx_at po2 a) (po_queue po2) of
                  (released, ctx, q) \<Rightarrow>
                    po2\<lparr>po_ctxs := (po_ctxs po2)[a := if released then ctx else emit_terminal env ctx],
                        po_queue := q\<rparr>)
          else report_provider_outage env (upd_queue (submit_items now) po2))"

definition release_completed_job :: "byte_string \<Rightarrow> pool \<Rightarrow> pool" where
  "release_completed_job job po =
    (case map_of (po_jobs po) job of
       None \<Rightarrow> po
     | Some a \<Rightarrow>
         upd_ctx a (\<lambda>ctx. ctx\<lparr>jc_assembler := asm_clear_job job (jc_assembler ctx)\<rparr>)
           (po\<lparr>po_jobs := AList.delete job (po_jobs po)\<rparr>))"

definition pause_job :: "engine_env \<Rightarrow> byte_string \<Rightarrow> pool \<Rightarrow> pool" where
  "pause_job env job po =
    (case map_of (po_jobs po) job of
       None \<Rightarrow> po
     | Some a \<Rightarrow> upd_ctx a (\<lambda>ctx. (pause_clock (en_now env) ctx)\<lparr>jc_paused := True\<rparr>) po)"

definition resume_job :: "engine_env \<Rightarrow> byte_string \<Rightarrow> pool \<Rightarrow> pool" where
  "resume_job env job po =
    (case map_of (po_jobs po) job of
       None \<Rightarrow> po
     | Some a \<Rightarrow> upd_ctx a (\<lambda>ctx. (resume_clock (en_now env) ctx)\<lparr>jc_paused := False\<rparr>) po)"

definition abort_job :: "engine_env \<Rightarrow> byte_string \<Rightarrow> byte_string \<Rightarrow> pool \<Rightarrow> bool \<times> pool" where
  "abort_job env job reason po =
    (case map_of (po_jobs po) job of
       None \<Rightarrow> (False, po)
     | Some a \<Rightarrow>
         if jc_abort_reason (ctx_at po a) \<noteq> None then (False, po)
         else
           let po1 = upd_ctx a (\<lambda>ctx. ctx\<lparr>jc_abort_reason := Some reason, jc_cancelled := True\<rparr>) po in
           (case queue_drain_job job (po_queue po1) of
              (drained, q) \<Rightarrow>
                let po2 = fold (\<lambda>_. resolve_at env a) drained (po1\<lparr>po_queue := q\<rparr>) in
                (True, if jc_remaining (ctx_at po2 a) = 0 then upd_ctx a (emit_terminal env) po2 else po2)))"

definition cancel_job :: "byte_string \<Rightarrow> pool \<Rightarrow> pool" where
  "cancel_job job po =
    (case map_of (po_jobs po) job of
       None \<Rightarrow> po
     | Some a \<Rightarrow>
         let po1 = upd_ctx a (\<lambda>ctx. ctx\<lparr>jc_cancelled := True\<rparr>) (po\<lparr>po_jobs := AList.delete job (po_jobs po)\<rparr>) in
         po1\<lparr>po_queue := snd (queue_drain_job job (po_queue po1))\<rparr>)"

section \<open>Failing an article\<close>

text \<open>The end shared by the three ways an article fails for good.\<close>

definition fail_item :: "engine_env \<Rightarrow> engine_item \<Rightarrow> nat \<Rightarrow> bool \<Rightarrow> article_failure \<Rightarrow> pool \<Rightarrow> pool" where
  "fail_item env it a confirmed failure po =
    resolve_at env a
      (upd_ctx a (\<lambda>ctx. (send_to_job (ArticleFailed (ei_job_id it) (ei_file_id it) (ei_segment_number it) failure)
           (ctx\<lparr>jc_slices := tracker_record_failure (ei_file_id it) confirmed (jc_slices ctx)\<rparr>))
         \<lparr>jc_failed := jc_failed ctx + 1\<rparr>) po)"

definition fail_incomplete_nzb_article ::
  "engine_env \<Rightarrow> engine_item \<Rightarrow> nat \<Rightarrow> server_config \<Rightarrow> byte_string \<Rightarrow> pool \<Rightarrow> pool" where
  "fail_incomplete_nzb_article env it a server msg po =
    fail_item env it a False (failure_decode_error (sc_id server) (''Incomplete NZB: '' @ msg))
      (upd_ctx a (send_attempt it Present) po)"

definition fail_assembly ::
  "engine_env \<Rightarrow> engine_item \<Rightarrow> nat \<Rightarrow> server_config \<Rightarrow> byte_string \<Rightarrow> pool \<Rightarrow> pool" where
  "fail_assembly env it a server msg po =
    fail_item env it a False (failure_decode_error (sc_id server) (''Assembly error: '' @ msg))
      (upd_ctx a (send_attempt it Present) po)"

definition all_not_found :: "engine_item \<Rightarrow> bool" where
  "all_not_found it = list_all (\<lambda>(_, k). k = FK_NotFound) (ei_provider_outcomes it)"

definition outcome_list :: "engine_item \<Rightarrow> byte_string" where
  "outcome_list it =
    join_strings '','' (sort (map (\<lambda>(s, k). s @ ''='' @ failure_kind_str k) (ei_provider_outcomes it)))"

definition fail_article_everywhere ::
  "engine_env \<Rightarrow> engine_item \<Rightarrow> server_id \<Rightarrow> nat \<Rightarrow> byte_string \<Rightarrow> pool \<Rightarrow> pool" where
  "fail_article_everywhere env it sid a msg po =
    fail_item env it a (all_not_found it)
      (if all_not_found it then failure_not_found_anywhere sid (outcome_list it)
       else failure_decode_error sid (msg @ ''; provider outcomes: '' @ outcome_list it)) po"

definition note_outcome :: "server_config \<Rightarrow> failure_kind \<Rightarrow> engine_item \<Rightarrow> engine_item" where
  "note_outcome server kind it =
    it\<lparr>ei_provider_outcomes := AList.update (sc_id server) kind (ei_provider_outcomes it),
       ei_tried_servers := (if sc_id server \<in> set (ei_tried_servers it) then ei_tried_servers it
                            else ei_tried_servers it @ [sc_id server]),
       ei_tries_on_current := 0, ei_outage_tries := 0\<rparr>"

definition confirm_round :: "engine_item \<Rightarrow> engine_item" where
  "confirm_round it =
    it\<lparr>ei_confirm_rounds := ei_confirm_rounds it + 1, ei_provider_outcomes := [], ei_tried_servers := []\<rparr>"

text \<open>The result says whether the article was resolved.\<close>

definition handle_article_not_available ::
  "engine_env \<Rightarrow> engine_item \<Rightarrow> server_config \<Rightarrow> nat \<Rightarrow> failure_kind \<Rightarrow> byte_string \<Rightarrow> pool \<Rightarrow> bool \<times> pool" where
  "handle_article_not_available env it0 server a kind msg po =
    (let it = note_outcome server kind it0;
         definitive = all_enabled_providers_definitive (en_now env) (po_servers po) (po_health po)
           (ei_provider_outcomes it)
     in if definitive \<and> all_not_found it \<and> ei_confirm_rounds it < CONFIRM_ASKS_PER_SERVER
        then (False, po\<lparr>po_delayed := po_delayed po @ [confirm_round it]\<rparr>)
        else if definitive then (True, fail_article_everywhere env it (sc_id server) a msg po)
        else (False, upd_queue (push_front it) po))"

definition retry_or_fail_over ::
  "engine_env \<Rightarrow> engine_item \<Rightarrow> server_config \<Rightarrow> nat \<Rightarrow> failure_kind \<Rightarrow> byte_string \<Rightarrow> pool \<Rightarrow> bool \<times> pool" where
  "retry_or_fail_over env it0 server a kind msg po =
    (let it = it0\<lparr>ei_tries_on_current := ei_tries_on_current it0 + 1\<rparr> in
     if ei_tries_on_current it < MAX_TRIES_PER_SERVER then (False, upd_queue (push_front it) po)
     else handle_article_not_available env it server a kind
       (''Article failed on every server; last error after '' @ show_u32 MAX_TRIES_PER_SERVER @ '' attempts: '' @ msg) po)"

text \<open>The task spawned for a confirm round wakes up.\<close>

definition wake_delayed :: "nat \<Rightarrow> pool \<Rightarrow> pool" where
  "wake_delayed i po =
    upd_queue (push_front (po_delayed po ! i))
      (po\<lparr>po_delayed := take i (po_delayed po) @ drop (Suc i) (po_delayed po)\<rparr>)"

section \<open>The supervisor's sweep\<close>

definition optional_down :: "millis \<Rightarrow> pool \<Rightarrow> bool" where
  "optional_down now po =
    list_ex (\<lambda>s. sc_enabled s \<and> sc_optional s \<and> circuit_open now (po_health po) (sc_id s)) (po_servers po)"

definition sweep_item :: "engine_env \<Rightarrow> engine_item \<Rightarrow> pool \<Rightarrow> pool" where
  "sweep_item env it po =
    (case map_of (po_jobs po) (ei_job_id it) of
       None \<Rightarrow> po
     | Some a \<Rightarrow>
         if jc_cancelled (ctx_at po a) then resolve_at env a po
         else fail_article_everywhere env it
           (if ei_tried_servers it = [] then [] else last (ei_tried_servers it)) a
           ''Article unavailable on every required server (optional servers unavailable)'' po)"

definition resolve_items_not_waiting_on_required_providers :: "engine_env \<Rightarrow> pool \<Rightarrow> pool" where
  "resolve_items_not_waiting_on_required_providers env po =
    (if \<not> optional_down (en_now env) po then po
     else (case take_where (\<lambda>it. ei_provider_outcomes it \<noteq> [] \<and>
                  all_enabled_providers_definitive (en_now env) (po_servers po) (po_health po) (ei_provider_outcomes it))
                (po_queue po) of
             (taken, q) \<Rightarrow> fold (sweep_item env) taken (po\<lparr>po_queue := q\<rparr>)))"

end
