(* ===== verification/Engine_Worker.thy ===== *)
theory Engine_Worker
  imports Engine_Pool
begin

text \<open>
  The workers of the pool (\<open>download_engine.rs\<close>): taking the next item, the serial loop and the
  pipelined loop.  What the connection answers is an argument.  \<open>None\<close> is a panic inside the slice
  tracker; the flag \<open>ready\<close> is the connection state after an article-level error.
\<close>

section \<open>Taking work\<close>

text \<open>
  One round of the loop of \<open>next_work_item\<close>.  \<open>NW_Again\<close>: the item was dropped, resolved or put
  back, and the loop goes round again (after a sleep when its job is paused); \<open>NW_Idle\<close>: nothing to take.
\<close>

datatype next_work =
    NW_Item engine_item nat
  | NW_Again
  | NW_Idle

definition next_work_item :: "engine_env \<Rightarrow> server_id \<Rightarrow> server_id list \<Rightarrow> pool \<Rightarrow> next_work \<times> pool" where
  "next_work_item env sid hp po =
    (case pop_workable sid hp (po_queue po) of
       (None, _) \<Rightarrow> (NW_Idle, po)
     | (Some it, q) \<Rightarrow>
         let po1 = po\<lparr>po_queue := q\<rparr> in
         (case map_of (po_jobs po1) (ei_job_id it) of
            None \<Rightarrow> (NW_Again, po1)
          | Some a \<Rightarrow>
              if jc_cancelled (ctx_at po1 a) then (NW_Again, resolve_at env a po1)
              else if jc_paused (ctx_at po1 a) then (NW_Again, upd_queue (push_back it) po1)
              else (NW_Item it a, po1)))"

section \<open>A successful fetch\<close>

definition insert_if_absent :: "'k \<Rightarrow> 'v \<Rightarrow> ('k \<times> 'v) list \<Rightarrow> ('k \<times> 'v) list" where
  "insert_if_absent k v m = (case map_of m k of Some _ \<Rightarrow> m | None \<Rightarrow> AList.update k v m)"

definition record_perf :: "engine_env \<Rightarrow> engine_item \<Rightarrow> process_result \<Rightarrow> job_context \<Rightarrow> job_context" where
  "record_perf env it r ctx =
    ctx\<lparr>jc_decode_us := jc_decode_us ctx + dr_decode_us r,
        jc_assemble_us := jc_assemble_us ctx + dr_assemble_us r,
        jc_decoded := jc_decoded ctx + 1,
        jc_yenc_names := (case dr_yenc_filename r of
            None \<Rightarrow> jc_yenc_names ctx
          | Some n \<Rightarrow> insert_if_absent (ei_file_id it) (en_nfc env n) (jc_yenc_names ctx))\<rparr>"

definition article_done ::
  "engine_env \<Rightarrow> engine_item \<Rightarrow> server_config \<Rightarrow> nat \<Rightarrow> process_result \<Rightarrow> pool \<Rightarrow> pool option" where
  "article_done env it server a r po =
    (let ctx = record_perf env it r (ctx_at po a) in
     case tracker_record_write (en_tracker env) (ei_file_id it) (dr_write_offset r) (dr_decoded_bytes r)
            (dr_file_complete r) (jc_slices ctx) of
       None \<Rightarrow> None
     | Some js \<Rightarrow>
         Some (resolve_at env a
           (upd_ctx a (\<lambda>_. send_to_job
                (ArticleComplete (ei_job_id it) (ei_file_id it) (ei_segment_number it) (dr_decoded_bytes r)
                  (dr_file_complete r) (Some (sc_id server)) (dr_yenc_filename r))
                (send_attempt it Present (ctx\<lparr>jc_slices := js\<rparr>))) po)))"

text \<open>The part of the context the decode task works on.\<close>

definition run_fetch ::
  "engine_env \<Rightarrow> engine_item \<Rightarrow> nat \<Rightarrow> nntp_error + bytes \<Rightarrow> pool \<Rightarrow> (article_error + process_result) \<times> pool" where
  "run_fetch env it a reply po =
    (case fetch_article_with_retry env it (jc_cancelled (ctx_at po a)) reply
            (Some (jc_pinned_sizes (ctx_at po a)), jc_assembler (ctx_at po a)) of
       (r, sizes, asm) \<Rightarrow>
         (r, upd_ctx a (\<lambda>ctx. ctx\<lparr>jc_pinned_sizes := (case sizes of Some m \<Rightarrow> m | None \<Rightarrow> jc_pinned_sizes ctx),
                jc_assembler := asm\<rparr>) po))"

definition run_decode ::
  "engine_env \<Rightarrow> engine_item \<Rightarrow> nat \<Rightarrow> bytes \<Rightarrow> pool \<Rightarrow> (article_error + process_result) \<times> pool" where
  "run_decode env it a raw po =
    (case decode_and_assemble_offloaded env it raw
            (Some (jc_pinned_sizes (ctx_at po a)), jc_assembler (ctx_at po a)) of
       (r, sizes, asm) \<Rightarrow>
         (r, upd_ctx a (\<lambda>ctx. ctx\<lparr>jc_pinned_sizes := (case sizes of Some m \<Rightarrow> m | None \<Rightarrow> jc_pinned_sizes ctx),
                jc_assembler := asm\<rparr>) po))"

section \<open>The serial worker\<close>

datatype after_article = Continue | Reconnect

definition is_auth_kind :: "failure_kind \<Rightarrow> bool" where
  "is_auth_kind k \<longleftrightarrow> k = FK_AuthFailed \<or> k = FK_PermissionDenied"

definition break_server :: "engine_env \<Rightarrow> server_config \<Rightarrow> bool \<Rightarrow> byte_string \<Rightarrow> pool \<Rightarrow> pool" where
  "break_server env server is_auth msg po =
    report_provider_outage env
      (po\<lparr>po_health := update_health (sc_id server) (record_failure (en_now env) is_auth msg) (po_health po)\<rparr>)"

text \<open>The arms of the match on the result of \<open>fetch_article_with_retry\<close>.\<close>

fun serial_error ::
  "engine_env \<Rightarrow> engine_item \<Rightarrow> server_config \<Rightarrow> nat \<Rightarrow> bool \<Rightarrow> article_error \<Rightarrow> pool \<Rightarrow> after_article \<times> pool" where
  "serial_error env it server a ready AE_NotFound po =
    (Continue, snd (handle_article_not_available env it server a FK_NotFound ''Article not found on any server''
       (upd_ctx a (send_attempt it (refused_attempt server)) po)))"
| "serial_error env it server a ready (AE_ConnectionLost _) po =
    (Reconnect, upd_queue (push_front it) (upd_ctx a (send_attempt it (transport_attempt server)) po))"
| "serial_error env it server a ready (AE_ProviderUnavailable kind msg) po =
    (Reconnect, upd_queue (push_front it)
       (break_server env server (is_auth_kind kind) msg (upd_ctx a (send_attempt it (transport_attempt server)) po)))"
| "serial_error env it server a ready (AE_ServerError kind msg) po =
    (if ready then Continue else Reconnect,
     snd (retry_or_fail_over env it server a kind msg (upd_ctx a (send_attempt it (transport_attempt server)) po)))"
| "serial_error env it server a ready (AE_DecodeError msg) po =
    (Continue, snd (handle_article_not_available env it server a FK_DecodeError (''Decode error: '' @ msg)
       (upd_ctx a (send_attempt it (transport_attempt server)) po)))"
| "serial_error env it server a ready AE_Cancelled po = (Continue, resolve_at env a po)"
| "serial_error env it server a ready (AE_IncompleteNzb msg) po =
    (Continue, fail_incomplete_nzb_article env it a server msg po)"
| "serial_error env it server a ready (AE_AssemblyError msg) po =
    (Continue, fail_assembly env it a server msg po)"

text \<open>\<open>None\<close> as the reply: the stall timeout fired first.\<close>

definition run_worker_serial ::
  "engine_env \<Rightarrow> server_config \<Rightarrow> engine_item \<Rightarrow> nat \<Rightarrow> bool \<Rightarrow> (nntp_error + bytes) option \<Rightarrow> pool
    \<Rightarrow> (after_article \<times> pool) option" where
  "run_worker_serial env server it a ready reply po =
    (case reply of
       None \<Rightarrow>
         Some (Reconnect, snd (retry_or_fail_over env it server a FK_Timeout ''connection stalled''
           (upd_ctx a (send_attempt it (transport_attempt server)) po)))
     | Some rep \<Rightarrow>
         (case run_fetch env it a rep po of
            (Inr r, po1) \<Rightarrow> map_option (Pair Continue) (article_done env it server a r po1)
          | (Inl e, po1) \<Rightarrow> Some (serial_error env it server a ready e po1)))"

section \<open>The pipelined worker\<close>

type_synonym in_flight = "(nat \<times> engine_item) list"

text \<open>
  One round of the fill loop, with the number of requests already in the pipeline; \<open>None\<close> ends it.
\<close>

definition fill_round ::
  "engine_env \<Rightarrow> server_config \<Rightarrow> server_id list \<Rightarrow> in_flight \<times> nat \<times> pool \<Rightarrow> bool \<times> in_flight \<times> nat \<times> pool" where
  "fill_round env server hp st =
    (case st of (flights, next_tag, po) \<Rightarrow>
     if \<not> length flights < unat (sc_pipelining server) then (False, st)
     else
       (case pop_workable (sc_id server) hp (po_queue po) of
          (None, _) \<Rightarrow> (False, st)
        | (Some it, q) \<Rightarrow>
            let po1 = po\<lparr>po_queue := q\<rparr> in
            (case map_of (po_jobs po1) (ei_job_id it) of
               None \<Rightarrow> (True, flights, next_tag, po1)
             | Some a \<Rightarrow>
                 if jc_cancelled (ctx_at po1 a) then (True, flights, next_tag, resolve_at env a po1)
                 else if jc_paused (ctx_at po1 a) then (False, flights, next_tag, upd_queue (push_back it) po1)
                 else (True, flights @ [(next_tag, it)], next_tag + 1, po1))))"

text \<open>The fill loop.  Every round takes an item out of the queue or is the last, so the fuel never ends it.\<close>

definition fill_pipeline ::
  "engine_env \<Rightarrow> server_config \<Rightarrow> server_id list \<Rightarrow> in_flight \<times> nat \<times> pool \<Rightarrow> (in_flight \<times> nat \<times> pool) option" where
  "fill_pipeline env server hp st =
    run_loop (\<lambda>st. case fill_round env server hp st of (True, st') \<Rightarrow> Inl st' | (False, st') \<Rightarrow> Inr st')
      (length (qs_items (po_queue (snd (snd st)))) + 1) st"

text \<open>Leaving the loop with work in flight: the map is drained in no particular order.\<close>

definition requeue_flights :: "in_flight \<Rightarrow> pool \<Rightarrow> pool" where
  "requeue_flights flights po = upd_queue (requeue_all (map snd flights)) po"

definition stall_flights :: "server_config \<Rightarrow> in_flight \<Rightarrow> pool \<Rightarrow> pool" where
  "stall_flights server flights po =
    requeue_flights flights
      (fold (\<lambda>(_, it) po. case map_of (po_jobs po) (ei_job_id it) of
          None \<Rightarrow> po
        | Some a \<Rightarrow> upd_ctx a (send_attempt it (transport_attempt server)) po) flights po)"

definition server_wide :: "failure_kind \<Rightarrow> bool" where
  "server_wide k \<longleftrightarrow> k = FK_ServerDown \<or> k = FK_AuthFailed \<or> k = FK_PermissionDenied"

definition article_outage :: "failure_kind \<Rightarrow> bool" where
  "article_outage k \<longleftrightarrow> k = FK_Timeout \<or> k = FK_ConnectionClosed \<or> k = FK_Other"

definition is_article_absence :: "nntp_error \<Rightarrow> bool" where
  "is_article_absence e \<longleftrightarrow>
    (case e of ArticleNotFound _ \<Rightarrow> True | NoSuchGroup _ \<Rightarrow> True | NoArticleSelected _ \<Rightarrow> True | _ \<Rightarrow> False)"

definition is_connection_error :: "nntp_error \<Rightarrow> bool" where
  "is_connection_error e \<longleftrightarrow> (case e of Connection _ \<Rightarrow> True | Io _ \<Rightarrow> True | _ \<Rightarrow> False)"

text \<open>The last arm: any other error of one request.\<close>

definition pipeline_error ::
  "engine_env \<Rightarrow> engine_item \<Rightarrow> server_config \<Rightarrow> nat \<Rightarrow> nntp_error \<Rightarrow> pool \<Rightarrow> pool" where
  "pipeline_error env it server a e po =
    (let kind = failure_kind_of e;
         po1 = upd_ctx a (send_attempt it (transport_attempt server)) po;
         po2 = (if counts_against_circuit_breaker e
                then break_server env server (is_auth_kind kind) (nntp_error_display e) po1 else po1)
     in if server_wide kind then upd_queue (push_front it) po2
        else if article_outage kind then
          (let it1 = it\<lparr>ei_outage_tries := ei_outage_tries it + 1\<rparr> in
           if ei_outage_tries it1 < MAX_OUTAGE_TRIES_PER_SERVER then upd_queue (push_front it1) po2
           else snd (retry_or_fail_over env it1 server a kind (nntp_error_display e) po2))
        else snd (retry_or_fail_over env it server a kind (nntp_error_display e) po2))"

text \<open>
  \<open>decode_and_assemble\<close> has no other error than the three handled; the source ignores the rest.
\<close>

definition pipeline_body ::
  "engine_env \<Rightarrow> engine_item \<Rightarrow> server_config \<Rightarrow> nat \<Rightarrow> bytes \<Rightarrow> pool \<Rightarrow> pool option" where
  "pipeline_body env it server a raw po =
    (case run_decode env it a raw po of
       (Inr r, po1) \<Rightarrow> article_done env it server a r po1
     | (Inl (AE_DecodeError msg), po1) \<Rightarrow>
         Some (snd (handle_article_not_available env it server a FK_DecodeError (''Decode error: '' @ msg)
           (upd_ctx a (send_attempt it (transport_attempt server)) po1)))
     | (Inl (AE_IncompleteNzb msg), po1) \<Rightarrow> Some (fail_incomplete_nzb_article env it a server msg po1)
     | (Inl (AE_AssemblyError msg), po1) \<Rightarrow> Some (fail_assembly env it a server msg po1)
     | (Inl _, po1) \<Rightarrow> Some po1)"

text \<open>One response: the tag it answers and the result.  The item has left the map before the match.\<close>

definition pipeline_result_step ::
  "engine_env \<Rightarrow> server_config \<Rightarrow> nat \<Rightarrow> nntp_error + bytes \<Rightarrow> in_flight \<Rightarrow> pool
    \<Rightarrow> (after_article \<times> in_flight \<times> pool) option" where
  "pipeline_result_step env server tag reply flights0 po =
    (case map_of flights0 tag of
       None \<Rightarrow> Some (Continue, flights0, po)
     | Some it \<Rightarrow>
         let flights = AList.delete tag flights0 in
         (case map_of (po_jobs po) (ei_job_id it) of
            None \<Rightarrow> Some (Continue, flights, po)
          | Some a \<Rightarrow>
              if jc_cancelled (ctx_at po a) then Some (Continue, flights, resolve_at env a po)
              else
                (case reply of
                   Inr raw \<Rightarrow> map_option (\<lambda>po'. (Continue, flights, po')) (pipeline_body env it server a raw po)
                 | Inl e \<Rightarrow>
                     if is_article_absence e
                     then Some (Continue, flights,
                       snd (handle_article_not_available env it server a FK_NotFound ''Article not found on any server''
                         (upd_ctx a (send_attempt it (refused_attempt server)) po)))
                     else if is_connection_error e
                     then Some (Reconnect, [], requeue_flights flights
                       (upd_queue (push_front it) (upd_ctx a (send_attempt it (transport_attempt server)) po)))
                     else Some (Reconnect, [], requeue_flights flights (pipeline_error env it server a e po)))))"

section \<open>The worker's guards\<close>

text \<open>A worker leaves its loop when its server is gone or disabled, and reconnects when the circuit is open.\<close>

definition server_disabled :: "server_config \<Rightarrow> pool \<Rightarrow> bool" where
  "server_disabled server po =
    (case List.find (\<lambda>s. sc_id s = sc_id server) (po_servers po) of None \<Rightarrow> True | Some s \<Rightarrow> \<not> sc_enabled s)"

definition may_work :: "engine_env \<Rightarrow> server_config \<Rightarrow> pool \<Rightarrow> bool" where
  "may_work env server po \<longleftrightarrow>
    \<not> server_disabled server po \<and> \<not> circuit_open (en_now env) (po_health po) (sc_id server)"

definition priority_gate :: "engine_env \<Rightarrow> server_config \<Rightarrow> pool \<Rightarrow> server_id list" where
  "priority_gate env server po =
    higher_priority_servers (en_now env) (po_servers po) (po_health po) (sc_priority server) (sc_id server)"

end
