(* ===== verification/Engine_World.thy ===== *)
theory Engine_World
  imports Engine_Worker
begin

text \<open>
  The download engine as a transition system: the shared pool and its workers, each step one
  handler of a worker, one public operation of the pool, one tick of the supervisor, one move of the
  queue layer at the other end of a progress channel, or a change of the configuration.  Every step
  has its own environment, so the clock, the file system and the decoder may answer differently each
  time.
\<close>

text \<open>A serial worker holds at most one item with its context; a pipelined one a map of items by tag.\<close>

datatype engine_worker =
    Serial server_config "(engine_item \<times> nat) option"
  | Pipelined server_config in_flight nat

record world =
  wo_pool :: pool
  wo_workers :: "engine_worker list"

fun worker_items :: "engine_worker \<Rightarrow> engine_item list" where
  "worker_items (Serial s None) = []"
| "worker_items (Serial s (Some (it, a))) = [it]"
| "worker_items (Pipelined s flights tag) = map snd flights"

text \<open>Every copy of an article of a job that is still to be resolved.\<close>

definition outstanding :: "byte_string \<Rightarrow> world \<Rightarrow> nat" where
  "outstanding job w =
    length (filter (\<lambda>it. ei_job_id it = job)
      (qs_items (po_queue (wo_pool w)) @ po_delayed (wo_pool w) @ concat (map worker_items (wo_workers w))))"

definition set_worker :: "nat \<Rightarrow> engine_worker \<Rightarrow> pool \<Rightarrow> world \<Rightarrow> world" where
  "set_worker i wk po w = w\<lparr>wo_pool := po, wo_workers := (wo_workers w)[i := wk]\<rparr>"

definition world_new :: "server_config list \<Rightarrow> world" where
  "world_new servers = \<lparr>wo_pool = pool_new servers, wo_workers = []\<rparr>"

definition open_channel :: progress_channel where
  "open_channel = \<lparr>pc_buffer = [], pc_received = [], pc_closed = False\<rparr>"

definition receive_progress :: "progress_channel \<Rightarrow> progress_channel" where
  "receive_progress ch =
    (case pc_buffer ch of [] \<Rightarrow> ch | u # us \<Rightarrow> ch\<lparr>pc_buffer := us, pc_received := pc_received ch @ [u]\<rparr>)"

inductive engine_step :: "world \<Rightarrow> world \<Rightarrow> bool" where
  spawn_serial: "engine_step w (w\<lparr>wo_workers := wo_workers w @ [Serial s None]\<rparr>)"
| spawn_pipelined: "engine_step w (w\<lparr>wo_workers := wo_workers w @ [Pipelined s [] 0]\<rparr>)"
| serial_take: "i < length (wo_workers w) \<Longrightarrow> wo_workers w ! i = Serial s None \<Longrightarrow> may_work env s (wo_pool w) \<Longrightarrow>
    next_work_item env (sc_id s) (priority_gate env s (wo_pool w)) (wo_pool w) = (NW_Item it a, po) \<Longrightarrow>
    engine_step w (set_worker i (Serial s (Some (it, a))) po w)"
| serial_again: "i < length (wo_workers w) \<Longrightarrow> wo_workers w ! i = Serial s None \<Longrightarrow>
    next_work_item env (sc_id s) hp (wo_pool w) = (NW_Again, po) \<Longrightarrow>
    engine_step w (set_worker i (Serial s None) po w)"
| serial_result: "i < length (wo_workers w) \<Longrightarrow> wo_workers w ! i = Serial s (Some (it, a)) \<Longrightarrow>
    run_worker_serial env s it a ready reply (wo_pool w) = Some (nxt, po) \<Longrightarrow>
    engine_step w (set_worker i (Serial s None) po w)"
| pipeline_fill: "i < length (wo_workers w) \<Longrightarrow> wo_workers w ! i = Pipelined s fl tag \<Longrightarrow>
    fill_round env s hp (fl, tag, wo_pool w) = (b, fl', tag', po) \<Longrightarrow>
    engine_step w (set_worker i (Pipelined s fl' tag') po w)"
| pipeline_take: "i < length (wo_workers w) \<Longrightarrow> wo_workers w ! i = Pipelined s [] tag \<Longrightarrow>
    next_work_item env (sc_id s) hp (wo_pool w) = (NW_Item it a, po) \<Longrightarrow>
    engine_step w (set_worker i (Pipelined s [(tag, it)] (tag + 1)) po w)"
| pipeline_again: "i < length (wo_workers w) \<Longrightarrow> wo_workers w ! i = Pipelined s [] tag \<Longrightarrow>
    next_work_item env (sc_id s) hp (wo_pool w) = (NW_Again, po) \<Longrightarrow>
    engine_step w (set_worker i (Pipelined s [] tag) po w)"
| pipeline_answer: "i < length (wo_workers w) \<Longrightarrow> wo_workers w ! i = Pipelined s fl tag \<Longrightarrow>
    pipeline_result_step env s t reply fl (wo_pool w) = Some (nxt, fl', po) \<Longrightarrow>
    engine_step w (set_worker i (Pipelined s fl' tag) po w)"
| pipeline_stall: "i < length (wo_workers w) \<Longrightarrow> wo_workers w ! i = Pipelined s fl tag \<Longrightarrow>
    engine_step w (set_worker i (Pipelined s [] tag) (stall_flights s fl (wo_pool w)) w)"
| pipeline_leave: "i < length (wo_workers w) \<Longrightarrow> wo_workers w ! i = Pipelined s fl tag \<Longrightarrow>
    engine_step w (set_worker i (Pipelined s [] tag) (requeue_flights fl (wo_pool w)) w)"
| submit: "build_job_submission env job open_channel enabled disk = (ctx, items) \<Longrightarrow>
    map_of (po_jobs (wo_pool w)) (nj_id job) = None \<Longrightarrow> outstanding (nj_id job) w = 0 \<Longrightarrow>
    engine_step w (w\<lparr>wo_pool := submit_job env (length (po_ctxs (wo_pool w))) items
      ((wo_pool w)\<lparr>po_ctxs := po_ctxs (wo_pool w) @ [ctx]\<rparr>)\<rparr>)"
| release_completed: "map_of (po_jobs (wo_pool w)) job = Some a \<Longrightarrow> jc_finished (ctx_at (wo_pool w) a) \<Longrightarrow>
    engine_step w (w\<lparr>wo_pool := release_completed_job job (wo_pool w)\<rparr>)"
| pause: "engine_step w (w\<lparr>wo_pool := pause_job env job (wo_pool w)\<rparr>)"
| resume: "engine_step w (w\<lparr>wo_pool := resume_job env job (wo_pool w)\<rparr>)"
| abort: "engine_step w (w\<lparr>wo_pool := snd (abort_job env job reason (wo_pool w))\<rparr>)"
| cancel: "engine_step w (w\<lparr>wo_pool := cancel_job job (wo_pool w)\<rparr>)"
| wake: "i < length (po_delayed (wo_pool w)) \<Longrightarrow> engine_step w (w\<lparr>wo_pool := wake_delayed i (wo_pool w)\<rparr>)"
| sweep: "engine_step w (w\<lparr>wo_pool := resolve_items_not_waiting_on_required_providers env (wo_pool w)\<rparr>)"
| outage: "engine_step w (w\<lparr>wo_pool := report_provider_outage env (wo_pool w)\<rparr>)"
| providers_back: "engine_step w (w\<lparr>wo_pool := pool_providers_available (wo_pool w)\<rparr>)"
| reconfigure: "engine_step w (w\<lparr>wo_pool := (wo_pool w)\<lparr>po_servers := servers, po_health := health, po_defer := d\<rparr>\<rparr>)"
| receive: "a < length (po_ctxs (wo_pool w)) \<Longrightarrow>
    engine_step w (w\<lparr>wo_pool := upd_ctx a (\<lambda>ctx. ctx\<lparr>jc_channel := receive_progress (jc_channel ctx)\<rparr>) (wo_pool w)\<rparr>)"
| hang_up: "a < length (po_ctxs (wo_pool w)) \<Longrightarrow>
    engine_step w (w\<lparr>wo_pool := upd_ctx a (\<lambda>ctx. ctx\<lparr>jc_channel := (jc_channel ctx)\<lparr>pc_closed := True\<rparr>\<rparr>) (wo_pool w)\<rparr>)"

inductive_cases engine_stepE: "engine_step w w'"

text \<open>The reachable states of an engine started with some server list.\<close>

inductive world_reach :: "server_config list \<Rightarrow> world \<Rightarrow> bool" for servers where
  start: "world_reach servers (world_new servers)"
| step: "world_reach servers w \<Longrightarrow> engine_step w w' \<Longrightarrow> world_reach servers w'"

text \<open>A message that ends a job.\<close>

fun is_terminal :: "progress_update \<Rightarrow> bool" where
  "is_terminal (JobFinished _ _ _ _ _ _) = True"
| "is_terminal (JobAborted _ _ _ _) = True"
| "is_terminal _ = False"

definition terminal_messages :: "job_context \<Rightarrow> progress_update list" where
  "terminal_messages ctx = filter is_terminal (channel_log (jc_channel ctx))"

end
