(* ===== verification/Engine_World_Proofs.thy ===== *)
theory Engine_World_Proofs
  imports Engine_World Engine_Queue_Proofs
begin

text \<open>
  Accounting of the download engine: in every reachable state the counter of unresolved articles of
  a registered job is the number of its items in the queue, in the hands of workers and asleep, a
  job is finished exactly when there are none, and it sends one terminal message.
\<close>

section \<open>Contexts\<close>

definition held_ok :: "job_context \<Rightarrow> bool" where
  "held_ok ctx \<longleftrightarrow>
    (\<forall>v \<in> set (hd_held (jc_held ctx)). hv_items v \<noteq> [] \<and> (\<forall>it \<in> set (hv_items v). ei_job_id it = jc_job_id ctx)) \<and>
    (hd_held (jc_held ctx) \<noteq> [] \<longrightarrow> hd_queue (jc_held ctx))"

definition term_ok :: "job_context \<Rightarrow> bool" where
  "term_ok ctx \<longleftrightarrow> length (terminal_messages ctx) \<le> (if jc_finished ctx then 1 else 0)"

definition ctx_ok :: "job_context \<Rightarrow> bool" where
  "ctx_ok ctx \<longleftrightarrow> held_ok ctx \<and> term_ok ctx"

definition ctx_bal :: "nat \<Rightarrow> job_context \<Rightarrow> bool" where
  "ctx_bal n ctx \<longleftrightarrow> jc_remaining ctx = n \<and> (jc_finished ctx \<longleftrightarrow> n = 0)"

text \<open>Updates that leave the accounting alone.\<close>

definition ctx_same :: "job_context \<Rightarrow> job_context \<Rightarrow> bool" where
  "ctx_same ctx ctx' \<longleftrightarrow>
    jc_job_id ctx' = jc_job_id ctx \<and> jc_remaining ctx' = jc_remaining ctx \<and> jc_finished ctx' = jc_finished ctx \<and>
    jc_held ctx' = jc_held ctx \<and> terminal_messages ctx' = terminal_messages ctx"

lemma ctx_same_refl [simp]: "ctx_same ctx ctx"
  by (simp add: ctx_same_def)

lemma ctx_same_trans: "ctx_same a b \<Longrightarrow> ctx_same b c \<Longrightarrow> ctx_same a c"
  by (simp add: ctx_same_def)

lemma ctx_same_ok: "ctx_same ctx ctx' \<Longrightarrow> ctx_ok ctx' = ctx_ok ctx"
  by (simp add: ctx_same_def ctx_ok_def held_ok_def term_ok_def)

lemma ctx_same_bal: "ctx_same ctx ctx' \<Longrightarrow> ctx_bal n ctx' = ctx_bal n ctx"
  by (simp add: ctx_same_def ctx_bal_def)

lemma terminal_send:
  "terminal_messages (send_to_job u ctx) =
    terminal_messages ctx @ (if is_terminal u \<and> channel_room (jc_channel ctx) then [u] else [])"
  by (simp add: terminal_messages_def send_to_job_def channel_log_send)

lemma send_fields [simp]:
  "jc_job_id (send_to_job u ctx) = jc_job_id ctx" "jc_remaining (send_to_job u ctx) = jc_remaining ctx"
  "jc_finished (send_to_job u ctx) = jc_finished ctx" "jc_held (send_to_job u ctx) = jc_held ctx"
  "jc_slices (send_to_job u ctx) = jc_slices ctx" "jc_cancelled (send_to_job u ctx) = jc_cancelled ctx"
  "jc_abort_reason (send_to_job u ctx) = jc_abort_reason ctx"
  by (simp_all add: send_to_job_def)

lemma ctx_same_send: "\<not> is_terminal u \<Longrightarrow> ctx_same ctx (send_to_job u ctx)"
  by (simp add: ctx_same_def terminal_send)

lemma ctx_same_outcome: "ctx_same ctx (send_attempt it oc ctx)"
  by (simp add: send_attempt_def ctx_same_send)

lemma ctx_same_waiting: "ctx_same ctx (report_waiting_for_providers msg ctx)"
  by (simp add: report_waiting_for_providers_def ctx_same_def terminal_send)
    (simp add: terminal_messages_def)

lemma ctx_same_available: "ctx_same ctx (report_providers_available ctx)"
  by (simp add: report_providers_available_def ctx_same_def terminal_send)
    (simp add: terminal_messages_def)

section \<open>Held volumes\<close>

lemma release_loop_exact:
  "release_loop need vs blocks items = (items', vs', blocks') \<Longrightarrow>
    \<exists>k \<le> length vs. vs' = drop k vs \<and> items' = items @ concat (map hv_items (take k vs)) \<and>
      blocks' = blocks + sum_list (map (\<lambda>v. unat (hv_blocks v)) (take k vs)) \<and>
      (k < length vs \<longrightarrow> need \<le> blocks') \<and>
      (\<forall>j < k. blocks + sum_list (map (\<lambda>v. unat (hv_blocks v)) (take j vs)) < need)"
proof (induction vs arbitrary: blocks items)
  case Nil
  then show ?case by auto
next
  case (Cons v vs)
  show ?case
  proof (cases "blocks < need")
    case False
    with Cons.prems show ?thesis by (intro exI [of _ 0]) auto
  next
    case True
    with Cons obtain k where k: "k \<le> length vs" "vs' = drop k vs"
      "items' = (items @ hv_items v) @ concat (map hv_items (take k vs))"
      "blocks' = blocks + unat (hv_blocks v) + sum_list (map (\<lambda>v. unat (hv_blocks v)) (take k vs))"
      "k < length vs \<longrightarrow> need \<le> blocks'"
      "\<forall>j < k. blocks + unat (hv_blocks v) + sum_list (map (\<lambda>v. unat (hv_blocks v)) (take j vs)) < need"
      by fastforce
    have "blocks + sum_list (map (\<lambda>v. unat (hv_blocks v)) (take j (v # vs))) < need" if "j < Suc k" for j
      using that k(6) True by (cases j) (auto simp: add.assoc)
    with k(1-5) show ?thesis by (intro exI [of _ "Suc k"]) auto
  qed
qed

text \<open>What a release does to the held volumes of a job.\<close>

lemma release_for_exact:
  assumes "release_for need h = (r, h')" "hd_held h \<noteq> [] \<longrightarrow> hd_queue h" "\<forall>v \<in> set (hd_held h). hv_items v \<noteq> []"
  shows "\<exists>k. hd_held h' = drop k (hd_held h) \<and> hd_queue h' = hd_queue h \<and>
    (case r of None \<Rightarrow> [] | Some items \<Rightarrow> items) = concat (map hv_items (take k (hd_held h))) \<and>
    (r = None \<longleftrightarrow> hd_held h = [] \<or> k = 0) \<and> r \<noteq> Some [] \<and>
    (hd_held h' = [] \<or> need \<le> hd_released_blocks h')"
proof -
  obtain items vs' blocks' where l: "release_loop need (hd_held h) (hd_released_blocks h) [] = (items, vs', blocks')"
    by (metis prod_cases3)
  obtain k where k: "k \<le> length (hd_held h)" "vs' = drop k (hd_held h)"
    "items = concat (map hv_items (take k (hd_held h)))" "k < length (hd_held h) \<longrightarrow> need \<le> blocks'"
    using release_loop_exact [OF l] by auto
  have h': "hd_held h' = vs'" "hd_queue h' = hd_queue h" "hd_released_blocks h' = blocks'"
    using assms(1) l by (auto simp: release_for_def Let_def)
  have r: "r = (if items = [] then None else if hd_queue h then Some items else None)"
    using assms(1) l by (auto simp: release_for_def Let_def)
  have e: "items = [] \<longleftrightarrow> hd_held h = [] \<or> k = 0"
    using assms(3) k(1,3) by (cases "hd_held h"; cases k) auto
  show ?thesis
    using h' r e k assms(2)
    by (intro exI [of _ k]) (auto split: option.splits if_splits)
qed

lemma wanted_volumes_exact:
  assumes "wanted_volumes b ctx = (r, ctx')" "held_ok ctx"
  shows "held_ok ctx' \<and> (\<forall>it \<in> set (case r of None \<Rightarrow> [] | Some items \<Rightarrow> items). ei_job_id it = jc_job_id ctx) \<and>
    r \<noteq> Some [] \<and> jc_job_id ctx' = jc_job_id ctx \<and> jc_remaining ctx' = jc_remaining ctx \<and>
    jc_finished ctx' = jc_finished ctx \<and> jc_channel ctx' = jc_channel ctx \<and>
    jc_cancelled ctx' = jc_cancelled ctx \<and> jc_abort_reason ctx' = jc_abort_reason ctx"
proof -
  have f: "jc_job_id ctx' = jc_job_id ctx" "jc_remaining ctx' = jc_remaining ctx"
    "jc_finished ctx' = jc_finished ctx" "jc_channel ctx' = jc_channel ctx"
    "jc_cancelled ctx' = jc_cancelled ctx" "jc_abort_reason ctx' = jc_abort_reason ctx"
    using assms(1)
    by (auto simp: wanted_volumes_def Let_def split: option.splits if_splits prod.splits)
  have "(r, jc_held ctx') = (None, jc_held ctx) \<or> (\<exists>need. release_for need (jc_held ctx) = (r, jc_held ctx'))"
    using assms(1)
    by (auto simp: wanted_volumes_def release_all_def Let_def split: option.splits if_splits prod.splits)
  then show ?thesis
  proof
    assume "(r, jc_held ctx') = (None, jc_held ctx)"
    then show ?thesis using assms(2) f by (auto simp: held_ok_def)
  next
    assume "\<exists>need. release_for need (jc_held ctx) = (r, jc_held ctx')"
    then obtain need where n: "release_for need (jc_held ctx) = (r, jc_held ctx')" by blast
    obtain k where k: "hd_held (jc_held ctx') = drop k (hd_held (jc_held ctx))"
      "hd_queue (jc_held ctx') = hd_queue (jc_held ctx)"
      "(case r of None \<Rightarrow> [] | Some items \<Rightarrow> items) = concat (map hv_items (take k (hd_held (jc_held ctx))))"
      "r \<noteq> Some []"
      using release_for_exact [OF n] assms(2) by (auto simp: held_ok_def)
    have "held_ok ctx'"
      using assms(2) k(1,2) f(1) by (auto simp: held_ok_def dest: in_set_dropD)
    moreover have "\<forall>it \<in> set (case r of None \<Rightarrow> [] | Some items \<Rightarrow> items). ei_job_id it = jc_job_id ctx"
      using assms(2) unfolding k(3) by (auto simp: held_ok_def dest: in_set_takeD)
    ultimately show ?thesis using k(4) f by simp
  qed
qed

lemma mset_submit_items: "mset (qs_items (submit_items items q)) = mset (qs_items q) + mset items"
  by (simp add: submit_items_def)

lemma release_held_exact:
  assumes "release_held b ctx q = (r, ctx', q')" "held_ok ctx"
  shows "\<exists>items. jc_remaining ctx' = jc_remaining ctx + length items \<and>
    mset (qs_items q') = mset (qs_items q) + mset items \<and> (\<forall>it \<in> set items. ei_job_id it = jc_job_id ctx) \<and>
    (r \<longleftrightarrow> items \<noteq> []) \<and> held_ok ctx' \<and> jc_job_id ctx' = jc_job_id ctx \<and>
    jc_finished ctx' = jc_finished ctx \<and> jc_channel ctx' = jc_channel ctx \<and>
    jc_cancelled ctx' = jc_cancelled ctx \<and> jc_abort_reason ctx' = jc_abort_reason ctx"
proof (cases "held_is_empty (jc_held ctx) \<or> jc_cancelled ctx \<or> jc_abort_reason ctx \<noteq> None")
  case True
  then have "r = False" "ctx' = ctx" "q' = q" using assms(1) by (auto simp: release_held_def)
  then show ?thesis using assms(2) by (intro exI [of _ "[]"]) simp
next
  case False
  obtain w c1 where w: "wanted_volumes b ctx = (w, c1)" by (cases "wanted_volumes b ctx")
  note x = wanted_volumes_exact [OF w assms(2)]
  show ?thesis
  proof (cases w)
    case None
    then show ?thesis using assms(1) False w x
      by (intro exI [of _ "[]"]) (auto simp: release_held_def)
  next
    case (Some items)
    then show ?thesis using assms(1) False w x
      by (intro exI [of _ items]) (auto simp: release_held_def mset_submit_items held_ok_def)
  qed
qed

section \<open>The end of a job\<close>

lemma emit_terminal_finished: "jc_finished ctx \<Longrightarrow> emit_terminal env ctx = ctx"
  by (simp add: emit_terminal_def)

lemma emit_terminal_fields:
  "jc_job_id (emit_terminal env ctx) = jc_job_id ctx" "jc_remaining (emit_terminal env ctx) = jc_remaining ctx"
  "jc_held (emit_terminal env ctx) = jc_held ctx" "jc_finished (emit_terminal env ctx)"
  by (auto simp: emit_terminal_def deobfuscate_files_def Let_def split: option.splits prod.splits)

lemma emit_terminal_messages:
  assumes "\<not> jc_finished ctx"
  shows "terminal_messages (emit_terminal env ctx) = terminal_messages ctx \<or>
    (\<exists>u. is_terminal u \<and> terminal_messages (emit_terminal env ctx) = terminal_messages ctx @ [u])"
proof (cases "jc_abort_reason ctx")
  case None
  have "terminal_messages (deobfuscate_files env (ctx\<lparr>jc_finished := True\<rparr>)\<lparr>jc_slices := js\<rparr>) = terminal_messages ctx" for js
    by (simp add: terminal_messages_def deobfuscate_files_def)
  then show ?thesis
    using assms None
    by (auto simp: emit_terminal_def Let_def deobfuscate_files_def terminal_send split: prod.splits)
next
  case (Some reason)
  then show ?thesis
    using assms
    by (auto simp: emit_terminal_def Let_def deobfuscate_files_def terminal_send)
      (simp_all add: terminal_messages_def)
qed

lemma emit_terminal_ok: "ctx_ok ctx \<Longrightarrow> ctx_ok (emit_terminal env ctx)"
proof (cases "jc_finished ctx")
  case True
  then show "ctx_ok ctx \<Longrightarrow> ctx_ok (emit_terminal env ctx)" by (simp add: emit_terminal_finished)
next
  case False
  assume ok: "ctx_ok ctx"
  then have "terminal_messages ctx = []" using False by (simp add: ctx_ok_def term_ok_def)
  then have "length (terminal_messages (emit_terminal env ctx)) \<le> 1"
    using emit_terminal_messages [OF False, of env] by auto
  then show ?thesis
    using ok by (simp add: ctx_ok_def held_ok_def term_ok_def emit_terminal_fields)
qed

lemma release_held_ok:
  assumes "release_held b ctx q = (r, ctx', q')" "ctx_ok ctx"
  shows "ctx_ok ctx'"
  using release_held_exact [OF assms(1)] assms(2)
  by (auto simp: ctx_ok_def term_ok_def terminal_messages_def)

lemma sub_remaining_ok: "ctx_ok (ctx\<lparr>jc_remaining := n\<rparr>) = ctx_ok ctx"
  by (simp add: ctx_ok_def held_ok_def term_ok_def terminal_messages_def)

text \<open>\<open>resolve_one\<close> takes one article off the count; what it releases is counted and queued.\<close>

lemma resolve_one_exact:
  assumes "resolve_one env ctx q = (ctx', q')" "ctx_ok ctx"
  shows "ctx_ok ctx' \<and> jc_job_id ctx' = jc_job_id ctx \<and>
    (\<exists>items. mset (qs_items q') = mset (qs_items q) + mset items \<and> (\<forall>it \<in> set items. ei_job_id it = jc_job_id ctx) \<and>
      (\<forall>n. ctx_bal (Suc n) ctx \<longrightarrow> ctx_bal (n + length items) ctx'))"
proof -
  obtain r1 c1 q1 where 1: "release_held False ctx q = (r1, c1, q1)" by (metis prod_cases3)
  have h: "held_ok ctx" using assms(2) by (simp add: ctx_ok_def)
  obtain items1 where i1: "jc_remaining c1 = jc_remaining ctx + length items1"
    "mset (qs_items q1) = mset (qs_items q) + mset items1" "\<forall>it \<in> set items1. ei_job_id it = jc_job_id ctx"
    "jc_job_id c1 = jc_job_id ctx" "jc_finished c1 = jc_finished ctx"
    using release_held_exact [OF 1 h] by blast
  define c2 where "c2 = c1\<lparr>jc_remaining := usize_sub (jc_remaining c1) 1\<rparr>"
  have ok2: "ctx_ok c2"
    using release_held_ok [OF 1 assms(2)] by (simp add: c2_def sub_remaining_ok)
  show ?thesis
  proof (cases "jc_remaining c1 = 1")
    case False
    then have e: "ctx' = c2" "q' = q1"
      using assms(1) 1 by (auto simp: resolve_one_def Let_def c2_def)
    have "ctx_bal (n + length items1) ctx'" if "ctx_bal (Suc n) ctx" for n
      using that False i1(1,5) by (auto simp: ctx_bal_def e c2_def usize_sub_def)
    then show ?thesis using ok2 i1 e by (auto simp: c2_def)
  next
    case True
    obtain r3 c3 q3 where 3: "release_held True c2 q1 = (r3, c3, q3)" by (metis prod_cases3)
    have h2: "held_ok c2" using ok2 by (simp add: ctx_ok_def)
    obtain items2 where i2: "jc_remaining c3 = jc_remaining c2 + length items2"
      "mset (qs_items q3) = mset (qs_items q1) + mset items2" "\<forall>it \<in> set items2. ei_job_id it = jc_job_id c2"
      "r3 \<longleftrightarrow> items2 \<noteq> []" "jc_job_id c3 = jc_job_id c2" "jc_finished c3 = jc_finished c2"
      using release_held_exact [OF 3 h2] by blast
    have ok3: "ctx_ok c3" by (rule release_held_ok [OF 3 ok2])
    have e: "ctx' = (if r3 then c3 else emit_terminal env c3)" "q' = q3"
      using assms(1) 1 3 True by (auto simp: resolve_one_def Let_def c2_def split: bool.splits if_splits)
    have b: "ctx_bal (n + length (items1 @ items2)) ctx'" if "ctx_bal (Suc n) ctx" for n
    proof -
      have "n = 0" "items1 = []" using that True i1(1) by (auto simp: ctx_bal_def)
      then show ?thesis
        using that True i1 i2
        by (auto simp: ctx_bal_def e c2_def usize_sub_def emit_terminal_fields)
    qed
    have "\<forall>it \<in> set (items1 @ items2). ei_job_id it = jc_job_id ctx"
      using i1(3,4) i2(3) by (auto simp: c2_def)
    moreover have "ctx_ok ctx'" using ok3 emit_terminal_ok by (simp add: e)
    moreover have "jc_job_id ctx' = jc_job_id ctx"
      using i1(4) i2(5) by (simp add: e emit_terminal_fields c2_def)
    moreover have "mset (qs_items q') = mset (qs_items q) + mset (items1 @ items2)"
      using i1(2) i2(2) e(2) by simp
    ultimately show ?thesis using b by blast
  qed
qed

section \<open>The pool\<close>

definition ids :: "pool \<Rightarrow> byte_string multiset" where
  "ids po = mset (map ei_job_id (qs_items (po_queue po) @ po_delayed po))"

text \<open>\<open>M\<close> counts the items in the hands of workers.\<close>

definition pool_inv :: "byte_string multiset \<Rightarrow> pool \<Rightarrow> bool" where
  "pool_inv M po \<longleftrightarrow>
    (\<forall>ctx \<in> set (po_ctxs po). ctx_ok ctx) \<and>
    (\<forall>j a. map_of (po_jobs po) j = Some a \<longrightarrow>
      a < length (po_ctxs po) \<and> jc_job_id (ctx_at po a) = j \<and> ctx_bal (count (M + ids po) j) (ctx_at po a))"

definition frame :: "pool \<Rightarrow> pool \<Rightarrow> bool" where
  "frame po po' \<longleftrightarrow>
    po_jobs po' = po_jobs po \<and> length (po_ctxs po') = length (po_ctxs po) \<and>
    (\<forall>a < length (po_ctxs po). jc_job_id (ctx_at po' a) = jc_job_id (ctx_at po a))"

text \<open>The context of an item a worker holds is the registered one, or the job is not registered.\<close>

definition aim :: "engine_item \<Rightarrow> nat \<Rightarrow> pool \<Rightarrow> bool" where
  "aim it a po \<longleftrightarrow>
    a < length (po_ctxs po) \<and> jc_job_id (ctx_at po a) = ei_job_id it \<and>
    (map_of (po_jobs po) (ei_job_id it) = None \<or> map_of (po_jobs po) (ei_job_id it) = Some a)"

lemma frame_refl [simp]: "frame po po"
  by (simp add: frame_def)

lemma frame_trans: "frame a b \<Longrightarrow> frame b c \<Longrightarrow> frame a c"
  by (simp add: frame_def)

lemma frame_aim: "frame po po' \<Longrightarrow> aim it a po' = aim it a po"
  by (auto simp: frame_def aim_def)

lemma aim_cong: "ei_job_id it' = ei_job_id it \<Longrightarrow> aim it' a po = aim it a po"
  by (simp add: aim_def)

lemma ctx_at_upd [simp]:
  "a < length (po_ctxs po) \<Longrightarrow> ctx_at (upd_ctx a f po) b = (if b = a then f (ctx_at po a) else ctx_at po b)"
  by (simp add: ctx_at_def upd_ctx_def nth_list_update)

lemma upd_fields [simp]:
  "po_jobs (upd_ctx a f po) = po_jobs po" "po_queue (upd_ctx a f po) = po_queue po"
  "po_delayed (upd_ctx a f po) = po_delayed po" "length (po_ctxs (upd_ctx a f po)) = length (po_ctxs po)"
  "po_servers (upd_ctx a f po) = po_servers po" "po_health (upd_ctx a f po) = po_health po"
  "po_jobs (upd_queue g po) = po_jobs po" "po_ctxs (upd_queue g po) = po_ctxs po"
  "po_delayed (upd_queue g po) = po_delayed po" "po_queue (upd_queue g po) = g (po_queue po)"
  "ctx_at (upd_queue g po) = ctx_at po"
  by (auto simp: upd_ctx_def upd_queue_def ctx_at_def)

lemma upd_ctx_out: "\<not> a < length (po_ctxs po) \<Longrightarrow> upd_ctx a f po = po"
  by (simp add: upd_ctx_def list_update_beyond)

lemma upd_ctx_same:
  assumes "ctx_same (ctx_at po a) (f (ctx_at po a))"
  shows "pool_inv M (upd_ctx a f po) = pool_inv M po \<and> frame po (upd_ctx a f po)"
proof (cases "a < length (po_ctxs po)")
  case False
  then show ?thesis by (simp add: upd_ctx_out)
next
  case True
  have i: "ids (upd_ctx a f po) = ids po" by (simp add: ids_def)
  have id: "jc_job_id (f (ctx_at po a)) = jc_job_id (ctx_at po a)" using assms by (simp add: ctx_same_def)
  have "(\<forall>ctx \<in> set (po_ctxs (upd_ctx a f po)). ctx_ok ctx) \<longleftrightarrow> (\<forall>ctx \<in> set (po_ctxs po). ctx_ok ctx)"
  proof -
    have c: "(\<forall>ctx \<in> set (po_ctxs p). ctx_ok ctx) \<longleftrightarrow> (\<forall>b < length (po_ctxs p). ctx_ok (ctx_at p b))" for p
      by (auto simp: all_set_conv_all_nth ctx_at_def)
    show ?thesis unfolding c using True ctx_same_ok [OF assms] by (auto split: if_splits)
  qed
  moreover have "ctx_bal n (ctx_at (upd_ctx a f po) b) = ctx_bal n (ctx_at po b)" for n b
    using True ctx_same_bal [OF assms] by simp
  moreover have "jc_job_id (ctx_at (upd_ctx a f po) b) = jc_job_id (ctx_at po b)" for b
    using True id by simp
  ultimately show ?thesis by (simp add: pool_inv_def i frame_def)
qed

lemma pool_inv_move:
  assumes "pool_inv M po" "po_jobs po' = po_jobs po" "po_ctxs po' = po_ctxs po" "M' + ids po' = M + ids po"
  shows "pool_inv M' po' \<and> frame po po'"
  using assms by (simp add: pool_inv_def frame_def ctx_at_def)

lemma push_front_inv:
  assumes "pool_inv (add_mset (ei_job_id it) M) po"
  shows "pool_inv M (upd_queue (push_front it) po) \<and> frame po (upd_queue (push_front it) po)"
  using pool_inv_move [OF assms, of "upd_queue (push_front it) po" M] by (simp add: ids_def push_front_def)

lemma push_back_inv:
  assumes "pool_inv (add_mset (ei_job_id it) M) po"
  shows "pool_inv M (upd_queue (push_back it) po) \<and> frame po (upd_queue (push_back it) po)"
  using pool_inv_move [OF assms, of "upd_queue (push_back it) po" M] by (simp add: ids_def push_back_def)

text \<open>One item leaves a worker's hands by being resolved.\<close>

lemma resolve_at_inv:
  assumes "pool_inv (add_mset (ei_job_id it) M) po" "aim it a po"
  shows "pool_inv M (resolve_at env a po) \<and> frame po (resolve_at env a po)"
proof -
  obtain c q where r: "resolve_one env (ctx_at po a) (po_queue po) = (c, q)"
    by (cases "resolve_one env (ctx_at po a) (po_queue po)")
  have a: "a < length (po_ctxs po)" using assms(2) by (simp add: aim_def)
  have ok: "ctx_ok (ctx_at po a)" using assms(1) a by (auto simp: pool_inv_def ctx_at_def)
  obtain items where i: "ctx_ok c" "jc_job_id c = jc_job_id (ctx_at po a)"
    "mset (qs_items q) = mset (qs_items (po_queue po)) + mset items"
    "\<forall>x \<in> set items. ei_job_id x = jc_job_id (ctx_at po a)"
    "\<And>n. ctx_bal (Suc n) (ctx_at po a) \<Longrightarrow> ctx_bal (n + length items) c"
    using resolve_one_exact [OF r ok] by blast
  define po' where "po' = po\<lparr>po_ctxs := (po_ctxs po)[a := c], po_queue := q\<rparr>"
  have e: "resolve_at env a po = po'" by (simp add: resolve_at_def r po'_def)
  have at: "ctx_at po' b = (if b = a then c else ctx_at po b)" for b
    using a by (simp add: po'_def ctx_at_def)
  have fr: "frame po po'" using a i(2) by (auto simp: frame_def po'_def ctx_at_def nth_list_update)
  have "map ei_job_id items = replicate (length items) (ei_job_id it)"
    using i(4) assms(2) by (intro replicate_eqI) (auto simp: aim_def)
  then have "mset (map ei_job_id items) = replicate_mset (length items) (ei_job_id it)"
    by (metis mset_replicate)
  then have new: "ids po' = ids po + replicate_mset (length items) (ei_job_id it)"
    using i(3) by (simp add: ids_def po'_def)
  have "ctx_bal (count (M + ids po') j) (ctx_at po' b)" if j: "map_of (po_jobs po) j = Some b" for j b
  proof (cases "j = ei_job_id it")
    case True
    then have b: "b = a" using j assms(2) by (auto simp: aim_def)
    have "ctx_bal (count (add_mset (ei_job_id it) M + ids po) j) (ctx_at po a)"
      using assms(1) j b unfolding pool_inv_def by blast
    then have "ctx_bal (Suc (count (M + ids po) j)) (ctx_at po a)" using True by simp
    from i(5) [OF this] show ?thesis using True by (simp add: at b new add.assoc)
  next
    case False
    then have "b \<noteq> a" using j assms by (auto simp: pool_inv_def aim_def)
    moreover have "ctx_bal (count (add_mset (ei_job_id it) M + ids po) j) (ctx_at po b)"
      using assms(1) j unfolding pool_inv_def by blast
    ultimately show ?thesis using False by (simp add: at new)
  qed
  moreover have "ctx_ok x" if "x \<in> set (po_ctxs po')" for x
    using that assms(1) i(1) by (auto simp: pool_inv_def po'_def dest!: set_update_subset_insert [THEN subsetD])
  moreover have "b < length (po_ctxs po') \<and> jc_job_id (ctx_at po' b) = j" if "map_of (po_jobs po) j = Some b" for j b
    using that assms(1) fr by (auto simp: pool_inv_def frame_def)
  moreover have "po_jobs po' = po_jobs po" by (simp add: po'_def)
  ultimately show ?thesis using fr unfolding e by (simp add: pool_inv_def)
qed

section \<open>Handlers\<close>

text \<open>\<open>keeps it po po'\<close>: the item leaves the worker's hands and stays accounted for.\<close>

definition keeps :: "engine_item \<Rightarrow> pool \<Rightarrow> pool \<Rightarrow> bool" where
  "keeps it po po' \<longleftrightarrow>
    frame po po' \<and> (\<forall>M. pool_inv (add_mset (ei_job_id it) M) po \<longrightarrow> pool_inv M po')"

text \<open>\<open>steady po po'\<close>: nothing moves.\<close>

definition steady :: "pool \<Rightarrow> pool \<Rightarrow> bool" where
  "steady po po' \<longleftrightarrow> frame po po' \<and> (\<forall>M. pool_inv M po \<longrightarrow> pool_inv M po')"

lemma steady_refl [simp]: "steady po po"
  by (simp add: steady_def)

lemma steady_trans: "steady a b \<Longrightarrow> steady b c \<Longrightarrow> steady a c"
  by (auto simp: steady_def intro: frame_trans)

lemma steady_keeps: "steady a b \<Longrightarrow> keeps it b c \<Longrightarrow> keeps it a c"
  by (auto simp: steady_def keeps_def intro: frame_trans)

lemma keeps_cong: "ei_job_id it' = ei_job_id it \<Longrightarrow> keeps it' po po' = keeps it po po'"
  by (simp add: keeps_def)

lemma steady_aim: "steady po po' \<Longrightarrow> aim it a po' = aim it a po"
  by (simp add: steady_def frame_aim)

lemma steady_upd: "ctx_same (ctx_at po a) (f (ctx_at po a)) \<Longrightarrow> steady po (upd_ctx a f po)"
  by (auto simp: steady_def dest: upd_ctx_same [where M = M for M])

lemma steady_outcome: "steady po (upd_ctx a (send_attempt it oc) po)"
  by (rule steady_upd) (rule ctx_same_outcome)

lemma keeps_resolve: "aim it a po \<Longrightarrow> keeps it po (resolve_at env a po)"
proof -
  assume a: "aim it a po"
  have "frame po (resolve_at env a po)"
  proof -
    obtain c q where r: "resolve_one env (ctx_at po a) (po_queue po) = (c, q)"
      by (cases "resolve_one env (ctx_at po a) (po_queue po)")
    have "jc_job_id c = jc_job_id (ctx_at po a)"
    proof -
      have rh: "jc_job_id c' = jc_job_id c0" if "release_held b c0 q0 = (r', c', q')" for b c0 q0 r' c' q'
        using that by (auto simp: release_held_def wanted_volumes_def Let_def split: option.splits if_splits prod.splits)
      show ?thesis
        using r rh [of False "ctx_at po a" "po_queue po"] rh [of True]
        by (fastforce simp: resolve_one_def Let_def emit_terminal_fields split: prod.splits if_splits bool.splits)
    qed
    moreover have "resolve_at env a po = po\<lparr>po_ctxs := (po_ctxs po)[a := c], po_queue := q\<rparr>"
      by (simp add: resolve_at_def r)
    ultimately show ?thesis
      using a by (auto simp: frame_def ctx_at_def aim_def nth_list_update)
  qed
  with a show ?thesis by (auto simp: keeps_def resolve_at_inv)
qed

lemma keeps_push_front: "ei_job_id it' = ei_job_id it \<Longrightarrow> keeps it po (upd_queue (push_front it') po)"
  using push_front_inv [of it'] by (auto simp: keeps_def frame_def)

lemma keeps_push_back: "ei_job_id it' = ei_job_id it \<Longrightarrow> keeps it po (upd_queue (push_back it') po)"
  using push_back_inv [of it'] by (auto simp: keeps_def frame_def)

lemma keeps_fail_item:
  assumes "aim it a po"
  shows "keeps it po (fail_item env it a confirmed failure po)"
  unfolding fail_item_def
proof (rule steady_keeps [OF steady_upd keeps_resolve])
  let ?f = "\<lambda>ctx. (send_to_job (ArticleFailed (ei_job_id it) (ei_file_id it) (ei_segment_number it) failure)
           (ctx\<lparr>jc_slices := tracker_record_failure (ei_file_id it) confirmed (jc_slices ctx)\<rparr>))
         \<lparr>jc_failed := jc_failed ctx + 1\<rparr>"
  show s: "ctx_same (ctx_at po a) (?f (ctx_at po a))"
    by (simp add: ctx_same_def terminal_messages_def send_to_job_def channel_log_send)
  show "aim it a (upd_ctx a ?f po)"
    using assms steady_aim [OF steady_upd [where f = ?f, OF s]] by simp
qed

lemma keeps_fail_incomplete: "aim it a po \<Longrightarrow> keeps it po (fail_incomplete_nzb_article env it a server msg po)"
  unfolding fail_incomplete_nzb_article_def
  by (intro steady_keeps [OF steady_outcome keeps_fail_item]) (simp add: steady_aim [OF steady_outcome])

lemma keeps_fail_assembly: "aim it a po \<Longrightarrow> keeps it po (fail_assembly env it a server msg po)"
  unfolding fail_assembly_def
  by (intro steady_keeps [OF steady_outcome keeps_fail_item]) (simp add: steady_aim [OF steady_outcome])

lemma keeps_fail_everywhere: "aim it a po \<Longrightarrow> keeps it po (fail_article_everywhere env it sid a msg po)"
  unfolding fail_article_everywhere_def by (rule keeps_fail_item)

lemma job_id_note [simp]: "ei_job_id (note_outcome s k it) = ei_job_id it"
  by (simp add: note_outcome_def)

lemma job_id_confirm [simp]: "ei_job_id (confirm_round it) = ei_job_id it"
  by (simp add: confirm_round_def)

lemma keeps_delay:
  assumes "ei_job_id it' = ei_job_id it"
  shows "keeps it po (po\<lparr>po_delayed := po_delayed po @ [it']\<rparr>)"
proof -
  have "pool_inv M (po\<lparr>po_delayed := po_delayed po @ [it']\<rparr>)" if "pool_inv (add_mset (ei_job_id it) M) po" for M
    using pool_inv_move [OF that, of "po\<lparr>po_delayed := po_delayed po @ [it']\<rparr>" M] assms by (simp add: ids_def)
  then show ?thesis by (simp add: keeps_def frame_def ctx_at_def)
qed

lemma keeps_not_available:
  assumes "aim it a po"
  shows "keeps it po (snd (handle_article_not_available env it server a kind msg po))"
proof -
  have "aim (note_outcome server kind it) a po" using assms by (simp add: aim_def)
  then have "keeps it po (fail_article_everywhere env (note_outcome server kind it) (sc_id server) a msg po)"
    using keeps_fail_everywhere keeps_cong [OF job_id_note] by blast
  then show ?thesis
    by (simp add: handle_article_not_available_def Let_def keeps_delay keeps_push_front)
qed

lemma keeps_retry:
  assumes "aim it a po"
  shows "keeps it po (snd (retry_or_fail_over env it server a kind msg po))"
proof -
  define it' where "it' = it\<lparr>ei_tries_on_current := ei_tries_on_current it + 1\<rparr>"
  have j: "ei_job_id it' = ei_job_id it" by (simp add: it'_def)
  have "keeps it po (snd (handle_article_not_available env it' server a kind m po))" for m
    using keeps_not_available [of it' a po] assms j keeps_cong [OF j] aim_cong [OF j] by simp
  then show ?thesis
    unfolding retry_or_fail_over_def it'_def [symmetric] Let_def
    using keeps_push_front [OF j] by simp
qed

lemma steady_for_jobs:
  assumes "\<And>ctx. ctx_same ctx (f ctx)"
  shows "steady po (for_jobs f po)"
proof -
  have "steady po (fold (\<lambda>(_, a). upd_ctx a f) js po)" for js
  proof (induction js arbitrary: po)
    case (Cons e js)
    obtain j a where e: "e = (j, a)" by (cases e)
    show ?case
      using steady_trans [OF steady_upd [where f = f, OF assms] Cons.IH] by (simp add: e)
  qed simp
  then show ?thesis by (simp add: for_jobs_def)
qed

lemma steady_outage: "steady po (report_provider_outage env po)"
  by (simp add: report_provider_outage_def steady_for_jobs ctx_same_waiting split: option.splits)

lemma steady_available: "steady po (pool_providers_available po)"
  by (simp add: pool_providers_available_def steady_for_jobs ctx_same_available)

lemma steady_config: "steady po (po\<lparr>po_servers := s, po_health := h, po_defer := d\<rparr>)"
  by (auto simp: steady_def pool_inv_def frame_def ctx_at_def ids_def)

lemma steady_health: "steady po (po\<lparr>po_health := h\<rparr>)"
  by (auto simp: steady_def pool_inv_def frame_def ctx_at_def ids_def)

lemma steady_break: "steady po (break_server env server is_auth msg po)"
  unfolding break_server_def by (rule steady_trans [OF steady_health steady_outage])

lemma steady_fetch:
  "run_fetch env it a reply po = (r, po') \<Longrightarrow> steady po po'"
  by (auto simp: run_fetch_def ctx_same_def terminal_messages_def split: prod.splits intro!: steady_upd)

lemma steady_decode:
  "run_decode env it a raw po = (r, po') \<Longrightarrow> steady po po'"
  by (auto simp: run_decode_def ctx_same_def terminal_messages_def split: prod.splits intro!: steady_upd)

lemma keeps_done:
  assumes "article_done env it server a r po = Some po'" "aim it a po"
  shows "keeps it po po'"
proof -
  define ctx where "ctx = record_perf env it r (ctx_at po a)"
  obtain js where js: "tracker_record_write (en_tracker env) (ei_file_id it) (dr_write_offset r) (dr_decoded_bytes r)
      (dr_file_complete r) (jc_slices ctx) = Some js"
    using assms(1) by (auto simp: article_done_def Let_def ctx_def split: option.splits)
  let ?f = "\<lambda>_ :: job_context. send_to_job
                (ArticleComplete (ei_job_id it) (ei_file_id it) (ei_segment_number it) (dr_decoded_bytes r)
                  (dr_file_complete r) (Some (sc_id server)) (dr_yenc_filename r))
                (send_attempt it Present (ctx\<lparr>jc_slices := js\<rparr>))"
  have po': "po' = resolve_at env a (upd_ctx a ?f po)"
    using assms(1) js by (simp add: article_done_def Let_def ctx_def)
  have same: "ctx_same (ctx_at po a) (?f (ctx_at po a))"
    by (simp add: ctx_same_def terminal_messages_def send_to_job_def send_attempt_def channel_log_send ctx_def record_perf_def)
  have s: "steady po (upd_ctx a ?f po)" by (rule steady_upd [where f = ?f]) (rule same)
  show ?thesis
    unfolding po' using assms(2) steady_aim [OF s] by (intro steady_keeps [OF s keeps_resolve]) simp
qed

text \<open>The same after the attempt has been reported.\<close>

lemma outcome_not_available:
  "aim it a po \<Longrightarrow>
    keeps it po (snd (handle_article_not_available env it server a kind msg (upd_ctx a (send_attempt it oc) po)))"
  by (rule steady_keeps [OF steady_outcome [of po a it oc] keeps_not_available])
    (simp add: steady_aim [OF steady_outcome])

lemma outcome_retry:
  "aim it a po \<Longrightarrow> keeps it po (snd (retry_or_fail_over env it server a kind msg (upd_ctx a (send_attempt it oc) po)))"
  by (rule steady_keeps [OF steady_outcome [of po a it oc] keeps_retry]) (simp add: steady_aim [OF steady_outcome])

lemma outcome_push_front: "keeps it po (upd_queue (push_front it) (upd_ctx a (send_attempt it oc) po))"
  by (rule steady_keeps [OF steady_outcome [of po a it oc] keeps_push_front]) simp

lemma keeps_serial_error:
  assumes "aim it a po"
  shows "keeps it po (snd (serial_error env it server a ready e po))"
proof (cases e)
  case (AE_ProviderUnavailable kind msg)
  have "keeps it (upd_ctx a (send_attempt it (transport_attempt server)) po)
     (upd_queue (push_front it) (break_server env server (is_auth_kind kind) msg
       (upd_ctx a (send_attempt it (transport_attempt server)) po)))"
    by (rule steady_keeps [OF steady_break keeps_push_front]) simp
  then show ?thesis
    using steady_keeps [OF steady_outcome] by (simp add: AE_ProviderUnavailable)
qed (use assms in \<open>simp_all add: outcome_not_available outcome_retry outcome_push_front keeps_fail_incomplete
    keeps_fail_assembly keeps_resolve\<close>)

lemma keeps_serial:
  assumes "run_worker_serial env server it a ready reply po = Some (nxt, po')" "aim it a po"
  shows "keeps it po po'"
proof (cases reply)
  case None
  then have "po' = snd (retry_or_fail_over env it server a FK_Timeout ''connection stalled''
      (upd_ctx a (send_attempt it (transport_attempt server)) po))"
    using assms(1) by (simp add: run_worker_serial_def)
  then show ?thesis
    using assms(2) by (simp add: outcome_retry)
next
  case (Some rep)
  obtain r po1 where f: "run_fetch env it a rep po = (r, po1)" by (cases "run_fetch env it a rep po")
  note s = steady_fetch [OF f]
  have a1: "aim it a po1" using assms(2) by (simp add: steady_aim [OF s])
  show ?thesis
  proof (cases r)
    case (Inr res)
    then have "article_done env it server a res po1 = Some po'"
      using assms(1) Some f by (auto simp: run_worker_serial_def)
    then show ?thesis using steady_keeps [OF s keeps_done] a1 by blast
  next
    case (Inl e)
    then have "po' = snd (serial_error env it server a ready e po1)"
      using assms(1) Some f by (auto simp: run_worker_serial_def)
    then show ?thesis using steady_keeps [OF s keeps_serial_error] a1 by blast
  qed
qed

end
