(* ===== verification/Engine_Steps_Proofs.thy ===== *)
theory Engine_Steps_Proofs
  imports Engine_World_Proofs
begin

text \<open>
  Every step of the download engine keeps the accounting invariant of \<open>Engine_World_Proofs\<close>, and
  what follows for the reachable states.
\<close>

section \<open>Taking an item\<close>

lemma ids_alt: "ids po = image_mset ei_job_id (queue_items (po_queue po) + mset (po_delayed po))"
  by (simp add: ids_def queue_items_def)

lemma pool_inv_alt:
  "pool_inv M po \<longleftrightarrow>
    (\<forall>ctx \<in> set (po_ctxs po). ctx_ok ctx) \<and>
    (\<forall>j a. map_of (po_jobs po) j = Some a \<longrightarrow>
      a < length (po_ctxs po) \<and> jc_job_id (ctx_at po a) = j \<and> ctx_bal (count M j + count (ids po) j) (ctx_at po a))"
  by (simp add: pool_inv_def)

text \<open>Items of a job that is not registered do not count.\<close>

lemma pool_inv_count_cong:
  assumes "\<And>i a. map_of (po_jobs po) i = Some a \<Longrightarrow> count M i = count M' i" "pool_inv M po"
  shows "pool_inv M' po"
  unfolding pool_inv_alt
proof (intro conjI allI impI)
  show "\<forall>ctx \<in> set (po_ctxs po). ctx_ok ctx" using assms(2) by (simp add: pool_inv_alt)
  fix i a
  assume m: "map_of (po_jobs po) i = Some a"
  show "a < length (po_ctxs po)" "jc_job_id (ctx_at po a) = i"
    using assms(2) m by (simp_all add: pool_inv_alt)
  show "ctx_bal (count M' i + count (ids po) i) (ctx_at po a)"
    using assms(2) m unfolding assms(1) [OF m, symmetric] by (simp add: pool_inv_alt)
qed

lemma pool_inv_drop:
  assumes "map_of (po_jobs po) j = None"
  shows "pool_inv (add_mset j M) po = pool_inv M po"
  using assms by (auto elim!: pool_inv_count_cong [rotated])

lemma registered_aim: "pool_inv M po \<Longrightarrow> map_of (po_jobs po) (ei_job_id it) = Some a \<Longrightarrow> aim it a po"
  by (simp add: pool_inv_def aim_def)

lemma pop_inv:
  assumes "pop_workable sid hp (po_queue po) = (Some it, q)" "pool_inv M po"
  shows "pool_inv (add_mset (ei_job_id it) M) (po\<lparr>po_queue := q\<rparr>) \<and> frame po (po\<lparr>po_queue := q\<rparr>)"
  using pop_workable_items [OF assms(1)]
  by (intro pool_inv_move [OF assms(2)]) (simp_all add: ids_alt)

lemma next_work_item_inv:
  assumes "next_work_item env sid hp po = (r, po')" "pool_inv M po"
  shows "frame po po' \<and>
    (case r of NW_Item it a \<Rightarrow> pool_inv (add_mset (ei_job_id it) M) po' \<and> aim it a po'
     | _ \<Rightarrow> pool_inv M po')"
proof (cases "pop_workable sid hp (po_queue po)")
  case (Pair ito q)
  show ?thesis
  proof (cases ito)
    case None
    then show ?thesis using assms Pair by (auto simp: next_work_item_def)
  next
    case (Some it)
    define po1 where "po1 = po\<lparr>po_queue := q\<rparr>"
    have p: "pool_inv (add_mset (ei_job_id it) M) po1" "frame po po1"
      using pop_inv [OF _ assms(2), of sid hp it q] Pair Some by (simp_all add: po1_def)
    show ?thesis
    proof (cases "map_of (po_jobs po1) (ei_job_id it)")
      case None
      then have "r = NW_Again" "po' = po1"
        using assms(1) Pair Some by (auto simp: next_work_item_def Let_def po1_def)
      then show ?thesis using p pool_inv_drop [OF None] by simp
    next
      case (Some a)
      have aim: "aim it a po1" by (rule registered_aim [OF p(1) Some])
      have e: "(if jc_cancelled (ctx_at po1 a) then (NW_Again, resolve_at env a po1)
         else if jc_paused (ctx_at po1 a) then (NW_Again, upd_queue (push_back it) po1)
         else (NW_Item it a, po1)) = (r, po')"
        using assms(1) Pair \<open>ito = Some it\<close> Some by (auto simp: next_work_item_def Let_def po1_def split: if_splits)
      show ?thesis
        using e p keeps_resolve [OF aim, of env] keeps_push_back [of it it po1] aim
        by (auto simp: keeps_def split: if_splits intro: frame_trans)
    qed
  qed
qed

section \<open>Pipelined workers\<close>

definition fl_ids :: "in_flight \<Rightarrow> byte_string multiset" where
  "fl_ids fl = image_mset ei_job_id (mset (map snd fl))"

lemma fl_ids_simps [simp]:
  "fl_ids [] = {#}" "fl_ids (e # fl) = add_mset (ei_job_id (snd e)) (fl_ids fl)"
  "fl_ids (fl @ fl') = fl_ids fl + fl_ids fl'"
  by (simp_all add: fl_ids_def)

lemma fl_ids_delete:
  "distinct (map fst fl) \<Longrightarrow> map_of fl t = Some it \<Longrightarrow>
    fl_ids fl = add_mset (ei_job_id it) (fl_ids (AList.delete t fl))"
proof (induction fl)
  case (Cons e fl)
  obtain s x where e: "e = (s, x)" by (cases e)
  show ?case
  proof (cases "s = t")
    case True
    then have "t \<notin> fst ` set fl" using Cons.prems(1) e by simp
    then have "AList.delete t fl = fl" by (simp add: delete_id)
    then show ?thesis using Cons.prems(2) True e by simp
  next
    case False
    then show ?thesis using Cons e by (simp add: delete_simps)
  qed
qed simp

lemma requeue_flights_inv:
  assumes "pool_inv (fl_ids fl + M) po"
  shows "pool_inv M (requeue_flights fl po) \<and> frame po (requeue_flights fl po)"
  by (rule pool_inv_move [OF assms]) (simp_all add: requeue_flights_def ids_alt queue_items_simps fl_ids_def)

lemma fill_round_inv:
  assumes "fill_round env s hp (fl, tag, po) = (b, fl', tag', po')" "pool_inv (fl_ids fl + M) po"
  shows "pool_inv (fl_ids fl' + M) po' \<and> frame po po' \<and>
    (fl' = fl \<and> tag' = tag \<or> (\<exists>it. fl' = fl @ [(tag, it)] \<and> tag' = tag + 1))"
proof (cases "pop_workable (sc_id s) hp (po_queue po)")
  case (Pair ito q)
  show ?thesis
  proof (cases "length fl < unat (sc_pipelining s) \<and> ito \<noteq> None")
    case False
    then show ?thesis using assms Pair by (auto simp: fill_round_def split: if_splits option.splits)
  next
    case True
    then obtain it where it: "ito = Some it" and l: "length fl < unat (sc_pipelining s)" by auto
    define po1 where "po1 = po\<lparr>po_queue := q\<rparr>"
    have p: "pool_inv (add_mset (ei_job_id it) (fl_ids fl + M)) po1" "frame po po1"
      using pop_inv [OF _ assms(2), of "sc_id s" hp it q] Pair it by (simp_all add: po1_def)
    show ?thesis
    proof (cases "map_of (po_jobs po1) (ei_job_id it)")
      case None
      then have "fl' = fl" "tag' = tag" "po' = po1"
        using assms(1) Pair it l by (auto simp: fill_round_def Let_def po1_def)
      then show ?thesis using p pool_inv_drop [OF None] by simp
    next
      case (Some a)
      have aim: "aim it a po1" by (rule registered_aim [OF p(1) Some])
      have e: "(if jc_cancelled (ctx_at po1 a) then (True, fl, tag, resolve_at env a po1)
         else if jc_paused (ctx_at po1 a) then (False, fl, tag, upd_queue (push_back it) po1)
         else (True, fl @ [(tag, it)], tag + 1, po1)) = (b, fl', tag', po')"
        using assms(1) Pair it l Some by (auto simp: fill_round_def Let_def po1_def split: if_splits)
      show ?thesis
        using e p keeps_resolve [OF aim, of env] keeps_push_back [of it it po1]
        by (auto simp: keeps_def split: if_splits intro: frame_trans)
    qed
  qed
qed

lemma decode_errors:
  "decode_and_assemble_offloaded env it raw st = (Inl e, st') \<Longrightarrow>
    (\<exists>m. e = AE_DecodeError m \<or> e = AE_IncompleteNzb m \<or> e = AE_AssemblyError m)"
  by (auto simp: decode_and_assemble_offloaded_def decode_and_assemble_def assemble_decoded_def
      place_error_def Let_def split: option.splits sum.splits prod.splits if_splits)

lemma run_decode_errors:
  "run_decode env it a raw po = (Inl e, po') \<Longrightarrow>
    (\<exists>m. e = AE_DecodeError m \<or> e = AE_IncompleteNzb m \<or> e = AE_AssemblyError m)"
  by (auto simp: run_decode_def split: prod.splits dest: decode_errors)

lemma keeps_body:
  assumes "pipeline_body env it server a raw po = Some po'" "aim it a po"
  shows "keeps it po po'"
proof -
  obtain r po1 where d: "run_decode env it a raw po = (r, po1)" by (cases "run_decode env it a raw po")
  note s = steady_decode [OF d]
  have a1: "aim it a po1" using assms(2) by (simp add: steady_aim [OF s])
  have "keeps it po1 po'"
  proof (cases r)
    case (Inr res)
    then show ?thesis using assms(1) d a1 by (auto simp: pipeline_body_def intro: keeps_done)
  next
    case (Inl e)
    obtain m where "e = AE_DecodeError m \<or> e = AE_IncompleteNzb m \<or> e = AE_AssemblyError m"
      using run_decode_errors d Inl by blast
    then show ?thesis
      using assms(1) d a1 Inl
      by (auto simp: pipeline_body_def outcome_not_available keeps_fail_incomplete keeps_fail_assembly)
  qed
  then show ?thesis by (rule steady_keeps [OF s])
qed

lemma keeps_pipeline_error:
  assumes "aim it a po"
  shows "keeps it po (pipeline_error env it server a e po)"
proof -
  define po1 where "po1 = upd_ctx a (send_attempt it (transport_attempt server)) po"
  define po2 where "po2 = (if counts_against_circuit_breaker e
      then break_server env server (is_auth_kind (failure_kind_of e)) (nntp_error_display e) po1 else po1)"
  have s: "steady po po2"
  proof -
    have "steady po po1" unfolding po1_def by (rule steady_outcome)
    then show ?thesis unfolding po2_def using steady_trans [OF _ steady_break] by simp
  qed
  define it1 where "it1 = it\<lparr>ei_outage_tries := ei_outage_tries it + 1\<rparr>"
  have j: "ei_job_id it1 = ei_job_id it" by (simp add: it1_def)
  have a2: "aim it a po2" "aim it1 a po2" using assms by (simp_all add: steady_aim [OF s] aim_cong [OF j])
  have r: "keeps it po2 (snd (retry_or_fail_over env it1 server a k m po2))" for k m
    using keeps_retry [OF a2(2), of env server k m] by (simp add: keeps_cong [OF j])
  have "keeps it po2 (pipeline_error env it server a e po)"
    unfolding pipeline_error_def Let_def po1_def [symmetric] po2_def [symmetric] it1_def [symmetric]
    using keeps_push_front [of it it po2] keeps_push_front [OF j, of po2] r keeps_retry [OF a2(1)] by simp
  then show ?thesis by (rule steady_keeps [OF s])
qed

lemma pipeline_answer_inv:
  assumes "pipeline_result_step env s t reply fl po = Some (nxt, fl', po')"
    and "pool_inv (fl_ids fl + M) po" "distinct (map fst fl)"
  shows "pool_inv (fl_ids fl' + M) po' \<and> frame po po' \<and>
    distinct (map fst fl') \<and> set (map fst fl') \<subseteq> set (map fst fl)"
proof (cases "map_of fl t")
  case None
  then show ?thesis using assms by (auto simp: pipeline_result_step_def)
next
  case (Some it)
  define rest where "rest = AList.delete t fl"
  have i: "pool_inv (add_mset (ei_job_id it) (fl_ids rest + M)) po"
    using assms(2) fl_ids_delete [OF assms(3) Some] by (simp add: rest_def)
  have d: "distinct (map fst rest)" "set (map fst rest) \<subseteq> set (map fst fl)"
    using assms(3) by (auto simp: rest_def delete_keys distinct_removeAll)
  show ?thesis
  proof (cases "map_of (po_jobs po) (ei_job_id it)")
    case None
    then have "fl' = rest" "po' = po" using assms(1) Some by (auto simp: pipeline_result_step_def Let_def rest_def)
    then show ?thesis using i d pool_inv_drop [OF None] by simp
  next
    case (Some a)
    have aim: "aim it a po" by (rule registered_aim [OF i Some])
    have one: "pool_inv (fl_ids fl' + M) po' \<and> frame po po'" if "fl' = rest" "keeps it po po'"
      using that i by (simp add: keeps_def)
    have two: "pool_inv (fl_ids fl' + M) po' \<and> frame po po'"
      if "fl' = []" "po' = requeue_flights rest pm" "keeps it po pm" for pm
      using that i requeue_flights_inv [of rest M pm] by (auto simp: keeps_def intro: frame_trans)
    note step = assms(1) [unfolded pipeline_result_step_def, unfolded \<open>map_of fl t = Some it\<close> option.case Let_def
        rest_def [symmetric] Some]
    show ?thesis
    proof (cases "jc_cancelled (ctx_at po a)")
      case True
      then have "fl' = rest" "po' = resolve_at env a po" using step by auto
      then show ?thesis using one keeps_resolve [OF aim] d by auto
    next
      case False
      show ?thesis
      proof (cases reply)
        case (Inr raw)
        then have "fl' = rest" "pipeline_body env it s a raw po = Some po'" using step False by auto
        then show ?thesis using one keeps_body [OF _ aim] d by auto
      next
        case (Inl e)
        consider (absent) "is_article_absence e" | (conn) "\<not> is_article_absence e" "is_connection_error e"
          | (other) "\<not> is_article_absence e" "\<not> is_connection_error e" by blast
        then show ?thesis
        proof cases
          case absent
          then have "fl' = rest" "po' = snd (handle_article_not_available env it s a FK_NotFound
              ''Article not found on any server'' (upd_ctx a (send_attempt it (refused_attempt s)) po))"
            using step False Inl by auto
          then show ?thesis using one outcome_not_available [OF aim] d by auto
        next
          case conn
          then have e: "fl' = []" "po' = requeue_flights rest
              (upd_queue (push_front it) (upd_ctx a (send_attempt it (transport_attempt s)) po))"
            using step False Inl by auto
          then show ?thesis using two [OF e outcome_push_front] by simp
        next
          case other
          then have e: "fl' = []" "po' = requeue_flights rest (pipeline_error env it s a e po)"
            using step False Inl by auto
          then show ?thesis using two [OF e keeps_pipeline_error [OF aim]] by simp
        qed
      qed
    qed
  qed
qed

lemma stall_flights_inv:
  assumes "pool_inv (fl_ids fl + M) po"
  shows "pool_inv M (stall_flights s fl po) \<and> frame po (stall_flights s fl po)"
proof -
  define f where "f = (\<lambda>(t :: nat, it) po. case map_of (po_jobs po) (ei_job_id it) of
          None \<Rightarrow> po
        | Some a \<Rightarrow> upd_ctx a (send_attempt it (transport_attempt s)) po)"
  have "steady po (fold f gs po)" for gs po
  proof (induction gs arbitrary: po)
    case (Cons e gs)
    have "steady po (f e po)"
      by (cases e) (auto simp: f_def steady_outcome split: option.splits)
    then show ?case using steady_trans [OF _ Cons.IH] by simp
  qed simp
  then have st: "steady po (fold f fl po)" .
  then have "pool_inv (fl_ids fl + M) (fold f fl po)" using assms by (simp add: steady_def)
  from requeue_flights_inv [OF this] st show ?thesis
    by (auto simp: stall_flights_def f_def steady_def intro: frame_trans)
qed

section \<open>Jobs\<close>

lemma resolve_many_inv:
  assumes "pool_inv (replicate_mset (length xs) j + M) po" "a < length (po_ctxs po)"
    "jc_job_id (ctx_at po a) = j" "map_of (po_jobs po) j = Some a"
  shows "pool_inv M (fold (\<lambda>_. resolve_at env a) xs po) \<and> frame po (fold (\<lambda>_. resolve_at env a) xs po)"
  using assms
proof (induction xs arbitrary: po)
  case (Cons x xs)
  obtain it :: engine_item where it: "ei_job_id it = j" by (metis engine_item.select_convs(1))
  have aim: "aim it a po" using Cons.prems by (simp add: aim_def it)
  have i: "pool_inv (add_mset (ei_job_id it) (replicate_mset (length xs) j + M)) po"
    using Cons.prems(1) by (simp add: it)
  note r = resolve_at_inv [OF i aim, of env]
  then have "a < length (po_ctxs (resolve_at env a po))" "jc_job_id (ctx_at (resolve_at env a po) a) = j"
    "map_of (po_jobs (resolve_at env a po)) j = Some a"
    using Cons.prems by (auto simp: frame_def)
  from Cons.IH [OF conjunct1 [OF r] this] r show ?case by (auto intro: frame_trans)
qed simp

lemma count_ids_drain:
  assumes "queue_drain_job j (po_queue po) = (drained, q)"
  shows "ids po = ids (po\<lparr>po_queue := q\<rparr>) + replicate_mset (length drained) j"
proof -
  have 1: "mset drained = filter_mset (\<lambda>i. ei_job_id i = j) (queue_items (po_queue po))"
    and 2: "queue_items q = filter_mset (\<lambda>i. ei_job_id i \<noteq> j) (queue_items (po_queue po))"
    using queue_items_drain [of j "po_queue po"] assms by simp_all
  have "image_mset ei_job_id (mset drained) = replicate_mset (length drained) j"
  proof -
    have "map ei_job_id drained = replicate (length drained) j"
      using 1 by (intro replicate_eqI) (auto dest: arg_cong [where f = set_mset])
    then show ?thesis by (metis mset_map mset_replicate)
  qed
  moreover have "queue_items (po_queue po) = queue_items q + mset drained"
    unfolding 1 2 by (metis multiset_partition union_commute)
  ultimately show ?thesis by (simp add: ids_alt)
qed

lemma abort_job_inv:
  assumes "pool_inv M po"
  shows "pool_inv M (snd (abort_job env job reason po)) \<and> frame po (snd (abort_job env job reason po))"
proof (cases "map_of (po_jobs po) job")
  case None
  then show ?thesis using assms by (simp add: abort_job_def)
next
  case (Some a)
  show ?thesis
  proof (cases "jc_abort_reason (ctx_at po a) = None")
    case False
    then show ?thesis using assms Some by (simp add: abort_job_def)
  next
    case True
    define po1 where "po1 = upd_ctx a (\<lambda>ctx. ctx\<lparr>jc_abort_reason := Some reason, jc_cancelled := True\<rparr>) po"
    obtain drained q where d: "queue_drain_job job (po_queue po1) = (drained, q)"
      by (cases "queue_drain_job job (po_queue po1)")
    define po2 where "po2 = po1\<lparr>po_queue := q\<rparr>"
    define po3 where "po3 = fold (\<lambda>_. resolve_at env a) drained po2"
    have s: "steady po po1"
      unfolding po1_def by (rule steady_upd) (simp add: ctx_same_def terminal_messages_def)
    have i1: "pool_inv M po1" and f1: "frame po po1" using s assms by (auto simp: steady_def)
    have i2: "pool_inv (replicate_mset (length drained) job + M) po2" and f2: "frame po1 po2"
    proof -
      have "replicate_mset (length drained) job + M + ids po2 = M + ids po1"
        using count_ids_drain [OF d] by (simp add: po2_def)
      from pool_inv_move [OF i1 _ _ this]
      show "pool_inv (replicate_mset (length drained) job + M) po2" "frame po1 po2" by (simp_all add: po2_def)
    qed
    have reg: "map_of (po_jobs po2) job = Some a" using Some f1 f2 by (simp add: frame_def)
    then have "a < length (po_ctxs po2)" "jc_job_id (ctx_at po2 a) = job" using i2 by (auto simp: pool_inv_def)
    then have i3: "pool_inv M po3" and f3: "frame po2 po3"
      using resolve_many_inv [OF i2 _ _ reg] by (auto simp: po3_def)
    have f: "frame po po3" using frame_trans [OF frame_trans [OF f1 f2] f3] .
    have "upd_ctx a (emit_terminal env) po3 = po3" if "jc_remaining (ctx_at po3 a) = 0"
    proof -
      have "map_of (po_jobs po3) job = Some a" using Some f by (simp add: frame_def)
      then have "jc_finished (ctx_at po3 a)" using i3 that by (auto simp: pool_inv_def ctx_bal_def)
      then show ?thesis by (simp add: upd_ctx_def emit_terminal_finished ctx_at_def)
    qed
    then have "snd (abort_job env job reason po) = po3"
      using Some True d by (simp add: abort_job_def Let_def po1_def [symmetric] po2_def [symmetric] po3_def [symmetric])
    then show ?thesis using i3 f by simp
  qed
qed

text \<open>Operations that unregister a job.\<close>

definition shrinks :: "pool \<Rightarrow> pool \<Rightarrow> bool" where
  "shrinks po po' \<longleftrightarrow>
    map_of (po_jobs po') \<subseteq>\<^sub>m map_of (po_jobs po) \<and> length (po_ctxs po') = length (po_ctxs po) \<and>
    (\<forall>a < length (po_ctxs po). jc_job_id (ctx_at po' a) = jc_job_id (ctx_at po a))"

lemma frame_shrinks: "frame po po' \<Longrightarrow> shrinks po po'"
  by (simp add: frame_def shrinks_def)

lemma shrinks_aim: "shrinks po po' \<Longrightarrow> aim it a po \<Longrightarrow> aim it a po'"
  by (auto simp: shrinks_def aim_def map_le_def dom_def)

lemma pool_inv_unregister:
  assumes "pool_inv M po"
  shows "pool_inv M (po\<lparr>po_jobs := AList.delete job (po_jobs po)\<rparr>)"
  using assms by (auto simp: pool_inv_def ctx_at_def ids_def delete_conv split: if_splits)

lemma release_completed_inv:
  assumes "pool_inv M po"
  shows "pool_inv M (release_completed_job job po) \<and> shrinks po (release_completed_job job po)"
proof (cases "map_of (po_jobs po) job")
  case None
  then show ?thesis using assms by (simp add: release_completed_job_def shrinks_def)
next
  case (Some a)
  define po1 where "po1 = po\<lparr>po_jobs := AList.delete job (po_jobs po)\<rparr>"
  have "steady po1 (release_completed_job job po)"
    using Some by (auto simp: release_completed_job_def po1_def ctx_same_def terminal_messages_def intro!: steady_upd)
  moreover have "pool_inv M po1" unfolding po1_def by (rule pool_inv_unregister [OF assms])
  moreover have "shrinks po po1"
    by (auto simp: po1_def shrinks_def ctx_at_def map_le_def delete_conv dom_def)
  ultimately show ?thesis by (auto simp: steady_def frame_def shrinks_def)
qed

lemma cancel_job_inv:
  assumes "pool_inv M po"
  shows "pool_inv M (cancel_job job po) \<and> shrinks po (cancel_job job po)"
proof (cases "map_of (po_jobs po) job")
  case None
  then show ?thesis using assms by (simp add: cancel_job_def shrinks_def)
next
  case (Some a)
  define po1 where "po1 = upd_ctx a (\<lambda>ctx. ctx\<lparr>jc_cancelled := True\<rparr>) (po\<lparr>po_jobs := AList.delete job (po_jobs po)\<rparr>)"
  obtain drained q where d: "queue_drain_job job (po_queue po1) = (drained, q)"
    by (cases "queue_drain_job job (po_queue po1)")
  define po2 where "po2 = po1\<lparr>po_queue := q\<rparr>"
  have s: "steady (po\<lparr>po_jobs := AList.delete job (po_jobs po)\<rparr>) po1"
    unfolding po1_def by (rule steady_upd) (simp add: ctx_same_def terminal_messages_def)
  then have i1: "pool_inv M po1" using pool_inv_unregister [OF assms] by (simp add: steady_def)
  have i2: "pool_inv (replicate_mset (length drained) job + M) po2" and f2: "frame po1 po2"
  proof -
    have "replicate_mset (length drained) job + M + ids po2 = M + ids po1"
      using count_ids_drain [OF d] by (simp add: po2_def)
    from pool_inv_move [OF i1 _ _ this]
    show "pool_inv (replicate_mset (length drained) job + M) po2" "frame po1 po2" by (simp_all add: po2_def)
  qed
  have none: "map_of (po_jobs po2) job = None" by (simp add: po2_def po1_def delete_conv)
  have "pool_inv M po2"
  proof (rule pool_inv_count_cong [OF _ i2])
    fix i b
    assume "map_of (po_jobs po2) i = Some b"
    then have "i \<noteq> job" using none by auto
    then show "count (replicate_mset (length drained) job + M) i = count M i" by simp
  qed
  moreover have "cancel_job job po = po2"
    using Some d by (simp add: cancel_job_def Let_def po1_def [symmetric] po2_def)
  moreover have "shrinks po po2"
    using s f2 by (auto simp: steady_def frame_def shrinks_def ctx_at_def map_le_def delete_conv dom_def)
  ultimately show ?thesis by simp
qed

section \<open>Submission\<close>

lemma split_volumes_exact:
  assumes "split_volumes vols items bf now = (bf', now')"
    and "\<forall>(f, v) \<in> set bf. hv_items v \<noteq> []" "distinct (map fst bf)"
  shows "mset now' + sum_list (map (\<lambda>(f, v). mset (hv_items v)) bf') =
      mset now + sum_list (map (\<lambda>(f, v). mset (hv_items v)) bf) + mset items \<and>
    (\<forall>(f, v) \<in> set bf'. hv_items v \<noteq> [])"
  using assms
proof (induction items arbitrary: bf now)
  case (Cons it items)
  show ?case
  proof (cases "map_of vols (ei_file_id it)")
    case None
    then show ?thesis using Cons.IH [of bf "now @ [it]"] Cons.prems by simp
  next
    case (Some vol)
    define v0 where "v0 = (case map_of bf (ei_file_id it) of Some v \<Rightarrow> v
      | None \<Rightarrow> \<lparr>hv_file_id = ei_file_id it, hv_first_exponent = fst vol, hv_blocks = snd vol, hv_items = []\<rparr>)"
    define v1 where "v1 = v0\<lparr>hv_items := hv_items v0 @ [it]\<rparr>"
    define bf1 where "bf1 = push_volume (ei_file_id it) vol it bf"
    have b: "bf1 = AList.update (ei_file_id it) v1 bf"
      by (simp add: bf1_def push_volume_def Let_def v1_def v0_def)
    have sum: "sum_list (map (\<lambda>(f, v). mset (hv_items v)) (AList.update k (v\<lparr>hv_items := hv_items v @ [it]\<rparr>) m)) =
        add_mset it (sum_list (map (\<lambda>(f, v). mset (hv_items v)) m))"
      if "distinct (map fst m)" "map_of m k = Some v \<or> map_of m k = None \<and> hv_items v = []" for m k v
      using that
    proof (induction m)
      case (Cons e m)
      obtain f x where e: "e = (f, x)" by (cases e)
      show ?case
      proof (cases "f = k")
        case True
        then show ?thesis using Cons.prems e by auto
      next
        case False
        then show ?thesis using Cons e by auto
      qed
    qed auto
    have s1: "sum_list (map (\<lambda>(f, v). mset (hv_items v)) bf1) = add_mset it (sum_list (map (\<lambda>(f, v). mset (hv_items v)) bf))"
      unfolding b v1_def using Cons.prems(3) by (intro sum) (auto simp: v0_def split: option.splits)
    have n1: "\<forall>(f, v) \<in> set bf1. hv_items v \<noteq> []"
    proof -
      have "set (AList.update k v m) \<subseteq> insert (k, v) (set m)" for k v and m :: "(byte_string \<times> held_volume) list"
        by (induction m) auto
      then have "set bf1 \<subseteq> insert (ei_file_id it, v1) (set bf)" by (simp add: b)
      moreover have "hv_items v1 \<noteq> []" by (simp add: v1_def)
      ultimately show ?thesis using Cons.prems(2) by auto
    qed
    have d1: "distinct (map fst bf1)" using Cons.prems(3) by (simp add: b distinct_update)
    have e: "split_volumes vols items bf1 now = (bf', now')"
      using Cons.prems(1) Some by (simp add: bf1_def)
    from Cons.IH [OF e n1 d1] show ?thesis by (simp add: s1)
  qed
qed auto

lemma hold_exact:
  assumes "hold items vols h = (now, h')" "\<forall>it \<in> set items. ei_job_id it = j"
  shows "length now \<le> length items \<and> (\<forall>it \<in> set now. ei_job_id it = j) \<and> hd_queue h' \<and>
    (\<forall>v \<in> set (hd_held h'). hv_items v \<noteq> [] \<and> (\<forall>it \<in> set (hv_items v). ei_job_id it = j))"
proof -
  obtain bf nw where s: "split_volumes vols items [] [] = (bf, nw)" by (cases "split_volumes vols items [] []")
  have h: "now = nw" "hd_held h' = sort_key (\<lambda>v. unat (hv_first_exponent v)) (map snd bf)" "hd_queue h'"
    using assms(1) s by (auto simp: hold_def)
  have x: "mset nw + sum_list (map (\<lambda>(f, v). mset (hv_items v)) bf) = mset items"
    "\<forall>(f, v) \<in> set bf. hv_items v \<noteq> []"
    using split_volumes_exact [OF s] by auto
  have "mset nw \<subseteq># mset items" by (metis x(1) mset_subset_eq_add_left)
  then have n: "length nw \<le> length items" "set nw \<subseteq> set items"
    by (metis size_mset size_mset_mono, metis set_mset_mono set_mset_mset)
  have "mset (hv_items v) \<subseteq># mset items" if "(f, v) \<in> set bf" for f v
  proof -
    have "mset (hv_items v) \<subseteq># sum_list (map (\<lambda>(f, v). mset (hv_items v)) bf)"
      using that by (induction bf) (auto simp: subset_mset.add_increasing subset_mset.add_increasing2)
    then show ?thesis by (metis x(1) subset_mset.add_increasing empty_le)
  qed
  then have "set (hv_items v) \<subseteq> set items" if "(f, v) \<in> set bf" for f v
    using that by (metis set_mset_mono set_mset_mset)
  then show ?thesis using h n x(2) assms(2) by fastforce
qed

lemma build_fields:
  assumes "build_job_submission env job ch enabled disk = (ctx, items)"
  shows "jc_job_id ctx = nj_id job" "jc_remaining ctx = length items" "\<not> jc_finished ctx"
    "jc_channel ctx = ch" "jc_held ctx = held_default" "\<forall>it \<in> set items. ei_job_id it = nj_id job"
  using assms
  by (auto simp: build_job_submission_def Let_def job_context_new_def job_work_items_def article_item_def)

text \<open>Contexts are only added and one job is registered.\<close>

definition grows :: "byte_string \<Rightarrow> pool \<Rightarrow> pool \<Rightarrow> bool" where
  "grows j po po' \<longleftrightarrow>
    (\<forall>i. i \<noteq> j \<longrightarrow> map_of (po_jobs po') i = map_of (po_jobs po) i) \<and>
    (\<forall>a < length (po_ctxs po). a < length (po_ctxs po') \<and> jc_job_id (ctx_at po' a) = jc_job_id (ctx_at po a))"

lemma grows_aim: "grows j po po' \<Longrightarrow> aim it a po \<Longrightarrow> ei_job_id it \<noteq> j \<Longrightarrow> aim it a po'"
  by (simp add: grows_def aim_def)

lemma grows_frame: "grows j po po' \<Longrightarrow> frame po' po'' \<Longrightarrow> grows j po po''"
  by (auto simp: grows_def frame_def)

lemma set_ctx_inv:
  assumes "\<forall>ctx \<in> set (po_ctxs po). ctx_ok ctx" "ctx_ok c" "a < length (po_ctxs po)"
    and "\<And>i b. map_of (po_jobs po) i = Some b \<Longrightarrow> b \<noteq> a \<Longrightarrow>
      b < length (po_ctxs po) \<and> jc_job_id (ctx_at po b) = i \<and> ctx_bal (count M i + count (ids (po\<lparr>po_queue := q\<rparr>)) i) (ctx_at po b)"
    and "\<And>i. map_of (po_jobs po) i = Some a \<Longrightarrow>
      jc_job_id c = i \<and> ctx_bal (count M i + count (ids (po\<lparr>po_queue := q\<rparr>)) i) c"
  shows "pool_inv M (po\<lparr>po_ctxs := (po_ctxs po)[a := c], po_queue := q\<rparr>)"
proof -
  define po' where "po' = po\<lparr>po_ctxs := (po_ctxs po)[a := c], po_queue := q\<rparr>"
  have at: "ctx_at po' b = (if b = a then c else ctx_at po b)" for b
    using assms(3) by (simp add: po'_def ctx_at_def)
  have i: "ids po' = ids (po\<lparr>po_queue := q\<rparr>)" by (simp add: po'_def ids_def)
  have "ctx_ok x" if "x \<in> set (po_ctxs po')" for x
    using that assms(1,2) by (auto simp: po'_def dest!: set_update_subset_insert [THEN subsetD])
  moreover have "b < length (po_ctxs po') \<and> jc_job_id (ctx_at po' b) = j \<and>
      ctx_bal (count M j + count (ids po') j) (ctx_at po' b)" if "map_of (po_jobs po) j = Some b" for j b
    using assms(3) assms(4,5) [of j] that by (cases "b = a") (auto simp: at i, auto simp: po'_def)
  ultimately show ?thesis unfolding po'_def [symmetric] by (simp add: pool_inv_alt) (simp add: po'_def)
qed

lemma submit_job_inv:
  assumes "build_job_submission env job open_channel enabled disk = (ctx, items)"
    and "map_of (po_jobs po) (nj_id job) = None" "count (M + ids po) (nj_id job) = 0" "pool_inv M po"
  defines "po0 \<equiv> po\<lparr>po_ctxs := po_ctxs po @ [ctx]\<rparr>"
  shows "pool_inv M (submit_job env (length (po_ctxs po)) items po0) \<and>
    grows (nj_id job) po (submit_job env (length (po_ctxs po)) items po0)"
proof -
  define j where "j = nj_id job"
  define a where "a = length (po_ctxs po)"
  note b = build_fields [OF assms(1), folded j_def]
  have ok: "ctx_ok ctx"
    using b(3,4,5) by (simp add: ctx_ok_def held_ok_def held_default_def term_ok_def terminal_messages_def
        open_channel_def channel_log_def)
  have at0: "ctx_at po0 c = (if c = a then ctx else ctx_at po c)" if "c \<le> a" for c
    using that by (auto simp: po0_def ctx_at_def nth_append a_def)
  have oks: "\<forall>x \<in> set (po_ctxs po0). ctx_ok x" using assms(4) ok by (auto simp: po0_def pool_inv_def)
  have len: "length (po_ctxs po0) = Suc a" by (simp add: po0_def a_def)
  have i0: "ids po0 = ids po" by (simp add: po0_def ids_def)
  have inv0: "pool_inv M po0"
    unfolding pool_inv_alt
  proof (intro conjI allI impI oks)
    fix i c
    assume "map_of (po_jobs po0) i = Some c"
    then have m: "map_of (po_jobs po) i = Some c" by (simp add: po0_def)
    then have "c < a" using assms(4) by (auto simp: pool_inv_def a_def)
    then have "ctx_at po0 c = ctx_at po c" "c < length (po_ctxs po0)" using at0 [of c] len by auto
    then show "c < length (po_ctxs po0)" "jc_job_id (ctx_at po0 c) = i"
      "ctx_bal (count M i + count (ids po0) i) (ctx_at po0 c)"
      using assms(4) m by (simp_all add: pool_inv_alt i0)
  qed
  have g0: "grows j po po0" using at0 by (auto simp: grows_def po0_def a_def)
  have other: "c \<noteq> a" if "map_of (po_jobs po) i = Some c" for i c
    using assms(4) that by (auto simp: pool_inv_def a_def)
  show ?thesis
  proof (cases "items = []")
    case True
    define po' where "po' = po0\<lparr>po_ctxs := (po_ctxs po0)[a := emit_terminal env ctx], po_queue := po_queue po0\<rparr>"
    have "submit_job env (length (po_ctxs po)) items po0 = po'"
      using at0 [of a] by (simp add: submit_job_def True upd_ctx_def a_def po'_def)
    moreover have "pool_inv M po'"
      unfolding po'_def
    proof (rule set_ctx_inv [OF oks emit_terminal_ok [OF ok]])
      fix i
      assume "map_of (po_jobs po0) i = Some a"
      then show "jc_job_id (emit_terminal env ctx) = i \<and>
          ctx_bal (count M i + count (ids (po0\<lparr>po_queue := po_queue po0\<rparr>)) i) (emit_terminal env ctx)"
        using other [of i a] by (simp add: po0_def)
    qed (use inv0 len in \<open>auto simp: pool_inv_alt\<close>)
    moreover have "grows j po po'"
      using g0 at0 len by (auto simp: grows_def po'_def ctx_at_def nth_list_update a_def)
    ultimately show ?thesis by (simp add: j_def)
  next
    case False
    define po1 where "po1 = po0\<lparr>po_jobs := AList.update j a (po_jobs po0)\<rparr>"
    have at1: "ctx_at po1 = ctx_at po0" by (simp add: po1_def ctx_at_def fun_eq_iff)
    have jobs1: "map_of (po_jobs po1) i = (if i = j then Some a else map_of (po_jobs po) i)" for i
      by (simp add: po1_def po0_def update_conv')
    define both where "both = (if po_defer po1 \<and> jc_par2_volumes ctx \<noteq> [] then
        (case hold items (jc_par2_volumes ctx) (jc_held ctx) of
           (now, h) \<Rightarrow> (now, ctx\<lparr>jc_held := h, jc_remaining := usize_sub (jc_remaining ctx) (length items - length now)\<rparr>))
        else (items, ctx))"
    define now c2 where "now = fst both" and "c2 = snd both"
    have c2: "ctx_ok c2" "jc_job_id c2 = j" "jc_remaining c2 = length now" "\<not> jc_finished c2"
      and nowj: "\<forall>it \<in> set now. ei_job_id it = j"
    proof -
      have "ctx_ok c2 \<and> jc_job_id c2 = j \<and> jc_remaining c2 = length now \<and> \<not> jc_finished c2 \<and> (\<forall>it \<in> set now. ei_job_id it = j)"
      proof (cases "po_defer po1 \<and> jc_par2_volumes ctx \<noteq> []")
        case False
        then show ?thesis using ok b by (auto simp: now_def c2_def both_def)
      next
        case True
        obtain nw h where h: "hold items (jc_par2_volumes ctx) (jc_held ctx) = (nw, h)"
          by (cases "hold items (jc_par2_volumes ctx) (jc_held ctx)")
        note x = hold_exact [OF h b(6)]
        have "now = nw" "c2 = ctx\<lparr>jc_held := h, jc_remaining := usize_sub (jc_remaining ctx) (length items - length nw)\<rparr>"
          using True h by (auto simp: now_def c2_def both_def)
        then show ?thesis
          using x b(1-3) ok by (auto simp: ctx_ok_def held_ok_def term_ok_def terminal_messages_def usize_sub_def)
      qed
      then show "ctx_ok c2" "jc_job_id c2 = j" "jc_remaining c2 = length now" "\<not> jc_finished c2"
        "\<forall>it \<in> set now. ei_job_id it = j" by auto
    qed
    define po2 where "po2 = po1\<lparr>po_ctxs := (po_ctxs po1)[a := c2]\<rparr>"
    have sub: "submit_job env (length (po_ctxs po)) items po0 =
      (if now = []
       then (case release_held True c2 (po_queue po2) of
               (released, c, q) \<Rightarrow> po2\<lparr>po_ctxs := (po_ctxs po2)[a := if released then c else emit_terminal env c], po_queue := q\<rparr>)
       else report_provider_outage env (upd_queue (submit_items now) po2))"
    proof -
      have e: "ctx_at po1 a = ctx" using at1 at0 [of a] by simp
      have f: "ctx_at po2 a = c2" using len by (simp add: po2_def po1_def ctx_at_def)
      have j0: "jc_job_id (ctx_at po0 a) = j" using at0 [of a] b(1) by simp
      have p: "(if po_defer po1 \<and> jc_par2_volumes (ctx_at po1 a) \<noteq> []
              then (case hold items (jc_par2_volumes (ctx_at po1 a)) (jc_held (ctx_at po1 a)) of
                      (now, h) \<Rightarrow>
                        (now, upd_ctx a (\<lambda>ctx. ctx\<lparr>jc_held := h,
                           jc_remaining := usize_sub (jc_remaining ctx) (length items - length now)\<rparr>) po1))
              else (items, po1)) = (now, po2)"
      proof (cases "po_defer po1 \<and> jc_par2_volumes ctx \<noteq> []")
        case True
        then show ?thesis
          by (auto simp: e now_def po2_def c2_def both_def upd_ctx_def split: prod.splits)
      next
        case False
        then have "c2 = ctx" "now = items" by (auto simp: now_def c2_def both_def)
        moreover have "(po_ctxs po1)[a := ctx] = po_ctxs po1"
          using e by (metis ctx_at_def list_update_id)
        ultimately show ?thesis using False by (auto simp: e po2_def)
      qed
      show ?thesis
        using False p unfolding submit_job_def Let_def a_def [symmetric] j0 po1_def [symmetric]
        by (simp add: f)
    qed
    have at2: "ctx_at po2 c = (if c = a then c2 else ctx_at po1 c)" for c
      using len by (simp add: po2_def ctx_at_def po1_def)
    have len2: "length (po_ctxs po2) = Suc a" using len by (simp add: po2_def po1_def)
    have i2: "ids po2 = ids po" using i0 by (simp add: po2_def po1_def ids_def)
    have zero: "count M j = 0" "count (ids po) j = 0" using assms(3) by (simp_all add: j_def)
    have oks2: "\<forall>x \<in> set (po_ctxs po2). ctx_ok x"
      using oks c2(1) by (auto simp: po2_def po1_def dest!: set_update_subset_insert [THEN subsetD])
    have g2: "grows j po po2"
      using g0 len2 at2 at1 at0 jobs1 by (auto simp: grows_def po2_def po1_def a_def update_conv')
    have jobs2: "po_jobs po2 = po_jobs po1" by (simp add: po2_def)
    have rest: "c < length (po_ctxs po2) \<and> jc_job_id (ctx_at po2 c) = i \<and> ctx_bal (count M i + count (ids po) i) (ctx_at po2 c)"
      if "map_of (po_jobs po2) i = Some c" "i \<noteq> j" for i c
    proof -
      have m: "map_of (po_jobs po) i = Some c" using that by (simp add: jobs2 jobs1)
      then have "c \<noteq> a" "c < a" using other assms(4) by (auto simp: pool_inv_def a_def)
      then show ?thesis using assms(4) m at2 at1 at0 [of c] len2 by (auto simp: pool_inv_alt)
    qed
    have regj: "i = j" if "map_of (po_jobs po2) i = Some a" for i
      using that other [of i a] by (auto simp: jobs2 jobs1 split: if_splits)
    show ?thesis
    proof (cases "now = []")
      case True
      obtain r c q where rel: "release_held True c2 (po_queue po2) = (r, c, q)" by (metis prod_cases3)
      obtain its where its: "jc_remaining c = jc_remaining c2 + length its"
        "mset (qs_items q) = mset (qs_items (po_queue po2)) + mset its" "\<forall>it \<in> set its. ei_job_id it = j"
        "r \<longleftrightarrow> its \<noteq> []" "jc_job_id c = j" "jc_finished c = jc_finished c2"
        using release_held_exact [OF rel] c2(1,2) by (auto simp: ctx_ok_def)
      define c3 where "c3 = (if r then c else emit_terminal env c)"
      have okc: "ctx_ok c3"
        using release_held_ok [OF rel c2(1)] emit_terminal_ok by (simp add: c3_def)
      have "map ei_job_id its = replicate (length its) j" using its(3) by (intro replicate_eqI) auto
      then have "image_mset ei_job_id (mset its) = replicate_mset (length its) j" by (metis mset_map mset_replicate)
      then have iq: "ids (po2\<lparr>po_queue := q\<rparr>) = ids po + replicate_mset (length its) j"
        using its(2) i2 by (simp add: ids_alt queue_items_def)
      have bal: "ctx_bal (length its) c3"
        using its(1,4,6) c2(3,4) True by (auto simp: ctx_bal_def c3_def emit_terminal_fields)
      have "pool_inv M (po2\<lparr>po_ctxs := (po_ctxs po2)[a := c3], po_queue := q\<rparr>)"
      proof (rule set_ctx_inv [OF oks2 okc])
        show "a < length (po_ctxs po2)" by (simp add: len2)
        fix i d
        assume m: "map_of (po_jobs po2) i = Some d" "d \<noteq> a"
        then have "i \<noteq> j" using jobs1 by (auto simp: jobs2)
        with rest [OF m(1)] show "d < length (po_ctxs po2) \<and> jc_job_id (ctx_at po2 d) = i \<and>
            ctx_bal (count M i + count (ids (po2\<lparr>po_queue := q\<rparr>)) i) (ctx_at po2 d)"
          by (simp add: iq)
      next
        fix i
        assume "map_of (po_jobs po2) i = Some a"
        then have "i = j" by (rule regj)
        then show "jc_job_id c3 = i \<and> ctx_bal (count M i + count (ids (po2\<lparr>po_queue := q\<rparr>)) i) c3"
          using bal its(5) zero by (simp add: iq c3_def emit_terminal_fields)
      qed
      moreover have "grows j po (po2\<lparr>po_ctxs := (po_ctxs po2)[a := c3], po_queue := q\<rparr>)"
        using g2 len2 by (auto simp: grows_def ctx_at_def nth_list_update a_def)
      ultimately show ?thesis using sub True rel by (simp add: c3_def j_def)
    next
      case False
      define po3 where "po3 = po2\<lparr>po_ctxs := (po_ctxs po2)[a := c2], po_queue := submit_items now (po_queue po2)\<rparr>"
      have e: "upd_queue (submit_items now) po2 = po3"
        by (simp add: po3_def po2_def upd_queue_def)
      have "map ei_job_id now = replicate (length now) j" using nowj by (intro replicate_eqI) auto
      then have "image_mset ei_job_id (mset now) = replicate_mset (length now) j" by (metis mset_map mset_replicate)
      then have iq: "ids (po2\<lparr>po_queue := submit_items now (po_queue po2)\<rparr>) = ids po + replicate_mset (length now) j"
        using i2 by (simp add: ids_alt queue_items_simps)
      have bal: "ctx_bal (length now) c2" using c2(3,4) False by (simp add: ctx_bal_def)
      have "pool_inv M po3"
        unfolding po3_def
      proof (rule set_ctx_inv [OF oks2 c2(1)])
        show "a < length (po_ctxs po2)" by (simp add: len2)
        fix i d
        assume m: "map_of (po_jobs po2) i = Some d" "d \<noteq> a"
        then have "i \<noteq> j" using jobs1 by (auto simp: jobs2)
        with rest [OF m(1)] show "d < length (po_ctxs po2) \<and> jc_job_id (ctx_at po2 d) = i \<and>
            ctx_bal (count M i + count (ids (po2\<lparr>po_queue := submit_items now (po_queue po2)\<rparr>)) i) (ctx_at po2 d)"
          by (simp add: iq)
      next
        fix i
        assume "map_of (po_jobs po2) i = Some a"
        then have "i = j" by (rule regj)
        then show "jc_job_id c2 = i \<and> ctx_bal (count M i + count (ids (po2\<lparr>po_queue := submit_items now (po_queue po2)\<rparr>)) i) c2"
          using bal c2(2) zero by (simp add: iq)
      qed
      moreover have "grows j po po3"
        using g2 len2 at2 c2(2) by (auto simp: grows_def ctx_at_def nth_list_update po3_def a_def)
      moreover have "steady po3 (report_provider_outage env po3)" by (rule steady_outage)
      ultimately show ?thesis using sub False by (auto simp: e steady_def j_def intro: grows_frame)
    qed
  qed
qed

section \<open>The supervisor and the confirm rounds\<close>

lemma sweep_item_inv:
  assumes "pool_inv (add_mset (ei_job_id it) M) po"
  shows "pool_inv M (sweep_item env it po) \<and> frame po (sweep_item env it po)"
proof (cases "map_of (po_jobs po) (ei_job_id it)")
  case None
  then show ?thesis using assms pool_inv_drop [OF None] by (simp add: sweep_item_def)
next
  case (Some a)
  have aim: "aim it a po" by (rule registered_aim [OF assms Some])
  have "keeps it po (sweep_item env it po)"
    using keeps_resolve [OF aim] keeps_fail_everywhere [OF aim] by (simp add: sweep_item_def Some)
  then show ?thesis using assms by (simp add: keeps_def)
qed

lemma sweep_inv:
  assumes "pool_inv M po"
  shows "pool_inv M (resolve_items_not_waiting_on_required_providers env po) \<and>
    frame po (resolve_items_not_waiting_on_required_providers env po)"
proof (cases "optional_down (en_now env) po")
  case False
  then show ?thesis using assms by (simp add: resolve_items_not_waiting_on_required_providers_def)
next
  case True
  define P where "P = (\<lambda>it :: engine_item. ei_provider_outcomes it \<noteq> [] \<and>
    all_enabled_providers_definitive (en_now env) (po_servers po) (po_health po) (ei_provider_outcomes it))"
  obtain taken q where t: "take_where P (po_queue po) = (taken, q)" by (cases "take_where P (po_queue po)")
  have "queue_items (po_queue po) = queue_items q + mset taken"
    using queue_items_take_where [of P "po_queue po"] t by simp
  then have 1: "image_mset ei_job_id (mset taken) + M + ids (po\<lparr>po_queue := q\<rparr>) = M + ids po"
    by (simp add: ids_alt)
  have i: "pool_inv (image_mset ei_job_id (mset taken) + M) (po\<lparr>po_queue := q\<rparr>)" "frame po (po\<lparr>po_queue := q\<rparr>)"
    using pool_inv_move [OF assms _ _ 1] by simp_all
  have "pool_inv M (fold (sweep_item env) its po1) \<and> frame po1 (fold (sweep_item env) its po1)"
    if "pool_inv (image_mset ei_job_id (mset its) + M) po1" for its po1
    using that
  proof (induction its arbitrary: po1)
    case (Cons it its)
    have "pool_inv (add_mset (ei_job_id it) (image_mset ei_job_id (mset its) + M)) po1" using Cons.prems by simp
    from sweep_item_inv [OF this, of env] Cons.IH [of "sweep_item env it po1"] show ?case
      by (auto intro: frame_trans)
  qed simp
  from this [OF i(1)] i(2) show ?thesis
    using True t by (auto simp: resolve_items_not_waiting_on_required_providers_def P_def intro: frame_trans)
qed

lemma wake_inv:
  assumes "pool_inv M po" "i < length (po_delayed po)"
  shows "pool_inv M (wake_delayed i po) \<and> frame po (wake_delayed i po)"
proof (rule pool_inv_move [OF assms(1)])
  have "mset (po_delayed po) = add_mset (po_delayed po ! i) (mset (take i (po_delayed po) @ drop (Suc i) (po_delayed po)))"
    using assms(2) by (subst id_take_nth_drop [OF assms(2)]) simp
  then show "M + ids (wake_delayed i po) = M + ids po"
    by (simp add: wake_delayed_def ids_alt upd_queue_def queue_items_simps)
qed (simp_all add: wake_delayed_def)

section \<open>The engine\<close>

definition worker_ids :: "engine_worker list \<Rightarrow> byte_string multiset" where
  "worker_ids ws = image_mset ei_job_id (mset (concat (map worker_items ws)))"

fun worker_ok :: "pool \<Rightarrow> engine_worker \<Rightarrow> bool" where
  "worker_ok po (Serial s None) = True"
| "worker_ok po (Serial s (Some (it, a))) = aim it a po"
| "worker_ok po (Pipelined s fl tag) = (distinct (map fst fl) \<and> (\<forall>t \<in> set (map fst fl). t < tag))"

definition world_inv :: "world \<Rightarrow> bool" where
  "world_inv w \<longleftrightarrow>
    pool_inv (worker_ids (wo_workers w)) (wo_pool w) \<and> (\<forall>wk \<in> set (wo_workers w). worker_ok (wo_pool w) wk)"

definition wk_ids :: "engine_worker \<Rightarrow> byte_string multiset" where
  "wk_ids wk = image_mset ei_job_id (mset (worker_items wk))"

lemma wk_ids_simps [simp]:
  "wk_ids (Serial s None) = {#}" "wk_ids (Serial s (Some (it, a))) = {#ei_job_id it#}"
  "wk_ids (Pipelined s fl tag) = fl_ids fl"
  by (simp_all add: wk_ids_def fl_ids_def)

lemma worker_ids_split:
  "i < length ws \<Longrightarrow> \<exists>R. worker_ids ws = wk_ids (ws ! i) + R \<and> (\<forall>wk. worker_ids (ws[i := wk]) = wk_ids wk + R)"
proof -
  assume i: "i < length ws"
  have w: "worker_ids vs = (\<Sum>v \<in># mset vs. wk_ids v)" for vs
    by (induction vs) (auto simp: worker_ids_def wk_ids_def)
  define R where "R = (\<Sum>v \<in># mset ws - {#ws ! i#}. wk_ids v)"
  have "worker_ids ws = wk_ids (ws ! i) + R"
    unfolding w R_def using i by (metis insert_DiffM nth_mem_mset sum_mset.insert image_mset_add_mset)
  moreover have "worker_ids (ws[i := wk]) = wk_ids wk + R" for wk
    unfolding w R_def using i by (simp add: mset_update)
  ultimately show ?thesis by blast
qed

lemma worker_ok_shrinks: "shrinks po po' \<Longrightarrow> worker_ok po wk \<Longrightarrow> worker_ok po' wk"
  by (cases "(po, wk)" rule: worker_ok.cases) (auto intro: shrinks_aim)

text \<open>Worker \<open>i\<close> acts.\<close>

lemma world_inv_worker:
  assumes "world_inv w" "i < length (wo_workers w)"
    and "\<And>R. pool_inv (wk_ids (wo_workers w ! i) + R) (wo_pool w) \<Longrightarrow> worker_ok (wo_pool w) (wo_workers w ! i) \<Longrightarrow>
      pool_inv (wk_ids wk + R) po \<and> frame (wo_pool w) po \<and> worker_ok po wk"
  shows "world_inv (set_worker i wk po w)"
proof -
  obtain R where R: "worker_ids (wo_workers w) = wk_ids (wo_workers w ! i) + R"
    "\<And>wk. worker_ids ((wo_workers w)[i := wk]) = wk_ids wk + R"
    using worker_ids_split [OF assms(2)] by blast
  have "pool_inv (wk_ids (wo_workers w ! i) + R) (wo_pool w)" "worker_ok (wo_pool w) (wo_workers w ! i)"
    using assms(1,2) by (auto simp: world_inv_def R(1))
  note x = assms(3) [OF this]
  have "worker_ok po v" if "v \<in> set ((wo_workers w)[i := wk])" for v
    using that x assms(1) by (auto simp: world_inv_def dest!: set_update_subset_insert [THEN subsetD]
        intro: worker_ok_shrinks [OF frame_shrinks])
  then show ?thesis using x by (simp add: world_inv_def set_worker_def R(2))
qed

text \<open>The pool acts, the workers keep what they hold.\<close>

lemma world_inv_pool:
  assumes "world_inv w"
    and "\<And>M. pool_inv M (wo_pool w) \<Longrightarrow> pool_inv M po \<and> shrinks (wo_pool w) po"
  shows "world_inv (w\<lparr>wo_pool := po\<rparr>)"
  using assms by (auto simp: world_inv_def intro: worker_ok_shrinks)

lemma world_inv_steady: "world_inv w \<Longrightarrow> steady (wo_pool w) po \<Longrightarrow> world_inv (w\<lparr>wo_pool := po\<rparr>)"
  by (rule world_inv_pool) (auto simp: steady_def frame_shrinks)

lemma count_worker_ids: "count (worker_ids ws) j = length (filter (\<lambda>it. ei_job_id it = j) (concat (map worker_items ws)))"
proof -
  have "count (image_mset ei_job_id (mset xs)) j = length (filter (\<lambda>it. ei_job_id it = j) xs)" for xs :: "engine_item list"
    by (induction xs) auto
  then show ?thesis by (simp add: worker_ids_def)
qed

lemma outstanding_count: "outstanding j w = count (worker_ids (wo_workers w) + ids (wo_pool w)) j"
proof -
  have "count (image_mset ei_job_id (mset xs)) j = length (filter (\<lambda>it. ei_job_id it = j) xs)" for xs :: "engine_item list"
    by (induction xs) auto
  then show ?thesis by (simp add: outstanding_def ids_alt queue_items_def count_worker_ids)
qed

lemma world_inv_submit:
  assumes "build_job_submission env job open_channel enabled disk = (ctx, items)" "world_inv w"
    and "map_of (po_jobs (wo_pool w)) (nj_id job) = None" "outstanding (nj_id job) w = 0"
  shows "world_inv (w\<lparr>wo_pool := submit_job env (length (po_ctxs (wo_pool w))) items
      ((wo_pool w)\<lparr>po_ctxs := po_ctxs (wo_pool w) @ [ctx]\<rparr>)\<rparr>)"
proof -
  have x: "pool_inv (worker_ids (wo_workers w)) (submit_job env (length (po_ctxs (wo_pool w))) items
      ((wo_pool w)\<lparr>po_ctxs := po_ctxs (wo_pool w) @ [ctx]\<rparr>)) \<and>
    grows (nj_id job) (wo_pool w) (submit_job env (length (po_ctxs (wo_pool w))) items
      ((wo_pool w)\<lparr>po_ctxs := po_ctxs (wo_pool w) @ [ctx]\<rparr>))"
    using assms by (intro submit_job_inv) (auto simp: world_inv_def outstanding_count)
  have none: "count (worker_ids (wo_workers w)) (nj_id job) = 0" using assms(4) by (simp add: outstanding_count)
  have "worker_ok po' wk" if "wk \<in> set (wo_workers w)" "grows (nj_id job) (wo_pool w) po'" for wk po'
  proof (cases "(wo_pool w, wk)" rule: worker_ok.cases)
    case (2 po s it a)
    have "ei_job_id it \<noteq> nj_id job"
    proof
      assume "ei_job_id it = nj_id job"
      then have "nj_id job \<in># worker_ids (wo_workers w)"
        using that(1) 2 by (force simp: worker_ids_def)
      then show False using none by (simp add: count_eq_zero_iff)
    qed
    moreover have "aim it a (wo_pool w)" using assms(2) that(1) 2 by (auto simp: world_inv_def)
    ultimately show ?thesis using grows_aim [OF that(2)] 2 by simp
  next
    case (3 po s fl tag)
    have "worker_ok (wo_pool w) wk" using assms(2) that(1) by (simp add: world_inv_def)
    then show ?thesis using 3 by simp
  qed simp
  then show ?thesis using x by (simp add: world_inv_def)
qed

lemma steady_pause: "steady po (pause_job env job po)"
  by (auto simp: pause_job_def pause_clock_def ctx_same_def terminal_messages_def split: option.splits intro!: steady_upd)

lemma steady_resume: "steady po (resume_job env job po)"
  by (auto simp: resume_job_def resume_clock_def ctx_same_def terminal_messages_def split: option.splits intro!: steady_upd)

lemma ctx_same_receive: "ctx_same ctx (ctx\<lparr>jc_channel := receive_progress (jc_channel ctx)\<rparr>)"
  by (auto simp: ctx_same_def terminal_messages_def channel_log_def receive_progress_def split: list.splits)

lemma ctx_same_hang_up: "ctx_same ctx (ctx\<lparr>jc_channel := (jc_channel ctx)\<lparr>pc_closed := True\<rparr>\<rparr>)"
  by (simp add: ctx_same_def terminal_messages_def channel_log_def)

lemma world_inv_step: "engine_step w w' \<Longrightarrow> world_inv w \<Longrightarrow> world_inv w'"
proof (induction rule: engine_step.induct)
  case (spawn_serial w s)
  then show ?case by (auto simp: world_inv_def worker_ids_def)
next
  case (spawn_pipelined w s)
  then show ?case by (auto simp: world_inv_def worker_ids_def)
next
  case (serial_take i w s env it a po)
  then show ?case
    by (intro world_inv_worker) (auto dest: next_work_item_inv)
next
  case (serial_again i w s env hp po)
  then show ?case
    by (intro world_inv_worker) (auto dest: next_work_item_inv)
next
  case (serial_result i w s it a env ready reply nxt po)
  then show ?case
    by (intro world_inv_worker) (auto dest: keeps_serial simp: keeps_def)
next
  case (pipeline_fill i w s fl tag env hp b fl' tag' po)
  show ?case
  proof (rule world_inv_worker [OF pipeline_fill(4,1)])
    fix R
    assume "pool_inv (wk_ids (wo_workers w ! i) + R) (wo_pool w)" "worker_ok (wo_pool w) (wo_workers w ! i)"
    then show "pool_inv (wk_ids (Pipelined s fl' tag') + R) po \<and> frame (wo_pool w) po \<and> worker_ok po (Pipelined s fl' tag')"
      using fill_round_inv [OF pipeline_fill(3), of R] pipeline_fill(2) by fastforce
  qed
next
  case (pipeline_take i w s tag env hp it a po)
  then show ?case
    by (intro world_inv_worker) (auto dest: next_work_item_inv)
next
  case (pipeline_again i w s tag env hp po)
  then show ?case
    by (intro world_inv_worker) (auto dest: next_work_item_inv)
next
  case (pipeline_answer i w s fl tag env t reply nxt fl' po)
  show ?case
  proof (rule world_inv_worker [OF pipeline_answer(4,1)])
    fix R
    assume a: "pool_inv (wk_ids (wo_workers w ! i) + R) (wo_pool w)" "worker_ok (wo_pool w) (wo_workers w ! i)"
    then have t: "\<forall>t \<in> set (map fst fl). t < tag" by (simp add: pipeline_answer(2))
    from a have x: "pool_inv (fl_ids fl' + R) po \<and> frame (wo_pool w) po \<and>
        distinct (map fst fl') \<and> set (map fst fl') \<subseteq> set (map fst fl)"
      by (intro pipeline_answer_inv [OF pipeline_answer(3)]) (simp_all add: pipeline_answer(2))
    then have "\<forall>t \<in> set (map fst fl'). t < tag" using t by blast
    with x show "pool_inv (wk_ids (Pipelined s fl' tag) + R) po \<and> frame (wo_pool w) po \<and> worker_ok po (Pipelined s fl' tag)"
      by simp
  qed
next
  case (pipeline_stall i w s fl tag)
  then show ?case
    by (intro world_inv_worker) (auto dest: stall_flights_inv)
next
  case (pipeline_leave i w s fl tag)
  then show ?case
    by (intro world_inv_worker) (auto dest: requeue_flights_inv)
next
  case (submit env job enabled disk ctx items w)
  then show ?case by (intro world_inv_submit)
next
  case (release_completed w job a)
  then show ?case by (intro world_inv_pool) (auto dest: release_completed_inv)
next
  case (pause w env job)
  then show ?case by (intro world_inv_steady steady_pause)
next
  case (resume w env job)
  then show ?case by (intro world_inv_steady steady_resume)
next
  case (abort w env job reason)
  then show ?case by (intro world_inv_pool) (auto dest: abort_job_inv intro: frame_shrinks)
next
  case (cancel w job)
  then show ?case by (intro world_inv_pool) (auto dest: cancel_job_inv)
next
  case (wake i w)
  then show ?case by (intro world_inv_pool) (auto dest: wake_inv intro: frame_shrinks)
next
  case (sweep w env)
  then show ?case by (intro world_inv_pool) (auto dest: sweep_inv intro: frame_shrinks)
next
  case (outage w env)
  then show ?case by (intro world_inv_steady steady_outage)
next
  case (providers_back w)
  then show ?case by (intro world_inv_steady steady_available)
next
  case (reconfigure w servers health d)
  then show ?case by (intro world_inv_steady steady_config)
next
  case (receive a w)
  then show ?case by (intro world_inv_steady steady_upd ctx_same_receive)
next
  case (hang_up a w)
  then show ?case by (intro world_inv_steady steady_upd ctx_same_hang_up)
qed

lemma world_inv_reach: "world_reach servers w \<Longrightarrow> world_inv w"
proof (induction rule: world_reach.induct)
  case start
  then show ?case
    by (simp add: world_inv_def world_new_def pool_new_def pool_inv_def worker_ids_def)
next
  case (step w w')
  then show ?case by (blast intro: world_inv_step)
qed

section \<open>Properties\<close>

text \<open>C1. However workers, confirm rounds, held volumes, pauses, aborts and provider changes interleave, the
  counter of a registered job is exactly the number of its articles that are queued, with a worker
  or waiting for a confirm round: no article is lost, none is counted twice.\<close>

theorem engine_accounts_for_every_article:
  assumes "world_reach servers w" "map_of (po_jobs (wo_pool w)) job = Some a"
  shows "jc_remaining (ctx_at (wo_pool w) a) = outstanding job w"
  using world_inv_reach [OF assms(1)] assms(2)
  by (auto simp: world_inv_def pool_inv_def ctx_bal_def outstanding_count)

text \<open>C4. A job that has not finished always has an article in flight, so it cannot get stuck with nothing
  left to do; a finished job has none, so no worker writes to its files any more.\<close>

theorem unfinished_job_has_work:
  assumes "world_reach servers w" "map_of (po_jobs (wo_pool w)) job = Some a"
  shows "jc_finished (ctx_at (wo_pool w) a) \<longleftrightarrow> outstanding job w = 0"
  using world_inv_reach [OF assms(1)] assms(2)
  by (auto simp: world_inv_def pool_inv_def ctx_bal_def outstanding_count)

text \<open>C3. A job, registered or not any more, sends at most one \<open>JobFinished\<close> or \<open>JobAborted\<close>, and none before
  it is finished.\<close>

theorem terminal_message_at_most_once:
  assumes "world_reach servers w" "ctx \<in> set (po_ctxs (wo_pool w))"
  shows "length (terminal_messages ctx) \<le> (if jc_finished ctx then 1 else 0)"
  using world_inv_reach [OF assms(1)] assms(2)
  by (auto simp: world_inv_def pool_inv_def ctx_ok_def term_ok_def)

end
