(* ===== verification/Engine_Props.thy ===== *)
theory Engine_Props
  imports Engine_Steps_Proofs
begin

text \<open>
  Single steps of the download engine: when held volumes are released, when an article may be called
  missing, what an error costs, and the cases in which the engine does not do what its comments say.
\<close>

section \<open>Held volumes\<close>

text \<open>A release takes the shortest prefix of the held volumes (in the order of their first exponents) that
  brings the released blocks to the number wanted, or all of them, and loses no block.\<close>

theorem release_takes_shortest_prefix:
  assumes "release_for need h = (r, h')" "hd_queue h" "\<forall>v \<in> set (hd_held h). hv_items v \<noteq> []"
  shows "\<exists>k \<le> length (hd_held h).
    hd_held h' = drop k (hd_held h) \<and>
    r = (if k = 0 then None else Some (concat (map hv_items (take k (hd_held h))))) \<and>
    (hd_held h' = [] \<or> need \<le> hd_released_blocks h') \<and>
    (\<forall>j < k. hd_released_blocks h + sum_list (map (\<lambda>v. unat (hv_blocks v)) (take j (hd_held h))) < need) \<and>
    total_blocks h' = total_blocks h"
proof -
  obtain items vs' blocks' where l: "release_loop need (hd_held h) (hd_released_blocks h) [] = (items, vs', blocks')"
    by (metis prod_cases3)
  obtain k where k: "k \<le> length (hd_held h)" "vs' = drop k (hd_held h)"
    "items = concat (map hv_items (take k (hd_held h)))"
    "blocks' = hd_released_blocks h + sum_list (map (\<lambda>v. unat (hv_blocks v)) (take k (hd_held h)))"
    "k < length (hd_held h) \<longrightarrow> need \<le> blocks'"
    "\<forall>j < k. hd_released_blocks h + sum_list (map (\<lambda>v. unat (hv_blocks v)) (take j (hd_held h))) < need"
    using release_loop_exact [OF l] by auto
  have h': "hd_held h' = vs'" "hd_released_blocks h' = blocks'"
    and r: "r = (if items = [] then None else Some items)"
    using assms(1,2) l by (auto simp: release_for_def Let_def)
  have "items = [] \<longleftrightarrow> k = 0"
  proof (cases k)
    case (Suc n)
    then obtain v vs where "hd_held h = v # vs" using k(1) by (cases "hd_held h") auto
    then show ?thesis using Suc k(3) assms(3) by auto
  qed (simp add: k(3))
  moreover have "total_blocks h' = total_blocks h"
  proof -
    have "sum_list (map f (take k xs)) + sum_list (map f (drop k xs)) = sum_list (map f xs)" for f :: "held_volume \<Rightarrow> nat" and xs
      by (metis append_take_drop_id map_append sum_list_append)
    then show ?thesis using h' k(2,4) by (simp add: total_blocks_def)
  qed
  ultimately show ?thesis using k h' r by (intro exI [of _ k]) auto
qed

lemma release_held_frame:
  "release_held b ctx q = (r, ctx', q') \<Longrightarrow>
    jc_finished ctx' = jc_finished ctx \<and> jc_cancelled ctx' = jc_cancelled ctx \<and>
    jc_abort_reason ctx' = jc_abort_reason ctx \<and> jc_channel ctx' = jc_channel ctx \<and>
    jc_failed ctx' = jc_failed ctx \<and> (\<not> b \<longrightarrow> jc_slices ctx' = jc_slices ctx)"
  by (auto simp: release_held_def wanted_volumes_def Let_def split: option.splits if_splits prod.splits)

lemma total_blocks_release:
  assumes "release_for need h = (r, h')"
  shows "total_blocks h' = total_blocks h"
proof -
  obtain items vs' blocks' where l: "release_loop need (hd_held h) (hd_released_blocks h) [] = (items, vs', blocks')"
    by (metis prod_cases3)
  have "sum_list (map f (take k xs)) + sum_list (map f (drop k xs)) = sum_list (map f xs)" for f :: "held_volume \<Rightarrow> nat" and xs k
    by (metis append_take_drop_id map_append sum_list_append)
  then show ?thesis
    using release_loop_exact [OF l] assms l by (fastforce simp: release_for_def Let_def total_blocks_def add.assoc)
qed

lemma total_blocks_release_held:
  "release_held b ctx q = (r, ctx', q') \<Longrightarrow> total_blocks (jc_held ctx') = total_blocks (jc_held ctx)"
  by (auto simp: release_held_def wanted_volumes_def release_all_def Let_def split: option.splits if_splits prod.splits
      dest: total_blocks_release)

text \<open>C22. When the resolution of its last outstanding article finishes a job that is neither cancelled nor aborted, then either
  no recovery volume is left to fetch, or the slice map shows no damage, or the volumes released cover the damage
  (undecided slices included) with the margin.  The context is well formed, which is an invariant
  of the pool, and the declared blocks of all volumes add up to less than the largest \<open>usize\<close>.  Cancelling a job drops
  the guarantee.\<close>

theorem finish_has_enough_recovery:
  assumes "resolve_one env ctx q = (ctx', q')" "ctx_ok ctx"
    and "\<not> jc_finished ctx" "jc_finished ctx'" "\<not> jc_cancelled ctx" "jc_abort_reason ctx = None"
    and "total_blocks (jc_held ctx) < usize_max"
  shows "hd_held (jc_held ctx') = [] \<or>
    (\<exists>sm. fst (tracker_summary (jc_slices ctx)) = Some sm \<and>
      (sm_damaged sm + sm_unknown sm = 0 \<or>
       sm_damaged sm + sm_unknown sm + REPAIR_MARGIN \<le> hd_released_blocks (jc_held ctx')))"
proof -
  obtain r1 c1 q1 where 1: "release_held False ctx q = (r1, c1, q1)" by (metis prod_cases3)
  note f1 = release_held_frame [OF 1]
  define c2 where "c2 = c1\<lparr>jc_remaining := usize_sub (jc_remaining c1) 1\<rparr>"
  obtain r3 c3 q3 where 3: "release_held True c2 q1 = (r3, c3, q3)" by (metis prod_cases3)
  note f3 = release_held_frame [OF 3]
  have c2: "\<not> jc_finished c2" "\<not> jc_cancelled c2" "jc_abort_reason c2 = None" "jc_slices c2 = jc_slices ctx"
    using f1 assms(3,5,6) by (simp_all add: c2_def)
  have "resolve_one env ctx q =
      (if jc_remaining c1 \<noteq> 1 then (c2, q1) else if r3 then (c3, q3) else (emit_terminal env c3, q3))"
    unfolding resolve_one_def 1 prod.case Let_def c2_def [symmetric] by (simp add: 3 split: bool.split)
  then have r: "\<not> r3 \<and> ctx' = emit_terminal env c3"
    using assms(1,4) f3 c2(1) by (auto split: if_splits)
  have ok2: "held_ok c2"
    using release_held_ok [OF 1 assms(2)] by (simp add: c2_def held_ok_def ctx_ok_def)
  show ?thesis
  proof (cases "held_is_empty (jc_held c2)")
    case True
    then have "c3 = c2" using 3 by (simp add: release_held_def)
    then show ?thesis using r True by (simp add: emit_terminal_fields held_is_empty_def)
  next
    case False
    obtain w c where w: "wanted_volumes True c2 = (w, c)" by (cases "wanted_volumes True c2")
    have w3: "w = None" "c3 = c"
      using 3 r False c2(2,3) w by (auto simp: release_held_def split: option.splits)
    have q: "hd_held (jc_held c2) \<noteq> [] \<longrightarrow> hd_queue (jc_held c2)" "\<forall>v \<in> set (hd_held (jc_held c2)). hv_items v \<noteq> []"
      using ok2 by (auto simp: held_ok_def)
    obtain so js where s: "tracker_summary (jc_slices ctx) = (so, js)" by (cases "tracker_summary (jc_slices ctx)")
    show ?thesis
    proof (cases so)
      case None
      then obtain h where h: "release_for usize_max (jc_held c2) = (None, h)" "jc_held c = h"
        using w w3 s c2(4) by (auto simp: wanted_volumes_def release_all_def split: prod.splits)
      have i: "jc_held ctx' = h" using r w3 h(2) by (simp add: emit_terminal_fields)
      have "hd_released_blocks h \<le> total_blocks h" by (simp add: total_blocks_def)
      also have "total_blocks h = total_blocks (jc_held ctx)"
        using total_blocks_release [OF h(1)] total_blocks_release_held [OF 1] by (simp add: c2_def)
      finally have "hd_released_blocks h < usize_max" using assms(7) by simp
      then show ?thesis using release_for_exact [OF h(1) q] i by auto
    next
      case (Some sm)
      show ?thesis
      proof (cases "sm_damaged sm + sm_unknown sm = 0")
        case True
        then show ?thesis using s Some by auto
      next
        case False
        then obtain h where h: "release_for (sm_damaged sm + sm_unknown sm + REPAIR_MARGIN) (jc_held c2) = (None, h)"
          "jc_held c = h"
          using w w3 s Some c2(4) by (auto simp: wanted_volumes_def split: prod.splits)
        have i: "jc_held ctx' = h" using r w3 h(2) by (simp add: emit_terminal_fields)
        from release_for_exact [OF h(1) q] show ?thesis using i s Some by auto
      qed
    qed
  qed
qed

section \<open>When an article is called missing\<close>

text \<open>C5. A worker gives an article up as missing only when every required provider has answered that it does
  not have it, and only after the two confirm rounds.\<close>

theorem missing_needs_every_provider_and_confirmation:
  assumes "handle_article_not_available env it server a kind msg po = (True, po')"
    and "all_not_found (note_outcome server kind it)"
  shows "CONFIRM_ASKS_PER_SERVER \<le> ei_confirm_rounds it \<and>
    (\<forall>s \<in> set (po_servers po). sc_enabled s \<longrightarrow>
      \<not> (sc_optional s \<and> circuit_open (en_now env) (po_health po) (sc_id s)) \<longrightarrow>
      map_of (ei_provider_outcomes (note_outcome server kind it)) (sc_id s) = Some FK_NotFound)"
proof -
  have d: "all_enabled_providers_definitive (en_now env) (po_servers po) (po_health po)
      (ei_provider_outcomes (note_outcome server kind it))"
    and c: "\<not> ei_confirm_rounds (note_outcome server kind it) < CONFIRM_ASKS_PER_SERVER"
    using assms by (auto simp: handle_article_not_available_def Let_def split: if_splits)
  have "k = FK_NotFound" if "map_of (ei_provider_outcomes (note_outcome server kind it)) x = Some k" for x k
    using assms(2) map_of_SomeD [OF that] by (auto simp: all_not_found_def list_all_iff)
  then show ?thesis
    using d c by (auto simp: all_enabled_providers_definitive_def list_all_iff note_outcome_def)
qed

lemma resolve_at_failed:
  "a < length (po_ctxs po) \<Longrightarrow> jc_failed (ctx_at (resolve_at env a po) a) = jc_failed (ctx_at po a)"
proof -
  assume a: "a < length (po_ctxs po)"
  obtain c q where r: "resolve_one env (ctx_at po a) (po_queue po) = (c, q)"
    by (cases "resolve_one env (ctx_at po a) (po_queue po)")
  have e: "jc_failed (emit_terminal env ctx) = jc_failed ctx" for ctx
    by (auto simp: emit_terminal_def deobfuscate_files_def send_to_job_def Let_def split: option.splits prod.splits)
  have "jc_failed c = jc_failed (ctx_at po a)"
  proof -
    obtain r1 c1 q1 where 1: "release_held False (ctx_at po a) (po_queue po) = (r1, c1, q1)" by (metis prod_cases3)
    define c2 where "c2 = c1\<lparr>jc_remaining := usize_sub (jc_remaining c1) 1\<rparr>"
    obtain r3 c3 q3 where 3: "release_held True c2 q1 = (r3, c3, q3)" by (metis prod_cases3)
    have "resolve_one env (ctx_at po a) (po_queue po) =
        (if jc_remaining c1 \<noteq> 1 then (c2, q1) else if r3 then (c3, q3) else (emit_terminal env c3, q3))"
      unfolding resolve_one_def 1 prod.case Let_def c2_def [symmetric] by (simp add: 3 split: bool.split)
    then show ?thesis
      using r release_held_frame [OF 1] release_held_frame [OF 3] e by (auto simp: c2_def split: if_splits)
  qed
  moreover have "resolve_at env a po = po\<lparr>po_ctxs := (po_ctxs po)[a := c], po_queue := q\<rparr>"
    by (simp add: resolve_at_def r)
  ultimately show ?thesis using a by (simp add: ctx_at_def)
qed

text \<open>The supervisor's sweep does not know the confirm rounds.  Where a worker recording the same last
  refusal would have delayed the article for another round, the sweep that runs while an optional
  server is down fails it for good.\<close>

theorem sweep_skips_confirm_rounds:
  assumes "all_not_found it" "ei_provider_outcomes it \<noteq> []" "ei_confirm_rounds it < CONFIRM_ASKS_PER_SERVER"
    and "map_of (ei_provider_outcomes it) (sc_id server) = Some FK_NotFound"
    and "all_enabled_providers_definitive (en_now env) (po_servers po) (po_health po) (ei_provider_outcomes it)"
    and "optional_down (en_now env) po" "qs_items (po_queue po) = [it]"
    and "map_of (po_jobs po) (ei_job_id it) = Some a" "a < length (po_ctxs po)" "\<not> jc_cancelled (ctx_at po a)"
  shows "fst (handle_article_not_available env it server a FK_NotFound msg po) = False \<and>
    jc_failed (ctx_at (snd (handle_article_not_available env it server a FK_NotFound msg po)) a) = jc_failed (ctx_at po a) \<and>
    jc_failed (ctx_at (resolve_items_not_waiting_on_required_providers env po) a) = jc_failed (ctx_at po a) + 1"
proof (intro conjI)
  have o: "map_of (ei_provider_outcomes (note_outcome server FK_NotFound it)) = map_of (ei_provider_outcomes it)"
    using assms(4) by (auto simp: note_outcome_def update_conv')
  have d: "all_enabled_providers_definitive (en_now env) (po_servers po) (po_health po)
      (ei_provider_outcomes (note_outcome server FK_NotFound it))"
    using assms(5) by (simp add: all_enabled_providers_definitive_def o)
  have "set (AList.update k v m) \<subseteq> insert (k, v) (set m)" for k v and m :: "(server_id \<times> failure_kind) list"
    by (induction m) auto
  then have n: "all_not_found (note_outcome server FK_NotFound it)"
    using assms(1) by (fastforce simp: all_not_found_def list_all_iff note_outcome_def)
  have h: "handle_article_not_available env it server a FK_NotFound msg po =
      (False, po\<lparr>po_delayed := po_delayed po @ [confirm_round (note_outcome server FK_NotFound it)]\<rparr>)"
    using d n assms(3) by (simp add: handle_article_not_available_def Let_def note_outcome_def)
  show "fst (handle_article_not_available env it server a FK_NotFound msg po) = False" by (simp add: h)
  show "jc_failed (ctx_at (snd (handle_article_not_available env it server a FK_NotFound msg po)) a) = jc_failed (ctx_at po a)"
    by (simp add: h ctx_at_def)
  define P where "P = (\<lambda>it :: engine_item. ei_provider_outcomes it \<noteq> [] \<and>
    all_enabled_providers_definitive (en_now env) (po_servers po) (po_health po) (ei_provider_outcomes it))"
  obtain q where t: "take_where P (po_queue po) = ([it], q)"
    using assms(2,5,7) by (simp add: take_where_def P_def take_items.simps)
  define po1 where "po1 = po\<lparr>po_queue := q\<rparr>"
  have at: "ctx_at po1 a = ctx_at po a" by (simp add: po1_def ctx_at_def)
  have "resolve_items_not_waiting_on_required_providers env po = sweep_item env it po1"
    using assms(6) t by (simp add: resolve_items_not_waiting_on_required_providers_def P_def po1_def)
  also have "\<dots> = fail_article_everywhere env it
           (if ei_tried_servers it = [] then [] else last (ei_tried_servers it)) a
           ''Article unavailable on every required server (optional servers unavailable)'' po1"
    using assms(8,10) at by (simp add: sweep_item_def po1_def)
  finally show "jc_failed (ctx_at (resolve_items_not_waiting_on_required_providers env po) a) = jc_failed (ctx_at po a) + 1"
    using assms(9) at by (simp add: fail_article_everywhere_def fail_item_def resolve_at_failed po1_def send_to_job_def)
qed

text \<open>An article that every server still enabled has already been asked for is never taken again, by any
  worker, and the sweep leaves it alone while no optional server is down.  Removing or disabling the
  server it was waiting for therefore leaves it in the queue for good.\<close>

theorem removed_server_strands_article:
  assumes "it \<in> set (qs_items (po_queue po))"
    and "\<forall>s \<in> set (po_servers po). sc_enabled s \<longrightarrow> sc_id s \<in> set (ei_tried_servers it)"
    and "\<forall>s \<in> set (po_servers po). \<not> sc_optional s"
  shows "(\<forall>s \<in> set (po_servers po). sc_enabled s \<longrightarrow> fst (pop_workable (sc_id s) hp (po_queue po)) \<noteq> Some it) \<and>
    resolve_items_not_waiting_on_required_providers env po = po"
proof (intro conjI ballI impI)
  fix s
  assume s: "s \<in> set (po_servers po)" "sc_enabled s"
  show "fst (pop_workable (sc_id s) hp (po_queue po)) \<noteq> Some it"
  proof
    assume "fst (pop_workable (sc_id s) hp (po_queue po)) = Some it"
    then obtain q where "pop_workable (sc_id s) hp (po_queue po) = (Some it, q)"
      by (cases "pop_workable (sc_id s) hp (po_queue po)") auto
    then have "sc_id s \<notin> set (ei_tried_servers it)" by (simp add: pop_workable_respects_priority)
    then show False using assms(2) s by simp
  qed
next
  have "\<not> optional_down (en_now env) po" using assms(3) by (auto simp: optional_down_def list_ex_iff)
  then show "resolve_items_not_waiting_on_required_providers env po = po"
    by (simp add: resolve_items_not_waiting_on_required_providers_def)
qed

section \<open>What an error costs\<close>

text \<open>A connection error answered to a pipelined request puts the article back exactly as it was, with no
  try counted and nothing noted against the server, so nothing bounds how often this can repeat for
  one article.\<close>

theorem connection_error_costs_no_try:
  assumes "pipeline_result_step env server t (Inl e) fl po = Some (nxt, fl', po')"
    and "map_of fl t = Some it" "map_of (po_jobs po) (ei_job_id it) = Some a" "\<not> jc_cancelled (ctx_at po a)"
    and "e = Connection m \<or> e = Io m"
  shows "nxt = Reconnect \<and> fl' = [] \<and> it \<in> set (qs_items (po_queue po')) \<and>
    po_health po' = po_health po \<and> po_delayed po' = po_delayed po \<and>
    queue_items (po_queue po') = queue_items (po_queue po) + add_mset it (mset (map snd (AList.delete t fl)))"
proof -
  have e: "\<not> is_article_absence e" "is_connection_error e"
    using assms(5) by (auto simp: is_article_absence_def is_connection_error_def)
  have r: "po' = requeue_flights (AList.delete t fl)
      (upd_queue (push_front it) (upd_ctx a (send_attempt it (transport_attempt server)) po))" "nxt = Reconnect" "fl' = []"
    using assms(1-4) e by (auto simp: pipeline_result_step_def Let_def)
  have q: "queue_items (po_queue po') = queue_items (po_queue po) + add_mset it (mset (map snd (AList.delete t fl)))"
    by (simp add: r(1) requeue_flights_def queue_items_simps)
  have "it \<in># queue_items (po_queue po')" by (simp add: q)
  then have "it \<in> set (qs_items (po_queue po'))" by (simp add: queue_items_def)
  then show ?thesis using r(2,3) q by (simp add: r(1) requeue_flights_def upd_queue_def)
qed

text \<open>The tenth timeout of an article does not fail it over: after nine counted outages it only starts
  the count of tries, so the server is asked twelve times before its answer becomes definitive.\<close>

theorem tenth_timeout_does_not_fail_over:
  assumes "ei_outage_tries it = 9" "ei_tries_on_current it = 0"
  shows "\<exists>q. qs_items (po_queue (pipeline_error env it server a (Timeout m) po)) =
    it\<lparr>ei_outage_tries := 10, ei_tries_on_current := 1\<rparr> # q"
proof -
  have "po_queue (report_provider_outage env p) = po_queue p" for p
  proof -
    have "po_queue (fold (\<lambda>(_, a). upd_ctx a f) js p) = po_queue p" for f and js :: "(byte_string \<times> nat) list"
      by (induction js arbitrary: p) auto
    then show ?thesis by (simp add: report_provider_outage_def for_jobs_def split: option.splits)
  qed
  then show ?thesis
    using assms
    by (simp add: pipeline_error_def Let_def server_wide_def article_outage_def MAX_OUTAGE_TRIES_PER_SERVER_def
        MAX_TRIES_PER_SERVER_def retry_or_fail_over_def push_front_def break_server_def)
qed

section \<open>The terminal message\<close>

text \<open>A terminal message that finds the channel full or closed is dropped, and the job counts as finished
  all the same: no later call sends it again.\<close>

theorem terminal_message_can_be_lost:
  assumes "\<not> jc_finished ctx" "\<not> channel_room (jc_channel ctx)"
  shows "jc_finished (emit_terminal env ctx) \<and>
    channel_log (jc_channel (emit_terminal env ctx)) = channel_log (jc_channel ctx) \<and>
    emit_terminal env' (emit_terminal env ctx) = emit_terminal env ctx"
proof (intro conjI)
  show f: "jc_finished (emit_terminal env ctx)" by (simp add: emit_terminal_fields)
  show "emit_terminal env' (emit_terminal env ctx) = emit_terminal env ctx"
    by (rule emit_terminal_finished [OF f])
  obtain sm js where s: "tracker_summary (jc_slices ctx) = (sm, js)" by (cases "tracker_summary (jc_slices ctx)")
  have l: "channel_log (jc_channel (send_to_job u c)) = channel_log (jc_channel c)"
    if "jc_channel c = jc_channel ctx" for u c
    using that assms(2) by (simp add: send_to_job_def channel_log_send)
  show "channel_log (jc_channel (emit_terminal env ctx)) = channel_log (jc_channel ctx)"
    by (cases "jc_abort_reason ctx") (simp_all add: emit_terminal_def assms(1) Let_def deobfuscate_files_def s l)
qed

text \<open>Cancelling a job is documented as silent, yet a serial worker that receives the body of the job's last
  article afterwards reports the job as finished, and successful when no article had failed.\<close>

theorem cancelled_job_reports_success:
  assumes "map_of (po_jobs po) job = Some a" "a < length (po_ctxs po)"
    and "jc_remaining (ctx_at po a) = 1" "\<not> jc_finished (ctx_at po a)" "jc_abort_reason (ctx_at po a) = None"
    and "jc_failed (ctx_at po a) = 0" "jc_incomplete_nzb (ctx_at po a) = None"
    and "channel_room (jc_channel (ctx_at po a))" "terminal_messages (ctx_at po a) = []"
  shows "\<exists>nxt po' t sm. run_worker_serial env server it a ready (Some (Inr raw)) (cancel_job job po) = Some (nxt, po') \<and>
    terminal_messages (ctx_at po' a) = [JobFinished (jc_job_id (ctx_at po a)) True 0 t sm None]"
proof -
  define po1 where "po1 = cancel_job job po"
  have at: "ctx_at po1 a = (ctx_at po a)\<lparr>jc_cancelled := True\<rparr>" and len: "a < length (po_ctxs po1)"
    using assms(1,2) by (auto simp: po1_def cancel_job_def Let_def ctx_at_def upd_ctx_def)
  define po2 where "po2 = upd_ctx a (\<lambda>ctx. ctx\<lparr>jc_pinned_sizes := jc_pinned_sizes (ctx_at po1 a),
      jc_assembler := jc_assembler (ctx_at po1 a)\<rparr>) po1"
  have f: "run_fetch env it a (Inr raw) po1 = (Inl AE_Cancelled, po2)"
    by (simp add: run_fetch_def fetch_article_with_retry_def at po2_def)
  have at2: "ctx_at po2 a = (ctx_at po a)\<lparr>jc_cancelled := True\<rparr>"
    using len by (simp add: po2_def at)
  have w: "run_worker_serial env server it a ready (Some (Inr raw)) po1 = Some (Continue, resolve_at env a po2)"
    by (simp add: run_worker_serial_def f)
  define c where "c = (ctx_at po a)\<lparr>jc_cancelled := True, jc_remaining := 0\<rparr>"
  have r: "resolve_one env (ctx_at po2 a) (po_queue po2) = (emit_terminal env c, po_queue po2)"
    using assms(3) by (simp add: resolve_one_def at2 release_held_def Let_def c_def usize_sub_def)
  have "ctx_at (resolve_at env a po2) a = emit_terminal env c"
    using len by (simp add: resolve_at_def r) (simp add: ctx_at_def po2_def)
  moreover have "\<exists>sm t. terminal_messages (emit_terminal env c) = [JobFinished (jc_job_id (ctx_at po a)) True 0 t sm None]"
    using assms
    by (auto simp: emit_terminal_def c_def Let_def deobfuscate_files_def terminal_send split: prod.splits)
      (simp_all add: terminal_messages_def)
  ultimately show ?thesis unfolding po1_def [symmetric] w by auto
qed

end
