(* ===== verification/Engine_Demo.thy ===== *)
theory Engine_Demo
  imports Engine_Props Engine_Decode_Proofs Slice_Tracker_Proofs
begin

text \<open>Concrete runs of the download engine, on which its properties are instantiated.\<close>

definition eng_server :: server_config where
  "eng_server = (server_config_new ''s'' ''h'')\<lparr>sc_pipelining := 1\<rparr>"

definition demo_job :: nzb_job where
  "demo_job =
    plain_job ''j'' ''w'' 3 [plain_file ''f'' ''a.rar'' 3 [plain_article ''m'' 1 0]]"

definition demo_world_1 :: world where
  "demo_world_1 = (world_new [eng_server])\<lparr>wo_workers := [Serial eng_server None]\<rparr>"

definition demo_world_2 :: world where
  "demo_world_2 =
    (case build_job_submission dec_env demo_job open_channel [''s''] Map.empty of
       (ctx, items) \<Rightarrow>
         demo_world_1\<lparr>wo_pool := submit_job dec_env 0 items ((wo_pool demo_world_1)\<lparr>po_ctxs := [ctx]\<rparr>)\<rparr>)"

definition demo_world_3 :: world where
  "demo_world_3 = demo_world_2\<lparr>wo_pool := snd (abort_job dec_env ''j'' ''stop'' (wo_pool demo_world_2))\<rparr>"

lemma demo_reach_2: "world_reach [eng_server] demo_world_2"
proof -
  have 1: "world_reach [eng_server] demo_world_1"
    using world_reach.step [OF world_reach.start engine_step.spawn_serial, of "[eng_server]" eng_server]
    by (simp add: demo_world_1_def world_new_def)
  obtain ctx items where b: "build_job_submission dec_env demo_job open_channel [''s''] Map.empty = (ctx, items)"
    by (cases "build_job_submission dec_env demo_job open_channel [''s''] Map.empty")
  have e: "po_ctxs (wo_pool demo_world_1) = []" by (simp add: demo_world_1_def world_new_def pool_new_def)
  have "engine_step demo_world_1 demo_world_2"
    using engine_step.submit [OF b, of demo_world_1] e
    by (simp add: demo_world_2_def b)
      (simp add: demo_world_1_def world_new_def pool_new_def outstanding_def shared_queue_new_def)
  then show ?thesis using 1 by (blast intro: world_reach.step)
qed

lemma demo_facts_2:
  "map_of (po_jobs (wo_pool demo_world_2)) ''j'' = Some 0 \<and> outstanding ''j'' demo_world_2 = 1"
  by code_simp

lemma demo_reach_3: "world_reach [eng_server] demo_world_3"
  unfolding demo_world_3_def by (rule world_reach.step [OF demo_reach_2 engine_step.abort])

lemma demo_facts_3:
  "map_of (po_jobs (wo_pool demo_world_3)) ''j'' = Some 0"
  "length (po_ctxs (wo_pool demo_world_3)) = 1"
  "outstanding ''j'' demo_world_3 = 0"
  "length (terminal_messages (ctx_at (wo_pool demo_world_3) 0)) = 1"
  by (code_simp, code_simp, code_simp, code_simp)

section \<open>Witnesses of the accounting\<close>

theorem engine_accounts_for_every_article_witness:
  "jc_remaining (ctx_at (wo_pool demo_world_2) 0) = 1"
  using engine_accounts_for_every_article [OF demo_reach_2, of "''j''" 0] demo_facts_2 by simp

theorem unfinished_job_has_work_witness:
  "\<not> jc_finished (ctx_at (wo_pool demo_world_2) 0) \<and> jc_finished (ctx_at (wo_pool demo_world_3) 0)"
  using unfinished_job_has_work [OF demo_reach_2, of "''j''" 0] demo_facts_2
    unfinished_job_has_work [OF demo_reach_3, of "''j''" 0] demo_facts_3 by simp

theorem terminal_message_at_most_once_witness:
  "length (terminal_messages (ctx_at (wo_pool demo_world_3) 0)) = 1 \<and> jc_finished (ctx_at (wo_pool demo_world_3) 0)"
proof -
  have "ctx_at (wo_pool demo_world_3) 0 \<in> set (po_ctxs (wo_pool demo_world_3))"
    using demo_facts_3 by (simp add: ctx_at_def)
  from terminal_message_at_most_once [OF demo_reach_3 this] demo_facts_3(4) show ?thesis by (simp split: if_splits)
qed

section \<open>Witnesses of the single steps\<close>

definition demo_held :: held_volumes where
  "demo_held =
    \<lparr>hd_held = [\<lparr>hv_file_id = ''v1'', hv_first_exponent = 0, hv_blocks = 1, hv_items = [dec_item ''j'' ''v1'' 1]\<rparr>,
       \<lparr>hv_file_id = ''v2'', hv_first_exponent = 1, hv_blocks = 2, hv_items = [dec_item ''j'' ''v2'' 1]\<rparr>,
       \<lparr>hv_file_id = ''v4'', hv_first_exponent = 3, hv_blocks = 4, hv_items = [dec_item ''j'' ''v4'' 1]\<rparr>],
     hd_released_blocks = 0, hd_queue = True\<rparr>"

theorem release_takes_shortest_prefix_witness:
  "map_option (map ei_file_id) (fst (release_for 3 demo_held)) = Some [''v1'', ''v2''] \<and>
    total_blocks (snd (release_for 3 demo_held)) = 7"
proof -
  obtain r h' where e: "release_for 3 demo_held = (r, h')" by (cases "release_for 3 demo_held")
  have "total_blocks h' = total_blocks demo_held"
    using release_takes_shortest_prefix [OF e] by (auto simp: demo_held_def)
  moreover have "map_option (map ei_file_id) (fst (release_for 3 demo_held)) = Some [''v1'', ''v2'']"
    "total_blocks demo_held = 7"
    by (code_simp, code_simp)
  ultimately show ?thesis using e by simp
qed

definition demo_context :: job_context where
  "demo_context = (job_context_new dec_env demo_job (asm_new Map.empty) open_channel 1)
    \<lparr>jc_par2_volumes := [], jc_held := held_default\<rparr>"

lemma demo_context_fields:
  "jc_job_id demo_context = ''j''" "jc_remaining demo_context = 1" "\<not> jc_finished demo_context"
  "\<not> jc_cancelled demo_context" "jc_abort_reason demo_context = None" "jc_channel demo_context = open_channel"
  "jc_held demo_context = held_default" "jc_failed demo_context = 0" "\<not> jc_paused demo_context"
  by (simp_all add: demo_context_def job_context_new_def demo_job_def plain_job_def)

lemma demo_context_ok: "ctx_ok demo_context"
  by (simp add: ctx_ok_def held_ok_def term_ok_def demo_context_fields held_default_def terminal_messages_def
      channel_log_def open_channel_def)

lemma demo_context_complete: "jc_incomplete_nzb demo_context = None"
  by code_simp

text \<open>Two undecided slices, ten blocks released before, and three volumes still held.\<close>

definition demo_covered :: job_context where
  "demo_covered = demo_context\<lparr>jc_slices := demo_summary_tracker, jc_held := demo_held\<lparr>hd_released_blocks := 10\<rparr>\<rparr>"

theorem finish_has_enough_recovery_witness:
  "\<exists>sm ctx' q'. resolve_one dec_env demo_covered shared_queue_new = (ctx', q') \<and> jc_finished ctx' \<and>
     length (hd_held (jc_held ctx')) = 3 \<and> fst (tracker_summary (jc_slices demo_covered)) = Some sm \<and>
     sm_damaged sm + sm_unknown sm = 2 \<and> 2 + REPAIR_MARGIN \<le> hd_released_blocks (jc_held ctx')"
proof -
  obtain c q where e: "resolve_one dec_env demo_covered shared_queue_new = (c, q)"
    by (cases "resolve_one dec_env demo_covered shared_queue_new")
  have "jc_finished (fst (resolve_one dec_env demo_covered shared_queue_new)) \<and>
      length (hd_held (jc_held (fst (resolve_one dec_env demo_covered shared_queue_new)))) = 3" by code_simp
  then have f: "jc_finished c" "length (hd_held (jc_held c)) = 3" by (simp_all add: e)
  have "case fst (tracker_summary (jc_slices demo_covered)) of Some sm \<Rightarrow> sm_damaged sm + sm_unknown sm = 2 | None \<Rightarrow> False"
    by code_simp
  then obtain sm where sm: "fst (tracker_summary (jc_slices demo_covered)) = Some sm" "sm_damaged sm + sm_unknown sm = 2"
    by (auto split: option.splits)
  have ok: "ctx_ok demo_covered"
    using demo_context_ok
    by (simp add: demo_covered_def ctx_ok_def held_ok_def term_ok_def demo_context_fields demo_held_def dec_item_def terminal_messages_def
        channel_log_def open_channel_def)
  have "total_blocks (jc_held demo_covered) < usize_max"
    by (simp add: demo_covered_def demo_held_def total_blocks_def usize_max_def)
  then have "hd_held (jc_held c) = [] \<or> (\<exists>sm. fst (tracker_summary (jc_slices demo_covered)) = Some sm \<and>
      (sm_damaged sm + sm_unknown sm = 0 \<or> sm_damaged sm + sm_unknown sm + REPAIR_MARGIN \<le> hd_released_blocks (jc_held c)))"
    using ok f by (intro finish_has_enough_recovery [OF e]) (simp_all add: demo_covered_def demo_context_fields)
  then have "2 + REPAIR_MARGIN \<le> hd_released_blocks (jc_held c)" using f(2) sm by auto
  with e f sm show ?thesis by blast
qed

definition demo_pool :: "engine_item list \<Rightarrow> pool" where
  "demo_pool items =
    (pool_new [eng_server, (server_config_new ''o'' ''h'')\<lparr>sc_optional := True\<rparr>])
      \<lparr>po_health := [(''o'', \<lparr>sh_consecutive_failures = 3, sh_disabled_until = Some 100, sh_reason = None,
         sh_is_auth_failure = False\<rparr>)],
       po_queue := \<lparr>qs_items = items, qs_last_served = []\<rparr>, po_jobs := [(''j'', 0)], po_ctxs := [demo_context]\<rparr>"

definition demo_refused :: "u32 \<Rightarrow> engine_item" where
  "demo_refused rounds = (dec_item ''j'' ''f'' 1)
    \<lparr>ei_tried_servers := [''s''], ei_provider_outcomes := [(''s'', FK_NotFound)], ei_confirm_rounds := rounds\<rparr>"

theorem missing_needs_every_provider_and_confirmation_witness:
  "fst (handle_article_not_available dec_env (demo_refused 2) eng_server 0 FK_NotFound [] (demo_pool [])) \<and>
    map_of (ei_provider_outcomes (note_outcome eng_server FK_NotFound (demo_refused 2))) ''s'' = Some FK_NotFound"
proof -
  obtain b po' where h: "handle_article_not_available dec_env (demo_refused 2) eng_server 0 FK_NotFound [] (demo_pool []) = (b, po')"
    by (cases "handle_article_not_available dec_env (demo_refused 2) eng_server 0 FK_NotFound [] (demo_pool [])")
  have t: "fst (handle_article_not_available dec_env (demo_refused 2) eng_server 0 FK_NotFound [] (demo_pool []))"
    and n: "all_not_found (note_outcome eng_server FK_NotFound (demo_refused 2))"
    by (code_simp, code_simp)
  from h t have "handle_article_not_available dec_env (demo_refused 2) eng_server 0 FK_NotFound [] (demo_pool []) = (True, po')"
    by simp
  from missing_needs_every_provider_and_confirmation [OF this n] t show ?thesis
    by (auto simp: demo_pool_def pool_new_def eng_server_def server_config_new_def server_config_default_def)
qed

theorem sweep_skips_confirm_rounds_witness:
  "fst (handle_article_not_available dec_env (demo_refused 0) eng_server 0 FK_NotFound [] (demo_pool [demo_refused 0])) = False \<and>
    jc_failed (ctx_at (resolve_items_not_waiting_on_required_providers dec_env (demo_pool [demo_refused 0])) 0) = 1"
proof -
  have p: "all_not_found (demo_refused 0)" "all_enabled_providers_definitive (en_now dec_env)
      (po_servers (demo_pool [demo_refused 0])) (po_health (demo_pool [demo_refused 0])) (ei_provider_outcomes (demo_refused 0))"
    "optional_down (en_now dec_env) (demo_pool [demo_refused 0])"
    "map_of (ei_provider_outcomes (demo_refused 0)) (sc_id eng_server) = Some FK_NotFound"
    "ei_confirm_rounds (demo_refused 0) < CONFIRM_ASKS_PER_SERVER"
    by (code_simp, code_simp, code_simp, code_simp, code_simp)
  have q: "qs_items (po_queue (demo_pool [demo_refused 0])) = [demo_refused 0]"
    "map_of (po_jobs (demo_pool [demo_refused 0])) (ei_job_id (demo_refused 0)) = Some 0"
    "length (po_ctxs (demo_pool [demo_refused 0])) = 1" "ctx_at (demo_pool [demo_refused 0]) 0 = demo_context"
    "ei_provider_outcomes (demo_refused 0) \<noteq> []"
    by (simp_all add: demo_pool_def demo_refused_def dec_item_def ctx_at_def)
  show ?thesis
    using sweep_skips_confirm_rounds [OF p(1) q(5) p(5,4,2,3) q(1,2), where msg = "[]"] q
    by (simp add: demo_context_fields)
qed

theorem removed_server_strands_article_witness:
  "fst (pop_workable ''s'' [] (po_queue ((demo_pool [demo_refused 0])\<lparr>po_servers := [eng_server]\<rparr>))) \<noteq> Some (demo_refused 0) \<and>
    resolve_items_not_waiting_on_required_providers dec_env ((demo_pool [demo_refused 0])\<lparr>po_servers := [eng_server]\<rparr>) =
      (demo_pool [demo_refused 0])\<lparr>po_servers := [eng_server]\<rparr>"
  using removed_server_strands_article [of "demo_refused 0" "(demo_pool [demo_refused 0])\<lparr>po_servers := [eng_server]\<rparr>" "[]" dec_env]
  by (simp add: demo_pool_def demo_refused_def eng_server_def server_config_new_def server_config_default_def)

theorem connection_error_costs_no_try_witness:
  "case pipeline_result_step dec_env eng_server 0 (Inl (Connection [])) [(0, dec_item ''j'' ''f'' 1)] (demo_pool []) of
     Some (nxt, fl', po') \<Rightarrow> nxt = Reconnect \<and> dec_item ''j'' ''f'' 1 \<in> set (qs_items (po_queue po'))
   | None \<Rightarrow> False"
proof -
  have q: "map_of (po_jobs (demo_pool [])) (ei_job_id (dec_item ''j'' ''f'' 1)) = Some 0"
    "\<not> jc_cancelled (ctx_at (demo_pool []) 0)"
    by (simp_all add: demo_pool_def dec_item_def ctx_at_def demo_context_fields)
  then obtain nxt fl' po' where r: "pipeline_result_step dec_env eng_server 0 (Inl (Connection []))
      [(0, dec_item ''j'' ''f'' 1)] (demo_pool []) = Some (nxt, fl', po')"
    by (auto simp: pipeline_result_step_def is_article_absence_def is_connection_error_def Let_def)
  from connection_error_costs_no_try [OF r _ q, of "[]"] r show ?thesis by simp
qed

theorem tenth_timeout_does_not_fail_over_witness:
  "\<exists>q. qs_items (po_queue (pipeline_error dec_env ((dec_item ''j'' ''f'' 1)\<lparr>ei_outage_tries := 9\<rparr>) eng_server 0
      (Timeout []) (demo_pool []))) =
    (dec_item ''j'' ''f'' 1)\<lparr>ei_outage_tries := 10, ei_tries_on_current := 1\<rparr> # q"
  using tenth_timeout_does_not_fail_over [of "(dec_item ''j'' ''f'' 1)\<lparr>ei_outage_tries := 9\<rparr>" dec_env eng_server 0
      "[]" "demo_pool []"]
  by (simp add: dec_item_def)

theorem terminal_message_can_be_lost_witness:
  "channel_log (jc_channel (emit_terminal dec_env (demo_context\<lparr>jc_channel := open_channel\<lparr>pc_closed := True\<rparr>\<rparr>))) = []"
  using terminal_message_can_be_lost [of "demo_context\<lparr>jc_channel := open_channel\<lparr>pc_closed := True\<rparr>\<rparr>" dec_env dec_env]
  by (simp add: demo_context_fields channel_room_def channel_log_def open_channel_def)

theorem cancelled_job_reports_success_witness:
  "\<exists>nxt po' t sm. run_worker_serial dec_env eng_server (dec_item ''j'' ''f'' 1) 0 True (Some (Inr [0, 1]))
      (cancel_job ''j'' (demo_pool [])) = Some (nxt, po') \<and>
    terminal_messages (ctx_at po' 0) = [JobFinished ''j'' True 0 t sm None]"
proof -
  have c: "ctx_at (demo_pool []) 0 = demo_context" "map_of (po_jobs (demo_pool [])) ''j'' = Some 0"
    "length (po_ctxs (demo_pool [])) = 1"
    by (simp_all add: demo_pool_def ctx_at_def)
  show ?thesis
    using cancelled_job_reports_success [OF c(2), of dec_env eng_server "dec_item ''j'' ''f'' 1" True "[0, 1]"]
    by (simp add: c demo_context_fields demo_context_complete channel_room_def open_channel_def
        PROGRESS_CHANNEL_CAPACITY_def terminal_messages_def channel_log_def)
qed

end
