(* ===== verification/Queue_Hopeless.thy ===== *)
theory Queue_Hopeless
  imports Engine_Names
begin

text \<open>
  Deciding that a job cannot complete (\<open>HopelessTracker\<close> and \<open>parity_diagnosis\<close> of
  \<open>crates/nzb-web/src/queue_manager.rs\<close>), and the volume numbers in PAR2 file names
  (\<open>parse_par2_filename\<close> of \<open>crates/nzb-core/src/nzb_parser.rs\<close>) on which it rests.

  A \<open>u64\<close> is a natural number; \<open>u64_add\<close> wraps, as \<open>+=\<close> does in the release build, the other two
  saturate.  A finite non-negative \<open>f64\<close> is the rational it denotes.
\<close>

section \<open>Arithmetic\<close>

definition u64_add :: "nat \<Rightarrow> nat \<Rightarrow> nat" where "u64_add a b = (a + b) mod 2 ^ 64"
definition u64_sat_add :: "nat \<Rightarrow> nat \<Rightarrow> nat" where "u64_sat_add a b = min (a + b) (2 ^ 64 - 1)"
definition u64_sat_mul :: "nat \<Rightarrow> nat \<Rightarrow> nat" where "u64_sat_mul a b = min (a * b) (2 ^ 64 - 1)"
definition ceil_div :: "nat \<Rightarrow> nat \<Rightarrow> nat" where "ceil_div a b = (a + b - 1) div b"

lemma u64_add_small: "a + b < 2 ^ 64 \<Longrightarrow> u64_add a b = a + b" by (simp add: u64_add_def)

lemma u64_sat_add_le: "u64_sat_add a b \<le> a + b" by (simp add: u64_sat_add_def)

lemma ceil_div_le_iff: "0 < b \<Longrightarrow> ceil_div a b \<le> k \<longleftrightarrow> a \<le> k * b"
proof -
  assume b: "0 < b"
  have "ceil_div a b < Suc k \<longleftrightarrow> a + b - 1 < Suc k * b"
    unfolding ceil_div_def using b by (rule div_less_iff_less_mult)
  also have "\<dots> \<longleftrightarrow> a \<le> k * b" using b by auto
  finally show ?thesis by (simp add: less_Suc_eq_le)
qed

text \<open>
  Rounding to 53 significant bits, ties to even: \<open>as f64\<close>, multiplication and division in the normal
  range.  \<open>ceil_u64\<close> is \<open>.ceil() as u64\<close>, which saturates; \<open>fmt_fixed n\<close> is \<open>{:.n}\<close>.
\<close>

definition f64_round :: "rat \<Rightarrow> rat" where
  "f64_round x =
    (if x \<le> 0 then 0
     else
       let (p, q) = quotient_of x;
           e0 = int (floorlog 2 (nat p)) - int (floorlog 2 (nat q)) - 53;
           e = (if x / pow2 e0 < 2 ^ 53 then e0 else e0 + 1)
       in of_int (round_half_even (x / pow2 e)) * pow2 e)"

definition u64_as_f64 :: "nat \<Rightarrow> rat" where "u64_as_f64 n = f64_round (of_nat n)"
definition f64_mul :: "rat \<Rightarrow> rat \<Rightarrow> rat" where "f64_mul a b = f64_round (a * b)"
definition f64_div :: "rat \<Rightarrow> rat \<Rightarrow> rat" where "f64_div a b = f64_round (a / b)"
definition ceil_u64 :: "rat \<Rightarrow> nat" where "ceil_u64 x = min (nat \<lceil>x\<rceil>) (2 ^ 64 - 1)"

definition fmt_fixed :: "nat \<Rightarrow> rat \<Rightarrow> byte_string" where
  "fmt_fixed n x =
    (let m = nat (round_half_even (x * 10 ^ n)) in
     if n = 0 then show_nat m
     else
       let frac = show_nat (m mod 10 ^ n)
       in show_nat (m div 10 ^ n) @ ''.'' @ replicate (n - length frac) (CHR ''0'') @ frac)"

section \<open>PAR2 file names\<close>

text \<open>Names are ASCII here: lower-casing keeps the length of a string.\<close>

definition parse_u32 :: "byte_string \<Rightarrow> u32 option" where
  "parse_u32 s = (if digits_value s < 2 ^ 32 then Some (of_nat (digits_value s)) else None)"

definition par2_volume :: "byte_string \<Rightarrow> (u32 \<times> u32) option" where
  "par2_volume vol_part =
    (case position (\<lambda>c. c = CHR ''+'' \<or> c = CHR ''-'') vol_part of
       None \<Rightarrow> None
     | Some i \<Rightarrow>
         let vol_text = take i vol_part; blocks_text = drop (i + 1) vol_part in
         if vol_text \<noteq> [] \<and> blocks_text \<noteq> [] \<and> list_all is_ascii_digit vol_text \<and> list_all is_ascii_digit blocks_text
         then (case (parse_u32 vol_text, parse_u32 blocks_text) of
                 (Some vol, Some blocks) \<Rightarrow> Some (vol, blocks)
               | _ \<Rightarrow> None)
         else None)"

definition parse_par2_filename :: "byte_string \<Rightarrow> byte_string option \<times> u32 option \<times> u32 option" where
  "parse_par2_filename filename =
    (if \<not> ends_with ''.par2'' (lowercase filename) then (None, None, None)
     else
       let without_ext = take (length filename - 5) filename;
           index = (Some without_ext, None, None)
       in (case rfind_str ''.vol'' (lowercase without_ext) of
             None \<Rightarrow> index
           | Some vol_pos \<Rightarrow>
               (case par2_volume (drop (vol_pos + 4) without_ext) of
                  Some (vol, blocks) \<Rightarrow> (Some (take vol_pos without_ext), Some vol, Some blocks)
                | None \<Rightarrow> index)))"

section \<open>The tracker\<close>

type_synonym byte_counts = "(byte_string \<times> nat) list"

record hopeless_tracker =
  ht_created_at :: millis
  ht_last_progress_at :: millis
  ht_content_bytes :: nat
  ht_capacity_bytes :: nat
  ht_blocks_total :: nat
  ht_bytes_unavailable :: nat
  ht_blocks_unavailable :: nat
  ht_capacity_by_set :: byte_counts
  ht_unavailable_by_set :: byte_counts
  ht_blocks_by_set :: byte_counts
  ht_bound_by_set :: byte_counts
  ht_slice_bound :: nat
  ht_content_by_set :: byte_counts
  ht_missing_by_set :: byte_counts
  ht_unassociated_missing :: nat
  ht_file_sets :: "(byte_string \<times> byte_string option) list"
  ht_pending_files :: "byte_string set"
  ht_content_missing :: nat
  ht_checked :: nat
  ht_failed :: nat
  ht_articles_total :: nat
  ht_has_par2_set :: bool
  ht_blocks_known :: bool
  ht_missing_files :: byte_counts
  ht_missing_unattributed :: nat

definition HOPELESS_GRACE_ARTICLES :: nat where "HOPELESS_GRACE_ARTICLES = 5"
definition YENC_OVERHEAD_PCT :: nat where "YENC_OVERHEAD_PCT = 103"
definition EARLY_CHECK_MIN_ARTICLES :: nat where "EARLY_CHECK_MIN_ARTICLES = 10"
definition EARLY_CHECK_FAILURE_RATE :: rat where "EARLY_CHECK_FAILURE_RATE = f64_round (4 / 5)"

text \<open>\<open>*m.entry(k).or_insert(d) = f(\<dots>)\<close>, and a lookup with default 0.\<close>

definition entry_upd :: "'k \<Rightarrow> 'v \<Rightarrow> ('v \<Rightarrow> 'v) \<Rightarrow> ('k \<times> 'v) list \<Rightarrow> ('k \<times> 'v) list" where
  "entry_upd k d f m = AList.update k (f (case map_of m k of Some v \<Rightarrow> v | None \<Rightarrow> d)) m"

definition count_at :: "byte_counts \<Rightarrow> byte_string \<Rightarrow> nat" where
  "count_at m k = (case map_of m k of Some v \<Rightarrow> v | None \<Rightarrow> 0)"

definition add_at :: "byte_string \<Rightarrow> nat \<Rightarrow> byte_counts \<Rightarrow> byte_counts" where
  "add_at k n m = entry_upd k 0 (\<lambda>v. u64_add v n) m"

definition tracker_start :: "millis \<Rightarrow> hopeless_tracker" where
  "tracker_start now =
    \<lparr>ht_created_at = now, ht_last_progress_at = now, ht_content_bytes = 0, ht_capacity_bytes = 0,
     ht_blocks_total = 0, ht_bytes_unavailable = 0, ht_blocks_unavailable = 0, ht_capacity_by_set = [],
     ht_unavailable_by_set = [], ht_blocks_by_set = [], ht_bound_by_set = [], ht_slice_bound = 0,
     ht_content_by_set = [], ht_missing_by_set = [], ht_unassociated_missing = 0, ht_file_sets = [],
     ht_pending_files = {}, ht_content_missing = 0, ht_checked = 0, ht_failed = 0, ht_articles_total = 0,
     ht_has_par2_set = False, ht_blocks_known = True, ht_missing_files = [], ht_missing_unattributed = 0\<rparr>"

definition recovery_set_names :: "nzb_job \<Rightarrow> byte_string list" where
  "recovery_set_names job =
    remdups (map lowercase (List.map_filter jf_par2_setname (filter jf_is_par2 (nj_files job))))"

text \<open>The set a content file belongs to: the only set, or the set whose name is its longest prefix.\<close>

definition starts_with :: "byte_string \<Rightarrow> byte_string \<Rightarrow> bool" where
  "starts_with pre s \<longleftrightarrow> take (length pre) s = pre"

fun longest :: "byte_string list \<Rightarrow> byte_string option" where
  "longest [] = None"
| "longest (x # xs) =
    (case longest xs of Some y \<Rightarrow> Some (if length y < length x then x else y) | None \<Rightarrow> Some x)"

definition associated_set :: "byte_string list \<Rightarrow> byte_string \<Rightarrow> byte_string option" where
  "associated_set names filename =
    (case names of
       [n] \<Rightarrow> Some n
     | _ \<Rightarrow> longest (filter (\<lambda>n. starts_with n (lowercase filename)) names))"

text \<open>The recovery volume of the loop over the files; the second component is the bound of unnamed sets.\<close>

definition declares_blocks :: "u32 option \<Rightarrow> u32 option \<Rightarrow> nat option" where
  "declares_blocks volume blocks =
    (case (volume, blocks) of
       (Some _, Some b) \<Rightarrow> if 0 < unat b then Some (unat b) else None
     | _ \<Rightarrow> None)"

definition tracker_add_volume ::
  "job_file \<Rightarrow> nat \<Rightarrow> hopeless_tracker \<times> nat \<Rightarrow> hopeless_tracker \<times> nat" where
  "tracker_add_volume f blocks acc =
    (case acc of (tr, unnamed) \<Rightarrow>
      let per_block = ceil_div (jf_bytes f) blocks;
          tr1 = tr\<lparr>ht_capacity_bytes := u64_sat_add (ht_capacity_bytes tr) (jf_bytes f),
                   ht_blocks_total := u64_sat_add (ht_blocks_total tr) blocks\<rparr>
      in (case jf_par2_setname f of
            None \<Rightarrow> (tr1, max unnamed per_block)
          | Some n \<Rightarrow>
              let s = lowercase n in
              (tr1\<lparr>ht_capacity_by_set := entry_upd s 0 (\<lambda>v. u64_sat_add v (jf_bytes f)) (ht_capacity_by_set tr1),
                   ht_blocks_by_set := add_at s blocks (ht_blocks_by_set tr1),
                   ht_bound_by_set := entry_upd s (2 ^ 64 - 1) (\<lambda>v. min v per_block) (ht_bound_by_set tr1)\<rparr>,
               unnamed)))"

definition tracker_add_file ::
  "byte_string list \<Rightarrow> job_file \<Rightarrow> hopeless_tracker \<times> nat \<Rightarrow> hopeless_tracker \<times> nat" where
  "tracker_add_file names f acc =
    (case acc of (tr, unnamed) \<Rightarrow>
      if jf_is_par2 f then
        let tr1 = tr\<lparr>ht_has_par2_set := True,
                     ht_blocks_known := ht_blocks_known tr \<and> \<not> (jf_par2_vol f \<noteq> None \<and> jf_par2_blocks f = None)\<rparr>;
            acc2 = (case declares_blocks (jf_par2_vol f) (jf_par2_blocks f) of
                      Some b \<Rightarrow> tracker_add_volume f b (tr1, unnamed)
                    | None \<Rightarrow> (tr1, unnamed))
        in (fst acc2\<lparr>ht_file_sets :=
              AList.update (jf_id f) (map_option lowercase (jf_par2_setname f)) (ht_file_sets (fst acc2))\<rparr>, snd acc2)
      else
        let s = associated_set names (jf_filename f) in
        (tr\<lparr>ht_content_bytes := u64_add (ht_content_bytes tr) (jf_bytes f),
            ht_articles_total := ht_articles_total tr + length (jf_articles f),
            ht_content_by_set := (case s of Some n \<Rightarrow> add_at n (jf_bytes f) (ht_content_by_set tr)
                                  | None \<Rightarrow> ht_content_by_set tr),
            ht_file_sets := AList.update (jf_id f) s (ht_file_sets tr),
            ht_pending_files := (if has_known_extension (jf_filename f) then ht_pending_files tr
                                 else insert (jf_id f) (ht_pending_files tr))\<rparr>, unnamed))"

definition hopeless_new :: "millis \<Rightarrow> nzb_job \<Rightarrow> hopeless_tracker" where
  "hopeless_new now job =
    (case fold (tracker_add_file (recovery_set_names job)) (nj_files job) (tracker_start now, 0) of
       (tr, unnamed) \<Rightarrow> tr\<lparr>ht_slice_bound := fold max (map snd (ht_bound_by_set tr)) unnamed\<rparr>)"

definition hopeless_record_success :: "millis \<Rightarrow> bool \<Rightarrow> hopeless_tracker \<Rightarrow> hopeless_tracker" where
  "hopeless_record_success now is_par2 tr =
    tr\<lparr>ht_last_progress_at := now, ht_checked := (if is_par2 then ht_checked tr else ht_checked tr + 1)\<rparr>"

definition reclassify_as_par2 ::
  "byte_string \<Rightarrow> nat \<Rightarrow> nat \<Rightarrow> u32 option \<Rightarrow> u32 option \<Rightarrow> byte_string option \<Rightarrow> hopeless_tracker \<Rightarrow> hopeless_tracker" where
  "reclassify_as_par2 file_id file_bytes article_count volume blocks set_name tr =
    (let tr1 = tr\<lparr>ht_content_bytes := ht_content_bytes tr - file_bytes,
                  ht_articles_total := ht_articles_total tr - article_count,
                  ht_has_par2_set := True,
                  ht_blocks_known := ht_blocks_known tr \<and> \<not> (volume \<noteq> None \<and> blocks = None),
                  ht_missing_files := AList.delete file_id (ht_missing_files tr),
                  ht_content_by_set :=
                    (case map_of (ht_file_sets tr) file_id of
                       Some (Some old) \<Rightarrow>
                         if map_of (ht_content_by_set tr) old \<noteq> None
                         then entry_upd old 0 (\<lambda>v. v - file_bytes) (ht_content_by_set tr) else ht_content_by_set tr
                     | _ \<Rightarrow> ht_content_by_set tr)\<rparr>;
         tr2 = (case declares_blocks volume blocks of
                  None \<Rightarrow> tr1
                | Some b \<Rightarrow>
                    let per_block = ceil_div file_bytes b;
                        tr' = tr1\<lparr>ht_capacity_bytes := u64_sat_add (ht_capacity_bytes tr1) file_bytes,
                                  ht_blocks_total := u64_sat_add (ht_blocks_total tr1) b,
                                  ht_slice_bound := max (ht_slice_bound tr1) per_block\<rparr>
                    in (case set_name of
                          None \<Rightarrow> tr'
                        | Some n \<Rightarrow>
                            tr'\<lparr>ht_capacity_by_set := add_at (lowercase n) file_bytes (ht_capacity_by_set tr'),
                                ht_blocks_by_set := add_at (lowercase n) b (ht_blocks_by_set tr'),
                                ht_bound_by_set :=
                                  entry_upd (lowercase n) (2 ^ 64 - 1) (\<lambda>v. min v per_block) (ht_bound_by_set tr')\<rparr>))
     in tr2\<lparr>ht_file_sets := AList.update file_id (map_option lowercase set_name) (ht_file_sets tr2),
            ht_pending_files := ht_pending_files tr2 - {file_id}\<rparr>)"

definition mark_file_classified :: "byte_string \<Rightarrow> hopeless_tracker \<Rightarrow> hopeless_tracker" where
  "mark_file_classified file_id tr = tr\<lparr>ht_pending_files := ht_pending_files tr - {file_id}\<rparr>"

definition set_of_file :: "hopeless_tracker \<Rightarrow> byte_string option \<Rightarrow> byte_string option" where
  "set_of_file tr file_id = Option.bind file_id (\<lambda>i. Option.bind (map_of (ht_file_sets tr) i) id)"

text \<open>A failed article of a PAR2 file, and of a content file.\<close>

definition record_volume_failure :: "byte_string option \<Rightarrow> nat \<Rightarrow> hopeless_tracker \<Rightarrow> hopeless_tracker" where
  "record_volume_failure file_id est tr =
    (let lost = min (u64_sat_add (ht_bytes_unavailable tr) est) (ht_capacity_bytes tr) in
     tr\<lparr>ht_bytes_unavailable := lost,
        ht_blocks_unavailable :=
          (if 0 < ht_capacity_bytes tr \<and> 0 < ht_blocks_total tr
           then min (ceil_div (lost * ht_blocks_total tr) (ht_capacity_bytes tr)) (ht_blocks_total tr)
           else ht_blocks_unavailable tr),
        ht_unavailable_by_set :=
          (case set_of_file tr file_id of
             Some s \<Rightarrow> add_at s est (ht_unavailable_by_set tr)
           | None \<Rightarrow> ht_unavailable_by_set tr)\<rparr>)"

definition confirm_missing :: "byte_string option \<Rightarrow> nat \<Rightarrow> hopeless_tracker \<Rightarrow> hopeless_tracker" where
  "confirm_missing file_id est tr =
    (case file_id of
       Some i \<Rightarrow> tr\<lparr>ht_missing_files := add_at i est (ht_missing_files tr)\<rparr>
     | None \<Rightarrow> tr\<lparr>ht_missing_unattributed := ht_missing_unattributed tr + 1\<rparr>)"

definition count_missing :: "byte_string option \<Rightarrow> nat \<Rightarrow> hopeless_tracker \<Rightarrow> hopeless_tracker" where
  "count_missing file_id est tr =
    (let tr1 = tr\<lparr>ht_failed := ht_failed tr + 1, ht_content_missing := u64_add (ht_content_missing tr) est\<rparr> in
     case set_of_file tr file_id of
       Some s \<Rightarrow> tr1\<lparr>ht_missing_by_set := add_at s est (ht_missing_by_set tr1)\<rparr>
     | None \<Rightarrow> tr1\<lparr>ht_unassociated_missing := u64_sat_add (ht_unassociated_missing tr1) est\<rparr>)"

definition record_file_failure ::
  "millis \<Rightarrow> byte_string option \<Rightarrow> bool \<Rightarrow> nat \<Rightarrow> failure_kind \<Rightarrow> hopeless_tracker \<Rightarrow> hopeless_tracker" where
  "record_file_failure now file_id is_par2 est kind tr0 =
    (let tr = tr0\<lparr>ht_last_progress_at := now\<rparr> in
     if is_par2 then record_volume_failure file_id est tr
     else
       let tr1 = tr\<lparr>ht_checked := ht_checked tr + 1\<rparr>;
           tr2 = (if kind = FK_NotFound then confirm_missing file_id est tr1 else tr1)
       in if counts_toward_hopeless kind then count_missing file_id est tr2 else tr2)"

definition reset_progress_clock :: "millis \<Rightarrow> hopeless_tracker \<Rightarrow> hopeless_tracker" where
  "reset_progress_clock now tr = tr\<lparr>ht_last_progress_at := now\<rparr>"

section \<open>Parity\<close>

record hopeless_abort =
  ha_tier :: byte_string
  ha_reason :: byte_string

definition recovery_blocks_available :: "hopeless_tracker \<Rightarrow> nat" where
  "recovery_blocks_available tr = ht_blocks_total tr - ht_blocks_unavailable tr"

definition file_damaged_slices :: "nat \<Rightarrow> nat \<Rightarrow> nat" where
  "file_damaged_slices missing_bytes slice_bound =
    (if slice_bound = 0 \<or> slice_bound = 2 ^ 64 - 1 then 1
     else max 1 (ceil_div (u64_sat_mul missing_bytes 100 div YENC_OVERHEAD_PCT) slice_bound))"

definition damaged_slices_lower_bound :: "hopeless_tracker \<Rightarrow> nat" where
  "damaged_slices_lower_bound tr =
    (let damaged = fold u64_add (map (\<lambda>(_, b). file_damaged_slices b (ht_slice_bound tr)) (ht_missing_files tr)) 0
     in if damaged = 0 \<and> 0 < ht_missing_unattributed tr then 1 else damaged)"

definition set_recovery_blocks_available :: "hopeless_tracker \<Rightarrow> byte_string \<Rightarrow> nat" where
  "set_recovery_blocks_available tr s =
    (let blocks = count_at (ht_blocks_by_set tr) s;
         capacity = count_at (ht_capacity_by_set tr) s;
         lost_bytes = min (count_at (ht_unavailable_by_set tr) s) capacity;
         lost = (if capacity = 0 then 0 else ceil_div (lost_bytes * blocks) capacity)
     in blocks - lost)"

text \<open>The damage of each set that declares recovery blocks.\<close>

definition damaged_by_set :: "hopeless_tracker \<Rightarrow> byte_counts" where
  "damaged_by_set tr =
    fold (\<lambda>(f, b) m.
        case set_of_file tr (Some f) of
          None \<Rightarrow> m
        | Some s \<Rightarrow>
            (case map_of (ht_bound_by_set tr) s of
               None \<Rightarrow> m
             | Some bound \<Rightarrow> add_at s (file_damaged_slices b bound) m))
      (ht_missing_files tr) []"

definition parity_check :: "hopeless_tracker \<Rightarrow> hopeless_abort option" where
  "parity_check tr =
    (if \<not> ht_blocks_known tr then None
     else
       let damaged = damaged_slices_lower_bound tr; available = recovery_blocks_available tr in
       if available < damaged
       then Some \<lparr>ha_tier = ''parity'', ha_reason = ''Aborted: at least '' @ show_nat damaged @
         '' slice(s) missing but the release only carries '' @ show_nat available @ '' recovery slice(s)''\<rparr>
       else
         map_option (\<lambda>(s, d).
             \<lparr>ha_tier = ''parity'', ha_reason = ''Aborted: at least '' @ show_nat d @
               '' slice(s) missing in PAR2 set \"'' @ s @ ''\" but it only carries '' @
               show_nat (set_recovery_blocks_available tr s) @ '' recovery slice(s)''\<rparr>)
           (List.find (\<lambda>(s, d). set_recovery_blocks_available tr s < d) (sort_key fst (damaged_by_set tr))))"

definition parity_diagnosis :: "slice_map_summary \<Rightarrow> nat option \<Rightarrow> byte_string option" where
  "parity_diagnosis m declared_available =
    (case declared_available of
       None \<Rightarrow> None
     | Some d \<Rightarrow>
         let available = max d (unat (sm_recovery_block_count m)) in
         if available < sm_damaged m
         then Some (show_nat (sm_damaged m) @ '' slice(s) missing but the release only carries '' @
           show_nat available @ '' recovery slice(s)'')
         else None)"

section \<open>The check after each failure\<close>

definition usable_recovery_bytes :: "hopeless_tracker \<Rightarrow> nat" where
  "usable_recovery_bytes tr = ht_capacity_bytes tr - ht_bytes_unavailable tr"

definition required_bytes :: "rat \<Rightarrow> nat \<Rightarrow> nat" where
  "required_bytes pct content = ceil_u64 (f64_div (f64_mul (u64_as_f64 content) pct) 100)"

definition failure_rate :: "hopeless_tracker \<Rightarrow> rat" where
  "failure_rate tr = f64_div (u64_as_f64 (ht_failed tr)) (u64_as_f64 (ht_checked tr))"

definition projected_missing :: "hopeless_tracker \<Rightarrow> nat" where
  "projected_missing tr = ceil_u64 (f64_mul (u64_as_f64 (ht_content_bytes tr)) (failure_rate tr))"

definition early_failure :: "rat \<Rightarrow> hopeless_tracker \<Rightarrow> bool" where
  "early_failure pct tr \<longleftrightarrow>
    EARLY_CHECK_MIN_ARTICLES \<le> ht_checked tr \<and> EARLY_CHECK_FAILURE_RATE \<le> failure_rate tr \<and>
    usable_recovery_bytes tr <
      u64_sat_add (projected_missing tr) (required_bytes pct (ht_content_bytes tr) - ht_content_bytes tr)"

definition early_failure_reason :: "hopeless_tracker \<Rightarrow> byte_string" where
  "early_failure_reason tr =
    ''Aborted: '' @ fmt_fixed 0 (f64_mul (failure_rate tr) 100) @ ''% of '' @ show_nat (ht_checked tr) @
    '' checked articles missing ('' @ show_nat (ht_failed tr) @ '' of '' @ show_nat (ht_checked tr) @
    '' failed); projected damage '' @ show_nat (projected_missing tr) @ '' bytes exceeds '' @
    show_nat (usable_recovery_bytes tr) @ '' usable recovery bytes plus reserve''"

text \<open>A set whose missing bytes and safety reserve exceed its usable recovery bytes.\<close>

definition set_usable :: "hopeless_tracker \<Rightarrow> byte_string \<Rightarrow> nat" where
  "set_usable tr s = count_at (ht_capacity_by_set tr) s - count_at (ht_unavailable_by_set tr) s"

definition set_reserve :: "rat \<Rightarrow> hopeless_tracker \<Rightarrow> byte_string \<Rightarrow> nat" where
  "set_reserve pct tr s =
    (let content = count_at (ht_content_by_set tr) s in required_bytes pct content - content)"

definition set_hopeless :: "rat \<Rightarrow> hopeless_tracker \<Rightarrow> byte_string \<Rightarrow> bool" where
  "set_hopeless pct tr s \<longleftrightarrow>
    (let missing = count_at (ht_missing_by_set tr) s in
     missing \<noteq> 0 \<and> set_usable tr s < u64_sat_add missing (set_reserve pct tr s))"

definition set_reason :: "rat \<Rightarrow> hopeless_tracker \<Rightarrow> byte_string \<Rightarrow> byte_string" where
  "set_reason pct tr s =
    ''Aborted: PAR2 set \"'' @ s @ ''\" cannot repair its damage: '' @ show_nat (count_at (ht_missing_by_set tr) s) @
    '' missing content bytes, '' @ show_nat (set_usable tr s) @ '' usable recovery bytes, '' @
    show_nat (set_reserve pct tr s) @ '' bytes safety reserve at '' @ fmt_fixed 3 pct @ ''%''"

definition availability_reason :: "rat \<Rightarrow> hopeless_tracker \<Rightarrow> nat \<Rightarrow> byte_string" where
  "availability_reason pct tr effective =
    ''Aborted: effective completion '' @
    fmt_fixed 3 (f64_div (f64_mul 100 (u64_as_f64 effective)) (u64_as_f64 (ht_content_bytes tr))) @
    ''% is below '' @ fmt_fixed 3 pct @ ''%: '' @ show_nat (ht_content_missing tr) @ '' missing content bytes in '' @
    show_nat (ht_failed tr) @ '' of '' @ show_nat (ht_articles_total tr) @ '' articles, '' @
    show_nat (usable_recovery_bytes tr) @ '' usable recovery bytes ('' @ show_nat (ht_blocks_unavailable tr) @
    '' of '' @ show_nat (ht_blocks_total tr) @ '' recovery blocks unavailable)''"

definition byte_tiers :: "bool \<Rightarrow> rat \<Rightarrow> hopeless_tracker \<Rightarrow> hopeless_abort option" where
  "byte_tiers early_failure_check pct tr =
    (let effective = u64_sat_add (ht_content_bytes tr - ht_content_missing tr) (usable_recovery_bytes tr);
         required = required_bytes pct (ht_content_bytes tr)
     in if early_failure_check \<and> early_failure pct tr
        then Some \<lparr>ha_tier = ''early_failure'', ha_reason = early_failure_reason tr\<rparr>
        else if ht_capacity_by_set tr \<noteq> [] then
          (if 0 < ht_unassociated_missing tr then None
           else map_option (\<lambda>s. \<lparr>ha_tier = ''set_availability'', ha_reason = set_reason pct tr s\<rparr>)
             (List.find (set_hopeless pct tr)
               (sort (remdups (map fst (ht_capacity_by_set tr) @ map fst (ht_missing_by_set tr))))))
        else if required \<le> effective then None
        else if 0 < ht_content_bytes tr
        then Some \<lparr>ha_tier = ''ongoing_availability'', ha_reason = availability_reason pct tr effective\<rparr>
        else None)"

definition hopeless_check :: "bool \<Rightarrow> bool \<Rightarrow> rat \<Rightarrow> hopeless_tracker \<Rightarrow> hopeless_abort option" where
  "hopeless_check abort_hopeless early_failure_check pct tr =
    (if \<not> abort_hopeless then None
     else
       (case (if ht_has_par2_set tr \<and> ht_pending_files tr = {} then parity_check tr else None) of
          Some a \<Rightarrow> Some a
        | None \<Rightarrow>
            if ht_has_par2_set tr \<and> ht_blocks_known tr then None
            else if ht_failed tr \<le> HOPELESS_GRACE_ARTICLES then None
            else if ht_pending_files tr \<noteq> {} then None
            else byte_tiers early_failure_check pct tr))"

definition time_based_check :: "millis \<Rightarrow> millis \<Rightarrow> hopeless_tracker \<Rightarrow> hopeless_abort option" where
  "time_based_check now timeout tr =
    (let idle = now - ht_last_progress_at tr in
     if timeout \<le> idle
     then Some \<lparr>ha_tier = ''no_progress_timeout'', ha_reason =
       ''Aborted: no article completed or failed for '' @ show_nat (idle div 1000) @ ''s ('' @
       show_nat (ht_checked tr) @ '' checked, '' @ show_nat (ht_failed tr) @ '' confirmed missing)''\<rparr>
     else None)"

end
