(* ===== verification/Queue_Hopeless_Proofs.thy ===== *)
theory Queue_Hopeless_Proofs
  imports Queue_Hopeless
begin

text \<open>
  What the hopeless tracker proves: its counters stay consistent, an abort by parity means that more
  slices are damaged than recovery slices are left, and which of its tiers can end which job.
\<close>

section \<open>Lists of counts\<close>

lemma map_of_entry_upd:
  "map_of (entry_upd k d f m) j = (if j = k then Some (f (case map_of m k of Some v \<Rightarrow> v | None \<Rightarrow> d)) else map_of m j)"
  by (simp add: entry_upd_def update_conv)

lemma count_at_add_at: "count_at (add_at k n m) j = (if j = k then u64_add (count_at m k) n else count_at m j)"
  by (simp add: count_at_def add_at_def map_of_entry_upd split: option.splits)

lemma distinct_entry_upd [simp]: "distinct (map fst m) \<Longrightarrow> distinct (map fst (entry_upd k d f m))"
  by (simp add: entry_upd_def distinct_update)

lemma distinct_add_at [simp]: "distinct (map fst m) \<Longrightarrow> distinct (map fst (add_at k n m))"
  by (simp add: add_at_def)

lemma u64_add_le: "u64_add a b \<le> a + b" by (simp add: u64_add_def)

lemma fold_u64_add_le: "fold u64_add xs a \<le> a + sum_list xs"
proof (induction xs arbitrary: a)
  case (Cons x xs)
  have "fold u64_add xs (u64_add x a) \<le> u64_add x a + sum_list xs" by (rule Cons.IH)
  also have "u64_add x a \<le> x + a" by (rule u64_add_le)
  finally show ?case by simp
qed simp

lemma find_SomeD: "List.find P xs = Some x \<Longrightarrow> x \<in> set xs \<and> P x"
  by (induction xs) (auto split: if_splits)

section \<open>Damage\<close>

text \<open>
  The decoded size of what is missing of a file is at least 100/103 of its declared size, and fits in
  \<open>k\<close> damaged slices no longer than the bound.
\<close>

lemma file_damaged_slices_le:
  assumes "1 \<le> k" "b * 100 div YENC_OVERHEAD_PCT \<le> k * sz" "sz \<le> bound"
  shows "file_damaged_slices b bound \<le> k"
proof (cases "bound = 0 \<or> bound = 2 ^ 64 - 1")
  case False
  have "u64_sat_mul b 100 div YENC_OVERHEAD_PCT \<le> b * 100 div YENC_OVERHEAD_PCT"
    by (intro div_le_mono) (simp add: u64_sat_mul_def)
  also note assms(2)
  also have "k * sz \<le> k * bound" using assms(3) by simp
  finally have "ceil_div (u64_sat_mul b 100 div YENC_OVERHEAD_PCT) bound \<le> k"
    using False by (simp add: ceil_div_le_iff)
  then show ?thesis using assms(1) False by (simp add: file_damaged_slices_def)
qed (use assms(1) in \<open>auto simp: file_damaged_slices_def\<close>)

lemma file_damaged_slices_range: "1 \<le> file_damaged_slices b bound \<and> file_damaged_slices b bound < 2 ^ 64"
proof -
  have "u64_sat_mul b 100 div YENC_OVERHEAD_PCT \<le> u64_sat_mul b 100" by (rule div_le_dividend)
  also have "\<dots> \<le> 2 ^ 64 - 1" by (simp add: u64_sat_mul_def)
  finally have m: "u64_sat_mul b 100 div YENC_OVERHEAD_PCT \<le> 2 ^ 64 - 1" .
  have "ceil_div (u64_sat_mul b 100 div YENC_OVERHEAD_PCT) bound \<le> 2 ^ 64 - 1" if "0 < bound"
  proof -
    have "(2 ^ 64 - 1) * 1 \<le> (2 ^ 64 - 1) * bound" using that by (intro mult_le_mono2) simp
    then show ?thesis using m by (simp only: ceil_div_le_iff [OF that])
  qed
  then show ?thesis by (auto simp: file_damaged_slices_def max_def)
qed

lemma damaged_slices_sum:
  assumes "\<forall>(f, b) \<in> set ms. file_damaged_slices b bound \<le> k f"
  shows "fold u64_add (map (\<lambda>(_, b). file_damaged_slices b bound) ms) 0 \<le> (\<Sum>(f, b) \<leftarrow> ms. k f)"
proof -
  have "fold u64_add (map (\<lambda>(_, b). file_damaged_slices b bound) ms) 0
      \<le> 0 + (\<Sum>(_, b) \<leftarrow> ms. file_damaged_slices b bound)"
    by (rule fold_u64_add_le)
  also have "\<dots> \<le> (\<Sum>(f, b) \<leftarrow> ms. k f)" using assms by (induction ms) auto
  finally show ?thesis by simp
qed

text \<open>The counts of \<open>damaged_by_set\<close>, as sums over the files of a set.\<close>

definition damage_step ::
  "hopeless_tracker \<Rightarrow> byte_string \<times> nat \<Rightarrow> byte_counts \<Rightarrow> byte_counts" where
  "damage_step tr = (\<lambda>(f, b) m.
      case set_of_file tr (Some f) of
        None \<Rightarrow> m
      | Some s \<Rightarrow>
          (case map_of (ht_bound_by_set tr) s of
             None \<Rightarrow> m
           | Some bound \<Rightarrow> add_at s (file_damaged_slices b bound) m))"

lemma damaged_by_set_step: "damaged_by_set tr = fold (damage_step tr) (ht_missing_files tr) []"
  by (simp add: damaged_by_set_def damage_step_def)

lemma damage_fold_le:
  assumes "\<forall>(f, b) \<in> set ms. \<forall>s bound. set_of_file tr (Some f) = Some s \<longrightarrow>
      map_of (ht_bound_by_set tr) s = Some bound \<longrightarrow> file_damaged_slices b bound \<le> k f"
  shows "count_at (fold (damage_step tr) ms m) s \<le>
    count_at m s + (\<Sum>(f, b) \<leftarrow> filter (\<lambda>(f, b). set_of_file tr (Some f) = Some s) ms. k f)"
  using assms
proof (induction ms arbitrary: m)
  case (Cons x ms)
  obtain f b where x: "x = (f, b)" by (cases x)
  have step: "count_at (damage_step tr x m) s \<le>
      count_at m s + (if set_of_file tr (Some f) = Some s then k f else 0)"
  proof (cases "set_of_file tr (Some f)")
    case None
    then show ?thesis by (simp add: damage_step_def x)
  next
    case so: (Some s')
    show ?thesis
    proof (cases "map_of (ht_bound_by_set tr) s'")
      case None
      then show ?thesis by (simp add: damage_step_def x so)
    next
      case sb: (Some bound)
      have "file_damaged_slices b bound \<le> k f" using Cons.prems so sb by (auto simp: x)
      moreover have "u64_add (count_at m s') (file_damaged_slices b bound)
          \<le> count_at m s' + file_damaged_slices b bound" by (rule u64_add_le)
      ultimately show ?thesis
        by (auto simp: damage_step_def x so sb count_at_add_at)
    qed
  qed
  have "count_at (fold (damage_step tr) ms (damage_step tr x m)) s \<le>
      count_at (damage_step tr x m) s +
      (\<Sum>(f, b) \<leftarrow> filter (\<lambda>(f, b). set_of_file tr (Some f) = Some s) ms. k f)"
    using Cons.prems by (intro Cons.IH) auto
  then show ?case using step by (auto simp: x)
qed simp

lemma distinct_damage_fold:
  "distinct (map fst m) \<Longrightarrow> distinct (map fst (fold (damage_step tr) ms m))"
  by (induction ms arbitrary: m) (auto simp: damage_step_def split: option.splits)

lemma damaged_by_set_entry:
  assumes "(s, d) \<in> set (damaged_by_set tr)"
  shows "count_at (damaged_by_set tr) s = d"
proof -
  have "distinct (map fst (damaged_by_set tr))"
    by (simp add: damaged_by_set_step distinct_damage_fold)
  then show ?thesis using assms by (simp add: count_at_def)
qed

text \<open>C26. A job that the parity tier aborts has more damage than the recovery slices it counts on: whatever the
  damaged slices of its files are (at least one for a file with a confirmed hole, and enough of them to hold the missing bytes, whose
  encoding adds at most three percent), they are more than the recovery slices its volumes declare and have not
  lost, in the whole job or in one recovery set.  Every missing article belongs to a known file, and the slices of a
  file are no longer than the bounds the tracker has.  Volumes whose names declare no block count add nothing to what
  is counted, although they may hold recovery slices.\<close>

theorem parity_abort_is_proven:
  assumes "parity_check tr = Some a"
    and "\<forall>(f, b) \<in> set (ht_missing_files tr). 1 \<le> k f \<and> b * 100 div YENC_OVERHEAD_PCT \<le> k f * sz f \<and>
      sz f \<le> ht_slice_bound tr \<and>
      (\<forall>s bound. set_of_file tr (Some f) = Some s \<longrightarrow> map_of (ht_bound_by_set tr) s = Some bound \<longrightarrow> sz f \<le> bound)"
    and "ht_missing_unattributed tr = 0"
  shows "recovery_blocks_available tr < (\<Sum>(f, b) \<leftarrow> ht_missing_files tr. k f) \<or>
    (\<exists>s. set_recovery_blocks_available tr s <
      (\<Sum>(f, b) \<leftarrow> filter (\<lambda>(f, b). set_of_file tr (Some f) = Some s) (ht_missing_files tr). k f))"
proof (cases "recovery_blocks_available tr < damaged_slices_lower_bound tr")
  case True
  have "damaged_slices_lower_bound tr \<le> (\<Sum>(f, b) \<leftarrow> ht_missing_files tr. k f)"
    using damaged_slices_sum [of "ht_missing_files tr" "ht_slice_bound tr" k] assms(2,3)
    by (fastforce simp: damaged_slices_lower_bound_def Let_def intro: file_damaged_slices_le)
  then show ?thesis using True by linarith
next
  case False
  let ?P = "\<lambda>(s, d). set_recovery_blocks_available tr s < d"
  have "\<exists>x. List.find ?P (sort_key fst (damaged_by_set tr)) = Some x"
    using assms(1) False by (auto simp: parity_check_def Let_def split: if_splits)
  then obtain s d where "List.find ?P (sort_key fst (damaged_by_set tr)) = Some (s, d)" by auto
  then have sd: "(s, d) \<in> set (damaged_by_set tr)" "set_recovery_blocks_available tr s < d"
    by (auto dest!: find_SomeD)
  have "d \<le> 0 + (\<Sum>(f, b) \<leftarrow> filter (\<lambda>(f, b). set_of_file tr (Some f) = Some s) (ht_missing_files tr). k f)"
    using damage_fold_le [of "ht_missing_files tr" tr k "[]" s] damaged_by_set_entry [OF sd(1)] assms(2)
    by (fastforce simp: damaged_by_set_step count_at_def intro: file_damaged_slices_le)
  then show ?thesis using sd(2) by (intro disjI2 exI [of _ s]) simp
qed

section \<open>The life of a tracker\<close>

text \<open>A tracker made for a job and fed by the progress listener; a revealed PAR2 name is parsed from the yEnc name.\<close>

inductive tracker_run :: "nzb_job \<Rightarrow> hopeless_tracker \<Rightarrow> bool" for job where
  start: "tracker_run job (hopeless_new now job)"
| success: "tracker_run job tr \<Longrightarrow> tracker_run job (hopeless_record_success now is_par2 tr)"
| failure: "tracker_run job tr \<Longrightarrow> tracker_run job (record_file_failure now file_id is_par2 est kind tr)"
| reveal: "tracker_run job tr \<Longrightarrow> parse_par2_filename name = (set_name, volume, blocks) \<Longrightarrow>
    tracker_run job (reclassify_as_par2 file_id n m volume blocks set_name tr)"
| classified: "tracker_run job tr \<Longrightarrow> tracker_run job (mark_file_classified file_id tr)"
| reset: "tracker_run job tr \<Longrightarrow> tracker_run job (reset_progress_clock now tr)"

text \<open>The PAR2 fields of the files of a parsed job.\<close>

definition par2_named :: "nzb_job \<Rightarrow> bool" where
  "par2_named job \<longleftrightarrow>
    (\<forall>f \<in> set (nj_files job). (jf_par2_setname f, jf_par2_vol f, jf_par2_blocks f) =
      (if jf_is_par2 f then parse_par2_filename (jf_filename f) else (None, None, None)))"

lemma parse_par2_both:
  "parse_par2_filename n = (s, v, b) \<Longrightarrow> v = None \<longleftrightarrow> b = None"
  by (auto simp: parse_par2_filename_def Let_def split: if_splits option.splits)

lemma par2_named_both: "par2_named job \<Longrightarrow> f \<in> set (nj_files job) \<Longrightarrow> jf_par2_vol f = None \<longleftrightarrow> jf_par2_blocks f = None"
proof -
  assume "par2_named job" "f \<in> set (nj_files job)"
  then have e: "(jf_par2_setname f, jf_par2_vol f, jf_par2_blocks f) =
      (if jf_is_par2 f then parse_par2_filename (jf_filename f) else (None, None, None))"
    unfolding par2_named_def by (rule bspec)
  show ?thesis
  proof (cases "jf_is_par2 f")
    case True
    then have "parse_par2_filename (jf_filename f) = (jf_par2_setname f, jf_par2_vol f, jf_par2_blocks f)" using e by simp
    then show ?thesis by (rule parse_par2_both)
  qed (use e in simp)
qed

text \<open>Counters, and the part of the invariant that rests on the names.\<close>

definition tracker_counters_ok :: "hopeless_tracker \<Rightarrow> bool" where
  "tracker_counters_ok tr \<longleftrightarrow>
    ht_failed tr \<le> ht_checked tr \<and> ht_bytes_unavailable tr \<le> ht_capacity_bytes tr \<and>
    ht_blocks_unavailable tr \<le> ht_blocks_total tr \<and> distinct (map fst (ht_missing_files tr)) \<and>
    (ht_capacity_by_set tr \<noteq> [] \<longrightarrow> ht_has_par2_set tr)"

lemma u64_sat_add_ge: "a \<le> 2 ^ 64 - 1 \<Longrightarrow> a \<le> u64_sat_add a b" by (simp add: u64_sat_add_def)

definition bounded :: "hopeless_tracker \<Rightarrow> bool" where
  "bounded tr \<longleftrightarrow> ht_capacity_bytes tr \<le> 2 ^ 64 - 1 \<and> ht_blocks_total tr \<le> 2 ^ 64 - 1"

lemma u64_sat_add_max [simp]: "u64_sat_add a b \<le> 18446744073709551615"
  by (simp add: u64_sat_add_def)

lemma add_file_run:
  assumes "tracker_add_file names f (tr, u) = (tr', u')"
  shows "ht_failed tr' = ht_failed tr \<and> ht_checked tr' = ht_checked tr \<and>
    ht_bytes_unavailable tr' = ht_bytes_unavailable tr \<and> ht_blocks_unavailable tr' = ht_blocks_unavailable tr \<and>
    ht_missing_files tr' = ht_missing_files tr \<and> (ht_has_par2_set tr' \<longleftrightarrow> ht_has_par2_set tr \<or> jf_is_par2 f) \<and>
    (ht_capacity_by_set tr' = ht_capacity_by_set tr \<or> jf_is_par2 f) \<and> (bounded tr \<longrightarrow> bounded tr') \<and>
    (ht_blocks_known tr' \<longleftrightarrow> ht_blocks_known tr \<and> (jf_is_par2 f \<and> jf_par2_vol f \<noteq> None \<longrightarrow> jf_par2_blocks f \<noteq> None)) \<and>
    (jf_is_par2 f \<or> has_known_extension (jf_filename f) \<longrightarrow> ht_pending_files tr' = ht_pending_files tr) \<and>
    (jf_is_par2 f \<longrightarrow> declares_blocks (jf_par2_vol f) (jf_par2_blocks f) = None \<longrightarrow> ht_blocks_total tr' = ht_blocks_total tr) \<and>
    (\<not> jf_is_par2 f \<longrightarrow> ht_blocks_total tr' = ht_blocks_total tr) \<and>
    ht_missing_unattributed tr' = ht_missing_unattributed tr"
  using assms
  by (auto simp: tracker_add_file_def tracker_add_volume_def Let_def bounded_def split: if_splits option.splits)

lemma add_files_frame:
  "fold (tracker_add_file names) fs (tr, u) = (tr', u') \<Longrightarrow>
    ht_failed tr' = ht_failed tr \<and> ht_checked tr' = ht_checked tr \<and>
    ht_bytes_unavailable tr' = ht_bytes_unavailable tr \<and> ht_blocks_unavailable tr' = ht_blocks_unavailable tr \<and>
    ht_missing_files tr' = ht_missing_files tr \<and> ht_missing_unattributed tr' = ht_missing_unattributed tr \<and>
    (bounded tr \<longrightarrow> bounded tr')"
proof (induction fs arbitrary: tr u)
  case (Cons f fs)
  obtain t1 u1 where 1: "tracker_add_file names f (tr, u) = (t1, u1)" by (cases "tracker_add_file names f (tr, u)")
  show ?case using Cons.IH [of t1 u1] Cons.prems 1 add_file_run [OF 1] by simp
qed simp

lemma add_files_par2:
  "fold (tracker_add_file names) fs (tr, u) = (tr', u') \<Longrightarrow>
    (ht_has_par2_set tr' \<longleftrightarrow> ht_has_par2_set tr \<or> (\<exists>f \<in> set fs. jf_is_par2 f)) \<and>
    (ht_capacity_by_set tr' = ht_capacity_by_set tr \<or> (\<exists>f \<in> set fs. jf_is_par2 f)) \<and>
    (ht_blocks_known tr' \<longleftrightarrow> ht_blocks_known tr \<and>
      (\<forall>f \<in> set fs. jf_is_par2 f \<and> jf_par2_vol f \<noteq> None \<longrightarrow> jf_par2_blocks f \<noteq> None))"
proof (induction fs arbitrary: tr u)
  case (Cons f fs)
  obtain t1 u1 where 1: "tracker_add_file names f (tr, u) = (t1, u1)" by (cases "tracker_add_file names f (tr, u)")
  have a: "ht_has_par2_set t1 \<longleftrightarrow> ht_has_par2_set tr \<or> jf_is_par2 f"
    "ht_capacity_by_set t1 = ht_capacity_by_set tr \<or> jf_is_par2 f"
    "ht_blocks_known t1 \<longleftrightarrow> ht_blocks_known tr \<and> (jf_is_par2 f \<and> jf_par2_vol f \<noteq> None \<longrightarrow> jf_par2_blocks f \<noteq> None)"
    using add_file_run [OF 1] by simp_all
  have "fold (tracker_add_file names) fs (t1, u1) = (tr', u')" using Cons.prems 1 by simp
  note ih = Cons.IH [OF this]
  have "ht_has_par2_set tr' \<longleftrightarrow> ht_has_par2_set tr \<or> (\<exists>f \<in> set (f # fs). jf_is_par2 f)" using ih a(1) by auto
  moreover have "ht_capacity_by_set tr' = ht_capacity_by_set tr \<or> (\<exists>f \<in> set (f # fs). jf_is_par2 f)"
    using ih a(2) by (metis list.set_intros)
  moreover have "ht_blocks_known tr' \<longleftrightarrow> ht_blocks_known tr \<and>
      (\<forall>f \<in> set (f # fs). jf_is_par2 f \<and> jf_par2_vol f \<noteq> None \<longrightarrow> jf_par2_blocks f \<noteq> None)"
    using ih a(3) by auto
  ultimately show ?case by blast
qed simp

lemma add_files_pending:
  "fold (tracker_add_file names) fs (tr, u) = (tr', u') \<Longrightarrow>
    \<forall>f \<in> set fs. jf_is_par2 f \<or> has_known_extension (jf_filename f) \<Longrightarrow> ht_pending_files tr' = ht_pending_files tr"
proof (induction fs arbitrary: tr u)
  case (Cons f fs)
  obtain t1 u1 where 1: "tracker_add_file names f (tr, u) = (t1, u1)" by (cases "tracker_add_file names f (tr, u)")
  show ?case using Cons.IH [of t1 u1] Cons.prems 1 add_file_run [OF 1] by simp
qed simp

lemma add_files_blocks:
  "fold (tracker_add_file names) fs (tr, u) = (tr', u') \<Longrightarrow>
    \<forall>f \<in> set fs. jf_is_par2 f \<longrightarrow> declares_blocks (jf_par2_vol f) (jf_par2_blocks f) = None \<Longrightarrow>
    ht_blocks_total tr' = ht_blocks_total tr"
proof (induction fs arbitrary: tr u)
  case (Cons f fs)
  obtain t1 u1 where 1: "tracker_add_file names f (tr, u) = (t1, u1)" by (cases "tracker_add_file names f (tr, u)")
  have "ht_blocks_total t1 = ht_blocks_total tr" using Cons.prems(2) add_file_run [OF 1] by (cases "jf_is_par2 f") simp_all
  then show ?case using Cons.IH [of t1 u1] Cons.prems 1 by simp
qed simp

lemma hopeless_new_run:
  "tracker_counters_ok (hopeless_new now job) \<and> bounded (hopeless_new now job) \<and>
   (ht_has_par2_set (hopeless_new now job) \<longleftrightarrow> (\<exists>f \<in> set (nj_files job). jf_is_par2 f)) \<and>
   (par2_named job \<longrightarrow> ht_blocks_known (hopeless_new now job)) \<and>
   ((\<forall>f \<in> set (nj_files job). jf_is_par2 f \<or> has_known_extension (jf_filename f)) \<longrightarrow>
      ht_pending_files (hopeless_new now job) = {}) \<and>
   ((\<forall>f \<in> set (nj_files job). jf_is_par2 f \<longrightarrow> declares_blocks (jf_par2_vol f) (jf_par2_blocks f) = None) \<longrightarrow>
      ht_blocks_total (hopeless_new now job) = 0) \<and>
   ht_missing_files (hopeless_new now job) = [] \<and> ht_missing_unattributed (hopeless_new now job) = 0"
proof -
  obtain tr u where f: "fold (tracker_add_file (recovery_set_names job)) (nj_files job) (tracker_start now, 0) = (tr, u)"
    by fastforce
  have r: "ht_failed tr = 0" "ht_checked tr = 0" "ht_bytes_unavailable tr = 0" "ht_blocks_unavailable tr = 0"
    "ht_missing_files tr = []" "ht_missing_unattributed tr = 0" "bounded tr"
    using add_files_frame [OF f] by (simp_all add: tracker_start_def bounded_def)
  have p: "ht_has_par2_set tr \<longleftrightarrow> (\<exists>f \<in> set (nj_files job). jf_is_par2 f)"
    "ht_capacity_by_set tr \<noteq> [] \<longrightarrow> ht_has_par2_set tr"
    "ht_blocks_known tr \<longleftrightarrow> (\<forall>f \<in> set (nj_files job). jf_is_par2 f \<and> jf_par2_vol f \<noteq> None \<longrightarrow> jf_par2_blocks f \<noteq> None)"
    using add_files_par2 [OF f] by (auto simp: tracker_start_def)
  have n: "hopeless_new now job = tr\<lparr>ht_slice_bound := fold max (map snd (ht_bound_by_set tr)) u\<rparr>"
    by (simp add: hopeless_new_def f)
  have k: "ht_blocks_known tr" if "par2_named job" unfolding p(3) by (simp add: par2_named_both [OF that])
  have e: "\<forall>f \<in> set (nj_files job). jf_is_par2 f \<or> has_known_extension (jf_filename f) \<Longrightarrow> ht_pending_files tr = {}"
    "\<forall>f \<in> set (nj_files job). jf_is_par2 f \<longrightarrow> declares_blocks (jf_par2_vol f) (jf_par2_blocks f) = None \<Longrightarrow>
      ht_blocks_total tr = 0"
    using add_files_pending [OF f] add_files_blocks [OF f] by (simp_all add: tracker_start_def)
  have "tracker_counters_ok (hopeless_new now job)" "bounded (hopeless_new now job)"
    using r p(2) by (simp_all add: n tracker_counters_ok_def bounded_def)
  then show ?thesis using r p(1) k e by (simp add: n)
qed

lemma tracker_run_inv:
  assumes "tracker_run job tr"
  shows "tracker_counters_ok tr \<and> bounded tr \<and> (par2_named job \<longrightarrow> ht_blocks_known tr)"
  using assms
proof (induction rule: tracker_run.induct)
  case (failure tr now file_id is_par2 est kind)
  then show ?case
    by (auto simp: record_file_failure_def record_volume_failure_def confirm_missing_def count_missing_def Let_def
        tracker_counters_ok_def bounded_def split: option.splits)
next
  case (reveal tr name set_name volume blocks file_id n m)
  have d: "distinct (map fst (AList.delete file_id (ht_missing_files tr)))"
    using reveal.IH by (simp add: tracker_counters_ok_def distinct_delete)
  have m: "ht_capacity_bytes tr \<le> u64_sat_add (ht_capacity_bytes tr) b" "ht_blocks_total tr \<le> u64_sat_add (ht_blocks_total tr) b" for b
    using reveal.IH by (simp_all add: bounded_def u64_sat_add_def)
  show ?case
    using reveal.IH d parse_par2_both [OF reveal.hyps(2)] m
    by (auto simp: reclassify_as_par2_def Let_def tracker_counters_ok_def bounded_def declares_blocks_def
        split: option.splits if_splits intro: order_trans)
qed (use hopeless_new_run in \<open>auto simp: hopeless_record_success_def mark_file_classified_def reset_progress_clock_def
      tracker_counters_ok_def bounded_def\<close>)

text \<open>The counters of a tracker stay consistent whatever the listener reports: no more content articles failed
  than were checked, no more recovery bytes or blocks are lost than the volumes declare, a file has one
  entry of missing bytes, and a set with recovery capacity makes the job a PAR2 job.\<close>

theorem hopeless_counters_consistent:
  assumes "tracker_run job tr"
  shows "ht_failed tr \<le> ht_checked tr \<and> ht_bytes_unavailable tr \<le> ht_capacity_bytes tr \<and>
    ht_blocks_unavailable tr \<le> ht_blocks_total tr \<and> distinct (map fst (ht_missing_files tr)) \<and>
    (ht_capacity_by_set tr \<noteq> [] \<longrightarrow> ht_has_par2_set tr)"
  using tracker_run_inv [OF assms] by (simp add: tracker_counters_ok_def)

section \<open>The tiers\<close>

lemma parity_tier: "parity_check tr = Some a \<Longrightarrow> ha_tier a = ''parity''"
  by (auto simp: parity_check_def Let_def split: if_splits)

lemma byte_tier:
  "byte_tiers e pct tr = Some a \<Longrightarrow>
    ha_tier a \<in> {''early_failure'', ''ongoing_availability''} \<or> ht_capacity_by_set tr \<noteq> []"
  by (auto simp: byte_tiers_def Let_def split: if_splits)

text \<open>For a job whose PAR2 fields come from its file names, a job with a PAR2 file is only ever given up by the
  parity tier, and a job without one only by the two byte tiers, after more than five articles are
  confirmed missing; nothing is given up while a file may still turn out to be PAR2.  The per-set byte tier
  never fires.\<close>

theorem hopeless_tiers_exact:
  assumes "par2_named job" "tracker_run job tr" "hopeless_check ab e pct tr = Some a"
  shows "ab \<and> ht_pending_files tr = {} \<and>
    (if ht_has_par2_set tr then ha_tier a = ''parity''
     else HOPELESS_GRACE_ARTICLES < ht_failed tr \<and> ha_tier a \<in> {''early_failure'', ''ongoing_availability''})"
proof -
  have i: "ht_blocks_known tr" "ht_capacity_by_set tr \<noteq> [] \<longrightarrow> ht_has_par2_set tr"
    using tracker_run_inv [OF assms(2)] assms(1) by (auto simp: tracker_counters_ok_def)
  then show ?thesis
    using assms(3) parity_tier [of tr a] byte_tier [of e pct tr a]
    by (auto simp: hopeless_check_def split: if_splits option.splits)
qed

text \<open>A recovery volume whose name does not give its block count is taken for an index: the block counts stay
  \<open>known\<close>, with none declared, so a PAR2 job whose volumes are all named that way is given up at its first
  article that no server has, whatever the volumes hold.\<close>

theorem uncounted_volumes_abort_at_once:
  assumes "par2_named job" "\<exists>f \<in> set (nj_files job). jf_is_par2 f"
    and "\<forall>f \<in> set (nj_files job). jf_is_par2 f \<longrightarrow> jf_par2_blocks f = None"
    and "\<forall>f \<in> set (nj_files job). jf_is_par2 f \<or> has_known_extension (jf_filename f)"
  shows "\<exists>a. hopeless_check True e pct
      (record_file_failure t' (Some i) False est FK_NotFound (hopeless_new t job)) = Some a \<and> ha_tier a = ''parity''"
proof -
  let ?n = "hopeless_new t job"
  let ?r = "record_file_failure t' (Some i) False est FK_NotFound ?n"
  have d: "\<forall>f \<in> set (nj_files job). jf_is_par2 f \<longrightarrow> declares_blocks (jf_par2_vol f) (jf_par2_blocks f) = None"
    using assms(3) by (auto simp: declares_blocks_def split: option.splits)
  have n: "ht_has_par2_set ?n" "ht_blocks_known ?n" "ht_pending_files ?n = {}" "ht_blocks_total ?n = 0"
    "ht_missing_files ?n = []"
    using hopeless_new_run [of t job] assms(1,2,4) d by auto
  have r: "ht_has_par2_set ?r" "ht_blocks_known ?r" "ht_pending_files ?r = {}" "ht_blocks_total ?r = 0"
    "ht_missing_files ?r = [(i, u64_add 0 est)]"
    using n by (auto simp: record_file_failure_def confirm_missing_def count_missing_def Let_def counts_toward_hopeless_def
        add_at_def entry_upd_def split: option.splits)
  define d where "d = file_damaged_slices (u64_add 0 est) (ht_slice_bound ?r)"
  have "1 \<le> d \<and> d < 2 ^ 64" unfolding d_def by (rule file_damaged_slices_range)
  then have "recovery_blocks_available ?r < damaged_slices_lower_bound ?r"
  proof -
    assume d1: "1 \<le> d \<and> d < 2 ^ 64"
    have "fold u64_add (map (\<lambda>(_, b). file_damaged_slices b (ht_slice_bound ?r)) (ht_missing_files ?r)) 0 = u64_add d 0"
      unfolding r(5) d_def by simp
    also have "\<dots> = d" using d1 by (simp add: u64_add_def)
    finally show ?thesis using d1 r(4) by (simp add: recovery_blocks_available_def damaged_slices_lower_bound_def Let_def)
  qed
  then have "\<exists>a. parity_check ?r = Some a" using r(2) by (simp add: parity_check_def Let_def)
  then show ?thesis using r(1,3) parity_tier by (auto simp: hopeless_check_def)
qed

section \<open>A concrete job\<close>

text \<open>One content file of two articles and one recovery volume whose name lacks the block count.\<close>

definition hop_job :: nzb_job where
  "hop_job = plain_job ''j'' ''w'' 1200
    [plain_file ''f'' ''a.mkv'' 200 [plain_article ''m1'' 1 100, plain_article ''m2'' 2 100],
     (plain_file ''p'' ''a.vol07.par2'' 1000 [])\<lparr>jf_is_par2 := True, jf_par2_setname := Some ''a.vol07''\<rparr>]"

definition hop_tracker :: hopeless_tracker where
  "hop_tracker = record_file_failure 1 (Some ''f'') False 100 FK_NotFound (hopeless_new 0 hop_job)"

lemma hop_names:
  "lowercase ''a.vol07'' = ''a.vol07''" "has_known_extension ''a.mkv''" "lowercase ''a.mkv'' = ''a.mkv''"
  "par2_named hop_job"
  by code_simp+

lemma hop_job_files:
  "nj_files hop_job = [plain_file ''f'' ''a.mkv'' 200 [plain_article ''m1'' 1 100, plain_article ''m2'' 2 100],
     (plain_file ''p'' ''a.vol07.par2'' 1000 [])\<lparr>jf_is_par2 := True, jf_par2_setname := Some ''a.vol07''\<rparr>]"
  by (simp add: hop_job_def plain_job_def)

lemma hop_new:
  "hopeless_new 0 hop_job = (tracker_start 0)\<lparr>ht_content_bytes := 200, ht_articles_total := 2,
     ht_content_by_set := [(''a.vol07'', 200)], ht_has_par2_set := True,
     ht_file_sets := [(''f'', Some ''a.vol07''), (''p'', Some ''a.vol07'')]\<rparr>"
  by (simp add: hopeless_new_def hop_job_files recovery_set_names_def map_filter_def plain_file_def tracker_add_file_def
      associated_set_def hop_names declares_blocks_def tracker_start_def add_at_def entry_upd_def u64_add_def
      plain_article_def)

lemma hop_tracker_eq:
  "hop_tracker = (tracker_start 0)\<lparr>ht_last_progress_at := 1, ht_content_bytes := 200, ht_articles_total := 2,
     ht_content_by_set := [(''a.vol07'', 200)], ht_has_par2_set := True,
     ht_file_sets := [(''f'', Some ''a.vol07''), (''p'', Some ''a.vol07'')], ht_checked := 1, ht_failed := 1,
     ht_missing_files := [(''f'', 100)], ht_content_missing := 100, ht_missing_by_set := [(''a.vol07'', 100)]\<rparr>"
  by (simp add: hop_tracker_def hop_new record_file_failure_def confirm_missing_def count_missing_def set_of_file_def
      counts_toward_hopeless_def tracker_start_def add_at_def entry_upd_def u64_add_def)

lemma hop_run: "tracker_run hop_job hop_tracker"
  unfolding hop_tracker_def by (intro tracker_run.failure tracker_run.start)

lemma hop_parity: "\<exists>a. parity_check hop_tracker = Some a"
  by (simp add: parity_check_def hop_tracker_eq tracker_start_def recovery_blocks_available_def
      damaged_slices_lower_bound_def file_damaged_slices_def u64_add_def)

theorem parity_abort_is_proven_witness:
  "recovery_blocks_available hop_tracker < 1 \<or>
   (\<exists>s. set_recovery_blocks_available hop_tracker s <
      (\<Sum>(f, b) \<leftarrow> filter (\<lambda>(f, b). set_of_file (hop_tracker\<lparr>ht_slice_bound := 100\<rparr>) (Some f) = Some s) [(''f'', 100)]. 1))"
proof -
  let ?t = "hop_tracker\<lparr>ht_slice_bound := 100\<rparr>"
  have "\<exists>a. parity_check ?t = Some a"
    by (simp add: parity_check_def hop_tracker_eq tracker_start_def recovery_blocks_available_def
        damaged_slices_lower_bound_def file_damaged_slices_def u64_add_def u64_sat_mul_def ceil_div_def YENC_OVERHEAD_PCT_def)
  then obtain a where a: "parity_check ?t = Some a" by blast
  have h: "\<forall>(f, b) \<in> set (ht_missing_files ?t). 1 \<le> (1::nat) \<and> b * 100 div YENC_OVERHEAD_PCT \<le> 1 * 100 \<and>
      100 \<le> ht_slice_bound ?t \<and>
      (\<forall>s bound. set_of_file ?t (Some f) = Some s \<longrightarrow> map_of (ht_bound_by_set ?t) s = Some bound \<longrightarrow> 100 \<le> bound)"
    by (simp add: hop_tracker_eq tracker_start_def YENC_OVERHEAD_PCT_def)
  have u: "ht_missing_unattributed ?t = 0" by (simp add: hop_tracker_eq tracker_start_def)
  show ?thesis
    using parity_abort_is_proven [OF a, of "\<lambda>_. 1" "\<lambda>_. 100", OF h u]
    by (simp add: hop_tracker_eq tracker_start_def recovery_blocks_available_def set_recovery_blocks_available_def)
qed

theorem hopeless_counters_consistent_witness:
  "ht_failed hop_tracker \<le> ht_checked hop_tracker \<and> ht_failed hop_tracker = 1"
  using hopeless_counters_consistent [OF hop_run] by (simp add: hop_tracker_eq)

theorem hopeless_tiers_exact_witness:
  "\<exists>a. hopeless_check True True 100 hop_tracker = Some a \<and> ha_tier a = ''parity''"
proof -
  obtain a where "parity_check hop_tracker = Some a" using hop_parity by blast
  then have c: "hopeless_check True True 100 hop_tracker = Some a"
    by (simp add: hopeless_check_def hop_tracker_eq tracker_start_def)
  then show ?thesis
    using hopeless_tiers_exact [OF hop_names(4) hop_run c] by (simp add: hop_tracker_eq)
qed

theorem uncounted_volumes_abort_at_once_witness:
  "\<exists>a. hopeless_check True True 100 hop_tracker = Some a \<and> ha_tier a = ''parity''"
  unfolding hop_tracker_def
  by (rule uncounted_volumes_abort_at_once [OF hop_names(4)])
    (simp_all add: hop_job_files plain_file_def hop_names)

end
