(* ===== verification/Queue_Checkpoint.thy ===== *)
theory Queue_Checkpoint
  imports Engine_Job Queue_Hopeless
begin

text \<open>
  The checkpoint from which a download is resumed after a restart or retried from the history
  (\<open>JobCheckpoint\<close> of \<open>crates/nzb-web/src/queue_manager.rs\<close>): writing it, applying it to the job
  parsed again from its NZB, and the two callers, the restore at start-up and
  \<open>prepare_retry_job\<close>.  The JSON text between them is a third-party serialiser and is left out.

  A \<open>HashMap\<close> filled by \<open>collect()\<close> is an association list in which a later entry replaces an
  earlier one with the same key.
\<close>

section \<open>The checkpoint\<close>

record article_checkpoint =
  ac_message_id :: byte_string
  ac_segment_number :: u32
  ac_bytes :: nat
  ac_downloaded :: bool
  ac_data_begin :: "nat option"
  ac_data_size :: "nat option"
  ac_crc32 :: "u32 option"
  ac_tried_servers :: "server_id list"
  ac_tries :: u32

record job_checkpoint =
  cp_files :: "(byte_string \<times> u32 list) list"
  cp_downloaded_bytes :: nat
  cp_articles_downloaded :: nat
  cp_articles_failed :: nat
  cp_files_completed :: nat
  cp_articles :: "(byte_string \<times> article_checkpoint list) list"
  cp_work_dir :: "path option"
  cp_output_dir :: "path option"
  cp_download_time_secs :: rat
  cp_carried_bytes :: nat
  cp_server_stats :: "server_article_stats list"

definition collect_entries :: "('k \<times> 'v) list \<Rightarrow> ('k \<times> 'v) list" where
  "collect_entries kvs = fold (\<lambda>(k, v). AList.update k v) kvs []"

definition article_checkpoint_of :: "nzb_article \<Rightarrow> article_checkpoint" where
  "article_checkpoint_of a =
    \<lparr>ac_message_id = na_message_id a, ac_segment_number = na_segment_number a, ac_bytes = na_bytes a,
     ac_downloaded = na_downloaded a, ac_data_begin = na_data_begin a, ac_data_size = na_data_size a,
     ac_crc32 = na_crc32 a, ac_tried_servers = na_tried_servers a, ac_tries = na_tries a\<rparr>"

definition checkpoint_for_job :: "nzb_job \<Rightarrow> bool \<Rightarrow> job_checkpoint" where
  "checkpoint_for_job job output_dir_claimed =
    \<lparr>cp_files = collect_entries (map (\<lambda>f.
        (jf_filename f, map na_segment_number (filter na_downloaded (jf_articles f)))) (nj_files job)),
     cp_downloaded_bytes = nj_downloaded_bytes job,
     cp_articles_downloaded = nj_articles_downloaded job,
     cp_articles_failed = nj_articles_failed job,
     cp_files_completed = nj_files_completed job,
     cp_articles = collect_entries (map (\<lambda>f.
        (jf_filename f, map article_checkpoint_of (jf_articles f))) (nj_files job)),
     cp_work_dir = Some (nj_work_dir job),
     cp_output_dir = (if output_dir_claimed then Some (nj_output_dir job) else None),
     cp_download_time_secs = 0,
     cp_carried_bytes = 0,
     cp_server_stats = nj_server_stats job\<rparr>"

section \<open>Applying it\<close>

definition restore_checkpoint_accounting :: "job_checkpoint \<Rightarrow> nzb_job \<Rightarrow> nzb_job \<times> rat \<times> nat" where
  "restore_checkpoint_accounting cp job =
    (job\<lparr>nj_server_stats := cp_server_stats cp\<rparr>, cp_download_time_secs cp, cp_carried_bytes cp)"

definition outcome_for :: "article_checkpoint list option \<Rightarrow> nzb_article \<Rightarrow> article_checkpoint option" where
  "outcome_for outcomes a =
    Option.bind outcomes (List.find (\<lambda>oc.
      ac_message_id oc = na_message_id a \<or> ac_segment_number oc = na_segment_number a))"

definition apply_article ::
  "article_checkpoint list option \<Rightarrow> u32 list option \<Rightarrow> nzb_article \<Rightarrow> nzb_article" where
  "apply_article outcomes segments a =
    (case outcome_for outcomes a of
       Some oc \<Rightarrow>
         a\<lparr>na_downloaded := ac_downloaded oc, na_data_begin := ac_data_begin oc, na_data_size := ac_data_size oc,
           na_crc32 := ac_crc32 oc, na_tried_servers := ac_tried_servers oc, na_tries := ac_tries oc\<rparr>
     | None \<Rightarrow>
         (case segments of
            Some segs \<Rightarrow> if na_segment_number a \<in> set segs then a\<lparr>na_downloaded := True\<rparr> else a
          | None \<Rightarrow> a))"

definition article_size :: "nzb_article \<Rightarrow> nat" where
  "article_size a = (case na_data_size a of Some n \<Rightarrow> n | None \<Rightarrow> na_bytes a)"

definition apply_file :: "job_checkpoint \<Rightarrow> job_file \<Rightarrow> job_file" where
  "apply_file cp f =
    (let outcomes = map_of (cp_articles cp) (jf_filename f);
         segments = (case map_of (cp_files cp) (jf_filename f) of
                       Some segs \<Rightarrow> Some segs
                     | None \<Rightarrow> map_of (cp_files cp) (jf_id f));
         articles = map (apply_article outcomes segments) (jf_articles f)
     in f\<lparr>jf_articles := articles,
          jf_bytes_downloaded := fold (\<lambda>a n. u64_sat_add n (article_size a)) (filter na_downloaded articles) 0,
          jf_assembled := list_all na_downloaded articles\<rparr>)"

definition apply_checkpoint :: "job_checkpoint \<Rightarrow> nzb_job \<Rightarrow> nzb_job" where
  "apply_checkpoint cp job =
    job\<lparr>nj_downloaded_bytes := cp_downloaded_bytes cp,
        nj_articles_downloaded := cp_articles_downloaded cp,
        nj_articles_failed := cp_articles_failed cp,
        nj_files_completed := cp_files_completed cp,
        nj_files := map (apply_file cp) (nj_files job)\<rparr>"

section \<open>The folder a job had reserved\<close>

text \<open>\<open>Path::parent\<close>, and whether a name is \<open>base\<close> or \<open>base.<digits>\<close>.\<close>

definition path_parent :: "path \<Rightarrow> path option" where
  "path_parent p =
    (let comps = filter (\<lambda>w. w \<noteq> [] \<and> w \<noteq> ''.'') (split_on (CHR ''/'') p);
         lead = (if starts_with ''/'' p then ''/'' else [])
     in if comps = [] then None else Some (lead @ join_strings ''/'' (butlast comps)))"

definition same_base :: "byte_string \<Rightarrow> byte_string \<Rightarrow> bool" where
  "same_base claimed base \<longleftrightarrow>
    claimed = base \<or>
    (starts_with (base @ ''.'') claimed \<and>
     (let n = drop (length base + 1) claimed in n \<noteq> [] \<and> list_all is_ascii_digit n))"

definition restore_claimed_output_dir :: "(path \<Rightarrow> bool) \<Rightarrow> job_checkpoint \<Rightarrow> nzb_job \<Rightarrow> nzb_job \<times> bool" where
  "restore_claimed_output_dir is_dir cp job =
    (case cp_output_dir cp of
       None \<Rightarrow> (job, False)
     | Some claimed \<Rightarrow>
         if path_parent claimed \<noteq> None \<and> path_parent claimed = path_parent (nj_output_dir job) \<and>
            (case (path_file_name claimed, path_file_name (nj_output_dir job)) of
               (Some c, Some b) \<Rightarrow> same_base c b
             | _ \<Rightarrow> False) \<and>
            is_dir claimed
         then (job\<lparr>nj_output_dir := claimed\<rparr>, True)
         else (job, False))"

section \<open>Retrying from the history\<close>

text \<open>
  \<open>prepare_retry_job\<close> after the NZB has been parsed into \<open>job\<close>.  \<open>canonicalize\<close> and \<open>is_dir\<close> are the
  file system; \<open>incomplete\<close> is the root of the work directories and \<open>under\<close> is \<open>Path::starts_with\<close>.
\<close>

definition path_components :: "path \<Rightarrow> byte_string list" where
  "path_components p = filter (\<lambda>w. w \<noteq> [] \<and> w \<noteq> ''.'') (split_on (CHR ''/'') p)"

definition path_under :: "path \<Rightarrow> path \<Rightarrow> bool" where
  "path_under outer p \<longleftrightarrow>
    starts_with ''/'' outer = starts_with ''/'' p \<and>
    take (length (path_components outer)) (path_components p) = path_components outer"

definition forget_missing :: "nzb_article \<Rightarrow> nzb_article" where
  "forget_missing a = (if na_downloaded a then a else a\<lparr>na_tried_servers := [], na_tries := 0\<rparr>)"

definition retained_work_dir ::
  "(path \<Rightarrow> path option) \<Rightarrow> (path \<Rightarrow> bool) \<Rightarrow> path \<Rightarrow> job_status \<Rightarrow> job_checkpoint option \<Rightarrow> path option" where
  "retained_work_dir canonicalize is_dir incomplete status checkpoint =
    (if status \<noteq> JS_Failed then None
     else
       (case Option.bind checkpoint cp_work_dir of
          None \<Rightarrow> None
        | Some dir \<Rightarrow>
            (case (canonicalize incomplete, canonicalize dir) of
               (Some outer, Some retained) \<Rightarrow> if path_under outer retained \<and> is_dir dir then Some dir else None
             | _ \<Rightarrow> None)))"

definition prepare_retry_job ::
  "(path \<Rightarrow> path option) \<Rightarrow> (path \<Rightarrow> bool) \<Rightarrow> path \<Rightarrow> job_status \<Rightarrow> byte_string \<Rightarrow> path \<Rightarrow> job_checkpoint option \<Rightarrow>
   nzb_job \<Rightarrow> nzb_job" where
  "prepare_retry_job canonicalize is_dir incomplete status category output_dir checkpoint parsed =
    (let job = parsed\<lparr>nj_category := category, nj_output_dir := output_dir,
                      nj_work_dir := path_join incomplete (nj_id parsed)\<rparr>
     in case (retained_work_dir canonicalize is_dir incomplete status checkpoint, checkpoint) of
          (Some dir, Some cp) \<Rightarrow>
            let job' = apply_checkpoint cp job in
            job'\<lparr>nj_articles_failed := 0,
                 nj_files := map (\<lambda>f. f\<lparr>jf_articles := map forget_missing (jf_articles f)\<rparr>) (nj_files job'),
                 nj_work_dir := dir\<rparr>
        | _ \<Rightarrow> job)"

end
