(* ===== verification/Queue_Checkpoint_Proofs.thy ===== *)
theory Queue_Checkpoint_Proofs
  imports Queue_Checkpoint
begin

text \<open>
  A checkpoint brings the articles of a job back exactly when its file names are distinct; a retry
  asks again for every article that is missing; two files of one name share an entry.
\<close>

section \<open>Looking an article up\<close>

lemma map_of_collect_fold:
  "map_of (fold (\<lambda>(k, v). AList.update k v) kvs m) = map_of m ++ map_of (rev kvs)"
proof (induction kvs arbitrary: m)
  case (Cons kv kvs)
  then show ?case by (cases kv) (auto simp: AList.update_conv' map_add_def fun_eq_iff split: option.splits)
qed simp

lemma map_of_collect: "map_of (collect_entries kvs) = map_of (rev kvs)"
  by (simp add: collect_entries_def map_of_collect_fold)

lemma collect_distinct:
  "distinct (map k fs) \<Longrightarrow> f \<in> set fs \<Longrightarrow> map_of (collect_entries (map (\<lambda>f. (k f, v f)) fs)) (k f) = Some (v f)"
proof -
  assume d: "distinct (map k fs)" and f: "f \<in> set fs"
  have "distinct (map fst (rev (map (\<lambda>f. (k f, v f)) fs)))"
    using d by (simp add: comp_def rev_map[symmetric])
  then show ?thesis
    unfolding map_of_collect using f by (subst map_of_eq_Some_iff) auto
qed

definition same_article :: "nzb_article \<Rightarrow> nzb_article \<Rightarrow> bool" where
  "same_article a b \<longleftrightarrow>
    na_message_id a = na_message_id b \<and> na_segment_number a = na_segment_number b \<and> na_bytes a = na_bytes b"

text \<open>The job as its NZB is parsed again: the same files and articles, with no outcome.\<close>

definition reparsed :: "nzb_job \<Rightarrow> nzb_job \<Rightarrow> bool" where
  "reparsed fresh stored \<longleftrightarrow>
    list_all2 (\<lambda>f g. jf_filename f = jf_filename g \<and> list_all2 same_article (jf_articles f) (jf_articles g))
      (nj_files fresh) (nj_files stored)"

definition articles_distinct :: "job_file \<Rightarrow> bool" where
  "articles_distinct f \<longleftrightarrow>
    distinct (map na_message_id (jf_articles f)) \<and> distinct (map na_segment_number (jf_articles f))"

lemma outcome_found:
  assumes "b \<in> set bs" "same_article a b"
    and "distinct (map na_message_id bs)" "distinct (map na_segment_number bs)"
  shows "outcome_for (Some (map article_checkpoint_of bs)) a = Some (article_checkpoint_of b)"
  using assms
proof (induction bs)
  case (Cons c cs)
  then show ?case
    by (cases "b = c") (auto simp: outcome_for_def article_checkpoint_of_def same_article_def rev_image_eqI)
qed simp

lemma apply_article_restores:
  assumes "b \<in> set bs" "same_article a b"
    and "distinct (map na_message_id bs)" "distinct (map na_segment_number bs)"
  shows "apply_article (Some (map article_checkpoint_of bs)) segs a = b"
  using outcome_found[OF assms] assms(2)
  by (cases a; cases b) (simp add: apply_article_def article_checkpoint_of_def same_article_def)

lemma apply_articles_restore:
  assumes "list_all2 same_article as cs" "set cs \<subseteq> set bs"
    and "distinct (map na_message_id bs)" "distinct (map na_segment_number bs)"
  shows "map (apply_article (Some (map article_checkpoint_of bs)) segs) as = cs"
  using assms(1,2)
proof (induction as cs rule: list_all2_induct)
  case (Cons a as c cs)
  then show ?case using apply_article_restores[OF _ _ assms(3,4)] by simp
qed simp

definition checkpoint_articles :: "nzb_job \<Rightarrow> byte_string \<Rightarrow> article_checkpoint list option" where
  "checkpoint_articles job = map_of (cp_articles (checkpoint_for_job job False))"

lemma checkpoint_fields [simp]:
  "cp_articles (checkpoint_for_job job claimed) =
     collect_entries (map (\<lambda>f. (jf_filename f, map article_checkpoint_of (jf_articles f))) (nj_files job))"
  "cp_work_dir (checkpoint_for_job job claimed) = Some (nj_work_dir job)"
  by (simp_all add: checkpoint_for_job_def)

lemma apply_file_articles:
  assumes d: "distinct (map jf_filename (nj_files stored))" "articles_distinct g"
    and g: "g \<in> set (nj_files stored)" "jf_filename f = jf_filename g"
    and same: "list_all2 same_article (jf_articles f) (jf_articles g)"
  shows "jf_articles (apply_file (checkpoint_for_job stored claimed) f) = jf_articles g"
  using collect_distinct[OF d(1) g(1), of "\<lambda>f. map article_checkpoint_of (jf_articles f)"] g(2) d(2)
  by (simp add: apply_file_def Let_def apply_articles_restore[OF same] articles_distinct_def)

lemma apply_checkpoint_articles:
  assumes "reparsed fresh stored" "distinct (map jf_filename (nj_files stored))"
    and "\<And>g. g \<in> set (nj_files stored) \<Longrightarrow> articles_distinct g"
  shows "map jf_articles (nj_files (apply_checkpoint (checkpoint_for_job stored claimed) fresh)) =
    map jf_articles (nj_files stored)"
proof (rule nth_equalityI)
  have l: "length (nj_files fresh) = length (nj_files stored)"
    using assms(1) unfolding reparsed_def by (rule list_all2_lengthD)
  show "length (map jf_articles (nj_files (apply_checkpoint (checkpoint_for_job stored claimed) fresh))) =
      length (map jf_articles (nj_files stored))"
    by (simp add: apply_checkpoint_def l)
  fix i assume "i < length (map jf_articles (nj_files (apply_checkpoint (checkpoint_for_job stored claimed) fresh)))"
  then have i: "i < length (nj_files fresh)" by (simp add: apply_checkpoint_def)
  have g: "nj_files stored ! i \<in> set (nj_files stored)" using i l by simp
  have "jf_articles (apply_file (checkpoint_for_job stored claimed) (nj_files fresh ! i)) =
      jf_articles (nj_files stored ! i)"
    using assms(1) i list_all2_nthD[OF _ i]
    by (intro apply_file_articles[OF assms(2) assms(3)[OF g] g]) (auto simp: reparsed_def)
  then show "map jf_articles (nj_files (apply_checkpoint (checkpoint_for_job stored claimed) fresh)) ! i =
      map jf_articles (nj_files stored) ! i"
    using i l by (simp add: apply_checkpoint_def)
qed

text \<open>C27. A checkpoint round trip.  When a job is parsed again from its NZB and its checkpoint is applied,
every article is as it was when the checkpoint was written, and so are the counters of the job; a
file counts as assembled exactly when all its articles are downloaded.  File names, and within a file
message ids and segment numbers, are taken to be distinct.\<close>

theorem checkpoint_restores_job:
  assumes "reparsed fresh stored" "distinct (map jf_filename (nj_files stored))"
    and "\<forall>g \<in> set (nj_files stored). articles_distinct g"
  shows "let job = apply_checkpoint (checkpoint_for_job stored claimed) fresh in
    map jf_articles (nj_files job) = map jf_articles (nj_files stored) \<and>
    nj_downloaded_bytes job = nj_downloaded_bytes stored \<and>
    nj_articles_downloaded job = nj_articles_downloaded stored \<and>
    nj_articles_failed job = nj_articles_failed stored \<and>
    nj_files_completed job = nj_files_completed stored \<and>
    (\<forall>f \<in> set (nj_files job). jf_assembled f = list_all na_downloaded (jf_articles f))"
proof -
  have "map jf_articles (nj_files (apply_checkpoint (checkpoint_for_job stored claimed) fresh)) =
      map jf_articles (nj_files stored)"
    using assms by (intro apply_checkpoint_articles) auto
  then show ?thesis
    by (auto simp: Let_def) (auto simp: apply_checkpoint_def checkpoint_for_job_def apply_file_def Let_def)
qed

section \<open>Retrying\<close>

lemma previously_failed_forget: "\<not> is_previously_failed enabled (forget_missing a)"
  by (auto simp: is_previously_failed_def forget_missing_def list_all_iff ex_in_conv)

lemma forget_missing_simps [simp]:
  "na_downloaded (forget_missing a) = na_downloaded a" "na_message_id (forget_missing a) = na_message_id a"
  by (simp_all add: forget_missing_def)

lemma work_items_forget:
  assumes "map jf_articles (nj_files job) = map (map forget_missing) ass"
  shows "map ei_message_id (job_work_items job enabled) =
    map na_message_id (filter (\<lambda>a. \<not> na_downloaded a) (concat ass))"
proof -
  have ids: "map ei_message_id (map (article_item job f) as) = map na_message_id as" for f as
    by (simp add: article_item_def)
  have "map ei_message_id (job_work_items job enabled) =
    concat (map (\<lambda>as. map na_message_id (filter (\<lambda>a. \<not> na_downloaded a \<and> \<not> is_previously_failed enabled a) as))
      (map jf_articles (nj_files job)))"
    by (simp add: job_work_items_def map_concat ids comp_def article_item_def)
  also have "\<dots> = concat (map (\<lambda>as. map na_message_id (filter (\<lambda>a. \<not> na_downloaded a) as)) ass)"
    unfolding assms by (simp add: comp_def filter_map previously_failed_forget)
  finally show ?thesis by (simp add: filter_concat map_concat comp_def)
qed

text \<open>C28. When a failed job is retried, its work directory is retained, its files have distinct names, the articles of
  a file have distinct message ids and segment numbers, and parsing the NZB again gives the same files and articles, then the retry
  asks for every article that was not downloaded, in their order and whichever servers refused it before, and for no other.  (With two
  files of one name it does not.)\<close>

theorem retry_asks_for_every_missing_article:
  assumes "reparsed parsed stored" "distinct (map jf_filename (nj_files stored))"
    and "\<forall>g \<in> set (nj_files stored). articles_distinct g"
    and "retained_work_dir canonicalize is_dir incomplete status (Some (checkpoint_for_job stored claimed)) = Some dir"
  shows "map ei_message_id (job_work_items
      (prepare_retry_job canonicalize is_dir incomplete status category output
        (Some (checkpoint_for_job stored claimed)) parsed) enabled) =
    map na_message_id (filter (\<lambda>a. \<not> na_downloaded a) (concat (map jf_articles (nj_files stored))))"
proof (rule work_items_forget)
  let ?job = "parsed\<lparr>nj_category := category, nj_output_dir := output,
    nj_work_dir := path_join incomplete (nj_id parsed)\<rparr>"
  have "map jf_articles (nj_files (apply_checkpoint (checkpoint_for_job stored claimed) ?job)) =
      map jf_articles (nj_files stored)"
    using assms by (intro apply_checkpoint_articles) (auto simp: reparsed_def)
  then have "map (map forget_missing \<circ> jf_articles)
      (nj_files (apply_checkpoint (checkpoint_for_job stored claimed) ?job)) =
    map (map forget_missing) (map jf_articles (nj_files stored))"
    by (metis map_map)
  then show "map jf_articles (nj_files (prepare_retry_job canonicalize is_dir incomplete status category output
      (Some (checkpoint_for_job stored claimed)) parsed)) =
    map (map forget_missing) (map jf_articles (nj_files stored))"
    using assms(4) by (simp add: prepare_retry_job_def Let_def comp_def)
qed

section \<open>Two files of one name\<close>

lemma outcome_segment:
  assumes "na_segment_number a \<in> na_segment_number ` set bs" "list_all na_downloaded bs"
  shows "\<exists>oc. outcome_for (Some (map article_checkpoint_of bs)) a = Some oc \<and> ac_downloaded oc"
  using assms by (induction bs) (auto simp: outcome_for_def article_checkpoint_of_def)

lemma apply_articles_all_downloaded:
  assumes "na_segment_number ` set as \<subseteq> na_segment_number ` set bs" "list_all na_downloaded bs"
  shows "list_all na_downloaded (map (apply_article (Some (map article_checkpoint_of bs)) segs) as)"
proof -
  have "na_downloaded (apply_article (Some (map article_checkpoint_of bs)) segs a)" if "a \<in> set as" for a
    using outcome_segment[of a bs] assms that by (force simp: apply_article_def)
  then show ?thesis by (simp add: list_all_iff)
qed

lemma same_articles_segments:
  "list_all2 same_article as bs \<Longrightarrow> na_segment_number ` set as = na_segment_number ` set bs"
  by (induction rule: list_all2_induct) (auto simp: same_article_def)

text \<open>A fault.  The checkpoint is keyed by file name.  When two files of an NZB have the same name and
segment numbers and the second is complete, resuming the job takes the first for complete as well,
whatever was downloaded of it, and asks for none of its articles.\<close>

theorem shared_filename_skips_missing:
  assumes "nj_files stored = [f, g]" "jf_filename f = jf_filename g" "reparsed fresh stored"
    and "na_segment_number ` set (jf_articles f) = na_segment_number ` set (jf_articles g)"
    and "list_all na_downloaded (jf_articles g)"
  shows "list_all jf_assembled (nj_files (apply_checkpoint (checkpoint_for_job stored claimed) fresh)) \<and>
    job_work_items (apply_checkpoint (checkpoint_for_job stored claimed) fresh) enabled = []"
proof -
  let ?cp = "checkpoint_for_job stored claimed"
  obtain f' g' where fresh: "nj_files fresh = [f', g']" "jf_filename f' = jf_filename g" "jf_filename g' = jf_filename g"
    "list_all2 same_article (jf_articles f') (jf_articles f)" "list_all2 same_article (jf_articles g') (jf_articles g)"
    using assms(1-3) by (auto simp: reparsed_def list_all2_Cons2)
  have "map_of (cp_articles ?cp) (jf_filename g) = Some (map article_checkpoint_of (jf_articles g))"
    by (simp add: assms(1,2) map_of_collect)
  then have "list_all na_downloaded (jf_articles (apply_file ?cp h))"
    if "h = f' \<or> h = g'" for h
    using that fresh(2-3) same_articles_segments[OF fresh(4)] same_articles_segments[OF fresh(5)] assms(4,5)
    by (auto simp: apply_file_def Let_def simp del: checkpoint_fields
        intro!: apply_articles_all_downloaded) (metis imageI)+
  then have all: "list_all na_downloaded (jf_articles (apply_file ?cp f'))"
    "list_all na_downloaded (jf_articles (apply_file ?cp g'))" by blast+
  have files: "nj_files (apply_checkpoint ?cp fresh) = [apply_file ?cp f', apply_file ?cp g']"
    by (simp add: apply_checkpoint_def fresh(1))
  have assembled: "jf_assembled (apply_file ?cp h) = list_all na_downloaded (jf_articles (apply_file ?cp h))" for h
    by (simp add: apply_file_def Let_def)
  have "list_all jf_assembled (nj_files (apply_checkpoint ?cp fresh))"
    unfolding files using all by (simp del: checkpoint_fields add: assembled)
  moreover have "job_work_items (apply_checkpoint ?cp fresh) enabled = []"
    unfolding job_work_items_def files using all by (auto simp: filter_empty_conv list_all_iff simp del: checkpoint_fields)
  ultimately show ?thesis by simp
qed

section \<open>Witnesses\<close>

definition cp_done :: "nzb_article \<Rightarrow> nzb_article" where
  "cp_done a = a\<lparr>na_downloaded := True, na_data_begin := Some 0, na_data_size := Some 9\<rparr>"

definition cp_fresh :: nzb_job where
  "cp_fresh = plain_job ''j'' ''/w/j'' 40
    [plain_file ''1'' ''a.bin'' 20 [plain_article ''m1'' 1 10, plain_article ''m2'' 2 10],
     plain_file ''2'' ''b.bin'' 20 [plain_article ''m3'' 1 10, plain_article ''m4'' 2 10]]"

definition cp_stored :: nzb_job where
  "cp_stored = cp_fresh\<lparr>nj_downloaded_bytes := 9, nj_articles_downloaded := 1, nj_articles_failed := 1, nj_files :=
    [plain_file ''1'' ''a.bin'' 20 [cp_done (plain_article ''m1'' 1 10), plain_article ''m2'' 2 10],
     plain_file ''2'' ''b.bin'' 20 [(plain_article ''m3'' 1 10)\<lparr>na_tried_servers := [''s''], na_tries := 1\<rparr>,
       plain_article ''m4'' 2 10]]\<rparr>"

lemmas cp_defs = cp_stored_def cp_fresh_def cp_done_def plain_job_def plain_file_def plain_article_def

lemma cp_reparsed: "reparsed cp_fresh cp_stored"
  by (simp add: reparsed_def cp_defs same_article_def)

lemma cp_distinct:
  "distinct (map jf_filename (nj_files cp_stored))" "\<forall>g \<in> set (nj_files cp_stored). articles_distinct g"
  by (simp_all add: cp_defs articles_distinct_def)

theorem checkpoint_restores_job_witness:
  "map jf_articles (nj_files (apply_checkpoint (checkpoint_for_job cp_stored False) cp_fresh)) =
    map jf_articles (nj_files cp_stored)"
  using checkpoint_restores_job[OF cp_reparsed cp_distinct, of False] by (simp add: Let_def)

theorem retry_asks_for_every_missing_article_witness:
  "map ei_message_id (job_work_items
      (prepare_retry_job Some (\<lambda>d. d = ''/w/j'') ''/w'' JS_Failed ''tv'' ''/out'' (Some (checkpoint_for_job cp_stored False)) cp_fresh)
      [''s'']) = [''m2'', ''m3'', ''m4'']"
proof -
  have r: "retained_work_dir Some (\<lambda>d. d = ''/w/j'') ''/w'' JS_Failed (Some (checkpoint_for_job cp_stored False)) =
      Some ''/w/j''"
    by (simp add: retained_work_dir_def checkpoint_for_job_def cp_defs path_under_def path_components_def starts_with_def)
  show ?thesis
    unfolding retry_asks_for_every_missing_article[OF cp_reparsed cp_distinct r] by (simp add: cp_defs)
qed

definition cp_twins :: nzb_job where
  "cp_twins = plain_job ''j'' ''/w/j'' 20
    [plain_file ''1'' ''a.bin'' 10 [plain_article ''m1'' 1 10],
     plain_file ''2'' ''a.bin'' 10 [cp_done (plain_article ''m2'' 1 10)]]"

theorem shared_filename_skips_missing_witness:
  "(\<exists>a \<in> set (concat (map jf_articles (nj_files cp_twins))). \<not> na_downloaded a) \<and>
   job_work_items (apply_checkpoint (checkpoint_for_job cp_twins False) cp_twins) [''s''] = []"
proof
  show "\<exists>a \<in> set (concat (map jf_articles (nj_files cp_twins))). \<not> na_downloaded a"
    by (simp add: cp_twins_def cp_defs)
  show "job_work_items (apply_checkpoint (checkpoint_for_job cp_twins False) cp_twins) [''s''] = []"
    using shared_filename_skips_missing[of cp_twins "plain_file ''1'' ''a.bin'' 10 [plain_article ''m1'' 1 10]"
        "plain_file ''2'' ''a.bin'' 10 [cp_done (plain_article ''m2'' 1 10)]" cp_twins False "[''s'']"]
    by (simp add: cp_twins_def cp_defs reparsed_def same_article_def)
qed

end
