(* ===== verification/Queue_Pause_Proofs.thy ===== *)
theory Queue_Pause_Proofs
  imports Queue_Pause
begin

text \<open>
  The holds over any sequence of operations: the bookkeeping of the windows, what a manual resume
  and a new window do, and the restart.
\<close>

inductive holds_reach :: "pause_holds \<Rightarrow> bool" where
  start: "holds_reach holds_default"
| user: "holds_reach h \<Longrightarrow> holds_reach (cover_windows (hold_user h))"
| disk: "holds_reach h \<Longrightarrow> holds_reach (cover_windows (hold_disk since h))"
| tick: "holds_reach h \<Longrightarrow> holds_reach (schedule_hold windows h)"
| expire: "holds_reach h \<Longrightarrow> holds_reach (expire_hold h)"
| lift_all: "holds_reach h \<Longrightarrow> holds_reach (lift_all h)"
| lift_disk: "holds_reach h \<Longrightarrow> holds_reach (lift_disk h)"
| restart: "holds_reach h \<Longrightarrow> holds_reach (restore_holds (persist_holds h s))"

definition windows_ok :: "pause_holds \<Rightarrow> bool" where
  "windows_ok h \<longleftrightarrow>
    set (ph_triggered_windows h) = set (ph_open_windows h) \<and>
    set (ph_resumed_windows h) \<subseteq> set (ph_open_windows h) \<and>
    set (ph_user_paused_over h) \<subseteq> set (ph_open_windows h) \<and>
    (ph_user h \<longrightarrow> \<not> ph_schedule h)"

lemma schedule_hold_fields:
  "ph_open_windows (schedule_hold W h) = W"
  "ph_user (schedule_hold W h) = ph_user h"
  "ph_disk (schedule_hold W h) = ph_disk h"
  "set (ph_triggered_windows (schedule_hold W h)) = set W"
  "set (ph_resumed_windows (schedule_hold W h)) = set (ph_resumed_windows h) \<inter> set W"
  "set (ph_user_paused_over (schedule_hold W h)) = set (ph_user_paused_over h) \<inter> set W"
  by (auto simp: schedule_hold_def Let_def retain_open_def newly_opened_def)

lemma schedule_hold_iff:
  "ph_schedule (schedule_hold W h) \<longleftrightarrow>
    \<not> ph_user h \<and> \<not> set W \<subseteq> set (ph_resumed_windows h) \<union> set (ph_user_paused_over h)"
  by (auto simp: schedule_hold_def Let_def retain_open_def newly_opened_def held_occurrences_def filter_empty_conv)

lemma restore_persist: "restore_holds (persist_holds h s) = h"
  by (cases h) (auto simp: restore_holds_def persist_holds_def Let_def flag_of_def list_of_def holds_any_def)

lemma windows_ok_ops:
  "windows_ok h \<Longrightarrow> windows_ok (cover_windows (hold_user h))"
  "windows_ok h \<Longrightarrow> windows_ok (cover_windows (hold_disk since h))"
  "windows_ok h \<Longrightarrow> windows_ok (expire_hold h)"
  "windows_ok h \<Longrightarrow> windows_ok (lift_all h)"
  "windows_ok h \<Longrightarrow> windows_ok (lift_disk h)"
  by (auto simp: windows_ok_def cover_windows_def hold_user_def hold_disk_def expire_hold_def Let_def lift_all_def
      lift_disk_def split: option.splits)

lemma windows_ok_tick: "windows_ok (schedule_hold W h)"
  by (auto simp: windows_ok_def schedule_hold_fields schedule_hold_iff)

lemma holds_reach_ok: "holds_reach h \<Longrightarrow> windows_ok h"
proof (induction rule: holds_reach.induct)
  case start
  show ?case by (simp add: windows_ok_def holds_default_def)
qed (simp_all add: windows_ok_ops windows_ok_tick restore_persist)

lemma ticks_keep_resumed:
  assumes "windows_ok h" "set (ph_open_windows h) \<subseteq> set (ph_resumed_windows h)" "\<not> holds_any h"
    and "successively (\<lambda>A B. set B \<subseteq> set A) (ph_open_windows h # Ws)"
  shows "\<not> holds_any (fold schedule_hold Ws h)"
  using assms
proof (induction Ws arbitrary: h)
  case (Cons W Ws)
  have W: "set W \<subseteq> set (ph_open_windows h)" using Cons.prems(4) by simp
  have "successively (\<lambda>A B. set B \<subseteq> set A) (W # Ws)" using Cons.prems(4) by simp
  moreover have "\<not> holds_any (schedule_hold W h)"
    using Cons.prems(2,3) W by (auto simp: holds_any_def schedule_hold_fields schedule_hold_iff)
  ultimately show ?case
    using Cons.IH[of "schedule_hold W h"] Cons.prems(2) W by (auto simp: windows_ok_tick schedule_hold_fields)
qed simp

text \<open>C29. A manual resume lasts for the windows it was made in, and a new window pauses.  However the
holds came about, restarts included, after \<open>resume_all\<close> no sequence of schedule ticks pauses the
queue as long as windows only close; and a tick in which a window opens that was not open at the tick
before leaves the queue paused.\<close>

theorem manual_resume_lasts_for_the_window:
  assumes "holds_reach h"
  shows "(successively (\<lambda>A B. set B \<subseteq> set A) (ph_open_windows h # Ws) \<longrightarrow>
      \<not> holds_any (fold schedule_hold Ws (lift_all h))) \<and>
    (\<forall>w \<in> set W. w \<notin> set (ph_open_windows h) \<longrightarrow> holds_any (schedule_hold W h))"
proof (intro conjI impI ballI)
  have ok: "windows_ok h" using assms by (rule holds_reach_ok)
  assume "successively (\<lambda>A B. set B \<subseteq> set A) (ph_open_windows h # Ws)"
  then have s: "successively (\<lambda>A B. set B \<subseteq> set A) (ph_open_windows (lift_all h) # Ws)"
    by (simp add: lift_all_def)
  show "\<not> holds_any (fold schedule_hold Ws (lift_all h))"
    by (rule ticks_keep_resumed[OF windows_ok_ops(4)[OF ok] _ _ s])
      (use ok in \<open>auto simp: windows_ok_def lift_all_def holds_any_def\<close>)
next
  have ok: "windows_ok h" using assms by (rule holds_reach_ok)
  fix w assume "w \<in> set W" "w \<notin> set (ph_open_windows h)"
  then show "holds_any (schedule_hold W h)"
    using ok by (auto simp: holds_any_def windows_ok_def schedule_hold_iff schedule_hold_fields)
qed

text \<open>A round trip of the pause state.  The holds that any sequence of operations leaves are the holds
read back after a restart, whatever the settings table held before.\<close>

theorem pause_holds_survive_restart:
  "restore_holds (persist_holds h s) = h"
  by (rule restore_persist)

definition holds_night :: pause_holds where
  "holds_night = schedule_hold [''night@1''] holds_default"

lemma holds_night_reach: "holds_reach holds_night"
  unfolding holds_night_def by (rule holds_reach.tick[OF holds_reach.start])

theorem manual_resume_lasts_for_the_window_witness:
  "holds_any holds_night \<and> \<not> holds_any (fold schedule_hold [[''night@1''], []] (lift_all holds_night)) \<and>
   holds_any (schedule_hold [''night@2''] holds_night)"
proof (intro conjI)
  show "holds_any holds_night" by code_simp
  show "\<not> holds_any (fold schedule_hold [[''night@1''], []] (lift_all holds_night))"
    using manual_resume_lasts_for_the_window[OF holds_night_reach, of "[[''night@1''], []]" "[]"]
    by (simp add: holds_night_def schedule_hold_fields)
  show "holds_any (schedule_hold [''night@2''] holds_night)"
    using manual_resume_lasts_for_the_window[OF holds_night_reach, of "[]" "[''night@2'']"]
    by (simp add: holds_night_def schedule_hold_fields)
qed

end
