(* ===== verification/Queue_Manager.thy ===== *)
theory Queue_Manager
  imports Queue_Checkpoint Queue_Pause Engine_Pool
begin

text \<open>
  The queue manager (\<open>crates/nzb-web/src/queue_manager.rs\<close>): the jobs and their order, the download
  slots, pausing and resuming of one job and of all, admission, priorities, preemption and removal.
  A definition is one method; a method takes its locks in an order that makes it atomic against the
  others of the same kind, and every interleaving of whole methods is covered.

  The dispatcher is the trait \<open>DispatchEngine\<close> of \<open>crates/nzb-dispatch/src/dispatch_engine.rs\<close>, here a
  record of functions on its state; \<open>pool_dispatcher\<close> is the implementation, on the worker pool.
  A \<open>HashMap\<close> of jobs is an association list.  The database is the queue rows, the settings and the
  history the methods write; what they read of NZB data, checkpoints, directories and free space is
  the environment \<open>queue_env\<close>.  Log lines, notifications and events to the user interface are left out.
\<close>

section \<open>The dispatcher\<close>

record 'p dispatcher =
  ds_has_job :: "byte_string \<Rightarrow> 'p \<Rightarrow> bool"
  ds_submit_job :: "nzb_job \<Rightarrow> 'p \<Rightarrow> 'p"
  ds_pause_job :: "byte_string \<Rightarrow> 'p \<Rightarrow> 'p"
  ds_resume_job :: "byte_string \<Rightarrow> 'p \<Rightarrow> 'p"
  ds_cancel_job :: "byte_string \<Rightarrow> 'p \<Rightarrow> 'p"
  ds_release_completed_job :: "byte_string \<Rightarrow> 'p \<Rightarrow> 'p"
  ds_held_par2_files :: "byte_string \<Rightarrow> 'p \<Rightarrow> byte_string list option"

definition pool_has_job :: "byte_string \<Rightarrow> pool \<Rightarrow> bool" where
  "pool_has_job jid po \<longleftrightarrow> map_of (po_jobs po) jid \<noteq> None"

definition pool_held_par2_files :: "byte_string \<Rightarrow> pool \<Rightarrow> byte_string list option" where
  "pool_held_par2_files jid po = map_option (\<lambda>a. held_file_ids (jc_held (ctx_at po a))) (map_of (po_jobs po) jid)"

text \<open>\<open>DispatchHandle::submit_job\<close>: the context is allocated, then registered by the pool.\<close>

definition progress_channel_new :: progress_channel where
  "progress_channel_new = \<lparr>pc_buffer = [], pc_received = [], pc_closed = False\<rparr>"

definition pool_submit_job :: "engine_env \<Rightarrow> disk \<Rightarrow> nzb_job \<Rightarrow> pool \<Rightarrow> pool" where
  "pool_submit_job env disk job po =
    (case build_job_submission env job progress_channel_new (map sc_id (filter sc_enabled (po_servers po))) disk of
       (ctx, items) \<Rightarrow> submit_job env (length (po_ctxs po)) items (po\<lparr>po_ctxs := po_ctxs po @ [ctx]\<rparr>))"

definition pool_dispatcher :: "engine_env \<Rightarrow> disk \<Rightarrow> pool dispatcher" where
  "pool_dispatcher env disk =
    \<lparr>ds_has_job = pool_has_job, ds_submit_job = pool_submit_job env disk, ds_pause_job = pause_job env,
     ds_resume_job = resume_job env, ds_cancel_job = cancel_job, ds_release_completed_job = release_completed_job,
     ds_held_par2_files = pool_held_par2_files\<rparr>"

section \<open>The manager\<close>

record job_state =
  js_job :: nzb_job
  js_listening :: bool
  js_nzb_data :: "bytes option"
  js_tracker :: "hopeless_tracker option"
  js_download_time_secs :: "rat option"
  js_prior_download_secs :: rat
  js_carried_bytes :: nat
  js_failure_code :: "job_failure_code option"
  js_par2_volumes :: "(nat \<times> nat) option"
  js_output_dir_claimed :: bool
  js_persisted_status :: "job_status option"

definition job_state_new :: "nzb_job \<Rightarrow> bytes option \<Rightarrow> nat \<Rightarrow> job_state" where
  "job_state_new job nzb_data carried =
    \<lparr>js_job = job, js_listening = False, js_nzb_data = nzb_data, js_tracker = None, js_download_time_secs = None,
     js_prior_download_secs = 0, js_carried_bytes = carried, js_failure_code = None, js_par2_volumes = None,
     js_output_dir_claimed = False, js_persisted_status = None\<rparr>"

text \<open>A row of the queue table, and of the history.\<close>

record queue_row =
  qr_status :: job_status
  qr_downloaded_bytes :: nat
  qr_articles_downloaded :: nat
  qr_articles_failed :: nat
  qr_files_completed :: nat
  qr_priority :: priority

record history_entry =
  he_id :: byte_string
  he_name :: byte_string
  he_category :: byte_string
  he_status :: job_status
  he_total_bytes :: nat
  he_downloaded_bytes :: nat
  he_added_at :: millis
  he_completed_at :: millis
  he_download_time_secs :: "rat option"
  he_output_dir :: path
  he_stages :: "stage_result list"
  he_error_message :: "byte_string option"
  he_failure_code :: "job_failure_code option"
  he_post_processing :: "u8 option"
  he_delete_archives :: "bool option"
  he_server_stats :: "server_article_stats list"
  he_par2_volumes_fetched :: "u32 option"
  he_par2_volumes_available :: "u32 option"
  he_nzb_data :: "bytes option"
  he_retry_data :: "job_checkpoint option"

record 'p queue_manager =
  qm_jobs :: "(byte_string \<times> job_state) list"
  qm_order :: "byte_string list"
  qm_max_active :: nat
  qm_globally_paused :: bool
  qm_holds :: pause_holds
  qm_pause_until :: "millis option"
  qm_global_jobs :: "byte_string set"
  qm_settings :: pause_settings
  qm_rows :: "(byte_string \<times> queue_row) list"
  qm_history :: "history_entry list"
  qm_dispatch :: 'p

record queue_env =
  qe_now :: millis
  qe_nzb_row :: "byte_string \<Rightarrow> bytes option"
  qe_parse :: "byte_string \<Rightarrow> bytes \<Rightarrow> job_file list option"
  qe_checkpoint :: "byte_string \<Rightarrow> job_checkpoint option"
  qe_is_dir :: "path \<Rightarrow> bool"
  qe_space :: "path list \<Rightarrow> bool"
  qe_incomplete_dir :: path
  qe_pp_level :: "nzb_job \<Rightarrow> u8"
  qe_db_ok :: bool

datatype queue_error = QE_JobNotFound byte_string | QE_Other byte_string | QE_Database

text \<open>Lookups and updates under the jobs lock.\<close>

definition job_status_of :: "job_state \<Rightarrow> job_status" where
  "job_status_of s = nj_status (js_job s)"

definition set_status :: "job_status \<Rightarrow> job_state \<Rightarrow> job_state" where
  "set_status st s = s\<lparr>js_job := (js_job s)\<lparr>nj_status := st\<rparr>\<rparr>"

definition set_error :: "byte_string option \<Rightarrow> job_state \<Rightarrow> job_state" where
  "set_error e s = s\<lparr>js_job := (js_job s)\<lparr>nj_error_message := e\<rparr>\<rparr>"

definition clear_failure :: "job_state \<Rightarrow> job_state" where
  "clear_failure s = set_error None s\<lparr>js_failure_code := None\<rparr>"

definition job_at :: "'p queue_manager \<Rightarrow> byte_string \<Rightarrow> job_state option" where
  "job_at q jid = map_of (qm_jobs q) jid"

definition edit_job :: "byte_string \<Rightarrow> (job_state \<Rightarrow> job_state) \<Rightarrow> 'p queue_manager \<Rightarrow> 'p queue_manager" where
  "edit_job jid f q = q\<lparr>qm_jobs := AList.map_entry jid f (qm_jobs q)\<rparr>"

definition with_dispatch :: "('p \<Rightarrow> 'p) \<Rightarrow> 'p queue_manager \<Rightarrow> 'p queue_manager" where
  "with_dispatch f q = q\<lparr>qm_dispatch := f (qm_dispatch q)\<rparr>"

definition has_status :: "job_status \<Rightarrow> 'p queue_manager \<Rightarrow> byte_string \<Rightarrow> bool" where
  "has_status st q jid \<longleftrightarrow> (case job_at q jid of Some s \<Rightarrow> job_status_of s = st | None \<Rightarrow> False)"

definition active_count :: "'p queue_manager \<Rightarrow> nat" where
  "active_count q = length (filter (\<lambda>(_, s). job_status_of s = JS_Downloading) (qm_jobs q))"

definition queued_count :: "'p queue_manager \<Rightarrow> nat" where
  "queued_count q = length (filter (\<lambda>(_, s). job_status_of s = JS_Queued) (qm_jobs q))"

definition priority_of :: "'p queue_manager \<Rightarrow> byte_string \<Rightarrow> nat" where
  "priority_of q jid = (case job_at q jid of Some s \<Rightarrow> priority_value (nj_priority (js_job s)) | None \<Rightarrow> 0)"

text \<open>\<open>queue_update_progress\<close> and \<open>queue_update_priority\<close>: an SQL update touches only a row that exists.\<close>

definition update_progress :: "byte_string \<Rightarrow> job_status \<Rightarrow> 'p queue_manager \<Rightarrow> 'p queue_manager" where
  "update_progress jid st q =
    (case job_at q jid of
       None \<Rightarrow> q
     | Some s \<Rightarrow>
         q\<lparr>qm_rows := AList.map_entry jid (\<lambda>r. r\<lparr>qr_status := st, qr_downloaded_bytes := nj_downloaded_bytes (js_job s),
             qr_articles_downloaded := nj_articles_downloaded (js_job s),
             qr_articles_failed := nj_articles_failed (js_job s),
             qr_files_completed := nj_files_completed (js_job s)\<rparr>) (qm_rows q)\<rparr>)"

definition persist_status :: "byte_string \<Rightarrow> job_status \<Rightarrow> 'p queue_manager \<Rightarrow> 'p queue_manager" where
  "persist_status jid st q = update_progress jid st (edit_job jid (\<lambda>s. s\<lparr>js_persisted_status := Some st\<rparr>) q)"

section \<open>Download slots\<close>

definition claim_scan :: "'p queue_manager \<Rightarrow> byte_string \<Rightarrow> (byte_string \<times> nat) option \<Rightarrow> (byte_string \<times> nat) option" where
  "claim_scan q jid best =
    (if has_status JS_Queued q jid \<and> (case best of None \<Rightarrow> True | Some (_, bp) \<Rightarrow> bp < priority_of q jid)
     then Some (jid, priority_of q jid) else best)"

definition best_claim :: "'p queue_manager \<Rightarrow> byte_string option" where
  "best_claim q = map_option fst (fold (claim_scan q) (qm_order q) None)"

definition claim_next_download_slot :: "nat \<Rightarrow> 'p queue_manager \<Rightarrow> byte_string option \<times> 'p queue_manager" where
  "claim_next_download_slot mx q =
    (if qm_globally_paused q then (None, q)
     else if 0 < mx \<and> mx \<le> active_count q then (None, q)
     else (case best_claim q of
             None \<Rightarrow> (None, q)
           | Some jid \<Rightarrow> (Some jid, edit_job jid (set_status JS_Downloading) q)))"

definition resume_queued_context :: "'p dispatcher \<Rightarrow> queue_env \<Rightarrow> byte_string \<Rightarrow> 'p queue_manager \<Rightarrow> 'p queue_manager" where
  "resume_queued_context D E jid q =
    with_dispatch (ds_resume_job D jid)
      (persist_status jid JS_Downloading
        (edit_job jid (\<lambda>s. clear_failure s\<lparr>js_tracker := map_option (reset_progress_clock (qe_now E)) (js_tracker s)\<rparr>) q))"

text \<open>\<open>launch_download\<close>: the lazily loaded NZB and checkpoint, the disk check, the submission.\<close>

definition load_checkpoint :: "queue_env \<Rightarrow> byte_string \<Rightarrow> job_state \<Rightarrow> job_state" where
  "load_checkpoint E jid s =
    (case qe_checkpoint E jid of
       None \<Rightarrow> s
     | Some cp \<Rightarrow>
         (case restore_checkpoint_accounting cp (apply_checkpoint cp (js_job s)) of
            (job, prior, carried) \<Rightarrow>
              (case (if js_output_dir_claimed s then (job, True)
                     else restore_claimed_output_dir (qe_is_dir E) cp job) of
                 (job', claimed) \<Rightarrow>
                   s\<lparr>js_job := job', js_prior_download_secs := prior, js_carried_bytes := carried,
                     js_output_dir_claimed := claimed\<rparr>)))"

definition load_nzb :: "queue_env \<Rightarrow> byte_string \<Rightarrow> job_state \<Rightarrow> job_state" where
  "load_nzb E jid s =
    (if js_nzb_data s \<noteq> None then s
     else
       (case qe_nzb_row E jid of
          None \<Rightarrow> s
        | Some data \<Rightarrow>
            (case qe_parse E (nj_name (js_job s)) data of
               Some files \<Rightarrow> load_checkpoint E jid (s\<lparr>js_job := (js_job s)\<lparr>nj_files := files\<rparr>\<rparr>)
             | None \<Rightarrow> s)\<lparr>js_nzb_data := Some data\<rparr>))"

definition hold_for_space :: "job_state \<Rightarrow> job_state" where
  "hold_for_space s =
    set_error (Some ''Paused: low disk space'') (set_status JS_Paused s)\<lparr>js_failure_code := Some FC_StorageUnavailable\<rparr>"

definition launch_download :: "'p dispatcher \<Rightarrow> queue_env \<Rightarrow> byte_string \<Rightarrow> 'p queue_manager \<Rightarrow> 'p queue_manager" where
  "launch_download D E jid q =
    (let q1 = edit_job jid (load_nzb E jid) q in
     case job_at q1 jid of
       None \<Rightarrow> q1
     | Some s \<Rightarrow>
         if \<not> qe_space E [qe_incomplete_dir E, nj_output_dir (js_job s)] then edit_job jid hold_for_space q1
         else
           edit_job jid (\<lambda>s. s\<lparr>js_listening := True, js_tracker := Some (hopeless_new (qe_now E) (js_job s))\<rparr>)
             (with_dispatch (ds_submit_job D (js_job s)) q1))"

definition start_job :: "'p dispatcher \<Rightarrow> queue_env \<Rightarrow> byte_string \<Rightarrow> 'p queue_manager \<Rightarrow> 'p queue_manager" where
  "start_job D E jid q =
    (if ds_has_job D jid (qm_dispatch q) then resume_queued_context D E jid q else launch_download D E jid q)"


text \<open>Each slot that is claimed takes one job out of the queue, so the loop ends.\<close>

lemma frame_jobs [simp]:
  "qm_jobs (with_dispatch f q) = qm_jobs q" "qm_jobs (update_progress jid st q) = qm_jobs q"
  "qm_order (with_dispatch f q) = qm_order q" "qm_order (update_progress jid st q) = qm_order q"
  "qm_order (edit_job jid g q) = qm_order q" "qm_jobs (edit_job jid g q) = AList.map_entry jid g (qm_jobs q)"
  by (simp_all add: with_dispatch_def update_progress_def edit_job_def split: option.splits)

lemma status_simps [simp]:
  "job_status_of (set_status st s) = st" "job_status_of (set_error e s) = job_status_of s"
  "job_status_of (clear_failure s) = job_status_of s" "job_status_of (s\<lparr>js_tracker := t\<rparr>) = job_status_of s"
  "job_status_of (s\<lparr>js_persisted_status := ps\<rparr>) = job_status_of s" "job_status_of (s\<lparr>js_listening := l\<rparr>) = job_status_of s"
  "job_status_of (s\<lparr>js_failure_code := c\<rparr>) = job_status_of s" "job_status_of (s\<lparr>js_nzb_data := d\<rparr>) = job_status_of s"
  by (simp_all add: job_status_of_def set_status_def set_error_def clear_failure_def)

lemma status_load [simp]: "job_status_of (load_nzb E jid s) = job_status_of s"
  by (auto simp: load_nzb_def load_checkpoint_def restore_checkpoint_accounting_def restore_claimed_output_dir_def
      apply_checkpoint_def job_status_of_def split: option.splits)

lemma status_hold [simp]: "job_status_of (hold_for_space s) = JS_Paused"
  by (simp add: hold_for_space_def)

lemma count_entry_le:
  "(\<And>s. P (f s) \<Longrightarrow> P s) \<Longrightarrow>
    length (filter (\<lambda>(_, s). P s) (AList.map_entry k f xs)) \<le> length (filter (\<lambda>(_, s). P s) xs)"
  by (induction xs) (auto split: if_splits)

lemma count_entry_out:
  "map_of xs k = Some s \<Longrightarrow> P s \<Longrightarrow> \<not> P (f s) \<Longrightarrow>
    Suc (length (filter (\<lambda>(_, s). P s) (AList.map_entry k f xs))) = length (filter (\<lambda>(_, s). P s) xs)"
  by (induction xs) (auto split: if_splits)

lemma claim_scan_status:
  "(case best of Some (b, _) \<Rightarrow> has_status JS_Queued q b | None \<Rightarrow> True) \<Longrightarrow>
    fold (claim_scan q) ids best = Some (jid, p) \<Longrightarrow> has_status JS_Queued q jid"
proof (induction ids arbitrary: best)
  case (Cons i ids)
  show ?case
    by (rule Cons.IH[of "claim_scan q i best"])
      (use Cons.prems in \<open>auto simp: claim_scan_def split: option.splits if_splits\<close>)
qed (auto split: option.splits)

lemma best_claim_queued: "best_claim q = Some jid \<Longrightarrow> has_status JS_Queued q jid"
  using claim_scan_status[where best = None] by (auto simp: best_claim_def)

lemma claim_queued_count:
  assumes "claim_next_download_slot mx q = (Some jid, q')"
  shows "queued_count q' < queued_count q"
proof -
  have b: "best_claim q = Some jid" and q': "q' = edit_job jid (set_status JS_Downloading) q"
    using assms by (auto simp: claim_next_download_slot_def split: if_splits option.splits)
  obtain s where s: "map_of (qm_jobs q) jid = Some s" "job_status_of s = JS_Queued"
    using best_claim_queued[OF b] by (auto simp: has_status_def job_at_def split: option.splits)
  show ?thesis
    using count_entry_out[of "qm_jobs q" jid s "\<lambda>s. job_status_of s = JS_Queued" "set_status JS_Downloading"] s
    by (simp add: queued_count_def q')
qed

lemma start_job_queued_count: "queued_count (start_job D E jid q) \<le> queued_count q"
proof -
  have le: "queued_count (edit_job jid f r) \<le> queued_count r"
    if "\<And>s. job_status_of (f s) = JS_Queued \<Longrightarrow> job_status_of s = JS_Queued"
    for f and r :: "'a queue_manager"
    using count_entry_le[of "\<lambda>s. job_status_of s = JS_Queued" f jid "qm_jobs r"] that
    by (simp add: queued_count_def)
  have same: "queued_count (with_dispatch g r) = queued_count r" "queued_count (update_progress i st r) = queued_count r"
    for g i st and r :: "'a queue_manager"
    by (simp_all add: queued_count_def)
  have launch: "queued_count (launch_download D E jid q) \<le> queued_count q"
    using le[of "load_nzb E jid" q]
    by (auto simp: launch_download_def Let_def split: option.split
        intro!: order_trans[OF le] simp: same)
  have resume: "queued_count (resume_queued_context D E jid q) \<le> queued_count q"
    by (auto simp: resume_queued_context_def persist_status_def same intro!: order_trans[OF le] le)
  show ?thesis using launch resume by (simp add: start_job_def)
qed

function start_next_queued :: "'p dispatcher \<Rightarrow> queue_env \<Rightarrow> 'p queue_manager \<Rightarrow> 'p queue_manager" where
  "start_next_queued D E q =
    (case claim_next_download_slot (qm_max_active q) q of
       (None, q') \<Rightarrow> q'
     | (Some jid, q') \<Rightarrow> start_next_queued D E (start_job D E jid q'))"
  by pat_completeness auto

termination
proof (relation "measure (\<lambda>(D, E, q). queued_count q)", goal_cases)
  case (2 D E q x q' jid)
  then show ?case
    using claim_queued_count[of "qm_max_active q" q jid q'] start_job_queued_count[of D E jid q'] by simp
qed simp

declare start_next_queued.simps [simp del]

end
