(* ===== verification/Queue_Ops.thy ===== *)
theory Queue_Ops
  imports Queue_Manager
begin

text \<open>
  The operations of the queue manager on one job, on the queue order and on the download limit, and
  what it does when a download ends (\<open>crates/nzb-web/src/queue_manager.rs\<close>).
\<close>

section \<open>The download limit\<close>

text \<open>The downloading job to give up: the lowest priority, and among equals the last in the queue.\<close>

definition worst_scan ::
  "'p queue_manager \<Rightarrow> nat \<times> byte_string \<Rightarrow> (byte_string \<times> nat \<times> nat) option \<Rightarrow> (byte_string \<times> nat \<times> nat) option" where
  "worst_scan q entry worst =
    (case entry of (idx, jid) \<Rightarrow>
      if has_status JS_Downloading q jid \<and>
         (case worst of None \<Rightarrow> True
          | Some (_, wp, widx) \<Rightarrow> priority_of q jid < wp \<or> (priority_of q jid = wp \<and> widx < idx))
      then Some (jid, priority_of q jid, idx) else worst)"

definition worst_downloading :: "'p queue_manager \<Rightarrow> (byte_string \<times> nat \<times> nat) option" where
  "worst_downloading q = fold (worst_scan q) (enumerate 0 (qm_order q)) None"

definition best_scan ::
  "'p queue_manager \<Rightarrow> nat \<times> byte_string \<Rightarrow> (byte_string \<times> nat \<times> nat) option \<Rightarrow> (byte_string \<times> nat \<times> nat) option" where
  "best_scan q entry best =
    (case entry of (idx, jid) \<Rightarrow>
      if has_status JS_Queued q jid \<and>
         (case best of None \<Rightarrow> True
          | Some (_, bp, bidx) \<Rightarrow> bp < priority_of q jid \<or> (priority_of q jid = bp \<and> idx < bidx))
      then Some (jid, priority_of q jid, idx) else best)"

definition best_queued :: "'p queue_manager \<Rightarrow> (byte_string \<times> nat \<times> nat) option" where
  "best_queued q = fold (best_scan q) (enumerate 0 (qm_order q)) None"

definition queued_job_outranks_active :: "nat \<Rightarrow> nat \<Rightarrow> nat \<Rightarrow> nat \<Rightarrow> bool" where
  "queued_job_outranks_active queued_priority queued_index active_priority active_index \<longleftrightarrow>
    active_priority < queued_priority \<or> (queued_priority = active_priority \<and> queued_index < active_index)"

text \<open>A downloading job loses its slot: paused in the dispatcher, then given another status.\<close>

definition give_up_slot :: "'p dispatcher \<Rightarrow> byte_string \<Rightarrow> job_status \<Rightarrow> 'p queue_manager \<Rightarrow> 'p queue_manager" where
  "give_up_slot D jid st q =
    persist_status jid st (edit_job jid (set_status st) (with_dispatch (ds_pause_job D jid) q))"

lemma worst_scan_status:
  "(case w of Some (b, _) \<Rightarrow> has_status JS_Downloading q b | None \<Rightarrow> True) \<Longrightarrow>
    fold (worst_scan q) es w = Some (jid, p, i) \<Longrightarrow> has_status JS_Downloading q jid"
proof (induction es arbitrary: w)
  case (Cons e es)
  show ?case
    by (rule Cons.IH[of "worst_scan q e w"])
      (use Cons.prems in \<open>auto simp: worst_scan_def split: option.splits if_splits prod.splits\<close>)
qed (auto split: option.splits)

lemma worst_downloading_status: "worst_downloading q = Some (jid, p, i) \<Longrightarrow> has_status JS_Downloading q jid"
  using worst_scan_status[where w = None] by (auto simp: worst_downloading_def)

lemma give_up_slot_count:
  assumes "worst_downloading q = Some (jid, p, i)" "st \<noteq> JS_Downloading"
  shows "active_count (give_up_slot D jid st q) < active_count q"
proof -
  obtain s where s: "map_of (qm_jobs q) jid = Some s" "job_status_of s = JS_Downloading"
    using worst_downloading_status[OF assms(1)] by (auto simp: has_status_def job_at_def split: option.splits)
  have "Suc (active_count (edit_job jid (set_status st) q)) = active_count q"
    using count_entry_out[of "qm_jobs q" jid s "\<lambda>s. job_status_of s = JS_Downloading" "set_status st"] s assms(2)
    by (simp add: active_count_def)
  moreover have "active_count (give_up_slot D jid st q) \<le> active_count (edit_job jid (set_status st) q)"
    using count_entry_le[of "\<lambda>s. job_status_of s = JS_Downloading" "\<lambda>s. s\<lparr>js_persisted_status := Some st\<rparr>" jid
        "AList.map_entry jid (set_status st) (qm_jobs q)"]
    by (simp add: active_count_def give_up_slot_def persist_status_def)
  ultimately show ?thesis by simp
qed

function requeue_over_limit :: "'p dispatcher \<Rightarrow> 'p queue_manager \<Rightarrow> 'p queue_manager" where
  "requeue_over_limit D q =
    (if qm_max_active q = 0 \<or> active_count q \<le> qm_max_active q then q
     else (case worst_downloading q of
             None \<Rightarrow> q
           | Some (jid, _, _) \<Rightarrow> requeue_over_limit D (give_up_slot D jid JS_Queued q)))"
  by pat_completeness auto

termination
  by (relation "measure (\<lambda>(D, q). active_count q)") (auto intro: give_up_slot_count)

function preempt_if_needed :: "'p dispatcher \<Rightarrow> queue_env \<Rightarrow> 'p queue_manager \<Rightarrow> 'p queue_manager" where
  "preempt_if_needed D E q =
    (if qm_max_active q = 0 \<or> active_count q < qm_max_active q then start_next_queued D E q
     else (case (best_queued q, worst_downloading q) of
             (Some (_, q_pri, q_idx), Some (d_id, d_pri, d_idx)) \<Rightarrow>
               if queued_job_outranks_active q_pri q_idx d_pri d_idx
               then preempt_if_needed D E (give_up_slot D d_id JS_Paused q) else q
           | _ \<Rightarrow> q))"
  by pat_completeness auto

termination
  by (relation "measure (\<lambda>(D, E, q). active_count q)") (auto intro: give_up_slot_count simp: eq_commute[of "Some _"])

declare requeue_over_limit.simps [simp del] preempt_if_needed.simps [simp del]

definition set_max_active_downloads ::
  "'p dispatcher \<Rightarrow> queue_env \<Rightarrow> nat \<Rightarrow> 'p queue_manager \<Rightarrow> 'p queue_manager" where
  "set_max_active_downloads D E mx q =
    start_next_queued D E (requeue_over_limit D (q\<lparr>qm_max_active := mx\<rparr>))"

section \<open>The order\<close>

datatype sort_field = Sort_Remaining | Sort_Name | Sort_Size | Sort_Age | Sort_Priority

datatype ordering = Ord_Less | Ord_Equal | Ord_Greater

definition cmp_of :: "'a::linorder \<Rightarrow> 'a \<Rightarrow> ordering" where
  "cmp_of a b = (if a < b then Ord_Less else if a = b then Ord_Equal else Ord_Greater)"

fun ord_reverse :: "ordering \<Rightarrow> ordering" where
  "ord_reverse Ord_Less = Ord_Greater"
| "ord_reverse Ord_Equal = Ord_Equal"
| "ord_reverse Ord_Greater = Ord_Less"

definition remaining_of :: "nzb_job \<Rightarrow> nat \<times> nat" where
  "remaining_of job = (let tot = max (nj_total_bytes job) 1 in (tot - nj_downloaded_bytes job, tot))"

fun sort_compare :: "sort_field \<Rightarrow> nzb_job \<Rightarrow> nzb_job \<Rightarrow> ordering" where
  "sort_compare Sort_Remaining l r =
    (case (remaining_of l, remaining_of r) of ((lr, lt), (rr, rt)) \<Rightarrow> cmp_of (lr * rt) (rr * lt))"
| "sort_compare Sort_Name l r = cmp_of (lowercase (nj_name l)) (lowercase (nj_name r))"
| "sort_compare Sort_Size l r = cmp_of (nj_total_bytes l) (nj_total_bytes r)"
| "sort_compare Sort_Age l r = cmp_of (nj_added_at r) (nj_added_at l)"
| "sort_compare Sort_Priority l r = cmp_of (nj_priority l) (nj_priority r)"

definition sort_field_from_str :: "byte_string \<Rightarrow> sort_field option" where
  "sort_field_from_str v =
    (let w = lowercase v in
     if w = ''remaining'' then Some Sort_Remaining
     else if w = ''name'' then Some Sort_Name
     else if w = ''size'' \<or> w = ''bytes'' then Some Sort_Size
     else if w = ''age'' \<or> w = ''avg_age'' then Some Sort_Age
     else if w = ''priority'' then Some Sort_Priority
     else None)"

text \<open>\<open>slice::sort_by\<close>, a stable sort, by insertion from the right.\<close>

fun insert_by :: "('a \<Rightarrow> 'a \<Rightarrow> ordering) \<Rightarrow> 'a \<Rightarrow> 'a list \<Rightarrow> 'a list" where
  "insert_by c x [] = [x]"
| "insert_by c x (y # ys) = (if c x y = Ord_Greater then y # insert_by c x ys else x # y # ys)"

definition sort_by :: "('a \<Rightarrow> 'a \<Rightarrow> ordering) \<Rightarrow> 'a list \<Rightarrow> 'a list" where
  "sort_by c xs = foldr (insert_by c) xs []"

definition compare_ids :: "sort_field \<Rightarrow> bool \<Rightarrow> 'p queue_manager \<Rightarrow> byte_string \<Rightarrow> byte_string \<Rightarrow> ordering" where
  "compare_ids field ascending q l r =
    (let c = (case (job_at q l, job_at q r) of
                (Some a, Some b) \<Rightarrow> sort_compare field (js_job a) (js_job b)
              | _ \<Rightarrow> Ord_Equal)
     in if ascending then c else ord_reverse c)"

definition sort_queue :: "sort_field \<Rightarrow> bool \<Rightarrow> 'p queue_manager \<Rightarrow> 'p queue_manager" where
  "sort_queue field ascending q = q\<lparr>qm_order := sort_by (compare_ids field ascending q) (qm_order q)\<rparr>"

definition set_job_priority ::
  "'p dispatcher \<Rightarrow> queue_env \<Rightarrow> byte_string \<Rightarrow> priority \<Rightarrow> 'p queue_manager \<Rightarrow> queue_error option \<times> 'p queue_manager" where
  "set_job_priority D E jid pri q =
    (case job_at q jid of
       None \<Rightarrow> (Some (QE_JobNotFound jid), q)
     | Some _ \<Rightarrow>
         let q1 = edit_job jid (\<lambda>s. s\<lparr>js_job := (js_job s)\<lparr>nj_priority := pri\<rparr>\<rparr>) q in
         if \<not> qe_db_ok E then (Some QE_Database, q1)
         else
           let q2 = q1\<lparr>qm_rows := AList.map_entry jid (\<lambda>r. r\<lparr>qr_priority := pri\<rparr>) (qm_rows q1)\<rparr>;
               q3 = q2\<lparr>qm_order := sort_by (\<lambda>a b. cmp_of (priority_of q2 b) (priority_of q2 a)) (qm_order q2)\<rparr>
           in (None, start_next_queued D E q3))"

definition insert_at :: "nat \<Rightarrow> 'a \<Rightarrow> 'a list \<Rightarrow> 'a list" where
  "insert_at n x xs = take n xs @ x # drop n xs"

definition move_job ::
  "'p dispatcher \<Rightarrow> queue_env \<Rightarrow> byte_string \<Rightarrow> nat \<Rightarrow> 'p queue_manager \<Rightarrow> queue_error option \<times> 'p queue_manager" where
  "move_job D E jid pos q =
    (case position (\<lambda>x. x = jid) (qm_order q) of
       None \<Rightarrow> (Some (QE_JobNotFound jid), q)
     | Some i \<Rightarrow>
         let rest = take i (qm_order q) @ drop (i + 1) (qm_order q)
         in (None, preempt_if_needed D E (q\<lparr>qm_order := insert_at (min pos (length rest)) jid rest\<rparr>)))"

section \<open>One job\<close>

definition persist_global_jobs :: "'p queue_manager \<Rightarrow> 'p queue_manager" where
  "persist_global_jobs q = q\<lparr>qm_settings := (qm_settings q)\<lparr>ps_global_jobs := Some (qm_global_jobs q)\<rparr>\<rparr>"

definition activate_admitted_job ::
  "'p dispatcher \<Rightarrow> queue_env \<Rightarrow> nzb_job \<Rightarrow> bytes option \<Rightarrow> 'p queue_manager \<Rightarrow> 'p queue_manager" where
  "activate_admitted_job D E job nzb_data q =
    (let insert_as = (\<lambda>st. q\<lparr>qm_jobs := AList.update (nj_id job)
             (job_state_new (job\<lparr>nj_status := st\<rparr>) nzb_data (nj_downloaded_bytes job)) (qm_jobs q)\<rparr>);
         push = (\<lambda>q. q\<lparr>qm_order := qm_order q @ [nj_id job]\<rparr>);
         requested_paused = (nj_status job = JS_Paused)
     in if requested_paused \<or> qm_globally_paused q then
          let q1 = insert_as JS_Paused in
          push (if requested_paused then q1
                else persist_global_jobs (q1\<lparr>qm_global_jobs := insert (nj_id job) (qm_global_jobs q1)\<rparr>))
        else start_next_queued D E (push (insert_as JS_Queued)))"

definition queue_pause_job ::
  "'p dispatcher \<Rightarrow> queue_env \<Rightarrow> byte_string \<Rightarrow> 'p queue_manager \<Rightarrow> queue_error option \<times> 'p queue_manager" where
  "queue_pause_job D E jid q =
    (let q1 = with_dispatch (ds_pause_job D jid) q in
     case job_at q1 jid of
       None \<Rightarrow> (Some (QE_JobNotFound jid), q1)
     | Some _ \<Rightarrow>
         let q2 = edit_job jid (\<lambda>s.
               let s1 = set_status JS_Paused s;
                   s2 = (if js_failure_code s1 = Some FC_StorageUnavailable then clear_failure s1 else s1)
               in s2\<lparr>js_persisted_status := Some JS_Paused\<rparr>) q1
         in if \<not> qe_db_ok E then (Some QE_Database, q2)
            else
              let q3 = update_progress jid JS_Paused q2;
                  q4 = persist_global_jobs (q3\<lparr>qm_global_jobs := qm_global_jobs q3 - {jid}\<rparr>)
              in (None, start_next_queued D E q4))"

definition queue_resume_job ::
  "'p dispatcher \<Rightarrow> queue_env \<Rightarrow> byte_string \<Rightarrow> 'p queue_manager \<Rightarrow> queue_error option \<times> 'p queue_manager" where
  "queue_resume_job D E jid q =
    (if qm_globally_paused q
     then (Some (QE_Other ''Cannot resume an individual job while downloads are globally paused''), q)
     else
       let ctx_alive = ds_has_job D jid (qm_dispatch q) in
       case job_at q jid of
         None \<Rightarrow> (Some (QE_JobNotFound jid), q)
       | Some _ \<Rightarrow>
           if 0 < qm_max_active q \<and> qm_max_active q \<le> active_count q
           then (None, persist_status jid JS_Queued (edit_job jid (set_status JS_Queued) q))
           else if ctx_alive
           then (None, with_dispatch (ds_resume_job D jid)
                  (persist_status jid JS_Downloading
                    (edit_job jid (\<lambda>s. clear_failure (set_status JS_Downloading s)
                       \<lparr>js_tracker := map_option (reset_progress_clock (qe_now E)) (js_tracker s)\<rparr>) q)))
           else (None, launch_download D E jid (edit_job jid (\<lambda>s. clear_failure (set_status JS_Downloading s)) q)))"

definition in_post_processing :: "job_status \<Rightarrow> bool" where
  "in_post_processing st \<longleftrightarrow> st \<in> {JS_PostProcessing, JS_Verifying, JS_Repairing, JS_Extracting}"

text \<open>The history row kept of a job that is removed while it shows an error.\<close>

definition removed_entry :: "queue_env \<Rightarrow> job_state \<Rightarrow> history_entry" where
  "removed_entry E s =
    (let job = js_job s in
     \<lparr>he_id = nj_id job, he_name = nj_name job, he_category = nj_category job, he_status = JS_Failed,
      he_total_bytes = nj_total_bytes job, he_downloaded_bytes = nj_downloaded_bytes job,
      he_added_at = nj_added_at job,
      he_completed_at = (case nj_completed_at job of Some t \<Rightarrow> t | None \<Rightarrow> qe_now E),
      he_download_time_secs = js_download_time_secs s, he_output_dir = nj_output_dir job, he_stages = [],
      he_error_message = nj_error_message job,
      he_failure_code = Some (case js_failure_code s of Some c \<Rightarrow> c | None \<Rightarrow> FC_DownloadFailed),
      he_post_processing = Some (qe_pp_level E job), he_delete_archives = nj_delete_archives job,
      he_server_stats = nj_server_stats job, he_par2_volumes_fetched = None, he_par2_volumes_available = None,
      he_nzb_data = js_nzb_data s, he_retry_data = None\<rparr>)"

definition queue_remove_job ::
  "'p dispatcher \<Rightarrow> queue_env \<Rightarrow> byte_string \<Rightarrow> 'p queue_manager \<Rightarrow> queue_error option \<times> 'p queue_manager" where
  "queue_remove_job D E jid q =
    (if (case job_at q jid of Some s \<Rightarrow> in_post_processing (job_status_of s) | None \<Rightarrow> False) then (None, q)
     else
       let q1 = with_dispatch (ds_cancel_job D jid) q in
       case job_at q1 jid of
         None \<Rightarrow> (None, q1)
       | Some s \<Rightarrow>
           let q2 = persist_global_jobs (q1\<lparr>qm_jobs := AList.delete jid (qm_jobs q1),
                      qm_global_jobs := qm_global_jobs q1 - {jid}\<rparr>)
           in if \<not> qe_db_ok E then (Some QE_Database, q2)
              else
                let persisted = list_ex (\<lambda>h. he_id h = jid) (qm_history q2);
                    q3 = (if nj_error_message (js_job s) \<noteq> None \<and> \<not> persisted
                          then q2\<lparr>qm_history := qm_history q2 @ [removed_entry E s]\<rparr> else q2)
                in (None, q3\<lparr>qm_rows := AList.delete jid (qm_rows q3),
                              qm_order := filter (\<lambda>x. x \<noteq> jid) (qm_order q3)\<rparr>))"

section \<open>Progress of a download\<close>

text \<open>The arms \<open>WaitingForProviders\<close> and \<open>ProvidersAvailable\<close> of \<open>handle_progress\<close>.\<close>

definition on_waiting_for_providers :: "byte_string \<Rightarrow> byte_string \<Rightarrow> 'p queue_manager \<Rightarrow> 'p queue_manager" where
  "on_waiting_for_providers jid msg q = edit_job jid (set_error (Some msg)) q"

definition on_providers_available :: "byte_string \<Rightarrow> 'p queue_manager \<Rightarrow> 'p queue_manager" where
  "on_providers_available jid q =
    edit_job jid (\<lambda>s.
      case nj_error_message (js_job s) of
        Some m \<Rightarrow> if starts_with ''Waiting for providers:'' m then clear_failure s else s
      | None \<Rightarrow> s) q"

definition par2_volume_counts :: "nzb_job \<Rightarrow> byte_string list \<Rightarrow> (nat \<times> nat) option" where
  "par2_volume_counts job held =
    (let volumes = filter (\<lambda>f. ends_with ''.par2'' (lowercase (jf_filename f)) \<and>
             str_contains ''.vol'' (lowercase (jf_filename f))) (nj_files job);
         available = length volumes;
         held_n = length (filter (\<lambda>f. jf_id f \<in> set held) volumes)
     in if 0 < available then Some (available - held_n, available) else None)"

text \<open>
  \<open>finish_aborted\<close> up to the release of the slot, and the arm \<open>JobFinished\<close> up to post-processing.
  The history row \<open>move_to_history\<close> writes and the files it moves are left out.
\<close>

definition finish_aborted ::
  "'p dispatcher \<Rightarrow> queue_env \<Rightarrow> byte_string \<Rightarrow> byte_string \<Rightarrow> nat \<Rightarrow> rat \<Rightarrow> 'p queue_manager \<Rightarrow> 'p queue_manager" where
  "finish_aborted D E jid reason failed secs q =
    start_next_queued D E
      (edit_job jid (\<lambda>s.
           let s1 = set_error (Some reason) (set_status JS_Failed s) in
           s1\<lparr>js_download_time_secs := Some (js_prior_download_secs s + secs),
              js_failure_code := Some FC_ArticlesUnavailable,
              js_job := (js_job s1)\<lparr>nj_articles_failed := max (nj_articles_failed (js_job s1)) failed,
                                    nj_completed_at := Some (qe_now E)\<rparr>\<rparr>)
        (with_dispatch (ds_release_completed_job D jid) q))"

definition end_diagnosis :: "bool \<Rightarrow> slice_map_summary option \<Rightarrow> job_state option \<Rightarrow> byte_string option" where
  "end_diagnosis abort_hopeless smap js =
    (if \<not> abort_hopeless then None
     else
       (case (smap, Option.bind js js_tracker) of
          (Some m, Some tr) \<Rightarrow>
            parity_diagnosis m (if ht_blocks_known tr then Some (recovery_blocks_available tr) else None)
        | _ \<Rightarrow> None))"

definition on_job_finished_update ::
  "'p dispatcher \<Rightarrow> queue_env \<Rightarrow> bool \<Rightarrow> byte_string \<Rightarrow> slice_map_summary option \<Rightarrow> nat \<Rightarrow> rat \<Rightarrow> byte_string option \<Rightarrow>
   'p queue_manager \<Rightarrow> 'p queue_manager" where
  "on_job_finished_update D E abort_hopeless jid smap failed secs incomplete q =
    (case end_diagnosis abort_hopeless smap (job_at q jid) of
       Some d \<Rightarrow>
         finish_aborted D E jid (''Aborted: '' @ d) failed secs
           (edit_job jid (\<lambda>s. s\<lparr>js_job := (js_job s)\<lparr>nj_slice_map := smap\<rparr>\<rparr>) q)
     | None \<Rightarrow>
         let held = (case ds_held_par2_files D jid (qm_dispatch q) of Some fs \<Rightarrow> fs | None \<Rightarrow> []) in
         start_next_queued D E
           (edit_job jid (\<lambda>s.
                let s1 = set_status JS_PostProcessing s;
                    s2 = (case incomplete of Some note \<Rightarrow> set_error (Some note) s1 | None \<Rightarrow> s1)
                in s2\<lparr>js_download_time_secs := Some (js_prior_download_secs s + secs),
                      js_par2_volumes := par2_volume_counts (js_job s2) held,
                      js_job := (js_job s2)\<lparr>nj_completed_at := Some (qe_now E), nj_slice_map := smap\<rparr>\<rparr>)
             (with_dispatch (ds_release_completed_job D jid) q)))"

text \<open>The task that drops a terminal job from the list eight seconds later.\<close>

definition forget_job :: "byte_string \<Rightarrow> 'p queue_manager \<Rightarrow> 'p queue_manager" where
  "forget_job jid q =
    q\<lparr>qm_jobs := AList.delete jid (qm_jobs q), qm_order := filter (\<lambda>x. x \<noteq> jid) (qm_order q)\<rparr>"

definition queue_drained_by :: "'p queue_manager \<Rightarrow> byte_string \<Rightarrow> bool" where
  "queue_drained_by q jid \<longleftrightarrow>
    job_at q jid \<noteq> None \<and>
    list_all (\<lambda>(i, s). i = jid \<or> job_status_of s = JS_Completed \<or> job_status_of s = JS_Failed) (qm_jobs q)"

section \<open>Queries\<close>

definition MIN_JOB_ID_PREFIX_LEN :: nat where "MIN_JOB_ID_PREFIX_LEN = 12"

definition job_id_matches :: "byte_string \<Rightarrow> byte_string \<Rightarrow> bool" where
  "job_id_matches jid requested \<longleftrightarrow>
    requested \<noteq> [] \<and> (jid = requested \<or> (MIN_JOB_ID_PREFIX_LEN \<le> length requested \<and> starts_with requested jid))"

definition get_jobs :: "'p queue_manager \<Rightarrow> nzb_job list" where
  "get_jobs q = map js_job (List.map_filter (job_at q) (qm_order q))"

definition get_active_jobs :: "'p queue_manager \<Rightarrow> nzb_job list" where
  "get_active_jobs q = filter (\<lambda>job. nj_status job \<notin> {JS_Completed, JS_Failed}) (get_jobs q)"

definition queue_size :: "'p queue_manager \<Rightarrow> nat" where
  "queue_size q = length (filter (\<lambda>(_, s). job_status_of s \<notin> {JS_Completed, JS_Failed}) (qm_jobs q))"

definition global_pause_reason :: "'p queue_manager \<Rightarrow> pause_reason option" where
  "global_pause_reason q = (if \<not> qm_globally_paused q then None else holds_reason (qm_holds q))"

definition pause_reason_of :: "byte_string \<Rightarrow> 'p queue_manager \<Rightarrow> pause_reason option" where
  "pause_reason_of jid q =
    (case job_at q jid of
       None \<Rightarrow> None
     | Some s \<Rightarrow>
         if job_status_of s \<noteq> JS_Paused then None
         else if js_failure_code s = Some FC_StorageUnavailable then Some PR_DiskSpace
         else if jid \<in> qm_global_jobs q
         then Some (case global_pause_reason q of Some r \<Rightarrow> r | None \<Rightarrow> PR_Global)
         else Some (if nj_error_message (js_job s) \<noteq> None then PR_Server else PR_Manual))"

end
