(* ===== verification/Queue_Global.thy ===== *)
theory Queue_Global
  imports Queue_Ops
begin

text \<open>
  Pausing and resuming the whole queue, the timed pause, the schedule, the disk guard and the server
  list, and the queue across a restart (\<open>crates/nzb-web/src/queue_manager.rs\<close>).  Each method holds
  \<open>pause_transition\<close> from its first line to its last.
\<close>

section \<open>Holds\<close>

definition publish_holds :: "pause_holds \<Rightarrow> 'p queue_manager \<Rightarrow> 'p queue_manager" where
  "publish_holds h q =
    q\<lparr>qm_holds := h, qm_globally_paused := holds_any h, qm_settings := persist_holds h (qm_settings q)\<rparr>"

definition is_startable :: "job_state \<Rightarrow> bool" where
  "is_startable s \<longleftrightarrow> job_status_of s = JS_Downloading \<or> job_status_of s = JS_Queued"

definition pause_jobs_for_global_hold :: "'p dispatcher \<Rightarrow> 'p queue_manager \<Rightarrow> 'p queue_manager" where
  "pause_jobs_for_global_hold D q =
    (let to_pause = map fst (filter (\<lambda>(_, s). is_startable s) (qm_jobs q));
         q1 = q\<lparr>qm_jobs := map (\<lambda>(i, s). (i, if is_startable s then set_status JS_Paused s else s)) (qm_jobs q)\<rparr>;
         q2 = persist_global_jobs (q1\<lparr>qm_global_jobs := qm_global_jobs q1 \<union> set to_pause\<rparr>)
     in with_dispatch (fold (ds_pause_job D) to_pause) q2)"

definition unpause_job :: "job_state \<Rightarrow> job_state" where
  "unpause_job s = (if job_status_of s = JS_Paused then set_status JS_Queued (clear_failure s) else s)"

definition resume_jobs_after_holds :: "'p dispatcher \<Rightarrow> queue_env \<Rightarrow> 'p queue_manager \<Rightarrow> 'p queue_manager" where
  "resume_jobs_after_holds D E q =
    (let paused_by_global = qm_global_jobs q;
         q1 = persist_global_jobs (q\<lparr>qm_pause_until := None, qm_global_jobs := {}\<rparr>)
     in start_next_queued D E
          (q1\<lparr>qm_jobs := map (\<lambda>(i, s). (i, if i \<in> paused_by_global then unpause_job s else s)) (qm_jobs q1)\<rparr>))"

definition pause_for_hold ::
  "'p dispatcher \<Rightarrow> (pause_holds \<Rightarrow> pause_holds) \<Rightarrow> 'p queue_manager \<Rightarrow> 'p queue_manager" where
  "pause_for_hold D f q =
    (let q1 = q\<lparr>qm_pause_until := None\<rparr>;
         was_paused = qm_globally_paused q1;
         q2 = publish_holds (cover_windows (f (qm_holds q1))) q1
     in if was_paused then q2 else pause_jobs_for_global_hold D q2)"

definition pause_all :: "'p dispatcher \<Rightarrow> 'p queue_manager \<Rightarrow> 'p queue_manager" where
  "pause_all D q = pause_for_hold D hold_user q"

definition pause_all_with_hold :: "'p dispatcher \<Rightarrow> millis option \<Rightarrow> 'p queue_manager \<Rightarrow> 'p queue_manager" where
  "pause_all_with_hold D since q = pause_for_hold D (hold_disk since) q"

definition resume_hold ::
  "'p dispatcher \<Rightarrow> queue_env \<Rightarrow> (pause_holds \<Rightarrow> pause_holds) \<Rightarrow> 'p queue_manager \<Rightarrow> 'p queue_manager" where
  "resume_hold D E f q =
    (let q1 = publish_holds (f (qm_holds q)) q
     in if holds_any (qm_holds q1) then q1 else resume_jobs_after_holds D E q1)"

definition resume_all :: "'p dispatcher \<Rightarrow> queue_env \<Rightarrow> 'p queue_manager \<Rightarrow> 'p queue_manager" where
  "resume_all D E q = resume_hold D E lift_all q"

definition clear_disk_hold :: "'p dispatcher \<Rightarrow> queue_env \<Rightarrow> 'p queue_manager \<Rightarrow> 'p queue_manager" where
  "clear_disk_hold D E q = resume_hold D E lift_disk q"

section \<open>Schedule and timed pause\<close>

definition apply_schedule_hold ::
  "'p dispatcher \<Rightarrow> queue_env \<Rightarrow> byte_string list \<Rightarrow> 'p queue_manager \<Rightarrow> 'p queue_manager" where
  "apply_schedule_hold D E windows q =
    (let before = qm_holds q;
         h = schedule_hold windows before;
         paused = qm_globally_paused q;
         pause_requested = (ph_schedule h \<and> \<not> ph_schedule before \<and> \<not> paused);
         resume_requested = (\<not> ph_schedule h \<and> ph_schedule before \<and> \<not> holds_any h);
         q1 = (if h \<noteq> before then publish_holds h q else q);
         q2 = (if pause_requested then pause_jobs_for_global_hold D q1 else q1)
     in if resume_requested then resume_jobs_after_holds D E q2 else q2)"

definition expire_user_hold :: "'p dispatcher \<Rightarrow> queue_env \<Rightarrow> 'p queue_manager \<Rightarrow> 'p queue_manager" where
  "expire_user_hold D E q =
    (let before = qm_holds q;
         h = expire_hold before;
         pause_requested = (ph_schedule h \<and> \<not> ph_schedule before \<and> \<not> qm_globally_paused q);
         q1 = publish_holds h q
     in if pause_requested then pause_jobs_for_global_hold D q1
        else if \<not> holds_any h then resume_jobs_after_holds D E q1
        else q1)"

text \<open>\<open>pause_for\<close>, and its timer, which carries the deadline it was started with.\<close>

definition MAX_PAUSE_SECS :: nat where "MAX_PAUSE_SECS = 365 * 24 * 60 * 60"

definition pause_deadline :: "millis \<Rightarrow> nat \<Rightarrow> millis" where
  "pause_deadline now secs = now + 1000 * min secs MAX_PAUSE_SECS"

definition pause_for :: "'p dispatcher \<Rightarrow> queue_env \<Rightarrow> nat \<Rightarrow> 'p queue_manager \<Rightarrow> 'p queue_manager" where
  "pause_for D E secs q = (pause_all D q)\<lparr>qm_pause_until := Some (pause_deadline (qe_now E) secs)\<rparr>"

definition pause_timer_fires :: "'p dispatcher \<Rightarrow> queue_env \<Rightarrow> millis \<Rightarrow> 'p queue_manager \<Rightarrow> 'p queue_manager" where
  "pause_timer_fires D E until q =
    (if qm_pause_until q = Some until then expire_user_hold D E (q\<lparr>qm_pause_until := None\<rparr>) else q)"

definition pause_remaining_secs :: "millis \<Rightarrow> 'p queue_manager \<Rightarrow> nat option" where
  "pause_remaining_secs now q = map_option (\<lambda>u. (u - now) div 1000) (qm_pause_until q)"

section \<open>Servers and disk space\<close>

definition resume_server_paused_jobs :: "'p dispatcher \<Rightarrow> queue_env \<Rightarrow> 'p queue_manager \<Rightarrow> 'p queue_manager" where
  "resume_server_paused_jobs D E q =
    (if qm_globally_paused q then q
     else
       let held = (\<lambda>s. job_status_of s = JS_Paused \<and> nj_error_message (js_job s) \<noteq> None);
           q1 = q\<lparr>qm_jobs := map (\<lambda>(i, s). (i, if held s then unpause_job s else s)) (qm_jobs q)\<rparr>
       in if list_ex (\<lambda>(_, s). held s) (qm_jobs q) then start_next_queued D E q1 else q1)"

definition server_overlay :: "server_id list \<Rightarrow> server_config list \<Rightarrow> server_config list" where
  "server_overlay disabled servers =
    map (\<lambda>s. if list_ex (\<lambda>i. i = sc_id s) disabled then s\<lparr>sc_enabled := False\<rparr> else s) servers"

definition apply_server_overlay ::
  "'p dispatcher \<Rightarrow> queue_env \<Rightarrow> (server_config list \<Rightarrow> 'p \<Rightarrow> 'p) \<Rightarrow> server_id list \<Rightarrow> server_config list \<Rightarrow>
   'p queue_manager \<Rightarrow> 'p queue_manager" where
  "apply_server_overlay D E update_servers disabled configured q =
    (let effective = server_overlay disabled configured;
         q1 = with_dispatch (update_servers effective) q
     in if 0 < length (filter sc_enabled effective) then resume_server_paused_jobs D E q1 else q1)"

definition storage_held :: "job_state \<Rightarrow> bool" where
  "storage_held s \<longleftrightarrow> job_status_of s = JS_Paused \<and> js_failure_code s = Some FC_StorageUnavailable"

definition resume_storage_held_jobs :: "'p dispatcher \<Rightarrow> queue_env \<Rightarrow> 'p queue_manager \<Rightarrow> 'p queue_manager" where
  "resume_storage_held_jobs D E q =
    (if qm_globally_paused q then q
     else
       let q1 = q\<lparr>qm_jobs := map (\<lambda>(i, s). (i, if storage_held s then unpause_job s else s)) (qm_jobs q)\<rparr>
       in if list_ex (\<lambda>(_, s). storage_held s) (qm_jobs q) then start_next_queued D E q1 else q1)"

definition enforce_disk_guard ::
  "'p dispatcher \<Rightarrow> queue_env \<Rightarrow> bool \<Rightarrow> 'p queue_manager \<Rightarrow> 'p queue_manager" where
  "enforce_disk_guard D E space_available q =
    (if \<not> space_available
     then (if ph_disk (qm_holds q) = None then pause_all_with_hold D (Some (qe_now E)) q else q)
     else
       resume_storage_held_jobs D E
         (if ph_disk (qm_holds q) \<noteq> None then clear_disk_hold D E q else q))"

section \<open>Start-up\<close>

text \<open>One job of \<open>restore_from_db\<close>; \<open>persisted\<close> is the list of globally paused jobs, if one was written.\<close>

definition restored_state :: "queue_env \<Rightarrow> nzb_job \<Rightarrow> job_state" where
  "restored_state E job0 =
    (let was_pp = in_post_processing (nj_status job0);
         job = (if was_pp then job0\<lparr>nj_status := JS_PostProcessing\<rparr> else job0);
         was_active = (nj_status job = JS_Downloading);
         s = (job_state_new job (if was_active then qe_nzb_row E (nj_id job) else None) 0)
     in if was_active then
          (let job1 = (case js_nzb_data s of
                         Some data \<Rightarrow> (case qe_parse E (nj_name job) data of
                                         Some files \<Rightarrow> job\<lparr>nj_files := files\<rparr> | None \<Rightarrow> job)
                       | None \<Rightarrow> job)
           in case qe_checkpoint E (nj_id job) of
                None \<Rightarrow> s\<lparr>js_job := job1\<rparr>
              | Some cp \<Rightarrow>
                  (case restore_claimed_output_dir (qe_is_dir E) cp (apply_checkpoint cp job1) of
                     (job2, claimed) \<Rightarrow>
                       (case restore_checkpoint_accounting cp job2 of
                          (job3, prior, carried) \<Rightarrow>
                            s\<lparr>js_job := job3, js_output_dir_claimed := claimed, js_prior_download_secs := prior,
                              js_carried_bytes := carried\<rparr>)))
        else if was_pp then
          (case qe_checkpoint E (nj_id job) of
             None \<Rightarrow> s
           | Some cp \<Rightarrow>
               (case restore_claimed_output_dir (qe_is_dir E) cp job of
                  (job2, claimed) \<Rightarrow>
                    (case restore_checkpoint_accounting cp job2 of
                       (job3, prior, carried) \<Rightarrow>
                         s\<lparr>js_job := job3, js_output_dir_claimed := claimed, js_prior_download_secs := prior,
                           js_carried_bytes := carried,
                           js_download_time_secs := (if 0 < prior then Some prior else None)\<rparr>)))
        else s)"

definition restore_job ::
  "queue_env \<Rightarrow> bool \<Rightarrow> byte_string set option \<Rightarrow> nzb_job \<Rightarrow> 'p queue_manager \<Rightarrow> 'p queue_manager" where
  "restore_job E was_paused persisted job q =
    (let s = restored_state E job;
         jid = nj_id job;
         paused_by_global = (was_paused \<and>
           (case persisted of None \<Rightarrow> job_status_of s = JS_Paused | Some ids \<Rightarrow> jid \<in> ids));
         s' = (if paused_by_global then set_status JS_Paused s
               else if job_status_of s = JS_Downloading then set_status JS_Queued s else s)
     in q\<lparr>qm_global_jobs := (if paused_by_global then insert jid (qm_global_jobs q) else qm_global_jobs q),
          qm_jobs := AList.update jid s' (qm_jobs q),
          qm_order := qm_order q @ [jid]\<rparr>)"

definition restore_from_db ::
  "'p dispatcher \<Rightarrow> queue_env \<Rightarrow> nzb_job list \<Rightarrow> 'p queue_manager \<Rightarrow> 'p queue_manager" where
  "restore_from_db D E jobs q =
    (let was_paused = flag_of (ps_globally_paused (qm_settings q));
         h = restore_holds (qm_settings q);
         q1 = q\<lparr>qm_holds := h, qm_globally_paused := holds_any h\<rparr>
     in if jobs = [] then q1
        else start_next_queued D E (fold (restore_job E was_paused (ps_global_jobs (qm_settings q))) jobs q1))"

end
