(* ===== verification/Queue_Inv.thy ===== *)
theory Queue_Inv
  imports Queue_Global
begin

text \<open>
  The invariant of the queue manager over any sequence of its operations, proved against the laws of a
  dispatcher: which jobs the dispatcher may be fetching, the download limit and the global gate.
\<close>

section \<open>States in terms of lookups\<close>

definition with_status :: "job_status \<Rightarrow> 'p queue_manager \<Rightarrow> byte_string set" where
  "with_status st q = {jid. has_status st q jid}"

abbreviation downloading :: "'p queue_manager \<Rightarrow> byte_string set" where
  "downloading \<equiv> with_status JS_Downloading"

definition job_keys :: "'p queue_manager \<Rightarrow> byte_string list" where
  "job_keys q = map fst (qm_jobs q)"

lemma has_status_edit [simp]:
  "has_status st (edit_job jid f q) j \<longleftrightarrow>
    (if j = jid then (case job_at q jid of Some s \<Rightarrow> job_status_of (f s) = st | None \<Rightarrow> False) else has_status st q j)"
  by (auto simp: has_status_def job_at_def map_of_map_entry split: option.splits)

lemma job_at_edit: "job_at (edit_job jid f q) j = (if j = jid then map_option f (job_at q jid) else job_at q j)"
  by (auto simp: job_at_def map_of_map_entry split: option.splits)

lemma frame_edit [simp]:
  "qm_max_active (edit_job jid f q) = qm_max_active q" "qm_globally_paused (edit_job jid f q) = qm_globally_paused q"
  "qm_holds (edit_job jid f q) = qm_holds q" "qm_dispatch (edit_job jid f q) = qm_dispatch q"
  "qm_global_jobs (edit_job jid f q) = qm_global_jobs q"
  "qm_max_active (with_dispatch g q) = qm_max_active q"
  "qm_globally_paused (with_dispatch g q) = qm_globally_paused q" "qm_holds (with_dispatch g q) = qm_holds q"
  "qm_dispatch (with_dispatch g q) = g (qm_dispatch q)" "qm_global_jobs (with_dispatch g q) = qm_global_jobs q"
  "qm_max_active (update_progress jid st q) = qm_max_active q"
  "qm_globally_paused (update_progress jid st q) = qm_globally_paused q"
  "qm_holds (update_progress jid st q) = qm_holds q" "qm_dispatch (update_progress jid st q) = qm_dispatch q"
  "qm_global_jobs (update_progress jid st q) = qm_global_jobs q"
  by (simp_all add: edit_job_def with_dispatch_def update_progress_def split: option.splits)

lemma frame_persist [simp]:
  "qm_jobs (persist_global_jobs q) = qm_jobs q" "qm_order (persist_global_jobs q) = qm_order q"
  "qm_max_active (persist_global_jobs q) = qm_max_active q" "qm_holds (persist_global_jobs q) = qm_holds q"
  "qm_globally_paused (persist_global_jobs q) = qm_globally_paused q"
  "qm_dispatch (persist_global_jobs q) = qm_dispatch q" "qm_global_jobs (persist_global_jobs q) = qm_global_jobs q"
  by (simp_all add: persist_global_jobs_def)

lemma job_at_frame [simp]:
  "job_at (update_progress jid st q) = job_at q" "job_at (with_dispatch g q) = job_at q"
  "job_at (persist_global_jobs q) = job_at q"
  by (simp_all add: job_at_def fun_eq_iff)

text \<open>What the invariant reads of a state, so that a change elsewhere does not matter.\<close>

lemma status_cong: "qm_jobs q' = qm_jobs q \<Longrightarrow> has_status st q' = has_status st q"
  by (simp add: has_status_def job_at_def fun_eq_iff)

lemma map_of_mapped: "map_of (map (\<lambda>(i, s). (i, g i s)) xs) j = map_option (g j) (map_of xs j)"
  by (induction xs) auto

lemma keys_mapped [simp]: "map fst (map (\<lambda>(i, s). (i, g i s)) xs) = map fst xs"
  by (induction xs) auto

lemma keys_entry [simp]: "map fst (AList.map_entry jid f xs) = map fst xs"
  by (induction xs) auto

lemma has_status_iff: "has_status st q jid \<longleftrightarrow> (\<exists>s. job_at q jid = Some s \<and> job_status_of s = st)"
  by (auto simp: has_status_def split: option.splits)

lemma finite_with_status [simp]: "finite (with_status st q)"
  by (rule finite_subset[OF _ finite_dom_map_of[of "qm_jobs q"]])
    (auto simp: with_status_def has_status_iff job_at_def)

lemma active_count_card:
  assumes "distinct (job_keys q)"
  shows "active_count q = card (downloading q)"
proof -
  let ?P = "\<lambda>(i, s). job_status_of s = JS_Downloading"
  have "downloading q = fst ` set (filter ?P (qm_jobs q))"
    using map_of_eq_Some_iff[of "qm_jobs q"] assms
    by (auto simp: with_status_def has_status_iff job_at_def job_keys_def image_iff)
  moreover have "distinct (map fst (filter ?P (qm_jobs q)))"
    using assms by (simp add: job_keys_def distinct_map_filter)
  ultimately show ?thesis
    by (metis active_count_def distinct_card length_map list.set_map)
qed

section \<open>The invariant\<close>

definition queue_shape :: "'p queue_manager \<Rightarrow> bool" where
  "queue_shape q \<longleftrightarrow>
    distinct (job_keys q) \<and> distinct (qm_order q) \<and> set (job_keys q) \<subseteq> set (qm_order q) \<and>
    (\<forall>jid s. job_at q jid = Some s \<longrightarrow> nj_id (js_job s) = jid)"

definition gate_ok :: "'p queue_manager \<Rightarrow> bool" where
  "gate_ok q \<longleftrightarrow>
    qm_globally_paused q = holds_any (qm_holds q) \<and>
    (qm_globally_paused q \<longrightarrow> downloading q = {})"

definition limit_ok :: "'p queue_manager \<Rightarrow> bool" where
  "limit_ok q \<longleftrightarrow> (0 < qm_max_active q \<longrightarrow> card (downloading q) \<le> qm_max_active q)"

definition runs_ok :: "(byte_string \<Rightarrow> 'p \<Rightarrow> bool) \<Rightarrow> 'p queue_manager \<Rightarrow> bool" where
  "runs_ok running q \<longleftrightarrow> {jid. running jid (qm_dispatch q)} \<subseteq> downloading q"

definition queue_inv :: "(byte_string \<Rightarrow> 'p \<Rightarrow> bool) \<Rightarrow> ('p \<Rightarrow> bool) \<Rightarrow> 'p queue_manager \<Rightarrow> bool" where
  "queue_inv running invar q \<longleftrightarrow>
    queue_shape q \<and> gate_ok q \<and> limit_ok q \<and> runs_ok running q \<and> invar (qm_dispatch q)"

lemmas queue_inv_defs = queue_inv_def gate_ok_def limit_ok_def runs_ok_def

text \<open>Only what these five facts read matters.\<close>

lemma shape_upd:
  "queue_shape q \<Longrightarrow> (\<And>s. nj_id (js_job (f s)) = nj_id (js_job s)) \<Longrightarrow> queue_shape (edit_job jid f q)"
  by (auto simp: queue_shape_def job_keys_def job_at_edit split: if_splits)

lemma shape_cong:
  "queue_shape q \<Longrightarrow> qm_jobs q' = qm_jobs q \<Longrightarrow> qm_order q' = qm_order q \<Longrightarrow> queue_shape q'"
  by (simp add: queue_shape_def job_keys_def job_at_def)

lemma gate_cong:
  "gate_ok q \<Longrightarrow> qm_jobs q' = qm_jobs q \<Longrightarrow> qm_globally_paused q' = qm_globally_paused q \<Longrightarrow>
    qm_holds q' = qm_holds q \<Longrightarrow> gate_ok q'"
  by (simp add: gate_ok_def with_status_def status_cong[of q' q])

lemma with_status_cong: "qm_jobs q' = qm_jobs q \<Longrightarrow> with_status st q' = with_status st q"
  by (simp add: with_status_def status_cong[of q' q])

lemma queue_inv_cong:
  assumes "queue_inv running invar q" "qm_jobs q' = qm_jobs q" "qm_order q' = qm_order q"
    "qm_globally_paused q' = qm_globally_paused q" "qm_holds q' = qm_holds q" "qm_max_active q' = qm_max_active q"
    "qm_dispatch q' = qm_dispatch q"
  shows "queue_inv running invar q'"
  using assms shape_cong[of q q'] gate_cong[of q q'] with_status_cong[of q' q]
  by (simp add: queue_inv_def limit_ok_def runs_ok_def)

lemma job_id_simps [simp]:
  "nj_id (js_job (set_status st s)) = nj_id (js_job s)" "nj_id (js_job (set_error e s)) = nj_id (js_job s)"
  "nj_id (js_job (clear_failure s)) = nj_id (js_job s)"
  "nj_id (js_job (hold_for_space s)) = nj_id (js_job s)"
  by (simp_all add: set_status_def set_error_def clear_failure_def hold_for_space_def)

lemma job_id_load [simp]: "nj_id (js_job (load_nzb E jid s)) = nj_id (js_job s)"
  by (auto simp: load_nzb_def load_checkpoint_def restore_checkpoint_accounting_def restore_claimed_output_dir_def
      apply_checkpoint_def split: option.splits)

text \<open>A job whose status does not change; that leaves the download; that enters it.\<close>

lemma inv_upd_same:
  assumes "queue_inv running invar q" "\<And>s. nj_id (js_job (f s)) = nj_id (js_job s)"
    and "\<And>s. job_status_of (f s) = job_status_of s"
  shows "queue_inv running invar (edit_job jid f q)"
proof -
  have "has_status st (edit_job jid f q) = has_status st q" for st
    using assms(3) by (auto simp: fun_eq_iff) (auto simp: has_status_def split: option.splits)
  then have st: "with_status st (edit_job jid f q) = with_status st q" for st by (simp add: with_status_def)
  show ?thesis using assms(1,2) shape_upd[of q f jid] by (simp add: queue_inv_defs st)
qed

lemma inv_upd_out:
  assumes "queue_inv running invar q" "\<And>s. nj_id (js_job (f s)) = nj_id (js_job s)"
    and "\<And>s. job_status_of (f s) \<noteq> JS_Downloading"
    and "\<not> running jid (qm_dispatch q)"
  shows "queue_inv running invar (edit_job jid f q)"
proof -
  have sub: "downloading (edit_job jid f q) = downloading q - {jid}"
    using assms(3) by (auto simp: with_status_def split: option.splits if_splits)
  have "card (downloading (edit_job jid f q)) \<le> card (downloading q)"
    unfolding sub by (rule card_mono) auto
  then show ?thesis
    using assms(1,2,4) shape_upd[of q f jid] by (auto simp: queue_inv_defs sub)
qed

lemma inv_upd_in:
  assumes "queue_inv running invar q" "\<And>s. nj_id (js_job (f s)) = nj_id (js_job s)"
    and "\<And>s. job_status_of (f s) = JS_Downloading" "\<not> qm_globally_paused q"
    and "0 < qm_max_active q \<Longrightarrow> active_count q < qm_max_active q"
  shows "queue_inv running invar (edit_job jid f q)"
proof -
  have sub: "downloading q \<subseteq> downloading (edit_job jid f q)" "downloading (edit_job jid f q) \<subseteq> insert jid (downloading q)"
    using assms(3) by (auto simp: with_status_def split: option.splits if_splits) (auto simp: has_status_def split: option.splits)
  have "card (downloading (edit_job jid f q)) \<le> Suc (card (downloading q))"
    using card_mono[OF _ sub(2)] card_insert_le_m1[of "Suc (card (downloading q))" "downloading q" jid] by simp
  moreover have "active_count q = card (downloading q)"
    using assms(1) by (intro active_count_card) (simp add: queue_inv_def queue_shape_def)
  ultimately show ?thesis
    using assms(1,2,4,5) shape_upd[of q f jid] sub(1) by (fastforce simp: queue_inv_defs)
qed

section \<open>Dispatchers\<close>

text \<open>
  \<open>running\<close> says that the dispatcher holds a context of the job that is not paused.  A dispatcher knows
  the jobs it runs, and an operation on one job starts no other.
\<close>

locale dispatch_engine =
  fixes D :: "'p dispatcher"
    and running :: "byte_string \<Rightarrow> 'p \<Rightarrow> bool"
    and invar :: "'p \<Rightarrow> bool"
  assumes running_known: "invar p \<Longrightarrow> running j p \<Longrightarrow> ds_has_job D j p"
    and invar_submit: "invar p \<Longrightarrow> invar (ds_submit_job D job p)"
    and invar_pause: "invar p \<Longrightarrow> invar (ds_pause_job D i p)"
    and invar_resume: "invar p \<Longrightarrow> invar (ds_resume_job D i p)"
    and invar_cancel: "invar p \<Longrightarrow> invar (ds_cancel_job D i p)"
    and invar_release: "invar p \<Longrightarrow> invar (ds_release_completed_job D i p)"
    and running_submit: "invar p \<Longrightarrow> running j (ds_submit_job D job p) \<Longrightarrow> j = nj_id job \<or> running j p"
    and running_pause: "invar p \<Longrightarrow> running j (ds_pause_job D i p) \<Longrightarrow> j \<noteq> i \<and> running j p"
    and running_resume: "invar p \<Longrightarrow> running j (ds_resume_job D i p) \<Longrightarrow> j = i \<or> running j p"
    and running_cancel: "invar p \<Longrightarrow> running j (ds_cancel_job D i p) \<Longrightarrow> j \<noteq> i \<and> running j p"
    and running_release: "invar p \<Longrightarrow> running j (ds_release_completed_job D i p) \<Longrightarrow> j \<noteq> i \<and> running j p"
begin

abbreviation inv :: "'p queue_manager \<Rightarrow> bool" where
  "inv \<equiv> queue_inv running invar"

lemma inv_invar: "inv q \<Longrightarrow> invar (qm_dispatch q)"
  by (simp add: queue_inv_def)

text \<open>An operation of the dispatcher after which it runs no more than before, or one downloading job more.\<close>

lemma inv_dispatch:
  assumes "inv q" "invar (g (qm_dispatch q))"
    and "\<And>j. running j (g (qm_dispatch q)) \<Longrightarrow> running j (qm_dispatch q) \<or> has_status JS_Downloading q j"
  shows "inv (with_dispatch g q)"
proof -
  have st: "with_status st (with_dispatch g q) = with_status st q" for st by (rule with_status_cong) simp
  have "queue_shape (with_dispatch g q)"
    by (rule shape_cong[of q]) (use assms(1) in \<open>simp_all add: queue_inv_def\<close>)
  moreover have "runs_ok running (with_dispatch g q)"
    using assms(1,3) unfolding runs_ok_def queue_inv_def st by (simp add: with_status_def subset_iff) blast
  ultimately show ?thesis
    using assms(1,2) by (simp add: queue_inv_def gate_ok_def limit_ok_def st)
qed

lemma inv_pause: "inv q \<Longrightarrow> inv (with_dispatch (ds_pause_job D jid) q)"
  by (rule inv_dispatch, assumption) (simp_all add: inv_invar invar_pause running_pause[OF inv_invar])

lemma inv_cancel: "inv q \<Longrightarrow> inv (with_dispatch (ds_cancel_job D jid) q)"
  by (rule inv_dispatch, assumption) (simp_all add: inv_invar invar_cancel running_cancel[OF inv_invar])

lemma inv_release: "inv q \<Longrightarrow> inv (with_dispatch (ds_release_completed_job D jid) q)"
  by (rule inv_dispatch, assumption) (simp_all add: inv_invar invar_release running_release[OF inv_invar])

lemma inv_resume:
  assumes "inv q" "has_status JS_Downloading q jid"
  shows "inv (with_dispatch (ds_resume_job D jid) q)"
  by (rule inv_dispatch[OF assms(1)])
    (use assms running_resume[OF inv_invar[OF assms(1)]] in \<open>auto simp: inv_invar invar_resume\<close>)

lemma inv_persist_status: "inv q \<Longrightarrow> inv (persist_status jid st q)"
proof -
  assume "inv q"
  then have "inv (edit_job jid (\<lambda>s. s\<lparr>js_persisted_status := Some st\<rparr>) q)" by (rule inv_upd_same) simp_all
  then show ?thesis by (rule queue_inv_cong) (simp_all add: persist_status_def)
qed

lemma inv_update_progress: "inv q \<Longrightarrow> inv (update_progress jid st q)"
  by (erule queue_inv_cong) simp_all

lemma downloading_persist: "has_status st (persist_status jid st' q) j = has_status st q j"
  by (auto simp: persist_status_def has_status_iff job_at_edit)

section \<open>Starting jobs\<close>

lemma inv_resume_queued_context:
  assumes "inv q" "has_status JS_Downloading q jid"
  shows "inv (resume_queued_context D E jid q)"
proof -
  let ?f = "\<lambda>s. clear_failure s\<lparr>js_tracker := map_option (reset_progress_clock (qe_now E)) (js_tracker s)\<rparr>"
  have "inv (persist_status jid JS_Downloading (edit_job jid ?f q))"
    using assms(1) by (intro inv_persist_status inv_upd_same) simp_all
  then show ?thesis
    unfolding resume_queued_context_def
    by (rule inv_resume) (use assms(2) in \<open>auto simp: persist_status_def has_status_iff job_at_edit\<close>)
qed

lemma inv_launch:
  assumes "inv q" "has_status JS_Downloading q jid" "\<not> running jid (qm_dispatch q)"
  shows "inv (launch_download D E jid q)"
proof -
  let ?q1 = "edit_job jid (load_nzb E jid) q"
  have i1: "inv ?q1" using assms(1) by (rule inv_upd_same) simp_all
  obtain s where s: "job_at ?q1 jid = Some s" "job_status_of s = JS_Downloading"
    using assms(2) by (auto simp: has_status_def job_at_edit split: option.splits)
  have sid: "nj_id (js_job s) = jid" using i1 s(1) by (auto simp: queue_inv_def queue_shape_def)
  have hold: "inv (edit_job jid hold_for_space ?q1)"
    by (rule inv_upd_out[OF i1]) (use assms(3) in simp_all)
  have "inv (with_dispatch (ds_submit_job D (js_job s)) ?q1)"
  proof (rule inv_dispatch[OF i1])
    show "invar (ds_submit_job D (js_job s) (qm_dispatch ?q1))" using i1 by (intro invar_submit inv_invar)
    fix j assume "running j (ds_submit_job D (js_job s) (qm_dispatch ?q1))"
    then have "j = jid \<or> running j (qm_dispatch ?q1)" using running_submit[OF inv_invar[OF i1]] sid by auto
    then show "running j (qm_dispatch ?q1) \<or> has_status JS_Downloading ?q1 j"
      using s by (auto simp: has_status_def)
  qed
  then have "inv (edit_job jid (\<lambda>s. s\<lparr>js_listening := True, js_tracker := Some (hopeless_new (qe_now E) (js_job s))\<rparr>)
      (with_dispatch (ds_submit_job D (js_job s)) ?q1))"
    by (rule inv_upd_same) simp_all
  then show ?thesis using hold s(1) by (simp add: launch_download_def Let_def)
qed

lemma inv_start_job:
  assumes "inv q" "has_status JS_Downloading q jid"
  shows "inv (start_job D E jid q)"
  unfolding start_job_def
  using inv_resume_queued_context[OF assms] inv_launch[OF assms] running_known[OF inv_invar[OF assms(1)]] by auto

lemma inv_claim:
  assumes "inv q" "claim_next_download_slot (qm_max_active q) q = (Some jid, q')"
  shows "inv q'" "has_status JS_Downloading q' jid"
proof -
  have c: "\<not> qm_globally_paused q" "0 < qm_max_active q \<Longrightarrow> active_count q < qm_max_active q"
    "best_claim q = Some jid" "q' = edit_job jid (set_status JS_Downloading) q"
    using assms(2) by (auto simp: claim_next_download_slot_def split: if_splits option.splits)
  show "inv q'" unfolding c(4) by (rule inv_upd_in[OF assms(1)]) (use c in simp_all)
  show "has_status JS_Downloading q' jid"
    using best_claim_queued[OF c(3)] unfolding c(4) by (auto simp: has_status_iff job_at_edit)
qed

lemma inv_start_next: "inv q \<Longrightarrow> inv (start_next_queued D E q)"
proof (induction "queued_count q" arbitrary: q rule: less_induct)
  case less
  show ?case
  proof (cases "claim_next_download_slot (qm_max_active q) q")
    case (Pair r q')
    show ?thesis
    proof (cases r)
      case None
      then have "q' = q" using Pair by (auto simp: claim_next_download_slot_def split: if_splits option.splits)
      then show ?thesis using less.prems Pair None by (simp add: start_next_queued.simps)
    next
      case (Some jid)
      have "queued_count (start_job D E jid q') < queued_count q"
        using claim_queued_count start_job_queued_count Pair Some by (metis le_less_trans)
      moreover have "inv (start_job D E jid q')"
        using inv_claim[OF less.prems] Pair Some by (intro inv_start_job) auto
      ultimately show ?thesis
        using less.hyps Pair Some by (simp add: start_next_queued.simps[of D E q])
    qed
  qed
qed

end

end
