(* ===== verification/Queue_Steps.thy ===== *)
theory Queue_Steps
  imports Queue_Inv
begin

text \<open>
  Every operation of the queue manager keeps the invariant, whatever dispatcher is behind it, and the
  states reachable from a restart.
\<close>

section \<open>Bulk changes\<close>

definition bulk :: "(byte_string \<Rightarrow> job_state \<Rightarrow> job_state) \<Rightarrow> 'p queue_manager \<Rightarrow> 'p queue_manager" where
  "bulk g q = q\<lparr>qm_jobs := map (\<lambda>(i, s). (i, g i s)) (qm_jobs q)\<rparr>"

lemma bulk_frame [simp]:
  "qm_order (bulk g q) = qm_order q" "qm_max_active (bulk g q) = qm_max_active q" "qm_holds (bulk g q) = qm_holds q"
  "qm_globally_paused (bulk g q) = qm_globally_paused q" "qm_dispatch (bulk g q) = qm_dispatch q"
  "job_keys (bulk g q) = job_keys q" "job_at (bulk g q) jid = map_option (g jid) (job_at q jid)"
  by (simp_all add: bulk_def job_keys_def job_at_def map_of_mapped split_beta)

lemma shape_bulk:
  "queue_shape q \<Longrightarrow> (\<And>i s. nj_id (js_job (g i s)) = nj_id (js_job s)) \<Longrightarrow> queue_shape (bulk g q)"
  by (auto simp: queue_shape_def)

lemma inv_bulk:
  assumes "queue_inv running invar q" "\<And>i s. nj_id (js_job (g i s)) = nj_id (js_job s)"
    and "\<And>i s. job_status_of (g i s) = JS_Downloading \<longleftrightarrow> job_status_of s = JS_Downloading"
  shows "queue_inv running invar (bulk g q)"
proof -
  have "downloading (bulk g q) = downloading q" by (auto simp: with_status_def has_status_iff assms(3))
  then show ?thesis using assms(1) shape_bulk[of q g] assms(2) by (simp add: queue_inv_defs)
qed

lemma unpause_simps [simp]:
  "nj_id (js_job (unpause_job s)) = nj_id (js_job s)"
  "job_status_of (unpause_job s) = JS_Downloading \<longleftrightarrow> job_status_of s = JS_Downloading"
  by (auto simp: unpause_job_def)

section \<open>The limit\<close>

text \<open>The invariant without the limit, for the states in which the limit was just lowered.\<close>

lemma inv_max:
  assumes "queue_inv running invar (q\<lparr>qm_max_active := 0\<rparr>)" "qm_max_active q = 0 \<or> active_count q \<le> qm_max_active q"
  shows "queue_inv running invar q"
proof -
  have st: "with_status st (q\<lparr>qm_max_active := 0\<rparr>) = with_status st q" for st by (rule with_status_cong) simp
  have sh: "queue_shape q" by (rule shape_cong[of "q\<lparr>qm_max_active := 0\<rparr>"]) (use assms(1) in \<open>simp_all add: queue_inv_def\<close>)
  then show ?thesis
    using assms active_count_card[of q] by (auto simp: queue_inv_defs st queue_shape_def)
qed

lemma inv_max0: "queue_inv running invar q \<Longrightarrow> queue_inv running invar (q\<lparr>qm_max_active := 0\<rparr>)"
proof -
  have st: "with_status st (q\<lparr>qm_max_active := 0\<rparr>) = with_status st q" for st by (rule with_status_cong) simp
  assume "queue_inv running invar q"
  then show ?thesis
    using shape_cong[of q "q\<lparr>qm_max_active := 0\<rparr>"] by (simp add: queue_inv_defs st)
qed

lemma max_commute:
  "give_up_slot D jid st (q\<lparr>qm_max_active := m\<rparr>) = (give_up_slot D jid st q)\<lparr>qm_max_active := m\<rparr>"
  by (simp add: give_up_slot_def persist_status_def update_progress_def edit_job_def with_dispatch_def job_at_def
      split: option.split)

lemma worst_scan_None:
  "fold (worst_scan q) es w = None \<Longrightarrow> w = None \<and> (\<forall>(i, jid) \<in> set es. \<not> has_status JS_Downloading q jid)"
proof (induction es arbitrary: w)
  case (Cons e es)
  have "worst_scan q e w = None \<and> (\<forall>(i, jid) \<in> set es. \<not> has_status JS_Downloading q jid)"
    by (rule Cons.IH) (use Cons.prems in simp)
  moreover from this have "w = None \<and> \<not> has_status JS_Downloading q (snd e)"
    by (cases w) (auto simp: worst_scan_def split: if_splits prod.splits)
  ultimately show ?case by (cases e) simp
qed simp

lemma worst_downloading_None:
  assumes "worst_downloading q = None" "queue_shape q"
  shows "active_count q = 0"
proof -
  have "\<not> has_status JS_Downloading q jid" if "jid \<in> set (qm_order q)" for jid
  proof -
    have "jid \<in> snd ` set (enumerate 0 (qm_order q))"
      using that by (metis list.set_map map_snd_enumerate)
    then show ?thesis using worst_scan_None[OF assms(1)[unfolded worst_downloading_def]] by auto
  qed
  then have "downloading q = {}"
    using assms(2) by (auto simp: with_status_def has_status_iff queue_shape_def job_at_def job_keys_def
        dest!: map_of_SomeD)
  then show ?thesis using active_count_card[of q] assms(2) by (simp add: queue_shape_def)
qed

section \<open>Reordering\<close>

lemma insert_by_mset: "mset (insert_by c x xs) = add_mset x (mset xs)"
  by (induction xs) auto

lemma sort_by_mset [simp]: "mset (sort_by c xs) = mset xs"
  unfolding sort_by_def by (induction xs) (simp_all add: insert_by_mset)

lemma set_sort_by [simp]: "set (sort_by c xs) = set xs"
  by (rule mset_eq_setD) simp

lemma distinct_sort_by: "distinct (sort_by c xs) = distinct xs"
  by (rule mset_eq_imp_distinct_iff) simp

lemma moved_mset:
  assumes "position (\<lambda>x. x = jid) xs = Some i"
  shows "mset (insert_at n jid (take i xs @ drop (Suc i) xs)) = mset xs"
proof -
  have i: "i < length xs" "xs ! i = jid" using assms by (simp_all add: position_Some)
  have "mset (insert_at n jid ys) = add_mset jid (mset ys)" for ys
    using arg_cong[OF append_take_drop_id[of n ys], of mset]
    by (simp add: insert_at_def del: append_take_drop_id)
  then have "mset (insert_at n jid (take i xs @ drop (Suc i) xs)) = mset (take i xs @ xs ! i # drop (Suc i) xs)"
    using i by simp
  then show ?thesis using id_take_nth_drop[OF i(1)] by simp
qed

lemma moved_set: "position (\<lambda>x. x = jid) xs = Some i \<Longrightarrow> set (insert_at n jid (take i xs @ drop (Suc i) xs)) = set xs"
  by (rule mset_eq_setD) (rule moved_mset)

lemma moved_distinct:
  "position (\<lambda>x. x = jid) xs = Some i \<Longrightarrow> distinct (insert_at n jid (take i xs @ drop (Suc i) xs)) = distinct xs"
  by (rule mset_eq_imp_distinct_iff) (rule moved_mset)

context dispatch_engine
begin

lemma not_running: "inv q \<Longrightarrow> \<not> has_status JS_Downloading q jid \<Longrightarrow> \<not> running jid (qm_dispatch q)"
  by (auto simp: queue_inv_def runs_ok_def with_status_def)

lemma paused_none: "inv q \<Longrightarrow> qm_globally_paused q \<Longrightarrow> \<not> has_status JS_Downloading q jid"
  by (auto simp: queue_inv_def gate_ok_def with_status_def)

text \<open>A job whose dispatcher context was paused, cancelled or released leaves the download.\<close>

lemma inv_leave:
  assumes "inv q" "\<And>s. nj_id (js_job (f s)) = nj_id (js_job s)" "\<And>s. job_status_of (f s) \<noteq> JS_Downloading"
  shows "inv (edit_job jid f (with_dispatch (ds_pause_job D jid) q))"
    "inv (edit_job jid f (with_dispatch (ds_release_completed_job D jid) q))"
proof -
  have "\<not> running jid (qm_dispatch (with_dispatch (ds_pause_job D jid) q))"
    "\<not> running jid (qm_dispatch (with_dispatch (ds_release_completed_job D jid) q))"
    using running_pause[OF inv_invar[OF assms(1)]] running_release[OF inv_invar[OF assms(1)]] by auto
  then show "inv (edit_job jid f (with_dispatch (ds_pause_job D jid) q))"
    "inv (edit_job jid f (with_dispatch (ds_release_completed_job D jid) q))"
    by (auto intro: inv_upd_out[OF inv_pause] inv_upd_out[OF inv_release] simp: assms)
qed

lemma inv_give_up: "inv q \<Longrightarrow> st \<noteq> JS_Downloading \<Longrightarrow> inv (give_up_slot D jid st q)"
  unfolding give_up_slot_def by (intro inv_persist_status inv_leave) simp_all

lemma inv_requeue:
  "inv (q\<lparr>qm_max_active := 0\<rparr>) \<Longrightarrow> inv (requeue_over_limit D q)"
proof (induction "active_count q" arbitrary: q rule: less_induct)
  case less
  show ?case
  proof (cases "qm_max_active q = 0 \<or> active_count q \<le> qm_max_active q")
    case True
    then show ?thesis using inv_max[OF less.prems] by (simp add: requeue_over_limit.simps[of D q])
  next
    case False
    have sh: "queue_shape q"
      by (rule shape_cong[of "q\<lparr>qm_max_active := 0\<rparr>"]) (use less.prems in \<open>simp_all add: queue_inv_def\<close>)
    obtain jid p i where w: "worst_downloading q = Some (jid, p, i)"
      using worst_downloading_None[OF _ sh] False by (cases "worst_downloading q") auto
    have "inv (requeue_over_limit D (give_up_slot D jid JS_Queued q))"
      using less.hyps[OF give_up_slot_count[OF w]] inv_give_up[OF less.prems, of JS_Queued jid]
      by (simp add: max_commute)
    then show ?thesis using False w by (simp add: requeue_over_limit.simps[of D q])
  qed
qed

lemma inv_preempt: "inv q \<Longrightarrow> inv (preempt_if_needed D E q)"
proof (induction "active_count q" arbitrary: q rule: less_induct)
  case less
  show ?case
  proof (cases "\<exists>qi qp qx di dp dx. best_queued q = Some (qi, qp, qx) \<and> worst_downloading q = Some (di, dp, dx) \<and>
      queued_job_outranks_active qp qx dp dx \<and> \<not> (qm_max_active q = 0 \<or> active_count q < qm_max_active q)")
    case True
    then obtain qi qp qx di dp dx where w: "best_queued q = Some (qi, qp, qx)" "worst_downloading q = Some (di, dp, dx)"
      "queued_job_outranks_active qp qx dp dx" "\<not> (qm_max_active q = 0 \<or> active_count q < qm_max_active q)" by blast
    have "inv (preempt_if_needed D E (give_up_slot D di JS_Paused q))"
      using less.hyps[OF give_up_slot_count[OF w(2)]] inv_give_up[OF less.prems, of JS_Paused di] by simp
    then show ?thesis using w by (simp add: preempt_if_needed.simps[of D E q])
  next
    case False
    then show ?thesis
      using less.prems inv_start_next[OF less.prems, of E]
      by (auto simp: preempt_if_needed.simps[of D E q] split: option.split prod.split)
  qed
qed

lemma inv_set_max: "inv q \<Longrightarrow> inv (set_max_active_downloads D E mx q)"
  unfolding set_max_active_downloads_def
  by (intro inv_start_next inv_requeue) (simp add: inv_max0)

section \<open>One job\<close>

lemma inv_cong_frame:
  "inv q \<Longrightarrow> inv (q\<lparr>qm_rows := r\<rparr>)" "inv q \<Longrightarrow> inv (q\<lparr>qm_global_jobs := gs\<rparr>)"
  "inv q \<Longrightarrow> inv (q\<lparr>qm_history := h\<rparr>)" "inv q \<Longrightarrow> inv (q\<lparr>qm_pause_until := u\<rparr>)"
  "inv q \<Longrightarrow> inv (persist_global_jobs q)"
  by (erule queue_inv_cong; simp)+

lemma inv_order:
  assumes "inv q" "set ord = set (qm_order q)" "distinct ord"
  shows "inv (q\<lparr>qm_order := ord\<rparr>)"
proof -
  have st: "with_status st (q\<lparr>qm_order := ord\<rparr>) = with_status st q" for st by (rule with_status_cong) simp
  have "queue_shape (q\<lparr>qm_order := ord\<rparr>)"
    using assms by (simp add: queue_inv_def queue_shape_def job_keys_def job_at_def)
  then show ?thesis using assms(1) by (simp add: queue_inv_defs st)
qed

lemma inv_pause_job:
  assumes "inv q"
  shows "inv (snd (queue_pause_job D E jid q))"
proof -
  let ?f = "\<lambda>s. (let s1 = set_status JS_Paused s;
               s2 = (if js_failure_code s1 = Some FC_StorageUnavailable then clear_failure s1 else s1)
           in s2\<lparr>js_persisted_status := Some JS_Paused\<rparr>)"
  have "inv (edit_job jid ?f (with_dispatch (ds_pause_job D jid) q))"
    by (rule inv_leave(1)[OF assms]) (simp_all add: Let_def)
  then show ?thesis
    using inv_pause[OF assms, of jid]
    by (auto simp: queue_pause_job_def Let_def split: option.split
        intro!: inv_start_next inv_cong_frame inv_update_progress)
qed

lemma inv_resume_job:
  assumes "inv q" "\<not> has_status JS_Downloading q jid"
  shows "inv (snd (queue_resume_job D E jid q))"
proof -
  have nr: "\<not> running jid (qm_dispatch q)" using not_running[OF assms] .
  have enter: "inv (edit_job jid f q)" "has_status JS_Downloading (edit_job jid f q) jid"
    if "\<not> qm_globally_paused q" "\<not> (0 < qm_max_active q \<and> qm_max_active q \<le> active_count q)" "job_at q jid = Some s"
      "\<And>s. nj_id (js_job (f s)) = nj_id (js_job s)" "\<And>s. job_status_of (f s) = JS_Downloading" for f s
    using that by (auto intro!: inv_upd_in[OF assms(1)])
  have out: "inv (persist_status jid JS_Queued (edit_job jid (set_status JS_Queued) q))"
    by (intro inv_persist_status inv_upd_out) (simp_all add: assms nr)
  show ?thesis
    unfolding queue_resume_job_def Let_def
    using assms(1) out enter nr
    by (auto split: option.split intro!: inv_resume inv_persist_status inv_launch simp: downloading_persist)
qed

lemma inv_drop:
  assumes "inv q" "\<not> running jid (qm_dispatch q)"
  shows "inv (q\<lparr>qm_jobs := AList.delete jid (qm_jobs q)\<rparr>)"
    "inv (q\<lparr>qm_jobs := AList.delete jid (qm_jobs q), qm_order := filter (\<lambda>x. x \<noteq> jid) (qm_order q)\<rparr>)"
proof -
  let ?q = "q\<lparr>qm_jobs := AList.delete jid (qm_jobs q)\<rparr>"
  have at: "job_at ?q j = (if j = jid then None else job_at q j)" for j
    by (simp add: job_at_def AList.delete_conv')
  have sub: "downloading ?q = downloading q - {jid}" by (auto simp: with_status_def has_status_iff at)
  have "card (downloading ?q) \<le> card (downloading q)" unfolding sub by (rule card_mono) auto
  moreover have keys: "set (job_keys ?q) = set (job_keys q) - {jid}" "distinct (job_keys ?q)"
    using assms(1) by (auto simp: job_keys_def queue_inv_def queue_shape_def AList.delete_eq distinct_map_filter)
  ultimately show "inv ?q"
    using assms by (auto simp: queue_inv_defs sub queue_shape_def at)
  have st: "with_status st (?q\<lparr>qm_order := r\<rparr>) = with_status st ?q" for st r by (rule with_status_cong) simp
  have "queue_shape (?q\<lparr>qm_order := filter (\<lambda>x. x \<noteq> jid) (qm_order q)\<rparr>)"
    using \<open>inv ?q\<close> keys assms(1) by (auto simp: queue_inv_def queue_shape_def job_keys_def job_at_def)
  then show "inv (q\<lparr>qm_jobs := AList.delete jid (qm_jobs q), qm_order := filter (\<lambda>x. x \<noteq> jid) (qm_order q)\<rparr>)"
    using \<open>inv ?q\<close> st by (simp add: queue_inv_defs)
qed

lemma inv_forget: "inv q \<Longrightarrow> \<not> has_status JS_Downloading q jid \<Longrightarrow> inv (forget_job jid q)"
  unfolding forget_job_def by (intro inv_drop not_running)

lemma inv_remove:
  assumes "inv q"
  shows "inv (snd (queue_remove_job D E jid q))"
proof -
  let ?q1 = "with_dispatch (ds_cancel_job D jid) q"
  have nr: "\<not> running jid (qm_dispatch ?q1)" using running_cancel[OF inv_invar[OF assms]] by auto
  have i1: "inv ?q1" using assms by (rule inv_cancel)
  have both: "inv (?q1\<lparr>qm_jobs := AList.delete jid (qm_jobs ?q1), qm_global_jobs := gs, qm_settings := ss\<rparr>)"
    "inv (?q1\<lparr>qm_jobs := AList.delete jid (qm_jobs ?q1), qm_global_jobs := gs, qm_settings := ss, qm_history := h,
        qm_rows := r, qm_order := filter (\<lambda>x. x \<noteq> jid) (qm_order ?q1)\<rparr>)" for gs ss h r
    by (rule queue_inv_cong[OF inv_drop(1)[OF i1 nr]]; simp) (rule queue_inv_cong[OF inv_drop(2)[OF i1 nr]]; simp)
  show ?thesis
    using assms i1 both(1) both(2)[where r = "AList.delete jid (qm_rows ?q1)"] both(2)[where h = "qm_history ?q1"]
    by (auto simp: queue_remove_job_def Let_def persist_global_jobs_def split: option.split)
qed

section \<open>The order\<close>

lemma inv_sort: "inv q \<Longrightarrow> inv (q\<lparr>qm_order := sort_by c (qm_order q)\<rparr>)"
  by (rule inv_order) (simp_all add: queue_inv_def queue_shape_def distinct_sort_by)

lemma inv_set_priority: "inv q \<Longrightarrow> inv (snd (set_job_priority D E jid pri q))"
proof -
  assume a: "inv q"
  let ?q1 = "edit_job jid (\<lambda>s. s\<lparr>js_job := (js_job s)\<lparr>nj_priority := pri\<rparr>\<rparr>) q"
  have i1: "inv ?q1" using a by (rule inv_upd_same) (simp_all add: job_status_of_def)
  have "inv (?q1\<lparr>qm_rows := r, qm_order := sort_by c (qm_order ?q1)\<rparr>)" for r c
    by (rule queue_inv_cong[OF inv_sort[OF i1, of c]]) simp_all
  from inv_start_next[OF this] show ?thesis
    using a i1 by (simp add: set_job_priority_def Let_def split: option.split)
qed

lemma inv_move: "inv q \<Longrightarrow> inv (snd (move_job D E jid pos q))"
proof -
  assume a: "inv q"
  have "inv (preempt_if_needed D E (q\<lparr>qm_order := insert_at n jid (take i (qm_order q) @ drop (i + 1) (qm_order q))\<rparr>))"
    if "position (\<lambda>x. x = jid) (qm_order q) = Some i" for i n
    using that a
    by (intro inv_preempt inv_order)
      (auto simp: queue_inv_def queue_shape_def moved_set moved_distinct)
  then show ?thesis using a by (simp add: move_job_def Let_def split: option.split)
qed

section \<open>Admission\<close>

lemma inv_insert:
  assumes "inv q" "jid \<notin> set (job_keys q)" "jid \<notin> set (qm_order q)" "nj_id (js_job s) = jid"
    and "job_status_of s \<noteq> JS_Downloading"
  shows "inv (q\<lparr>qm_jobs := AList.update jid s (qm_jobs q), qm_order := qm_order q @ [jid]\<rparr>)"
proof -
  let ?q = "q\<lparr>qm_jobs := AList.update jid s (qm_jobs q), qm_order := qm_order q @ [jid]\<rparr>"
  have at: "job_at ?q j = (if j = jid then Some s else job_at q j)" for j
    by (simp add: job_at_def AList.update_conv')
  have none: "job_at q jid = None" using assms(2) by (simp add: job_at_def job_keys_def map_of_eq_None_iff)
  have dl: "downloading ?q = downloading q"
    using assms(5) none by (auto simp: with_status_def has_status_iff at)
  have "set (job_keys ?q) = insert jid (set (job_keys q))" "distinct (job_keys ?q)"
    using assms(1) by (auto simp: job_keys_def dom_update distinct_update queue_inv_def queue_shape_def)
  then show ?thesis using assms dl by (auto simp: queue_inv_defs queue_shape_def at)
qed

lemma inv_admit:
  assumes "inv q" "nj_id job \<notin> set (job_keys q)" "nj_id job \<notin> set (qm_order q)"
  shows "inv (activate_admitted_job D E job data q)"
proof -
  have ins: "inv (q\<lparr>qm_jobs := AList.update (nj_id job) (job_state_new (job\<lparr>nj_status := st\<rparr>) data c) (qm_jobs q),
      qm_order := qm_order q @ [nj_id job]\<rparr>)" if "st \<noteq> JS_Downloading" for st c
    by (rule inv_insert[OF assms]) (use that in \<open>simp_all add: job_state_new_def job_status_of_def\<close>)
  have glob: "inv (q\<lparr>qm_jobs := AList.update (nj_id job) (job_state_new (job\<lparr>nj_status := JS_Paused\<rparr>) data c) (qm_jobs q),
      qm_global_jobs := gs, qm_settings := ss, qm_order := qm_order q @ [nj_id job]\<rparr>)" for gs ss c
    by (rule queue_inv_cong[OF ins[of JS_Paused c]]) simp_all
  show ?thesis
    using ins[of JS_Paused] glob inv_start_next[OF ins[of JS_Queued]]
    by (simp add: activate_admitted_job_def Let_def persist_global_jobs_def)
qed

section \<open>The end of a download\<close>

lemma inv_aborted: "inv q \<Longrightarrow> inv (finish_aborted D E jid reason failed secs q)"
  unfolding finish_aborted_def by (intro inv_start_next inv_leave(2)) (simp_all add: Let_def job_status_of_def set_error_def set_status_def)

lemma inv_finished: "inv q \<Longrightarrow> inv (on_job_finished_update D E ab jid smap failed secs inc q)"
proof -
  assume a: "inv q"
  have "inv (edit_job jid (\<lambda>s. s\<lparr>js_job := (js_job s)\<lparr>nj_slice_map := smap\<rparr>\<rparr>) q)"
    using a by (rule inv_upd_same) (simp_all add: job_status_of_def)
  then show ?thesis
    unfolding on_job_finished_update_def Let_def
    using a
    by (cases inc) (auto split: option.split intro!: inv_aborted inv_start_next inv_leave(2)
        simp: job_status_of_def set_error_def set_status_def)
qed

lemma inv_post_processing:
  "inv q \<Longrightarrow> \<not> has_status JS_Downloading q jid \<Longrightarrow> st \<noteq> JS_Downloading \<Longrightarrow> inv (edit_job jid (set_status st) q)"
  by (rule inv_upd_out) (simp_all add: not_running)

section \<open>The whole queue\<close>

lemma fold_pause:
  "invar p \<Longrightarrow> invar (fold (ds_pause_job D) js p) \<and>
    (running j (fold (ds_pause_job D) js p) \<longrightarrow> j \<notin> set js \<and> running j p)"
proof (induction js arbitrary: p)
  case (Cons i js)
  then show ?case using Cons.IH[OF invar_pause[OF Cons.prems]] running_pause[OF Cons.prems] by fastforce
qed simp

lemma inv_pause_jobs:
  assumes "queue_shape q" "qm_globally_paused q = holds_any (qm_holds q)" "runs_ok running q" "invar (qm_dispatch q)"
  shows "inv (pause_jobs_for_global_hold D q)"
proof -
  let ?js = "map fst (filter (\<lambda>(_, s). is_startable s) (qm_jobs q))"
  let ?g = "\<lambda>_ s. if is_startable s then set_status JS_Paused s else s"
  let ?q = "pause_jobs_for_global_hold D q"
  have jobs: "qm_jobs ?q = qm_jobs (bulk ?g q)"
    by (simp add: pause_jobs_for_global_hold_def Let_def bulk_def)
  have none: "downloading ?q = {}"
    unfolding with_status_cong[OF jobs] by (auto simp: with_status_def has_status_iff is_startable_def)
  have shape: "queue_shape ?q"
    by (rule shape_cong[OF _ jobs], rule shape_bulk[OF assms(1)])
      (simp_all add: pause_jobs_for_global_hold_def Let_def)
  have disp: "qm_dispatch ?q = fold (ds_pause_job D) ?js (qm_dispatch q)"
    by (simp add: pause_jobs_for_global_hold_def Let_def)
  have "j \<in> set ?js" if "running j (qm_dispatch q)" for j
  proof -
    have "has_status JS_Downloading q j" using that assms(3) by (auto simp: runs_ok_def with_status_def)
    then show ?thesis by (force simp: has_status_iff job_at_def is_startable_def image_iff dest: map_of_SomeD)
  qed
  then have stop: "\<not> running j (qm_dispatch ?q)" "invar (qm_dispatch ?q)" for j
    using fold_pause[OF assms(4), of ?js j] unfolding disp by blast+
  moreover have "qm_globally_paused ?q = qm_globally_paused q" "qm_holds ?q = qm_holds q"
    by (simp_all add: pause_jobs_for_global_hold_def Let_def)
  ultimately show ?thesis
    using shape assms(2) none by (auto simp: queue_inv_defs)
qed

lemma publish_frame:
  "queue_shape q \<Longrightarrow> queue_shape (publish_holds h q)" "with_status st (publish_holds h q) = with_status st q"
  "qm_dispatch (publish_holds h q) = qm_dispatch q" "qm_max_active (publish_holds h q) = qm_max_active q"
  "qm_holds (publish_holds h q) = h" "qm_globally_paused (publish_holds h q) = holds_any h"
proof -
  show "queue_shape q \<Longrightarrow> queue_shape (publish_holds h q)"
    by (rule shape_cong[of q]) (simp_all add: publish_holds_def)
  show "with_status st (publish_holds h q) = with_status st q"
    by (rule with_status_cong) (simp add: publish_holds_def)
qed (simp_all add: publish_holds_def)

text \<open>New holds: the gate may open at any time, and may close when nothing downloads.\<close>

lemma inv_publish:
  "inv q \<Longrightarrow> \<not> holds_any h \<or> qm_globally_paused q \<Longrightarrow> inv (publish_holds h q)"
  by (auto simp: queue_inv_defs publish_frame)

lemma inv_publish_pause:
  "inv q \<Longrightarrow> inv (pause_jobs_for_global_hold D (publish_holds h q))"
  by (rule inv_pause_jobs) (simp_all add: publish_frame queue_inv_defs)

lemma inv_resume_after:
  assumes "inv q"
  shows "inv (resume_jobs_after_holds D E q)"
proof -
  let ?g = "\<lambda>i s. if i \<in> qm_global_jobs q then unpause_job s else s"
  let ?q1 = "persist_global_jobs (q\<lparr>qm_pause_until := None, qm_global_jobs := {}\<rparr>)"
  have "inv ?q1" by (rule queue_inv_cong[OF assms]) simp_all
  then have "inv (bulk ?g ?q1)" by (rule inv_bulk) (auto simp: unpause_job_def)
  from inv_start_next[OF this] show ?thesis
    by (simp add: resume_jobs_after_holds_def Let_def bulk_def)
qed

lemma inv_pause_for_hold:
  assumes "inv q"
  shows "inv (pause_for_hold D f q)"
proof -
  have i1: "inv (q\<lparr>qm_pause_until := None\<rparr>)" using assms by (rule inv_cong_frame(4))
  show ?thesis
    using inv_publish[OF i1] inv_publish_pause[OF i1] by (simp add: pause_for_hold_def Let_def)
qed

lemma inv_resume_hold:
  assumes "inv q" "holds_any (f (qm_holds q)) \<Longrightarrow> holds_any (qm_holds q)"
  shows "inv (resume_hold D E f q)"
proof -
  have "qm_globally_paused q = holds_any (qm_holds q)" using assms(1) by (simp add: queue_inv_defs)
  then have "inv (publish_holds (f (qm_holds q)) q)" using assms(2) by (intro inv_publish[OF assms(1)]) auto
  then show ?thesis using inv_resume_after by (simp add: resume_hold_def Let_def)
qed

lemma inv_resume_all: "inv q \<Longrightarrow> inv (resume_all D E q)"
  unfolding resume_all_def by (rule inv_resume_hold) (simp_all add: lift_all_def holds_any_def)

lemma inv_clear_disk: "inv q \<Longrightarrow> inv (clear_disk_hold D E q)"
  unfolding clear_disk_hold_def by (rule inv_resume_hold) (auto simp: lift_disk_def holds_any_def)

lemma schedule_hold_new:
  "holds_any (schedule_hold ws h) \<Longrightarrow> \<not> holds_any h \<Longrightarrow> ph_schedule (schedule_hold ws h) \<and> \<not> ph_schedule h"
  by (auto simp: holds_any_def schedule_hold_def Let_def retain_open_def)

lemma inv_schedule:
  assumes "inv q"
  shows "inv (apply_schedule_hold D E windows q)"
proof -
  let ?h = "schedule_hold windows (qm_holds q)"
  have gate: "qm_globally_paused q = holds_any (qm_holds q)" using assms by (simp add: queue_inv_defs)
  show ?thesis
  proof (cases "ph_schedule ?h \<and> \<not> ph_schedule (qm_holds q) \<and> \<not> qm_globally_paused q")
    case True
    then have "?h \<noteq> qm_holds q" by auto
    then show ?thesis
      using True inv_publish_pause[OF assms, of ?h] by (simp add: apply_schedule_hold_def Let_def)
  next
    case False
    have "inv (if ?h \<noteq> qm_holds q then publish_holds ?h q else q)"
      using assms False schedule_hold_new[of windows "qm_holds q"] gate by (auto intro!: inv_publish)
    then show ?thesis
      using False inv_resume_after by (auto simp: apply_schedule_hold_def Let_def simp del: if_split)
  qed
qed

lemma inv_expire: "inv q \<Longrightarrow> inv (expire_user_hold D E q)"
proof -
  assume a: "inv q"
  let ?h = "expire_hold (qm_holds q)"
  have gate: "qm_globally_paused q = holds_any (qm_holds q)" using a by (simp add: queue_inv_defs)
  have "ph_disk ?h = ph_disk (qm_holds q)" "\<not> ph_user ?h" by (simp_all add: expire_hold_def Let_def)
  then have "inv (publish_holds ?h q)"
    if "\<not> (ph_schedule ?h \<and> \<not> ph_schedule (qm_holds q) \<and> \<not> qm_globally_paused q)"
    using that gate by (intro inv_publish[OF a]) (auto simp: holds_any_def)
  then show ?thesis
    using inv_publish_pause[OF a, of ?h] inv_resume_after by (simp add: expire_user_hold_def Let_def)
qed

lemma inv_pause_for: "inv q \<Longrightarrow> inv (pause_for D E secs q)"
  unfolding pause_for_def pause_all_def by (intro inv_cong_frame(4) inv_pause_for_hold)

lemma inv_timer: "inv q \<Longrightarrow> inv (pause_timer_fires D E until q)"
  by (simp add: pause_timer_fires_def inv_expire inv_cong_frame)

lemma inv_server_paused: "inv q \<Longrightarrow> inv (resume_server_paused_jobs D E q)"
proof -
  assume a: "inv q"
  let ?g = "\<lambda>i s. if job_status_of s = JS_Paused \<and> nj_error_message (js_job s) \<noteq> None then unpause_job s else s"
  have "inv (bulk ?g q)" using a by (rule inv_bulk) auto
  then show ?thesis
    using a inv_start_next by (simp add: resume_server_paused_jobs_def Let_def bulk_def)
qed

lemma inv_storage_held: "inv q \<Longrightarrow> inv (resume_storage_held_jobs D E q)"
proof -
  assume a: "inv q"
  have "inv (bulk (\<lambda>i s. if storage_held s then unpause_job s else s) q)" using a by (rule inv_bulk) auto
  then show ?thesis
    using a inv_start_next by (simp add: resume_storage_held_jobs_def Let_def bulk_def)
qed

lemma inv_disk_guard: "inv q \<Longrightarrow> inv (enforce_disk_guard D E sp q)"
  by (simp add: enforce_disk_guard_def pause_all_with_hold_def inv_pause_for_hold inv_storage_held inv_clear_disk)

end

section \<open>Reachable states\<close>

text \<open>
  One operation of the queue manager; \<open>E\<close> is the outside world as it finds it.  A submitted job has a new
  identifier.  \<open>resume_job\<close> is not called on a job that downloads, and the task that forgets a finished
  job finds it still finished.  Between two operations the dispatcher works: it starts no job by itself.
\<close>

inductive queue_step :: "'p dispatcher \<Rightarrow> (byte_string \<Rightarrow> 'p \<Rightarrow> bool) \<Rightarrow> ('p \<Rightarrow> bool) \<Rightarrow>
    'p queue_manager \<Rightarrow> 'p queue_manager \<Rightarrow> bool"
  for D running invar where
  admit: "nj_id job \<notin> set (job_keys q) \<Longrightarrow> nj_id job \<notin> set (qm_order q) \<Longrightarrow>
    queue_step D running invar q (activate_admitted_job D E job data q)"
| pause: "queue_step D running invar q (snd (queue_pause_job D E jid q))"
| resume: "\<not> has_status JS_Downloading q jid \<Longrightarrow> queue_step D running invar q (snd (queue_resume_job D E jid q))"
| remove: "queue_step D running invar q (snd (queue_remove_job D E jid q))"
| priority: "queue_step D running invar q (snd (set_job_priority D E jid pri q))"
| move: "queue_step D running invar q (snd (move_job D E jid pos q))"
| sort: "queue_step D running invar q (sort_queue field ascending q)"
| limit: "queue_step D running invar q (set_max_active_downloads D E mx q)"
| pause_all: "queue_step D running invar q (pause_all D q)"
| pause_for: "queue_step D running invar q (pause_for D E secs q)"
| timer: "queue_step D running invar q (pause_timer_fires D E until q)"
| resume_all: "queue_step D running invar q (resume_all D E q)"
| schedule: "queue_step D running invar q (apply_schedule_hold D E windows q)"
| disk: "queue_step D running invar q (enforce_disk_guard D E sp q)"
| servers: "queue_step D running invar q (resume_server_paused_jobs D E q)"
| waiting: "queue_step D running invar q (on_waiting_for_providers jid msg q)"
| available: "queue_step D running invar q (on_providers_available jid q)"
| finished: "queue_step D running invar q (on_job_finished_update D E ab jid smap failed secs inc q)"
| aborted: "queue_step D running invar q (finish_aborted D E jid reason failed secs q)"
| post_processing: "\<not> has_status JS_Downloading q jid \<Longrightarrow> st \<noteq> JS_Downloading \<Longrightarrow>
    queue_step D running invar q (edit_job jid (set_status st) q)"
| forget: "\<not> has_status JS_Downloading q jid \<Longrightarrow> queue_step D running invar q (forget_job jid q)"
| work: "invar p \<Longrightarrow> {j. running j p} \<subseteq> {j. running j (qm_dispatch q)} \<Longrightarrow>
    queue_step D running invar q (q\<lparr>qm_dispatch := p\<rparr>)"

definition manager_new :: "nat \<Rightarrow> pause_settings \<Rightarrow> 'p \<Rightarrow> 'p queue_manager" where
  "manager_new mx settings p =
    \<lparr>qm_jobs = [], qm_order = [], qm_max_active = mx, qm_globally_paused = False, qm_holds = holds_default,
     qm_pause_until = None, qm_global_jobs = {}, qm_settings = settings, qm_rows = [], qm_history = [],
     qm_dispatch = p\<rparr>"

inductive queue_reach :: "'p dispatcher \<Rightarrow> (byte_string \<Rightarrow> 'p \<Rightarrow> bool) \<Rightarrow> ('p \<Rightarrow> bool) \<Rightarrow> 'p queue_manager \<Rightarrow> bool"
  for D running invar where
  start: "invar p \<Longrightarrow> (\<And>j. \<not> running j p) \<Longrightarrow> distinct (map nj_id jobs) \<Longrightarrow>
    queue_reach D running invar (restore_from_db D E jobs (manager_new mx settings p))"
| step: "queue_reach D running invar q \<Longrightarrow> queue_step D running invar q q' \<Longrightarrow> queue_reach D running invar q'"

lemma restored_state_status: "job_status_of (restored_state E job) =
    (if in_post_processing (nj_status job) then JS_PostProcessing else nj_status job)"
  by (auto simp: restored_state_def Let_def job_state_new_def job_status_of_def in_post_processing_def
      restore_checkpoint_accounting_def restore_claimed_output_dir_def apply_checkpoint_def split: option.splits)

lemma restored_state_id: "nj_id (js_job (restored_state E job)) = nj_id job"
  by (auto simp: restored_state_def Let_def job_state_new_def in_post_processing_def
      restore_checkpoint_accounting_def restore_claimed_output_dir_def apply_checkpoint_def split: option.splits)

context dispatch_engine
begin

lemma inv_restore_jobs:
  "inv q \<Longrightarrow> distinct (map nj_id jobs) \<Longrightarrow> nj_id ` set jobs \<inter> (set (job_keys q) \<union> set (qm_order q)) = {} \<Longrightarrow>
    inv (fold (restore_job E was persisted) jobs q)"
proof (induction jobs arbitrary: q)
  case (Cons job jobs)
  obtain gs s where r: "restore_job E was persisted job q = q\<lparr>qm_global_jobs := gs,
      qm_jobs := AList.update (nj_id job) s (qm_jobs q), qm_order := qm_order q @ [nj_id job]\<rparr>"
    and s: "nj_id (js_job s) = nj_id job" "job_status_of s \<noteq> JS_Downloading"
    by (auto simp: restore_job_def Let_def restored_state_id)
  have "inv (q\<lparr>qm_jobs := AList.update (nj_id job) s (qm_jobs q), qm_order := qm_order q @ [nj_id job]\<rparr>)"
    by (rule inv_insert) (use Cons.prems s in auto)
  then have "inv (restore_job E was persisted job q)" unfolding r by (rule queue_inv_cong) simp_all
  moreover have "set (job_keys (restore_job E was persisted job q)) = insert (nj_id job) (set (job_keys q))"
    "set (qm_order (restore_job E was persisted job q)) = insert (nj_id job) (set (qm_order q))"
    by (simp_all add: r job_keys_def dom_update)
  ultimately show ?case using Cons.IH[of "restore_job E was persisted job q"] Cons.prems by auto
qed simp

lemma inv_restore:
  assumes "invar p" "\<And>j. \<not> running j p" "distinct (map nj_id jobs)"
  shows "inv (restore_from_db D E jobs (manager_new mx settings p))"
proof -
  let ?q = "(manager_new mx settings p)\<lparr>qm_holds := restore_holds settings, qm_globally_paused := holds_any (restore_holds settings)\<rparr>"
  have q: "inv ?q"
    using assms(1,2) by (auto simp: queue_inv_defs queue_shape_def manager_new_def job_keys_def job_at_def with_status_def has_status_def)
  have "inv (fold (restore_job E was persisted) jobs ?q)" for was persisted
    by (rule inv_restore_jobs[OF q assms(3)]) (simp add: manager_new_def job_keys_def)
  from inv_start_next[OF this] show ?thesis
    using q by (simp add: restore_from_db_def Let_def manager_new_def)
qed

lemma inv_step:
  assumes "inv q" "queue_step D running invar q q'"
  shows "inv q'"
  using assms(2)
proof cases
  case (sort field ascending)
  then show ?thesis using inv_sort[OF assms(1)] by (simp add: sort_queue_def)
next
  case (waiting jid msg)
  then show ?thesis unfolding waiting on_waiting_for_providers_def by (auto intro!: inv_upd_same[OF assms(1)])
next
  case (available jid)
  then show ?thesis unfolding available on_providers_available_def
    by (auto intro!: inv_upd_same[OF assms(1)] split: option.split)
next
  case (work p)
  have st: "with_status st (q\<lparr>qm_dispatch := p\<rparr>) = with_status st q" for st by (rule with_status_cong) simp
  show ?thesis
    using work assms(1) shape_cong[of q q'] by (auto simp: queue_inv_defs st)
qed (simp_all add: assms(1) inv_admit inv_pause_job inv_resume_job inv_remove inv_set_priority inv_move inv_set_max
      inv_pause_for_hold pause_all_def inv_pause_for inv_timer inv_resume_all inv_schedule inv_disk_guard
      inv_server_paused inv_finished inv_aborted inv_post_processing inv_forget)

theorem inv_reach: "queue_reach D running invar q \<Longrightarrow> inv q"
  by (induction rule: queue_reach.induct) (simp_all add: inv_restore inv_step)

end

end
