(* ===== verification/Queue_Pool.thy ===== *)
theory Queue_Pool
  imports Queue_Steps
begin

text \<open>
  The worker pool is a dispatcher: the laws the queue manager relies on, proved for the model of
  \<open>crates/nzb-dispatch/src/download_engine.rs\<close>.
\<close>

definition runs_job :: "byte_string \<Rightarrow> pool \<Rightarrow> bool" where
  "runs_job jid po \<longleftrightarrow> (case map_of (po_jobs po) jid of Some a \<Rightarrow> \<not> jc_paused (ctx_at po a) | None \<Rightarrow> False)"

lemma runs_job_iff: "runs_job jid po \<longleftrightarrow> (\<exists>a. map_of (po_jobs po) jid = Some a \<and> \<not> jc_paused (ctx_at po a))"
  by (simp add: runs_job_def split: option.split)

text \<open>Every registered job has a context of its own.\<close>

definition pool_wf :: "pool \<Rightarrow> bool" where
  "pool_wf po \<longleftrightarrow>
    distinct (map fst (po_jobs po)) \<and> distinct (map snd (po_jobs po)) \<and>
    (\<forall>a \<in> snd ` set (po_jobs po). a < length (po_ctxs po))"

section \<open>The paused flags\<close>

definition marks :: "pool \<Rightarrow> bool list" where
  "marks po = map jc_paused (po_ctxs po)"

lemma paused_simps [simp]:
  "jc_paused (send_to_job u ctx) = jc_paused ctx" "jc_paused (pause_clock now ctx) = jc_paused ctx"
  "jc_paused (resume_clock now ctx) = jc_paused ctx" "jc_paused (deobfuscate_files env ctx) = jc_paused ctx"
  "jc_paused (report_waiting_for_providers msg ctx) = jc_paused ctx"
  by (simp_all add: send_to_job_def pause_clock_def resume_clock_def deobfuscate_files_def
      report_waiting_for_providers_def split: option.split)

lemma paused_emit [simp]: "jc_paused (emit_terminal env ctx) = jc_paused ctx"
  by (auto simp: emit_terminal_def Let_def split: option.split prod.split)

lemma paused_wanted: "jc_paused (snd (wanted_volumes e ctx)) = jc_paused ctx"
  by (auto simp: wanted_volumes_def Let_def split: option.split prod.split)

lemma paused_release: "jc_paused (fst (snd (release_held e ctx q))) = jc_paused ctx"
  using paused_wanted[of e ctx] by (auto simp: release_held_def split: option.split prod.split)

lemma marks_upd:
  "(\<And>c. jc_paused (f c) = jc_paused c) \<Longrightarrow> marks (upd_ctx a f po) = marks po"
  by (cases "a < length (po_ctxs po)")
    (simp_all add: marks_def upd_ctx_def ctx_at_def map_update list_update_same_conv list_update_beyond)

lemma jobs_upd [simp]: "po_jobs (upd_ctx a f po) = po_jobs po" "po_jobs (upd_queue g po) = po_jobs po"
  "marks (upd_queue g po) = marks po"
  by (simp_all add: upd_ctx_def upd_queue_def marks_def)

lemma length_marks: "length (po_ctxs po) = length (marks po)"
  by (simp add: marks_def)

lemma marks_outage: "marks (report_provider_outage env po) = marks po \<and> po_jobs (report_provider_outage env po) = po_jobs po"
proof -
  have "marks (for_jobs (report_waiting_for_providers msg) p) = marks p \<and>
      po_jobs (for_jobs (report_waiting_for_providers msg) p) = po_jobs p" for msg p
  proof -
    have "marks (fold (\<lambda>(_, a). upd_ctx a (report_waiting_for_providers msg)) js p) = marks p \<and>
        po_jobs (fold (\<lambda>(_, a). upd_ctx a (report_waiting_for_providers msg)) js p) = po_jobs p" for js p
      by (induction js arbitrary: p) (auto simp: marks_upd)
    then show ?thesis by (simp add: for_jobs_def)
  qed
  then show ?thesis by (simp add: report_provider_outage_def split: option.split)
qed

text \<open>\<open>pool_wf\<close> and \<open>runs_job\<close> depend on the registered jobs and the flags only.\<close>

lemma wf_marks:
  "pool_wf po \<longleftrightarrow> distinct (map fst (po_jobs po)) \<and> distinct (map snd (po_jobs po)) \<and>
    (\<forall>a \<in> snd ` set (po_jobs po). a < length (marks po))"
  by (simp add: pool_wf_def length_marks)

lemma runs_marks:
  "pool_wf po \<Longrightarrow> runs_job jid po \<longleftrightarrow> (\<exists>a. map_of (po_jobs po) jid = Some a \<and> \<not> marks po ! a)"
  by (force simp: runs_job_iff marks_def ctx_at_def pool_wf_def dest: map_of_SomeD)

lemma same_marks:
  "pool_wf po \<Longrightarrow> po_jobs po' = po_jobs po \<Longrightarrow> marks po' = marks po \<Longrightarrow>
    pool_wf po' \<and> (runs_job jid po' \<longleftrightarrow> runs_job jid po)"
  using runs_marks[of po jid] runs_marks[of po' jid] by (simp add: wf_marks)

lemma address_inj: "pool_wf po \<Longrightarrow> map_of (po_jobs po) i = Some a \<Longrightarrow> map_of (po_jobs po) j = Some a \<Longrightarrow> i = j"
  unfolding pool_wf_def by (metis (no_types, lifting) distinct_map inj_onD map_of_SomeD prod.inject snd_conv)

section \<open>Operations\<close>

lemma marks_flag:
  "a < length (po_ctxs po) \<Longrightarrow> (\<And>c. jc_paused (f c) = b) \<Longrightarrow> marks (upd_ctx a f po) = (marks po)[a := b]"
  by (simp add: marks_def upd_ctx_def map_update)

lemma pool_pause_laws:
  assumes "pool_wf po"
  shows "pool_wf (pause_job env i po)" "runs_job j (pause_job env i po) \<Longrightarrow> j \<noteq> i \<and> runs_job j po"
proof -
  have m: "marks (pause_job env i po) = (marks po)[a := True]" "po_jobs (pause_job env i po) = po_jobs po"
    if "map_of (po_jobs po) i = Some a" for a
    using that assms by (auto simp: pause_job_def pool_wf_def intro!: marks_flag dest!: map_of_SomeD)
  have none: "pause_job env i po = po" if "map_of (po_jobs po) i = None"
    using that by (simp add: pause_job_def)
  show wf: "pool_wf (pause_job env i po)"
    using assms m none by (cases "map_of (po_jobs po) i") (simp_all add: wf_marks)
  assume r: "runs_job j (pause_job env i po)"
  show "j \<noteq> i \<and> runs_job j po"
  proof (cases "map_of (po_jobs po) i")
    case (Some a)
    then obtain aa where aa: "map_of (po_jobs po) j = Some aa" "\<not> (marks po)[a := True] ! aa"
      using r m by (auto simp: runs_marks[OF wf])
    have "a < length (marks po)" using Some assms by (auto simp: wf_marks dest!: map_of_SomeD)
    then have "aa \<noteq> a" using aa(2) by auto
    then show ?thesis using aa Some by (auto simp: runs_marks[OF assms])
  qed (use r none in \<open>auto simp: runs_job_iff\<close>)
qed

lemma pool_resume_laws:
  assumes "pool_wf po"
  shows "pool_wf (resume_job env i po)" "runs_job j (resume_job env i po) \<Longrightarrow> j = i \<or> runs_job j po"
proof -
  have m: "marks (resume_job env i po) = (marks po)[a := False]" "po_jobs (resume_job env i po) = po_jobs po"
    if "map_of (po_jobs po) i = Some a" for a
    using that assms by (auto simp: resume_job_def pool_wf_def intro!: marks_flag dest!: map_of_SomeD)
  have none: "resume_job env i po = po" if "map_of (po_jobs po) i = None"
    using that by (simp add: resume_job_def)
  show wf: "pool_wf (resume_job env i po)"
    using assms m none by (cases "map_of (po_jobs po) i") (simp_all add: wf_marks)
  assume r: "runs_job j (resume_job env i po)"
  show "j = i \<or> runs_job j po"
  proof (cases "map_of (po_jobs po) i")
    case (Some a)
    then obtain aa where aa: "map_of (po_jobs po) j = Some aa" "\<not> (marks po)[a := False] ! aa"
      using r m by (auto simp: runs_marks[OF wf])
    show ?thesis
    proof (cases "aa = a")
      case True
      then show ?thesis using address_inj[OF assms Some] aa(1) by auto
    next
      case False
      then show ?thesis using aa by (auto simp: runs_marks[OF assms])
    qed
  qed (use r none in auto)
qed

lemma forget_laws:
  assumes "pool_wf po" "po_jobs po' = AList.delete i (po_jobs po)" "marks po' = marks po"
  shows "pool_wf po'" "runs_job j po' \<Longrightarrow> j \<noteq> i \<and> runs_job j po"
proof -
  have sub: "set (AList.delete i (po_jobs po)) \<subseteq> set (po_jobs po)" by (auto simp: AList.delete_eq)
  show wf: "pool_wf po'"
    using assms sub by (auto simp: wf_marks AList.delete_eq distinct_map_filter)
  show "runs_job j po' \<Longrightarrow> j \<noteq> i \<and> runs_job j po"
    using assms wf by (auto simp: runs_marks AList.delete_conv split: if_splits)
qed

lemma delete_absent: "map_of xs i = None \<Longrightarrow> AList.delete i xs = xs"
  by (simp add: map_of_eq_None_iff AList.delete_id)

lemma pool_release_laws:
  assumes "pool_wf po"
  shows "pool_wf (release_completed_job i po)" "runs_job j (release_completed_job i po) \<Longrightarrow> j \<noteq> i \<and> runs_job j po"
proof -
  have "po_jobs (release_completed_job i po) = AList.delete i (po_jobs po) \<and>
      marks (release_completed_job i po) = marks po"
  proof (cases "map_of (po_jobs po) i")
    case (Some a)
    have "marks (po\<lparr>po_jobs := js\<rparr>) = marks po" for js by (simp add: marks_def)
    then show ?thesis using Some by (simp add: release_completed_job_def marks_upd)
  qed (simp add: release_completed_job_def delete_absent)
  then show "pool_wf (release_completed_job i po)" "runs_job j (release_completed_job i po) \<Longrightarrow> j \<noteq> i \<and> runs_job j po"
    by (blast intro: forget_laws(1)[OF assms] dest: forget_laws(2)[OF assms, rotated 2])+
qed

lemma pool_cancel_laws:
  assumes "pool_wf po"
  shows "pool_wf (cancel_job i po)" "runs_job j (cancel_job i po) \<Longrightarrow> j \<noteq> i \<and> runs_job j po"
proof -
  have "po_jobs (cancel_job i po) = AList.delete i (po_jobs po) \<and> marks (cancel_job i po) = marks po"
  proof (cases "map_of (po_jobs po) i")
    case (Some a)
    have "marks (p\<lparr>po_queue := s\<rparr>) = marks p" "marks (p\<lparr>po_jobs := js\<rparr>) = marks p" for p s js
      by (simp_all add: marks_def)
    then show ?thesis using Some by (simp add: cancel_job_def Let_def marks_upd)
  qed (simp add: cancel_job_def delete_absent)
  then show "pool_wf (cancel_job i po)" "runs_job j (cancel_job i po) \<Longrightarrow> j \<noteq> i \<and> runs_job j po"
    by (blast intro: forget_laws(1)[OF assms] dest: forget_laws(2)[OF assms, rotated 2])+
qed

section \<open>Submission\<close>

lemma built_context:
  "build_job_submission env job ch enabled disk = (ctx, items) \<Longrightarrow> jc_job_id ctx = nj_id job"
  by (auto simp: build_job_submission_def Let_def job_context_new_def)

lemma marks_release:
  "release_held e (ctx_at po a) q = (r, ctx, q') \<Longrightarrow>
    marks (po\<lparr>po_ctxs := (po_ctxs po)[a := if b then ctx else emit_terminal env ctx], po_queue := q'\<rparr>) = marks po"
  using paused_release[of e "ctx_at po a" q]
  by (cases "a < length (po_ctxs po)")
    (auto simp: marks_def map_update ctx_at_def list_update_same_conv list_update_beyond)

lemma values_update: "snd ` set (AList.update k v xs) \<subseteq> insert v (snd ` set xs)"
  by (induction xs) auto

lemma distinct_values_update:
  "distinct (map snd xs) \<Longrightarrow> v \<notin> snd ` set xs \<Longrightarrow> distinct (map snd (AList.update k v xs))"
proof (induction xs)
  case (Cons x xs)
  have "snd x \<notin> snd ` set (AList.update k v xs)"
    using Cons.prems values_update[of k v xs] by (metis image_eqI insertE insert_iff distinct.simps(2)
      list.set(2) list.simps(9) list.set_map subsetD)
  then show ?case using Cons by (cases x) auto
qed simp

lemma marks_submit:
  assumes "a = length (po_ctxs p0)" "p = p0\<lparr>po_ctxs := po_ctxs p0 @ [ctx]\<rparr>"
  shows "marks (submit_job env a items p) = marks p \<and>
    (po_jobs (submit_job env a items p) = po_jobs p \<or>
     po_jobs (submit_job env a items p) = AList.update (jc_job_id ctx) a (po_jobs p))"
proof (cases "items = []")
  case True
  then show ?thesis by (simp add: submit_job_def marks_upd)
next
  case False
  have id: "jc_job_id (ctx_at p a) = jc_job_id ctx" by (simp add: assms ctx_at_def)
  let ?p1 = "p\<lparr>po_jobs := AList.update (jc_job_id ctx) a (po_jobs p)\<rparr>"
  have m1: "marks ?p1 = marks p" by (simp add: marks_def)
  define held where "held = (po_defer ?p1 \<and> jc_par2_volumes (ctx_at ?p1 a) \<noteq> [])"
  define hs where "hs = hold items (jc_par2_volumes (ctx_at ?p1 a)) (jc_held (ctx_at ?p1 a))"
  define now where "now = (if held then fst hs else items)"
  define p2 where "p2 = (if held then upd_ctx a (\<lambda>ctx. ctx\<lparr>jc_held := snd hs,
      jc_remaining := usize_sub (jc_remaining ctx) (length items - length now)\<rparr>) ?p1 else ?p1)"
  have p2: "marks p2 = marks p" "po_jobs p2 = AList.update (jc_job_id ctx) a (po_jobs p)"
    unfolding p2_def by (auto simp: marks_upd m1)
  have e: "submit_job env a items p =
    (if now = [] then (case release_held True (ctx_at p2 a) (po_queue p2) of
        (released, ctx, q) \<Rightarrow> p2\<lparr>po_ctxs := (po_ctxs p2)[a := if released then ctx else emit_terminal env ctx], po_queue := q\<rparr>)
     else report_provider_outage env (upd_queue (submit_items now) p2))"
    using False unfolding submit_job_def Let_def id held_def[symmetric]
    by (auto simp: p2_def now_def hs_def split: prod.split if_splits)
  show ?thesis
    using p2 marks_release[of True p2 a "po_queue p2"] marks_outage[of env "upd_queue (submit_items now) p2"]
    unfolding e by (auto split: prod.split)
qed

lemma pool_submit_laws:
  assumes "pool_wf po"
  shows "pool_wf (pool_submit_job env disk job po)"
    "runs_job j (pool_submit_job env disk job po) \<Longrightarrow> j = nj_id job \<or> runs_job j po"
proof -
  obtain ctx items where b: "build_job_submission env job progress_channel_new
      (map sc_id (filter sc_enabled (po_servers po))) disk = (ctx, items)"
    by (cases "build_job_submission env job progress_channel_new (map sc_id (filter sc_enabled (po_servers po))) disk")
  define p where "p = po\<lparr>po_ctxs := po_ctxs po @ [ctx]\<rparr>"
  define p' where "p' = submit_job env (length (po_ctxs po)) items p"
  have s: "pool_submit_job env disk job po = p'" by (simp add: pool_submit_job_def b p'_def p_def)
  have m: "marks p' = marks po @ [jc_paused ctx]"
    and jobs: "po_jobs p' = po_jobs po \<or> po_jobs p' = AList.update (nj_id job) (length (po_ctxs po)) (po_jobs po)"
    using marks_submit[OF refl p_def, of env items] built_context[OF b]
    by (auto simp: p'_def p_def marks_def)
  have fresh: "length (po_ctxs po) \<notin> snd ` set (po_jobs po)" using assms by (auto simp: pool_wf_def)
  have old: "\<forall>a \<in> snd ` set (po_jobs po). a < length (po_ctxs po)" using assms by (simp add: pool_wf_def)
  have new: "\<forall>a \<in> snd ` set (AList.update (nj_id job) (length (po_ctxs po)) (po_jobs po)). a < Suc (length (po_ctxs po))"
  proof
    fix a assume "a \<in> snd ` set (AList.update (nj_id job) (length (po_ctxs po)) (po_jobs po))"
    with values_update[of "nj_id job" "length (po_ctxs po)" "po_jobs po"]
    have "a = length (po_ctxs po) \<or> a \<in> snd ` set (po_jobs po)" by blast
    then show "a < Suc (length (po_ctxs po))" using old by (auto intro: less_SucI)
  qed
  show wf: "pool_wf (pool_submit_job env disk job po)"
    unfolding s wf_marks m using jobs
  proof
    assume "po_jobs p' = po_jobs po"
    then show "distinct (map fst (po_jobs p')) \<and> distinct (map snd (po_jobs p')) \<and>
        (\<forall>a \<in> snd ` set (po_jobs p'). a < length (marks po @ [jc_paused ctx]))"
      using assms by (auto simp: wf_marks intro: less_SucI)
  next
    assume "po_jobs p' = AList.update (nj_id job) (length (po_ctxs po)) (po_jobs po)"
    then show "distinct (map fst (po_jobs p')) \<and> distinct (map snd (po_jobs p')) \<and>
        (\<forall>a \<in> snd ` set (po_jobs p'). a < length (marks po @ [jc_paused ctx]))"
      using assms new distinct_values_update[OF _ fresh]
      by (simp add: wf_marks distinct_update length_marks)
  qed
  assume r: "runs_job j (pool_submit_job env disk job po)"
  show "j = nj_id job \<or> runs_job j po"
  proof (cases "j = nj_id job")
    case False
    then have "map_of (po_jobs p') j = map_of (po_jobs po) j" using jobs by (auto simp: AList.update_conv')
    then show ?thesis
      using r wf assms m unfolding s runs_marks[OF assms] runs_marks[OF wf[unfolded s]]
      by (auto simp: nth_append wf_marks dest!: map_of_SomeD split: if_splits)
  qed simp
qed

lemma runs_job_has: "runs_job j po \<Longrightarrow> pool_has_job j po"
  by (auto simp: runs_job_iff pool_has_job_def)

text \<open>The pool provides the interface.\<close>

interpretation pool_engine: dispatch_engine "pool_dispatcher env disk" runs_job pool_wf for env disk
  by unfold_locales
    (auto simp: pool_dispatcher_def runs_job_has pool_pause_laws(1) pool_resume_laws(1)
      pool_release_laws(1) pool_cancel_laws(1) pool_submit_laws(1)
      dest: pool_submit_laws(2) pool_pause_laws(2) pool_resume_laws(2) pool_release_laws(2) pool_cancel_laws(2))

lemma pool_new_wf: "pool_wf (pool_new servers)"
  by (simp add: pool_wf_def pool_new_def)

end
