(* ===== verification/Queue_Limits.thy ===== *)
theory Queue_Limits
  imports Queue_Pool Engine_Decode_Proofs
begin

text \<open>
  What the queue manager guarantees over the worker pool: the download limit and the global gate, the
  order in which slots are given, that no slot stays idle; and the histories that break these.
\<close>

section \<open>Slots\<close>

definition slots_filled :: "'p queue_manager \<Rightarrow> bool" where
  "slots_filled q \<longleftrightarrow>
    qm_globally_paused q \<or> (0 < qm_max_active q \<and> qm_max_active q \<le> active_count q) \<or>
    set (qm_order q) \<inter> with_status JS_Queued q = {}"

lemma last_of_order:
  "\<forall>i \<in> set xs \<inter> A. P i \<Longrightarrow>
    \<exists>pre post. xs @ [x] = pre @ x # post \<and> (\<forall>i \<in> set pre \<inter> A. P i) \<and> (\<forall>i \<in> set post \<inter> A. R i)"
  by (rule exI[of _ xs], rule exI[of _ "[]"]) simp

lemma claim_scan_best:
  "(case fold (claim_scan q) xs None of
      None \<Rightarrow> set xs \<inter> with_status JS_Queued q = {}
    | Some (jid, p) \<Rightarrow> p = priority_of q jid \<and> has_status JS_Queued q jid \<and>
        (\<exists>pre post. xs = pre @ jid # post \<and>
          (\<forall>i \<in> set pre \<inter> with_status JS_Queued q. priority_of q i < priority_of q jid) \<and>
          (\<forall>i \<in> set post \<inter> with_status JS_Queued q. priority_of q i \<le> priority_of q jid)))"
proof (induction xs rule: rev_induct)
  case (snoc x xs)
  have scan: "claim_scan q x None = (if has_status JS_Queued q x then Some (x, priority_of q x) else None)"
    "claim_scan q x (Some (b, p)) =
      (if has_status JS_Queued q x \<and> p < priority_of q x then Some (x, priority_of q x) else Some (b, p))" for b p
    by (simp_all add: claim_scan_def)
  show ?case
  proof (cases "fold (claim_scan q) xs None")
    case None
    then have "set xs \<inter> with_status JS_Queued q = {}" using snoc by simp
    then show ?thesis using None last_of_order[of xs "with_status JS_Queued q"]
      by (cases "has_status JS_Queued q x") (simp_all add: scan with_status_def)
  next
    case (Some b)
    obtain jid p where b: "b = (jid, p)" by (cases b)
    from snoc Some b obtain pre post where h: "p = priority_of q jid" "has_status JS_Queued q jid" "xs = pre @ jid # post"
      "\<forall>i \<in> set pre \<inter> with_status JS_Queued q. priority_of q i < priority_of q jid"
      "\<forall>i \<in> set post \<inter> with_status JS_Queued q. priority_of q i \<le> priority_of q jid" by auto
    show ?thesis
    proof (cases "has_status JS_Queued q x \<and> p < priority_of q x")
      case True
      then have "\<forall>i \<in> set xs \<inter> with_status JS_Queued q. priority_of q i < priority_of q x"
        using h by auto (metis IntI less_trans le_less_trans)+
      then show ?thesis using True Some b last_of_order[of xs "with_status JS_Queued q"] by (simp add: scan)
    next
      case False
      then have "\<exists>pre' post'. xs @ [x] = pre' @ jid # post' \<and>
          (\<forall>i \<in> set pre' \<inter> with_status JS_Queued q. priority_of q i < priority_of q jid) \<and>
          (\<forall>i \<in> set post' \<inter> with_status JS_Queued q. priority_of q i \<le> priority_of q jid)"
        using h by (intro exI[of _ pre] exI[of _ "post @ [x]"]) (auto simp: with_status_def not_less)
      then show ?thesis using False h(1,2) Some b by (simp add: scan) blast
    qed
  qed
qed simp

lemma best_claim_None: "best_claim q = None \<Longrightarrow> set (qm_order q) \<inter> with_status JS_Queued q = {}"
  using claim_scan_best[where q = q and xs = "qm_order q"] by (auto simp: best_claim_def split: option.splits)

lemma start_next_fills: "slots_filled (start_next_queued D E q)"
proof (induction "queued_count q" arbitrary: q rule: less_induct)
  case less
  obtain r q' where c: "claim_next_download_slot (qm_max_active q) q = (r, q')"
    by (cases "claim_next_download_slot (qm_max_active q) q")
  show ?case
  proof (cases r)
    case None
    then have "q' = q" "slots_filled q"
      using c best_claim_None
      by (auto simp: claim_next_download_slot_def slots_filled_def split: if_splits option.splits)
    then show ?thesis using c None by (simp add: start_next_queued.simps[of D E q])
  next
    case (Some jid)
    have "queued_count (start_job D E jid q') < queued_count q"
      using claim_queued_count start_job_queued_count c Some by (metis le_less_trans)
    from less.hyps[OF this] show ?thesis using c Some by (simp add: start_next_queued.simps[of D E q])
  qed
qed

text \<open>C23. No slot stays idle: after a download finished or was aborted, after the limit changed and after
  everything was resumed, the queue is paused, or the limit is reached, or no job of the order is
  queued.\<close>

theorem no_idle_slot:
  "slots_filled (on_job_finished_update D E ab jid smap failed secs inc q) \<and>
   slots_filled (finish_aborted D E jid reason failed secs q) \<and>
   slots_filled (set_max_active_downloads D E mx q) \<and>
   slots_filled (resume_all D E q)"
proof -
  have "\<not> holds_any (lift_all h)" for h by (simp add: holds_any_def lift_all_def)
  then show ?thesis
    by (auto simp: on_job_finished_update_def finish_aborted_def set_max_active_downloads_def resume_all_def
        resume_hold_def resume_jobs_after_holds_def publish_holds_def Let_def start_next_fills split: option.split)
qed

text \<open>C24. A slot is only given while the queue is not paused and the limit is not reached, to the first of
  the queued jobs with the highest priority: those before it in the order have a lower one, those after
  it no higher one.\<close>

theorem slot_goes_to_highest_priority:
  assumes "claim_next_download_slot mx q = (Some jid, q')"
  shows "\<not> qm_globally_paused q \<and> (mx = 0 \<or> active_count q < mx) \<and> has_status JS_Queued q jid \<and>
    q' = edit_job jid (set_status JS_Downloading) q \<and>
    (\<exists>pre post. qm_order q = pre @ jid # post \<and>
      (\<forall>i \<in> set pre \<inter> with_status JS_Queued q. priority_of q i < priority_of q jid) \<and>
      (\<forall>i \<in> set post \<inter> with_status JS_Queued q. priority_of q i \<le> priority_of q jid))"
proof -
  have c: "\<not> qm_globally_paused q" "mx = 0 \<or> active_count q < mx" "best_claim q = Some jid"
    "q' = edit_job jid (set_status JS_Downloading) q"
    using assms by (auto simp: claim_next_download_slot_def split: if_splits option.splits)
  then show ?thesis
    using claim_scan_best[where q = q and xs = "qm_order q"] by (auto simp: best_claim_def)
qed

section \<open>Reachable states over the pool\<close>

text \<open>C9. Whatever operations are made one after the other from start-up on, the pool never fetches more jobs at once than
  the download limit allows, and none while the queue is globally paused.  An operation is one step here, and resuming a
  job that is shown as downloading is left out: the properties on jobs claimed during a pause and on the resume of a downloading
  job show that without these two restrictions the limit and the pause do not hold.\<close>

theorem dispatcher_respects_limit:
  assumes "queue_reach (pool_dispatcher env disk) runs_job pool_wf q"
  shows "(qm_max_active q = 0 \<or> card {jid. runs_job jid (qm_dispatch q)} \<le> qm_max_active q) \<and>
    (if qm_globally_paused q then {jid. runs_job jid (qm_dispatch q)} = {} else \<not> holds_any (qm_holds q))"
proof -
  have inv: "queue_inv runs_job pool_wf q" using assms by (rule pool_engine.inv_reach)
  then have "card {jid. runs_job jid (qm_dispatch q)} \<le> card (downloading q)"
    by (intro card_mono) (simp_all add: queue_inv_defs)
  then show ?thesis using inv by (auto simp: queue_inv_defs)
qed

text \<open>C25. The types of the states that whole operations reach from start-up on (an operation being one step, and the resume of
  a job shown as downloading left out): a job is stored once, under its own identifier, and its identifier stands
  once in the order; every job the pool fetches is a job of the queue, shown as downloading.\<close>

theorem queue_states_well_formed:
  assumes "queue_reach (pool_dispatcher env disk) runs_job pool_wf q"
  shows "distinct (map fst (qm_jobs q)) \<and> distinct (qm_order q) \<and> fst ` set (qm_jobs q) \<subseteq> set (qm_order q) \<and>
    (\<forall>(jid, s) \<in> set (qm_jobs q). nj_id (js_job s) = jid) \<and>
    {jid. runs_job jid (qm_dispatch q)} \<subseteq> with_status JS_Downloading q"
proof -
  have inv: "queue_inv runs_job pool_wf q" using assms by (rule pool_engine.inv_reach)
  then have "distinct (map fst (qm_jobs q))" by (simp add: queue_inv_def queue_shape_def job_keys_def)
  then have "nj_id (js_job s) = jid" if "(jid, s) \<in> set (qm_jobs q)" for jid s
    using inv that by (simp add: queue_inv_def queue_shape_def job_at_def)
  then show ?thesis using inv by (auto simp: queue_inv_defs queue_shape_def job_keys_def)
qed

section \<open>Faults\<close>

text \<open>C37. A fault.  Resuming a job that is downloading, when the limit is reached, marks it queued and leaves
  the pool alone: the pool goes on fetching it, and its slot counts as free.\<close>

theorem resumed_download_escapes_limit:
  assumes "has_status JS_Downloading q jid" "\<not> qm_globally_paused q" "0 < qm_max_active q"
    and "qm_max_active q \<le> active_count q" "queue_shape q"
  shows "case queue_resume_job D E jid q of (r, q') \<Rightarrow>
    r = None \<and> has_status JS_Queued q' jid \<and> qm_dispatch q' = qm_dispatch q \<and> Suc (active_count q') = active_count q"
proof -
  obtain s where s: "job_at q jid = Some s" using assms(1) by (auto simp: has_status_iff)
  let ?q = "persist_status jid JS_Queued (edit_job jid (set_status JS_Queued) q)"
  have e: "queue_resume_job D E jid q = (None, ?q)"
    using assms s by (simp add: queue_resume_job_def Let_def)
  have has: "has_status JS_Queued ?q jid" "qm_dispatch ?q = qm_dispatch q"
    using s by (simp_all add: persist_status_def has_status_iff job_at_edit)
  have sh: "queue_shape ?q"
    unfolding persist_status_def
    by (rule shape_cong[of "edit_job jid (\<lambda>s. s\<lparr>js_persisted_status := Some JS_Queued\<rparr>) (edit_job jid (set_status JS_Queued) q)"])
      (simp_all add: shape_upd assms(5))
  have jd: "jid \<in> downloading q" using assms(1) by (simp add: with_status_def)
  have "downloading ?q = downloading q - {jid}"
    by (auto simp: with_status_def has_status_iff persist_status_def job_at_edit split: if_splits)
  then have "Suc (card (downloading ?q)) = card (downloading q)"
    using card_Suc_Diff1[of "downloading q" jid] jd by simp
  then show ?thesis
    using active_count_card[of q] active_count_card[of ?q] sh assms(5) has
    by (simp add: e queue_shape_def)
qed

text \<open>C38. A fault.  Removing a downloading job frees its slot, and no queued job takes it: every other job
  stays as it was, so that with no later operation the queued jobs wait although a slot is free.\<close>

theorem removed_job_leaves_slot_idle:
  assumes "has_status JS_Downloading q jid" "qe_db_ok E"
  shows "case queue_remove_job D E jid q of (r, q') \<Rightarrow>
    r = None \<and> with_status JS_Queued q' = with_status JS_Queued q \<and> downloading q' = downloading q - {jid} \<and>
    qm_dispatch q' = ds_cancel_job D jid (qm_dispatch q)"
proof -
  obtain s where s: "job_at q jid = Some s" "job_status_of s = JS_Downloading" using assms(1) by (auto simp: has_status_iff)
  obtain r q' where e: "queue_remove_job D E jid q = (r, q')" by (cases "queue_remove_job D E jid q")
  have q': "r = None \<and> qm_jobs q' = AList.delete jid (qm_jobs q) \<and> qm_dispatch q' = ds_cancel_job D jid (qm_dispatch q)"
    using e s assms(2)
    by (auto simp: queue_remove_job_def Let_def in_post_processing_def persist_global_jobs_def split: if_splits)
  then have "job_at q' j = (if j = jid then None else job_at q j)" for j
    by (simp add: job_at_def AList.delete_conv')
  then show ?thesis using e s q' by (auto simp: with_status_def has_status_iff)
qed

lemma pause_for_hold_fields:
  "qm_holds (pause_for_hold D f q) = cover_windows (f (qm_holds q))"
  "qm_globally_paused (pause_for_hold D f q) = holds_any (cover_windows (f (qm_holds q)))"
  "qm_pause_until (pause_for_hold D f q) = None"
  by (simp_all add: pause_for_hold_def Let_def publish_holds_def pause_jobs_for_global_hold_def persist_global_jobs_def
      with_dispatch_def)

text \<open>C39. A fault.  The disk guard drops the deadline of a timed pause: when space runs out and comes back
  during it, the queue stays paused by the user, no time is left on the pause, and its timer does
  nothing when it fires.\<close>

theorem disk_guard_makes_timed_pause_permanent:
  assumes "ph_disk (qm_holds q) = None"
  shows "let q1 = pause_for D E secs q;
             q2 = enforce_disk_guard D E' True (enforce_disk_guard D E1 False q1)
         in qm_globally_paused q2 \<and> ph_user (qm_holds q2) \<and> ph_disk (qm_holds q2) = None \<and>
            pause_remaining_secs now q2 = None \<and> pause_timer_fires D E2 until q2 = q2"
proof -
  define q1 where "q1 = pause_for D E secs q"
  have q1: "ph_user (qm_holds q1)" "ph_disk (qm_holds q1) = None"
    using assms by (simp_all add: q1_def pause_for_def pause_all_def pause_for_hold_fields hold_user_def cover_windows_def)
  define q2 where "q2 = enforce_disk_guard D E1 False q1"
  have q2: "ph_user (qm_holds q2)" "ph_disk (qm_holds q2) \<noteq> None" "qm_pause_until q2 = None"
    using q1 by (simp_all add: q2_def enforce_disk_guard_def pause_all_with_hold_def pause_for_hold_fields hold_disk_def
        cover_windows_def)
  have "enforce_disk_guard D E' True q2 = publish_holds (lift_disk (qm_holds q2)) q2"
    using q2 by (simp add: enforce_disk_guard_def clear_disk_hold_def resume_hold_def resume_storage_held_jobs_def
        publish_holds_def holds_any_def lift_disk_def Let_def)
  then show ?thesis
    using q2 by (simp add: q1_def[symmetric] q2_def[symmetric] publish_holds_def lift_disk_def holds_any_def
        pause_remaining_secs_def pause_timer_fires_def Let_def)
qed

lemma jobs_pause [simp]: "po_jobs (pause_job env i po) = po_jobs po"
  by (simp add: pause_job_def split: option.split)

lemma fold_pause_jobs: "po_jobs (fold (pause_job env) js po) = po_jobs po"
  by (induction js arbitrary: po) simp_all

lemma runs_resume: "pool_wf po \<Longrightarrow> pool_has_job jid po \<Longrightarrow> runs_job jid (resume_job env jid po)"
proof -
  assume wf: "pool_wf po" and "pool_has_job jid po"
  then obtain a where a: "map_of (po_jobs po) jid = Some a" by (auto simp: pool_has_job_def)
  then have "a < length (po_ctxs po)" using wf by (auto simp: pool_wf_def dest!: map_of_SomeD)
  then show ?thesis using a by (simp add: runs_job_def resume_job_def upd_ctx_def ctx_at_def)
qed

text \<open>C36. A fault.  Claiming a slot and starting the job are two steps, and a global pause fits between them:
  the job it has just paused is then resumed in the pool, which fetches it while the queue is globally
  paused and shows it as paused.\<close>

theorem claimed_job_starts_while_paused:
  assumes "claim_next_download_slot mx q = (Some jid, q1)" "pool_has_job jid (qm_dispatch q)" "pool_wf (qm_dispatch q)"
  shows "let q3 = start_job (pool_dispatcher env disk) E jid (pause_all (pool_dispatcher env disk) q1)
         in qm_globally_paused q3 \<and> has_status JS_Paused q3 jid \<and> runs_job jid (qm_dispatch q3)"
proof -
  have c: "\<not> qm_globally_paused q" "best_claim q = Some jid" "q1 = edit_job jid (set_status JS_Downloading) q"
    using assms(1) by (auto simp: claim_next_download_slot_def split: if_splits option.splits)
  then obtain s where s: "job_at q1 jid = Some s" "job_status_of s = JS_Downloading"
    using best_claim_queued[OF c(2)] by (auto simp: has_status_iff job_at_edit)
  define D where "D = pool_dispatcher env disk"
  define q2 where "q2 = pause_all D q1"
  have paused: "qm_globally_paused q2"
    by (simp add: q2_def pause_all_def pause_for_hold_fields holds_any_def cover_windows_def hold_user_def)
  obtain js where disp: "qm_dispatch q2 = fold (pause_job env) js (qm_dispatch q)"
    using c by (simp add: q2_def pause_all_def pause_for_hold_def Let_def publish_holds_def pause_jobs_for_global_hold_def
        D_def pool_dispatcher_def with_dispatch_def persist_global_jobs_def)
  have st: "has_status JS_Paused q2 jid"
    using c s by (simp add: q2_def pause_all_def pause_for_hold_def Let_def publish_holds_def
        pause_jobs_for_global_hold_def has_status_iff job_at_def map_of_mapped is_startable_def)
  have wf: "pool_wf (fold (pause_job env) js po)" if "pool_wf po" for po js
    using that by (induction js arbitrary: po) (simp_all add: pool_pause_laws(1))
  have has: "pool_has_job jid (qm_dispatch q2)" using assms(2) by (simp add: disp fold_pause_jobs pool_has_job_def)
  have "start_job D E jid q2 = resume_queued_context D E jid q2"
    using has by (simp add: start_job_def D_def pool_dispatcher_def)
  moreover have "runs_job jid (resume_job env jid (qm_dispatch q2))"
    using runs_resume[OF _ has] wf[OF assms(3)] by (simp add: disp)
  moreover have "has_status JS_Paused (resume_queued_context D E jid q2) jid"
    using st by (auto simp: resume_queued_context_def persist_status_def has_status_iff job_at_edit)
  ultimately show ?thesis
    using paused
    by (simp add: Let_def D_def[symmetric] q2_def[symmetric] resume_queued_context_def persist_status_def)
      (simp add: D_def pool_dispatcher_def)
qed

end
