(* ===== verification/Queue_Demo.thy ===== *)
theory Queue_Demo
  imports Queue_Limits
begin

text \<open>Concrete histories of the queue manager over the worker pool.\<close>

definition que_env :: queue_env where
  "que_env =
    \<lparr>qe_now = 0, qe_nzb_row = \<lambda>_. None, qe_parse = \<lambda>_ _. None, qe_checkpoint = \<lambda>_. None, qe_is_dir = \<lambda>_. True,
     qe_space = \<lambda>_. True, qe_incomplete_dir = ''w'', qe_pp_level = \<lambda>_. 3, qe_db_ok = True\<rparr>"

definition que_pool :: pool where
  "que_pool = pool_new [server_config_new ''s'' ''h'']"

definition que_dispatch :: "pool dispatcher" where
  "que_dispatch = pool_dispatcher dec_env Map.empty"

definition que_job :: "byte_string \<Rightarrow> priority \<Rightarrow> nzb_job" where
  "que_job jid pri = (plain_job jid ''w'' 3 [plain_file ''f'' ''a.rar'' 3 [plain_article ''m'' 1 0]])\<lparr>nj_priority := pri\<rparr>"

text \<open>Job \<open>a\<close> is admitted and started, then job \<open>b\<close>, which has to wait.\<close>

definition que_1 :: "pool queue_manager" where
  "que_1 = restore_from_db que_dispatch que_env [] (manager_new 1 no_settings que_pool)"

definition que_2 :: "pool queue_manager" where
  "que_2 = activate_admitted_job que_dispatch que_env (que_job ''a'' Pri_Normal) None que_1"

definition que_3 :: "pool queue_manager" where
  "que_3 = activate_admitted_job que_dispatch que_env (que_job ''b'' Pri_High) None que_2"

definition que_a :: nzb_job where
  "que_a = (que_job ''a'' Pri_Normal)\<lparr>nj_status := JS_Downloading\<rparr>"

definition que_b :: nzb_job where
  "que_b = que_job ''b'' Pri_High"

definition que_pool_a :: pool where
  "que_pool_a = pool_submit_job dec_env Map.empty que_a que_pool"

definition que_state_a :: job_state where
  "que_state_a = (job_state_new que_a None 0)\<lparr>js_listening := True, js_tracker := Some (hopeless_new 0 que_a)\<rparr>"

lemma que_job_fields [simp]:
  "nj_id (que_job jid pri) = jid" "nj_status (que_job jid pri) = JS_Queued" "nj_priority (que_job jid pri) = pri"
  "nj_downloaded_bytes (que_job jid pri) = 0"
  by (simp_all add: que_job_def plain_job_def)

lemma que_1_eq: "que_1 = (manager_new 1 no_settings que_pool)\<lparr>qm_holds := restore_holds no_settings\<rparr>"
  by (simp add: que_1_def restore_from_db_def Let_def manager_new_def holds_any_def restore_holds_def flag_of_def no_settings_def)

lemma que_not_known: "\<not> pool_has_job jid que_pool"
  by (simp add: pool_has_job_def que_pool_def pool_new_def)

lemma que_2_eq:
  "que_2 = que_1\<lparr>qm_jobs := [(''a'', que_state_a)], qm_order := [''a''], qm_dispatch := que_pool_a\<rparr>"
proof -
  define q where "q = que_1\<lparr>qm_jobs := [(''a'', job_state_new (que_job ''a'' Pri_Normal) None 0)], qm_order := [''a'']\<rparr>"
  have q: "que_2 = start_next_queued que_dispatch que_env q"
    by (simp add: que_2_def q_def activate_admitted_job_def Let_def que_1_eq manager_new_def que_job_def plain_job_def)
  have claim: "claim_next_download_slot (qm_max_active q) q = (Some ''a'', q\<lparr>qm_jobs := [(''a'', job_state_new que_a None 0)]\<rparr>)"
    by (simp add: claim_next_download_slot_def q_def que_1_eq manager_new_def active_count_def job_status_of_def job_state_new_def
        best_claim_def claim_scan_def has_status_def job_at_def edit_job_def set_status_def que_a_def)
  let ?q1 = "q\<lparr>qm_jobs := [(''a'', que_state_a)], qm_dispatch := que_pool_a\<rparr>"
  have start: "start_job que_dispatch que_env ''a'' (q\<lparr>qm_jobs := [(''a'', job_state_new que_a None 0)]\<rparr>) = ?q1"
    by (simp add: start_job_def que_dispatch_def pool_dispatcher_def q_def que_1_eq manager_new_def que_not_known
        launch_download_def Let_def edit_job_def job_at_def load_nzb_def que_env_def job_state_new_def with_dispatch_def
        que_pool_a_def que_state_a_def)
  have "claim_next_download_slot (qm_max_active ?q1) ?q1 = (None, ?q1)"
    by (simp add: claim_next_download_slot_def q_def que_1_eq manager_new_def active_count_def job_status_of_def job_state_new_def
        que_state_a_def que_a_def)
  then have "start_next_queued que_dispatch que_env ?q1 = ?q1"
    by (simp add: start_next_queued.simps[of _ _ ?q1])
  then show ?thesis unfolding q by (simp add: start_next_queued.simps[of _ _ q] claim start) (simp add: q_def)
qed

lemma que_3_eq:
  "que_3 = que_2\<lparr>qm_jobs := [(''a'', que_state_a), (''b'', job_state_new que_b None 0)], qm_order := [''a'', ''b'']\<rparr>"
proof -
  let ?q = "que_2\<lparr>qm_jobs := [(''a'', que_state_a), (''b'', job_state_new que_b None 0)], qm_order := [''a'', ''b'']\<rparr>"
  have "que_3 = start_next_queued que_dispatch que_env ?q"
    by (simp add: que_3_def activate_admitted_job_def Let_def que_2_eq que_1_eq manager_new_def que_b_def que_job_def plain_job_def)
  moreover have "claim_next_download_slot (qm_max_active ?q) ?q = (None, ?q)"
    by (simp add: claim_next_download_slot_def que_2_eq que_1_eq manager_new_def active_count_def job_status_of_def job_state_new_def
        que_state_a_def que_a_def que_b_def)
  ultimately show ?thesis by (simp add: start_next_queued.simps[of _ _ ?q])
qed

lemma que_runs: "runs_job ''a'' que_pool_a" "\<not> runs_job ''b'' que_pool_a" "\<not> pool_has_job ''b'' que_pool_a"
  by (code_simp, code_simp, code_simp)

lemma que_3_facts:
  "has_status JS_Downloading que_3 ''a''" "has_status JS_Queued que_3 ''b''" "qm_max_active que_3 = 1"
  "active_count que_3 = 1" "\<not> qm_globally_paused que_3" "qm_dispatch que_3 = que_pool_a" "ph_disk (qm_holds que_3) = None"
  "qm_order que_3 = [''a'', ''b'']" "map fst (qm_jobs que_3) = [''a'', ''b'']"
  by (simp_all add: que_3_eq que_2_eq que_1_eq manager_new_def has_status_def job_at_def que_state_a_def job_state_new_def
      job_status_of_def que_a_def que_b_def active_count_def restore_holds_def Let_def no_settings_def)

lemma que_reach: "queue_reach que_dispatch runs_job pool_wf que_3"
proof -
  have "pool_wf que_pool" by (simp add: que_pool_def pool_new_wf)
  moreover have "\<not> runs_job j que_pool" for j using que_not_known[of j] runs_job_has by blast
  ultimately have 1: "queue_reach que_dispatch runs_job pool_wf que_1"
    unfolding que_1_def by (rule queue_reach.start) simp
  have 2: "queue_reach que_dispatch runs_job pool_wf que_2"
    unfolding que_2_def
    by (rule queue_reach.step[OF 1 queue_step.admit]) (simp_all add: que_1_eq manager_new_def job_keys_def)
  show ?thesis
    unfolding que_3_def
    by (rule queue_reach.step[OF 2 queue_step.admit]) (simp_all add: que_2_eq que_1_eq manager_new_def job_keys_def)
qed

theorem dispatcher_respects_limit_witness:
  "runs_job ''a'' (qm_dispatch que_3) \<and> card {jid. runs_job jid (qm_dispatch que_3)} \<le> 1"
  using dispatcher_respects_limit[OF que_reach[unfolded que_dispatch_def]] que_runs(1) by (simp add: que_3_facts)

theorem queue_states_well_formed_witness:
  "distinct (map fst (qm_jobs que_3)) \<and> has_status JS_Downloading que_3 ''a''"
  using queue_states_well_formed[OF que_reach[unfolded que_dispatch_def]] que_runs(1)
  by (auto simp: que_3_facts with_status_def)

text \<open>Both jobs are queued; \<open>b\<close> comes second and has the higher priority.\<close>

definition que_both :: "pool queue_manager" where
  "que_both = que_3\<lparr>qm_jobs := [(''a'', job_state_new (que_job ''a'' Pri_Normal) None 0), (''b'', job_state_new que_b None 0)]\<rparr>"

lemma que_both_claims: "fst (claim_next_download_slot 1 que_both) = Some ''b''"
  by (simp add: que_both_def que_3_eq que_2_eq que_1_eq manager_new_def claim_next_download_slot_def active_count_def
      job_status_of_def job_state_new_def que_b_def best_claim_def claim_scan_def has_status_def job_at_def priority_of_def)

theorem slot_goes_to_highest_priority_witness:
  "has_status JS_Queued que_both ''b'' \<and> active_count que_both < 1"
proof -
  have "claim_next_download_slot 1 que_both = (Some ''b'', snd (claim_next_download_slot 1 que_both))"
    using que_both_claims by (metis prod.collapse)
  from slot_goes_to_highest_priority[OF this] show ?thesis by simp
qed

lemma que_shape: "queue_shape que_3"
  using pool_engine.inv_reach[OF que_reach[unfolded que_dispatch_def]] by (simp add: queue_inv_def)

text \<open>The pool goes on fetching \<open>a\<close> while no job counts as active.\<close>

theorem resumed_download_escapes_limit_witness:
  "case queue_resume_job que_dispatch que_env ''a'' que_3 of (r, q) \<Rightarrow>
    has_status JS_Queued q ''a'' \<and> active_count q = 0 \<and> runs_job ''a'' (qm_dispatch q)"
  using resumed_download_escapes_limit[OF que_3_facts(1) que_3_facts(5) _ _ que_shape, of que_dispatch que_env] que_runs(1)
  by (auto simp: que_3_facts)

theorem removed_job_leaves_slot_idle_witness:
  "case queue_remove_job que_dispatch que_env ''a'' que_3 of (r, q) \<Rightarrow>
    has_status JS_Queued q ''b'' \<and> with_status JS_Downloading q = with_status JS_Downloading que_3 - {''a''}"
proof -
  obtain r q where e: "queue_remove_job que_dispatch que_env ''a'' que_3 = (r, q)" by (cases "queue_remove_job que_dispatch que_env ''a'' que_3")
  have "qe_db_ok que_env" by (simp add: que_env_def)
  from removed_job_leaves_slot_idle[OF que_3_facts(1) this, of que_dispatch] e que_3_facts(2) show ?thesis
    by (auto simp: with_status_def)
qed

theorem disk_guard_makes_timed_pause_permanent_witness:
  "qm_globally_paused (enforce_disk_guard que_dispatch que_env True
    (enforce_disk_guard que_dispatch que_env False (pause_for que_dispatch que_env 60 que_3)))"
  using disk_guard_makes_timed_pause_permanent[OF que_3_facts(7), of que_dispatch que_env 60 que_env que_env]
  by (simp add: Let_def)

text \<open>Job \<open>a\<close> was given up for a slot and waits with its context; no job downloads.\<close>

definition que_waiting :: "pool queue_manager" where
  "que_waiting = que_3\<lparr>qm_jobs := [(''a'', job_state_new (que_job ''a'' Pri_Normal) None 0)],
     qm_dispatch := pause_job dec_env ''a'' que_pool_a\<rparr>"

lemma que_waiting_claims: "fst (claim_next_download_slot 1 que_waiting) = Some ''a''"
  by (simp add: que_waiting_def que_3_eq que_2_eq que_1_eq manager_new_def claim_next_download_slot_def active_count_def
      job_status_of_def job_state_new_def best_claim_def claim_scan_def has_status_def job_at_def priority_of_def)

theorem claimed_job_starts_while_paused_witness:
  "let q3 = start_job que_dispatch que_env ''a'' (pause_all que_dispatch (snd (claim_next_download_slot 1 que_waiting)))
   in qm_globally_paused q3 \<and> runs_job ''a'' (qm_dispatch q3)"
proof -
  have c: "claim_next_download_slot 1 que_waiting = (Some ''a'', snd (claim_next_download_slot 1 que_waiting))"
    using que_waiting_claims by (metis prod.collapse)
  have "pool_has_job ''a'' (qm_dispatch que_waiting)" "pool_wf (qm_dispatch que_waiting)"
    using que_runs(1) runs_job_has[of "''a''" que_pool_a] pool_submit_laws(1)[OF pool_new_wf, of dec_env Map.empty que_a]
    by (simp_all add: que_waiting_def pool_has_job_def que_pool_a_def que_pool_def pool_pause_laws(1))
  from claimed_job_starts_while_paused[OF c this, of dec_env Map.empty que_env] show ?thesis
    by (simp add: Let_def que_dispatch_def)
qed

end
