(* ===== verification/Core_Path.thy ===== *)
theory Core_Path
  imports Prelude
begin

text \<open>
  Names and paths from outside (\<open>crates/nzb-core/src/path.rs\<close>): joining an untrusted name beneath a directory,
  turning a job name into a directory name, and splitting a password off it.  A string is the list of
  its code points (integers); its length in bytes is that of the UTF-8 form.  Paths are those of Unix: a path is its
  components, absolute or not.  NFC normalisation (crate \<open>unicode_normalization\<close>) is a parameter.
\<close>

type_synonym utext = "int list"

definition lit :: "string \<Rightarrow> utext" where
  "lit s = map of_char s"

section \<open>Characters and strings\<close>

definition is_control :: "int \<Rightarrow> bool" where
  "is_control c \<longleftrightarrow> c < 32 \<or> (127 \<le> c \<and> c < 160)"

definition is_whitespace :: "int \<Rightarrow> bool" where
  "is_whitespace c \<longleftrightarrow>
    (9 \<le> c \<and> c \<le> 13) \<or> c = 32 \<or> c = 133 \<or> c = 160 \<or> c = 5760 \<or> (8192 \<le> c \<and> c \<le> 8202) \<or> c = 8232 \<or>
    c = 8233 \<or> c = 8239 \<or> c = 8287 \<or> c = 12288"

definition is_bidi_or_invisible_control :: "int \<Rightarrow> bool" where
  "is_bidi_or_invisible_control c \<longleftrightarrow>
    (8234 \<le> c \<and> c \<le> 8238) \<or> (8294 \<le> c \<and> c \<le> 8297) \<or> c = 8206 \<or> c = 8207 \<or> c = 1564 \<or> c = 8203 \<or> c = 65279"

definition utf8_len :: "int \<Rightarrow> nat" where
  "utf8_len c = (if c < 128 then 1 else if c < 2048 then 2 else if c < 65536 then 3 else 4)"

definition byte_len :: "utext \<Rightarrow> nat" where
  "byte_len s = sum_list (map utf8_len s)"

definition trim_matches :: "(int \<Rightarrow> bool) \<Rightarrow> utext \<Rightarrow> utext" where
  "trim_matches P s = rev (dropWhile P (rev (dropWhile P s)))"

fun split_at_char :: "int \<Rightarrow> utext \<Rightarrow> utext list" where
  "split_at_char x [] = [[]]"
| "split_at_char x (c # cs) =
    (if c = x then [] # split_at_char x cs
     else (case split_at_char x cs of p # ps \<Rightarrow> (c # p) # ps | [] \<Rightarrow> [[c]]))"

text \<open>The longest prefix of whole characters within a number of bytes.\<close>

fun truncate_bytes :: "nat \<Rightarrow> utext \<Rightarrow> utext" where
  "truncate_bytes n [] = []"
| "truncate_bytes n (c # cs) = (if utf8_len c \<le> n then c # truncate_bytes (n - utf8_len c) cs else [])"

fun find_text :: "utext \<Rightarrow> utext \<Rightarrow> nat option" where
  "find_text pat [] = (if pat = [] then Some 0 else None)"
| "find_text pat (c # cs) =
    (if take (length pat) (c # cs) = pat then Some 0 else map_option Suc (find_text pat cs))"

text \<open>The last occurrence of a pattern that is not empty.\<close>

fun rfind_text :: "utext \<Rightarrow> utext \<Rightarrow> nat option" where
  "rfind_text pat [] = None"
| "rfind_text pat (c # cs) =
    (case rfind_text pat cs of
       Some i \<Rightarrow> Some (Suc i)
     | None \<Rightarrow> if take (length pat) (c # cs) = pat then Some 0 else None)"

definition ascii_upper :: "utext \<Rightarrow> utext" where
  "ascii_upper s = map (\<lambda>c. if 97 \<le> c \<and> c \<le> 122 then c - 32 else c) s"

section \<open>Paths\<close>

record fs_path =
  fp_absolute :: bool
  fp_parts :: "utext list"

definition push_component :: "utext \<Rightarrow> fs_path \<Rightarrow> fs_path" where
  "push_component c p = p\<lparr>fp_parts := fp_parts p @ [c]\<rparr>"

fun join_components :: "utext list \<Rightarrow> fs_path \<Rightarrow> fs_path option" where
  "join_components [] out = Some out"
| "join_components (c # cs) out =
    (if c = [] \<or> c = lit ''.'' then join_components cs out
     else if c = lit ''..'' then None
     else join_components cs (push_component c out))"

definition path_starts_with :: "fs_path \<Rightarrow> fs_path \<Rightarrow> bool" where
  "path_starts_with p dir \<longleftrightarrow>
    fp_absolute p = fp_absolute dir \<and> take (length (fp_parts dir)) (fp_parts p) = fp_parts dir"

definition slashes :: "utext \<Rightarrow> utext" where
  "slashes s = map (\<lambda>c. if c = 92 then 47 else c) s"

definition safe_join :: "fs_path \<Rightarrow> utext \<Rightarrow> fs_path option" where
  "safe_join dir name =
    (let normalized = slashes name in
     if normalized = [] \<or> hd normalized = 47 \<or>
        (case normalized of a # b # _ \<Rightarrow> utf8_len a = 1 \<and> b = 58 | _ \<Rightarrow> False) \<or>
        list_ex is_control normalized
     then None
     else
       (case join_components (split_at_char 47 normalized) dir of
          None \<Rightarrow> None
        | Some out \<Rightarrow> if path_starts_with out dir then Some out else None))"

definition safe_component :: "utext \<Rightarrow> utext option" where
  "safe_component v =
    (if v = [] \<or> v = lit ''.'' \<or> v = lit ''..'' \<or> 47 \<in> set v \<or> 92 \<in> set v \<or> list_ex is_control v \<or>
        list_ex is_bidi_or_invisible_control v
     then None else Some v)"

text \<open>The path a text names, and \<open>category_output_root\<close>.\<close>

definition path_of :: "utext \<Rightarrow> fs_path" where
  "path_of s =
    \<lparr>fp_absolute = (s \<noteq> [] \<and> hd s = 47),
     fp_parts = filter (\<lambda>c. c \<noteq> [] \<and> c \<noteq> lit ''.'') (split_at_char 47 s)\<rparr>"

definition category_output_root :: "fs_path \<Rightarrow> utext \<Rightarrow> fs_path option" where
  "category_output_root complete_dir output_dir =
    (if fp_absolute (path_of output_dir)
     then (if lit ''..'' \<notin> set (fp_parts (path_of output_dir)) \<and> \<not> list_ex is_control output_dir
           then Some (path_of output_dir) else None)
     else safe_join complete_dir output_dir)"

section \<open>Job names\<close>

definition MAX_JOB_NAME_BYTES :: nat where "MAX_JOB_NAME_BYTES = 240"
definition UNNAMED_JOB :: utext where "UNNAMED_JOB = lit ''unnamed''"

definition is_windows_reserved_name :: "utext \<Rightarrow> bool" where
  "is_windows_reserved_name name \<longleftrightarrow>
    (let stem = rev (dropWhile is_whitespace (rev (hd (split_at_char 46 name))));
         upper = ascii_upper stem
     in upper \<in> set (map lit [''CON'', ''PRN'', ''AUX'', ''NUL'']) \<or>
        (length upper = 4 \<and> (take 3 upper = lit ''COM'' \<or> take 3 upper = lit ''LPT'') \<and>
         49 \<le> upper ! 3 \<and> upper ! 3 \<le> 57))"

text \<open>What one character is replaced by; \<open>acc\<close> is the text so far and \<open>nxt\<close> what follows.\<close>

definition clean_char :: "utext \<Rightarrow> utext \<Rightarrow> int \<Rightarrow> utext" where
  "clean_char acc nxt c =
    (if c = 58 then
       (if (nxt \<noteq> [] \<and> is_whitespace (hd nxt)) \<and> \<not> (acc \<noteq> [] \<and> is_whitespace (last acc)) then [32, 45] else [45])
     else if c \<in> set (lit ''<>/|?*'') \<or> c = 34 \<or> c = 92 then [95]
     else if is_control c then [95]
     else if is_bidi_or_invisible_control c then []
     else [c])"

fun clean_from :: "utext \<Rightarrow> utext \<Rightarrow> utext" where
  "clean_from acc [] = acc"
| "clean_from acc (c # cs) = clean_from (acc @ clean_char acc cs c) cs"

definition trim_name :: "utext \<Rightarrow> utext" where
  "trim_name s = trim_matches (\<lambda>c. is_whitespace c \<or> c = 46) s"

definition sanitize_job_name :: "(utext \<Rightarrow> utext) \<Rightarrow> utext \<Rightarrow> utext" where
  "sanitize_job_name nfc name =
    (let trimmed = trim_name (clean_from [] (nfc name)) in
     if trimmed = [] then UNNAMED_JOB
     else
       let out = (if is_windows_reserved_name trimmed then 95 # trimmed else trimmed) in
       if MAX_JOB_NAME_BYTES < byte_len out then trim_name (truncate_bytes MAX_JOB_NAME_BYTES out) else out)"

section \<open>Passwords in job names\<close>

lemma rfind_text_less: "rfind_text pat s = Some i \<Longrightarrow> i < length s"
  by (induction s arbitrary: i) (auto split: option.splits if_splits)

function strip_nzb_extensions :: "utext \<Rightarrow> utext" where
  "strip_nzb_extensions name =
    (let base_start = (case rfind_text [47] name of Some i \<Rightarrow> i + 1 | None \<Rightarrow> 0);
         base = drop base_start name;
         leading = length (takeWhile (\<lambda>c. c = 46) base)
     in (case rfind_text [46] (drop leading base) of
           None \<Rightarrow> name
         | Some i \<Rightarrow>
             let dot = i + leading in
             if ascii_upper (drop dot base) \<in> set (map lit [''.NZB'', ''.PAR'', ''.PAR2''])
             then strip_nzb_extensions (take (base_start + dot) name) else name))"
  by pat_completeness auto

termination
proof (relation "measure length", goal_cases)
  case (2 name base_start base leading i dot)
  then show ?case by (auto dest!: rfind_text_less)
qed simp

declare strip_nzb_extensions.simps [simp del]

definition strip_ends :: "utext \<Rightarrow> utext" where
  "strip_ends s = trim_matches (\<lambda>c. c = 46 \<or> c = 32) s"

text \<open>A name that ends at \<open>n\<close> with a password from \<open>m\<close> on, unless the name is empty; then one definition per form.\<close>

definition password_from :: "nat \<Rightarrow> utext \<Rightarrow> utext \<Rightarrow> (utext \<times> utext) option" where
  "password_from n password name =
    (if strip_ends (take n name) \<noteq> [] then Some (strip_ends (take n name), password) else None)"

definition spaced_slash :: "nat \<Rightarrow> utext \<Rightarrow> (utext \<times> utext) option" where
  "spaced_slash s name =
    (if map_option Suc (find_text (lit '' / '') name) = Some s
     then password_from (s - 1) (drop (s + 2) name) name else None)"

definition plain_slash :: "utext \<Rightarrow> (utext \<times> utext) option" where
  "plain_slash name =
    (case find_text [47] name of
       Some s \<Rightarrow> if 0 < s then password_from s (drop (s + 1) name) name else None
     | None \<Rightarrow> None)"

definition braces_at :: "utext \<Rightarrow> nat" where
  "braces_at name = (case find_text (lit ''{{'') (drop 1 name) of Some i \<Rightarrow> i + 1 | None \<Rightarrow> length name)"

definition slash_form :: "utext \<Rightarrow> (utext \<times> utext) option" where
  "slash_form name =
    (case find_text [47] name of
       Some s \<Rightarrow>
         if 0 < s \<and> s < braces_at name \<and> find_text (lit ''password='') name = None
         then (case spaced_slash s name of Some r \<Rightarrow> Some r | None \<Rightarrow> plain_slash name) else None
     | None \<Rightarrow> None)"

definition password_form :: "utext \<Rightarrow> (utext \<times> utext) option" where
  "password_form name =
    (case find_text (lit ''password='') name of
       Some p \<Rightarrow> if 0 < p then password_from p (drop (p + 9) name) name else None
     | None \<Rightarrow> None)"

definition braces_form :: "utext \<Rightarrow> (utext \<times> utext) option" where
  "braces_form name =
    (if braces_at name < length name then
       (case rfind_text (lit ''}}'') name of
          Some closing \<Rightarrow>
            if braces_at name < closing
            then password_from (braces_at name)
                   (take (closing - (braces_at name + 2)) (drop (braces_at name + 2) name)) name
            else None
        | None \<Rightarrow> None)
     else None)"

definition split_job_password :: "utext \<Rightarrow> (utext \<times> utext) option" where
  "split_job_password raw =
    (if find_text (lit ''http://'') raw \<noteq> None \<or> find_text (lit ''https://'') raw \<noteq> None then None
     else
       let name = strip_nzb_extensions raw in
       (case slash_form name of
          Some r \<Rightarrow> Some r
        | None \<Rightarrow>
            (case password_form name of
               Some r \<Rightarrow> Some r
             | None \<Rightarrow> (case braces_form name of Some r \<Rightarrow> Some r | None \<Rightarrow> plain_slash name))))"

end
