(* ===== verification/Core_Path_Proofs.thy ===== *)
theory Core_Path_Proofs
  imports Core_Path "HOL-Library.Sublist"
begin

text \<open>
  A joined name stays beneath its directory, a sanitised job name is one safe component within the
  length limit, and a name split off a password is not empty; with the cases in which sanitising
  twice is not sanitising once.
\<close>

section \<open>Trimming, splitting, truncating\<close>

lemma trim_Cons:
  assumes "dropWhile P s = x # xs"
  shows "trim_matches P s = x # rev (dropWhile P (rev xs))"
proof -
  have "\<not> P x" using assms hd_dropWhile[of P s] by simp
  then show ?thesis by (simp add: trim_matches_def assms dropWhile_append)
qed

lemma trim_Nil: "dropWhile P s = [] \<Longrightarrow> trim_matches P s = []"
  unfolding trim_matches_def by (simp del: dropWhile_eq_Nil_conv)

lemma set_trim: "set (trim_matches P s) \<subseteq> set s"
  unfolding trim_matches_def by (metis set_dropWhileD set_rev subsetI)

lemma trim_ends:
  assumes "trim_matches P s \<noteq> []"
  shows "\<not> P (hd (trim_matches P s))" "\<not> P (last (trim_matches P s))"
proof -
  obtain x xs where d: "dropWhile P s = x # xs" using assms trim_Nil by (metis list.exhaust)
  show "\<not> P (hd (trim_matches P s))" using hd_dropWhile[of P s] by (simp add: trim_Cons[OF d] d)
  have "rev (trim_matches P s) = dropWhile P (rev (dropWhile P s))" by (simp add: trim_matches_def)
  then show "\<not> P (last (trim_matches P s))"
    using assms hd_dropWhile[of P "rev (dropWhile P s)"] by (metis hd_rev rev_is_Nil_conv)
qed

lemma trim_id: "s = [] \<or> (\<not> P (hd s) \<and> \<not> P (last s)) \<Longrightarrow> trim_matches P s = s"
proof (cases "s = []")
  case False
  assume "s = [] \<or> (\<not> P (hd s) \<and> \<not> P (last s))"
  then have "dropWhile P s = s" "dropWhile P (rev s) = rev s"
    using False by (simp_all add: dropWhile_eq_self_iff hd_rev)
  then show ?thesis unfolding trim_matches_def by simp
qed (simp add: trim_matches_def)

lemma split_none: "x \<notin> set s \<Longrightarrow> split_at_char x s = [s]"
  by (induction s) auto

lemma split_ne: "split_at_char x s \<noteq> []"
  by (induction s) (auto split: list.split)

lemma split_parts: "p \<in> set (split_at_char x s) \<Longrightarrow> x \<notin> set p \<and> set p \<subseteq> set s"
proof (induction s arbitrary: p)
  case (Cons a s)
  obtain q qs where q: "split_at_char x s = q # qs" using split_ne by (metis list.exhaust)
  have "x \<notin> set q \<and> set q \<subseteq> set s" by (rule Cons.IH) (simp add: q)
  then show ?case using Cons.prems Cons.IH[of p] by (auto simp: q split: if_splits)
qed simp

lemma byte_len_truncate: "byte_len (truncate_bytes n s) \<le> n"
  by (induction n s rule: truncate_bytes.induct) (auto simp: byte_len_def)

lemma byte_len_trim: "byte_len (trim_matches P s) \<le> byte_len s"
proof -
  have d: "byte_len (dropWhile P t) \<le> byte_len t" for t by (induction t) (auto simp: byte_len_def)
  have r: "byte_len (rev t) = byte_len t" for t by (simp add: byte_len_def rev_map[symmetric])
  show ?thesis using d[of "rev (dropWhile P s)"] d[of s] by (simp add: trim_matches_def r)
qed

lemma set_truncate: "set (truncate_bytes n s) \<subseteq> set s"
  by (induction n s rule: truncate_bytes.induct) auto

lemma truncate_hd: "4 \<le> n \<Longrightarrow> s \<noteq> [] \<Longrightarrow> truncate_bytes n s \<noteq> [] \<and> hd (truncate_bytes n s) = hd s"
  by (cases s) (auto simp: utf8_len_def)

lemma trim_keeps_hd: "s \<noteq> [] \<Longrightarrow> \<not> P (hd s) \<Longrightarrow> trim_matches P s \<noteq> [] \<and> hd (trim_matches P s) = hd s"
  using trim_Cons[of P s "hd s" "tl s"] by (cases s) auto

section \<open>Joining\<close>

lemma join_components_parts:
  "join_components cs dir = Some out \<Longrightarrow>
    out = dir\<lparr>fp_parts := fp_parts dir @ filter (\<lambda>c. c \<noteq> [] \<and> c \<noteq> lit ''.'') cs\<rparr> \<and> lit ''..'' \<notin> set cs"
proof (induction cs arbitrary: dir)
  case (Cons c cs)
  show ?case
  proof (cases "c = [] \<or> c = lit ''.''")
    case True
    then show ?thesis using Cons by (auto simp: lit_def)
  next
    case False
    then have "c \<noteq> lit ''..''" "join_components cs (push_component c dir) = Some out"
      using Cons.prems by (auto split: if_splits)
    then show ?thesis using False Cons.IH[of "push_component c dir"] by (simp add: push_component_def)
  qed
qed simp

text \<open>C30. Joining never leaves the directory: what \<open>safe_join\<close> returns is the directory followed by components of
  which none is empty, \<open>.\<close> or \<open>..\<close> and none contains a separator of any platform or a control character.\<close>

theorem safe_join_stays_beneath:
  assumes "safe_join dir name = Some out"
  shows "\<exists>cs. out = dir\<lparr>fp_parts := fp_parts dir @ cs\<rparr> \<and>
    (\<forall>c \<in> set cs. c \<notin> {[], lit ''.'', lit ''..''} \<and> 47 \<notin> set c \<and> 92 \<notin> set c \<and> \<not> list_ex is_control c)"
proof -
  let ?cs = "split_at_char 47 (slashes name)"
  have j: "join_components ?cs dir = Some out" and nc: "\<not> list_ex is_control (slashes name)"
    using assms by (auto simp: safe_join_def Let_def split: if_splits option.splits)
  have "92 \<notin> set (slashes name)" by (auto simp: slashes_def)
  then have "c \<notin> {[], lit ''.'', lit ''..''} \<and> 47 \<notin> set c \<and> 92 \<notin> set c \<and> \<not> list_ex is_control c"
    if "c \<in> set (filter (\<lambda>c. c \<noteq> [] \<and> c \<noteq> lit ''.'') ?cs)" for c
    using that split_parts[of c 47 "slashes name"] join_components_parts[OF j] nc
    by (auto simp: list_ex_iff)
  then show ?thesis using join_components_parts[OF j] by blast
qed

section \<open>Job names\<close>

definition name_char :: "int \<Rightarrow> bool" where
  "name_char c \<longleftrightarrow>
    c \<notin> {58, 34, 92} \<union> set (lit ''<>/|?*'') \<and> \<not> is_control c \<and> \<not> is_bidi_or_invisible_control c"

lemma clean_char_ok: "d \<in> set (clean_char acc nxt c) \<Longrightarrow> name_char d"
  by (auto simp: clean_char_def name_char_def lit_def is_control_def is_bidi_or_invisible_control_def split: if_splits)

lemma clean_from_ok: "d \<in> set (clean_from acc xs) \<Longrightarrow> d \<in> set acc \<or> name_char d"
  by (induction acc xs rule: clean_from.induct) (auto dest: clean_char_ok)

lemma clean_from_id: "\<forall>c \<in> set xs. name_char c \<Longrightarrow> clean_from acc xs = acc @ xs"
  by (induction acc xs rule: clean_from.induct) (auto simp: clean_char_def name_char_def)

text \<open>What every sanitised name satisfies.\<close>

definition tidy :: "utext \<Rightarrow> bool" where
  "tidy s \<longleftrightarrow> s \<noteq> [] \<and> (\<forall>c \<in> set s. name_char c) \<and> \<not> (is_whitespace (hd s) \<or> hd s = 46) \<and>
    \<not> (is_whitespace (last s) \<or> last s = 46) \<and> byte_len s \<le> MAX_JOB_NAME_BYTES"

lemma name_char_95: "name_char 95"
  by (simp add: name_char_def lit_def is_control_def is_bidi_or_invisible_control_def)

lemma sanitize_tidy: "tidy (sanitize_job_name nfc name)"
proof -
  let ?P = "\<lambda>c. is_whitespace c \<or> c = 46"
  define t where "t = trim_name (clean_from [] (nfc name))"
  show ?thesis
  proof (cases "t = []")
    case True
    have "tidy UNNAMED_JOB" by code_simp
    then show ?thesis using True by (simp add: sanitize_job_name_def t_def)
  next
    case False
    define out where "out = (if is_windows_reserved_name t then 95 # t else t)"
    have chars: "\<forall>c \<in> set t. name_char c"
      unfolding t_def trim_name_def using set_trim clean_from_ok[of _ "[]"] by fastforce
    have ends: "\<not> ?P (hd t)" "\<not> ?P (last t)"
      using trim_ends[of ?P "clean_from [] (nfc name)"] False unfolding t_def trim_name_def by auto
    have out: "out \<noteq> []" "\<forall>c \<in> set out. name_char c" "\<not> ?P (hd out)" "\<not> ?P (last out)"
      using False chars ends name_char_95 by (auto simp: out_def is_whitespace_def)
    show ?thesis
    proof (cases "MAX_JOB_NAME_BYTES < byte_len out")
      case True
      let ?u = "truncate_bytes MAX_JOB_NAME_BYTES out"
      have u: "?u \<noteq> [] \<and> hd ?u = hd out" using truncate_hd[OF _ out(1)] by (simp add: MAX_JOB_NAME_BYTES_def)
      have r: "sanitize_job_name nfc name = trim_name ?u"
        using True False by (simp add: sanitize_job_name_def Let_def t_def[symmetric] out_def[symmetric])
      have k: "trim_name ?u \<noteq> [] \<and> hd (trim_name ?u) = hd out"
        using trim_keeps_hd[of ?u ?P] u out(3) by (simp add: trim_name_def)
      then show ?thesis
        unfolding r tidy_def using out(2,3) trim_ends(2)[of ?P ?u] set_trim[of ?P ?u] set_truncate[of MAX_JOB_NAME_BYTES out]
          order_trans[OF byte_len_trim byte_len_truncate, of ?P MAX_JOB_NAME_BYTES out]
        by (auto simp: trim_name_def)
    next
      case False
      then have "sanitize_job_name nfc name = out"
        using \<open>t \<noteq> []\<close> by (simp add: sanitize_job_name_def Let_def t_def[symmetric] out_def[symmetric])
      then show ?thesis using out False by (simp add: tidy_def)
    qed
  qed
qed

lemma tidy_no_separator: "tidy s \<Longrightarrow> 47 \<notin> set s \<and> 92 \<notin> set s \<and> 58 \<notin> set s \<and> \<not> list_ex is_control s \<and>
    \<not> list_ex is_bidi_or_invisible_control s"
  by (auto simp: tidy_def name_char_def lit_def list_ex_iff)

text \<open>C31. Whatever the name and whatever NFC does to it, a sanitised job name is one safe path component: it
  passes \<open>safe_component\<close>, joining it to a directory gives that directory and this one component, and it
  takes at most 240 bytes.\<close>

theorem sanitized_name_is_safe:
  "let out = sanitize_job_name nfc name in
    safe_component out = Some out \<and> safe_join dir out = Some (push_component out dir) \<and>
    byte_len out \<le> MAX_JOB_NAME_BYTES"
proof -
  define out where "out = sanitize_job_name nfc name"
  have t: "tidy out" unfolding out_def by (rule sanitize_tidy)
  note s = tidy_no_separator[OF t]
  have dots: "out \<noteq> lit ''.''" "out \<noteq> lit ''..''" "out \<noteq> []"
    using t by (auto simp: tidy_def lit_def)
  have id: "slashes out = out" unfolding slashes_def using s by (intro map_idI) auto
  have "hd out \<noteq> 47" using s hd_in_set[OF dots(3)] by metis
  moreover have "\<not> (case out of a # b # _ \<Rightarrow> utf8_len a = 1 \<and> b = 58 | _ \<Rightarrow> False)"
    using s by (auto split: list.split)
  ultimately have "safe_join dir out = Some (push_component out dir)"
    using s dots by (simp add: safe_join_def id split_none path_starts_with_def push_component_def)
  moreover have "safe_component out = Some out" using s dots by (simp add: safe_component_def)
  ultimately show ?thesis using t by (simp add: out_def[symmetric] tidy_def)
qed

text \<open>Sanitising a sanitised name changes nothing, if the name is in NFC and is not a device name of Windows.\<close>

theorem sanitize_again:
  assumes "nfc (sanitize_job_name nfc name) = sanitize_job_name nfc name"
    and "\<not> is_windows_reserved_name (sanitize_job_name nfc name)"
  shows "sanitize_job_name nfc (sanitize_job_name nfc name) = sanitize_job_name nfc name"
proof -
  define out where "out = sanitize_job_name nfc name"
  have t: "tidy out" unfolding out_def by (rule sanitize_tidy)
  then have "trim_name (clean_from [] (nfc out)) = out"
    using assms(1) by (simp add: out_def[symmetric] clean_from_id trim_name_def trim_id tidy_def)
  then show ?thesis
    using t assms(2) by (simp add: out_def[symmetric] sanitize_job_name_def[of nfc out] tidy_def)
qed

theorem sanitize_again_witness:
  "sanitize_job_name (\<lambda>s. s) (sanitize_job_name (\<lambda>s. s) (lit '' a:b. '')) = lit ''a-b''"
proof -
  have e: "sanitize_job_name (\<lambda>s. s) (lit '' a:b. '') = lit ''a-b''" "\<not> is_windows_reserved_name (lit ''a-b'')"
    by (code_simp, code_simp)
  show ?thesis using sanitize_again[of "\<lambda>s. s" "lit '' a:b. ''"] e by simp
qed

definition device_names :: "utext list" where
  "device_names = map lit ([''CON'', ''PRN'', ''AUX'', ''NUL''] @
     concat (map (\<lambda>n. [''COM'' @ n, ''LPT'' @ n]) [''1'', ''2'', ''3'', ''4'', ''5'', ''6'', ''7'', ''8'', ''9'']))"

text \<open>A spelling of a device name is a few letters and digits.\<close>

definition alnum :: "int \<Rightarrow> bool" where
  "alnum c \<longleftrightarrow> (48 \<le> c \<and> c \<le> 57) \<or> (65 \<le> c \<and> c \<le> 90) \<or> (97 \<le> c \<and> c \<le> 122)"

lemma alnum_char: "alnum c \<Longrightarrow> name_char c \<and> utf8_len c = 1 \<and> \<not> is_whitespace c \<and> c \<noteq> 46"
  by (auto simp: alnum_def name_char_def lit_def is_control_def is_bidi_or_invisible_control_def utf8_len_def is_whitespace_def)

lemma device_spelling:
  assumes "ascii_upper d \<in> set device_names"
  shows "\<forall>c \<in> set d. alnum c" "length d \<in> {3, 4}" "is_windows_reserved_name d"
proof -
  have u: "\<forall>n \<in> set device_names. (\<forall>c \<in> set n. (48 \<le> c \<and> c \<le> 57) \<or> (65 \<le> c \<and> c \<le> 90)) \<and> length n \<in> {3, 4} \<and>
      (n \<in> set (map lit [''CON'', ''PRN'', ''AUX'', ''NUL'']) \<or>
        (length n = 4 \<and> (take 3 n = lit ''COM'' \<or> take 3 n = lit ''LPT'') \<and> 49 \<le> n ! 3 \<and> n ! 3 \<le> 57))"
    by code_simp
  then have "\<forall>c \<in> set (ascii_upper d). (48 \<le> c \<and> c \<le> 57) \<or> (65 \<le> c \<and> c \<le> 90)" and l: "length (ascii_upper d) \<in> {3, 4}"
    using assms by blast+
  then show a: "\<forall>c \<in> set d. alnum c" by (fastforce simp: ascii_upper_def alnum_def split: if_splits)
  show "length d \<in> {3, 4}" using l by (simp add: ascii_upper_def)
  then have "d \<noteq> []" by auto
  have "46 \<notin> set d" using a alnum_char by blast
  then have "hd (split_at_char 46 d) = d" by (simp add: split_none)
  moreover have "\<not> is_whitespace (last d)" using a alnum_char last_in_set[OF \<open>d \<noteq> []\<close>] by blast
  then have "dropWhile is_whitespace (rev d) = rev d"
    using \<open>d \<noteq> []\<close> by (simp add: dropWhile_eq_self_iff hd_rev)
  then have "rev (dropWhile is_whitespace (rev d)) = d" by simp
  ultimately show "is_windows_reserved_name d"
    using u assms unfolding is_windows_reserved_name_def Let_def by simp
qed

lemma truncate_ascii:
  "\<forall>x \<in> set xs. utf8_len x = 1 \<Longrightarrow> n \<le> length xs \<Longrightarrow> truncate_bytes n (xs @ ys) = take n xs"
proof (induction xs arbitrary: n)
  case Nil
  then show ?case by (cases ys) (auto simp: utf8_len_def)
next
  case (Cons x xs)
  then show ?case by (cases n) auto
qed

lemma trim_spaces:
  assumes "d \<noteq> []" "\<not> P (hd d)" "\<not> P (last d)" "P 32"
  shows "trim_matches P (d @ replicate k 32) = d"
proof -
  have "dropWhile P (d @ replicate k 32) = d @ replicate k 32" using assms(1,2) by (simp add: dropWhile_eq_self_iff)
  moreover have "dropWhile P (replicate k 32 @ rev d) = rev d"
    using assms by (simp add: dropWhile_append dropWhile_eq_self_iff hd_rev)
  ultimately show ?thesis by (simp add: trim_matches_def)
qed

text \<open>A fault.  Device names of Windows are looked for before the name is cut to its length.  Take any spelling of a
  device name, spaces that fill it up to at least 240 bytes, and one more character: the sanitised name is the bare device
  name, although a device name should get a prefix, and sanitising that name again gives another one.\<close>

theorem sanitize_returns_device_name:
  assumes "ascii_upper d \<in> set device_names" "MAX_JOB_NAME_BYTES \<le> length d + k"
    and "name_char c" "\<not> is_whitespace c" "c \<noteq> 46"
    and "nfc (d @ replicate k 32 @ [c]) = d @ replicate k 32 @ [c]" "nfc d = d"
  shows "sanitize_job_name nfc (d @ replicate k 32 @ [c]) = d \<and> is_windows_reserved_name d \<and>
    sanitize_job_name nfc d = 95 # d"
proof -
  let ?P = "\<lambda>c. is_whitespace c \<or> c = 46" and ?in = "d @ replicate k 32 @ [c]"
  note dev = device_spelling[OF assms(1)]
  have ne: "d \<noteq> []" using dev(2) by auto
  have ends: "\<not> ?P (hd d)" "\<not> ?P (last d)" using dev(1) alnum_char hd_in_set[OF ne] last_in_set[OF ne] by blast+
  have sp: "name_char 32" "utf8_len 32 = 1" "is_whitespace 32"
    by (simp_all add: name_char_def lit_def is_control_def is_bidi_or_invisible_control_def utf8_len_def is_whitespace_def)
  have chars: "\<forall>x \<in> set ?in. name_char x" "\<forall>x \<in> set d. name_char x" using dev(1) alnum_char sp(1) assms(3) by auto
  have one: "\<forall>x \<in> set (d @ replicate k 32). utf8_len x = 1" using dev(1) alnum_char sp(2) by auto
  have len: "byte_len d = length d" using dev(1) alnum_char unfolding byte_len_def by (induction d) auto
  have long: "MAX_JOB_NAME_BYTES < byte_len ?in"
    using assms(2) len sp(2) by (simp add: byte_len_def sum_list_replicate utf8_len_def)
  have "trim_name (clean_from [] ?in) = ?in"
    using ne ends assms(4,5) by (simp add: clean_from_id[OF chars(1)] trim_name_def trim_id)
  moreover have "\<not> is_windows_reserved_name ?in"
  proof -
    have "46 \<notin> set ?in" using dev(1) alnum_char assms(5) by auto
    then have s: "hd (split_at_char 46 ?in) = ?in" by (simp add: split_none)
    have r: "rev (dropWhile is_whitespace (rev ?in)) = ?in" using assms(4) by simp
    have "length (ascii_upper ?in) = length d + k + 1" by (simp add: ascii_upper_def)
    then have "4 < length (ascii_upper ?in)" using assms(2) by (simp add: MAX_JOB_NAME_BYTES_def)
    then show ?thesis unfolding is_windows_reserved_name_def Let_def s r by (auto simp: lit_def)
  qed
  moreover have "trim_name (truncate_bytes MAX_JOB_NAME_BYTES ?in) = d"
  proof -
    have "truncate_bytes MAX_JOB_NAME_BYTES ((d @ replicate k 32) @ [c]) = take MAX_JOB_NAME_BYTES (d @ replicate k 32)"
      using assms(2) by (intro truncate_ascii one) simp
    moreover have "length d \<le> MAX_JOB_NAME_BYTES" using dev(2) by (auto simp: MAX_JOB_NAME_BYTES_def)
    ultimately have "truncate_bytes MAX_JOB_NAME_BYTES ?in = d @ replicate (min (MAX_JOB_NAME_BYTES - length d) k) 32"
      by simp
    then show ?thesis using trim_spaces[OF ne ends] sp(3) by (simp add: trim_name_def)
  qed
  ultimately have 1: "sanitize_job_name nfc ?in = d"
    using long assms(6) by (simp add: sanitize_job_name_def Let_def)
  have "trim_name (clean_from [] d) = d" using ne ends by (simp add: clean_from_id[OF chars(2)] trim_name_def trim_id)
  moreover have "byte_len (95 # d) \<le> MAX_JOB_NAME_BYTES"
    using len dev(2) by (auto simp: byte_len_def utf8_len_def MAX_JOB_NAME_BYTES_def)
  ultimately have "sanitize_job_name nfc d = 95 # d"
    using assms(7) ne dev(3) by (simp add: sanitize_job_name_def Let_def)
  then show ?thesis using 1 dev(3) by simp
qed

theorem sanitize_returns_device_name_witness:
  "sanitize_job_name (\<lambda>s. s) (lit ''Com3'' @ replicate 236 32 @ lit ''x'') = lit ''Com3'' \<and>
   sanitize_job_name (\<lambda>s. s) (lit ''Com3'') = lit ''_Com3''"
proof -
  have 1: "ascii_upper (lit ''Com3'') \<in> set device_names" by code_simp
  have 2: "name_char 120" "\<not> is_whitespace 120" by (code_simp, code_simp)
  have 3: "length (lit ''Com3'') = 4" "lit ''x'' = [120]" "95 # lit ''Com3'' = lit ''_Com3''" by (simp_all add: lit_def)
  show ?thesis
    using sanitize_returns_device_name[OF 1, of 236 120 "\<lambda>s. s"] 2 3 by (simp add: MAX_JOB_NAME_BYTES_def)
qed

section \<open>Passwords\<close>

lemma sublist_trim: "sublist (trim_matches P s) s"
proof -
  have 1: "suffix (dropWhile P t) t" for t by (rule suffix_dropWhile)
  then have "prefix (trim_matches P s) (dropWhile P s)"
    unfolding trim_matches_def suffix_to_prefix[of "dropWhile P (rev (dropWhile P s))"]
    by (metis 1 rev_rev_ident suffix_to_prefix)
  then show ?thesis using 1[of s] by (meson prefix_imp_sublist suffix_imp_sublist sublist_order.order.trans)
qed

lemma sublist_take_drop: "sublist (take n s) s" "sublist (drop n s) s" "sublist (take m (drop n s)) s"
  by (simp_all add: sublist_take sublist_drop sublist_order.order.trans[OF sublist_take sublist_drop])

text \<open>A name split off a password is never empty, and both are parts of the given name as they stand in it
  once the known extensions are taken off.\<close>

theorem split_password_parts:
  assumes "split_job_password raw = Some (name, password)"
  shows "name \<noteq> [] \<and> sublist name (strip_nzb_extensions raw) \<and> sublist password (strip_nzb_extensions raw)"
proof -
  let ?n = "strip_nzb_extensions raw"
  define good where "good r \<longleftrightarrow> fst r \<noteq> [] \<and> sublist (fst r) ?n \<and> sublist (snd r) ?n" for r :: "utext \<times> utext"
  have parts: "good r" if "password_from k p ?n = Some r" "sublist p ?n" for k p r
    using that sublist_order.order.trans[OF sublist_trim sublist_take, of "\<lambda>c. c = 46 \<or> c = 32" k ?n]
    by (auto simp: good_def password_from_def strip_ends_def split: if_splits)
  have plain: "good r" if "plain_slash ?n = Some r" for r
    using that by (auto simp: plain_slash_def sublist_take_drop split: option.splits if_splits intro: parts)
  have slash: "good r" if "slash_form ?n = Some r" for r
    using that plain by (auto simp: slash_form_def spaced_slash_def split: option.splits if_splits
        intro: parts[OF _ sublist_take_drop(2)])
  have "good r" if "password_form ?n = Some r" for r
    using that by (auto simp: password_form_def split: option.splits if_splits intro: parts[OF _ sublist_take_drop(2)])
  moreover have "good r" if "braces_form ?n = Some r" for r
    using that by (auto simp: braces_form_def split: option.splits if_splits intro: parts[OF _ sublist_take_drop(3)])
  ultimately have "good (name, password)"
    using assms plain slash by (auto simp: split_job_password_def Let_def split: if_splits option.splits)
  then show ?thesis by (simp add: good_def)
qed

theorem split_password_parts_witness:
  "split_job_password (lit ''a.b{{secret}}.nzb'') = Some (lit ''a.b'', lit ''secret'') \<and> lit ''a.b'' \<noteq> []"
proof -
  have "split_job_password (lit ''a.b{{secret}}.nzb'') = Some (lit ''a.b'', lit ''secret'')" by code_simp
  with split_password_parts[OF this] show ?thesis by simp
qed

theorem safe_join_stays_beneath_witness:
  "safe_join \<lparr>fp_absolute = True, fp_parts = [lit ''r'']\<rparr> (lit ''a/./b'') =
    Some \<lparr>fp_absolute = True, fp_parts = [lit ''r'', lit ''a'', lit ''b'']\<rparr> \<and>
   (\<exists>cs. [lit ''r'', lit ''a'', lit ''b''] = [lit ''r''] @ cs)"
proof -
  have e: "safe_join \<lparr>fp_absolute = True, fp_parts = [lit ''r'']\<rparr> (lit ''a/./b'') =
    Some \<lparr>fp_absolute = True, fp_parts = [lit ''r'', lit ''a'', lit ''b'']\<rparr>" by code_simp
  with safe_join_stays_beneath[OF e] show ?thesis by auto
qed

end
