(* ===== verification/Core_Schedule.thy ===== *)
theory Core_Schedule
  imports Queue_Pause
begin

text \<open>
  The time-of-day schedule (\<open>crates/nzb-core/src/schedule.rs\<close>): which rules are active at a wall-clock time
  and what they ask for together.  Dates come from the crate \<open>chrono\<close>: a date is a day number counted from
  its first day, and \<open>calendar\<close> gives the weekday and the text of a day.  Strings are ASCII.
\<close>

section \<open>Rules\<close>

datatype weekday = Mon | Tue | Wed | Thu | Fri | Sat | Sun

datatype schedule_action = Sched_Pause | Sched_SpeedLimit | Sched_DisableServers

record schedule_rule =
  rl_id :: byte_string
  rl_name :: byte_string
  rl_days :: "byte_string list"
  rl_start :: byte_string
  rl_end :: byte_string
  rl_action :: schedule_action
  rl_speed_limit_bps :: nat
  rl_servers :: "byte_string list"

definition schedule_rule_default :: schedule_rule where
  "schedule_rule_default =
    \<lparr>rl_id = [], rl_name = [], rl_days = [], rl_start = ''00:00'', rl_end = ''24:00'', rl_action = Sched_Pause,
     rl_speed_limit_bps = 0, rl_servers = []\<rparr>"

record schedule_config =
  scf_enabled :: bool
  scf_rules :: "schedule_rule list"

record schedule_decision =
  dc_active_rule_ids :: "byte_string list"
  dc_pause :: bool
  dc_speed_limit_bps :: "nat option"
  dc_disabled_servers :: "byte_string list"
  dc_pause_windows :: "byte_string list"

definition decision_default :: schedule_decision where
  "decision_default =
    \<lparr>dc_active_rule_ids = [], dc_pause = False, dc_speed_limit_bps = None, dc_disabled_servers = [],
     dc_pause_windows = []\<rparr>"

definition decision_is_idle :: "schedule_decision \<Rightarrow> bool" where
  "decision_is_idle d \<longleftrightarrow>
    \<not> dc_pause d \<and> dc_speed_limit_bps d = None \<and> dc_disabled_servers d = [] \<and> dc_pause_windows d = []"

record calendar =
  cal_weekday :: "nat \<Rightarrow> weekday"
  cal_text :: "nat \<Rightarrow> byte_string"

record naive_time =
  nt_day :: nat
  nt_hour :: nat
  nt_minute :: nat

section \<open>Parsing\<close>

definition is_space :: "char \<Rightarrow> bool" where
  "is_space c \<longleftrightarrow> (let n = (of_char c :: nat) in (9 \<le> n \<and> n \<le> 13) \<or> n = 32)"

definition trim_text :: "byte_string \<Rightarrow> byte_string" where
  "trim_text s = rev (dropWhile is_space (rev (dropWhile is_space s)))"

definition parse_weekday :: "byte_string \<Rightarrow> weekday option" where
  "parse_weekday name =
    (let w = lowercase (trim_text name) in
     if w \<in> {''mon'', ''monday''} then Some Mon
     else if w \<in> {''tue'', ''tues'', ''tuesday''} then Some Tue
     else if w \<in> {''wed'', ''weds'', ''wednesday''} then Some Wed
     else if w \<in> {''thu'', ''thur'', ''thurs'', ''thursday''} then Some Thu
     else if w \<in> {''fri'', ''friday''} then Some Fri
     else if w \<in> {''sat'', ''saturday''} then Some Sat
     else if w \<in> {''sun'', ''sunday''} then Some Sun
     else None)"

text \<open>\<open>str::parse\<close> of a small unsigned number, which takes a leading plus sign.\<close>

definition parse_unsigned :: "byte_string \<Rightarrow> nat option" where
  "parse_unsigned s =
    (let d = (case s of c # cs \<Rightarrow> if c = CHR ''+'' then cs else s | [] \<Rightarrow> []) in
     if d \<noteq> [] \<and> list_all is_ascii_digit d then Some (digits_value d) else None)"

definition parse_minutes :: "byte_string \<Rightarrow> nat option" where
  "parse_minutes v =
    (let s = trim_text v in
     case position (\<lambda>c. c = CHR '':'') s of
       None \<Rightarrow> None
     | Some i \<Rightarrow>
         let hour = take i s; minute = drop (i + 1) s in
         if length hour \<noteq> 2 \<or> length minute \<noteq> 2 then None
         else (case (parse_unsigned hour, parse_unsigned minute) of
                 (Some h, Some m) \<Rightarrow>
                   if 59 < m then None
                   else if h = 24 \<and> m = 0 then Some (24 * 60)
                   else if h \<le> 23 then Some (h * 60 + m)
                   else None
               | _ \<Rightarrow> None))"

definition rule_problem :: "schedule_rule \<Rightarrow> byte_string option" where
  "rule_problem rule =
    (if rl_days rule = [] then Some ''pick at least one day''
     else (case find (\<lambda>d. parse_weekday d = None) (rl_days rule) of
       Some day \<Rightarrow> Some (''`'' @ day @ ''` is not a weekday'')
     | None \<Rightarrow>
         (case parse_minutes (rl_start rule) of
            None \<Rightarrow> Some (''start `'' @ rl_start rule @ ''` is not HH:MM'')
          | Some s \<Rightarrow>
              (case parse_minutes (rl_end rule) of
                 None \<Rightarrow> Some (''end `'' @ rl_end rule @ ''` is not HH:MM'')
               | Some e \<Rightarrow>
                   if 24 * 60 \<le> s then Some ''start must be earlier than 24:00''
                   else if s = e then Some ''start and end must differ''
                   else if rl_action rule = Sched_DisableServers \<and> rl_servers rule = []
                   then Some ''pick at least one server''
                   else None))))"

section \<open>Evaluation\<close>

definition rule_days :: "schedule_rule \<Rightarrow> weekday list" where
  "rule_days rule = List.map_filter parse_weekday (rl_days rule)"

definition minute_of :: "naive_time \<Rightarrow> nat" where
  "minute_of now = nt_hour now * 60 + nt_minute now"

definition active_window_start :: "calendar \<Rightarrow> schedule_rule \<Rightarrow> naive_time \<Rightarrow> nat option" where
  "active_window_start cal rule now =
    (case (parse_minutes (rl_start rule), parse_minutes (rl_end rule)) of
       (Some s, Some e) \<Rightarrow>
         let today = cal_weekday cal (nt_day now) \<in> set (rule_days rule); minute = minute_of now in
         if s < e then (if today \<and> s \<le> minute \<and> minute < e then Some (nt_day now) else None)
         else if today \<and> s \<le> minute then Some (nt_day now)
         else (case nt_day now of
                 0 \<Rightarrow> None
               | Suc y \<Rightarrow> if cal_weekday cal y \<in> set (rule_days rule) \<and> minute < e then Some y else None)
     | _ \<Rightarrow> None)"

definition occurrence_text :: "calendar \<Rightarrow> schedule_rule \<Rightarrow> nat \<Rightarrow> byte_string" where
  "occurrence_text cal rule day = rl_id rule @ ''@'' @ cal_text cal day"

definition add_server :: "byte_string \<Rightarrow> byte_string list \<Rightarrow> byte_string list" where
  "add_server s xs = (if s \<in> set xs then xs else xs @ [s])"

text \<open>One rule of the loop; beside the decision, whether an unlimited rule was seen and the open windows.\<close>

definition apply_rule ::
  "calendar \<Rightarrow> naive_time \<Rightarrow> schedule_rule \<Rightarrow> schedule_decision \<times> bool \<times> byte_string list \<Rightarrow>
   schedule_decision \<times> bool \<times> byte_string list" where
  "apply_rule cal now rule acc =
    (case acc of (d, unlimited, windows) \<Rightarrow>
      if rule_problem rule \<noteq> None then acc
      else (case active_window_start cal rule now of
        None \<Rightarrow> acc
      | Some day \<Rightarrow>
          let d1 = d\<lparr>dc_active_rule_ids := dc_active_rule_ids d @ [rl_id rule]\<rparr> in
          (case rl_action rule of
             Sched_Pause \<Rightarrow> (d1\<lparr>dc_pause := True\<rparr>, unlimited, windows @ [occurrence_text cal rule day])
           | Sched_SpeedLimit \<Rightarrow>
               if rl_speed_limit_bps rule = 0 then (d1, True, windows)
               else (d1\<lparr>dc_speed_limit_bps := Some (case dc_speed_limit_bps d1 of
                        None \<Rightarrow> rl_speed_limit_bps rule | Some b \<Rightarrow> min b (rl_speed_limit_bps rule))\<rparr>,
                     unlimited, windows)
           | Sched_DisableServers \<Rightarrow>
               (d1\<lparr>dc_disabled_servers := fold add_server (rl_servers rule) (dc_disabled_servers d1)\<rparr>,
                unlimited, windows))))"

definition schedule_evaluate :: "calendar \<Rightarrow> schedule_rule list \<Rightarrow> naive_time \<Rightarrow> schedule_decision" where
  "schedule_evaluate cal rules now =
    (case fold (apply_rule cal now) rules (decision_default, False, []) of
       (d, unlimited, windows) \<Rightarrow>
         (if unlimited then d\<lparr>dc_speed_limit_bps := Some 0\<rparr> else d)\<lparr>dc_pause_windows := sort_dedup windows\<rparr>)"

definition evaluate_config :: "calendar \<Rightarrow> schedule_config \<Rightarrow> naive_time \<Rightarrow> schedule_decision" where
  "evaluate_config cal config now =
    (if \<not> scf_enabled config then decision_default else schedule_evaluate cal (scf_rules config) now)"

definition next_minute :: "nat \<Rightarrow> nat \<Rightarrow> nat \<times> nat" where
  "next_minute hour minute = (let nxt = (hour * 60 + minute + 1) mod (24 * 60) in (nxt div 60, nxt mod 60))"

end
