(* ===== verification/Core_Schedule_Proofs.thy ===== *)
theory Core_Schedule_Proofs
  imports Core_Schedule
begin

text \<open>
  The schedule against a reference on one continuous time line, what the rules decide together, and that the
  order of the rules does not matter.
\<close>

section \<open>Windows\<close>

lemma parse_minutes_bound: "parse_minutes v = Some m \<Longrightarrow> m \<le> 1440"
  by (auto simp: parse_minutes_def Let_def split: option.splits if_splits)

lemma valid_rule:
  assumes "rule_problem rule = None"
  obtains s e where "parse_minutes (rl_start rule) = Some s" "parse_minutes (rl_end rule) = Some e" "s < 1440" "e \<le> 1440" "s \<noteq> e"
  using assms parse_minutes_bound[of "rl_end rule"] by (auto simp: rule_problem_def split: option.splits if_splits)

text \<open>The window that starts on a day, on the time line of minutes since the first day.\<close>

definition in_window :: "calendar \<Rightarrow> schedule_rule \<Rightarrow> nat \<Rightarrow> nat \<Rightarrow> bool" where
  "in_window cal rule day t \<longleftrightarrow>
    (case (parse_minutes (rl_start rule), parse_minutes (rl_end rule)) of
       (Some s, Some e) \<Rightarrow>
         cal_weekday cal day \<in> set (rule_days rule) \<and>
         day * 1440 + s \<le> t \<and> t < day * 1440 + (if s < e then e else 1440 + e)
     | _ \<Rightarrow> False)"

lemma same_day:
  fixes d d' m u :: nat
  assumes "m < 1440" "u \<le> 1440" "d' * 1440 \<le> d * 1440 + m" "d * 1440 + m < d' * 1440 + u"
  shows "d' = d"
proof (rule ccontr)
  assume "d' \<noteq> d"
  then consider "Suc d' \<le> d" | "Suc d \<le> d'" by linarith
  then show False
  proof cases
    case 1
    then have "Suc d' * 1440 \<le> d * 1440" by (rule mult_le_mono1)
    then show False using assms by simp
  next
    case 2
    then have "Suc d * 1440 \<le> d' * 1440" by (rule mult_le_mono1)
    then show False using assms by simp
  qed
qed

lemma near_day:
  fixes d d' m e :: nat
  assumes "m < 1440" "e \<le> 1440" "d' * 1440 \<le> d * 1440 + m" "d * 1440 + m < d' * 1440 + (1440 + e)"
  shows "d' = d \<or> (Suc d' = d \<and> m < e)"
proof -
  have "d' \<le> d"
  proof (rule ccontr)
    assume "\<not> d' \<le> d"
    then have "Suc d * 1440 \<le> d' * 1440" by (intro mult_le_mono1) simp
    then show False using assms by simp
  qed
  moreover have "d \<le> Suc d'"
  proof (rule ccontr)
    assume "\<not> d \<le> Suc d'"
    then have "Suc (Suc d') * 1440 \<le> d * 1440" by (intro mult_le_mono1) simp
    then show False using assms by simp
  qed
  ultimately have "d' = d \<or> Suc d' = d" by linarith
  then show ?thesis using assms by auto
qed

lemma late_window:
  fixes d d' m s e :: nat
  assumes "m < 1440" "s < 1440" "e < s"
  shows "d' * 1440 + s \<le> d * 1440 + m \<and> d * 1440 + m < d' * 1440 + (1440 + e) \<longleftrightarrow>
    (d' = d \<and> s \<le> m) \<or> (Suc d' = d \<and> m < e)"
proof
  assume w: "d' * 1440 + s \<le> d * 1440 + m \<and> d * 1440 + m < d' * 1440 + (1440 + e)"
  then have "d' = d \<or> (Suc d' = d \<and> m < e)" using assms by (intro near_day) auto
  then show "(d' = d \<and> s \<le> m) \<or> (Suc d' = d \<and> m < e)" using w by auto
next
  assume "(d' = d \<and> s \<le> m) \<or> (Suc d' = d \<and> m < e)"
  then show "d' * 1440 + s \<le> d * 1440 + m \<and> d * 1440 + m < d' * 1440 + (1440 + e)"
    using assms by auto
qed

text \<open>C32. A valid rule is active exactly in its windows: at a time of day, the window it is found in is the one
  window of the rule, on the continuous time line, that contains the time, whichever side of midnight it is.\<close>

theorem schedule_window_exact:
  assumes "rule_problem rule = None" "nt_hour now < 24" "nt_minute now < 60"
  shows "active_window_start cal rule now = Some day \<longleftrightarrow> in_window cal rule day (nt_day now * 1440 + minute_of now)"
proof -
  obtain s e where p: "parse_minutes (rl_start rule) = Some s" "parse_minutes (rl_end rule) = Some e" "s < 1440" "e \<le> 1440" "s \<noteq> e"
    using valid_rule[OF assms(1)] .
  have m: "minute_of now < 1440" using assms(2,3) by (simp add: minute_of_def)
  let ?d = "nt_day now" and ?m = "minute_of now"
  show ?thesis
  proof (cases "s < e")
    case True
    then have "in_window cal rule day (?d * 1440 + ?m) \<longleftrightarrow>
        day = ?d \<and> cal_weekday cal day \<in> set (rule_days rule) \<and> s \<le> ?m \<and> ?m < e"
      using same_day[OF m p(4), of day ?d] by (auto simp: in_window_def p)
    then show ?thesis using True by (auto simp: active_window_start_def p Let_def)
  next
    case False
    then have es: "e < s" using p(5) by simp
    have "in_window cal rule day (?d * 1440 + ?m) \<longleftrightarrow>
        cal_weekday cal day \<in> set (rule_days rule) \<and> ((day = ?d \<and> s \<le> ?m) \<or> (Suc day = ?d \<and> ?m < e))"
      using late_window[OF m p(3) es, of day ?d] False by (auto simp: in_window_def p)
    then show ?thesis using False es
      by (auto simp: active_window_start_def p Let_def split: nat.splits)
  qed
qed

section \<open>What the rules decide\<close>

definition rule_active :: "calendar \<Rightarrow> naive_time \<Rightarrow> schedule_rule \<Rightarrow> bool" where
  "rule_active cal now rule \<longleftrightarrow> rule_problem rule = None \<and> active_window_start cal rule now \<noteq> None"

definition active_with :: "calendar \<Rightarrow> naive_time \<Rightarrow> schedule_rule list \<Rightarrow> schedule_action \<Rightarrow> schedule_rule set" where
  "active_with cal now rules a = {r \<in> set rules. rule_active cal now r \<and> rl_action r = a}"

lemma set_add_servers: "set (fold add_server ss xs) = set ss \<union> set xs"
  by (induction ss arbitrary: xs) (auto simp: add_server_def)

lemma distinct_add_servers: "distinct xs \<Longrightarrow> distinct (fold add_server ss xs)"
  by (induction ss arbitrary: xs) (auto simp: add_server_def)

definition cap_of :: "nat set \<Rightarrow> nat option" where
  "cap_of caps = (if caps = {} then None else Some (Min caps))"

lemma cap_of_insert:
  "finite caps \<Longrightarrow> cap_of (insert b caps) = Some (case cap_of caps of None \<Rightarrow> b | Some c \<Rightarrow> min c b)"
  by (simp add: cap_of_def min.commute)

text \<open>What the loop has collected from a list of rules.\<close>

definition collected :: "calendar \<Rightarrow> naive_time \<Rightarrow> schedule_rule list \<Rightarrow> schedule_decision \<times> bool \<times> byte_string list \<Rightarrow> bool" where
  "collected cal now rules acc \<longleftrightarrow>
    (case acc of (d, unlimited, windows) \<Rightarrow>
      (dc_pause d \<longleftrightarrow> active_with cal now rules Sched_Pause \<noteq> {}) \<and>
      set windows = (\<lambda>r. occurrence_text cal r (the (active_window_start cal r now))) ` active_with cal now rules Sched_Pause \<and>
      (unlimited \<longleftrightarrow> (\<exists>r \<in> active_with cal now rules Sched_SpeedLimit. rl_speed_limit_bps r = 0)) \<and>
      dc_speed_limit_bps d = cap_of (rl_speed_limit_bps ` active_with cal now rules Sched_SpeedLimit - {0}) \<and>
      set (dc_disabled_servers d) = (\<Union>r \<in> active_with cal now rules Sched_DisableServers. set (rl_servers r)) \<and>
      distinct (dc_disabled_servers d))"

lemma distinct_remdups_sorted: "sorted xs \<Longrightarrow> distinct (remdups_adj xs)"
  by (induction xs rule: remdups_adj.induct) (auto simp: order.order_iff_strict)

lemma active_with_snoc:
  "active_with cal now (rules @ [r]) a =
    active_with cal now rules a \<union> (if rule_active cal now r \<and> rl_action r = a then {r} else {})"
  by (auto simp: active_with_def)

lemma finite_active [simp]: "finite (active_with cal now rules a)"
  by (simp add: active_with_def)

lemma collected_step:
  assumes "collected cal now rules acc"
  shows "collected cal now (rules @ [r]) (apply_rule cal now r acc)"
proof (cases "rule_active cal now r")
  case False
  then have "apply_rule cal now r acc = acc" by (cases acc) (auto simp: apply_rule_def rule_active_def)
  then show ?thesis using assms False by (simp add: collected_def active_with_snoc)
next
  case True
  then obtain day where day: "rule_problem r = None" "active_window_start cal r now = Some day"
    by (auto simp: rule_active_def)
  obtain d unlimited windows where acc: "acc = (d, unlimited, windows)" by (cases acc)
  note c = assms[unfolded collected_def acc prod.case]
  show ?thesis
  proof (cases "rl_action r")
    case Sched_Pause
    then show ?thesis
      using c True day by (simp add: collected_def acc apply_rule_def active_with_snoc Let_def)
  next
    case Sched_SpeedLimit
    let ?S = "active_with cal now rules Sched_SpeedLimit"
    let ?caps = "rl_speed_limit_bps ` ?S - {0}"
    have fin: "finite ?caps" by simp
    have new: "rl_speed_limit_bps ` insert r ?S - {0} =
        (if rl_speed_limit_bps r = 0 then ?caps else insert (rl_speed_limit_bps r) ?caps)" by auto
    show ?thesis
      using c True day Sched_SpeedLimit new cap_of_insert[OF fin]
      by (simp add: collected_def acc apply_rule_def active_with_snoc Let_def)
  next
    case Sched_DisableServers
    then show ?thesis
      using c True day
      by (simp add: collected_def acc apply_rule_def active_with_snoc Let_def set_add_servers distinct_add_servers)
  qed
qed

lemma collected_fold: "collected cal now rules (fold (apply_rule cal now) rules (decision_default, False, []))"
proof (induction rules rule: rev_induct)
  case Nil
  show ?case by (simp add: collected_def active_with_def decision_default_def cap_of_def)
next
  case (snoc r rules)
  then show ?case using collected_step by simp
qed

lemma decision_exact:
  "let d = schedule_evaluate cal rules now;
       caps = rl_speed_limit_bps ` active_with cal now rules Sched_SpeedLimit
   in (dc_pause d \<longleftrightarrow> active_with cal now rules Sched_Pause \<noteq> {}) \<and>
      set (dc_pause_windows d) =
        (\<lambda>r. occurrence_text cal r (the (active_window_start cal r now))) ` active_with cal now rules Sched_Pause \<and>
      sorted (dc_pause_windows d) \<and> distinct (dc_pause_windows d) \<and>
      dc_speed_limit_bps d = (if caps = {} then None else if 0 \<in> caps then Some 0 else Some (Min caps)) \<and>
      set (dc_disabled_servers d) = (\<Union>r \<in> active_with cal now rules Sched_DisableServers. set (rl_servers r))"
proof -
  obtain d unlimited windows where f: "fold (apply_rule cal now) rules (decision_default, False, []) = (d, unlimited, windows)"
    by (cases "fold (apply_rule cal now) rules (decision_default, False, [])")
  note c = collected_fold[of cal now rules, unfolded f collected_def prod.case]
  have e: "schedule_evaluate cal rules now =
      (if unlimited then d\<lparr>dc_speed_limit_bps := Some 0\<rparr> else d)\<lparr>dc_pause_windows := sort_dedup windows\<rparr>"
    by (simp add: schedule_evaluate_def f)
  have "sorted (sort_dedup windows) \<and> distinct (sort_dedup windows)"
    by (simp_all add: sort_dedup_def distinct_remdups_sorted)
  moreover have "cap_of (caps - {0}) = (if caps = {} then None else Some (Min caps))" if "0 \<notin> caps" for caps
    using that by (simp add: cap_of_def)
  ultimately show ?thesis
    using c by (auto simp: e Let_def)
qed

text \<open>C33. What the schedule asks for: it pauses when a pause rule is active, and its open windows are those of the active
  pause rules, sorted and without duplicates; its speed limit is unlimited when an active rule says so and
  otherwise the lowest of the active caps, if there is one; it disables the servers of the active rules that
  list them.\<close>

theorem schedule_decision_exact:
  "let d = schedule_evaluate cal rules now;
       caps = rl_speed_limit_bps ` active_with cal now rules Sched_SpeedLimit
   in (dc_pause d \<longleftrightarrow> active_with cal now rules Sched_Pause \<noteq> {}) \<and>
      set (dc_pause_windows d) =
        (\<lambda>r. occurrence_text cal r (the (active_window_start cal r now))) ` active_with cal now rules Sched_Pause \<and>
      sorted (dc_pause_windows d) \<and> distinct (dc_pause_windows d) \<and>
      dc_speed_limit_bps d = (if caps = {} then None else if 0 \<in> caps then Some 0 else Some (Min caps)) \<and>
      set (dc_disabled_servers d) = (\<Union>r \<in> active_with cal now rules Sched_DisableServers. set (rl_servers r))"
  by (rule decision_exact)

text \<open>The order of the rules does not matter: two configurations with the same rules pause alike, with the same
  windows, limit the speed alike and disable the same servers.\<close>

theorem schedule_ignores_order:
  assumes "set rules = set rules'"
  shows "let d = schedule_evaluate cal rules now; d' = schedule_evaluate cal rules' now
    in dc_pause d = dc_pause d' \<and> dc_pause_windows d = dc_pause_windows d' \<and>
       dc_speed_limit_bps d = dc_speed_limit_bps d' \<and> set (dc_disabled_servers d) = set (dc_disabled_servers d')"
proof -
  have a: "active_with cal now rules = active_with cal now rules'" using assms by (simp add: active_with_def fun_eq_iff)
  show ?thesis
    using decision_exact[of cal rules now] decision_exact[of cal rules' now]
    unfolding a Let_def by (auto intro: sorted_distinct_set_unique)
qed

text \<open>The occurrences of the schedule reach the queue as they are: a pause always comes with a named window, so the
  queue manager never has to make up an anonymous one.\<close>

theorem schedule_pause_is_named:
  "let d = schedule_evaluate cal rules now in decided_windows (dc_pause d) (dc_pause_windows d) = dc_pause_windows d"
proof -
  define ws where "ws = dc_pause_windows (schedule_evaluate cal rules now)"
  have ws: "sorted ws" "distinct ws" "dc_pause (schedule_evaluate cal rules now) \<Longrightarrow> set ws \<noteq> {}"
    using decision_exact[of cal rules now] by (simp_all add: ws_def Let_def)
  then have "occurrences ws = ws"
    by (simp add: occurrences_def sort_dedup_def sorted_sort_id remdups_adj_distinct)
  then show ?thesis using ws(3) by (auto simp: Let_def decided_windows_def ws_def)
qed

section \<open>A concrete night\<close>

definition sched_cal :: calendar where
  "sched_cal = \<lparr>cal_weekday = \<lambda>d. [Mon, Tue, Wed, Thu, Fri, Sat, Sun] ! (d mod 7), cal_text = show_nat\<rparr>"

definition sched_night :: schedule_rule where
  "sched_night = schedule_rule_default\<lparr>rl_id := ''n'', rl_days := [''Mon''], rl_start := ''22:00'', rl_end := ''06:00''\<rparr>"

theorem schedule_window_exact_witness:
  "active_window_start sched_cal sched_night \<lparr>nt_day = 1, nt_hour = 1, nt_minute = 30\<rparr> = Some 0 \<and>
   in_window sched_cal sched_night 0 (1 * 1440 + 90)"
proof -
  have "rule_problem sched_night = None" by code_simp
  moreover have "active_window_start sched_cal sched_night \<lparr>nt_day = 1, nt_hour = 1, nt_minute = 30\<rparr> = Some 0"
    by code_simp
  ultimately show ?thesis
    using schedule_window_exact[of sched_night "\<lparr>nt_day = 1, nt_hour = 1, nt_minute = 30\<rparr>" sched_cal 0]
    by (simp add: minute_of_def)
qed

definition sched_now :: naive_time where
  "sched_now = \<lparr>nt_day = 1, nt_hour = 1, nt_minute = 30\<rparr>"

theorem schedule_ignores_order_witness:
  "dc_pause_windows (schedule_evaluate sched_cal [sched_night, schedule_rule_default] sched_now) =
   dc_pause_windows (schedule_evaluate sched_cal [schedule_rule_default, sched_night] sched_now)"
  using schedule_ignores_order[of "[sched_night, schedule_rule_default]" "[schedule_rule_default, sched_night]" sched_cal sched_now]
  by (auto simp: Let_def)

end
