(* ===== verification/Web_Fetch.thy ===== *)
theory Web_Fetch
  imports Prelude
begin

unbundle bit_operations_syntax

text \<open>
  The guard on URLs the server fetches for a client (\<open>crates/nzb-web/src/fetch_guard.rs\<close>): which addresses
  a request may reach.  An address is its 32 or 128 bits.  Parsing a URL (crate \<open>url\<close>) and the text of an
  address, and resolving a host name, are parameters; what \<open>std::net\<close> says of an address is written out.
\<close>

section \<open>Addresses\<close>

datatype ip_addr = V4 "32 word" | V6 "128 word"

definition octets :: "32 word \<Rightarrow> nat \<times> nat" where
  "octets v = (unat (drop_bit 24 v), unat (drop_bit 16 v) mod 256)"

definition v4_addr :: "nat \<Rightarrow> nat \<Rightarrow> nat \<Rightarrow> nat \<Rightarrow> 32 word" where
  "v4_addr a b c d = of_nat (((a * 256 + b) * 256 + c) * 256 + d)"

text \<open>\<open>Ipv6Addr::to_ipv4_mapped\<close>: the addresses \<open>::ffff:a.b.c.d\<close>.\<close>

definition to_ipv4_mapped :: "128 word \<Rightarrow> 32 word option" where
  "to_ipv4_mapped v = (if drop_bit 32 v = 0xFFFF then Some (ucast v) else None)"

definition segment0 :: "128 word \<Rightarrow> nat" where "segment0 v = unat (drop_bit 112 v)"
definition segment1 :: "128 word \<Rightarrow> nat" where "segment1 v = unat (drop_bit 96 v) mod 65536"

text \<open>The predicates of \<open>std::net::Ipv4Addr\<close> and \<open>Ipv6Addr\<close> the guard asks.\<close>

definition is_private_v4 :: "32 word \<Rightarrow> bool" where
  "is_private_v4 v \<longleftrightarrow> (case octets v of (a, b) \<Rightarrow> a = 10 \<or> (a = 172 \<and> 16 \<le> b \<and> b \<le> 31) \<or> (a = 192 \<and> b = 168))"

definition is_documentation_v4 :: "32 word \<Rightarrow> bool" where
  "is_documentation_v4 v \<longleftrightarrow> drop_bit 8 v \<in> {0xC00002, 0xC63364, 0xCB0071}"

definition is_loopback_v4 :: "32 word \<Rightarrow> bool" where "is_loopback_v4 v \<longleftrightarrow> fst (octets v) = 127"
definition is_link_local_v4 :: "32 word \<Rightarrow> bool" where "is_link_local_v4 v \<longleftrightarrow> octets v = (169, 254)"
definition is_unique_local :: "128 word \<Rightarrow> bool" where "is_unique_local v \<longleftrightarrow> segment0 v div 512 = 126"

section \<open>The policy\<close>

record fetch_policy =
  fe_allow_private :: bool
  fe_allowed_hostnames :: "byte_string list"
  fe_allowed_networks :: "(ip_addr \<times> nat) list"

definition policy_strict :: fetch_policy where
  "policy_strict = \<lparr>fe_allow_private = False, fe_allowed_hostnames = [], fe_allowed_networks = []\<rparr>"

definition host_text :: "byte_string \<Rightarrow> byte_string" where
  "host_text h = lowercase (rev (dropWhile (\<lambda>c. c = CHR ''.'') (rev h)))"

definition is_blank :: "char \<Rightarrow> bool" where
  "is_blank c \<longleftrightarrow> (let n = (of_char c :: nat) in (9 \<le> n \<and> n \<le> 13) \<or> n = 32)"

definition policy_entry :: "(byte_string \<Rightarrow> (ip_addr \<times> nat) option) \<Rightarrow> byte_string \<Rightarrow> fetch_policy \<Rightarrow> fetch_policy" where
  "policy_entry parse_network entry0 p =
    (let entry = rev (dropWhile is_blank (rev (dropWhile is_blank entry0))) in
     if entry = [] then p
     else (case parse_network entry of
             Some n \<Rightarrow> p\<lparr>fe_allowed_networks := fe_allowed_networks p @ [n]\<rparr>
           | None \<Rightarrow> p\<lparr>fe_allowed_hostnames := fe_allowed_hostnames p @ [host_text entry]\<rparr>))"

definition policy_new :: "(byte_string \<Rightarrow> (ip_addr \<times> nat) option) \<Rightarrow> bool \<Rightarrow> byte_string list \<Rightarrow> fetch_policy" where
  "policy_new parse_network allow_private hosts =
    fold (policy_entry parse_network) hosts (policy_strict\<lparr>fe_allow_private := allow_private\<rparr>)"

text \<open>\<open>parse_ip_network\<close> on top of the parser of addresses and of 8-bit numbers.\<close>

definition parse_ip_network ::
  "(byte_string \<Rightarrow> ip_addr option) \<Rightarrow> (byte_string \<Rightarrow> nat option) \<Rightarrow> byte_string \<Rightarrow> (ip_addr \<times> nat) option" where
  "parse_ip_network parse_ip parse_u8 entry =
    (let (addr0, prefix) = (case position (\<lambda>c. c = CHR ''/'') entry of
            Some i \<Rightarrow> (take i entry, Some (drop (i + 1) entry)) | None \<Rightarrow> (entry, None));
         addr = rev (dropWhile (\<lambda>c. c = CHR '']'') (rev (dropWhile (\<lambda>c. c = CHR ''['') addr0)))
     in case parse_ip addr of
          None \<Rightarrow> None
        | Some ip \<Rightarrow>
            let mx = (case ip of V4 _ \<Rightarrow> 32 | V6 _ \<Rightarrow> 128) in
            (case prefix of
               None \<Rightarrow> Some (ip, mx)
             | Some p \<Rightarrow> (case parse_u8 p of Some n \<Rightarrow> if n \<le> mx then Some (ip, n) else None | None \<Rightarrow> None)))"

text \<open>
  \<open>checked_shl\<close> by the full width gives the empty mask, and so does a prefix longer than the address, for which the
  difference wraps around.
\<close>

definition net_mask :: "nat \<Rightarrow> 'a::len word" where
  "net_mask prefix = (if 0 < prefix \<and> prefix \<le> LENGTH('a) then push_bit (LENGTH('a) - prefix) (- 1) else 0)"

fun network_contains :: "ip_addr \<Rightarrow> nat \<Rightarrow> ip_addr \<Rightarrow> bool" where
  "network_contains (V4 net) prefix (V4 ip) = (net AND net_mask prefix = ip AND net_mask prefix)"
| "network_contains (V4 net) prefix (V6 ip) =
    (case to_ipv4_mapped ip of
       Some v4 \<Rightarrow> net AND net_mask prefix = v4 AND net_mask prefix
     | None \<Rightarrow> False)"
| "network_contains (V6 net) prefix (V6 ip) = (net AND net_mask prefix = ip AND net_mask prefix)"
| "network_contains (V6 net) prefix (V4 ip) = False"

definition is_cloud_metadata_v4 :: "32 word \<Rightarrow> bool" where
  "is_cloud_metadata_v4 v \<longleftrightarrow> v = v4_addr 169 254 169 254 \<or> v = v4_addr 100 100 100 200"

fun is_cloud_metadata :: "ip_addr \<Rightarrow> bool" where
  "is_cloud_metadata (V4 v) = is_cloud_metadata_v4 v"
| "is_cloud_metadata (V6 v) =
    (case to_ipv4_mapped v of
       Some v4 \<Rightarrow> is_cloud_metadata_v4 v4
     | None \<Rightarrow> v = 0xFD000EC2000000000000000000000254)"

definition is_private_lan_v4 :: "32 word \<Rightarrow> bool" where
  "is_private_lan_v4 v \<longleftrightarrow> is_private_v4 v \<or> (case octets v of (a, b) \<Rightarrow> a = 100 \<and> 64 \<le> b \<and> b \<le> 127)"

fun is_private_lan :: "ip_addr \<Rightarrow> bool" where
  "is_private_lan (V4 v) = is_private_lan_v4 v"
| "is_private_lan (V6 v) =
    (case to_ipv4_mapped v of Some v4 \<Rightarrow> is_private_lan_v4 v4 | None \<Rightarrow> is_unique_local v)"

definition is_globally_routable_v4 :: "32 word \<Rightarrow> bool" where
  "is_globally_routable_v4 v \<longleftrightarrow>
    (case octets v of (a, b) \<Rightarrow>
      a \<noteq> 0 \<and> \<not> is_loopback_v4 v \<and> \<not> is_private_v4 v \<and> \<not> is_link_local_v4 v \<and> v \<noteq> 0xFFFFFFFF \<and> v \<noteq> 0 \<and>
      \<not> is_documentation_v4 v \<and> \<not> (a = 100 \<and> 64 \<le> b \<and> b \<le> 127) \<and> \<not> (a = 198 \<and> 18 \<le> b \<and> b \<le> 19) \<and>
      \<not> (a = 192 \<and> b = 0) \<and> \<not> (224 \<le> a \<and> a \<le> 239) \<and> \<not> 240 \<le> a)"

fun is_globally_routable :: "ip_addr \<Rightarrow> bool" where
  "is_globally_routable (V4 v) = is_globally_routable_v4 v"
| "is_globally_routable (V6 v) =
    (v \<noteq> 1 \<and> v \<noteq> 0 \<and> segment0 v div 256 \<noteq> 255 \<and> \<not> is_unique_local v \<and>
     segment0 v div 64 \<noteq> 0x3FA \<and> segment0 v div 64 \<noteq> 0x3FB \<and>
     \<not> (segment0 v = 0x2001 \<and> segment1 v = 0x0DB8) \<and>
     (case to_ipv4_mapped v of Some v4 \<Rightarrow> is_globally_routable_v4 v4 | None \<Rightarrow> True))"

definition ip_is_explicitly_allowed :: "fetch_policy \<Rightarrow> ip_addr \<Rightarrow> bool" where
  "ip_is_explicitly_allowed p ip \<longleftrightarrow> list_ex (\<lambda>(net, prefix). network_contains net prefix ip) (fe_allowed_networks p)"

definition ip_is_allowed :: "fetch_policy \<Rightarrow> ip_addr \<Rightarrow> bool" where
  "ip_is_allowed p ip \<longleftrightarrow>
    (if is_cloud_metadata ip then ip_is_explicitly_allowed p ip
     else is_globally_routable ip \<or>
       list_ex (\<lambda>(net, prefix). network_contains net prefix ip) (fe_allowed_networks p) \<or>
       (fe_allow_private p \<and> is_private_lan ip))"

definition host_is_listed :: "fetch_policy \<Rightarrow> byte_string \<Rightarrow> bool" where
  "host_is_listed p host \<longleftrightarrow> host_text host \<in> set (fe_allowed_hostnames p)"

section \<open>Validating a URL\<close>

record url =
  url_scheme :: byte_string
  url_host :: "byte_string option"
  url_port :: "nat option"

datatype guard_error =
  G_InvalidUrl | G_Scheme byte_string | G_NoHost | G_Metadata | G_Private | G_ResolvesPrivate | G_ResolvesMetadata
| G_DnsFailed byte_string | G_NoAddresses byte_string

text \<open>A plan: the URL, and for a host name the addresses the connection is pinned to.\<close>

record fetch_plan =
  pl_url :: url
  pl_resolved :: "(byte_string \<times> ip_addr list) option"

record net_env =
  ne_parse_url :: "byte_string \<Rightarrow> url option"
  ne_parse_ip :: "byte_string \<Rightarrow> ip_addr option"
  ne_lookup :: "byte_string \<Rightarrow> nat \<Rightarrow> ip_addr list option"

definition literal_host :: "byte_string \<Rightarrow> byte_string" where
  "literal_host h = rev (dropWhile (\<lambda>c. c = CHR '']'') (rev (dropWhile (\<lambda>c. c = CHR ''['') h)))"

definition check_resolved :: "fetch_policy \<Rightarrow> byte_string \<Rightarrow> ip_addr list \<Rightarrow> guard_error option" where
  "check_resolved p host addrs =
    (if \<not> host_is_listed p host
     then (if list_ex (\<lambda>a. \<not> ip_is_allowed p a) addrs then Some G_ResolvesPrivate else None)
     else (if list_ex (\<lambda>a. is_cloud_metadata a \<and> \<not> ip_is_explicitly_allowed p a) addrs
           then Some G_ResolvesMetadata else None))"

definition validate_inner :: "net_env \<Rightarrow> byte_string \<Rightarrow> fetch_policy \<Rightarrow> guard_error + fetch_plan" where
  "validate_inner N raw p =
    (case ne_parse_url N raw of
       None \<Rightarrow> Inl G_InvalidUrl
     | Some u \<Rightarrow>
         if url_scheme u \<noteq> ''http'' \<and> url_scheme u \<noteq> ''https'' then Inl (G_Scheme (url_scheme u))
         else (case url_host u of
           None \<Rightarrow> Inl G_NoHost
         | Some host \<Rightarrow>
             (case ne_parse_ip N (literal_host host) of
                Some ip \<Rightarrow>
                  if is_cloud_metadata ip \<and> \<not> ip_is_explicitly_allowed p ip then Inl G_Metadata
                  else if \<not> ip_is_allowed p ip then Inl G_Private
                  else Inr \<lparr>pl_url = u, pl_resolved = None\<rparr>
              | None \<Rightarrow>
                  (case ne_lookup N host (case url_port u of Some q \<Rightarrow> q | None \<Rightarrow> 80) of
                     None \<Rightarrow> Inl (G_DnsFailed host)
                   | Some addrs \<Rightarrow>
                       if addrs = [] then Inl (G_NoAddresses host)
                       else (case check_resolved p host addrs of
                               Some e \<Rightarrow> Inl e
                             | None \<Rightarrow> Inr \<lparr>pl_url = u, pl_resolved = Some (host, addrs)\<rparr>)))))"

definition guard_rejects :: "guard_error \<Rightarrow> bool" where
  "guard_rejects e \<longleftrightarrow> (case e of G_DnsFailed _ \<Rightarrow> False | G_NoAddresses _ \<Rightarrow> False | _ \<Rightarrow> True)"

definition check_fetch_url_allowed :: "net_env \<Rightarrow> byte_string \<Rightarrow> fetch_policy \<Rightarrow> guard_error option" where
  "check_fetch_url_allowed N raw p =
    (case validate_inner N raw p of Inr _ \<Rightarrow> None | Inl e \<Rightarrow> if guard_rejects e then Some e else None)"

definition requires_pinned_client :: "fetch_plan \<Rightarrow> bool" where
  "requires_pinned_client plan \<longleftrightarrow> pl_resolved plan \<noteq> None"

text \<open>\<open>read_response_bytes_limited\<close>: the chunks that arrive, \<open>None\<close> for an error of the connection.\<close>

definition MAX_FETCH_BODY_BYTES :: nat where "MAX_FETCH_BODY_BYTES = 100 * 1024 * 1024"

fun read_chunks :: "nat \<Rightarrow> 'b list \<Rightarrow> 'b list option list \<Rightarrow> 'b list option" where
  "read_chunks mx body [] = Some body"
| "read_chunks mx body (None # cs) = None"
| "read_chunks mx body (Some c # cs) =
    (if mx < length body + length c then None else read_chunks mx (body @ c) cs)"

definition read_response_bytes_limited :: "nat \<Rightarrow> nat option \<Rightarrow> 'b list option list \<Rightarrow> 'b list option" where
  "read_response_bytes_limited mx content_length chunks =
    (if (case content_length of Some n \<Rightarrow> mx < n | None \<Rightarrow> False) then None else read_chunks mx [] chunks)"

end
