(* ===== verification/Web_Fetch_Proofs.thy ===== *)
theory Web_Fetch_Proofs
  imports Web_Fetch
begin

unbundle bit_operations_syntax

text \<open>
  Which addresses the guard lets a request reach, the reserved IPv4 ranges as networks, the bound on the
  body, and the IPv6 forms of an IPv4 address that the guard does not look into.
\<close>

section \<open>Networks as intervals of numbers\<close>

lemma masked_eq:
  fixes x y :: "'a::len word"
  assumes "p \<le> LENGTH('a)"
  shows "x AND net_mask p = y AND net_mask p \<longleftrightarrow> drop_bit (LENGTH('a) - p) x = drop_bit (LENGTH('a) - p) y"
proof (cases "p = 0")
  case True
  have "drop_bit LENGTH('a) w = 0" for w :: "'a word" by (rule bit_word_eqI) (simp add: bit_drop_bit_eq)
  then show ?thesis using True by (simp add: net_mask_def)
next
  case False
  let ?n = "LENGTH('a) - p"
  have m: "bit (w AND net_mask p) k \<longleftrightarrow> bit w k \<and> ?n \<le> k" for w :: "'a word" and k
    using False assms bit_imp_le_length[of w k] by (auto simp: net_mask_def bit_simps)
  show ?thesis
  proof
    assume e: "x AND net_mask p = y AND net_mask p"
    show "drop_bit ?n x = drop_bit ?n y"
    proof (rule bit_word_eqI)
      fix k
      have "bit (x AND net_mask p) (?n + k) = bit (y AND net_mask p) (?n + k)" using e by simp
      then show "bit (drop_bit ?n x) k = bit (drop_bit ?n y) k" by (simp only: m bit_drop_bit_eq) simp
    qed
  next
    assume e: "drop_bit ?n x = drop_bit ?n y"
    show "x AND net_mask p = y AND net_mask p"
    proof (rule bit_word_eqI)
      fix k
      have "bit (drop_bit ?n x) (k - ?n) = bit (drop_bit ?n y) (k - ?n)" using e by simp
      then show "bit (x AND net_mask p) k = bit (y AND net_mask p) k"
        by (cases "?n \<le> k") (simp_all only: m bit_drop_bit_eq, simp_all)
    qed
  qed
qed

lemma v4_network:
  assumes "p \<le> 32"
  shows "network_contains (V4 net) p (V4 ip) \<longleftrightarrow> unat net div 2 ^ (32 - p) = unat ip div 2 ^ (32 - p)"
proof -
  have "drop_bit n net = drop_bit n ip \<longleftrightarrow> unat net div 2 ^ n = unat ip div 2 ^ n" for n
    by (simp only: word_unat_eq_iff unat_drop_bit_eq) (simp add: drop_bit_eq_div)
  then show ?thesis using masked_eq[of p net ip] assms by simp
qed

text \<open>The reserved IPv4 ranges (the documentation range 192.0.2.0/24 lies in 192.0.0.0/16).\<close>

definition reserved_v4 :: "(32 word \<times> nat) list" where
  "reserved_v4 =
    [(v4_addr 0 0 0 0, 8), (v4_addr 10 0 0 0, 8), (v4_addr 100 64 0 0, 10), (v4_addr 127 0 0 0, 8),
     (v4_addr 169 254 0 0, 16), (v4_addr 172 16 0 0, 12), (v4_addr 192 0 0 0, 16), (v4_addr 192 168 0 0, 16),
     (v4_addr 198 18 0 0, 15), (v4_addr 198 51 100 0, 24), (v4_addr 203 0 113 0, 24), (v4_addr 224 0 0 0, 4),
     (v4_addr 240 0 0 0, 4)]"

lemma unat_v4_addr: "unat (v4_addr a b c d) = (((a * 256 + b) * 256 + c) * 256 + d) mod 2 ^ 32"
  by (simp only: v4_addr_def unat_of_nat) simp

lemma unat_drop_div: "unat (drop_bit n v) = unat v div 2 ^ n"
  by (subst unat_drop_bit_eq) (rule drop_bit_eq_div)

lemma octets_div:
  "octets v = (unat v div 65536 div 256, unat v div 65536 mod 256)"
  by (simp only: octets_def unat_drop_div) (simp add: div_mult2_eq[symmetric])

lemma numbers_div:
  "v = 0xFFFFFFFF \<longleftrightarrow> unat v = 4294967295" "v = 0 \<longleftrightarrow> unat v = 0"
  "is_documentation_v4 v \<longleftrightarrow> unat v div 256 \<in> {0xC00002, 0xC63364, 0xCB0071}"
proof -
  have "drop_bit 8 v \<in> {0xC00002, 0xC63364, 0xCB0071} \<longleftrightarrow> unat (drop_bit 8 v) \<in> {0xC00002, 0xC63364, 0xCB0071}"
    by (simp add: word_unat_eq_iff)
  then show "is_documentation_v4 v \<longleftrightarrow> unat v div 256 \<in> {0xC00002, 0xC63364, 0xCB0071}"
    unfolding is_documentation_v4_def by (simp only: unat_drop_div) simp
qed (simp_all add: word_unat_eq_iff)

text \<open>The numbers of the networks, read off the upper half of the address.\<close>

lemma reserved_v4_div:
  fixes v :: "32 word"
  defines "m \<equiv> unat v div 65536"
  shows "list_ex (\<lambda>(net, p). network_contains (V4 net) p (V4 v)) reserved_v4 \<longleftrightarrow>
    m div 256 = 0 \<or> m div 256 = 10 \<or> m div 64 = 401 \<or> m div 256 = 127 \<or> m = 43518 \<or> m div 16 = 2753 \<or>
    m = 49152 \<or> m = 49320 \<or> m div 2 = 25353 \<or> unat v div 256 = 0xC63364 \<or> unat v div 256 = 0xCB0071 \<or>
    m div 4096 = 14 \<or> m div 4096 = 15"
proof -
  have d: "m div 256 = unat v div 16777216" "m div 64 = unat v div 4194304" "m div 16 = unat v div 1048576"
    "m div 2 = unat v div 131072" "m div 4096 = unat v div 268435456"
    by (simp_all add: m_def div_mult2_eq[symmetric])
  show ?thesis
    unfolding reserved_v4_def d
    by (simp del: network_contains.simps add: v4_network unat_v4_addr m_def)
qed

lemma upper_half:
  fixes m :: nat
  obtains a b where "m = 256 * a + b" "b < 256" "m div 256 = a" "m mod 256 = b"
    "m div 64 = 4 * a + b div 64" "m div 16 = 16 * a + b div 16" "m div 2 = 128 * a + b div 2" "m div 4096 = a div 16"
proof -
  define a b where "a = m div 256" and "b = m mod 256"
  have m: "m = 256 * a + b" by (simp add: a_def b_def)
  have "(b + 64 * (4 * a)) div 64 = 4 * a + b div 64" "(b + 16 * (16 * a)) div 16 = 16 * a + b div 16"
    "(b + 2 * (128 * a)) div 2 = 128 * a + b div 2" by (simp_all only: div_mult_self2)
  moreover have "m div 4096 = a div 16" by (simp add: a_def div_mult2_eq[symmetric])
  moreover have "b < 256" by (simp add: b_def)
  ultimately show thesis using that[of a b] m by (simp add: a_def[symmetric] b_def[symmetric] ac_simps)
qed

lemma quotient_iff:
  fixes b k q :: nat
  assumes "0 < k"
  shows "b div k = q \<longleftrightarrow> k * q \<le> b \<and> b < k * q + k"
  using assms by (metis div_nat_eqI dividend_less_times_div mult.commute mult_Suc_right times_div_less_eq_dividend add.commute)

lemma halves_iff:
  fixes m q r :: nat
  assumes "r < 256"
  shows "m = 256 * q + r \<longleftrightarrow> m div 256 = q \<and> m mod 256 = r"
  using assms mult_div_mod_eq[of 256 m] by auto

lemma upper_half_cases:
  fixes m :: nat
  shows "m div 64 = 401 \<longleftrightarrow> m div 256 = 100 \<and> 64 \<le> m mod 256 \<and> m mod 256 \<le> 127"
    "m = 43518 \<longleftrightarrow> m div 256 = 169 \<and> m mod 256 = 254"
    "m div 16 = 2753 \<longleftrightarrow> m div 256 = 172 \<and> 16 \<le> m mod 256 \<and> m mod 256 \<le> 31"
    "m = 49152 \<longleftrightarrow> m div 256 = 192 \<and> m mod 256 = 0"
    "m = 49320 \<longleftrightarrow> m div 256 = 192 \<and> m mod 256 = 168"
    "m div 2 = 25353 \<longleftrightarrow> m div 256 = 198 \<and> 18 \<le> m mod 256 \<and> m mod 256 \<le> 19"
    "m div 4096 = 14 \<longleftrightarrow> 224 \<le> m div 256 \<and> m div 256 \<le> 239"
proof -
  obtain a b where d: "m = 256 * a + b" "b < 256" "m div 256 = a" "m mod 256 = b"
    "m div 64 = 4 * a + b div 64" "m div 16 = 16 * a + b div 16" "m div 2 = 128 * a + b div 2" "m div 4096 = a div 16"
    by (rule upper_half)
  show "m div 64 = 401 \<longleftrightarrow> m div 256 = 100 \<and> 64 \<le> m mod 256 \<and> m mod 256 \<le> 127"
  proof -
    have "4 * a + q = 401 \<longleftrightarrow> a = 100 \<and> q = 1" if "q < 4" for q :: nat using that by presburger
    from this[of "b div 64"] show ?thesis
      using d(2) quotient_iff[of 64 b 1] less_mult_imp_div_less[of b 4 64] unfolding d(3,4,5) by auto
  qed
  show "m div 16 = 2753 \<longleftrightarrow> m div 256 = 172 \<and> 16 \<le> m mod 256 \<and> m mod 256 \<le> 31"
  proof -
    have "16 * a + q = 2753 \<longleftrightarrow> a = 172 \<and> q = 1" if "q < 16" for q :: nat using that by presburger
    from this[of "b div 16"] show ?thesis
      using d(2) quotient_iff[of 16 b 1] less_mult_imp_div_less[of b 16 16] unfolding d(3,4,6) by auto
  qed
  show "m div 2 = 25353 \<longleftrightarrow> m div 256 = 198 \<and> 18 \<le> m mod 256 \<and> m mod 256 \<le> 19"
  proof -
    have "128 * a + q = 25353 \<longleftrightarrow> a = 198 \<and> q = 9" if "q < 128" for q :: nat using that by presburger
    from this[of "b div 2"] show ?thesis
      using d(2) quotient_iff[of 2 b 9] less_mult_imp_div_less[of b 128 2] unfolding d(3,4,7) by auto
  qed
  show "m div 4096 = 14 \<longleftrightarrow> 224 \<le> m div 256 \<and> m div 256 \<le> 239"
    using quotient_iff[of 16 a 14] unfolding d(3,8) by auto
  show "m = 43518 \<longleftrightarrow> m div 256 = 169 \<and> m mod 256 = 254" using halves_iff[of 254 m 169] by simp
  show "m = 49152 \<longleftrightarrow> m div 256 = 192 \<and> m mod 256 = 0" using halves_iff[of 0 m 192] by simp
  show "m = 49320 \<longleftrightarrow> m div 256 = 192 \<and> m mod 256 = 168" using halves_iff[of 168 m 192] by simp
qed

text \<open>C35. An IPv4 address counts as globally routable exactly when none of the reserved ranges contains it: the tests on
  its octets agree with the network test the guard applies to configured networks.\<close>

theorem routable_v4_exact:
  "is_globally_routable (V4 v) \<longleftrightarrow> \<not> list_ex (\<lambda>(net, p). network_contains (V4 net) p (V4 v)) reserved_v4"
proof -
  define m where "m = unat v div 65536"
  have "unat v < 2 ^ LENGTH(32)" by (rule unsigned_less)
  then have bound: "m div 256 < 256" by (simp add: m_def div_mult2_eq[symmetric] less_mult_imp_div_less)
  have "m div 4096 = m div 256 div 16" by (simp add: div_mult2_eq[symmetric])
  then have top: "m div 4096 = 15 \<longleftrightarrow> 240 \<le> m div 256" using bound by auto
  have ends: "unat v = 4294967295 \<Longrightarrow> 240 \<le> m div 256" "unat v = 0 \<Longrightarrow> m div 256 = 0"
    "unat v div 256 = 0xC00002 \<Longrightarrow> m = 49152"
    by (simp_all add: m_def)
  define a b where "a = m div 256" and "b = m mod 256"
  have "is_globally_routable (V4 v) \<longleftrightarrow>
      a \<noteq> 0 \<and> a \<noteq> 127 \<and> \<not> (a = 10 \<or> (a = 172 \<and> 16 \<le> b \<and> b \<le> 31) \<or> (a = 192 \<and> b = 168)) \<and> \<not> (a = 169 \<and> b = 254) \<and>
      unat v \<noteq> 4294967295 \<and> unat v \<noteq> 0 \<and>
      \<not> (unat v div 256 = 0xC00002 \<or> unat v div 256 = 0xC63364 \<or> unat v div 256 = 0xCB0071) \<and>
      \<not> (a = 100 \<and> 64 \<le> b \<and> b \<le> 127) \<and> \<not> (a = 198 \<and> 18 \<le> b \<and> b \<le> 19) \<and>
      \<not> (a = 192 \<and> b = 0) \<and> \<not> (224 \<le> a \<and> a \<le> 239) \<and> \<not> 240 \<le> a"
    by (simp only: is_globally_routable.simps is_globally_routable_v4_def octets_div m_def[symmetric] a_def[symmetric]
        b_def[symmetric] is_loopback_v4_def is_private_v4_def is_link_local_v4_def numbers_div prod.case fst_conv
        prod.inject insert_iff empty_iff simp_thms)
  moreover have "list_ex (\<lambda>(net, p). network_contains (V4 net) p (V4 v)) reserved_v4 \<longleftrightarrow>
      a = 0 \<or> a = 10 \<or> (a = 100 \<and> 64 \<le> b \<and> b \<le> 127) \<or> a = 127 \<or> (a = 169 \<and> b = 254) \<or>
      (a = 172 \<and> 16 \<le> b \<and> b \<le> 31) \<or> (a = 192 \<and> b = 0) \<or> (a = 192 \<and> b = 168) \<or> (a = 198 \<and> 18 \<le> b \<and> b \<le> 19) \<or>
      unat v div 256 = 0xC63364 \<or> unat v div 256 = 0xCB0071 \<or> (224 \<le> a \<and> a \<le> 239) \<or> 240 \<le> a"
    by (simp only: reserved_v4_div m_def[symmetric] upper_half_cases top a_def[symmetric] b_def[symmetric])
  moreover have "unat v = 4294967295 \<Longrightarrow> 240 \<le> a" "unat v = 0 \<Longrightarrow> a = 0"
    "unat v div 256 = 0xC00002 \<Longrightarrow> a = 192 \<and> b = 0"
    using ends upper_half_cases(4)[of m] by (simp_all add: a_def b_def)
  ultimately show ?thesis by argo
qed

section \<open>What a request may reach\<close>

text \<open>The addresses a request with a plan connects to.\<close>

definition plan_addresses :: "net_env \<Rightarrow> fetch_plan \<Rightarrow> ip_addr list" where
  "plan_addresses N plan =
    (case pl_resolved plan of
       Some (_, addrs) \<Rightarrow> addrs
     | None \<Rightarrow> (case url_host (pl_url plan) of
                 Some host \<Rightarrow> (case ne_parse_ip N (literal_host host) of Some ip \<Rightarrow> [ip] | None \<Rightarrow> [])
               | None \<Rightarrow> []))"

lemma allowed_cases:
  "ip_is_allowed p ip \<longleftrightarrow> (if is_cloud_metadata ip then ip_is_explicitly_allowed p ip
     else is_globally_routable ip \<or> ip_is_explicitly_allowed p ip \<or> (fe_allow_private p \<and> is_private_lan ip))"
  by (simp add: ip_is_allowed_def ip_is_explicitly_allowed_def)

lemma resolved_cases:
  assumes "check_resolved p host addrs = None"
  shows "list_all (\<lambda>ip. if is_cloud_metadata ip then ip_is_explicitly_allowed p ip
    else host_is_listed p host \<or> is_globally_routable ip \<or> ip_is_explicitly_allowed p ip \<or>
      (fe_allow_private p \<and> is_private_lan ip)) addrs"
  using assms
  by (auto simp: check_resolved_def list_all_iff list_ex_iff allowed_cases split: if_splits)

text \<open>C34. A URL that passes is an http or https URL, and the request reaches at least one address; none is a cloud metadata
  address without an explicit entry for it, and unless the host name itself is listed, every one is globally
  routable, in a configured network, or in a private range that the policy admits.\<close>

theorem fetch_reaches_allowed_only:
  assumes "validate_inner N raw p = Inr plan"
  shows "url_scheme (pl_url plan) \<in> {''http'', ''https''} \<and> plan_addresses N plan \<noteq> [] \<and>
    list_all (\<lambda>ip. if is_cloud_metadata ip then ip_is_explicitly_allowed p ip
       else (case pl_resolved plan of Some (host, _) \<Rightarrow> host_is_listed p host | None \<Rightarrow> False) \<or>
         is_globally_routable ip \<or> ip_is_explicitly_allowed p ip \<or> (fe_allow_private p \<and> is_private_lan ip))
      (plan_addresses N plan)"
proof -
  obtain u host where u: "ne_parse_url N raw = Some u" "url_scheme u = ''http'' \<or> url_scheme u = ''https''"
    "url_host u = Some host"
    using assms by (auto simp: validate_inner_def split: option.splits if_splits)
  show ?thesis
  proof (cases "ne_parse_ip N (literal_host host)")
    case (Some ip)
    have "ip_is_allowed p ip" "plan = \<lparr>pl_url = u, pl_resolved = None\<rparr>"
      using assms u Some by (auto simp: validate_inner_def split: if_splits)
    with u Some show ?thesis by (simp add: plan_addresses_def allowed_cases)
  next
    case None
    obtain addrs where a: "addrs \<noteq> []" "check_resolved p host addrs = None"
      "plan = \<lparr>pl_url = u, pl_resolved = Some (host, addrs)\<rparr>"
      using assms u None by (auto simp: validate_inner_def split: option.splits if_splits)
    from resolved_cases[OF a(2)] a(1) u(2) show ?thesis by (auto simp: a(3) plan_addresses_def cong: if_cong split del: if_split)
  qed
qed

lemma read_chunks_bound:
  "read_chunks mx body cs = Some r \<Longrightarrow> length body \<le> mx \<Longrightarrow> length r \<le> mx \<and> None \<notin> set cs \<and> r = body @ concat (map the cs)"
  by (induction mx body cs rule: read_chunks.induct) (auto split: if_splits)

text \<open>The body of a fetched file is bounded by the limit however it arrives, and is all that arrived.\<close>

theorem fetched_body_bounded:
  assumes "read_response_bytes_limited mx content_length chunks = Some body"
  shows "length body \<le> mx \<and> None \<notin> set chunks \<and> body = concat (map the chunks)"
proof -
  have "read_chunks mx [] chunks = Some body"
    using assms by (simp add: read_response_bytes_limited_def split: if_splits)
  from read_chunks_bound[OF this] show ?thesis by auto
qed

lemmas address_simps = is_cloud_metadata_v4_def v4_addr_def to_ipv4_mapped_def segment0_def segment1_def octets_def
  is_unique_local_def is_globally_routable_v4_def is_loopback_v4_def is_private_v4_def is_link_local_v4_def
  is_documentation_v4_def is_private_lan_v4_def

text \<open>The forms of an IPv4 address behind the NAT64 prefix \<open>64:ff9b::/96\<close>, as 6to4 address, and the compatible one.\<close>

definition nat64_form :: "32 word \<Rightarrow> ip_addr" where
  "nat64_form v = V6 (push_bit 96 0x64FF9B OR ucast v)"

definition sixtofour_form :: "32 word \<Rightarrow> ip_addr" where
  "sixtofour_form v = V6 (push_bit 112 0x2002 OR push_bit 80 (ucast v))"

definition compatible_form :: "32 word \<Rightarrow> ip_addr" where
  "compatible_form v = V6 (ucast v)"

lemma drop_ucast: "32 \<le> n \<Longrightarrow> drop_bit n (ucast (v :: 32 word) :: 128 word) = 0"
proof (rule bit_word_eqI)
  fix k
  assume "32 \<le> n"
  then have "\<not> bit v (n + k)" using bit_imp_le_length[of v "n + k"] by auto
  then show "bit (drop_bit n (ucast v :: 128 word)) k = bit (0 :: 128 word) k" by (simp add: bit_simps)
qed

lemma segment0_forms:
  fixes v :: "32 word"
  shows "segment0 (push_bit 96 0x64FF9B OR ucast v) = 0x64" "segment0 (push_bit 112 0x2002 OR push_bit 80 (ucast v)) = 0x2002"
  "segment0 (ucast v) = 0"
proof -
  have "drop_bit 112 (push_bit 80 (ucast v) :: 128 word) = 0"
  proof (rule bit_word_eqI)
    fix k
    have "\<not> bit v (32 + k)" using bit_imp_le_length[of v "32 + k"] by auto
    then show "bit (drop_bit 112 (push_bit 80 (ucast v) :: 128 word)) k = bit (0 :: 128 word) k" by (auto simp: bit_simps)
  qed
  then show "segment0 (push_bit 112 0x2002 OR push_bit 80 (ucast v)) = 0x2002" by (simp add: segment0_def)
qed (simp_all add: segment0_def drop_ucast)

lemma mapped_segment0:
  assumes "to_ipv4_mapped w = Some v4"
  shows "segment0 w = 0"
proof -
  have "drop_bit 32 w = 0xFFFF" using assms by (simp add: to_ipv4_mapped_def split: if_splits)
  from arg_cong[OF this, of "drop_bit 80"] show ?thesis by (simp add: segment0_def)
qed

lemma routable_by_segment:
  assumes "segment0 w = 0x64 \<or> segment0 w = 0x2002"
  shows "is_globally_routable (V6 w) \<and> \<not> is_cloud_metadata (V6 w)"
proof -
  have "to_ipv4_mapped w = None" using mapped_segment0[of w] assms by (cases "to_ipv4_mapped w") auto
  moreover have "w \<noteq> 0" "w \<noteq> 1" "w \<noteq> 0xFD000EC2000000000000000000000254" using assms by (auto simp: segment0_def)
  ultimately show ?thesis using assms by (auto simp: is_unique_local_def)
qed

lemma compatible_routable:
  "\<not> is_cloud_metadata (V6 (ucast (v :: 32 word))) \<and> (is_globally_routable (V6 (ucast v)) \<longleftrightarrow> v \<noteq> 0 \<and> v \<noteq> 1)"
proof -
  have "to_ipv4_mapped (ucast v) = None" by (simp add: to_ipv4_mapped_def drop_ucast)
  moreover have z: "ucast v = (0 :: 128 word) \<longleftrightarrow> v = 0" "ucast v = (1 :: 128 word) \<longleftrightarrow> v = 1"
  proof -
    have inj: "ucast v = (ucast u :: 128 word) \<longleftrightarrow> v = u" for u :: "32 word"
    proof
      assume e: "ucast v = (ucast u :: 128 word)"
      show "v = u"
      proof (rule bit_word_eqI)
        fix k :: nat
        assume "k < LENGTH(32)"
        then show "bit v k = bit u k" using arg_cong[OF e, of "\<lambda>w. bit w k"] by (simp add: bit_simps)
      qed
    qed simp
    show "ucast v = (0 :: 128 word) \<longleftrightarrow> v = 0" "ucast v = (1 :: 128 word) \<longleftrightarrow> v = 1"
      using inj[of 0] inj[of 1] by simp_all
  qed
  moreover have "ucast v \<noteq> (0xFD000EC2000000000000000000000254 :: 128 word)"
  proof
    assume "ucast v = (0xFD000EC2000000000000000000000254 :: 128 word)"
    then have "segment0 0xFD000EC2000000000000000000000254 = 0" using segment0_forms(3)[of v] by simp
    then show False by (simp add: segment0_def)
  qed
  ultimately show ?thesis by (auto simp: segment0_forms is_unique_local_def)
qed

text \<open>C40. A fault.  Of the IPv6 forms of an IPv4 address only the mapped one is looked into.  For every IPv4 address,
  private, loopback or metadata ones included, its form behind the NAT64 prefix and its 6to4 form are allowed by
  every policy, and its compatible form by the strict policy (\<open>::\<close> and \<open>::1\<close> excepted); none of the forms counts as a
  metadata address.\<close>

theorem embedded_ipv4_allowed:
  "ip_is_allowed p (nat64_form v) \<and> ip_is_allowed p (sixtofour_form v) \<and>
   (ip_is_allowed policy_strict (compatible_form v) \<longleftrightarrow> v \<noteq> 0 \<and> v \<noteq> 1) \<and>
   list_all (\<lambda>ip. \<not> is_cloud_metadata ip) [nat64_form v, sixtofour_form v, compatible_form v]"
proof -
  have "is_globally_routable (nat64_form v) \<and> \<not> is_cloud_metadata (nat64_form v)"
    "is_globally_routable (sixtofour_form v) \<and> \<not> is_cloud_metadata (sixtofour_form v)"
    unfolding nat64_form_def sixtofour_form_def by (rule routable_by_segment, simp only: segment0_forms simp_thms)+
  moreover have "\<not> is_cloud_metadata (compatible_form v) \<and> (is_globally_routable (compatible_form v) \<longleftrightarrow> v \<noteq> 0 \<and> v \<noteq> 1)"
    unfolding compatible_form_def by (rule compatible_routable)
  ultimately show ?thesis by (simp add: ip_is_allowed_def policy_strict_def)
qed

section \<open>Witnesses\<close>

definition fetch_net :: net_env where
  "fetch_net = \<lparr>ne_parse_url = \<lambda>s. Some \<lparr>url_scheme = ''http'', url_host = Some s, url_port = None\<rparr>,
     ne_parse_ip = \<lambda>_. None, ne_lookup = \<lambda>_ _. Some [V4 0x08080808]\<rparr>"

theorem fetch_reaches_allowed_only_witness:
  "validate_inner fetch_net ''h'' policy_strict =
     Inr \<lparr>pl_url = \<lparr>url_scheme = ''http'', url_host = Some ''h'', url_port = None\<rparr>,
          pl_resolved = Some (''h'', [V4 0x08080808])\<rparr> \<and>
   is_globally_routable (V4 0x08080808)"
proof -
  have meta: "\<not> is_cloud_metadata (V4 0x08080808)" by (simp add: address_simps)
  have "ip_is_allowed policy_strict (V4 0x08080808)" by (simp add: ip_is_allowed_def meta address_simps)
  then have e: "validate_inner fetch_net ''h'' policy_strict =
     Inr \<lparr>pl_url = \<lparr>url_scheme = ''http'', url_host = Some ''h'', url_port = None\<rparr>,
          pl_resolved = Some (''h'', [V4 0x08080808])\<rparr>"
    using meta by (simp add: validate_inner_def fetch_net_def check_resolved_def host_is_listed_def policy_strict_def)
  from fetch_reaches_allowed_only[OF e] e meta show ?thesis
    by (simp add: plan_addresses_def host_is_listed_def policy_strict_def ip_is_explicitly_allowed_def)
qed

theorem fetched_body_bounded_witness: "length [1::nat, 2, 3] \<le> 3"
  using fetched_body_bounded[of 3 None "[Some [1::nat, 2], Some [3]]" "[1, 2, 3]"]
  by (simp add: read_response_bytes_limited_def)

end
