(* ===== verification/Spec2Isabelle.thy ===== *)
theory Spec2Isabelle
  imports News_Worker_Proofs Damage_Ledger_Proofs Repair_Fold_Solve Conn_Budget Article_Cache_Proofs Slice_Map_Proofs Assembler_Proofs Engine_Queue_Proofs Slice_Tracker_Proofs Engine_Names_Proofs Engine_Decode_Proofs Engine_Demo Queue_Hopeless_Proofs Queue_Checkpoint_Proofs Queue_Pause_Proofs Queue_Demo Core_Path_Proofs Core_Schedule_Proofs Web_Fetch_Proofs
begin

text \<open>
  rustnzb, a Usenet downloader: its download engines, its decoding layer and its queue manager.

  \<^bold>\<open>The program.\<close>  A job is parsed from an NZB file: files, each a list of articles (segments).  The queue
  manager (\<open>crates/nzb-web/src/queue_manager.rs\<close>) decides which jobs download, under a limit on their number and
  under global holds of the user, the disk guard and the schedule.  It hands a job to the dispatcher
  (\<open>crates/nzb-dispatch\<close>), whose worker pool fetches the articles of all jobs from the configured servers, decodes
  them, writes them to disk through the assembler (\<open>crates/nzb-decode\<close>), checks the PAR2 slices as they fill, and
  reports over a progress channel.  A second, independent engine (\<open>crates/nzb-news\<close>) has one scheduler task
  that distributes articles to per-server queues from which wrapper workers fetch in pipelined batches.  Both rest on the NNTP
  layer (\<open>crates/nzb-nntp\<close>).

  \<^bold>\<open>Conventions.\<close>  One definition per method or per part of a method between two points where it releases its locks.
  What a method reads from outside (clock, replies of a server, the file system's answers, third-party
  parsers and hashes) is an argument or a record of functions (\<open>engine_env\<close>, \<open>queue_env\<close>, \<open>hashes\<close>, \<open>io\<close>).  Errors are
  values of a sum or an option; a panic is \<open>None\<close>.  32-bit counters that wrap or saturate are words; a
  64-bit counter is a natural number with its wrap-around or saturation written out.  Shared objects behind
  \<open>Arc\<close> are addresses into a heap (\<open>News_Article\<close>, the job contexts of \<open>Engine_Pool\<close>).  Hash maps are
  association lists.  Concurrency is a step relation whose steps are the lock-protected sections.

  \<^bold>\<open>NNTP and the scheduler engine.\<close>
  \<open>Nntp_Error\<close>, \<open>Server_Config\<close>, \<open>Nntp_Conn\<close>, \<open>Pipeline\<close>: errors, configuration, the line level, pipelined ARTICLE and
  STAT.  A reply is paired with the oldest request, and absence is only read off a 430.
  \<open>Conn_Budget\<close>: connection permits by tier under floors; never over-allocated.
  \<open>News_Article\<close>, \<open>News_Wrapper\<close>, \<open>News_Server\<close>, \<open>News_Dispatch\<close>, \<open>News_Queue\<close>, \<open>News_Probe\<close>, \<open>News_Supervisor\<close>,
  \<open>News_Scheduler\<close>, \<open>News_Loop\<close>, \<open>News_Worker\<close>: try-lists and articles, connections, servers with penalties, server
  selection, queues, backup probing, respawning, the dispatch pass, message handling, the workers
  (\<open>article.rs\<close>, \<open>news_wrapper.rs\<close>, \<open>server.rs\<close>, \<open>dispatch.rs\<close>, \<open>downloader.rs\<close>).  \<open>News_Dispatch_Proofs\<close>, \<open>News_Pass\<close>,
  \<open>News_Loop_Proofs\<close>, \<open>News_Turn\<close> and \<open>News_Worker_Proofs\<close> show that a pass loses nothing, ends when an enabled server has a
  live worker (and does not otherwise), reports failures only on evidence, and that every message and batch is settled once.

  \<^bold>\<open>Decoding and disk.\<close>
  \<open>Article_Cache\<close>, \<open>Assembler\<close>, \<open>Slice_Map\<close> and their proofs (\<open>cache.rs\<close>, \<open>assembler.rs\<close>, \<open>slice_map.rs\<close>): the cache refines a
  finite map; articles may arrive in any order and completion is reported once; a slice is reported when its last byte
  is on disk.
  \<open>Repair_Fold\<close> (\<open>repair_fold.rs\<close>): the accumulator rows of the repair in flight.  \<open>Repair_Fold_Rows\<close> says what the rows hold (sums of
  slices over a field with named laws, \<open>gf_laws\<close>), \<open>Repair_Fold_Proofs\<close> that every operation keeps it, \<open>Repair_Fold_Solve\<close>
  that the solve gives back the damaged slices after any history.

  \<^bold>\<open>The job engine\<close> (\<open>crates/nzb-dispatch/src\<close>).
  \<open>Core_Models\<close>, \<open>Engine_Types\<close>: job records, failure taxonomy, progress messages.  \<open>Engine_Queue\<close>: the shared work queue and
  the circuit breaker.  \<open>Par2_Match\<close>, \<open>Slice_Tracker\<close>: matching NZB files to a PAR2 set and following its slices.
  \<open>Engine_Names\<close>: renames at the end of a job.  \<open>Engine_Decode\<close>: one article on its way to disk.  \<open>Engine_Held\<close>, \<open>Engine_Job\<close>,
  \<open>Engine_Pool\<close>, \<open>Engine_Worker\<close>: held recovery volumes, the context of a job, the pool, both worker loops.  \<open>Engine_World\<close> puts
  them together as a transition system; \<open>Engine_World_Proofs\<close> and \<open>Engine_Steps_Proofs\<close> prove its accounting (every
  unresolved article is in exactly one place, one terminal message per job); \<open>Engine_Props\<close> and \<open>Engine_Demo\<close> hold single steps,
  faults and concrete runs.

  \<^bold>\<open>The queue manager\<close> (\<open>queue_manager.rs\<close>).
  \<open>Queue_Hopeless\<close>: giving up a job that cannot complete; its counters, its tiers, and that an abort by parity is
  proven.  \<open>Queue_Checkpoint\<close>: checkpoints and retries.  \<open>Queue_Pause\<close>: the holds of a global pause and the settings they
  outlive a restart in.  \<open>Queue_Manager\<close>: the job table, claiming a slot and starting a job, over the record \<open>dispatcher\<close> that
  stands for the trait \<open>DispatchEngine\<close>.  \<open>Queue_Ops\<close>: the limit, preemption, order, admission, pause, resume, removal, end of a
  download.  \<open>Queue_Global\<close>: global pause and resume, timed pause, schedule, disk guard, servers, start-up.
  \<open>Queue_Inv\<close> states the invariant and the locale \<open>dispatch_engine\<close> (the laws of a dispatcher: an operation on one job starts no
  other); \<open>Queue_Steps\<close> proves inside it that every operation keeps the invariant, and defines the reachable states.
  \<open>Queue_Pool\<close> interprets the locale with the worker pool.  \<open>Queue_Limits\<close> draws the properties: the pool never fetches more
  jobs than the limit allows and none while the queue is paused, slots go by priority and do not stay idle; and
  five histories that break these.  \<open>Queue_Demo\<close> runs them.

  \<^bold>\<open>The damage ledger.\<close>  \<open>Damage_Ledger\<close> (\<open>crates/nzb-core/src/damage_ledger.rs\<close>, \<open>crates/nzb-web/src/damage_recorder.rs\<close>): what
  the servers said of each article, and the batches that record it.  \<open>Damage_Ledger_Proofs\<close>: an article is skipped only when every
  enabled server refused it, a second or more after a first refusal and less than a day ago; the table refines one state
  machine per article; an expired hole is never renewed.

  \<^bold>\<open>What comes from outside.\<close>
  \<open>Core_Path\<close> (\<open>crates/nzb-core/src/path.rs\<close>): joining untrusted names, sanitising job names, passwords in names.  A joined name
  stays beneath its directory, a sanitised name is one safe component of at most 240 bytes.  \<open>Core_Schedule\<close>
  (\<open>schedule.rs\<close>): the rules of the time-of-day schedule; windows agree with a reference on one continuous time
  line, and what the rules decide together is stated as sets over the active rules.  The windows are those of \<open>Queue_Pause\<close>.
  \<open>Web_Fetch\<close> (\<open>crates/nzb-web/src/fetch_guard.rs\<close>): which addresses a server-side fetch may reach; the octet tests agree with
  a list of reserved networks.

  \<^bold>\<open>Interfaces.\<close>  \<open>map_store\<close> (the cache), \<open>fifo\<close> (the per-server queue), \<open>server_exclusion\<close> (try-lists), \<open>dispatch_engine\<close> (the
  pool under the queue manager) and \<open>loop_body\<close> of \<open>Prelude\<close> are locales, interpreted on the definitions of the component that provides them.

  \<^bold>\<open>Loops and fuel.\<close>  Loops whose end depends on the state have a measure (\<open>start_next_queued\<close>: queued jobs; \<open>requeue_over_limit\<close>
  and \<open>preempt_if_needed\<close>: active jobs) or run under \<open>run_loop\<close> of \<open>Prelude\<close> with fuel.  The dispatch pass is shown to
  return within (pending + 1) * (servers + 2) rounds when an enabled server is alive, and to use up any fuel
  in the case in which the code spins; \<open>cache_store_returns_iff\<close> says when the eviction loop ends.

  \<^bold>\<open>Faults.\<close>  Some theorems state what the code does where it does not do what it means to; each says so in its text.  Among
  them: a global pause between the claim of a slot and the start of its job does not stop the job; resuming a
  downloading job at the limit frees its slot without stopping it; removing a job leaves its slot idle; the disk
  guard makes a timed pause permanent; a checkpoint confuses files of one name; an article that a removed server
  was the last to be asked for is stranded; a job name cut to its length can become a device name of Windows; the
  fetch guard lets every IPv4 address through in IPv6 forms other than the mapped one, whatever its IPv4 policy says.

  \<^bold>\<open>Scope of the properties.\<close>  The steps of the queue manager (\<open>queue_step\<close>) are whole operations, and the resume of a
  downloading job is not among them; \<open>dispatcher_respects_limit\<close> and \<open>queue_states_well_formed\<close> speak of the states reached by
  such steps, and the histories of \<open>Queue_Limits\<close> show what lies outside.  \<open>message_conserved\<close> is about the message loop, not the
  final drain of a shutdown, which drops what workers return.  \<open>finish_has_enough_recovery\<close> is about a job that finishes by
  resolving its last article and was not cancelled.  \<open>parity_abort_is_proven\<close> and \<open>retry_asks_for_every_missing_article\<close>
  list in their texts what they assume of the parsed NZB and of the recovery set.

  \<^bold>\<open>Not modelled.\<close>  Sockets, TLS, authentication and compression (outcomes of a connect are arguments); the yEnc decoder, the
  PAR2 parser and repair, MD5, CRC32 and the field arithmetic (third party, parameters); how the tracker drives the repair fold; bandwidth limits and connection
  semaphores (third-party token buckets and semaphores); SQL, configuration files, NZB XML (parameters or record fields); the
  post-processing pipeline, which drives external tools; the web server and its compatibility layers; log lines,
  telemetry, notifications and events.  In the queue manager, also renaming a job and changing its category, history maintenance and
  the rows of idempotent admission.  Names are ASCII where the code lower-cases or compares them.
\<close>

end
